(* ===== verification/Prelude.thy ===== *)
theory Prelude
  imports Main "HOL-Library.Word" "HOL-Library.Monad_Syntax"
begin

text \<open>
  Shared vocabulary of the development: the error-sum monad in which the Bitcoin Script
  machine runs, checked machine arithmetic of the Rust generators, and the generic list
  lemmas on stack positions that the component theories use.
\<close>

named_theorems exec_simps \<open>symbolic execution rules of the script machine\<close>
named_theorems pos_simps \<open>reading and removing at a position of a structured stack\<close>

section \<open>Results\<close>

text \<open>Sequencing of fallible computations: the first error wins.\<close>

definition and_then :: "'e + 'a \<Rightarrow> ('a \<Rightarrow> 'e + 'b) \<Rightarrow> 'e + 'b" where
  "and_then r f = (case r of Inl e \<Rightarrow> Inl e | Inr x \<Rightarrow> f x)"

lemma and_then_simps [simp]:
  "and_then (Inl e) f = Inl e"
  "and_then (Inr x) f = f x"
  by (simp_all add: and_then_def)

lemma and_then_assoc: "and_then (and_then r f) g = and_then r (\<lambda>x. and_then (f x) g)"
  by (cases r) simp_all

lemma and_then_Inr_iff: "and_then r f = Inr y \<longleftrightarrow> (\<exists>x. r = Inr x \<and> f x = Inr y)"
  by (cases r) auto

section \<open>Checked Rust arithmetic\<close>

text \<open>
  A \<open>u32\<close> or \<open>usize\<close> subtraction below zero panics in a checked build: the generators
  that subtract return no script then.
\<close>

definition checked_sub :: "nat \<Rightarrow> nat \<Rightarrow> nat option" where
  "checked_sub a b = (if b \<le> a then Some (a - b) else None)"

lemma checked_sub_simps [simp]:
  "b \<le> a \<Longrightarrow> checked_sub a b = Some (a - b)"
  "a < b \<Longrightarrow> checked_sub a b = None"
  by (simp_all add: checked_sub_def)

lemma checked_sub_Some_iff: "checked_sub a b = Some c \<longleftrightarrow> b \<le> a \<and> c = a - b"
  by (auto simp: checked_sub_def)

text \<open>\<open>assert!\<close>: a failed assertion panics, the generator returns no script.\<close>

definition rust_assert :: "bool \<Rightarrow> unit option" where
  "rust_assert b = (if b then Some () else None)"

lemma rust_assert_simps [simp]:
  "rust_assert True = Some ()"
  "rust_assert False = None"
  by (simp_all add: rust_assert_def)

lemma rust_assert_eq_Some_iff [simp]: "rust_assert b = Some u \<longleftrightarrow> b"
  by (simp add: rust_assert_def)

lemma rust_assert_bind_Some_iff:
  "rust_assert b \<bind> f = Some x \<longleftrightarrow> b \<and> f () = Some x"
  by (simp add: rust_assert_def)

lemma int_div_less:
  assumes "0 < m" "x < k * (m :: int)"
  shows "x div m < k"
proof (rule ccontr)
  assume "\<not> x div m < k"
  then have "k * m \<le> x div m * m" using assms(1) by (intro mult_right_mono) simp_all
  also have "\<dots> \<le> x"
    using mult_div_mod_eq [of m x] pos_mod_sign [OF assms(1), of x]
    by (simp only: mult.commute [of "x div m"])
  finally show False using assms(2) by simp
qed

text \<open>A loop over a list whose body may panic.\<close>

fun fold_option :: "('m \<Rightarrow> 'x \<Rightarrow> 'm option) \<Rightarrow> 'm \<Rightarrow> 'x list \<Rightarrow> 'm option" where
  "fold_option f m [] = Some m"
| "fold_option f m (x # xs) = f m x \<bind> (\<lambda>m'. fold_option f m' xs)"

lemma fold_option_append:
  "fold_option f m (xs @ ys) = fold_option f m xs \<bind> (\<lambda>m'. fold_option f m' ys)"
  by (induction xs arbitrary: m) (simp_all add: bind_assoc split: Option.bind_splits)

section \<open>Machine integers\<close>

type_synonym u32 = "32 word"
type_synonym u64 = "64 word"

section \<open>Stack positions\<close>

text \<open>Removing the element at a position, as \<open>OP_ROLL\<close> does.\<close>

definition remove_nth :: "nat \<Rightarrow> 'a list \<Rightarrow> 'a list" where
  "remove_nth n xs = take n xs @ drop (Suc n) xs"

lemma remove_nth_0 [simp]: "remove_nth 0 (x # xs) = xs"
  by (simp add: remove_nth_def)

lemma remove_nth_Suc [simp]: "remove_nth (Suc n) (x # xs) = x # remove_nth n xs"
  by (simp add: remove_nth_def)

lemma remove_nth_numeral [simp]:
  "remove_nth (numeral k) (x # xs) = x # remove_nth (pred_numeral k) xs"
  by (simp add: numeral_eq_Suc)

lemma remove_nth_1 [simp]: "remove_nth 1 (x # y # xs) = x # xs"
  by (simp add: remove_nth_def)

lemma length_remove_nth [simp]: "n < length xs \<Longrightarrow> length (remove_nth n xs) = length xs - 1"
  by (simp add: remove_nth_def)

lemma nth_append_length_eq: "n = length us \<Longrightarrow> (us @ x # t) ! n = x"
  by simp

lemma remove_nth_append_length: "n = length us \<Longrightarrow> remove_nth n (us @ x # t) = us @ t"
  by (simp add: remove_nth_def)

lemma remove_nth_append [simp]:
  "n < length xs \<Longrightarrow> remove_nth n (xs @ ys) = remove_nth n xs @ ys"
  by (simp add: remove_nth_def)

lemma concat_replicate_Suc: "concat (replicate (Suc n) xs) = xs @ concat (replicate n xs)"
  by simp


text \<open>Reading and removing at a computed position of a stack written as a concatenation.\<close>

lemma remove_nth_Cons' [pos_simps]:
  "remove_nth n (x # xs) = (if n = 0 then xs else x # remove_nth (n - 1) xs)"
  by (cases n) simp_all

lemma remove_nth_append' [pos_simps]:
  "remove_nth n (xs @ ys) =
     (if n < length xs then remove_nth n xs @ ys else xs @ remove_nth (n - length xs) ys)"
  by (auto simp: remove_nth_def Suc_diff_le)

declare nth_Cons' [pos_simps] nth_append [pos_simps]

text \<open>A list split at one or two of its positions.\<close>

lemma split_at:
  assumes "i < length xs"
  obtains us ts where "xs = us @ xs ! i # ts" "length us = i"
proof
  show "xs = take i xs @ xs ! i # drop (Suc i) xs"
    using assms by (rule id_take_nth_drop)
  show "length (take i xs) = i" using assms by simp
qed

lemma split_at2:
  assumes "i < j" "j < length xs"
  obtains us vs ts where "xs = us @ xs ! i # vs @ xs ! j # ts" "length us = i" "length vs = j - i - 1"
proof -
  obtain us rest where 1: "xs = us @ xs ! i # rest" "length us = i"
    using split_at [of i xs] assms by auto
  have j: "j - i - 1 < length rest"
  proof -
    have "length xs = i + 1 + length rest" using 1 by (metis length_append length_Cons add.assoc plus_1_eq_Suc)
    then show ?thesis using assms by linarith
  qed
  obtain vs ts where 2: "rest = vs @ rest ! (j - i - 1) # ts" "length vs = j - i - 1"
    using split_at [OF j] by auto
  have "xs ! j = (us @ xs ! i # rest) ! j"
    by (rule arg_cong [OF 1(1)])
  also have "\<dots> = rest ! (j - i - 1)"
    using assms 1(2) by (simp add: nth_append nth_Cons')
  finally have "xs ! j = rest ! (j - i - 1)" .
  then have "xs = us @ xs ! i # vs @ xs ! j # ts" using 1 2 by simp
  then show ?thesis using that 1 2 by simp
qed

end
