(* ===== verification/Script_Machine.thy ===== *)
theory Script_Machine
  imports Prelude
begin

text \<open>
  The target language of the repository: Bitcoin Script as the tapscript interpreter runs
  it.  Stack items are byte vectors; numbers are read from and written to them in the
  sign-magnitude little-endian encoding of the consensus rules, at most four bytes long
  when read.  Every failure of the interpreter is an error value.  The hash function and
  the rule on non-minimal numbers are parameters of the machine.
\<close>

section \<open>Items and numbers\<close>

type_synonym byte = "8 word"
type_synonym item = "byte list"

fun nat_to_le :: "nat \<Rightarrow> item" where
  "nat_to_le n = (if n = 0 then [] else word_of_nat n # nat_to_le (n div 256))"

declare nat_to_le.simps [simp del]

fun le_to_nat :: "item \<Rightarrow> nat" where
  "le_to_nat [] = 0"
| "le_to_nat (b # bs) = unat b + 256 * le_to_nat bs"

text \<open>The minimal encoding of a number; the top bit of the last byte is the sign.\<close>

definition scriptnum :: "int \<Rightarrow> item" where
  "scriptnum z =
     (let m = nat_to_le (nat \<bar>z\<bar>) in
      if m = [] then []
      else if 128 \<le> unat (last m) then m @ [if z < 0 then 128 else 0]
      else if z < 0 then butlast m @ [last m + 128] else m)"

definition scriptnum_value :: "item \<Rightarrow> int" where
  "scriptnum_value v =
     (if v = [] then 0
      else if 128 \<le> unat (last v) then - int (le_to_nat (butlast v @ [last v - 128]))
      else int (le_to_nat v))"

lemma nat_to_le_0 [simp]: "nat_to_le 0 = []"
  by (simp add: nat_to_le.simps)

lemma nat_to_le_eq_Nil_iff [simp]: "nat_to_le n = [] \<longleftrightarrow> n = 0"
  by (subst nat_to_le.simps) simp

lemma le_to_nat_nat_to_le [simp]: "le_to_nat (nat_to_le n) = n"
proof (induction n rule: nat_to_le.induct)
  case (1 n)
  show ?case
  proof (cases "n = 0")
    case False
    then have "le_to_nat (nat_to_le (n div 256)) = n div 256" using 1 by simp
    then show ?thesis
      using False by (subst nat_to_le.simps) (simp add: unat_of_nat)
  qed simp
qed

lemma le_to_nat_append: "le_to_nat (xs @ ys) = le_to_nat xs + 256 ^ length xs * le_to_nat ys"
  by (induction xs) (simp_all add: algebra_simps)

lemma length_nat_to_le: "length (nat_to_le n) \<le> k \<longleftrightarrow> n < 256 ^ k"
proof (induction k arbitrary: n)
  case (Suc k)
  show ?case
  proof (cases "n = 0")
    case False
    then have "length (nat_to_le n) \<le> Suc k \<longleftrightarrow> length (nat_to_le (n div 256)) \<le> k"
      by (subst nat_to_le.simps) simp
    also have "\<dots> \<longleftrightarrow> n div 256 < 256 ^ k" by (rule Suc.IH)
    also have "\<dots> \<longleftrightarrow> n < 256 ^ Suc k" by (simp add: div_less_iff_less_mult mult.commute)
    finally show ?thesis .
  qed simp
qed simp

text \<open>A number splits into its last byte and the rest.\<close>

lemma le_to_nat_butlast_last:
  assumes "m \<noteq> []"
  shows "le_to_nat m = le_to_nat (butlast m) + 256 ^ (length m - 1) * unat (last m)"
proof -
  have "le_to_nat (butlast m @ [last m]) = le_to_nat (butlast m) + 256 ^ (length m - 1) * unat (last m)"
    by (simp add: le_to_nat_append)
  then show ?thesis using assms by simp
qed

lemma unat_byte_plus_128: "unat b < 128 \<Longrightarrow> unat ((b :: byte) + 128) = unat b + 128"
  by (simp add: unat_word_ariths)

lemma scriptnum_value_scriptnum [simp]: "scriptnum_value (scriptnum z) = z"
proof -
  define m where "m = nat_to_le (nat \<bar>z\<bar>)"
  have val: "le_to_nat m = nat \<bar>z\<bar>" by (simp add: m_def)
  consider (zero) "m = []"
    | (big) "m \<noteq> []" "128 \<le> unat (last m)"
    | (small) "m \<noteq> []" "unat (last m) < 128" by linarith
  then show ?thesis
  proof cases
    case zero
    then show ?thesis by (simp add: scriptnum_def scriptnum_value_def m_def Let_def)
  next
    case big
    then show ?thesis
      using val by (auto simp: scriptnum_def scriptnum_value_def m_def [symmetric] Let_def
          le_to_nat_append)
  next
    case small
    then have "le_to_nat (butlast m @ [last m + 128 - 128]) = nat \<bar>z\<bar>"
      using val by simp
    then show ?thesis
      using small val unat_byte_plus_128 [of "last m"]
      by (auto simp: scriptnum_def scriptnum_value_def m_def [symmetric] Let_def)
  qed
qed

lemma scriptnum_inject [simp]: "scriptnum a = scriptnum b \<longleftrightarrow> a = b"
  by (metis scriptnum_value_scriptnum)

text \<open>Numbers the arithmetic opcodes accept: four bytes, that is absolute value below $2^{31}$.\<close>

definition num_ok :: "int \<Rightarrow> bool" where
  "num_ok z \<longleftrightarrow> -2147483648 < z \<and> z < 2147483648"

lemma num_ok_range: "0 \<le> z \<Longrightarrow> z < 2147483648 \<Longrightarrow> num_ok z"
  by (simp add: num_ok_def)

lemma nat_to_le_last_le:
  assumes "m = nat_to_le n" "length m = Suc k"
  shows "128 \<le> unat (last m) \<longleftrightarrow> 128 * 256 ^ k \<le> n"
proof -
  have ne: "m \<noteq> []" using assms(2) by (cases m) simp_all
  have n: "n = le_to_nat (butlast m) + 256 ^ k * unat (last m)"
    using le_to_nat_butlast_last [OF ne] assms by simp
  have lt: "le_to_nat (butlast m) < 256 ^ k"
  proof -
    have "le_to_nat xs < 256 ^ length xs" for xs :: item
    proof (induction xs)
      case (Cons b xs)
      have "unat b < 256" using unsigned_less [of b, where ?'a = nat] by simp
      then show ?case using Cons by simp
    qed simp
    from this [of "butlast m"] show ?thesis using assms by simp
  qed
  show ?thesis
  proof
    assume "128 \<le> unat (last m)"
    then show "128 * 256 ^ k \<le> n" unfolding n by (simp add: mult.commute trans_le_add2)
  next
    assume "128 * 256 ^ k \<le> n"
    moreover have "256 ^ k * Suc (unat (last m)) = 256 ^ k + 256 ^ k * unat (last m)"
      by (simp only: mult_Suc_right)
    ultimately have "256 ^ k * 128 < 256 ^ k * Suc (unat (last m))"
      using lt n by linarith
    then have "128 < Suc (unat (last m))" by (simp only: mult_less_cancel1)
    then show "128 \<le> unat (last m)" by linarith
  qed
qed

lemma length_scriptnum_le_4: "length (scriptnum z) \<le> 4 \<longleftrightarrow> num_ok z"
proof -
  define n where "n = nat \<bar>z\<bar>"
  define m where "m = nat_to_le n"
  have ok: "num_ok z \<longleftrightarrow> n < 2147483648" by (auto simp: num_ok_def n_def)
  show ?thesis
  proof (cases "n = 0")
    case True
    then show ?thesis by (simp add: scriptnum_def n_def num_ok_def)
  next
    case False
    then have ne: "m \<noteq> []" by (simp add: m_def)
    then obtain k where k: "length m = Suc k" by (cases m) auto
    have len: "length (scriptnum z) = (if 128 \<le> unat (last m) then Suc (Suc k) else Suc k)"
      using ne k by (simp add: scriptnum_def n_def [symmetric] m_def [symmetric] Let_def)
    have last: "128 \<le> unat (last m) \<longleftrightarrow> 128 * 256 ^ k \<le> n"
      using nat_to_le_last_le k m_def by blast
    have bnd: "Suc k \<le> j \<longleftrightarrow> n < 256 ^ j" for j
      using length_nat_to_le [of n j] k by (simp add: m_def)
    consider "k \<le> 2" | "k = 3" | "4 \<le> k" by linarith
    then show ?thesis
    proof cases
      case 1
      then have "n < 256 ^ 3" using bnd [of 3] by simp
      then show ?thesis using 1 len ok by simp
    next
      case 2
      then show ?thesis using len last ok by simp
    next
      case 3
      then have "\<not> n < 256 ^ 4" using bnd [of 4] by simp
      then show ?thesis using 3 len ok by simp
    qed
  qed
qed


section \<open>Instructions\<close>

text \<open>
  A script is a list of instructions; a conditional carries its blocks, as the script
  macros of the source nest them between \<open>OP_IF\<close>, \<open>OP_ELSE\<close> and \<open>OP_ENDIF\<close>.
\<close>

datatype opcode =
    DUP | DUP2 | DUP3 | DROP | DROP2 | NIP | OVER | OVER2 | PICK | ROLL | ROT | ROT2
  | SWAP | SWAP2 | TUCK | TOALT | FROMALT | DEPTH | SIZE | EQUAL | EQUALVERIFY | VERIFY
  | ADD1 | SUB1 | NEGATE | NOT | ADD | SUB | BOOLAND | BOOLOR | NUMEQUAL | NUMNOTEQUAL
  | LESSTHAN | GREATERTHAN | LESSTHANOREQUAL | GREATERTHANOREQUAL | MINIMUM | MAXIMUM | WITHIN
  | HASH160

datatype instr =
    Op opcode
  | Push item
  | OP_IF "instr list"
  | OP_NOTIF "instr list"
  | OP_IF_ELSE "instr list" "instr list"

type_synonym script = "instr list"

abbreviation "OP_DUP \<equiv> Op DUP"
abbreviation "OP_2DUP \<equiv> Op DUP2"
abbreviation "OP_3DUP \<equiv> Op DUP3"
abbreviation "OP_DROP \<equiv> Op DROP"
abbreviation "OP_2DROP \<equiv> Op DROP2"
abbreviation "OP_NIP \<equiv> Op NIP"
abbreviation "OP_OVER \<equiv> Op OVER"
abbreviation "OP_2OVER \<equiv> Op OVER2"
abbreviation "OP_PICK \<equiv> Op PICK"
abbreviation "OP_ROLL \<equiv> Op ROLL"
abbreviation "OP_ROT \<equiv> Op ROT"
abbreviation "OP_2ROT \<equiv> Op ROT2"
abbreviation "OP_SWAP \<equiv> Op SWAP"
abbreviation "OP_2SWAP \<equiv> Op SWAP2"
abbreviation "OP_TUCK \<equiv> Op TUCK"
abbreviation "OP_TOALTSTACK \<equiv> Op TOALT"
abbreviation "OP_FROMALTSTACK \<equiv> Op FROMALT"
abbreviation "OP_DEPTH \<equiv> Op DEPTH"
abbreviation "OP_SIZE \<equiv> Op SIZE"
abbreviation "OP_EQUAL \<equiv> Op EQUAL"
abbreviation "OP_EQUALVERIFY \<equiv> Op EQUALVERIFY"
abbreviation "OP_VERIFY \<equiv> Op VERIFY"
abbreviation "OP_1ADD \<equiv> Op ADD1"
abbreviation "OP_1SUB \<equiv> Op SUB1"
abbreviation "OP_NEGATE \<equiv> Op NEGATE"
abbreviation "OP_NOT \<equiv> Op NOT"
abbreviation "OP_ADD \<equiv> Op ADD"
abbreviation "OP_SUB \<equiv> Op SUB"
abbreviation "OP_BOOLAND \<equiv> Op BOOLAND"
abbreviation "OP_BOOLOR \<equiv> Op BOOLOR"
abbreviation "OP_NUMEQUAL \<equiv> Op NUMEQUAL"
abbreviation "OP_NUMNOTEQUAL \<equiv> Op NUMNOTEQUAL"
abbreviation "OP_LESSTHAN \<equiv> Op LESSTHAN"
abbreviation "OP_GREATERTHAN \<equiv> Op GREATERTHAN"
abbreviation "OP_LESSTHANOREQUAL \<equiv> Op LESSTHANOREQUAL"
abbreviation "OP_GREATERTHANOREQUAL \<equiv> Op GREATERTHANOREQUAL"
abbreviation "OP_MIN \<equiv> Op MINIMUM"
abbreviation "OP_MAX \<equiv> Op MAXIMUM"
abbreviation "OP_WITHIN \<equiv> Op WITHIN"
abbreviation "OP_HASH160 \<equiv> Op HASH160"

text \<open>
  Number pushes.  \<open>pushn\<close> pushes a stack position or another unsigned quantity that a
  generator computes in Rust.
\<close>

definition push :: "int \<Rightarrow> instr" where
  "push z = Push (scriptnum z)"

definition pushn :: "nat \<Rightarrow> instr" where
  "pushn n = push (int n)"

definition repeat_script :: "nat \<Rightarrow> script \<Rightarrow> script" where
  "repeat_script n p = concat (replicate n p)"

definition for_range :: "nat \<Rightarrow> nat \<Rightarrow> (nat \<Rightarrow> script) \<Rightarrow> script" where
  "for_range lo hi body = concat (map body [lo..<hi])"

section \<open>The interpreter\<close>

datatype script_error =
    InvalidStackOperation
  | ScriptIntNumericOverflow
  | MinimalData
  | MinimalIf
  | EqualVerify
  | Verify

datatype state = State (main: "item list") (alt: "item list")

type_synonym result = "script_error + state"

record vm =
  hash160 :: "item \<Rightarrow> item"
  require_minimal :: bool

text \<open>A concrete machine: minimal numbers required, the hash a truncation.\<close>

definition sample_vm :: vm where
  "sample_vm = \<lparr>hash160 = take 20, require_minimal = True\<rparr>"

definition read_num :: "vm \<Rightarrow> item \<Rightarrow> script_error + int" where
  "read_num vm v =
     (if 4 < length v then Inl ScriptIntNumericOverflow
      else if require_minimal vm \<and> scriptnum (scriptnum_value v) \<noteq> v then Inl MinimalData
      else Inr (scriptnum_value v))"

text \<open>Truth of an item: neither empty nor all zero, negative zero included.\<close>

definition item_true :: "item \<Rightarrow> bool" where
  "item_true v \<longleftrightarrow> scriptnum_value v \<noteq> 0"

text \<open>The tapscript rule on conditionals: the argument is the empty item or the byte one.\<close>

definition if_arg :: "item \<Rightarrow> script_error + bool" where
  "if_arg v = (if v = [] then Inr False else if v = [1] then Inr True else Inl MinimalIf)"

definition bool_item :: "bool \<Rightarrow> item" where
  "bool_item b = scriptnum (of_bool b)"

text \<open>Pops of one, two or three numbers, the top of the stack first.\<close>

definition num1 :: "vm \<Rightarrow> state \<Rightarrow> (int \<Rightarrow> item) \<Rightarrow> result" where
  "num1 vm st f = (case st of
     State (x # s) a \<Rightarrow> and_then (read_num vm x) (\<lambda>u. Inr (State (f u # s) a))
   | _ \<Rightarrow> Inl InvalidStackOperation)"

definition num2 :: "vm \<Rightarrow> state \<Rightarrow> (int \<Rightarrow> int \<Rightarrow> item) \<Rightarrow> result" where
  "num2 vm st f = (case st of
     State (y # x # s) a \<Rightarrow> and_then (read_num vm x) (\<lambda>u. and_then (read_num vm y)
       (\<lambda>v. Inr (State (f u v # s) a)))
   | _ \<Rightarrow> Inl InvalidStackOperation)"

definition num3 :: "vm \<Rightarrow> state \<Rightarrow> (int \<Rightarrow> int \<Rightarrow> int \<Rightarrow> item) \<Rightarrow> result" where
  "num3 vm st f = (case st of
     State (z # y # x # s) a \<Rightarrow> and_then (read_num vm x) (\<lambda>u. and_then (read_num vm y)
       (\<lambda>v. and_then (read_num vm z) (\<lambda>w. Inr (State (f u v w # s) a))))
   | _ \<Rightarrow> Inl InvalidStackOperation)"

text \<open>A pure rearrangement of the main stack.\<close>

definition stack_op :: "state \<Rightarrow> (item list \<Rightarrow> item list option) \<Rightarrow> result" where
  "stack_op st f = (case f (main st) of
     None \<Rightarrow> Inl InvalidStackOperation | Some s \<Rightarrow> Inr (State s (alt st)))"

fun exec_op :: "vm \<Rightarrow> opcode \<Rightarrow> state \<Rightarrow> result" where
  "exec_op vm DUP st = stack_op st (\<lambda>s. case s of x # t \<Rightarrow> Some (x # x # t) | _ \<Rightarrow> None)"
| "exec_op vm DUP2 st = stack_op st (\<lambda>s. case s of x # y # t \<Rightarrow> Some (x # y # x # y # t) | _ \<Rightarrow> None)"
| "exec_op vm DUP3 st = stack_op st (\<lambda>s. case s of x # y # z # t \<Rightarrow> Some (x # y # z # x # y # z # t) | _ \<Rightarrow> None)"
| "exec_op vm DROP st = stack_op st (\<lambda>s. case s of x # t \<Rightarrow> Some t | _ \<Rightarrow> None)"
| "exec_op vm DROP2 st = stack_op st (\<lambda>s. case s of x # y # t \<Rightarrow> Some t | _ \<Rightarrow> None)"
| "exec_op vm NIP st = stack_op st (\<lambda>s. case s of x # y # t \<Rightarrow> Some (x # t) | _ \<Rightarrow> None)"
| "exec_op vm OVER st = stack_op st (\<lambda>s. case s of x # y # t \<Rightarrow> Some (y # x # y # t) | _ \<Rightarrow> None)"
| "exec_op vm OVER2 st = stack_op st (\<lambda>s. case s of x # y # z # w # t \<Rightarrow> Some (z # w # x # y # z # w # t) | _ \<Rightarrow> None)"
| "exec_op vm PICK st = (case st of
     State (n # s) a \<Rightarrow> and_then (read_num vm n) (\<lambda>i.
       if 0 \<le> i \<and> nat i < length s then Inr (State (s ! nat i # s) a)
       else Inl InvalidStackOperation)
   | _ \<Rightarrow> Inl InvalidStackOperation)"
| "exec_op vm ROLL st = (case st of
     State (n # s) a \<Rightarrow> and_then (read_num vm n) (\<lambda>i.
       if 0 \<le> i \<and> nat i < length s then Inr (State (s ! nat i # remove_nth (nat i) s) a)
       else Inl InvalidStackOperation)
   | _ \<Rightarrow> Inl InvalidStackOperation)"
| "exec_op vm ROT st = stack_op st (\<lambda>s. case s of x # y # z # t \<Rightarrow> Some (z # x # y # t) | _ \<Rightarrow> None)"
| "exec_op vm ROT2 st = stack_op st (\<lambda>s. case s of x # y # z # w # u # v # t \<Rightarrow> Some (u # v # x # y # z # w # t) | _ \<Rightarrow> None)"
| "exec_op vm SWAP st = stack_op st (\<lambda>s. case s of x # y # t \<Rightarrow> Some (y # x # t) | _ \<Rightarrow> None)"
| "exec_op vm SWAP2 st = stack_op st (\<lambda>s. case s of x # y # z # w # t \<Rightarrow> Some (z # w # x # y # t) | _ \<Rightarrow> None)"
| "exec_op vm TUCK st = stack_op st (\<lambda>s. case s of x # y # t \<Rightarrow> Some (x # y # x # t) | _ \<Rightarrow> None)"
| "exec_op vm TOALT st = (case st of
     State (x # s) a \<Rightarrow> Inr (State s (x # a)) | _ \<Rightarrow> Inl InvalidStackOperation)"
| "exec_op vm FROMALT st = (case st of
     State s (x # a) \<Rightarrow> Inr (State (x # s) a) | _ \<Rightarrow> Inl InvalidStackOperation)"
| "exec_op vm DEPTH st = Inr (State (scriptnum (int (length (main st))) # main st) (alt st))"
| "exec_op vm SIZE st = stack_op st (\<lambda>s. case s of x # t \<Rightarrow> Some (scriptnum (int (length x)) # x # t) | _ \<Rightarrow> None)"
| "exec_op vm EQUAL st = stack_op st (\<lambda>s. case s of x # y # t \<Rightarrow> Some (bool_item (x = y) # t) | _ \<Rightarrow> None)"
| "exec_op vm EQUALVERIFY st = (case st of
     State (x # y # s) a \<Rightarrow> if x = y then Inr (State s a) else Inl EqualVerify
   | _ \<Rightarrow> Inl InvalidStackOperation)"
| "exec_op vm VERIFY st = (case st of
     State (x # s) a \<Rightarrow> if item_true x then Inr (State s a) else Inl Verify
   | _ \<Rightarrow> Inl InvalidStackOperation)"
| "exec_op vm ADD1 st = num1 vm st (\<lambda>x. scriptnum (x + 1))"
| "exec_op vm SUB1 st = num1 vm st (\<lambda>x. scriptnum (x - 1))"
| "exec_op vm NEGATE st = num1 vm st (\<lambda>x. scriptnum (- x))"
| "exec_op vm NOT st = num1 vm st (\<lambda>x. bool_item (x = 0))"
| "exec_op vm ADD st = num2 vm st (\<lambda>x y. scriptnum (x + y))"
| "exec_op vm SUB st = num2 vm st (\<lambda>x y. scriptnum (x - y))"
| "exec_op vm BOOLAND st = num2 vm st (\<lambda>x y. bool_item (x \<noteq> 0 \<and> y \<noteq> 0))"
| "exec_op vm BOOLOR st = num2 vm st (\<lambda>x y. bool_item (x \<noteq> 0 \<or> y \<noteq> 0))"
| "exec_op vm NUMEQUAL st = num2 vm st (\<lambda>x y. bool_item (x = y))"
| "exec_op vm NUMNOTEQUAL st = num2 vm st (\<lambda>x y. bool_item (x \<noteq> y))"
| "exec_op vm LESSTHAN st = num2 vm st (\<lambda>x y. bool_item (x < y))"
| "exec_op vm GREATERTHAN st = num2 vm st (\<lambda>x y. bool_item (x > y))"
| "exec_op vm LESSTHANOREQUAL st = num2 vm st (\<lambda>x y. bool_item (x \<le> y))"
| "exec_op vm GREATERTHANOREQUAL st = num2 vm st (\<lambda>x y. bool_item (x \<ge> y))"
| "exec_op vm MINIMUM st = num2 vm st (\<lambda>x y. scriptnum (min x y))"
| "exec_op vm MAXIMUM st = num2 vm st (\<lambda>x y. scriptnum (max x y))"
| "exec_op vm WITHIN st = num3 vm st (\<lambda>x lo hi. bool_item (lo \<le> x \<and> x < hi))"
| "exec_op vm HASH160 st = stack_op st (\<lambda>s. case s of x # t \<Rightarrow> Some (hash160 vm x # t) | _ \<Rightarrow> None)"

definition pop_if :: "state \<Rightarrow> (bool \<Rightarrow> state \<Rightarrow> result) \<Rightarrow> result" where
  "pop_if st k = (case st of
     State (x # s) a \<Rightarrow> and_then (if_arg x) (\<lambda>b. k b (State s a))
   | _ \<Rightarrow> Inl InvalidStackOperation)"

fun exec_instr :: "vm \<Rightarrow> instr \<Rightarrow> state \<Rightarrow> result"
  and exec :: "vm \<Rightarrow> script \<Rightarrow> state \<Rightarrow> result" where
  "exec_instr vm (Op c) st = exec_op vm c st"
| "exec_instr vm (Push v) st = Inr (State (v # main st) (alt st))"
| "exec_instr vm (OP_IF p) st = pop_if st (\<lambda>b st'. if b then exec vm p st' else Inr st')"
| "exec_instr vm (OP_NOTIF p) st = pop_if st (\<lambda>b st'. if b then Inr st' else exec vm p st')"
| "exec_instr vm (OP_IF_ELSE p q) st =
     pop_if st (\<lambda>b st'. if b then exec vm p st' else exec vm q st')"
| "exec vm [] st = Inr st"
| "exec vm (i # p) st = and_then (exec_instr vm i st) (exec vm p)"


section \<open>Composition\<close>

lemma exec_append: "exec vm (p @ q) st = and_then (exec vm p st) (exec vm q)"
proof (induction p arbitrary: st)
  case (Cons i p)
  show ?case by (cases "exec_instr vm i st") (simp_all add: Cons.IH)
qed simp

lemma exec_repeat_Suc:
  "exec vm (repeat_script (Suc n) p) st = and_then (exec vm p st) (exec vm (repeat_script n p))"
  by (simp add: repeat_script_def exec_append)

lemma repeat_script_0 [simp]: "repeat_script 0 p = []"
  by (simp add: repeat_script_def)

lemma repeat_script_Suc: "repeat_script (Suc n) p = p @ repeat_script n p"
  by (simp add: repeat_script_def)

lemma repeat_script_add: "repeat_script (m + n) p = repeat_script m p @ repeat_script n p"
  by (simp add: repeat_script_def replicate_add)

lemma repeat_script_rev_Suc: "repeat_script (Suc n) p = repeat_script n p @ p"
  using repeat_script_add [of n 1 p] by (simp add: repeat_script_Suc)

lemma for_range_empty [simp]: "hi \<le> lo \<Longrightarrow> for_range lo hi body = []"
  by (simp add: for_range_def)

lemma for_range_Suc: "lo \<le> hi \<Longrightarrow> for_range lo (Suc hi) body = for_range lo hi body @ body hi"
  by (simp add: for_range_def)

lemma for_range_first: "lo < hi \<Longrightarrow> for_range lo hi body = body lo @ for_range (Suc lo) hi body"
  by (simp add: for_range_def upt_conv_Cons)

lemma for_range_cong:
  "(\<And>i. lo \<le> i \<Longrightarrow> i < hi \<Longrightarrow> f i = g i) \<Longrightarrow> for_range lo hi f = for_range lo hi g"
  unfolding for_range_def by (rule arg_cong [where f = concat]) (simp cong: map_cong)

lemma for_range_nth: "for_range 0 (length xs) (\<lambda>i. f (xs ! i)) = concat (map f xs)"
proof -
  have "map (\<lambda>i. f (xs ! i)) [0..<length xs] = map f (map ((!) xs) [0..<length xs])" by simp
  then show ?thesis by (simp add: for_range_def map_nth)
qed

lemma for_range_const: "for_range lo hi (\<lambda>_. p) = repeat_script (hi - lo) p"
  by (simp add: for_range_def repeat_script_def map_replicate_const)

section \<open>Symbolic execution\<close>

text \<open>
  A state whose stack is written out runs by rewriting: one rule per instruction, whose
  side conditions say that the numbers read are in range.
\<close>

lemma read_num_scriptnum [simp]: "num_ok z \<Longrightarrow> read_num vm (scriptnum z) = Inr z"
  using length_scriptnum_le_4 [of z] by (simp add: read_num_def)

lemma read_num_overflow: "\<not> num_ok z \<Longrightarrow> read_num vm (scriptnum z) = Inl ScriptIntNumericOverflow"
  using length_scriptnum_le_4 [of z] by (simp add: read_num_def)

lemma scriptnum_0: "scriptnum 0 = []"
  by (simp add: scriptnum_def)

lemma scriptnum_1: "scriptnum 1 = [1]"
  by (simp add: scriptnum_def Let_def nat_to_le.simps [of "Suc 0"])

lemma scriptnum_eq_Nil_iff [simp]: "scriptnum z = [] \<longleftrightarrow> z = 0"
  using scriptnum_inject [of z 0] by (simp only: scriptnum_0)

lemma scriptnum_eq_one_iff [simp]: "scriptnum z = [1] \<longleftrightarrow> z = 1"
  using scriptnum_inject [of z 1] by (simp only: scriptnum_1)

lemma if_arg_scriptnum: "if_arg (scriptnum z) =
    (if z = 0 then Inr False else if z = 1 then Inr True else Inl MinimalIf)"
  by (simp add: if_arg_def)

lemma if_arg_bool_item [simp]: "if_arg (bool_item b) = Inr b"
  by (simp add: bool_item_def if_arg_scriptnum)

lemma num_ok_of_bool [simp]: "num_ok (of_bool b)"
  by (simp add: num_ok_def)

lemma exec_Push [exec_simps]: "exec vm (Push v # p) (State s a) = exec vm p (State (v # s) a)"
  by simp

lemma exec_push [exec_simps]: "exec vm (push z # p) (State s a) = exec vm p (State (scriptnum z # s) a)"
  by (simp add: push_def)

lemma exec_pushn: "exec vm (pushn n # p) (State s a) = exec vm p (State (scriptnum (int n) # s) a)"
  by (simp only: pushn_def exec_push)

lemma exec_stack_ops [exec_simps]:
  "exec vm (OP_DUP # p) (State (x # s) a) = exec vm p (State (x # x # s) a)"
  "exec vm (OP_2DUP # p) (State (x # y # s) a) = exec vm p (State (x # y # x # y # s) a)"
  "exec vm (OP_3DUP # p) (State (x # y # z # s) a) = exec vm p (State (x # y # z # x # y # z # s) a)"
  "exec vm (OP_DROP # p) (State (x # s) a) = exec vm p (State s a)"
  "exec vm (OP_2DROP # p) (State (x # y # s) a) = exec vm p (State s a)"
  "exec vm (OP_NIP # p) (State (x # y # s) a) = exec vm p (State (x # s) a)"
  "exec vm (OP_OVER # p) (State (x # y # s) a) = exec vm p (State (y # x # y # s) a)"
  "exec vm (OP_2OVER # p) (State (x # y # z # w # s) a) = exec vm p (State (z # w # x # y # z # w # s) a)"
  "exec vm (OP_ROT # p) (State (x # y # z # s) a) = exec vm p (State (z # x # y # s) a)"
  "exec vm (OP_2ROT # p) (State (x # y # z # w # u # v # s) a) = exec vm p (State (u # v # x # y # z # w # s) a)"
  "exec vm (OP_SWAP # p) (State (x # y # s) a) = exec vm p (State (y # x # s) a)"
  "exec vm (OP_2SWAP # p) (State (x # y # z # w # s) a) = exec vm p (State (z # w # x # y # s) a)"
  "exec vm (OP_TUCK # p) (State (x # y # s) a) = exec vm p (State (x # y # x # s) a)"
  "exec vm (OP_TOALTSTACK # p) (State (x # s) a) = exec vm p (State s (x # a))"
  "exec vm (OP_FROMALTSTACK # p) (State s (x # a)) = exec vm p (State (x # s) a)"
  "exec vm (OP_SIZE # p) (State (x # s) a) = exec vm p (State (scriptnum (int (length x)) # x # s) a)"
  "exec vm (OP_EQUAL # p) (State (x # y # s) a) = exec vm p (State (bool_item (x = y) # s) a)"
  "exec vm (OP_EQUALVERIFY # p) (State (x # y # s) a) =
     (if x = y then exec vm p (State s a) else Inl EqualVerify)"
  "exec vm (OP_HASH160 # p) (State (x # s) a) = exec vm p (State (hash160 vm x # s) a)"
  by (simp_all add: stack_op_def)

lemma exec_num_ops [exec_simps]:
  "num_ok x \<Longrightarrow> exec vm (OP_1ADD # p) (State (scriptnum x # s) a) = exec vm p (State (scriptnum (x + 1) # s) a)"
  "num_ok x \<Longrightarrow> exec vm (OP_1SUB # p) (State (scriptnum x # s) a) = exec vm p (State (scriptnum (x - 1) # s) a)"
  "num_ok x \<Longrightarrow> exec vm (OP_NEGATE # p) (State (scriptnum x # s) a) = exec vm p (State (scriptnum (- x) # s) a)"
  "num_ok x \<Longrightarrow> exec vm (OP_NOT # p) (State (scriptnum x # s) a) = exec vm p (State (bool_item (x = 0) # s) a)"
  "num_ok x \<Longrightarrow> num_ok y \<Longrightarrow> exec vm (OP_ADD # p) (State (scriptnum y # scriptnum x # s) a) = exec vm p (State (scriptnum (x + y) # s) a)"
  "num_ok x \<Longrightarrow> num_ok y \<Longrightarrow> exec vm (OP_SUB # p) (State (scriptnum y # scriptnum x # s) a) = exec vm p (State (scriptnum (x - y) # s) a)"
  "num_ok x \<Longrightarrow> num_ok y \<Longrightarrow> exec vm (OP_NUMEQUAL # p) (State (scriptnum y # scriptnum x # s) a) = exec vm p (State (bool_item (x = y) # s) a)"
  "num_ok x \<Longrightarrow> num_ok y \<Longrightarrow> exec vm (OP_NUMNOTEQUAL # p) (State (scriptnum y # scriptnum x # s) a) = exec vm p (State (bool_item (x \<noteq> y) # s) a)"
  "num_ok x \<Longrightarrow> num_ok y \<Longrightarrow> exec vm (OP_LESSTHAN # p) (State (scriptnum y # scriptnum x # s) a) = exec vm p (State (bool_item (x < y) # s) a)"
  "num_ok x \<Longrightarrow> num_ok y \<Longrightarrow> exec vm (OP_GREATERTHAN # p) (State (scriptnum y # scriptnum x # s) a) = exec vm p (State (bool_item (y < x) # s) a)"
  "num_ok x \<Longrightarrow> num_ok y \<Longrightarrow> exec vm (OP_LESSTHANOREQUAL # p) (State (scriptnum y # scriptnum x # s) a) = exec vm p (State (bool_item (x \<le> y) # s) a)"
  "num_ok x \<Longrightarrow> num_ok y \<Longrightarrow> exec vm (OP_GREATERTHANOREQUAL # p) (State (scriptnum y # scriptnum x # s) a) = exec vm p (State (bool_item (y \<le> x) # s) a)"
  "num_ok x \<Longrightarrow> num_ok y \<Longrightarrow> exec vm (OP_MIN # p) (State (scriptnum y # scriptnum x # s) a) = exec vm p (State (scriptnum (min x y) # s) a)"
  "num_ok x \<Longrightarrow> num_ok y \<Longrightarrow> exec vm (OP_MAX # p) (State (scriptnum y # scriptnum x # s) a) = exec vm p (State (scriptnum (max x y) # s) a)"
  "num_ok x \<Longrightarrow> num_ok y \<Longrightarrow> num_ok z \<Longrightarrow> exec vm (OP_WITHIN # p) (State (scriptnum z # scriptnum y # scriptnum x # s) a) =
     exec vm p (State (bool_item (y \<le> x \<and> x < z) # s) a)"
  by (simp_all add: num1_def num2_def num3_def)

lemma exec_bool_ops [exec_simps]:
  "exec vm (OP_NOT # p) (State (bool_item b # s) a) = exec vm p (State (bool_item (\<not> b) # s) a)"
  "exec vm (OP_BOOLAND # p) (State (bool_item c # bool_item b # s) a) = exec vm p (State (bool_item (b \<and> c) # s) a)"
  "exec vm (OP_BOOLOR # p) (State (bool_item c # bool_item b # s) a) = exec vm p (State (bool_item (b \<or> c) # s) a)"
  "exec vm (OP_VERIFY # p) (State (bool_item b # s) a) = (if b then exec vm p (State s a) else Inl Verify)"
  by (simp_all add: num1_def num2_def bool_item_def item_true_def)

lemma exec_ifs [exec_simps]:
  "exec vm (OP_IF p # q) (State (bool_item b # s) a) = exec vm ((if b then p else []) @ q) (State s a)"
  "exec vm (OP_NOTIF p # q) (State (bool_item b # s) a) = exec vm ((if b then [] else p) @ q) (State s a)"
  "exec vm (OP_IF_ELSE p r # q) (State (bool_item b # s) a) = exec vm ((if b then p else r) @ q) (State s a)"
  by (simp_all add: pop_if_def exec_append)

lemma exec_pick:
  "n < length s \<Longrightarrow> n < 2147483648 \<Longrightarrow>
   exec vm (OP_PICK # p) (State (scriptnum (int n) # s) a) = exec vm p (State (s ! n # s) a)"
  by (simp add: num_ok_def)

lemma exec_roll:
  "n < length s \<Longrightarrow> n < 2147483648 \<Longrightarrow>
   exec vm (OP_ROLL # p) (State (scriptnum (int n) # s) a) = exec vm p (State (s ! n # remove_nth n s) a)"
  by (simp add: num_ok_def)

lemma exec_pick_roll [exec_simps]:
  "n < length s \<Longrightarrow> n < 2147483648 \<Longrightarrow>
   exec vm (pushn n # OP_PICK # p) (State s a) = exec vm p (State (s ! n # s) a)"
  "n < length s \<Longrightarrow> n < 2147483648 \<Longrightarrow>
   exec vm (pushn n # OP_ROLL # p) (State s a) = exec vm p (State (s ! n # remove_nth n s) a)"
  by (simp_all only: exec_pushn exec_pick exec_roll)

lemma exec_Nil [exec_simps]: "exec vm [] st = Inr st"
  by simp

declare exec.simps(2) [simp del]

text \<open>From here on numerals stay numerals: \<open>1\<close> is not unfolded to \<open>Suc 0\<close>.\<close>

declare One_nat_def [simp del] add_2_eq_Suc [simp del] add_2_eq_Suc' [simp del]

end
