(* ===== verification/Pseudo.thy ===== *)
theory Pseudo
  imports Script_Machine
begin

text \<open>
  \<open>bitvm/src/pseudo.rs\<close>: the pseudo opcodes that the other generators splice into their
  scripts.  Each generator is a script, each lemma runs it on a symbolic stack in front of
  an arbitrary rest \<open>p\<close>, so that the lemmas chain by rewriting.
\<close>

section \<open>Groups of four items\<close>

definition op_4pick :: script where
  "op_4pick = [OP_ADD,
     OP_DUP, OP_PICK, OP_SWAP,
     OP_DUP, OP_PICK, OP_SWAP,
     OP_DUP, OP_PICK, OP_SWAP,
     OP_1SUB, OP_PICK]"

definition op_4roll :: script where
  "op_4roll = [push 4, OP_ADD,
     OP_DUP, OP_ROLL, OP_SWAP,
     OP_DUP, OP_ROLL, OP_SWAP,
     OP_DUP, OP_ROLL, OP_SWAP,
     OP_1SUB, OP_ROLL]"

definition op_4dup :: script where
  "op_4dup = [OP_2OVER, OP_2OVER]"

definition op_4drop :: script where
  "op_4drop = [OP_2DROP, OP_2DROP]"

definition op_4swap :: script where
  "op_4swap = [pushn 7, OP_ROLL, pushn 7, OP_ROLL, pushn 7, OP_ROLL, pushn 7, OP_ROLL]"

definition op_4toaltstack :: script where
  "op_4toaltstack = [OP_TOALTSTACK, OP_TOALTSTACK, OP_TOALTSTACK, OP_TOALTSTACK]"

definition op_4fromaltstack :: script where
  "op_4fromaltstack = [OP_FROMALTSTACK, OP_FROMALTSTACK, OP_FROMALTSTACK, OP_FROMALTSTACK]"

section \<open>Multiplication by constants\<close>

definition op_2mul :: script where
  "op_2mul = [OP_DUP, OP_ADD]"

definition op_4mul :: script where
  "op_4mul = [OP_DUP, OP_ADD, OP_DUP, OP_ADD]"

definition op_2k_mul :: "nat \<Rightarrow> script" where
  "op_2k_mul k = for_range 0 k (\<lambda>_. op_2mul)"

definition op_16mul :: script where
  "op_16mul = [OP_DUP, OP_ADD, OP_DUP, OP_ADD, OP_DUP, OP_ADD, OP_DUP, OP_ADD]"

definition op_256mul :: script where
  "op_256mul = [
     OP_DUP, OP_ADD, OP_DUP, OP_ADD, OP_DUP, OP_ADD, OP_DUP, OP_ADD,
     OP_DUP, OP_ADD, OP_DUP, OP_ADD, OP_DUP, OP_ADD, OP_DUP, OP_ADD]"

text \<open>\<open>u32::BITS - n.leading_zeros()\<close>, the bits of \<open>n\<close> from the least significant one.\<close>

fun bits_of :: "nat \<Rightarrow> nat list" where
  "bits_of n = (if n = 0 then [] else n mod 2 # bits_of (n div 2))"

declare bits_of.simps [simp del]

definition nmul :: "nat \<Rightarrow> script" where
  "nmul n =
     (let bits = bits_of n; n_bits = length bits in
      if n_bits = 0 then [OP_DROP, push 0]
      else for_range 0 (length bits - 1)
             (\<lambda>i. (if bits ! i = 1 then [OP_DUP] else []) @ op_2mul)
           @ for_range 1 (sum_list bits) (\<lambda>_. [OP_ADD]))"

section \<open>Copies of the top item\<close>

definition op_ndup :: "nat \<Rightarrow> script" where
  "op_ndup n =
     (let times_3_dup = (if n > 3 then (n - 3) div 3 else 0);
          remaining = (if n > 3 then (n - 3) mod 3 else 0) in
      (if n \<ge> 1 then [OP_DUP] else [])
      @ (if n \<ge> 3 then [OP_2DUP] else if n \<ge> 2 then [OP_DUP] else [])
      @ for_range 0 times_3_dup (\<lambda>_. [OP_3DUP])
      @ (if remaining = 2 then [OP_2DUP] else if remaining = 1 then [OP_DUP] else []))"

definition push_to_stack :: "nat \<Rightarrow> nat \<Rightarrow> script" where
  "push_to_stack element n = (if n \<ge> 1 then pushn element # op_ndup (n - 1) else [])"

section \<open>Execution\<close>

lemma exec_4groups [exec_simps]:
  "exec vm (op_4dup @ p) (State (x0 # x1 # x2 # x3 # s) a) =
     exec vm p (State (x0 # x1 # x2 # x3 # x0 # x1 # x2 # x3 # s) a)"
  "exec vm (op_4drop @ p) (State (x0 # x1 # x2 # x3 # s) a) = exec vm p (State s a)"
  "exec vm (op_4swap @ p) (State (x0 # x1 # x2 # x3 # y0 # y1 # y2 # y3 # s) a) =
     exec vm p (State (y0 # y1 # y2 # y3 # x0 # x1 # x2 # x3 # s) a)"
  "exec vm (op_4toaltstack @ p) (State (x0 # x1 # x2 # x3 # s) a) =
     exec vm p (State s (x3 # x2 # x1 # x0 # a))"
  "exec vm (op_4fromaltstack @ p) (State s (x3 # x2 # x1 # x0 # a)) =
     exec vm p (State (x0 # x1 # x2 # x3 # s) a)"
  by (simp_all add: op_4dup_def op_4drop_def op_4swap_def op_4toaltstack_def
      op_4fromaltstack_def exec_simps)

lemma exec_double [exec_simps]:
  "num_ok x \<Longrightarrow> exec vm (op_2mul @ p) (State (scriptnum x # s) a) =
     exec vm p (State (scriptnum (2 * x) # s) a)"
  by (simp add: op_2mul_def exec_simps)

lemma exec_const_muls [exec_simps]:
  "num_ok (2 * x) \<Longrightarrow> exec vm (op_4mul @ p) (State (scriptnum x # s) a) =
     exec vm p (State (scriptnum (4 * x) # s) a)"
  "num_ok (8 * x) \<Longrightarrow> exec vm (op_16mul @ p) (State (scriptnum x # s) a) =
     exec vm p (State (scriptnum (16 * x) # s) a)"
  "num_ok (128 * x) \<Longrightarrow> exec vm (op_256mul @ p) (State (scriptnum x # s) a) =
     exec vm p (State (scriptnum (256 * x) # s) a)"
  by (simp_all add: op_4mul_def op_16mul_def op_256mul_def exec_simps num_ok_def)

lemma num_ok_mono: "num_ok z \<Longrightarrow> \<bar>y\<bar> \<le> \<bar>z\<bar> \<Longrightarrow> num_ok y"
  by (auto simp: num_ok_def)

lemma num_ok_mult_left:
  assumes "num_ok (k * x)" "1 \<le> k"
  shows "num_ok x"
proof (rule num_ok_mono [OF assms(1)])
  show "\<bar>x\<bar> \<le> \<bar>k * x\<bar>" using assms(2) by (simp add: abs_mult mult_le_cancel_right1)
qed

lemma exec_2k_mul:
  "num_ok (2 ^ k * x) \<Longrightarrow> exec vm (op_2k_mul k @ p) (State (scriptnum x # s) a) =
     exec vm p (State (scriptnum (2 ^ k * x) # s) a)"
proof (induction k arbitrary: p)
  case 0
  show ?case by (simp add: op_2k_mul_def)
next
  case (Suc k)
  have ok: "num_ok (2 ^ k * x)"
    by (rule num_ok_mult_left [of 2]) (use Suc.prems in \<open>simp_all add: mult.assoc\<close>)
  have "exec vm (op_2k_mul (Suc k) @ p) (State (scriptnum x # s) a)
      = exec vm (op_2k_mul k @ op_2mul @ p) (State (scriptnum x # s) a)"
    by (simp add: op_2k_mul_def for_range_Suc)
  also have "\<dots> = exec vm p (State (scriptnum (2 ^ Suc k * x) # s) a)"
    using ok by (simp add: Suc.IH exec_simps mult.assoc)
  finally show ?case .
qed


text \<open>
  \<open>NMUL\<close> leaves \<open>x * 2^i\<close> on the stack for every set bit \<open>i\<close> below the last, and the
  final additions collect them.
\<close>

lemma exec_adds:
  assumes "list_all ((\<le>) 0) ys" "0 \<le> z" "num_ok (z + sum_list ys)"
  shows "exec vm (repeat_script (length ys) [OP_ADD] @ p)
           (State (map scriptnum (z # ys) @ s) a)
       = exec vm p (State (scriptnum (z + sum_list ys) # s) a)"
  using assms
proof (induction ys arbitrary: z)
  case (Cons y ys)
  have nn: "0 \<le> sum_list ys" using Cons.prems by (simp add: sum_list_nonneg list_all_iff)
  then have "num_ok z" "num_ok y" using Cons.prems by (auto simp: num_ok_def)
  then show ?case
    using Cons.prems Cons.IH [of "y + z"] by (simp add: repeat_script_Suc exec_simps algebra_simps)
qed simp

text \<open>The numbers the doubling loop stacks up, last one on top.\<close>

fun nmul_stack :: "nat list \<Rightarrow> int \<Rightarrow> int list \<Rightarrow> int list" where
  "nmul_stack [] x acc = x # acc"
| "nmul_stack (b # bs) x acc = nmul_stack bs (2 * x) (if b = 1 then x # acc else acc)"

fun bits_value :: "nat list \<Rightarrow> nat" where
  "bits_value [] = 0"
| "bits_value (b # bs) = b + 2 * bits_value bs"

lemma bits_value_bits_of [simp]: "bits_value (bits_of n) = n"
  by (induction n rule: bits_of.induct) (subst bits_of.simps, simp)

lemma bits_of_bits: "b \<in> set (bits_of n) \<Longrightarrow> b < 2"
proof (induction n rule: bits_of.induct)
  case (1 n)
  then show ?case by (subst (asm) (2) bits_of.simps) (auto split: if_splits)
qed

lemma bits_of_last: "0 < n \<Longrightarrow> bits_of n \<noteq> [] \<and> last (bits_of n) = 1"
proof (induction n rule: bits_of.induct)
  case (1 n)
  show ?case
  proof (cases "n div 2 = 0")
    case True
    then have "n = 1" using 1 by linarith
    then show ?thesis by (simp add: bits_of.simps)
  next
    case False
    then have "bits_of (n div 2) \<noteq> [] \<and> last (bits_of (n div 2)) = 1"
      using 1 by simp
    then show ?thesis using 1 by (subst (1 2) bits_of.simps) simp
  qed
qed

lemma sum_list_nmul_stack:
  "\<forall>b \<in> set bs. b < 2 \<Longrightarrow>
   sum_list (nmul_stack bs x acc) = (2 ^ length bs + int (bits_value bs)) * x + sum_list acc"
proof (induction bs arbitrary: x acc)
  case (Cons b bs)
  then have "b = 0 \<or> b = 1" by auto
  with Cons show ?case by (auto simp: algebra_simps)
qed simp

lemma length_nmul_stack:
  "\<forall>b \<in> set bs. b < 2 \<Longrightarrow> length (nmul_stack bs x acc) = Suc (length acc + sum_list bs)"
proof (induction bs arbitrary: x acc)
  case (Cons b bs)
  then have "b = 0 \<or> b = 1" by auto
  with Cons show ?case by auto
qed simp

lemma nmul_stack_nonneg:
  "0 \<le> x \<Longrightarrow> list_all ((\<le>) 0) acc \<Longrightarrow> list_all ((\<le>) 0) (nmul_stack bs x acc)"
proof (induction bs arbitrary: x acc)
  case (Cons b bs)
  have "list_all ((\<le>) 0) (if b = 1 then x # acc else acc)" using Cons.prems by simp
  with Cons.IH [of "2 * x"] Cons.prems show ?case by simp
qed simp

lemma exec_nmul_loop:
  assumes "num_ok (2 ^ length bs * x)" "\<forall>b \<in> set bs. b < 2"
  shows "exec vm (concat (map (\<lambda>b. (if b = 1 then [OP_DUP] else []) @ op_2mul) bs) @ p)
           (State (map scriptnum (x # acc) @ s) a)
       = exec vm p (State (map scriptnum (nmul_stack bs x acc) @ s) a)"
  using assms
proof (induction bs arbitrary: x acc)
  case (Cons b bs)
  have ok: "num_ok x"
    by (rule num_ok_mult_left [OF Cons.prems(1)]) (simp only: one_le_power)
  have "num_ok (2 ^ length bs * (2 * x))" using Cons.prems by (simp add: mult.assoc mult.left_commute)
  then have "exec vm (concat (map (\<lambda>b. (if b = 1 then [OP_DUP] else []) @ op_2mul) bs) @ p)
      (State (map scriptnum (2 * x # acc') @ s) a)
    = exec vm p (State (map scriptnum (nmul_stack bs (2 * x) acc') @ s) a)" for acc'
    using Cons.IH Cons.prems by simp
  from this [of acc] this [of "x # acc"] show ?case using ok by (simp add: exec_simps)
qed simp

theorem exec_nmul:
  assumes "0 \<le> x" "num_ok (int n * x)"
  shows "exec vm (nmul n @ p) (State (scriptnum x # s) a) =
    exec vm p (State (scriptnum (int n * x) # s) a)"
proof (cases "n = 0")
  case True
  then show ?thesis by (simp add: nmul_def bits_of.simps exec_simps)
next
  case False
  define bs where "bs = butlast (bits_of n)"
  have bits: "bits_of n = bs @ [1]"
    using bits_of_last [of n] False append_butlast_last_id [of "bits_of n"] by (simp add: bs_def)
  have small: "\<forall>b \<in> set bs. b < 2" using bits_of_bits [of _ n] bits by auto
  have "bits_value (bs @ [1]) = bits_value bs + 2 ^ length bs" for bs
    by (induction bs) auto
  then have "bits_value (bits_of n) = bits_value bs + 2 ^ length bs" by (simp only: bits)
  then have "int n = int (bits_value bs + 2 ^ length bs)" by simp
  then have n: "int n = 2 ^ length bs + int (bits_value bs)" by simp
  define ys where "ys = nmul_stack bs x []"
  have len: "length ys = Suc (sum_list bs)" using small by (simp add: ys_def length_nmul_stack)
  have sum: "sum_list ys = int n * x" using small by (simp add: ys_def sum_list_nmul_stack n)
  have nn: "list_all ((\<le>) 0) ys" unfolding ys_def by (rule nmul_stack_nonneg) (use assms in simp_all)
  obtain z zs where ys: "ys = z # zs" using len by (cases ys) auto
  have le: "2 ^ length bs * x \<le> int n * x"
    using assms by (intro mult_right_mono) (simp_all add: n)
  have ok: "num_ok (2 ^ length bs * x)"
    by (rule num_ok_mono [OF assms(2)]) (use le assms in simp)
  have "nmul n = for_range 0 (length bs) (\<lambda>i. (if bs ! i = 1 then [OP_DUP] else []) @ op_2mul)
      @ repeat_script (sum_list bs) [OP_ADD]"
  proof -
    have "for_range 0 (length bs) (\<lambda>i. (if (bs @ [1]) ! i = 1 then [OP_DUP] else []) @ op_2mul)
        = for_range 0 (length bs) (\<lambda>i. (if bs ! i = 1 then [OP_DUP] else []) @ op_2mul)"
      by (rule for_range_cong) (simp add: nth_append)
    then show ?thesis by (simp add: nmul_def Let_def bits for_range_const)
  qed
  then have "exec vm (nmul n @ p) (State (scriptnum x # s) a)
      = exec vm (repeat_script (sum_list bs) [OP_ADD] @ p) (State (map scriptnum ys @ s) a)"
    using exec_nmul_loop [OF ok small, of vm _ "[]" s a]
    by (simp add: for_range_nth [where f = "\<lambda>b. (if b = 1 then [OP_DUP] else []) @ op_2mul"] ys_def)
  also have "\<dots> = exec vm p (State (scriptnum (int n * x) # s) a)"
    using exec_adds [of zs z vm p s a] nn sum len assms(2) by (simp add: ys)
  finally show ?thesis .
qed

end
