(* ===== verification/U32_Std.thy ===== *)
theory U32_Std
  imports Pseudo
begin

text \<open>
  \<open>bitvm/src/u32/u32_std.rs\<close> and \<open>u32_zip.rs\<close>: a 32-bit word is kept on the stack as
  four byte items, the least significant byte on top.  The section on execution shows
  what each generator does to a stack of words, for every position of its operands.
\<close>

section \<open>Generators of u32_std.rs\<close>

definition u32_byte :: "nat \<Rightarrow> u32 \<Rightarrow> int" where
  "u32_byte i w = uint w div 256 ^ i mod 256"

definition u32_push :: "u32 \<Rightarrow> script" where
  "u32_push value =
     (if u32_byte 3 value = u32_byte 2 value \<and> u32_byte 3 value = u32_byte 1 value
         \<and> u32_byte 3 value = u32_byte 0 value
      then push_to_stack (nat (u32_byte 3 value)) 4
      else [push (u32_byte 3 value), push (u32_byte 2 value),
            push (u32_byte 1 value), push (u32_byte 0 value)])"

definition u32_equalverify :: script where
  "u32_equalverify = [pushn 4, OP_ROLL, OP_EQUALVERIFY, pushn 3, OP_ROLL, OP_EQUALVERIFY,
     OP_ROT, OP_EQUALVERIFY, OP_EQUALVERIFY]"

definition u32_equal :: script where
  "u32_equal = [pushn 4, OP_ROLL, OP_EQUAL, OP_TOALTSTACK, pushn 3, OP_ROLL, OP_EQUAL, OP_TOALTSTACK,
     OP_ROT, OP_EQUAL, OP_TOALTSTACK, OP_EQUAL, OP_FROMALTSTACK, OP_BOOLAND,
     OP_FROMALTSTACK, OP_BOOLAND, OP_FROMALTSTACK, OP_BOOLAND]"

definition u32_toaltstack :: script where
  "u32_toaltstack = [OP_TOALTSTACK, OP_TOALTSTACK, OP_TOALTSTACK, OP_TOALTSTACK]"

definition u32_fromaltstack :: script where
  "u32_fromaltstack = [OP_FROMALTSTACK, OP_FROMALTSTACK, OP_FROMALTSTACK, OP_FROMALTSTACK]"

definition u32_dup :: script where
  "u32_dup = op_4dup"

definition u32_drop :: script where
  "u32_drop = [OP_2DROP, OP_2DROP]"

definition u32_roll :: "nat \<Rightarrow> script" where
  "u32_roll n0 = (let n = (n0 + 1) * 4 - 1 in
     [pushn n, OP_ROLL, pushn n, OP_ROLL, pushn n, OP_ROLL, pushn n, OP_ROLL])"

definition u32_pick :: "nat \<Rightarrow> script" where
  "u32_pick n0 = (let n = (n0 + 1) * 4 - 1 in
     [pushn n, OP_PICK, pushn n, OP_PICK, pushn n, OP_PICK, pushn n, OP_PICK])"

definition u32_compress :: script where
  "u32_compress = [OP_SWAP, OP_2SWAP, OP_SWAP, push 128, OP_2DUP, OP_GREATERTHANOREQUAL,
     OP_DUP, OP_TOALTSTACK, OP_IF_ELSE [OP_SUB] [OP_DROP]]
     @ op_256mul @ [OP_ADD] @ op_256mul @ [OP_ADD] @ op_256mul @ [OP_ADD]
     @ [OP_FROMALTSTACK, OP_IF [push 2147483647, OP_SUB, OP_1SUB]]"

text \<open>One bit of a byte in \<open>u32_uncompress\<close>: the loop body for bit \<open>base - i\<close>.\<close>

definition u32_uncompress_bit :: "nat \<Rightarrow> script" where
  "u32_uncompress_bit k = [push (2 ^ k), OP_2DUP, OP_GREATERTHANOREQUAL,
     OP_FROMALTSTACK, OP_DUP, OP_ADD, OP_OVER, OP_ADD, OP_TOALTSTACK,
     OP_IF_ELSE [OP_SUB] [OP_DROP]]"

definition u32_uncompress :: script where
  "u32_uncompress =
     [OP_SIZE, push 5, OP_EQUAL, OP_TUCK,
      OP_IF_ELSE [OP_DROP, push 0]
        [OP_TUCK, OP_GREATERTHAN, OP_TUCK, OP_IF [push 2147483647, OP_ADD, OP_1ADD]],
      OP_SWAP, OP_TOALTSTACK]
     @ for_range 1 8 (\<lambda>i. u32_uncompress_bit (31 - i))
     @ [push (2 ^ 23), OP_2DUP, OP_GREATERTHANOREQUAL, OP_DUP, OP_TOALTSTACK,
        OP_IF_ELSE [OP_SUB] [OP_DROP]]
     @ for_range 1 8 (\<lambda>i. u32_uncompress_bit (23 - i))
     @ [push (2 ^ 15), OP_2DUP, OP_GREATERTHANOREQUAL, OP_DUP, OP_TOALTSTACK,
        OP_IF_ELSE [OP_SUB] [OP_DROP]]
     @ for_range 1 8 (\<lambda>i. u32_uncompress_bit (15 - i))
     @ [OP_FROMALTSTACK, OP_FROMALTSTACK, OP_FROMALTSTACK, OP_SWAP, OP_2SWAP, OP_SWAP]"

section \<open>Generators of u32_zip.rs\<close>

definition u32_zip :: "nat \<Rightarrow> nat \<Rightarrow> script option" where
  "u32_zip a0 b0 = do {
     rust_assert (a0 \<noteq> b0);
     let (a1, b1) = (if a0 > b0 then (b0, a0) else (a0, b0));
     let a = (a1 + 1) * 4 - 1;
     let b = (b1 + 1) * 4 - 1;
     Some [pushn a, OP_ROLL, pushn b, OP_ROLL,
           pushn (a + 1), OP_ROLL, pushn b, OP_ROLL,
           pushn (a + 2), OP_ROLL, pushn b, OP_ROLL,
           pushn (a + 3), OP_ROLL, pushn b, OP_ROLL]
   }"

definition u32_copy_zip_helper :: "nat \<Rightarrow> nat \<Rightarrow> script option" where
  "u32_copy_zip_helper a0 b0 = do {
     rust_assert (a0 < b0);
     let a = (a0 + 1) * 4 - 1;
     let b = (b0 + 1) * 4 - 1;
     Some [pushn a, OP_PICK, pushn (b + 1), OP_ROLL,
           pushn (a + 1), OP_PICK, pushn (b + 2), OP_ROLL,
           pushn (a + 2), OP_PICK, pushn (b + 3), OP_ROLL,
           pushn (a + 3), OP_PICK, pushn (b + 4), OP_ROLL]
   }"

definition u32_zip_copy_helper :: "nat \<Rightarrow> nat \<Rightarrow> script option" where
  "u32_zip_copy_helper a0 b0 = do {
     rust_assert (a0 < b0);
     let a = (a0 + 1) * 4 - 1;
     let b = (b0 + 1) * 4 - 1;
     Some [pushn a, OP_ROLL, pushn b, OP_PICK,
           pushn (a + 1), OP_ROLL, pushn b, OP_PICK,
           pushn (a + 2), OP_ROLL, pushn b, OP_PICK,
           pushn (a + 3), OP_ROLL, pushn b, OP_PICK]
   }"

definition u32_copy_zip :: "nat \<Rightarrow> nat \<Rightarrow> script option" where
  "u32_copy_zip a b = (if a < b then u32_copy_zip_helper a b else u32_zip_copy_helper b a)"

section \<open>Words on the stack\<close>

definition u32_items :: "u32 \<Rightarrow> item list" where
  "u32_items w = map scriptnum [u32_byte 0 w, u32_byte 1 w, u32_byte 2 w, u32_byte 3 w]"

definition u32s :: "u32 list \<Rightarrow> item list" where
  "u32s ws = concat (map u32_items ws)"

lemma length_u32_items [simp]: "length (u32_items w) = 4"
  by (simp add: u32_items_def)

lemma length_u32s [simp]: "length (u32s ws) = 4 * length ws"
  by (induction ws) (simp_all add: u32s_def)

lemma u32s_simps [simp]:
  "u32s [] = []"
  "u32s (w # ws) = u32_items w @ u32s ws"
  "u32s (us @ ws) = u32s us @ u32s ws"
  by (simp_all add: u32s_def)

lemma u32_byte_bounds [simp]: "0 \<le> u32_byte i w" "u32_byte i w < 256" "u32_byte i w \<le> 255"
proof -
  show "0 \<le> u32_byte i w" "u32_byte i w < 256" by (simp_all add: u32_byte_def)
  then show "u32_byte i w \<le> 255" by linarith
qed

lemma num_ok_u32_byte [simp]: "num_ok (u32_byte i w)"
  using u32_byte_bounds [of i w] unfolding num_ok_def by linarith

lemma four_digits:
  assumes "0 \<le> n" "n < (4294967296 :: int)"
  shows "n = n mod 256 + 256 * (n div 256 mod 256) + 65536 * (n div 65536 mod 256)
           + 16777216 * (n div 16777216 mod 256)"
proof -
  have d2: "n div 65536 = n div 256 div 256" and d3: "n div 16777216 = n div 256 div 256 div 256"
    using zdiv_zmult2_eq [of 256 n 256] zdiv_zmult2_eq [of 256 n 65536]
      zdiv_zmult2_eq [of 256 "n div 256" 256] by simp_all
  have "n div 16777216 < 256" "0 \<le> n div 16777216" using assms by simp_all
  then have top: "n div 16777216 mod 256 = n div 16777216" by simp
  show ?thesis
    using mult_div_mod_eq [of 256 n] mult_div_mod_eq [of 256 "n div 256"]
      mult_div_mod_eq [of 256 "n div 256 div 256"] top
    unfolding d2 d3 by linarith
qed

lemma low_digit:
  assumes "0 \<le> b" "b < (256 :: int)"
  shows "(b + 256 * k) mod 256 = b" "(b + 256 * k) div 256 = k"
  using assms by simp_all

lemma four_digits_unique:
  assumes "b0 + 256 * b1 + 65536 * b2 + 16777216 * b3 = (n :: int)"
    and "0 \<le> b0" "b0 < 256" "0 \<le> b1" "b1 < 256" "0 \<le> b2" "b2 < 256" "0 \<le> b3" "b3 < 256"
  shows "n mod 256 = b0" "n div 256 mod 256 = b1" "n div 65536 mod 256 = b2"
    "n div 16777216 mod 256 = b3"
proof -
  have n: "n = b0 + 256 * (b1 + 256 * (b2 + 256 * b3))" using assms(1) by simp
  have d1: "n div 256 = b1 + 256 * (b2 + 256 * b3)" unfolding n using assms(2,3) by (rule low_digit(2))
  have "n div 65536 = n div 256 div 256" using zdiv_zmult2_eq [of 256 n 256] by simp
  then have d2: "n div 65536 = b2 + 256 * b3" using low_digit(2) [OF assms(4,5)] by (simp only: d1)
  have "n div 16777216 = n div 65536 div 256" using zdiv_zmult2_eq [of 256 n 65536] by simp
  then have d3: "n div 16777216 = b3" using low_digit(2) [OF assms(6,7)] by (simp only: d2)
  show "n mod 256 = b0" unfolding n using assms(2,3) by (rule low_digit(1))
  show "n div 256 mod 256 = b1" unfolding d1 using assms(4,5) by (rule low_digit(1))
  show "n div 65536 mod 256 = b2" unfolding d2 using assms(6,7) by (rule low_digit(1))
  show "n div 16777216 mod 256 = b3" using assms(8,9) by (simp add: d3)
qed

lemma u32_byte_numerals:
  "u32_byte 0 w = uint w mod 256"
  "u32_byte 1 w = uint w div 256 mod 256"
  "u32_byte 2 w = uint w div 65536 mod 256"
  "u32_byte 3 w = uint w div 16777216 mod 256"
  by (simp_all add: u32_byte_def)

lemma uint_u32_bytes:
  "uint (w :: u32) = u32_byte 0 w + 256 * u32_byte 1 w + 65536 * u32_byte 2 w + 16777216 * u32_byte 3 w"
  unfolding u32_byte_numerals
  by (rule four_digits) (use uint_bounded [of w] in simp_all)

text \<open>Four bytes that add up to a word are its bytes.\<close>

lemma u32_byte_eqI:
  assumes "uint (w :: u32) = b0 + 256 * b1 + 65536 * b2 + 16777216 * b3"
    and "0 \<le> b0" "b0 < 256" "0 \<le> b1" "b1 < 256" "0 \<le> b2" "b2 < 256" "0 \<le> b3" "b3 < 256"
  shows "u32_byte 0 w = b0 \<and> u32_byte 1 w = b1 \<and> u32_byte 2 w = b2 \<and> u32_byte 3 w = b3"
  unfolding u32_byte_numerals
  using four_digits_unique [OF assms(1) [symmetric] assms(2-9)] by simp

lemma u32_items_eqI:
  assumes "uint (w :: u32) = b0 + 256 * b1 + 65536 * b2 + 16777216 * b3"
    and "0 \<le> b0" "b0 < 256" "0 \<le> b1" "b1 < 256" "0 \<le> b2" "b2 < 256" "0 \<le> b3" "b3 < 256"
  shows "u32_items w = map scriptnum [b0, b1, b2, b3]"
  using u32_byte_eqI [OF assms] by (simp add: u32_items_def)

lemma u32_eq_bytesI:
  "u32_byte 0 v = u32_byte 0 w \<Longrightarrow> u32_byte 1 v = u32_byte 1 w \<Longrightarrow>
   u32_byte 2 v = u32_byte 2 w \<Longrightarrow> u32_byte 3 v = u32_byte 3 w \<Longrightarrow> v = w"
  using uint_u32_bytes [of v] uint_u32_bytes [of w] by (simp add: word_uint_eq_iff)


section \<open>Execution\<close>

lemma exec_push_to_stack4 [exec_simps]:
  "exec vm (push_to_stack n 4 @ p) (State s a) =
     exec vm p (State (scriptnum (int n) # scriptnum (int n) # scriptnum (int n) # scriptnum (int n) # s) a)"
  by (simp add: push_to_stack_def op_ndup_def exec_simps exec_pushn)

lemma exec_u32_push [exec_simps]:
  "exec vm (u32_push w @ p) (State s a) = exec vm p (State (u32_items w @ s) a)"
proof (cases "u32_byte 3 w = u32_byte 2 w \<and> u32_byte 3 w = u32_byte 1 w \<and> u32_byte 3 w = u32_byte 0 w")
  case True
  then have "u32_push w = push_to_stack (nat (u32_byte 3 w)) 4" by (simp add: u32_push_def)
  then show ?thesis using True by (auto simp: exec_push_to_stack4 u32_items_def)
next
  case False
  then show ?thesis by (auto simp: u32_push_def u32_items_def exec_simps)
qed

lemma u32_items_eq_iff: "u32_items v = u32_items w \<longleftrightarrow> v = w"
  by (auto simp: u32_items_def intro: u32_eq_bytesI)

lemma exec_u32_equalverify [exec_simps]:
  "exec vm (u32_equalverify @ p) (State (u32_items v @ u32_items w @ s) a) =
     (if v = w then exec vm p (State s a) else Inl EqualVerify)"
proof -
  have "v = w \<longleftrightarrow> u32_byte 0 w = u32_byte 0 v \<and> u32_byte 1 w = u32_byte 1 v \<and>
      u32_byte 2 w = u32_byte 2 v \<and> u32_byte 3 w = u32_byte 3 v"
    by (auto intro: u32_eq_bytesI)
  then show ?thesis by (auto simp: u32_equalverify_def u32_items_def exec_simps)
qed

lemma exec_u32_equal [exec_simps]:
  "exec vm (u32_equal @ p) (State (u32_items v @ u32_items w @ s) a) =
     exec vm p (State (bool_item (v = w) # s) a)"
proof -
  have "v = w \<longleftrightarrow> u32_byte 0 w = u32_byte 0 v \<and> u32_byte 1 w = u32_byte 1 v \<and>
      u32_byte 2 w = u32_byte 2 v \<and> u32_byte 3 w = u32_byte 3 v"
    by (auto intro: u32_eq_bytesI)
  then have "((u32_byte 3 v = u32_byte 3 w \<and> u32_byte 2 w = u32_byte 2 v) \<and>
      u32_byte 1 w = u32_byte 1 v) \<and> u32_byte 0 w = u32_byte 0 v \<longleftrightarrow> v = w" by auto
  then show ?thesis by (simp add: u32_equal_def u32_items_def exec_simps)
qed

lemma exec_u32_alt [exec_simps]:
  "exec vm (u32_toaltstack @ p) (State (u32_items w @ s) a) = exec vm p (State s (rev (u32_items w) @ a))"
  "exec vm (u32_fromaltstack @ p) (State s (rev (u32_items w) @ a)) = exec vm p (State (u32_items w @ s) a)"
  "exec vm (u32_dup @ p) (State (u32_items w @ s) a) = exec vm p (State (u32_items w @ u32_items w @ s) a)"
  "exec vm (u32_drop @ p) (State (u32_items w @ s) a) = exec vm p (State s a)"
  by (simp_all add: u32_toaltstack_def u32_fromaltstack_def u32_dup_def u32_drop_def u32_items_def
      exec_simps)

text \<open>The operand positions of the word generators are positions in a list of words.\<close>

definition small_stack :: "u32 list \<Rightarrow> bool" where
  "small_stack ws \<longleftrightarrow> 4 * length ws + 8 < 2147483648"

lemma exec_u32_roll:
  assumes "n < length ws" "small_stack ws"
  shows "exec vm (u32_roll n @ p) (State (u32s ws @ s) a) =
    exec vm p (State (u32_items (ws ! n) @ u32s (remove_nth n ws) @ s) a)"
proof -
  obtain us ts where ws: "ws = us @ ws ! n # ts" and len: "length us = n"
    using split_at [OF assms(1)] .
  have rm: "remove_nth n ws = us @ ts" using len by (subst ws) (simp add: remove_nth_append_length)
  show ?thesis
    using len assms unfolding small_stack_def
    by (subst (1) ws) (simp add: u32_roll_def Let_def u32_items_def rm exec_simps pos_simps)
qed

lemma exec_u32_pick:
  assumes "n < length ws" "small_stack ws"
  shows "exec vm (u32_pick n @ p) (State (u32s ws @ s) a) =
    exec vm p (State (u32_items (ws ! n) @ u32s ws @ s) a)"
proof -
  obtain us ts where ws: "ws = us @ ws ! n # ts" and len: "length us = n"
    using split_at [OF assms(1)] .
  show ?thesis
    using len assms unfolding small_stack_def
    by (subst (1 3) ws) (simp add: u32_pick_def Let_def u32_items_def exec_simps pos_simps)
qed

end
