(* ===== verification/U32_Add.thy ===== *)
theory U32_Add
  imports U32_Std
begin

text \<open>
  \<open>bitvm/src/u32/u32_add.rs\<close> on top of the zip generators: bytewise addition with
  carries, for operands at any two distinct positions of the stack.
\<close>

section \<open>Generators\<close>

definition u8_add_carry :: script where
  "u8_add_carry = [OP_ADD, push 256, OP_2DUP, OP_GREATERTHANOREQUAL,
     OP_IF_ELSE [OP_SUB, push 1] [OP_DROP, push 0]]"

definition u8_add :: script where
  "u8_add = [OP_ADD, push 256, OP_2DUP, OP_GREATERTHANOREQUAL, OP_IF [OP_SUB, push 0], OP_DROP]"

definition u32_add :: "nat \<Rightarrow> nat \<Rightarrow> script option" where
  "u32_add a b = do {
     rust_assert (a \<noteq> b);
     copy_zip \<leftarrow> u32_copy_zip a b;
     Some (copy_zip
       @ u8_add_carry @ [OP_SWAP, OP_TOALTSTACK]
       @ [OP_ADD] @ u8_add_carry @ [OP_SWAP, OP_TOALTSTACK]
       @ [OP_ADD] @ u8_add_carry @ [OP_SWAP, OP_TOALTSTACK]
       @ [OP_ADD] @ u8_add
       @ [OP_FROMALTSTACK, OP_FROMALTSTACK, OP_FROMALTSTACK])
   }"

definition u32_add_drop :: "nat \<Rightarrow> nat \<Rightarrow> script option" where
  "u32_add_drop a b = do {
     rust_assert (a \<noteq> b);
     zip \<leftarrow> u32_zip a b;
     Some (zip
       @ u8_add_carry @ [OP_SWAP, OP_TOALTSTACK]
       @ [OP_ADD] @ u8_add_carry @ [OP_SWAP, OP_TOALTSTACK]
       @ [OP_ADD] @ u8_add_carry @ [OP_SWAP, OP_TOALTSTACK]
       @ [OP_ADD] @ u8_add
       @ [OP_FROMALTSTACK, OP_FROMALTSTACK, OP_FROMALTSTACK])
   }"

section \<open>Zipping two words\<close>

definition zip_items :: "u32 \<Rightarrow> u32 \<Rightarrow> item list" where
  "zip_items x y = map scriptnum
     [u32_byte 0 x, u32_byte 0 y, u32_byte 1 x, u32_byte 1 y,
      u32_byte 2 x, u32_byte 2 y, u32_byte 3 x, u32_byte 3 y]"

lemma exec_u32_zip_ordered:
  assumes "i < j" "j < length ws" "small_stack ws" "u32_zip i j = Some z"
  shows "exec vm (z @ p) (State (u32s ws @ s) a) =
    exec vm p (State (zip_items (ws ! j) (ws ! i) @ u32s (remove_nth i (remove_nth j ws)) @ s) a)"
proof -
  obtain us vs ts where ws: "ws = us @ ws ! i # vs @ ws ! j # ts"
    and len: "length us = i" "length vs = j - i - 1"
    using split_at2 [OF assms(1,2)] .
  have rm: "remove_nth i (remove_nth j ws) = us @ vs @ ts"
    using len assms by (subst ws) (simp add: remove_nth_append_length pos_simps)
  obtain d where j: "j = i + d + 1" using assms(1) by (metis add.assoc less_imp_add_positive
      add.commute Suc_pred plus_1_eq_Suc)
  then have len': "length vs = d" using len by simp
  have z: "z = [pushn (4 * i + 3), OP_ROLL, pushn (4 * j + 3), OP_ROLL,
           pushn (4 * i + 4), OP_ROLL, pushn (4 * j + 3), OP_ROLL,
           pushn (4 * i + 5), OP_ROLL, pushn (4 * j + 3), OP_ROLL,
           pushn (4 * i + 6), OP_ROLL, pushn (4 * j + 3), OP_ROLL]"
    using assms by (simp add: u32_zip_def Let_def algebra_simps)
  show ?thesis
    using len(1) len' assms(2,3) unfolding small_stack_def rm z
    by (subst (1) ws) (simp add: j u32_items_def zip_items_def exec_simps pos_simps)
qed


lemma u32_zip_swap: "u32_zip a b = u32_zip b a"
  by (auto simp: u32_zip_def Let_def rust_assert_def)

lemma exec_u32_copy_zip:
  assumes "a \<noteq> b" "a < length ws" "b < length ws" "small_stack ws" "u32_copy_zip a b = Some z"
  shows "exec vm (z @ p) (State (u32s ws @ s) al) =
    exec vm p (State (zip_items (ws ! max a b) (ws ! min a b) @ u32s (remove_nth b ws) @ s) al)"
proof (cases "a < b")
  case True
  obtain us vs ts where ws: "ws = us @ ws ! a # vs @ ws ! b # ts"
    and len: "length us = a" "length vs = b - a - 1"
    using split_at2 [OF True assms(3)] .
  have rm: "remove_nth b ws = us @ ws ! a # vs @ ts"
    using len True by (subst ws) (simp add: pos_simps)
  obtain d where b: "b = a + d + 1" using True
    by (metis add.assoc less_imp_add_positive add.commute Suc_pred plus_1_eq_Suc)
  then have len': "length vs = d" using len by simp
  have z: "z = [pushn (4 * a + 3), OP_PICK, pushn (4 * b + 4), OP_ROLL,
           pushn (4 * a + 4), OP_PICK, pushn (4 * b + 5), OP_ROLL,
           pushn (4 * a + 5), OP_PICK, pushn (4 * b + 6), OP_ROLL,
           pushn (4 * a + 6), OP_PICK, pushn (4 * b + 7), OP_ROLL]"
    using assms True by (simp add: u32_copy_zip_def u32_copy_zip_helper_def Let_def algebra_simps)
  have mm: "max a b = b" "min a b = a" using True by simp_all
  show ?thesis
    using len(1) len' assms(3,4) unfolding small_stack_def rm z mm
    by (subst (1) ws) (simp add: b u32_items_def zip_items_def exec_simps pos_simps)
next
  case False
  then have lt: "b < a" using assms(1) by simp
  obtain us vs ts where ws: "ws = us @ ws ! b # vs @ ws ! a # ts"
    and len: "length us = b" "length vs = a - b - 1"
    using split_at2 [OF lt assms(2)] .
  have rm: "remove_nth b ws = us @ vs @ ws ! a # ts"
    using len lt by (subst ws) (simp add: pos_simps)
  obtain d where a: "a = b + d + 1" using lt
    by (metis add.assoc less_imp_add_positive add.commute Suc_pred plus_1_eq_Suc)
  then have len': "length vs = d" using len by simp
  have z: "z = [pushn (4 * b + 3), OP_ROLL, pushn (4 * a + 3), OP_PICK,
           pushn (4 * b + 4), OP_ROLL, pushn (4 * a + 3), OP_PICK,
           pushn (4 * b + 5), OP_ROLL, pushn (4 * a + 3), OP_PICK,
           pushn (4 * b + 6), OP_ROLL, pushn (4 * a + 3), OP_PICK]"
    using assms lt by (simp add: u32_copy_zip_def u32_zip_copy_helper_def Let_def algebra_simps)
  have mm: "max a b = a" "min a b = b" using lt by simp_all
  show ?thesis
    using len(1) len' assms(2,4) unfolding small_stack_def rm z mm
    by (subst (1) ws) (simp add: a u32_items_def zip_items_def exec_simps pos_simps)
qed

lemma exec_u32_zip:
  assumes "a \<noteq> b" "a < length ws" "b < length ws" "small_stack ws" "u32_zip a b = Some z"
  shows "exec vm (z @ p) (State (u32s ws @ s) al) =
    exec vm p (State (zip_items (ws ! max a b) (ws ! min a b)
      @ u32s (remove_nth (min a b) (remove_nth (max a b) ws)) @ s) al)"
proof (cases "a < b")
  case True
  then show ?thesis
    using exec_u32_zip_ordered [OF True assms(3,4,5)] by (simp add: max_def min_def)
next
  case False
  then have lt: "b < a" using assms(1) by simp
  show ?thesis
    using exec_u32_zip_ordered [OF lt assms(2,4)] assms(5) lt
    by (simp add: u32_zip_swap [of a b] max_def min_def)
qed

section \<open>Bytewise addition\<close>

lemma carry_cases:
  assumes "0 \<le> t" "t < (512 :: int)"
  shows "t div 256 = of_bool (256 \<le> t)" "t mod 256 = t - 256 * of_bool (256 \<le> t)"
proof -
  show div: "t div 256 = of_bool (256 \<le> t)"
    using assms div_pos_geq [of 256 t] by (cases "256 \<le> t") (simp_all add: div_pos_pos_trivial)
  show "t mod 256 = t - 256 * of_bool (256 \<le> t)"
    using mult_div_mod_eq [of 256 t] div by linarith
qed

lemma exec_u8_add_carry:
  assumes "num_ok x" "num_ok y" "0 \<le> x + y" "x + y < 512"
  shows "exec vm (u8_add_carry @ p) (State (scriptnum y # scriptnum x # s) a) =
    exec vm p (State (scriptnum ((x + y) div 256) # scriptnum ((x + y) mod 256) # s) a)"
proof -
  have ok: "num_ok (x + y)" "num_ok 256" using assms by (auto simp: num_ok_def)
  show ?thesis
    using assms(1,2) ok carry_cases [OF assms(3,4)]
    by (cases "256 \<le> x + y") (simp_all add: u8_add_carry_def exec_simps)
qed

lemma exec_u8_add:
  assumes "num_ok x" "num_ok y" "0 \<le> x + y" "x + y < 512"
  shows "exec vm (u8_add @ p) (State (scriptnum y # scriptnum x # s) a) =
    exec vm p (State (scriptnum ((x + y) mod 256) # s) a)"
proof -
  have ok: "num_ok (x + y)" "num_ok 256" using assms by (auto simp: num_ok_def)
  show ?thesis
    using assms(1,2) ok carry_cases [OF assms(3,4)]
    by (cases "256 \<le> x + y") (simp_all add: u8_add_def exec_simps)
qed

text \<open>The carry chain of the four byte additions computes the wrapping sum.\<close>

definition byte_carry :: "int \<Rightarrow> int \<Rightarrow> int \<Rightarrow> int" where
  "byte_carry x y c = (x + y + c) div 256"

lemma byte_carry_bounds:
  assumes "0 \<le> x" "x < 256" "0 \<le> y" "y < 256" "0 \<le> c" "c \<le> 1"
  shows "0 \<le> byte_carry x y c" "byte_carry x y c \<le> 1"
proof -
  show "0 \<le> byte_carry x y c" using assms by (simp add: byte_carry_def)
  have "x + y + c < 512" using assms by linarith
  then show "byte_carry x y c \<le> 1"
    using assms carry_cases(1) [of "x + y + c"] by (simp add: byte_carry_def)
qed

definition add_bytes :: "u32 \<Rightarrow> u32 \<Rightarrow> int list" where
  "add_bytes x y =
     (let c0 = byte_carry (u32_byte 0 x) (u32_byte 0 y) 0;
          c1 = byte_carry (u32_byte 1 x) (u32_byte 1 y) c0;
          c2 = byte_carry (u32_byte 2 x) (u32_byte 2 y) c1
      in [(u32_byte 0 x + u32_byte 0 y) mod 256,
          (u32_byte 1 x + u32_byte 1 y + c0) mod 256,
          (u32_byte 2 x + u32_byte 2 y + c1) mod 256,
          (u32_byte 3 x + u32_byte 3 y + c2) mod 256])"

lemma u32_items_add: "u32_items (x + y) = map scriptnum (add_bytes x y)"
proof -
  define c0 where "c0 = byte_carry (u32_byte 0 x) (u32_byte 0 y) 0"
  define c1 where "c1 = byte_carry (u32_byte 1 x) (u32_byte 1 y) c0"
  define c2 where "c2 = byte_carry (u32_byte 2 x) (u32_byte 2 y) c1"
  define t3 where "t3 = u32_byte 3 x + u32_byte 3 y + c2"
  have r0: "(u32_byte 0 x + u32_byte 0 y) mod 256 = u32_byte 0 x + u32_byte 0 y - 256 * c0"
    unfolding c0_def byte_carry_def
    using mult_div_mod_eq [of 256 "u32_byte 0 x + u32_byte 0 y"]
    by (simp add: minus_mult_div_eq_mod)
  have r1: "(u32_byte 1 x + u32_byte 1 y + c0) mod 256 = u32_byte 1 x + u32_byte 1 y + c0 - 256 * c1"
    unfolding c1_def byte_carry_def
    using mult_div_mod_eq [of 256 "u32_byte 1 x + u32_byte 1 y + c0"] by linarith
  have r2: "(u32_byte 2 x + u32_byte 2 y + c1) mod 256 = u32_byte 2 x + u32_byte 2 y + c1 - 256 * c2"
    unfolding c2_def byte_carry_def
    using mult_div_mod_eq [of 256 "u32_byte 2 x + u32_byte 2 y + c1"] by linarith
  have r3: "t3 mod 256 = t3 - 256 * (t3 div 256)"
    using mult_div_mod_eq [of 256 t3] by linarith
  define r where "r = (u32_byte 0 x + u32_byte 0 y) mod 256
      + 256 * ((u32_byte 1 x + u32_byte 1 y + c0) mod 256)
      + 65536 * ((u32_byte 2 x + u32_byte 2 y + c1) mod 256) + 16777216 * (t3 mod 256)"
  define m3 q3 where "m3 = t3 mod 256" and "q3 = t3 div 256"
  have "m3 = u32_byte 3 x + u32_byte 3 y + c2 - 256 * q3"
    using r3 by (simp only: m3_def q3_def t3_def)
  then have "uint x + uint y = r + 4294967296 * q3"
    unfolding r_def r0 r1 r2 uint_u32_bytes [of x] uint_u32_bytes [of y] m3_def [symmetric]
    by (simp add: algebra_simps)
  moreover have "0 \<le> r" unfolding r_def by simp
  moreover have "r < 4294967296"
  proof -
    have "t mod 256 < (256 :: int)" for t by simp
    from this [of "u32_byte 0 x + u32_byte 0 y"] this [of "u32_byte 1 x + u32_byte 1 y + c0"]
      this [of "u32_byte 2 x + u32_byte 2 y + c1"] this [of t3]
    show ?thesis unfolding r_def by linarith
  qed
  ultimately have "uint (x + y) = r" by (simp add: uint_word_ariths)
  then have "u32_items (x + y) = map scriptnum
     [(u32_byte 0 x + u32_byte 0 y) mod 256, (u32_byte 1 x + u32_byte 1 y + c0) mod 256,
      (u32_byte 2 x + u32_byte 2 y + c1) mod 256, t3 mod 256]"
    unfolding r_def by (rule u32_items_eqI) simp_all
  then show ?thesis
    by (simp add: add_bytes_def Let_def c0_def c1_def c2_def t3_def)
qed

lemma exec_u32_add_chain:
  "exec vm (u8_add_carry @ [OP_SWAP, OP_TOALTSTACK]
       @ [OP_ADD] @ u8_add_carry @ [OP_SWAP, OP_TOALTSTACK]
       @ [OP_ADD] @ u8_add_carry @ [OP_SWAP, OP_TOALTSTACK]
       @ [OP_ADD] @ u8_add
       @ [OP_FROMALTSTACK, OP_FROMALTSTACK, OP_FROMALTSTACK] @ p)
     (State (zip_items x y @ s) a) = exec vm p (State (u32_items (x + y) @ s) a)"
proof -
  define c0 where "c0 = byte_carry (u32_byte 0 x) (u32_byte 0 y) 0"
  define c1 where "c1 = byte_carry (u32_byte 1 x) (u32_byte 1 y) c0"
  define c2 where "c2 = byte_carry (u32_byte 2 x) (u32_byte 2 y) c1"
  note b = u32_byte_bounds
  have c0b: "0 \<le> c0" "c0 \<le> 1" unfolding c0_def by (rule byte_carry_bounds; simp)+
  have c1b: "0 \<le> c1" "c1 \<le> 1" unfolding c1_def by (rule byte_carry_bounds; simp add: c0b)+
  have c2b: "0 \<le> c2" "c2 \<le> 1" unfolding c2_def by (rule byte_carry_bounds; simp add: c1b)+
  have ok: "num_ok c0" "num_ok c1" "num_ok c2" using c0b c1b c2b by (auto simp: num_ok_def)
  have ok': "num_ok (u32_byte i x + c)" if "0 \<le> c" "c \<le> 1" for i c
    using that b(1,3) [of i x] unfolding num_ok_def by linarith
  have s0: "u32_byte 0 y + u32_byte 0 x < 512" using b [of 0] by smt
  have s: "u32_byte i y + (u32_byte i x + c) < 512" if "c \<le> 1" for i c
    using that b(3) [of i x] b(3) [of i y] by linarith
  have e0: "(u32_byte 0 y + u32_byte 0 x) div 256 = c0"
    "(u32_byte 1 y + (u32_byte 1 x + c0)) div 256 = c1"
    "(u32_byte 2 y + (u32_byte 2 x + c1)) div 256 = c2"
    by (simp_all add: c0_def c1_def c2_def byte_carry_def algebra_simps)
  have items: "map scriptnum (add_bytes x y) = map scriptnum
     [(u32_byte 0 y + u32_byte 0 x) mod 256, (u32_byte 1 y + (u32_byte 1 x + c0)) mod 256,
      (u32_byte 2 y + (u32_byte 2 x + c1)) mod 256, (u32_byte 3 y + (u32_byte 3 x + c2)) mod 256]"
    by (simp add: add_bytes_def Let_def c0_def [symmetric] c1_def [symmetric] c2_def [symmetric]
        algebra_simps)
  show ?thesis
    unfolding u32_items_add items
    by (simp add: zip_items_def exec_simps exec_u8_add_carry exec_u8_add ok ok' s0 s e0
        c0b c1b c2b add_nonneg_nonneg)
qed


section \<open>Addition at stack positions\<close>

lemma exec_u32_add:
  assumes "a \<noteq> b" "a < length ws" "b < length ws" "small_stack ws" "u32_add a b = Some z"
  shows "exec vm (z @ p) (State (u32s ws @ s) al) =
    exec vm p (State (u32_items (ws ! a + ws ! b) @ u32s (remove_nth b ws) @ s) al)"
proof -
  obtain cz where cz: "u32_copy_zip a b = Some cz"
    using assms(5) by (auto simp: u32_add_def bind_eq_Some_conv)
  have sum: "ws ! max a b + ws ! min a b = ws ! a + ws ! b"
    by (simp add: max_def min_def add.commute)
  have "exec vm (z @ p) (State (u32s ws @ s) al) = exec vm (cz @ u8_add_carry @ [OP_SWAP, OP_TOALTSTACK]
       @ [OP_ADD] @ u8_add_carry @ [OP_SWAP, OP_TOALTSTACK]
       @ [OP_ADD] @ u8_add_carry @ [OP_SWAP, OP_TOALTSTACK]
       @ [OP_ADD] @ u8_add @ [OP_FROMALTSTACK, OP_FROMALTSTACK, OP_FROMALTSTACK] @ p)
       (State (u32s ws @ s) al)"
    using assms(1,5) cz by (auto simp: u32_add_def)
  then show ?thesis
    by (simp only: exec_u32_copy_zip [OF assms(1-4) cz] exec_u32_add_chain sum)
qed

lemma exec_u32_add_drop:
  assumes "a \<noteq> b" "a < length ws" "b < length ws" "small_stack ws" "u32_add_drop a b = Some z"
  shows "exec vm (z @ p) (State (u32s ws @ s) al) =
    exec vm p (State (u32_items (ws ! a + ws ! b)
      @ u32s (remove_nth (min a b) (remove_nth (max a b) ws)) @ s) al)"
proof -
  obtain cz where cz: "u32_zip a b = Some cz"
    using assms(5) by (auto simp: u32_add_drop_def bind_eq_Some_conv)
  have sum: "ws ! max a b + ws ! min a b = ws ! a + ws ! b"
    by (simp add: max_def min_def add.commute)
  have "exec vm (z @ p) (State (u32s ws @ s) al) = exec vm (cz @ u8_add_carry @ [OP_SWAP, OP_TOALTSTACK]
       @ [OP_ADD] @ u8_add_carry @ [OP_SWAP, OP_TOALTSTACK]
       @ [OP_ADD] @ u8_add_carry @ [OP_SWAP, OP_TOALTSTACK]
       @ [OP_ADD] @ u8_add @ [OP_FROMALTSTACK, OP_FROMALTSTACK, OP_FROMALTSTACK] @ p)
       (State (u32s ws @ s) al)"
    using assms(1,5) cz by (auto simp: u32_add_drop_def)
  then show ?thesis
    by (simp only: exec_u32_zip [OF assms(1-4) cz] exec_u32_add_chain sum)
qed

lemma u32_add_defined: "a \<noteq> b \<Longrightarrow> \<exists>z. u32_add a b = Some z"
  by (auto simp: u32_add_def u32_copy_zip_def u32_copy_zip_helper_def u32_zip_copy_helper_def Let_def
      rust_assert_def)

lemma u32_add_drop_defined: "a \<noteq> b \<Longrightarrow> \<exists>z. u32_add_drop a b = Some z"
  by (auto simp: u32_add_drop_def u32_zip_def Let_def rust_assert_def)

lemma word_wrap_example: "(4294967298 :: u32) = 2"
  by (simp add: One_nat_def)

text \<open>
  \<open>u32_add(a, b)\<close>, for any two distinct positions of a stack of words, yields a script
  that never fails and leaves the wrapping sum of the two words on top, keeps the word at
  \<open>a\<close>, consumes the word at \<open>b\<close> and touches nothing else.
\<close>

theorem u32_add_correct:
  assumes "a \<noteq> b" "a < length ws" "b < length ws" "small_stack ws"
  shows "\<exists>z. u32_add a b = Some z \<and>
    exec vm z (State (u32s ws @ s) al) =
      Inr (State (u32_items (ws ! a + ws ! b) @ u32s (remove_nth b ws) @ s) al)"
proof -
  obtain z where z: "u32_add a b = Some z" using u32_add_defined [OF assms(1)] ..
  show ?thesis
    using z exec_u32_add [OF assms z, of vm "[]" s al] by simp
qed

theorem u32_add_correct_witness:
  "\<exists>z. u32_add 1 0 = Some z \<and>
    exec sample_vm z (State (u32s [3, 4294967295] @ []) []) = Inr (State (u32_items 2 @ u32s [4294967295] @ []) [])"
  using u32_add_correct [of 1 0 "[3, 4294967295]" sample_vm "[]" "[]"]
  by (simp add: small_stack_def word_wrap_example)

text \<open>
  \<open>u32_add_drop(a, b)\<close>, for any two distinct positions, leaves the wrapping sum on top
  and consumes both operands; it never fails.
\<close>

theorem u32_add_drop_correct:
  assumes "a \<noteq> b" "a < length ws" "b < length ws" "small_stack ws"
  shows "\<exists>z. u32_add_drop a b = Some z \<and>
    exec vm z (State (u32s ws @ s) al) =
      Inr (State (u32_items (ws ! a + ws ! b)
        @ u32s (remove_nth (min a b) (remove_nth (max a b) ws)) @ s) al)"
proof -
  obtain z where z: "u32_add_drop a b = Some z" using u32_add_drop_defined [OF assms(1)] ..
  show ?thesis
    using z exec_u32_add_drop [OF assms z, of vm "[]" s al] by simp
qed

theorem u32_add_drop_correct_witness:
  "\<exists>z. u32_add_drop 0 1 = Some z \<and>
    exec sample_vm z (State (u32s [3, 4294967295] @ []) []) = Inr (State (u32_items 2 @ u32s [] @ []) [])"
  using u32_add_drop_correct [of 0 1 "[3, 4294967295]" sample_vm "[]" "[]"]
  by (simp add: small_stack_def word_wrap_example)

end
