(* ===== verification/U32_Logic.thy ===== *)
theory U32_Logic
  imports U32_Add
begin

text \<open>
  \<open>bitvm/src/u32/u32_xor.rs\<close> and \<open>u32_and.rs\<close>: bitwise operations by a lookup table.
  Script has no bitwise opcodes; the table holds, for every byte, its bits at the odd
  positions moved down by one, and the generators combine the even and the odd half of
  the operands by plain additions.
\<close>

unbundle bit_operations_syntax

section \<open>Generators\<close>

definition u8_xor_table_group :: "int \<Rightarrow> script" where
  "u8_xor_table_group k =
     [push k, OP_DUP, push (k - 1), OP_DUP, OP_2OVER, OP_2OVER,
      push (k - 4), OP_DUP, push (k - 5), OP_DUP, OP_2OVER, OP_2OVER]"

definition u8_push_xor_table :: script where
  "u8_push_xor_table = concat (map u8_xor_table_group
     [85, 85, 69, 69, 85, 85, 69, 69, 21, 21, 5, 5, 21, 21, 5, 5])"

definition u8_drop_xor_table :: script where
  "u8_drop_xor_table = for_range 0 128 (\<lambda>_. [OP_2DROP])"

text \<open>The common front part of \<open>u8_xor\<close> and \<open>u8_and\<close>, up to the sum of the even halves.\<close>

definition u8_halves :: "nat \<Rightarrow> script" where
  "u8_halves i =
     [OP_DUP, pushn i, OP_ADD, OP_PICK,
      OP_DUP, OP_DUP, OP_ADD,
      OP_ROT, OP_SWAP, OP_SUB,
      OP_ROT, OP_DUP, pushn (i + 1), OP_ADD, OP_PICK,
      OP_DUP, OP_DUP, OP_ADD,
      OP_ROT, OP_SWAP, OP_SUB,
      OP_SWAP, pushn 3, OP_ROLL, OP_ADD]"

definition u8_xor :: "nat \<Rightarrow> script" where
  "u8_xor i = u8_halves i @
     [OP_DUP, pushn (i + 1), OP_ADD, OP_PICK, OP_DUP, OP_ADD, OP_SUB,
      OP_SWAP, OP_ROT, OP_ADD,
      OP_DUP, pushn i, OP_ADD, OP_PICK, OP_DUP, OP_ADD, OP_SUB,
      OP_OVER, OP_ADD, OP_ADD]"

definition u8_and :: "nat \<Rightarrow> script option" where
  "u8_and i = do {
     i1 \<leftarrow> checked_sub i 1;
     Some (u8_halves i @
       [pushn i, OP_ADD, OP_PICK,
        OP_SWAP, OP_ROT, OP_ADD,
        pushn i1, OP_ADD, OP_PICK,
        OP_OVER, OP_ADD, OP_ADD])
   }"

definition u32_xor :: "nat \<Rightarrow> nat \<Rightarrow> nat \<Rightarrow> script option" where
  "u32_xor a b stack_size = do {
     rust_assert (a \<noteq> b);
     copy_zip \<leftarrow> u32_copy_zip a b;
     n \<leftarrow> checked_sub stack_size 2;
     Some (copy_zip
       @ u8_xor (8 + n * 4) @ [OP_TOALTSTACK]
       @ u8_xor (6 + n * 4) @ [OP_TOALTSTACK]
       @ u8_xor (4 + n * 4) @ [OP_TOALTSTACK]
       @ u8_xor (2 + n * 4)
       @ [OP_FROMALTSTACK, OP_FROMALTSTACK, OP_FROMALTSTACK])
   }"

definition u32_and :: "nat \<Rightarrow> nat \<Rightarrow> nat \<Rightarrow> script option" where
  "u32_and a b stack_size = do {
     rust_assert (a \<noteq> b);
     copy_zip \<leftarrow> u32_copy_zip a b;
     n \<leftarrow> checked_sub stack_size 2;
     and8 \<leftarrow> u8_and (8 + n * 4);
     and6 \<leftarrow> u8_and (6 + n * 4);
     and4 \<leftarrow> u8_and (4 + n * 4);
     and2 \<leftarrow> u8_and (2 + n * 4);
     Some (copy_zip
       @ and8 @ [OP_TOALTSTACK]
       @ and6 @ [OP_TOALTSTACK]
       @ and4 @ [OP_TOALTSTACK]
       @ and2
       @ [OP_FROMALTSTACK, OP_FROMALTSTACK, OP_FROMALTSTACK])
   }"

section \<open>The table\<close>

text \<open>The odd-position bits of a number, one position down.\<close>

fun odd_bits :: "nat \<Rightarrow> nat" where
  "odd_bits n = (if n = 0 then 0 else 4 * odd_bits (n div 4) + n mod 4 div 2)"

declare odd_bits.simps [simp del]

lemma odd_bits_0 [simp]: "odd_bits 0 = 0"
  by (simp add: odd_bits.simps)

lemma odd_bits_digit:
  assumes "r < 4"
  shows "odd_bits (4 * q + r) = 4 * odd_bits q + r div 2"
proof (cases "4 * q + r = 0")
  case False
  then show ?thesis using assms by (subst odd_bits.simps) simp
qed simp

definition xor_table :: "item list" where
  "xor_table = map (\<lambda>n. scriptnum (int (odd_bits n))) [0..<256]"

lemma length_xor_table [simp]: "length xor_table = 256"
  by (simp add: xor_table_def)

lemma nth_xor_table [simp]: "n < 256 \<Longrightarrow> xor_table ! n = scriptnum (int (odd_bits n))"
  by (simp add: xor_table_def)

lemma exec_xor_table_group:
  "exec vm (u8_xor_table_group k @ p) (State s a) = exec vm p (State (map scriptnum
     [k - 5, k - 5, k - 4, k - 4, k - 5, k - 5, k - 4, k - 4,
      k - 1, k - 1, k, k, k - 1, k - 1, k, k] @ s) a)"
  by (simp add: u8_xor_table_group_def exec_simps)

lemma odd_bits_table:
  "map (\<lambda>n. int (odd_bits n)) [0..<256] = concat (map (\<lambda>k.
     [k - 5, k - 5, k - 4, k - 4, k - 5, k - 5, k - 4, k - 4,
      k - 1, k - 1, k, k, k - 1, k - 1, k, k])
     [5, 5, 21, 21, 5, 5, 21, 21, 69, 69, 85, 85, 69, 69, 85, 85])"
  by code_simp

lemma exec_u8_push_xor_table:
  "exec vm (u8_push_xor_table @ p) (State s a) = exec vm p (State (xor_table @ s) a)"
proof -
  have "xor_table = map scriptnum (map (\<lambda>n. int (odd_bits n)) [0..<256])"
    unfolding xor_table_def by (simp only: map_map o_def)
  note table = this [unfolded odd_bits_table]
  show ?thesis
    unfolding table by (simp add: u8_push_xor_table_def exec_xor_table_group)
qed

lemma exec_u8_drop_xor_table:
  assumes "length t = 256"
  shows "exec vm (u8_drop_xor_table @ p) (State (t @ s) a) = exec vm p (State s a)"
proof -
  have "exec vm (repeat_script n [OP_2DROP] @ p) (State (t @ s) a) = exec vm p (State s a)"
    if "length t = 2 * n" for n t
    using that
  proof (induction n arbitrary: t)
    case (Suc n)
    then obtain x y u where "t = x # y # u" "length u = 2 * n"
      by (cases t; cases "tl t") auto
    then show ?case using Suc.IH [of u] by (simp add: repeat_script_Suc exec_simps)
  qed simp
  from this [of t 128] show ?thesis
    using assms by (simp add: u8_drop_xor_table_def for_range_const)
qed

section \<open>The arithmetic of the halves\<close>

lemma digit4_induct [consumes 2, case_names zero step]:
  fixes a b :: nat
  assumes "a < 4 ^ k" "b < 4 ^ k"
    and "P 0 0 0"
    and "\<And>a b r t k. a < 4 ^ k \<Longrightarrow> b < 4 ^ k \<Longrightarrow> r < 4 \<Longrightarrow> t < 4 \<Longrightarrow> P k a b \<Longrightarrow> P (Suc k) (4 * a + r) (4 * b + t)"
  shows "P k a b"
  using assms(1,2)
proof (induction k arbitrary: a b)
  case 0
  then have "a = 0" "b = 0" by (simp_all only: power_0 less_one)
  then show ?case using assms(3) by simp
next
  case (Suc k)
  have "a div 4 < 4 ^ k" "b div 4 < 4 ^ k" using Suc.prems by (simp_all add: div_less_iff_less_mult mult.commute)
  moreover from this have "P k (a div 4) (b div 4)" by (rule Suc.IH)
  ultimately have "P (Suc k) (4 * (a div 4) + a mod 4) (4 * (b div 4) + b mod 4)"
    by (intro assms(4)) simp_all
  then show ?case by simp
qed

lemma digit4_cases: "r < (4 :: nat) \<Longrightarrow> r = 0 \<or> r = 1 \<or> r = 2 \<or> r = 3"
  by auto

lemma odd_bits_le: "2 * odd_bits n \<le> n"
proof (induction n rule: odd_bits.induct)
  case (1 n)
  show ?case
  proof (cases "n = 0")
    case False
    then have IH: "2 * odd_bits (n div 4) \<le> n div 4" by (rule 1)
    have "2 * odd_bits n = 8 * odd_bits (n div 4) + 2 * (n mod 4 div 2)"
      using False by (subst odd_bits.simps) simp
    also have "\<dots> \<le> 4 * (n div 4) + n mod 4"
      using IH times_div_less_eq_dividend [of 2 "n mod 4"] by linarith
    also have "\<dots> = n" by simp
    finally show ?thesis .
  qed simp
qed

text \<open>What the table leaves: the bits at the even positions.\<close>

definition even_bits :: "nat \<Rightarrow> nat" where
  "even_bits n = n - 2 * odd_bits n"

lemma even_bits_0 [simp]: "even_bits 0 = 0"
  by (simp add: even_bits_def)

lemma even_bits_digit:
  assumes "r < 4"
  shows "even_bits (4 * q + r) = 4 * even_bits q + r mod 2"
proof -
  have "2 * odd_bits q \<le> q" by (rule odd_bits_le)
  moreover have "r = 2 * (r div 2) + r mod 2" by simp
  ultimately show ?thesis
    using odd_bits_digit [OF assms, of q] unfolding even_bits_def by linarith
qed

lemma even_bits_bound: "n < 4 ^ k \<Longrightarrow> 3 * even_bits n < 4 ^ k"
proof (induction k arbitrary: n)
  case 0
  then have "n = 0" by (simp only: power_0 less_one)
  then show ?case by simp
next
  case (Suc k)
  have "n div 4 < 4 ^ k" using Suc.prems by (simp add: div_less_iff_less_mult mult.commute)
  then have IH: "3 * even_bits (n div 4) < 4 ^ k" by (rule Suc.IH)
  have "even_bits (4 * (n div 4) + n mod 4) = 4 * even_bits (n div 4) + n mod 4 mod 2"
    by (rule even_bits_digit) simp
  moreover have "n mod 4 mod 2 < 2" by simp
  ultimately have "even_bits n \<le> 4 * even_bits (n div 4) + 1" by simp
  then show ?case using IH by simp
qed

text \<open>Bitwise operations digit by digit.\<close>

lemma bitop_digit2:
  fixes a b r t :: nat
  assumes "r < 2" "t < 2"
  shows "(2 * a + r) AND (2 * b + t) = 2 * (a AND b) + (r AND t)"
    and "(2 * a + r) XOR (2 * b + t) = 2 * (a XOR b) + (r XOR t)"
  using assms
  by (simp_all add: and_rec [of "2 * a + r"] xor_rec [of "2 * a + r"] and_rec [of r] xor_rec [of r])

lemma bitop_digit4:
  fixes a b r t :: nat
  assumes "r < 4" "t < 4"
  shows "(4 * a + r) AND (4 * b + t) = 4 * (a AND b) + (r AND t)"
    and "(4 * a + r) XOR (4 * b + t) = 4 * (a XOR b) + (r XOR t)"
proof -
  have split: "4 * c + d = 2 * (2 * c + d div 2) + d mod 2" for c d :: nat
    by (simp add: add.assoc)
  have lt: "r div 2 < 2" "t div 2 < 2" using assms by simp_all
  have rt: "r AND t = 2 * ((r div 2) AND (t div 2)) + ((r mod 2) AND (t mod 2))"
    "r XOR t = 2 * ((r div 2) XOR (t div 2)) + ((r mod 2) XOR (t mod 2))"
    using bitop_digit2 [of "r mod 2" "t mod 2" "r div 2" "t div 2"] by simp_all
  show "(4 * a + r) AND (4 * b + t) = 4 * (a AND b) + (r AND t)"
    "(4 * a + r) XOR (4 * b + t) = 4 * (a XOR b) + (r XOR t)"
    using bitop_digit2 [of "r mod 2" "t mod 2" "2 * a + r div 2" "2 * b + t div 2"]
      bitop_digit2 [OF lt, of a b] rt
    by (simp_all only: split [of a r] split [of b t]) simp_all
qed

lemma halves_digit:
  fixes r t :: nat
  assumes "r < 4" "t < 4"
  shows "2 * ((r div 2 + t div 2) div 2) + (r mod 2 + t mod 2) div 2 = r AND t"
    and "2 * ((r div 2 + t div 2) mod 2) + (r mod 2 + t mod 2) mod 2 = r XOR t"
proof -
  have "\<forall>r \<in> {0, 1, 2, 3 :: nat}. \<forall>t \<in> {0, 1, 2, 3 :: nat}.
      2 * ((r div 2 + t div 2) div 2) + (r mod 2 + t mod 2) div 2 = r AND t \<and>
      2 * ((r div 2 + t div 2) mod 2) + (r mod 2 + t mod 2) mod 2 = r XOR t"
    by (simp add: One_nat_def)
  moreover have "r \<in> {0, 1, 2, 3}" "t \<in> {0, 1, 2, 3}" using assms by auto
  ultimately show "2 * ((r div 2 + t div 2) div 2) + (r mod 2 + t mod 2) div 2 = r AND t"
    "2 * ((r div 2 + t div 2) mod 2) + (r mod 2 + t mod 2) mod 2 = r XOR t" by blast+
qed

lemma and_by_halves:
  assumes "a < 4 ^ k" "b < 4 ^ k"
  shows "2 * odd_bits (odd_bits a + odd_bits b) + odd_bits (even_bits a + even_bits b) = a AND b"
  using assms
proof (induction k a b rule: digit4_induct)
  case (step a b r t k)
  have o: "odd_bits (4 * a + r) + odd_bits (4 * b + t) = 4 * (odd_bits a + odd_bits b) + (r div 2 + t div 2)"
    using step by (simp add: odd_bits_digit)
  have e: "even_bits (4 * a + r) + even_bits (4 * b + t) = 4 * (even_bits a + even_bits b) + (r mod 2 + t mod 2)"
    using step by (simp add: even_bits_digit)
  have lt: "r div 2 + t div 2 < 4" "r mod 2 + t mod 2 < 4"
    using step mod_less_divisor [of 2 r] mod_less_divisor [of 2 t] by linarith+
  show ?case
    unfolding o e using step(3-5) lt halves_digit(1) [of r t]
    by (simp only: odd_bits_digit bitop_digit4) (simp add: algebra_simps)
qed simp

lemma xor_by_halves:
  assumes "a < 4 ^ k" "b < 4 ^ k"
  shows "2 * even_bits (odd_bits a + odd_bits b) + even_bits (even_bits a + even_bits b) = a XOR b"
  using assms
proof (induction k a b rule: digit4_induct)
  case (step a b r t k)
  have o: "odd_bits (4 * a + r) + odd_bits (4 * b + t) = 4 * (odd_bits a + odd_bits b) + (r div 2 + t div 2)"
    using step by (simp add: odd_bits_digit)
  have e: "even_bits (4 * a + r) + even_bits (4 * b + t) = 4 * (even_bits a + even_bits b) + (r mod 2 + t mod 2)"
    using step by (simp add: even_bits_digit)
  have lt: "r div 2 + t div 2 < 4" "r mod 2 + t mod 2 < 4"
    using step mod_less_divisor [of 2 r] mod_less_divisor [of 2 t] by linarith+
  show ?case
    unfolding o e using step(3-5) lt halves_digit(2) [of r t]
    by (simp only: even_bits_digit bitop_digit4) (simp add: algebra_simps)
qed simp

section \<open>Execution of the byte operations\<close>

lemma exec_pick_int [exec_simps]:
  "0 \<le> z \<Longrightarrow> nat z < length s \<Longrightarrow> z < 2147483648 \<Longrightarrow>
   exec vm (OP_PICK # p) (State (scriptnum z # s) a) = exec vm p (State (s ! nat z # s) a)"
  using exec_pick [of "nat z" s vm p a] by simp

lemma exec_pushn_ADD [exec_simps]:
  "n < 2147483648 \<Longrightarrow> num_ok x \<Longrightarrow> exec vm (pushn n # OP_ADD # p) (State (scriptnum x # s) a) =
     exec vm p (State (scriptnum (x + int n) # s) a)"
  by (simp add: exec_pushn exec_simps num_ok_def)

lemma int_even_bits: "int a - 2 * int (odd_bits a) = int (even_bits a)"
  using odd_bits_le [of a] by (simp add: even_bits_def)

definition table_at :: "nat \<Rightarrow> item list \<Rightarrow> bool" where
  "table_at i s \<longleftrightarrow> (\<exists>us t. s = us @ xor_table @ t \<and> length us = i) \<and> i < 2147000000"

lemma table_at_nth:
  assumes "table_at i s" "n < 256"
  shows "s ! (n + i) = scriptnum (int (odd_bits n))" "n + i < length s"
  using assms by (auto simp: table_at_def nth_append)

lemma exec_u8_halves:
  assumes "a < 256" "b < 256" "table_at i s"
  shows "exec vm (u8_halves (i + 2) @ p) (State (scriptnum (int a) # scriptnum (int b) # s) al) =
    exec vm p (State (scriptnum (int (odd_bits a + odd_bits b)) #
       scriptnum (int (even_bits b)) # scriptnum (int (even_bits a)) # s) al)"
proof -
  note ta = table_at_nth [OF assms(3) assms(1)] table_at_nth [OF assms(3) assms(2)]
  have i: "i < 2147000000" using assms(3) by (simp add: table_at_def)
  have o: "odd_bits a \<le> 255" "odd_bits b \<le> 255"
    using assms odd_bits_le [of a] odd_bits_le [of b] by linarith+
  show ?thesis
    using assms(1,2) i o ta
    by (simp add: u8_halves_def exec_simps num_ok_def nat_add_distrib int_even_bits add.commute)
qed


lemma halves_lt_256:
  assumes "a < 256" "b < 256"
  shows "odd_bits a + odd_bits b < 256" "even_bits a + even_bits b < 256"
  using assms odd_bits_le [of a] odd_bits_le [of b] even_bits_bound [of a 4] even_bits_bound [of b 4]
  by simp_all

lemma exec_u8_xor:
  assumes "a < 256" "b < 256" "table_at i s"
  shows "exec vm (u8_xor (i + 2) @ p) (State (scriptnum (int a) # scriptnum (int b) # s) al) =
    exec vm p (State (scriptnum (int (a XOR b)) # s) al)"
proof -
  define S E where "S = odd_bits a + odd_bits b" and "E = even_bits a + even_bits b"
  have lt: "S < 256" "E < 256" unfolding S_def E_def using halves_lt_256 [OF assms(1,2)] by auto
  note ta = table_at_nth [OF assms(3) lt(1)] table_at_nth [OF assms(3) lt(2)]
  have i: "i < 2147000000" using assms(3) by (simp add: table_at_def)
  have o: "odd_bits S \<le> 255" "odd_bits E \<le> 255" "even_bits S \<le> 255" "even_bits E \<le> 255"
    using lt odd_bits_le [of S] odd_bits_le [of E] unfolding even_bits_def by linarith+
  have eb: "even_bits b + even_bits a = E" "even_bits a \<le> 255" "even_bits b \<le> 255"
    using assms unfolding E_def even_bits_def by linarith+
  have sum: "int (even_bits a) + int (even_bits b) = int E" unfolding E_def by simp
  have x: "2 * even_bits S + even_bits E = a XOR b"
    unfolding S_def E_def by (rule xor_by_halves [of _ 4]) (use assms in simp_all)
  have res: "int (a XOR b) = int (even_bits E) + 2 * int (even_bits S)" unfolding x [symmetric] by simp
  show ?thesis
    using lt i o eb ta
    by (simp add: u8_xor_def exec_u8_halves [OF assms] S_def [symmetric] exec_simps num_ok_def
        nat_add_distrib int_even_bits add.commute sum res)
qed

lemma exec_u8_and:
  assumes "a < 256" "b < 256" "table_at i s" "u8_and (i + 2) = Some z"
  shows "exec vm (z @ p) (State (scriptnum (int a) # scriptnum (int b) # s) al) =
    exec vm p (State (scriptnum (int (a AND b)) # s) al)"
proof -
  define S E where "S = odd_bits a + odd_bits b" and "E = even_bits a + even_bits b"
  have lt: "S < 256" "E < 256" unfolding S_def E_def using halves_lt_256 [OF assms(1,2)] by auto
  note ta = table_at_nth [OF assms(3) lt(1)] table_at_nth [OF assms(3) lt(2)]
  have i: "i < 2147000000" using assms(3) by (simp add: table_at_def)
  have o: "odd_bits S \<le> 255" "odd_bits E \<le> 255"
    using lt odd_bits_le [of S] odd_bits_le [of E] by linarith+
  have eb: "even_bits b + even_bits a = E" "even_bits a \<le> 255" "even_bits b \<le> 255"
    using assms unfolding E_def even_bits_def by linarith+
  have sum: "int (even_bits a) + int (even_bits b) = int E" unfolding E_def by simp
  have x: "2 * odd_bits S + odd_bits E = a AND b"
    unfolding S_def E_def by (rule and_by_halves [of _ 4]) (use assms in simp_all)
  have res: "int (a AND b) = int (odd_bits E) + 2 * int (odd_bits S)" unfolding x [symmetric] by simp
  have z: "z = u8_halves (i + 2) @ [pushn (i + 2), OP_ADD, OP_PICK,
        OP_SWAP, OP_ROT, OP_ADD, pushn (Suc i), OP_ADD, OP_PICK, OP_OVER, OP_ADD, OP_ADD]"
    using assms(4) by (simp add: u8_and_def)
  show ?thesis
    using lt i o eb ta unfolding z
    by (simp add: exec_u8_halves [OF assms(1-3)] S_def [symmetric] exec_simps num_ok_def
        nat_add_distrib add.commute sum res)
qed

section \<open>Words\<close>

definition byte_nat :: "nat \<Rightarrow> u32 \<Rightarrow> nat" where
  "byte_nat k w = take_bit 8 (drop_bit (8 * k) (unat w))"

lemma u32_byte_nat: "u32_byte k w = int (byte_nat k w)"
proof -
  have "uint w div 256 ^ k mod 256 = int (unat w div 256 ^ k mod 256)"
    by (simp add: zdiv_int zmod_int)
  then show ?thesis
    by (simp add: u32_byte_def byte_nat_def take_bit_eq_mod drop_bit_eq_div power_mult)
qed

lemma byte_nat_lt [simp]: "byte_nat k w < 256"
  using u32_byte_bounds(2) [of k w] by (simp add: u32_byte_nat)

lemma byte_nat_bitops:
  "byte_nat k (x XOR y) = byte_nat k x XOR byte_nat k y"
  "byte_nat k (x AND y) = byte_nat k x AND byte_nat k y"
  by (simp_all add: byte_nat_def unsigned_xor_eq unsigned_and_eq)

lemma u32_items_nat:
  "u32_items w = [scriptnum (int (byte_nat 0 w)), scriptnum (int (byte_nat 1 w)),
     scriptnum (int (byte_nat 2 w)), scriptnum (int (byte_nat 3 w))]"
  by (simp add: u32_items_def u32_byte_nat)

lemma zip_items_nat:
  "zip_items x y =
     [scriptnum (int (byte_nat 0 x)), scriptnum (int (byte_nat 0 y)),
      scriptnum (int (byte_nat 1 x)), scriptnum (int (byte_nat 1 y)),
      scriptnum (int (byte_nat 2 x)), scriptnum (int (byte_nat 2 y)),
      scriptnum (int (byte_nat 3 x)), scriptnum (int (byte_nat 3 y))]"
  by (simp add: zip_items_def u32_byte_nat)

lemma table_at_u32s:
  assumes "length us + 4 * length ws < 2147000000"
  shows "table_at (length us + 4 * length ws) (us @ u32s ws @ xor_table @ s)"
  unfolding table_at_def
  by (intro conjI exI [of _ "us @ u32s ws"] exI [of _ s]) (use assms in simp_all)

lemma exec_u32_bitop_chain:
  assumes op: "\<And>k a b s p al. table_at k s \<Longrightarrow> a < 256 \<Longrightarrow> b < 256 \<Longrightarrow>
      exec vm (g (k + 2) @ p) (State (scriptnum (int a) # scriptnum (int b) # s) al) =
      exec vm p (State (scriptnum (int (f a b)) # s) al)"
    and word: "\<And>k. byte_nat k (h x y) = f (byte_nat k x) (byte_nat k y)"
    and small: "4 * length ws < 2146999000"
  shows "exec vm (g (8 + length ws * 4) @ [OP_TOALTSTACK] @ g (6 + length ws * 4) @ [OP_TOALTSTACK]
      @ g (4 + length ws * 4) @ [OP_TOALTSTACK] @ g (2 + length ws * 4)
      @ [OP_FROMALTSTACK, OP_FROMALTSTACK, OP_FROMALTSTACK] @ p)
      (State (zip_items x y @ u32s ws @ xor_table @ s) al)
    = exec vm p (State (u32_items (h x y) @ u32s ws @ xor_table @ s) al)"
proof -
  have step: "exec vm (g (k + 2 + length ws * 4) @ q)
      (State (scriptnum (int a) # scriptnum (int b) # us @ u32s ws @ xor_table @ s) al') =
      exec vm q (State (scriptnum (int (f a b)) # us @ u32s ws @ xor_table @ s) al')"
    if "length us = k" "k \<le> 6" "a < 256" "b < 256" for us :: "item list" and k a b q al'
  proof -
    have "table_at (length us + 4 * length ws) (us @ u32s ws @ xor_table @ s)"
      by (rule table_at_u32s) (use that small in linarith)
    from op [OF this that(3,4)] show ?thesis using that(1) by (simp add: algebra_simps)
  qed
  show ?thesis
    using step [of "[_, _, _, _, _, _]" 6] step [of "[_, _, _, _]" 4] step [of "[_, _]" 2] step [of "[]" 0]
    by (simp add: zip_items_nat u32_items_nat word exec_simps)
qed

lemma exec_u32_xor:
  assumes "a \<noteq> b" "a < length ws" "b < length ws" "length ws < 500000000"
    "u32_xor a b (Suc (length ws)) = Some z"
  shows "exec vm (z @ p) (State (u32s ws @ xor_table @ s) al) =
    exec vm p (State (u32_items (ws ! a XOR ws ! b) @ u32s (remove_nth b ws) @ xor_table @ s) al)"
proof -
  obtain cz where cz: "u32_copy_zip a b = Some cz"
    using assms(5) by (auto simp: u32_xor_def bind_eq_Some_conv)
  define n where "n = (Suc (length ws) - 2) * 4"
  have n: "n = length (remove_nth b ws) * 4" using assms by (simp add: n_def)
  have two: "2 \<le> Suc (length ws)" using assms by linarith
  have z: "z = cz @ u8_xor (8 + n) @ [OP_TOALTSTACK] @ u8_xor (6 + n) @ [OP_TOALTSTACK]
       @ u8_xor (4 + n) @ [OP_TOALTSTACK] @ u8_xor (2 + n)
       @ [OP_FROMALTSTACK, OP_FROMALTSTACK, OP_FROMALTSTACK]"
    using assms(1,5) cz two by (simp add: u32_xor_def n_def)
  have small: "small_stack ws" using assms by (simp add: small_stack_def)
  have xor: "ws ! max a b XOR ws ! min a b = ws ! a XOR ws ! b"
    by (simp add: max_def min_def xor.commute)
  have "exec vm (z @ p) (State (u32s ws @ xor_table @ s) al) =
    exec vm (u8_xor (8 + n) @ [OP_TOALTSTACK] @ u8_xor (6 + n) @ [OP_TOALTSTACK]
       @ u8_xor (4 + n) @ [OP_TOALTSTACK] @ u8_xor (2 + n)
       @ [OP_FROMALTSTACK, OP_FROMALTSTACK, OP_FROMALTSTACK] @ p)
      (State (zip_items (ws ! max a b) (ws ! min a b) @ u32s (remove_nth b ws) @ xor_table @ s) al)"
    using exec_u32_copy_zip [OF assms(1-3) small cz] by (simp only: z append_assoc)
  also have "\<dots> = exec vm p (State (u32_items (ws ! max a b XOR ws ! min a b)
      @ u32s (remove_nth b ws) @ xor_table @ s) al)"
    unfolding n
    by (rule exec_u32_bitop_chain [where f = "(XOR)"])
      (use assms in \<open>simp_all only: exec_u8_xor byte_nat_bitops\<close>, simp)
  finally show ?thesis by (simp only: xor)
qed

lemma exec_u32_and:
  assumes "a \<noteq> b" "a < length ws" "b < length ws" "length ws < 500000000"
    "u32_and a b (Suc (length ws)) = Some z"
  shows "exec vm (z @ p) (State (u32s ws @ xor_table @ s) al) =
    exec vm p (State (u32_items (ws ! a AND ws ! b) @ u32s (remove_nth b ws) @ xor_table @ s) al)"
proof -
  obtain cz where cz: "u32_copy_zip a b = Some cz"
    using assms(5) by (auto simp: u32_and_def bind_eq_Some_conv)
  define n where "n = (Suc (length ws) - 2) * 4"
  have n: "n = length (remove_nth b ws) * 4" using assms by (simp add: n_def)
  define g where "g i = the (u8_and i)" for i
  have g: "u8_and (k + 2) = Some (g (k + 2))" for k by (simp add: g_def u8_and_def)
  have g': "u8_and (8 + n) = Some (g (8 + n))" "u8_and (6 + n) = Some (g (6 + n))"
    "u8_and (4 + n) = Some (g (4 + n))" "u8_and (2 + n) = Some (g (2 + n))"
    using g [of "6 + n"] g [of "4 + n"] g [of "2 + n"] g [of n] by (simp_all add: add.commute)
  have two: "2 \<le> Suc (length ws)" using assms by linarith
  have z: "z = cz @ g (8 + n) @ [OP_TOALTSTACK] @ g (6 + n) @ [OP_TOALTSTACK]
       @ g (4 + n) @ [OP_TOALTSTACK] @ g (2 + n)
       @ [OP_FROMALTSTACK, OP_FROMALTSTACK, OP_FROMALTSTACK]"
    using assms(1,5) cz two g' by (simp add: u32_and_def n_def)
  have small: "small_stack ws" using assms by (simp add: small_stack_def)
  have xor: "ws ! max a b AND ws ! min a b = ws ! a AND ws ! b"
    by (simp add: max_def min_def and.commute)
  have "exec vm (z @ p) (State (u32s ws @ xor_table @ s) al) =
    exec vm (g (8 + n) @ [OP_TOALTSTACK] @ g (6 + n) @ [OP_TOALTSTACK]
       @ g (4 + n) @ [OP_TOALTSTACK] @ g (2 + n)
       @ [OP_FROMALTSTACK, OP_FROMALTSTACK, OP_FROMALTSTACK] @ p)
      (State (zip_items (ws ! max a b) (ws ! min a b) @ u32s (remove_nth b ws) @ xor_table @ s) al)"
    using exec_u32_copy_zip [OF assms(1-3) small cz] by (simp only: z append_assoc)
  also have "\<dots> = exec vm p (State (u32_items (ws ! max a b AND ws ! min a b)
      @ u32s (remove_nth b ws) @ xor_table @ s) al)"
    unfolding n
    by (rule exec_u32_bitop_chain [where f = "(AND)"])
      (use assms in \<open>simp_all only: exec_u8_and [OF _ _ _ g] byte_nat_bitops\<close>, simp)
  finally show ?thesis by (simp only: xor)
qed


lemma u32_xor_defined: "a \<noteq> b \<Longrightarrow> 2 \<le> n \<Longrightarrow> \<exists>z. u32_xor a b n = Some z"
  by (auto simp: u32_xor_def u32_copy_zip_def u32_copy_zip_helper_def u32_zip_copy_helper_def Let_def
      rust_assert_def)

lemma u32_and_defined: "a \<noteq> b \<Longrightarrow> 2 \<le> n \<Longrightarrow> \<exists>z. u32_and a b n = Some z"
  by (auto simp: u32_and_def u32_copy_zip_def u32_copy_zip_helper_def u32_zip_copy_helper_def Let_def
      rust_assert_def u8_and_def)

text \<open>The table entries in the words of the source: mask the odd positions, shift down.\<close>

fun odd_mask :: "nat \<Rightarrow> nat" where
  "odd_mask 0 = 0"
| "odd_mask (Suc k) = 4 * odd_mask k + 2"

lemma odd_bits_mask: "n < 4 ^ k \<Longrightarrow> n AND odd_mask k = 2 * odd_bits n"
proof (induction k arbitrary: n)
  case 0
  then have "n = 0" by (simp only: power_0 less_one)
  then show ?case by simp
next
  case (Suc k)
  define q r where "q = n div 4" and "r = n mod 4"
  have n: "n = 4 * q + r" and r: "r < 4" by (simp_all add: q_def r_def)
  have "q < 4 ^ k" using Suc.prems by (simp add: q_def div_less_iff_less_mult mult.commute)
  then have "q AND odd_mask k = 2 * odd_bits q" by (rule Suc.IH)
  moreover have "r AND 2 = 2 * (r div 2)"
    using digit4_cases [OF r] by (auto simp: One_nat_def)
  ultimately show ?case
    using bitop_digit4(1) [OF r, of 2 q "odd_mask k"] odd_bits_digit [OF r, of q] by (simp add: n)
qed

lemma xor_table_mask: "xor_table = map (\<lambda>n. scriptnum (int ((n AND 170) div 2))) [0..<256]"
proof -
  have "n AND 170 = 2 * odd_bits n" if "n < 256" for n
    using odd_bits_mask [of n 4] that by (simp add: eval_nat_numeral(2) numeral_eq_Suc One_nat_def)
  then show ?thesis by (simp add: xor_table_def)
qed

text \<open>
  \<open>u8_push_xor_table\<close> pushes the 256 entries \<open>(x & 0b10101010) >> 1\<close>, entry \<open>x\<close> at depth
  \<open>x\<close>, and \<open>u8_drop_xor_table\<close> removes exactly those.
\<close>

theorem xor_table_correct:
  "exec vm u8_push_xor_table (State s a) =
     Inr (State (map (\<lambda>n. scriptnum (int ((n AND 170) div 2))) [0..<256] @ s) a) \<and>
   exec vm (u8_push_xor_table @ u8_drop_xor_table) (State s a) = Inr (State s a)"
  using exec_u8_push_xor_table [of vm "[]" s a] exec_u8_drop_xor_table [of xor_table vm "[]" s a]
  by (simp add: xor_table_mask [symmetric] exec_u8_push_xor_table)

text \<open>
  With the table below the words, \<open>u32_xor(a, b, 1 + number of words)\<close> leaves the bitwise
  exclusive or of the words at \<open>a\<close> and \<open>b\<close> on top, keeps the word at \<open>a\<close>, consumes the
  word at \<open>b\<close> and keeps the table, for any two distinct positions; it never fails.
\<close>

theorem u32_xor_correct:
  assumes "a \<noteq> b" "a < length ws" "b < length ws" "length ws < 500000000"
  shows "\<exists>z. u32_xor a b (Suc (length ws)) = Some z \<and>
    exec vm z (State (u32s ws @ xor_table @ s) al) =
      Inr (State (u32_items (ws ! a XOR ws ! b) @ u32s (remove_nth b ws) @ xor_table @ s) al)"
proof -
  have "2 \<le> Suc (length ws)" using assms by linarith
  then obtain z where z: "u32_xor a b (Suc (length ws)) = Some z"
    using u32_xor_defined [OF assms(1)] by blast
  show ?thesis
    using z exec_u32_xor [OF assms z, of vm "[]" s al] by simp
qed

theorem u32_xor_correct_witness:
  "\<exists>z. u32_xor 0 1 3 = Some z \<and>
    exec sample_vm z (State (u32s [12, 10] @ xor_table @ []) []) =
      Inr (State (u32_items 6 @ u32s [12] @ xor_table @ []) [])"
  using u32_xor_correct [of 0 1 "[12, 10]" sample_vm "[]" "[]"] by (simp add: numeral_3_eq_3 [symmetric])

text \<open>
  \<open>u32_and(a, b, 1 + number of words)\<close> leaves the bitwise conjunction of the words at \<open>a\<close>
  and \<open>b\<close> on top, keeps the word at \<open>a\<close>, consumes the word at \<open>b\<close> and keeps the table,
  for any two distinct positions; it never fails.
\<close>

theorem u32_and_correct:
  assumes "a \<noteq> b" "a < length ws" "b < length ws" "length ws < 500000000"
  shows "\<exists>z. u32_and a b (Suc (length ws)) = Some z \<and>
    exec vm z (State (u32s ws @ xor_table @ s) al) =
      Inr (State (u32_items (ws ! a AND ws ! b) @ u32s (remove_nth b ws) @ xor_table @ s) al)"
proof -
  have "2 \<le> Suc (length ws)" using assms by linarith
  then obtain z where z: "u32_and a b (Suc (length ws)) = Some z"
    using u32_and_defined [OF assms(1)] by blast
  show ?thesis
    using z exec_u32_and [OF assms z, of vm "[]" s al] by simp
qed

theorem u32_and_correct_witness:
  "\<exists>z. u32_and 1 0 3 = Some z \<and>
    exec sample_vm z (State (u32s [12, 10] @ xor_table @ []) []) =
      Inr (State (u32_items 8 @ u32s [10] @ xor_table @ []) [])"
  using u32_and_correct [of 1 0 "[12, 10]" sample_vm "[]" "[]"] by (simp add: numeral_3_eq_3 [symmetric])

end
