(* ===== verification/U32_Rot.thy ===== *)
theory U32_Rot
  imports U32_Logic
begin

text \<open>
  \<open>bitvm/src/u32/u32_rrot.rs\<close>: right rotations of a word by any number of bits, split
  into a rotation of the bytes and a shift of at most seven bits, with short scripts for
  the rotations the hash functions use.
\<close>

section \<open>Generators\<close>

definition u32_rrot16 :: script where
  "u32_rrot16 = [OP_2SWAP]"

definition u32_rrot8 :: script where
  "u32_rrot8 = [OP_2SWAP, pushn 3, OP_ROLL]"

definition u8_rrot7 :: "nat \<Rightarrow> script" where
  "u8_rrot7 i =
     (if i = 0 then [] else if i = 1 then [OP_SWAP] else if i = 2 then [OP_ROT]
      else [pushn i, OP_ROLL])
     @ [push 128, OP_2DUP, OP_GREATERTHANOREQUAL, OP_IF_ELSE [OP_SUB, push 1] [OP_DROP, push 0]]"

definition u32_rrot7 :: script where
  "u32_rrot7 = u8_rrot7 0 @ u8_rrot7 2
     @ [OP_TOALTSTACK, OP_DUP, OP_ADD, OP_ADD, OP_FROMALTSTACK]
     @ u8_rrot7 3 @ [OP_TOALTSTACK, OP_DUP, OP_ADD, OP_ADD, OP_FROMALTSTACK]
     @ u8_rrot7 4 @ [OP_TOALTSTACK, OP_DUP, OP_ADD, OP_ADD, OP_FROMALTSTACK]
     @ [pushn 4, OP_ROLL, OP_DUP, OP_ADD, OP_ADD]
     @ [OP_SWAP, OP_2SWAP, OP_SWAP]"

definition u8_extract_1bit :: script where
  "u8_extract_1bit = [OP_DUP, OP_ADD, push 256, OP_2DUP, OP_GREATERTHANOREQUAL,
     OP_IF_ELSE [OP_SUB, push 1] [OP_DROP, push 0]]"

definition u8_extract_hbit :: "nat \<Rightarrow> script option" where
  "u8_extract_hbit hbit = do {
     rust_assert (1 \<le> hbit \<and> hbit < 8);
     if hbit = 1 then Some u8_extract_1bit
     else do {
       let x = push_bit (hbit - 1) (1 :: nat);
       Some ([push 0, OP_TOALTSTACK]
         @ for_range 0 hbit (\<lambda>i.
             [push 128, OP_2DUP, OP_GREATERTHANOREQUAL,
              OP_IF [OP_SUB, OP_FROMALTSTACK, pushn (drop_bit i x), OP_ADD, OP_TOALTSTACK, OP_DUP],
              OP_DROP, OP_DUP, OP_ADD])
         @ [OP_FROMALTSTACK])
     }
   }"

definition byte_reorder :: "nat \<Rightarrow> script option" where
  "byte_reorder offset = do {
     rust_assert (offset < 4);
     if offset = 0 then Some [OP_SWAP, OP_2SWAP, OP_SWAP]
     else if offset = 1 then Some [OP_SWAP, OP_ROT]
     else if offset = 2 then Some [OP_SWAP, OP_2SWAP, OP_SWAP, OP_2SWAP]
     else Some [OP_SWAP, OP_ROT, OP_2SWAP]
   }"

definition u32_rrot :: "nat \<Rightarrow> script option" where
  "u32_rrot rot_num = do {
     rust_assert (rot_num < 32);
     if rot_num = 0 then Some []
     else if rot_num = 7 then Some u32_rrot7
     else if rot_num = 8 then Some u32_rrot8
     else if rot_num = 16 then Some u32_rrot16
     else if rot_num = 23 then Some (u32_rrot16 @ u32_rrot7)
     else if rot_num = 24 then Some [pushn 3, OP_ROLL]
     else do {
       let remainder = rot_num mod 8;
       let hbit = 8 - remainder;
       let offset = (rot_num - remainder) div 8;
       h \<leftarrow> u8_extract_hbit hbit;
       r \<leftarrow> byte_reorder offset;
       Some (h @ [OP_ROT] @ h @ [pushn 4, OP_ROLL] @ h @ [pushn 6, OP_ROLL] @ h
         @ [pushn 7, OP_ROLL, OP_ADD, OP_TOALTSTACK]
         @ [OP_ADD, OP_TOALTSTACK] @ [OP_ADD, OP_TOALTSTACK] @ [OP_ADD, OP_TOALTSTACK]
         @ [OP_FROMALTSTACK, OP_FROMALTSTACK, OP_FROMALTSTACK, OP_FROMALTSTACK]
         @ r)
     }
   }"

section \<open>Rotations by bytes and by bits\<close>

lemma uint_rotr:
  assumes "n < 32"
  shows "uint (word_rotr n (w :: u32)) = uint w div 2 ^ n + 2 ^ (32 - n) * (uint w mod 2 ^ n)"
proof -
  have "uint w div 2 ^ n < 2 ^ (32 - n)"
  proof -
    have "uint w < 2 ^ (32 - n) * 2 ^ n"
      using assms uint_bounded [of w] by (simp add: power_add [symmetric])
    then show ?thesis by (intro int_div_less) simp_all
  qed
  then have "take_bit (32 - n) (uint w div 2 ^ n) = uint w div 2 ^ n"
    by (intro take_bit_int_eq_self) (simp_all add: pos_imp_zdiv_nonneg_iff)
  moreover have "uint (take_bit n w) = uint w mod 2 ^ n"
    by (simp only: unsigned_take_bit_eq) (simp only: take_bit_eq_mod)
  ultimately show ?thesis
    using assms by (simp only: uint_word_rotr_eq concat_bit_eq)
      (simp add: drop_bit_eq_div push_bit_eq_mult mult.commute)
qed

lemma rotr_0 [simp]: "word_rotr 0 (w :: u32) = w"
  using uint_rotr [of 0 w] by (simp add: word_uint_eq_iff)

lemma rotr_bytes:
  fixes w :: u32
  assumes "n < 8"
  defines "c k l \<equiv> u32_byte k w div 2 ^ n + 2 ^ (8 - n) * (u32_byte l w mod 2 ^ n)"
  shows "u32_items (word_rotr n w) = map scriptnum [c 0 1, c 1 2, c 2 3, c 3 0]"
proof (rule u32_items_eqI)
  define m where "m = (2 :: int) ^ n"
  define m' where "m' = (2 :: int) ^ (8 - n)"
  have mm: "m * m' = 256" "0 < m" "0 < m'"
    using assms(1) by (simp_all add: m_def m'_def power_add [symmetric])
  have cb: "0 \<le> c k l \<and> c k l < 256" for k l
  proof -
    have "u32_byte k w < m' * m" using mm(1) by (simp add: mult.commute)
    then have 1: "u32_byte k w div m < m'" using mm(2) by (intro int_div_less)
    have "u32_byte l w mod m \<le> m - 1" using mm(2) by simp
    then have "m' * (u32_byte l w mod m) \<le> m' * (m - 1)" using mm(3) by simp
    also have "\<dots> = 256 - m'" using mm(1) by (simp add: algebra_simps)
    finally have "m' * (u32_byte l w mod m) \<le> 256 - m'" .
    with 1 show ?thesis using mm(2,3)
      by (simp add: c_def m_def [symmetric] m'_def [symmetric] pos_imp_zdiv_nonneg_iff)
  qed
  show "0 \<le> c 0 1" "c 0 1 < 256" "0 \<le> c 1 2" "c 1 2 < 256" "0 \<le> c 2 3" "c 2 3 < 256"
    "0 \<le> c 3 0" "c 3 0 < 256" using cb by blast+
  define q where "q k = u32_byte k w div m" for k
  define r where "r k = u32_byte k w mod m" for k
  have b: "u32_byte k w = m * q k + r k" for k by (simp add: q_def r_def)
  have r: "0 \<le> r k" "r k < m" for k using mm(2) by (simp_all add: r_def)
  have k256: "m * (m' * x) = 256 * x" "m' * (m * x) = 256 * x" for x
    using mm(1) by (simp_all add: mult.assoc [symmetric] mult.commute [of m'])
  define Q where "Q = q 0 + m' * r 1 + 256 * (q 1 + m' * r 2) + 65536 * (q 2 + m' * r 3) + 16777216 * q 3"
  have w: "uint w = m * Q + r 0"
    unfolding uint_u32_bytes [of w] b Q_def by (simp add: algebra_simps k256)
  have "uint w div m = Q" "uint w mod m = r 0"
    using r(1,2) [of 0] mm(2) by (simp_all add: w)
  moreover have "(2 :: int) ^ (32 - n) = 16777216 * m'"
  proof -
    have "(2 :: int) ^ (32 - n) = 2 ^ (24 + (8 - n))" using assms(1) by simp
    then show ?thesis by (simp add: power_add m'_def)
  qed
  ultimately have "uint (word_rotr n w) = Q + 16777216 * m' * r 0"
    using uint_rotr [of n w] assms(1) by (simp add: m_def)
  then show "uint (word_rotr n w) = c 0 1 + 256 * c 1 2 + 65536 * c 2 3 + 16777216 * c 3 0"
    by (simp add: Q_def c_def q_def r_def m_def m'_def algebra_simps)
qed

text \<open>A rotation by eight bits moves every byte down by one place.\<close>

lemma rotr8_bytes:
  "u32_byte 0 (word_rotr 8 w) = u32_byte 1 w \<and> u32_byte 1 (word_rotr 8 w) = u32_byte 2 w \<and>
   u32_byte 2 (word_rotr 8 w) = u32_byte 3 w \<and> u32_byte 3 (word_rotr 8 w) = u32_byte 0 w"
proof (rule u32_byte_eqI)
  define Q where "Q = u32_byte 1 w + 256 * u32_byte 2 w + 65536 * u32_byte 3 w"
  have w: "uint w = u32_byte 0 w + 256 * Q"
    unfolding uint_u32_bytes [of w] Q_def by simp
  have "uint w div 256 = Q" "uint w mod 256 = u32_byte 0 w"
    using low_digit [of "u32_byte 0 w" Q] by (simp_all only: w u32_byte_bounds)
  then show "uint (word_rotr 8 w) =
      u32_byte 1 w + 256 * u32_byte 2 w + 65536 * u32_byte 3 w + 16777216 * u32_byte 0 w"
    using uint_rotr [of 8 w] by (simp add: Q_def)
qed simp_all


section \<open>Execution\<close>

lemma exec_u8_extract_1bit:
  assumes "0 \<le> b" "b < 256"
  shows "exec vm (u8_extract_1bit @ p) (State (scriptnum b # s) a) =
    exec vm p (State (scriptnum (b div 128) # scriptnum (2 * b mod 256) # s) a)"
proof -
  have "num_ok b" "num_ok (2 * b)" "num_ok 256" using assms by (auto simp: num_ok_def)
  moreover have "b div 128 = 2 * b div 256" using div_mult_mult1 [of 2 b 128] by simp
  ultimately show ?thesis
    using carry_cases [of "2 * b"] assms
    by (cases "256 \<le> 2 * b") (simp_all add: u8_extract_1bit_def exec_simps)
qed

text \<open>
  The loop of \<open>u8_extract_hbit\<close> after \<open>i\<close> rounds: the byte shifted by \<open>i\<close> bits, the bits that
  fell out accumulated at their final weight.
\<close>

lemma double_mod_div:
  fixes v :: int
  assumes "0 \<le> v" "v < 256"
  shows "128 \<le> v \<Longrightarrow> 2 * v div 256 = 1 \<and> 2 * v mod 256 = 2 * v - 256"
    "v < 128 \<Longrightarrow> 2 * v div 256 = 0 \<and> 2 * v mod 256 = 2 * v"
  using assms carry_cases [of "2 * v"] by simp_all

lemma shift_step:
  fixes b :: int
  shows "b * 2 ^ Suc i div 256 = 2 * (b * 2 ^ i div 256) + 2 * (b * 2 ^ i mod 256) div 256"
    and "b * 2 ^ Suc i mod 256 = 2 * (b * 2 ^ i mod 256) mod 256"
proof -
  define q r where "q = b * 2 ^ i div 256" and "r = b * 2 ^ i mod 256"
  have "b * 2 ^ i = 256 * q + r" by (simp add: q_def r_def)
  then have e: "b * 2 ^ Suc i = 2 * r + 256 * (2 * q)" by simp
  show "b * 2 ^ Suc i div 256 = 2 * (b * 2 ^ i div 256) + 2 * (b * 2 ^ i mod 256) div 256"
    unfolding e q_def [symmetric] r_def [symmetric] by simp
  show "b * 2 ^ Suc i mod 256 = 2 * (b * 2 ^ i mod 256) mod 256"
    unfolding e q_def [symmetric] r_def [symmetric] by (rule mod_mult_self2)
qed

lemma exec_extract_loop:
  assumes "0 \<le> b" "b < 256" "i \<le> h" "h < 8" "0 < h"
  shows "exec vm (for_range 0 i (\<lambda>i.
             [push 128, OP_2DUP, OP_GREATERTHANOREQUAL,
              OP_IF [OP_SUB, OP_FROMALTSTACK, pushn (drop_bit i (push_bit (h - 1) 1)), OP_ADD,
                OP_TOALTSTACK, OP_DUP],
              OP_DROP, OP_DUP, OP_ADD]) @ p)
      (State (scriptnum b # s) (scriptnum 0 # a)) =
    exec vm p (State (scriptnum (b * 2 ^ i mod 256) # s) (scriptnum (b * 2 ^ i div 256 * 2 ^ (h - i)) # a))"
  using assms(3)
proof (induction i arbitrary: p)
  case 0
  then show ?case using assms by simp
next
  case (Suc i)
  define v q where "v = b * 2 ^ i mod 256" and "q = b * 2 ^ i div 256"
  have v: "0 \<le> v" "v < 256" by (simp_all add: v_def)
  have q: "0 \<le> q" using assms by (simp add: q_def pos_imp_zdiv_nonneg_iff)
  have "b * 2 ^ i div 256 < 2 ^ i"
  proof (rule int_div_less)
    have "b * 2 ^ i < 256 * 2 ^ i" using assms by simp
    then show "b * 2 ^ i < 2 ^ i * 256" by (simp add: mult.commute)
  qed simp
  then have q': "q * 2 ^ (h - i) < 2 ^ i * 2 ^ (h - i)" by (simp add: q_def)
  have "(2 :: int) ^ i * 2 ^ (h - i) = 2 ^ h" using Suc.prems by (simp add: power_add [symmetric])
  moreover have "(2 :: int) ^ h \<le> 2 ^ 7" using assms by (intro power_increasing) simp_all
  ultimately have qb: "q * 2 ^ (h - i) < 128" using q' by simp
  have nb: "0 \<le> q * 2 ^ (h - i)" using q by simp
  have x: "drop_bit i (push_bit (h - 1) (1 :: nat)) = 2 ^ (h - Suc i)"
    using Suc.prems by (simp add: drop_bit_eq_div push_bit_eq_mult power_diff [symmetric])
  have xb: "(2 :: nat) ^ (h - Suc i) \<le> 2 ^ 7" using assms by (intro power_increasing) simp_all
  have two: "(2 :: int) ^ (h - i) = 2 * 2 ^ (h - Suc i)"
    using Suc.prems by (metis Suc_diff_le diff_Suc_Suc power_Suc)
  have ok: "num_ok v" "num_ok 128" "num_ok (v - 128)" "num_ok (q * 2 ^ (h - i))" "(2 :: nat) ^ (h - Suc i) < 2147483648"
    using v nb qb xb by (auto simp: num_ok_def)
  have step: "exec vm ([push 128, OP_2DUP, OP_GREATERTHANOREQUAL,
              OP_IF [OP_SUB, OP_FROMALTSTACK, pushn (drop_bit i (push_bit (h - 1) 1)), OP_ADD,
                OP_TOALTSTACK, OP_DUP],
              OP_DROP, OP_DUP, OP_ADD] @ p)
      (State (scriptnum v # s) (scriptnum (q * 2 ^ (h - i)) # a)) =
    exec vm p (State (scriptnum (2 * v mod 256) # s)
      (scriptnum ((2 * q + 2 * v div 256) * 2 ^ (h - Suc i)) # a))"
  proof (cases "128 \<le> v")
    case True
    then have *: "2 * v div 256 = 1" "2 * v mod 256 = v - 128 + (v - 128)"
      using double_mod_div(1) [OF v] by simp_all
    show ?thesis
      unfolding * using True ok x two by (simp add: exec_simps exec_pushn_ADD ring_distribs mult.assoc mult.left_commute [of q 2])
  next
    case False
    then have *: "2 * v div 256 = 0" "2 * v mod 256 = v + v"
      using double_mod_div(2) [OF v] by simp_all
    show ?thesis
      unfolding * using False ok x two by (simp add: exec_simps mult.assoc mult.left_commute [of q 2])
  qed
  show ?case
    using Suc.IH Suc.prems step
    by (simp only: for_range_Suc append_assoc le0 v_def [symmetric] q_def [symmetric] shift_step)
qed

lemma exec_u8_extract_hbit:
  assumes "0 \<le> b" "b < 256" "0 < h" "h < 8" "u8_extract_hbit h = Some z"
  shows "exec vm (z @ p) (State (scriptnum b # s) a) =
    exec vm p (State (scriptnum (b div 2 ^ (8 - h)) # scriptnum (2 ^ h * (b mod 2 ^ (8 - h))) # s) a)"
proof -
  have pw: "(256 :: int) = 2 ^ h * 2 ^ (8 - h)" using assms by (simp add: power_add [symmetric])
  have div: "b * 2 ^ h div 256 = b div 2 ^ (8 - h)" and mod: "b * 2 ^ h mod 256 = 2 ^ h * (b mod 2 ^ (8 - h))"
    unfolding mult.commute [of b] pw by (simp_all only: mult_mod_right) (simp add: div_mult_mult1)
  show ?thesis
  proof (cases "h = 1")
    case True
    then show ?thesis
      using assms div mod by (simp add: u8_extract_hbit_def exec_u8_extract_1bit mult.commute)
  next
    case False
    then show ?thesis
      using assms div mod exec_extract_loop [of b h h vm] by (auto simp: u8_extract_hbit_def Let_def exec_simps)
  qed
qed

lemma exec_u8_rrot7:
  assumes "s ! i = scriptnum b" "0 \<le> b" "b < 256" "i < length s" "i < 2147483648"
  shows "exec vm (u8_rrot7 i @ p) (State s a) =
    exec vm p (State (scriptnum (b div 128) # scriptnum (b mod 128) # remove_nth i s) a)"
proof -
  have top: "exec vm (u8_rrot7 i @ p) (State s a) =
    exec vm ([push 128, OP_2DUP, OP_GREATERTHANOREQUAL, OP_IF_ELSE [OP_SUB, push 1] [OP_DROP, push 0]] @ p)
      (State (s ! i # remove_nth i s) a)"
  proof -
    consider "i = 0" | "i = 1" | "i = 2" | "3 \<le> i" by linarith
    then show ?thesis
    proof cases
      case 1
      then show ?thesis using assms(4) by (cases s) (simp_all add: u8_rrot7_def)
    next
      case 2
      then show ?thesis using assms(4)
        by (cases s; cases "tl s") (simp_all add: u8_rrot7_def exec_simps One_nat_def)
    next
      case 3
      then obtain x y z t where "s = x # y # z # t"
        using assms(4) by (cases s; cases "tl s"; cases "tl (tl s)") auto
      then show ?thesis using 3 by (simp add: u8_rrot7_def exec_simps)
    next
      case 4
      then show ?thesis using assms(4,5) by (simp add: u8_rrot7_def exec_simps)
    qed
  qed
  have num: "num_ok b" "num_ok 128" using assms by (auto simp: num_ok_def)
  show ?thesis
  proof (cases "128 \<le> b")
    case True
    then have "b div 128 = 1"
      using assms by (intro int_div_pos_eq [of _ _ _ "b - 128"]) simp_all
    moreover from this have "b mod 128 = b - 128" by (simp add: minus_mult_div_eq_mod [symmetric])
    ultimately show ?thesis unfolding top using True num assms(1) by (simp add: exec_simps)
  next
    case False
    then show ?thesis unfolding top using num assms by (simp add: exec_simps)
  qed
qed

lemma exec_rrot16:
  "exec vm (u32_rrot16 @ p) (State (u32_items w @ s) a) =
   exec vm p (State (u32_items (word_rotr 16 w) @ s) a)"
  using rotr8_bytes [of w] rotr8_bytes [of "word_rotr 8 w"]
  by (simp add: u32_rrot16_def u32_items_def word_rotr_word_rotr_eq exec_simps)

lemma exec_rrot8:
  "exec vm (u32_rrot8 @ p) (State (u32_items w @ s) a) =
   exec vm p (State (u32_items (word_rotr 8 w) @ s) a)"
  using rotr8_bytes [of w] by (simp add: u32_rrot8_def u32_items_def exec_simps pos_simps)

lemma exec_rrot24:
  "exec vm (pushn 3 # OP_ROLL # p) (State (u32_items w @ s) a) =
   exec vm p (State (u32_items (word_rotr 24 w) @ s) a)"
  using rotr8_bytes [of w] rotr8_bytes [of "word_rotr 8 w"] rotr8_bytes [of "word_rotr 16 w"]
  by (simp add: u32_items_def word_rotr_word_rotr_eq exec_simps pos_simps)

lemma exec_rrot7:
  "exec vm (u32_rrot7 @ p) (State (u32_items w @ s) a) =
   exec vm p (State (u32_items (word_rotr 7 w) @ s) a)"
proof -
  have num: "num_ok (u32_byte k w div 128)" "num_ok (u32_byte k w mod 128)"
    "num_ok (2 * (u32_byte k w mod 128))" for k
  proof -
    define d m where "d = u32_byte k w div 128" and "m = u32_byte k w mod 128"
    have "0 \<le> d" "d < 2" "0 \<le> m" "m < 128"
      using int_div_less [of 128 "u32_byte k w" 2] by (simp_all add: d_def m_def pos_imp_zdiv_nonneg_iff)
    then show "num_ok (u32_byte k w div 128)" "num_ok (u32_byte k w mod 128)"
      "num_ok (2 * (u32_byte k w mod 128))"
      unfolding d_def [symmetric] m_def [symmetric] by (simp_all add: num_ok_def)
  qed
  show ?thesis
    unfolding rotr_bytes [of 7 w, simplified] u32_rrot7_def
    by (simp add: u32_items_def exec_u8_rrot7 exec_simps pos_simps num add.commute)
qed

lemma hbit_parts:
  fixes b c :: int
  assumes "0 \<le> b" "b < 256" "0 \<le> c" "c < 256" "r < 8" "0 < r"
  shows "num_ok (b div 2 ^ r)" "num_ok (2 ^ (8 - r) * (c mod 2 ^ r))"
proof -
  have pw: "(2 :: int) ^ (8 - r) * 2 ^ r = 256" using assms by (simp add: power_add [symmetric])
  have "0 \<le> b div 2 ^ r" "b div 2 ^ r \<le> b"
    using assms(1) zdiv_mono2 [of b 1 "2 ^ r"] by (simp_all add: pos_imp_zdiv_nonneg_iff)
  then show "num_ok (b div 2 ^ r)" using assms(2) by (intro num_ok_range) linarith+
  have "2 ^ (8 - r) * (c mod 2 ^ r) \<le> 2 ^ (8 - r) * 2 ^ r"
    by (intro mult_left_mono) (simp_all add: less_imp_le)
  then show "num_ok (2 ^ (8 - r) * (c mod 2 ^ r))"
    unfolding pw by (intro num_ok_range) simp_all
qed

lemma exec_byte_reorder:
  assumes "k < 4" "byte_reorder k = Some z"
  shows "exec vm (z @ p) (State (rev (u32_items w) @ s) a) =
    exec vm p (State (u32_items (word_rotr (8 * k) w) @ s) a)"
proof -
  from assms(1) consider "k = 0" | "k = 1" | "k = 2" | "k = 3" by linarith
  then show ?thesis
    using assms(2) rotr8_bytes [of w] rotr8_bytes [of "word_rotr 8 w"] rotr8_bytes [of "word_rotr 16 w"]
    by cases (auto simp: byte_reorder_def u32_items_def word_rotr_word_rotr_eq exec_simps)
qed

text \<open>The general case: every byte split at the remainder, the parts joined, the bytes moved.\<close>

lemma exec_rrot_general:
  assumes n: "n < 32" and r: "r = n mod 8" "0 < r" and k: "k = n div 8"
    and h: "u8_extract_hbit (8 - r) = Some h" and z: "byte_reorder k = Some z"
  shows "exec vm ((h @ [OP_ROT] @ h @ [pushn 4, OP_ROLL] @ h @ [pushn 6, OP_ROLL] @ h
         @ [pushn 7, OP_ROLL, OP_ADD, OP_TOALTSTACK]
         @ [OP_ADD, OP_TOALTSTACK] @ [OP_ADD, OP_TOALTSTACK] @ [OP_ADD, OP_TOALTSTACK]
         @ [OP_FROMALTSTACK, OP_FROMALTSTACK, OP_FROMALTSTACK, OP_FROMALTSTACK] @ z) @ p)
      (State (u32_items w @ s) a) =
    exec vm p (State (u32_items (word_rotr n w) @ s) a)"
proof -
  have r8: "r < 8" using r(1) by simp
  have ex: "exec vm (h @ q) (State (scriptnum (u32_byte i w) # t) a') =
      exec vm q (State (scriptnum (u32_byte i w div 2 ^ r)
        # scriptnum (2 ^ (8 - r) * (u32_byte i w mod 2 ^ r)) # t) a')" for q i t a'
    using exec_u8_extract_hbit [of "u32_byte i w" "8 - r" h] h r8 r(2) by simp
  have num: "num_ok (u32_byte i w div 2 ^ r)" "num_ok (2 ^ (8 - r) * (u32_byte i w mod 2 ^ r))" for i
    using hbit_parts [of "u32_byte i w" "u32_byte i w" r] r8 r(2) by simp_all
  have "word_rotr n w = word_rotr (8 * k) (word_rotr r w)"
    using r(1) k by (simp add: word_rotr_word_rotr_eq)
  moreover have "k < 4" using n k by simp
  ultimately show ?thesis
    using exec_byte_reorder [of k z vm p "word_rotr r w" s a] z rotr_bytes [of r w] r8
    by (simp add: u32_items_def [of w] ex num exec_simps pos_simps add.commute)
qed

text \<open>
  C33. \<open>u32_rrot\<close> returns a script for every number of bits below 32, and the script
  replaces the word on top of the stack by its right rotation, whatever is below it.
\<close>

theorem u32_rrot_correct:
  assumes "n < 32"
  shows "\<exists>z. u32_rrot n = Some z \<and>
    (\<forall>vm w s a. exec vm z (State (u32_items w @ s) a) = Inr (State (u32_items (word_rotr n w) @ s) a))"
proof -
  note ex = exec_rrot7 [where p = "[]"] exec_rrot8 [where p = "[]"] exec_rrot16 [where p = "[]"] exec_rrot24 [where p = "[]"]
  consider "n \<in> {0, 7, 8, 16, 23, 24}" | "n \<notin> {0, 7, 8, 16, 23, 24}" by blast
  then show ?thesis
  proof cases
    case 1
    then show ?thesis
      using ex by (auto simp: u32_rrot_def exec_rrot16 word_rotr_word_rotr_eq)
  next
    case 2
    have "n mod 8 = 0 \<longrightarrow> n = 0 \<or> n = 8 \<or> n = 16 \<or> n = 24" using assms by presburger
    with 2 have r: "0 < n mod 8" by blast
    obtain h where h: "u8_extract_hbit (8 - n mod 8) = Some h"
      using r by (cases "8 - n mod 8 = 1") (simp_all add: u8_extract_hbit_def Let_def Suc_le_eq One_nat_def)
    have "n div 8 < 4" using assms by simp
    then obtain z where z: "byte_reorder (n div 8) = Some z"
      unfolding byte_reorder_def by (cases "n div 8 = 0"; cases "n div 8 = 1"; cases "n div 8 = 2") simp_all
    have "(n - n mod 8) div 8 = n div 8" by (metis minus_mod_eq_mult_div nonzero_mult_div_cancel_left zero_neq_numeral)
    then show ?thesis
      using 2 assms h z exec_rrot_general [OF assms refl r refl h z, where p = "[]"]
      by (simp add: u32_rrot_def Let_def)
  qed
qed

theorem u32_rrot_correct_witness:
  "\<exists>z. u32_rrot 13 = Some z \<and>
    (\<forall>vm w s a. exec vm z (State (u32_items w @ s) a) = Inr (State (u32_items (word_rotr 13 w) @ s) a))"
  by (rule u32_rrot_correct) simp

end
