(* ===== verification/Hash_Utils.thy ===== *)
theory Hash_Utils
  imports Prelude
begin

text \<open>
  \<open>header-chain/src/utils.rs\<close> and \<open>final-spv/src/utils.rs\<close>: the hash helpers of the two
  circuits.  SHA-256 itself comes from a package and is an argument of every definition.
  Arithmetic on fixed-width integers that may overflow takes the build's overflow checks as
  an argument: with the checks the code panics, without them the value wraps.
\<close>

type_synonym digest = "8 word list"

definition calculate_double_sha256 :: "(digest \<Rightarrow> digest) \<Rightarrow> digest \<Rightarrow> digest" where
  "calculate_double_sha256 sha input = sha (sha input)"

definition calculate_sha256 :: "(digest \<Rightarrow> digest) \<Rightarrow> digest \<Rightarrow> digest" where
  "calculate_sha256 sha input = sha input"

definition hash_pair :: "(digest \<Rightarrow> digest) \<Rightarrow> digest \<Rightarrow> digest \<Rightarrow> digest" where
  "hash_pair sha l r = sha (l @ r)"

section \<open>Arithmetic with and without overflow checks\<close>

definition add32 :: "bool \<Rightarrow> u32 \<Rightarrow> u32 \<Rightarrow> u32 option" where
  "add32 chk a b = (if chk \<and> 2 ^ 32 \<le> unat a + unat b then None else Some (a + b))"

definition sub32 :: "bool \<Rightarrow> u32 \<Rightarrow> u32 \<Rightarrow> u32 option" where
  "sub32 chk a b = (if chk \<and> a < b then None else Some (a - b))"

text \<open>\<open>1 << i\<close> on 32 bits: without the checks the shift amount is masked.\<close>

definition one_shl32 :: "bool \<Rightarrow> nat \<Rightarrow> u32 option" where
  "one_shl32 chk i = (if i < 32 then Some (push_bit i 1)
     else if chk then None else Some (push_bit (i mod 32) 1))"

lemma add32_Some: "unat a + unat b < 2 ^ 32 \<Longrightarrow> add32 chk a b = Some (a + b)"
  by (simp add: add32_def)

lemma sub32_Some: "b \<le> a \<Longrightarrow> sub32 chk a b = Some (a - b)"
  by (auto simp: sub32_def)

text \<open>Number of bits of a number, \<open>32 - leading_zeros\<close> for a 32-bit value.\<close>

fun bit_length :: "nat \<Rightarrow> nat" where
  "bit_length n = (if n = 0 then 0 else Suc (bit_length (n div 2)))"

declare bit_length.simps [simp del]

definition leading_zeros32 :: "u32 \<Rightarrow> nat" where
  "leading_zeros32 w = 32 - bit_length (unat w)"

lemma bit_length_0 [simp]: "bit_length 0 = 0"
  by (simp add: bit_length.simps)

lemma bit_length_pos: "0 < n \<Longrightarrow> bit_length n = Suc (bit_length (n div 2))"
  by (simp add: bit_length.simps [of n])

lemma bit_length_le_iff: "bit_length n \<le> k \<longleftrightarrow> n < 2 ^ k"
proof (induction k arbitrary: n)
  case 0
  then show ?case by (cases "n = 0") (simp_all add: bit_length_pos)
next
  case (Suc k)
  then show ?case
    by (cases "n = 0") (auto simp: bit_length_pos div_less_iff_less_mult mult.commute)
qed

lemma bit_length_bounds: "0 < n \<Longrightarrow> 2 ^ (bit_length n - 1) \<le> n \<and> n < 2 ^ bit_length n"
  using bit_length_le_iff [of n "bit_length n"] bit_length_le_iff [of n "bit_length n - 1"]
  by (cases "bit_length n") (auto simp: bit_length_pos not_less [symmetric])

lemma bit_length_eqI:
  assumes "2 ^ k \<le> n" "n < 2 ^ Suc k"
  shows "bit_length n = Suc k"
  using bit_length_le_iff [of n k] bit_length_le_iff [of n "Suc k"] assms by linarith

lemma leading_zeros32_eq:
  assumes "0 < w"
  shows "leading_zeros32 w = 32 - bit_length (unat w)" "1 \<le> bit_length (unat w)"
    "bit_length (unat w) \<le> 32"
proof -
  show "leading_zeros32 w = 32 - bit_length (unat w)" by (simp add: leading_zeros32_def)
  have "0 < unat w" using assms by (simp add: word_less_nat_alt)
  then show "1 \<le> bit_length (unat w)" by (simp add: bit_length_pos)
  show "bit_length (unat w) \<le> 32" using unsigned_less [of w, where ?'a = nat] by (simp add: bit_length_le_iff)
qed

end
