(* ===== verification/Mmr.thy ===== *)
theory Mmr
  imports Hash_Utils
begin

text \<open>
  \<open>header-chain/src/mmr_guest.rs\<close> and \<open>mmr_native.rs\<close>: the Merkle mountain range of block
  hashes, kept as a list of subroots inside the circuit and as all levels of the trees
  outside of it.  A panic of the code is \<open>None\<close>.  Both are shown to implement the list of
  peaks of one abstract forest, and the proofs the native side generates are accepted by
  both verifiers.
\<close>

unbundle bit_operations_syntax

section \<open>The range inside the circuit\<close>

record mmr_guest =
  subroots :: "digest list"
  size :: u32

definition guest_new :: mmr_guest where
  "guest_new = \<lparr>subroots = [], size = 0\<rparr>"

text \<open>The loop of \<open>append\<close>: subroots are popped while the remaining size is odd.\<close>

function guest_append_loop :: "(digest \<Rightarrow> digest \<Rightarrow> digest) \<Rightarrow> nat \<Rightarrow> digest list \<Rightarrow> digest \<Rightarrow> digest list option" where
  "guest_append_loop h n rs current =
     (if n mod 2 = 1
      then if rs = [] then None
        else guest_append_loop h (n div 2) (butlast rs) (h (last rs) current)
      else Some (rs @ [current]))"
  by pat_completeness auto
termination by (relation "measure (\<lambda>(_, n, _). n)") auto

declare guest_append_loop.simps [simp del]

definition guest_append :: "bool \<Rightarrow> (digest \<Rightarrow> digest) \<Rightarrow> mmr_guest \<Rightarrow> digest \<Rightarrow> mmr_guest option" where
  "guest_append chk sha m leaf = do {
     rs \<leftarrow> guest_append_loop (hash_pair sha) (unat (size m)) (subroots m) leaf;
     n \<leftarrow> add32 chk (size m) 1;
     Some \<lparr>subroots = rs, size = n\<rparr>
   }"

section \<open>Inclusion proofs\<close>

record mmr_inclusion_proof =
  subroot_idx :: nat
  internal_idx :: u32
  inclusion_proof :: "digest list"

text \<open>The loop shared by the two verifiers and \<open>get_subroot\<close>: the \<open>i\<close>-th bit says which side the sibling is on.\<close>

fun climb :: "bool \<Rightarrow> (digest \<Rightarrow> digest \<Rightarrow> digest) \<Rightarrow> u32 \<Rightarrow> nat \<Rightarrow> digest list \<Rightarrow> digest \<Rightarrow> digest option" where
  "climb chk h idx i [] current = Some current"
| "climb chk h idx i (sibling # ss) current = do {
     m \<leftarrow> one_shl32 chk i;
     climb chk h idx (Suc i) ss (if idx AND m = 0 then h current sibling else h sibling current)
   }"

definition get_subroot :: "bool \<Rightarrow> (digest \<Rightarrow> digest) \<Rightarrow> mmr_inclusion_proof \<Rightarrow> digest \<Rightarrow> digest option" where
  "get_subroot chk sha p leaf = climb chk (hash_pair sha) (internal_idx p) 0 (inclusion_proof p) leaf"

definition guest_verify_proof :: "bool \<Rightarrow> (digest \<Rightarrow> digest) \<Rightarrow> mmr_guest \<Rightarrow> digest \<Rightarrow> mmr_inclusion_proof \<Rightarrow> bool option" where
  "guest_verify_proof chk sha m leaf p = do {
     current_hash \<leftarrow> climb chk (hash_pair sha) (internal_idx p) 0 (inclusion_proof p) leaf;
     Some (subroot_idx p < length (subroots m) \<and> subroots m ! subroot_idx p = current_hash)
   }"

section \<open>The range outside the circuit\<close>

type_synonym mmr_native = "digest list list"

definition native_new :: mmr_native where
  "native_new = [[]]"

fun peaks_loop :: "(digest \<Rightarrow> digest \<Rightarrow> digest) \<Rightarrow> nat \<Rightarrow> nat \<Rightarrow> mmr_native \<Rightarrow> mmr_native option" where
  "peaks_loop h level 0 nodes = Some nodes"
| "peaks_loop h level (Suc r) nodes =
     (let row = nodes ! level; n = length row in
      if n mod 2 = 1 then Some nodes
      else if n < 2 then None
      else peaks_loop h (Suc level) r
        (nodes[Suc level := nodes ! Suc level @ [h (row ! (n - 2)) (row ! (n - 1))]]))"

definition recalculate_peaks :: "(digest \<Rightarrow> digest) \<Rightarrow> mmr_native \<Rightarrow> mmr_native option" where
  "recalculate_peaks sha nodes = do {
     let depth = length nodes;
     nodes' \<leftarrow> peaks_loop (hash_pair sha) 0 (depth - 1) nodes;
     let top = nodes' ! (depth - 1);
     if 1 < length top then Some (nodes' @ [[hash_pair sha (top ! 0) (top ! 1)]])
     else Some nodes'
   }"

definition native_append :: "(digest \<Rightarrow> digest) \<Rightarrow> mmr_native \<Rightarrow> digest \<Rightarrow> mmr_native option" where
  "native_append sha nodes leaf =
     (if nodes = [] then None
      else recalculate_peaks sha (nodes[0 := nodes ! 0 @ [leaf]]))"

definition get_subroots :: "mmr_native \<Rightarrow> digest list" where
  "get_subroots nodes = rev (concat (map (\<lambda>level.
     if length level mod 2 = 1 then [level ! (length level - 1)] else []) nodes))"

definition native_verify_proof :: "bool \<Rightarrow> (digest \<Rightarrow> digest) \<Rightarrow> mmr_native \<Rightarrow> digest \<Rightarrow> mmr_inclusion_proof \<Rightarrow> bool option" where
  "native_verify_proof chk sha nodes leaf p = do {
     subroot \<leftarrow> get_subroot chk sha p leaf;
     let rs = get_subroots nodes;
     if subroot_idx p < length rs then Some (rs ! subroot_idx p = subroot) else None
   }"

text \<open>
  The loop of \<open>generate_proof\<close>; it runs over the levels, so the number of levels bounds it
  and running past the last level is the panic of the index.
\<close>

fun proof_loop :: "mmr_native \<Rightarrow> nat \<Rightarrow> digest list option" where
  "proof_loop [] i = None"
| "proof_loop (row # rows) i =
     (if row = [] then None
      else if i = length row - 1 \<and> length row mod 2 = 1 then Some []
      else do {
        let sibling = (if i mod 2 = 0 then i + 1 else i - 1);
        s \<leftarrow> (if sibling < length row then Some (row ! sibling) else None);
        rest \<leftarrow> proof_loop rows (i div 2);
        Some (s # rest)
      })"

definition get_helpers_from_index :: "mmr_native \<Rightarrow> u32 \<Rightarrow> (nat \<times> u32) option" where
  "get_helpers_from_index nodes index = do {
     let n = length (nodes ! 0);
     let xor = (word_of_nat n :: u32) XOR index;
     xor_leading_digit \<leftarrow> checked_sub 31 (leading_zeros32 xor);
     let internal = index AND (push_bit xor_leading_digit 1 - 1);
     leading_zeros_size \<leftarrow> checked_sub 31 (leading_zeros32 (word_of_nat n));
     let subtree_idx = length (filter (\<lambda>i. n AND push_bit i 1 \<noteq> 0)
       [xor_leading_digit + 1..<leading_zeros_size + 1]);
     Some (subtree_idx, internal)
   }"

definition generate_proof :: "mmr_native \<Rightarrow> u32 \<Rightarrow> (digest \<times> mmr_inclusion_proof) option" where
  "generate_proof nodes index =
     (if nodes = [] \<or> nodes ! 0 = [] then None
      else if length (nodes ! 0) \<le> unat index then None
      else do {
        proof_list \<leftarrow> proof_loop nodes (unat index);
        (subroot, internal) \<leftarrow> get_helpers_from_index nodes index;
        Some (nodes ! 0 ! unat index,
          \<lparr>subroot_idx = subroot, internal_idx = internal, inclusion_proof = proof_list\<rparr>)
      })"

section \<open>The abstract forest\<close>

text \<open>
  The level above a row of hashes, the levels over a row of leaves, and the peaks: the last
  hash of every level of odd length, the highest level first.
\<close>

fun pairs :: "('a \<Rightarrow> 'a \<Rightarrow> 'a) \<Rightarrow> 'a list \<Rightarrow> 'a list" where
  "pairs h (x # y # xs) = h x y # pairs h xs"
| "pairs h _ = []"

lemma length_pairs [simp]: "length (pairs h xs) = length xs div 2"
  by (induction h xs rule: pairs.induct) (simp_all add: One_nat_def)

lemma pairs_snoc_even: "even (length xs) \<Longrightarrow> pairs h (xs @ [c]) = pairs h xs"
  by (induction h xs rule: pairs.induct) simp_all

lemma pairs_append_even: "even (length xs) \<Longrightarrow> pairs h (xs @ ys) = pairs h xs @ pairs h ys"
  by (induction h xs rule: pairs.induct) simp_all

lemma nth_pairs: "i < length xs div 2 \<Longrightarrow> pairs h xs ! i = h (xs ! (2 * i)) (xs ! (2 * i + 1))"
proof (induction h xs arbitrary: i rule: pairs.induct)
  case (1 h x y xs)
  then show ?case by (cases i) simp_all
qed simp_all

function peaks :: "('a \<Rightarrow> 'a \<Rightarrow> 'a) \<Rightarrow> 'a list \<Rightarrow> 'a list" where
  "peaks h xs = (if xs = [] then []
     else peaks h (pairs h xs) @ (if odd (length xs) then [last xs] else []))"
  by pat_completeness auto
termination by (relation "measure (\<lambda>(_, xs). length xs)") auto

function levels :: "('a \<Rightarrow> 'a \<Rightarrow> 'a) \<Rightarrow> 'a list \<Rightarrow> 'a list list" where
  "levels h xs = xs # (if length xs \<le> 1 then [] else levels h (pairs h xs))"
  by pat_completeness auto
termination by (relation "measure (\<lambda>(_, xs). length xs)") auto

declare peaks.simps [simp del] levels.simps [simp del]

lemma peaks_Nil [simp]: "peaks h [] = []"
  by (simp add: peaks.simps)

lemma levels_not_Nil [simp]: "levels h xs \<noteq> []" "hd (levels h xs) = xs" "levels h xs ! 0 = xs"
  by (simp_all add: levels.simps [of h xs])

lemma peaks_even: "even (length xs) \<Longrightarrow> peaks h xs = peaks h (pairs h xs)"
  by (cases "xs = []") (simp_all add: peaks.simps [of h xs])

lemma peaks_snoc_odd: "even (length xs) \<Longrightarrow> peaks h (xs @ [c]) = peaks h (pairs h xs) @ [c]"
  by (simp add: peaks.simps [of h "xs @ [c]"] pairs_snoc_even)

lemma odd_length_snoc:
  assumes "odd (length xs)"
  obtains ys l where "xs = ys @ [l]" "even (length ys)"
  using assms by (cases xs rule: rev_cases) auto

lemma guest_append_loop_step:
  "guest_append_loop h n rs c = (if odd n
     then if rs = [] then None else guest_append_loop h (n div 2) (butlast rs) (h (last rs) c)
     else Some (rs @ [c]))"
  by (subst guest_append_loop.simps) (simp add: odd_iff_mod_2_eq_one)

lemma guest_append_loop_peaks:
  "guest_append_loop h (length xs) (peaks h xs) c = Some (peaks h (xs @ [c]))"
proof (induction h xs arbitrary: c rule: peaks.induct)
  case (1 h xs)
  show ?case
  proof (cases "odd (length xs)")
    case False
    then show ?thesis
      by (simp add: guest_append_loop_step peaks_snoc_odd peaks_even)
  next
    case True
    then obtain ys l where xs: "xs = ys @ [l]" "even (length ys)" by (rule odd_length_snoc)
    have "guest_append_loop h (length (pairs h xs)) (peaks h (pairs h xs)) (h l c) =
        Some (peaks h (pairs h xs @ [h l c]))"
      using xs by (intro 1) simp
    then show ?thesis
      using xs True peaks_even [of "xs @ [c]" h]
      by (subst guest_append_loop_step) (simp add: peaks_snoc_odd pairs_snoc_even pairs_append_even)
  qed
qed

lemma peaks_loop_step:
  "peaks_loop h level (Suc r) nodes =
     (let row = nodes ! level; n = length row in
      if odd n then Some nodes
      else if n < 2 then None
      else peaks_loop h (Suc level) r
        (nodes[Suc level := nodes ! Suc level @ [h (row ! (n - 2)) (row ! (n - 1))]]))"
  by (simp add: odd_iff_mod_2_eq_one Let_def)

declare peaks_loop.simps(2) [simp del]

lemma peaks_loop_levels:
  assumes "levels h xs = xs # rest"
  shows "\<exists>nodes. peaks_loop h (length pre) (length rest) (pre @ (xs @ [c]) # rest) = Some nodes \<and>
    (let top = last nodes in nodes @ (if 1 < length top then [[h (top ! 0) (top ! 1)]] else []))
      = pre @ levels h (xs @ [c]) \<and> length nodes = length pre + Suc (length rest)"
  using assms
proof (induction h xs arbitrary: pre rest c rule: levels.induct)
  case (1 h xs)
  show ?case
  proof (cases "length xs \<le> 1")
    case True
    then show ?thesis
      using 1(2) by (cases xs) (auto simp: levels.simps [of h])
  next
    case False
    then obtain rest' where rest: "rest = levels h (pairs h xs)" "rest = pairs h xs # rest'"
      using 1(2) levels.simps [of h "pairs h xs"] by (auto simp: levels.simps [of h xs])
    have lst: "length (last (levels h ys)) \<le> 1" for ys
      by (induction h ys rule: levels.induct) (subst levels.simps, simp)
    show ?thesis
    proof (cases "odd (length (xs @ [c]))")
      case True
      have lv: "levels h (xs @ [c]) = (xs @ [c]) # rest"
        using True False rest by (simp add: levels.simps [of h "xs @ [c]"] pairs_snoc_even)
          (auto simp: Suc_le_eq)
      have "peaks_loop h (length pre) (length rest) (pre @ (xs @ [c]) # rest) = Some (pre @ (xs @ [c]) # rest)"
        using True rest(2) by (simp add: peaks_loop_step Let_def)
      moreover have "length (last (pre @ (xs @ [c]) # rest)) \<le> 1"
        using lst [of "pairs h xs"] rest by simp
      ultimately show ?thesis by (simp add: Let_def lv)
    next
      case even: False
      then obtain ys l where xs: "xs = ys @ [l]" "even (length ys)" by (auto elim: odd_length_snoc)
      have node: "xs ! (length xs - Suc 0) = l" "xs \<noteq> []"
        using xs by (simp_all add: nth_append)
      have pr: "pairs h (xs @ [c]) = pairs h xs @ [h l c]"
        using xs by (simp add: pairs_append_even pairs_snoc_even)
      have "levels h (xs @ [c]) = (xs @ [c]) # levels h (pairs h xs @ [h l c])"
        using False pr by (simp add: levels.simps [of h "xs @ [c]"]) (auto simp: Suc_le_eq)
      moreover have "peaks_loop h (length pre) (length rest) (pre @ (xs @ [c]) # rest) =
          peaks_loop h (length (pre @ [xs @ [c]])) (length rest')
            ((pre @ [xs @ [c]]) @ (pairs h xs @ [h l c]) # rest')"
        using even False node rest(2)
        by (simp add: peaks_loop_step Let_def nth_append list_update_append)
      ultimately show ?thesis
        using 1(1) [OF False, of rest' "pre @ [xs @ [c]]" "h l c"] rest(1) [symmetric] rest(2)
        by (simp add: trans [OF rest(1) [symmetric] rest(2)])
    qed
  qed
qed

lemma recalculate_peaks_levels:
  assumes "levels (hash_pair sha) xs = xs # rest"
  shows "recalculate_peaks sha ((xs @ [c]) # rest) = Some (levels (hash_pair sha) (xs @ [c]))"
proof -
  obtain nodes where nodes: "peaks_loop (hash_pair sha) 0 (length rest) ((xs @ [c]) # rest) = Some nodes"
      "(let top = last nodes in nodes @ (if 1 < length top then [[hash_pair sha (top ! 0) (top ! 1)]] else []))
        = levels (hash_pair sha) (xs @ [c])" "length nodes = Suc (length rest)"
    using peaks_loop_levels [OF assms, of "[]" c] by auto
  have "nodes ! length rest = last nodes"
    using nodes(3) last_conv_nth [of nodes] by (cases nodes) auto
  then show ?thesis
    using nodes by (auto simp: recalculate_peaks_def Let_def)
qed

lemma native_append_levels:
  "native_append sha (levels (hash_pair sha) xs) c = Some (levels (hash_pair sha) (xs @ [c]))"
proof -
  obtain rest where "levels (hash_pair sha) xs = xs # rest" by (auto simp: levels.simps [of _ xs])
  then show ?thesis
    by (simp add: native_append_def recalculate_peaks_levels)
qed

lemma get_subroots_levels: "get_subroots (levels h xs) = peaks h xs"
proof (induction h xs rule: levels.induct)
  case (1 h xs)
  show ?case
  proof (cases "length xs \<le> 1")
    case True
    then show ?thesis
      by (cases xs) (auto simp: get_subroots_def levels.simps [of h] peaks.simps [of h])
  next
    case False
    then have "xs \<noteq> []" by auto
    then show ?thesis
      using False 1
      by (auto simp: get_subroots_def levels.simps [of h xs] peaks.simps [of h xs] last_conv_nth
          odd_iff_mod_2_eq_one)
  qed
qed

section \<open>One interface for the two ranges\<close>

text \<open>
  What both ranges promise: \<open>represents m xs\<close> relates a state to the leaves appended so far,
  appending never panics below \<open>2^32\<close> leaves, and the subroots are the peaks of the leaves.
\<close>

locale mountain_range =
  fixes h :: "digest \<Rightarrow> digest \<Rightarrow> digest"
    and empty :: 'm
    and append :: "'m \<Rightarrow> digest \<Rightarrow> 'm option"
    and roots :: "'m \<Rightarrow> digest list"
    and represents :: "'m \<Rightarrow> digest list \<Rightarrow> bool"
  assumes represents_empty: "represents empty []"
    and represents_append:
      "represents m xs \<Longrightarrow> Suc (length xs) < 2 ^ 32 \<Longrightarrow>
        \<exists>m'. append m x = Some m' \<and> represents m' (xs @ [x])"
    and roots_peaks: "represents m xs \<Longrightarrow> roots m = peaks h xs"
begin

lemma append_all_represents:
  assumes "represents m xs" "length xs + length ys < 2 ^ 32"
  shows "\<exists>m'. fold_option append m ys = Some m' \<and> represents m' (xs @ ys)"
  using assms
proof (induction ys arbitrary: m xs)
  case (Cons y ys)
  have "Suc (length xs) < 2 ^ 32" using Cons.prems(2) unfolding list.size by linarith
  then obtain m' where m': "append m y = Some m'" "represents m' (xs @ [y])"
    using represents_append Cons.prems(1) by blast
  moreover have "length (xs @ [y]) + length ys < 2 ^ 32" using Cons.prems(2) by simp
  ultimately show ?case using Cons.IH [of m' "xs @ [y]"] by auto
qed simp

lemma append_all_roots:
  assumes "length xs < 2 ^ 32"
  shows "\<exists>m. fold_option append empty xs = Some m \<and> roots m = peaks h xs"
  using append_all_represents [OF represents_empty, of xs] assms roots_peaks by auto

end

definition guest_represents :: "(digest \<Rightarrow> digest) \<Rightarrow> mmr_guest \<Rightarrow> digest list \<Rightarrow> bool" where
  "guest_represents sha m xs \<longleftrightarrow>
     subroots m = peaks (hash_pair sha) xs \<and> unat (size m) = length xs"

lemma guest_append_represents:
  assumes "guest_represents sha m xs" "Suc (length xs) < 2 ^ 32"
  shows "\<exists>m'. guest_append chk sha m x = Some m' \<and> guest_represents sha m' (xs @ [x])"
proof -
  have "unat (size m + 1) = Suc (length xs)"
    using assms by (subst unat_add_lem [THEN iffD1]) (simp_all add: guest_represents_def)
  moreover have "add32 chk (size m) 1 = Some (size m + 1)"
    using assms by (intro add32_Some) (simp add: guest_represents_def)
  moreover have "guest_append_loop (hash_pair sha) (unat (size m)) (subroots m) x =
      Some (peaks (hash_pair sha) (xs @ [x]))"
    using assms guest_append_loop_peaks by (simp add: guest_represents_def)
  ultimately show ?thesis by (simp add: guest_append_def guest_represents_def)
qed

interpretation guest: mountain_range "hash_pair sha" guest_new "guest_append chk sha" subroots
    "guest_represents sha"
  for chk sha
  by unfold_locales
    (auto simp: guest_new_def guest_append_represents, simp_all add: guest_represents_def)

interpretation native: mountain_range "hash_pair sha" native_new "native_append sha" get_subroots
    "\<lambda>m xs. m = levels (hash_pair sha) xs"
  for sha
  by unfold_locales
    (simp_all add: native_append_levels get_subroots_levels, simp add: native_new_def levels.simps)

section \<open>Proofs\<close>

text \<open>The climb along a leaf index, and the height at which the leaf meets a peak.\<close>

fun climb_path :: "('a \<Rightarrow> 'a \<Rightarrow> 'a) \<Rightarrow> nat \<Rightarrow> 'a list \<Rightarrow> 'a \<Rightarrow> 'a" where
  "climb_path h i [] c = c"
| "climb_path h i (s # ss) c = climb_path h (i div 2) ss (if even i then h c s else h s c)"

definition peak_height :: "nat \<Rightarrow> nat \<Rightarrow> nat" where
  "peak_height n i = bit_length (n XOR i) - 1"

definition peak_index :: "nat \<Rightarrow> nat \<Rightarrow> nat" where
  "peak_index n i = length (filter (bit n) [peak_height n i + 1..<bit_length n])"

lemma length_filter_bit_Suc:
  "length (filter (bit n) [Suc a..<Suc b]) = length (filter (bit (n div 2)) [a..<b])" for n :: nat
proof -
  have "filter (bit n) (map Suc [a..<b]) = map Suc (filter (bit (n div 2)) [a..<b])"
    by (simp add: filter_map comp_def bit_Suc)
  then show ?thesis by (simp only: map_Suc_upt length_map)
qed

lemma xor_div_2: "(n XOR i) div 2 = (n div 2) XOR (i div 2 :: nat)"
  using drop_bit_xor [of 1 n i] by (simp only: drop_bit_eq_div power_one_right)

lemma xor_eq_0_iff: "n XOR i = 0 \<longleftrightarrow> n = (i :: nat)"
  by (auto simp: bit_eq_iff bit_xor_iff)

lemma bit_length_xor:
  "n \<noteq> i \<Longrightarrow> bit_length (n XOR i) = Suc (bit_length (n div 2 XOR i div 2))"
  using bit_length_pos [of "n XOR i"] xor_eq_0_iff [of n i] by (simp add: xor_div_2)

lemma peak_height_last:
  assumes "odd n" "i = n - 1"
  shows "peak_height n i = 0"
proof -
  have "n div 2 = i div 2" "n \<noteq> i" using assms by presburger+
  then have "bit_length (n XOR i) = Suc 0"
    by (simp add: bit_length_xor)
  then show ?thesis by (simp add: peak_height_def)
qed

lemma peak_height_step:
  assumes "i < n" "\<not> (odd n \<and> i = n - 1)"
  shows "peak_height n i = Suc (peak_height (n div 2) (i div 2))"
    and "peak_index n i = peak_index (n div 2) (i div 2)"
proof -
  have lt: "i div 2 < n div 2" using assms by presburger
  have "bit_length (n XOR i) = Suc (bit_length (n div 2 XOR i div 2))"
    using assms by (intro bit_length_xor) simp
  moreover have "0 < bit_length (n div 2 XOR i div 2)" using lt by (simp add: bit_length_xor)
  ultimately show h: "peak_height n i = Suc (peak_height (n div 2) (i div 2))"
    by (simp add: peak_height_def)
  show "peak_index n i = peak_index (n div 2) (i div 2)"
    using assms(1) by (simp add: peak_index_def h bit_length_pos [of n] length_filter_bit_Suc del: upt_Suc)
qed

lemma length_peaks: "length (peaks h xs) = length (filter (bit (length xs)) [0..<bit_length (length xs)])"
proof (induction h xs rule: peaks.induct)
  case (1 h xs)
  show ?case
  proof (cases "xs = []")
    case False
    have "[0..<bit_length (length xs)] = 0 # [Suc 0..<Suc (bit_length (length xs div 2))]"
      using False by (simp add: bit_length_pos [of "length xs"] upt_conv_Cons del: upt_Suc)
    then show ?thesis
      using False 1 by (simp add: peaks.simps [of h xs] length_filter_bit_Suc bit_0 del: upt_Suc)
  qed simp
qed

lemma peak_index_last:
  assumes "odd (length xs)" "i = length xs - 1"
  shows "peak_index (length xs) i = length (peaks h (pairs h xs))"
proof -
  have "0 < length xs" using assms by (cases xs) simp_all
  then show ?thesis
    using peak_height_last [OF assms]
    by (simp add: peak_index_def length_peaks bit_length_pos [of "length xs"] length_filter_bit_Suc del: upt_Suc)
qed

lemma proof_loop_levels:
  assumes "i < length xs"
  shows "\<exists>ss. proof_loop (levels h xs) i = Some ss \<and> length ss = peak_height (length xs) i \<and>
    peak_index (length xs) i < length (peaks h xs) \<and>
    climb_path h i ss (xs ! i) = peaks h xs ! peak_index (length xs) i"
  using assms
proof (induction h xs arbitrary: i rule: levels.induct)
  case (1 h xs)
  show ?case
  proof (cases "odd (length xs) \<and> i = length xs - 1")
    case True
    then have "xs \<noteq> []" by auto
    moreover from this True have "proof_loop (levels h xs) i = Some []"
      by (subst levels.simps) (simp add: odd_iff_mod_2_eq_one)
    ultimately show ?thesis
      using True peak_height_last [of "length xs" i] peak_index_last [of xs i h]
      by (simp add: peaks.simps [of h xs] last_conv_nth)
  next
    case False
    have len: "\<not> length xs \<le> 1" using False 1(2) by (cases "length xs"; cases "length xs - 1") auto
    let ?s = "if i mod 2 = 0 then i + 1 else i - 1"
    have half: "i div 2 < length (pairs h xs)" using False 1(2) by (simp, presburger)
    have sib: "?s < length xs" using False 1(2) by (simp, presburger)
    obtain ss where ss: "proof_loop (levels h (pairs h xs)) (i div 2) = Some ss"
        "length ss = peak_height (length (pairs h xs)) (i div 2)"
        "peak_index (length (pairs h xs)) (i div 2) < length (peaks h (pairs h xs))"
        "climb_path h (i div 2) ss (pairs h xs ! (i div 2)) =
          peaks h (pairs h xs) ! peak_index (length (pairs h xs)) (i div 2)"
      using 1(1) [OF len half] by blast
    have "proof_loop (levels h xs) i = Some (xs ! ?s # ss)"
      using len False 1(2) sib ss(1)
      by (subst levels.simps) (auto simp: odd_iff_mod_2_eq_one Let_def)
    moreover have "pairs h xs ! (i div 2) = (if even i then h (xs ! i) (xs ! ?s) else h (xs ! ?s) (xs ! i))"
      using half by (auto simp: nth_pairs even_iff_mod_2_eq_zero elim!: oddE)
    moreover have "xs \<noteq> []" using len by auto
    then have "peaks h xs = peaks h (pairs h xs) @ (if odd (length xs) then [last xs] else [])"
      by (subst peaks.simps) simp
    ultimately show ?thesis
      using ss(2-) peak_height_step [OF 1(2) False] by (simp add: nth_append)
  qed
qed

lemma climb_climb_path:
  assumes "k + length ss \<le> 32"
  shows "climb chk h idx k ss c = Some (climb_path h (unat idx div 2 ^ k) ss c)"
  using assms
proof (induction ss arbitrary: k c)
  case (Cons s ss)
  have "idx AND push_bit k 1 = 0 \<longleftrightarrow> \<not> bit idx k"
    using and_exp_eq_0_iff_not_bit [of idx k] by (simp add: push_bit_eq_mult)
  also have "\<dots> \<longleftrightarrow> even (unat idx div 2 ^ k)"
    using bit_iff_odd [of "unat idx" k] Cons.prems by (simp add: bit_unsigned_iff)
  finally have bit: "idx AND push_bit k 1 = 0 \<longleftrightarrow> even (unat idx div 2 ^ k)" .
  have "unat idx div 2 ^ Suc k = unat idx div 2 ^ k div 2"
    by (simp only: power_Suc2 div_mult2_eq)
  then show ?case
    using Cons bit by (simp add: one_shl32_def del: power_Suc)
qed simp

lemma climb_path_mod: "climb_path h (i mod 2 ^ length ss) ss c = climb_path h i ss c"
proof (induction ss arbitrary: i c)
  case (Cons s ss)
  have "i mod 2 ^ Suc (length ss) div 2 = i div 2 mod 2 ^ length ss"
    by (simp add: mod_mult2_eq)
  moreover have "even (i mod 2 ^ Suc (length ss)) = even i" by (intro dvd_mod_iff) simp
  ultimately show ?case using Cons by (simp del: power_Suc)
qed simp

lemma get_helpers_from_index_eq:
  assumes "unat index < length xs" "length xs < 2 ^ 32"
  shows "\<exists>internal. get_helpers_from_index (levels h xs) index =
      Some (peak_index (length xs) (unat index), internal) \<and>
    unat internal = unat index mod 2 ^ peak_height (length xs) (unat index) \<and>
    peak_height (length xs) (unat index) < 32"
proof -
  define n where "n = length xs"
  define x where "x = (word_of_nat n :: u32) XOR index"
  define d where "d = peak_height n (unat index)"
  have un: "unat (word_of_nat n :: u32) = n" using assms by (simp add: n_def unat_of_nat)
  have ux: "unat x = n XOR unat index" by (simp add: x_def unsigned_xor_eq un)
  have pos: "0 < x"
    using assms(1) xor_eq_0_iff [of n "unat index"]
    by (simp add: word_less_nat_alt ux n_def)
  have npos: "0 < (word_of_nat n :: u32)"
  proof -
    have "0 < n" using assms(1) unfolding n_def by linarith
    then show ?thesis by (simp add: word_less_nat_alt un)
  qed
  have d: "d = bit_length (unat x) - 1" by (simp add: d_def peak_height_def ux)
  have d32: "d < 32" using leading_zeros32_eq(2,3) [OF pos] by (simp add: d)
  have "checked_sub 31 (leading_zeros32 x) = Some d"
    using leading_zeros32_eq [OF pos] by (simp add: d)
  moreover have "checked_sub 31 (leading_zeros32 (word_of_nat n)) = Some (bit_length n - 1)"
    using leading_zeros32_eq [OF npos] by (simp add: un)
  moreover have "Suc (bit_length n - 1) = bit_length n"
    using leading_zeros32_eq(2) [OF npos] by (simp add: un)
  moreover have "(n AND push_bit j 1 \<noteq> 0) = bit n j" for j
    using and_exp_eq_0_iff_not_bit [of n j] by (simp add: push_bit_eq_mult)
  ultimately have "get_helpers_from_index (levels h xs) index =
      Some (peak_index n (unat index), index AND (push_bit d 1 - 1))"
    by (simp add: get_helpers_from_index_def Let_def x_def [symmetric] n_def [symmetric]
        peak_index_def d_def [symmetric] del: upt_Suc)
  moreover have "unat (index AND (push_bit d 1 - 1)) = unat index mod 2 ^ d"
    by (simp only: push_bit_of_1 mask_eq_exp_minus_1 [symmetric] take_bit_eq_mask [symmetric]
        unsigned_take_bit_eq) (simp only: take_bit_eq_mod)
  ultimately show ?thesis using d32 by (simp add: n_def d_def)
qed

text \<open>What the native side generates for a leaf, and what it evaluates to.\<close>

lemma generate_proof_levels:
  assumes "unat index < length xs" "length xs < 2 ^ 32"
  shows "\<exists>p. generate_proof (levels (hash_pair sha) xs) index = Some (xs ! unat index, p) \<and>
    subroot_idx p < length (peaks (hash_pair sha) xs) \<and>
    get_subroot chk sha p (xs ! unat index) = Some (peaks (hash_pair sha) xs ! subroot_idx p)"
proof -
  obtain internal where int: "get_helpers_from_index (levels (hash_pair sha) xs) index =
      Some (peak_index (length xs) (unat index), internal)"
      "unat internal = unat index mod 2 ^ peak_height (length xs) (unat index)"
      "peak_height (length xs) (unat index) < 32"
    using get_helpers_from_index_eq [OF assms] by blast
  obtain ss where ss: "proof_loop (levels (hash_pair sha) xs) (unat index) = Some ss"
      "length ss = peak_height (length xs) (unat index)"
      "peak_index (length xs) (unat index) < length (peaks (hash_pair sha) xs)"
      "climb_path (hash_pair sha) (unat index) ss (xs ! unat index) =
        peaks (hash_pair sha) xs ! peak_index (length xs) (unat index)"
    using proof_loop_levels [OF assms(1)] by blast
  let ?p = "\<lparr>subroot_idx = peak_index (length xs) (unat index), internal_idx = internal,
    inclusion_proof = ss\<rparr>"
  have "xs \<noteq> []" using assms(1) by (cases xs) simp_all
  then have "generate_proof (levels (hash_pair sha) xs) index = Some (xs ! unat index, ?p)"
    using assms(1) int(1) ss(1) by (simp add: generate_proof_def)
  moreover have "get_subroot chk sha ?p (xs ! unat index) =
      Some (peaks (hash_pair sha) xs ! peak_index (length xs) (unat index))"
    using climb_climb_path [of 0 ss] climb_path_mod [of _ "unat index" ss] int(2,3) ss
    by (simp add: get_subroot_def)
  ultimately show ?thesis using ss(3) by auto
qed

section \<open>Soundness of verification\<close>

text \<open>The pairs hashed by the forest and by a climb.\<close>

fun row_pairs :: "'a list \<Rightarrow> ('a \<times> 'a) list" where
  "row_pairs (x # y # xs) = (x, y) # row_pairs xs"
| "row_pairs _ = []"

definition forest_pairs :: "('a \<Rightarrow> 'a \<Rightarrow> 'a) \<Rightarrow> 'a list \<Rightarrow> ('a \<times> 'a) list" where
  "forest_pairs h xs = concat (map row_pairs (levels h xs))"

fun climb_pairs :: "('a \<Rightarrow> 'a \<Rightarrow> 'a) \<Rightarrow> nat \<Rightarrow> 'a list \<Rightarrow> 'a \<Rightarrow> ('a \<times> 'a) list" where
  "climb_pairs h i [] c = []"
| "climb_pairs h i (s # ss) c = (let p = (if even i then (c, s) else (s, c)) in
     p # climb_pairs h (i div 2) ss (h (fst p) (snd p)))"

definition collision_free :: "('a \<Rightarrow> 'a \<Rightarrow> 'a) \<Rightarrow> ('a \<times> 'a) list \<Rightarrow> ('a \<times> 'a) list \<Rightarrow> bool" where
  "collision_free h ps qs \<longleftrightarrow>
     list_all (\<lambda>p. list_all (\<lambda>q. h (fst p) (snd p) = h (fst q) (snd q) \<longrightarrow> p = q) qs) ps"

fun forest_row :: "('a \<Rightarrow> 'a \<Rightarrow> 'a) \<Rightarrow> nat \<Rightarrow> 'a list \<Rightarrow> 'a list" where
  "forest_row h 0 xs = xs"
| "forest_row h (Suc k) xs = forest_row h k (pairs h xs)"

lemma length_forest_row [simp]: "length (forest_row h k xs) = length xs div 2 ^ k"
  by (induction k arbitrary: xs) (simp_all add: div_mult2_eq)

lemma row_pairs_nth:
  "i < length xs div 2 \<Longrightarrow> (xs ! (2 * i), xs ! (2 * i + 1)) \<in> set (row_pairs xs)"
proof (induction xs arbitrary: i rule: row_pairs.induct)
  case (1 x y xs)
  then show ?case by (cases i) auto
qed simp_all

lemma forest_pairs_simps:
  "set (row_pairs xs) \<subseteq> set (forest_pairs h xs)"
  "2 \<le> length xs \<Longrightarrow> set (forest_pairs h (pairs h xs)) \<subseteq> set (forest_pairs h xs)"
  by (auto simp: forest_pairs_def levels.simps [of h xs])

lemma climb_path_sound:
  assumes "climb_path h i ss c = forest_row h (length ss) xs ! (i div 2 ^ length ss)"
    and "i div 2 ^ length ss < length xs div 2 ^ length ss"
    and "collision_free h (climb_pairs h i ss c) (forest_pairs h xs)"
  shows "i < length xs \<and> c = xs ! i"
  using assms
proof (induction ss arbitrary: i c xs)
  case (Cons s ss)
  let ?p = "if even i then (c, s) else (s, c)"
  have half: "i div 2 div 2 ^ length ss < length (pairs h xs) div 2 ^ length ss"
    using Cons.prems(2) by (simp add: div_mult2_eq)
  then have lt: "i div 2 < length xs div 2"
    by (metis div_le_mono leD length_pairs linorder_le_less_linear)
  have two: "2 \<le> length xs" using lt by linarith
  have free: "collision_free h (?p # climb_pairs h (i div 2) ss (h (fst ?p) (snd ?p))) (forest_pairs h xs)"
    using Cons.prems(3) by (simp add: Let_def)
  have "collision_free h (climb_pairs h (i div 2) ss (h (fst ?p) (snd ?p))) (forest_pairs h (pairs h xs))"
    using free forest_pairs_simps(2) [OF two, of h] unfolding collision_free_def list_all_iff
    by (meson in_mono list.set_intros(2))
  moreover have "climb_path h (i div 2) ss (h (fst ?p) (snd ?p)) =
      forest_row h (length ss) (pairs h xs) ! (i div 2 div 2 ^ length ss)"
    using Cons.prems(1) by (simp add: div_mult2_eq split: if_splits)
  ultimately have "h (fst ?p) (snd ?p) = pairs h xs ! (i div 2)"
    using Cons.IH half by blast
  then have "h (fst ?p) (snd ?p) = h (xs ! (2 * (i div 2))) (xs ! (2 * (i div 2) + 1))"
    using nth_pairs [OF lt] by simp
  moreover have "(xs ! (2 * (i div 2)), xs ! (2 * (i div 2) + 1)) \<in> set (forest_pairs h xs)"
    using row_pairs_nth [OF lt] forest_pairs_simps(1) [of xs h] by blast
  ultimately have p: "?p = (xs ! (2 * (i div 2)), xs ! (2 * (i div 2) + 1))"
    using free by (auto simp: collision_free_def list_all_iff split del: if_split)
  show ?case
  proof (cases "even i")
    case True
    then show ?thesis using p lt by (auto elim!: evenE)
  next
    case False
    then show ?thesis using p lt by (auto elim!: oddE)
  qed
qed simp

definition peaks_above :: "nat \<Rightarrow> nat \<Rightarrow> nat" where
  "peaks_above n d = length (filter (bit n) [Suc d..<bit_length n])"

lemma peak_at_height:
  assumes "bit (length xs) d"
  shows "peaks_above (length xs) d < length (peaks h xs) \<and>
    peaks h xs ! peaks_above (length xs) d = forest_row h d xs ! (length xs div 2 ^ d - 1)"
  using assms
proof (induction d arbitrary: xs)
  case 0
  then have ne: "xs \<noteq> []" and odd: "odd (length xs)" by (auto simp: bit_0)
  then have "peaks_above (length xs) 0 = length (peaks h (pairs h xs))"
    by (simp add: peaks_above_def length_peaks bit_length_pos [of "length xs"] length_filter_bit_Suc del: upt_Suc)
  then show ?case using ne odd by (simp add: peaks.simps [of h xs] last_conv_nth)
next
  case (Suc d)
  then have ne: "xs \<noteq> []" by auto
  have "bit (length (pairs h xs)) d" using Suc.prems by (simp add: bit_Suc)
  moreover have "peaks_above (length xs) (Suc d) = peaks_above (length (pairs h xs)) d"
    using ne by (simp add: peaks_above_def bit_length_pos [of "length xs"] length_filter_bit_Suc del: upt_Suc)
  ultimately show ?case
    using Suc.IH [of "pairs h xs"] ne by (simp add: peaks.simps [of h xs] nth_append div_mult2_eq)
qed

section \<open>Properties\<close>

text \<open>
  C34. The range kept inside the circuit and the one kept outside have the same subroots after
  the same appends, whatever the leaves and however many below \<open>2^32\<close>; neither panics, with
  or without overflow checks.
\<close>

theorem mmr_guest_native_agree:
  assumes "length xs < 2 ^ 32"
  shows "\<exists>g n. fold_option (guest_append chk sha) guest_new xs = Some g \<and>
    fold_option (native_append sha) native_new xs = Some n \<and> subroots g = get_subroots n"
  using guest.append_all_roots [OF assms, of chk sha] native.append_all_roots [OF assms, of sha]
  by auto

theorem mmr_guest_native_agree_witness:
  "\<exists>g n. fold_option (guest_append True id) guest_new [[1], [2], [3]] = Some g \<and>
    fold_option (native_append id) native_new [[1], [2], [3]] = Some n \<and> subroots g = get_subroots n"
  by (rule mmr_guest_native_agree) simp

text \<open>
  C30. For every leaf of a range built by appending, \<open>generate_proof\<close> on the native side returns
  the leaf and a proof that both verifiers accept.
\<close>

theorem mmr_proofs_accepted:
  assumes "length xs < 2 ^ 32" "unat index < length xs"
  shows "\<exists>g n p. fold_option (guest_append chk sha) guest_new xs = Some g \<and>
    fold_option (native_append sha) native_new xs = Some n \<and>
    generate_proof n index = Some (xs ! unat index, p) \<and>
    native_verify_proof chk sha n (xs ! unat index) p = Some True \<and>
    guest_verify_proof chk sha g (xs ! unat index) p = Some True"
proof -
  obtain g where g: "fold_option (guest_append chk sha) guest_new xs = Some g" "subroots g = peaks (hash_pair sha) xs"
    using guest.append_all_roots [OF assms(1)] by blast
  have n: "fold_option (native_append sha) native_new xs = Some (levels (hash_pair sha) xs)"
    using native.append_all_represents [OF native.represents_empty, of xs sha] assms(1) by auto
  obtain p where p: "generate_proof (levels (hash_pair sha) xs) index = Some (xs ! unat index, p)"
      "subroot_idx p < length (peaks (hash_pair sha) xs)"
      "get_subroot chk sha p (xs ! unat index) = Some (peaks (hash_pair sha) xs ! subroot_idx p)"
    using generate_proof_levels [OF assms(2,1)] by blast
  have "native_verify_proof chk sha (levels (hash_pair sha) xs) (xs ! unat index) p = Some True"
    using p by (simp add: native_verify_proof_def get_subroots_levels)
  moreover have "guest_verify_proof chk sha g (xs ! unat index) p = Some True"
    using p g by (simp add: guest_verify_proof_def get_subroot_def)
  ultimately show ?thesis using g n p by blast
qed

theorem mmr_proofs_accepted_witness:
  "\<exists>g n p. fold_option (guest_append True id) guest_new [[1], [2], [3]] = Some g \<and>
    fold_option (native_append id) native_new [[1], [2], [3]] = Some n \<and>
    generate_proof n 1 = Some ([2], p) \<and>
    native_verify_proof True id n [2] p = Some True \<and>
    guest_verify_proof True id g [2] p = Some True"
  using mmr_proofs_accepted [of "[[1], [2], [3]]" 1 True id] by simp

text \<open>
  C31. The verifier inside the circuit accepts nothing but leaves: when the range represents the
  leaves, the proof has the height of the subroot it names, and the pairs hashed on the way
  up collide with no other pair of the forest, an accepted value is one of the leaves.
\<close>

theorem guest_verify_proof_sound:
  assumes "guest_represents sha m xs"
    and "guest_verify_proof chk sha m leaf p = Some True"
    and "length (inclusion_proof p) < 32"
    and "bit (length xs) (length (inclusion_proof p))"
    and "subroot_idx p = peaks_above (length xs) (length (inclusion_proof p))"
    and "collision_free (hash_pair sha)
      (climb_pairs (hash_pair sha) (unat (internal_idx p)) (inclusion_proof p) leaf)
      (forest_pairs (hash_pair sha) xs)"
  shows "leaf \<in> set xs"
proof -
  let ?h = "hash_pair sha" and ?ss = "inclusion_proof p"
  define d where "d = length ?ss"
  define i where "i = (length xs div 2 ^ d - 1) * 2 ^ d + unat (internal_idx p) mod 2 ^ d"
  have i: "i div 2 ^ d = length xs div 2 ^ d - 1" "i mod 2 ^ d = unat (internal_idx p) mod 2 ^ d"
    by (simp_all add: i_def)
  have pos: "0 < length xs div 2 ^ d"
    using assms(4) by (auto simp: d_def bit_iff_odd intro: Nat.gr0I)
  have "climb_path ?h (unat (internal_idx p)) ?ss leaf = peaks ?h xs ! subroot_idx p"
    using assms(1,2,3) climb_climb_path [of 0 ?ss]
    by (simp add: guest_verify_proof_def guest_represents_def)
  moreover have "climb_path ?h i ?ss leaf = climb_path ?h (unat (internal_idx p)) ?ss leaf"
    using climb_path_mod [of ?h i ?ss] climb_path_mod [of ?h "unat (internal_idx p)" ?ss] i(2)
    by (simp add: d_def)
  moreover have "climb_pairs ?h j (ss :: digest list) c = climb_pairs ?h (j mod 2 ^ length ss) ss c" for j ss c
  proof (induction ss arbitrary: j c)
    case (Cons s ss)
    have "j mod 2 ^ Suc (length ss) div 2 = j div 2 mod 2 ^ length ss"
      by (simp add: mod_mult2_eq)
    moreover have "even (j mod 2 ^ Suc (length ss)) = even j" by (intro dvd_mod_iff) simp
    moreover have "climb_pairs ?h (j div 2) ss x = climb_pairs ?h (j div 2 mod 2 ^ length ss) ss x" for x
      by (rule Cons.IH)
    ultimately show ?case by (simp add: Let_def del: power_Suc)
  qed simp
  then have "climb_pairs ?h i ?ss leaf = climb_pairs ?h (unat (internal_idx p)) ?ss leaf"
    using i(2) by (metis d_def)
  ultimately have "i < length xs \<and> leaf = xs ! i"
    using assms(4,5,6) peak_at_height [of xs d ?h] i(1) pos
    by (intro climb_path_sound [of ?h i ?ss leaf xs]) (simp_all add: d_def [symmetric])
  then show ?thesis by simp
qed

theorem guest_verify_proof_sound_witness:
  "[1] \<in> set [[1], [2], [3 :: 8 word]]"
  by (rule guest_verify_proof_sound [of id "\<lparr>subroots = [[1, 2], [3]], size = 3\<rparr>" _ True _
        "\<lparr>subroot_idx = 0, internal_idx = 0, inclusion_proof = [[2]]\<rparr>"])
    (simp_all add: guest_represents_def guest_verify_proof_def one_shl32_def hash_pair_def
      peaks.simps peaks_above_def bit_length.simps collision_free_def forest_pairs_def
      levels.simps bit_iff_odd Let_def)

end
