(* ===== verification/Header_Chain.thy ===== *)
theory Header_Chain
  imports Mmr
begin

text \<open>
  \<open>header-chain/src/header_chain.rs\<close> and \<open>lib.rs\<close>: the circuit that verifies a chain of
  Bitcoin headers.  A 256-bit integer of the code is a \<open>256 word\<close>, a 32-byte array a list of
  bytes, and a panic is \<open>None\<close>.  SHA-256 and the proof verification of the zero knowledge
  machine are arguments.
\<close>

type_synonym u256 = "256 word"

section \<open>Bytes of integers\<close>

definition be_value :: "8 word list \<Rightarrow> nat" where
  "be_value bs = foldl (\<lambda>a b. a * 256 + unat b) 0 bs"

definition u256_from_be_bytes :: "digest \<Rightarrow> u256" where
  "u256_from_be_bytes bs = word_of_nat (be_value bs)"

definition u256_to_be_bytes :: "u256 \<Rightarrow> digest" where
  "u256_to_be_bytes w = map (\<lambda>i. ucast (drop_bit (8 * (31 - i)) w)) [0..<32]"

definition u32_to_le_bytes :: "u32 \<Rightarrow> digest" where
  "u32_to_le_bytes w = map (\<lambda>i. ucast (drop_bit (8 * i) w)) [0..<4]"

section \<open>Networks\<close>

datatype network = Mainnet | Testnet4 | Signet | Regtest

record network_constants =
  max_bits :: u32
  max_target :: u256
  max_target_bytes :: digest

definition network_constants_of :: "network \<Rightarrow> network_constants" where
  "network_constants_of net = (case net of
     Signet \<Rightarrow> \<lparr>max_bits = 0x1E0377AE, max_target = push_bit 216 0x0377AE,
       max_target_bytes = [0, 0, 3, 119, 174] @ replicate 27 0\<rparr>
   | Regtest \<Rightarrow> \<lparr>max_bits = 0x207FFFFF, max_target = push_bit 232 0x7FFFFF,
       max_target_bytes = [127, 255, 255] @ replicate 29 0\<rparr>
   | Testnet4 \<Rightarrow> \<lparr>max_bits = 0x1D00FFFF, max_target = push_bit 208 0xFFFF,
       max_target_bytes = [0, 0, 0, 0, 255, 255] @ replicate 26 0\<rparr>
   | Mainnet \<Rightarrow> \<lparr>max_bits = 0x1D00FFFF, max_target = push_bit 208 0xFFFF,
       max_target_bytes = [0, 0, 0, 0, 255, 255] @ replicate 26 0\<rparr>)"

definition minimum_work_testnet :: u256 where
  "minimum_work_testnet = 0x100010001"

definition expected_epoch_timespan :: u32 where
  "expected_epoch_timespan = 60 * 60 * 24 * 14"

definition blocks_per_epoch :: u32 where
  "blocks_per_epoch = 2016"

section \<open>Headers and states\<close>

record circuit_block_header =
  version :: "32 word"
  prev_block_hash :: digest
  merkle_root :: digest
  time :: u32
  bits :: u32
  nonce :: u32

definition compute_block_hash :: "(digest \<Rightarrow> digest) \<Rightarrow> circuit_block_header \<Rightarrow> digest" where
  "compute_block_hash sha b =
     sha (sha (u32_to_le_bytes (version b) @ prev_block_hash b @ merkle_root b
       @ u32_to_le_bytes (time b) @ u32_to_le_bytes (bits b) @ u32_to_le_bytes (nonce b)))"

record chain_state =
  block_height :: u32
  total_work :: digest
  best_block_hash :: digest
  current_target_bits :: u32
  epoch_start_time :: u32
  prev_11_timestamps :: "u32 list"
  block_hashes_mmr :: mmr_guest

definition chain_state_new :: "network \<Rightarrow> chain_state" where
  "chain_state_new net = \<lparr>block_height = - 1, total_work = replicate 32 0,
     best_block_hash = replicate 32 0, current_target_bits = max_bits (network_constants_of net),
     epoch_start_time = 0, prev_11_timestamps = replicate 11 0, block_hashes_mmr = guest_new\<rparr>"

section \<open>Difficulty\<close>

definition median :: "u32 list \<Rightarrow> u32" where
  "median arr = sort arr ! 5"

definition validate_timestamp :: "u32 \<Rightarrow> u32 list \<Rightarrow> bool" where
  "validate_timestamp block_time prev = (median prev < block_time)"

definition bits_to_target :: "u32 \<Rightarrow> digest" where
  "bits_to_target b =
     (let size = unat (drop_bit 24 b);
          mantissa = b AND 0x00FFFFFF;
          target = (if size \<le> 3 then ucast (drop_bit (8 * (3 - size)) mantissa)
            else push_bit (8 * (size - 3)) (ucast mantissa))
      in u256_to_be_bytes target)"

definition target_to_bits :: "digest \<Rightarrow> u32 option" where
  "target_to_bits target =
     (let target_bits = bit_length (unat (u256_from_be_bytes target));
          size = (263 - target_bits) div 8
      in if size = 0 \<or> length target \<le> size + 1 then None
         else Some (word_of_nat (be_value
           [word_of_nat (33 - size), target ! (size - 1), target ! size, target ! (size + 1)])))"

definition calculate_new_difficulty :: "bool \<Rightarrow> network \<Rightarrow> u32 \<Rightarrow> u32 \<Rightarrow> u32 \<Rightarrow> digest option" where
  "calculate_new_difficulty chk net start last_timestamp current_target = do {
     span \<leftarrow> sub32 chk last_timestamp start;
     let actual_timespan =
       (if span < expected_epoch_timespan div 4 then expected_epoch_timespan div 4
        else if expected_epoch_timespan * 4 < span then expected_epoch_timespan * 4
        else span);
     let new_target = u256_from_be_bytes (bits_to_target current_target)
       * ucast actual_timespan div ucast expected_epoch_timespan;
     let new_target = (if max_target (network_constants_of net) < new_target
       then max_target (network_constants_of net) else new_target);
     Some (u256_to_be_bytes new_target)
   }"

text \<open>The hash is stored little-endian, the target big-endian.\<close>

fun check_hash_loop :: "digest \<Rightarrow> digest \<Rightarrow> unit option" where
  "check_hash_loop (h # hs) (t # ts) =
     (if h < t then Some () else if t < h then None else check_hash_loop hs ts)"
| "check_hash_loop _ _ = Some ()"

definition check_hash_valid :: "digest \<Rightarrow> digest \<Rightarrow> unit option" where
  "check_hash_valid hash target_bytes = check_hash_loop (rev hash) target_bytes"

definition calculate_work :: "digest \<Rightarrow> u256" where
  "calculate_work target =
     (let t = u256_from_be_bytes target;
          target_plus_one = (if t = - 1 then t else t + 1)
      in (- 1) div target_plus_one)"

section \<open>Applying blocks\<close>

text \<open>The chain state together with the local variables of the loop.\<close>

record apply_vars =
  chain :: chain_state
  current_target_bytes :: digest
  current_work :: u256
  last_block_time :: u32

definition apply_init :: "network \<Rightarrow> chain_state \<Rightarrow> apply_vars" where
  "apply_init net st = \<lparr>chain = st,
     current_target_bytes =
       (if net = Regtest then u256_to_be_bytes (max_target (network_constants_of net))
        else bits_to_target (current_target_bits st)),
     current_work = u256_from_be_bytes (total_work st),
     last_block_time =
       (if net = Testnet4 then
          if block_height st = - 1 then 0 else prev_11_timestamps st ! (unat (block_height st) mod 11)
        else 0)\<rparr>"

text \<open>The target, the bits and the work a block at a height is held to.\<close>

definition block_rules :: "bool \<Rightarrow> network \<Rightarrow> apply_vars \<Rightarrow> u32 \<Rightarrow> u32 \<Rightarrow> (digest \<times> u32 \<times> u256) option" where
  "block_rules chk net v height block_time =
     (let nc = network_constants_of net;
          real = (current_target_bytes v, current_target_bits (chain v), calculate_work (current_target_bytes v))
      in if net = Testnet4 then do {
          limit \<leftarrow> add32 chk (last_block_time v) 1200;
          Some (if limit < block_time then
                  if height mod blocks_per_epoch = 0 then real
                  else (max_target_bytes nc, max_bits nc, minimum_work_testnet)
                else real)
        } else Some real)"

text \<open>The end of the loop body: a new target after the last block of an epoch.\<close>

definition retarget :: "bool \<Rightarrow> network \<Rightarrow> u32 \<Rightarrow> apply_vars \<Rightarrow> apply_vars option" where
  "retarget chk net block_time v =
     (if net \<noteq> Regtest \<and> block_height (chain v) mod blocks_per_epoch = blocks_per_epoch - 1 then do {
       new_target \<leftarrow> calculate_new_difficulty chk net (epoch_start_time (chain v)) block_time
         (current_target_bits (chain v));
       new_bits \<leftarrow> target_to_bits new_target;
       Some (v\<lparr>chain := (chain v)\<lparr>current_target_bits := new_bits\<rparr>, current_target_bytes := new_target\<rparr>)
     } else Some v)"

definition apply_block :: "bool \<Rightarrow> network \<Rightarrow> (digest \<Rightarrow> digest) \<Rightarrow> apply_vars \<Rightarrow> circuit_block_header \<Rightarrow> apply_vars option" where
  "apply_block chk net sha v b = do {
     let st = chain v;
     let height = block_height st + 1;
     (target_to_use, expected_bits, work_to_add) \<leftarrow> block_rules chk net v height (time b);
     let new_block_hash = compute_block_hash sha b;
     rust_assert (prev_block_hash b = best_block_hash st);
     rust_assert (bits b = (if net = Regtest then max_bits (network_constants_of net) else expected_bits));
     check_hash_valid new_block_hash target_to_use;
     rust_assert (validate_timestamp (time b) (prev_11_timestamps st));
     mmr \<leftarrow> guest_append chk sha (block_hashes_mmr st) new_block_hash;
     retarget chk net (time b)
       (v\<lparr>chain := st\<lparr>block_height := height, block_hashes_mmr := mmr, best_block_hash := new_block_hash,
            epoch_start_time :=
              (if net \<noteq> Regtest \<and> height mod blocks_per_epoch = 0 then time b else epoch_start_time st),
            prev_11_timestamps := (prev_11_timestamps st)[unat height mod 11 := time b]\<rparr>,
          current_work := current_work v + work_to_add,
          last_block_time := (if net = Testnet4 then time b else last_block_time v)\<rparr>)
   }"

definition apply_blocks :: "bool \<Rightarrow> network \<Rightarrow> (digest \<Rightarrow> digest) \<Rightarrow> chain_state \<Rightarrow> circuit_block_header list \<Rightarrow> chain_state option" where
  "apply_blocks chk net sha st headers = do {
     v \<leftarrow> fold_option (apply_block chk net sha) (apply_init net st) headers;
     Some ((chain v)\<lparr>total_work := u256_to_be_bytes (current_work v)\<rparr>)
   }"

section \<open>The circuit\<close>

record circuit_output =
  method_id :: "u32 list"
  out_chain_state :: chain_state

datatype prev_proof_type = GenesisBlock | PrevProof circuit_output

record circuit_input =
  in_method_id :: "u32 list"
  prev_proof :: prev_proof_type
  block_headers :: "circuit_block_header list"

text \<open>\<open>verify\<close> is the verification of an earlier proof by the machine; it panics on failure.\<close>

definition header_chain_circuit :: "bool \<Rightarrow> network \<Rightarrow> (digest \<Rightarrow> digest) \<Rightarrow> (u32 list \<Rightarrow> circuit_output \<Rightarrow> bool) \<Rightarrow> circuit_input \<Rightarrow> circuit_output option" where
  "header_chain_circuit chk net sha verify input = do {
     st \<leftarrow> (case prev_proof input of
         GenesisBlock \<Rightarrow> Some (chain_state_new net)
       | PrevProof p \<Rightarrow> do {
           rust_assert (method_id p = in_method_id input);
           rust_assert (verify (in_method_id input) p);
           Some (out_chain_state p)
         });
     st' \<leftarrow> apply_blocks chk net sha st (block_headers input);
     Some \<lparr>method_id = in_method_id input, out_chain_state = st'\<rparr>
   }"

section \<open>Values of byte strings\<close>

definition digits_be :: "nat \<Rightarrow> nat \<Rightarrow> digest" where
  "digits_be k n = map (\<lambda>i. word_of_nat (n div 256 ^ (k - Suc i))) [0..<k]"

lemma length_digits_be [simp]: "length (digits_be k n) = k"
  by (simp add: digits_be_def)

lemma be_value_Nil [simp]: "be_value [] = 0"
  by (simp add: be_value_def)

lemma foldl_digits: "foldl (\<lambda>a b. a * 256 + unat b) c bs = c * 256 ^ length bs + be_value bs" for bs :: digest
proof (induction bs arbitrary: c)
  case (Cons b bs)
  show ?case
    unfolding be_value_def foldl.simps Cons.IH [of "c * 256 + unat b"] Cons.IH [of "0 * 256 + unat b"]
    by (simp add: algebra_simps)
qed (simp add: be_value_def)

lemma be_value_Cons [simp]: "be_value (b # bs) = unat b * 256 ^ length bs + be_value bs"
  using foldl_digits [of "unat b" bs] by (simp add: be_value_def)

lemma be_value_less: "be_value bs < 256 ^ length bs"
proof (induction bs)
  case (Cons b bs)
  have "unat b * 256 ^ length bs \<le> 255 * 256 ^ length bs"
    using unsigned_less [of b, where ?'a = nat] by (intro mult_right_mono) simp_all
  then have "unat b * 256 ^ length bs + be_value bs < 255 * 256 ^ length bs + 256 ^ length bs"
    using Cons by linarith
  then show ?case by simp
qed simp

lemma digits_be_Suc: "digits_be (Suc k) n = word_of_nat (n div 256 ^ k) # digits_be k n"
proof -
  have "[0..<Suc k] = 0 # map Suc [0..<k]" by (simp add: map_Suc_upt upt_conv_Cons del: upt_Suc)
  then show ?thesis by (simp add: digits_be_def comp_def del: upt_Suc)
qed

lemma digits_be_0 [simp]: "digits_be 0 n = []"
  by (simp add: digits_be_def)

lemma be_value_digits_be [simp]: "be_value (digits_be k n) = n mod 256 ^ k"
proof (induction k)
  case (Suc k)
  have "n mod (256 ^ k * 256) = 256 ^ k * (n div 256 ^ k mod 256) + n mod 256 ^ k"
    by (rule mod_mult2_eq)
  then show ?case using Suc by (simp add: digits_be_Suc unat_of_nat mult.commute)
qed simp

lemma digits_be_mod: "digits_be k (c * 256 ^ k + n) = digits_be k n"
proof (induction k arbitrary: c)
  case (Suc k)
  have e: "c * 256 ^ Suc k + n = c * 256 * 256 ^ k + n" by simp
  have "(c * 256 * 256 ^ k + n) div 256 ^ k = c * 256 + n div 256 ^ k" by simp
  moreover have "(word_of_nat (c * 256 + m) :: 8 word) = word_of_nat m" for m
    unfolding word_of_nat_eq_iff take_bit_eq_mod by simp
  ultimately show ?case unfolding e digits_be_Suc using Suc [of "c * 256"] by simp
qed simp

lemma digits_be_be_value: "digits_be (length bs) (be_value bs) = bs"
proof (induction bs)
  case (Cons b bs)
  have "(unat b * 256 ^ length bs + be_value bs) div 256 ^ length bs = unat b"
    using be_value_less [of bs] by simp
  then show ?case
    using Cons digits_be_mod [of "length bs" "unat b" "be_value bs"] by (simp add: digits_be_Suc)
qed simp

lemma digits_be_nth: "i < k \<Longrightarrow> digits_be k n ! i = word_of_nat (n div 256 ^ (k - Suc i))"
  by (simp add: digits_be_def)

lemma u256_to_be_bytes_digits: "u256_to_be_bytes w = digits_be 32 (unat w)"
proof -
  have "ucast (drop_bit (8 * j) w) = (word_of_nat (unat w div 256 ^ j) :: 8 word)" for j
  proof -
    have "(256 :: nat) ^ j = 2 ^ (8 * j)" by (simp add: power_mult)
    moreover have "unat (drop_bit (8 * j) w) = unat w div 2 ^ (8 * j)"
      by (simp only: unat_drop_bit_eq) (simp only: drop_bit_eq_div)
    ultimately show ?thesis by (metis of_nat_unat)
  qed
  then show ?thesis by (simp add: u256_to_be_bytes_def digits_be_def)
qed

lemma length_u256_to_be_bytes [simp]: "length (u256_to_be_bytes w) = 32"
  by (simp add: u256_to_be_bytes_digits)

lemma be_value_u256 [simp]: "be_value (u256_to_be_bytes w) = unat w"
  using unsigned_less [of w, where ?'a = nat] by (simp add: u256_to_be_bytes_digits)

lemma unat_u256_from_be_bytes: "length bs = 32 \<Longrightarrow> unat (u256_from_be_bytes bs) = be_value bs"
  using be_value_less [of bs] by (simp add: u256_from_be_bytes_def unat_of_nat)

lemma u256_bytes_roundtrip [simp]:
  "u256_from_be_bytes (u256_to_be_bytes w) = w"
  "length bs = 32 \<Longrightarrow> u256_to_be_bytes (u256_from_be_bytes bs) = bs"
proof -
  show "u256_from_be_bytes (u256_to_be_bytes w) = w"
    by (simp add: word_unat_eq_iff unat_u256_from_be_bytes)
  assume "length bs = 32"
  then show "u256_to_be_bytes (u256_from_be_bytes bs) = bs"
    using digits_be_be_value [of bs] by (simp add: u256_to_be_bytes_digits unat_u256_from_be_bytes)
qed

section \<open>Proof of work\<close>

lemma check_hash_loop_value:
  "length hs = length ts \<Longrightarrow>
   check_hash_loop hs ts = (if be_value hs \<le> be_value ts then Some () else None)"
proof (induction hs ts rule: check_hash_loop.induct)
  case (1 h hs t ts)
  have b: "be_value hs < 256 ^ length ts" "be_value ts < 256 ^ length ts"
    using be_value_less [of hs] be_value_less [of ts] 1(2) by simp_all
  have lt: "a * 256 ^ length ts + x < c * 256 ^ length ts + y"
    if "a < c" "x < 256 ^ length ts" for a c x y :: nat
  proof -
    have "Suc a * 256 ^ length ts \<le> c * 256 ^ length ts" using that(1) by (intro mult_right_mono) simp_all
    then show ?thesis using that(2) by simp
  qed
  consider "h < t" | "t < h" | "h = t" by (rule linorder_cases)
  then show ?case
  proof cases
    case 1
    then show ?thesis
      using lt [of "unat h" "unat t" "be_value hs" "be_value ts"] b \<open>length (h # hs) = length (t # ts)\<close>
      by (simp add: word_less_nat_alt)
  next
    case 2
    then show ?thesis
      using lt [of "unat t" "unat h" "be_value ts" "be_value hs"] b \<open>length (h # hs) = length (t # ts)\<close>
      by (simp add: word_less_nat_alt)
  next
    case 3
    then show ?thesis using 1 by simp
  qed
qed auto

text \<open>
  \<open>check_hash_valid\<close> decides the proof of work: on 32 bytes it returns exactly when the hash,
  read as a little-endian number, is at most the target, read as a big-endian number.
\<close>

theorem check_hash_valid_iff:
  assumes "length hash = 32" "length target = 32"
  shows "check_hash_valid hash target =
    (if be_value (rev hash) \<le> be_value target then Some () else None)"
  using check_hash_loop_value [of "rev hash" target] assms by (simp add: check_hash_valid_def)

theorem check_hash_valid_iff_witness:
  "check_hash_valid (replicate 32 7) (replicate 32 7) = Some ()"
  using check_hash_valid_iff [of "replicate 32 7" "replicate 32 7"] by simp

section \<open>Compact targets\<close>

lemma u32_fields:
  "unat (drop_bit 24 (b :: u32)) = unat b div 2 ^ 24"
  "unat (b AND 0x00FFFFFF) = unat b mod 2 ^ 24"
proof -
  show "unat (drop_bit 24 b) = unat b div 2 ^ 24"
    by (simp only: unat_drop_bit_eq) (simp only: drop_bit_eq_div)
  have "(0x00FFFFFF :: u32) = mask 24" by (simp add: mask_eq_exp_minus_1)
  then have "unat (b AND 0x00FFFFFF) = unat (take_bit 24 b)" by (simp only: take_bit_eq_mask)
  also have "\<dots> = unat b mod 2 ^ 24"
    by (simp only: unsigned_take_bit_eq) (simp only: take_bit_eq_mod)
  finally show "unat (b AND 0x00FFFFFF) = unat b mod 2 ^ 24" .
qed

text \<open>A compact target with exponent \<open>e\<close> and mantissa \<open>m\<close> stands for \<open>m * 256 ^ (e - 3)\<close>.\<close>

lemma be_value_bits_to_target:
  assumes e: "unat b div 2 ^ 24 = e" "3 \<le> e" "e \<le> 32" and m: "unat b mod 2 ^ 24 = m"
  shows "be_value (bits_to_target b) = m * 256 ^ (e - 3)" "length (bits_to_target b) = 32"
proof -
  have mb: "m < 2 ^ 24" using m by auto
  have uc: "unat (ucast (b AND 0x00FFFFFF) :: u256) = m"
    using u32_fields(2) [of b] m unsigned_less [of "b AND 0x00FFFFFF", where ?'a = nat]
    by (simp add: unsigned_ucast_eq take_bit_nat_eq_self)
  have "m * 2 ^ (8 * (e - 3)) < 2 ^ 24 * 2 ^ (8 * (e - 3))" using mb by simp
  also have "\<dots> = 2 ^ (24 + 8 * (e - 3))" by (simp only: power_add)
  also have "\<dots> \<le> 2 ^ 256" using e by (intro power_increasing) simp_all
  finally have bound: "m * 2 ^ (8 * (e - 3)) < 2 ^ 256" .
  have p: "(2 :: nat) ^ (8 * (e - 3)) = 256 ^ (e - 3)" by (simp add: power_mult)
  have shift: "unat (push_bit k (ucast (b AND 0x00FFFFFF)) :: u256) = m * 2 ^ k mod 2 ^ 256" for k
    by (simp only: unsigned_push_bit_eq uc) (simp add: push_bit_eq_mult take_bit_eq_mod)
  have "be_value (bits_to_target b) = m * 2 ^ (8 * (e - 3))"
  proof (cases "e = 3")
    case True
    then show ?thesis using e uc u32_fields(1) [of b] by (simp add: bits_to_target_def Let_def)
  next
    case False
    then show ?thesis
      using e shift [of "8 * (e - 3)"] bound u32_fields(1) [of b] by (simp add: bits_to_target_def Let_def)
  qed
  then show "be_value (bits_to_target b) = m * 256 ^ (e - 3)" by (simp only: p)
  show "length (bits_to_target b) = 32" by (simp add: bits_to_target_def Let_def)
qed

text \<open>The number a target compresses to: exponent and mantissa of its three leading bytes.\<close>

lemma mantissa_bounds:
  assumes "2 ^ 15 \<le> (t :: nat)" "t < 2 ^ 255"
  defines "sz \<equiv> (263 - bit_length t) div 8"
  shows "1 \<le> sz" "sz \<le> 30" "t div 256 ^ (30 - sz) < 2 ^ 23" "2 ^ 15 \<le> t div 256 ^ (30 - sz)"
proof -
  have L: "16 \<le> bit_length t" "bit_length t \<le> 255"
    using bit_length_le_iff [of t 15] bit_length_le_iff [of t 255] assms(1,2) by (simp_all add: not_le)
  show sz: "1 \<le> sz" "sz \<le> 30" unfolding sz_def using L by linarith+
  have t: "t < 2 ^ bit_length t" "2 ^ (bit_length t - 1) \<le> t"
    using bit_length_bounds [of t] assms(1) by auto
  have p: "(256 :: nat) ^ (30 - sz) = 2 ^ (8 * (30 - sz))" by (simp add: power_mult)
  have "t < 2 ^ (23 + 8 * (30 - sz))"
    using t(1) by (rule order.strict_trans2) (intro power_increasing, use L sz sz_def in linarith, simp)
  then show "t div 256 ^ (30 - sz) < 2 ^ 23"
    unfolding p by (simp only: power_add div_less_iff_less_mult zero_less_power zero_less_numeral)
  have "2 ^ (15 + 8 * (30 - sz)) \<le> t"
    using t(2) by (rule order.trans [rotated]) (intro power_increasing, use L sz sz_def in linarith, simp)
  then show "2 ^ 15 \<le> t div 256 ^ (30 - sz)"
    unfolding p by (simp only: power_add less_eq_div_iff_mult_less_eq zero_less_power zero_less_numeral)
qed

lemma be_value_four:
  "be_value [a, b, c, d] = unat a * 2 ^ 24 + (unat b * 65536 + unat c * 256 + unat d)"
  by simp

lemma three_bytes:
  "x < 2 ^ 24 \<Longrightarrow> x div 256 div 256 mod 256 * 65536 + x div 256 mod 256 * 256 + x mod 256 = (x :: nat)"
proof -
  assume "x < 2 ^ 24"
  then have "x div 256 div 256 < 256" by (simp add: div_less_iff_less_mult flip: div_mult2_eq)
  then have "x div 256 div 256 mod 256 = x div 256 div 256" by simp
  moreover have "x div 256 = x div 256 div 256 * 256 + x div 256 mod 256" by simp
  moreover have "x = x div 256 * 256 + x mod 256" by simp
  ultimately show ?thesis by linarith
qed

lemma target_to_bits_value:
  assumes len: "length target = 32" and b: "2 ^ 15 \<le> be_value target" "be_value target < 2 ^ 255"
  shows "\<exists>e b. target_to_bits target = Some b \<and> 3 \<le> e \<and> e \<le> 32 \<and> unat b div 2 ^ 24 = e \<and>
    unat b mod 2 ^ 24 = be_value target div 256 ^ (e - 3) \<and>
    2 ^ 15 \<le> unat b mod 2 ^ 24 \<and> unat b mod 2 ^ 24 < 2 ^ 23"
proof -
  define t where "t = be_value target"
  define sz where "sz = (263 - bit_length t) div 8"
  define x where "x = t div 256 ^ (30 - sz)"
  note mb = mantissa_bounds [of t, folded sz_def, folded x_def] 
  have bounds: "1 \<le> sz" "sz \<le> 30" "x < 2 ^ 23" "2 ^ 15 \<le> x"
    using mb b by (simp_all add: t_def)
  have nth: "unat (target ! j) = t div 256 ^ (31 - j) mod 256" if "j < 32" for j
    using digits_be_nth [OF that, of t] digits_be_be_value [of target] that
    by (simp add: t_def len unat_of_nat)
  have x24: "x < 2 ^ 24" using bounds(3) by simp
  have idx: "sz - 1 < 32" "sz < 32" "sz + 1 < 32" using bounds by simp_all
  have "31 - (sz - 1) = 30 - sz + 1 + 1" "31 - sz = 30 - sz + 1" "31 - (sz + 1) = 30 - sz"
    using bounds by simp_all
  then have bytes: "unat (target ! (sz - 1)) = x div 256 div 256 mod 256" "unat (target ! sz) = x div 256 mod 256"
    "unat (target ! (sz + 1)) = x mod 256"
    using idx nth [of "sz - 1"] nth [of sz] nth [of "sz + 1"]
    by (simp_all only: simp_thms power_add power_one_right div_mult2_eq x_def)
  define ew :: "8 word" where "ew = word_of_nat (33 - sz)"
  have "unat ew = 33 - sz" unfolding ew_def by (subst unat_of_nat) simp
  moreover define y where "y = (33 - sz) * 2 ^ 24 + x"
  ultimately have val: "be_value [ew, target ! (sz - 1), target ! sz, target ! (sz + 1)] = y"
    using bytes three_bytes [OF x24] by (simp only: be_value_four)
  define b' :: u32 where "b' = word_of_nat y"
  have "y < 2 ^ 32" using bounds by (simp add: y_def)
  then have ub: "unat b' = (33 - sz) * 2 ^ 24 + x"
    unfolding b'_def by (subst unat_of_nat) (simp add: y_def)
  have "target_to_bits target = Some b'"
    using len bounds val unat_u256_from_be_bytes [OF len]
    by (simp add: target_to_bits_def Let_def t_def [symmetric] sz_def [symmetric] b'_def
        ew_def [symmetric] del: of_nat_diff)
  moreover have "unat b' div 2 ^ 24 = 33 - sz" "unat b' mod 2 ^ 24 = x"
    using bounds(3) by (simp_all add: ub)
  moreover have "33 - sz - 3 = 30 - sz" "3 \<le> 33 - sz" "33 - sz \<le> 32" using bounds by linarith+
  ultimately show ?thesis
    using bounds by (intro exI [of _ "33 - sz"] exI [of _ b']) (simp add: x_def t_def)
qed

lemma target_to_bits_None:
  assumes "length target = 32" "be_value target < 2 ^ 15 \<or> 2 ^ 255 \<le> be_value target"
  shows "target_to_bits target = None"
proof -
  have "be_value target < 2 ^ 256" using be_value_less [of target] assms(1) by simp
  then have L: "bit_length (be_value target) \<le> 256" by (simp only: bit_length_le_iff)
  have "bit_length (be_value target) \<le> 15 \<or> 256 \<le> bit_length (be_value target)"
    using assms(2) bit_length_le_iff [of "be_value target" 15] bit_length_le_iff [of "be_value target" 255]
    by auto
  then have "(263 - bit_length (be_value target)) div 8 = 0 \<or> 31 \<le> (263 - bit_length (be_value target)) div 8"
    using L by linarith
  then show ?thesis
    using assms(1) by (auto simp: target_to_bits_def Let_def unat_u256_from_be_bytes)
qed

text \<open>
  Compressing a target of 32 bytes succeeds exactly when it has between 16 and 255
  significant bits, and the compact form stands for the target with everything below its
  three leading bytes cut off.
\<close>

theorem target_to_bits_truncates:
  assumes "length target = 32"
  shows "if 2 ^ 15 \<le> be_value target \<and> be_value target < 2 ^ 255
    then \<exists>b k. target_to_bits target = Some b \<and>
      be_value (bits_to_target b) = be_value target div 256 ^ k * 256 ^ k \<and>
      2 ^ 15 * 256 ^ k \<le> be_value target
    else target_to_bits target = None"
proof (cases "2 ^ 15 \<le> be_value target \<and> be_value target < 2 ^ 255")
  case True
  then obtain e b where b: "target_to_bits target = Some b" "3 \<le> e" "e \<le> 32" "unat b div 2 ^ 24 = e"
      "unat b mod 2 ^ 24 = be_value target div 256 ^ (e - 3)" "2 ^ 15 \<le> unat b mod 2 ^ 24"
    using target_to_bits_value [OF assms] by blast
  have "be_value (bits_to_target b) = be_value target div 256 ^ (e - 3) * 256 ^ (e - 3)"
    using be_value_bits_to_target(1) [OF b(4,2,3) refl] b(5) by simp
  moreover have "2 ^ 15 * 256 ^ (e - 3) \<le> be_value target"
    using b(6) unfolding b(5) by (simp only: less_eq_div_iff_mult_less_eq zero_less_power zero_less_numeral)
  ultimately show ?thesis using True b(1) by auto
next
  case False
  then have "target_to_bits target = None" using target_to_bits_None [OF assms] by (meson not_le)
  then show ?thesis unfolding if_not_P [OF False] .
qed

theorem target_to_bits_truncates_witness:
  "target_to_bits (replicate 32 0) = None"
proof -
  have z: "be_value (replicate n 0) = 0" for n by (induction n) simp_all
  show ?thesis using target_to_bits_truncates [of "replicate 32 0"] by (simp add: z)
qed

text \<open>
  Canonical compact targets, the ones with a mantissa of full length and no sign bit, survive
  expansion and compression.
\<close>

theorem bits_target_roundtrip:
  assumes "3 \<le> unat b div 2 ^ 24" "unat b div 2 ^ 24 \<le> 32"
    and "2 ^ 15 \<le> unat b mod 2 ^ 24" "unat b mod 2 ^ 24 < 2 ^ 23"
  shows "target_to_bits (bits_to_target b) = Some b"
proof -
  define e m where "e = unat b div 2 ^ 24" and "m = unat b mod 2 ^ 24"
  note bt = be_value_bits_to_target [OF e_def [symmetric] _ _ m_def [symmetric]]
  have e: "3 \<le> e" "e \<le> 32" and m: "2 ^ 15 \<le> m" "m < 2 ^ 23"
    using assms unfolding e_def m_def by blast+
  have T: "be_value (bits_to_target b) = m * 256 ^ (e - 3)" "length (bits_to_target b) = 32"
    using bt e by simp_all
  have "m * 256 ^ (e - 3) < 2 ^ 23 * 256 ^ 29"
    using m(2) e by (intro mult_less_le_imp_less power_increasing) simp_all
  moreover have "(2 :: nat) ^ 23 * 256 ^ 29 = 2 ^ 255" by simp
  ultimately have hi: "be_value (bits_to_target b) < 2 ^ 255" by (simp only: T)
  have lo: "2 ^ 15 \<le> be_value (bits_to_target b)"
    using m(1) by (simp add: T trans_le_add1 order.trans [OF _ mult_le_mono2 [of 1 "256 ^ (e - 3)" m]])
  obtain e' b' where b': "target_to_bits (bits_to_target b) = Some b'" "3 \<le> e'" "e' \<le> 32"
      "unat b' div 2 ^ 24 = e'" "unat b' mod 2 ^ 24 = m * 256 ^ (e - 3) div 256 ^ (e' - 3)"
      "2 ^ 15 \<le> unat b' mod 2 ^ 24" "unat b' mod 2 ^ 24 < 2 ^ 23"
    using target_to_bits_value [OF T(2) lo hi] by (auto simp: T(1))
  have "e' = e"
  proof (rule ccontr)
    assume "e' \<noteq> e"
    then consider "e' < e" | "e < e'" by linarith
    then show False
    proof cases
      case 1
      then have "256 ^ (e - 3) = 256 ^ (e - e') * (256 :: nat) ^ (e' - 3)"
        using b'(2) by (simp flip: power_add)
      then have "unat b' mod 2 ^ 24 = m * 256 ^ (e - e')"
        unfolding b'(5) by (simp flip: mult.assoc)
      moreover have "2 ^ 15 * 256 ^ 1 \<le> m * (256 :: nat) ^ (e - e')"
        using m(1) 1 by (intro mult_le_mono power_increasing) simp_all
      ultimately show False using b'(7) by simp
    next
      case 2
      then have "256 ^ (e' - 3) = 256 ^ (e - 3) * (256 :: nat) ^ (e' - e)"
        using e(1) by (simp flip: power_add)
      then have "unat b' mod 2 ^ 24 = m div 256 ^ (e' - e)"
        unfolding b'(5) by (simp add: mult.commute)
      also have "\<dots> \<le> m div 256 ^ 1" using 2 by (intro div_le_mono2 power_increasing) simp_all
      finally show False using b'(6) m(2) by simp
    qed
  qed
  then have "unat b' mod 2 ^ 24 = m" unfolding b'(5) by simp
  then have "unat b' div 2 ^ 24 = unat b div 2 ^ 24" "unat b' mod 2 ^ 24 = unat b mod 2 ^ 24"
    using b'(4) \<open>e' = e\<close> by (simp_all only: e_def m_def)
  then have "unat b' = unat b" by (metis div_mult_mod_eq)
  then show ?thesis using b'(1) by (simp add: word_unat_eq_iff)
qed

theorem bits_target_roundtrip_witness: "target_to_bits (bits_to_target 0x1D00FFFF) = Some 0x1D00FFFF"
  by (rule bits_target_roundtrip) simp_all

section \<open>Retargeting\<close>

lemma clamp_span:
  fixes span :: u32
  defines "c \<equiv> (if span < expected_epoch_timespan div 4 then expected_epoch_timespan div 4
    else if expected_epoch_timespan * 4 < span then expected_epoch_timespan * 4 else span)"
  shows "unat c = max 302400 (min 4838400 (unat span))"
  by (simp add: c_def expected_epoch_timespan_def word_less_nat_alt max_def min_def)

text \<open>
  The next target is the old one scaled by the time the epoch took, clamped to a factor of
  four both ways and to the limit of the network, provided the product fits into 256 bits.
  The time is the difference modulo \<open>2^32\<close>: an epoch whose last block is stamped before its
  first one panics with overflow checks and counts as a very long one without them.
\<close>

theorem calculate_new_difficulty_value:
  assumes "be_value (bits_to_target target) * 4838400 < 2 ^ 256"
  shows "calculate_new_difficulty chk net start last_time target =
    (if chk \<and> last_time < start then None
     else Some (u256_to_be_bytes (word_of_nat (min (unat (max_target (network_constants_of net)))
       (be_value (bits_to_target target) * max 302400 (min 4838400 (unat (last_time - start)))
         div 1209600)))))"
proof -
  define old where "old = be_value (bits_to_target target)"
  define span where "span = last_time - start"
  define c where "c = (if span < expected_epoch_timespan div 4 then expected_epoch_timespan div 4
    else if expected_epoch_timespan * 4 < span then expected_epoch_timespan * 4 else span)"
  define w where "w = u256_from_be_bytes (bits_to_target target) * ucast c div ucast expected_epoch_timespan"
  have c: "unat c = max 302400 (min 4838400 (unat span))" unfolding c_def by (rule clamp_span)
  then have "unat c \<le> 4838400" by simp
  then have "old * unat c \<le> old * 4838400" by (rule mult_le_mono2)
  then have prod: "old * unat c < 2 ^ 256"
    using assms unfolding old_def by (rule order.strict_trans1)
  have "length (bits_to_target target) = 32" by (simp add: bits_to_target_def Let_def)
  then have "unat (u256_from_be_bytes (bits_to_target target)) = old"
    by (simp add: unat_u256_from_be_bytes old_def)
  moreover have "unat (ucast c :: u256) = unat c"
    using unsigned_less [of c, where ?'a = nat] by (simp add: unsigned_ucast_eq take_bit_nat_eq_self)
  moreover have "unat (ucast expected_epoch_timespan :: u256) = 1209600"
    by (simp add: expected_epoch_timespan_def)
  ultimately have w: "unat w = old * unat c div 1209600"
    using prod by (simp add: w_def unat_div_distrib unat_word_ariths)
  have cap: "word_of_nat (min (unat (max_target (network_constants_of net))) (old * unat c div 1209600)) =
      (if max_target (network_constants_of net) < w then max_target (network_constants_of net) else w)"
    by (auto simp: w [symmetric] word_less_nat_alt min_def)
  show ?thesis
    unfolding calculate_new_difficulty_def sub32_def Let_def span_def [symmetric] c_def [symmetric]
      w_def [symmetric] c [symmetric] old_def [symmetric] cap
    by (cases "chk \<and> last_time < start")
      (simp_all add: span_def [symmetric] c_def [symmetric] w_def [symmetric] del: if_split)
qed

theorem calculate_new_difficulty_value_witness:
  "calculate_new_difficulty True Mainnet 5 4 0x1D00FFFF = None"
proof -
  have "be_value (bits_to_target 0x1D00FFFF) = 0xFFFF * 256 ^ 26"
    by (subst be_value_bits_to_target(1) [where e = 29 and m = "0xFFFF"]) simp_all
  then show ?thesis using calculate_new_difficulty_value [of "0x1D00FFFF" True Mainnet 5 4] by simp
qed

section \<open>Chains\<close>

text \<open>Every header names the hash of the one before it.\<close>

fun linked :: "(digest \<Rightarrow> digest) \<Rightarrow> digest \<Rightarrow> circuit_block_header list \<Rightarrow> bool" where
  "linked sha h [] = True"
| "linked sha h (b # bs) = (prev_block_hash b = h \<and> linked sha (compute_block_hash sha b) bs)"

lemma retarget_effect:
  assumes "retarget chk net block_time v = Some v'"
  shows "block_height (chain v') = block_height (chain v)"
    "best_block_hash (chain v') = best_block_hash (chain v)"
    "block_hashes_mmr (chain v') = block_hashes_mmr (chain v)"
    "prev_11_timestamps (chain v') = prev_11_timestamps (chain v)"
    "current_work v' = current_work v" "last_block_time v' = last_block_time v"
    "epoch_start_time (chain v') = epoch_start_time (chain v)"
  using assms by (auto simp: retarget_def bind_eq_Some_conv split: if_splits)

lemma apply_block_effect:
  assumes "apply_block chk net sha v b = Some v'"
  shows "prev_block_hash b = best_block_hash (chain v)"
    "best_block_hash (chain v') = compute_block_hash sha b"
    "block_height (chain v') = block_height (chain v) + 1"
    "guest_append chk sha (block_hashes_mmr (chain v)) (compute_block_hash sha b) =
      Some (block_hashes_mmr (chain v'))"
    "prev_11_timestamps (chain v') = (prev_11_timestamps (chain v))
      [unat (block_height (chain v) + 1) mod 11 := time b]"
    "validate_timestamp (time b) (prev_11_timestamps (chain v))"
    "last_block_time v' = (if net = Testnet4 then time b else last_block_time v)"
    "\<exists>target bits work. block_rules chk net v (block_height (chain v) + 1) (time b) = Some (target, bits, work) \<and>
      check_hash_valid (compute_block_hash sha b) target = Some () \<and> current_work v' = current_work v + work"
    "\<exists>w. retarget chk net (time b) w = Some v' \<and> current_target_bytes w = current_target_bytes v"
proof -
  obtain target bits' work mmr where r:
      "block_rules chk net v (block_height (chain v) + 1) (time b) = Some (target, bits', work)"
      "prev_block_hash b = best_block_hash (chain v)"
      "check_hash_valid (compute_block_hash sha b) target = Some ()"
      "validate_timestamp (time b) (prev_11_timestamps (chain v))"
      "guest_append chk sha (block_hashes_mmr (chain v)) (compute_block_hash sha b) = Some mmr"
    and rt: "retarget chk net (time b)
       (v\<lparr>chain := (chain v)\<lparr>block_height := block_height (chain v) + 1, block_hashes_mmr := mmr,
            best_block_hash := compute_block_hash sha b,
            epoch_start_time :=
              (if net \<noteq> Regtest \<and> (block_height (chain v) + 1) mod blocks_per_epoch = 0 then time b
               else epoch_start_time (chain v)),
            prev_11_timestamps := (prev_11_timestamps (chain v))
              [unat (block_height (chain v) + 1) mod 11 := time b]\<rparr>,
          current_work := current_work v + work,
          last_block_time := (if net = Testnet4 then time b else last_block_time v)\<rparr>) = Some v'"
    using assms unfolding apply_block_def Let_def
    by (auto simp: bind_eq_Some_conv split del: if_split)
  note eff = retarget_effect [OF rt]
  show "prev_block_hash b = best_block_hash (chain v)"
    "best_block_hash (chain v') = compute_block_hash sha b"
    "block_height (chain v') = block_height (chain v) + 1"
    "guest_append chk sha (block_hashes_mmr (chain v)) (compute_block_hash sha b) =
      Some (block_hashes_mmr (chain v'))"
    "prev_11_timestamps (chain v') = (prev_11_timestamps (chain v))
      [unat (block_height (chain v) + 1) mod 11 := time b]"
    "validate_timestamp (time b) (prev_11_timestamps (chain v))"
    "last_block_time v' = (if net = Testnet4 then time b else last_block_time v)"
    using r eff by simp_all
  show "\<exists>target bits work. block_rules chk net v (block_height (chain v) + 1) (time b) = Some (target, bits, work) \<and>
      check_hash_valid (compute_block_hash sha b) target = Some () \<and> current_work v' = current_work v + work"
    using r eff by auto
  show "\<exists>w. retarget chk net (time b) w = Some v' \<and> current_target_bytes w = current_target_bytes v"
    by (rule exI, rule conjI, rule rt) simp
qed

lemma fold_apply_block_chain:
  assumes "fold_option (apply_block chk net sha) v hs = Some v'"
  shows "linked sha (best_block_hash (chain v)) hs \<and>
    best_block_hash (chain v') =
      (if hs = [] then best_block_hash (chain v) else compute_block_hash sha (last hs)) \<and>
    block_height (chain v') = block_height (chain v) + word_of_nat (length hs) \<and>
    fold_option (guest_append chk sha) (block_hashes_mmr (chain v)) (map (compute_block_hash sha) hs) =
      Some (block_hashes_mmr (chain v'))"
  using assms
proof (induction hs arbitrary: v)
  case (Cons b bs)
  then obtain v1 where v1: "apply_block chk net sha v b = Some v1"
      "fold_option (apply_block chk net sha) v1 bs = Some v'"
    by (auto simp: bind_eq_Some_conv)
  show ?case
    using Cons.IH [OF v1(2)] apply_block_effect [OF v1(1)] by auto
qed simp

text \<open>
  C29. When \<open>apply_blocks\<close> accepts a list of headers, each one names the hash of its predecessor,
  starting from the best block of the given state, the new best block is the last header, the
  height has grown by their number, and the range has had exactly their hashes appended.
\<close>

theorem apply_blocks_chain:
  assumes "apply_blocks chk net sha st hs = Some st'"
  shows "linked sha (best_block_hash st) hs \<and>
    best_block_hash st' = (if hs = [] then best_block_hash st else compute_block_hash sha (last hs)) \<and>
    block_height st' = block_height st + word_of_nat (length hs) \<and>
    fold_option (guest_append chk sha) (block_hashes_mmr st) (map (compute_block_hash sha) hs) =
      Some (block_hashes_mmr st')"
proof -
  obtain v where "fold_option (apply_block chk net sha) (apply_init net st) hs = Some v"
      "st' = (chain v)\<lparr>total_work := u256_to_be_bytes (current_work v)\<rparr>"
    using assms by (auto simp: apply_blocks_def bind_eq_Some_conv)
  then show ?thesis using fold_apply_block_chain [of chk net sha "apply_init net st" hs v]
    by (simp add: apply_init_def)
qed

text \<open>A chain of one block on the test network, under a hash that is zero everywhere.\<close>

definition zero_hash :: "digest \<Rightarrow> digest" where
  "zero_hash x = replicate 32 0"

definition sample_header :: circuit_block_header where
  "sample_header = \<lparr>version = 1, prev_block_hash = replicate 32 0, merkle_root = [], time = 7,
     bits = 0x207FFFFF, nonce = 0\<rparr>"

lemma compute_block_hash_zero [simp]: "compute_block_hash zero_hash b = replicate 32 0"
  by (simp add: compute_block_hash_def zero_hash_def)

lemma check_hash_zero [simp]: "check_hash_valid (replicate 32 0) target = Some ()"
proof -
  have "check_hash_loop (replicate n 0) ts = Some ()" for n ts
  proof (induction n arbitrary: ts)
    case (Suc n)
    then show ?case by (cases ts) auto
  qed simp
  then show ?thesis by (simp add: check_hash_valid_def)
qed

lemma sort_zeros: "sort (replicate n (0 :: u32)) = replicate n 0"
  by (intro sorted_sort_id) simp

lemma sample_apply:
  "\<exists>st. apply_blocks True Regtest zero_hash (chain_state_new Regtest) [sample_header] = Some st"
proof -
  have "sort (replicate 11 (0 :: u32)) ! 5 < 7" by (simp add: sort_zeros)
  then have ts: "validate_timestamp 7 (replicate 11 0)" by (simp add: validate_timestamp_def median_def)
  have "guest_append True zero_hash guest_new (replicate 32 0) = Some \<lparr>subroots = [replicate 32 0], size = 1\<rparr>"
    by (simp add: guest_append_def guest_new_def guest_append_loop.simps add32_def)
  then show ?thesis
    by (simp add: apply_blocks_def apply_block_def apply_init_def chain_state_new_def sample_header_def
        block_rules_def network_constants_of_def retarget_def ts Let_def)
qed

theorem apply_blocks_chain_witness:
  "\<exists>st'. apply_blocks True Regtest zero_hash (chain_state_new Regtest) [sample_header] = Some st' \<and>
    best_block_hash st' = replicate 32 0 \<and> block_height st' = 0"
proof -
  obtain st' where st': "apply_blocks True Regtest zero_hash (chain_state_new Regtest) [sample_header] = Some st'"
    using sample_apply by blast
  show ?thesis using apply_blocks_chain [OF st'] st' by (simp add: chain_state_new_def)
qed

section \<open>Proof of work of every accepted header\<close>

definition within_limit :: "network \<Rightarrow> digest \<Rightarrow> bool" where
  "within_limit net target \<longleftrightarrow> length target = 32 \<and>
     be_value target \<le> unat (max_target (network_constants_of net))"

lemma calculate_new_difficulty_within_limit:
  assumes "calculate_new_difficulty chk net start last_time target = Some t"
  shows "within_limit net t"
proof -
  obtain w where "t = u256_to_be_bytes (if max_target (network_constants_of net) < w
      then max_target (network_constants_of net) else w)"
    using assms by (auto simp: calculate_new_difficulty_def Let_def bind_eq_Some_conv)
  then show ?thesis
    by (cases "max_target (network_constants_of net) < w")
      (simp_all add: within_limit_def word_less_nat_alt)
qed

lemma retarget_within_limit:
  assumes "retarget chk net block_time v = Some v'" "within_limit net (current_target_bytes v)"
  shows "within_limit net (current_target_bytes v')"
  using assms calculate_new_difficulty_within_limit
  by (auto simp: retarget_def bind_eq_Some_conv split: if_splits)

lemma be_value_append_zeros: "be_value (xs @ replicate n 0) = be_value xs * 256 ^ n"
proof -
  have "be_value (replicate n 0) = 0" by (induction n) simp_all
  moreover have "be_value (xs @ ys) = be_value xs * 256 ^ length ys + be_value ys" for ys
    by (induction xs) (simp_all add: algebra_simps power_add)
  ultimately show ?thesis by simp
qed

lemma max_target_bytes_value:
  "length (max_target_bytes (network_constants_of net)) = 32 \<and>
   be_value (max_target_bytes (network_constants_of net)) = unat (max_target (network_constants_of net))"
  by (cases net) (simp_all add: network_constants_of_def be_value_append_zeros
      del: append.simps append_Cons)

text \<open>
  The limit of every network is written consistently: the bytes, the 256-bit number and the
  expansion of the compact limit are the same target.
\<close>

theorem network_limits_consistent:
  "u256_to_be_bytes (max_target (network_constants_of net)) = max_target_bytes (network_constants_of net) \<and>
   bits_to_target (max_bits (network_constants_of net)) = max_target_bytes (network_constants_of net)"
proof -
  have inj: "xs = ys" if "length xs = 32" "length ys = 32" "be_value xs = be_value ys" for xs ys
    using digits_be_be_value [of xs] digits_be_be_value [of ys] that by simp
  have "be_value (bits_to_target 0x1D00FFFF) = 0xFFFF * 256 ^ 26"
    "be_value (bits_to_target 0x1E0377AE) = 0x0377AE * 256 ^ 27"
    "be_value (bits_to_target 0x207FFFFF) = 0x7FFFFF * 256 ^ 29"
    using be_value_bits_to_target(1) [where b = "0x1D00FFFF" and e = 29 and m = "0xFFFF"]
      be_value_bits_to_target(1) [where b = "0x1E0377AE" and e = 30 and m = "0x0377AE"]
      be_value_bits_to_target(1) [where b = "0x207FFFFF" and e = 32 and m = "0x7FFFFF"]
    by simp_all
  then have "be_value (bits_to_target (max_bits (network_constants_of net))) =
      unat (max_target (network_constants_of net))"
    by (cases net) (simp_all add: network_constants_of_def)
  moreover have "length (bits_to_target b) = 32" for b by (simp add: bits_to_target_def Let_def)
  ultimately show ?thesis
    using max_target_bytes_value [of net] by (intro conjI inj) simp_all
qed

lemma apply_block_within_limit:
  assumes "apply_block chk net sha v b = Some v'" "within_limit net (current_target_bytes v)"
    and sha: "\<And>x. length (sha x) = 32"
  shows "within_limit net (current_target_bytes v') \<and>
    be_value (rev (compute_block_hash sha b)) \<le> unat (max_target (network_constants_of net))"
proof
  obtain target bits' work where r:
      "block_rules chk net v (block_height (chain v) + 1) (time b) = Some (target, bits', work)"
      "check_hash_valid (compute_block_hash sha b) target = Some ()"
    using apply_block_effect [OF assms(1)] by blast
  have "target = current_target_bytes v \<or> target = max_target_bytes (network_constants_of net)"
    using r(1) by (auto simp: block_rules_def Let_def bind_eq_Some_conv split: if_splits)
  then have "within_limit net target"
    using assms(2) max_target_bytes_value [of net] by (auto simp: within_limit_def)
  moreover have "length (compute_block_hash sha b) = 32" by (simp add: compute_block_hash_def sha)
  ultimately show "be_value (rev (compute_block_hash sha b)) \<le> unat (max_target (network_constants_of net))"
    using r(2) check_hash_loop_value [of "rev (compute_block_hash sha b)" target]
    by (auto simp: check_hash_valid_def within_limit_def split: if_splits)
  show "within_limit net (current_target_bytes v')"
    using apply_block_effect(9) [OF assms(1)] retarget_within_limit assms(2) by auto
qed

text \<open>
  C36. Starting from a state whose target is within the limit of the network, as the initial state
  and every state reached from it are, no header is accepted whose hash, as a number, exceeds
  the limit, and the number of the target stays within it.
\<close>

theorem apply_blocks_proof_of_work:
  assumes "fold_option (apply_block chk net sha) v hs = Some v'"
    and "within_limit net (current_target_bytes v)"
    and "\<And>x. length (sha x) = 32"
  shows "within_limit net (current_target_bytes v') \<and>
    list_all (\<lambda>b. be_value (rev (compute_block_hash sha b)) \<le> unat (max_target (network_constants_of net))) hs"
  using assms(1,2)
proof (induction hs arbitrary: v)
  case (Cons b bs)
  then obtain v1 where v1: "apply_block chk net sha v b = Some v1"
      "fold_option (apply_block chk net sha) v1 bs = Some v'"
    by (auto simp: bind_eq_Some_conv)
  have "within_limit net (current_target_bytes v1) \<and>
    be_value (rev (compute_block_hash sha b)) \<le> unat (max_target (network_constants_of net))"
    using v1(1) Cons.prems(2) assms(3) by (rule apply_block_within_limit)
  then show ?case
    using Cons.IH [OF v1(2)] by simp
qed simp

theorem apply_blocks_proof_of_work_witness:
  "\<exists>v'. fold_option (apply_block True Regtest zero_hash) (apply_init Regtest (chain_state_new Regtest)) [sample_header] = Some v' \<and>
    within_limit Regtest (current_target_bytes v')"
proof -
  obtain v' where v': "fold_option (apply_block True Regtest zero_hash)
      (apply_init Regtest (chain_state_new Regtest)) [sample_header] = Some v'"
    using sample_apply by (auto simp: apply_blocks_def bind_eq_Some_conv)
  have "within_limit Regtest (current_target_bytes (apply_init Regtest (chain_state_new Regtest)))"
    by (simp add: within_limit_def apply_init_def)
  then show ?thesis
    using apply_blocks_proof_of_work [OF v'] v' by (simp add: zero_hash_def)
qed

section \<open>Splitting a chain over several calls\<close>

text \<open>Storing the work in the state between two calls does not influence the blocks.\<close>

definition with_work :: "digest \<Rightarrow> apply_vars \<Rightarrow> apply_vars" where
  "with_work x v = v\<lparr>chain := (chain v)\<lparr>total_work := x\<rparr>\<rparr>"

lemma retarget_with_work:
  "retarget chk net t (with_work x v) = map_option (with_work x) (retarget chk net t v)"
  by (auto simp: retarget_def with_work_def split: Option.bind_splits)

lemma map_option_bind: "map_option f (x \<bind> g) = x \<bind> (\<lambda>y. map_option f (g y))"
  by (cases x) simp_all

lemma apply_block_with_work:
  "apply_block chk net sha (with_work x v) b = map_option (with_work x) (apply_block chk net sha v b)"
proof -
  have rules: "block_rules chk net (with_work x v) h t = block_rules chk net v h t" for h t
    by (simp add: block_rules_def with_work_def Let_def)
  have sel: "block_height (chain (with_work x v)) = block_height (chain v)"
    "best_block_hash (chain (with_work x v)) = best_block_hash (chain v)"
    "prev_11_timestamps (chain (with_work x v)) = prev_11_timestamps (chain v)"
    "block_hashes_mmr (chain (with_work x v)) = block_hashes_mmr (chain v)"
    "epoch_start_time (chain (with_work x v)) = epoch_start_time (chain v)"
    "current_work (with_work x v) = current_work v" "last_block_time (with_work x v) = last_block_time v"
    by (simp_all add: with_work_def)
  have upd: "(with_work x v)\<lparr>chain := (chain (with_work x v))\<lparr>block_height := h, block_hashes_mmr := m,
        best_block_hash := d, epoch_start_time := e, prev_11_timestamps := p\<rparr>,
      current_work := w, last_block_time := l\<rparr> =
    with_work x (v\<lparr>chain := (chain v)\<lparr>block_height := h, block_hashes_mmr := m,
        best_block_hash := d, epoch_start_time := e, prev_11_timestamps := p\<rparr>,
      current_work := w, last_block_time := l\<rparr>)" for h m d e p w l
    by (simp add: with_work_def)
  show ?thesis
    unfolding apply_block_def Let_def upd sel rules retarget_with_work
    by (simp add: map_option_bind comp_def case_prod_unfold split del: if_split cong: Option.bind_cong)
qed

lemma fold_apply_block_with_work:
  "fold_option (apply_block chk net sha) (with_work x v) hs =
   map_option (with_work x) (fold_option (apply_block chk net sha) v hs)"
proof (induction hs arbitrary: v)
  case (Cons b bs)
  show ?case
    by (cases "apply_block chk net sha v b") (simp_all add: apply_block_with_work Cons)
qed simp

text \<open>The variables of the loop agree with the ones a new call would start from.\<close>

definition in_sync :: "network \<Rightarrow> apply_vars \<Rightarrow> bool" where
  "in_sync net v \<longleftrightarrow>
     current_target_bytes v = current_target_bytes (apply_init net (chain v)) \<and>
     last_block_time v = last_block_time (apply_init net (chain v))"

lemma apply_block_in_sync:
  assumes "apply_block chk net sha v b = Some v'" "in_sync net v"
    and "length (prev_11_timestamps (chain v)) = 11" "block_height (chain v) + 1 \<noteq> - 1"
    and "net = Regtest \<or> (block_height (chain v) + 1) mod blocks_per_epoch \<noteq> blocks_per_epoch - 1"
  shows "in_sync net v' \<and> length (prev_11_timestamps (chain v')) = 11"
proof -
  note eff = apply_block_effect [OF assms(1)]
  have keep: "current_target_bytes v' = current_target_bytes v \<and>
      current_target_bits (chain v') = current_target_bits (chain v)"
    using assms(1,5)
    by (auto simp: apply_block_def Let_def bind_eq_Some_conv retarget_def split del: if_split)
  have "unat (block_height (chain v) + 1) mod 11 < 11" by simp
  then show ?thesis
    using assms(2-4) keep eff(3,5,7)
    by (cases "net = Testnet4") (simp_all add: in_sync_def apply_init_def)
qed

text \<open>No block of a batch is the last one of an epoch, nor at the height that means none.\<close>

definition quiet :: "network \<Rightarrow> u32 \<Rightarrow> nat \<Rightarrow> bool" where
  "quiet net h n \<longleftrightarrow> list_all (\<lambda>k. h + word_of_nat (Suc k) \<noteq> - 1 \<and>
     (net = Regtest \<or> (h + word_of_nat (Suc k)) mod blocks_per_epoch \<noteq> blocks_per_epoch - 1)) [0..<n]"

lemma quiet_Suc:
  "quiet net h (Suc n) \<longleftrightarrow> h + 1 \<noteq> - 1 \<and>
     (net = Regtest \<or> (h + 1) mod blocks_per_epoch \<noteq> blocks_per_epoch - 1) \<and> quiet net (h + 1) n"
proof -
  have "[0..<Suc n] = 0 # map Suc [0..<n]" by (simp add: map_Suc_upt upt_conv_Cons del: upt_Suc)
  then show ?thesis
    unfolding quiet_def by (simp add: list.pred_map comp_def add.assoc del: upt_Suc)
qed

lemma fold_apply_block_in_sync:
  assumes "fold_option (apply_block chk net sha) v hs = Some v'" "in_sync net v"
    and "length (prev_11_timestamps (chain v)) = 11" "quiet net (block_height (chain v)) (length hs)"
  shows "in_sync net v'"
  using assms
proof (induction hs arbitrary: v)
  case (Cons b bs)
  then obtain v1 where v1: "apply_block chk net sha v b = Some v1"
      "fold_option (apply_block chk net sha) v1 bs = Some v'"
    by (auto simp: bind_eq_Some_conv)
  have q: "quiet net (block_height (chain v)) (Suc (length bs))" using Cons.prems(4) by simp
  then have "in_sync net v1 \<and> length (prev_11_timestamps (chain v1)) = 11"
    using Cons.prems(2,3) by (intro apply_block_in_sync [OF v1(1)]) (simp_all add: quiet_Suc)
  then show ?case
    using q apply_block_effect(3) [OF v1(1)] by (intro Cons.IH [OF v1(2)]) (simp_all add: quiet_Suc)
qed simp

text \<open>
  As long as no epoch ends in the first part, applying a list of headers in one call and in two
  calls, with the state written out in between, gives the same state or fails alike, for any
  way to split the list.
\<close>

theorem apply_blocks_split:
  assumes "length (prev_11_timestamps st) = 11" "quiet net (block_height st) (length xs)"
  shows "apply_blocks chk net sha st (xs @ ys) =
    apply_blocks chk net sha st xs \<bind> (\<lambda>st'. apply_blocks chk net sha st' ys)"
proof (cases "fold_option (apply_block chk net sha) (apply_init net st) xs")
  case None
  then show ?thesis by (simp add: apply_blocks_def fold_option_append)
next
  case (Some v)
  let ?st' = "(chain v)\<lparr>total_work := u256_to_be_bytes (current_work v)\<rparr>"
  have "in_sync net v"
    using assms by (intro fold_apply_block_in_sync [OF Some]) (simp_all add: in_sync_def apply_init_def)
  then have init: "apply_init net ?st' = with_work (u256_to_be_bytes (current_work v)) v"
    by (simp add: in_sync_def apply_init_def with_work_def)
  have "apply_blocks chk net sha ?st' ys =
    fold_option (apply_block chk net sha) v ys \<bind>
      (\<lambda>w. Some ((chain w)\<lparr>total_work := u256_to_be_bytes (current_work w)\<rparr>))"
    unfolding apply_blocks_def init fold_apply_block_with_work
    by (cases "fold_option (apply_block chk net sha) v ys") (simp_all add: with_work_def)
  then show ?thesis using Some by (simp add: apply_blocks_def fold_option_append)
qed

theorem apply_blocks_split_witness:
  "apply_blocks True Mainnet zero_hash (chain_state_new Mainnet) ([sample_header] @ [sample_header]) =
    apply_blocks True Mainnet zero_hash (chain_state_new Mainnet) [sample_header] \<bind>
      (\<lambda>st'. apply_blocks True Mainnet zero_hash st' [sample_header])"
  by (rule apply_blocks_split) (simp_all add: chain_state_new_def quiet_def blocks_per_epoch_def)

text \<open>
  At the end of an epoch the two ways differ: the loop goes on with the full target, while the
  state records its compact form, and a later call starts from the expansion of that form, a
  lower target.
\<close>

theorem retarget_leaves_sync:
  "\<exists>v v'. retarget True Mainnet 1209601 v = Some v' \<and> \<not> in_sync Mainnet v' \<and>
    be_value (bits_to_target (current_target_bits (chain v'))) < be_value (current_target_bytes v')"
proof -
  define old new :: nat where "old = 0x0404CB * 256 ^ 24" and "new = old * 1209601 div 1209600"
  define v where "v = apply_init Mainnet ((chain_state_new Mainnet)\<lparr>block_height := 2015, current_target_bits := 0x1B0404CB\<rparr>)"
  have "be_value (bits_to_target 0x1B0404CB) = old"
    using be_value_bits_to_target(1) [where b = "0x1B0404CB" and e = 27 and m = "0x0404CB"]
    by (simp add: old_def)
  moreover have "old * 4838400 < 2 ^ 256" "min (unat (max_target (network_constants_of Mainnet))) new = new"
    by (simp_all add: old_def new_def network_constants_of_def)
  ultimately have diff: "calculate_new_difficulty True Mainnet 0 1209601 0x1B0404CB =
      Some (u256_to_be_bytes (word_of_nat new))"
    using calculate_new_difficulty_value [of "0x1B0404CB" True Mainnet 0 1209601]
    by (simp add: new_def)
  have nb: "2 ^ 15 \<le> new" "new < 2 ^ 255" by (simp_all add: old_def new_def)
  then have un: "be_value (u256_to_be_bytes (word_of_nat new)) = new" by (simp add: unat_of_nat)
  obtain e b where b: "target_to_bits (u256_to_be_bytes (word_of_nat new)) = Some b" "3 \<le> e" "e \<le> 32"
      "unat b div 2 ^ 24 = e" "unat b mod 2 ^ 24 = new div 256 ^ (e - 3)" "unat b mod 2 ^ 24 < 2 ^ 23"
    using target_to_bits_value [of "u256_to_be_bytes (word_of_nat new)"] nb unfolding un by auto
  have "\<not> e - 3 \<le> 23"
  proof
    assume "e - 3 \<le> 23"
    then have "new div 256 ^ 23 \<le> new div 256 ^ (e - 3)" by (intro div_le_mono2 power_increasing) simp_all
    moreover have "2 ^ 23 \<le> new div 256 ^ 23" by (simp add: old_def new_def)
    ultimately show False using b(5,6) by simp
  qed
  then have "(256 :: nat) ^ 24 dvd 256 ^ (e - 3)" by (intro le_imp_power_dvd) simp
  moreover have "be_value (bits_to_target b) = new div 256 ^ (e - 3) * 256 ^ (e - 3)"
    using be_value_bits_to_target(1) [OF b(4,2,3) refl] b(5) by simp
  ultimately have "256 ^ 24 dvd be_value (bits_to_target b)" "be_value (bits_to_target b) \<le> new"
    by simp_all
  moreover have "\<not> 256 ^ 24 dvd new" by (simp add: old_def new_def)
  ultimately have lt: "be_value (bits_to_target b) < new" by (metis le_neq_implies_less)
  let ?v' = "v\<lparr>chain := (chain v)\<lparr>current_target_bits := b\<rparr>,
    current_target_bytes := u256_to_be_bytes (word_of_nat new)\<rparr>"
  have "retarget True Mainnet 1209601 v = Some ?v'"
    using diff b(1) by (simp add: retarget_def v_def apply_init_def chain_state_new_def blocks_per_epoch_def)
  moreover have "u256_to_be_bytes (word_of_nat new) \<noteq> bits_to_target b" using lt un by (metis less_irrefl)
  then have "\<not> in_sync Mainnet ?v'" by (simp add: in_sync_def apply_init_def)
  ultimately show ?thesis using lt un by (intro exI [of _ v] exI [of _ ?v']) simp
qed

end
