(* ===== verification/Final_Spv.thy ===== *)
theory Final_Spv
  imports Header_Chain
begin

text \<open>
  \<open>final-spv/src\<close>: Merkle trees of a block's transactions, inclusion proofs against them, the
  SPV check of one transaction and the circuit that commits to it.  The consensus encoding of
  the parts of a transaction, SHA-256, BLAKE3 and the verification of the header chain proof
  are arguments.
\<close>

section \<open>Transactions\<close>

record 'tx tx_encoding =
  enc_version :: "'tx \<Rightarrow> digest"
  enc_input :: "'tx \<Rightarrow> digest"
  enc_output :: "'tx \<Rightarrow> digest"
  enc_lock_time :: "'tx \<Rightarrow> digest"

definition mid_state_txid :: "(digest \<Rightarrow> digest) \<Rightarrow> 'tx tx_encoding \<Rightarrow> 'tx \<Rightarrow> digest" where
  "mid_state_txid sha enc tx =
     calculate_sha256 sha (enc_version enc tx @ enc_input enc tx @ enc_output enc tx @ enc_lock_time enc tx)"

definition txid :: "(digest \<Rightarrow> digest) \<Rightarrow> 'tx tx_encoding \<Rightarrow> 'tx \<Rightarrow> digest" where
  "txid sha enc tx = (let mid_state = mid_state_txid sha enc tx in calculate_sha256 sha mid_state)"

section \<open>Merkle trees\<close>

text \<open>One level from the one below; two equal neighbours panic, a last odd node is doubled.\<close>

fun merkle_level :: "(digest \<Rightarrow> digest \<Rightarrow> digest) \<Rightarrow> digest list \<Rightarrow> digest list option" where
  "merkle_level h (x # y # xs) = do {
     rust_assert (x \<noteq> y);
     rest \<leftarrow> merkle_level h xs;
     Some (h x y # rest)
   }"
| "merkle_level h [x] = Some [h x x]"
| "merkle_level h [] = Some []"

lemma length_merkle_level: "merkle_level h xs = Some ys \<Longrightarrow> length ys = (length xs + 1) div 2"
  by (induction h xs arbitrary: ys rule: merkle_level.induct)
    (auto simp: bind_eq_Some_conv)

function merkle_levels :: "(digest \<Rightarrow> digest \<Rightarrow> digest) \<Rightarrow> digest list \<Rightarrow> digest list list option" where
  "merkle_levels h row =
     (if length row \<le> 1 then Some [row]
      else do {
        next_row \<leftarrow> merkle_level h row;
        rest \<leftarrow> merkle_levels h next_row;
        Some (row # rest)
      })"
  by pat_completeness auto
termination
  by (relation "measure (\<lambda>(_, row). length row)") (auto dest: length_merkle_level)

declare merkle_levels.simps [simp del]

type_synonym bitcoin_merkle_tree = "digest list list"

definition merkle_tree_new :: "(digest \<Rightarrow> digest) \<Rightarrow> digest list \<Rightarrow> bitcoin_merkle_tree option" where
  "merkle_tree_new sha transactions =
     (if length transactions = 1 then Some [transactions]
      else merkle_levels (\<lambda>l r. calculate_double_sha256 sha (l @ r)) transactions)"

definition new_mid_state :: "(digest \<Rightarrow> digest) \<Rightarrow> 'tx tx_encoding \<Rightarrow> 'tx list \<Rightarrow> bitcoin_merkle_tree option" where
  "new_mid_state sha enc transactions =
     (if length transactions = 1 then Some [[mid_state_txid sha enc (transactions ! 0)]]
      else merkle_levels
        (\<lambda>l r. calculate_sha256 sha (calculate_sha256 sha l @ calculate_sha256 sha r))
        (map (mid_state_txid sha enc) transactions))"

definition merkle_root_of :: "bitcoin_merkle_tree \<Rightarrow> digest option" where
  "merkle_root_of nodes =
     (if nodes = [] \<or> last nodes = [] then None else Some (nodes ! (length nodes - 1) ! 0))"

section \<open>Inclusion proofs\<close>

record block_inclusion_proof =
  idx :: u32
  merkle_proof :: "digest list"

text \<open>The loop of \<open>get_idx_path\<close> stops below the last level.\<close>

fun idx_path_loop :: "bitcoin_merkle_tree \<Rightarrow> nat \<Rightarrow> digest list option" where
  "idx_path_loop (row # next_row # rows) i =
     (let j = (if i mod 2 = 1 then i - 1 else if length row - 1 = i then i else i + 1) in
      if j < length row then do {
        rest \<leftarrow> idx_path_loop (next_row # rows) (i div 2);
        Some (row ! j # rest)
      } else None)"
| "idx_path_loop _ i = Some []"

definition get_idx_path :: "bitcoin_merkle_tree \<Rightarrow> u32 \<Rightarrow> digest list option" where
  "get_idx_path nodes index = do {
     rust_assert (nodes \<noteq> [] \<and> unat index < length (nodes ! 0));
     idx_path_loop nodes (unat index)
   }"

definition merkle_generate_proof :: "bitcoin_merkle_tree \<Rightarrow> u32 \<Rightarrow> block_inclusion_proof option" where
  "merkle_generate_proof nodes i = do {
     path \<leftarrow> get_idx_path nodes i;
     Some \<lparr>idx = i, merkle_proof = path\<rparr>
   }"

fun get_root_loop :: "(digest \<Rightarrow> digest) \<Rightarrow> nat \<Rightarrow> digest list \<Rightarrow> digest \<Rightarrow> digest" where
  "get_root_loop sha index [] combined = combined"
| "get_root_loop sha index (sibling # ss) combined =
     (let processed = calculate_sha256 sha sibling in
      get_root_loop sha (index div 2) ss
        (if index mod 2 = 0 then calculate_double_sha256 sha (combined @ processed)
         else calculate_double_sha256 sha (processed @ combined)))"

definition get_root :: "(digest \<Rightarrow> digest) \<Rightarrow> block_inclusion_proof \<Rightarrow> digest \<Rightarrow> digest" where
  "get_root sha p leaf = get_root_loop sha (unat (idx p)) (merkle_proof p) leaf"

definition verify_merkle_proof :: "(digest \<Rightarrow> digest) \<Rightarrow> digest \<Rightarrow> block_inclusion_proof \<Rightarrow> digest \<Rightarrow> bool" where
  "verify_merkle_proof sha leaf p root = (get_root sha p leaf = root)"

section \<open>The SPV check and the final circuit\<close>

record 'tx spv =
  transaction :: 'tx
  block_inclusion_proof :: block_inclusion_proof
  block_header :: circuit_block_header
  mmr_proof :: mmr_inclusion_proof

definition spv_verify :: "bool \<Rightarrow> (digest \<Rightarrow> digest) \<Rightarrow> 'tx tx_encoding \<Rightarrow> 'tx spv \<Rightarrow> mmr_guest \<Rightarrow> bool option" where
  "spv_verify chk sha enc s mmr = do {
     let block_merkle_root = get_root sha (block_inclusion_proof s) (txid sha enc (transaction s));
     rust_assert (block_merkle_root = merkle_root (block_header s));
     guest_verify_proof chk sha mmr (compute_block_hash sha (block_header s)) (mmr_proof s)
   }"

definition header_chain_guest_id :: "network \<Rightarrow> u32 list" where
  "header_chain_guest_id net = (case net of
     Mainnet \<Rightarrow> [1089137192, 2499827081, 1648551528, 3898441744, 1241508107, 1212614376, 523594555, 2385906108]
   | Testnet4 \<Rightarrow> [1866422223, 3011666006, 1737793548, 1848006863, 1320341210, 1623031594, 1418162769, 4138395741]
   | Signet \<Rightarrow> [3760542186, 3452311364, 636757141, 2341919608, 3798837687, 3808746669, 4002435111, 318058396]
   | Regtest \<Rightarrow> [1361809821, 2352021461, 2194279832, 977027345, 356844560, 3592195208, 1085394392, 1717039563])"

record 'tx final_circuit_input =
  block_header_circuit_output :: circuit_output
  spv_input :: "'tx spv"

text \<open>The value \<open>spv_verify\<close> returns is not used, as in the code.\<close>

definition final_circuit :: "bool \<Rightarrow> network \<Rightarrow> (digest \<Rightarrow> digest) \<Rightarrow> (digest \<Rightarrow> digest) \<Rightarrow> 'tx tx_encoding \<Rightarrow>
    (u32 list \<Rightarrow> circuit_output \<Rightarrow> bool) \<Rightarrow> 'tx final_circuit_input \<Rightarrow> digest option" where
  "final_circuit chk net sha blake3 enc verify input = do {
     rust_assert (verify (header_chain_guest_id net) (block_header_circuit_output input));
     let st = out_chain_state (block_header_circuit_output input);
     spv_verify chk sha enc (spv_input input) (block_hashes_mmr st);
     Some (blake3 (txid sha enc (transaction (spv_input input)) @ best_block_hash st @ total_work st))
   }"

section \<open>The two trees\<close>

abbreviation std_node :: "(digest \<Rightarrow> digest) \<Rightarrow> digest \<Rightarrow> digest \<Rightarrow> digest" where
  "std_node sha l r \<equiv> calculate_double_sha256 sha (l @ r)"

abbreviation mid_node :: "(digest \<Rightarrow> digest) \<Rightarrow> digest \<Rightarrow> digest \<Rightarrow> digest" where
  "mid_node sha l r \<equiv> calculate_sha256 sha (calculate_sha256 sha l @ calculate_sha256 sha r)"

lemma std_node_mid_node: "std_node sha (sha l) (sha r) = sha (mid_node sha l r)"
  by (simp add: calculate_double_sha256_def calculate_sha256_def)

lemma merkle_level_mid:
  "merkle_level (std_node sha) (map sha xs) = Some ys \<Longrightarrow>
   \<exists>zs. merkle_level (mid_node sha) xs = Some zs \<and> ys = map sha zs"
proof (induction "mid_node sha" xs arbitrary: ys rule: merkle_level.induct)
  case (1 x y xs)
  then obtain rest where r: "sha x \<noteq> sha y" "merkle_level (std_node sha) (map sha xs) = Some rest"
      "ys = std_node sha (sha x) (sha y) # rest"
    by (auto simp: bind_eq_Some_conv)
  obtain zs where "merkle_level (mid_node sha) xs = Some zs" "rest = map sha zs"
    using 1(1) [OF _ r(2)] r(1) by auto
  moreover have "x \<noteq> y" using r(1) by auto
  ultimately show ?case using r(3) by (simp add: std_node_mid_node)
qed (auto simp: std_node_mid_node)

lemma merkle_levels_mid:
  "merkle_levels (std_node sha) (map sha xs) = Some t \<Longrightarrow>
   \<exists>u. merkle_levels (mid_node sha) xs = Some u \<and> t = map (map sha) u"
proof (induction "length xs" arbitrary: xs t rule: less_induct)
  case less
  show ?case
  proof (cases "length xs \<le> 1")
    case True
    then show ?thesis using less.prems by (simp add: merkle_levels.simps)
  next
    case False
    obtain ys rest where r: "merkle_level (std_node sha) (map sha xs) = Some ys"
        "merkle_levels (std_node sha) ys = Some rest" "t = map sha xs # rest"
      using less.prems False by (subst (asm) merkle_levels.simps) (auto simp: bind_eq_Some_conv)
    obtain zs where zs: "merkle_level (mid_node sha) xs = Some zs" "ys = map sha zs"
      using merkle_level_mid [OF r(1)] by blast
    have "length zs < length xs" using length_merkle_level [OF zs(1)] False by simp
    then obtain u where "merkle_levels (mid_node sha) zs = Some u" "rest = map (map sha) u"
      using less.hyps [of zs rest] r(2) zs(2) by blast
    then show ?thesis using False zs(1) r(3) by (subst merkle_levels.simps) simp
  qed
qed

section \<open>Paths\<close>

lemma merkle_level_nth:
  assumes "merkle_level h xs = Some ys" "i < length xs"
  shows "ys ! (i div 2) = (if odd i then h (xs ! (i - 1)) (xs ! i)
    else if i = length xs - 1 then h (xs ! i) (xs ! i) else h (xs ! i) (xs ! (i + 1)))"
  using assms
proof (induction h xs arbitrary: ys i rule: merkle_level.induct)
  case (1 h x y xs)
  then obtain rest where r: "merkle_level h xs = Some rest" "ys = h x y # rest"
    by (auto simp: bind_eq_Some_conv)
  consider "i = 0" | "i = 1" | j where "i = j + 2"
    by (metis add_2_eq_Suc' less_2_cases not_less_eq old.nat.exhaust One_nat_def)
  then show ?case
  proof cases
    case 3
    then have "j < length xs" using 1(3) by simp
    then have "rest ! (j div 2) = (if odd j then h (xs ! (j - 1)) (xs ! j)
      else if j = length xs - 1 then h (xs ! j) (xs ! j) else h (xs ! j) (xs ! (j + 1)))"
      using 1 r(1) by (auto simp: bind_eq_Some_conv)
    moreover have "odd j \<Longrightarrow> (x # y # xs) ! (i - 1) = xs ! (j - 1)" using 3 by (cases j) simp_all
    moreover have "(x # y # xs) ! i = xs ! j" "(x # y # xs) ! (i + 1) = xs ! (j + 1)"
      "ys ! (i div 2) = rest ! (j div 2)" "odd i = odd j"
      using 3 r(2) by simp_all
    moreover have "i = length (x # y # xs) - 1 \<longleftrightarrow> j = length xs - 1"
      using 3 \<open>j < length xs\<close> by (simp, linarith)
    ultimately show ?thesis by (cases "odd j") (simp_all only: if_True if_False simp_thms)
  qed (use r in auto)
qed auto

lemma merkle_levels_head: "merkle_levels h xs = Some u \<Longrightarrow> \<exists>us. u = xs # us"
  by (subst (asm) merkle_levels.simps) (auto simp: bind_eq_Some_conv split: if_splits)

lemma mid_path_root:
  assumes "merkle_levels (mid_node sha) xs = Some u" "i < length xs"
  shows "\<exists>path. idx_path_loop u i = Some path \<and> last u \<noteq> [] \<and>
    get_root_loop sha i path (sha (xs ! i)) = sha (last u ! 0)"
  using assms
proof (induction "length xs" arbitrary: xs u i rule: less_induct)
  case less
  show ?case
  proof (cases "length xs \<le> 1")
    case True
    then have "i = 0" "length xs = 1" using less.prems(2) by linarith+
    then show ?thesis using less.prems(1) by (auto simp: merkle_levels.simps)
  next
    case False
    obtain ys rest where r: "merkle_level (mid_node sha) xs = Some ys"
        "merkle_levels (mid_node sha) ys = Some rest" "u = xs # rest"
      using less.prems(1) False by (subst (asm) merkle_levels.simps) (auto simp: bind_eq_Some_conv)
    have len: "length ys = (length xs + 1) div 2" using r(1) by (rule length_merkle_level)
    have half: "length ys < length xs" "i div 2 < length ys" using len False less.prems(2) by linarith+
    obtain path where path: "idx_path_loop rest (i div 2) = Some path" "last rest \<noteq> []"
        "get_root_loop sha (i div 2) path (sha (ys ! (i div 2))) = sha (last rest ! 0)"
      using less.hyps [OF half(1) r(2) half(2)] by blast
    obtain us where us: "rest = ys # us" using merkle_levels_head [OF r(2)] by blast
    let ?j = "if i mod 2 = 1 then i - 1 else if length xs - 1 = i then i else i + 1"
    have "?j < length xs" using less.prems(2) by auto
    then have "idx_path_loop u i = Some (xs ! ?j # path)"
      using path(1) r(3) us by (simp add: Let_def)
    moreover have "sha (ys ! (i div 2)) = (if i mod 2 = 0
        then calculate_double_sha256 sha (sha (xs ! i) @ calculate_sha256 sha (xs ! ?j))
        else calculate_double_sha256 sha (calculate_sha256 sha (xs ! ?j) @ sha (xs ! i)))"
      unfolding merkle_level_nth [OF r(1) less.prems(2)]
      by (auto simp: calculate_double_sha256_def calculate_sha256_def odd_iff_mod_2_eq_one)
    ultimately show ?thesis
      using path(2,3) r(3) us by (auto simp: Let_def split: if_splits)
  qed
qed

lemma new_mid_state_levels:
  "new_mid_state sha enc txs = Some u \<Longrightarrow>
   merkle_levels (mid_node sha) (map (mid_state_txid sha enc) txs) = Some u"
  by (cases txs) (auto simp: new_mid_state_def merkle_levels.simps split: if_splits)

section \<open>Properties\<close>

text \<open>
  C32. Whenever the standard tree over the transaction ids can be built, so can the mid-state tree,
  and every node of the standard tree is the SHA-256 of the node of the mid-state tree in its
  place; so the block's Merkle root is the hash of the mid-state root.
\<close>

theorem mid_state_tree_refines:
  assumes "merkle_tree_new sha (map (txid sha enc) txs) = Some t"
  shows "\<exists>u. new_mid_state sha enc txs = Some u \<and> t = map (map (calculate_sha256 sha)) u"
proof (cases "length txs = 1")
  case True
  then show ?thesis
    using assms by (cases txs) (auto simp: merkle_tree_new_def new_mid_state_def txid_def Let_def)
next
  case False
  have "map (txid sha enc) txs = map sha (map (mid_state_txid sha enc) txs)"
    by (simp add: txid_def calculate_sha256_def Let_def)
  then have "merkle_levels (std_node sha) (map sha (map (mid_state_txid sha enc) txs)) = Some t"
    using assms False by (simp only: merkle_tree_new_def length_map if_False)
  then obtain u where "merkle_levels (mid_node sha) (map (mid_state_txid sha enc) txs) = Some u"
      "t = map (map sha) u"
    using merkle_levels_mid by blast
  moreover have "calculate_sha256 sha = sha" by (rule ext) (simp add: calculate_sha256_def)
  ultimately show ?thesis using False by (simp add: new_mid_state_def)
qed

definition plain_encoding :: "digest tx_encoding" where
  "plain_encoding = \<lparr>enc_version = id, enc_input = \<lambda>_. [], enc_output = \<lambda>_. [], enc_lock_time = \<lambda>_. []\<rparr>"

theorem mid_state_tree_refines_witness:
  "\<exists>u. new_mid_state id plain_encoding [[1], [2], [3]] = Some u"
proof -
  obtain t where "merkle_tree_new id (map (txid id plain_encoding) [[1], [2], [3]]) = Some t"
    by (simp add: merkle_tree_new_def merkle_levels.simps plain_encoding_def txid_def mid_state_txid_def
        calculate_double_sha256_def calculate_sha256_def Let_def)
  then show ?thesis using mid_state_tree_refines by blast
qed

text \<open>
  The proof generated from the mid-state tree for any transaction of the block leads from the
  transaction id to the hash of the mid-state root, the root the block header carries.
\<close>

theorem mid_state_proofs_verify:
  assumes "new_mid_state sha enc txs = Some u" "unat i < length txs"
  shows "\<exists>p root. merkle_generate_proof u i = Some p \<and> merkle_root_of u = Some root \<and>
    verify_merkle_proof sha (txid sha enc (txs ! unat i)) p (calculate_sha256 sha root)"
proof -
  let ?xs = "map (mid_state_txid sha enc) txs"
  have lv: "merkle_levels (mid_node sha) ?xs = Some u" by (rule new_mid_state_levels [OF assms(1)])
  obtain us where us: "u = ?xs # us" using merkle_levels_head [OF lv] by blast
  obtain path where path: "idx_path_loop u (unat i) = Some path" "last u \<noteq> []"
      "get_root_loop sha (unat i) path (sha (?xs ! unat i)) = sha (last u ! 0)"
    using mid_path_root [OF lv, of "unat i"] assms(2) by auto
  have "merkle_generate_proof u i = Some \<lparr>idx = i, merkle_proof = path\<rparr>"
    using path(1) assms(2) by (simp add: merkle_generate_proof_def get_idx_path_def us)
  moreover have "merkle_root_of u = Some (last u ! 0)"
    using path(2) us by (simp add: merkle_root_of_def last_conv_nth)
  ultimately show ?thesis
    using path(3) assms(2)
    by (simp add: verify_merkle_proof_def get_root_def txid_def calculate_sha256_def Let_def)
qed

theorem mid_state_proofs_verify_witness:
  "\<exists>u p root. new_mid_state id plain_encoding [[1], [2], [3]] = Some u \<and>
    merkle_generate_proof u 2 = Some p \<and> merkle_root_of u = Some root \<and>
    verify_merkle_proof id [3] p root"
proof -
  obtain u where u: "new_mid_state id plain_encoding [[1], [2], [3]] = Some u"
    by (simp add: new_mid_state_def merkle_levels.simps plain_encoding_def mid_state_txid_def
        calculate_double_sha256_def calculate_sha256_def Let_def)
  show ?thesis
    using mid_state_proofs_verify [OF u, of 2] u
    by (simp add: txid_def mid_state_txid_def plain_encoding_def calculate_sha256_def)
qed

text \<open>
  The SPV check accepts an honest input: a transaction of a block, the proof from the mid-state
  tree of the block, a header that carries the block's Merkle root, and the native range's
  proof for the header's place among the appended hashes.
\<close>

theorem spv_verify_complete:
  assumes "new_mid_state sha enc txs = Some u" "unat i < length txs"
    and "merkle_root_of u = Some root" "merkle_root hdr = calculate_sha256 sha root"
    and "length hashes < 2 ^ 32" "unat k < length hashes" "hashes ! unat k = compute_block_hash sha hdr"
  shows "\<exists>p n q g. merkle_generate_proof u i = Some p \<and>
    fold_option (native_append sha) native_new hashes = Some n \<and>
    generate_proof n k = Some (compute_block_hash sha hdr, q) \<and>
    fold_option (guest_append chk sha) guest_new hashes = Some g \<and>
    spv_verify chk sha enc \<lparr>transaction = txs ! unat i, block_inclusion_proof = p,
      block_header = hdr, mmr_proof = q\<rparr> g = Some True"
proof -
  obtain n where n: "fold_option (native_append sha) native_new hashes = Some n"
      "n = levels (hash_pair sha) hashes"
    using native.append_all_represents [OF native.represents_empty, of hashes sha] assms(5) by auto
  obtain g where g: "fold_option (guest_append chk sha) guest_new hashes = Some g"
      "subroots g = peaks (hash_pair sha) hashes"
    using guest.append_all_roots [OF assms(5)] by blast
  obtain q where q: "generate_proof n k = Some (hashes ! unat k, q)"
      "subroot_idx q < length (peaks (hash_pair sha) hashes)"
      "get_subroot chk sha q (hashes ! unat k) = Some (peaks (hash_pair sha) hashes ! subroot_idx q)"
    using generate_proof_levels [OF assms(6,5)] unfolding n(2) by blast
  have lv: "merkle_levels (mid_node sha) (map (mid_state_txid sha enc) txs) = Some u"
    by (rule new_mid_state_levels [OF assms(1)])
  obtain us where us: "u = map (mid_state_txid sha enc) txs # us" using merkle_levels_head [OF lv] by blast
  obtain path where path: "idx_path_loop u (unat i) = Some path" "last u \<noteq> []"
      "get_root_loop sha (unat i) path (sha (map (mid_state_txid sha enc) txs ! unat i)) = sha (last u ! 0)"
    using mid_path_root [OF lv, of "unat i"] assms(2) by auto
  have "last u ! 0 = root" using assms(3) us by (simp add: merkle_root_of_def last_conv_nth split: if_splits)
  then have "spv_verify chk sha enc \<lparr>transaction = txs ! unat i,
      block_inclusion_proof = \<lparr>idx = i, merkle_proof = path\<rparr>, block_header = hdr, mmr_proof = q\<rparr> g = Some True"
    using path(3) q(2,3) g(2) assms(2,4,7)
    by (simp add: spv_verify_def get_root_def txid_def calculate_sha256_def guest_verify_proof_def
        get_subroot_def Let_def)
  moreover have "merkle_generate_proof u i = Some \<lparr>idx = i, merkle_proof = path\<rparr>"
    using path(1) assms(2) by (simp add: merkle_generate_proof_def get_idx_path_def us)
  ultimately show ?thesis using n(1) g(1) q(1) assms(7) by auto
qed

theorem spv_verify_complete_witness:
  "\<exists>p n q g. merkle_generate_proof [[[1]]] 0 = Some p \<and>
    fold_option (native_append id) native_new [compute_block_hash id (sample_header\<lparr>merkle_root := [1]\<rparr>)] = Some n \<and>
    generate_proof n 0 = Some (compute_block_hash id (sample_header\<lparr>merkle_root := [1]\<rparr>), q) \<and>
    fold_option (guest_append True id) guest_new [compute_block_hash id (sample_header\<lparr>merkle_root := [1]\<rparr>)] = Some g \<and>
    spv_verify True id plain_encoding \<lparr>transaction = [1], block_inclusion_proof = p,
      block_header = sample_header\<lparr>merkle_root := [1]\<rparr>, mmr_proof = q\<rparr> g = Some True"
  using spv_verify_complete [of id plain_encoding "[[1]]" "[[[1]]]" 0 "[1]" "sample_header\<lparr>merkle_root := [1]\<rparr>"
      "[compute_block_hash id (sample_header\<lparr>merkle_root := [1]\<rparr>)]" 0 True]
  by (simp add: new_mid_state_def plain_encoding_def mid_state_txid_def calculate_sha256_def merkle_root_of_def)

text \<open>
  The final circuit does not depend on the inclusion of the block in the chain: for every
  verified chain and every transaction there is an input for which the inclusion proof is
  rejected and the circuit commits to the transaction all the same.
\<close>

theorem final_circuit_ignores_inclusion:
  assumes "verify (header_chain_guest_id net) out"
  shows "\<exists>s. transaction s = tx \<and>
    spv_verify chk sha enc s (block_hashes_mmr (out_chain_state out)) = Some False \<and>
    final_circuit chk net sha blake3 enc verify
      \<lparr>block_header_circuit_output = out, spv_input = s\<rparr> =
      Some (blake3 (txid sha enc tx @ best_block_hash (out_chain_state out) @ total_work (out_chain_state out)))"
proof -
  let ?m = "block_hashes_mmr (out_chain_state out)"
  let ?s = "\<lparr>transaction = tx, block_inclusion_proof = \<lparr>idx = 0, merkle_proof = []\<rparr>,
    block_header = sample_header\<lparr>merkle_root := txid sha enc tx\<rparr>,
    mmr_proof = \<lparr>subroot_idx = length (subroots ?m), internal_idx = 0, inclusion_proof = []\<rparr>\<rparr>"
  have "spv_verify chk sha enc ?s ?m = Some False"
    by (simp add: spv_verify_def get_root_def guest_verify_proof_def Let_def)
  then show ?thesis
    using assms by (intro exI [of _ ?s]) (simp add: final_circuit_def Let_def)
qed

theorem final_circuit_ignores_inclusion_witness:
  "\<exists>s. transaction s = [1] \<and>
    spv_verify True id plain_encoding s guest_new = Some False \<and>
    final_circuit True Mainnet id id plain_encoding (\<lambda>_ _. True)
      \<lparr>block_header_circuit_output = \<lparr>method_id = [], out_chain_state = chain_state_new Mainnet\<rparr>, spv_input = s\<rparr> \<noteq> None"
  using final_circuit_ignores_inclusion [of "\<lambda>_ _. True" Mainnet
      "\<lparr>method_id = [], out_chain_state = chain_state_new Mainnet\<rparr>" "[1]" True id plain_encoding id]
  by (auto simp: chain_state_new_def)

end
