(* ===== verification/Bridge_Base.thy ===== *)
theory Bridge_Base
  imports Prelude
begin

text \<open>
  The vocabulary of the bridge crate (\<open>src/bridge/src\<close>): \<open>constants.rs\<close>,
  \<open>utils.rs\<close> (blocks per network), \<open>graphs/base.rs\<close> and \<open>transactions/base.rs\<close> (dust and relay
  fees), \<open>scripts.rs\<close> and \<open>connectors/base.rs\<close> (scripts, addresses and transaction inputs).

  A script is the list of its items in source order. A sub-script that the \<open>bitvm\<close> crate
  generates (Winternitz verification, SHA-256, number conversions) is one named item with its
  arguments. A taproot output is the internal key with the depths and scripts of the leaves
  handed to the \<open>TaprootBuilder\<close>; hashing and tweaking are not expanded.
\<close>

section \<open>Keys, outpoints, transactions\<close>

datatype btc_network = Btc_Mainnet | Btc_Testnet | Btc_Testnet4 | Btc_Signet | Btc_Regtest

type_synonym xonly_key = nat

datatype public_key = Public_Key (key_odd: bool) (key_x: nat)

text \<open>\<open>XOnlyPublicKey::from(PublicKey)\<close> drops the parity of the key.\<close>

definition xonly_of :: "public_key \<Rightarrow> xonly_key" where
  "xonly_of k = key_x k"

text \<open>A Winternitz public key is the list of the hash chain ends.\<close>

type_synonym winternitz_key = "nat list"

datatype script_item =
    Op string
  | Num nat
  | Pubkey public_key
  | Xonly xonly_key
  | Bytes "nat list"
  | Winternitz_checksig winternitz_key
  | Winternitz_checksig_verify winternitz_key nat
  | Digits_to_number nat
  | Sb_hash_from_nibbles
  | Sb_hash_from_bytes
  | H256_toaltstack
  | H256_fromaltstack
  | H256_lessthan nat nat
  | Extract_superblock_ts
  | Sha256_of_bytes nat
  | Sha256_32bytes

type_synonym bridge_script = "script_item list"

datatype spend_info = Spend_Info (internal_key: xonly_key) (tap_leaves: "(nat \<times> bridge_script) list")

datatype script_pubkey = P2wsh bridge_script | P2tr spend_info | Empty_Script

datatype address = Address (addr_network: btc_network) (addr_script_pubkey: script_pubkey)

type_synonym tx_hash = nat

datatype outpoint = Outpoint (op_txid: tx_hash) (op_vout: nat)

record tx_in =
  previous_output :: outpoint
  script_sig :: "nat list"
  tx_sequence :: nat
  witness :: "nat list list"

record tx_out =
  tx_value :: nat
  tx_script_pubkey :: script_pubkey

record btc_tx =
  tx_version :: nat
  tx_lock_time :: nat
  tx_input :: "tx_in list"
  tx_output :: "tx_out list"

record tx_input_ref =
  in_outpoint :: outpoint
  in_amount :: nat

section \<open>Amounts\<close>

text \<open>\<open>bitcoin::Amount\<close> is a \<open>u64\<close> of satoshis whose operators panic out of range.\<close>

definition amt_add :: "nat \<Rightarrow> nat \<Rightarrow> nat option" where
  "amt_add a b = (if a + b < 2 ^ 64 then Some (a + b) else None)"

definition amt_mul :: "nat \<Rightarrow> nat \<Rightarrow> nat option" where
  "amt_mul a k = (if a * k < 2 ^ 64 then Some (a * k) else None)"

lemma amt_add_Some_iff: "amt_add a b = Some c \<longleftrightarrow> a + b < 2 ^ 64 \<and> c = a + b"
  by (auto simp: amt_add_def)

lemma amt_mul_Some_iff: "amt_mul a b = Some c \<longleftrightarrow> a * b < 2 ^ 64 \<and> c = a * b"
  by (auto simp: amt_mul_def)

lemmas amt_Some_iffs = amt_add_Some_iff amt_mul_Some_iff checked_sub_Some_iff bind_eq_Some_conv

section \<open>Blocks per network\<close>

definition num_blocks_per_hour :: nat where "num_blocks_per_hour = 6"
definition num_blocks_per_6_hours :: nat where "num_blocks_per_6_hours = num_blocks_per_hour * 6"
definition num_blocks_per_day :: nat where "num_blocks_per_day = num_blocks_per_hour * 24"
definition num_blocks_per_3_days :: nat where "num_blocks_per_3_days = num_blocks_per_day * 3"
definition num_blocks_per_week :: nat where "num_blocks_per_week = num_blocks_per_day * 7"
definition num_blocks_per_2_weeks :: nat where "num_blocks_per_2_weeks = num_blocks_per_week * 2"
definition num_blocks_per_4_weeks :: nat where "num_blocks_per_4_weeks = num_blocks_per_week * 4"
definition n_sequence_for_lock_time :: nat where "n_sequence_for_lock_time = 0xFFFFFFFE"
definition start_time_message_length :: nat where "start_time_message_length = 4"
definition source_network_txid_length :: nat where "source_network_txid_length = 64"
definition destination_network_txid_length :: nat where "destination_network_txid_length = 64"

lemmas num_blocks_defs = num_blocks_per_hour_def num_blocks_per_6_hours_def num_blocks_per_day_def
  num_blocks_per_3_days_def num_blocks_per_week_def num_blocks_per_2_weeks_def
  num_blocks_per_4_weeks_def n_sequence_for_lock_time_def

fun num_blocks_per_network :: "btc_network \<Rightarrow> nat \<Rightarrow> nat" where
  "num_blocks_per_network Btc_Mainnet n = n"
| "num_blocks_per_network Btc_Regtest n = 2"
| "num_blocks_per_network _ n = 2"

section \<open>Fees\<close>

text \<open>\<open>bitcoin::policy\<close> (third party) supplies the two rates, in satoshis per 1000 virtual bytes.\<close>

record fee_policy =
  default_min_relay_tx_fee :: nat
  dust_relay_tx_fee :: nat

definition min_relay_fee_rate :: "fee_policy \<Rightarrow> nat" where
  "min_relay_fee_rate pol = default_min_relay_tx_fee pol div 1000"

definition dust_relay_fee_rate :: "fee_policy \<Rightarrow> nat" where
  "dust_relay_fee_rate pol = dust_relay_tx_fee pol div 1000"

definition dust_amount :: "fee_policy \<Rightarrow> nat" where
  "dust_amount pol = (43 + 67) * dust_relay_fee_rate pol"

text \<open>
  \<open>relay_fee\<close> goes through \<open>f32\<close>, which rounds an integer of more than 24 bits to the nearest
  multiple of a power of two (ties to even); the multiplier is \<open>1.0\<close>.
\<close>

fun nat_bits :: "nat \<Rightarrow> nat" where
  "nat_bits n = (if n = 0 then 0 else Suc (nat_bits (n div 2)))"

declare nat_bits.simps [simp del]

definition as_f32 :: "nat \<Rightarrow> nat" where
  "as_f32 n =
     (if nat_bits n \<le> 24 then n
      else let unit_size = 2 ^ (nat_bits n - 24); q = n div unit_size; r = n mod unit_size in
        if unit_size < 2 * r \<or> unit_size = 2 * r \<and> odd q then Suc q * unit_size else q * unit_size)"

definition relay_fee :: "fee_policy \<Rightarrow> nat \<Rightarrow> nat" where
  "relay_fee pol vsize = as_f32 vsize * min_relay_fee_rate pol"

lemma nat_bits_le: "n < 2 ^ k \<Longrightarrow> nat_bits n \<le> k"
proof (induction k arbitrary: n)
  case 0
  then show ?case by (simp add: nat_bits.simps)
next
  case (Suc k)
  then have "n div 2 < 2 ^ k" by auto
  from Suc.IH [OF this] show ?case by (subst nat_bits.simps) auto
qed

text \<open>Below \<open>2 ^ 24\<close> the conversion is exact, and so is every fee of the protocol.\<close>

lemma relay_fee_exact: "n < 2 ^ 24 \<Longrightarrow> relay_fee pol n = n * min_relay_fee_rate pol"
  using nat_bits_le [of n 24] by (simp add: relay_fee_def as_f32_def)

definition min_relay_fee_kick_off_1 :: "fee_policy \<Rightarrow> nat" where
  "min_relay_fee_kick_off_1 pol = relay_fee pol 6231"

definition min_relay_fee_start_time :: "fee_policy \<Rightarrow> nat" where
  "min_relay_fee_start_time pol = relay_fee pol 407"

definition min_relay_fee_start_time_timeout :: "fee_policy \<Rightarrow> nat" where
  "min_relay_fee_start_time_timeout pol = relay_fee pol 265"

definition min_relay_fee_kick_off_2 :: "fee_policy \<Rightarrow> nat" where
  "min_relay_fee_kick_off_2 pol = relay_fee pol 5461"

definition min_relay_fee_kick_off_timeout :: "fee_policy \<Rightarrow> nat" where
  "min_relay_fee_kick_off_timeout pol = relay_fee pol 182"

definition min_relay_fee_take_1 :: "fee_policy \<Rightarrow> nat" where
  "min_relay_fee_take_1 pol = relay_fee pol 380"

definition min_relay_fee_take_2 :: "fee_policy \<Rightarrow> nat" where
  "min_relay_fee_take_2 pol = relay_fee pol 347"

definition min_relay_fee_peg_in_deposit :: "fee_policy \<Rightarrow> nat" where
  "min_relay_fee_peg_in_deposit pol = relay_fee pol 122"

definition min_relay_fee_peg_in_confirm :: "fee_policy \<Rightarrow> nat" where
  "min_relay_fee_peg_in_confirm pol = relay_fee pol 173"

definition min_relay_fee_peg_in_refund :: "fee_policy \<Rightarrow> nat" where
  "min_relay_fee_peg_in_refund pol = relay_fee pol 138"

definition min_relay_fee_peg_out :: "fee_policy \<Rightarrow> nat" where
  "min_relay_fee_peg_out pol = relay_fee pol 122"

definition min_relay_fee_peg_out_confirm :: "fee_policy \<Rightarrow> nat" where
  "min_relay_fee_peg_out_confirm pol = relay_fee pol 122"

definition min_relay_fee_assert :: "fee_policy \<Rightarrow> nat" where
  "min_relay_fee_assert pol = relay_fee pol 232"

definition min_relay_fee_assert_initial :: "fee_policy \<Rightarrow> nat" where
  "min_relay_fee_assert_initial pol = relay_fee pol 48953"

definition min_relay_fee_assert_commit1 :: "fee_policy \<Rightarrow> nat" where
  "min_relay_fee_assert_commit1 pol = relay_fee pol 739137"

definition min_relay_fee_assert_commit2 :: "fee_policy \<Rightarrow> nat" where
  "min_relay_fee_assert_commit2 pol = relay_fee pol 470440"

definition min_relay_fee_assert_final :: "fee_policy \<Rightarrow> nat" where
  "min_relay_fee_assert_final pol = relay_fee pol 352"

definition min_relay_fee_challenge :: "fee_policy \<Rightarrow> nat" where
  "min_relay_fee_challenge pol = relay_fee pol 317"

definition min_relay_fee_disprove :: "fee_policy \<Rightarrow> nat" where
  "min_relay_fee_disprove pol = relay_fee pol 238785"

definition min_relay_fee_disprove_chain :: "fee_policy \<Rightarrow> nat" where
  "min_relay_fee_disprove_chain pol = relay_fee pol 389370"

lemmas min_relay_fee_defs =
  min_relay_fee_kick_off_1_def
  min_relay_fee_start_time_def
  min_relay_fee_start_time_timeout_def
  min_relay_fee_kick_off_2_def
  min_relay_fee_kick_off_timeout_def
  min_relay_fee_take_1_def
  min_relay_fee_take_2_def
  min_relay_fee_peg_in_deposit_def
  min_relay_fee_peg_in_confirm_def
  min_relay_fee_peg_in_refund_def
  min_relay_fee_peg_out_def
  min_relay_fee_peg_out_confirm_def
  min_relay_fee_assert_def
  min_relay_fee_assert_initial_def
  min_relay_fee_assert_commit1_def
  min_relay_fee_assert_commit2_def
  min_relay_fee_assert_final_def
  min_relay_fee_challenge_def
  min_relay_fee_disprove_def
  min_relay_fee_disprove_chain_def

lemma min_relay_fee_values:
  "min_relay_fee_kick_off_1 pol = 6231 * min_relay_fee_rate pol"
  "min_relay_fee_start_time pol = 407 * min_relay_fee_rate pol"
  "min_relay_fee_start_time_timeout pol = 265 * min_relay_fee_rate pol"
  "min_relay_fee_kick_off_2 pol = 5461 * min_relay_fee_rate pol"
  "min_relay_fee_kick_off_timeout pol = 182 * min_relay_fee_rate pol"
  "min_relay_fee_take_1 pol = 380 * min_relay_fee_rate pol"
  "min_relay_fee_take_2 pol = 347 * min_relay_fee_rate pol"
  "min_relay_fee_peg_in_deposit pol = 122 * min_relay_fee_rate pol"
  "min_relay_fee_peg_in_confirm pol = 173 * min_relay_fee_rate pol"
  "min_relay_fee_peg_in_refund pol = 138 * min_relay_fee_rate pol"
  "min_relay_fee_peg_out pol = 122 * min_relay_fee_rate pol"
  "min_relay_fee_peg_out_confirm pol = 122 * min_relay_fee_rate pol"
  "min_relay_fee_assert pol = 232 * min_relay_fee_rate pol"
  "min_relay_fee_assert_initial pol = 48953 * min_relay_fee_rate pol"
  "min_relay_fee_assert_commit1 pol = 739137 * min_relay_fee_rate pol"
  "min_relay_fee_assert_commit2 pol = 470440 * min_relay_fee_rate pol"
  "min_relay_fee_assert_final pol = 352 * min_relay_fee_rate pol"
  "min_relay_fee_challenge pol = 317 * min_relay_fee_rate pol"
  "min_relay_fee_disprove pol = 238785 * min_relay_fee_rate pol"
  "min_relay_fee_disprove_chain pol = 389370 * min_relay_fee_rate pol"
  by (simp_all add: min_relay_fee_defs relay_fee_exact)

definition min_relay_fee_assert_set :: "fee_policy \<Rightarrow> nat" where
  "min_relay_fee_assert_set pol = min_relay_fee_assert_initial pol + min_relay_fee_assert_commit1 pol
     + min_relay_fee_assert_commit2 pol + min_relay_fee_assert_final pol"

definition peg_out_fee :: "fee_policy \<Rightarrow> nat" where
  "peg_out_fee pol = min_relay_fee_peg_out_confirm pol + min_relay_fee_kick_off_1 pol
     + min_relay_fee_start_time pol + min_relay_fee_kick_off_2 pol + min_relay_fee_assert_set pol
     + min_relay_fee_disprove pol"

definition peg_in_fee :: "fee_policy \<Rightarrow> nat" where
  "peg_in_fee pol = min_relay_fee_peg_in_deposit pol
     + max (min_relay_fee_peg_in_confirm pol) (min_relay_fee_peg_in_refund pol)"

text \<open>The rates of the Bitcoin Core policy, which the crate documents.\<close>

definition core_policy :: fee_policy where
  "core_policy = \<lparr>default_min_relay_tx_fee = 1000, dust_relay_tx_fee = 3000\<rparr>"

lemma core_policy_values [simp]:
  "min_relay_fee_rate core_policy = 1" "dust_amount core_policy = 330"
  by (simp_all add: core_policy_def min_relay_fee_rate_def dust_amount_def dust_relay_fee_rate_def)

section \<open>Scripts\<close>

text \<open>The unspendable keys are constants of \<open>scripts.rs\<close> (the first one by its x coordinate).\<close>

definition unspendable_public_key :: public_key where
  "unspendable_public_key =
     Public_Key True 0x05f818748aecbc8c67a4e61a03cee506888f49480cf343363b04908ed51e25b9"

definition unspendable_taproot_public_key :: xonly_key where
  "unspendable_taproot_public_key =
     0x50929b74c1a04954b78b4b6035e97a5e078a5a0f28ec96d547bfee9ace803ac0"

definition generate_pay_to_pubkey_script :: "public_key \<Rightarrow> bridge_script" where
  "generate_pay_to_pubkey_script k = [Pubkey k, Op ''OP_CHECKSIG'']"

definition generate_pay_to_pubkey_taproot_script :: "xonly_key \<Rightarrow> bridge_script" where
  "generate_pay_to_pubkey_taproot_script k = [Xonly k, Op ''OP_CHECKSIG'']"

definition generate_burn_script :: bridge_script where
  "generate_burn_script = generate_pay_to_pubkey_script unspendable_public_key"

definition generate_burn_taproot_script :: bridge_script where
  "generate_burn_taproot_script = generate_pay_to_pubkey_taproot_script unspendable_taproot_public_key"

definition p2wsh_address :: "btc_network \<Rightarrow> bridge_script \<Rightarrow> address" where
  "p2wsh_address net s = Address net (P2wsh s)"

definition generate_burn_script_address :: "btc_network \<Rightarrow> address" where
  "generate_burn_script_address net = p2wsh_address net generate_burn_script"

definition generate_pay_to_pubkey_script_address :: "btc_network \<Rightarrow> public_key \<Rightarrow> address" where
  "generate_pay_to_pubkey_script_address net k = p2wsh_address net (generate_pay_to_pubkey_script k)"

definition generate_pay_to_pubkey_taproot_script_address :: "btc_network \<Rightarrow> xonly_key \<Rightarrow> address" where
  "generate_pay_to_pubkey_taproot_script_address net k =
     p2wsh_address net (generate_pay_to_pubkey_taproot_script k)"

definition generate_timelock_script :: "public_key \<Rightarrow> nat \<Rightarrow> bridge_script" where
  "generate_timelock_script k n = [Num n, Op ''OP_CSV'', Op ''OP_DROP'', Pubkey k, Op ''OP_CHECKSIG'']"

definition generate_timelock_script_address :: "btc_network \<Rightarrow> public_key \<Rightarrow> nat \<Rightarrow> address" where
  "generate_timelock_script_address net k n = p2wsh_address net (generate_timelock_script k n)"

definition generate_timelock_taproot_script :: "xonly_key \<Rightarrow> nat \<Rightarrow> bridge_script" where
  "generate_timelock_taproot_script k n =
     [Num n, Op ''OP_CSV'', Op ''OP_DROP'', Xonly k, Op ''OP_CHECKSIG'']"

text \<open>
  The inscription of a peg-out: the script drops a hash of the withdrawer's key hash, the
  timestamp and the address of the withdrawer on the other chain, then pays to the key hash.
  The hashes (RIPEMD-160 of SHA-256) are an argument.
\<close>

definition be_bytes_u32 :: "nat \<Rightarrow> nat list" where
  "be_bytes_u32 n = [n div 2 ^ 24 mod 256, n div 2 ^ 16 mod 256, n div 2 ^ 8 mod 256, n mod 256]"

definition generate_pay_to_pubkey_hash_with_inscription_script ::
  "(nat list \<Rightarrow> nat list) \<Rightarrow> nat list \<Rightarrow> nat \<Rightarrow> string \<Rightarrow> bridge_script" where
  "generate_pay_to_pubkey_hash_with_inscription_script ripemd_sha key_hash timestamp evm_address =
     (let inscription = key_hash @ be_bytes_u32 timestamp @ map of_char evm_address in
      [Op ''OP_FALSE'', Op ''OP_IF'', Bytes (ripemd_sha inscription), Op ''OP_ENDIF'',
       Op ''OP_DUP'', Op ''OP_HASH160'', Bytes key_hash, Op ''OP_EQUALVERIFY'', Op ''OP_CHECKSIG''])"

definition generate_pay_to_pubkey_hash_with_inscription_script_address ::
  "(nat list \<Rightarrow> nat list) \<Rightarrow> btc_network \<Rightarrow> nat list \<Rightarrow> nat \<Rightarrow> string \<Rightarrow> address" where
  "generate_pay_to_pubkey_hash_with_inscription_script_address ripemd_sha net key_hash timestamp evm_address =
     p2wsh_address net
       (generate_pay_to_pubkey_hash_with_inscription_script ripemd_sha key_hash timestamp evm_address)"

section \<open>Transaction inputs\<close>

definition generate_default_tx_in :: "tx_input_ref \<Rightarrow> tx_in" where
  "generate_default_tx_in inp =
     \<lparr>previous_output = in_outpoint inp, script_sig = [], tx_sequence = 0xFFFFFFFF, witness = []\<rparr>"

definition generate_timelock_tx_in :: "tx_input_ref \<Rightarrow> nat \<Rightarrow> tx_in" where
  "generate_timelock_tx_in inp num_blocks = (generate_default_tx_in inp)\<lparr>tx_sequence := num_blocks\<rparr>"

definition generate_check_lock_time_tx_in :: "tx_input_ref \<Rightarrow> nat \<Rightarrow> tx_in" where
  "generate_check_lock_time_tx_in inp num_blocks = (generate_default_tx_in inp)\<lparr>tx_sequence := num_blocks\<rparr>"

lemmas tx_in_defs = generate_default_tx_in_def generate_timelock_tx_in_def
  generate_check_lock_time_tx_in_def

section \<open>Time locks of a script and of an input\<close>

text \<open>
  What the script machine of Bitcoin asks of the sequence number of the spending input: for
  \<open>n OP_CSV\<close> (BIP 112) the disable bits, the unit bit and the low 16 bits are compared; for
  \<open>OP_CLTV\<close> (BIP 65) the sequence number must not be final.
\<close>

fun csv_delays :: "bridge_script \<Rightarrow> nat list" where
  "csv_delays (Num n # Op opn # s) = (if opn = ''OP_CSV'' then n # csv_delays s else csv_delays (Op opn # s))"
| "csv_delays (x # s) = csv_delays s"
| "csv_delays [] = []"

definition csv_satisfied :: "nat \<Rightarrow> nat \<Rightarrow> bool" where
  "csv_satisfied n seq_no \<longleftrightarrow>
     odd (n div 2 ^ 31) \<or>
     even (seq_no div 2 ^ 31) \<and> (n div 2 ^ 22) mod 2 = (seq_no div 2 ^ 22) mod 2 \<and>
       n mod 2 ^ 16 \<le> seq_no mod 2 ^ 16"

definition locks_met :: "bridge_script \<Rightarrow> tx_in \<Rightarrow> bool" where
  "locks_met s t \<longleftrightarrow>
     (\<forall>n \<in> set (csv_delays s). csv_satisfied n (tx_sequence t)) \<and>
     (Op ''OP_CLTV'' \<in> set s \<longrightarrow> tx_sequence t < 0xFFFFFFFF)"

lemma csv_satisfied_refl [simp]: "csv_satisfied n n"
  by (auto simp: csv_satisfied_def)

text \<open>The depths of the leaves of a taproot tree, in order, form a full binary tree.\<close>

definition full_tree :: "nat list \<Rightarrow> bool" where
  "full_tree ds \<longleftrightarrow> (\<Sum>d\<leftarrow>ds. 2 ^ (16 - d)) = (2 ^ 16 :: nat) \<and> (\<forall>d \<in> set ds. d \<le> 16)"

lemma locks_met_pay_to_pubkey [simp]:
  "locks_met (generate_pay_to_pubkey_script k) t"
  "locks_met (generate_pay_to_pubkey_taproot_script x) t"
  by (simp_all add: locks_met_def generate_pay_to_pubkey_script_def
      generate_pay_to_pubkey_taproot_script_def)

lemma locks_met_timelock [simp]:
  "locks_met (generate_timelock_script k n) (generate_timelock_tx_in inp n)"
  "locks_met (generate_timelock_taproot_script x n) (generate_timelock_tx_in inp n)"
  by (simp_all add: locks_met_def generate_timelock_script_def
      generate_timelock_taproot_script_def generate_timelock_tx_in_def)

lemma previous_output_tx_in [simp]:
  "previous_output (generate_default_tx_in inp) = in_outpoint inp"
  "previous_output (generate_timelock_tx_in inp n) = in_outpoint inp"
  by (simp_all add: tx_in_defs)

end
