(* ===== verification/Commitments.thy ===== *)
theory Commitments
  imports Bridge_Base "HOL-Library.Char_ord" "HOL-Library.List_Lexorder" "HOL-Library.Multiset"
begin

text \<open>
  The messages an operator commits to (\<open>commitments.rs\<close>) and how the commitments to the
  intermediate values of the Groth16 verifier are dealt out to the connectors of the two assert
  commit transactions (\<open>transactions/assert_transactions/utils.rs\<close>).
\<close>

section \<open>Commitment messages\<close>

datatype commitment_message_id =
    PegOutTxIdSourceNetwork
  | PegOutTxIdDestinationNetwork
  | StartTime
  | Superblock
  | SuperblockHash
  | Groth16IntermediateValues string nat

text \<open>The derived order: variants in declaration order, then the name, then the length.\<close>

fun variant_index :: "commitment_message_id \<Rightarrow> nat" where
  "variant_index PegOutTxIdSourceNetwork = 0"
| "variant_index PegOutTxIdDestinationNetwork = 1"
| "variant_index StartTime = 2"
| "variant_index Superblock = 3"
| "variant_index SuperblockHash = 4"
| "variant_index (Groth16IntermediateValues _ _) = 5"

fun variant_name :: "commitment_message_id \<Rightarrow> string" where
  "variant_name (Groth16IntermediateValues name _) = name"
| "variant_name _ = []"

fun variant_size :: "commitment_message_id \<Rightarrow> nat" where
  "variant_size (Groth16IntermediateValues _ sz) = sz"
| "variant_size _ = 0"

lemma variant_eqI:
  "\<lbrakk>variant_index a = variant_index b; variant_name a = variant_name b; variant_size a = variant_size b\<rbrakk>
     \<Longrightarrow> a = b"
  by (cases a; cases b) simp_all

instantiation commitment_message_id :: linorder
begin

definition less_commitment_message_id :: "commitment_message_id \<Rightarrow> commitment_message_id \<Rightarrow> bool" where
  "less_commitment_message_id a b \<longleftrightarrow>
     variant_index a < variant_index b \<or>
     variant_index a = variant_index b \<and>
       (variant_name a < variant_name b \<or>
        variant_name a = variant_name b \<and> variant_size a < variant_size b)"

definition less_eq_commitment_message_id :: "commitment_message_id \<Rightarrow> commitment_message_id \<Rightarrow> bool" where
  "less_eq_commitment_message_id a b \<longleftrightarrow> a < b \<or> a = (b :: commitment_message_id)"

instance
proof
  fix a b c :: commitment_message_id
  show "(a < b) = (a \<le> b \<and> \<not> b \<le> a)"
    by (auto simp: less_commitment_message_id_def less_eq_commitment_message_id_def)
  show "a \<le> a" by (simp add: less_eq_commitment_message_id_def)
  show "a \<le> b \<Longrightarrow> b \<le> c \<Longrightarrow> a \<le> c"
    by (auto simp: less_commitment_message_id_def less_eq_commitment_message_id_def)
  show "a \<le> b \<Longrightarrow> b \<le> a \<Longrightarrow> a = b"
    by (auto simp: less_commitment_message_id_def less_eq_commitment_message_id_def)
  show "a \<le> b \<or> b \<le> a"
    using variant_eqI [of a b]
    by (cases "variant_size a = variant_size b"; cases "variant_name a = variant_name b";
        cases "variant_index a = variant_index b")
      (auto simp: less_commitment_message_id_def less_eq_commitment_message_id_def)
qed

end

section \<open>Decimal numbers\<close>

definition digit_char :: "nat \<Rightarrow> char" where
  "digit_char d = char_of (48 + d)"

definition char_digit :: "char \<Rightarrow> nat option" where
  "char_digit c = (let n = of_char c in if 48 \<le> n \<and> n \<le> 57 then Some (n - 48) else None)"

fun show_nat :: "nat \<Rightarrow> string" where
  "show_nat n = (if n < 10 then [digit_char n] else show_nat (n div 10) @ [digit_char (n mod 10)])"

declare show_nat.simps [simp del]

text \<open>\<open>from_str_radix\<close> and \<open>parse\<close> of an unsigned type of the given width.\<close>

fun parse_digits :: "nat \<Rightarrow> nat \<Rightarrow> string \<Rightarrow> nat option" where
  "parse_digits w acc [] = Some acc"
| "parse_digits w acc (c # cs) =
     char_digit c \<bind> (\<lambda>d. if acc * 10 + d < 2 ^ w then parse_digits w (acc * 10 + d) cs else None)"

definition parse_unsigned :: "nat \<Rightarrow> string \<Rightarrow> nat option" where
  "parse_unsigned w s =
     (case s of
        [] \<Rightarrow> None
      | [c] \<Rightarrow> if c = CHR ''+'' \<or> c = CHR ''-'' then None else parse_digits w 0 s
      | c # cs \<Rightarrow> if c = CHR ''+'' then parse_digits w 0 cs else parse_digits w 0 s)"

lemma of_char_digit_char: "d < 10 \<Longrightarrow> of_char (digit_char d) = 48 + d"
  by (simp add: digit_char_def)

lemma char_digit_digit_char [simp]: "d < 10 \<Longrightarrow> char_digit (digit_char d) = Some d"
  by (simp add: char_digit_def of_char_digit_char)

lemma digit_char_neq:
  assumes "d < 10" and "of_char c < (48 :: nat) \<or> (57 :: nat) < of_char c"
  shows "digit_char d \<noteq> c"
  using assms of_char_digit_char [of d] by auto

lemma parse_digits_append:
  "parse_digits w acc (s @ t) = parse_digits w acc s \<bind> (\<lambda>a. parse_digits w a t)"
  by (induction s arbitrary: acc) (simp_all split: Option.bind_splits)

lemma parse_digits_show_nat: "n < 2 ^ w \<Longrightarrow> parse_digits w 0 (show_nat n) = Some n"
proof (induction n rule: show_nat.induct)
  case (1 n)
  show ?case
  proof (cases "n < 10")
    case True
    then show ?thesis using 1 by (simp add: show_nat.simps)
  next
    case False
    have le: "n div 10 < 2 ^ w" using 1(2) by (meson div_le_dividend le_less_trans)
    have "show_nat n = show_nat (n div 10) @ [digit_char (n mod 10)]"
      using False by (simp add: show_nat.simps [of n])
    moreover have "n div 10 * 10 + n mod 10 = n" by presburger
    ultimately show ?thesis using 1(1) [OF False le] 1(2)
      by (simp add: parse_digits_append)
  qed
qed

lemma show_nat_not_Nil [simp]: "show_nat n \<noteq> []"
  by (simp add: show_nat.simps)

lemma set_show_nat: "c \<in> set (show_nat n) \<Longrightarrow> 48 \<le> (of_char c :: nat) \<and> of_char c \<le> (57 :: nat)"
proof (induction n arbitrary: c rule: show_nat.induct)
  case (1 n)
  show ?case
  proof (cases "n < 10")
    case True
    then have "c = digit_char n" using 1(2) by (simp add: show_nat.simps [of n])
    then show ?thesis using True by (simp add: of_char_digit_char)
  next
    case False
    then have "c \<in> set (show_nat (n div 10)) \<or> c = digit_char (n mod 10)"
      using 1(2) by (auto simp: show_nat.simps [of n])
    then show ?thesis using 1(1) [OF False, of c] by (auto simp: of_char_digit_char)
  qed
qed

lemma parse_unsigned_show_nat: "n < 2 ^ w \<Longrightarrow> parse_unsigned w (show_nat n) = Some n"
  using parse_digits_show_nat [of n w] set_show_nat [of _ n]
  by (fastforce simp: parse_unsigned_def split: list.split)

lemma show_nat_inject: "show_nat m = show_nat n \<Longrightarrow> m = n"
  using parse_digits_show_nat [of m "m + n"] parse_digits_show_nat [of n "m + n"]
  by (metis add_lessD1 less_exp option.inject add.commute)

section \<open>Text form of a message id\<close>

fun display :: "commitment_message_id \<Rightarrow> string" where
  "display PegOutTxIdSourceNetwork = ''PegOutTxIdSourceNetwork''"
| "display PegOutTxIdDestinationNetwork = ''PegOutTxIdDestinationNetwork''"
| "display StartTime = ''StartTime''"
| "display Superblock = ''Superblock''"
| "display SuperblockHash = ''SuperblockHash''"
| "display (Groth16IntermediateValues _ _) = ''Groth16IntermediateValues''"

definition val_separator :: char where
  "val_separator = CHR ''|''"

fun commitment_to_string :: "commitment_message_id \<Rightarrow> string" where
  "commitment_to_string (Groth16IntermediateValues variable_name sz) =
     ''Groth16IntermediateValues'' @ [val_separator] @ variable_name @ [val_separator] @ show_nat sz"
| "commitment_to_string cid = display cid"

text \<open>\<open>str::split\<close> on one character.\<close>

fun split_on :: "char \<Rightarrow> string \<Rightarrow> string list" where
  "split_on c [] = [[]]"
| "split_on c (x # xs) =
     (if x = c then [] # split_on c xs
      else case split_on c xs of p # ps \<Rightarrow> (x # p) # ps | [] \<Rightarrow> [[x]])"

datatype commitment_error = Invalid_Format | Invalid_Size | Unknown_Id

text \<open>The variants in the order of \<open>EnumIter\<close>; the payload of the last one is the default.\<close>

definition commitment_variants :: "commitment_message_id list" where
  "commitment_variants =
     [PegOutTxIdSourceNetwork, PegOutTxIdDestinationNetwork, StartTime, Superblock, SuperblockHash,
      Groth16IntermediateValues [] 0]"

definition starts_with :: "string \<Rightarrow> string \<Rightarrow> bool" where
  "starts_with p s \<longleftrightarrow> take (length p) s = p"

definition parse_groth16 :: "string \<Rightarrow> commitment_error + commitment_message_id" where
  "parse_groth16 s =
     (let parts = split_on val_separator s in
      if length parts \<noteq> 3 then Inl Invalid_Format
      else case parse_unsigned 64 (parts ! 2) of
             None \<Rightarrow> Inl Invalid_Size
           | Some sz \<Rightarrow> Inr (Groth16IntermediateValues (parts ! 1) sz))"

fun try_variants :: "commitment_message_id list \<Rightarrow> string \<Rightarrow> commitment_error + commitment_message_id" where
  "try_variants [] s = Inl Unknown_Id"
| "try_variants (v # vs) s =
     (if s = display v then Inr v
      else if starts_with (''Groth16IntermediateValues'' @ [val_separator]) s then parse_groth16 s
      else try_variants vs s)"

definition commitment_try_from :: "string \<Rightarrow> commitment_error + commitment_message_id" where
  "commitment_try_from s = try_variants commitment_variants s"

lemma split_on_not_Nil [simp]: "split_on c s \<noteq> []"
  by (induction s) (auto split: list.split)

lemma split_on_no_sep: "c \<notin> set s \<Longrightarrow> split_on c s = [s]"
  by (induction s) auto

lemma split_on_append_sep: "c \<notin> set s \<Longrightarrow> split_on c (s @ c # t) = s # split_on c t"
  by (induction s) auto

lemma length_split_on: "length (split_on c s) = Suc (count_list s c)"
  by (induction s) (auto split: list.split)

lemma try_from_groth16:
  "starts_with (''Groth16IntermediateValues'' @ [val_separator]) s \<Longrightarrow> commitment_try_from s = parse_groth16 s"
  by (auto simp: commitment_try_from_def commitment_variants_def starts_with_def val_separator_def)

lemma sep_not_digit: "val_separator \<notin> set (show_nat n)"
  using set_show_nat [of val_separator n] by (auto simp: val_separator_def)

lemma parse_groth16_print:
  assumes "sz < 2 ^ 64"
  shows "parse_groth16 (commitment_to_string (Groth16IntermediateValues name sz)) =
    (if val_separator \<in> set name then Inl Invalid_Format else Inr (Groth16IntermediateValues name sz))"
proof -
  let ?s = "''Groth16IntermediateValues'' @ val_separator # name @ val_separator # show_nat sz"
  have pre: "val_separator \<notin> set ''Groth16IntermediateValues''" by (simp add: val_separator_def)
  have 1: "split_on val_separator ?s =
      ''Groth16IntermediateValues'' # split_on val_separator (name @ val_separator # show_nat sz)"
    by (rule split_on_append_sep [OF pre])
  show ?thesis
  proof (cases "val_separator \<in> set name")
    case False
    then show ?thesis using 1 assms
      by (simp add: parse_groth16_def split_on_append_sep split_on_no_sep [OF sep_not_digit]
          parse_unsigned_show_nat)
  next
    case True
    then have "0 < count_list name val_separator" by (metis count_list_0_iff gr0I)
    then have "length (split_on val_separator ?s) \<noteq> 3" using 1 by (simp add: length_split_on)
    then show ?thesis using True by (simp add: parse_groth16_def Let_def del: split_on.simps append.simps)
        (simp add: append.simps)
  qed
qed

text \<open>
  A message id survives the way to its text form and back exactly when its variable
  name does not contain the separator; otherwise parsing reports a malformed id.
\<close>

theorem commitment_id_roundtrip:
  assumes "variant_size cid < 2 ^ 64"
  shows "commitment_try_from (commitment_to_string cid) =
    (if val_separator \<in> set (variant_name cid) then Inl Invalid_Format else Inr cid)"
proof (cases cid)
  case (Groth16IntermediateValues name sz)
  have "starts_with (''Groth16IntermediateValues'' @ [val_separator]) (commitment_to_string cid)"
    by (simp add: Groth16IntermediateValues starts_with_def)
  then show ?thesis using assms parse_groth16_print [of sz name]
    by (simp add: Groth16IntermediateValues try_from_groth16 del: commitment_to_string.simps)
qed (simp_all add: commitment_try_from_def commitment_variants_def starts_with_def)

theorem commitment_id_roundtrip_witness:
  "commitment_try_from (commitment_to_string (Groth16IntermediateValues ''12'' 16)) =
     Inr (Groth16IntermediateValues ''12'' 16)"
  using commitment_id_roundtrip [of "Groth16IntermediateValues ''12'' 16"]
  by (simp add: val_separator_def)

section \<open>Ordered maps\<close>

text \<open>A \<open>BTreeMap\<close> is the list of its entries in key order.\<close>

fun btree_insert :: "'k :: linorder \<Rightarrow> 'v \<Rightarrow> ('k \<times> 'v) list \<Rightarrow> ('k \<times> 'v) list" where
  "btree_insert k v [] = [(k, v)]"
| "btree_insert k v ((k', v') # es) =
     (if k < k' then (k, v) # (k', v') # es
      else if k = k' then (k, v) # es
      else (k', v') # btree_insert k v es)"

definition btree_extend :: "('k :: linorder \<times> 'v) list \<Rightarrow> ('k \<times> 'v) list \<Rightarrow> ('k \<times> 'v) list" where
  "btree_extend m es = fold (\<lambda>(k, v) m. btree_insert k v m) es m"

definition btree_ok :: "('k :: linorder \<times> 'v) list \<Rightarrow> bool" where
  "btree_ok m \<longleftrightarrow> sorted_wrt (<) (map fst m)"

lemma fst_btree_insert: "fst ` set (btree_insert k v m) = insert k (fst ` set m)"
  by (induction k v m rule: btree_insert.induct) (simp_all add: insert_commute)

lemma map_of_btree_insert: "btree_ok m \<Longrightarrow> map_of (btree_insert k v m) = (map_of m)(k \<mapsto> v)"
proof (induction m)
  case (Cons e m)
  obtain k' v' where e: "e = (k', v')" by (cases e)
  have nin: "k < k' \<Longrightarrow> k \<notin> set (map fst m)" using Cons.prems by (auto simp: btree_ok_def e)
  show ?case using Cons.IH Cons.prems nin
    by (auto simp: e btree_ok_def fun_upd_twist)
qed simp

lemma btree_ok_insert: "btree_ok m \<Longrightarrow> btree_ok (btree_insert k v m)"
proof (induction m)
  case (Cons e m)
  obtain k' v' where e: "e = (k', v')" by (cases e)
  have "x \<in> fst ` set (btree_insert k v m) \<Longrightarrow> x = k \<or> x \<in> fst ` set m" for x
    by (simp add: fst_btree_insert)
  then show ?case using Cons by (fastforce simp: e btree_ok_def)
qed (simp add: btree_ok_def)

lemma btree_extend_ok: "btree_ok m \<Longrightarrow> btree_ok (btree_extend m es)"
  by (induction es arbitrary: m) (auto simp: btree_extend_def btree_ok_insert)

lemma map_of_btree_extend:
  "\<lbrakk>btree_ok m; distinct (map fst es)\<rbrakk> \<Longrightarrow> map_of (btree_extend m es) = map_of m ++ map_of es"
proof (induction es arbitrary: m)
  case (Cons e es)
  obtain k v where e: "e = (k, v)" by (cases e)
  have "map_of (btree_extend (btree_insert k v m) es) = map_of (btree_insert k v m) ++ map_of es"
    using Cons.IH [of "btree_insert k v m"] Cons.prems by (simp add: btree_ok_insert)
  also have "map_of (btree_insert k v m) = (map_of m)(k \<mapsto> v)"
    by (rule map_of_btree_insert) (rule Cons.prems)
  also have "(map_of m)(k \<mapsto> v) ++ map_of es = map_of m ++ (map_of es)(k \<mapsto> v)"
    using Cons.prems(2) by (simp add: e map_add_upd_left dom_map_of_conv_image_fst)
  finally show ?case by (simp add: btree_extend_def e del: map_add_upd fun_upd_apply)
qed (simp add: btree_extend_def)

lemma btree_ok_Nil [simp]: "btree_ok []"
  by (simp add: btree_ok_def)

lemma btree_ok_distinct: "btree_ok m \<Longrightarrow> distinct (map fst m)"
  by (simp add: btree_ok_def strict_sorted_iff)

lemma set_btree_extend:
  assumes "distinct (map fst es)"
  shows "set (btree_extend [] es) = set es"
proof -
  have ok: "btree_ok (btree_extend [] es)" by (rule btree_extend_ok) simp
  have "map_of (btree_extend [] es) = map_of es" using map_of_btree_extend [OF btree_ok_Nil assms] by simp
  then show ?thesis using map_of_eq_Some_iff [OF btree_ok_distinct [OF ok]] map_of_eq_Some_iff [OF assms]
    by (auto simp: set_eq_iff)
qed

section \<open>Secrets\<close>

text \<open>
  A secret is drawn at random by \<open>WinternitzSecret::new\<close>: \<open>new_secret\<close> is the draw for a
  message id and length. A hash map is the list of its entries, in the arbitrary order of its
  iteration; the counts are those of \<open>chunk::api\<close>.
\<close>

definition num_pubs :: nat where "num_pubs = 1"
definition num_u256 :: nat where "num_u256 = 14"
definition num_hash :: nat where "num_hash = 363"
definition hash_len :: nat where "hash_len = 16"

text \<open>\<open>size_of::<Header>()\<close> and \<open>size_of::<BlockHash>()\<close>.\<close>

definition superblock_message_length :: nat where "superblock_message_length = 80"
definition superblock_hash_message_length :: nat where "superblock_hash_message_length = 32"

definition generate_commitment_secrets ::
  "(commitment_message_id \<Rightarrow> nat \<Rightarrow> 's) \<Rightarrow> (commitment_message_id \<times> 's) list" where
  "generate_commitment_secrets new_secret =
     [(PegOutTxIdSourceNetwork, new_secret PegOutTxIdSourceNetwork source_network_txid_length),
      (PegOutTxIdDestinationNetwork,
        new_secret PegOutTxIdDestinationNetwork destination_network_txid_length),
      (StartTime, new_secret StartTime start_time_message_length),
      (Superblock, new_secret Superblock superblock_message_length),
      (SuperblockHash, new_secret SuperblockHash superblock_hash_message_length)]
     @ map (\<lambda>i. let k = Groth16IntermediateValues (show_nat i) 32 in (k, new_secret k 32))
         [0..<num_pubs]
     @ map (\<lambda>i. let k = Groth16IntermediateValues (show_nat (i + num_pubs)) 32 in (k, new_secret k 32))
         [0..<num_u256]
     @ map (\<lambda>i. let k = Groth16IntermediateValues (show_nat (i + num_pubs + num_u256)) hash_len
                in (k, new_secret k hash_len))
         [0..<num_hash]"

section \<open>Dealing the commitments to the assert commit transactions\<close>

fun groth16_index :: "commitment_message_id \<Rightarrow> nat option option" where
  "groth16_index (Groth16IntermediateValues name _) = Some (parse_unsigned 32 name)"
| "groth16_index _ = None"

text \<open>The Groth16 entries with their parsed index; an index that does not parse panics.\<close>

fun indexed_secrets ::
  "(commitment_message_id \<times> 's) list \<Rightarrow> (nat \<times> commitment_message_id \<times> 's) list option" where
  "indexed_secrets [] = Some []"
| "indexed_secrets ((k, s) # es) =
     (case groth16_index k of
        None \<Rightarrow> indexed_secrets es
      | Some None \<Rightarrow> None
      | Some (Some i) \<Rightarrow> indexed_secrets es \<bind> (\<lambda>vs. Some ((i, k, s) # vs)))"

definition connectors_e_of_transaction :: nat where
  "connectors_e_of_transaction = 300"

definition push_key :: "('s \<Rightarrow> 'p) \<Rightarrow> nat \<times> commitment_message_id \<times> 's \<Rightarrow>
    (commitment_message_id \<times> 'p) list list \<times> (commitment_message_id \<times> 'p) list list \<Rightarrow>
    (commitment_message_id \<times> 'p) list list \<times> (commitment_message_id \<times> 'p) list list" where
  "push_key public_of e ks =
     (case (e, ks) of ((_, k, s), (e1, e2)) \<Rightarrow>
        if length e1 < connectors_e_of_transaction then (e1 @ [[(k, public_of s)]], e2)
        else (e1, e2 @ [[(k, public_of s)]]))"

definition groth16_commitment_secrets_to_public_keys ::
  "('s \<Rightarrow> 'p) \<Rightarrow> (commitment_message_id \<times> 's) list \<Rightarrow>
     ((commitment_message_id \<times> 'p) list list \<times> (commitment_message_id \<times> 'p) list list) option" where
  "groth16_commitment_secrets_to_public_keys public_of commitment_secrets =
     do {
       secrets_vec \<leftarrow> indexed_secrets (btree_extend [] commitment_secrets);
       let (e1, e2) = fold (push_key public_of) (sort_key fst secrets_vec) ([], []);
       _ \<leftarrow> rust_assert (length e1 \<le> connectors_e_of_transaction);
       _ \<leftarrow> rust_assert (length e2 \<le> connectors_e_of_transaction);
       Some (e1, e2)
     }"

definition merge_to_connector_c_commits_public_key ::
  "(commitment_message_id \<times> 'p) list list \<Rightarrow> (commitment_message_id \<times> 'p) list list \<Rightarrow>
     (commitment_message_id \<times> 'p) list" where
  "merge_to_connector_c_commits_public_key e1 e2 =
     fold (\<lambda>tree m. btree_extend m tree) e2 (fold (\<lambda>tree m. btree_extend m tree) e1 [])"

text \<open>
  The witnesses of the two commit transactions: the signatures of all the intermediate values,
  cut after the first 300 (the slice panics when there are fewer).
\<close>

definition split_raw_witnesses :: "'w list \<Rightarrow> ('w list \<times> 'w list) option" where
  "split_raw_witnesses raw = (if 300 \<le> length raw then Some (take 300 raw, drop 300 raw) else None)"

lemma fold_push_key:
  "length e1 = connectors_e_of_transaction \<Longrightarrow>
     fold (push_key f) vs (e1, e2) = (e1, e2 @ map (\<lambda>(i, k, s). [(k, f s)]) vs)"
  by (induction vs arbitrary: e2) (auto simp: push_key_def)

lemma fold_push_key_split:
  "length e1 \<le> connectors_e_of_transaction \<Longrightarrow>
     fold (push_key f) vs (e1, []) =
       (let all = e1 @ map (\<lambda>(i, k, s). [(k, f s)]) vs in
        (take connectors_e_of_transaction all, drop connectors_e_of_transaction all))"
proof (induction vs arbitrary: e1)
  case (Cons v vs)
  show ?case
  proof (cases "length e1 < connectors_e_of_transaction")
    case True
    then have "fold (push_key f) (v # vs) (e1, []) = fold (push_key f) vs (e1 @ [(\<lambda>(i, k, s). [(k, f s)]) v], [])"
      by (auto simp: push_key_def split: prod.split)
    also have "\<dots> = (let all = (e1 @ [(\<lambda>(i, k, s). [(k, f s)]) v]) @ map (\<lambda>(i, k, s). [(k, f s)]) vs in
        (take connectors_e_of_transaction all, drop connectors_e_of_transaction all))"
      by (rule Cons.IH) (use True in simp)
    finally show ?thesis by simp
  next
    case False
    then show ?thesis using Cons.prems by (simp add: fold_push_key del: fold.simps)
  qed
qed simp

text \<open>The entry of an intermediate value, and its message id and length in the order of the verifier.\<close>

definition value_length :: "nat \<Rightarrow> nat" where
  "value_length i = (if i < num_pubs + num_u256 then 32 else hash_len)"

definition value_id :: "nat \<Rightarrow> commitment_message_id" where
  "value_id i = Groth16IntermediateValues (show_nat i) (value_length i)"

definition num_values :: nat where
  "num_values = num_pubs + num_u256 + num_hash"

lemma num_values_eq: "num_values = 378"
  by (simp add: num_values_def num_pubs_def num_u256_def num_hash_def)

fun groth16_entry :: "commitment_message_id \<times> 's \<Rightarrow> (nat \<times> commitment_message_id \<times> 's) option" where
  "groth16_entry (k, s) = (case groth16_index k of Some (Some i) \<Rightarrow> Some (i, k, s) | _ \<Rightarrow> None)"

lemma indexed_secrets_eq:
  "\<forall>e \<in> set es. groth16_index (fst e) \<noteq> Some None \<Longrightarrow>
     indexed_secrets es = Some (List.map_filter groth16_entry es)"
  by (induction es rule: indexed_secrets.induct)
    (auto simp: List.map_filter_simps split: option.splits)

lemma distinct_map_filter_entry:
  "distinct (map fst es) \<Longrightarrow> distinct (List.map_filter groth16_entry es)"
proof (induction es)
  case (Cons e es)
  obtain k s where e: "e = (k, s)" by (cases e)
  have "(i, k, s) \<notin> set (List.map_filter groth16_entry es)" for i
  proof
    assume "(i, k, s) \<in> set (List.map_filter groth16_entry es)"
    then obtain e' where "e' \<in> set es" "groth16_entry e' = Some (i, k, s)"
      by (auto simp: List.map_filter_def)
    moreover from this have "fst e' = k"
      by (cases "(e', groth16_entry e')" rule: prod.exhaust; cases e') (auto split: option.splits)
    ultimately have "k \<in> fst ` set es" by (metis image_eqI)
    then show False using Cons.prems by (simp add: e)
  qed
  then show ?case using Cons by (auto simp: e List.map_filter_simps split: option.split)
qed (simp add: List.map_filter_simps)

lemma generate_commitment_secrets_eq:
  "generate_commitment_secrets new_secret =
     map (\<lambda>(k, n). (k, new_secret k n))
       [(PegOutTxIdSourceNetwork, source_network_txid_length),
        (PegOutTxIdDestinationNetwork, destination_network_txid_length),
        (StartTime, start_time_message_length), (Superblock, superblock_message_length),
        (SuperblockHash, superblock_hash_message_length)]
     @ map (\<lambda>i. (value_id i, new_secret (value_id i) (value_length i))) [0..<num_values]"
proof -
  let ?h = "\<lambda>i. (value_id i, new_secret (value_id i) (value_length i))"
  have "[0..<num_values] = [0..<num_pubs] @ [num_pubs..<num_u256 + num_pubs]
      @ [num_u256 + num_pubs..<num_hash + (num_u256 + num_pubs)]"
    using upt_add_eq_append [of 0 num_pubs num_u256]
      upt_add_eq_append [of 0 "num_pubs + num_u256" num_hash]
    by (simp add: num_values_def add.commute add.left_commute)
  also have "\<dots> = [0..<num_pubs] @ map (\<lambda>i. i + num_pubs) [0..<num_u256]
      @ map (\<lambda>i. i + (num_u256 + num_pubs)) [0..<num_hash]"
    by (simp only: map_add_upt)
  finally have *: "map ?h [0..<num_values] = map ?h ([0..<num_pubs] @ map (\<lambda>i. i + num_pubs) [0..<num_u256]
      @ map (\<lambda>i. i + (num_u256 + num_pubs)) [0..<num_hash])" by (rule arg_cong)
  have 1: "i < num_pubs \<Longrightarrow> value_length i = 32" "j < num_u256 \<Longrightarrow> value_length (j + num_pubs) = 32"
    "value_length (k + (num_pubs + num_u256)) = hash_len" for i j k
    by (simp_all add: value_length_def)
  have "map ?h [0..<num_values] =
       map (\<lambda>i. let k = Groth16IntermediateValues (show_nat i) 32 in (k, new_secret k 32)) [0..<num_pubs]
     @ map (\<lambda>i. let k = Groth16IntermediateValues (show_nat (i + num_pubs)) 32 in (k, new_secret k 32))
         [0..<num_u256]
     @ map (\<lambda>i. let k = Groth16IntermediateValues (show_nat (i + num_pubs + num_u256)) hash_len
                in (k, new_secret k hash_len))
         [0..<num_hash]"
    unfolding * map_append map_map
    by (intro arg_cong2 [where f = append] map_cong refl)
      (simp_all add: 1 value_id_def o_def Let_def add.assoc add.commute [of num_u256 num_pubs])
  then show ?thesis by (simp add: generate_commitment_secrets_def)
qed

lemma groth16_index_value_id: "i < num_values \<Longrightarrow> groth16_index (value_id i) = Some (Some i)"
  by (simp add: value_id_def parse_unsigned_show_nat num_values_eq)

lemma inj_value_id: "value_id i = value_id j \<longleftrightarrow> i = j"
  by (auto simp: value_id_def dest: show_nat_inject)

lemma distinct_generated_keys: "distinct (map fst (generate_commitment_secrets ns))"
  by (simp add: generate_commitment_secrets_eq distinct_map o_def inj_on_def)
    (auto simp: value_id_def dest: show_nat_inject)

lemma groth16_entries_generated:
  "set (List.map_filter groth16_entry (generate_commitment_secrets ns)) =
     (\<lambda>i. (i, value_id i, ns (value_id i) (value_length i))) ` {0..<num_values}"
  by (force simp: generate_commitment_secrets_eq List.map_filter_def groth16_index_value_id)

lemma set_map_filter_cong: "set xs = set ys \<Longrightarrow> set (List.map_filter f xs) = set (List.map_filter f ys)"
  by (auto simp: List.map_filter_def)

lemma sorted_secrets:
  assumes "set es = set (generate_commitment_secrets ns)" "distinct (map fst es)"
  shows "sort_key fst (List.map_filter groth16_entry es) =
    map (\<lambda>i. (i, value_id i, ns (value_id i) (value_length i))) [0..<num_values]"
proof (rule map_sorted_distinct_set_unique [where f = fst])
  let ?ys = "map (\<lambda>i. (i, value_id i, ns (value_id i) (value_length i))) [0..<num_values]"
  have eq: "set (sort_key fst (List.map_filter groth16_entry es)) = set ?ys"
    using set_map_filter_cong [OF assms(1), of groth16_entry] groth16_entries_generated [of ns] by simp
  show inj: "inj_on fst (set (sort_key fst (List.map_filter groth16_entry es)) \<union> set ?ys)"
    unfolding eq by (auto simp: inj_on_def)
  show "sorted (map fst (sort_key fst (List.map_filter groth16_entry es)))" by simp
  show "distinct (map fst (sort_key fst (List.map_filter groth16_entry es)))"
    using distinct_map_filter_entry [OF assms(2)] inj
    by (simp add: distinct_map inj_on_Un)
  show "sorted (map fst ?ys)" "distinct (map fst ?ys)" by (simp_all add: o_def)
  show "set (sort_key fst (List.map_filter groth16_entry es)) = set ?ys" by (rule eq)
qed

lemma commitment_keys_dealt_eq:
  assumes "mset es = mset (generate_commitment_secrets new_secret)"
  shows "groth16_commitment_secrets_to_public_keys public_of es =
    Some (map (\<lambda>i. [(value_id i, public_of (new_secret (value_id i) (value_length i)))]) [0..<300],
          map (\<lambda>i. [(value_id i, public_of (new_secret (value_id i) (value_length i)))]) [300..<378])"
proof -
  let ?t = "btree_extend [] es"
  let ?k = "\<lambda>i. [(value_id i, public_of (new_secret (value_id i) (value_length i)))]"
  have dist: "distinct (map fst es)"
    using assms distinct_generated_keys [of new_secret] by (metis mset_eq_imp_distinct_iff mset_map)
  have set: "set ?t = set (generate_commitment_secrets new_secret)"
    using set_btree_extend [OF dist] mset_eq_setD [OF assms] by simp
  have dt: "distinct (map fst ?t)" by (intro btree_ok_distinct btree_extend_ok btree_ok_Nil)
  have "\<forall>e \<in> set ?t. groth16_index (fst e) \<noteq> Some None"
    unfolding set by (auto simp: generate_commitment_secrets_eq groth16_index_value_id)
  then have vec: "indexed_secrets ?t = Some (List.map_filter groth16_entry ?t)"
    by (rule indexed_secrets_eq)
  have "fold (push_key public_of) (sort_key fst (List.map_filter groth16_entry ?t)) ([], []) =
      (take 300 (map ?k [0..<378]), drop 300 (map ?k [0..<378]))"
    unfolding sorted_secrets [OF set dt]
    by (simp add: fold_push_key_split connectors_e_of_transaction_def num_values_eq o_def Let_def
        del: upt_Suc upt_conv_Cons)
  then have "fold (push_key public_of) (sort_key fst (List.map_filter groth16_entry ?t)) ([], []) =
      (map ?k [0..<300], map ?k [300..<378])"
    by (simp only: take_map drop_map take_upt drop_upt) simp
  then show ?thesis
    by (simp add: groth16_commitment_secrets_to_public_keys_def vec connectors_e_of_transaction_def
        del: upt_Suc upt_conv_Cons)
qed

text \<open>
  Whatever the iteration order of the hash map of secrets, the first assert commit
  transaction gets the public keys of the intermediate values 0 to 299 and the second one those
  of 300 to 377, one message per connector, in the numeric order of the verifier.
\<close>

theorem commitment_keys_dealt:
  assumes "mset es = mset (generate_commitment_secrets new_secret)"
  shows "groth16_commitment_secrets_to_public_keys public_of es =
    Some (map (\<lambda>i. [(value_id i, public_of (new_secret (value_id i) (value_length i)))]) [0..<300],
          map (\<lambda>i. [(value_id i, public_of (new_secret (value_id i) (value_length i)))]) [300..<378])"
  by (rule commitment_keys_dealt_eq [OF assms])

definition sample_secret :: "commitment_message_id \<Rightarrow> nat \<Rightarrow> nat" where
  "sample_secret k n = 1000 * variant_index k + n"

theorem commitment_keys_dealt_witness:
  "groth16_commitment_secrets_to_public_keys Suc (rev (generate_commitment_secrets sample_secret)) =
    Some (map (\<lambda>i. [(value_id i, Suc (sample_secret (value_id i) (value_length i)))]) [0..<300],
          map (\<lambda>i. [(value_id i, Suc (sample_secret (value_id i) (value_length i)))]) [300..<378])"
  by (rule commitment_keys_dealt) (rule mset_rev)

lemma fold_btree_extend_concat:
  "fold (\<lambda>tree m. btree_extend m tree) ts m = btree_extend m (concat ts)"
  by (induction ts arbitrary: m) (simp_all add: btree_extend_def)

lemma merge_to_connector_c_eq:
  "merge_to_connector_c_commits_public_key e1 e2 = btree_extend [] (concat (e1 @ e2))"
  by (simp add: merge_to_connector_c_commits_public_key_def fold_btree_extend_concat)
    (simp add: btree_extend_def)

text \<open>
  Connector C sees every commitment of the two assert commit transactions, the
  later entry of a message id winning, in the order of the message ids.
\<close>

theorem merge_to_connector_c_entries:
  assumes "distinct (map fst (concat (e1 @ e2)))"
  shows "set (merge_to_connector_c_commits_public_key e1 e2) = set (concat (e1 @ e2)) \<and>
    btree_ok (merge_to_connector_c_commits_public_key e1 e2)"
  using set_btree_extend [OF assms] btree_extend_ok [OF btree_ok_Nil, of "concat (e1 @ e2)"]
  by (simp only: merge_to_connector_c_eq)

theorem merge_to_connector_c_entries_witness:
  "set (merge_to_connector_c_commits_public_key
      [[(value_id 0, 5 :: nat)], [(value_id 10, 6)]] [[(value_id 2, 7)]]) =
    {(value_id 0, 5), (value_id 10, 6), (value_id 2, 7)}"
  using merge_to_connector_c_entries [of "[[(value_id 0, 5 :: nat)], [(value_id 10, 6)]]" "[[(value_id 2, 7)]]"]
  by (simp add: inj_value_id)

end
