(* ===== verification/Bridge_Connectors.thy ===== *)
theory Bridge_Connectors
  imports Commitments
begin

text \<open>
  The connectors of the bridge (\<open>src/bridge/src/connectors\<close>): the outputs that link the
  transactions of a peg-in and a peg-out. Per connector its struct, its leaf scripts, the
  inputs that spend its leaves, its taproot tree and its address. An invalid leaf index and a
  commitment key missing from the map panic: both are \<open>None\<close>.

  The two traits of \<open>connectors/base.rs\<close> are locales: what spending a connector promises to
  the transaction that does it. Every connector of the code is an interpretation.
\<close>

type_synonym commitment_keys = "commitment_message_id \<Rightarrow> winternitz_key option"

definition p2tr_address :: "btc_network \<Rightarrow> spend_info \<Rightarrow> address" where
  "p2tr_address net si = Address net (P2tr si)"

section \<open>The connector interfaces\<close>

locale taproot_connector =
  fixes leaf_script :: "nat \<Rightarrow> bridge_script option"
    and leaf_tx_in :: "nat \<Rightarrow> tx_input_ref \<Rightarrow> tx_in option"
    and spend_info_of :: "spend_info option"
  assumes leaf_in_tree:
      "\<lbrakk>spend_info_of = Some si; i < length (tap_leaves si)\<rbrakk> \<Longrightarrow> leaf_script i = Some (snd (tap_leaves si ! i))"
    and leaf_spendable:
      "\<lbrakk>spend_info_of = Some si; i < length (tap_leaves si)\<rbrakk> \<Longrightarrow> leaf_tx_in i inp \<noteq> None"
    and leaf_invalid:
      "\<lbrakk>spend_info_of = Some si; length (tap_leaves si) \<le> i\<rbrakk> \<Longrightarrow> leaf_tx_in i inp = None"
    and leaf_outpoint: "leaf_tx_in i inp = Some t \<Longrightarrow> previous_output t = in_outpoint inp"
    and leaf_locks: "\<lbrakk>leaf_tx_in i inp = Some t; leaf_script i = Some s\<rbrakk> \<Longrightarrow> locks_met s t"
    and tree_full: "spend_info_of = Some si \<Longrightarrow> full_tree (map fst (tap_leaves si))"
begin

text \<open>
  Spending a leaf of the tree: the script the transaction presents is a leaf of the output it
  spends, and the sequence number of its input meets the time locks of that script.
\<close>

lemma spend_leaf:
  assumes "spend_info_of = Some si" "leaf_tx_in i inp = Some t"
  shows "\<exists>s. leaf_script i = Some s \<and> s \<in> snd ` set (tap_leaves si) \<and> locks_met s t
    \<and> previous_output t = in_outpoint inp"
proof -
  have i: "i < length (tap_leaves si)"
    using leaf_invalid [OF assms(1), of i inp] assms(2) by (cases "i < length (tap_leaves si)") auto
  then show ?thesis
    using leaf_in_tree [OF assms(1) i] leaf_locks [OF assms(2)] leaf_outpoint [OF assms(2)] by auto
qed

lemma spend_leaf_iff:
  "spend_info_of = Some si \<Longrightarrow> (\<exists>t. leaf_tx_in i inp = Some t) \<longleftrightarrow> i < length (tap_leaves si)"
  using leaf_invalid [of si i inp] leaf_spendable [of si i inp] by (cases "i < length (tap_leaves si)") auto

end

locale p2wsh_connector =
  fixes script_of :: bridge_script
    and address_of :: address
    and tx_in_of :: "tx_input_ref \<Rightarrow> tx_in"
  assumes script_address: "addr_script_pubkey address_of = P2wsh script_of"
    and script_outpoint: "previous_output (tx_in_of inp) = in_outpoint inp"
    and script_locks: "locks_met script_of (tx_in_of inp)"
begin

lemma spend_script:
  "\<exists>s. addr_script_pubkey address_of = P2wsh s \<and> locks_met s (tx_in_of inp)
    \<and> previous_output (tx_in_of inp) = in_outpoint inp"
  using script_address script_outpoint script_locks by blast

end

lemma locks_met_append_checksig:
  "csv_delays (s @ t) = [] \<Longrightarrow> Op ''OP_CLTV'' \<notin> set (s @ t) \<Longrightarrow> locks_met (s @ t) u"
  by (simp add: locks_met_def)

lemmas locks_met_simps = locks_met_def tx_in_defs
  generate_pay_to_pubkey_script_def generate_pay_to_pubkey_taproot_script_def
  generate_timelock_script_def generate_timelock_taproot_script_def n_sequence_for_lock_time_def

section \<open>Connector 0\<close>

text \<open>The peg-in funds: leaf 0 for take 1, leaf 1 for take 2, both n-of-n.\<close>

record connector_0 =
  c0_network :: btc_network
  c0_n_of_n_key :: xonly_key

definition connector_0_new :: "btc_network \<Rightarrow> xonly_key \<Rightarrow> connector_0" where
  "connector_0_new net n_of_n =
     \<lparr>c0_network = net, c0_n_of_n_key = n_of_n\<rparr>"

definition connector_0_leaf_0_script :: "connector_0 \<Rightarrow> bridge_script" where
  "connector_0_leaf_0_script c = generate_pay_to_pubkey_taproot_script (c0_n_of_n_key c)"

definition connector_0_leaf_0_tx_in :: "connector_0 \<Rightarrow> tx_input_ref \<Rightarrow> tx_in" where
  "connector_0_leaf_0_tx_in c inp = generate_default_tx_in inp"

definition connector_0_leaf_1_script :: "connector_0 \<Rightarrow> bridge_script" where
  "connector_0_leaf_1_script c = generate_pay_to_pubkey_taproot_script (c0_n_of_n_key c)"

definition connector_0_leaf_1_tx_in :: "connector_0 \<Rightarrow> tx_input_ref \<Rightarrow> tx_in" where
  "connector_0_leaf_1_tx_in c inp = generate_default_tx_in inp"

definition connector_0_leaf_script :: "connector_0 \<Rightarrow> nat \<Rightarrow> bridge_script option" where
  "connector_0_leaf_script c leaf_index =
     (if leaf_index = 0 then Some (connector_0_leaf_0_script c)
      else if leaf_index = 1 then Some (connector_0_leaf_1_script c)
      else None)"

definition connector_0_leaf_tx_in :: "connector_0 \<Rightarrow> nat \<Rightarrow> tx_input_ref \<Rightarrow> tx_in option" where
  "connector_0_leaf_tx_in c leaf_index inp =
     (if leaf_index = 0 then Some (connector_0_leaf_0_tx_in c inp)
      else if leaf_index = 1 then Some (connector_0_leaf_1_tx_in c inp)
      else None)"

definition connector_0_spend_info :: "connector_0 \<Rightarrow> spend_info" where
  "connector_0_spend_info c =
     Spend_Info (c0_n_of_n_key c) [(1, connector_0_leaf_0_script c), (1, connector_0_leaf_1_script c)]"

definition connector_0_address :: "connector_0 \<Rightarrow> address" where
  "connector_0_address c = p2tr_address (c0_network c) (connector_0_spend_info c)"

lemmas connector_0_defs =
  connector_0_leaf_script_def
  connector_0_leaf_tx_in_def
  connector_0_spend_info_def
  connector_0_leaf_0_script_def
  connector_0_leaf_0_tx_in_def
  connector_0_leaf_1_script_def
  connector_0_leaf_1_tx_in_def

interpretation c0: taproot_connector "connector_0_leaf_script c" "connector_0_leaf_tx_in c" "Some (connector_0_spend_info c)"
  for c :: connector_0
  by unfold_locales
    (auto simp: connector_0_defs connector_0_address_def full_tree_def bind_eq_Some_conv nth_Cons'
      locks_met_simps split: if_splits)

section \<open>Connector 1\<close>

text \<open>Kick-off 2 (the operator, two weeks), kick-off timeout (n-of-n, two weeks and a day) and start time timeout (n-of-n, six hours).\<close>

record connector_1 =
  c1_network :: btc_network
  c1_operator_key :: xonly_key
  c1_n_of_n_key :: xonly_key
  c1_keys :: commitment_keys
  c1_timelock_0 :: nat
  c1_timelock_1 :: nat
  c1_timelock_2 :: nat

definition connector_1_new :: "btc_network \<Rightarrow> xonly_key \<Rightarrow> xonly_key \<Rightarrow> commitment_keys \<Rightarrow> connector_1" where
  "connector_1_new net operator n_of_n keys =
     \<lparr>c1_network = net, c1_operator_key = operator, c1_n_of_n_key = n_of_n, c1_keys = keys, c1_timelock_0 = num_blocks_per_network net num_blocks_per_2_weeks, c1_timelock_1 = num_blocks_per_network net (num_blocks_per_2_weeks + num_blocks_per_day), c1_timelock_2 = num_blocks_per_network net num_blocks_per_6_hours\<rparr>"

definition connector_1_leaf_0_script :: "connector_1 \<Rightarrow> bridge_script option" where
  "connector_1_leaf_0_script c = 
     do {
       superblock_key \<leftarrow> c1_keys c Superblock;
       superblock_hash_key \<leftarrow> c1_keys c SuperblockHash;
       Some [Winternitz_checksig_verify superblock_hash_key (superblock_hash_message_length * 2),
             Winternitz_checksig_verify superblock_key (superblock_message_length * 2),
             Num (c1_timelock_0 c), Op ''OP_CSV'', Op ''OP_DROP'', Xonly (c1_operator_key c),
             Op ''OP_CHECKSIG'']
     }"

definition connector_1_leaf_0_tx_in :: "connector_1 \<Rightarrow> tx_input_ref \<Rightarrow> tx_in" where
  "connector_1_leaf_0_tx_in c inp = generate_timelock_tx_in inp (c1_timelock_0 c)"

definition connector_1_leaf_1_script :: "connector_1 \<Rightarrow> bridge_script" where
  "connector_1_leaf_1_script c = generate_timelock_taproot_script (c1_n_of_n_key c) (c1_timelock_1 c)"

definition connector_1_leaf_1_tx_in :: "connector_1 \<Rightarrow> tx_input_ref \<Rightarrow> tx_in" where
  "connector_1_leaf_1_tx_in c inp = generate_timelock_tx_in inp (c1_timelock_1 c)"

definition connector_1_leaf_2_script :: "connector_1 \<Rightarrow> bridge_script" where
  "connector_1_leaf_2_script c = generate_timelock_taproot_script (c1_n_of_n_key c) (c1_timelock_2 c)"

definition connector_1_leaf_2_tx_in :: "connector_1 \<Rightarrow> tx_input_ref \<Rightarrow> tx_in" where
  "connector_1_leaf_2_tx_in c inp = generate_timelock_tx_in inp (c1_timelock_2 c)"

definition connector_1_leaf_script :: "connector_1 \<Rightarrow> nat \<Rightarrow> bridge_script option" where
  "connector_1_leaf_script c leaf_index =
     (if leaf_index = 0 then connector_1_leaf_0_script c
      else if leaf_index = 1 then Some (connector_1_leaf_1_script c)
      else if leaf_index = 2 then Some (connector_1_leaf_2_script c)
      else None)"

definition connector_1_leaf_tx_in :: "connector_1 \<Rightarrow> nat \<Rightarrow> tx_input_ref \<Rightarrow> tx_in option" where
  "connector_1_leaf_tx_in c leaf_index inp =
     (if leaf_index = 0 then Some (connector_1_leaf_0_tx_in c inp)
      else if leaf_index = 1 then Some (connector_1_leaf_1_tx_in c inp)
      else if leaf_index = 2 then Some (connector_1_leaf_2_tx_in c inp)
      else None)"

definition connector_1_spend_info :: "connector_1 \<Rightarrow> spend_info option" where
  "connector_1_spend_info c =
     do {
       s0 \<leftarrow> connector_1_leaf_0_script c;
       Some (Spend_Info (c1_n_of_n_key c) [(2, s0), (2, connector_1_leaf_1_script c), (1, connector_1_leaf_2_script c)])
     }"

definition connector_1_address :: "connector_1 \<Rightarrow> address option" where
  "connector_1_address c = map_option (p2tr_address (c1_network c)) (connector_1_spend_info c)"

lemmas connector_1_defs =
  connector_1_leaf_script_def
  connector_1_leaf_tx_in_def
  connector_1_spend_info_def
  connector_1_leaf_0_script_def
  connector_1_leaf_0_tx_in_def
  connector_1_leaf_1_script_def
  connector_1_leaf_1_tx_in_def
  connector_1_leaf_2_script_def
  connector_1_leaf_2_tx_in_def

interpretation c1: taproot_connector "connector_1_leaf_script c" "connector_1_leaf_tx_in c" "connector_1_spend_info c"
  for c :: connector_1
  by unfold_locales
    (auto simp: connector_1_defs connector_1_address_def full_tree_def bind_eq_Some_conv nth_Cons'
      locks_met_simps split: if_splits)

section \<open>Connector 2\<close>

text \<open>The start time commitment of the operator, or its timeout.\<close>

record connector_2 =
  c2_network :: btc_network
  c2_operator_key :: xonly_key
  c2_n_of_n_key :: xonly_key
  c2_keys :: commitment_keys

definition connector_2_new :: "btc_network \<Rightarrow> xonly_key \<Rightarrow> xonly_key \<Rightarrow> commitment_keys \<Rightarrow> connector_2" where
  "connector_2_new net operator n_of_n keys =
     \<lparr>c2_network = net, c2_operator_key = operator, c2_n_of_n_key = n_of_n, c2_keys = keys\<rparr>"

definition connector_2_leaf_0_script :: "connector_2 \<Rightarrow> bridge_script option" where
  "connector_2_leaf_0_script c = 
     do {
       start_time_key \<leftarrow> c2_keys c StartTime;
       Some [Winternitz_checksig start_time_key, Digits_to_number (start_time_message_length * 2),
             Op ''OP_CLTV'', Op ''OP_DROP'', Xonly (c2_operator_key c), Op ''OP_CHECKSIG'']
     }"

definition connector_2_leaf_0_tx_in :: "connector_2 \<Rightarrow> tx_input_ref \<Rightarrow> tx_in" where
  "connector_2_leaf_0_tx_in c inp = generate_timelock_tx_in inp (n_sequence_for_lock_time)"

definition connector_2_leaf_1_script :: "connector_2 \<Rightarrow> bridge_script" where
  "connector_2_leaf_1_script c = generate_pay_to_pubkey_taproot_script (c2_n_of_n_key c)"

definition connector_2_leaf_1_tx_in :: "connector_2 \<Rightarrow> tx_input_ref \<Rightarrow> tx_in" where
  "connector_2_leaf_1_tx_in c inp = generate_default_tx_in inp"

definition connector_2_leaf_script :: "connector_2 \<Rightarrow> nat \<Rightarrow> bridge_script option" where
  "connector_2_leaf_script c leaf_index =
     (if leaf_index = 0 then connector_2_leaf_0_script c
      else if leaf_index = 1 then Some (connector_2_leaf_1_script c)
      else None)"

definition connector_2_leaf_tx_in :: "connector_2 \<Rightarrow> nat \<Rightarrow> tx_input_ref \<Rightarrow> tx_in option" where
  "connector_2_leaf_tx_in c leaf_index inp =
     (if leaf_index = 0 then Some (connector_2_leaf_0_tx_in c inp)
      else if leaf_index = 1 then Some (connector_2_leaf_1_tx_in c inp)
      else None)"

definition connector_2_spend_info :: "connector_2 \<Rightarrow> spend_info option" where
  "connector_2_spend_info c =
     do {
       s0 \<leftarrow> connector_2_leaf_0_script c;
       Some (Spend_Info (c2_n_of_n_key c) [(1, s0), (1, connector_2_leaf_1_script c)])
     }"

definition connector_2_address :: "connector_2 \<Rightarrow> address option" where
  "connector_2_address c = map_option (p2tr_address (c2_network c)) (connector_2_spend_info c)"

lemmas connector_2_defs =
  connector_2_leaf_script_def
  connector_2_leaf_tx_in_def
  connector_2_spend_info_def
  connector_2_leaf_0_script_def
  connector_2_leaf_0_tx_in_def
  connector_2_leaf_1_script_def
  connector_2_leaf_1_tx_in_def

interpretation c2: taproot_connector "connector_2_leaf_script c" "connector_2_leaf_tx_in c" "connector_2_spend_info c"
  for c :: connector_2
  by unfold_locales
    (auto simp: connector_2_defs connector_2_address_def full_tree_def bind_eq_Some_conv nth_Cons'
      locks_met_simps split: if_splits)

section \<open>Connector 5\<close>

text \<open>Take 2 or disprove.\<close>

record connector_5 =
  c5_network :: btc_network
  c5_n_of_n_key :: xonly_key

definition connector_5_new :: "btc_network \<Rightarrow> xonly_key \<Rightarrow> connector_5" where
  "connector_5_new net n_of_n =
     \<lparr>c5_network = net, c5_n_of_n_key = n_of_n\<rparr>"

definition connector_5_leaf_0_script :: "connector_5 \<Rightarrow> bridge_script" where
  "connector_5_leaf_0_script c = generate_pay_to_pubkey_taproot_script (c5_n_of_n_key c)"

definition connector_5_leaf_0_tx_in :: "connector_5 \<Rightarrow> tx_input_ref \<Rightarrow> tx_in" where
  "connector_5_leaf_0_tx_in c inp = generate_default_tx_in inp"

definition connector_5_leaf_1_script :: "connector_5 \<Rightarrow> bridge_script" where
  "connector_5_leaf_1_script c = generate_pay_to_pubkey_taproot_script (c5_n_of_n_key c)"

definition connector_5_leaf_1_tx_in :: "connector_5 \<Rightarrow> tx_input_ref \<Rightarrow> tx_in" where
  "connector_5_leaf_1_tx_in c inp = generate_default_tx_in inp"

definition connector_5_leaf_script :: "connector_5 \<Rightarrow> nat \<Rightarrow> bridge_script option" where
  "connector_5_leaf_script c leaf_index =
     (if leaf_index = 0 then Some (connector_5_leaf_0_script c)
      else if leaf_index = 1 then Some (connector_5_leaf_1_script c)
      else None)"

definition connector_5_leaf_tx_in :: "connector_5 \<Rightarrow> nat \<Rightarrow> tx_input_ref \<Rightarrow> tx_in option" where
  "connector_5_leaf_tx_in c leaf_index inp =
     (if leaf_index = 0 then Some (connector_5_leaf_0_tx_in c inp)
      else if leaf_index = 1 then Some (connector_5_leaf_1_tx_in c inp)
      else None)"

definition connector_5_spend_info :: "connector_5 \<Rightarrow> spend_info" where
  "connector_5_spend_info c =
     Spend_Info (c5_n_of_n_key c) [(1, connector_5_leaf_0_script c), (1, connector_5_leaf_1_script c)]"

definition connector_5_address :: "connector_5 \<Rightarrow> address" where
  "connector_5_address c = p2tr_address (c5_network c) (connector_5_spend_info c)"

lemmas connector_5_defs =
  connector_5_leaf_script_def
  connector_5_leaf_tx_in_def
  connector_5_spend_info_def
  connector_5_leaf_0_script_def
  connector_5_leaf_0_tx_in_def
  connector_5_leaf_1_script_def
  connector_5_leaf_1_tx_in_def

interpretation c5: taproot_connector "connector_5_leaf_script c" "connector_5_leaf_tx_in c" "Some (connector_5_spend_info c)"
  for c :: connector_5
  by unfold_locales
    (auto simp: connector_5_defs connector_5_address_def full_tree_def bind_eq_Some_conv nth_Cons'
      locks_met_simps split: if_splits)

section \<open>Connector 6\<close>

text \<open>The confirmed peg-out; the operator commits to both transaction ids.\<close>

record connector_6 =
  c6_network :: btc_network
  c6_operator_key :: xonly_key
  c6_keys :: commitment_keys

definition connector_6_new :: "btc_network \<Rightarrow> xonly_key \<Rightarrow> commitment_keys \<Rightarrow> connector_6" where
  "connector_6_new net operator keys =
     \<lparr>c6_network = net, c6_operator_key = operator, c6_keys = keys\<rparr>"

definition connector_6_leaf_0_script :: "connector_6 \<Rightarrow> bridge_script option" where
  "connector_6_leaf_0_script c = 
     do {
       destination_key \<leftarrow> c6_keys c PegOutTxIdDestinationNetwork;
       source_key \<leftarrow> c6_keys c PegOutTxIdSourceNetwork;
       Some [Winternitz_checksig_verify destination_key (destination_network_txid_length * 2),
             Winternitz_checksig_verify source_key (source_network_txid_length * 2),
             Xonly (c6_operator_key c), Op ''OP_CHECKSIG'']
     }"

definition connector_6_leaf_0_tx_in :: "connector_6 \<Rightarrow> tx_input_ref \<Rightarrow> tx_in" where
  "connector_6_leaf_0_tx_in c inp = generate_default_tx_in inp"

definition connector_6_leaf_script :: "connector_6 \<Rightarrow> nat \<Rightarrow> bridge_script option" where
  "connector_6_leaf_script c leaf_index =
     (if leaf_index = 0 then connector_6_leaf_0_script c
      else None)"

definition connector_6_leaf_tx_in :: "connector_6 \<Rightarrow> nat \<Rightarrow> tx_input_ref \<Rightarrow> tx_in option" where
  "connector_6_leaf_tx_in c leaf_index inp =
     (if leaf_index = 0 then Some (connector_6_leaf_0_tx_in c inp)
      else None)"

definition connector_6_spend_info :: "connector_6 \<Rightarrow> spend_info option" where
  "connector_6_spend_info c =
     do {
       s0 \<leftarrow> connector_6_leaf_0_script c;
       Some (Spend_Info (c6_operator_key c) [(0, s0)])
     }"

definition connector_6_address :: "connector_6 \<Rightarrow> address option" where
  "connector_6_address c = map_option (p2tr_address (c6_network c)) (connector_6_spend_info c)"

lemmas connector_6_defs =
  connector_6_leaf_script_def
  connector_6_leaf_tx_in_def
  connector_6_spend_info_def
  connector_6_leaf_0_script_def
  connector_6_leaf_0_tx_in_def

interpretation c6: taproot_connector "connector_6_leaf_script c" "connector_6_leaf_tx_in c" "connector_6_spend_info c"
  for c :: connector_6
  by unfold_locales
    (auto simp: connector_6_defs connector_6_address_def full_tree_def bind_eq_Some_conv nth_Cons'
      locks_met_simps split: if_splits)

section \<open>Connector A\<close>

text \<open>Take 1 or challenge.\<close>

record connector_a =
  ca_network :: btc_network
  ca_operator_key :: xonly_key
  ca_n_of_n_key :: xonly_key

definition connector_a_new :: "btc_network \<Rightarrow> xonly_key \<Rightarrow> xonly_key \<Rightarrow> connector_a" where
  "connector_a_new net operator n_of_n =
     \<lparr>ca_network = net, ca_operator_key = operator, ca_n_of_n_key = n_of_n\<rparr>"

definition connector_a_leaf_0_script :: "connector_a \<Rightarrow> bridge_script" where
  "connector_a_leaf_0_script c = generate_pay_to_pubkey_taproot_script (ca_operator_key c)"

definition connector_a_leaf_0_tx_in :: "connector_a \<Rightarrow> tx_input_ref \<Rightarrow> tx_in" where
  "connector_a_leaf_0_tx_in c inp = generate_default_tx_in inp"

definition connector_a_leaf_1_script :: "connector_a \<Rightarrow> bridge_script" where
  "connector_a_leaf_1_script c = generate_pay_to_pubkey_taproot_script (ca_operator_key c)"

definition connector_a_leaf_1_tx_in :: "connector_a \<Rightarrow> tx_input_ref \<Rightarrow> tx_in" where
  "connector_a_leaf_1_tx_in c inp = generate_default_tx_in inp"

definition connector_a_leaf_script :: "connector_a \<Rightarrow> nat \<Rightarrow> bridge_script option" where
  "connector_a_leaf_script c leaf_index =
     (if leaf_index = 0 then Some (connector_a_leaf_0_script c)
      else if leaf_index = 1 then Some (connector_a_leaf_1_script c)
      else None)"

definition connector_a_leaf_tx_in :: "connector_a \<Rightarrow> nat \<Rightarrow> tx_input_ref \<Rightarrow> tx_in option" where
  "connector_a_leaf_tx_in c leaf_index inp =
     (if leaf_index = 0 then Some (connector_a_leaf_0_tx_in c inp)
      else if leaf_index = 1 then Some (connector_a_leaf_1_tx_in c inp)
      else None)"

definition connector_a_spend_info :: "connector_a \<Rightarrow> spend_info" where
  "connector_a_spend_info c =
     Spend_Info (ca_n_of_n_key c) [(1, connector_a_leaf_0_script c), (1, connector_a_leaf_1_script c)]"

definition connector_a_address :: "connector_a \<Rightarrow> address" where
  "connector_a_address c = p2tr_address (ca_network c) (connector_a_spend_info c)"

lemmas connector_a_defs =
  connector_a_leaf_script_def
  connector_a_leaf_tx_in_def
  connector_a_spend_info_def
  connector_a_leaf_0_script_def
  connector_a_leaf_0_tx_in_def
  connector_a_leaf_1_script_def
  connector_a_leaf_1_tx_in_def

interpretation ca: taproot_connector "connector_a_leaf_script c" "connector_a_leaf_tx_in c" "Some (connector_a_spend_info c)"
  for c :: connector_a
  by unfold_locales
    (auto simp: connector_a_defs connector_a_address_def full_tree_def bind_eq_Some_conv nth_Cons'
      locks_met_simps split: if_splits)

section \<open>Connector B\<close>

text \<open>Take 1 (leaf 0), assert after three days (leaf 1) or disprove chain (leaf 2).\<close>

record connector_b =
  cb_network :: btc_network
  cb_n_of_n_key :: xonly_key
  cb_keys :: commitment_keys
  cb_timelock_1 :: nat

definition connector_b_new :: "btc_network \<Rightarrow> xonly_key \<Rightarrow> commitment_keys \<Rightarrow> connector_b" where
  "connector_b_new net n_of_n keys =
     \<lparr>cb_network = net, cb_n_of_n_key = n_of_n, cb_keys = keys, cb_timelock_1 = num_blocks_per_network net num_blocks_per_3_days\<rparr>"

definition connector_b_leaf_0_script :: "connector_b \<Rightarrow> bridge_script" where
  "connector_b_leaf_0_script c = generate_pay_to_pubkey_taproot_script (cb_n_of_n_key c)"

definition connector_b_leaf_0_tx_in :: "connector_b \<Rightarrow> tx_input_ref \<Rightarrow> tx_in" where
  "connector_b_leaf_0_tx_in c inp = generate_default_tx_in inp"

definition connector_b_leaf_1_script :: "connector_b \<Rightarrow> bridge_script" where
  "connector_b_leaf_1_script c = generate_timelock_taproot_script (cb_n_of_n_key c) (cb_timelock_1 c)"

definition connector_b_leaf_1_tx_in :: "connector_b \<Rightarrow> tx_input_ref \<Rightarrow> tx_in" where
  "connector_b_leaf_1_tx_in c inp = generate_timelock_tx_in inp (cb_timelock_1 c)"

definition connector_b_leaf_2_script :: "connector_b \<Rightarrow> bridge_script option" where
  "connector_b_leaf_2_script c = 
     do {
       superblock_hash_key \<leftarrow> cb_keys c SuperblockHash;
       start_time_key \<leftarrow> cb_keys c StartTime;
       Some [Winternitz_checksig superblock_hash_key, Sb_hash_from_nibbles, H256_toaltstack,
             Winternitz_checksig start_time_key, Digits_to_number (start_time_message_length * 2),
             Op ''OP_TOALTSTACK'', Extract_superblock_ts, Op ''OP_FROMALTSTACK'', Op ''OP_2DUP'',
             Op ''OP_GREATERTHAN'', Op ''OP_VERIFY'', Num (60 * 60 * 24 * 14), Op ''OP_ADD'',
             Op ''OP_LESSTHAN'', Op ''OP_VERIFY'', Sha256_of_bytes superblock_message_length,
             Sha256_32bytes, Sb_hash_from_bytes, H256_fromaltstack, H256_lessthan 1 0,
             Op ''OP_VERIFY'', Xonly (cb_n_of_n_key c), Op ''OP_CHECKSIG'']
     }"

definition connector_b_leaf_2_tx_in :: "connector_b \<Rightarrow> tx_input_ref \<Rightarrow> tx_in" where
  "connector_b_leaf_2_tx_in c inp = generate_default_tx_in inp"

definition connector_b_leaf_script :: "connector_b \<Rightarrow> nat \<Rightarrow> bridge_script option" where
  "connector_b_leaf_script c leaf_index =
     (if leaf_index = 0 then Some (connector_b_leaf_0_script c)
      else if leaf_index = 1 then Some (connector_b_leaf_1_script c)
      else if leaf_index = 2 then connector_b_leaf_2_script c
      else None)"

definition connector_b_leaf_tx_in :: "connector_b \<Rightarrow> nat \<Rightarrow> tx_input_ref \<Rightarrow> tx_in option" where
  "connector_b_leaf_tx_in c leaf_index inp =
     (if leaf_index = 0 then Some (connector_b_leaf_0_tx_in c inp)
      else if leaf_index = 1 then Some (connector_b_leaf_1_tx_in c inp)
      else if leaf_index = 2 then Some (connector_b_leaf_2_tx_in c inp)
      else None)"

definition connector_b_spend_info :: "connector_b \<Rightarrow> spend_info option" where
  "connector_b_spend_info c =
     do {
       s2 \<leftarrow> connector_b_leaf_2_script c;
       Some (Spend_Info (cb_n_of_n_key c) [(2, connector_b_leaf_0_script c), (2, connector_b_leaf_1_script c), (1, s2)])
     }"

definition connector_b_address :: "connector_b \<Rightarrow> address option" where
  "connector_b_address c = map_option (p2tr_address (cb_network c)) (connector_b_spend_info c)"

lemmas connector_b_defs =
  connector_b_leaf_script_def
  connector_b_leaf_tx_in_def
  connector_b_spend_info_def
  connector_b_leaf_0_script_def
  connector_b_leaf_0_tx_in_def
  connector_b_leaf_1_script_def
  connector_b_leaf_1_tx_in_def
  connector_b_leaf_2_script_def
  connector_b_leaf_2_tx_in_def

interpretation cb: taproot_connector "connector_b_leaf_script c" "connector_b_leaf_tx_in c" "connector_b_spend_info c"
  for c :: connector_b
  by unfold_locales
    (auto simp: connector_b_defs connector_b_address_def full_tree_def bind_eq_Some_conv nth_Cons'
      locks_met_simps split: if_splits)

section \<open>Connector D\<close>

text \<open>From assert initial to assert final.\<close>

record connector_d =
  cd_network :: btc_network
  cd_n_of_n_key :: xonly_key

definition connector_d_new :: "btc_network \<Rightarrow> xonly_key \<Rightarrow> connector_d" where
  "connector_d_new net n_of_n =
     \<lparr>cd_network = net, cd_n_of_n_key = n_of_n\<rparr>"

definition connector_d_leaf_0_script :: "connector_d \<Rightarrow> bridge_script" where
  "connector_d_leaf_0_script c = generate_pay_to_pubkey_taproot_script (cd_n_of_n_key c)"

definition connector_d_leaf_0_tx_in :: "connector_d \<Rightarrow> tx_input_ref \<Rightarrow> tx_in" where
  "connector_d_leaf_0_tx_in c inp = generate_default_tx_in inp"

definition connector_d_leaf_script :: "connector_d \<Rightarrow> nat \<Rightarrow> bridge_script option" where
  "connector_d_leaf_script c leaf_index =
     (if leaf_index = 0 then Some (connector_d_leaf_0_script c)
      else None)"

definition connector_d_leaf_tx_in :: "connector_d \<Rightarrow> nat \<Rightarrow> tx_input_ref \<Rightarrow> tx_in option" where
  "connector_d_leaf_tx_in c leaf_index inp =
     (if leaf_index = 0 then Some (connector_d_leaf_0_tx_in c inp)
      else None)"

definition connector_d_spend_info :: "connector_d \<Rightarrow> spend_info" where
  "connector_d_spend_info c =
     Spend_Info (cd_n_of_n_key c) [(0, connector_d_leaf_0_script c)]"

definition connector_d_address :: "connector_d \<Rightarrow> address" where
  "connector_d_address c = p2tr_address (cd_network c) (connector_d_spend_info c)"

lemmas connector_d_defs =
  connector_d_leaf_script_def
  connector_d_leaf_tx_in_def
  connector_d_spend_info_def
  connector_d_leaf_0_script_def
  connector_d_leaf_0_tx_in_def

interpretation cd: taproot_connector "connector_d_leaf_script c" "connector_d_leaf_tx_in c" "Some (connector_d_spend_info c)"
  for c :: connector_d
  by unfold_locales
    (auto simp: connector_d_defs connector_d_address_def full_tree_def bind_eq_Some_conv nth_Cons'
      locks_met_simps split: if_splits)

section \<open>Connector Z\<close>

text \<open>The deposit: refund to the depositor after two weeks, or peg-in confirm.\<close>

record connector_z =
  cz_network :: btc_network
  cz_depositor_key :: xonly_key
  cz_n_of_n_key :: xonly_key
  cz_evm_address :: string
  cz_timelock_0 :: nat

definition connector_z_new :: "btc_network \<Rightarrow> string \<Rightarrow> xonly_key \<Rightarrow> xonly_key \<Rightarrow> connector_z" where
  "connector_z_new net evm_address depositor n_of_n =
     \<lparr>cz_network = net, cz_depositor_key = depositor, cz_n_of_n_key = n_of_n, cz_evm_address = evm_address, cz_timelock_0 = num_blocks_per_network net num_blocks_per_2_weeks\<rparr>"

definition connector_z_leaf_0_script :: "connector_z \<Rightarrow> bridge_script" where
  "connector_z_leaf_0_script c = generate_timelock_taproot_script (cz_depositor_key c) (cz_timelock_0 c)"

definition connector_z_leaf_0_tx_in :: "connector_z \<Rightarrow> tx_input_ref \<Rightarrow> tx_in" where
  "connector_z_leaf_0_tx_in c inp = generate_timelock_tx_in inp (cz_timelock_0 c)"

definition connector_z_leaf_1_script :: "connector_z \<Rightarrow> bridge_script" where
  "connector_z_leaf_1_script c = 
     [Op ''OP_FALSE'', Op ''OP_IF'', Bytes (map of_char (cz_evm_address c)), Op ''OP_ENDIF'',
      Xonly (cz_n_of_n_key c), Op ''OP_CHECKSIGVERIFY'', Xonly (cz_depositor_key c),
      Op ''OP_CHECKSIG'']"

definition connector_z_leaf_1_tx_in :: "connector_z \<Rightarrow> tx_input_ref \<Rightarrow> tx_in" where
  "connector_z_leaf_1_tx_in c inp = generate_default_tx_in inp"

definition connector_z_leaf_script :: "connector_z \<Rightarrow> nat \<Rightarrow> bridge_script option" where
  "connector_z_leaf_script c leaf_index =
     (if leaf_index = 0 then Some (connector_z_leaf_0_script c)
      else if leaf_index = 1 then Some (connector_z_leaf_1_script c)
      else None)"

definition connector_z_leaf_tx_in :: "connector_z \<Rightarrow> nat \<Rightarrow> tx_input_ref \<Rightarrow> tx_in option" where
  "connector_z_leaf_tx_in c leaf_index inp =
     (if leaf_index = 0 then Some (connector_z_leaf_0_tx_in c inp)
      else if leaf_index = 1 then Some (connector_z_leaf_1_tx_in c inp)
      else None)"

definition connector_z_spend_info :: "connector_z \<Rightarrow> spend_info" where
  "connector_z_spend_info c =
     Spend_Info (cz_depositor_key c) [(1, connector_z_leaf_0_script c), (1, connector_z_leaf_1_script c)]"

definition connector_z_address :: "connector_z \<Rightarrow> address" where
  "connector_z_address c = p2tr_address (cz_network c) (connector_z_spend_info c)"

lemmas connector_z_defs =
  connector_z_leaf_script_def
  connector_z_leaf_tx_in_def
  connector_z_spend_info_def
  connector_z_leaf_0_script_def
  connector_z_leaf_0_tx_in_def
  connector_z_leaf_1_script_def
  connector_z_leaf_1_tx_in_def

interpretation cz: taproot_connector "connector_z_leaf_script c" "connector_z_leaf_tx_in c" "Some (connector_z_spend_info c)"
  for c :: connector_z
  by unfold_locales
    (auto simp: connector_z_defs connector_z_address_def full_tree_def bind_eq_Some_conv nth_Cons'
      locks_met_simps split: if_splits)

section \<open>Connector 3\<close>

text \<open>Take 1 waits three days after kick-off 2.\<close>

record connector_3 =
  c3_network :: btc_network
  c3_operator_key :: public_key
  c3_timelock :: nat

definition connector_3_new :: "btc_network \<Rightarrow> public_key \<Rightarrow> connector_3" where
  "connector_3_new net operator =
     \<lparr>c3_network = net, c3_operator_key = operator, c3_timelock = num_blocks_per_network net num_blocks_per_3_days\<rparr>"

definition connector_3_script :: "connector_3 \<Rightarrow> bridge_script" where
  "connector_3_script c = generate_timelock_script (c3_operator_key c) (c3_timelock c)"

definition connector_3_address :: "connector_3 \<Rightarrow> address" where
  "connector_3_address c = generate_timelock_script_address (c3_network c) (c3_operator_key c) (c3_timelock c)"

definition connector_3_tx_in :: "connector_3 \<Rightarrow> tx_input_ref \<Rightarrow> tx_in" where
  "connector_3_tx_in c inp = generate_timelock_tx_in inp (c3_timelock c)"

interpretation c3: p2wsh_connector "connector_3_script c" "connector_3_address c" "connector_3_tx_in c"
  for c :: connector_3
  by unfold_locales
    (simp_all add: connector_3_script_def connector_3_address_def connector_3_tx_in_def p2wsh_address_def
      generate_timelock_script_address_def)

section \<open>Connector 4\<close>

text \<open>Take 2 waits two weeks after the assertion.\<close>

record connector_4 =
  c4_network :: btc_network
  c4_operator_key :: public_key
  c4_timelock :: nat

definition connector_4_new :: "btc_network \<Rightarrow> public_key \<Rightarrow> connector_4" where
  "connector_4_new net operator =
     \<lparr>c4_network = net, c4_operator_key = operator, c4_timelock = num_blocks_per_network net num_blocks_per_2_weeks\<rparr>"

definition connector_4_script :: "connector_4 \<Rightarrow> bridge_script" where
  "connector_4_script c = generate_timelock_script (c4_operator_key c) (c4_timelock c)"

definition connector_4_address :: "connector_4 \<Rightarrow> address" where
  "connector_4_address c = generate_timelock_script_address (c4_network c) (c4_operator_key c) (c4_timelock c)"

definition connector_4_tx_in :: "connector_4 \<Rightarrow> tx_input_ref \<Rightarrow> tx_in" where
  "connector_4_tx_in c inp = generate_timelock_tx_in inp (c4_timelock c)"

interpretation c4: p2wsh_connector "connector_4_script c" "connector_4_address c" "connector_4_tx_in c"
  for c :: connector_4
  by unfold_locales
    (simp_all add: connector_4_script_def connector_4_address_def connector_4_tx_in_def p2wsh_address_def
      generate_timelock_script_address_def)

section \<open>Connector F 1\<close>

text \<open>From assert commit 1 to assert final.\<close>

record connector_f_1 =
  cf_1_network :: btc_network
  cf_1_operator_key :: public_key

definition connector_f_1_new :: "btc_network \<Rightarrow> public_key \<Rightarrow> connector_f_1" where
  "connector_f_1_new net operator =
     \<lparr>cf_1_network = net, cf_1_operator_key = operator\<rparr>"

definition connector_f_1_script :: "connector_f_1 \<Rightarrow> bridge_script" where
  "connector_f_1_script c = generate_pay_to_pubkey_script (cf_1_operator_key c)"

definition connector_f_1_address :: "connector_f_1 \<Rightarrow> address" where
  "connector_f_1_address c = p2wsh_address (cf_1_network c) (generate_pay_to_pubkey_script (cf_1_operator_key c))"

definition connector_f_1_tx_in :: "connector_f_1 \<Rightarrow> tx_input_ref \<Rightarrow> tx_in" where
  "connector_f_1_tx_in c inp = generate_default_tx_in inp"

interpretation cf_1: p2wsh_connector "connector_f_1_script c" "connector_f_1_address c" "connector_f_1_tx_in c"
  for c :: connector_f_1
  by unfold_locales
    (simp_all add: connector_f_1_script_def connector_f_1_address_def connector_f_1_tx_in_def p2wsh_address_def
      generate_timelock_script_address_def)

section \<open>Connector F 2\<close>

text \<open>From assert commit 2 to assert final.\<close>

record connector_f_2 =
  cf_2_network :: btc_network
  cf_2_operator_key :: public_key

definition connector_f_2_new :: "btc_network \<Rightarrow> public_key \<Rightarrow> connector_f_2" where
  "connector_f_2_new net operator =
     \<lparr>cf_2_network = net, cf_2_operator_key = operator\<rparr>"

definition connector_f_2_script :: "connector_f_2 \<Rightarrow> bridge_script" where
  "connector_f_2_script c = generate_pay_to_pubkey_script (cf_2_operator_key c)"

definition connector_f_2_address :: "connector_f_2 \<Rightarrow> address" where
  "connector_f_2_address c = p2wsh_address (cf_2_network c) (generate_pay_to_pubkey_script (cf_2_operator_key c))"

definition connector_f_2_tx_in :: "connector_f_2 \<Rightarrow> tx_input_ref \<Rightarrow> tx_in" where
  "connector_f_2_tx_in c inp = generate_default_tx_in inp"

interpretation cf_2: p2wsh_connector "connector_f_2_script c" "connector_f_2_address c" "connector_f_2_tx_in c"
  for c :: connector_f_2
  by unfold_locales
    (simp_all add: connector_f_2_script_def connector_f_2_address_def connector_f_2_tx_in_def p2wsh_address_def
      generate_timelock_script_address_def)

section \<open>Connector E\<close>

text \<open>
  One intermediate value of the Groth16 verifier each. The keys are a \<open>BTreeMap\<close>, the list of
  its entries in key order, and the script runs over them backwards; a key of another message
  panics.
\<close>

record connector_e =
  ce_network :: btc_network
  ce_operator_key :: public_key
  ce_keys :: "(commitment_message_id \<times> winternitz_key) list"

definition connector_e_new ::
  "btc_network \<Rightarrow> public_key \<Rightarrow> (commitment_message_id \<times> winternitz_key) list \<Rightarrow> connector_e" where
  "connector_e_new net operator keys = \<lparr>ce_network = net, ce_operator_key = operator, ce_keys = keys\<rparr>"

fun connector_e_reveal :: "commitment_message_id \<times> winternitz_key \<Rightarrow> bridge_script option" where
  "connector_e_reveal (Groth16IntermediateValues _ sz, pk) =
     Some (Winternitz_checksig_verify pk sz # replicate sz (Op ''OP_DROP'') @ [Op ''OP_TRUE''])"
| "connector_e_reveal _ = None"

definition connector_e_leaf_script :: "connector_e \<Rightarrow> nat \<Rightarrow> bridge_script option" where
  "connector_e_leaf_script c leaf_index =
     do {
       _ \<leftarrow> rust_assert (leaf_index = 0);
       fold_option (\<lambda>scr e. map_option ((@) scr) (connector_e_reveal e)) [] (rev (ce_keys c))
     }"

definition connector_e_leaf_tx_in :: "connector_e \<Rightarrow> nat \<Rightarrow> tx_input_ref \<Rightarrow> tx_in option" where
  "connector_e_leaf_tx_in c leaf_index inp =
     do {
       _ \<leftarrow> rust_assert (leaf_index = 0);
       Some (generate_default_tx_in inp)
     }"

definition connector_e_spend_info :: "connector_e \<Rightarrow> spend_info option" where
  "connector_e_spend_info c =
     map_option (\<lambda>s. Spend_Info (xonly_of (ce_operator_key c)) [(0, s)]) (connector_e_leaf_script c 0)"

definition connector_e_address :: "connector_e \<Rightarrow> address option" where
  "connector_e_address c = map_option (p2tr_address (ce_network c)) (connector_e_spend_info c)"

text \<open>Scripts that carry no time lock, and are appended without creating one.\<close>

definition lock_free :: "bridge_script \<Rightarrow> bool" where
  "lock_free s \<longleftrightarrow> Op ''OP_CSV'' \<notin> set s \<and> Op ''OP_CLTV'' \<notin> set s"

lemma csv_delays_lock_free: "Op ''OP_CSV'' \<notin> set s \<Longrightarrow> csv_delays s = []"
  by (induction s rule: csv_delays.induct) auto

lemma locks_met_lock_free: "lock_free s \<Longrightarrow> locks_met s t"
  by (simp add: lock_free_def locks_met_def csv_delays_lock_free)

lemma connector_e_reveal_lock_free: "connector_e_reveal e = Some s \<Longrightarrow> lock_free s"
  by (cases e rule: connector_e_reveal.cases) (auto simp: lock_free_def)

lemma connector_e_script_lock_free:
  "\<lbrakk>fold_option (\<lambda>scr e. map_option ((@) scr) (connector_e_reveal e)) scr es = Some s; lock_free scr\<rbrakk>
     \<Longrightarrow> lock_free s"
proof (induction es arbitrary: scr)
  case (Cons e es)
  then obtain r where r: "connector_e_reveal e = Some r"
    and rest: "fold_option (\<lambda>scr e. map_option ((@) scr) (connector_e_reveal e)) (scr @ r) es = Some s"
    by (auto simp: bind_eq_Some_conv)
  have "lock_free (scr @ r)"
    using Cons.prems(2) connector_e_reveal_lock_free [OF r] by (auto simp: lock_free_def)
  then show ?case using Cons.IH [OF rest] by blast
qed simp

lemma connector_e_leaf_locks: "connector_e_leaf_script c i = Some s \<Longrightarrow> locks_met s t"
  by (intro locks_met_lock_free)
    (auto simp: connector_e_leaf_script_def rust_assert_bind_Some_iff lock_free_def
      dest!: connector_e_script_lock_free [where scr = "[]"])

interpretation ce: taproot_connector "connector_e_leaf_script c" "connector_e_leaf_tx_in c"
    "connector_e_spend_info c"
  for c :: connector_e
  by unfold_locales
    (auto simp: connector_e_spend_info_def connector_e_leaf_tx_in_def full_tree_def
      rust_assert_def intro: connector_e_leaf_locks split: if_splits)

section \<open>Connector C\<close>

text \<open>
  The disprove leaves. The script generator of the chunk API of the \<open>bitvm\<close> crate
  (\<open>api_generate_full_tapscripts\<close> on the partial scripts of the mock key) and the Huffman tree
  of \<open>TaprootBuilder\<close> are arguments. The caches of \<open>connector_c.rs\<close> store their results; the
  memory cache of the spend info is the map \<open>spend_info_cache\<close>, keyed by a hash of the first
  Winternitz key.
\<close>

record connector_c =
  cc_network :: btc_network
  cc_operator_key :: xonly_key
  cc_keys :: "(commitment_message_id \<times> winternitz_key) list"

record chunk_api =
  full_tapscripts :: "winternitz_key list \<Rightarrow> bridge_script list"
  huffman_tree :: "(nat \<times> bridge_script) list \<Rightarrow> (nat \<times> bridge_script) list option"
  hash160 :: "nat list \<Rightarrow> nat"

definition connector_c_new ::
  "btc_network \<Rightarrow> xonly_key \<Rightarrow> (commitment_message_id \<times> winternitz_key) list \<Rightarrow> connector_c option" where
  "connector_c_new net operator keys =
     do {
       _ \<leftarrow> rust_assert (keys \<noteq> []);
       Some \<lparr>cc_network = net, cc_operator_key = operator, cc_keys = keys\<rparr>
     }"

definition generate_assert_leaves ::
  "chunk_api \<Rightarrow> (commitment_message_id \<times> winternitz_key) list \<Rightarrow> bridge_script list option" where
  "generate_assert_leaves api keys =
     do {
       sorted_pks \<leftarrow> indexed_secrets keys;
       Some (full_tapscripts api (map (snd \<circ> snd) (sort_key fst sorted_pks)))
     }"

definition generate_taproot_spend_info ::
  "chunk_api \<Rightarrow> xonly_key \<Rightarrow> bridge_script list \<Rightarrow> spend_info option" where
  "generate_taproot_spend_info api operator lock_scripts =
     map_option (Spend_Info operator) (huffman_tree api (map (\<lambda>s. (1, s)) lock_scripts))"

definition connector_c_spend_info :: "chunk_api \<Rightarrow> connector_c \<Rightarrow> spend_info option" where
  "connector_c_spend_info api c =
     generate_assert_leaves api (cc_keys c) \<bind> generate_taproot_spend_info api (cc_operator_key c)"

definition spend_info_cache_id ::
  "chunk_api \<Rightarrow> (commitment_message_id \<times> winternitz_key) list \<Rightarrow> nat option" where
  "spend_info_cache_id api keys =
     (case keys of [] \<Rightarrow> None | (_, first_key) # _ \<Rightarrow> Some (hash160 api first_key))"

type_synonym spend_info_cache = "nat \<Rightarrow> spend_info option"

definition taproot_spend_info_cached ::
  "chunk_api \<Rightarrow> spend_info_cache \<Rightarrow> connector_c \<Rightarrow> (spend_info \<times> spend_info_cache) option" where
  "taproot_spend_info_cached api cache c =
     do {
       cache_id \<leftarrow> spend_info_cache_id api (cc_keys c);
       case cache cache_id of
         Some si \<Rightarrow> Some (si, cache)
       | None \<Rightarrow>
           do {
             si \<leftarrow> connector_c_spend_info api c;
             Some (si, cache(cache_id \<mapsto> si))
           }
     }"

definition connector_c_leaf_tx_in :: "spend_info \<Rightarrow> nat \<Rightarrow> tx_input_ref \<Rightarrow> tx_in option" where
  "connector_c_leaf_tx_in si leaf_index inp =
     (if length (tap_leaves si) \<le> leaf_index then None else Some (generate_default_tx_in inp))"

definition connector_c_address :: "chunk_api \<Rightarrow> connector_c \<Rightarrow> address option" where
  "connector_c_address api c = map_option (p2tr_address (cc_network c)) (connector_c_spend_info api c)"

text \<open>
  A cache is sound for a connector when it holds nothing or the connector's own tree under
  the connector's id; then the cached tree is the computed one and the cache stays sound.
\<close>

definition cache_sound :: "chunk_api \<Rightarrow> spend_info_cache \<Rightarrow> connector_c \<Rightarrow> bool" where
  "cache_sound api cache c \<longleftrightarrow>
     (\<forall>i si. spend_info_cache_id api (cc_keys c) = Some i \<longrightarrow> cache i = Some si \<longrightarrow>
        connector_c_spend_info api c = Some si)"

lemma taproot_spend_info_cached_sound:
  assumes "cache_sound api cache c" "taproot_spend_info_cached api cache c = Some (si, cache')"
  shows "connector_c_spend_info api c = Some si \<and> cache_sound api cache' c"
  using assms
  by (auto simp: taproot_spend_info_cached_def cache_sound_def bind_eq_Some_conv split: option.splits)

text \<open>
  The id covers the first Winternitz key only: after one connector has filled the cache,
  another connector with the same first key gets the tree of the first one, whatever its
  operator key and its other keys are.
\<close>

theorem connector_c_cache_shared:
  assumes "taproot_spend_info_cached api Map.empty c = Some (si, cache)"
    and "snd (hd (cc_keys c')) = snd (hd (cc_keys c))" "cc_keys c' \<noteq> []"
  shows "taproot_spend_info_cached api cache c' = Some (si, cache)"
  using assms
  by (auto simp: taproot_spend_info_cached_def spend_info_cache_id_def bind_eq_Some_conv
      split: option.splits list.splits)

end
