(* ===== verification/Bridge_Transactions.thy ===== *)
theory Bridge_Transactions
  imports Bridge_Connectors
begin

text \<open>
  The transactions of the bridge (\<open>src/bridge/src/transactions\<close>): per transaction the
  constructor that every participant runs (\<open>new_for_validation\<close>), with the leaf it spends of
  each connector, the amounts of its outputs and the previous outputs and scripts it signs for.
  Signatures and the Musig2 maps, which start empty, are not part of the record.

  The lemmas say of every constructor that the transaction is spendable (each input presents
  a script that its previous output commits to, with a sequence number meeting its time locks)
  and how much of the inputs it leaves to the miner.
\<close>

record pre_signed =
  ps_tx :: btc_tx
  ps_prev_outs :: "tx_out list"
  ps_prev_scripts :: "bridge_script list"

definition tx_v2 :: "tx_in list \<Rightarrow> tx_out list \<Rightarrow> btc_tx" where
  "tx_v2 ins outs = \<lparr>tx_version = 2, tx_lock_time = 0, tx_input = ins, tx_output = outs\<rparr>"

definition pay_to :: "nat \<Rightarrow> address \<Rightarrow> tx_out" where
  "pay_to v addr = \<lparr>tx_value = v, tx_script_pubkey = addr_script_pubkey addr\<rparr>"

lemma pay_to_simps [simp]:
  "tx_value (pay_to v a) = v" "tx_script_pubkey (pay_to v a) = addr_script_pubkey a"
  by (simp_all add: pay_to_def)

lemma tx_v2_simps [simp]:
  "tx_input (tx_v2 i os) = i" "tx_output (tx_v2 i os) = os" "tx_version (tx_v2 i os) = 2"
  "tx_lock_time (tx_v2 i os) = 0"
  by (simp_all add: tx_v2_def)

section \<open>Sound transactions\<close>

text \<open>What a script public key commits to.\<close>

fun commits_to :: "script_pubkey \<Rightarrow> bridge_script \<Rightarrow> bool" where
  "commits_to (P2wsh s) s' \<longleftrightarrow> s' = s"
| "commits_to (P2tr si) s' \<longleftrightarrow> s' \<in> snd ` set (tap_leaves si)"
| "commits_to Empty_Script s' \<longleftrightarrow> False"

definition input_ok :: "tx_in \<Rightarrow> tx_out \<Rightarrow> bridge_script \<Rightarrow> bool" where
  "input_ok i out s \<longleftrightarrow> commits_to (tx_script_pubkey out) s \<and> locks_met s i"

text \<open>
  Inputs spent by key, or by a leaf chosen later, come last and have no script yet.
\<close>

fun inputs_ok :: "tx_in list \<Rightarrow> tx_out list \<Rightarrow> bridge_script list \<Rightarrow> bool" where
  "inputs_ok (i # ins) (out # outs) (s # ss) \<longleftrightarrow> input_ok i out s \<and> inputs_ok ins outs ss"
| "inputs_ok ins outs [] \<longleftrightarrow> True"
| "inputs_ok _ _ _ \<longleftrightarrow> False"

definition total_value :: "tx_out list \<Rightarrow> nat" where
  "total_value outs = sum_list (map tx_value outs)"

text \<open>The transaction spends exactly the given inputs and leaves the fee.\<close>

definition sound_tx :: "pre_signed \<Rightarrow> tx_input_ref list \<Rightarrow> nat \<Rightarrow> bool" where
  "sound_tx t inps fee \<longleftrightarrow>
     map previous_output (tx_input (ps_tx t)) = map in_outpoint inps \<and>
     map tx_value (ps_prev_outs t) = map in_amount inps \<and>
     inputs_ok (tx_input (ps_tx t)) (ps_prev_outs t) (ps_prev_scripts t) \<and>
     total_value (ps_prev_outs t) = total_value (tx_output (ps_tx t)) + fee"

lemma total_value_simps [simp]:
  "total_value [] = 0" "total_value (o1 # outs) = tx_value o1 + total_value outs"
  "total_value (outs1 @ outs2) = total_value outs1 + total_value outs2"
  by (simp_all add: total_value_def)

named_theorems spend_rules \<open>spending a leaf or the script of a connector\<close>

lemma input_ok_taprootI:
  assumes "\<exists>s. leaf = Some s \<and> s \<in> snd ` set (tap_leaves si) \<and> locks_met s t \<and> previous_output t = in_outpoint inp"
    and "leaf = Some s"
  shows "input_ok t (pay_to v (p2tr_address net si)) s \<and> previous_output t = in_outpoint inp"
  using assms by (auto simp: input_ok_def p2tr_address_def)

lemma input_ok_taproot_optI:
  assumes "\<And>si. spend = Some si \<Longrightarrow> leaf_tx = Some t \<Longrightarrow>
      \<exists>s. leaf = Some s \<and> s \<in> snd ` set (tap_leaves si) \<and> locks_met s t \<and> previous_output t = in_outpoint inp"
    and "leaf_tx = Some t" "leaf = Some s" "map_option (p2tr_address net) spend = Some a"
  shows "input_ok t (pay_to v a) s \<and> previous_output t = in_outpoint inp"
  using assms input_ok_taprootI by blast

lemma input_ok_p2wshI:
  assumes "addr_script_pubkey a = P2wsh s" "locks_met s t"
  shows "input_ok t (pay_to v a) s"
  using assms by (simp add: input_ok_def)

lemma spend_connector_0 [spend_rules]:
  "\<lbrakk>connector_0_leaf_tx_in c i inp = Some t; connector_0_leaf_script c i = Some s\<rbrakk> \<Longrightarrow>
     input_ok t (pay_to v (connector_0_address c)) s \<and> previous_output t = in_outpoint inp"
  unfolding connector_0_address_def by (rule input_ok_taprootI [OF c0.spend_leaf [OF refl]])

lemma spend_connector_5 [spend_rules]:
  "\<lbrakk>connector_5_leaf_tx_in c i inp = Some t; connector_5_leaf_script c i = Some s\<rbrakk> \<Longrightarrow>
     input_ok t (pay_to v (connector_5_address c)) s \<and> previous_output t = in_outpoint inp"
  unfolding connector_5_address_def by (rule input_ok_taprootI [OF c5.spend_leaf [OF refl]])

lemma spend_connector_a [spend_rules]:
  "\<lbrakk>connector_a_leaf_tx_in c i inp = Some t; connector_a_leaf_script c i = Some s\<rbrakk> \<Longrightarrow>
     input_ok t (pay_to v (connector_a_address c)) s \<and> previous_output t = in_outpoint inp"
  unfolding connector_a_address_def by (rule input_ok_taprootI [OF ca.spend_leaf [OF refl]])

lemma spend_connector_d [spend_rules]:
  "\<lbrakk>connector_d_leaf_tx_in c i inp = Some t; connector_d_leaf_script c i = Some s\<rbrakk> \<Longrightarrow>
     input_ok t (pay_to v (connector_d_address c)) s \<and> previous_output t = in_outpoint inp"
  unfolding connector_d_address_def by (rule input_ok_taprootI [OF cd.spend_leaf [OF refl]])

lemma spend_connector_z [spend_rules]:
  "\<lbrakk>connector_z_leaf_tx_in c i inp = Some t; connector_z_leaf_script c i = Some s\<rbrakk> \<Longrightarrow>
     input_ok t (pay_to v (connector_z_address c)) s \<and> previous_output t = in_outpoint inp"
  unfolding connector_z_address_def by (rule input_ok_taprootI [OF cz.spend_leaf [OF refl]])

lemma spend_connector_1 [spend_rules]:
  "\<lbrakk>connector_1_leaf_tx_in c i inp = Some t; connector_1_leaf_script c i = Some s;
     connector_1_address c = Some a\<rbrakk> \<Longrightarrow>
     input_ok t (pay_to v a) s \<and> previous_output t = in_outpoint inp"
  unfolding connector_1_address_def
  by (rule input_ok_taproot_optI [OF c1.spend_leaf])

lemma spend_connector_2 [spend_rules]:
  "\<lbrakk>connector_2_leaf_tx_in c i inp = Some t; connector_2_leaf_script c i = Some s;
     connector_2_address c = Some a\<rbrakk> \<Longrightarrow>
     input_ok t (pay_to v a) s \<and> previous_output t = in_outpoint inp"
  unfolding connector_2_address_def
  by (rule input_ok_taproot_optI [OF c2.spend_leaf])

lemma spend_connector_6 [spend_rules]:
  "\<lbrakk>connector_6_leaf_tx_in c i inp = Some t; connector_6_leaf_script c i = Some s;
     connector_6_address c = Some a\<rbrakk> \<Longrightarrow>
     input_ok t (pay_to v a) s \<and> previous_output t = in_outpoint inp"
  unfolding connector_6_address_def
  by (rule input_ok_taproot_optI [OF c6.spend_leaf])

lemma spend_connector_b [spend_rules]:
  "\<lbrakk>connector_b_leaf_tx_in c i inp = Some t; connector_b_leaf_script c i = Some s;
     connector_b_address c = Some a\<rbrakk> \<Longrightarrow>
     input_ok t (pay_to v a) s \<and> previous_output t = in_outpoint inp"
  unfolding connector_b_address_def
  by (rule input_ok_taproot_optI [OF cb.spend_leaf])

lemma spend_connector_e [spend_rules]:
  "\<lbrakk>connector_e_leaf_tx_in c i inp = Some t; connector_e_leaf_script c i = Some s;
     connector_e_address c = Some a\<rbrakk> \<Longrightarrow>
     input_ok t (pay_to v a) s \<and> previous_output t = in_outpoint inp"
  unfolding connector_e_address_def
  by (rule input_ok_taproot_optI [OF ce.spend_leaf])

lemma spend_p2wsh_connectors [simp]:
  "input_ok (connector_3_tx_in c3 inp) (pay_to v (connector_3_address c3)) (connector_3_script c3)"
  "input_ok (connector_4_tx_in c4 inp) (pay_to v (connector_4_address c4)) (connector_4_script c4)"
  "input_ok (connector_f_1_tx_in cf_1 inp) (pay_to v (connector_f_1_address cf_1)) (connector_f_1_script cf_1)"
  "input_ok (connector_f_2_tx_in cf_2 inp) (pay_to v (connector_f_2_address cf_2)) (connector_f_2_script cf_2)"
  by (rule input_ok_p2wshI; rule c3.script_address c4.script_address cf_1.script_address
      cf_2.script_address c3.script_locks c4.script_locks cf_1.script_locks cf_2.script_locks)+

lemma outpoint_p2wsh_connectors [simp]:
  "previous_output (connector_3_tx_in c3 inp) = in_outpoint inp"
  "previous_output (connector_4_tx_in c4 inp) = in_outpoint inp"
  "previous_output (connector_f_1_tx_in cf_1 inp) = in_outpoint inp"
  "previous_output (connector_f_2_tx_in cf_2 inp) = in_outpoint inp"
  by (rule c3.script_outpoint c4.script_outpoint cf_1.script_outpoint cf_2.script_outpoint)+

lemma spend_pay_to_pubkey [simp]:
  "input_ok t (pay_to v (generate_pay_to_pubkey_script_address net k)) (generate_pay_to_pubkey_script k)"
  by (rule input_ok_p2wshI) (simp_all add: generate_pay_to_pubkey_script_address_def p2wsh_address_def)

section \<open>Peg in\<close>

text \<open>The depositor pays into connector Z.\<close>

definition peg_in_deposit_new_for_validation ::
  "fee_policy \<Rightarrow> btc_network \<Rightarrow> public_key \<Rightarrow> connector_z \<Rightarrow> tx_input_ref \<Rightarrow> pre_signed option" where
  "peg_in_deposit_new_for_validation pol net depositor cz input_0 =
     do {
       let t0 = generate_default_tx_in input_0;
       total \<leftarrow> checked_sub (in_amount input_0) (min_relay_fee_peg_in_deposit pol);
       Some \<lparr>ps_tx = tx_v2 [t0] [pay_to total (connector_z_address cz)],
          ps_prev_outs = [pay_to (in_amount input_0) (generate_pay_to_pubkey_script_address net depositor)],
          ps_prev_scripts = [generate_pay_to_pubkey_script depositor]\<rparr>
     }"

lemma peg_in_deposit_sound:
  "peg_in_deposit_new_for_validation pol net depositor cz input_0 = Some t \<Longrightarrow>
     sound_tx t [input_0] (min_relay_fee_peg_in_deposit pol)"
  by (auto simp: peg_in_deposit_new_for_validation_def sound_tx_def amt_Some_iffs Let_def dest: spend_rules)

definition peg_in_confirm_new_for_validation ::
  "fee_policy \<Rightarrow> connector_0 \<Rightarrow> connector_z \<Rightarrow> tx_input_ref \<Rightarrow> pre_signed option" where
  "peg_in_confirm_new_for_validation pol c0 cz input_0 =
     do {
       t0 \<leftarrow> connector_z_leaf_tx_in cz 1 input_0;
       s0 \<leftarrow> connector_z_leaf_script cz 1;
       total \<leftarrow> checked_sub (in_amount input_0) (min_relay_fee_peg_in_confirm pol);
       Some \<lparr>ps_tx = tx_v2 [t0] [pay_to total (connector_0_address c0)],
          ps_prev_outs = [pay_to (in_amount input_0) (connector_z_address cz)],
          ps_prev_scripts = [s0]\<rparr>
     }"

lemma peg_in_confirm_sound:
  "peg_in_confirm_new_for_validation pol c0 cz input_0 = Some t \<Longrightarrow>
     sound_tx t [input_0] (min_relay_fee_peg_in_confirm pol)"
  by (auto simp: peg_in_confirm_new_for_validation_def sound_tx_def amt_Some_iffs Let_def dest: spend_rules)

definition peg_in_refund_new_for_validation ::
  "fee_policy \<Rightarrow> btc_network \<Rightarrow> public_key \<Rightarrow> connector_z \<Rightarrow> tx_input_ref \<Rightarrow> pre_signed option" where
  "peg_in_refund_new_for_validation pol net depositor cz input_0 =
     do {
       t0 \<leftarrow> connector_z_leaf_tx_in cz 0 input_0;
       s0 \<leftarrow> connector_z_leaf_script cz 0;
       total \<leftarrow> checked_sub (in_amount input_0) (min_relay_fee_peg_in_refund pol);
       Some \<lparr>ps_tx = tx_v2 [t0] [pay_to total (generate_pay_to_pubkey_script_address net depositor)],
          ps_prev_outs = [pay_to (in_amount input_0) (connector_z_address cz)],
          ps_prev_scripts = [s0]\<rparr>
     }"

lemma peg_in_refund_sound:
  "peg_in_refund_new_for_validation pol net depositor cz input_0 = Some t \<Longrightarrow>
     sound_tx t [input_0] (min_relay_fee_peg_in_refund pol)"
  by (auto simp: peg_in_refund_new_for_validation_def sound_tx_def amt_Some_iffs Let_def dest: spend_rules)

section \<open>Peg out\<close>

text \<open>The event of the other chain that asks for a peg-out.\<close>

record peg_out_event =
  withdrawer_chain_address :: string
  withdrawer_destination_address :: string
  withdrawer_public_key_hash :: "nat list"
  source_outpoint :: outpoint
  peg_out_amount :: nat
  operator_public_key :: public_key
  peg_out_timestamp :: nat
  event_tx_hash :: "nat list"

definition peg_out_new_for_validation ::
  "fee_policy \<Rightarrow> (nat list \<Rightarrow> nat list) \<Rightarrow> btc_network \<Rightarrow> public_key \<Rightarrow> peg_out_event \<Rightarrow> tx_input_ref \<Rightarrow> pre_signed option" where
  "peg_out_new_for_validation pol ripemd_sha net operator event input_0 =
     do {
       let t0 = generate_default_tx_in input_0;
       total \<leftarrow> checked_sub (in_amount input_0) (min_relay_fee_peg_out pol);
       Some \<lparr>ps_tx = tx_v2 [t0] [pay_to total (generate_pay_to_pubkey_hash_with_inscription_script_address ripemd_sha net
             (withdrawer_public_key_hash event) (peg_out_timestamp event) (withdrawer_chain_address event))],
          ps_prev_outs = [pay_to (in_amount input_0) (generate_pay_to_pubkey_script_address net operator)],
          ps_prev_scripts = [generate_pay_to_pubkey_script operator]\<rparr>
     }"

lemma peg_out_sound:
  "peg_out_new_for_validation pol ripemd_sha net operator event input_0 = Some t \<Longrightarrow>
     sound_tx t [input_0] (min_relay_fee_peg_out pol)"
  by (auto simp: peg_out_new_for_validation_def sound_tx_def amt_Some_iffs Let_def dest: spend_rules)

definition peg_out_confirm_new_for_validation ::
  "fee_policy \<Rightarrow> btc_network \<Rightarrow> public_key \<Rightarrow> connector_6 \<Rightarrow> tx_input_ref \<Rightarrow> pre_signed option" where
  "peg_out_confirm_new_for_validation pol net operator c6 input_0 =
     do {
       let t0 = generate_default_tx_in input_0;
       total \<leftarrow> checked_sub (in_amount input_0) (min_relay_fee_peg_out_confirm pol);
       a6 \<leftarrow> connector_6_address c6;
       Some \<lparr>ps_tx = tx_v2 [t0] [pay_to total a6],
          ps_prev_outs = [pay_to (in_amount input_0) (generate_pay_to_pubkey_script_address net operator)],
          ps_prev_scripts = [generate_pay_to_pubkey_script operator]\<rparr>
     }"

lemma peg_out_confirm_sound:
  "peg_out_confirm_new_for_validation pol net operator c6 input_0 = Some t \<Longrightarrow>
     sound_tx t [input_0] (min_relay_fee_peg_out_confirm pol)"
  by (auto simp: peg_out_confirm_new_for_validation_def sound_tx_def amt_Some_iffs Let_def dest: spend_rules)

section \<open>Kick off\<close>

text \<open>The start time transaction has no other input: kick-off 1 funds its relay fee.\<close>

definition kick_off_1_new_for_validation ::
  "fee_policy \<Rightarrow> btc_network \<Rightarrow> xonly_key \<Rightarrow> xonly_key \<Rightarrow> connector_1 \<Rightarrow> connector_2 \<Rightarrow> connector_6 \<Rightarrow> tx_input_ref \<Rightarrow> pre_signed option" where
  "kick_off_1_new_for_validation pol net operator n_of_n c1 c2 c6 input_0 =
     do {
       let ca = connector_a_new net operator n_of_n;
       t0 \<leftarrow> connector_6_leaf_tx_in c6 0 input_0;
       s0 \<leftarrow> connector_6_leaf_script c6 0;
       total \<leftarrow> checked_sub (in_amount input_0) (min_relay_fee_kick_off_1 pol);
       let output_0 = pay_to (dust_amount pol) (connector_a_address ca);
       a2 \<leftarrow> connector_2_address c2;
       let output_2 = pay_to (dust_amount pol + min_relay_fee_start_time pol) a2;
       a1 \<leftarrow> connector_1_address c1;
       rest \<leftarrow> checked_sub total (tx_value output_0);
       v1 \<leftarrow> checked_sub rest (tx_value output_2);
       let output_1 = pay_to v1 a1;
       a6 \<leftarrow> connector_6_address c6;
       Some \<lparr>ps_tx = tx_v2 [t0] [output_0, output_1, output_2],
          ps_prev_outs = [pay_to (in_amount input_0) a6],
          ps_prev_scripts = [s0]\<rparr>
     }"

lemma kick_off_1_sound:
  "kick_off_1_new_for_validation pol net operator n_of_n c1 c2 c6 input_0 = Some t \<Longrightarrow>
     sound_tx t [input_0] (min_relay_fee_kick_off_1 pol)"
  by (auto simp: kick_off_1_new_for_validation_def sound_tx_def amt_Some_iffs Let_def dest: spend_rules)

definition start_time_new_for_validation ::
  "fee_policy \<Rightarrow> btc_network \<Rightarrow> public_key \<Rightarrow> connector_2 \<Rightarrow> tx_input_ref \<Rightarrow> pre_signed option" where
  "start_time_new_for_validation pol net operator c2 input_0 =
     do {
       t0 \<leftarrow> connector_2_leaf_tx_in c2 0 input_0;
       s0 \<leftarrow> connector_2_leaf_script c2 0;
       total \<leftarrow> checked_sub (in_amount input_0) (min_relay_fee_start_time pol);
       a2 \<leftarrow> connector_2_address c2;
       Some \<lparr>ps_tx = tx_v2 [t0] [pay_to total (generate_pay_to_pubkey_script_address net operator)],
          ps_prev_outs = [pay_to (in_amount input_0) a2],
          ps_prev_scripts = [s0]\<rparr>
     }"

lemma start_time_sound:
  "start_time_new_for_validation pol net operator c2 input_0 = Some t \<Longrightarrow>
     sound_tx t [input_0] (min_relay_fee_start_time pol)"
  by (auto simp: start_time_new_for_validation_def sound_tx_def amt_Some_iffs Let_def dest: spend_rules)

text \<open>Transactions with an open reward output: its script is filled in by whoever claims it.\<close>

record rewarded = pre_signed +
  reward_output_amount :: nat

definition reward_to_any :: "nat \<Rightarrow> tx_out" where
  "reward_to_any v = \<lparr>tx_value = v, tx_script_pubkey = Empty_Script\<rparr>"

lemma reward_to_any_simps [simp]:
  "tx_value (reward_to_any v) = v" "tx_script_pubkey (reward_to_any v) = Empty_Script"
  by (simp_all add: reward_to_any_def)

definition start_time_timeout_new_for_validation ::
  "fee_policy \<Rightarrow> btc_network \<Rightarrow> connector_1 \<Rightarrow> connector_2 \<Rightarrow> tx_input_ref \<Rightarrow> tx_input_ref \<Rightarrow> rewarded option" where
  "start_time_timeout_new_for_validation pol net c1 c2 input_0 input_1 =
     do {
       t0 \<leftarrow> connector_2_leaf_tx_in c2 1 input_0;
       s0 \<leftarrow> connector_2_leaf_script c2 1;
       t1 \<leftarrow> connector_1_leaf_tx_in c1 2 input_1;
       s1 \<leftarrow> connector_1_leaf_script c1 2;
       both \<leftarrow> amt_add (in_amount input_0) (in_amount input_1);
       total \<leftarrow> checked_sub both (min_relay_fee_start_time_timeout pol);
       scaled \<leftarrow> amt_mul total 95;
       let burn = scaled div 100;
       reward \<leftarrow> checked_sub total burn;
       a2 \<leftarrow> connector_2_address c2;
       a1 \<leftarrow> connector_1_address c1;
       Some \<lparr>ps_tx = tx_v2 [t0, t1] [pay_to burn (generate_burn_script_address net), reward_to_any reward],
          ps_prev_outs = [pay_to (in_amount input_0) a2, pay_to (in_amount input_1) a1],
          ps_prev_scripts = [s0, s1],
          reward_output_amount = reward\<rparr>
     }"

lemma start_time_timeout_sound:
  "start_time_timeout_new_for_validation pol net c1 c2 input_0 input_1 = Some t \<Longrightarrow>
     sound_tx (pre_signed.truncate t) [input_0, input_1] (min_relay_fee_start_time_timeout pol)"
  by (auto simp: start_time_timeout_new_for_validation_def sound_tx_def pre_signed.truncate_def amt_Some_iffs Let_def
      dest: spend_rules)

definition kick_off_2_new_for_validation ::
  "fee_policy \<Rightarrow> btc_network \<Rightarrow> public_key \<Rightarrow> connector_1 \<Rightarrow> connector_b \<Rightarrow> tx_input_ref \<Rightarrow> pre_signed option" where
  "kick_off_2_new_for_validation pol net operator c1 cb input_0 =
     do {
       let c3 = connector_3_new net operator;
       t0 \<leftarrow> connector_1_leaf_tx_in c1 0 input_0;
       s0 \<leftarrow> connector_1_leaf_script c1 0;
       total \<leftarrow> checked_sub (in_amount input_0) (min_relay_fee_kick_off_2 pol);
       let output_0 = pay_to (dust_amount pol) (connector_3_address c3);
       v1 \<leftarrow> checked_sub total (tx_value output_0);
       ab \<leftarrow> connector_b_address cb;
       let output_1 = pay_to v1 ab;
       a1 \<leftarrow> connector_1_address c1;
       Some \<lparr>ps_tx = tx_v2 [t0] [output_0, output_1],
          ps_prev_outs = [pay_to (in_amount input_0) a1],
          ps_prev_scripts = [s0]\<rparr>
     }"

lemma kick_off_2_sound:
  "kick_off_2_new_for_validation pol net operator c1 cb input_0 = Some t \<Longrightarrow>
     sound_tx t [input_0] (min_relay_fee_kick_off_2 pol)"
  by (auto simp: kick_off_2_new_for_validation_def sound_tx_def amt_Some_iffs Let_def dest: spend_rules)

definition kick_off_timeout_new_for_validation ::
  "fee_policy \<Rightarrow> btc_network \<Rightarrow> connector_1 \<Rightarrow> tx_input_ref \<Rightarrow> rewarded option" where
  "kick_off_timeout_new_for_validation pol net c1 input_0 =
     do {
       t0 \<leftarrow> connector_1_leaf_tx_in c1 1 input_0;
       s0 \<leftarrow> connector_1_leaf_script c1 1;
       total \<leftarrow> checked_sub (in_amount input_0) (min_relay_fee_kick_off_timeout pol);
       scaled \<leftarrow> amt_mul total 95;
       let burn = scaled div 100;
       reward \<leftarrow> checked_sub total burn;
       a1 \<leftarrow> connector_1_address c1;
       Some \<lparr>ps_tx = tx_v2 [t0] [pay_to burn (generate_burn_script_address net), reward_to_any reward],
          ps_prev_outs = [pay_to (in_amount input_0) a1],
          ps_prev_scripts = [s0],
          reward_output_amount = reward\<rparr>
     }"

lemma kick_off_timeout_sound:
  "kick_off_timeout_new_for_validation pol net c1 input_0 = Some t \<Longrightarrow>
     sound_tx (pre_signed.truncate t) [input_0] (min_relay_fee_kick_off_timeout pol)"
  by (auto simp: kick_off_timeout_new_for_validation_def sound_tx_def pre_signed.truncate_def amt_Some_iffs Let_def
      dest: spend_rules)

section \<open>Take\<close>

definition take_1_new_for_validation ::
  "fee_policy \<Rightarrow> btc_network \<Rightarrow> public_key \<Rightarrow> connector_0 \<Rightarrow> connector_3 \<Rightarrow> connector_a \<Rightarrow> connector_b \<Rightarrow> tx_input_ref \<Rightarrow> tx_input_ref \<Rightarrow> tx_input_ref \<Rightarrow> tx_input_ref \<Rightarrow> pre_signed option" where
  "take_1_new_for_validation pol net operator c0 c3 ca cb input_0 input_1 input_2 input_3 =
     do {
       t0 \<leftarrow> connector_0_leaf_tx_in c0 0 input_0;
       s0 \<leftarrow> connector_0_leaf_script c0 0;
       t1 \<leftarrow> connector_a_leaf_tx_in ca 0 input_1;
       s1 \<leftarrow> connector_a_leaf_script ca 0;
       let t2 = connector_3_tx_in c3 input_2;
       t3 \<leftarrow> connector_b_leaf_tx_in cb 0 input_3;
       s3 \<leftarrow> connector_b_leaf_script cb 0;
       sum1 \<leftarrow> amt_add (in_amount input_0) (in_amount input_1);
       sum2 \<leftarrow> amt_add sum1 (in_amount input_2);
       sum3 \<leftarrow> amt_add sum2 (in_amount input_3);
       total \<leftarrow> checked_sub sum3 (min_relay_fee_take_1 pol);
       ab \<leftarrow> connector_b_address cb;
       Some \<lparr>ps_tx = tx_v2 [t0, t1, t2, t3] [pay_to total (generate_pay_to_pubkey_script_address net operator)],
          ps_prev_outs = [pay_to (in_amount input_0) (connector_0_address c0), pay_to (in_amount input_1) (connector_a_address ca), pay_to (in_amount input_2) (connector_3_address c3), pay_to (in_amount input_3) ab],
          ps_prev_scripts = [s0, s1, connector_3_script c3, s3]\<rparr>
     }"

lemma take_1_sound:
  "take_1_new_for_validation pol net operator c0 c3 ca cb input_0 input_1 input_2 input_3 = Some t \<Longrightarrow>
     sound_tx t [input_0, input_1, input_2, input_3] (min_relay_fee_take_1 pol)"
  by (auto simp: take_1_new_for_validation_def sound_tx_def amt_Some_iffs Let_def dest: spend_rules)

text \<open>Input 3 is spent by the operator key of connector C: it has no script.\<close>

definition take_2_new_for_validation ::
  "fee_policy \<Rightarrow> chunk_api \<Rightarrow> btc_network \<Rightarrow> public_key \<Rightarrow> connector_0 \<Rightarrow> connector_4 \<Rightarrow> connector_5 \<Rightarrow> connector_c \<Rightarrow> tx_input_ref \<Rightarrow> tx_input_ref \<Rightarrow> tx_input_ref \<Rightarrow> tx_input_ref \<Rightarrow> pre_signed option" where
  "take_2_new_for_validation pol api net operator c0 c4 c5 cc input_0 input_1 input_2 input_3 =
     do {
       t0 \<leftarrow> connector_0_leaf_tx_in c0 1 input_0;
       s0 \<leftarrow> connector_0_leaf_script c0 1;
       let t1 = connector_4_tx_in c4 input_1;
       t2 \<leftarrow> connector_5_leaf_tx_in c5 0 input_2;
       s2 \<leftarrow> connector_5_leaf_script c5 0;
       let t3 = generate_default_tx_in input_3;
       sum1 \<leftarrow> amt_add (in_amount input_0) (in_amount input_1);
       sum2 \<leftarrow> amt_add sum1 (in_amount input_2);
       sum3 \<leftarrow> amt_add sum2 (in_amount input_3);
       total \<leftarrow> checked_sub sum3 (min_relay_fee_take_2 pol);
       ac \<leftarrow> connector_c_address api cc;
       Some \<lparr>ps_tx = tx_v2 [t0, t1, t2, t3] [pay_to total (generate_pay_to_pubkey_script_address net operator)],
          ps_prev_outs = [pay_to (in_amount input_0) (connector_0_address c0), pay_to (in_amount input_1) (connector_4_address c4), pay_to (in_amount input_2) (connector_5_address c5), pay_to (in_amount input_3) ac],
          ps_prev_scripts = [s0, connector_4_script c4, s2]\<rparr>
     }"

lemma take_2_sound:
  "take_2_new_for_validation pol api net operator c0 c4 c5 cc input_0 input_1 input_2 input_3 = Some t \<Longrightarrow>
     sound_tx t [input_0, input_1, input_2, input_3] (min_relay_fee_take_2 pol)"
  by (auto simp: take_2_new_for_validation_def sound_tx_def amt_Some_iffs Let_def dest: spend_rules)

section \<open>Disprove\<close>

text \<open>The leaf of connector C is chosen when the disproof is found.\<close>

definition disprove_new_for_validation ::
  "fee_policy \<Rightarrow> chunk_api \<Rightarrow> btc_network \<Rightarrow> connector_5 \<Rightarrow> connector_c \<Rightarrow> tx_input_ref \<Rightarrow> tx_input_ref \<Rightarrow> rewarded option" where
  "disprove_new_for_validation pol api net c5 cc input_0 input_1 =
     do {
       t0 \<leftarrow> connector_5_leaf_tx_in c5 1 input_0;
       s0 \<leftarrow> connector_5_leaf_script c5 1;
       let t1 = generate_default_tx_in input_1;
       both \<leftarrow> amt_add (in_amount input_0) (in_amount input_1);
       total \<leftarrow> checked_sub both (min_relay_fee_disprove pol);
       let burn = total div 2;
       reward \<leftarrow> checked_sub total burn;
       ac \<leftarrow> connector_c_address api cc;
       Some \<lparr>ps_tx = tx_v2 [t0, t1] [pay_to burn (generate_burn_script_address net), reward_to_any reward],
          ps_prev_outs = [pay_to (in_amount input_0) (connector_5_address c5), pay_to (in_amount input_1) ac],
          ps_prev_scripts = [s0],
          reward_output_amount = reward\<rparr>
     }"

lemma disprove_sound:
  "disprove_new_for_validation pol api net c5 cc input_0 input_1 = Some t \<Longrightarrow>
     sound_tx (pre_signed.truncate t) [input_0, input_1] (min_relay_fee_disprove pol)"
  by (auto simp: disprove_new_for_validation_def sound_tx_def pre_signed.truncate_def amt_Some_iffs Let_def
      dest: spend_rules)

definition disprove_chain_new_for_validation ::
  "fee_policy \<Rightarrow> btc_network \<Rightarrow> connector_b \<Rightarrow> tx_input_ref \<Rightarrow> rewarded option" where
  "disprove_chain_new_for_validation pol net cb input_0 =
     do {
       t0 \<leftarrow> connector_b_leaf_tx_in cb 2 input_0;
       s0 \<leftarrow> connector_b_leaf_script cb 2;
       total \<leftarrow> checked_sub (in_amount input_0) (min_relay_fee_disprove_chain pol);
       let burn = total div 2;
       reward \<leftarrow> checked_sub total burn;
       ab \<leftarrow> connector_b_address cb;
       Some \<lparr>ps_tx = tx_v2 [t0] [pay_to burn (generate_burn_script_address net), reward_to_any reward],
          ps_prev_outs = [pay_to (in_amount input_0) ab],
          ps_prev_scripts = [s0],
          reward_output_amount = reward\<rparr>
     }"

lemma disprove_chain_sound:
  "disprove_chain_new_for_validation pol net cb input_0 = Some t \<Longrightarrow>
     sound_tx (pre_signed.truncate t) [input_0] (min_relay_fee_disprove_chain pol)"
  by (auto simp: disprove_chain_new_for_validation_def sound_tx_def pre_signed.truncate_def amt_Some_iffs Let_def
      dest: spend_rules)

end
