(* ===== verification/Bridge_Assert.thy ===== *)
theory Bridge_Assert
  imports Bridge_Transactions
begin

text \<open>
  The assertion of the operator (\<open>transactions/assert.rs\<close> and \<open>transactions/assert_transactions\<close>):
  an initial transaction that opens one connector E per intermediate value, two commit
  transactions that reveal them, and a final transaction; and the challenge with its
  crowdfunded inputs (\<open>transactions/challenge.rs\<close>).
\<close>

section \<open>The single assert transaction\<close>

definition assert_new_for_validation ::
  "fee_policy \<Rightarrow> chunk_api \<Rightarrow> connector_4 \<Rightarrow> connector_5 \<Rightarrow> connector_b \<Rightarrow> connector_c \<Rightarrow> tx_input_ref \<Rightarrow>
     pre_signed option" where
  "assert_new_for_validation pol api c4 c5 cb cc input_0 =
     do {
       t0 \<leftarrow> connector_b_leaf_tx_in cb 1 input_0;
       s0 \<leftarrow> connector_b_leaf_script cb 1;
       total \<leftarrow> checked_sub (in_amount input_0) (min_relay_fee_assert pol);
       ac \<leftarrow> connector_c_address api cc;
       ab \<leftarrow> connector_b_address cb;
       let output_0 = pay_to (dust_amount pol) (connector_4_address c4);
       let output_2 = pay_to (dust_amount pol) ac;
       rest \<leftarrow> checked_sub total (tx_value output_0);
       v1 \<leftarrow> checked_sub rest (tx_value output_2);
       Some \<lparr>ps_tx = tx_v2 [t0] [output_0, pay_to v1 (connector_5_address c5), output_2],
          ps_prev_outs = [pay_to (in_amount input_0) ab],
          ps_prev_scripts = [s0]\<rparr>
     }"

lemma assert_sound:
  "assert_new_for_validation pol api c4 c5 cb cc input_0 = Some t \<Longrightarrow>
     sound_tx t [input_0] (min_relay_fee_assert pol)"
  by (auto simp: assert_new_for_validation_def sound_tx_def amt_Some_iffs Let_def dest: spend_rules)

section \<open>Assert initial\<close>

text \<open>The outputs to the connectors E of one commit transaction; the first one also funds its fee.\<close>

fun commit_outputs :: "fee_policy \<Rightarrow> nat \<Rightarrow> nat \<Rightarrow> connector_e list \<Rightarrow> tx_out list option" where
  "commit_outputs pol commit_fee i [] = Some []"
| "commit_outputs pol commit_fee i (ce # ces) =
     do {
       let v = (if i = 0 then commit_fee + dust_amount pol else dust_amount pol);
       a \<leftarrow> connector_e_address ce;
       outs \<leftarrow> commit_outputs pol commit_fee (Suc i) ces;
       Some (pay_to v a # outs)
     }"

definition commit_expense :: "fee_policy \<Rightarrow> nat \<Rightarrow> connector_e list \<Rightarrow> nat option" where
  "commit_expense pol commit_fee ces =
     amt_mul (length ces) (dust_amount pol) \<bind> amt_add commit_fee"

definition assert_initial_new_for_validation ::
  "fee_policy \<Rightarrow> connector_b \<Rightarrow> connector_d \<Rightarrow> connector_e list \<Rightarrow> connector_e list \<Rightarrow> tx_input_ref \<Rightarrow>
     pre_signed option" where
  "assert_initial_new_for_validation pol cb cd ces1 ces2 input_0 =
     do {
       t0 \<leftarrow> connector_b_leaf_tx_in cb 1 input_0;
       s0 \<leftarrow> connector_b_leaf_script cb 1;
       total \<leftarrow> checked_sub (in_amount input_0) (min_relay_fee_assert_initial pol);
       expense1 \<leftarrow> commit_expense pol (min_relay_fee_assert_commit1 pol) ces1;
       expense2 \<leftarrow> commit_expense pol (min_relay_fee_assert_commit2 pol) ces2;
       rest \<leftarrow> checked_sub total expense1;
       v0 \<leftarrow> checked_sub rest expense2;
       outs1 \<leftarrow> commit_outputs pol (min_relay_fee_assert_commit1 pol) 0 ces1;
       outs2 \<leftarrow> commit_outputs pol (min_relay_fee_assert_commit2 pol) 0 ces2;
       ab \<leftarrow> connector_b_address cb;
       Some \<lparr>ps_tx = tx_v2 [t0] (pay_to v0 (connector_d_address cd) # outs1 @ outs2),
          ps_prev_outs = [pay_to (in_amount input_0) ab],
          ps_prev_scripts = [s0]\<rparr>
     }"

lemma commit_outputs_tail:
  "\<lbrakk>commit_outputs pol fee (Suc i) ces = Some outs\<rbrakk> \<Longrightarrow> total_value outs = length ces * dust_amount pol"
  by (induction ces arbitrary: i outs) (auto simp: bind_eq_Some_conv)

lemma commit_outputs_value:
  "\<lbrakk>commit_outputs pol fee 0 ces = Some outs; ces \<noteq> []\<rbrakk> \<Longrightarrow>
     total_value outs = fee + length ces * dust_amount pol"
  by (cases ces) (auto simp: bind_eq_Some_conv commit_outputs_tail)

lemma length_commit_outputs: "commit_outputs pol fee i ces = Some outs \<Longrightarrow> length outs = length ces"
  by (induction ces arbitrary: i outs) (auto simp: bind_eq_Some_conv)

lemma commit_outputs_nth:
  "\<lbrakk>commit_outputs pol fee i ces = Some outs; j < length ces\<rbrakk> \<Longrightarrow>
     \<exists>a. connector_e_address (ces ! j) = Some a \<and>
       outs ! j = pay_to (if i + j = 0 then fee + dust_amount pol else dust_amount pol) a"
proof (induction ces arbitrary: i j outs)
  case (Cons ce ces)
  show ?case using Cons.prems Cons.IH [of "Suc i"]
    by (cases j) (auto simp: bind_eq_Some_conv Let_def)
qed simp

lemma assert_initial_sound:
  assumes "assert_initial_new_for_validation pol cb cd ces1 ces2 input_0 = Some t"
    and "ces1 \<noteq> []" "ces2 \<noteq> []"
  shows "sound_tx t [input_0] (min_relay_fee_assert_initial pol)"
  using assms
  by (auto simp: assert_initial_new_for_validation_def commit_expense_def sound_tx_def amt_Some_iffs
      commit_outputs_value dest: spend_rules)

section \<open>Assert commit\<close>

text \<open>
  The loop over the connectors and the inputs, cut to the shorter of the two: inputs, previous
  outputs, scripts and the running total.
\<close>

type_synonym commit_rows = "tx_in list \<times> tx_out list \<times> bridge_script list \<times> nat"

definition commit_row :: "commit_rows \<Rightarrow> connector_e \<times> tx_input_ref \<Rightarrow> commit_rows option" where
  "commit_row rows ci =
     (case (rows, ci) of ((ins, outs, scripts, amount), (ce, inp)) \<Rightarrow>
        do {
          t \<leftarrow> connector_e_leaf_tx_in ce 0 inp;
          a \<leftarrow> connector_e_address ce;
          s \<leftarrow> connector_e_leaf_script ce 0;
          amount' \<leftarrow> amt_add amount (in_amount inp);
          Some (ins @ [t], outs @ [pay_to (in_amount inp) a], scripts @ [s], amount')
        })"

definition assert_commit_new_for_validation ::
  "nat \<Rightarrow> connector_e list \<Rightarrow> address \<Rightarrow> tx_input_ref list \<Rightarrow> pre_signed option" where
  "assert_commit_new_for_validation commit_fee ces address_f tx_inputs =
     do {
       (ins, outs, scripts, amount) \<leftarrow> fold_option commit_row ([], [], [], 0) (zip ces tx_inputs);
       total_output_amount \<leftarrow> checked_sub amount commit_fee;
       Some \<lparr>ps_tx = tx_v2 ins [pay_to total_output_amount address_f],
          ps_prev_outs = outs, ps_prev_scripts = scripts\<rparr>
     }"

definition assert_commit_1_new_for_validation ::
  "fee_policy \<Rightarrow> connector_e list \<Rightarrow> connector_f_1 \<Rightarrow> tx_input_ref list \<Rightarrow> pre_signed option" where
  "assert_commit_1_new_for_validation pol ces cf1 tx_inputs =
     assert_commit_new_for_validation (min_relay_fee_assert_commit1 pol) ces (connector_f_1_address cf1) tx_inputs"

definition assert_commit_2_new_for_validation ::
  "fee_policy \<Rightarrow> connector_e list \<Rightarrow> connector_f_2 \<Rightarrow> tx_input_ref list \<Rightarrow> pre_signed option" where
  "assert_commit_2_new_for_validation pol ces cf2 tx_inputs =
     assert_commit_new_for_validation (min_relay_fee_assert_commit2 pol) ces (connector_f_2_address cf2) tx_inputs"

definition assert_commit_1_new ::
  "fee_policy \<Rightarrow> connector_e list \<Rightarrow> connector_f_1 \<Rightarrow> tx_input_ref list \<Rightarrow> pre_signed option" where
  "assert_commit_1_new pol ces cf1 tx_inputs =
     do {
       _ \<leftarrow> rust_assert (length tx_inputs = length ces);
       assert_commit_1_new_for_validation pol ces cf1 tx_inputs
     }"

definition assert_commit_2_new ::
  "fee_policy \<Rightarrow> connector_e list \<Rightarrow> connector_f_2 \<Rightarrow> tx_input_ref list \<Rightarrow> pre_signed option" where
  "assert_commit_2_new pol ces cf2 tx_inputs =
     do {
       _ \<leftarrow> rust_assert (length tx_inputs = length ces);
       assert_commit_2_new_for_validation pol ces cf2 tx_inputs
     }"

lemma inputs_ok_snoc:
  "\<lbrakk>inputs_ok ins outs ss; length ins = length ss; length outs = length ss; input_ok i out s\<rbrakk> \<Longrightarrow>
     inputs_ok (ins @ [i]) (outs @ [out]) (ss @ [s])"
  by (induction ins outs ss rule: inputs_ok.induct) auto

definition rows_ok :: "commit_rows \<Rightarrow> tx_input_ref list \<Rightarrow> bool" where
  "rows_ok rows inps \<longleftrightarrow>
     (case rows of (ins, outs, scripts, amount) \<Rightarrow>
        map previous_output ins = map in_outpoint inps \<and> map tx_value outs = map in_amount inps \<and>
        length scripts = length inps \<and> inputs_ok ins outs scripts \<and> total_value outs = amount)"

lemma rows_ok_step:
  assumes "rows_ok rows inps" "commit_row rows (ce, inp) = Some rows'"
  shows "rows_ok rows' (inps @ [inp])"
proof -
  obtain ins outs ss amount where rows: "rows = (ins, outs, ss, amount)" by (cases rows)
  have len: "length ins = length ss" "length outs = length ss"
    using assms(1) by (auto simp: rows_ok_def rows dest: map_eq_imp_length_eq)
  show ?thesis using assms len
    by (auto simp: rows_ok_def rows commit_row_def amt_Some_iffs intro!: inputs_ok_snoc dest: spend_rules)
qed

lemma rows_ok_fold:
  "\<lbrakk>fold_option commit_row rows (zip ces inps') = Some rows'; rows_ok rows inps; length ces = length inps'\<rbrakk>
     \<Longrightarrow> rows_ok rows' (inps @ inps')"
proof (induction ces arbitrary: rows inps inps')
  case (Cons ce ces)
  then obtain inp rest where r: "inps' = inp # rest" by (cases inps') auto
  then obtain rows1 where r1: "commit_row rows (ce, inp) = Some rows1"
    and rest: "fold_option commit_row rows1 (zip ces rest) = Some rows'"
    using Cons.prems(1) by (auto simp: bind_eq_Some_conv)
  from Cons.IH [OF rest rows_ok_step [OF Cons.prems(2) r1]] Cons.prems(3) show ?case by (simp add: r)
qed simp

lemma assert_commit_sound:
  assumes "assert_commit_new_for_validation fee ces addr inps = Some t" "length ces = length inps"
  shows "sound_tx t inps fee"
proof -
  obtain rows amount where f: "fold_option commit_row ([], [], [], 0) (zip ces inps) = Some rows"
    and t: "checked_sub (snd (snd (snd rows))) fee = Some amount"
      "t = \<lparr>ps_tx = tx_v2 (fst rows) [pay_to amount addr], ps_prev_outs = fst (snd rows),
            ps_prev_scripts = fst (snd (snd rows))\<rparr>"
    using assms(1) by (auto simp: assert_commit_new_for_validation_def bind_eq_Some_conv)
  have "rows_ok rows ([] @ inps)"
    by (rule rows_ok_fold [OF f]) (simp_all add: rows_ok_def assms(2))
  then show ?thesis using t
    by (auto simp: rows_ok_def sound_tx_def checked_sub_Some_iff split: prod.splits)
qed

section \<open>Assert final\<close>

definition assert_final_new_for_validation ::
  "fee_policy \<Rightarrow> chunk_api \<Rightarrow> connector_4 \<Rightarrow> connector_5 \<Rightarrow> connector_c \<Rightarrow> connector_d \<Rightarrow>
     connector_f_1 \<Rightarrow> connector_f_2 \<Rightarrow> tx_input_ref \<Rightarrow> tx_input_ref \<Rightarrow> tx_input_ref \<Rightarrow> pre_signed option" where
  "assert_final_new_for_validation pol api c4 c5 cc cd cf1 cf2 input_0 input_1 input_2 =
     do {
       t0 \<leftarrow> connector_d_leaf_tx_in cd 0 input_0;
       s0 \<leftarrow> connector_d_leaf_script cd 0;
       let t1 = connector_f_1_tx_in cf1 input_1;
       let t2 = connector_f_2_tx_in cf2 input_2;
       sum1 \<leftarrow> amt_add (in_amount input_1) (in_amount input_2);
       sum2 \<leftarrow> amt_add sum1 (in_amount input_0);
       total \<leftarrow> checked_sub sum2 (min_relay_fee_assert_final pol);
       ac \<leftarrow> connector_c_address api cc;
       dust2 \<leftarrow> amt_mul (dust_amount pol) 2;
       v1 \<leftarrow> checked_sub total dust2;
       Some \<lparr>ps_tx = tx_v2 [t0, t1, t2]
            [pay_to (dust_amount pol) (connector_4_address c4), pay_to v1 (connector_5_address c5),
             pay_to (dust_amount pol) ac],
          ps_prev_outs =
            [pay_to (in_amount input_0) (connector_d_address cd),
             pay_to (in_amount input_1) (connector_f_1_address cf1),
             pay_to (in_amount input_2) (connector_f_2_address cf2)],
          ps_prev_scripts = [s0, connector_f_1_script cf1, connector_f_2_script cf2]\<rparr>
     }"

lemma assert_final_sound:
  "assert_final_new_for_validation pol api c4 c5 cc cd cf1 cf2 input_0 input_1 input_2 = Some t \<Longrightarrow>
     sound_tx t [input_0, input_1, input_2] (min_relay_fee_assert_final pol)"
  by (auto simp: assert_final_new_for_validation_def sound_tx_def amt_Some_iffs Let_def dest: spend_rules)

section \<open>Challenge\<close>

text \<open>
  The operator signs input 0 for the output of the same index only; whoever challenges adds the
  crowdfunded inputs and a refund of what they pay in excess, unless it is dust. The witness of
  an added input (\<open>populate_p2wsh_witness\<close>) is an argument.
\<close>

record challenge_tx = pre_signed +
  input_amount_crowdfunding :: nat

definition challenge_new_for_validation ::
  "fee_policy \<Rightarrow> btc_network \<Rightarrow> public_key \<Rightarrow> connector_a \<Rightarrow> tx_input_ref \<Rightarrow> nat \<Rightarrow> challenge_tx option" where
  "challenge_new_for_validation pol net operator ca input_0 crowdfunding =
     do {
       t0 \<leftarrow> connector_a_leaf_tx_in ca 1 input_0;
       s0 \<leftarrow> connector_a_leaf_script ca 1;
       both \<leftarrow> amt_add (in_amount input_0) crowdfunding;
       total \<leftarrow> checked_sub both (min_relay_fee_challenge pol);
       Some \<lparr>ps_tx = tx_v2 [t0] [pay_to total (generate_pay_to_pubkey_script_address net operator)],
          ps_prev_outs = [pay_to (in_amount input_0) (connector_a_address ca)],
          ps_prev_scripts = [s0],
          input_amount_crowdfunding = crowdfunding\<rparr>
     }"

record input_with_script = tx_input_ref +
  in_script :: bridge_script

type_synonym witness_of = "btc_tx \<Rightarrow> nat \<Rightarrow> bridge_script \<Rightarrow> nat \<Rightarrow> nat list list"

text \<open>One crowdfunding input: pushed, then its witness is made over the transaction so far.\<close>

definition push_input :: "witness_of \<Rightarrow> btc_tx \<Rightarrow> input_with_script \<Rightarrow> btc_tx" where
  "push_input sign tx inp =
     (let input_index = length (tx_input tx);
          tx' = tx\<lparr>tx_input := tx_input tx @
            [\<lparr>previous_output = in_outpoint inp, script_sig = [], tx_sequence = 0xFFFFFFFF, witness = []\<rparr>]\<rparr>
      in tx'\<lparr>tx_input := (tx_input tx')[input_index :=
           (tx_input tx' ! input_index)\<lparr>witness := sign tx' input_index (in_script inp) (in_amount inp)\<rparr>]\<rparr>)"

definition add_inputs_and_output ::
  "fee_policy \<Rightarrow> witness_of \<Rightarrow> challenge_tx \<Rightarrow> input_with_script list \<Rightarrow> script_pubkey \<Rightarrow> challenge_tx option" where
  "add_inputs_and_output pol sign ch inputs output_script_pubkey =
     do {
       _ \<leftarrow> rust_assert (length (tx_input (ps_tx ch)) \<le> 1);
       total \<leftarrow> fold_option (\<lambda>acc inp. amt_add acc (in_amount inp)) 0 inputs;
       _ \<leftarrow> rust_assert (input_amount_crowdfunding ch \<le> total);
       let discrepancy = total - input_amount_crowdfunding ch;
       let refund =
         (if input_amount_crowdfunding ch < total \<and> dust_amount pol \<le> discrepancy
          then [\<lparr>tx_value = discrepancy, tx_script_pubkey = output_script_pubkey\<rparr>] else []);
       let tx1 = (ps_tx ch)\<lparr>tx_output := tx_output (ps_tx ch) @ refund\<rparr>;
       Some (ch\<lparr>ps_tx := fold (\<lambda>inp tx. push_input sign tx inp) inputs tx1\<rparr>)
     }"

definition challenge_finalize :: "challenge_tx \<Rightarrow> btc_tx option" where
  "challenge_finalize ch = (if length (tx_input (ps_tx ch)) < 2 then None else Some (ps_tx ch))"

lemma push_input_simps [simp]:
  "tx_output (push_input sign tx inp) = tx_output tx"
  "map previous_output (tx_input (push_input sign tx inp)) =
     map previous_output (tx_input tx) @ [in_outpoint inp]"
  by (simp_all add: push_input_def Let_def)

lemma fold_push_input:
  "tx_output (fold (\<lambda>inp tx. push_input sign tx inp) inputs tx) = tx_output tx \<and>
   map previous_output (tx_input (fold (\<lambda>inp tx. push_input sign tx inp) inputs tx)) =
     map previous_output (tx_input tx) @ map in_outpoint inputs"
  by (induction inputs arbitrary: tx) (simp_all del: map_append)

lemma fold_amt_add:
  "fold_option (\<lambda>acc inp. amt_add acc (in_amount inp)) a inputs = Some b \<Longrightarrow>
     b = a + sum_list (map in_amount inputs)"
  by (induction inputs arbitrary: a) (force simp: amt_Some_iffs)+

text \<open>
  A completed challenge: the operator's input comes first, followed by the crowdfunded
  ones; the operator is paid connector A and the crowdfunding less the fee, the challenger
  is refunded the excess, and what leaves the outputs is the fee and less than one dust.
\<close>

theorem challenge_funds:
  assumes "challenge_new_for_validation pol net operator ca input_0 crowdfunding = Some ch"
    and "add_inputs_and_output pol sign ch inputs refund_script = Some ch'"
    and "0 < dust_amount pol"
  shows "\<exists>lost. lost < dust_amount pol \<and>
    in_amount input_0 + sum_list (map in_amount inputs) =
      total_value (tx_output (ps_tx ch')) + min_relay_fee_challenge pol + lost \<and>
    map previous_output (tx_input (ps_tx ch')) = in_outpoint input_0 # map in_outpoint inputs \<and>
    tx_value (tx_output (ps_tx ch') ! 0) =
      in_amount input_0 + crowdfunding - min_relay_fee_challenge pol"
proof -
  obtain t0 s0 v where t0: "connector_a_leaf_tx_in ca 1 input_0 = Some t0"
    and s0: "connector_a_leaf_script ca 1 = Some s0"
    and v: "v = in_amount input_0 + crowdfunding - min_relay_fee_challenge pol"
      "min_relay_fee_challenge pol \<le> in_amount input_0 + crowdfunding"
    and ch: "ch = \<lparr>ps_tx = tx_v2 [t0] [pay_to v (generate_pay_to_pubkey_script_address net operator)],
          ps_prev_outs = [pay_to (in_amount input_0) (connector_a_address ca)],
          ps_prev_scripts = [s0], input_amount_crowdfunding = crowdfunding\<rparr>"
    using assms(1) by (auto simp: challenge_new_for_validation_def amt_Some_iffs)
  have "previous_output t0 = in_outpoint input_0" using spend_connector_a [OF t0 s0] by blast
  define paid where "paid = sum_list (map in_amount inputs)"
  define refund where "refund = (if crowdfunding < paid \<and> dust_amount pol \<le> paid - crowdfunding
     then [\<lparr>tx_value = paid - crowdfunding, tx_script_pubkey = refund_script\<rparr>] else [])"
  obtain tot where tot: "fold_option (\<lambda>acc inp. amt_add acc (in_amount inp)) 0 inputs = Some tot"
    and ge: "crowdfunding \<le> tot"
    and ch': "ch' = ch\<lparr>ps_tx := fold (\<lambda>inp tx. push_input sign tx inp) inputs
        ((ps_tx ch)\<lparr>tx_output := tx_output (ps_tx ch) @ (if crowdfunding < tot \<and> dust_amount pol \<le> tot - crowdfunding
     then [\<lparr>tx_value = tot - crowdfunding, tx_script_pubkey = refund_script\<rparr>] else [])\<rparr>)\<rparr>"
    using assms(2) by (auto simp: add_inputs_and_output_def bind_eq_Some_conv ch Let_def)
  have "tot = paid" using fold_amt_add [OF tot] by (simp add: paid_def)
  have outs: "tx_output (ps_tx ch') = pay_to v (generate_pay_to_pubkey_script_address net operator) # refund"
    unfolding ch' by (simp add: fold_push_input) (simp add: ch \<open>tot = paid\<close> refund_def)
  have ins: "map previous_output (tx_input (ps_tx ch')) = in_outpoint input_0 # map in_outpoint inputs"
    unfolding ch' by (simp add: fold_push_input) (simp add: ch \<open>previous_output t0 = _\<close>)
  have "\<exists>lost. lost < dust_amount pol \<and> paid - crowdfunding = total_value refund + lost"
    using assms(3) by (cases "dust_amount pol \<le> paid - crowdfunding") (auto simp: refund_def)
  then show ?thesis
    using ge v by (fastforce simp: outs ins paid_def [symmetric] \<open>tot = paid\<close>)
qed

theorem challenge_funds_witness:
  "\<exists>ch ch' lost. challenge_new_for_validation core_policy Btc_Regtest (Public_Key False 7)
       (connector_a_new Btc_Regtest 7 8) \<lparr>in_outpoint = Outpoint 5 0, in_amount = 330\<rparr> 100000 = Some ch \<and>
     add_inputs_and_output core_policy (\<lambda>_ _ _ _. []) ch
       [\<lparr>in_outpoint = Outpoint 6 1, in_amount = 100200, in_script = []\<rparr>] Empty_Script = Some ch' \<and>
     lost < dust_amount core_policy \<and>
     330 + 100200 = total_value (tx_output (ps_tx ch')) + min_relay_fee_challenge core_policy + lost"
proof -
  let ?i = "\<lparr>in_outpoint = Outpoint 5 0, in_amount = 330\<rparr>"
  obtain ch where ch: "challenge_new_for_validation core_policy Btc_Regtest (Public_Key False 7)
       (connector_a_new Btc_Regtest 7 8) ?i 100000 = Some ch"
    by (simp add: challenge_new_for_validation_def connector_a_defs amt_add_def min_relay_fee_values)
  obtain ch' where ch': "add_inputs_and_output core_policy (\<lambda>_ _ _ _. []) ch
       [\<lparr>in_outpoint = Outpoint 6 1, in_amount = 100200, in_script = []\<rparr>] Empty_Script = Some ch'"
    using ch by (auto simp: challenge_new_for_validation_def connector_a_defs amt_add_def
        min_relay_fee_values add_inputs_and_output_def)
  show ?thesis using challenge_funds [OF ch ch'] ch ch' by auto
qed

end
