(* ===== verification/Peg_Out_Graph.thy ===== *)
theory Peg_Out_Graph
  imports Bridge_Assert
begin

text \<open>
  The two graphs of the bridge (\<open>graphs/peg_in.rs\<close>, \<open>graphs/peg_out.rs\<close>): the transactions of
  a peg-in and of a peg-out, built over the outputs of one another, with the connectors they
  share. A transaction id is the argument \<open>txid_of\<close>; signing changes witnesses only, which a
  transaction id does not cover, so the graph is that of the unsigned transactions.
\<close>

section \<open>Contexts and inputs\<close>

record depositor_context =
  dc_network :: btc_network
  dc_depositor_key :: public_key
  dc_depositor_taproot_key :: xonly_key
  dc_n_of_n_taproot_key :: xonly_key

record operator_context =
  oc_network :: btc_network
  oc_operator_key :: public_key
  oc_operator_taproot_key :: xonly_key
  oc_n_of_n_taproot_key :: xonly_key

text \<open>The input that spends an output; an output that is not there panics.\<close>

definition generate_input :: "(btc_tx \<Rightarrow> tx_hash) \<Rightarrow> btc_tx \<Rightarrow> nat \<Rightarrow> tx_input_ref option" where
  "generate_input txid_of tx vout =
     (if vout < length (tx_output tx)
      then Some \<lparr>in_outpoint = Outpoint (txid_of tx) vout, in_amount = tx_value (tx_output tx ! vout)\<rparr>
      else None)"

section \<open>The peg-in graph\<close>

record peg_in_graph =
  pi_connector_0 :: connector_0
  pi_connector_z :: connector_z
  peg_in_deposit_tx :: pre_signed
  peg_in_refund_tx :: pre_signed
  peg_in_confirm_tx :: pre_signed

definition peg_in_connectors :: "btc_network \<Rightarrow> xonly_key \<Rightarrow> xonly_key \<Rightarrow> string \<Rightarrow> connector_0 \<times> connector_z" where
  "peg_in_connectors net n_of_n depositor evm_address =
     (connector_0_new net n_of_n, connector_z_new net evm_address depositor n_of_n)"

definition peg_in_graph_new ::
  "fee_policy \<Rightarrow> (btc_tx \<Rightarrow> tx_hash) \<Rightarrow> depositor_context \<Rightarrow> tx_input_ref \<Rightarrow> string \<Rightarrow> peg_in_graph option" where
  "peg_in_graph_new pol txid_of ctx deposit_input evm_address =
     do {
       let (c0, cz) = peg_in_connectors (dc_network ctx) (dc_n_of_n_taproot_key ctx)
         (dc_depositor_taproot_key ctx) evm_address;
       deposit \<leftarrow> peg_in_deposit_new_for_validation pol (dc_network ctx) (dc_depositor_key ctx) cz deposit_input;
       refund_input \<leftarrow> generate_input txid_of (ps_tx deposit) 0;
       refund \<leftarrow> peg_in_refund_new_for_validation pol (dc_network ctx) (dc_depositor_key ctx) cz refund_input;
       confirm_input \<leftarrow> generate_input txid_of (ps_tx deposit) 0;
       confirm \<leftarrow> peg_in_confirm_new_for_validation pol c0 cz confirm_input;
       Some \<lparr>pi_connector_0 = c0, pi_connector_z = cz, peg_in_deposit_tx = deposit,
         peg_in_refund_tx = refund, peg_in_confirm_tx = confirm\<rparr>
     }"

section \<open>The connectors of a peg-out\<close>

record peg_out_connectors =
  pc_0 :: connector_0
  pc_1 :: connector_1
  pc_2 :: connector_2
  pc_3 :: connector_3
  pc_4 :: connector_4
  pc_5 :: connector_5
  pc_6 :: connector_6
  pc_a :: connector_a
  pc_b :: connector_b
  pc_c :: connector_c
  pc_d :: connector_d
  pc_e_1 :: "connector_e list"
  pc_e_2 :: "connector_e list"
  pc_f_1 :: connector_f_1
  pc_f_2 :: connector_f_2

type_synonym value_keys = "(commitment_message_id \<times> winternitz_key) list"

definition create_new_connectors ::
  "btc_network \<Rightarrow> xonly_key \<Rightarrow> xonly_key \<Rightarrow> public_key \<Rightarrow> commitment_keys \<Rightarrow> commitment_keys \<Rightarrow>
     commitment_keys \<Rightarrow> commitment_keys \<Rightarrow> value_keys list \<Rightarrow> value_keys list \<Rightarrow> peg_out_connectors option" where
  "create_new_connectors net n_of_n operator_taproot operator keys_1 keys_2 keys_6 keys_b keys_e1 keys_e2 =
     do {
       cc \<leftarrow> connector_c_new net operator_taproot (merge_to_connector_c_commits_public_key keys_e1 keys_e2);
       Some \<lparr>pc_0 = connector_0_new net n_of_n,
         pc_1 = connector_1_new net operator_taproot n_of_n keys_1,
         pc_2 = connector_2_new net operator_taproot n_of_n keys_2,
         pc_3 = connector_3_new net operator,
         pc_4 = connector_4_new net operator,
         pc_5 = connector_5_new net n_of_n,
         pc_6 = connector_6_new net operator_taproot keys_6,
         pc_a = connector_a_new net operator_taproot n_of_n,
         pc_b = connector_b_new net n_of_n keys_b,
         pc_c = cc,
         pc_d = connector_d_new net n_of_n,
         pc_e_1 = map (connector_e_new net operator) keys_e1,
         pc_e_2 = map (connector_e_new net operator) keys_e2,
         pc_f_1 = connector_f_1_new net operator,
         pc_f_2 = connector_f_2_new net operator\<rparr>
     }"

text \<open>The public keys of some secrets, as a hash map; a missing secret panics.\<close>

fun keys_of_secrets ::
  "('s \<Rightarrow> winternitz_key) \<Rightarrow> (commitment_message_id \<times> 's) list \<Rightarrow> commitment_message_id list \<Rightarrow>
     commitment_keys option" where
  "keys_of_secrets public_of secrets [] = Some Map.empty"
| "keys_of_secrets public_of secrets (k # ks) =
     do {
       s \<leftarrow> map_of secrets k;
       m \<leftarrow> keys_of_secrets public_of secrets ks;
       Some (m(k \<mapsto> public_of s))
     }"

definition peg_out_connectors_new ::
  "('s \<Rightarrow> winternitz_key) \<Rightarrow> operator_context \<Rightarrow> (commitment_message_id \<times> 's) list \<Rightarrow>
     peg_out_connectors option" where
  "peg_out_connectors_new public_of ctx secrets =
     do {
       keys_1 \<leftarrow> keys_of_secrets public_of secrets [Superblock, SuperblockHash];
       keys_2 \<leftarrow> keys_of_secrets public_of secrets [StartTime];
       keys_6 \<leftarrow> keys_of_secrets public_of secrets [PegOutTxIdSourceNetwork, PegOutTxIdDestinationNetwork];
       keys_b \<leftarrow> keys_of_secrets public_of secrets [StartTime, SuperblockHash];
       (keys_e1, keys_e2) \<leftarrow> groth16_commitment_secrets_to_public_keys public_of secrets;
       create_new_connectors (oc_network ctx) (oc_n_of_n_taproot_key ctx) (oc_operator_taproot_key ctx)
         (oc_operator_key ctx) keys_1 keys_2 keys_6 keys_b keys_e1 keys_e2
     }"

section \<open>The peg-out graph\<close>

text \<open>The transactions, in the order in which they are built.\<close>

record peg_out_graph =
  po_connectors :: peg_out_connectors
  peg_in_confirm_txid :: tx_hash
  peg_out_confirm_tx :: pre_signed
  kick_off_1_tx :: pre_signed
  start_time_tx :: pre_signed
  start_time_timeout_tx :: rewarded
  kick_off_2_tx :: pre_signed
  kick_off_timeout_tx :: rewarded
  challenge_transaction :: challenge_tx
  take_1_tx :: pre_signed
  assert_initial_tx :: pre_signed
  assert_commit_1_tx :: pre_signed
  assert_commit_2_tx :: pre_signed
  assert_final_tx :: pre_signed
  take_2_tx :: pre_signed
  disprove_tx :: rewarded
  disprove_chain_tx :: rewarded

text \<open>\<open>Amount::from_btc(CROWDFUNDING_AMOUNT)\<close>: one bitcoin.\<close>

definition crowdfunding_amount :: nat where
  "crowdfunding_amount = 100000000"

text \<open>Peg-out confirm and kick-off 1.\<close>

definition new_kick_off_1 ::
  "fee_policy \<Rightarrow> (btc_tx \<Rightarrow> tx_hash) \<Rightarrow> operator_context \<Rightarrow> peg_out_connectors \<Rightarrow> tx_input_ref \<Rightarrow>
     (pre_signed \<times> pre_signed) option" where
  "new_kick_off_1 pol txid_of ctx cs confirm_input =
     do {
       confirm \<leftarrow> peg_out_confirm_new_for_validation pol (oc_network ctx) (oc_operator_key ctx) (pc_6 cs) confirm_input;
       i0 \<leftarrow> generate_input txid_of (ps_tx confirm) 0;
       k1 \<leftarrow> kick_off_1_new_for_validation pol (oc_network ctx) (oc_operator_taproot_key ctx)
         (oc_n_of_n_taproot_key ctx) (pc_1 cs) (pc_2 cs) (pc_6 cs) i0;
       Some (confirm, k1)
     }"

text \<open>Start time and its timeout.\<close>

definition new_start_time ::
  "fee_policy \<Rightarrow> (btc_tx \<Rightarrow> tx_hash) \<Rightarrow> operator_context \<Rightarrow> peg_out_connectors \<Rightarrow> pre_signed \<Rightarrow>
     (pre_signed \<times> rewarded) option" where
  "new_start_time pol txid_of ctx cs k1 =
     do {
       i0 \<leftarrow> generate_input txid_of (ps_tx k1) 2;
       st \<leftarrow> start_time_new_for_validation pol (oc_network ctx) (oc_operator_key ctx) (pc_2 cs) i0;
       j0 \<leftarrow> generate_input txid_of (ps_tx k1) 2;
       j1 \<leftarrow> generate_input txid_of (ps_tx k1) 1;
       stt \<leftarrow> start_time_timeout_new_for_validation pol (oc_network ctx) (pc_1 cs) (pc_2 cs) j0 j1;
       Some (st, stt)
     }"

text \<open>Kick-off 2 and its timeout.\<close>

definition new_kick_off_2 ::
  "fee_policy \<Rightarrow> (btc_tx \<Rightarrow> tx_hash) \<Rightarrow> operator_context \<Rightarrow> peg_out_connectors \<Rightarrow> pre_signed \<Rightarrow>
     (pre_signed \<times> rewarded) option" where
  "new_kick_off_2 pol txid_of ctx cs k1 =
     do {
       i0 \<leftarrow> generate_input txid_of (ps_tx k1) 1;
       k2 \<leftarrow> kick_off_2_new_for_validation pol (oc_network ctx) (oc_operator_key ctx) (pc_1 cs) (pc_b cs) i0;
       j0 \<leftarrow> generate_input txid_of (ps_tx k1) 1;
       kt \<leftarrow> kick_off_timeout_new_for_validation pol (oc_network ctx) (pc_1 cs) j0;
       Some (k2, kt)
     }"

text \<open>Challenge.\<close>

definition new_challenge ::
  "fee_policy \<Rightarrow> (btc_tx \<Rightarrow> tx_hash) \<Rightarrow> operator_context \<Rightarrow> peg_out_connectors \<Rightarrow> pre_signed \<Rightarrow>
     challenge_tx option" where
  "new_challenge pol txid_of ctx cs k1 =
     do {
       i0 \<leftarrow> generate_input txid_of (ps_tx k1) 0;
       challenge_new_for_validation pol (oc_network ctx) (oc_operator_key ctx) (pc_a cs) i0 crowdfunding_amount
     }"

text \<open>Take 1.\<close>

definition new_take_1 ::
  "fee_policy \<Rightarrow> (btc_tx \<Rightarrow> tx_hash) \<Rightarrow> operator_context \<Rightarrow> peg_out_connectors \<Rightarrow> pre_signed \<Rightarrow> pre_signed \<Rightarrow>
     pre_signed \<Rightarrow> pre_signed option" where
  "new_take_1 pol txid_of ctx cs peg_in_confirm k1 k2 =
     do {
       i0 \<leftarrow> generate_input txid_of (ps_tx peg_in_confirm) 0;
       i1 \<leftarrow> generate_input txid_of (ps_tx k1) 0;
       i2 \<leftarrow> generate_input txid_of (ps_tx k2) 0;
       i3 \<leftarrow> generate_input txid_of (ps_tx k2) 1;
       take_1_new_for_validation pol (oc_network ctx) (oc_operator_key ctx) (pc_0 cs) (pc_3 cs) (pc_a cs)
         (pc_b cs) i0 i1 i2 i3
     }"

text \<open>Assert initial and the two assert commits, over consecutive outputs of the former.\<close>

fun generate_inputs :: "(btc_tx \<Rightarrow> tx_hash) \<Rightarrow> btc_tx \<Rightarrow> nat list \<Rightarrow> tx_input_ref list option" where
  "generate_inputs txid_of tx [] = Some []"
| "generate_inputs txid_of tx (v # vs) =
     do {
       i \<leftarrow> generate_input txid_of tx v;
       rest \<leftarrow> generate_inputs txid_of tx vs;
       Some (i # rest)
     }"

definition new_assert ::
  "fee_policy \<Rightarrow> (btc_tx \<Rightarrow> tx_hash) \<Rightarrow> operator_context \<Rightarrow> peg_out_connectors \<Rightarrow> pre_signed \<Rightarrow>
     (pre_signed \<times> pre_signed \<times> pre_signed) option" where
  "new_assert pol txid_of ctx cs k2 =
     do {
       i0 \<leftarrow> generate_input txid_of (ps_tx k2) 1;
       ai \<leftarrow> assert_initial_new_for_validation pol (pc_b cs) (pc_d cs) (pc_e_1 cs) (pc_e_2 cs) i0;
       let vout_base = 1;
       is1 \<leftarrow> generate_inputs txid_of (ps_tx ai) (map (\<lambda>idx. idx + vout_base) [0..<length (pc_e_1 cs)]);
       ac1 \<leftarrow> assert_commit_1_new pol (pc_e_1 cs) (pc_f_1 cs) is1;
       let vout_base = vout_base + length (pc_e_1 cs);
       is2 \<leftarrow> generate_inputs txid_of (ps_tx ai) (map (\<lambda>idx. idx + vout_base) [0..<length (pc_e_2 cs)]);
       ac2 \<leftarrow> assert_commit_2_new pol (pc_e_2 cs) (pc_f_2 cs) is2;
       Some (ai, ac1, ac2)
     }"

text \<open>Assert final.\<close>

definition new_assert_final ::
  "fee_policy \<Rightarrow> (btc_tx \<Rightarrow> tx_hash) \<Rightarrow> chunk_api \<Rightarrow> peg_out_connectors \<Rightarrow> pre_signed \<Rightarrow> pre_signed \<Rightarrow>
     pre_signed \<Rightarrow> pre_signed option" where
  "new_assert_final pol txid_of api cs ai ac1 ac2 =
     do {
       i0 \<leftarrow> generate_input txid_of (ps_tx ai) 0;
       i1 \<leftarrow> generate_input txid_of (ps_tx ac1) 0;
       i2 \<leftarrow> generate_input txid_of (ps_tx ac2) 0;
       assert_final_new_for_validation pol api (pc_4 cs) (pc_5 cs) (pc_c cs) (pc_d cs) (pc_f_1 cs) (pc_f_2 cs)
         i0 i1 i2
     }"

text \<open>Take 2.\<close>

definition new_take_2 ::
  "fee_policy \<Rightarrow> (btc_tx \<Rightarrow> tx_hash) \<Rightarrow> chunk_api \<Rightarrow> operator_context \<Rightarrow> peg_out_connectors \<Rightarrow> pre_signed \<Rightarrow>
     pre_signed \<Rightarrow> pre_signed option" where
  "new_take_2 pol txid_of api ctx cs peg_in_confirm af =
     do {
       i0 \<leftarrow> generate_input txid_of (ps_tx peg_in_confirm) 0;
       i1 \<leftarrow> generate_input txid_of (ps_tx af) 0;
       i2 \<leftarrow> generate_input txid_of (ps_tx af) 1;
       i3 \<leftarrow> generate_input txid_of (ps_tx af) 2;
       take_2_new_for_validation pol api (oc_network ctx) (oc_operator_key ctx) (pc_0 cs) (pc_4 cs) (pc_5 cs)
         (pc_c cs) i0 i1 i2 i3
     }"

text \<open>Disprove and disprove chain.\<close>

definition new_disprove ::
  "fee_policy \<Rightarrow> (btc_tx \<Rightarrow> tx_hash) \<Rightarrow> chunk_api \<Rightarrow> operator_context \<Rightarrow> peg_out_connectors \<Rightarrow> pre_signed \<Rightarrow>
     pre_signed \<Rightarrow> (rewarded \<times> rewarded) option" where
  "new_disprove pol txid_of api ctx cs af k2 =
     do {
       i0 \<leftarrow> generate_input txid_of (ps_tx af) 1;
       i1 \<leftarrow> generate_input txid_of (ps_tx af) 2;
       dp \<leftarrow> disprove_new_for_validation pol api (oc_network ctx) (pc_5 cs) (pc_c cs) i0 i1;
       j0 \<leftarrow> generate_input txid_of (ps_tx k2) 1;
       dc \<leftarrow> disprove_chain_new_for_validation pol (oc_network ctx) (pc_b cs) j0;
       Some (dp, dc)
     }"

definition peg_out_graph_new ::
  "fee_policy \<Rightarrow> (btc_tx \<Rightarrow> tx_hash) \<Rightarrow> chunk_api \<Rightarrow> ('s \<Rightarrow> winternitz_key) \<Rightarrow> operator_context \<Rightarrow>
     peg_in_graph \<Rightarrow> tx_input_ref \<Rightarrow> (commitment_message_id \<times> 's) list \<Rightarrow> peg_out_graph option" where
  "peg_out_graph_new pol txid_of api public_of ctx peg_in confirm_input secrets =
     do {
       let peg_in_confirm = peg_in_confirm_tx peg_in;
       cs \<leftarrow> peg_out_connectors_new public_of ctx secrets;
       (confirm, k1) \<leftarrow> new_kick_off_1 pol txid_of ctx cs confirm_input;
       (st, stt) \<leftarrow> new_start_time pol txid_of ctx cs k1;
       (k2, kt) \<leftarrow> new_kick_off_2 pol txid_of ctx cs k1;
       ch \<leftarrow> new_challenge pol txid_of ctx cs k1;
       t1 \<leftarrow> new_take_1 pol txid_of ctx cs peg_in_confirm k1 k2;
       (ai, ac1, ac2) \<leftarrow> new_assert pol txid_of ctx cs k2;
       af \<leftarrow> new_assert_final pol txid_of api cs ai ac1 ac2;
       t2 \<leftarrow> new_take_2 pol txid_of api ctx cs peg_in_confirm af;
       (dp, dc) \<leftarrow> new_disprove pol txid_of api ctx cs af k2;
       Some \<lparr>po_connectors = cs, peg_in_confirm_txid = txid_of (ps_tx peg_in_confirm),
         peg_out_confirm_tx = confirm, kick_off_1_tx = k1, start_time_tx = st, start_time_timeout_tx = stt,
         kick_off_2_tx = k2, kick_off_timeout_tx = kt, challenge_transaction = ch, take_1_tx = t1,
         assert_initial_tx = ai, assert_commit_1_tx = ac1, assert_commit_2_tx = ac2, assert_final_tx = af,
         take_2_tx = t2, disprove_tx = dp, disprove_chain_tx = dc\<rparr>
     }"

section \<open>The outputs a transaction pays to and spends from\<close>

definition pays :: "btc_tx \<Rightarrow> script_pubkey list" where
  "pays tx = map tx_script_pubkey (tx_output tx)"

definition takes :: "'a pre_signed_scheme \<Rightarrow> script_pubkey list" where
  "takes t = map tx_script_pubkey (ps_prev_outs t)"

definition spk :: "address option \<Rightarrow> script_pubkey" where
  "spk a = addr_script_pubkey (the a)"

lemma spk_Some [simp]: "spk (Some a) = addr_script_pubkey a"
  by (simp add: spk_def)

named_theorems shape_rules \<open>script public keys of the outputs of a transaction and of those it spends\<close>

lemma peg_in_deposit_shape [shape_rules]:
  "peg_in_deposit_new_for_validation pol net depositor cz input_0 = Some t \<Longrightarrow>
     pays (ps_tx t) = [addr_script_pubkey (connector_z_address cz)] \<and>
     takes t = [addr_script_pubkey (generate_pay_to_pubkey_script_address net depositor)]"
  by (auto simp: peg_in_deposit_new_for_validation_def pays_def takes_def bind_eq_Some_conv Let_def)

lemma peg_in_confirm_shape [shape_rules]:
  "peg_in_confirm_new_for_validation pol c0 cz input_0 = Some t \<Longrightarrow>
     pays (ps_tx t) = [addr_script_pubkey (connector_0_address c0)] \<and>
     takes t = [addr_script_pubkey (connector_z_address cz)]"
  by (auto simp: peg_in_confirm_new_for_validation_def pays_def takes_def bind_eq_Some_conv Let_def)

lemma peg_in_refund_shape [shape_rules]:
  "peg_in_refund_new_for_validation pol net depositor cz input_0 = Some t \<Longrightarrow>
     pays (ps_tx t) = [addr_script_pubkey (generate_pay_to_pubkey_script_address net depositor)] \<and>
     takes t = [addr_script_pubkey (connector_z_address cz)]"
  by (auto simp: peg_in_refund_new_for_validation_def pays_def takes_def bind_eq_Some_conv Let_def)

lemma peg_out_confirm_shape [shape_rules]:
  "peg_out_confirm_new_for_validation pol net operator c6 input_0 = Some t \<Longrightarrow>
     pays (ps_tx t) = [spk (connector_6_address c6)] \<and>
     takes t = [addr_script_pubkey (generate_pay_to_pubkey_script_address net operator)]"
  by (auto simp: peg_out_confirm_new_for_validation_def pays_def takes_def bind_eq_Some_conv Let_def)

lemma kick_off_1_shape [shape_rules]:
  "kick_off_1_new_for_validation pol net operator n_of_n c1 c2 c6 input_0 = Some t \<Longrightarrow>
     pays (ps_tx t) = [addr_script_pubkey (connector_a_address (connector_a_new net operator n_of_n)), spk (connector_1_address c1), spk (connector_2_address c2)] \<and>
     takes t = [spk (connector_6_address c6)]"
  by (auto simp: kick_off_1_new_for_validation_def pays_def takes_def bind_eq_Some_conv Let_def)

lemma start_time_shape [shape_rules]:
  "start_time_new_for_validation pol net operator c2 input_0 = Some t \<Longrightarrow>
     pays (ps_tx t) = [addr_script_pubkey (generate_pay_to_pubkey_script_address net operator)] \<and>
     takes t = [spk (connector_2_address c2)]"
  by (auto simp: start_time_new_for_validation_def pays_def takes_def bind_eq_Some_conv Let_def)

lemma start_time_timeout_shape [shape_rules]:
  "start_time_timeout_new_for_validation pol net c1 c2 input_0 input_1 = Some t \<Longrightarrow>
     pays (ps_tx t) = [addr_script_pubkey (generate_burn_script_address net), Empty_Script] \<and>
     takes t = [spk (connector_2_address c2), spk (connector_1_address c1)]"
  by (auto simp: start_time_timeout_new_for_validation_def pays_def takes_def bind_eq_Some_conv Let_def)

lemma kick_off_2_shape [shape_rules]:
  "kick_off_2_new_for_validation pol net operator c1 cb input_0 = Some t \<Longrightarrow>
     pays (ps_tx t) = [addr_script_pubkey (connector_3_address (connector_3_new net operator)), spk (connector_b_address cb)] \<and>
     takes t = [spk (connector_1_address c1)]"
  by (auto simp: kick_off_2_new_for_validation_def pays_def takes_def bind_eq_Some_conv Let_def)

lemma kick_off_timeout_shape [shape_rules]:
  "kick_off_timeout_new_for_validation pol net c1 input_0 = Some t \<Longrightarrow>
     pays (ps_tx t) = [addr_script_pubkey (generate_burn_script_address net), Empty_Script] \<and>
     takes t = [spk (connector_1_address c1)]"
  by (auto simp: kick_off_timeout_new_for_validation_def pays_def takes_def bind_eq_Some_conv Let_def)

lemma take_1_shape [shape_rules]:
  "take_1_new_for_validation pol net operator c0 c3 ca cb input_0 input_1 input_2 input_3 = Some t \<Longrightarrow>
     pays (ps_tx t) = [addr_script_pubkey (generate_pay_to_pubkey_script_address net operator)] \<and>
     takes t = [addr_script_pubkey (connector_0_address c0), addr_script_pubkey (connector_a_address ca), addr_script_pubkey (connector_3_address c3), spk (connector_b_address cb)]"
  by (auto simp: take_1_new_for_validation_def pays_def takes_def bind_eq_Some_conv Let_def)

lemma take_2_shape [shape_rules]:
  "take_2_new_for_validation pol api net operator c0 c4 c5 cc input_0 input_1 input_2 input_3 = Some t \<Longrightarrow>
     pays (ps_tx t) = [addr_script_pubkey (generate_pay_to_pubkey_script_address net operator)] \<and>
     takes t = [addr_script_pubkey (connector_0_address c0), addr_script_pubkey (connector_4_address c4), addr_script_pubkey (connector_5_address c5), spk (connector_c_address api cc)]"
  by (auto simp: take_2_new_for_validation_def pays_def takes_def bind_eq_Some_conv Let_def)

lemma disprove_shape [shape_rules]:
  "disprove_new_for_validation pol api net c5 cc input_0 input_1 = Some t \<Longrightarrow>
     pays (ps_tx t) = [addr_script_pubkey (generate_burn_script_address net), Empty_Script] \<and>
     takes t = [addr_script_pubkey (connector_5_address c5), spk (connector_c_address api cc)]"
  by (auto simp: disprove_new_for_validation_def pays_def takes_def bind_eq_Some_conv Let_def)

lemma disprove_chain_shape [shape_rules]:
  "disprove_chain_new_for_validation pol net cb input_0 = Some t \<Longrightarrow>
     pays (ps_tx t) = [addr_script_pubkey (generate_burn_script_address net), Empty_Script] \<and>
     takes t = [spk (connector_b_address cb)]"
  by (auto simp: disprove_chain_new_for_validation_def pays_def takes_def bind_eq_Some_conv Let_def)

lemma challenge_shape [shape_rules]:
  "challenge_new_for_validation pol net operator ca input_0 crowdfunding = Some t \<Longrightarrow>
     pays (ps_tx t) = [addr_script_pubkey (generate_pay_to_pubkey_script_address net operator)] \<and>
     takes t = [addr_script_pubkey (connector_a_address ca)]"
  by (auto simp: challenge_new_for_validation_def pays_def takes_def bind_eq_Some_conv Let_def)

lemma assert_final_shape [shape_rules]:
  "assert_final_new_for_validation pol api c4 c5 cc cd cf1 cf2 input_0 input_1 input_2 = Some t \<Longrightarrow>
     pays (ps_tx t) = [addr_script_pubkey (connector_4_address c4), addr_script_pubkey (connector_5_address c5), spk (connector_c_address api cc)] \<and>
     takes t = [addr_script_pubkey (connector_d_address cd), addr_script_pubkey (connector_f_1_address cf1), addr_script_pubkey (connector_f_2_address cf2)]"
  by (auto simp: assert_final_new_for_validation_def pays_def takes_def bind_eq_Some_conv Let_def)

lemma assert_initial_shape [shape_rules]:
  "assert_initial_new_for_validation pol cb cd ces1 ces2 input_0 = Some t \<Longrightarrow>
     pays (ps_tx t) = addr_script_pubkey (connector_d_address cd)
       # map (\<lambda>ce. spk (connector_e_address ce)) (ces1 @ ces2) \<and>
     takes t = [spk (connector_b_address cb)]"
proof -
  have "commit_outputs pol fee i ces = Some outs \<Longrightarrow>
      map tx_script_pubkey outs = map (\<lambda>ce. spk (connector_e_address ce)) ces" for fee i ces outs
    by (induction ces arbitrary: i outs) (auto simp: bind_eq_Some_conv Let_def)
  then show "assert_initial_new_for_validation pol cb cd ces1 ces2 input_0 = Some t \<Longrightarrow> ?thesis"
    by (auto simp: assert_initial_new_for_validation_def pays_def takes_def bind_eq_Some_conv Let_def)
qed

lemma assert_commit_shape:
  assumes "assert_commit_new_for_validation fee ces addr inps = Some t" "length ces = length inps"
  shows "pays (ps_tx t) = [addr_script_pubkey addr] \<and> takes t = map (\<lambda>ce. spk (connector_e_address ce)) ces"
proof -
  have "fold_option commit_row rows (zip cs is) = Some rows' \<Longrightarrow> length cs = length is \<Longrightarrow>
      map tx_script_pubkey (fst (snd rows')) =
        map tx_script_pubkey (fst (snd rows)) @ map (\<lambda>ce. spk (connector_e_address ce)) cs"
    for rows rows' cs "is"
  proof (induction cs arbitrary: rows "is")
    case (Cons c cs)
    then obtain i js where i: "is = i # js" by (cases "is") auto
    obtain ins outs ss amount where r: "rows = (ins, outs, ss, amount)" by (cases rows)
    show ?case using Cons.prems Cons.IH [of _ js]
      by (auto simp: i r commit_row_def bind_eq_Some_conv)
  qed auto
  from this [of "([], [], [], 0)" ces inps] assms show ?thesis
    by (auto simp: assert_commit_new_for_validation_def pays_def takes_def bind_eq_Some_conv)
qed

lemma assert_commit_1_shape [shape_rules]:
  "assert_commit_1_new pol ces cf1 inps = Some t \<Longrightarrow>
     pays (ps_tx t) = [addr_script_pubkey (connector_f_1_address cf1)] \<and>
     takes t = map (\<lambda>ce. spk (connector_e_address ce)) ces \<and>
     sound_tx t inps (min_relay_fee_assert_commit1 pol)"
  using assert_commit_shape [of _ ces _ inps t] assert_commit_sound [of _ ces _ inps t]
  by (auto simp: assert_commit_1_new_def assert_commit_1_new_for_validation_def rust_assert_bind_Some_iff)

lemma assert_commit_2_shape [shape_rules]:
  "assert_commit_2_new pol ces cf2 inps = Some t \<Longrightarrow>
     pays (ps_tx t) = [addr_script_pubkey (connector_f_2_address cf2)] \<and>
     takes t = map (\<lambda>ce. spk (connector_e_address ce)) ces \<and>
     sound_tx t inps (min_relay_fee_assert_commit2 pol)"
  using assert_commit_shape [of _ ces _ inps t] assert_commit_sound [of _ ces _ inps t]
  by (auto simp: assert_commit_2_new_def assert_commit_2_new_for_validation_def rust_assert_bind_Some_iff)

section \<open>Links\<close>

text \<open>
  Input \<open>i\<close> of a transaction spends output \<open>v\<close> of another one: it names that output, and the
  previous output it was signed for is that output, amount and script.
\<close>

definition spends_output :: "(btc_tx \<Rightarrow> tx_hash) \<Rightarrow> 'a pre_signed_scheme \<Rightarrow> nat \<Rightarrow> btc_tx \<Rightarrow> nat \<Rightarrow> bool" where
  "spends_output txid_of child i parent v \<longleftrightarrow>
     i < length (tx_input (ps_tx child)) \<and> i < length (ps_prev_outs child) \<and> v < length (tx_output parent) \<and>
     previous_output (tx_input (ps_tx child) ! i) = Outpoint (txid_of parent) v \<and>
     ps_prev_outs child ! i = tx_output parent ! v"

lemma generate_inputD:
  "generate_input txid_of tx v = Some inp \<Longrightarrow>
     v < length (tx_output tx) \<and> in_outpoint inp = Outpoint (txid_of tx) v \<and>
     in_amount inp = tx_value (tx_output tx ! v)"
  by (auto simp: generate_input_def split: if_splits)

lemma spends_outputI:
  assumes "map previous_output (tx_input (ps_tx child)) = map in_outpoint inps"
    and "map tx_value (ps_prev_outs child) = map in_amount inps"
    and "generate_input txid_of parent v = Some (inps ! i)" "i < length inps"
    and "takes child ! i = pays parent ! v"
  shows "spends_output txid_of child i parent v"
proof -
  have len: "length (tx_input (ps_tx child)) = length inps" "length (ps_prev_outs child) = length inps"
    using assms(1,2) by (auto dest: map_eq_imp_length_eq)
  note g = generate_inputD [OF assms(3)]
  have p: "previous_output (tx_input (ps_tx child) ! i) = in_outpoint (inps ! i)"
    using arg_cong [OF assms(1), of "\<lambda>l. l ! i"] assms(4) len by simp
  have v: "tx_value (ps_prev_outs child ! i) = in_amount (inps ! i)"
    using arg_cong [OF assms(2), of "\<lambda>l. l ! i"] assms(4) len by simp
  have s: "tx_script_pubkey (ps_prev_outs child ! i) = tx_script_pubkey (tx_output parent ! v)"
    using assms(4,5) len g by (simp add: takes_def pays_def)
  show ?thesis using p v s g assms(4) len by (simp add: spends_output_def)
qed

lemma spends_outputI_sound:
  assumes "sound_tx (pre_signed.truncate child) inps fee"
    and "generate_input txid_of parent v = Some (inps ! i)" "i < length inps"
    and "takes child ! i = pays parent ! v"
  shows "spends_output txid_of child i parent v"
  using assms by (intro spends_outputI [where inps = inps]) (auto simp: sound_tx_def pre_signed.truncate_def)

lemma truncate_pre_signed [simp]: "pre_signed.truncate t = (t :: pre_signed)"
  by (simp add: pre_signed.truncate_def)

lemma challenge_inputs:
  assumes "challenge_new_for_validation pol net operator ca input_0 crowdfunding = Some ch"
  shows "map previous_output (tx_input (ps_tx ch)) = map in_outpoint [input_0] \<and>
    map tx_value (ps_prev_outs ch) = map in_amount [input_0] \<and>
    inputs_ok (tx_input (ps_tx ch)) (ps_prev_outs ch) (ps_prev_scripts ch)"
  using assms by (auto simp: challenge_new_for_validation_def amt_Some_iffs dest: spend_rules)

lemma generate_inputs_nth:
  "generate_inputs txid_of tx vs = Some inps \<Longrightarrow>
     length inps = length vs \<and> (\<forall>j < length vs. generate_input txid_of tx (vs ! j) = Some (inps ! j))"
proof (induction vs arbitrary: inps)
  case (Cons v vs)
  then show ?case by (auto simp: bind_eq_Some_conv nth_Cons split: nat.splits)
qed simp

lemma spends_outputs:
  assumes "sound_tx (pre_signed.truncate child) inps fee"
  shows
    "\<lbrakk>inps = a # r0; takes child = x # s0; generate_input txid_of parent v = Some a; x = pays parent ! v\<rbrakk>
       \<Longrightarrow> spends_output txid_of child 0 parent v"
    "\<lbrakk>inps = i0 # a # r1; takes child = y0 # x # s1; generate_input txid_of parent v = Some a; x = pays parent ! v\<rbrakk>
       \<Longrightarrow> spends_output txid_of child 1 parent v"
    "\<lbrakk>inps = i0 # i1 # a # r2; takes child = y0 # y1 # x # s2; generate_input txid_of parent v = Some a;
      x = pays parent ! v\<rbrakk> \<Longrightarrow> spends_output txid_of child 2 parent v"
    "\<lbrakk>inps = i0 # i1 # i2 # a # r3; takes child = y0 # y1 # y2 # x # s3;
      generate_input txid_of parent v = Some a; x = pays parent ! v\<rbrakk> \<Longrightarrow> spends_output txid_of child 3 parent v"
  using assms by (auto intro!: spends_outputI_sound [OF assms])

lemmas plain_spends = spends_outputs [where child = "t :: pre_signed" for t, unfolded truncate_pre_signed]

lemma new_kick_off_1_links:
  assumes "new_kick_off_1 pol txid_of ctx cs confirm_input = Some (confirm, k1)"
    and "pc_a cs = connector_a_new (oc_network ctx) (oc_operator_taproot_key ctx) (oc_n_of_n_taproot_key ctx)"
  shows "spends_output txid_of k1 0 (ps_tx confirm) 0 \<and>
    pays (ps_tx k1) = [addr_script_pubkey (connector_a_address (pc_a cs)), spk (connector_1_address (pc_1 cs)),
      spk (connector_2_address (pc_2 cs))] \<and>
    sound_tx confirm [confirm_input] (min_relay_fee_peg_out_confirm pol) \<and>
    (\<exists>i. sound_tx k1 [i] (min_relay_fee_kick_off_1 pol))"
proof -
  obtain i0 where c: "peg_out_confirm_new_for_validation pol (oc_network ctx) (oc_operator_key ctx) (pc_6 cs) confirm_input = Some confirm"
    and i0: "generate_input txid_of (ps_tx confirm) 0 = Some i0"
    and k: "kick_off_1_new_for_validation pol (oc_network ctx) (oc_operator_taproot_key ctx)
         (oc_n_of_n_taproot_key ctx) (pc_1 cs) (pc_2 cs) (pc_6 cs) i0 = Some k1"
    using assms(1) by (auto simp: new_kick_off_1_def bind_eq_Some_conv)
  note shapes = peg_out_confirm_shape [OF c] kick_off_1_shape [OF k]
  have "spends_output txid_of k1 0 (ps_tx confirm) 0"
    by (rule plain_spends(1) [OF kick_off_1_sound [OF k] refl _ i0]) (simp_all add: shapes)
  then show ?thesis using shapes peg_out_confirm_sound [OF c] kick_off_1_sound [OF k]
    by (auto simp: assms(2))
qed

lemma new_start_time_links:
  assumes "new_start_time pol txid_of ctx cs k1 = Some (st, stt)"
    and "pays (ps_tx k1) = [xa, spk (connector_1_address (pc_1 cs)), spk (connector_2_address (pc_2 cs))]"
  shows "spends_output txid_of st 0 (ps_tx k1) 2 \<and> spends_output txid_of stt 0 (ps_tx k1) 2 \<and>
    spends_output txid_of stt 1 (ps_tx k1) 1 \<and>
    (\<exists>i. sound_tx st [i] (min_relay_fee_start_time pol)) \<and>
    (\<exists>i j. sound_tx (pre_signed.truncate stt) [i, j] (min_relay_fee_start_time_timeout pol))"
proof -
  obtain i0 j0 j1 where i0: "generate_input txid_of (ps_tx k1) 2 = Some i0"
    and st: "start_time_new_for_validation pol (oc_network ctx) (oc_operator_key ctx) (pc_2 cs) i0 = Some st"
    and j: "generate_input txid_of (ps_tx k1) 2 = Some j0" "generate_input txid_of (ps_tx k1) 1 = Some j1"
    and stt: "start_time_timeout_new_for_validation pol (oc_network ctx) (pc_1 cs) (pc_2 cs) j0 j1 = Some stt"
    using assms(1) by (auto simp: new_start_time_def bind_eq_Some_conv)
  note shapes = start_time_shape [OF st] start_time_timeout_shape [OF stt]
  have "spends_output txid_of st 0 (ps_tx k1) 2"
    by (rule plain_spends(1) [OF start_time_sound [OF st] refl _ i0]) (simp_all add: shapes assms(2))
  moreover have "spends_output txid_of stt 0 (ps_tx k1) 2"
    by (rule spends_outputs(1) [OF start_time_timeout_sound [OF stt] refl _ j(1)]) (simp_all add: shapes assms(2))
  moreover have "spends_output txid_of stt 1 (ps_tx k1) 1"
    by (rule spends_outputs(2) [OF start_time_timeout_sound [OF stt] refl _ j(2)]) (simp_all add: shapes assms(2))
  ultimately show ?thesis using start_time_sound [OF st] start_time_timeout_sound [OF stt] by blast
qed

lemma new_kick_off_2_links:
  assumes "new_kick_off_2 pol txid_of ctx cs k1 = Some (k2, kt)"
    and "pays (ps_tx k1) = [xa, spk (connector_1_address (pc_1 cs)), xb]"
    and "pc_3 cs = connector_3_new (oc_network ctx) (oc_operator_key ctx)"
  shows "spends_output txid_of k2 0 (ps_tx k1) 1 \<and> spends_output txid_of kt 0 (ps_tx k1) 1 \<and>
    pays (ps_tx k2) = [addr_script_pubkey (connector_3_address (pc_3 cs)), spk (connector_b_address (pc_b cs))] \<and>
    (\<exists>i. sound_tx k2 [i] (min_relay_fee_kick_off_2 pol)) \<and>
    (\<exists>i. sound_tx (pre_signed.truncate kt) [i] (min_relay_fee_kick_off_timeout pol))"
proof -
  obtain i0 j0 where i0: "generate_input txid_of (ps_tx k1) 1 = Some i0"
    and k2: "kick_off_2_new_for_validation pol (oc_network ctx) (oc_operator_key ctx) (pc_1 cs) (pc_b cs) i0 = Some k2"
    and j0: "generate_input txid_of (ps_tx k1) 1 = Some j0"
    and kt: "kick_off_timeout_new_for_validation pol (oc_network ctx) (pc_1 cs) j0 = Some kt"
    using assms(1) by (auto simp: new_kick_off_2_def bind_eq_Some_conv)
  note shapes = kick_off_2_shape [OF k2] kick_off_timeout_shape [OF kt]
  have "spends_output txid_of k2 0 (ps_tx k1) 1"
    by (rule plain_spends(1) [OF kick_off_2_sound [OF k2] refl _ i0]) (simp_all add: shapes assms(2))
  moreover have "spends_output txid_of kt 0 (ps_tx k1) 1"
    by (rule spends_outputs(1) [OF kick_off_timeout_sound [OF kt] refl _ j0]) (simp_all add: shapes assms(2))
  ultimately show ?thesis using shapes kick_off_2_sound [OF k2] kick_off_timeout_sound [OF kt] assms(3) by auto
qed

lemma new_challenge_links:
  assumes "new_challenge pol txid_of ctx cs k1 = Some ch"
    and "pays (ps_tx k1) = addr_script_pubkey (connector_a_address (pc_a cs)) # r"
  shows "spends_output txid_of ch 0 (ps_tx k1) 0 \<and>
    inputs_ok (tx_input (ps_tx ch)) (ps_prev_outs ch) (ps_prev_scripts ch)"
proof -
  obtain i0 where i0: "generate_input txid_of (ps_tx k1) 0 = Some i0"
    and ch: "challenge_new_for_validation pol (oc_network ctx) (oc_operator_key ctx) (pc_a cs) i0 crowdfunding_amount = Some ch"
    using assms(1) by (auto simp: new_challenge_def bind_eq_Some_conv)
  note c = challenge_inputs [OF ch]
  have "spends_output txid_of ch 0 (ps_tx k1) 0"
    by (rule spends_outputI [where inps = "[i0]"])
      (use c challenge_shape [OF ch] i0 assms(2) in simp_all)
  then show ?thesis using c by blast
qed

lemma new_take_1_links:
  assumes "new_take_1 pol txid_of ctx cs pic k1 k2 = Some t1"
    and "pays (ps_tx pic) = [addr_script_pubkey (connector_0_address (pc_0 cs))]"
    and "pays (ps_tx k1) = addr_script_pubkey (connector_a_address (pc_a cs)) # r"
    and "pays (ps_tx k2) = [addr_script_pubkey (connector_3_address (pc_3 cs)), spk (connector_b_address (pc_b cs))]"
  shows "spends_output txid_of t1 0 (ps_tx pic) 0 \<and> spends_output txid_of t1 1 (ps_tx k1) 0 \<and>
    spends_output txid_of t1 2 (ps_tx k2) 0 \<and> spends_output txid_of t1 3 (ps_tx k2) 1 \<and>
    (\<exists>inps. sound_tx t1 inps (min_relay_fee_take_1 pol))"
proof -
  obtain i0 i1 i2 i3 where i: "generate_input txid_of (ps_tx pic) 0 = Some i0"
      "generate_input txid_of (ps_tx k1) 0 = Some i1" "generate_input txid_of (ps_tx k2) 0 = Some i2"
      "generate_input txid_of (ps_tx k2) 1 = Some i3"
    and t: "take_1_new_for_validation pol (oc_network ctx) (oc_operator_key ctx) (pc_0 cs) (pc_3 cs) (pc_a cs)
         (pc_b cs) i0 i1 i2 i3 = Some t1"
    using assms(1) by (auto simp: new_take_1_def bind_eq_Some_conv)
  note shape = take_1_shape [OF t] and sound = take_1_sound [OF t]
  have "spends_output txid_of t1 0 (ps_tx pic) 0"
    by (rule plain_spends(1) [OF sound refl _ i(1)]) (simp_all add: shape assms)
  moreover have "spends_output txid_of t1 1 (ps_tx k1) 0"
    by (rule plain_spends(2) [OF sound refl _ i(2)]) (simp_all add: shape assms)
  moreover have "spends_output txid_of t1 2 (ps_tx k2) 0"
    by (rule plain_spends(3) [OF sound refl _ i(3)]) (simp_all add: shape assms)
  moreover have "spends_output txid_of t1 3 (ps_tx k2) 1"
    by (rule plain_spends(4) [OF sound refl _ i(4)]) (simp_all add: shape assms)
  ultimately show ?thesis using sound by blast
qed

lemma new_assert_links:
  assumes "new_assert pol txid_of ctx cs k2 = Some (ai, ac1, ac2)"
    and "pays (ps_tx k2) = [xa, spk (connector_b_address (pc_b cs))]"
    and "pc_e_1 cs \<noteq> []" "pc_e_2 cs \<noteq> []"
  shows "spends_output txid_of ai 0 (ps_tx k2) 1 \<and>
    (\<forall>j < length (pc_e_1 cs). spends_output txid_of ac1 j (ps_tx ai) (j + 1)) \<and>
    (\<forall>j < length (pc_e_2 cs). spends_output txid_of ac2 j (ps_tx ai) (j + (1 + length (pc_e_1 cs)))) \<and>
    pays (ps_tx ai) ! 0 = addr_script_pubkey (connector_d_address (pc_d cs)) \<and>
    pays (ps_tx ac1) = [addr_script_pubkey (connector_f_1_address (pc_f_1 cs))] \<and>
    pays (ps_tx ac2) = [addr_script_pubkey (connector_f_2_address (pc_f_2 cs))] \<and>
    (\<exists>inps. sound_tx ai inps (min_relay_fee_assert_initial pol)) \<and>
    (\<exists>inps. sound_tx ac1 inps (min_relay_fee_assert_commit1 pol)) \<and>
    (\<exists>inps. sound_tx ac2 inps (min_relay_fee_assert_commit2 pol))"
proof -
  let ?n = "length (pc_e_1 cs)" and ?m = "length (pc_e_2 cs)"
  obtain i0 is1 is2 where i0: "generate_input txid_of (ps_tx k2) 1 = Some i0"
    and ai: "assert_initial_new_for_validation pol (pc_b cs) (pc_d cs) (pc_e_1 cs) (pc_e_2 cs) i0 = Some ai"
    and is1: "generate_inputs txid_of (ps_tx ai) (map (\<lambda>idx. idx + 1) [0..<?n]) = Some is1"
    and ac1: "assert_commit_1_new pol (pc_e_1 cs) (pc_f_1 cs) is1 = Some ac1"
    and is2: "generate_inputs txid_of (ps_tx ai) (map (\<lambda>idx. idx + (1 + ?n)) [0..<?m]) = Some is2"
    and ac2: "assert_commit_2_new pol (pc_e_2 cs) (pc_f_2 cs) is2 = Some ac2"
    using assms(1) by (auto simp: new_assert_def bind_eq_Some_conv Let_def)
  note shape = assert_initial_shape [OF ai] and sound = assert_initial_sound [OF ai assms(3,4)]
  note s1 = assert_commit_1_shape [OF ac1] and s2 = assert_commit_2_shape [OF ac2]
  note n1 = generate_inputs_nth [OF is1] and n2 = generate_inputs_nth [OF is2]
  have "spends_output txid_of ai 0 (ps_tx k2) 1"
    by (rule plain_spends(1) [OF sound refl _ i0]) (simp_all add: shape assms)
  moreover have "spends_output txid_of ac1 j (ps_tx ai) (j + 1)" if "j < ?n" for j
    by (rule spends_outputI_sound [where inps = is1 and fee = "min_relay_fee_assert_commit1 pol"])
      (use that s1 n1 shape in \<open>simp_all add: nth_append\<close>)
  moreover have "spends_output txid_of ac2 j (ps_tx ai) (j + (1 + ?n))" if "j < ?m" for j
    by (rule spends_outputI_sound [where inps = is2 and fee = "min_relay_fee_assert_commit2 pol"])
      (use that s2 n2 shape in \<open>simp_all add: nth_append\<close>)
  ultimately show ?thesis using shape s1 s2 sound by auto
qed

lemma new_assert_final_links:
  assumes "new_assert_final pol txid_of api cs ai ac1 ac2 = Some af"
    and "pays (ps_tx ai) ! 0 = addr_script_pubkey (connector_d_address (pc_d cs))"
    and "pays (ps_tx ac1) = [addr_script_pubkey (connector_f_1_address (pc_f_1 cs))]"
    and "pays (ps_tx ac2) = [addr_script_pubkey (connector_f_2_address (pc_f_2 cs))]"
  shows "spends_output txid_of af 0 (ps_tx ai) 0 \<and> spends_output txid_of af 1 (ps_tx ac1) 0 \<and>
    spends_output txid_of af 2 (ps_tx ac2) 0 \<and>
    pays (ps_tx af) = [addr_script_pubkey (connector_4_address (pc_4 cs)),
      addr_script_pubkey (connector_5_address (pc_5 cs)), spk (connector_c_address api (pc_c cs))] \<and>
    (\<exists>inps. sound_tx af inps (min_relay_fee_assert_final pol))"
proof -
  obtain i0 i1 i2 where i: "generate_input txid_of (ps_tx ai) 0 = Some i0"
      "generate_input txid_of (ps_tx ac1) 0 = Some i1" "generate_input txid_of (ps_tx ac2) 0 = Some i2"
    and t: "assert_final_new_for_validation pol api (pc_4 cs) (pc_5 cs) (pc_c cs) (pc_d cs) (pc_f_1 cs) (pc_f_2 cs)
         i0 i1 i2 = Some af"
    using assms(1) by (auto simp: new_assert_final_def bind_eq_Some_conv)
  note shape = assert_final_shape [OF t] and sound = assert_final_sound [OF t]
  have "spends_output txid_of af 0 (ps_tx ai) 0"
    by (rule plain_spends(1) [OF sound refl _ i(1)]) (simp_all add: shape assms)
  moreover have "spends_output txid_of af 1 (ps_tx ac1) 0"
    by (rule plain_spends(2) [OF sound refl _ i(2)]) (simp_all add: shape assms)
  moreover have "spends_output txid_of af 2 (ps_tx ac2) 0"
    by (rule plain_spends(3) [OF sound refl _ i(3)]) (simp_all add: shape assms)
  ultimately show ?thesis using shape sound by auto
qed

lemma new_take_2_links:
  assumes "new_take_2 pol txid_of api ctx cs pic af = Some t2"
    and "pays (ps_tx pic) = [addr_script_pubkey (connector_0_address (pc_0 cs))]"
    and "pays (ps_tx af) = [addr_script_pubkey (connector_4_address (pc_4 cs)),
      addr_script_pubkey (connector_5_address (pc_5 cs)), spk (connector_c_address api (pc_c cs))]"
  shows "spends_output txid_of t2 0 (ps_tx pic) 0 \<and> spends_output txid_of t2 1 (ps_tx af) 0 \<and>
    spends_output txid_of t2 2 (ps_tx af) 1 \<and> spends_output txid_of t2 3 (ps_tx af) 2 \<and>
    (\<exists>inps. sound_tx t2 inps (min_relay_fee_take_2 pol))"
proof -
  obtain i0 i1 i2 i3 where i: "generate_input txid_of (ps_tx pic) 0 = Some i0"
      "generate_input txid_of (ps_tx af) 0 = Some i1" "generate_input txid_of (ps_tx af) 1 = Some i2"
      "generate_input txid_of (ps_tx af) 2 = Some i3"
    and t: "take_2_new_for_validation pol api (oc_network ctx) (oc_operator_key ctx) (pc_0 cs) (pc_4 cs) (pc_5 cs)
         (pc_c cs) i0 i1 i2 i3 = Some t2"
    using assms(1) by (auto simp: new_take_2_def bind_eq_Some_conv)
  note shape = take_2_shape [OF t] and sound = take_2_sound [OF t]
  have "spends_output txid_of t2 0 (ps_tx pic) 0"
    by (rule plain_spends(1) [OF sound refl _ i(1)]) (simp_all add: shape assms)
  moreover have "spends_output txid_of t2 1 (ps_tx af) 0"
    by (rule plain_spends(2) [OF sound refl _ i(2)]) (simp_all add: shape assms)
  moreover have "spends_output txid_of t2 2 (ps_tx af) 1"
    by (rule plain_spends(3) [OF sound refl _ i(3)]) (simp_all add: shape assms)
  moreover have "spends_output txid_of t2 3 (ps_tx af) 2"
    by (rule plain_spends(4) [OF sound refl _ i(4)]) (simp_all add: shape assms)
  ultimately show ?thesis using sound by blast
qed

lemma new_disprove_links:
  assumes "new_disprove pol txid_of api ctx cs af k2 = Some (dp, dc)"
    and "pays (ps_tx af) = [xa, addr_script_pubkey (connector_5_address (pc_5 cs)), spk (connector_c_address api (pc_c cs))]"
    and "pays (ps_tx k2) = [xb, spk (connector_b_address (pc_b cs))]"
  shows "spends_output txid_of dp 0 (ps_tx af) 1 \<and> spends_output txid_of dp 1 (ps_tx af) 2 \<and>
    spends_output txid_of dc 0 (ps_tx k2) 1 \<and>
    (\<exists>inps. sound_tx (pre_signed.truncate dp) inps (min_relay_fee_disprove pol)) \<and>
    (\<exists>inps. sound_tx (pre_signed.truncate dc) inps (min_relay_fee_disprove_chain pol))"
proof -
  obtain i0 i1 j0 where i: "generate_input txid_of (ps_tx af) 1 = Some i0"
      "generate_input txid_of (ps_tx af) 2 = Some i1" "generate_input txid_of (ps_tx k2) 1 = Some j0"
    and dp: "disprove_new_for_validation pol api (oc_network ctx) (pc_5 cs) (pc_c cs) i0 i1 = Some dp"
    and dc: "disprove_chain_new_for_validation pol (oc_network ctx) (pc_b cs) j0 = Some dc"
    using assms(1) by (auto simp: new_disprove_def bind_eq_Some_conv)
  note shape = disprove_shape [OF dp] disprove_chain_shape [OF dc]
  have "spends_output txid_of dp 0 (ps_tx af) 1"
    by (rule spends_outputs(1) [OF disprove_sound [OF dp] refl _ i(1)]) (simp_all add: shape assms)
  moreover have "spends_output txid_of dp 1 (ps_tx af) 2"
    by (rule spends_outputs(2) [OF disprove_sound [OF dp] refl _ i(2)]) (simp_all add: shape assms)
  moreover have "spends_output txid_of dc 0 (ps_tx k2) 1"
    by (rule spends_outputs(1) [OF disprove_chain_sound [OF dc] refl _ i(3)]) (simp_all add: shape assms)
  ultimately show ?thesis using disprove_sound [OF dp] disprove_chain_sound [OF dc] by blast
qed

end
