(* ===== verification/Peg_Out_Funds.thy ===== *)
theory Peg_Out_Funds
  imports Peg_Out_Graph
begin

text \<open>
  What the peg-out graph as a whole promises: every input of a transaction spends the output it
  was signed for, every transaction is spendable and pays its relay fee, and the graph can be
  built exactly when the peg-out confirmation is funded well enough.
\<close>

section \<open>Links of the whole graph\<close>

text \<open>Every input of every transaction of the graph, with the output it spends.\<close>

definition peg_out_links :: "(btc_tx \<Rightarrow> tx_hash) \<Rightarrow> pre_signed \<Rightarrow> peg_out_graph \<Rightarrow> bool" where
  "peg_out_links txid_of pic g \<longleftrightarrow>
     (let k1 = ps_tx (kick_off_1_tx g); k2 = ps_tx (kick_off_2_tx g); ai = ps_tx (assert_initial_tx g);
          af = ps_tx (assert_final_tx g); n = length (pc_e_1 (po_connectors g)) in
      spends_output txid_of (kick_off_1_tx g) 0 (ps_tx (peg_out_confirm_tx g)) 0 \<and>
      spends_output txid_of (start_time_tx g) 0 k1 2 \<and>
      spends_output txid_of (start_time_timeout_tx g) 0 k1 2 \<and>
      spends_output txid_of (start_time_timeout_tx g) 1 k1 1 \<and>
      spends_output txid_of (kick_off_2_tx g) 0 k1 1 \<and>
      spends_output txid_of (kick_off_timeout_tx g) 0 k1 1 \<and>
      spends_output txid_of (challenge_transaction g) 0 k1 0 \<and>
      spends_output txid_of (take_1_tx g) 0 (ps_tx pic) 0 \<and>
      spends_output txid_of (take_1_tx g) 1 k1 0 \<and>
      spends_output txid_of (take_1_tx g) 2 k2 0 \<and>
      spends_output txid_of (take_1_tx g) 3 k2 1 \<and>
      spends_output txid_of (assert_initial_tx g) 0 k2 1 \<and>
      (\<forall>j < n. spends_output txid_of (assert_commit_1_tx g) j ai (j + 1)) \<and>
      (\<forall>j < length (pc_e_2 (po_connectors g)). spends_output txid_of (assert_commit_2_tx g) j ai (j + (1 + n))) \<and>
      spends_output txid_of (assert_final_tx g) 0 ai 0 \<and>
      spends_output txid_of (assert_final_tx g) 1 (ps_tx (assert_commit_1_tx g)) 0 \<and>
      spends_output txid_of (assert_final_tx g) 2 (ps_tx (assert_commit_2_tx g)) 0 \<and>
      spends_output txid_of (take_2_tx g) 0 (ps_tx pic) 0 \<and>
      spends_output txid_of (take_2_tx g) 1 af 0 \<and>
      spends_output txid_of (take_2_tx g) 2 af 1 \<and>
      spends_output txid_of (take_2_tx g) 3 af 2 \<and>
      spends_output txid_of (disprove_tx g) 0 af 1 \<and>
      spends_output txid_of (disprove_tx g) 1 af 2 \<and>
      spends_output txid_of (disprove_chain_tx g) 0 k2 1)"

text \<open>
  A transaction pays its way: each input presents a script its previous output commits to and
  meets the time locks of that script, and the inputs exceed the outputs by the relay fee.
\<close>

definition pays_fee :: "pre_signed \<Rightarrow> nat \<Rightarrow> bool" where
  "pays_fee t fee \<longleftrightarrow>
     inputs_ok (tx_input (ps_tx t)) (ps_prev_outs t) (ps_prev_scripts t) \<and>
     total_value (ps_prev_outs t) = total_value (tx_output (ps_tx t)) + fee"

definition peg_out_fees :: "fee_policy \<Rightarrow> peg_out_graph \<Rightarrow> (pre_signed \<times> nat) list" where
  "peg_out_fees pol g =
     [(peg_out_confirm_tx g, min_relay_fee_peg_out_confirm pol),
      (kick_off_1_tx g, min_relay_fee_kick_off_1 pol),
      (start_time_tx g, min_relay_fee_start_time pol),
      (pre_signed.truncate (start_time_timeout_tx g), min_relay_fee_start_time_timeout pol),
      (kick_off_2_tx g, min_relay_fee_kick_off_2 pol),
      (pre_signed.truncate (kick_off_timeout_tx g), min_relay_fee_kick_off_timeout pol),
      (take_1_tx g, min_relay_fee_take_1 pol),
      (assert_initial_tx g, min_relay_fee_assert_initial pol),
      (assert_commit_1_tx g, min_relay_fee_assert_commit1 pol),
      (assert_commit_2_tx g, min_relay_fee_assert_commit2 pol),
      (assert_final_tx g, min_relay_fee_assert_final pol),
      (take_2_tx g, min_relay_fee_take_2 pol),
      (pre_signed.truncate (disprove_tx g), min_relay_fee_disprove pol),
      (pre_signed.truncate (disprove_chain_tx g), min_relay_fee_disprove_chain pol)]"

text \<open>
  The challenge is completed by others: with the crowdfunded amount added to its inputs, it pays its fee as well.
\<close>

definition challenge_pays :: "fee_policy \<Rightarrow> challenge_tx \<Rightarrow> bool" where
  "challenge_pays pol ch \<longleftrightarrow>
     inputs_ok (tx_input (ps_tx ch)) (ps_prev_outs ch) (ps_prev_scripts ch) \<and> input_amount_crowdfunding ch = crowdfunding_amount \<and>
     total_value (ps_prev_outs ch) + input_amount_crowdfunding ch = total_value (tx_output (ps_tx ch)) + min_relay_fee_challenge pol"

text \<open>
  Whatever scripts the transactions of a graph hold for their inputs, in this order, are leaves or scripts that the previous
  outputs commit to, and the sequence numbers meet their time locks.
\<close>

definition scripts_committed :: "peg_out_graph \<Rightarrow> bool" where
  "scripts_committed g \<longleftrightarrow>
     (\<forall>t \<in> {peg_out_confirm_tx g, kick_off_1_tx g, start_time_tx g, pre_signed.truncate (start_time_timeout_tx g),
         kick_off_2_tx g, pre_signed.truncate (kick_off_timeout_tx g), pre_signed.truncate (challenge_transaction g),
         take_1_tx g, assert_initial_tx g, assert_commit_1_tx g, assert_commit_2_tx g, assert_final_tx g, take_2_tx g,
         pre_signed.truncate (disprove_tx g), pre_signed.truncate (disprove_chain_tx g)}.
        inputs_ok (tx_input (ps_tx t)) (ps_prev_outs t) (ps_prev_scripts t))"

lemma new_challenge_pays:
  assumes "new_challenge pol txid_of ctx cs k1 = Some ch"
  shows "challenge_pays pol ch"
proof -
  obtain i0 where ch: "challenge_new_for_validation pol (oc_network ctx) (oc_operator_key ctx) (pc_a cs) i0 crowdfunding_amount = Some ch"
    using assms by (auto simp: new_challenge_def bind_eq_Some_conv)
  show ?thesis using ch challenge_inputs [OF ch]
    by (auto simp: challenge_pays_def challenge_new_for_validation_def amt_Some_iffs)
qed

lemma sound_tx_pays_fee: "sound_tx t inps fee \<Longrightarrow> pays_fee t fee"
  by (simp add: sound_tx_def pays_fee_def)

lemma peg_out_connectors_shape:
  "peg_out_connectors_new public_of ctx secrets = Some cs \<Longrightarrow>
     pc_0 cs = connector_0_new (oc_network ctx) (oc_n_of_n_taproot_key ctx) \<and>
     pc_3 cs = connector_3_new (oc_network ctx) (oc_operator_key ctx) \<and>
     pc_a cs = connector_a_new (oc_network ctx) (oc_operator_taproot_key ctx) (oc_n_of_n_taproot_key ctx)"
  by (auto simp: peg_out_connectors_new_def create_new_connectors_def bind_eq_Some_conv split: prod.splits)

lemma assert_commit_Nil: "0 < fee \<Longrightarrow> assert_commit_new_for_validation fee [] addr inps = None"
  by (simp add: assert_commit_new_for_validation_def)

lemma new_assert_connectors:
  assumes "new_assert pol txid_of ctx cs k2 = Some (ai, ac1, ac2)" "0 < min_relay_fee_rate pol"
  shows "pc_e_1 cs \<noteq> [] \<and> pc_e_2 cs \<noteq> []"
  using assms assert_commit_Nil [of "min_relay_fee_assert_commit1 pol"]
    assert_commit_Nil [of "min_relay_fee_assert_commit2 pol"]
  by (auto simp: new_assert_def bind_eq_Some_conv Let_def assert_commit_1_new_def assert_commit_2_new_def
      assert_commit_1_new_for_validation_def assert_commit_2_new_for_validation_def
      rust_assert_bind_Some_iff min_relay_fee_values)

lemma peg_in_graph_new_cases:
  assumes "peg_in_graph_new pol txid_of dctx deposit_input evm_address = Some peg_in"
  obtains refund_input confirm_input where
    "pi_connector_0 peg_in = connector_0_new (dc_network dctx) (dc_n_of_n_taproot_key dctx)"
    "peg_in_deposit_new_for_validation pol (dc_network dctx) (dc_depositor_key dctx) (pi_connector_z peg_in)
       deposit_input = Some (peg_in_deposit_tx peg_in)"
    "generate_input txid_of (ps_tx (peg_in_deposit_tx peg_in)) 0 = Some refund_input"
    "peg_in_refund_new_for_validation pol (dc_network dctx) (dc_depositor_key dctx) (pi_connector_z peg_in)
       refund_input = Some (peg_in_refund_tx peg_in)"
    "generate_input txid_of (ps_tx (peg_in_deposit_tx peg_in)) 0 = Some confirm_input"
    "peg_in_confirm_new_for_validation pol (pi_connector_0 peg_in) (pi_connector_z peg_in) confirm_input =
       Some (peg_in_confirm_tx peg_in)"
  using assms
  by (auto simp: peg_in_graph_new_def peg_in_connectors_def bind_eq_Some_conv Let_def)

lemma peg_out_graph_new_cases:
  assumes "peg_out_graph_new pol txid_of api public_of ctx peg_in confirm_input secrets = Some g"
  shows "peg_out_connectors_new public_of ctx secrets = Some (po_connectors g)"
    "new_kick_off_1 pol txid_of ctx (po_connectors g) confirm_input = Some (peg_out_confirm_tx g, kick_off_1_tx g)"
    "new_start_time pol txid_of ctx (po_connectors g) (kick_off_1_tx g) = Some (start_time_tx g, start_time_timeout_tx g)"
    "new_kick_off_2 pol txid_of ctx (po_connectors g) (kick_off_1_tx g) = Some (kick_off_2_tx g, kick_off_timeout_tx g)"
    "new_challenge pol txid_of ctx (po_connectors g) (kick_off_1_tx g) = Some (challenge_transaction g)"
    "new_take_1 pol txid_of ctx (po_connectors g) (peg_in_confirm_tx peg_in) (kick_off_1_tx g) (kick_off_2_tx g) =
       Some (take_1_tx g)"
    "new_assert pol txid_of ctx (po_connectors g) (kick_off_2_tx g) =
       Some (assert_initial_tx g, assert_commit_1_tx g, assert_commit_2_tx g)"
    "new_assert_final pol txid_of api (po_connectors g) (assert_initial_tx g) (assert_commit_1_tx g)
       (assert_commit_2_tx g) = Some (assert_final_tx g)"
    "new_take_2 pol txid_of api ctx (po_connectors g) (peg_in_confirm_tx peg_in) (assert_final_tx g) = Some (take_2_tx g)"
    "new_disprove pol txid_of api ctx (po_connectors g) (assert_final_tx g) (kick_off_2_tx g) =
       Some (disprove_tx g, disprove_chain_tx g)"
  using assms by (auto simp: peg_out_graph_new_def Let_def bind_eq_Some_conv)

lemma peg_out_graph_links_and_fees:
  assumes g: "peg_out_graph_new pol txid_of api public_of ctx peg_in confirm_input secrets = Some g"
    and pic: "pays (ps_tx (peg_in_confirm_tx peg_in)) =
      [addr_script_pubkey (connector_0_address (connector_0_new (oc_network ctx) (oc_n_of_n_taproot_key ctx)))]"
    and rate: "0 < min_relay_fee_rate pol"
  shows "peg_out_links txid_of (peg_in_confirm_tx peg_in) g"
    and "\<forall>(t, fee) \<in> set (peg_out_fees pol g). pays_fee t fee"
    and "challenge_pays pol (challenge_transaction g)" "scripts_committed g"
    and "map previous_output (tx_input (ps_tx (peg_out_confirm_tx g))) = [in_outpoint confirm_input]"
proof -
  note parts = peg_out_graph_new_cases [OF g]
  note cs = peg_out_connectors_shape [OF parts(1)]
  have k1: "pc_a (po_connectors g) =
      connector_a_new (oc_network ctx) (oc_operator_taproot_key ctx) (oc_n_of_n_taproot_key ctx)"
    and c3: "pc_3 (po_connectors g) = connector_3_new (oc_network ctx) (oc_operator_key ctx)"
    and pic': "pays (ps_tx (peg_in_confirm_tx peg_in)) = [addr_script_pubkey (connector_0_address (pc_0 (po_connectors g)))]"
    using cs pic by simp_all
  note s1 = new_kick_off_1_links [OF parts(2) k1]
  note p1 = s1 [THEN conjunct2, THEN conjunct1]
  note s2 = new_start_time_links [OF parts(3) p1]
  note s3 = new_kick_off_2_links [OF parts(4) p1 c3]
  note p2 = s3 [THEN conjunct2, THEN conjunct2, THEN conjunct1]
  note s4 = new_challenge_links [OF parts(5) p1]
  note s5 = new_take_1_links [OF parts(6) pic' p1 p2]
  note ne = new_assert_connectors [OF parts(7) rate]
  note s6 = new_assert_links [OF parts(7) p2 ne [THEN conjunct1] ne [THEN conjunct2]]
  have a: "pays (ps_tx (assert_initial_tx g)) ! 0 = addr_script_pubkey (connector_d_address (pc_d (po_connectors g)))"
    "pays (ps_tx (assert_commit_1_tx g)) = [addr_script_pubkey (connector_f_1_address (pc_f_1 (po_connectors g)))]"
    "pays (ps_tx (assert_commit_2_tx g)) = [addr_script_pubkey (connector_f_2_address (pc_f_2 (po_connectors g)))]"
    using s6 by blast+
  note s7 = new_assert_final_links [OF parts(8) a]
  note p3 = s7 [THEN conjunct2, THEN conjunct2, THEN conjunct2, THEN conjunct1]
  note s8 = new_take_2_links [OF parts(9) pic' p3]
  note s9 = new_disprove_links [OF parts(10) p3 p2]
  show "peg_out_links txid_of (peg_in_confirm_tx peg_in) g"
    using s1 s2 s3 s4 s5 s6 s7 s8 s9 unfolding peg_out_links_def Let_def by blast
  have "pays_fee (peg_out_confirm_tx g) (min_relay_fee_peg_out_confirm pol)"
    "pays_fee (kick_off_1_tx g) (min_relay_fee_kick_off_1 pol)"
    "pays_fee (start_time_tx g) (min_relay_fee_start_time pol)"
    "pays_fee (pre_signed.truncate (start_time_timeout_tx g)) (min_relay_fee_start_time_timeout pol)"
    "pays_fee (kick_off_2_tx g) (min_relay_fee_kick_off_2 pol)"
    "pays_fee (pre_signed.truncate (kick_off_timeout_tx g)) (min_relay_fee_kick_off_timeout pol)"
    "pays_fee (take_1_tx g) (min_relay_fee_take_1 pol)"
    "pays_fee (assert_initial_tx g) (min_relay_fee_assert_initial pol)"
    "pays_fee (assert_commit_1_tx g) (min_relay_fee_assert_commit1 pol)"
    "pays_fee (assert_commit_2_tx g) (min_relay_fee_assert_commit2 pol)"
    "pays_fee (assert_final_tx g) (min_relay_fee_assert_final pol)"
    "pays_fee (take_2_tx g) (min_relay_fee_take_2 pol)"
    "pays_fee (pre_signed.truncate (disprove_tx g)) (min_relay_fee_disprove pol)"
    "pays_fee (pre_signed.truncate (disprove_chain_tx g)) (min_relay_fee_disprove_chain pol)"
    using s1 s2 s3 s5 s6 s7 s8 s9 sound_tx_pays_fee by blast+
  then show fees: "\<forall>(t, fee) \<in> set (peg_out_fees pol g). pays_fee t fee"
    by (simp add: peg_out_fees_def)
  show ch: "challenge_pays pol (challenge_transaction g)" by (rule new_challenge_pays [OF parts(5)])
  show "scripts_committed g"
    using fees ch by (simp add: scripts_committed_def peg_out_fees_def pays_fee_def challenge_pays_def pre_signed.truncate_def)
  show "map previous_output (tx_input (ps_tx (peg_out_confirm_tx g))) = [in_outpoint confirm_input]"
    using s1 by (auto simp: sound_tx_def)
qed

section \<open>Amounts\<close>

definition amounts :: "btc_tx \<Rightarrow> nat list" where
  "amounts tx = map tx_value (tx_output tx)"

lemma generate_input_amounts:
  "generate_input txid_of tx v =
     (if v < length (amounts tx) then Some \<lparr>in_outpoint = Outpoint (txid_of tx) v, in_amount = amounts tx ! v\<rparr>
      else None)"
  by (simp add: generate_input_def amounts_def)

text \<open>The commitment keys that the connectors with a committed message need.\<close>

definition keys_1 :: "connector_1 \<Rightarrow> bool" where
  "keys_1 c \<longleftrightarrow> c1_keys c Superblock \<noteq> None \<and> c1_keys c SuperblockHash \<noteq> None"

definition keys_2 :: "connector_2 \<Rightarrow> bool" where
  "keys_2 c \<longleftrightarrow> c2_keys c StartTime \<noteq> None"

definition keys_6 :: "connector_6 \<Rightarrow> bool" where
  "keys_6 c \<longleftrightarrow> c6_keys c PegOutTxIdDestinationNetwork \<noteq> None \<and> c6_keys c PegOutTxIdSourceNetwork \<noteq> None"

definition keys_b :: "connector_b \<Rightarrow> bool" where
  "keys_b c \<longleftrightarrow> cb_keys c SuperblockHash \<noteq> None \<and> cb_keys c StartTime \<noteq> None"

lemma leaves_defined [simp]:
  "connector_0_leaf_tx_in c0 0 i = Some (generate_default_tx_in i)"
  "connector_0_leaf_tx_in c0 (Suc 0) i = Some (generate_default_tx_in i)"
  "connector_5_leaf_tx_in c5 0 i = Some (generate_default_tx_in i)"
  "connector_5_leaf_tx_in c5 (Suc 0) i = Some (generate_default_tx_in i)"
  "connector_a_leaf_tx_in ca 0 i = Some (generate_default_tx_in i)"
  "connector_a_leaf_tx_in ca (Suc 0) i = Some (generate_default_tx_in i)"
  "connector_d_leaf_tx_in cd 0 i = Some (generate_default_tx_in i)"
  "connector_1_leaf_tx_in c1 0 i = Some (connector_1_leaf_0_tx_in c1 i)"
  "connector_1_leaf_tx_in c1 (Suc 0) i = Some (connector_1_leaf_1_tx_in c1 i)"
  "connector_1_leaf_tx_in c1 2 i = Some (connector_1_leaf_2_tx_in c1 i)"
  "connector_2_leaf_tx_in c2 0 i = Some (connector_2_leaf_0_tx_in c2 i)"
  "connector_2_leaf_tx_in c2 (Suc 0) i = Some (connector_2_leaf_1_tx_in c2 i)"
  "connector_6_leaf_tx_in c6 0 i = Some (connector_6_leaf_0_tx_in c6 i)"
  "connector_b_leaf_tx_in cb 0 i = Some (connector_b_leaf_0_tx_in cb i)"
  "connector_b_leaf_tx_in cb (Suc 0) i = Some (connector_b_leaf_1_tx_in cb i)"
  "connector_b_leaf_tx_in cb 2 i = Some (connector_b_leaf_2_tx_in cb i)"
  "connector_0_leaf_script c0 0 = Some (connector_0_leaf_0_script c0)"
  "connector_0_leaf_script c0 (Suc 0) = Some (connector_0_leaf_1_script c0)"
  "connector_5_leaf_script c5 0 = Some (connector_5_leaf_0_script c5)"
  "connector_5_leaf_script c5 (Suc 0) = Some (connector_5_leaf_1_script c5)"
  "connector_a_leaf_script ca 0 = Some (connector_a_leaf_0_script ca)"
  "connector_a_leaf_script ca (Suc 0) = Some (connector_a_leaf_1_script ca)"
  "connector_d_leaf_script cd 0 = Some (connector_d_leaf_0_script cd)"
  "connector_1_leaf_script c1 (Suc 0) = Some (connector_1_leaf_1_script c1)"
  "connector_1_leaf_script c1 2 = Some (connector_1_leaf_2_script c1)"
  "connector_2_leaf_script c2 (Suc 0) = Some (connector_2_leaf_1_script c2)"
  "connector_b_leaf_script cb 0 = Some (connector_b_leaf_0_script cb)"
  "connector_b_leaf_script cb (Suc 0) = Some (connector_b_leaf_1_script cb)"
  by (simp_all add: connector_0_defs connector_1_defs connector_2_defs connector_5_defs connector_6_defs
      connector_a_defs connector_b_defs connector_d_defs)

lemma keyed_leaves:
  "keys_1 c1 \<Longrightarrow> \<exists>s. connector_1_leaf_script c1 0 = Some s"
  "keys_2 c2 \<Longrightarrow> \<exists>s. connector_2_leaf_script c2 0 = Some s"
  "keys_6 c6 \<Longrightarrow> \<exists>s. connector_6_leaf_script c6 0 = Some s"
  "keys_b cb \<Longrightarrow> \<exists>s. connector_b_leaf_script cb 2 = Some s"
  "keys_1 c1 \<Longrightarrow> \<exists>a. connector_1_address c1 = Some a"
  "keys_2 c2 \<Longrightarrow> \<exists>a. connector_2_address c2 = Some a"
  "keys_6 c6 \<Longrightarrow> \<exists>a. connector_6_address c6 = Some a"
  "keys_b cb \<Longrightarrow> \<exists>a. connector_b_address cb = Some a"
  by (auto simp: keys_1_def keys_2_def keys_6_def keys_b_def connector_1_address_def connector_1_defs
      connector_2_address_def connector_2_defs connector_6_address_def connector_6_defs
      connector_b_address_def connector_b_defs)

text \<open>
  Per transaction: when its constructor succeeds, as a condition on the amounts of its inputs,
  and the amounts of its outputs. \<open>d\<close> is the dust amount.
\<close>

lemma peg_out_confirm_amounts:
  assumes "keys_6 c6"
  shows "(\<exists>t. peg_out_confirm_new_for_validation pol net operator c6 i = Some t) \<longleftrightarrow>
      min_relay_fee_peg_out_confirm pol \<le> in_amount i"
    and "peg_out_confirm_new_for_validation pol net operator c6 i = Some t \<Longrightarrow>
      amounts (ps_tx t) = [in_amount i - min_relay_fee_peg_out_confirm pol]"
  using keyed_leaves(7) [OF assms]
  by (auto simp: peg_out_confirm_new_for_validation_def amounts_def amt_Some_iffs Let_def)

lemma kick_off_1_amounts:
  assumes "keys_1 c1" "keys_2 c2" "keys_6 c6"
  shows "(\<exists>t. kick_off_1_new_for_validation pol net operator n_of_n c1 c2 c6 i = Some t) \<longleftrightarrow>
      min_relay_fee_kick_off_1 pol + 2 * dust_amount pol + min_relay_fee_start_time pol \<le> in_amount i"
    and "kick_off_1_new_for_validation pol net operator n_of_n c1 c2 c6 i = Some t \<Longrightarrow>
      amounts (ps_tx t) =
        [dust_amount pol,
         in_amount i - min_relay_fee_kick_off_1 pol - 2 * dust_amount pol - min_relay_fee_start_time pol,
         dust_amount pol + min_relay_fee_start_time pol]"
  using keyed_leaves(5) [OF assms(1)] keyed_leaves(6) [OF assms(2)] keyed_leaves(3,7) [OF assms(3)]
  by (auto simp: kick_off_1_new_for_validation_def amounts_def amt_Some_iffs Let_def)

lemma start_time_amounts:
  assumes "keys_2 c2"
  shows "(\<exists>t. start_time_new_for_validation pol net operator c2 i = Some t) \<longleftrightarrow>
      min_relay_fee_start_time pol \<le> in_amount i"
  using keyed_leaves(2,6) [OF assms]
  by (auto simp: start_time_new_for_validation_def amt_Some_iffs)

lemma start_time_timeout_amounts:
  assumes "keys_1 c1" "keys_2 c2"
    and "in_amount i + in_amount j < 2 ^ 56" "min_relay_fee_start_time_timeout pol \<le> in_amount i + in_amount j"
  shows "\<exists>t. start_time_timeout_new_for_validation pol net c1 c2 i j = Some t"
proof -
  let ?t = "in_amount i + in_amount j - min_relay_fee_start_time_timeout pol"
  have "?t * 95 < 2 ^ 64" "?t * 95 div 100 \<le> ?t" using assms(3) by simp_all
  then show ?thesis
    using keyed_leaves(5) [OF assms(1)] keyed_leaves(6) [OF assms(2)] assms(3,4)
    by (auto simp: start_time_timeout_new_for_validation_def amt_Some_iffs Let_def)
qed

lemma kick_off_2_amounts:
  assumes "keys_1 c1" "keys_b cb"
  shows "(\<exists>t. kick_off_2_new_for_validation pol net operator c1 cb i = Some t) \<longleftrightarrow>
      min_relay_fee_kick_off_2 pol + dust_amount pol \<le> in_amount i"
    and "kick_off_2_new_for_validation pol net operator c1 cb i = Some t \<Longrightarrow>
      amounts (ps_tx t) = [dust_amount pol, in_amount i - min_relay_fee_kick_off_2 pol - dust_amount pol]"
  using keyed_leaves(1,5) [OF assms(1)] keyed_leaves(8) [OF assms(2)]
  by (auto simp: kick_off_2_new_for_validation_def amounts_def amt_Some_iffs Let_def)

lemma kick_off_timeout_amounts:
  assumes "keys_1 c1" "in_amount i < 2 ^ 56" "min_relay_fee_kick_off_timeout pol \<le> in_amount i"
  shows "\<exists>t. kick_off_timeout_new_for_validation pol net c1 i = Some t"
proof -
  let ?t = "in_amount i - min_relay_fee_kick_off_timeout pol"
  have "?t * 95 < 2 ^ 64" "?t * 95 div 100 \<le> ?t" using assms(2) by simp_all
  then show ?thesis using keyed_leaves(5) [OF assms(1)] assms(3)
    by (auto simp: kick_off_timeout_new_for_validation_def amt_Some_iffs Let_def)
qed

lemma challenge_amounts:
  assumes "in_amount i + c < 2 ^ 64" "min_relay_fee_challenge pol \<le> in_amount i + c"
  shows "\<exists>t. challenge_new_for_validation pol net operator ca i c = Some t"
  using assms by (simp add: challenge_new_for_validation_def amt_add_def)

lemma take_1_amounts:
  assumes "keys_b cb" "in_amount i0 + in_amount i1 + in_amount i2 + in_amount i3 < 2 ^ 64"
    and "min_relay_fee_take_1 pol \<le> in_amount i0 + in_amount i1 + in_amount i2 + in_amount i3"
  shows "\<exists>t. take_1_new_for_validation pol net operator c0 c3 ca cb i0 i1 i2 i3 = Some t"
  using keyed_leaves(8) [OF assms(1)] assms(2,3)
  by (auto simp: take_1_new_for_validation_def amt_Some_iffs Let_def)

lemma assert_final_amounts:
  assumes "connector_c_address api cc = Some ac"
    and "in_amount i1 + in_amount i2 + in_amount i0 < 2 ^ 64" "dust_amount pol * 2 < 2 ^ 64"
  shows "(\<exists>t. assert_final_new_for_validation pol api c4 c5 cc cd cf1 cf2 i0 i1 i2 = Some t) \<longleftrightarrow>
      min_relay_fee_assert_final pol + dust_amount pol * 2 \<le> in_amount i1 + in_amount i2 + in_amount i0"
    and "assert_final_new_for_validation pol api c4 c5 cc cd cf1 cf2 i0 i1 i2 = Some t \<Longrightarrow>
      amounts (ps_tx t) =
        [dust_amount pol,
         in_amount i1 + in_amount i2 + in_amount i0 - min_relay_fee_assert_final pol - dust_amount pol * 2,
         dust_amount pol]"
  using assms
  by (auto simp: assert_final_new_for_validation_def amounts_def amt_Some_iffs Let_def)

lemma take_2_amounts:
  assumes "connector_c_address api cc = Some ac"
    and "in_amount i0 + in_amount i1 + in_amount i2 + in_amount i3 < 2 ^ 64"
    and "min_relay_fee_take_2 pol \<le> in_amount i0 + in_amount i1 + in_amount i2 + in_amount i3"
  shows "\<exists>t. take_2_new_for_validation pol api net operator c0 c4 c5 cc i0 i1 i2 i3 = Some t"
  using assms by (auto simp: take_2_new_for_validation_def amt_Some_iffs Let_def)

lemma disprove_amounts:
  assumes "connector_c_address api cc = Some ac" "in_amount i + in_amount j < 2 ^ 64"
  shows "(\<exists>t. disprove_new_for_validation pol api net c5 cc i j = Some t) \<longleftrightarrow>
    min_relay_fee_disprove pol \<le> in_amount i + in_amount j"
proof -
  let ?t = "in_amount i + in_amount j - min_relay_fee_disprove pol"
  have "?t div 2 \<le> ?t" by simp
  then show ?thesis using assms
    by (auto simp: disprove_new_for_validation_def amt_Some_iffs Let_def)
qed

lemma disprove_chain_amounts:
  assumes "keys_b cb"
  shows "(\<exists>t. disprove_chain_new_for_validation pol net cb i = Some t) \<longleftrightarrow>
    min_relay_fee_disprove_chain pol \<le> in_amount i"
proof -
  let ?t = "in_amount i - min_relay_fee_disprove_chain pol"
  have "?t div 2 \<le> ?t" by simp
  then show ?thesis using keyed_leaves(4,8) [OF assms]
    by (auto simp: disprove_chain_new_for_validation_def amt_Some_iffs Let_def)
qed

text \<open>The connectors E of a list all have an address: each holds one value of the verifier.\<close>

definition revealable :: "connector_e list \<Rightarrow> bool" where
  "revealable ces \<longleftrightarrow> (\<forall>ce \<in> set ces. \<exists>a. connector_e_address ce = Some a)"

lemma revealable_Cons [simp]:
  "revealable (ce # ces) \<longleftrightarrow> (\<exists>a. connector_e_address ce = Some a) \<and> revealable ces" "revealable []"
  by (simp_all add: revealable_def)

lemma commit_outputs_amounts:
  assumes "revealable ces"
  shows "\<exists>outs. commit_outputs pol fee i ces = Some outs \<and>
    map tx_value outs = map (\<lambda>j. if i + j = 0 then fee + dust_amount pol else dust_amount pol) [0..<length ces]"
  using assms
proof (induction ces arbitrary: i)
  case (Cons ce ces)
  from Cons.prems obtain a where a: "connector_e_address ce = Some a" by auto
  from Cons obtain outs where outs: "commit_outputs pol fee (Suc i) ces = Some outs"
    and v: "map tx_value outs = map (\<lambda>j. if Suc i + j = 0 then fee + dust_amount pol else dust_amount pol) [0..<length ces]"
    by fastforce
  have "map (\<lambda>j. if i + j = 0 then fee + dust_amount pol else dust_amount pol) [0..<length (ce # ces)] =
      (if i = 0 then fee + dust_amount pol else dust_amount pol) # map tx_value outs"
    unfolding v by (simp add: upt_conv_Cons map_Suc_upt [symmetric] o_def del: upt_Suc map_Suc_upt)
  then show ?case using a outs by (auto simp: Let_def)
qed simp

lemma sum_commit_outputs:
  "0 < n \<Longrightarrow> sum_list (map (\<lambda>j. if j = 0 then fee + d else d) [0..<n]) = fee + n * (d :: nat)"
  by (induction n) auto

lemma assert_initial_amounts:
  assumes "keys_b cb" "revealable ces1" "revealable ces2"
    and "min_relay_fee_assert_commit1 pol + length ces1 * dust_amount pol < 2 ^ 64"
    and "min_relay_fee_assert_commit2 pol + length ces2 * dust_amount pol < 2 ^ 64"
  defines "e1 \<equiv> min_relay_fee_assert_commit1 pol + length ces1 * dust_amount pol"
    and "e2 \<equiv> min_relay_fee_assert_commit2 pol + length ces2 * dust_amount pol"
  shows "(\<exists>t. assert_initial_new_for_validation pol cb cd ces1 ces2 i = Some t) \<longleftrightarrow>
      min_relay_fee_assert_initial pol + e1 + e2 \<le> in_amount i"
    and "assert_initial_new_for_validation pol cb cd ces1 ces2 i = Some t \<Longrightarrow>
      amounts (ps_tx t) = (in_amount i - min_relay_fee_assert_initial pol - e1 - e2)
        # map (\<lambda>j. if j = 0 then min_relay_fee_assert_commit1 pol + dust_amount pol else dust_amount pol) [0..<length ces1]
        @ map (\<lambda>j. if j = 0 then min_relay_fee_assert_commit2 pol + dust_amount pol else dust_amount pol) [0..<length ces2]"
proof -
  obtain a where a: "connector_b_address cb = Some a" using keyed_leaves(8) [OF assms(1)] by blast
  obtain outs1 where o1: "commit_outputs pol (min_relay_fee_assert_commit1 pol) 0 ces1 = Some outs1"
    and v1: "map tx_value outs1 = map (\<lambda>j. if j = 0 then min_relay_fee_assert_commit1 pol + dust_amount pol else dust_amount pol) [0..<length ces1]"
    using commit_outputs_amounts [OF assms(2), of pol "min_relay_fee_assert_commit1 pol" 0] by auto
  obtain outs2 where o2: "commit_outputs pol (min_relay_fee_assert_commit2 pol) 0 ces2 = Some outs2"
    and v2: "map tx_value outs2 = map (\<lambda>j. if j = 0 then min_relay_fee_assert_commit2 pol + dust_amount pol else dust_amount pol) [0..<length ces2]"
    using commit_outputs_amounts [OF assms(3), of pol "min_relay_fee_assert_commit2 pol" 0] by auto
  have ex: "commit_expense pol (min_relay_fee_assert_commit1 pol) ces1 = Some e1"
    "commit_expense pol (min_relay_fee_assert_commit2 pol) ces2 = Some e2"
    using assms(4,5) by (simp_all add: commit_expense_def amt_mul_def amt_add_def e1_def e2_def)
  show "(\<exists>t. assert_initial_new_for_validation pol cb cd ces1 ces2 i = Some t) \<longleftrightarrow>
      min_relay_fee_assert_initial pol + e1 + e2 \<le> in_amount i"
    by (auto simp: assert_initial_new_for_validation_def a o1 o2 ex amt_Some_iffs)
  show "assert_initial_new_for_validation pol cb cd ces1 ces2 i = Some t \<Longrightarrow>
      amounts (ps_tx t) = (in_amount i - min_relay_fee_assert_initial pol - e1 - e2)
        # map (\<lambda>j. if j = 0 then min_relay_fee_assert_commit1 pol + dust_amount pol else dust_amount pol) [0..<length ces1]
        @ map (\<lambda>j. if j = 0 then min_relay_fee_assert_commit2 pol + dust_amount pol else dust_amount pol) [0..<length ces2]"
    by (auto simp: assert_initial_new_for_validation_def a o1 o2 ex v1 v2 amt_Some_iffs amounts_def)
qed

lemma connector_e_address_leaf:
  "connector_e_address ce = Some a \<Longrightarrow> \<exists>s. connector_e_leaf_script ce 0 = Some s"
  by (auto simp: connector_e_address_def connector_e_spend_info_def)

lemma fold_commit_rows:
  assumes "revealable ces" "length inps = length ces"
    and "snd (snd (snd rows)) + sum_list (map in_amount inps) < 2 ^ 64"
  shows "\<exists>rows'. fold_option commit_row rows (zip ces inps) = Some rows' \<and>
    snd (snd (snd rows')) = snd (snd (snd rows)) + sum_list (map in_amount inps)"
  using assms
proof (induction ces arbitrary: rows inps)
  case (Cons ce ces)
  from Cons.prems(2) obtain i js where i: "inps = i # js" by (cases inps) auto
  from Cons.prems(1) obtain a where a: "connector_e_address ce = Some a" by auto
  then obtain s where s: "connector_e_leaf_script ce 0 = Some s" using connector_e_address_leaf by blast
  obtain ins outs ss amount where r: "rows = (ins, outs, ss, amount)" by (cases rows)
  have "commit_row rows (ce, i) = Some (ins @ [generate_default_tx_in i], outs @ [pay_to (in_amount i) a], ss @ [s],
      amount + in_amount i)"
    using Cons.prems(3) by (simp add: r i commit_row_def a s connector_e_leaf_tx_in_def amt_add_def)
  then show ?case
    using Cons.IH [of js "(ins @ [generate_default_tx_in i], outs @ [pay_to (in_amount i) a], ss @ [s],
      amount + in_amount i)"] Cons.prems
    by (auto simp: i r add.assoc)
qed simp

lemma assert_commit_amounts:
  assumes "revealable ces" "length inps = length ces" "sum_list (map in_amount inps) < 2 ^ 64"
    and "fee \<le> sum_list (map in_amount inps)"
  shows "\<exists>t. assert_commit_new_for_validation fee ces addr inps = Some t \<and>
    amounts (ps_tx t) = [sum_list (map in_amount inps) - fee]"
proof -
  obtain rows where "fold_option commit_row ([], [], [], 0) (zip ces inps) = Some rows"
    "snd (snd (snd rows)) = sum_list (map in_amount inps)"
    using fold_commit_rows [OF assms(1,2), of "([], [], [], 0)"] assms(3) by auto
  then show ?thesis using assms(4)
    by (cases rows) (simp add: assert_commit_new_for_validation_def amounts_def)
qed

lemma generate_inputs_amounts:
  assumes "\<forall>v \<in> set vs. v < length (amounts tx)"
  shows "\<exists>inps. generate_inputs txid_of tx vs = Some inps \<and> length inps = length vs \<and>
    map in_amount inps = map (\<lambda>v. amounts tx ! v) vs"
  using assms by (induction vs) (auto simp: generate_input_amounts)

section \<open>The stages, for the policy of Bitcoin Core\<close>

definition connectors_ready :: "chunk_api \<Rightarrow> peg_out_connectors \<Rightarrow> bool" where
  "connectors_ready api cs \<longleftrightarrow>
     keys_1 (pc_1 cs) \<and> keys_2 (pc_2 cs) \<and> keys_6 (pc_6 cs) \<and> keys_b (pc_b cs) \<and>
     (\<exists>a. connector_c_address api (pc_c cs) = Some a) \<and>
     revealable (pc_e_1 cs) \<and> revealable (pc_e_2 cs) \<and>
     length (pc_e_1 cs) = 300 \<and> length (pc_e_2 cs) = 78"

text \<open>More satoshis than there are.\<close>

definition max_money :: nat where
  "max_money = 21000000 * 100000000"

lemma stage_kick_off_1:
  assumes "connectors_ready api cs"
  shows "(\<exists>p. new_kick_off_1 core_policy txid_of ctx cs i = Some p) \<longleftrightarrow> 7420 \<le> in_amount i"
    and "new_kick_off_1 core_policy txid_of ctx cs i = Some (confirm, k1) \<Longrightarrow>
      amounts (ps_tx k1) = [330, in_amount i - 7420, 737] \<and> 7420 \<le> in_amount i"
proof -
  have k: "keys_1 (pc_1 cs)" "keys_2 (pc_2 cs)" "keys_6 (pc_6 cs)"
    using assms by (simp_all add: connectors_ready_def)
  note c = peg_out_confirm_amounts [where pol = core_policy, OF k(3)]
    and k1 = kick_off_1_amounts [where pol = core_policy, OF k]
  have *: "new_kick_off_1 core_policy txid_of ctx cs i = Some (confirm, k1) \<Longrightarrow>
      amounts (ps_tx k1) = [330, in_amount i - 7420, 737] \<and> 7420 \<le> in_amount i" for confirm k1
  proof -
    assume "new_kick_off_1 core_policy txid_of ctx cs i = Some (confirm, k1)"
    then obtain i0 where c': "peg_out_confirm_new_for_validation core_policy (oc_network ctx) (oc_operator_key ctx) (pc_6 cs) i = Some confirm"
      and i0: "generate_input txid_of (ps_tx confirm) 0 = Some i0"
      and k': "kick_off_1_new_for_validation core_policy (oc_network ctx) (oc_operator_taproot_key ctx)
         (oc_n_of_n_taproot_key ctx) (pc_1 cs) (pc_2 cs) (pc_6 cs) i0 = Some k1"
      by (auto simp: new_kick_off_1_def bind_eq_Some_conv)
    have "122 \<le> in_amount i" using c(1) c' by (auto simp: min_relay_fee_values)
    moreover have "in_amount i0 = in_amount i - 122"
      using i0 c(2) [OF c'] by (auto simp: generate_input_amounts min_relay_fee_values)
    moreover have "7298 \<le> in_amount i0" using k1(1) [of "oc_network ctx" "oc_operator_taproot_key ctx" "oc_n_of_n_taproot_key ctx" i0] k'
      by (simp add: min_relay_fee_values)
    ultimately show ?thesis using k1(2) [OF k'] by (auto simp: min_relay_fee_values)
  qed
  then show "new_kick_off_1 core_policy txid_of ctx cs i = Some (confirm, k1) \<Longrightarrow>
      amounts (ps_tx k1) = [330, in_amount i - 7420, 737] \<and> 7420 \<le> in_amount i" .
  show "(\<exists>p. new_kick_off_1 core_policy txid_of ctx cs i = Some p) \<longleftrightarrow> 7420 \<le> in_amount i"
  proof
    assume le: "7420 \<le> in_amount i"
    then obtain confirm where c': "peg_out_confirm_new_for_validation core_policy (oc_network ctx) (oc_operator_key ctx) (pc_6 cs) i = Some confirm"
      using c(1) [of "oc_network ctx" "oc_operator_key ctx" i] by (auto simp: min_relay_fee_values)
    let ?i0 = "\<lparr>in_outpoint = Outpoint (txid_of (ps_tx confirm)) 0, in_amount = in_amount i - 122\<rparr>"
    have i0: "generate_input txid_of (ps_tx confirm) 0 = Some ?i0"
      using c(2) [OF c'] by (simp add: generate_input_amounts min_relay_fee_values)
    have "\<exists>k1. kick_off_1_new_for_validation core_policy (oc_network ctx) (oc_operator_taproot_key ctx)
         (oc_n_of_n_taproot_key ctx) (pc_1 cs) (pc_2 cs) (pc_6 cs) ?i0 = Some k1"
      using le by (simp add: k1(1) min_relay_fee_values)
    then show "\<exists>p. new_kick_off_1 core_policy txid_of ctx cs i = Some p"
      using c' i0 by (auto simp: new_kick_off_1_def)
  qed (use * in auto)
qed

lemma stage_start_time:
  assumes "connectors_ready api cs" "amounts (ps_tx k1) = [a, b, 737]" "b < 2 ^ 55"
  shows "\<exists>p. new_start_time core_policy txid_of ctx cs k1 = Some p"
proof -
  have k: "keys_1 (pc_1 cs)" "keys_2 (pc_2 cs)" using assms by (simp_all add: connectors_ready_def)
  let ?i = "\<lambda>v. \<lparr>in_outpoint = Outpoint (txid_of (ps_tx k1)) v, in_amount = amounts (ps_tx k1) ! v\<rparr>"
  have "\<exists>st. start_time_new_for_validation core_policy (oc_network ctx) (oc_operator_key ctx) (pc_2 cs) (?i 2) = Some st"
    by (simp add: start_time_amounts [OF k(2)] assms(2) min_relay_fee_values)
  moreover have "\<exists>stt. start_time_timeout_new_for_validation core_policy (oc_network ctx) (pc_1 cs) (pc_2 cs) (?i 2) (?i 1) = Some stt"
    by (rule start_time_timeout_amounts [OF k]) (use assms(2,3) in \<open>simp_all add: min_relay_fee_values\<close>)
  ultimately show ?thesis by (auto simp: new_start_time_def generate_input_amounts assms(2))
qed

lemma stage_kick_off_2:
  assumes "connectors_ready api cs" "amounts (ps_tx k1) = [a, b, c]" "b < 2 ^ 55"
  shows "(\<exists>p. new_kick_off_2 core_policy txid_of ctx cs k1 = Some p) \<longleftrightarrow> 5791 \<le> b"
    and "new_kick_off_2 core_policy txid_of ctx cs k1 = Some (k2, kt) \<Longrightarrow>
      amounts (ps_tx k2) = [330, b - 5791] \<and> 5791 \<le> b"
proof -
  have k: "keys_1 (pc_1 cs)" "keys_b (pc_b cs)" using assms by (simp_all add: connectors_ready_def)
  let ?i = "\<lparr>in_outpoint = Outpoint (txid_of (ps_tx k1)) 1, in_amount = b\<rparr>"
  have i: "generate_input txid_of (ps_tx k1) (Suc 0) = Some ?i"
    by (simp add: generate_input_amounts assms(2))
  note k2 = kick_off_2_amounts [where pol = core_policy, OF k]
  have kt: "\<exists>kt. kick_off_timeout_new_for_validation core_policy (oc_network ctx) (pc_1 cs) ?i = Some kt"
    if "5791 \<le> b"
    by (rule kick_off_timeout_amounts [OF k(1)]) (use that assms(3) in \<open>simp_all add: min_relay_fee_values\<close>)
  have *: "amounts (ps_tx k2) = [330, b - 5791] \<and> 5791 \<le> b"
    if "new_kick_off_2 core_policy txid_of ctx cs k1 = Some (k2, kt)" for k2 kt
    using that k2(1) [of "oc_network ctx" "oc_operator_key ctx" ?i] k2(2) [of "oc_network ctx" "oc_operator_key ctx" ?i k2]
    by (auto simp: new_kick_off_2_def bind_eq_Some_conv i min_relay_fee_values)
  then show "new_kick_off_2 core_policy txid_of ctx cs k1 = Some (k2, kt) \<Longrightarrow>
      amounts (ps_tx k2) = [330, b - 5791] \<and> 5791 \<le> b" .
  show "(\<exists>p. new_kick_off_2 core_policy txid_of ctx cs k1 = Some p) \<longleftrightarrow> 5791 \<le> b"
  proof
    assume le: "5791 \<le> b"
    then have "\<exists>k2. kick_off_2_new_for_validation core_policy (oc_network ctx) (oc_operator_key ctx) (pc_1 cs) (pc_b cs) ?i = Some k2"
      by (simp add: k2(1) min_relay_fee_values)
    then show "\<exists>p. new_kick_off_2 core_policy txid_of ctx cs k1 = Some p"
      using kt [OF le] by (auto simp: new_kick_off_2_def i)
  qed (use * in auto)
qed

lemma stage_challenge:
  assumes "amounts (ps_tx k1) = [330, b, c]"
  shows "\<exists>ch. new_challenge core_policy txid_of ctx cs k1 = Some ch"
proof -
  let ?i = "\<lparr>in_outpoint = Outpoint (txid_of (ps_tx k1)) 0, in_amount = 330\<rparr>"
  have "\<exists>ch. challenge_new_for_validation core_policy (oc_network ctx) (oc_operator_key ctx) (pc_a cs) ?i crowdfunding_amount = Some ch"
    by (rule challenge_amounts) (simp_all add: crowdfunding_amount_def min_relay_fee_values)
  then show ?thesis by (simp add: new_challenge_def generate_input_amounts assms)
qed

lemma stage_take_1:
  assumes "connectors_ready api cs" "amounts (ps_tx pic) = [p]" "amounts (ps_tx k1) = [330, b, c]"
    and "amounts (ps_tx k2) = [330, v]" "p < 2 ^ 55" "v < 2 ^ 55"
  shows "\<exists>t. new_take_1 core_policy txid_of ctx cs pic k1 k2 = Some t"
proof -
  have k: "keys_b (pc_b cs)" using assms by (simp add: connectors_ready_def)
  let ?i = "\<lambda>tx v. \<lparr>in_outpoint = Outpoint (txid_of tx) v, in_amount = amounts tx ! v\<rparr>"
  have "\<exists>t. take_1_new_for_validation core_policy (oc_network ctx) (oc_operator_key ctx) (pc_0 cs) (pc_3 cs) (pc_a cs)
      (pc_b cs) (?i (ps_tx pic) 0) (?i (ps_tx k1) 0) (?i (ps_tx k2) 0) (?i (ps_tx k2) 1) = Some t"
    by (rule take_1_amounts [OF k]) (use assms in \<open>simp_all add: min_relay_fee_values\<close>)
  then show ?thesis by (simp add: new_take_1_def generate_input_amounts assms(2-4))
qed

text \<open>The two commit transactions collect 300 and 78 dust outputs.\<close>

lemma stage_assert_initial:
  assumes "connectors_ready api cs"
  shows "(\<exists>t. assert_initial_new_for_validation core_policy (pc_b cs) (pc_d cs) (pc_e_1 cs) (pc_e_2 cs) i = Some t) \<longleftrightarrow>
      1383270 \<le> in_amount i"
    and "assert_initial_new_for_validation core_policy (pc_b cs) (pc_d cs) (pc_e_1 cs) (pc_e_2 cs) i = Some t \<Longrightarrow>
      amounts (ps_tx t) = (in_amount i - 1383270)
        # map (\<lambda>j. if j = 0 then 739467 else 330) [0..<300] @ map (\<lambda>j. if j = 0 then 470770 else 330) [0..<78]"
  using assms assert_initial_amounts [where pol = core_policy and cb = "pc_b cs" and ?ces1.0 = "pc_e_1 cs"
      and ?ces2.0 = "pc_e_2 cs" and cd = "pc_d cs" and i = i]
  by (simp_all add: connectors_ready_def min_relay_fee_values del: upt_Suc upt_conv_Cons)

lemma nth_commit_amounts:
  fixes f g :: "nat \<Rightarrow> nat"
  shows "map (\<lambda>v. (x # map f [0..<n] @ map g [0..<m]) ! v) (map (\<lambda>idx. idx + 1) [0..<n]) = map f [0..<n]"
    and "map (\<lambda>v. (x # map f [0..<n] @ map g [0..<m]) ! v) (map (\<lambda>idx. idx + (1 + n)) [0..<m]) = map g [0..<m]"
  by (intro nth_equalityI; simp add: nth_append)+

lemma commit_sums:
  "sum_list (map (\<lambda>j. if j = 0 then 739467 else 330) [0..<300]) = (838137 :: nat)"
  "sum_list (map (\<lambda>j. if j = 0 then 470770 else 330) [0..<78]) = (496180 :: nat)"
  using sum_commit_outputs [of 300 739137 330] sum_commit_outputs [of 78 470440 330]
  by (simp_all cong: if_cong del: upt_Suc upt_conv_Cons)

lemma stage_assert_commits:
  assumes cs: "connectors_ready api cs"
    and ai: "amounts (ps_tx ai) = v0
        # map (\<lambda>j. if j = 0 then 739467 else 330) [0..<300] @ map (\<lambda>j. if j = 0 then 470770 else 330) [0..<78]"
  shows "\<exists>is1 ac1 is2 ac2.
    generate_inputs txid_of (ps_tx ai) (map (\<lambda>idx. idx + 1) [0..<length (pc_e_1 cs)]) = Some is1 \<and>
    assert_commit_1_new core_policy (pc_e_1 cs) (pc_f_1 cs) is1 = Some ac1 \<and> amounts (ps_tx ac1) = [99000] \<and>
    generate_inputs txid_of (ps_tx ai) (map (\<lambda>idx. idx + (1 + length (pc_e_1 cs))) [0..<length (pc_e_2 cs)]) = Some is2 \<and>
    assert_commit_2_new core_policy (pc_e_2 cs) (pc_f_2 cs) is2 = Some ac2 \<and> amounts (ps_tx ac2) = [25740]"
proof -
  have len: "length (pc_e_1 cs) = 300" "length (pc_e_2 cs) = 78" and rev: "revealable (pc_e_1 cs)" "revealable (pc_e_2 cs)"
    using cs by (simp_all add: connectors_ready_def)
  have lai: "length (amounts (ps_tx ai)) = 379" unfolding ai by (simp del: upt_Suc upt_conv_Cons)
  obtain is1 where is1: "generate_inputs txid_of (ps_tx ai) (map (\<lambda>idx. idx + 1) [0..<300]) = Some is1"
    "length is1 = 300" "map in_amount is1 = map (\<lambda>v. amounts (ps_tx ai) ! v) (map (\<lambda>idx. idx + 1) [0..<300])"
    using generate_inputs_amounts [of "map (\<lambda>idx. idx + 1) [0..<300]" "ps_tx ai" txid_of] lai by auto
  obtain is2 where is2: "generate_inputs txid_of (ps_tx ai) (map (\<lambda>idx. idx + (1 + 300)) [0..<78]) = Some is2"
    "length is2 = 78" "map in_amount is2 = map (\<lambda>v. amounts (ps_tx ai) ! v) (map (\<lambda>idx. idx + (1 + 300)) [0..<78])"
    using generate_inputs_amounts [of "map (\<lambda>idx. idx + (1 + 300)) [0..<78]" "ps_tx ai" txid_of] lai by auto
  have s1: "sum_list (map in_amount is1) = 838137"
    unfolding is1(3) ai by (simp only: nth_commit_amounts(1) commit_sums)
  have s2: "sum_list (map in_amount is2) = 496180"
    unfolding is2(3) ai by (simp only: nth_commit_amounts(2) commit_sums)
  obtain ac1 where "assert_commit_1_new core_policy (pc_e_1 cs) (pc_f_1 cs) is1 = Some ac1" "amounts (ps_tx ac1) = [99000]"
    using assert_commit_amounts [OF rev(1), of is1 "min_relay_fee_assert_commit1 core_policy" "connector_f_1_address (pc_f_1 cs)"]
    by (auto simp: assert_commit_1_new_def assert_commit_1_new_for_validation_def len is1(2) s1 min_relay_fee_values)
  moreover obtain ac2 where "assert_commit_2_new core_policy (pc_e_2 cs) (pc_f_2 cs) is2 = Some ac2" "amounts (ps_tx ac2) = [25740]"
    using assert_commit_amounts [OF rev(2), of is2 "min_relay_fee_assert_commit2 core_policy" "connector_f_2_address (pc_f_2 cs)"]
    by (auto simp: assert_commit_2_new_def assert_commit_2_new_for_validation_def len is2(2) s2 min_relay_fee_values)
  ultimately show ?thesis unfolding len using is1(1) is2(1) by blast
qed

lemma stage_assert:
  assumes "connectors_ready api cs" "amounts (ps_tx k2) = [330, v]"
  shows "(\<exists>p. new_assert core_policy txid_of ctx cs k2 = Some p) \<longleftrightarrow> 1383270 \<le> v"
    and "new_assert core_policy txid_of ctx cs k2 = Some (ai, ac1, ac2) \<Longrightarrow>
      hd (amounts (ps_tx ai)) = v - 1383270 \<and> amounts (ps_tx ai) \<noteq> [] \<and> amounts (ps_tx ac1) = [99000] \<and>
      amounts (ps_tx ac2) = [25740] \<and> 1383270 \<le> v"
proof -
  let ?i = "\<lparr>in_outpoint = Outpoint (txid_of (ps_tx k2)) 1, in_amount = v\<rparr>"
  have i: "generate_input txid_of (ps_tx k2) (Suc 0) = Some ?i"
    by (simp add: generate_input_amounts assms(2))
  note ai = stage_assert_initial [OF assms(1), of ?i]
  have *: "hd (amounts (ps_tx ai)) = v - 1383270 \<and> amounts (ps_tx ai) \<noteq> [] \<and> amounts (ps_tx ac1) = [99000] \<and>
      amounts (ps_tx ac2) = [25740] \<and> 1383270 \<le> v"
    if new: "new_assert core_policy txid_of ctx cs k2 = Some (ai, ac1, ac2)" for ai ac1 ac2
  proof -
    have a: "assert_initial_new_for_validation core_policy (pc_b cs) (pc_d cs) (pc_e_1 cs) (pc_e_2 cs) ?i = Some ai"
      using new by (auto simp: new_assert_def bind_eq_Some_conv Let_def i)
    have "1383270 \<le> v" using ai(1) a by auto
    moreover obtain is1 ac1' is2 ac2' where p:
      "generate_inputs txid_of (ps_tx ai) (map (\<lambda>idx. idx + 1) [0..<length (pc_e_1 cs)]) = Some is1"
      "assert_commit_1_new core_policy (pc_e_1 cs) (pc_f_1 cs) is1 = Some ac1'" "amounts (ps_tx ac1') = [99000]"
      "generate_inputs txid_of (ps_tx ai) (map (\<lambda>idx. idx + (1 + length (pc_e_1 cs))) [0..<length (pc_e_2 cs)]) = Some is2"
      "assert_commit_2_new core_policy (pc_e_2 cs) (pc_f_2 cs) is2 = Some ac2'" "amounts (ps_tx ac2') = [25740]"
      using stage_assert_commits [OF assms(1) ai(2) [OF a], of txid_of] by blast
    moreover have "ac1 = ac1' \<and> ac2 = ac2'" using new p a by (simp add: new_assert_def Let_def i)
    ultimately show ?thesis using ai(2) [OF a] by (simp del: upt_Suc upt_conv_Cons)
  qed
  then show "new_assert core_policy txid_of ctx cs k2 = Some (ai, ac1, ac2) \<Longrightarrow>
      hd (amounts (ps_tx ai)) = v - 1383270 \<and> amounts (ps_tx ai) \<noteq> [] \<and> amounts (ps_tx ac1) = [99000] \<and>
      amounts (ps_tx ac2) = [25740] \<and> 1383270 \<le> v" .
  show "(\<exists>p. new_assert core_policy txid_of ctx cs k2 = Some p) \<longleftrightarrow> 1383270 \<le> v"
  proof
    assume "1383270 \<le> v"
    then obtain a where a: "assert_initial_new_for_validation core_policy (pc_b cs) (pc_d cs) (pc_e_1 cs) (pc_e_2 cs) ?i = Some a"
      using ai(1) by auto
    show "\<exists>p. new_assert core_policy txid_of ctx cs k2 = Some p"
      using stage_assert_commits [OF assms(1) ai(2) [OF a], of txid_of] a
      by (auto simp: new_assert_def Let_def i)
  qed (use * in \<open>auto split: prod.splits\<close>)
qed

lemma stage_assert_final:
  assumes "connectors_ready api cs" "hd (amounts (ps_tx ai)) = v0" "amounts (ps_tx ai) \<noteq> []"
    and "amounts (ps_tx ac1) = [99000]" "amounts (ps_tx ac2) = [25740]" "v0 < 2 ^ 55"
  shows "\<exists>af. new_assert_final core_policy txid_of api cs ai ac1 ac2 = Some af \<and>
    amounts (ps_tx af) = [330, v0 + 123728, 330]"
proof -
  obtain ac where ac: "connector_c_address api (pc_c cs) = Some ac" using assms(1) by (auto simp: connectors_ready_def)
  let ?i = "\<lambda>tx v. \<lparr>in_outpoint = Outpoint (txid_of tx) v, in_amount = amounts tx ! v\<rparr>"
  have v0: "amounts (ps_tx ai) ! 0 = v0" using assms(2,3) by (simp add: hd_conv_nth)
  note af = assert_final_amounts [where pol = core_policy, OF ac, of "?i (ps_tx ac1) 0" "?i (ps_tx ac2) 0" "?i (ps_tx ai) 0"]
  obtain t where t: "assert_final_new_for_validation core_policy api (pc_4 cs) (pc_5 cs) (pc_c cs) (pc_d cs) (pc_f_1 cs)
      (pc_f_2 cs) (?i (ps_tx ai) 0) (?i (ps_tx ac1) 0) (?i (ps_tx ac2) 0) = Some t"
    using af(1) [of "pc_4 cs" "pc_5 cs" "pc_d cs" "pc_f_1 cs" "pc_f_2 cs"] assms(4-6) v0
    by (auto simp: min_relay_fee_values)
  have "amounts (ps_tx t) = [330, v0 + 123728, 330]"
    using af(2) [OF _ _ t] assms(4-6) v0 by (simp add: min_relay_fee_values)
  then show ?thesis using t assms(3-5)
    by (auto simp: new_assert_final_def generate_input_amounts)
qed

lemma stage_take_2:
  assumes "connectors_ready api cs" "amounts (ps_tx pic) = [p]" "amounts (ps_tx af) = [330, w, 330]"
    and "123728 \<le> w" "p < 2 ^ 55" "w < 2 ^ 56"
  shows "\<exists>t. new_take_2 core_policy txid_of api ctx cs pic af = Some t"
proof -
  obtain ac where ac: "connector_c_address api (pc_c cs) = Some ac" using assms(1) by (auto simp: connectors_ready_def)
  let ?i = "\<lambda>tx v. \<lparr>in_outpoint = Outpoint (txid_of tx) v, in_amount = amounts tx ! v\<rparr>"
  have "\<exists>t. take_2_new_for_validation core_policy api (oc_network ctx) (oc_operator_key ctx) (pc_0 cs) (pc_4 cs) (pc_5 cs)
      (pc_c cs) (?i (ps_tx pic) 0) (?i (ps_tx af) 0) (?i (ps_tx af) 1) (?i (ps_tx af) 2) = Some t"
    by (rule take_2_amounts [OF ac]) (use assms in \<open>simp_all add: min_relay_fee_values\<close>)
  then show ?thesis by (simp add: new_take_2_def generate_input_amounts assms(2,3))
qed

lemma stage_disprove:
  assumes "connectors_ready api cs" "amounts (ps_tx af) = [330, w, 330]" "amounts (ps_tx k2) = [330, v]" "w < 2 ^ 56"
  shows "(\<exists>p. new_disprove core_policy txid_of api ctx cs af k2 = Some p) \<longleftrightarrow> 238455 \<le> w \<and> 389370 \<le> v"
proof -
  obtain ac where ac: "connector_c_address api (pc_c cs) = Some ac" using assms(1) by (auto simp: connectors_ready_def)
  have k: "keys_b (pc_b cs)" using assms by (simp add: connectors_ready_def)
  let ?i = "\<lambda>tx v. \<lparr>in_outpoint = Outpoint (txid_of tx) v, in_amount = amounts tx ! v\<rparr>"
  have 1: "(\<exists>t. disprove_new_for_validation core_policy api (oc_network ctx) (pc_5 cs) (pc_c cs) (?i (ps_tx af) 1) (?i (ps_tx af) 2) = Some t)
      \<longleftrightarrow> 238455 \<le> w"
    using disprove_amounts [OF ac, of "?i (ps_tx af) 1" "?i (ps_tx af) 2" core_policy "oc_network ctx" "pc_5 cs"] assms(2,4)
    by (auto simp: min_relay_fee_values)
  have 2: "(\<exists>t. disprove_chain_new_for_validation core_policy (oc_network ctx) (pc_b cs) (?i (ps_tx k2) 1) = Some t) \<longleftrightarrow> 389370 \<le> v"
    using disprove_chain_amounts [OF k, of core_policy "oc_network ctx" "?i (ps_tx k2) 1"] assms(3)
    by (simp add: min_relay_fee_values)
  have "(\<exists>p. new_disprove core_policy txid_of api ctx cs af k2 = Some p) \<longleftrightarrow>
      (\<exists>t. disprove_new_for_validation core_policy api (oc_network ctx) (pc_5 cs) (pc_c cs) (?i (ps_tx af) 1) (?i (ps_tx af) 2) = Some t) \<and>
      (\<exists>t. disprove_chain_new_for_validation core_policy (oc_network ctx) (pc_b cs) (?i (ps_tx k2) 1) = Some t)"
    by (auto simp: new_disprove_def generate_input_amounts assms(2,3) bind_eq_Some_conv)
  then show ?thesis using 1 2 by simp
qed

lemma peg_in_amounts:
  "peg_in_deposit_new_for_validation pol net depositor cz i = Some t \<Longrightarrow>
     amounts (ps_tx t) = [in_amount i - min_relay_fee_peg_in_deposit pol] \<and> min_relay_fee_peg_in_deposit pol \<le> in_amount i"
  "peg_in_confirm_new_for_validation pol c0 cz i = Some t \<Longrightarrow>
     amounts (ps_tx t) = [in_amount i - min_relay_fee_peg_in_confirm pol] \<and> min_relay_fee_peg_in_confirm pol \<le> in_amount i"
  by (auto simp: peg_in_deposit_new_for_validation_def peg_in_confirm_new_for_validation_def amounts_def
      amt_Some_iffs Let_def)

lemma peg_in_confirm_amount:
  assumes "peg_in_graph_new pol txid_of dctx deposit_input evm_address = Some peg_in"
  shows "amounts (ps_tx (peg_in_confirm_tx peg_in)) =
      [in_amount deposit_input - min_relay_fee_peg_in_deposit pol - min_relay_fee_peg_in_confirm pol]"
proof (rule peg_in_graph_new_cases [OF assms])
  fix refund_input confirm_input
  assume d: "peg_in_deposit_new_for_validation pol (dc_network dctx) (dc_depositor_key dctx) (pi_connector_z peg_in)
       deposit_input = Some (peg_in_deposit_tx peg_in)"
    and i: "generate_input txid_of (ps_tx (peg_in_deposit_tx peg_in)) 0 = Some confirm_input"
    and c: "peg_in_confirm_new_for_validation pol (pi_connector_0 peg_in) (pi_connector_z peg_in) confirm_input =
       Some (peg_in_confirm_tx peg_in)"
  show ?thesis using peg_in_amounts(1) [OF d] peg_in_amounts(2) [OF c] i
    by (auto simp: generate_input_amounts)
qed

section \<open>The whole graph\<close>

lemma peg_out_graph_built_iff:
  assumes cs: "peg_out_connectors_new public_of ctx secrets = Some cs" "connectors_ready api cs"
    and pic: "amounts (ps_tx (peg_in_confirm_tx peg_in)) = [p]" "p \<le> max_money"
    and i: "in_amount i \<le> max_money"
  shows "(\<exists>g. peg_out_graph_new core_policy txid_of api public_of ctx peg_in i secrets = Some g) \<longleftrightarrow>
    peg_out_fee core_policy + 4 * dust_amount core_policy \<le> in_amount i"
proof
  have need: "peg_out_fee core_policy + 4 * dust_amount core_policy = 1511208"
    by (simp add: peg_out_fee_def min_relay_fee_assert_set_def min_relay_fee_values)
  note bounds = pic(2) i [unfolded max_money_def]
  {
    assume "\<exists>g. peg_out_graph_new core_policy txid_of api public_of ctx peg_in i secrets = Some g"
    then obtain g where g: "peg_out_graph_new core_policy txid_of api public_of ctx peg_in i secrets = Some g" by blast
    note parts = peg_out_graph_new_cases [OF g]
    have [simp]: "po_connectors g = cs" using parts(1) cs(1) by simp
    note k1 = stage_kick_off_1(2) [OF cs(2) parts(2) [simplified]]
    have "in_amount i - 7420 < 2 ^ 55" using bounds(2) by simp
    note k2 = stage_kick_off_2(2) [OF cs(2) k1 [THEN conjunct1] this parts(4) [simplified]]
    note ai = stage_assert(2) [OF cs(2) k2 [THEN conjunct1] parts(7) [simplified]]
    let ?vz = "in_amount i - 7420 - 5791 - 1383270"
    have v0: "?vz < 2 ^ 55" using bounds(2) by simp
    obtain af where "new_assert_final core_policy txid_of api cs (assert_initial_tx g) (assert_commit_1_tx g)
        (assert_commit_2_tx g) = Some af" "amounts (ps_tx af) = [330, ?vz + 123728, 330]"
      using stage_assert_final [OF cs(2) _ _ _ _ v0, of "assert_initial_tx g" "assert_commit_1_tx g"
          "assert_commit_2_tx g" txid_of] ai by auto
    then have af: "amounts (ps_tx (assert_final_tx g)) = [330, ?vz + 123728, 330]" using parts(8) by simp
    have "?vz + 123728 < 2 ^ 56" using v0 by simp
    from stage_disprove [OF cs(2) af k2 [THEN conjunct1] this, of txid_of ctx] parts(10)
    have "238455 \<le> ?vz + 123728" by auto
    then show "peg_out_fee core_policy + 4 * dust_amount core_policy \<le> in_amount i"
      unfolding need by linarith
  }
  assume "peg_out_fee core_policy + 4 * dust_amount core_policy \<le> in_amount i"
  then have le: "1511208 \<le> in_amount i" by (simp only: need)
  let ?b = "in_amount i - 7420" and ?v = "in_amount i - 7420 - 5791"
  let ?vz = "in_amount i - 7420 - 5791 - 1383270"
  obtain confirm k1 where s1: "new_kick_off_1 core_policy txid_of ctx cs i = Some (confirm, k1)"
    using stage_kick_off_1(1) [OF cs(2), of txid_of ctx i] le by auto
  note k1 = stage_kick_off_1(2) [OF cs(2) s1, THEN conjunct1]
  have b: "?b < 2 ^ 55" "?v < 2 ^ 55" "?vz < 2 ^ 55" using bounds(2) by simp_all
  obtain st stt where s2: "new_start_time core_policy txid_of ctx cs k1 = Some (st, stt)"
    using stage_start_time [OF cs(2) k1 b(1), of txid_of ctx] by auto
  obtain k2 kt where s3: "new_kick_off_2 core_policy txid_of ctx cs k1 = Some (k2, kt)"
    using stage_kick_off_2(1) [OF cs(2) k1 b(1), of txid_of ctx] le by auto
  note k2 = stage_kick_off_2(2) [OF cs(2) k1 b(1) s3, THEN conjunct1]
  obtain ch where s4: "new_challenge core_policy txid_of ctx cs k1 = Some ch" using stage_challenge [OF k1] by blast
  have p: "p < 2 ^ 55" using pic(2) by (simp add: max_money_def)
  obtain t1 where s5: "new_take_1 core_policy txid_of ctx cs (peg_in_confirm_tx peg_in) k1 k2 = Some t1"
    using stage_take_1 [OF cs(2) pic(1) k1 k2 p b(2)] by blast
  obtain ai ac1 ac2 where s6: "new_assert core_policy txid_of ctx cs k2 = Some (ai, ac1, ac2)"
    using stage_assert(1) [OF cs(2) k2, of txid_of ctx] le by auto
  note a = stage_assert(2) [OF cs(2) k2 s6]
  obtain af where s7: "new_assert_final core_policy txid_of api cs ai ac1 ac2 = Some af"
    and af: "amounts (ps_tx af) = [330, ?vz + 123728, 330]"
    using stage_assert_final [OF cs(2) _ _ _ _ b(3), of ai ac1 ac2 txid_of] a by auto
  have w: "?vz + 123728 < 2 ^ 56" "123728 \<le> ?vz + 123728" using b(3) by simp_all
  obtain t2 where s8: "new_take_2 core_policy txid_of api ctx cs (peg_in_confirm_tx peg_in) af = Some t2"
    using stage_take_2 [OF cs(2) pic(1) af w(2) p w(1)] by blast
  obtain dp dc where s9: "new_disprove core_policy txid_of api ctx cs af k2 = Some (dp, dc)"
    using stage_disprove [OF cs(2) af k2 w(1), of txid_of ctx] le by auto
  show "\<exists>g. peg_out_graph_new core_policy txid_of api public_of ctx peg_in i secrets = Some g"
    by (simp add: peg_out_graph_new_def Let_def cs(1) s1 s2 s3 s4 s5 s6 s7 s8 s9)
qed

text \<open>The connectors built from generated secrets are ready, whatever the order of the hash map.\<close>

lemma keys_of_secrets_generated:
  assumes "set ks \<subseteq> fst ` set secrets"
  shows "\<exists>m. keys_of_secrets public_of secrets ks = Some m \<and> (\<forall>k \<in> set ks. m k \<noteq> None)"
  using assms
proof (induction ks)
  case (Cons k ks)
  then have "\<exists>s. map_of secrets k = Some s"
    using map_of_eq_None_iff [of secrets k] by (cases "map_of secrets k") simp_all
  then show ?case using Cons by fastforce
qed simp

lemma revealable_value_keys:
  "revealable (map (connector_e_new net operator) (map (\<lambda>i. [(value_id i, f i)]) is))"
  by (auto simp: revealable_def connector_e_address_def connector_e_spend_info_def connector_e_leaf_script_def
      connector_e_new_def value_id_def)

text \<open>
  What the \<open>TaprootBuilder\<close> promises: a Huffman tree over some scripts of equal weight, at most
  \<open>2 ^ 128\<close> of them, can be built.
\<close>

definition huffman_builds :: "chunk_api \<Rightarrow> bool" where
  "huffman_builds api \<longleftrightarrow> (\<forall>keys. length keys = 378 \<longrightarrow>
     huffman_tree api (map (\<lambda>s. (1, s)) (full_tapscripts api keys)) \<noteq> None)"

lemma merged_keys:
  fixes f :: "nat \<Rightarrow> 'p"
  assumes "n \<le> k"
  defines "m \<equiv> merge_to_connector_c_commits_public_key (map (\<lambda>i. [(value_id i, f i)]) [0..<n])
      (map (\<lambda>i. [(value_id i, f i)]) [n..<k])"
  shows "set m = (\<lambda>i. (value_id i, f i)) ` {0..<k}" and "distinct (map fst m)"
proof -
  let ?es = "map (\<lambda>i. (value_id i, f i)) [0..<k]"
  have up: "[0..<n] @ [n..<k] = [0..<k]"
    using upt_add_eq_append [of 0 n "k - n"] assms(1) by simp
  have "concat (map (\<lambda>i. [(value_id i, f i)]) [0..<n] @ map (\<lambda>i. [(value_id i, f i)]) [n..<k]) = ?es"
    by (simp only: map_append [symmetric] up) simp
  then have m: "m = btree_extend [] ?es"
    by (simp only: m_def merge_to_connector_c_eq)
  have d: "distinct (map fst ?es)"
    by (simp add: distinct_map o_def inj_on_def inj_value_id)
  show "set m = (\<lambda>i. (value_id i, f i)) ` {0..<k}"
    unfolding m set_btree_extend [OF d] by simp
  show "distinct (map fst m)"
    unfolding m by (rule btree_ok_distinct [OF btree_extend_ok [OF btree_ok_Nil]])
qed

lemma indexed_values:
  assumes "set m = (\<lambda>i. (value_id i, f i)) ` {0..<378}" "distinct (map fst m)"
  shows "\<exists>vs. indexed_secrets m = Some vs \<and> length vs = 378"
proof -
  have parse: "groth16_index (value_id i) = Some (Some i)" if "i < 378" for i
    using groth16_index_value_id [of i] that by (simp add: num_values_eq)
  have m: "\<forall>e \<in> set m. groth16_index (fst e) \<noteq> Some None"
    unfolding assms(1) by (auto simp: parse)
  have "List.map_filter groth16_entry es = map (\<lambda>e. the (groth16_entry e)) es"
    if "\<forall>e \<in> set es. groth16_entry e \<noteq> None" for es :: "(commitment_message_id \<times> 'a) list"
    using that by (induction es) (auto simp: List.map_filter_simps)
  moreover have "\<forall>e \<in> set m. groth16_entry e \<noteq> None"
    unfolding assms(1) by (auto simp: parse)
  moreover have "length m = 378"
  proof -
    have "length m = card (fst ` set m)" using distinct_card [OF assms(2)] by simp
    also have "\<dots> = card (value_id ` {0..<378})" unfolding assms(1) by (simp add: image_image)
    also have "\<dots> = 378" by (subst card_image) (auto simp: inj_on_def inj_value_id)
    finally show ?thesis .
  qed
  ultimately show ?thesis using indexed_secrets_eq [OF m] by simp
qed

lemma generated_connectors_ready:
  assumes secrets: "mset secrets = mset (generate_commitment_secrets new_secret)"
    and api: "huffman_builds api"
  shows "\<exists>cs. peg_out_connectors_new public_of ctx secrets = Some cs \<and> connectors_ready api cs"
proof -
  let ?f = "\<lambda>i. public_of (new_secret (value_id i) (value_length i))"
  let ?e1 = "map (\<lambda>i. [(value_id i, ?f i)]) [0..<300]" and ?e2 = "map (\<lambda>i. [(value_id i, ?f i)]) [300..<378]"
  have ids: "{PegOutTxIdSourceNetwork, PegOutTxIdDestinationNetwork, StartTime, Superblock, SuperblockHash}
      \<subseteq> fst ` set secrets"
    using mset_eq_setD [OF secrets] by (simp add: generate_commitment_secrets_def image_Un)
  obtain k1 where k1: "keys_of_secrets public_of secrets [Superblock, SuperblockHash] = Some k1"
    "k1 Superblock \<noteq> None" "k1 SuperblockHash \<noteq> None"
    using keys_of_secrets_generated [of "[Superblock, SuperblockHash]" secrets public_of] ids by auto
  obtain k2 where k2: "keys_of_secrets public_of secrets [StartTime] = Some k2" "k2 StartTime \<noteq> None"
    using keys_of_secrets_generated [of "[StartTime]" secrets public_of] ids by auto
  obtain k6 where k6: "keys_of_secrets public_of secrets [PegOutTxIdSourceNetwork, PegOutTxIdDestinationNetwork] = Some k6"
    "k6 PegOutTxIdSourceNetwork \<noteq> None" "k6 PegOutTxIdDestinationNetwork \<noteq> None"
    using keys_of_secrets_generated [of "[PegOutTxIdSourceNetwork, PegOutTxIdDestinationNetwork]" secrets public_of] ids
    by auto
  obtain kb where kb: "keys_of_secrets public_of secrets [StartTime, SuperblockHash] = Some kb"
    "kb StartTime \<noteq> None" "kb SuperblockHash \<noteq> None"
    using keys_of_secrets_generated [of "[StartTime, SuperblockHash]" secrets public_of] ids by auto
  define e1 where "e1 = ?e1"
  define e2 where "e2 = ?e2"
  note dealt = commitment_keys_dealt_eq [OF secrets, of public_of, folded e1_def e2_def]
  have len: "length e1 = 300" "length e2 = 78" by (simp_all add: e1_def e2_def)
  have rev: "revealable (map (connector_e_new net operator) e1)" "revealable (map (connector_e_new net operator) e2)"
    for net operator
    unfolding e1_def e2_def by (rule revealable_value_keys)+
  define m where "m = merge_to_connector_c_commits_public_key e1 e2"
  have m: "set m = (\<lambda>i. (value_id i, ?f i)) ` {0..<378}" "distinct (map fst m)"
    unfolding m_def e1_def e2_def by (rule merged_keys; simp)+
  have "(value_id 0, ?f 0) \<in> set m" unfolding m(1) by (rule imageI) simp
  then have "m \<noteq> []" by auto
  then have cc: "connector_c_new (oc_network ctx) (oc_operator_taproot_key ctx) m =
      Some \<lparr>cc_network = oc_network ctx, cc_operator_key = oc_operator_taproot_key ctx, cc_keys = m\<rparr>"
    by (simp add: connector_c_new_def)
  obtain vs where "indexed_secrets m = Some vs" "length vs = 378" using indexed_values [OF m] by blast
  then have ac: "\<exists>a. connector_c_address api \<lparr>cc_network = oc_network ctx,
      cc_operator_key = oc_operator_taproot_key ctx, cc_keys = m\<rparr> = Some a"
    using api [unfolded huffman_builds_def, rule_format, of "map (snd \<circ> snd) (sort_key fst vs)"]
    by (auto simp: connector_c_address_def connector_c_spend_info_def generate_assert_leaves_def
        generate_taproot_spend_info_def)
  show ?thesis
    using k1 k2 k6 kb cc ac len rev
    by (auto simp: peg_out_connectors_new_def dealt create_new_connectors_def m_def [symmetric]
        connectors_ready_def keys_1_def keys_2_def keys_6_def keys_b_def connector_1_new_def connector_2_new_def
        connector_6_new_def connector_b_new_def)
qed

lemma peg_in_confirm_pays:
  assumes "peg_in_graph_new pol txid_of dctx deposit_input evm_address = Some peg_in"
  shows "pays (ps_tx (peg_in_confirm_tx peg_in)) =
    [addr_script_pubkey (connector_0_address (connector_0_new (dc_network dctx) (dc_n_of_n_taproot_key dctx)))]"
  by (rule peg_in_graph_new_cases [OF assms]) (simp add: peg_in_confirm_shape)

text \<open>Sample participants, for the witnesses.\<close>

definition sample_txid :: "btc_tx \<Rightarrow> tx_hash" where
  "sample_txid tx = sum_list (map tx_value (tx_output tx)) + length (tx_input tx)"

definition sample_depositor :: depositor_context where
  "sample_depositor = \<lparr>dc_network = Btc_Mainnet, dc_depositor_key = Public_Key False 11,
     dc_depositor_taproot_key = 11, dc_n_of_n_taproot_key = 12\<rparr>"

definition sample_operator :: operator_context where
  "sample_operator = \<lparr>oc_network = Btc_Mainnet, oc_operator_key = Public_Key True 13,
     oc_operator_taproot_key = 13, oc_n_of_n_taproot_key = 12\<rparr>"

definition sample_chunk_api :: chunk_api where
  "sample_chunk_api = \<lparr>full_tapscripts = (\<lambda>ks. map (\<lambda>k. [Winternitz_checksig k]) ks),
     huffman_tree = Some, hash160 = length\<rparr>"

definition sample_deposit :: tx_input_ref where
  "sample_deposit = \<lparr>in_outpoint = Outpoint 1 0, in_amount = 100000000\<rparr>"

definition sample_funding :: tx_input_ref where
  "sample_funding = \<lparr>in_outpoint = Outpoint 2 0, in_amount = 3509888\<rparr>"

definition sample_public_key :: "nat \<Rightarrow> winternitz_key" where
  "sample_public_key s = [s, s + 1]"

lemma sample_peg_in:
  "\<exists>peg_in. peg_in_graph_new core_policy txid_of sample_depositor sample_deposit ''0xab'' = Some peg_in"
  by (simp add: peg_in_graph_new_def peg_in_connectors_def peg_in_deposit_new_for_validation_def
      peg_in_refund_new_for_validation_def peg_in_confirm_new_for_validation_def generate_input_def
      connector_z_defs sample_deposit_def min_relay_fee_values)

lemma sample_huffman: "huffman_builds sample_chunk_api"
  by (simp add: huffman_builds_def sample_chunk_api_def)

lemma sample_peg_out:
  assumes "peg_in_graph_new core_policy txid_of sample_depositor sample_deposit ''0xab'' = Some peg_in"
  shows "\<exists>g. peg_out_graph_new core_policy txid_of sample_chunk_api sample_public_key sample_operator peg_in
    sample_funding (generate_commitment_secrets sample_secret) = Some g"
proof -
  obtain cs where cs: "peg_out_connectors_new sample_public_key sample_operator (generate_commitment_secrets sample_secret) = Some cs"
      "connectors_ready sample_chunk_api cs"
    using generated_connectors_ready [OF refl sample_huffman] by blast
  show ?thesis
    using peg_out_graph_built_iff [OF cs peg_in_confirm_amount [OF assms], of sample_funding]
    by (simp add: sample_deposit_def sample_funding_def max_money_def peg_out_fee_def
        min_relay_fee_assert_set_def min_relay_fee_values)
qed

text \<open>
  C25. In a peg-out graph built on a peg-in graph of the same network and verifiers' key, every input of every transaction
  but the first names an output of the transaction it is meant to follow, and the previous output it was signed for,
  amount and script, is that output; the peg-out confirmation spends what the operator funds it with. The scripts that the
  transactions hold for their inputs, those of the script path, are ones that these previous outputs commit to, and the
  sequence numbers meet their time locks.
\<close>

theorem peg_out_graph_linked:
  assumes "peg_in_graph_new pol txid_of dctx deposit_input evm_address = Some peg_in"
    and "peg_out_graph_new pol txid_of api public_of ctx peg_in confirm_input secrets = Some g"
    and "dc_network dctx = oc_network ctx" "dc_n_of_n_taproot_key dctx = oc_n_of_n_taproot_key ctx"
    and "0 < min_relay_fee_rate pol"
  shows "peg_out_links txid_of (peg_in_confirm_tx peg_in) g \<and>
    map previous_output (tx_input (ps_tx (peg_out_confirm_tx g))) = [in_outpoint confirm_input] \<and> scripts_committed g"
  using peg_out_graph_links_and_fees [OF assms(2) _ assms(5)] by (simp add: peg_in_confirm_pays [OF assms(1)] assms(3,4))

theorem peg_out_graph_linked_witness:
  "\<exists>peg_in g.
     peg_in_graph_new core_policy sample_txid sample_depositor sample_deposit ''0xab'' = Some peg_in \<and>
     peg_out_graph_new core_policy sample_txid sample_chunk_api sample_public_key sample_operator peg_in
       sample_funding (generate_commitment_secrets sample_secret) = Some g \<and>
     peg_out_links sample_txid (peg_in_confirm_tx peg_in) g \<and> scripts_committed g"
proof -
  obtain peg_in where p: "peg_in_graph_new core_policy sample_txid sample_depositor sample_deposit ''0xab'' = Some peg_in"
    using sample_peg_in by blast
  then obtain g where g: "peg_out_graph_new core_policy sample_txid sample_chunk_api sample_public_key sample_operator
      peg_in sample_funding (generate_commitment_secrets sample_secret) = Some g"
    using sample_peg_out by blast
  show ?thesis using peg_out_graph_linked [OF p g] p g
    by (auto simp: sample_depositor_def sample_operator_def)
qed

text \<open>
  C28. In a peg-out graph built on a peg-in graph of the same network and verifiers' key, every transaction except the
  challenge pays its way: the scripts it holds for its inputs are committed to by the outputs they spend, the sequence
  numbers meet their time locks, and its inputs exceed its outputs by exactly the relay fee of its kind. For the
  challenge the same holds when the crowdfunded amount, which others add, is counted with its input.
\<close>

theorem peg_out_graph_pays:
  assumes "peg_in_graph_new pol txid_of dctx deposit_input evm_address = Some peg_in"
    and "peg_out_graph_new pol txid_of api public_of ctx peg_in confirm_input secrets = Some g"
    and "dc_network dctx = oc_network ctx" "dc_n_of_n_taproot_key dctx = oc_n_of_n_taproot_key ctx"
    and "0 < min_relay_fee_rate pol"
  shows "(\<forall>(t, fee) \<in> set (peg_out_fees pol g). pays_fee t fee) \<and> challenge_pays pol (challenge_transaction g)"
  using peg_out_graph_links_and_fees(2,3) [OF assms(2) _ assms(5)] by (simp add: peg_in_confirm_pays [OF assms(1)] assms(3,4))

theorem peg_out_graph_pays_witness:
  "\<exists>peg_in g.
     peg_out_graph_new core_policy sample_txid sample_chunk_api sample_public_key sample_operator peg_in
       sample_funding (generate_commitment_secrets sample_secret) = Some g \<and>
     pays_fee (assert_initial_tx g) 48953 \<and> pays_fee (take_2_tx g) 347"
proof -
  obtain peg_in where p: "peg_in_graph_new core_policy sample_txid sample_depositor sample_deposit ''0xab'' = Some peg_in"
    using sample_peg_in by blast
  then obtain g where g: "peg_out_graph_new core_policy sample_txid sample_chunk_api sample_public_key sample_operator
      peg_in sample_funding (generate_commitment_secrets sample_secret) = Some g"
    using sample_peg_out by blast
  have "(\<forall>(t, fee) \<in> set (peg_out_fees core_policy g). pays_fee t fee) \<and> challenge_pays core_policy (challenge_transaction g)"
    by (rule peg_out_graph_pays [OF p g]) (simp_all add: sample_depositor_def sample_operator_def)
  then show ?thesis using g by (auto simp: peg_out_fees_def min_relay_fee_values)
qed

text \<open>
  C26. Given a peg-in graph that was built, the secrets the operator generates, the rates of Bitcoin Core, a Huffman builder
  that does not fail and a deposit and a funding of at most all bitcoins, the peg-out graph can be built without a panic (no
  amount under- or overflows, no output, key or leaf is missing) exactly when the input of the peg-out confirmation is worth
  \<open>PEG_OUT_FEE\<close> and four dust amounts: the outputs of kick-off 1, of kick-off 2 and of assert final carry dust that
  \<open>PEG_OUT_FEE\<close> does not count.
\<close>

theorem peg_out_graph_funded_iff:
  assumes "mset secrets = mset (generate_commitment_secrets new_secret)" "huffman_builds api"
    and "peg_in_graph_new core_policy txid_of dctx deposit_input evm_address = Some peg_in"
    and "in_amount deposit_input \<le> max_money" "in_amount confirm_input \<le> max_money"
  shows "(\<exists>g. peg_out_graph_new core_policy txid_of api public_of ctx peg_in confirm_input secrets = Some g) \<longleftrightarrow>
    peg_out_fee core_policy + 4 * dust_amount core_policy \<le> in_amount confirm_input"
proof -
  obtain cs where cs: "peg_out_connectors_new public_of ctx secrets = Some cs" "connectors_ready api cs"
    using generated_connectors_ready [OF assms(1,2)] by blast
  show ?thesis
    by (rule peg_out_graph_built_iff [OF cs peg_in_confirm_amount [OF assms(3)] _ assms(5)])
      (use assms(4) in simp)
qed

theorem peg_out_graph_funded_iff_witness:
  "\<exists>peg_in. peg_in_graph_new core_policy sample_txid sample_depositor sample_deposit ''0xab'' = Some peg_in \<and>
     \<not> (\<exists>g. peg_out_graph_new core_policy sample_txid sample_chunk_api sample_public_key sample_operator peg_in
       \<lparr>in_outpoint = Outpoint 2 0, in_amount = peg_out_fee core_policy\<rparr>
       (generate_commitment_secrets sample_secret) = Some g)"
proof -
  obtain peg_in where p: "peg_in_graph_new core_policy sample_txid sample_depositor sample_deposit ''0xab'' = Some peg_in"
    using sample_peg_in by blast
  show ?thesis
    using peg_out_graph_funded_iff [OF refl sample_huffman p, where new_secret = sample_secret
        and confirm_input = "\<lparr>in_outpoint = Outpoint 2 0, in_amount = peg_out_fee core_policy\<rparr>"
        and public_of = sample_public_key and ctx = sample_operator] p
    by (simp add: sample_deposit_def max_money_def peg_out_fee_def min_relay_fee_assert_set_def min_relay_fee_values)
qed

end
