(* ===== verification/Tx_Base.thy ===== *)
theory Tx_Base
  imports Bridge_Base Commitments
begin

text \<open>
  What the participants do with each other's copies of a transaction
  (\<open>transactions/base.rs\<close>): validate it against their own, merge the signatures they have
  collected, check a witness against the chain and check the Musig2 nonces. Reading a
  position that does not exist panics; a result is \<open>None\<close> then.
\<close>

section \<open>Errors\<close>

datatype named_tx = Named_Tx (nt_txid: tx_hash) (nt_name: string) (nt_confirmed: bool)

datatype client_error =
    No_User_Context_Defined
  | Operator_Context_Not_Defined
  | Zk_Proof_Verifying_Key_Not_Defined
  | Peg_In_Graph_Not_Found string
  | Peg_Out_Graph_Not_Found string

datatype bridge_error =
    Tx_Validation_Failed string tx_hash nat
  | Witness_Mismatch string tx_hash nat
  | Nonces_Validation_Failed string public_key tx_hash nat
  | Preceding_Tx_Not_Created string
  | Preceding_Tx_Not_Confirmed "named_tx list"
  | Preceding_Tx_Timelock_Not_Met named_tx
  | Witness_Not_Generated commitment_message_id
  | Already_Mined tx_hash
  | Peg_Out_Not_Initiated
  | Valid_Proof
  | Esplora_Error string
  | Client_Error client_error
  | Other_Error string

section \<open>Merging\<close>

text \<open>The loops that push what only the source has.\<close>

definition push_missing :: "'a list \<Rightarrow> 'a list \<Rightarrow> 'a list" where
  "push_missing destination src =
     fold (\<lambda>i acc. acc @ [src ! i]) [length destination..<length src] destination"

definition merge_witness_at :: "tx_in list \<Rightarrow> nat \<Rightarrow> tx_in list \<Rightarrow> tx_in list" where
  "merge_witness_at src i destination =
     (if length (witness (destination ! i)) < length (witness (src ! i))
      then destination[i := (destination ! i)\<lparr>witness := witness (src ! i)\<rparr>]
      else destination)"

definition merge_transactions :: "btc_tx \<Rightarrow> btc_tx \<Rightarrow> btc_tx" where
  "merge_transactions destination src =
     (let ins = push_missing (tx_input destination) (tx_input src);
          ins' = fold (merge_witness_at (tx_input src)) [0..<min (length ins) (length (tx_input src))] ins
      in destination\<lparr>tx_input := ins', tx_output := push_missing (tx_output destination) (tx_output src)\<rparr>)"

lemma fold_push: "fold (\<lambda>i acc. acc @ [f i]) is acc = acc @ map f is"
  by (induction "is" arbitrary: acc) simp_all

lemma push_missing_eq: "push_missing xs ys = xs @ drop (length xs) ys"
proof -
  have "map ((!) ys) [length xs..<length ys] = drop (length xs) ys"
    by (rule nth_equalityI) simp_all
  then show ?thesis by (simp add: push_missing_def fold_push)
qed

lemma length_push_missing [simp]: "length (push_missing xs ys) = max (length xs) (length ys)"
  by (simp add: push_missing_eq max_def)

text \<open>One input of the result.\<close>

definition longer_witness :: "tx_in \<Rightarrow> tx_in \<Rightarrow> tx_in" where
  "longer_witness d s = (if length (witness d) < length (witness s) then d\<lparr>witness := witness s\<rparr> else d)"

lemma fold_merge_witness:
  assumes "n \<le> length d"
  shows "fold (merge_witness_at s) [0..<n] d =
    map (\<lambda>i. if i < n then longer_witness (d ! i) (s ! i) else d ! i) [0..<length d]"
  using assms
proof (induction n)
  case 0
  show ?case by (simp add: map_nth)
next
  case (Suc n)
  let ?m = "map (\<lambda>i. if i < n then longer_witness (d ! i) (s ! i) else d ! i) [0..<length d]"
  have "fold (merge_witness_at s) [0..<Suc n] d = merge_witness_at s n ?m"
    using Suc by simp
  also have "\<dots> = map (\<lambda>i. if i < Suc n then longer_witness (d ! i) (s ! i) else d ! i) [0..<length d]"
    using Suc.prems
    by (cases "length (witness (d ! n)) < length (witness (s ! n))"; intro nth_equalityI)
      (auto simp: merge_witness_at_def longer_witness_def nth_list_update less_Suc_eq)
  finally show ?case .
qed

lemma merge_transactions_input:
  "tx_input (merge_transactions d s) =
     map (\<lambda>i. if i < length (tx_input s)
              then longer_witness (push_missing (tx_input d) (tx_input s) ! i) (tx_input s ! i)
              else push_missing (tx_input d) (tx_input s) ! i)
       [0..<max (length (tx_input d)) (length (tx_input s))]"
  by (simp add: merge_transactions_def Let_def fold_merge_witness)

lemma longer_witness_self [simp]: "longer_witness x x = x"
  by (simp add: longer_witness_def)

lemma merge_transactions_nth:
  assumes "i < max (length (tx_input d)) (length (tx_input s))"
  shows "tx_input (merge_transactions d s) ! i =
    (if length (tx_input d) \<le> i then tx_input s ! i
     else if i < length (tx_input s) then longer_witness (tx_input d ! i) (tx_input s ! i)
     else tx_input d ! i)"
  using assms by (auto simp: merge_transactions_input push_missing_eq nth_append)

lemma length_merge_transactions [simp]:
  "length (tx_input (merge_transactions d s)) = max (length (tx_input d)) (length (tx_input s))"
  by (simp add: merge_transactions_input)

lemma merge_transactions_rest [simp]:
  "tx_version (merge_transactions d s) = tx_version d"
  "tx_lock_time (merge_transactions d s) = tx_lock_time d"
  "tx_output (merge_transactions d s) = push_missing (tx_output d) (tx_output s)"
  by (simp_all add: merge_transactions_def Let_def)

text \<open>Copies of one transaction: equal up to their witnesses.\<close>

definition unsigned_in :: "tx_in \<Rightarrow> tx_in" where
  "unsigned_in i = i\<lparr>witness := []\<rparr>"

definition unsigned :: "btc_tx \<Rightarrow> btc_tx" where
  "unsigned t = t\<lparr>tx_input := map unsigned_in (tx_input t)\<rparr>"

lemma unsigned_in_eqI: "unsigned_in a = unsigned_in b \<Longrightarrow> witness a = witness b \<Longrightarrow> a = b"
  by (cases a; cases b) (simp add: unsigned_in_def)

lemma longer_witness_unsigned [simp]: "unsigned_in (longer_witness a b) = unsigned_in a"
  by (simp add: longer_witness_def unsigned_in_def)

lemma longer_witness_of:
  "witness (longer_witness a b) = (if length (witness a) < length (witness b) then witness b else witness a)"
  by (simp add: longer_witness_def)

lemma unsigned_eqD:
  assumes "unsigned a = unsigned b"
  shows "length (tx_input a) = length (tx_input b)" "tx_output a = tx_output b"
    "tx_version a = tx_version b" "tx_lock_time a = tx_lock_time b"
    "i < length (tx_input a) \<Longrightarrow> unsigned_in (tx_input a ! i) = unsigned_in (tx_input b ! i)"
proof -
  have ins: "map unsigned_in (tx_input a) = map unsigned_in (tx_input b)"
    and rest: "tx_output a = tx_output b" "tx_version a = tx_version b" "tx_lock_time a = tx_lock_time b"
    using assms by (cases a; cases b; simp add: unsigned_def)+
  show len: "length (tx_input a) = length (tx_input b)" using ins by (rule map_eq_imp_length_eq)
  show "tx_output a = tx_output b" "tx_version a = tx_version b" "tx_lock_time a = tx_lock_time b"
    by (rule rest)+
  show "i < length (tx_input a) \<Longrightarrow> unsigned_in (tx_input a ! i) = unsigned_in (tx_input b ! i)"
    using arg_cong [OF ins, of "\<lambda>l. l ! i"] len by simp
qed

lemma btc_tx_eqI:
  assumes "tx_version a = tx_version b" "tx_lock_time a = tx_lock_time b"
    "tx_output a = tx_output b" "tx_input a = tx_input b"
  shows "a = (b :: btc_tx)"
  using assms by simp

text \<open>
  Merging copies of one transaction keeps the transaction and gathers the longest
  witness of each input; where witnesses of equal length agree, the order in which the
  participants exchange their copies does not matter, and a repeated merge changes nothing.
\<close>

theorem merge_transactions_gathers:
  assumes "unsigned a = unsigned b"
    and "\<And>i. i < length (tx_input a) \<Longrightarrow> length (witness (tx_input a ! i)) = length (witness (tx_input b ! i)) \<Longrightarrow>
      witness (tx_input a ! i) = witness (tx_input b ! i)"
  shows "unsigned (merge_transactions a b) = unsigned a \<and>
    merge_transactions a b = merge_transactions b a \<and>
    merge_transactions (merge_transactions a b) b = merge_transactions a b \<and>
    (\<forall>i < length (tx_input a). length (witness (tx_input (merge_transactions a b) ! i)) =
       max (length (witness (tx_input a ! i))) (length (witness (tx_input b ! i))))"
proof (intro conjI allI impI)
  note eq = unsigned_eqD [OF assms(1)]
  note len = eq(1)
  have out: "push_missing (tx_output a) (tx_output b) = tx_output a" by (simp add: push_missing_eq eq(2))
  have nth: "tx_input (merge_transactions a b) ! i = longer_witness (tx_input a ! i) (tx_input b ! i)"
    "tx_input (merge_transactions b a) ! i = longer_witness (tx_input b ! i) (tx_input a ! i)"
    if "i < length (tx_input a)" for i
    using that len by (simp_all add: merge_transactions_nth)
  show "unsigned (merge_transactions a b) = unsigned a"
  proof (rule btc_tx_eqI)
    show "tx_input (unsigned (merge_transactions a b)) = tx_input (unsigned a)"
      using len nth(1) by (intro nth_equalityI) (simp_all add: unsigned_def)
  qed (simp_all add: unsigned_def out)
  show "merge_transactions a b = merge_transactions b a"
  proof (rule btc_tx_eqI)
    have "longer_witness (tx_input a ! i) (tx_input b ! i) = longer_witness (tx_input b ! i) (tx_input a ! i)"
      if "i < length (tx_input a)" for i
    proof (rule unsigned_in_eqI)
      show "unsigned_in (longer_witness (tx_input a ! i) (tx_input b ! i)) =
          unsigned_in (longer_witness (tx_input b ! i) (tx_input a ! i))"
        using eq(5) [OF that] by simp
      show "witness (longer_witness (tx_input a ! i) (tx_input b ! i)) =
          witness (longer_witness (tx_input b ! i) (tx_input a ! i))"
        using assms(2) [OF that]
        by (cases "length (witness (tx_input a ! i))" "length (witness (tx_input b ! i))" rule: linorder_cases)
          (simp_all add: longer_witness_of)
    qed
    then show "tx_input (merge_transactions a b) = tx_input (merge_transactions b a)"
      using len nth by (intro nth_equalityI) simp_all
  qed (simp_all add: push_missing_eq eq(2,3,4))
  show "merge_transactions (merge_transactions a b) b = merge_transactions a b"
  proof (rule btc_tx_eqI)
    show "tx_input (merge_transactions (merge_transactions a b) b) = tx_input (merge_transactions a b)"
    proof (rule nth_equalityI)
      fix i assume "i < length (tx_input (merge_transactions (merge_transactions a b) b))"
      then have i: "i < length (tx_input a)" using len by simp
      show "tx_input (merge_transactions (merge_transactions a b) b) ! i = tx_input (merge_transactions a b) ! i"
        using i len nth(1) [OF i] by (simp add: merge_transactions_nth longer_witness_def)
    qed (use len in simp)
  qed (simp_all add: push_missing_eq eq(2))
  show "length (witness (tx_input (merge_transactions a b) ! i)) =
      max (length (witness (tx_input a ! i))) (length (witness (tx_input b ! i)))"
    if "i < length (tx_input a)" for i
    using nth(1) [OF that] by (simp add: longer_witness_of)
qed

definition sample_signed :: "nat list list \<Rightarrow> nat list list \<Rightarrow> btc_tx" where
  "sample_signed w1 w2 =
     \<lparr>tx_version = 2, tx_lock_time = 0,
      tx_input =
        [\<lparr>previous_output = Outpoint 7 0, script_sig = [], tx_sequence = 0xFFFFFFFF, witness = w1\<rparr>,
         \<lparr>previous_output = Outpoint 7 1, script_sig = [], tx_sequence = 6, witness = w2\<rparr>],
      tx_output = [\<lparr>tx_value = 500, tx_script_pubkey = Empty_Script\<rparr>]\<rparr>"

theorem merge_transactions_gathers_witness:
  "unsigned (merge_transactions (sample_signed [[1]] []) (sample_signed [] [[2], [3]])) =
     unsigned (sample_signed [[1]] []) \<and>
   merge_transactions (sample_signed [[1]] []) (sample_signed [] [[2], [3]]) =
     merge_transactions (sample_signed [] [[2], [3]]) (sample_signed [[1]] [])"
proof -
  have eq: "unsigned (sample_signed [[1]] []) = unsigned (sample_signed [] [[2], [3]])"
    by (simp add: sample_signed_def unsigned_def unsigned_in_def)
  have agree: "witness (tx_input (sample_signed [[1]] []) ! i) = witness (tx_input (sample_signed [] [[2], [3]]) ! i)"
    if "i < length (tx_input (sample_signed [[1]] []))"
      "length (witness (tx_input (sample_signed [[1]] []) ! i)) =
        length (witness (tx_input (sample_signed [] [[2], [3]]) ! i))" for i
    using that by (auto simp: sample_signed_def less_Suc_eq numeral_2_eq_2)
  show ?thesis using merge_transactions_gathers [OF eq agree] by blast
qed

definition merge_hash_maps ::
  "(nat \<Rightarrow> (public_key \<Rightarrow> 'v option) option) \<Rightarrow> (nat \<Rightarrow> (public_key \<Rightarrow> 'v option) option) \<Rightarrow>
     (nat \<Rightarrow> (public_key \<Rightarrow> 'v option) option)" where
  "merge_hash_maps a b = (\<lambda>key.
     if a key = None \<and> b key = None then None
     else Some ((case a key of None \<Rightarrow> Map.empty | Some q \<Rightarrow> q) ++
                (case b key of None \<Rightarrow> Map.empty | Some w \<Rightarrow> w)))"

text \<open>The nonces, nonce signatures and partial signatures of a pre-signed transaction.\<close>

record 'v musig2_state =
  musig2_nonces :: "nat \<Rightarrow> (public_key \<Rightarrow> 'v option) option"
  musig2_nonce_signatures :: "nat \<Rightarrow> (public_key \<Rightarrow> 'v option) option"
  musig2_signatures :: "nat \<Rightarrow> (public_key \<Rightarrow> 'v option) option"

definition merge_musig2_nonces_and_signatures ::
  "'v musig2_state \<Rightarrow> 'v musig2_state \<Rightarrow> 'v musig2_state" where
  "merge_musig2_nonces_and_signatures destination src =
     \<lparr>musig2_nonces = merge_hash_maps (musig2_nonces destination) (musig2_nonces src),
      musig2_nonce_signatures =
        merge_hash_maps (musig2_nonce_signatures destination) (musig2_nonce_signatures src),
      musig2_signatures = merge_hash_maps (musig2_signatures destination) (musig2_signatures src)\<rparr>"

definition entry :: "(nat \<Rightarrow> (public_key \<Rightarrow> 'v option) option) \<Rightarrow> nat \<Rightarrow> public_key \<Rightarrow> 'v option" where
  "entry m i k = (case m i of None \<Rightarrow> None | Some q \<Rightarrow> q k)"

lemma entry_merge_hash_maps:
  "entry (merge_hash_maps a b) i k = (case entry b i k of None \<Rightarrow> entry a i k | Some v \<Rightarrow> Some v)"
  by (auto simp: entry_def merge_hash_maps_def map_add_def split: option.splits)

lemma entry_merge_assoc:
  "entry (merge_hash_maps (merge_hash_maps a b) c) i k = entry (merge_hash_maps a (merge_hash_maps b c)) i k"
  by (simp add: entry_merge_hash_maps split: option.splits)

section \<open>Validation\<close>

definition same_in :: "tx_in \<Rightarrow> tx_in \<Rightarrow> bool" where
  "same_in a b \<longleftrightarrow> \<not> (previous_output a \<noteq> previous_output b \<or> script_sig a \<noteq> script_sig b \<or>
     tx_sequence a \<noteq> tx_sequence b)"

definition same_out :: "tx_out \<Rightarrow> tx_out \<Rightarrow> bool" where
  "same_out a b \<longleftrightarrow> \<not> (tx_value a \<noteq> tx_value b \<or> tx_script_pubkey a \<noteq> tx_script_pubkey b)"

text \<open>A loop over the positions of the comparison list; \<open>None\<close> is a position out of range.\<close>

fun compare_from :: "('a \<Rightarrow> 'a \<Rightarrow> bool) \<Rightarrow> (nat \<Rightarrow> 'e) \<Rightarrow> 'a list \<Rightarrow> nat \<Rightarrow> 'a list \<Rightarrow> ('e + unit) option" where
  "compare_from same err xs i [] = Some (Inr ())"
| "compare_from same err xs i (c # cs) =
     (if i < length xs
      then if same (xs ! i) c then compare_from same err xs (Suc i) cs else Some (Inl (err i))
      else None)"

definition validate_transaction ::
  "(btc_tx \<Rightarrow> tx_hash) \<Rightarrow> btc_tx \<Rightarrow> btc_tx \<Rightarrow> string \<Rightarrow> (bridge_error + unit) option" where
  "validate_transaction txid_of tx comparison tx_name =
     do {
       r \<leftarrow> compare_from same_in (Tx_Validation_Failed tx_name (txid_of tx)) (tx_input tx) 0 (tx_input comparison);
       case r of
         Inl e \<Rightarrow> Some (Inl e)
       | Inr _ \<Rightarrow>
           compare_from same_out (Tx_Validation_Failed tx_name (txid_of tx)) (tx_output tx) 0 (tx_output comparison)
     }"

lemma compare_from_ok:
  "compare_from same err xs i cs = Some (Inr ()) \<longleftrightarrow>
     i + length cs \<le> max i (length xs) \<and> (\<forall>j < length cs. same (xs ! (i + j)) (cs ! j))"
proof (induction cs arbitrary: i)
  case (Cons c cs)
  have "(\<forall>j < length (c # cs). same (xs ! (i + j)) ((c # cs) ! j)) \<longleftrightarrow>
      same (xs ! i) c \<and> (\<forall>j < length cs. same (xs ! (Suc i + j)) (cs ! j))"
    by (auto simp: nth_Cons split: nat.splits)
  then show ?case using Cons.IH [of "Suc i"] by (auto simp: max_def)
qed (simp add: max_def)

text \<open>A participant's own copy is a prefix, up to witnesses, of what passes.\<close>

lemma validate_transaction_ok:
  "validate_transaction txid_of tx comparison tx_name = Some (Inr ()) \<longleftrightarrow>
     (\<exists>extra. map unsigned_in (tx_input tx) = map unsigned_in (tx_input comparison) @ extra) \<and>
     (\<exists>extra. tx_output tx = tx_output comparison @ extra)"
proof -
  have i: "same_in a b \<longleftrightarrow> unsigned_in a = unsigned_in b" for a b
    by (cases a; cases b) (auto simp: same_in_def unsigned_in_def)
  have o: "same_out a b \<longleftrightarrow> a = b" for a b
    by (cases a; cases b) (auto simp: same_out_def)
  have p: "(\<exists>extra. xs = ys @ extra) \<longleftrightarrow> length ys \<le> length xs \<and> (\<forall>j < length ys. xs ! j = ys ! j)"
    for xs ys :: "'x list"
    by (auto simp: nth_append intro!: exI [of _ "drop (length ys) xs"] nth_equalityI)
  have "validate_transaction txid_of tx comparison tx_name = Some (Inr ()) \<longleftrightarrow>
      compare_from same_in (Tx_Validation_Failed tx_name (txid_of tx)) (tx_input tx) 0 (tx_input comparison) = Some (Inr ()) \<and>
      compare_from same_out (Tx_Validation_Failed tx_name (txid_of tx)) (tx_output tx) 0 (tx_output comparison) = Some (Inr ())"
  proof (cases "compare_from same_in (Tx_Validation_Failed tx_name (txid_of tx)) (tx_input tx) 0 (tx_input comparison)")
    case (Some res)
    then show ?thesis by (cases res) (simp_all add: validate_transaction_def)
  qed (simp add: validate_transaction_def)
  then show ?thesis by (auto simp: compare_from_ok i o p)
qed

text \<open>
  A transaction passes against the participant's own copy exactly when it begins with
  the same inputs (outpoint, script and sequence) and the same outputs: inputs and outputs
  beyond those of the copy, the version and the lock time are not looked at.
\<close>

theorem validate_transaction_accepts_iff:
  "validate_transaction txid_of tx comparison tx_name = Some (Inr ()) \<longleftrightarrow>
     length (tx_input comparison) \<le> length (tx_input tx) \<and>
     length (tx_output comparison) \<le> length (tx_output tx) \<and>
     map unsigned_in (take (length (tx_input comparison)) (tx_input tx)) = map unsigned_in (tx_input comparison) \<and>
     take (length (tx_output comparison)) (tx_output tx) = tx_output comparison"
proof -
  have p: "(\<exists>extra. xs = ys @ extra) \<longleftrightarrow> length ys \<le> length xs \<and> take (length ys) xs = ys" for xs ys :: "'x list"
    by (metis append_eq_conv_conj append_take_drop_id le_add1 length_append)
  show ?thesis unfolding validate_transaction_ok p by (auto simp: take_map)
qed

section \<open>Witnesses on the chain\<close>

fun witnesses_agree :: "string \<Rightarrow> tx_hash \<Rightarrow> tx_in list \<Rightarrow> nat \<Rightarrow> tx_in list \<Rightarrow> (bridge_error + unit) option" where
  "witnesses_agree tx_name txid onchain i [] = Some (Inr ())"
| "witnesses_agree tx_name txid onchain i (t # ts) =
     (if witness t \<noteq> []
      then if i < length onchain
           then if witness t \<noteq> witness (onchain ! i) then Some (Inl (Witness_Mismatch tx_name txid i))
                else witnesses_agree tx_name txid onchain (Suc i) ts
           else None
      else witnesses_agree tx_name txid onchain (Suc i) ts)"

definition validate_witness ::
  "(btc_tx \<Rightarrow> tx_hash) \<Rightarrow> btc_tx \<Rightarrow> string \<Rightarrow> string + bool \<Rightarrow> string + btc_tx option \<Rightarrow>
     (bridge_error + unit) option" where
  "validate_witness txid_of tx tx_name tx_status_res onchain_tx_res =
     (case tx_status_res of
        Inl e \<Rightarrow> Some (Inl (Esplora_Error e))
      | Inr confirmed \<Rightarrow>
          if confirmed
          then case onchain_tx_res of
                 Inl e \<Rightarrow> Some (Inl (Esplora_Error e))
               | Inr None \<Rightarrow> Some (Inl (Other_Error ''Esplora failed to retrieve a confirmed tx''))
               | Inr (Some onchain) \<Rightarrow>
                   witnesses_agree tx_name (txid_of tx) (tx_input onchain) 0 (tx_input tx)
          else Some (Inr ()))"

lemma witnesses_agree_ok:
  "witnesses_agree n txid onchain i ts = Some (Inr ()) \<longleftrightarrow>
     (\<forall>j < length ts. witness (ts ! j) \<noteq> [] \<longrightarrow>
        i + j < length onchain \<and> witness (onchain ! (i + j)) = witness (ts ! j))"
proof (induction ts arbitrary: i)
  case (Cons t ts)
  have "(\<forall>j < length (t # ts). witness ((t # ts) ! j) \<noteq> [] \<longrightarrow>
        i + j < length onchain \<and> witness (onchain ! (i + j)) = witness ((t # ts) ! j)) \<longleftrightarrow>
      (witness t \<noteq> [] \<longrightarrow> i < length onchain \<and> witness (onchain ! i) = witness t) \<and>
      (\<forall>j < length ts. witness (ts ! j) \<noteq> [] \<longrightarrow>
        Suc i + j < length onchain \<and> witness (onchain ! (Suc i + j)) = witness (ts ! j))"
    by (simp only: list.size(4) add_0_right Nat.add_Suc_right All_less_Suc2 nth_Cons_0 nth_Cons_Suc
        One_nat_def add.commute [of i] Nat.add_Suc plus_nat.add_0)
  then show ?case using Cons.IH [of "Suc i"] by auto
qed simp

lemma validate_witness_ok:
  "validate_witness txid_of tx tx_name tx_status_res onchain_tx_res = Some (Inr ()) \<longleftrightarrow>
     (\<exists>confirmed. tx_status_res = Inr confirmed \<and>
        (confirmed \<longrightarrow> (\<exists>onchain. onchain_tx_res = Inr (Some onchain) \<and>
          (\<forall>i < length (tx_input tx). witness (tx_input tx ! i) \<noteq> [] \<longrightarrow>
            i < length (tx_input onchain) \<and> witness (tx_input onchain ! i) = witness (tx_input tx ! i)))))"
  by (auto simp: validate_witness_def witnesses_agree_ok split: sum.splits option.splits)

text \<open>
  A confirmed transaction passes exactly when every witness the participant holds is
  the one on the chain.
\<close>

theorem validate_witness_confirmed_iff:
  assumes "tx_status_res = Inr True"
  shows "validate_witness txid_of tx tx_name tx_status_res onchain_tx_res = Some (Inr ()) \<longleftrightarrow>
    (\<exists>onchain. onchain_tx_res = Inr (Some onchain) \<and>
      (\<forall>i < length (tx_input tx). witness (tx_input tx ! i) \<noteq> [] \<longrightarrow>
        i < length (tx_input onchain) \<and> witness (tx_input onchain ! i) = witness (tx_input tx ! i)))"
  using assms by (auto simp: validate_witness_ok)

theorem validate_witness_confirmed_iff_witness:
  "validate_witness (\<lambda>_. 9) (sample_signed [] [[2]]) ''TakeOne'' (Inr True) (Inr (Some (sample_signed [[1]] [[2]]))) =
     Some (Inr ()) \<and>
   validate_witness (\<lambda>_. 9) (sample_signed [] [[2]]) ''TakeOne'' (Inr True) (Inr (Some (sample_signed [[1]] [[3]]))) \<noteq>
     Some (Inr ())"
  unfolding validate_witness_confirmed_iff [OF refl]
  by (simp add: sample_signed_def numeral_2_eq_2 All_less_Suc)

section \<open>Musig2 nonces\<close>

text \<open>
  The nonces are iterated as hash maps, the lists of their entries; the signatures are looked
  up, and a missing one panics. The signature check of the \<open>musig2\<close> crate is an argument.
\<close>

definition verify_nonce ::
  "('s \<Rightarrow> 'n \<Rightarrow> xonly_key \<Rightarrow> bool) \<Rightarrow> (nat \<Rightarrow> (public_key \<Rightarrow> 's option) option) \<Rightarrow> tx_hash \<Rightarrow> string \<Rightarrow>
     nat \<Rightarrow> public_key \<times> 'n \<Rightarrow> (bridge_error + unit) option" where
  "verify_nonce verify_public_nonce all_sigs txid tx_name i pn =
     (case pn of (pubkey, nonce) \<Rightarrow>
        do {
          sigs \<leftarrow> all_sigs i;
          sig \<leftarrow> sigs pubkey;
          Some (if verify_public_nonce sig nonce (xonly_of pubkey) then Inr ()
                else Inl (Nonces_Validation_Failed tx_name pubkey txid i))
        })"

fun first_error :: "('x \<Rightarrow> ('e + unit) option) \<Rightarrow> 'x list \<Rightarrow> ('e + unit) option" where
  "first_error f [] = Some (Inr ())"
| "first_error f (x # xs) =
     (case f x of
        None \<Rightarrow> None
      | Some (Inl e) \<Rightarrow> Some (Inl e)
      | Some (Inr _) \<Rightarrow> first_error f xs)"

definition verify_public_nonces ::
  "('s \<Rightarrow> 'n \<Rightarrow> xonly_key \<Rightarrow> bool) \<Rightarrow> (nat \<times> (public_key \<times> 'n) list) list \<Rightarrow>
     (nat \<Rightarrow> (public_key \<Rightarrow> 's option) option) \<Rightarrow> tx_hash \<Rightarrow> string \<Rightarrow> (bridge_error + unit) option" where
  "verify_public_nonces verify_public_nonce all_nonces all_sigs txid tx_name =
     first_error (\<lambda>(i, nonces). first_error (verify_nonce verify_public_nonce all_sigs txid tx_name i) nonces)
       all_nonces"

lemma first_error_ok: "first_error f xs = Some (Inr ()) \<longleftrightarrow> (\<forall>x \<in> set xs. f x = Some (Inr ()))"
  by (induction xs) (auto split: option.splits sum.splits)

text \<open>
  The nonces of a transaction pass exactly when every one of them has a signature by
  its own key.
\<close>

theorem verify_public_nonces_ok_iff:
  "verify_public_nonces verify_public_nonce all_nonces all_sigs txid tx_name = Some (Inr ()) \<longleftrightarrow>
     (\<forall>(i, nonces) \<in> set all_nonces. \<forall>(pubkey, nonce) \<in> set nonces.
        \<exists>sig. entry all_sigs i pubkey = Some sig \<and> verify_public_nonce sig nonce (xonly_of pubkey))"
  by (fastforce simp: verify_public_nonces_def first_error_ok verify_nonce_def entry_def
      bind_eq_Some_conv split: option.splits if_splits)

theorem verify_public_nonces_ok_iff_witness:
  "verify_public_nonces (\<lambda>sig nonce key. sig = nonce + key) [(0, [(Public_Key True 5, 2 :: nat)])]
     (\<lambda>i. if i = 0 then Some (\<lambda>k. Some (7 :: nat)) else None) 9 ''TakeOne'' = Some (Inr ()) \<and>
   verify_public_nonces (\<lambda>sig nonce key. sig = nonce + key) [(0, [(Public_Key True 5, 3 :: nat)])]
     (\<lambda>i. if i = 0 then Some (\<lambda>k. Some (7 :: nat)) else None) 9 ''TakeOne'' \<noteq> Some (Inr ())"
  unfolding verify_public_nonces_ok_iff by (simp add: entry_def xonly_of_def)

end
