(* ===== verification/Signing.thy ===== *)
theory Signing
  imports Tx_Base Bridge_Transactions
begin

text \<open>
  Filling in witnesses (\<open>transactions/signing.rs\<close>, \<open>pre_signed.rs\<close>, \<open>pre_signed_musig2.rs\<close>). The
  signature schemes and the serialization of scripts are the arguments in \<open>crypto\<close>: what the
  crates \<open>secp256k1\<close>, \<open>musig2\<close> and \<open>bitcoin\<close> compute, with \<open>None\<close> where the code unwraps an
  error of theirs. What is modelled is the order in which elements are pushed on which witness,
  the checks around it, and the maps of nonces and partial signatures.

  Signing a transaction changes nothing but witnesses: every function here keeps the unsigned
  transaction, and with it the transaction id.
\<close>

section \<open>Arguments\<close>

datatype sighash_type =
    Sig_All | Sig_None | Sig_Single | Sig_All_Anyone | Sig_None_Anyone | Sig_Single_Anyone

fun anyone_can_pay :: "sighash_type \<Rightarrow> bool" where
  "anyone_can_pay Sig_All_Anyone = True"
| "anyone_can_pay Sig_None_Anyone = True"
| "anyone_can_pay Sig_Single_Anyone = True"
| "anyone_can_pay _ = False"

record ('k, 's) crypto =
  ecdsa_sig :: "'k \<Rightarrow> btc_tx \<Rightarrow> nat \<Rightarrow> sighash_type \<Rightarrow> bridge_script \<Rightarrow> nat \<Rightarrow> nat list option"
  leaf_sig :: "'k \<Rightarrow> btc_tx \<Rightarrow> nat \<Rightarrow> tx_out list \<Rightarrow> sighash_type \<Rightarrow> bridge_script \<Rightarrow> nat list option"
  key_spend_sig :: "'k \<Rightarrow> btc_tx \<Rightarrow> nat \<Rightarrow> tx_out list \<Rightarrow> sighash_type \<Rightarrow> spend_info \<Rightarrow> nat list option"
  script_bytes :: "bridge_script \<Rightarrow> nat list"
  control_block :: "spend_info \<Rightarrow> bridge_script \<Rightarrow> nat list"
  winternitz_witness :: "'s \<Rightarrow> nat list \<Rightarrow> nat list list"
  partial_sig :: "'k \<Rightarrow> public_key list \<Rightarrow> btc_tx \<Rightarrow> nat list \<Rightarrow> (public_key \<Rightarrow> nat list option) \<Rightarrow> nat \<Rightarrow>
    tx_out list \<Rightarrow> bridge_script \<Rightarrow> sighash_type \<Rightarrow> nat list option"
  aggregated_sig :: "public_key list \<Rightarrow> btc_tx \<Rightarrow> (public_key \<Rightarrow> nat list option) \<Rightarrow> nat \<Rightarrow> tx_out list \<Rightarrow>
    bridge_script \<Rightarrow> sighash_type \<Rightarrow> (public_key \<Rightarrow> nat list option) \<Rightarrow> nat list option"
  public_nonce :: "nat list \<Rightarrow> nat list"
  sign_nonce :: "'k \<Rightarrow> nat list \<Rightarrow> nat list"

section \<open>Reading and pushing at an index\<close>

text \<open>An index out of range panics.\<close>

definition index_of :: "'a list \<Rightarrow> nat \<Rightarrow> 'a option" where
  "index_of xs i = (if i < length xs then Some (xs ! i) else None)"

definition push_witness :: "nat \<Rightarrow> btc_tx \<Rightarrow> nat list \<Rightarrow> btc_tx option" where
  "push_witness i tx element =
     do {
       input \<leftarrow> index_of (tx_input tx) i;
       Some (tx\<lparr>tx_input := (tx_input tx)[i := input\<lparr>witness := witness input @ [element]\<rparr>]\<rparr>)
     }"

section \<open>Witnesses of scripts\<close>

definition generate_p2wsh_schnorr_signature ::
  "('k, 's) crypto \<Rightarrow> btc_tx \<Rightarrow> nat \<Rightarrow> sighash_type \<Rightarrow> bridge_script \<Rightarrow> nat \<Rightarrow> 'k \<Rightarrow> nat list option" where
  "generate_p2wsh_schnorr_signature cr tx i ty script value keypair = ecdsa_sig cr keypair tx i ty script value"

definition push_p2wsh_signature_to_witness ::
  "('k, 's) crypto \<Rightarrow> nat \<Rightarrow> sighash_type \<Rightarrow> bridge_script \<Rightarrow> nat \<Rightarrow> btc_tx \<Rightarrow> 'k \<Rightarrow> btc_tx option" where
  "push_p2wsh_signature_to_witness cr i ty script value tx keypair =
     do {
       s \<leftarrow> generate_p2wsh_schnorr_signature cr tx i ty script value keypair;
       push_witness i tx s
     }"

definition populate_p2wsh_witness ::
  "('k, 's) crypto \<Rightarrow> btc_tx \<Rightarrow> nat \<Rightarrow> sighash_type \<Rightarrow> bridge_script \<Rightarrow> nat \<Rightarrow> 'k list \<Rightarrow> btc_tx option" where
  "populate_p2wsh_witness cr tx i ty script value keypairs =
     do {
       tx' \<leftarrow> fold_option (push_p2wsh_signature_to_witness cr i ty script value) tx keypairs;
       push_witness i tx' (script_bytes cr script)
     }"

text \<open>The previous outputs that the signature hash covers.\<close>

definition sighash_prevouts :: "sighash_type \<Rightarrow> tx_out list \<Rightarrow> nat \<Rightarrow> tx_out list option" where
  "sighash_prevouts ty prev_outs i =
     (if anyone_can_pay ty then do { o1 \<leftarrow> index_of prev_outs i; Some [o1] } else Some prev_outs)"

definition generate_taproot_leaf_schnorr_signature ::
  "('k, 's) crypto \<Rightarrow> btc_tx \<Rightarrow> tx_out list \<Rightarrow> nat \<Rightarrow> sighash_type \<Rightarrow> bridge_script \<Rightarrow> 'k \<Rightarrow> nat list option" where
  "generate_taproot_leaf_schnorr_signature cr tx prev_outs i ty script keypair =
     do {
       prevs \<leftarrow> sighash_prevouts ty prev_outs i;
       leaf_sig cr keypair tx i prevs ty script
     }"

text \<open>A single zero byte is pushed in its minimal encoding, the empty element.\<close>

definition minimal_element :: "nat list \<Rightarrow> nat list" where
  "minimal_element element = (if element = [0] then [] else element)"

definition push_taproot_leaf_unlock_data_to_witness :: "btc_tx \<Rightarrow> nat \<Rightarrow> nat list list \<Rightarrow> btc_tx option" where
  "push_taproot_leaf_unlock_data_to_witness tx i unlock_data =
     fold_option (push_witness i) tx (map minimal_element unlock_data)"

definition push_taproot_leaf_script_and_control_block_to_witness ::
  "('k, 's) crypto \<Rightarrow> btc_tx \<Rightarrow> nat \<Rightarrow> spend_info \<Rightarrow> bridge_script \<Rightarrow> btc_tx option" where
  "push_taproot_leaf_script_and_control_block_to_witness cr tx i si script =
     do {
       _ \<leftarrow> rust_assert (script \<in> snd ` set (tap_leaves si));
       tx1 \<leftarrow> push_witness i tx (script_bytes cr script);
       push_witness i tx1 (control_block cr si script)
     }"

definition push_taproot_leaf_script_and_cached_control_block_to_witness ::
  "('k, 's) crypto \<Rightarrow> btc_tx \<Rightarrow> nat \<Rightarrow> nat list \<Rightarrow> bridge_script \<Rightarrow> btc_tx option" where
  "push_taproot_leaf_script_and_cached_control_block_to_witness cr tx i cached script =
     do {
       tx1 \<leftarrow> push_witness i tx (script_bytes cr script);
       push_witness i tx1 cached
     }"

definition populate_taproot_input_witness ::
  "('k, 's) crypto \<Rightarrow> btc_tx \<Rightarrow> nat \<Rightarrow> spend_info \<Rightarrow> bridge_script \<Rightarrow> nat list list \<Rightarrow> btc_tx option" where
  "populate_taproot_input_witness cr tx i si script unlock_data =
     do {
       tx1 \<leftarrow> push_taproot_leaf_unlock_data_to_witness tx i unlock_data;
       push_taproot_leaf_script_and_control_block_to_witness cr tx1 i si script
     }"

definition populate_taproot_input_witness_default ::
  "('k, 's) crypto \<Rightarrow> btc_tx \<Rightarrow> tx_out list \<Rightarrow> nat \<Rightarrow> sighash_type \<Rightarrow> spend_info \<Rightarrow> bridge_script \<Rightarrow> 'k list \<Rightarrow>
     btc_tx option" where
  "populate_taproot_input_witness_default cr tx prevouts i ty si script keypairs =
     do {
       unlock_data \<leftarrow> fold_option (\<lambda>acc k. do {
           s \<leftarrow> generate_taproot_leaf_schnorr_signature cr tx prevouts i ty script k;
           Some (acc @ [s]) }) [] keypairs;
       tx1 \<leftarrow> push_taproot_leaf_unlock_data_to_witness tx i unlock_data;
       push_taproot_leaf_script_and_control_block_to_witness cr tx1 i si script
     }"

definition populate_taproot_input_witness_with_signature ::
  "('k, 's) crypto \<Rightarrow> btc_tx \<Rightarrow> nat \<Rightarrow> spend_info \<Rightarrow> bridge_script \<Rightarrow> nat list list \<Rightarrow> btc_tx option" where
  "populate_taproot_input_witness_with_signature cr tx i si script signatures =
     populate_taproot_input_witness cr tx i si script signatures"

definition populate_p2tr_key_spend_witness ::
  "('k, 's) crypto \<Rightarrow> btc_tx \<Rightarrow> nat \<Rightarrow> tx_out list \<Rightarrow> sighash_type \<Rightarrow> spend_info \<Rightarrow> 'k \<Rightarrow> btc_tx option" where
  "populate_p2tr_key_spend_witness cr tx i prev_outs ty si keypair =
     do {
       prevs \<leftarrow> sighash_prevouts ty prev_outs i;
       s \<leftarrow> key_spend_sig cr keypair tx i prevs ty si;
       push_witness i tx s
     }"

section \<open>Pre-signed transactions\<close>

text \<open>A change of the transaction of a pre-signed one.\<close>

definition pre_sign_p2wsh_input ::
  "('k, 's) crypto \<Rightarrow> 'a pre_signed_scheme \<Rightarrow> nat \<Rightarrow> sighash_type \<Rightarrow> 'k list \<Rightarrow> 'a pre_signed_scheme option" where
  "pre_sign_p2wsh_input cr t i ty keypairs =
     do {
       script \<leftarrow> index_of (ps_prev_scripts t) i;
       out \<leftarrow> index_of (ps_prev_outs t) i;
       tx \<leftarrow> populate_p2wsh_witness cr (ps_tx t) i ty script (tx_value out) keypairs;
       Some (t\<lparr>ps_tx := tx\<rparr>)
     }"

definition pre_sign_taproot_input_default ::
  "('k, 's) crypto \<Rightarrow> 'a pre_signed_scheme \<Rightarrow> nat \<Rightarrow> sighash_type \<Rightarrow> spend_info \<Rightarrow> 'k list \<Rightarrow>
     'a pre_signed_scheme option" where
  "pre_sign_taproot_input_default cr t i ty si keypairs =
     do {
       script \<leftarrow> index_of (ps_prev_scripts t) i;
       tx \<leftarrow> populate_taproot_input_witness_default cr (ps_tx t) (ps_prev_outs t) i ty si script keypairs;
       Some (t\<lparr>ps_tx := tx\<rparr>)
     }"

section \<open>What signing keeps and adds\<close>

named_theorems signing_rules \<open>signing keeps the unsigned transaction and appends to one witness\<close>

text \<open>The elements are appended to the witness of one input, and nothing else changes.\<close>

definition appends :: "btc_tx \<Rightarrow> nat \<Rightarrow> nat list list \<Rightarrow> btc_tx \<Rightarrow> bool" where
  "appends tx i elements tx' \<longleftrightarrow>
     i < length (tx_input tx) \<and>
     tx' = tx\<lparr>tx_input := (tx_input tx)[i := (tx_input tx ! i)\<lparr>witness := witness (tx_input tx ! i) @ elements\<rparr>]\<rparr>"

lemma appends_unsigned: "appends tx i elements tx' \<Longrightarrow> unsigned tx' = unsigned tx"
  by (auto simp: appends_def unsigned_def unsigned_in_def list_eq_iff_nth_eq nth_list_update)

lemma appends_witness:
  "appends tx i elements tx' \<Longrightarrow>
     length (tx_input tx') = length (tx_input tx) \<and>
     witness (tx_input tx' ! i) = witness (tx_input tx ! i) @ elements \<and>
     (\<forall>j. j \<noteq> i \<longrightarrow> tx_input tx' ! j = tx_input tx ! j)"
  by (auto simp: appends_def)

lemma appends_trans: "appends tx i xs tx1 \<Longrightarrow> appends tx1 i ys tx2 \<Longrightarrow> appends tx i (xs @ ys) tx2"
  by (auto simp: appends_def)

lemma push_witness_appends [signing_rules]: "push_witness i tx element = Some tx' \<Longrightarrow> appends tx i [element] tx'"
  by (auto simp: push_witness_def appends_def index_of_def bind_eq_Some_conv split: if_splits)

lemma fold_push_witness_appends:
  "fold_option (push_witness i) tx elements = Some tx' \<Longrightarrow> i < length (tx_input tx) \<Longrightarrow> appends tx i elements tx'"
proof (induction elements arbitrary: tx)
  case Nil
  then show ?case by (auto simp: appends_def)
next
  case (Cons e es)
  obtain tx1 where tx1: "push_witness i tx e = Some tx1" "fold_option (push_witness i) tx1 es = Some tx'"
    using Cons.prems(1) by (auto simp: bind_eq_Some_conv split: option.splits)
  have a: "appends tx i [e] tx1" by (rule push_witness_appends [OF tx1(1)])
  have "i < length (tx_input tx1)" using appends_witness [OF a] Cons.prems(2) by simp
  from appends_trans [OF a Cons.IH [OF tx1(2) this]] show ?case by simp
qed

lemma push_leaf_appends [signing_rules]:
  "push_taproot_leaf_script_and_control_block_to_witness cr tx i si script = Some tx' \<Longrightarrow>
     appends tx i [script_bytes cr script, control_block cr si script] tx'"
  using appends_trans [of tx i "[script_bytes cr script]" _ "[control_block cr si script]"]
  by (auto simp: push_taproot_leaf_script_and_control_block_to_witness_def bind_eq_Some_conv
      dest!: push_witness_appends)

lemma push_cached_leaf_appends [signing_rules]:
  "push_taproot_leaf_script_and_cached_control_block_to_witness cr tx i cached script = Some tx' \<Longrightarrow>
     appends tx i [script_bytes cr script, cached] tx'"
  using appends_trans [of tx i "[script_bytes cr script]" _ "[cached]"]
  by (auto simp: push_taproot_leaf_script_and_cached_control_block_to_witness_def bind_eq_Some_conv
      dest!: push_witness_appends)

lemma fold_push_length:
  "fold_option (push_witness i) tx elements = Some tx' \<Longrightarrow> length (tx_input tx') = length (tx_input tx)"
  by (induction elements arbitrary: tx)
    (auto simp: bind_eq_Some_conv push_witness_def index_of_def split: option.splits if_splits)

lemma push_unlock_data_appends [signing_rules]:
  "push_taproot_leaf_unlock_data_to_witness tx i unlock_data = Some tx' \<Longrightarrow> i < length (tx_input tx) \<Longrightarrow>
     appends tx i (map minimal_element unlock_data) tx'"
  unfolding push_taproot_leaf_unlock_data_to_witness_def by (rule fold_push_witness_appends)

lemma populate_taproot_appends [signing_rules]:
  assumes "populate_taproot_input_witness cr tx i si script unlock_data = Some tx'"
  shows "appends tx i (map minimal_element unlock_data @ [script_bytes cr script, control_block cr si script]) tx'"
proof -
  obtain tx1 where tx1: "push_taproot_leaf_unlock_data_to_witness tx i unlock_data = Some tx1"
      "push_taproot_leaf_script_and_control_block_to_witness cr tx1 i si script = Some tx'"
    using assms by (auto simp: populate_taproot_input_witness_def bind_eq_Some_conv)
  have leaf: "appends tx1 i [script_bytes cr script, control_block cr si script] tx'"
    by (rule push_leaf_appends [OF tx1(2)])
  have "i < length (tx_input tx)"
    using leaf fold_push_length [OF tx1(1) [unfolded push_taproot_leaf_unlock_data_to_witness_def]]
    by (simp add: appends_def)
  from appends_trans [OF push_unlock_data_appends [OF tx1(1) this] leaf] show ?thesis .
qed

lemma populate_key_spend_appends [signing_rules]:
  "populate_p2tr_key_spend_witness cr tx i prev_outs ty si keypair = Some tx' \<Longrightarrow> \<exists>s. appends tx i [s] tx'"
  by (auto simp: populate_p2tr_key_spend_witness_def bind_eq_Some_conv dest!: push_witness_appends)

lemma fold_p2wsh_signatures_append:
  "fold_option (push_p2wsh_signature_to_witness cr i ty script value) tx keypairs = Some tx' \<Longrightarrow>
     i < length (tx_input tx) \<Longrightarrow> \<exists>ss. appends tx i ss tx'"
proof (induction keypairs arbitrary: tx)
  case Nil
  then show ?case by (auto simp: appends_def intro: exI [of _ "[]"])
next
  case (Cons k ks)
  obtain tx1 where tx1: "push_p2wsh_signature_to_witness cr i ty script value tx k = Some tx1"
      "fold_option (push_p2wsh_signature_to_witness cr i ty script value) tx1 ks = Some tx'"
    using Cons.prems(1) by (auto simp: bind_eq_Some_conv)
  then obtain s where a: "appends tx i [s] tx1"
    by (auto simp: push_p2wsh_signature_to_witness_def bind_eq_Some_conv dest!: push_witness_appends)
  have "i < length (tx_input tx1)" using appends_witness [OF a] Cons.prems(2) by simp
  from Cons.IH [OF tx1(2) this] appends_trans [OF a] show ?case by blast
qed

lemma fold_p2wsh_signatures_length:
  "fold_option (push_p2wsh_signature_to_witness cr i ty script value) tx keypairs = Some tx' \<Longrightarrow>
     length (tx_input tx') = length (tx_input tx)"
  by (induction keypairs arbitrary: tx)
    (auto simp: bind_eq_Some_conv push_p2wsh_signature_to_witness_def push_witness_def index_of_def
      split: option.splits if_splits)

lemma populate_p2wsh_appends [signing_rules]:
  assumes "populate_p2wsh_witness cr tx i ty script value keypairs = Some tx'"
  shows "\<exists>ss. appends tx i (ss @ [script_bytes cr script]) tx'"
proof -
  obtain tx1 where tx1: "fold_option (push_p2wsh_signature_to_witness cr i ty script value) tx keypairs = Some tx1"
      "push_witness i tx1 (script_bytes cr script) = Some tx'"
    using assms by (auto simp: populate_p2wsh_witness_def bind_eq_Some_conv)
  have last: "appends tx1 i [script_bytes cr script] tx'" by (rule push_witness_appends [OF tx1(2)])
  have "i < length (tx_input tx)" using last fold_p2wsh_signatures_length [OF tx1(1)] by (simp add: appends_def)
  then show ?thesis using fold_p2wsh_signatures_append [OF tx1(1)] appends_trans last by blast
qed

text \<open>Signing an input keeps the rest of the record.\<close>

lemma pre_sign_p2wsh_keeps [signing_rules]:
  "pre_sign_p2wsh_input cr t i ty keypairs = Some t' \<Longrightarrow>
     unsigned (ps_tx t') = unsigned (ps_tx t) \<and> ps_prev_outs t' = ps_prev_outs t \<and>
     ps_prev_scripts t' = ps_prev_scripts t"
  by (auto simp: pre_sign_p2wsh_input_def bind_eq_Some_conv dest!: populate_p2wsh_appends intro: appends_unsigned)

lemma pre_sign_taproot_keeps [signing_rules]:
  assumes "pre_sign_taproot_input_default cr t i ty si keypairs = Some t'"
  shows "unsigned (ps_tx t') = unsigned (ps_tx t) \<and> ps_prev_outs t' = ps_prev_outs t \<and>
     ps_prev_scripts t' = ps_prev_scripts t"
proof -
  obtain script tx where tx: "populate_taproot_input_witness_default cr (ps_tx t) (ps_prev_outs t) i ty si script keypairs = Some tx"
    and t': "t' = t\<lparr>ps_tx := tx\<rparr>"
    using assms by (auto simp: pre_sign_taproot_input_default_def bind_eq_Some_conv)
  then obtain unlock_data where "populate_taproot_input_witness cr (ps_tx t) i si script unlock_data = Some tx"
    by (auto simp: populate_taproot_input_witness_default_def populate_taproot_input_witness_def bind_eq_Some_conv)
  from appends_unsigned [OF populate_taproot_appends [OF this]] show ?thesis by (simp add: t')
qed

section \<open>MuSig2\<close>

record 'k verifier_context =
  vc_keypair :: 'k
  vc_public_key :: public_key
  vc_n_of_n_keys :: "public_key list"

type_synonym musig_maps = "nat \<Rightarrow> (public_key \<Rightarrow> nat list option) option"

definition insert_at :: "nat \<Rightarrow> public_key \<Rightarrow> nat list \<Rightarrow> musig_maps \<Rightarrow> musig_maps" where
  "insert_at i k v m = m(i \<mapsto> (case m i of None \<Rightarrow> Map.empty | Some q \<Rightarrow> q)(k \<mapsto> v))"

definition contains_at :: "musig_maps \<Rightarrow> nat \<Rightarrow> public_key \<Rightarrow> bool" where
  "contains_at m i k \<longleftrightarrow> (case m i of None \<Rightarrow> False | Some q \<Rightarrow> q k \<noteq> None)"

definition has_all_nonces :: "nat list \<Rightarrow> nat list musig2_state \<Rightarrow> public_key list \<Rightarrow> bool" where
  "has_all_nonces verifier_inputs ms keys \<longleftrightarrow>
     list_all (\<lambda>i. list_all (contains_at (musig2_nonces ms) i) keys) verifier_inputs"

definition has_all_signatures :: "nat list \<Rightarrow> nat list musig2_state \<Rightarrow> public_key list \<Rightarrow> bool" where
  "has_all_signatures verifier_inputs ms keys \<longleftrightarrow>
     list_all (\<lambda>i. list_all (contains_at (musig2_signatures ms) i) keys) verifier_inputs"

definition has_nonces_for :: "nat list \<Rightarrow> nat list musig2_state \<Rightarrow> public_key \<Rightarrow> bool" where
  "has_nonces_for verifier_inputs ms key \<longleftrightarrow> has_all_nonces verifier_inputs ms [key]"

definition has_signatures_for :: "nat list \<Rightarrow> nat list musig2_state \<Rightarrow> public_key \<Rightarrow> bool" where
  "has_signatures_for verifier_inputs ms key \<longleftrightarrow> has_all_signatures verifier_inputs ms [key]"

text \<open>A nonce is pushed with its signature; the secret nonces come from the random generator.\<close>

definition push_nonce ::
  "('k, 's) crypto \<Rightarrow> 'k verifier_context \<Rightarrow> nat list musig2_state \<Rightarrow> nat \<times> nat list \<Rightarrow> nat list musig2_state" where
  "push_nonce cr ctx ms is =
     (case is of (i, secret_nonce) \<Rightarrow>
        ms\<lparr>musig2_nonces := insert_at i (vc_public_key ctx) (public_nonce cr secret_nonce) (musig2_nonces ms),
           musig2_nonce_signatures := insert_at i (vc_public_key ctx)
             (sign_nonce cr (vc_keypair ctx) (public_nonce cr secret_nonce)) (musig2_nonce_signatures ms)\<rparr>)"

definition push_nonces ::
  "('k, 's) crypto \<Rightarrow> 'k verifier_context \<Rightarrow> nat list \<Rightarrow> (nat \<Rightarrow> nat list) \<Rightarrow> nat list musig2_state \<Rightarrow>
     nat list musig2_state \<times> (nat \<times> nat list) list" where
  "push_nonces cr ctx verifier_inputs fresh ms =
     (let secrets = map (\<lambda>i. (i, fresh i)) verifier_inputs
      in (foldl (push_nonce cr ctx) ms secrets, secrets))"

definition pre_sign_musig2_taproot_input ::
  "('k, 's) crypto \<Rightarrow> 'k verifier_context \<Rightarrow> pre_signed \<Rightarrow> nat list musig2_state \<Rightarrow> nat \<Rightarrow> sighash_type \<Rightarrow> nat list \<Rightarrow>
     nat list musig2_state option" where
  "pre_sign_musig2_taproot_input cr ctx t ms i ty secret_nonce =
     do {
       script \<leftarrow> index_of (ps_prev_scripts t) i;
       nonces \<leftarrow> musig2_nonces ms i;
       sig \<leftarrow> partial_sig cr (vc_keypair ctx) (vc_n_of_n_keys ctx) (ps_tx t) secret_nonce nonces i
         (ps_prev_outs t) script ty;
       Some (ms\<lparr>musig2_signatures := insert_at i (vc_public_key ctx) sig (musig2_signatures ms)\<rparr>)
     }"

definition finalize_musig2_taproot_input ::
  "('k, 's) crypto \<Rightarrow> public_key list \<Rightarrow> pre_signed \<Rightarrow> nat list musig2_state \<Rightarrow> nat \<Rightarrow> sighash_type \<Rightarrow> spend_info \<Rightarrow>
     btc_tx option" where
  "finalize_musig2_taproot_input cr keys t ms i ty si =
     do {
       script \<leftarrow> index_of (ps_prev_scripts t) i;
       nonces \<leftarrow> musig2_nonces ms i;
       sigs \<leftarrow> musig2_signatures ms i;
       final \<leftarrow> aggregated_sig cr keys (ps_tx t) nonces i (ps_prev_outs t) script ty sigs;
       tx1 \<leftarrow> push_witness i (ps_tx t) final;
       push_taproot_leaf_script_and_control_block_to_witness cr tx1 i si script
     }"

text \<open>
  What the \<open>sign_input\<close> functions of the pre-signed transactions have in common: push a partial
  signature, and finalize the witness once there are as many as verifiers.
\<close>

definition musig2_sign_input ::
  "('k, 's) crypto \<Rightarrow> 'k verifier_context \<Rightarrow> nat \<Rightarrow> sighash_type \<Rightarrow> spend_info option \<Rightarrow> (nat \<Rightarrow> nat list option) \<Rightarrow>
     pre_signed \<times> nat list musig2_state \<Rightarrow> (pre_signed \<times> nat list musig2_state) option" where
  "musig2_sign_input cr ctx i ty spend secret_nonces tm =
     (case tm of (t, ms) \<Rightarrow>
        do {
          secret_nonce \<leftarrow> secret_nonces i;
          ms' \<leftarrow> pre_sign_musig2_taproot_input cr ctx t ms i ty secret_nonce;
          sigs \<leftarrow> musig2_signatures ms' i;
          if card (dom sigs) = length (vc_n_of_n_keys ctx)
          then do {
            si \<leftarrow> spend;
            tx \<leftarrow> finalize_musig2_taproot_input cr (vc_n_of_n_keys ctx) t ms' i ty si;
            Some (t\<lparr>ps_tx := tx\<rparr>, ms')
          }
          else Some (t, ms')
        })"

lemma finalize_appends [signing_rules]:
  assumes "finalize_musig2_taproot_input cr keys t ms i ty si = Some tx"
  shows "\<exists>final. appends (ps_tx t) i
    [final, script_bytes cr (ps_prev_scripts t ! i), control_block cr si (ps_prev_scripts t ! i)] tx"
proof -
  obtain final tx1 where p: "push_witness i (ps_tx t) final = Some tx1"
      "push_taproot_leaf_script_and_control_block_to_witness cr tx1 i si (ps_prev_scripts t ! i) = Some tx"
    using assms by (auto simp: finalize_musig2_taproot_input_def bind_eq_Some_conv index_of_def split: if_splits)
  show ?thesis using appends_trans [OF push_witness_appends [OF p(1)] push_leaf_appends [OF p(2)]] by auto
qed

lemma musig2_sign_input_keeps [signing_rules]:
  "musig2_sign_input cr ctx i ty spend secret_nonces (t, ms) = Some (t', ms') \<Longrightarrow>
     unsigned (ps_tx t') = unsigned (ps_tx t) \<and> ps_prev_outs t' = ps_prev_outs t \<and>
     ps_prev_scripts t' = ps_prev_scripts t"
  by (auto simp: musig2_sign_input_def bind_eq_Some_conv split: if_splits
      dest!: finalize_appends intro: appends_unsigned)

lemma contains_at_insert [simp]:
  "contains_at (insert_at i k v m) j x \<longleftrightarrow> (i = j \<and> k = x) \<or> contains_at m j x"
  by (auto simp: contains_at_def insert_at_def split: option.splits)

lemma musig2_sign_input_signs:
  "musig2_sign_input cr ctx i ty spend secret_nonces (t, ms) = Some (t', ms') \<Longrightarrow>
     musig2_nonces ms' = musig2_nonces ms \<and> musig2_nonce_signatures ms' = musig2_nonce_signatures ms \<and>
     (\<forall>j x. contains_at (musig2_signatures ms') j x \<longleftrightarrow>
        (j = i \<and> x = vc_public_key ctx) \<or> contains_at (musig2_signatures ms) j x)"
  by (auto simp: musig2_sign_input_def pre_sign_musig2_taproot_input_def bind_eq_Some_conv split: if_splits)

lemma contains_at_push_nonce:
  "contains_at (musig2_nonces (push_nonce cr ctx ms is)) j x \<longleftrightarrow>
     (j = fst is \<and> x = vc_public_key ctx) \<or> contains_at (musig2_nonces ms) j x"
  by (cases "is") (simp add: push_nonce_def eq_commute)

lemma foldl_push_nonce:
  "contains_at (musig2_nonces (foldl (push_nonce cr ctx) ms secrets)) j x \<longleftrightarrow>
     (j \<in> fst ` set secrets \<and> x = vc_public_key ctx) \<or> contains_at (musig2_nonces ms) j x"
  by (induction secrets arbitrary: ms) (simp_all add: contains_at_push_nonce, blast)

lemma push_nonces_has:
  "has_nonces_for inputs (fst (push_nonces cr ctx inputs fresh ms)) (vc_public_key ctx)"
  by (auto simp: has_nonces_for_def has_all_nonces_def push_nonces_def Let_def foldl_push_nonce
      list_all_iff comp_def image_def)

end
