(* ===== verification/Chain_Client.thy ===== *)
theory Chain_Client
  imports Tx_Base
begin

text \<open>
  What the graphs ask of the Bitcoin node (\<open>graphs/base.rs\<close>). The Esplora client is not part of
  the repository: its answers are a record, a snapshot of the chain as the client reports it,
  an error (\<open>Inl\<close>) where a request fails. An operation that asks several questions asks them of
  one snapshot.
\<close>

record tx_status =
  confirmed :: bool
  block_height :: "nat option"

record esplora =
  get_tx_status :: "tx_hash \<Rightarrow> string + tx_status"
  get_height :: "string + nat"
  get_tx :: "tx_hash \<Rightarrow> string + btc_tx option"
  broadcast :: "btc_tx \<Rightarrow> string + unit"

definition is_ok_and :: "'e + 'a \<Rightarrow> ('a \<Rightarrow> bool) \<Rightarrow> bool" where
  "is_ok_and r P = (case r of Inl _ \<Rightarrow> False | Inr x \<Rightarrow> P x)"

lemma is_ok_and_iff: "is_ok_and r P \<longleftrightarrow> (\<exists>x. r = Inr x \<and> P x)"
  by (cases r) (auto simp: is_ok_and_def)

definition get_block_height :: "esplora \<Rightarrow> bridge_error + nat" where
  "get_block_height cl = (case get_height cl of Inl e \<Rightarrow> Inl (Esplora_Error e) | Inr h \<Rightarrow> Inr h)"

definition is_confirmed :: "esplora \<Rightarrow> tx_hash \<Rightarrow> string + bool" where
  "is_confirmed cl txid = (case get_tx_status cl txid of Inl e \<Rightarrow> Inl e | Inr st \<Rightarrow> Inr (confirmed st))"

definition verify_if_not_mined :: "esplora \<Rightarrow> tx_hash \<Rightarrow> bridge_error + unit" where
  "verify_if_not_mined cl txid =
     (case is_confirmed cl txid of
        Inr False \<Rightarrow> Inr ()
      | Inr True \<Rightarrow> Inl (Already_Mined txid)
      | Inl e \<Rightarrow> Inl (Esplora_Error e))"

lemma verify_if_not_mined_ok:
  "verify_if_not_mined cl txid = Inr u \<longleftrightarrow> is_confirmed cl txid = Inr False"
  by (auto simp: verify_if_not_mined_def split: sum.splits bool.splits)

text \<open>
  A transaction that the node has is not sent again; an error of the node is forgotten when the
  transaction turns out to be mined.
\<close>

definition broadcast_and_verify :: "(btc_tx \<Rightarrow> tx_hash) \<Rightarrow> esplora \<Rightarrow> btc_tx \<Rightarrow> bridge_error + string" where
  "broadcast_and_verify txid_of cl tx =
     (case get_tx cl (txid_of tx) of
        Inr (Some _) \<Rightarrow> Inr ''Tx already broadcasted.''
      | _ \<Rightarrow>
          (case (broadcast cl tx, is_confirmed cl (txid_of tx)) of
             (Inr _, Inr False) \<Rightarrow> Inr ''Tx broadcasted successfully.''
           | (Inr _, Inl _) \<Rightarrow> Inr ''Tx broadcasted successfully.''
           | (_, Inr True) \<Rightarrow> Inr ''Tx mined successfully.''
           | (Inl e, _) \<Rightarrow> Inl (Esplora_Error e)))"

lemma broadcast_and_verify_fails:
  "broadcast_and_verify txid_of cl tx = Inl e \<longleftrightarrow>
     (\<forall>t. get_tx cl (txid_of tx) \<noteq> Inr (Some t)) \<and> is_confirmed cl (txid_of tx) \<noteq> Inr True \<and>
     (\<exists>s. broadcast cl tx = Inl s \<and> e = Esplora_Error s)"
  by (cases "get_tx cl (txid_of tx)"; cases "broadcast cl tx"; cases "is_confirmed cl (txid_of tx)")
    (auto simp: broadcast_and_verify_def split: option.splits bool.splits)

definition get_tx_statuses :: "esplora \<Rightarrow> tx_hash list \<Rightarrow> (string + tx_status) list" where
  "get_tx_statuses cl txids = map (get_tx_status cl) txids"

definition get_onchain_txs :: "esplora \<Rightarrow> tx_hash list \<Rightarrow> (string + btc_tx option) list" where
  "get_onchain_txs cl txids = map (get_tx cl) txids"

section \<open>Relative time locks\<close>

text \<open>
  Whether so many blocks have been mined on top of the block of a transaction: false when the
  height of either is not known, a panic when the sum leaves \<open>u32\<close>.
\<close>

definition timelock_met :: "esplora \<Rightarrow> tx_status \<Rightarrow> nat \<Rightarrow> bool option" where
  "timelock_met cl st num_blocks =
     (case block_height st of
        None \<Rightarrow> Some False
      | Some b \<Rightarrow>
          (case get_height cl of
             Inl _ \<Rightarrow> Some False
           | Inr h \<Rightarrow> if b + num_blocks < 2 ^ 32 then Some (b + num_blocks \<le> h) else None))"

lemma timelock_met_True:
  "timelock_met cl st n = Some True \<longleftrightarrow>
     (\<exists>b h. block_height st = Some b \<and> get_height cl = Inr h \<and> b + n < 2 ^ 32 \<and> b + n \<le> h)"
  by (auto simp: timelock_met_def split: option.splits sum.splits)

section \<open>Results with a state\<close>

text \<open>
  An operation that may panic (\<open>None\<close>), fail with an error or return, and that leaves the state
  changed in either of the last two cases: \<open>attempt\<close> is the question mark operator.
\<close>

type_synonym ('s, 'a) outcome = "('s \<times> (bridge_error + 'a)) option"

definition attempt :: "bridge_error + 'a \<Rightarrow> 's \<Rightarrow> ('a \<Rightarrow> ('s, 'b) outcome) \<Rightarrow> ('s, 'b) outcome" where
  "attempt r s k = (case r of Inl e \<Rightarrow> Some (s, Inl e) | Inr x \<Rightarrow> k x)"

lemma attempt_ok:
  "attempt r s k = Some (s', Inr y) \<longleftrightarrow> (\<exists>x. r = Inr x \<and> k x = Some (s', Inr y))"
  by (cases r) (auto simp: attempt_def)

lemma attempt_simps [simp]: "attempt (Inr x) s k = k x" "attempt (Inl e) s k = Some (s, Inl e)"
  by (simp_all add: attempt_def)

text \<open>The status of a transaction that has to be confirmed before another.\<close>

definition with_status :: "esplora \<Rightarrow> tx_hash \<Rightarrow> 's \<Rightarrow> (tx_status \<Rightarrow> ('s, 'b) outcome) \<Rightarrow> ('s, 'b) outcome" where
  "with_status cl txid s k =
     (case get_tx_status cl txid of Inl e \<Rightarrow> Some (s, Inl (Esplora_Error e)) | Inr st \<Rightarrow> k st)"

definition if_confirmed :: "esplora \<Rightarrow> tx_hash \<Rightarrow> string \<Rightarrow> 's \<Rightarrow> (tx_status \<Rightarrow> ('s, 'b) outcome) \<Rightarrow> ('s, 'b) outcome" where
  "if_confirmed cl txid name s k =
     with_status cl txid s (\<lambda>st.
       if confirmed st then k st
       else Some (s, Inl (Preceding_Tx_Not_Confirmed [Named_Tx txid name (confirmed st)])))"

definition if_timelock_met ::
  "esplora \<Rightarrow> tx_status \<Rightarrow> nat \<Rightarrow> named_tx \<Rightarrow> 's \<Rightarrow> ('s, 'b) outcome \<Rightarrow> ('s, 'b) outcome" where
  "if_timelock_met cl st num_blocks named s k =
     do {
       met \<leftarrow> timelock_met cl st num_blocks;
       if met then k else Some (s, Inl (Preceding_Tx_Timelock_Not_Met named))
     }"

lemma if_confirmed_ok:
  "if_confirmed cl txid name s k = Some (s', Inr y) \<longleftrightarrow>
     (\<exists>st. get_tx_status cl txid = Inr st \<and> confirmed st \<and> k st = Some (s', Inr y))"
  by (auto simp: if_confirmed_def with_status_def split: sum.splits)

lemma if_timelock_met_ok:
  "if_timelock_met cl st n named s k = Some (s', Inr y) \<longleftrightarrow>
     timelock_met cl st n = Some True \<and> k = Some (s', Inr y)"
  by (auto simp: if_timelock_met_def bind_eq_Some_conv split: if_splits)

end
