(* ===== verification/Peg_Out_State.thy ===== *)
theory Peg_Out_State
  imports Peg_Out_Funds Signing Chain_Client
begin

text \<open>
  The peg-out graph as a participant keeps it (\<open>graphs/peg_out.rs\<close>): the transactions and
  connectors of \<open>Peg_Out_Graph\<close>, the MuSig2 maps of the pre-signed ones, the witnesses the
  operator keeps, the event of the other chain and the peg-out transaction; then the rounds of
  nonces and partial signatures and the merge of two copies.
\<close>

section \<open>State\<close>

text \<open>The transactions that carry MuSig2 maps.\<close>

datatype presigned =
    P_Assert_Initial | P_Assert_Final | P_Disprove_Chain | P_Disprove | P_Kick_Off_Timeout
  | P_Start_Time | P_Start_Time_Timeout | P_Take_1 | P_Take_2

record peg_out_state = peg_out_graph +
  po_network :: btc_network
  po_id :: string
  n_of_n_presigned :: bool
  po_n_of_n_taproot_key :: xonly_key
  po_operator_key :: public_key
  po_operator_taproot_key :: xonly_key
  po_musig :: "presigned \<Rightarrow> nat list musig2_state"
  start_time_witness :: "nat list list option"
  superblock_hash_witness :: "nat list list option"
  peg_out_chain_event :: "peg_out_event option"
  peg_out_transaction :: "pre_signed option"

definition empty_musig :: "nat list musig2_state" where
  "empty_musig = \<lparr>musig2_nonces = Map.empty, musig2_nonce_signatures = Map.empty, musig2_signatures = Map.empty\<rparr>"

text \<open>
  The operator's own signatures, which the \<open>new\<close> functions of five transactions push when the graph is
  made. An id does not cover witnesses, so the transactions that spend these are not affected.
\<close>

definition peg_out_confirm_signed :: "('k, 's) crypto \<Rightarrow> 'k \<Rightarrow> pre_signed \<Rightarrow> pre_signed option" where
  "peg_out_confirm_signed cr keypair t = pre_sign_p2wsh_input cr t 0 Sig_All [keypair]"

definition challenge_signed :: "('k, 's) crypto \<Rightarrow> 'k \<Rightarrow> connector_a \<Rightarrow> challenge_tx \<Rightarrow> challenge_tx option" where
  "challenge_signed cr keypair ca t =
     pre_sign_taproot_input_default cr t 0 Sig_Single_Anyone (connector_a_spend_info ca) [keypair]"

definition take_1_signed :: "('k, 's) crypto \<Rightarrow> 'k \<Rightarrow> connector_a \<Rightarrow> pre_signed \<Rightarrow> pre_signed option" where
  "take_1_signed cr keypair ca t =
     do {
       t1 \<leftarrow> pre_sign_taproot_input_default cr t 1 Sig_All (connector_a_spend_info ca) [keypair];
       pre_sign_p2wsh_input cr t1 2 Sig_All [keypair]
     }"

definition assert_final_signed :: "('k, 's) crypto \<Rightarrow> 'k \<Rightarrow> pre_signed \<Rightarrow> pre_signed option" where
  "assert_final_signed cr keypair t =
     fold_option (\<lambda>t i. pre_sign_p2wsh_input cr t i Sig_All [keypair]) t [1, 2]"

definition take_2_signed :: "('k, 's) crypto \<Rightarrow> 'k \<Rightarrow> pre_signed \<Rightarrow> pre_signed option" where
  "take_2_signed cr keypair t = pre_sign_p2wsh_input cr t 1 Sig_All [keypair]"

definition sign_new :: "('k, 's) crypto \<Rightarrow> 'k \<Rightarrow> peg_out_graph \<Rightarrow> peg_out_graph option" where
  "sign_new cr keypair g =
     (let ca = pc_a (po_connectors g) in
      do {
        pc \<leftarrow> peg_out_confirm_signed cr keypair (peg_out_confirm_tx g);
        ch \<leftarrow> challenge_signed cr keypair ca (challenge_transaction g);
        t1 \<leftarrow> take_1_signed cr keypair ca (take_1_tx g);
        af \<leftarrow> assert_final_signed cr keypair (assert_final_tx g);
        t2 \<leftarrow> take_2_signed cr keypair (take_2_tx g);
        Some (g\<lparr>peg_out_confirm_tx := pc, challenge_transaction := ch, take_1_tx := t1, assert_final_tx := af,
          take_2_tx := t2\<rparr>)
      })"

definition peg_out_state_new ::
  "fee_policy \<Rightarrow> (btc_tx \<Rightarrow> tx_hash) \<Rightarrow> chunk_api \<Rightarrow> ('s \<Rightarrow> winternitz_key) \<Rightarrow> (pre_signed \<Rightarrow> public_key \<Rightarrow> string) \<Rightarrow>
     ('k, 's) crypto \<Rightarrow> 'k \<Rightarrow> operator_context \<Rightarrow> peg_in_graph \<Rightarrow> tx_input_ref \<Rightarrow> (commitment_message_id \<times> 's) list \<Rightarrow> peg_out_state option" where
  "peg_out_state_new pol txid_of api public_of generate_id cr keypair ctx peg_in confirm_input secrets =
     do {
       unsigned_graph \<leftarrow> peg_out_graph_new pol txid_of api public_of ctx peg_in confirm_input secrets;
       g \<leftarrow> sign_new cr keypair unsigned_graph;
       Some (peg_out_graph.extend g
         \<lparr>po_network = oc_network ctx,
          po_id = generate_id (peg_in_deposit_tx peg_in) (oc_operator_key ctx),
          n_of_n_presigned = False,
          po_n_of_n_taproot_key = oc_n_of_n_taproot_key ctx,
          po_operator_key = oc_operator_key ctx,
          po_operator_taproot_key = oc_operator_taproot_key ctx,
          po_musig = (\<lambda>_. empty_musig),
          start_time_witness = None,
          superblock_hash_witness = None,
          peg_out_chain_event = None,
          peg_out_transaction = None\<rparr>)
     }"

fun get_presigned :: "peg_out_state \<Rightarrow> presigned \<Rightarrow> pre_signed" where
  "get_presigned s P_Assert_Initial = assert_initial_tx s"
| "get_presigned s P_Assert_Final = assert_final_tx s"
| "get_presigned s P_Disprove_Chain = pre_signed.truncate (disprove_chain_tx s)"
| "get_presigned s P_Disprove = pre_signed.truncate (disprove_tx s)"
| "get_presigned s P_Kick_Off_Timeout = pre_signed.truncate (kick_off_timeout_tx s)"
| "get_presigned s P_Start_Time = start_time_tx s"
| "get_presigned s P_Start_Time_Timeout = pre_signed.truncate (start_time_timeout_tx s)"
| "get_presigned s P_Take_1 = take_1_tx s"
| "get_presigned s P_Take_2 = take_2_tx s"

definition set_tx :: "btc_tx \<Rightarrow> 'a pre_signed_scheme \<Rightarrow> 'a pre_signed_scheme" where
  "set_tx tx t = t\<lparr>ps_tx := tx\<rparr>"

fun set_presigned :: "presigned \<Rightarrow> btc_tx \<Rightarrow> peg_out_state \<Rightarrow> peg_out_state" where
  "set_presigned P_Assert_Initial tx s = s\<lparr>assert_initial_tx := set_tx tx (assert_initial_tx s)\<rparr>"
| "set_presigned P_Assert_Final tx s = s\<lparr>assert_final_tx := set_tx tx (assert_final_tx s)\<rparr>"
| "set_presigned P_Disprove_Chain tx s = s\<lparr>disprove_chain_tx := set_tx tx (disprove_chain_tx s)\<rparr>"
| "set_presigned P_Disprove tx s = s\<lparr>disprove_tx := set_tx tx (disprove_tx s)\<rparr>"
| "set_presigned P_Kick_Off_Timeout tx s = s\<lparr>kick_off_timeout_tx := set_tx tx (kick_off_timeout_tx s)\<rparr>"
| "set_presigned P_Start_Time tx s = s\<lparr>start_time_tx := set_tx tx (start_time_tx s)\<rparr>"
| "set_presigned P_Start_Time_Timeout tx s = s\<lparr>start_time_timeout_tx := set_tx tx (start_time_timeout_tx s)\<rparr>"
| "set_presigned P_Take_1 tx s = s\<lparr>take_1_tx := set_tx tx (take_1_tx s)\<rparr>"
| "set_presigned P_Take_2 tx s = s\<lparr>take_2_tx := set_tx tx (take_2_tx s)\<rparr>"

definition set_musig :: "presigned \<Rightarrow> nat list musig2_state \<Rightarrow> peg_out_state \<Rightarrow> peg_out_state" where
  "set_musig p ms s = s\<lparr>po_musig := (po_musig s)(p := ms)\<rparr>"

text \<open>The inputs the verifiers sign.\<close>

fun verifier_inputs :: "presigned \<Rightarrow> nat list" where
  "verifier_inputs P_Start_Time = []"
| "verifier_inputs P_Start_Time_Timeout = [0, 1]"
| "verifier_inputs P_Take_1 = [0, 3]"
| "verifier_inputs P_Take_2 = [0, 2]"
| "verifier_inputs _ = [0]"

section \<open>Pre-signing each transaction\<close>

type_synonym secret_nonces = "nat \<Rightarrow> nat list option"
type_synonym signed = "pre_signed \<times> nat list musig2_state"

definition assert_initial_pre_sign ::
  "('k, 's) crypto \<Rightarrow> 'k verifier_context \<Rightarrow> connector_b \<Rightarrow> secret_nonces \<Rightarrow> signed \<Rightarrow> signed option" where
  "assert_initial_pre_sign cr ctx cb ns tm = musig2_sign_input cr ctx 0 Sig_All (connector_b_spend_info cb) ns tm"

definition assert_final_pre_sign ::
  "('k, 's) crypto \<Rightarrow> 'k verifier_context \<Rightarrow> connector_d \<Rightarrow> secret_nonces \<Rightarrow> signed \<Rightarrow> signed option" where
  "assert_final_pre_sign cr ctx cd ns tm = musig2_sign_input cr ctx 0 Sig_All (Some (connector_d_spend_info cd)) ns tm"

definition disprove_chain_pre_sign ::
  "('k, 's) crypto \<Rightarrow> 'k verifier_context \<Rightarrow> connector_b \<Rightarrow> secret_nonces \<Rightarrow> signed \<Rightarrow> signed option" where
  "disprove_chain_pre_sign cr ctx cb ns tm =
     musig2_sign_input cr ctx 0 Sig_Single (connector_b_spend_info cb) ns tm"

definition disprove_pre_sign ::
  "('k, 's) crypto \<Rightarrow> 'k verifier_context \<Rightarrow> connector_5 \<Rightarrow> secret_nonces \<Rightarrow> signed \<Rightarrow> signed option" where
  "disprove_pre_sign cr ctx c5 ns tm = musig2_sign_input cr ctx 0 Sig_Single (Some (connector_5_spend_info c5)) ns tm"

definition kick_off_timeout_pre_sign ::
  "('k, 's) crypto \<Rightarrow> 'k verifier_context \<Rightarrow> connector_1 \<Rightarrow> secret_nonces \<Rightarrow> signed \<Rightarrow> signed option" where
  "kick_off_timeout_pre_sign cr ctx c1 ns tm =
     musig2_sign_input cr ctx 0 Sig_Single (connector_1_spend_info c1) ns tm"

definition start_time_timeout_pre_sign ::
  "('k, 's) crypto \<Rightarrow> 'k verifier_context \<Rightarrow> connector_1 \<Rightarrow> connector_2 \<Rightarrow> secret_nonces \<Rightarrow> signed \<Rightarrow> signed option" where
  "start_time_timeout_pre_sign cr ctx c1 c2 ns tm =
     do {
       tm1 \<leftarrow> musig2_sign_input cr ctx 0 Sig_Single (connector_2_spend_info c2) ns tm;
       musig2_sign_input cr ctx 1 Sig_None (connector_1_spend_info c1) ns tm1
     }"

definition take_1_pre_sign ::
  "('k, 's) crypto \<Rightarrow> 'k verifier_context \<Rightarrow> connector_0 \<Rightarrow> connector_b \<Rightarrow> secret_nonces \<Rightarrow> signed \<Rightarrow> signed option" where
  "take_1_pre_sign cr ctx c0 cb ns tm =
     do {
       tm1 \<leftarrow> musig2_sign_input cr ctx 0 Sig_All (Some (connector_0_spend_info c0)) ns tm;
       musig2_sign_input cr ctx 3 Sig_All (connector_b_spend_info cb) ns tm1
     }"

definition take_2_pre_sign ::
  "('k, 's) crypto \<Rightarrow> 'k verifier_context \<Rightarrow> connector_0 \<Rightarrow> connector_5 \<Rightarrow> secret_nonces \<Rightarrow> signed \<Rightarrow> signed option" where
  "take_2_pre_sign cr ctx c0 c5 ns tm =
     do {
       tm1 \<leftarrow> musig2_sign_input cr ctx 0 Sig_All (Some (connector_0_spend_info c0)) ns tm;
       musig2_sign_input cr ctx 2 Sig_All (Some (connector_5_spend_info c5)) ns tm1
     }"

section \<open>The rounds of the verifiers\<close>

text \<open>The secret nonces of a transaction are looked up by its id; missing ones panic.\<close>

definition presign_tx ::
  "(btc_tx \<Rightarrow> tx_hash) \<Rightarrow> (tx_hash \<Rightarrow> secret_nonces option) \<Rightarrow> presigned \<Rightarrow>
     (secret_nonces \<Rightarrow> signed \<Rightarrow> signed option) \<Rightarrow> peg_out_state \<Rightarrow> peg_out_state option" where
  "presign_tx txid_of secret_nonces p sign s =
     do {
       ns \<leftarrow> secret_nonces (txid_of (ps_tx (get_presigned s p)));
       (t, ms) \<leftarrow> sign ns (get_presigned s p, po_musig s p);
       Some (set_musig p ms (set_presigned p (ps_tx t) s))
     }"

definition verifier_sign ::
  "(btc_tx \<Rightarrow> tx_hash) \<Rightarrow> ('k, 's) crypto \<Rightarrow> 'k verifier_context \<Rightarrow> (tx_hash \<Rightarrow> secret_nonces option) \<Rightarrow>
     peg_out_state \<Rightarrow> peg_out_state option" where
  "verifier_sign txid_of cr ctx secret_nonces s0 =
     (let cs = po_connectors s0; sign = presign_tx txid_of secret_nonces in
      do {
        s1 \<leftarrow> sign P_Assert_Initial (assert_initial_pre_sign cr ctx (pc_b cs)) s0;
        s2 \<leftarrow> sign P_Assert_Final (assert_final_pre_sign cr ctx (pc_d cs)) s1;
        s3 \<leftarrow> sign P_Disprove_Chain (disprove_chain_pre_sign cr ctx (pc_b cs)) s2;
        s4 \<leftarrow> sign P_Disprove (disprove_pre_sign cr ctx (pc_5 cs)) s3;
        s5 \<leftarrow> sign P_Kick_Off_Timeout (kick_off_timeout_pre_sign cr ctx (pc_1 cs)) s4;
        s6 \<leftarrow> sign P_Start_Time_Timeout (start_time_timeout_pre_sign cr ctx (pc_1 cs) (pc_2 cs)) s5;
        s7 \<leftarrow> sign P_Take_1 (take_1_pre_sign cr ctx (pc_0 cs) (pc_b cs)) s6;
        s8 \<leftarrow> sign P_Take_2 (take_2_pre_sign cr ctx (pc_0 cs) (pc_5 cs)) s7;
        Some (s8\<lparr>n_of_n_presigned := True\<rparr>)
      })"

definition all_presigned_txs :: "presigned list" where
  "all_presigned_txs =
     [P_Assert_Initial, P_Assert_Final, P_Disprove_Chain, P_Disprove, P_Kick_Off_Timeout,
      P_Start_Time_Timeout, P_Take_1, P_Take_2]"

text \<open>Fresh secret nonces come from the random generator, one for each input.\<close>

definition push_verifier_nonces ::
  "(btc_tx \<Rightarrow> tx_hash) \<Rightarrow> ('k, 's) crypto \<Rightarrow> 'k verifier_context \<Rightarrow> (presigned \<Rightarrow> nat \<Rightarrow> nat list) \<Rightarrow> peg_out_state \<Rightarrow>
     peg_out_state \<times> (tx_hash \<times> (nat \<times> nat list) list) list" where
  "push_verifier_nonces txid_of cr ctx fresh s =
     (let pushed = (\<lambda>p. push_nonces cr ctx (verifier_inputs p) (fresh p) (po_musig s p)) in
      (foldl (\<lambda>acc p. set_musig p (fst (pushed p)) acc) s all_presigned_txs,
       map (\<lambda>p. (txid_of (ps_tx (get_presigned s p)), snd (pushed p))) all_presigned_txs))"

definition graph_has_all_nonces_of :: "peg_out_state \<Rightarrow> 'k verifier_context \<Rightarrow> bool" where
  "graph_has_all_nonces_of s ctx =
     list_all (\<lambda>p. has_nonces_for (verifier_inputs p) (po_musig s p) (vc_public_key ctx)) all_presigned_txs"

definition graph_has_all_nonces :: "peg_out_state \<Rightarrow> public_key list \<Rightarrow> bool" where
  "graph_has_all_nonces s keys =
     list_all (\<lambda>p. has_all_nonces (verifier_inputs p) (po_musig s p) keys) all_presigned_txs"

definition graph_has_all_signatures_of :: "peg_out_state \<Rightarrow> 'k verifier_context \<Rightarrow> bool" where
  "graph_has_all_signatures_of s ctx =
     list_all (\<lambda>p. has_signatures_for (verifier_inputs p) (po_musig s p) (vc_public_key ctx)) all_presigned_txs"

definition graph_has_all_signatures :: "peg_out_state \<Rightarrow> public_key list \<Rightarrow> bool" where
  "graph_has_all_signatures s keys =
     list_all (\<lambda>p. has_all_signatures (verifier_inputs p) (po_musig s p) keys) all_presigned_txs"

section \<open>Merging two copies\<close>

definition merge_tx :: "'a pre_signed_scheme \<Rightarrow> 'a pre_signed_scheme \<Rightarrow> 'a pre_signed_scheme" where
  "merge_tx destination src = set_tx (merge_transactions (ps_tx destination) (ps_tx src)) destination"

definition merge_musig :: "presigned \<Rightarrow> peg_out_state \<Rightarrow> peg_out_state \<Rightarrow> peg_out_state" where
  "merge_musig p src s = set_musig p (merge_musig2_nonces_and_signatures (po_musig s p) (po_musig src p)) s"

definition merge_presigned :: "presigned \<Rightarrow> peg_out_state \<Rightarrow> peg_out_state \<Rightarrow> peg_out_state" where
  "merge_presigned p src s =
     merge_musig p src (set_presigned p (merge_transactions (ps_tx (get_presigned s p)) (ps_tx (get_presigned src p))) s)"

text \<open>
  Neither the peg-out confirmation nor the kick-offs are merged, and of the start time
  transaction only the transaction and its MuSig2 maps.
\<close>

definition peg_out_merge :: "peg_out_state \<Rightarrow> peg_out_state \<Rightarrow> peg_out_state" where
  "peg_out_merge s0 src =
     (let s1 = merge_presigned P_Assert_Initial src s0;
          s2 = s1\<lparr>assert_commit_1_tx := merge_tx (assert_commit_1_tx s1) (assert_commit_1_tx src)\<rparr>;
          s3 = s2\<lparr>assert_commit_2_tx := merge_tx (assert_commit_2_tx s2) (assert_commit_2_tx src)\<rparr>;
          s4 = merge_presigned P_Assert_Final src s3;
          s5 = s4\<lparr>challenge_transaction := merge_tx (challenge_transaction s4) (challenge_transaction src)\<rparr>
      in foldl (\<lambda>s p. merge_presigned p src s) s5
           [P_Disprove_Chain, P_Disprove, P_Kick_Off_Timeout, P_Start_Time, P_Start_Time_Timeout, P_Take_1, P_Take_2])"

text \<open>What a merge leaves alone.\<close>

lemma set_presigned_keeps [simp]:
  "n_of_n_presigned (set_presigned p tx s) = n_of_n_presigned s"
  "start_time_witness (set_presigned p tx s) = start_time_witness s"
  "superblock_hash_witness (set_presigned p tx s) = superblock_hash_witness s"
  "peg_out_chain_event (set_presigned p tx s) = peg_out_chain_event s"
  "peg_out_transaction (set_presigned p tx s) = peg_out_transaction s"
  "peg_out_confirm_tx (set_presigned p tx s) = peg_out_confirm_tx s"
  "kick_off_1_tx (set_presigned p tx s) = kick_off_1_tx s"
  "kick_off_2_tx (set_presigned p tx s) = kick_off_2_tx s"
  "po_connectors (set_presigned p tx s) = po_connectors s"
  "assert_commit_1_tx (set_presigned p tx s) = assert_commit_1_tx s"
  "assert_commit_2_tx (set_presigned p tx s) = assert_commit_2_tx s"
  "challenge_transaction (set_presigned p tx s) = challenge_transaction s"
  "peg_in_confirm_txid (set_presigned p tx s) = peg_in_confirm_txid s"
  "po_musig (set_presigned p tx s) = po_musig s"
  by (cases p; simp)+

lemma set_musig_keeps [simp]:
  "n_of_n_presigned (set_musig p ms s) = n_of_n_presigned s"
  "start_time_witness (set_musig p ms s) = start_time_witness s"
  "superblock_hash_witness (set_musig p ms s) = superblock_hash_witness s"
  "peg_out_chain_event (set_musig p ms s) = peg_out_chain_event s"
  "peg_out_transaction (set_musig p ms s) = peg_out_transaction s"
  "peg_out_graph.truncate (set_musig p ms s) = peg_out_graph.truncate s"
  "po_musig (set_musig p ms s) = (po_musig s)(p := ms)"
  "po_connectors (set_musig p ms s) = po_connectors s"
  by (simp_all add: set_musig_def peg_out_graph.truncate_def)

lemma merge_presigned_keeps [simp]:
  "n_of_n_presigned (merge_presigned p src s) = n_of_n_presigned s"
  "start_time_witness (merge_presigned p src s) = start_time_witness s"
  "superblock_hash_witness (merge_presigned p src s) = superblock_hash_witness s"
  "peg_out_chain_event (merge_presigned p src s) = peg_out_chain_event s"
  "peg_out_transaction (merge_presigned p src s) = peg_out_transaction s"
  by (simp_all add: merge_presigned_def merge_musig_def)

lemma peg_out_merge_keeps [simp]:
  "n_of_n_presigned (peg_out_merge s src) = n_of_n_presigned s"
  "start_time_witness (peg_out_merge s src) = start_time_witness s"
  "superblock_hash_witness (peg_out_merge s src) = superblock_hash_witness s"
  "peg_out_chain_event (peg_out_merge s src) = peg_out_chain_event s"
  "peg_out_transaction (peg_out_merge s src) = peg_out_transaction s"
  by (simp_all add: peg_out_merge_def Let_def)

end
