(* ===== verification/Peg_Out_Status.thy ===== *)
theory Peg_Out_Status
  imports Peg_Out_State
begin

text \<open>
  What a participant is told to do next (\<open>verifier_status\<close>, \<open>operator_status\<close> and
  \<open>withdrawer_status\<close> of \<open>graphs/peg_out.rs\<close>), as functions of its copy of the graph and of the
  answers of the node.
\<close>

datatype withdrawer_status = Peg_Out_Not_Started | Withdrawer_Wait | Withdrawer_Complete

datatype verifier_status =
    Pending_Nonces | Awaiting_Nonces | Pending_Signatures | Awaiting_Signatures
  | Verifier_Complete | Verifier_Wait | Challenge_Available | Start_Time_Timeout_Available
  | Kick_Off_Timeout_Available | Disprove_Chain_Available | Disprove_Available | Verifier_Failed

datatype operator_status =
    Operator_Wait | Operator_Complete | Operator_Failed | Start_Peg_Out | Peg_Out_Confirm_Available
  | Kick_Off_1_Available | Start_Time_Available | Kick_Off_2_Available | Assert_Initial_Available
  | Assert_Commit_1_Available | Assert_Commit_2_Available | Assert_Final_Available
  | Take_1_Available | Take_2_Available

section \<open>Statuses of the transactions\<close>

type_synonym status_result = "string + tx_status"

record peg_out_statuses =
  st_assert_initial :: status_result
  st_assert_commit_1 :: status_result
  st_assert_commit_2 :: status_result
  st_assert_final :: status_result
  st_challenge :: status_result
  st_disprove_chain :: status_result
  st_disprove :: status_result
  st_peg_out_confirm :: status_result
  st_kick_off_1 :: status_result
  st_kick_off_2 :: status_result
  st_kick_off_timeout :: status_result
  st_peg_out :: "status_result option"
  st_start_time_timeout :: status_result
  st_start_time :: status_result
  st_take_1 :: status_result
  st_take_2 :: status_result

definition get_peg_out_statuses :: "(btc_tx \<Rightarrow> tx_hash) \<Rightarrow> peg_out_state \<Rightarrow> esplora \<Rightarrow> peg_out_statuses" where
  "get_peg_out_statuses txid_of s cl =
     (let status = (\<lambda>tx. get_tx_status cl (txid_of tx)) in
      \<lparr>st_assert_initial = status (ps_tx (assert_initial_tx s)),
       st_assert_commit_1 = status (ps_tx (assert_commit_1_tx s)),
       st_assert_commit_2 = status (ps_tx (assert_commit_2_tx s)),
       st_assert_final = status (ps_tx (assert_final_tx s)),
       st_challenge = status (ps_tx (challenge_transaction s)),
       st_disprove_chain = status (ps_tx (disprove_chain_tx s)),
       st_disprove = status (ps_tx (disprove_tx s)),
       st_peg_out_confirm = status (ps_tx (peg_out_confirm_tx s)),
       st_kick_off_1 = status (ps_tx (kick_off_1_tx s)),
       st_kick_off_2 = status (ps_tx (kick_off_2_tx s)),
       st_kick_off_timeout = status (ps_tx (kick_off_timeout_tx s)),
       st_peg_out = map_option (\<lambda>t. status (ps_tx t)) (peg_out_transaction s),
       st_start_time_timeout = status (ps_tx (start_time_timeout_tx s)),
       st_start_time = status (ps_tx (start_time_tx s)),
       st_take_1 = status (ps_tx (take_1_tx s)),
       st_take_2 = status (ps_tx (take_2_tx s))\<rparr>)"

abbreviation ok_confirmed :: "status_result \<Rightarrow> bool" where
  "ok_confirmed r \<equiv> is_ok_and r confirmed"

text \<open>A time lock on a transaction whose status is known to be there.\<close>

definition if_met :: "esplora \<Rightarrow> status_result \<Rightarrow> nat \<Rightarrow> 'a option \<Rightarrow> 'a option \<Rightarrow> 'a option" where
  "if_met cl r num_blocks a b =
     (case r of
        Inl _ \<Rightarrow> None
      | Inr st \<Rightarrow> do { met \<leftarrow> timelock_met cl st num_blocks; if met then a else b })"

section \<open>Verifiers\<close>

definition verifier_status ::
  "(btc_tx \<Rightarrow> tx_hash) \<Rightarrow> esplora \<Rightarrow> 'k verifier_context \<Rightarrow> peg_out_state \<Rightarrow> verifier_status option" where
  "verifier_status txid_of cl ctx s =
     (if n_of_n_presigned s
      then
        let sts = get_peg_out_statuses txid_of s cl; c1 = pc_1 (po_connectors s) in
        if ok_confirmed (st_kick_off_2 sts)
        then
          if ok_confirmed (st_take_1 sts) \<or> ok_confirmed (st_take_2 sts) then Some Verifier_Complete
          else if ok_confirmed (st_disprove sts) \<or> ok_confirmed (st_disprove_chain sts) then Some Verifier_Failed
          else if ok_confirmed (st_assert_final sts) then Some Disprove_Available
          else Some Disprove_Chain_Available
        else if ok_confirmed (st_kick_off_1 sts)
        then
          if ok_confirmed (st_start_time_timeout sts) \<or> ok_confirmed (st_kick_off_timeout sts)
          then Some Verifier_Failed
          else if is_ok_and (st_start_time sts) (\<lambda>st. \<not> confirmed st)
          then if_met cl (st_kick_off_1 sts) (c1_timelock_2 c1)
            (Some Start_Time_Timeout_Available) (Some Verifier_Wait)
          else if_met cl (st_kick_off_1 sts) (c1_timelock_1 c1)
            (Some Kick_Off_Timeout_Available)
            (if is_ok_and (st_challenge sts) (\<lambda>st. \<not> confirmed st) then Some Challenge_Available
             else Some Verifier_Wait)
        else Some Verifier_Wait
      else if \<not> graph_has_all_nonces_of s ctx then Some Pending_Nonces
      else if \<not> graph_has_all_nonces s (vc_n_of_n_keys ctx) then Some Awaiting_Nonces
      else if \<not> graph_has_all_signatures_of s ctx then Some Pending_Signatures
      else if \<not> graph_has_all_signatures s (vc_n_of_n_keys ctx) then Some Awaiting_Signatures
      else Some Verifier_Wait)"

section \<open>The operator\<close>

text \<open>The part of the decision once kick-off 2 is confirmed and nothing has been settled.\<close>

definition operator_dispute_status :: "esplora \<Rightarrow> peg_out_connectors \<Rightarrow> peg_out_statuses \<Rightarrow> operator_status option" where
  "operator_dispute_status cl cs sts =
     (if ok_confirmed (st_challenge sts)
      then
        if ok_confirmed (st_assert_final sts)
        then if_met cl (st_assert_final sts) (c4_timelock (pc_4 cs)) (Some Take_2_Available) (Some Operator_Wait)
        else if_met cl (st_kick_off_2 sts) (cb_timelock_1 (pc_b cs))
          (if ok_confirmed (st_assert_initial sts)
           then
             if ok_confirmed (st_assert_commit_1 sts) \<and> ok_confirmed (st_assert_commit_2 sts)
             then Some Assert_Final_Available
             else if ok_confirmed (st_assert_commit_1 sts) then Some Assert_Commit_2_Available
             else Some Assert_Commit_1_Available
           else Some Assert_Initial_Available)
          (Some Operator_Wait)
      else if_met cl (st_kick_off_2 sts) (c3_timelock (pc_3 cs)) (Some Take_1_Available) (Some Operator_Wait))"

definition operator_status ::
  "(btc_tx \<Rightarrow> tx_hash) \<Rightarrow> esplora \<Rightarrow> peg_out_state \<Rightarrow> operator_status option" where
  "operator_status txid_of cl s =
     (if n_of_n_presigned s \<and> peg_out_chain_event s \<noteq> None
      then
        let sts = get_peg_out_statuses txid_of s cl; cs = po_connectors s in
        case st_peg_out sts of
          Some (Inl _) \<Rightarrow> None
        | Some (Inr st) \<Rightarrow>
            if \<not> confirmed st then Some Start_Peg_Out
            else if ok_confirmed (st_kick_off_2 sts)
            then
              if ok_confirmed (st_take_1 sts) \<or> ok_confirmed (st_take_2 sts) then Some Operator_Complete
              else if ok_confirmed (st_disprove_chain sts) \<or> ok_confirmed (st_disprove sts)
              then Some Operator_Failed
              else operator_dispute_status cl cs sts
            else if ok_confirmed (st_kick_off_1 sts)
            then
              if ok_confirmed (st_start_time_timeout sts) \<or> ok_confirmed (st_kick_off_timeout sts)
              then Some Operator_Failed
              else if ok_confirmed (st_start_time sts)
              then if_met cl (st_kick_off_1 sts) (c1_timelock_0 (pc_1 cs))
                (Some Kick_Off_2_Available) (Some Operator_Wait)
              else Some Start_Time_Available
            else if ok_confirmed (st_peg_out_confirm sts) then Some Kick_Off_1_Available
            else Some Peg_Out_Confirm_Available
        | None \<Rightarrow> Some Start_Peg_Out
      else Some Operator_Wait)"

section \<open>The withdrawer\<close>

definition interpret_withdrawer_status :: "status_result option \<Rightarrow> withdrawer_status" where
  "interpret_withdrawer_status r =
     (case r of
        Some st \<Rightarrow> if ok_confirmed st then Withdrawer_Complete else Withdrawer_Wait
      | None \<Rightarrow> Peg_Out_Not_Started)"

definition get_withdrawer_status :: "(btc_tx \<Rightarrow> tx_hash) \<Rightarrow> esplora \<Rightarrow> peg_out_state \<Rightarrow> withdrawer_status" where
  "get_withdrawer_status txid_of cl s =
     interpret_withdrawer_status
       (map_option (\<lambda>t. get_tx_status cl (txid_of (ps_tx t))) (peg_out_transaction s))"

end
