(* ===== verification/Tx_Signing.thy ===== *)
theory Tx_Signing
  imports Signing Bridge_Assert
begin

text \<open>
  How the operator, a challenger and a disprover complete a transaction of the peg-out graph
  before it is broadcast: the \<open>sign\<close>, \<open>add_output\<close> and \<open>finalize\<close> functions of
  \<open>transactions/*.rs\<close>. Each pushes on the witness it finds, so completing a transaction twice
  gives a witness twice as long.
\<close>

section \<open>Leaves with committed messages\<close>

text \<open>
  A leaf that checks a signature of the operator and Winternitz signatures of some messages: the
  signature first, then the Winternitz signatures in order.
\<close>

definition sign_committed_leaf ::
  "('k, 's) crypto \<Rightarrow> 'k \<Rightarrow> spend_info option \<Rightarrow> nat list list list \<Rightarrow> pre_signed \<Rightarrow> pre_signed option" where
  "sign_committed_leaf cr keypair spend committed t =
     do {
       script \<leftarrow> index_of (ps_prev_scripts t) 0;
       si \<leftarrow> spend;
       sig \<leftarrow> generate_taproot_leaf_schnorr_signature cr (ps_tx t) (ps_prev_outs t) 0 Sig_All script keypair;
       tx \<leftarrow> populate_taproot_input_witness cr (ps_tx t) 0 si script (sig # concat committed);
       Some (t\<lparr>ps_tx := tx\<rparr>)
     }"

definition kick_off_1_sign ::
  "('k, 's) crypto \<Rightarrow> 'k \<Rightarrow> connector_6 \<Rightarrow> nat list \<times> 's \<Rightarrow> nat list \<times> 's \<Rightarrow> pre_signed \<Rightarrow> pre_signed option" where
  "kick_off_1_sign cr keypair c6 source_txid destination_txid t =
     sign_committed_leaf cr keypair (connector_6_spend_info c6)
       [winternitz_witness cr (snd source_txid) (fst source_txid),
        winternitz_witness cr (snd destination_txid) (fst destination_txid)] t"

text \<open>The operator keeps the Winternitz signature of the hash of the superblock.\<close>

definition kick_off_2_sign ::
  "('k, 's) crypto \<Rightarrow> 'k \<Rightarrow> connector_1 \<Rightarrow> nat list \<times> 's \<Rightarrow> nat list \<times> 's \<Rightarrow> pre_signed \<Rightarrow>
     (pre_signed \<times> nat list list) option" where
  "kick_off_2_sign cr keypair c1 superblock superblock_hash t =
     (let hash_witness = winternitz_witness cr (snd superblock_hash) (fst superblock_hash) in
      do {
        t' \<leftarrow> sign_committed_leaf cr keypair (connector_1_spend_info c1)
          [winternitz_witness cr (snd superblock) (fst superblock), hash_witness] t;
        Some (t', hash_witness)
      })"

text \<open>A block number as a lock time, and the message that commits to it.\<close>

definition lock_time_threshold :: nat where
  "lock_time_threshold = 500000000"

definition le_bytes_u32 :: "nat \<Rightarrow> nat list" where
  "le_bytes_u32 n = map (\<lambda>i. n div 256 ^ i mod 256) [0, 1, 2, 3]"

definition start_time_sign ::
  "('k, 's) crypto \<Rightarrow> 'k \<Rightarrow> connector_2 \<Rightarrow> nat \<Rightarrow> 's \<Rightarrow> pre_signed \<Rightarrow> (pre_signed \<times> nat list list) option" where
  "start_time_sign cr keypair c2 start_time_block_number secret t =
     do {
       _ \<leftarrow> rust_assert (start_time_block_number < lock_time_threshold);
       let t1 = t\<lparr>ps_tx := (ps_tx t)\<lparr>tx_lock_time := start_time_block_number\<rparr>\<rparr>;
       let time_witness = winternitz_witness cr secret (le_bytes_u32 start_time_block_number);
       t2 \<leftarrow> sign_committed_leaf cr keypair (connector_2_spend_info c2) [time_witness] t1;
       Some (t2, time_witness)
     }"

section \<open>Assertions\<close>

text \<open>Each witness is run against its script before it is pushed; one that fails panics.\<close>

definition assert_commit_sign_input ::
  "('k, 's) crypto \<Rightarrow> (bridge_script \<Rightarrow> nat list list \<Rightarrow> bool) \<Rightarrow> connector_e list \<Rightarrow> pre_signed \<Rightarrow>
     nat \<times> nat list list \<Rightarrow> pre_signed option" where
  "assert_commit_sign_input cr succeeds ces t iw =
     (case iw of (i, wit) \<Rightarrow>
        do {
          ce \<leftarrow> index_of ces i;
          si \<leftarrow> connector_e_spend_info ce;
          script \<leftarrow> index_of (ps_prev_scripts t) i;
          _ \<leftarrow> rust_assert (succeeds script wit);
          tx \<leftarrow> populate_taproot_input_witness cr (ps_tx t) i si script wit;
          Some (t\<lparr>ps_tx := tx\<rparr>)
        })"

definition assert_commit_sign ::
  "('k, 's) crypto \<Rightarrow> (bridge_script \<Rightarrow> nat list list \<Rightarrow> bool) \<Rightarrow> connector_e list \<Rightarrow> nat list list list \<Rightarrow>
     pre_signed \<Rightarrow> pre_signed option" where
  "assert_commit_sign cr succeeds ces witnesses t =
     do {
       _ \<leftarrow> rust_assert (length witnesses = length ces);
       fold_option (assert_commit_sign_input cr succeeds ces) t (zip [0..<length ces] witnesses)
     }"

text \<open>The committed values are read back from the chain, without script and control block.\<close>

definition get_commit_from_assert_commit_tx :: "btc_tx \<Rightarrow> nat list list list option" where
  "get_commit_from_assert_commit_tx tx =
     fold_option (\<lambda>acc i. do {
         n \<leftarrow> checked_sub (length (witness i)) 2;
         Some (acc @ [take n (witness i)]) }) [] (tx_input tx)"

section \<open>Rewards and the last signatures\<close>

text \<open>The output of the reward is written over; the constructors leave it with an empty script.\<close>

definition add_output :: "script_pubkey \<Rightarrow> 'a pre_signed_scheme \<Rightarrow> 'a pre_signed_scheme option" where
  "add_output spk t =
     do {
       out \<leftarrow> index_of (tx_output (ps_tx t)) 1;
       Some (t\<lparr>ps_tx := (ps_tx t)\<lparr>tx_output := (tx_output (ps_tx t))[1 := out\<lparr>tx_script_pubkey := spk\<rparr>]\<rparr>\<rparr>)
     }"

definition reward_finalize :: "'a pre_signed_scheme \<Rightarrow> btc_tx option" where
  "reward_finalize t = (if length (tx_output (ps_tx t)) < 2 then None else Some (ps_tx t))"

definition disprove_finalize :: "'a pre_signed_scheme \<Rightarrow> btc_tx option" where
  "disprove_finalize t =
     (if length (tx_input (ps_tx t)) < 2 \<or> length (tx_output (ps_tx t)) < 2 then None else Some (ps_tx t))"

definition generate_script_and_control_block ::
  "('k, 's) crypto \<Rightarrow> chunk_api \<Rightarrow> connector_c \<Rightarrow> nat \<Rightarrow> (bridge_script \<times> nat list) option" where
  "generate_script_and_control_block cr api cc leaf_index =
     do {
       lock_scripts \<leftarrow> generate_assert_leaves api (cc_keys cc);
       si \<leftarrow> generate_taproot_spend_info api (cc_operator_key cc) lock_scripts;
       script \<leftarrow> index_of lock_scripts leaf_index;
       _ \<leftarrow> rust_assert (script \<in> snd ` set (tap_leaves si));
       Some (script, control_block cr si script)
     }"

definition add_input_output ::
  "('k, 's) crypto \<Rightarrow> chunk_api \<Rightarrow> connector_c \<Rightarrow> nat \<Rightarrow> nat list list \<Rightarrow> script_pubkey \<Rightarrow>
     'a pre_signed_scheme \<Rightarrow> 'a pre_signed_scheme option" where
  "add_input_output cr api cc script_index script_witness spk t =
     do {
       t1 \<leftarrow> add_output spk t;
       tx1 \<leftarrow> fold_option (push_witness 1) (ps_tx t1) script_witness;
       (script, cached) \<leftarrow> generate_script_and_control_block cr api cc script_index;
       tx2 \<leftarrow> push_taproot_leaf_script_and_cached_control_block_to_witness cr tx1 1 cached script;
       Some (t1\<lparr>ps_tx := tx2\<rparr>)
     }"

text \<open>The bytes of the super block header are pushed in reverse, one by one.\<close>

definition disprove_chain_sign ::
  "nat list \<Rightarrow> nat list list \<Rightarrow> nat list list \<Rightarrow> 'a pre_signed_scheme \<Rightarrow> 'a pre_signed_scheme option" where
  "disprove_chain_sign superblock_message time_witness hash_witness t =
     do {
       tx \<leftarrow> push_taproot_leaf_unlock_data_to_witness (ps_tx t) 0
         (map (\<lambda>b. [b]) (rev superblock_message) @ time_witness @ hash_witness);
       Some (t\<lparr>ps_tx := tx\<rparr>)
     }"

definition take_2_sign ::
  "('k, 's) crypto \<Rightarrow> chunk_api \<Rightarrow> 'k \<Rightarrow> connector_c \<Rightarrow> pre_signed \<Rightarrow> pre_signed option" where
  "take_2_sign cr api keypair cc t =
     do {
       si \<leftarrow> connector_c_spend_info api cc;
       tx \<leftarrow> populate_p2tr_key_spend_witness cr (ps_tx t) 3 (ps_prev_outs t) Sig_All si keypair;
       Some (t\<lparr>ps_tx := tx\<rparr>)
     }"

section \<open>What completing a transaction keeps\<close>

lemma sign_committed_leaf_keeps:
  "sign_committed_leaf cr keypair spend committed t = Some t' \<Longrightarrow>
     unsigned (ps_tx t') = unsigned (ps_tx t) \<and>
     (\<exists>sig si. appends (ps_tx t) 0 (map minimal_element (sig # concat committed) @
        [script_bytes cr (ps_prev_scripts t ! 0), control_block cr si (ps_prev_scripts t ! 0)]) (ps_tx t'))"
  by (fastforce simp: sign_committed_leaf_def bind_eq_Some_conv index_of_def split: if_splits
      dest!: populate_taproot_appends intro: appends_unsigned)

lemma kick_off_1_sign_keeps [signing_rules]:
  "kick_off_1_sign cr keypair c6 a b t = Some t' \<Longrightarrow> unsigned (ps_tx t') = unsigned (ps_tx t)"
  unfolding kick_off_1_sign_def by (drule sign_committed_leaf_keeps) blast

lemma kick_off_2_sign_keeps [signing_rules]:
  "kick_off_2_sign cr keypair c1 a b t = Some (t', w) \<Longrightarrow> unsigned (ps_tx t') = unsigned (ps_tx t)"
  by (auto simp: kick_off_2_sign_def Let_def bind_eq_Some_conv dest!: sign_committed_leaf_keeps)

lemma start_time_sign_keeps [signing_rules]:
  "start_time_sign cr keypair c2 n secret t = Some (t', w) \<Longrightarrow>
     unsigned (ps_tx t') = (unsigned (ps_tx t))\<lparr>tx_lock_time := n\<rparr>"
  by (auto simp: start_time_sign_def Let_def bind_eq_Some_conv unsigned_def dest!: sign_committed_leaf_keeps)

lemma assert_commit_sign_keeps [signing_rules]:
  assumes "assert_commit_sign cr succeeds ces witnesses t = Some t'"
  shows "unsigned (ps_tx t') = unsigned (ps_tx t)"
proof -
  have one: "unsigned (ps_tx t2) = unsigned (ps_tx t1)"
    if "assert_commit_sign_input cr succeeds ces t1 iw = Some t2" for t1 t2 iw
    using that by (auto simp: assert_commit_sign_input_def bind_eq_Some_conv split: prod.splits
        dest!: populate_taproot_appends intro: appends_unsigned)
  have "fold_option (assert_commit_sign_input cr succeeds ces) t1 iws = Some t2 \<Longrightarrow>
      unsigned (ps_tx t2) = unsigned (ps_tx t1)" for iws t1 t2
    by (induction iws arbitrary: t1) (auto simp: bind_eq_Some_conv dest!: one)
  then show ?thesis using assms by (auto simp: assert_commit_sign_def bind_eq_Some_conv)
qed

lemma take_2_sign_keeps [signing_rules]:
  "take_2_sign cr api keypair cc t = Some t' \<Longrightarrow> unsigned (ps_tx t') = unsigned (ps_tx t)"
  by (auto simp: take_2_sign_def bind_eq_Some_conv dest!: populate_key_spend_appends intro: appends_unsigned)

lemma fold_push_witness_unsigned:
  "fold_option (push_witness i) tx elements = Some tx' \<Longrightarrow> unsigned tx' = unsigned tx"
  by (induction elements arbitrary: tx)
    (auto simp: bind_eq_Some_conv dest!: push_witness_appends appends_unsigned)

lemma disprove_chain_sign_keeps [signing_rules]:
  "disprove_chain_sign m a b t = Some t' \<Longrightarrow> unsigned (ps_tx t') = unsigned (ps_tx t)"
  by (auto simp: disprove_chain_sign_def bind_eq_Some_conv push_taproot_leaf_unlock_data_to_witness_def
      dest!: fold_push_witness_unsigned)

section \<open>Extensions of a transaction\<close>

text \<open>
  The changes that completing and merging make to a transaction: inputs with a final sequence
  number are added at the end, the first output stays.
\<close>

abbreviation unsigned_ins :: "btc_tx \<Rightarrow> tx_in list" where
  "unsigned_ins t \<equiv> map unsigned_in (tx_input t)"

definition extends_tx :: "btc_tx \<Rightarrow> btc_tx \<Rightarrow> bool" where
  "extends_tx a b \<longleftrightarrow>
     (\<exists>extra. unsigned_ins b = unsigned_ins a @ extra \<and> (\<forall>i \<in> set extra. tx_sequence i = 0xFFFFFFFF)) \<and>
     tx_output a \<noteq> [] \<and> take 1 (tx_output b) = take 1 (tx_output a)"

lemma extends_tx_refl: "tx_output a \<noteq> [] \<Longrightarrow> extends_tx a a"
  by (simp add: extends_tx_def)

lemma extends_tx_trans: "extends_tx a b \<Longrightarrow> extends_tx b c \<Longrightarrow> extends_tx a c"
  by (fastforce simp: extends_tx_def)

lemma extends_tx_cong:
  "extends_tx a b \<Longrightarrow> unsigned_ins c = unsigned_ins b \<Longrightarrow> take 1 (tx_output c) = take 1 (tx_output b) \<Longrightarrow> extends_tx a c"
  by (simp add: extends_tx_def)

lemma unsigned_parts:
  "unsigned c = unsigned b \<Longrightarrow> unsigned_ins c = unsigned_ins b \<and> tx_output c = tx_output b"
  by (cases b; cases c; simp add: unsigned_def)

lemma extends_tx_unsigned: "extends_tx a b \<Longrightarrow> unsigned c = unsigned b \<Longrightarrow> extends_tx a c"
  by (erule extends_tx_cong) (simp_all add: unsigned_parts [of c b])

lemma extends_tx_lock_time:
  "extends_tx a b \<Longrightarrow> unsigned c = (unsigned b)\<lparr>tx_lock_time := n\<rparr> \<Longrightarrow> extends_tx a c"
  using extends_tx_unsigned [of a "b\<lparr>tx_lock_time := n\<rparr>" c] by (simp add: extends_tx_def unsigned_def)

lemma add_output_extends:
  "add_output spk t = Some t' \<Longrightarrow> extends_tx a (ps_tx t) \<Longrightarrow> extends_tx a (ps_tx t')"
  by (cases "tx_output (ps_tx t)")
    (auto simp: add_output_def index_of_def bind_eq_Some_conv extends_tx_def split: if_splits)

lemma add_input_output_extends:
  assumes "add_input_output cr api cc i wit spk t = Some t'" "extends_tx a (ps_tx t)"
  shows "extends_tx a (ps_tx t')"
proof -
  obtain t1 tx1 script cached tx2 where
    t1: "add_output spk t = Some t1" "fold_option (push_witness 1) (ps_tx t1) wit = Some tx1"
    and tx2: "push_taproot_leaf_script_and_cached_control_block_to_witness cr tx1 1 cached script = Some tx2"
      "t' = t1\<lparr>ps_tx := tx2\<rparr>"
    using assms(1) by (auto simp: add_input_output_def bind_eq_Some_conv)
  have "unsigned tx2 = unsigned (ps_tx t1)"
    using fold_push_witness_unsigned [OF t1(2)] appends_unsigned [OF push_cached_leaf_appends [OF tx2(1)]] by simp
  then show ?thesis using extends_tx_unsigned [OF add_output_extends [OF t1(1) assms(2)]] tx2(2) by simp
qed

text \<open>Merging another extension of the same transaction.\<close>

lemma merge_unsigned_ins:
  assumes "length (tx_input a) \<le> length (tx_input b)"
  shows "unsigned_ins (merge_transactions b c) = unsigned_ins b @ drop (length (tx_input b)) (unsigned_ins c)"
proof (rule nth_equalityI)
  fix i assume "i < length (unsigned_ins (merge_transactions b c))"
  then have i: "i < max (length (tx_input b)) (length (tx_input c))" by simp
  then show "unsigned_ins (merge_transactions b c) ! i =
      (unsigned_ins b @ drop (length (tx_input b)) (unsigned_ins c)) ! i"
    by (auto simp: merge_transactions_nth nth_append unsigned_in_def longer_witness_def)
qed simp

lemma take_1_append: "xs \<noteq> [] \<Longrightarrow> take (Suc 0) (xs @ ys) = take (Suc 0) xs"
  by (cases xs) simp_all

lemma merge_transactions_extends:
  assumes "extends_tx a b" "extends_tx a c"
  shows "extends_tx a (merge_transactions b c)"
proof -
  obtain eb where b: "unsigned_ins b = unsigned_ins a @ eb" "\<forall>i \<in> set eb. tx_sequence i = 0xFFFFFFFF"
    "tx_output a \<noteq> []" "take 1 (tx_output b) = take 1 (tx_output a)"
    using assms(1) by (auto simp: extends_tx_def)
  obtain ec where c: "unsigned_ins c = unsigned_ins a @ ec" "\<forall>i \<in> set ec. tx_sequence i = 0xFFFFFFFF"
    using assms(2) by (auto simp: extends_tx_def)
  have len: "length (tx_input b) = length (tx_input a) + length eb"
    using arg_cong [OF b(1), of length] by simp
  have "unsigned_ins (merge_transactions b c) = unsigned_ins a @ eb @ drop (length eb) ec"
    using merge_unsigned_ins [of a b c] by (simp add: len b(1) c(1))
  moreover have "\<forall>i \<in> set (eb @ drop (length eb) ec). tx_sequence i = 0xFFFFFFFF"
    using b(2) c(2) by (auto dest: in_set_dropD)
  moreover have "tx_output b \<noteq> []" using b(3,4) by auto
  moreover from this have "take 1 (tx_output (merge_transactions b c)) = take 1 (tx_output a)"
    using b(4) by (simp add: push_missing_eq take_1_append del: take_append)
  ultimately show ?thesis using b(3) unfolding extends_tx_def by blast
qed

lemma merge_transactions_same:
  assumes "unsigned b = unsigned a" "unsigned c = unsigned a"
  shows "unsigned (merge_transactions b c) = unsigned a"
proof -
  have len: "length (tx_input c) = length (tx_input b)" "tx_output c = tx_output b"
    using assms unsigned_eqD(1,2) by metis+
  have "unsigned_ins (merge_transactions b c) = unsigned_ins b"
    using merge_unsigned_ins [of b b c] len by simp
  then have "unsigned (merge_transactions b c) = unsigned b"
    using len by (simp add: unsigned_def push_missing_eq)
  then show ?thesis using assms(1) by simp
qed

text \<open>The crowdfunding inputs of a challenge.\<close>

lemma push_input_unsigned_ins:
  "unsigned_ins (push_input sign tx inp) = unsigned_ins tx @
     [\<lparr>previous_output = in_outpoint inp, script_sig = [], tx_sequence = 0xFFFFFFFF, witness = []\<rparr>]"
  by (simp add: push_input_def Let_def unsigned_in_def list_update_append)

lemma fold_push_input_extends:
  "extends_tx a tx \<Longrightarrow> extends_tx a (fold (\<lambda>inp tx. push_input sign tx inp) inputs tx)"
proof (induction inputs arbitrary: tx)
  case (Cons inp inputs)
  have "extends_tx a (push_input sign tx inp)"
    using Cons.prems by (auto simp: extends_tx_def push_input_unsigned_ins)
  then show ?case using Cons.IH by simp
qed simp

lemma add_inputs_and_output_extends:
  assumes "add_inputs_and_output pol sign ch inputs spk = Some ch'" "extends_tx a (ps_tx ch)"
  shows "extends_tx a (ps_tx ch')"
proof -
  obtain refund where "ps_tx ch' =
      fold (\<lambda>inp tx. push_input sign tx inp) inputs ((ps_tx ch)\<lparr>tx_output := tx_output (ps_tx ch) @ refund\<rparr>)"
    using assms(1) by (auto simp: add_inputs_and_output_def bind_eq_Some_conv Let_def)
  moreover have "extends_tx a ((ps_tx ch)\<lparr>tx_output := tx_output (ps_tx ch) @ refund\<rparr>)"
    using assms(2) take_1_append [of "tx_output (ps_tx ch)" refund]
    by (cases "tx_output (ps_tx ch)") (auto simp: extends_tx_def simp del: take_append)
  ultimately show ?thesis using fold_push_input_extends by metis
qed

end
