(* ===== verification/Peg_Out_Actions.thy ===== *)
theory Peg_Out_Actions
  imports Peg_Out_Status Tx_Signing
begin

text \<open>
  The operations that prepare a transaction of the peg-out graph for broadcast (\<open>peg_out\<close> to
  \<open>take_2\<close> of \<open>graphs/peg_out.rs\<close>). Each looks at the chain, completes the transaction in the
  copy of the participant and returns it, or fails with an error; the copy keeps the changes
  made before an error.

  The surroundings of an operation are its argument \<open>env\<close>: the node, the signature schemes, the
  network, the super block, the script interpreter that checks the witnesses of the assertions
  and the verifier of the Groth16 proof that finds a disproved step.
\<close>

record ('k, 's) env =
  env_txid :: "btc_tx \<Rightarrow> tx_hash"
  env_client :: esplora
  env_policy :: fee_policy
  env_crypto :: "('k, 's) crypto"
  env_api :: chunk_api
  env_txid_bytes :: "tx_hash \<Rightarrow> nat list"
  env_show_txid :: "tx_hash \<Rightarrow> string"
  env_inscription :: "nat list \<Rightarrow> nat list"
  env_challenge_witness :: witness_of
  env_superblock_message :: "nat list"
  env_superblock_hash_message :: "nat list"
  env_succeeds :: "bridge_script \<Rightarrow> nat list list \<Rightarrow> bool"
  env_disprove_witness :: "connector_c \<Rightarrow> nat list list list \<Rightarrow> nat list list list \<Rightarrow> bridge_error + nat \<times> nat list list"

abbreviation txid_in :: "('k, 's) env \<Rightarrow> 'a pre_signed_scheme \<Rightarrow> tx_hash" where
  "txid_in env t \<equiv> env_txid env (ps_tx t)"

type_synonym po_outcome = "(peg_out_state, btc_tx) outcome"

text \<open>The start of most operations: the transaction must not be mined yet.\<close>

definition unless_mined :: "('k, 's) env \<Rightarrow> 'a pre_signed_scheme \<Rightarrow> 'x \<Rightarrow> ('x, 'b) outcome \<Rightarrow> ('x, 'b) outcome" where
  "unless_mined env t s k = attempt (verify_if_not_mined (env_client env) (txid_in env t)) s (\<lambda>_. k)"

lemma unless_mined_ok:
  "unless_mined env t s k = Some (s', Inr y) \<longleftrightarrow>
     is_confirmed (env_client env) (txid_in env t) = Inr False \<and> k = Some (s', Inr y)"
  by (auto simp: unless_mined_def attempt_ok verify_if_not_mined_ok)

definition get_start_time_block_number :: "btc_network \<Rightarrow> nat" where
  "get_start_time_block_number net =
     (case net of Btc_Mainnet \<Rightarrow> 161249 | Btc_Regtest \<Rightarrow> 100 | _ \<Rightarrow> 161249)"

section \<open>From the peg-out to the kick-off\<close>

definition peg_out_new ::
  "('k, 's) env \<Rightarrow> operator_context \<Rightarrow> 'k \<Rightarrow> peg_out_event \<Rightarrow> tx_input_ref \<Rightarrow> pre_signed option" where
  "peg_out_new env ctx keypair event input =
     do {
       t \<leftarrow> peg_out_new_for_validation (env_policy env) (env_inscription env) (oc_network ctx) (oc_operator_key ctx)
         event input;
       pre_sign_p2wsh_input (env_crypto env) t 0 Sig_All [keypair]
     }"

definition peg_out_action ::
  "('k, 's) env \<Rightarrow> operator_context \<Rightarrow> 'k \<Rightarrow> tx_input_ref \<Rightarrow> peg_out_state \<Rightarrow> po_outcome" where
  "peg_out_action env ctx keypair input s =
     (case peg_out_chain_event s of
        None \<Rightarrow> Some (s, Inl Peg_Out_Not_Initiated)
      | Some event \<Rightarrow>
          (case peg_out_transaction s of
             Some t \<Rightarrow> unless_mined env t s (Some (s, Inr (ps_tx t)))
           | None \<Rightarrow>
               do {
                 t \<leftarrow> peg_out_new env ctx keypair event input;
                 Some (s\<lparr>peg_out_transaction := Some t\<rparr>, Inr (ps_tx t))
               }))"

definition peg_out_confirm_action :: "('k, 's) env \<Rightarrow> peg_out_state \<Rightarrow> po_outcome" where
  "peg_out_confirm_action env s =
     unless_mined env (peg_out_confirm_tx s) s
       (case peg_out_transaction s of
          Some t \<Rightarrow>
            if_confirmed (env_client env) (txid_in env t) ''PegOut'' s
              (\<lambda>_. Some (s, Inr (ps_tx (peg_out_confirm_tx s))))
        | None \<Rightarrow> Some (s, Inl (Preceding_Tx_Not_Created ''peg-out'')))"

definition kick_off_1_action ::
  "('k, 's) env \<Rightarrow> 'k \<Rightarrow> 's \<Rightarrow> 's \<Rightarrow> peg_out_state \<Rightarrow> po_outcome" where
  "kick_off_1_action env keypair source_secret destination_secret s =
     unless_mined env (kick_off_1_tx s) s
       (if_confirmed (env_client env) (txid_in env (peg_out_confirm_tx s)) ''PegOutConfirm'' s (\<lambda>_.
          do {
            t \<leftarrow> peg_out_transaction s;
            event \<leftarrow> peg_out_chain_event s;
            k1 \<leftarrow> kick_off_1_sign (env_crypto env) keypair (pc_6 (po_connectors s))
              (env_txid_bytes env (txid_in env t), source_secret) (event_tx_hash event, destination_secret)
              (kick_off_1_tx s);
            Some (s\<lparr>kick_off_1_tx := k1\<rparr>, Inr (ps_tx k1))
          }))"

section \<open>The start time, the challenge and the timeouts\<close>

definition challenge_action ::
  "('k, 's) env \<Rightarrow> input_with_script list \<Rightarrow> script_pubkey \<Rightarrow> peg_out_state \<Rightarrow> po_outcome" where
  "challenge_action env inputs out_script s =
     unless_mined env (challenge_transaction s) s
       (if_confirmed (env_client env) (txid_in env (kick_off_1_tx s)) ''KickOff1'' s (\<lambda>_.
          do {
            ch \<leftarrow> add_inputs_and_output (env_policy env) (env_challenge_witness env) (challenge_transaction s)
              inputs out_script;
            tx \<leftarrow> challenge_finalize ch;
            Some (s\<lparr>challenge_transaction := ch\<rparr>, Inr tx)
          }))"

definition start_time_action ::
  "('k, 's) env \<Rightarrow> operator_context \<Rightarrow> 'k \<Rightarrow> 's \<Rightarrow> peg_out_state \<Rightarrow> po_outcome" where
  "start_time_action env ctx keypair secret s =
     unless_mined env (start_time_tx s) s
       (if_confirmed (env_client env) (txid_in env (kick_off_1_tx s)) ''KickOff1'' s (\<lambda>_.
          do {
            (st, w) \<leftarrow> start_time_sign (env_crypto env) keypair (pc_2 (po_connectors s))
              (get_start_time_block_number (oc_network ctx)) secret (start_time_tx s);
            Some (s\<lparr>start_time_tx := st, start_time_witness := Some w\<rparr>, Inr (ps_tx st))
          }))"

definition start_time_timeout_action :: "('k, 's) env \<Rightarrow> script_pubkey \<Rightarrow> peg_out_state \<Rightarrow> po_outcome" where
  "start_time_timeout_action env out_script s =
     unless_mined env (start_time_timeout_tx s) s
       (if_confirmed (env_client env) (txid_in env (kick_off_1_tx s)) ''KickOff1'' s (\<lambda>st.
          if_timelock_met (env_client env) st (c1_timelock_2 (pc_1 (po_connectors s)))
            (Named_Tx (txid_in env (kick_off_1_tx s)) ''KickOff1'' (confirmed st)) s
            (do {
               stt \<leftarrow> add_output out_script (start_time_timeout_tx s);
               tx \<leftarrow> reward_finalize stt;
               Some (s\<lparr>start_time_timeout_tx := stt\<rparr>, Inr tx)
             })))"

definition kick_off_2_action ::
  "('k, 's) env \<Rightarrow> 'k \<Rightarrow> 's \<Rightarrow> 's \<Rightarrow> peg_out_state \<Rightarrow> po_outcome" where
  "kick_off_2_action env keypair superblock_secret superblock_hash_secret s =
     unless_mined env (kick_off_2_tx s) s
       (if_confirmed (env_client env) (txid_in env (kick_off_1_tx s)) ''KickOff1'' s (\<lambda>st.
          if_timelock_met (env_client env) st (c1_timelock_0 (pc_1 (po_connectors s)))
            (Named_Tx (txid_in env (kick_off_1_tx s)) ''KickOff1'' (confirmed st)) s
            (do {
               (k2, w) \<leftarrow> kick_off_2_sign (env_crypto env) keypair (pc_1 (po_connectors s))
                 (env_superblock_message env, superblock_secret)
                 (env_superblock_hash_message env, superblock_hash_secret) (kick_off_2_tx s);
               Some (s\<lparr>kick_off_2_tx := k2, superblock_hash_witness := Some w\<rparr>, Inr (ps_tx k2))
             })))"

definition kick_off_timeout_action :: "('k, 's) env \<Rightarrow> script_pubkey \<Rightarrow> peg_out_state \<Rightarrow> po_outcome" where
  "kick_off_timeout_action env out_script s =
     unless_mined env (kick_off_timeout_tx s) s
       (if_confirmed (env_client env) (txid_in env (kick_off_1_tx s)) ''KickOff1'' s (\<lambda>st.
          if_timelock_met (env_client env) st (c1_timelock_1 (pc_1 (po_connectors s)))
            (Named_Tx (txid_in env (kick_off_1_tx s)) ''KickOff1'' (confirmed st)) s
            (do {
               kt \<leftarrow> add_output out_script (kick_off_timeout_tx s);
               tx \<leftarrow> reward_finalize kt;
               Some (s\<lparr>kick_off_timeout_tx := kt\<rparr>, Inr tx)
             })))"

section \<open>Assertions\<close>

definition assert_initial_action :: "('k, 's) env \<Rightarrow> peg_out_state \<Rightarrow> po_outcome" where
  "assert_initial_action env s =
     unless_mined env (assert_initial_tx s) s
       (if_confirmed (env_client env) (txid_in env (kick_off_2_tx s)) ''KickOff2'' s (\<lambda>st.
          if_timelock_met (env_client env) st (cb_timelock_1 (pc_b (po_connectors s)))
            (Named_Tx (txid_in env (kick_off_2_tx s)) ''KickOff2'' (confirmed st)) s
            (Some (s, Inr (ps_tx (assert_initial_tx s))))))"

text \<open>The witnesses of a proof are those of all intermediate values, in order.\<close>

definition assert_commit_1_action :: "('k, 's) env \<Rightarrow> nat list list list \<Rightarrow> peg_out_state \<Rightarrow> po_outcome" where
  "assert_commit_1_action env proof_witnesses s =
     unless_mined env (assert_commit_1_tx s) s
       (if_confirmed (env_client env) (txid_in env (assert_initial_tx s)) ''AssertInitial'' s (\<lambda>_.
          do {
            (w1, _) \<leftarrow> split_raw_witnesses proof_witnesses;
            c1 \<leftarrow> assert_commit_sign (env_crypto env) (env_succeeds env) (pc_e_1 (po_connectors s)) w1
              (assert_commit_1_tx s);
            Some (s\<lparr>assert_commit_1_tx := c1\<rparr>, Inr (ps_tx c1))
          }))"

definition assert_commit_2_action :: "('k, 's) env \<Rightarrow> nat list list list \<Rightarrow> peg_out_state \<Rightarrow> po_outcome" where
  "assert_commit_2_action env proof_witnesses s =
     unless_mined env (assert_commit_2_tx s) s
       (if_confirmed (env_client env) (txid_in env (assert_initial_tx s)) ''AssertInitial'' s (\<lambda>_.
          do {
            (_, w2) \<leftarrow> split_raw_witnesses proof_witnesses;
            c2 \<leftarrow> assert_commit_sign (env_crypto env) (env_succeeds env) (pc_e_2 (po_connectors s)) w2
              (assert_commit_2_tx s);
            Some (s\<lparr>assert_commit_2_tx := c2\<rparr>, Inr (ps_tx c2))
          }))"

definition assert_commits_action ::
  "('k, 's) env \<Rightarrow> nat list list list \<Rightarrow> peg_out_state \<Rightarrow> (peg_out_state, btc_tx \<times> btc_tx) outcome" where
  "assert_commits_action env proof_witnesses s =
     unless_mined env (assert_commit_1_tx s) s
       (unless_mined env (assert_commit_2_tx s) s
         (if_confirmed (env_client env) (txid_in env (assert_initial_tx s)) ''AssertInitial'' s (\<lambda>_.
            do {
              (w1, w2) \<leftarrow> split_raw_witnesses proof_witnesses;
              c1 \<leftarrow> assert_commit_sign (env_crypto env) (env_succeeds env) (pc_e_1 (po_connectors s)) w1
                (assert_commit_1_tx s);
              c2 \<leftarrow> assert_commit_sign (env_crypto env) (env_succeeds env) (pc_e_2 (po_connectors s)) w2
                (assert_commit_2_tx s);
              Some (s\<lparr>assert_commit_1_tx := c1, assert_commit_2_tx := c2\<rparr>, Inr (ps_tx c1, ps_tx c2))
            })))"

definition assert_final_action :: "('k, 's) env \<Rightarrow> peg_out_state \<Rightarrow> po_outcome" where
  "assert_final_action env s =
     unless_mined env (assert_final_tx s) s
       (if_confirmed (env_client env) (txid_in env (assert_initial_tx s)) ''AssertInitial'' s (\<lambda>_.
          Some (s, Inr (ps_tx (assert_final_tx s)))))"

section \<open>Disproving\<close>

text \<open>A transaction that must be on the chain, with what is asked about it.\<close>

definition onchain :: "('k, 's) env \<Rightarrow> 'a pre_signed_scheme \<Rightarrow> string \<Rightarrow> bridge_error + btc_tx" where
  "onchain env t name =
     (case get_tx (env_client env) (txid_in env t) of
        Inl e \<Rightarrow> Inl (Esplora_Error e)
      | Inr None \<Rightarrow>
          Inl (Other_Error (''Esplora failed to retrieve a tx '' @ name @ '' with id: '' @ env_show_txid env (txid_in env t)))
      | Inr (Some tx) \<Rightarrow> Inr tx)"

definition disprove_action :: "('k, 's) env \<Rightarrow> script_pubkey \<Rightarrow> peg_out_state \<Rightarrow> po_outcome" where
  "disprove_action env out_script s =
     unless_mined env (disprove_tx s) s
       (attempt (onchain env (assert_commit_1_tx s) ''AssertCommit1'') s (\<lambda>onchain_1.
        attempt (onchain env (assert_commit_2_tx s) ''AssertCommit2'') s (\<lambda>onchain_2.
        if_confirmed (env_client env) (txid_in env (assert_final_tx s)) ''AssertFinal'' s (\<lambda>_.
          do {
            w1 \<leftarrow> get_commit_from_assert_commit_tx onchain_1;
            w2 \<leftarrow> get_commit_from_assert_commit_tx onchain_2;
            attempt (env_disprove_witness env (pc_c (po_connectors s)) w1 w2) s (\<lambda>(script_index, wit).
              do {
                dp \<leftarrow> add_input_output (env_crypto env) (env_api env) (pc_c (po_connectors s)) script_index wit
                  out_script (disprove_tx s);
                tx \<leftarrow> disprove_finalize dp;
                Some (s\<lparr>disprove_tx := dp\<rparr>, Inr tx)
              })
          }))))"

definition or_not_generated :: "commitment_message_id \<Rightarrow> 'a option \<Rightarrow> bridge_error + 'a" where
  "or_not_generated k w = (case w of None \<Rightarrow> Inl (Witness_Not_Generated k) | Some x \<Rightarrow> Inr x)"

text \<open>The reward is set before the witnesses are looked up; an error leaves it set.\<close>

definition disprove_chain_action :: "('k, 's) env \<Rightarrow> script_pubkey \<Rightarrow> peg_out_state \<Rightarrow> po_outcome" where
  "disprove_chain_action env out_script s =
     unless_mined env (disprove_chain_tx s) s
       (if_confirmed (env_client env) (txid_in env (kick_off_2_tx s)) ''KickOff2'' s (\<lambda>_.
          do {
            dc \<leftarrow> add_output out_script (disprove_chain_tx s);
            let s1 = s\<lparr>disprove_chain_tx := dc\<rparr>;
            attempt (or_not_generated StartTime (start_time_witness s)) s1 (\<lambda>time_witness.
            attempt (or_not_generated SuperblockHash (superblock_hash_witness s)) s1 (\<lambda>hash_witness.
              do {
                dc' \<leftarrow> disprove_chain_sign (env_superblock_message env) time_witness hash_witness dc;
                tx \<leftarrow> reward_finalize dc';
                Some (s\<lparr>disprove_chain_tx := dc'\<rparr>, Inr tx)
              }))
          }))"

section \<open>Taking the reimbursement\<close>

text \<open>The first error, in the order of the tuple, of several status requests.\<close>

definition take_1_action :: "('k, 's) env \<Rightarrow> peg_out_state \<Rightarrow> po_outcome" where
  "take_1_action env s =
     unless_mined env (take_1_tx s) s
       (unless_mined env (challenge_transaction s) s
         (unless_mined env (assert_initial_tx s) s
           (unless_mined env (disprove_chain_tx s) s
             (let cl = env_client env; k1 = txid_in env (kick_off_1_tx s); k2 = txid_in env (kick_off_2_tx s) in
              with_status cl (peg_in_confirm_txid s) s (\<lambda>pic_st.
              with_status cl k1 s (\<lambda>k1_st.
              with_status cl k2 s (\<lambda>k2_st.
                if confirmed pic_st \<and> confirmed k1_st \<and> confirmed k2_st
                then if_timelock_met cl k2_st (c3_timelock (pc_3 (po_connectors s)))
                  (Named_Tx k2 ''KickOff2'' (confirmed k2_st)) s
                  (Some (s, Inr (ps_tx (take_1_tx s))))
                else Some (s, Inl (Preceding_Tx_Not_Confirmed
                  [Named_Tx (peg_in_confirm_txid s) ''PegInConfirm'' (confirmed pic_st),
                   Named_Tx k1 ''KickOff1'' (confirmed k1_st), Named_Tx k2 ''KickOff2'' (confirmed k2_st)])))))))))"

definition take_2_action :: "('k, 's) env \<Rightarrow> 'k \<Rightarrow> peg_out_state \<Rightarrow> po_outcome" where
  "take_2_action env keypair s =
     unless_mined env (take_2_tx s) s
       (unless_mined env (take_1_tx s) s
         (unless_mined env (disprove_tx s) s
           (let cl = env_client env; af = txid_in env (assert_final_tx s) in
            with_status cl (peg_in_confirm_txid s) s (\<lambda>pic_st.
            with_status cl af s (\<lambda>af_st.
              if confirmed pic_st \<and> confirmed af_st
              then if_timelock_met cl af_st (c4_timelock (pc_4 (po_connectors s)))
                (Named_Tx af ''AssertFinal'' (confirmed af_st)) s
                (do {
                   t2 \<leftarrow> take_2_sign (env_crypto env) (env_api env) keypair (pc_c (po_connectors s)) (take_2_tx s);
                   Some (s\<lparr>take_2_tx := t2\<rparr>, Inr (ps_tx t2))
                 })
              else Some (s, Inl (Preceding_Tx_Not_Confirmed
                [Named_Tx (peg_in_confirm_txid s) ''PegInConfirm'' (confirmed pic_st),
                 Named_Tx af ''AssertFinal'' (confirmed af_st)])))))))"

section \<open>The event of the other chain\<close>

text \<open>
  \<open>Vec::swap_remove\<close>: the last element takes the place of the removed one; an index out of
  range panics. The indices of the matching events are removed in ascending order.
\<close>

definition swap_remove :: "'a list \<Rightarrow> nat \<Rightarrow> 'a list option" where
  "swap_remove xs i = (if i < length xs then Some (butlast (xs[i := last xs])) else None)"

definition match_and_set_peg_out_event ::
  "peg_out_state \<Rightarrow> peg_out_event list \<Rightarrow>
     (peg_out_state \<times> peg_out_event list \<times> (string + peg_out_event option)) option" where
  "match_and_set_peg_out_event s all_events =
     (let matches = (\<lambda>i. op_txid (source_outpoint (all_events ! i)) = peg_in_confirm_txid s \<and>
            operator_public_key (all_events ! i) = po_operator_key s);
          ids = filter matches [0..<length all_events] in
      do {
        rest \<leftarrow> fold_option swap_remove all_events ids;
        case map ((!) all_events) ids of
          [] \<Rightarrow> Some (s, rest, Inr None)
        | [event] \<Rightarrow> Some (s\<lparr>peg_out_chain_event := Some event\<rparr>, rest, Inr (Some event))
        | _ \<Rightarrow> Some (s, rest, Inl ''Event from L2 chain is not unique'')
      })"

end
