(* ===== verification/Bridge_Ledger.thy ===== *)
theory Bridge_Ledger
  imports Peg_Out_Funds Tx_Base "HOL-Library.Countable"
begin

text \<open>
  The chain the bridge settles on, as far as the protocol depends on it: a ledger of confirmed
  transactions in which no output is spent twice and nothing is spent before it exists. A
  transaction of a graph may be confirmed in a changed form (more inputs, another lock time, a
  reward output that pays whoever completes it); what its first signature fixes are the outputs
  it spends, in order, and its first output.

  The properties are the settlement rules of the bridge: which outcomes of a peg-out exclude one
  another, whatever order the participants broadcast in and whatever else is confirmed.
\<close>

section \<open>Ledgers\<close>

definition outpoints_of :: "btc_tx \<Rightarrow> outpoint list" where
  "outpoints_of t = map previous_output (tx_input t)"

definition creates :: "(btc_tx \<Rightarrow> tx_hash) \<Rightarrow> btc_tx \<Rightarrow> outpoint \<Rightarrow> bool" where
  "creates txid_of t op \<longleftrightarrow> op_txid op = txid_of t \<and> op_vout op < length (tx_output t)"

text \<open>
  A transaction can be confirmed on top of a ledger when its inputs are distinct, each of them
  is an output of the ledger or one from outside (the list \<open>base\<close>), and none is spent.
\<close>

definition confirms :: "(btc_tx \<Rightarrow> tx_hash) \<Rightarrow> outpoint list \<Rightarrow> btc_tx list \<Rightarrow> btc_tx \<Rightarrow> bool" where
  "confirms txid_of base txs t \<longleftrightarrow>
     distinct (outpoints_of t) \<and>
     (\<forall>op \<in> set (outpoints_of t).
        (op \<in> set base \<or> (\<exists>p \<in> set txs. creates txid_of p op)) \<and>
        (\<forall>u \<in> set txs. op \<notin> set (outpoints_of u)))"

inductive ledger :: "(btc_tx \<Rightarrow> tx_hash) \<Rightarrow> outpoint list \<Rightarrow> btc_tx list \<Rightarrow> bool" for txid_of base where
  start: "ledger txid_of base []"
| confirm: "ledger txid_of base txs \<Longrightarrow> confirms txid_of base txs t \<Longrightarrow> ledger txid_of base (txs @ [t])"

inductive_cases ledger_snocE: "ledger txid_of base (txs @ [t])"

text \<open>A transaction of a graph, in the form in which it may be confirmed.\<close>

definition instance_of :: "btc_tx \<Rightarrow> 'a pre_signed_scheme \<Rightarrow> bool" where
  "instance_of t p \<longleftrightarrow>
     take (length (tx_input (ps_tx p))) (outpoints_of t) = outpoints_of (ps_tx p) \<and>
     take 1 (tx_output t) = take 1 (tx_output (ps_tx p))"

definition confirmed_as :: "btc_tx list \<Rightarrow> 'a pre_signed_scheme \<Rightarrow> bool" where
  "confirmed_as txs p \<longleftrightarrow> (\<exists>t \<in> set txs. instance_of t p)"

text \<open>A transaction id covers the whole transaction but its witnesses.\<close>

definition txid_binding :: "(btc_tx \<Rightarrow> tx_hash) \<Rightarrow> bool" where
  "txid_binding txid_of \<longleftrightarrow> (\<forall>a b. txid_of a = txid_of b \<longleftrightarrow> unsigned a = unsigned b)"

text \<open>The outside outputs are not those of the given transactions.\<close>

definition foreign :: "(btc_tx \<Rightarrow> tx_hash) \<Rightarrow> outpoint list \<Rightarrow> btc_tx list \<Rightarrow> bool" where
  "foreign txid_of base ts \<longleftrightarrow> (\<forall>op \<in> set base. \<forall>t \<in> set ts. op_txid op \<noteq> txid_of t)"

lemma spends_outpoint:
  assumes "spends_output txid_of c i p v" "instance_of t c"
  shows "Outpoint (txid_of p) v \<in> set (outpoints_of t)"
proof -
  have "outpoints_of (ps_tx c) ! i = Outpoint (txid_of p) v" "i < length (outpoints_of (ps_tx c))"
    using assms(1) by (simp_all add: spends_output_def outpoints_of_def)
  then have "Outpoint (txid_of p) v \<in> set (outpoints_of (ps_tx c))" by (metis nth_mem)
  then show ?thesis using assms(2) by (metis in_set_takeD instance_of_def)
qed

lemma foreignD: "foreign txid_of base ps \<Longrightarrow> p \<in> set ps \<Longrightarrow> Outpoint (txid_of p) v \<notin> set base"
  by (metis foreign_def outpoint.sel(1))

section \<open>What the protocol relies on\<close>

locale utxo_chain =
  fixes valid :: "btc_tx list \<Rightarrow> bool"
    and txid_of :: "btc_tx \<Rightarrow> tx_hash"
    and base :: "outpoint list"
  assumes spent_once: "valid txs \<Longrightarrow> distinct (concat (map outpoints_of txs))"
    and origin: "valid txs \<Longrightarrow> t \<in> set txs \<Longrightarrow> op \<in> set (outpoints_of t) \<Longrightarrow>
      op \<in> set base \<or> (\<exists>p \<in> set txs. creates txid_of p op)"
begin

lemma same_spender:
  assumes "valid txs" "t \<in> set txs" "u \<in> set txs" "op \<in> set (outpoints_of t)" "op \<in> set (outpoints_of u)"
  shows "t = u"
proof (rule ccontr)
  assume "t \<noteq> u"
  then obtain xs ys zs where "txs = xs @ t # ys @ u # zs \<or> txs = xs @ u # ys @ t # zs"
    using assms(2,3) by (metis in_set_conv_decomp set_ConsD append_Cons append_assoc Un_iff set_append)
  then show False using spent_once [OF assms(1)] assms(4,5) by auto
qed

lemma inputs_distinct: "valid txs \<Longrightarrow> t \<in> set txs \<Longrightarrow> distinct (outpoints_of t)"
  using spent_once [of txs] by (auto simp: distinct_concat_iff)

text \<open>The output that a confirmed transaction of a graph spends belongs to a confirmed one.\<close>

lemma parent_confirmed:
  assumes "valid txs" "txid_binding txid_of"
    and "confirmed_as txs c" "spends_output txid_of c i p v" "foreign txid_of base ps" "p \<in> set ps"
  shows "\<exists>s \<in> set txs. unsigned s = unsigned p"
proof -
  obtain t where t: "t \<in> set txs" "instance_of t c" using assms(3) by (auto simp: confirmed_as_def)
  have op: "Outpoint (txid_of p) v \<in> set (outpoints_of t)"
    by (rule spends_outpoint [OF assms(4) t(2)])
  moreover have "Outpoint (txid_of p) v \<notin> set base"
    by (rule foreignD [OF assms(5,6)])
  ultimately obtain s where "s \<in> set txs" "txid_of s = txid_of p"
    using origin [OF assms(1) t(1) op] by (auto simp: creates_def)
  then show ?thesis using assms(2) by (auto simp: txid_binding_def)
qed

text \<open>
  Two transactions that spend the same output are never both confirmed: one confirmed
  transaction would have the form of both.
\<close>

lemma spenders_conflict:
  assumes "valid txs" "confirmed_as txs a" "confirmed_as txs b"
    and "spends_output txid_of a i p v" "spends_output txid_of b j p v"
  shows "\<exists>t \<in> set txs. instance_of t a \<and> instance_of t b"
proof -
  obtain t u where t: "t \<in> set txs" "instance_of t a" and u: "u \<in> set txs" "instance_of u b"
    using assms(2,3) by (auto simp: confirmed_as_def)
  have "t = u"
    by (rule same_spender [OF assms(1) t(1) u(1) spends_outpoint [OF assms(4) t(2)] spends_outpoint [OF assms(5) u(2)]])
  then show ?thesis using t u by auto
qed

end

lemma ledger_laws:
  "ledger txid_of base txs \<Longrightarrow> distinct (concat (map outpoints_of txs)) \<and>
     (\<forall>t \<in> set txs. \<forall>op \<in> set (outpoints_of t). op \<in> set base \<or> (\<exists>p \<in> set txs. creates txid_of p op))"
proof (induction rule: ledger.induct)
  case (confirm txs t)
  then show ?case by (auto simp: confirms_def)
qed simp

interpretation chain: utxo_chain "ledger txid_of base" txid_of base
  by unfold_locales (use ledger_laws in blast)+

section \<open>What a transaction of the graph looks like to the ledger\<close>

lemma confirmed_as_unsigned:
  assumes "s \<in> set txs" "unsigned s = unsigned (ps_tx p)"
  shows "confirmed_as txs p"
proof -
  have "map previous_output (map unsigned_in (tx_input s)) = map previous_output (map unsigned_in (tx_input (ps_tx p)))"
    "tx_output s = tx_output (ps_tx p)"
    using assms(2) by (cases s; cases "ps_tx p"; simp add: unsigned_def)+
  then have "outpoints_of s = outpoints_of (ps_tx p)" "tx_output s = tx_output (ps_tx p)"
    by (simp_all add: outpoints_of_def unsigned_in_def comp_def)
  moreover from this have "length (tx_input (ps_tx p)) = length (outpoints_of s)"
    by (simp add: outpoints_of_def)
  ultimately have "instance_of s p" by (simp add: instance_of_def)
  then show ?thesis using assms(1) by (auto simp: confirmed_as_def)
qed

text \<open>The first output of a transaction, by its script.\<close>

definition first_pays :: "'a pre_signed_scheme \<Rightarrow> script_pubkey \<Rightarrow> bool" where
  "first_pays p s \<longleftrightarrow> (\<exists>outs. pays (ps_tx p) = s # outs)"

lemma different_first_outputs:
  assumes "instance_of t a" "instance_of t b" "first_pays a x" "first_pays b y"
  shows "x = y"
proof -
  have "map tx_script_pubkey (take 1 (tx_output (ps_tx a))) = map tx_script_pubkey (take 1 (tx_output (ps_tx b)))"
    using assms(1,2) by (simp add: instance_of_def)
  then show ?thesis using assms(3,4) by (auto simp: first_pays_def pays_def map_eq_Cons_conv)
qed

section \<open>Settlement\<close>

text \<open>The transactions of the two graphs that others build on.\<close>

definition graph_parents :: "peg_in_graph \<Rightarrow> peg_out_graph \<Rightarrow> btc_tx list" where
  "graph_parents pin g =
     [ps_tx (peg_in_deposit_tx pin), ps_tx (peg_in_confirm_tx pin), ps_tx (peg_out_confirm_tx g),
      ps_tx (kick_off_1_tx g), ps_tx (kick_off_2_tx g), ps_tx (assert_initial_tx g),
      ps_tx (assert_commit_1_tx g), ps_tx (assert_commit_2_tx g), ps_tx (assert_final_tx g)]"

text \<open>The outcomes that burn the operator's stake or end the peg-out by a timeout.\<close>

definition slashed :: "btc_tx list \<Rightarrow> peg_out_graph \<Rightarrow> bool" where
  "slashed txs g \<longleftrightarrow>
     confirmed_as txs (start_time_timeout_tx g) \<or> confirmed_as txs (kick_off_timeout_tx g) \<or>
     confirmed_as txs (disprove_chain_tx g) \<or> confirmed_as txs (disprove_tx g)"

text \<open>The outcomes that pay the operator back.\<close>

definition reimbursed :: "btc_tx list \<Rightarrow> peg_out_graph \<Rightarrow> bool" where
  "reimbursed txs g \<longleftrightarrow> confirmed_as txs (take_1_tx g) \<or> confirmed_as txs (take_2_tx g)"

definition burn_output :: script_pubkey where
  "burn_output = P2wsh generate_burn_script"

lemma burn_output_distinct [simp]:
  "burn_output \<noteq> P2tr si" "P2tr si \<noteq> burn_output"
  "burn_output \<noteq> P2wsh (generate_timelock_script k n)"
  by (simp_all add: burn_output_def generate_burn_script_def generate_pay_to_pubkey_script_def
      generate_timelock_script_def)

lemma address_scripts:
  "addr_script_pubkey (generate_burn_script_address net) = burn_output"
  "addr_script_pubkey (generate_pay_to_pubkey_script_address net k) = P2wsh (generate_pay_to_pubkey_script k)"
  "\<exists>n k. addr_script_pubkey (connector_3_address c3) = P2wsh (generate_timelock_script k n)"
  "\<exists>si. addr_script_pubkey (connector_d_address cd) = P2tr si"
  "\<exists>si. addr_script_pubkey (connector_0_address c0) = P2tr si"
  by (auto simp: generate_burn_script_address_def burn_output_def p2wsh_address_def
      generate_pay_to_pubkey_script_address_def connector_3_address_def generate_timelock_script_address_def
      connector_d_address_def connector_0_address_def p2tr_address_def)

lemma graph_first_outputs:
  assumes "peg_out_graph_new pol txid_of api public_of ctx pin confirm_input secrets = Some g"
  shows "first_pays (start_time_timeout_tx g) burn_output" "first_pays (kick_off_timeout_tx g) burn_output"
    "first_pays (disprove_chain_tx g) burn_output"
    "\<exists>n k. first_pays (kick_off_2_tx g) (P2wsh (generate_timelock_script k n))"
    "\<exists>si. first_pays (assert_initial_tx g) (P2tr si)"
proof -
  note parts = peg_out_graph_new_cases [OF assms]
  show "first_pays (start_time_timeout_tx g) burn_output"
    using parts(3) by (auto simp: new_start_time_def bind_eq_Some_conv first_pays_def address_scripts
        dest!: start_time_timeout_shape)
  show "first_pays (kick_off_timeout_tx g) burn_output"
    using parts(4) by (auto simp: new_kick_off_2_def bind_eq_Some_conv first_pays_def address_scripts
        dest!: kick_off_timeout_shape)
  show "first_pays (disprove_chain_tx g) burn_output"
    using parts(10) by (auto simp: new_disprove_def bind_eq_Some_conv first_pays_def address_scripts
        dest!: disprove_chain_shape)
  show "\<exists>n k. first_pays (kick_off_2_tx g) (P2wsh (generate_timelock_script k n))"
    using parts(4) address_scripts(3)
    by (fastforce simp: new_kick_off_2_def bind_eq_Some_conv first_pays_def dest!: kick_off_2_shape)
  show "\<exists>si. first_pays (assert_initial_tx g) (P2tr si)"
    using parts(7) address_scripts(4)
    by (fastforce simp: new_assert_def bind_eq_Some_conv first_pays_def Let_def dest!: assert_initial_shape)
qed

text \<open>The graphs settle on a ledger whose outside outputs are not theirs.\<close>

definition settles_on :: "(btc_tx \<Rightarrow> tx_hash) \<Rightarrow> outpoint list \<Rightarrow> btc_tx list \<Rightarrow> peg_in_graph \<Rightarrow> peg_out_graph \<Rightarrow> bool" where
  "settles_on txid_of base txs pin g \<longleftrightarrow>
     txid_binding txid_of \<and> ledger txid_of base txs \<and> foreign txid_of base (graph_parents pin g)"

lemma graph_parent:
  assumes "settles_on txid_of base txs pin g" "confirmed_as txs c"
    and "spends_output txid_of c i (ps_tx p) v" "ps_tx p \<in> set (graph_parents pin g)"
  shows "confirmed_as txs p"
  using chain.parent_confirmed [of txid_of base txs c i "ps_tx p" v "graph_parents pin g"] assms confirmed_as_unsigned
  unfolding settles_on_def by blast

lemma graph_conflict:
  assumes "settles_on txid_of base txs pin g" "confirmed_as txs a" "confirmed_as txs b"
    and "spends_output txid_of a i p v" "spends_output txid_of b j p v"
  obtains t where "t \<in> set txs" "instance_of t a" "instance_of t b"
  using chain.spenders_conflict [OF _ assms(2,3,4,5)] assms(1) unfolding settles_on_def by blast

lemma nth_outpoint:
  assumes "instance_of t a" "spends_output txid_of a i p v"
  shows "i < length (outpoints_of t) \<and> outpoints_of t ! i = Outpoint (txid_of p) v"
proof -
  have i: "i < length (outpoints_of (ps_tx a))" "outpoints_of (ps_tx a) ! i = Outpoint (txid_of p) v"
    using assms(2) by (simp_all add: spends_output_def outpoints_of_def)
  have "take (length (outpoints_of (ps_tx a))) (outpoints_of t) = outpoints_of (ps_tx a)"
    using assms(1) by (simp add: instance_of_def outpoints_of_def)
  then show ?thesis using i by (metis length_take min_less_iff_conj nth_take)
qed

text \<open>Conflicting transactions with different first outputs, or whose first inputs differ.\<close>

lemma conflict_by_outputs:
  assumes "settles_on txid_of base txs pin g" "confirmed_as txs a" "confirmed_as txs b"
    and "spends_output txid_of a i p v" "spends_output txid_of b j p v"
    and "first_pays a x" "first_pays b y"
  shows "x = y"
  by (rule graph_conflict [OF assms(1-5)]) (rule different_first_outputs [OF _ _ assms(6,7)])

lemma conflict_by_inputs:
  assumes "settles_on txid_of base txs pin g" "confirmed_as txs a" "confirmed_as txs b"
    and "spends_output txid_of a i p v" "spends_output txid_of b j p v"
    and "spends_output txid_of a 0 q w" "spends_output txid_of b 0 r u"
  shows "w = u"
  by (rule graph_conflict [OF assms(1-5)]) (metis nth_outpoint assms(6,7) outpoint.sel(2))

lemma graph_ancestors:
  assumes "settles_on txid_of base txs pin g" "peg_out_links txid_of (peg_in_confirm_tx pin) g"
  shows "confirmed_as txs (take_1_tx g) \<Longrightarrow> confirmed_as txs (kick_off_2_tx g)"
    "confirmed_as txs (take_1_tx g) \<Longrightarrow> confirmed_as txs (peg_in_confirm_tx pin)"
    "confirmed_as txs (take_2_tx g) \<Longrightarrow> confirmed_as txs (assert_final_tx g)"
    "confirmed_as txs (take_2_tx g) \<Longrightarrow> confirmed_as txs (peg_in_confirm_tx pin)"
    "confirmed_as txs (disprove_tx g) \<Longrightarrow> confirmed_as txs (assert_final_tx g)"
    "confirmed_as txs (assert_final_tx g) \<Longrightarrow> confirmed_as txs (assert_initial_tx g)"
    "confirmed_as txs (assert_initial_tx g) \<Longrightarrow> confirmed_as txs (kick_off_2_tx g)"
  using assms(2) unfolding peg_out_links_def Let_def
  by (auto elim!: graph_parent [OF assms(1)] simp: graph_parents_def)

lemma timeouts_exclude_kick_off_2:
  assumes "settles_on txid_of base txs pin g" "peg_out_links txid_of (peg_in_confirm_tx pin) g"
    and "peg_out_graph_new pol txid_of api public_of ctx pin confirm_input secrets = Some g"
    and "confirmed_as txs (kick_off_2_tx g)"
  shows "\<not> confirmed_as txs (start_time_timeout_tx g)" "\<not> confirmed_as txs (kick_off_timeout_tx g)"
proof -
  note outs = graph_first_outputs [OF assms(3)]
  obtain n k where k2: "first_pays (kick_off_2_tx g) (P2wsh (generate_timelock_script k n))" using outs(4) by blast
  show "\<not> confirmed_as txs (start_time_timeout_tx g)"
    using conflict_by_outputs [OF assms(1) _ assms(4) _ _ outs(1) k2, where i = 1 and j = 0] assms(2)
    by (auto simp: peg_out_links_def Let_def)
  show "\<not> confirmed_as txs (kick_off_timeout_tx g)"
    using conflict_by_outputs [OF assms(1) _ assms(4) _ _ outs(2) k2, where i = 0 and j = 0] assms(2)
    by (auto simp: peg_out_links_def Let_def)
qed

lemma assert_initial_excludes:
  assumes "settles_on txid_of base txs pin g" "peg_out_links txid_of (peg_in_confirm_tx pin) g"
    and "peg_out_graph_new pol txid_of api public_of ctx pin confirm_input secrets = Some g"
    and "confirmed_as txs (assert_initial_tx g)"
  shows "\<not> confirmed_as txs (disprove_chain_tx g)" "\<not> confirmed_as txs (take_1_tx g)"
proof -
  note outs = graph_first_outputs [OF assms(3)]
  obtain si where ai: "first_pays (assert_initial_tx g) (P2tr si)" using outs(5) by blast
  show "\<not> confirmed_as txs (disprove_chain_tx g)"
    using conflict_by_outputs [OF assms(1) _ assms(4) _ _ outs(3) ai, where i = 0 and j = 0] assms(2)
    by (auto simp: peg_out_links_def Let_def)
  show "\<not> confirmed_as txs (take_1_tx g)"
    using conflict_by_inputs [OF assms(1) _ assms(4), where i = 3 and j = 0] assms(2)
    unfolding peg_out_links_def Let_def by (metis zero_neq_one)
qed

lemma direct_conflicts:
  assumes "settles_on txid_of base txs pin g" "peg_out_links txid_of (peg_in_confirm_tx pin) g"
  shows "confirmed_as txs (take_1_tx g) \<Longrightarrow> \<not> confirmed_as txs (disprove_chain_tx g)"
    "confirmed_as txs (take_2_tx g) \<Longrightarrow> \<not> confirmed_as txs (disprove_tx g)"
proof -
  note links = assms(2) [unfolded peg_out_links_def Let_def]
  show "\<not> confirmed_as txs (disprove_chain_tx g)" if "confirmed_as txs (take_1_tx g)"
    using conflict_by_inputs [OF assms(1) that, where i = 3 and j = 0] links by (metis zero_neq_one)
  show "\<not> confirmed_as txs (disprove_tx g)" if "confirmed_as txs (take_2_tx g)"
    using conflict_by_inputs [OF assms(1) that, where i = 2 and j = 0] links by (metis zero_neq_one)
qed

lemma slashed_excludes_reimbursed:
  assumes "settles_on txid_of base txs pin g" "peg_out_links txid_of (peg_in_confirm_tx pin) g"
    and "peg_out_graph_new pol txid_of api public_of ctx pin confirm_input secrets = Some g"
  shows "\<not> (slashed txs g \<and> reimbursed txs g)"
  using graph_ancestors [OF assms(1,2)] timeouts_exclude_kick_off_2 [OF assms]
    assert_initial_excludes [OF assms] direct_conflicts [OF assms(1,2)]
  unfolding slashed_def reimbursed_def by blast

lemma challenge_excludes_take_1:
  assumes "settles_on txid_of base txs pin g" "peg_out_links txid_of (peg_in_confirm_tx pin) g"
    and "confirmed_as txs (take_1_tx g)"
  shows "\<not> confirmed_as txs (challenge_transaction g)"
proof
  assume c: "confirmed_as txs (challenge_transaction g)"
  note links = assms(2) [unfolded peg_out_links_def Let_def]
  have l: "spends_output txid_of (take_1_tx g) 0 (ps_tx (peg_in_confirm_tx pin)) 0"
    "spends_output txid_of (take_1_tx g) 1 (ps_tx (kick_off_1_tx g)) 0"
    "spends_output txid_of (challenge_transaction g) 0 (ps_tx (kick_off_1_tx g)) 0"
    using links by auto
  obtain t where t: "t \<in> set txs" "instance_of t (take_1_tx g)" "instance_of t (challenge_transaction g)"
    by (rule graph_conflict [OF assms(1,3) c l(2,3)])
  have "distinct (outpoints_of t)"
    using chain.inputs_distinct [of txid_of base txs t] assms(1) t(1) by (auto simp: settles_on_def)
  moreover have "outpoints_of t ! 0 = outpoints_of t ! 1" "1 < length (outpoints_of t)"
    using nth_outpoint [OF t(2) l(2)] nth_outpoint [OF t(3) l(3)] by auto
  ultimately show False by (metis nth_eq_iff_index_eq less_trans zero_less_one zero_neq_one)
qed

lemma peg_in_settles:
  assumes "peg_in_graph_new pol txid_of dctx deposit_input evm_address = Some pin"
  shows "spends_output txid_of (peg_in_refund_tx pin) 0 (ps_tx (peg_in_deposit_tx pin)) 0"
    "spends_output txid_of (peg_in_confirm_tx pin) 0 (ps_tx (peg_in_deposit_tx pin)) 0"
    "\<exists>si. first_pays (peg_in_confirm_tx pin) (P2tr si)"
    "\<exists>k. first_pays (peg_in_refund_tx pin) (P2wsh (generate_pay_to_pubkey_script k))"
proof -
  obtain refund_input confirm_input where
    r: "generate_input txid_of (ps_tx (peg_in_deposit_tx pin)) 0 = Some refund_input"
      "peg_in_refund_new_for_validation pol (dc_network dctx) (dc_depositor_key dctx) (pi_connector_z pin)
         refund_input = Some (peg_in_refund_tx pin)"
    and d: "peg_in_deposit_new_for_validation pol (dc_network dctx) (dc_depositor_key dctx) (pi_connector_z pin)
         deposit_input = Some (peg_in_deposit_tx pin)"
    and c: "generate_input txid_of (ps_tx (peg_in_deposit_tx pin)) 0 = Some confirm_input"
      "peg_in_confirm_new_for_validation pol (pi_connector_0 pin) (pi_connector_z pin) confirm_input =
         Some (peg_in_confirm_tx pin)"
    by (rule peg_in_graph_new_cases [OF assms])
  note shapes = peg_in_deposit_shape [OF d] peg_in_refund_shape [OF r(2)] peg_in_confirm_shape [OF c(2)]
  show "spends_output txid_of (peg_in_refund_tx pin) 0 (ps_tx (peg_in_deposit_tx pin)) 0"
    by (rule plain_spends(1) [OF peg_in_refund_sound [OF r(2)] refl _ r(1)]) (simp_all add: shapes)
  show "spends_output txid_of (peg_in_confirm_tx pin) 0 (ps_tx (peg_in_deposit_tx pin)) 0"
    by (rule plain_spends(1) [OF peg_in_confirm_sound [OF c(2)] refl _ c(1)]) (simp_all add: shapes)
  show "\<exists>si. first_pays (peg_in_confirm_tx pin) (P2tr si)"
    using shapes address_scripts(5) by (fastforce simp: first_pays_def)
  show "\<exists>k. first_pays (peg_in_refund_tx pin) (P2wsh (generate_pay_to_pubkey_script k))"
    using shapes by (auto simp: first_pays_def address_scripts)
qed

lemma refund_excludes_confirm:
  assumes "settles_on txid_of base txs pin g"
    and "peg_in_graph_new pol txid_of dctx deposit_input evm_address = Some pin"
    and "confirmed_as txs (peg_in_refund_tx pin)"
  shows "\<not> confirmed_as txs (peg_in_confirm_tx pin)"
proof -
  note pin = peg_in_settles [OF assms(2)]
  show ?thesis
    using conflict_by_outputs [OF assms(1,3) _ pin(1,2)] pin(3,4) by blast
qed

section \<open>A ledger for the sample participants\<close>

text \<open>
  Transactions can be enumerated, so there is a transaction id that binds all of a transaction
  but its witnesses.
\<close>

instance public_key :: countable by countable_datatype
instance script_item :: countable by countable_datatype
instance spend_info :: countable by countable_datatype
instance script_pubkey :: countable by countable_datatype
instance outpoint :: countable by countable_datatype

instance tx_in_ext :: (countable) countable
  by (rule countable_classI [of "\<lambda>r. to_nat (previous_output r, script_sig r, tx_sequence r, witness r, tx_in.more r)"])
    simp

instance tx_out_ext :: (countable) countable
  by (rule countable_classI [of "\<lambda>r. to_nat (tx_value r, tx_script_pubkey r, tx_out.more r)"]) simp

instance btc_tx_ext :: (countable) countable
  by (rule countable_classI [of "\<lambda>r. to_nat (tx_version r, tx_lock_time r, tx_input r, tx_output r, btc_tx.more r)"])
    simp

definition binding_txid :: "btc_tx \<Rightarrow> tx_hash" where
  "binding_txid t = to_nat (unsigned t) + 10"

lemma binding_txid: "txid_binding binding_txid"
  by (simp add: txid_binding_def binding_txid_def)

lemma binding_txid_foreign: "\<forall>op \<in> set base. op_txid op < 10 \<Longrightarrow> foreign binding_txid base ts"
  by (auto simp: foreign_def binding_txid_def)

text \<open>A ledger of two or three transactions, each spending an output of the one before.\<close>

lemma short_ledgers:
  assumes "outpoints_of a = [op0]" "outpoints_of b = [Outpoint (txid_of a) 0]" "outpoints_of c = [Outpoint (txid_of b) v]"
    and "0 < length (tx_output a)" "v < length (tx_output b)" "op_txid op0 < 10"
    and "Outpoint (txid_of b) v \<noteq> Outpoint (txid_of a) 0" "\<And>t. 10 \<le> txid_of t"
  shows "ledger txid_of [op0] [a, b]" "ledger txid_of [op0] [a, b, c]"
proof -
  have ne: "Outpoint (txid_of t) w \<noteq> op0" "op0 \<noteq> Outpoint (txid_of t) w" for t w
    using assms(6) assms(8) [of t] by auto
  have "ledger txid_of [op0] ([] @ [a])"
    by (rule ledger.intros(2)) (auto intro: ledger.intros simp: confirms_def assms(1))
  then have "ledger txid_of [op0] ([a] @ [b])"
    by (intro ledger.intros(2)) (use assms(4) in \<open>auto simp: confirms_def creates_def assms(1,2) ne\<close>)
  then show ab: "ledger txid_of [op0] [a, b]" by simp
  then have "ledger txid_of [op0] ([a, b] @ [c])"
    by (intro ledger.intros(2)) (use assms(5,7) in \<open>auto simp: confirms_def creates_def assms(1,2,3) ne\<close>)
  then show "ledger txid_of [op0] [a, b, c]" by simp
qed

lemma instance_of_itself: "ps_tx p \<in> set txs \<Longrightarrow> confirmed_as txs p"
  by (auto simp: confirmed_as_def instance_of_def outpoints_of_def intro!: bexI [of _ "ps_tx p"])

lemma single_input:
  assumes "spends_output txid_of c 0 p v" "length (tx_input (ps_tx c)) = 1"
  shows "outpoints_of (ps_tx c) = [Outpoint (txid_of p) v]"
  using assms by (auto simp: spends_output_def outpoints_of_def length_Suc_conv)

lemma sample_ledger:
  fixes g :: peg_out_graph
  assumes "peg_out_graph_new core_policy binding_txid api public_of ctx pin sample_funding secrets = Some g"
    and "peg_out_links binding_txid (peg_in_confirm_tx pin) g"
  shows "settles_on binding_txid [Outpoint 2 0]
      [ps_tx (peg_out_confirm_tx g), ps_tx (kick_off_1_tx g), ps_tx (kick_off_timeout_tx g)] pin g"
    and "settles_on binding_txid [Outpoint 2 0]
      [ps_tx (peg_out_confirm_tx g), ps_tx (kick_off_1_tx g), ps_tx (challenge_transaction g)] pin g"
proof -
  note parts = peg_out_graph_new_cases [OF assms(1)]
  note cs = peg_out_connectors_shape [OF parts(1)]
  note k1 = new_kick_off_1_links [OF parts(2)]
  note links = assms(2) [unfolded peg_out_links_def Let_def]
  have a: "outpoints_of (ps_tx (peg_out_confirm_tx g)) = [Outpoint 2 0]"
    using k1 cs by (auto simp: sound_tx_def outpoints_of_def sample_funding_def)
  have b: "outpoints_of (ps_tx (kick_off_1_tx g)) = [Outpoint (binding_txid (ps_tx (peg_out_confirm_tx g))) 0]"
    by (rule single_input) (use links k1 cs in \<open>auto simp: sound_tx_def dest: map_eq_imp_length_eq\<close>)
  have kt: "outpoints_of (ps_tx (kick_off_timeout_tx g)) = [Outpoint (binding_txid (ps_tx (kick_off_1_tx g))) 1]"
    using parts(4) by (auto simp: new_kick_off_2_def bind_eq_Some_conv outpoints_of_def sound_tx_def
        pre_signed.truncate_def dest!: kick_off_timeout_sound dest: generate_inputD)
  have ch: "outpoints_of (ps_tx (challenge_transaction g)) = [Outpoint (binding_txid (ps_tx (kick_off_1_tx g))) 0]"
    using parts(5) by (auto simp: new_challenge_def bind_eq_Some_conv outpoints_of_def
        dest!: challenge_inputs dest: generate_inputD)
  have outs: "length (tx_output (ps_tx (kick_off_1_tx g))) = 3" "length (tx_output (ps_tx (peg_out_confirm_tx g))) = 1"
  proof -
    show "length (tx_output (ps_tx (kick_off_1_tx g))) = 3"
      using k1 cs by (auto simp: pays_def dest: arg_cong [of _ _ length])
    show "length (tx_output (ps_tx (peg_out_confirm_tx g))) = 1"
      using parts(2) by (auto simp: new_kick_off_1_def bind_eq_Some_conv pays_def
          dest!: peg_out_confirm_shape dest: arg_cong [of _ _ length])
  qed
  then have ne: "binding_txid (ps_tx (kick_off_1_tx g)) \<noteq> binding_txid (ps_tx (peg_out_confirm_tx g))"
    using binding_txid by (auto simp: txid_binding_def dest!: unsigned_eqD(2))
  have for': "foreign binding_txid [Outpoint 2 0] ts" for ts
    by (rule binding_txid_foreign) simp
  have ge: "10 \<le> binding_txid t" for t by (simp add: binding_txid_def)
  show "settles_on binding_txid [Outpoint 2 0]
      [ps_tx (peg_out_confirm_tx g), ps_tx (kick_off_1_tx g), ps_tx (kick_off_timeout_tx g)] pin g"
    using short_ledgers(2) [OF a b kt] ge outs by (simp add: settles_on_def binding_txid for')
  show "settles_on binding_txid [Outpoint 2 0]
      [ps_tx (peg_out_confirm_tx g), ps_tx (kick_off_1_tx g), ps_tx (challenge_transaction g)] pin g"
    using short_ledgers(2) [OF a b ch] ge outs ne by (simp add: settles_on_def binding_txid for')
qed

lemma sample_refund_ledger:
  assumes "peg_in_graph_new core_policy binding_txid sample_depositor sample_deposit evm_address = Some pin"
  shows "settles_on binding_txid [Outpoint 1 0]
      [ps_tx (peg_in_deposit_tx pin), ps_tx (peg_in_refund_tx pin)] pin g"
proof -
  obtain refund_input confirm_input where
    d: "peg_in_deposit_new_for_validation core_policy (dc_network sample_depositor) (dc_depositor_key sample_depositor)
         (pi_connector_z pin) sample_deposit = Some (peg_in_deposit_tx pin)"
    and r: "generate_input binding_txid (ps_tx (peg_in_deposit_tx pin)) 0 = Some refund_input"
      "peg_in_refund_new_for_validation core_policy (dc_network sample_depositor) (dc_depositor_key sample_depositor)
         (pi_connector_z pin) refund_input = Some (peg_in_refund_tx pin)"
    by (rule peg_in_graph_new_cases [OF assms])
  have a: "outpoints_of (ps_tx (peg_in_deposit_tx pin)) = [Outpoint 1 0]"
    using peg_in_deposit_sound [OF d] by (simp add: sound_tx_def outpoints_of_def sample_deposit_def)
  have b: "outpoints_of (ps_tx (peg_in_refund_tx pin)) = [Outpoint (binding_txid (ps_tx (peg_in_deposit_tx pin))) 0]"
    using peg_in_refund_sound [OF r(2)] generate_inputD [OF r(1)] by (auto simp: sound_tx_def outpoints_of_def)
  have ge: "10 \<le> binding_txid t" for t by (simp add: binding_txid_def)
  have ne: "Outpoint (binding_txid t) w \<noteq> Outpoint 1 0" "Outpoint 1 0 \<noteq> Outpoint (binding_txid t) w" for t w
    using ge [of t] by auto
  have "ledger binding_txid [Outpoint 1 0] ([] @ [ps_tx (peg_in_deposit_tx pin)])"
    by (rule ledger.intros(2)) (auto intro: ledger.intros simp: confirms_def a)
  then have "ledger binding_txid [Outpoint 1 0] ([ps_tx (peg_in_deposit_tx pin)] @ [ps_tx (peg_in_refund_tx pin)])"
    by (intro ledger.intros(2))
      (use generate_inputD [OF r(1)] ge [of "ps_tx (peg_in_deposit_tx pin)"] in
        \<open>auto simp: confirms_def creates_def a b\<close>)
  then show ?thesis
    using binding_txid_foreign [of "[Outpoint 1 0]"] by (simp add: settles_on_def binding_txid)
qed

text \<open>A peg-out that is ended by a timeout, one that is challenged, and a peg-in that is refunded.\<close>

lemma sample_graphs:
  obtains pin g where
    "peg_in_graph_new core_policy binding_txid sample_depositor sample_deposit ''0xab'' = Some pin"
    "peg_out_graph_new core_policy binding_txid sample_chunk_api sample_public_key sample_operator pin
       sample_funding (generate_commitment_secrets sample_secret) = Some g"
    "peg_out_links binding_txid (peg_in_confirm_tx pin) g"
proof -
  obtain pin where p: "peg_in_graph_new core_policy binding_txid sample_depositor sample_deposit ''0xab'' = Some pin"
    using sample_peg_in by blast
  then obtain g where g: "peg_out_graph_new core_policy binding_txid sample_chunk_api sample_public_key sample_operator
      pin sample_funding (generate_commitment_secrets sample_secret) = Some g"
    using sample_peg_out by blast
  have "peg_out_links binding_txid (peg_in_confirm_tx pin) g"
    by (rule peg_out_graph_links_and_fees(1) [OF g])
      (simp_all add: peg_in_confirm_pays [OF p] sample_depositor_def sample_operator_def)
  then show ?thesis using p g that by blast
qed

section \<open>The rules\<close>

text \<open>
  C1. The operator's stake is safe for the verifiers: once a timeout or a disprove transaction of a
  peg-out is confirmed, in whatever form, neither of the transactions that reimburse the operator is
  confirmed, before or after.
\<close>

theorem slashed_never_reimbursed:
  assumes "peg_in_graph_new pol txid_of dctx deposit_input evm_address = Some pin"
    and "peg_out_graph_new pol txid_of api public_of ctx pin confirm_input secrets = Some g"
    and "dc_network dctx = oc_network ctx" "dc_n_of_n_taproot_key dctx = oc_n_of_n_taproot_key ctx"
    and "0 < min_relay_fee_rate pol"
    and "settles_on txid_of base txs pin g"
  shows "\<not> (slashed txs g \<and> reimbursed txs g)"
proof -
  have links: "peg_out_links txid_of (peg_in_confirm_tx pin) g"
    by (rule peg_out_graph_links_and_fees(1) [OF assms(2) _ assms(5)])
      (simp add: peg_in_confirm_pays [OF assms(1)] assms(3,4))
  show ?thesis by (rule slashed_excludes_reimbursed [OF assms(6) links assms(2)])
qed

theorem slashed_never_reimbursed_witness:
  "\<exists>pin g. let txs = [ps_tx (peg_out_confirm_tx g), ps_tx (kick_off_1_tx g), ps_tx (kick_off_timeout_tx g)] in
     peg_out_graph_new core_policy binding_txid sample_chunk_api sample_public_key sample_operator pin
       sample_funding (generate_commitment_secrets sample_secret) = Some g \<and>
     ledger binding_txid [Outpoint 2 0] txs \<and> slashed txs g \<and> \<not> reimbursed txs g"
proof (rule sample_graphs)
  fix pin :: peg_in_graph and g :: peg_out_graph
  let ?txs = "[ps_tx (peg_out_confirm_tx g), ps_tx (kick_off_1_tx g), ps_tx (kick_off_timeout_tx g)]"
  assume p: "peg_in_graph_new core_policy binding_txid sample_depositor sample_deposit ''0xab'' = Some pin"
    and g: "peg_out_graph_new core_policy binding_txid sample_chunk_api sample_public_key sample_operator pin
       sample_funding (generate_commitment_secrets sample_secret) = Some g"
    and l: "peg_out_links binding_txid (peg_in_confirm_tx pin) g"
  note settled = sample_ledger(1) [OF g l]
  have "slashed ?txs g" by (simp add: slashed_def instance_of_itself)
  moreover have "\<not> (slashed ?txs g \<and> reimbursed ?txs g)"
    by (rule slashed_never_reimbursed [OF p g _ _ _ settled]) (simp_all add: sample_depositor_def sample_operator_def)
  ultimately show ?thesis using g settled by (auto simp: Let_def settles_on_def)
qed

text \<open>
  C9. The operator is reimbursed at most once, and only by the transaction the dispute leads to: the two
  take transactions exclude one another, and a confirmed challenge excludes the first.
\<close>

theorem reimbursed_once:
  assumes "peg_in_graph_new pol txid_of dctx deposit_input evm_address = Some pin"
    and "peg_out_graph_new pol txid_of api public_of ctx pin confirm_input secrets = Some g"
    and "dc_network dctx = oc_network ctx" "dc_n_of_n_taproot_key dctx = oc_n_of_n_taproot_key ctx"
    and "0 < min_relay_fee_rate pol"
    and "settles_on txid_of base txs pin g"
  shows "\<not> (confirmed_as txs (take_1_tx g) \<and> confirmed_as txs (take_2_tx g)) \<and>
    (confirmed_as txs (challenge_transaction g) \<longrightarrow> \<not> confirmed_as txs (take_1_tx g))"
proof -
  have links: "peg_out_links txid_of (peg_in_confirm_tx pin) g"
    by (rule peg_out_graph_links_and_fees(1) [OF assms(2) _ assms(5)])
      (simp add: peg_in_confirm_pays [OF assms(1)] assms(3,4))
  show ?thesis
    using graph_ancestors [OF assms(6) links] assert_initial_excludes [OF assms(6) links assms(2)]
      challenge_excludes_take_1 [OF assms(6) links] by blast
qed

theorem reimbursed_once_witness:
  "\<exists>pin g. let txs = [ps_tx (peg_out_confirm_tx g), ps_tx (kick_off_1_tx g), ps_tx (challenge_transaction g)] in
     peg_out_graph_new core_policy binding_txid sample_chunk_api sample_public_key sample_operator pin
       sample_funding (generate_commitment_secrets sample_secret) = Some g \<and>
     ledger binding_txid [Outpoint 2 0] txs \<and> confirmed_as txs (challenge_transaction g) \<and>
     \<not> confirmed_as txs (take_1_tx g)"
proof (rule sample_graphs)
  fix pin :: peg_in_graph and g :: peg_out_graph
  let ?txs = "[ps_tx (peg_out_confirm_tx g), ps_tx (kick_off_1_tx g), ps_tx (challenge_transaction g)]"
  assume p: "peg_in_graph_new core_policy binding_txid sample_depositor sample_deposit ''0xab'' = Some pin"
    and g: "peg_out_graph_new core_policy binding_txid sample_chunk_api sample_public_key sample_operator pin
       sample_funding (generate_commitment_secrets sample_secret) = Some g"
    and l: "peg_out_links binding_txid (peg_in_confirm_tx pin) g"
  note settled = sample_ledger(2) [OF g l]
  have "confirmed_as ?txs (challenge_transaction g)" by (simp add: instance_of_itself)
  moreover have "\<not> (confirmed_as ?txs (take_1_tx g) \<and> confirmed_as ?txs (take_2_tx g)) \<and>
      (confirmed_as ?txs (challenge_transaction g) \<longrightarrow> \<not> confirmed_as ?txs (take_1_tx g))"
    by (rule reimbursed_once [OF p g _ _ _ settled]) (simp_all add: sample_depositor_def sample_operator_def)
  ultimately show ?thesis using g settled by (auto simp: Let_def settles_on_def)
qed

text \<open>
  C27. A deposit is paid out at most once: when the depositor's refund is confirmed, neither the peg-in
  confirmation nor a reimbursement of an operator, both of which draw on the deposit, is.
\<close>

theorem refund_excludes_payout:
  assumes "peg_in_graph_new pol txid_of dctx deposit_input evm_address = Some pin"
    and "peg_out_graph_new pol txid_of api public_of ctx pin confirm_input secrets = Some g"
    and "dc_network dctx = oc_network ctx" "dc_n_of_n_taproot_key dctx = oc_n_of_n_taproot_key ctx"
    and "0 < min_relay_fee_rate pol"
    and "settles_on txid_of base txs pin g"
    and "confirmed_as txs (peg_in_refund_tx pin)"
  shows "\<not> confirmed_as txs (peg_in_confirm_tx pin) \<and> \<not> reimbursed txs g"
proof -
  have links: "peg_out_links txid_of (peg_in_confirm_tx pin) g"
    by (rule peg_out_graph_links_and_fees(1) [OF assms(2) _ assms(5)])
      (simp add: peg_in_confirm_pays [OF assms(1)] assms(3,4))
  show ?thesis
    using graph_ancestors(2,4) [OF assms(6) links] refund_excludes_confirm [OF assms(6,1,7)]
    unfolding reimbursed_def by blast
qed

theorem refund_excludes_payout_witness:
  "\<exists>pin g. let txs = [ps_tx (peg_in_deposit_tx pin), ps_tx (peg_in_refund_tx pin)] in
     peg_in_graph_new core_policy binding_txid sample_depositor sample_deposit ''0xab'' = Some pin \<and>
     peg_out_graph_new core_policy binding_txid sample_chunk_api sample_public_key sample_operator pin
       sample_funding (generate_commitment_secrets sample_secret) = Some g \<and>
     ledger binding_txid [Outpoint 1 0] txs \<and>
     \<not> confirmed_as txs (peg_in_confirm_tx pin) \<and> \<not> reimbursed txs g"
proof (rule sample_graphs)
  fix pin :: peg_in_graph and g :: peg_out_graph
  let ?txs = "[ps_tx (peg_in_deposit_tx pin), ps_tx (peg_in_refund_tx pin)]"
  assume p: "peg_in_graph_new core_policy binding_txid sample_depositor sample_deposit ''0xab'' = Some pin"
    and g: "peg_out_graph_new core_policy binding_txid sample_chunk_api sample_public_key sample_operator pin
       sample_funding (generate_commitment_secrets sample_secret) = Some g"
  note settled = sample_refund_ledger [OF p, of g]
  have "\<not> confirmed_as ?txs (peg_in_confirm_tx pin) \<and> \<not> reimbursed ?txs g"
    by (rule refund_excludes_payout [OF p g _ _ _ settled])
      (simp_all add: sample_depositor_def sample_operator_def instance_of_itself)
  then show ?thesis using p g settled by (auto simp: Let_def settles_on_def)
qed

end
