(* ===== verification/Peg_Out_Locks.thy ===== *)
theory Peg_Out_Locks
  imports Peg_Out_Funds
begin

text \<open>
  The transactions of a peg-out graph by name, and the relative time locks that the constructors
  put on their inputs: which output each input spends, and with which sequence number.
\<close>

section \<open>The transactions of a graph by name\<close>

datatype po_tx =
    Tx_Peg_Out_Confirm | Tx_Kick_Off_1 | Tx_Start_Time | Tx_Start_Time_Timeout | Tx_Kick_Off_2
  | Tx_Kick_Off_Timeout | Tx_Challenge | Tx_Take_1 | Tx_Assert_Initial | Tx_Assert_Commit_1
  | Tx_Assert_Commit_2 | Tx_Assert_Final | Tx_Take_2 | Tx_Disprove | Tx_Disprove_Chain

fun tx_of :: "'a peg_out_graph_scheme \<Rightarrow> po_tx \<Rightarrow> btc_tx" where
  "tx_of s Tx_Peg_Out_Confirm = ps_tx (peg_out_confirm_tx s)"
| "tx_of s Tx_Kick_Off_1 = ps_tx (kick_off_1_tx s)"
| "tx_of s Tx_Start_Time = ps_tx (start_time_tx s)"
| "tx_of s Tx_Start_Time_Timeout = ps_tx (start_time_timeout_tx s)"
| "tx_of s Tx_Kick_Off_2 = ps_tx (kick_off_2_tx s)"
| "tx_of s Tx_Kick_Off_Timeout = ps_tx (kick_off_timeout_tx s)"
| "tx_of s Tx_Challenge = ps_tx (challenge_transaction s)"
| "tx_of s Tx_Take_1 = ps_tx (take_1_tx s)"
| "tx_of s Tx_Assert_Initial = ps_tx (assert_initial_tx s)"
| "tx_of s Tx_Assert_Commit_1 = ps_tx (assert_commit_1_tx s)"
| "tx_of s Tx_Assert_Commit_2 = ps_tx (assert_commit_2_tx s)"
| "tx_of s Tx_Assert_Final = ps_tx (assert_final_tx s)"
| "tx_of s Tx_Take_2 = ps_tx (take_2_tx s)"
| "tx_of s Tx_Disprove = ps_tx (disprove_tx s)"
| "tx_of s Tx_Disprove_Chain = ps_tx (disprove_chain_tx s)"

lemma all_po_tx:
  "(\<forall>x. P x) \<longleftrightarrow>
     P Tx_Peg_Out_Confirm \<and> P Tx_Kick_Off_1 \<and> P Tx_Start_Time \<and> P Tx_Start_Time_Timeout \<and> P Tx_Kick_Off_2 \<and>
     P Tx_Kick_Off_Timeout \<and> P Tx_Challenge \<and> P Tx_Take_1 \<and> P Tx_Assert_Initial \<and> P Tx_Assert_Commit_1 \<and>
     P Tx_Assert_Commit_2 \<and> P Tx_Assert_Final \<and> P Tx_Take_2 \<and> P Tx_Disprove \<and> P Tx_Disprove_Chain"
proof (intro iffI allI)
  fix x assume "P Tx_Peg_Out_Confirm \<and> P Tx_Kick_Off_1 \<and> P Tx_Start_Time \<and> P Tx_Start_Time_Timeout \<and> P Tx_Kick_Off_2 \<and>
     P Tx_Kick_Off_Timeout \<and> P Tx_Challenge \<and> P Tx_Take_1 \<and> P Tx_Assert_Initial \<and> P Tx_Assert_Commit_1 \<and>
     P Tx_Assert_Commit_2 \<and> P Tx_Assert_Final \<and> P Tx_Take_2 \<and> P Tx_Disprove \<and> P Tx_Disprove_Chain"
  then show "P x" by (cases x) simp_all
qed simp

section \<open>Sequence numbers\<close>

text \<open>
  A sequence number with its top bit set (BIP 68) is no relative time lock.
\<close>

definition unlocked :: "tx_in \<Rightarrow> bool" where
  "unlocked i \<longleftrightarrow> 2 ^ 31 \<le> tx_sequence i"

definition locks :: "btc_tx \<Rightarrow> (outpoint \<times> nat) list" where
  "locks t = map (\<lambda>i. (previous_output i, tx_sequence i)) (filter (\<lambda>i. \<not> unlocked i) (tx_input t))"

text \<open>The time locks of an input are on its output or not at all.\<close>

definition locks_within :: "(outpoint \<times> nat) list \<Rightarrow> btc_tx \<Rightarrow> bool" where
  "locks_within ls t \<longleftrightarrow> set (locks t) \<subseteq> set ls"

lemma locks_withinI: "\<forall>i \<in> set (tx_input t). unlocked i \<or> (previous_output i, tx_sequence i) \<in> set ls \<Longrightarrow> locks_within ls t"
  by (auto simp: locks_within_def locks_def)

lemma default_unlocked [simp]: "unlocked (generate_default_tx_in inp)"
  by (simp add: unlocked_def generate_default_tx_in_def)

lemma timelock_input [simp]:
  "previous_output (generate_timelock_tx_in inp n) = in_outpoint inp" "tx_sequence (generate_timelock_tx_in inp n) = n"
  by (simp_all add: generate_timelock_tx_in_def generate_default_tx_in_def)

lemma lock_time_unlocked [simp]: "unlocked (generate_timelock_tx_in inp n_sequence_for_lock_time)"
  by (simp add: unlocked_def n_sequence_for_lock_time_def)

lemma commit_row_unlocked:
  assumes "fold_option commit_row rows cis = Some rows'" "\<forall>i \<in> set (fst rows). unlocked i"
  shows "\<forall>i \<in> set (fst rows'). unlocked i"
  using assms
proof (induction cis arbitrary: rows)
  case (Cons ci cis)
  obtain rows1 where r: "commit_row rows ci = Some rows1" "fold_option commit_row rows1 cis = Some rows'"
    using Cons.prems(1) by (auto simp: bind_eq_Some_conv)
  have "\<forall>i \<in> set (fst rows1). unlocked i"
    using r(1) Cons.prems(2)
    by (auto simp: commit_row_def bind_eq_Some_conv connector_e_leaf_tx_in_def split: prod.splits if_splits)
  then show ?case by (rule Cons.IH [OF r(2)])
qed simp

section \<open>The constructors\<close>

named_theorems lock_rules \<open>the outputs and time locks of what a constructor returns\<close>

lemmas leaf_input_defs = connector_0_defs connector_1_defs connector_2_defs connector_5_defs connector_6_defs
  connector_a_defs connector_b_defs connector_d_defs connector_3_tx_in_def connector_4_tx_in_def
  connector_f_1_tx_in_def connector_f_2_tx_in_def connector_1_leaf_2_tx_in_def

lemma peg_out_confirm_locks [lock_rules]:
  "peg_out_confirm_new_for_validation pol net operator c6 input_0 = Some t \<Longrightarrow>
     tx_output (ps_tx t) \<noteq> [] \<and> locks_within [] (ps_tx t)"
  by (auto simp: peg_out_confirm_new_for_validation_def bind_eq_Some_conv Let_def leaf_input_defs intro!: locks_withinI)

lemma kick_off_1_locks [lock_rules]:
  "kick_off_1_new_for_validation pol net operator n_of_n c1 c2 c6 input_0 = Some t \<Longrightarrow>
     tx_output (ps_tx t) \<noteq> [] \<and> locks_within [] (ps_tx t)"
  by (auto simp: kick_off_1_new_for_validation_def bind_eq_Some_conv Let_def leaf_input_defs intro!: locks_withinI)

lemma start_time_locks [lock_rules]:
  "start_time_new_for_validation pol net operator c2 input_0 = Some t \<Longrightarrow>
     tx_output (ps_tx t) \<noteq> [] \<and> locks_within [] (ps_tx t)"
  by (auto simp: start_time_new_for_validation_def bind_eq_Some_conv Let_def leaf_input_defs intro!: locks_withinI)

lemma start_time_timeout_locks [lock_rules]:
  "start_time_timeout_new_for_validation pol net c1 c2 input_0 input_1 = Some t \<Longrightarrow>
     tx_output (ps_tx t) \<noteq> [] \<and> locks_within [(in_outpoint input_1, c1_timelock_2 c1)] (ps_tx t)"
  by (auto simp: start_time_timeout_new_for_validation_def bind_eq_Some_conv Let_def leaf_input_defs intro!: locks_withinI)

lemma kick_off_2_locks [lock_rules]:
  "kick_off_2_new_for_validation pol net operator c1 cb input_0 = Some t \<Longrightarrow>
     tx_output (ps_tx t) \<noteq> [] \<and> locks_within [(in_outpoint input_0, c1_timelock_0 c1)] (ps_tx t)"
  by (auto simp: kick_off_2_new_for_validation_def bind_eq_Some_conv Let_def leaf_input_defs intro!: locks_withinI)

lemma kick_off_timeout_locks [lock_rules]:
  "kick_off_timeout_new_for_validation pol net c1 input_0 = Some t \<Longrightarrow>
     tx_output (ps_tx t) \<noteq> [] \<and> locks_within [(in_outpoint input_0, c1_timelock_1 c1)] (ps_tx t)"
  by (auto simp: kick_off_timeout_new_for_validation_def bind_eq_Some_conv Let_def leaf_input_defs intro!: locks_withinI)

lemma take_1_locks [lock_rules]:
  "take_1_new_for_validation pol net operator c0 c3 ca cb input_0 input_1 input_2 input_3 = Some t \<Longrightarrow>
     tx_output (ps_tx t) \<noteq> [] \<and> locks_within [(in_outpoint input_2, c3_timelock c3)] (ps_tx t)"
  by (auto simp: take_1_new_for_validation_def bind_eq_Some_conv Let_def leaf_input_defs intro!: locks_withinI)

lemma take_2_locks [lock_rules]:
  "take_2_new_for_validation pol api net operator c0 c4 c5 cc input_0 input_1 input_2 input_3 = Some t \<Longrightarrow>
     tx_output (ps_tx t) \<noteq> [] \<and> locks_within [(in_outpoint input_1, c4_timelock c4)] (ps_tx t)"
  by (auto simp: take_2_new_for_validation_def bind_eq_Some_conv Let_def leaf_input_defs intro!: locks_withinI)

lemma disprove_locks [lock_rules]:
  "disprove_new_for_validation pol api net c5 cc input_0 input_1 = Some t \<Longrightarrow>
     tx_output (ps_tx t) \<noteq> [] \<and> locks_within [] (ps_tx t)"
  by (auto simp: disprove_new_for_validation_def bind_eq_Some_conv Let_def leaf_input_defs intro!: locks_withinI)

lemma disprove_chain_locks [lock_rules]:
  "disprove_chain_new_for_validation pol net cb input_0 = Some t \<Longrightarrow>
     tx_output (ps_tx t) \<noteq> [] \<and> locks_within [] (ps_tx t)"
  by (auto simp: disprove_chain_new_for_validation_def bind_eq_Some_conv Let_def leaf_input_defs intro!: locks_withinI)

lemma challenge_locks [lock_rules]:
  "challenge_new_for_validation pol net operator ca input_0 crowdfunding = Some t \<Longrightarrow>
     tx_output (ps_tx t) \<noteq> [] \<and> locks_within [] (ps_tx t)"
  by (auto simp: challenge_new_for_validation_def bind_eq_Some_conv Let_def leaf_input_defs intro!: locks_withinI)

lemma assert_initial_locks [lock_rules]:
  "assert_initial_new_for_validation pol cb cd ces1 ces2 input_0 = Some t \<Longrightarrow>
     tx_output (ps_tx t) \<noteq> [] \<and> locks_within [(in_outpoint input_0, cb_timelock_1 cb)] (ps_tx t)"
  by (auto simp: assert_initial_new_for_validation_def bind_eq_Some_conv Let_def leaf_input_defs intro!: locks_withinI)

lemma assert_final_locks [lock_rules]:
  "assert_final_new_for_validation pol api c4 c5 cc cd cf1 cf2 input_0 input_1 input_2 = Some t \<Longrightarrow>
     tx_output (ps_tx t) \<noteq> [] \<and> locks_within [] (ps_tx t)"
  by (auto simp: assert_final_new_for_validation_def bind_eq_Some_conv Let_def leaf_input_defs intro!: locks_withinI)

lemma assert_commit_locks:
  "assert_commit_new_for_validation fee ces addr inps = Some t \<Longrightarrow>
     tx_output (ps_tx t) \<noteq> [] \<and> locks_within [] (ps_tx t)"
  by (auto simp: assert_commit_new_for_validation_def bind_eq_Some_conv intro!: locks_withinI dest!: commit_row_unlocked)

lemma assert_commits_locks [lock_rules]:
  "assert_commit_1_new pol ces cf1 inps = Some t \<Longrightarrow> tx_output (ps_tx t) \<noteq> [] \<and> locks_within [] (ps_tx t)"
  "assert_commit_2_new pol ces cf2 inps = Some t \<Longrightarrow> tx_output (ps_tx t) \<noteq> [] \<and> locks_within [] (ps_tx t)"
  using assert_commit_locks
  by (auto simp: assert_commit_1_new_def assert_commit_2_new_def assert_commit_1_new_for_validation_def
      assert_commit_2_new_for_validation_def rust_assert_bind_Some_iff)

section \<open>The time locks of a graph\<close>

fun graph_locks :: "(btc_tx \<Rightarrow> tx_hash) \<Rightarrow> 'a peg_out_graph_scheme \<Rightarrow> po_tx \<Rightarrow> (outpoint \<times> nat) list" where
  "graph_locks txid_of g Tx_Start_Time_Timeout =
     [(Outpoint (txid_of (ps_tx (kick_off_1_tx g))) 1, c1_timelock_2 (pc_1 (po_connectors g)))]"
| "graph_locks txid_of g Tx_Kick_Off_2 =
     [(Outpoint (txid_of (ps_tx (kick_off_1_tx g))) 1, c1_timelock_0 (pc_1 (po_connectors g)))]"
| "graph_locks txid_of g Tx_Kick_Off_Timeout =
     [(Outpoint (txid_of (ps_tx (kick_off_1_tx g))) 1, c1_timelock_1 (pc_1 (po_connectors g)))]"
| "graph_locks txid_of g Tx_Take_1 =
     [(Outpoint (txid_of (ps_tx (kick_off_2_tx g))) 0, c3_timelock (pc_3 (po_connectors g)))]"
| "graph_locks txid_of g Tx_Assert_Initial =
     [(Outpoint (txid_of (ps_tx (kick_off_2_tx g))) 1, cb_timelock_1 (pc_b (po_connectors g)))]"
| "graph_locks txid_of g Tx_Take_2 =
     [(Outpoint (txid_of (ps_tx (assert_final_tx g))) 0, c4_timelock (pc_4 (po_connectors g)))]"
| "graph_locks txid_of g _ = []"

lemma graph_time_locks:
  assumes "peg_out_graph_new pol txid_of api public_of ctx pin confirm_input secrets = Some g"
  shows "tx_output (tx_of g x) \<noteq> [] \<and> locks_within (graph_locks txid_of g x) (tx_of g x)"
proof -
  note parts = peg_out_graph_new_cases [OF assms]
  show ?thesis
  proof (cases x)
    case Tx_Peg_Out_Confirm
    then show ?thesis using parts(2) by (auto simp: new_kick_off_1_def bind_eq_Some_conv dest: lock_rules)
  next
    case Tx_Kick_Off_1
    then show ?thesis using parts(2) by (auto simp: new_kick_off_1_def bind_eq_Some_conv dest: lock_rules)
  next
    case Tx_Start_Time
    then show ?thesis using parts(3) by (auto simp: new_start_time_def bind_eq_Some_conv dest: lock_rules)
  next
    case Tx_Start_Time_Timeout
    then show ?thesis using parts(3)
      by (auto simp: new_start_time_def bind_eq_Some_conv dest!: generate_inputD dest: lock_rules)
  next
    case Tx_Kick_Off_2
    then show ?thesis using parts(4)
      by (auto simp: new_kick_off_2_def bind_eq_Some_conv dest!: generate_inputD dest: lock_rules)
  next
    case Tx_Kick_Off_Timeout
    then show ?thesis using parts(4)
      by (auto simp: new_kick_off_2_def bind_eq_Some_conv dest!: generate_inputD dest: lock_rules)
  next
    case Tx_Challenge
    then show ?thesis using parts(5) by (auto simp: new_challenge_def bind_eq_Some_conv dest: lock_rules)
  next
    case Tx_Take_1
    then show ?thesis using parts(6)
      by (auto simp: new_take_1_def bind_eq_Some_conv dest!: generate_inputD dest: lock_rules)
  next
    case Tx_Take_2
    then show ?thesis using parts(9)
      by (auto simp: new_take_2_def bind_eq_Some_conv dest!: generate_inputD dest: lock_rules)
  next
    case Tx_Assert_Final
    then show ?thesis using parts(8) by (auto simp: new_assert_final_def bind_eq_Some_conv dest: lock_rules)
  next
    case Tx_Disprove
    then show ?thesis using parts(10) by (auto simp: new_disprove_def bind_eq_Some_conv dest: lock_rules)
  next
    case Tx_Disprove_Chain
    then show ?thesis using parts(10) by (auto simp: new_disprove_def bind_eq_Some_conv dest: lock_rules)
  next
    case Tx_Assert_Initial
    then show ?thesis using parts(7)
      by (auto simp: new_assert_def Let_def bind_eq_Some_conv dest!: generate_inputD dest: lock_rules)
  next
    case Tx_Assert_Commit_1
    then show ?thesis using parts(7) by (auto simp: new_assert_def Let_def bind_eq_Some_conv dest: lock_rules)
  next
    case Tx_Assert_Commit_2
    then show ?thesis using parts(7) by (auto simp: new_assert_def Let_def bind_eq_Some_conv dest: lock_rules)
  qed
qed

end
