(* ===== verification/Peg_Out_Run.thy ===== *)
theory Peg_Out_Run
  imports Peg_Out_Actions Bridge_Ledger Peg_Out_Locks
begin

text \<open>
  A peg-out over time: the states that a participant's copy of a graph can reach by signing
  rounds, merges with the copies of others and operations, on whatever chain, and what is
  invariant over them. Whatever is returned for broadcast is the transaction of the graph in a
  form that the settlement rules of \<open>Bridge_Ledger\<close> speak of, and its relative time locks have run
  out.
\<close>

section \<open>Parents and pre-signed transactions\<close>

text \<open>Those that others spend; their ids must never change.\<close>

fun is_parent :: "po_tx \<Rightarrow> bool" where
  "is_parent Tx_Peg_Out_Confirm = True"
| "is_parent Tx_Kick_Off_1 = True"
| "is_parent Tx_Kick_Off_2 = True"
| "is_parent Tx_Assert_Initial = True"
| "is_parent Tx_Assert_Commit_1 = True"
| "is_parent Tx_Assert_Commit_2 = True"
| "is_parent Tx_Assert_Final = True"
| "is_parent _ = False"

fun presigned_name :: "presigned \<Rightarrow> po_tx" where
  "presigned_name P_Assert_Initial = Tx_Assert_Initial"
| "presigned_name P_Assert_Final = Tx_Assert_Final"
| "presigned_name P_Disprove_Chain = Tx_Disprove_Chain"
| "presigned_name P_Disprove = Tx_Disprove"
| "presigned_name P_Kick_Off_Timeout = Tx_Kick_Off_Timeout"
| "presigned_name P_Start_Time = Tx_Start_Time"
| "presigned_name P_Start_Time_Timeout = Tx_Start_Time_Timeout"
| "presigned_name P_Take_1 = Tx_Take_1"
| "presigned_name P_Take_2 = Tx_Take_2"

text \<open>The transactions that slash the operator; their second output is a reward for whoever claims it.\<close>

fun slashing :: "po_tx \<Rightarrow> bool" where
  "slashing Tx_Start_Time_Timeout = True"
| "slashing Tx_Kick_Off_Timeout = True"
| "slashing Tx_Disprove_Chain = True"
| "slashing Tx_Disprove = True"
| "slashing _ = False"

section \<open>Operations and reachable states\<close>

datatype ('k, 's) action =
    A_Peg_Out operator_context 'k tx_input_ref
  | A_Peg_Out_Confirm
  | A_Kick_Off_1 'k 's 's
  | A_Challenge "input_with_script list" script_pubkey
  | A_Start_Time operator_context 'k 's
  | A_Start_Time_Timeout script_pubkey
  | A_Kick_Off_2 'k 's 's
  | A_Kick_Off_Timeout script_pubkey
  | A_Assert_Initial
  | A_Assert_Commit_1 "nat list list list"
  | A_Assert_Commit_2 "nat list list list"
  | A_Assert_Final
  | A_Disprove script_pubkey
  | A_Disprove_Chain script_pubkey
  | A_Take_1
  | A_Take_2 'k

fun run_action :: "('k, 's) env \<Rightarrow> ('k, 's) action \<Rightarrow> peg_out_state \<Rightarrow> po_outcome" where
  "run_action env (A_Peg_Out ctx k input) s = peg_out_action env ctx k input s"
| "run_action env A_Peg_Out_Confirm s = peg_out_confirm_action env s"
| "run_action env (A_Kick_Off_1 k a b) s = kick_off_1_action env k a b s"
| "run_action env (A_Challenge inputs out) s = challenge_action env inputs out s"
| "run_action env (A_Start_Time ctx k a) s = start_time_action env ctx k a s"
| "run_action env (A_Start_Time_Timeout out) s = start_time_timeout_action env out s"
| "run_action env (A_Kick_Off_2 k a b) s = kick_off_2_action env k a b s"
| "run_action env (A_Kick_Off_Timeout out) s = kick_off_timeout_action env out s"
| "run_action env A_Assert_Initial s = assert_initial_action env s"
| "run_action env (A_Assert_Commit_1 w) s = assert_commit_1_action env w s"
| "run_action env (A_Assert_Commit_2 w) s = assert_commit_2_action env w s"
| "run_action env A_Assert_Final s = assert_final_action env s"
| "run_action env (A_Disprove out) s = disprove_action env out s"
| "run_action env (A_Disprove_Chain out) s = disprove_chain_action env out s"
| "run_action env A_Take_1 s = take_1_action env s"
| "run_action env (A_Take_2 k) s = take_2_action env k s"

text \<open>The transaction of the graph that an operation prepares; the peg-out itself is not one.\<close>

fun action_tx :: "('k, 's) action \<Rightarrow> po_tx option" where
  "action_tx (A_Peg_Out ctx k input) = None"
| "action_tx A_Peg_Out_Confirm = Some Tx_Peg_Out_Confirm"
| "action_tx (A_Kick_Off_1 k a b) = Some Tx_Kick_Off_1"
| "action_tx (A_Challenge inputs out) = Some Tx_Challenge"
| "action_tx (A_Start_Time ctx k a) = Some Tx_Start_Time"
| "action_tx (A_Start_Time_Timeout out) = Some Tx_Start_Time_Timeout"
| "action_tx (A_Kick_Off_2 k a b) = Some Tx_Kick_Off_2"
| "action_tx (A_Kick_Off_Timeout out) = Some Tx_Kick_Off_Timeout"
| "action_tx A_Assert_Initial = Some Tx_Assert_Initial"
| "action_tx (A_Assert_Commit_1 w) = Some Tx_Assert_Commit_1"
| "action_tx (A_Assert_Commit_2 w) = Some Tx_Assert_Commit_2"
| "action_tx A_Assert_Final = Some Tx_Assert_Final"
| "action_tx (A_Disprove out) = Some Tx_Disprove"
| "action_tx (A_Disprove_Chain out) = Some Tx_Disprove_Chain"
| "action_tx A_Take_1 = Some Tx_Take_1"
| "action_tx (A_Take_2 k) = Some Tx_Take_2"

text \<open>
  What can happen to a copy of a graph, in surroundings \<open>env\<close> that may differ at every step.
\<close>

inductive reachable :: "(('k, 's) env \<Rightarrow> bool) \<Rightarrow> peg_out_state \<Rightarrow> peg_out_state \<Rightarrow> bool"
  for envs s0 where
  created: "reachable envs s0 s0"
| nonces: "reachable envs s0 s \<Longrightarrow> envs env \<Longrightarrow>
    push_verifier_nonces (env_txid env) (env_crypto env) ctx fresh s = (s', pushed) \<Longrightarrow> reachable envs s0 s'"
| signed: "reachable envs s0 s \<Longrightarrow> envs env \<Longrightarrow>
    verifier_sign (env_txid env) (env_crypto env) ctx secret_nonces s = Some s' \<Longrightarrow> reachable envs s0 s'"
| merged: "reachable envs s0 s \<Longrightarrow> reachable envs s0 src \<Longrightarrow> reachable envs s0 (peg_out_merge s src)"
| event: "reachable envs s0 s \<Longrightarrow> match_and_set_peg_out_event s events = Some (s', rest, r) \<Longrightarrow>
    reachable envs s0 s'"
| acted: "reachable envs s0 s \<Longrightarrow> envs env \<Longrightarrow> run_action env a s = Some (s', r) \<Longrightarrow> reachable envs s0 s'"
| asserted: "reachable envs s0 s \<Longrightarrow> envs env \<Longrightarrow> assert_commits_action env w s = Some (s', r) \<Longrightarrow>
    reachable envs s0 s'"

section \<open>The invariant\<close>

text \<open>
  The forms in which the transaction \<open>x\<close> of a graph, built as \<open>a\<close>, appears: but for witnesses it is \<open>a\<close> itself, only
  that a start time has the committed time as lock time, a challenge may have more inputs and outputs at the end, and the
  reward of a slashing may be paid to any script.
\<close>

definition claimed_by :: "script_pubkey \<Rightarrow> tx_out list \<Rightarrow> tx_out list" where
  "claimed_by out outs = outs[1 := (outs ! 1)\<lparr>tx_script_pubkey := out\<rparr>]"

definition form_of :: "po_tx \<Rightarrow> btc_tx \<Rightarrow> btc_tx \<Rightarrow> bool" where
  "form_of x a b \<longleftrightarrow>
     tx_version b = tx_version a \<and>
     (x \<noteq> Tx_Start_Time \<longrightarrow> tx_lock_time b = tx_lock_time a) \<and>
     (\<exists>ins. unsigned_ins b = unsigned_ins a @ ins \<and> (\<forall>i \<in> set ins. tx_sequence i = 0xFFFFFFFF) \<and>
        (x \<noteq> Tx_Challenge \<longrightarrow> ins = [])) \<and>
     (tx_output b = tx_output a \<or>
      x = Tx_Challenge \<and> (\<exists>outs. tx_output b = tx_output a @ outs) \<or>
      slashing x \<and> (\<exists>out. tx_output b = claimed_by out (tx_output a)))"

lemma form_of_refl: "form_of x a a"
  by (simp add: form_of_def)

lemma form_of_unsigned: "form_of x a b \<Longrightarrow> unsigned c = unsigned b \<Longrightarrow> form_of x a c"
  using unsigned_eqD [of c b] unsigned_parts [of c b] by (simp add: form_of_def)

lemma take_1_update: "take (Suc 0) (xs[Suc 0 := y]) = take (Suc 0) xs"
  by (cases xs) simp_all

lemma form_of_extends:
  assumes "form_of x a b" "tx_output a \<noteq> []"
  shows "extends_tx a b"
  using assms take_1_append [OF assms(2)]
  by (auto simp: form_of_def extends_tx_def claimed_by_def take_1_update simp del: take_append)

lemma form_of_parent: "form_of x a b \<Longrightarrow> is_parent x \<Longrightarrow> unsigned b = unsigned a"
  by (cases x; cases a; cases b) (auto simp: form_of_def unsigned_def)

lemma claimed_by_twice [simp]: "claimed_by out (claimed_by out' outs) = claimed_by out outs"
  by (cases "1 < length outs") (simp_all add: claimed_by_def list_update_beyond)

lemma form_of_output:
  assumes "form_of x a b" "add_output out t = Some t'" "ps_tx t = b" "slashing x"
  shows "form_of x a (ps_tx t')"
proof -
  have "tx_output (ps_tx t') = claimed_by out (tx_output b)" "tx_input (ps_tx t') = tx_input b"
      "tx_version (ps_tx t') = tx_version b" "tx_lock_time (ps_tx t') = tx_lock_time b"
    using assms(2,3) by (auto simp: add_output_def claimed_by_def index_of_def bind_eq_Some_conv split: if_splits)
  then show ?thesis using assms(1,4) by (auto simp: form_of_def)
qed

lemma form_of_input_output:
  assumes "form_of x a (ps_tx t)" "add_input_output cr api cc i wit out t = Some t'" "slashing x"
  shows "form_of x a (ps_tx t')"
proof -
  obtain t1 tx1 script cached tx2 where
    t1: "add_output out t = Some t1" "fold_option (push_witness 1) (ps_tx t1) wit = Some tx1"
    and tx2: "push_taproot_leaf_script_and_cached_control_block_to_witness cr tx1 1 cached script = Some tx2"
      "t' = t1\<lparr>ps_tx := tx2\<rparr>"
    using assms(2) by (auto simp: add_input_output_def bind_eq_Some_conv)
  have "unsigned tx2 = unsigned (ps_tx t1)"
    using fold_push_witness_unsigned [OF t1(2)] appends_unsigned [OF push_cached_leaf_appends [OF tx2(1)]] by simp
  then show ?thesis using form_of_unsigned [OF form_of_output [OF assms(1) t1(1) refl assms(3)]] tx2(2) by simp
qed

lemma form_of_start_time:
  assumes "form_of Tx_Start_Time a b" "unsigned c = (unsigned b)\<lparr>tx_lock_time := n\<rparr>"
  shows "form_of Tx_Start_Time a c"
proof -
  have "form_of Tx_Start_Time a (b\<lparr>tx_lock_time := n\<rparr>)" using assms(1) by (simp add: form_of_def)
  then show ?thesis by (rule form_of_unsigned) (use assms(2) in \<open>simp add: unsigned_def\<close>)
qed

lemma push_input_rest [simp]:
  "tx_version (push_input sign tx inp) = tx_version tx" "tx_lock_time (push_input sign tx inp) = tx_lock_time tx"
  by (simp_all add: push_input_def Let_def)

lemma form_of_push_inputs:
  "form_of Tx_Challenge a tx \<Longrightarrow> form_of Tx_Challenge a (fold (\<lambda>inp tx. push_input sign tx inp) inputs tx)"
proof (induction inputs arbitrary: tx)
  case (Cons inp inputs)
  have "form_of Tx_Challenge a (push_input sign tx inp)"
    using Cons.prems by (auto simp: form_of_def push_input_unsigned_ins)
  then show ?case using Cons.IH by simp
qed simp

lemma form_of_challenge:
  assumes "form_of Tx_Challenge a (ps_tx ch)" "add_inputs_and_output pol sign ch inputs out = Some ch'"
  shows "form_of Tx_Challenge a (ps_tx ch')"
proof -
  obtain refund where "ps_tx ch' =
      fold (\<lambda>inp tx. push_input sign tx inp) inputs ((ps_tx ch)\<lparr>tx_output := tx_output (ps_tx ch) @ refund\<rparr>)"
    using assms(2) by (auto simp: add_inputs_and_output_def bind_eq_Some_conv Let_def)
  moreover have "form_of Tx_Challenge a ((ps_tx ch)\<lparr>tx_output := tx_output (ps_tx ch) @ refund\<rparr>)"
    using assms(1) by (auto simp: form_of_def)
  ultimately show ?thesis using form_of_push_inputs by metis
qed

text \<open>A merge of two forms is one: the destination's outputs, with those that it lacks.\<close>

lemma merge_form_of:
  assumes "form_of x a b" "form_of x a c"
  shows "form_of x a (merge_transactions b c)"
proof -
  obtain eb where b: "unsigned_ins b = unsigned_ins a @ eb" "\<forall>i \<in> set eb. tx_sequence i = 0xFFFFFFFF" "x \<noteq> Tx_Challenge \<longrightarrow> eb = []"
    using assms(1) by (auto simp: form_of_def)
  obtain ec where c: "unsigned_ins c = unsigned_ins a @ ec" "\<forall>i \<in> set ec. tx_sequence i = 0xFFFFFFFF" "x \<noteq> Tx_Challenge \<longrightarrow> ec = []"
    using assms(2) by (auto simp: form_of_def)
  have len: "length (tx_input b) = length (tx_input a) + length eb"
    using arg_cong [OF b(1), of length] by simp
  have ins: "unsigned_ins (merge_transactions b c) = unsigned_ins a @ eb @ drop (length eb) ec"
    using merge_unsigned_ins [of a b c] by (simp add: len b(1) c(1))
  have seq: "\<forall>i \<in> set (eb @ drop (length eb) ec). tx_sequence i = 0xFFFFFFFF"
    using b(2) c(2) by (auto dest: in_set_dropD)
  have outs: "tx_output (merge_transactions b c) = tx_output b \<or> x = Tx_Challenge"
  proof (cases "x = Tx_Challenge")
    case False
    then have "length (tx_output b) = length (tx_output a)" "length (tx_output c) = length (tx_output a)"
      using assms by (auto simp: form_of_def claimed_by_def)
    then show ?thesis by (simp add: push_missing_eq)
  qed simp
  show ?thesis
  proof (cases "x = Tx_Challenge")
    case True
    then show ?thesis using assms(1) ins seq by (auto simp: form_of_def push_missing_eq)
  next
    case False
    then show ?thesis using assms(1) ins b(3) c(3) outs by (auto simp: form_of_def)
  qed
qed

text \<open>
  Every transaction has the form of the one the graph was built with; so those that others spend are unchanged but for
  witnesses, and the connectors are those of the graph.
\<close>

definition faithful :: "peg_out_state \<Rightarrow> peg_out_state \<Rightarrow> bool" where
  "faithful s0 s \<longleftrightarrow>
     (\<forall>x. tx_output (tx_of s0 x) \<noteq> [] \<and> form_of x (tx_of s0 x) (tx_of s x)) \<and>
     po_connectors s = po_connectors s0 \<and> peg_in_confirm_txid s = peg_in_confirm_txid s0"

text \<open>A step that changes one transaction.\<close>

definition changes_only :: "peg_out_state \<Rightarrow> po_tx \<Rightarrow> btc_tx \<Rightarrow> peg_out_state \<Rightarrow> bool" where
  "changes_only s x tx s' \<longleftrightarrow>
     (\<forall>y. tx_of s' y = (if y = x then tx else tx_of s y)) \<and>
     po_connectors s' = po_connectors s \<and> peg_in_confirm_txid s' = peg_in_confirm_txid s"

lemma faithful_changes:
  assumes "faithful s0 s" "changes_only s x tx s'" "form_of x (tx_of s0 x) tx"
  shows "faithful s0 s'"
  using assms by (auto simp: faithful_def changes_only_def)

lemma faithful_same:
  "faithful s0 s \<Longrightarrow> (\<And>y. tx_of s' y = tx_of s y) \<Longrightarrow> po_connectors s' = po_connectors s \<Longrightarrow>
     peg_in_confirm_txid s' = peg_in_confirm_txid s \<Longrightarrow> faithful s0 s'"
  by (simp add: faithful_def)

lemma set_presigned_changes:
  "changes_only s (presigned_name p) tx (set_presigned p tx s)"
  unfolding changes_only_def
proof (intro conjI allI)
  fix y show "tx_of (set_presigned p tx s) y = (if y = presigned_name p then tx else tx_of s y)"
    by (cases p; cases y) (simp_all add: set_tx_def)
qed simp_all

lemma tx_of_set_musig [simp]: "tx_of (set_musig p ms s) y = tx_of s y"
  by (cases y) (simp_all add: set_musig_def)

lemma connectors_set_musig [simp]: "peg_in_confirm_txid (set_musig p ms s) = peg_in_confirm_txid s"
  by (simp add: set_musig_def)

lemma get_presigned_tx [simp]: "ps_tx (get_presigned s p) = tx_of s (presigned_name p)"
  by (cases p) (simp_all add: pre_signed.truncate_def)

lemma faithful_refl: "\<forall>x. tx_output (tx_of s0 x) \<noteq> [] \<Longrightarrow> faithful s0 s0"
  by (simp add: faithful_def form_of_refl)

text \<open>Signing rounds.\<close>

lemmas pre_sign_defs = assert_initial_pre_sign_def assert_final_pre_sign_def disprove_chain_pre_sign_def
  disprove_pre_sign_def kick_off_timeout_pre_sign_def start_time_timeout_pre_sign_def take_1_pre_sign_def
  take_2_pre_sign_def

definition keeps_tx :: "(secret_nonces \<Rightarrow> signed \<Rightarrow> signed option) \<Rightarrow> bool" where
  "keeps_tx sign \<longleftrightarrow> (\<forall>n tm t ms. sign n tm = Some (t, ms) \<longrightarrow> unsigned (ps_tx t) = unsigned (ps_tx (fst tm)))"

lemma musig2_sign_input_unsigned:
  "musig2_sign_input cr ctx i ty spend ns tm = Some (t', ms') \<Longrightarrow> unsigned (ps_tx t') = unsigned (ps_tx (fst tm))"
  by (cases tm) (auto dest: musig2_sign_input_keeps)

lemma pre_sign_keeps_tx [simp]:
  "keeps_tx (assert_initial_pre_sign cr ctx cb)" "keeps_tx (assert_final_pre_sign cr ctx cd)"
  "keeps_tx (disprove_chain_pre_sign cr ctx cb)" "keeps_tx (disprove_pre_sign cr ctx c5)"
  "keeps_tx (kick_off_timeout_pre_sign cr ctx c1)" "keeps_tx (start_time_timeout_pre_sign cr ctx c1 c2)"
  "keeps_tx (take_1_pre_sign cr ctx c0 cb)" "keeps_tx (take_2_pre_sign cr ctx c0 c5)"
  by (auto simp: keeps_tx_def pre_sign_defs bind_eq_Some_conv dest!: musig2_sign_input_unsigned)

lemma faithful_presign:
  assumes "faithful s0 s" "presign_tx txid_of ns p sign s = Some s'" "keeps_tx sign"
  shows "faithful s0 s'"
proof -
  obtain n t ms where t: "sign n (get_presigned s p, po_musig s p) = Some (t, ms)"
    and s': "s' = set_musig p ms (set_presigned p (ps_tx t) s)"
    using assms(2) by (auto simp: presign_tx_def bind_eq_Some_conv)
  have u: "unsigned (ps_tx t) = unsigned (tx_of s (presigned_name p))"
    using assms(3) t by (fastforce simp: keeps_tx_def)
  have "faithful s0 (set_presigned p (ps_tx t) s)"
    by (rule faithful_changes [OF assms(1) set_presigned_changes form_of_unsigned [OF _ u]])
      (use assms(1) in \<open>simp add: faithful_def\<close>)
  then show ?thesis by (rule faithful_same) (simp_all add: s')
qed

lemma presigned_flag_faithful: "faithful s0 s \<Longrightarrow> faithful s0 (s\<lparr>n_of_n_presigned := b\<rparr>)"
proof (rule faithful_same)
  fix y show "tx_of (s\<lparr>n_of_n_presigned := b\<rparr>) y = tx_of s y" by (cases y) simp_all
qed simp_all

text \<open>What every step of a signing round keeps, the round keeps.\<close>

lemma verifier_sign_induct:
  assumes "verifier_sign txid_of cr ctx ns s = Some s'" "P s"
    and step: "\<And>p sign a b. P a \<Longrightarrow> presign_tx txid_of ns p sign a = Some b \<Longrightarrow> keeps_tx sign \<Longrightarrow> P b"
    and flag: "\<And>a. P a \<Longrightarrow> P (a\<lparr>n_of_n_presigned := True\<rparr>)"
  shows "P s'"
proof -
  obtain s1 s2 s3 s4 s5 s6 s7 s8 where s': "s' = s8\<lparr>n_of_n_presigned := True\<rparr>" and steps:
    "presign_tx txid_of ns P_Assert_Initial (assert_initial_pre_sign cr ctx (pc_b (po_connectors s))) s = Some s1"
    "presign_tx txid_of ns P_Assert_Final (assert_final_pre_sign cr ctx (pc_d (po_connectors s))) s1 = Some s2"
    "presign_tx txid_of ns P_Disprove_Chain (disprove_chain_pre_sign cr ctx (pc_b (po_connectors s))) s2 = Some s3"
    "presign_tx txid_of ns P_Disprove (disprove_pre_sign cr ctx (pc_5 (po_connectors s))) s3 = Some s4"
    "presign_tx txid_of ns P_Kick_Off_Timeout (kick_off_timeout_pre_sign cr ctx (pc_1 (po_connectors s))) s4 = Some s5"
    "presign_tx txid_of ns P_Start_Time_Timeout
       (start_time_timeout_pre_sign cr ctx (pc_1 (po_connectors s)) (pc_2 (po_connectors s))) s5 = Some s6"
    "presign_tx txid_of ns P_Take_1 (take_1_pre_sign cr ctx (pc_0 (po_connectors s)) (pc_b (po_connectors s))) s6 = Some s7"
    "presign_tx txid_of ns P_Take_2 (take_2_pre_sign cr ctx (pc_0 (po_connectors s)) (pc_5 (po_connectors s))) s7 = Some s8"
    using assms(1) by (auto simp: verifier_sign_def Let_def bind_eq_Some_conv)
  have "P s1" by (rule step [OF assms(2) steps(1)]) simp
  then have "P s2" by (rule step [OF _ steps(2)]) simp
  then have "P s3" by (rule step [OF _ steps(3)]) simp
  then have "P s4" by (rule step [OF _ steps(4)]) simp
  then have "P s5" by (rule step [OF _ steps(5)]) simp
  then have "P s6" by (rule step [OF _ steps(6)]) simp
  then have "P s7" by (rule step [OF _ steps(7)]) simp
  then have "P s8" by (rule step [OF _ steps(8)]) simp
  then show ?thesis by (simp add: s' flag)
qed

lemma verifier_sign_faithful:
  "faithful s0 s \<Longrightarrow> verifier_sign txid_of cr ctx ns s = Some s' \<Longrightarrow> faithful s0 s'"
  by (erule verifier_sign_induct [where P = "faithful s0"]) (auto intro: faithful_presign presigned_flag_faithful)

lemma set_musig_faithful: "faithful s0 s \<Longrightarrow> faithful s0 (set_musig p ms s)"
  by (rule faithful_same) simp_all

lemma foldl_induct: "(\<And>a p. P a \<Longrightarrow> P (f a p)) \<Longrightarrow> P s \<Longrightarrow> P (foldl f s ps)"
  by (induction ps arbitrary: s) simp_all

lemma push_verifier_nonces_induct:
  assumes "push_verifier_nonces txid_of cr ctx fresh s = (s', pushed)" "P s"
    and "\<And>p ms a. P a \<Longrightarrow> P (set_musig p ms a)"
  shows "P s'"
proof -
  have "s' = fst (push_verifier_nonces txid_of cr ctx fresh s)" using assms(1) by simp
  then show ?thesis
    by (simp add: push_verifier_nonces_def Let_def foldl_induct [of P] assms(2,3) del: foldl.simps)
qed

text \<open>Merging two faithful copies.\<close>

lemma merge_changes_ok:
  assumes "faithful s0 s" "faithful s0 src"
  shows "form_of x (tx_of s0 x) (merge_transactions (tx_of s x) (tx_of src x))"
  using assms by (simp add: faithful_def merge_form_of)

lemma merge_presigned_faithful:
  assumes "faithful s0 s" "faithful s0 src"
  shows "faithful s0 (merge_presigned p src s)"
proof -
  have "faithful s0 (set_presigned p (merge_transactions (tx_of s (presigned_name p)) (tx_of src (presigned_name p))) s)"
    by (rule faithful_changes [OF assms(1) set_presigned_changes merge_changes_ok [OF assms]])
  then show ?thesis by (rule faithful_same) (simp_all add: merge_presigned_def merge_musig_def)
qed

lemma merge_tx_faithful:
  assumes "faithful s0 s" "faithful s0 src"
    and "changes_only s x (merge_transactions (tx_of s x) (tx_of src x)) s'"
  shows "faithful s0 s'"
  by (rule faithful_changes [OF assms(1,3) merge_changes_ok [OF assms(1,2)]])

lemma changes_onlyI:
  "(\<And>y. tx_of s' y = (if y = x then tx else tx_of s y)) \<Longrightarrow> po_connectors s' = po_connectors s \<Longrightarrow>
     peg_in_confirm_txid s' = peg_in_confirm_txid s \<Longrightarrow> changes_only s x tx s'"
  by (simp add: changes_only_def)

lemma assert_commit_1_changes:
  "changes_only s Tx_Assert_Commit_1 tx (s\<lparr>assert_commit_1_tx := set_tx tx p\<rparr>)"
proof (rule changes_onlyI)
  fix y show "tx_of (s\<lparr>assert_commit_1_tx := set_tx tx p\<rparr>) y = (if y = Tx_Assert_Commit_1 then tx else tx_of s y)"
    by (cases y) (simp_all add: set_tx_def)
qed simp_all

lemma assert_commit_2_changes:
  "changes_only s Tx_Assert_Commit_2 tx (s\<lparr>assert_commit_2_tx := set_tx tx p\<rparr>)"
proof (rule changes_onlyI)
  fix y show "tx_of (s\<lparr>assert_commit_2_tx := set_tx tx p\<rparr>) y = (if y = Tx_Assert_Commit_2 then tx else tx_of s y)"
    by (cases y) (simp_all add: set_tx_def)
qed simp_all

lemma challenge_changes:
  "changes_only s Tx_Challenge tx (s\<lparr>challenge_transaction := set_tx tx p\<rparr>)"
proof (rule changes_onlyI)
  fix y show "tx_of (s\<lparr>challenge_transaction := set_tx tx p\<rparr>) y = (if y = Tx_Challenge then tx else tx_of s y)"
    by (cases y) (simp_all add: set_tx_def)
qed simp_all

lemma merge_tx_faithfuls:
  assumes "faithful s0 s" "faithful s0 src"
  shows "faithful s0 (s\<lparr>assert_commit_1_tx := merge_tx (assert_commit_1_tx s) (assert_commit_1_tx src)\<rparr>)"
    and "faithful s0 (s\<lparr>assert_commit_2_tx := merge_tx (assert_commit_2_tx s) (assert_commit_2_tx src)\<rparr>)"
    and "faithful s0 (s\<lparr>challenge_transaction := merge_tx (challenge_transaction s) (challenge_transaction src)\<rparr>)"
  using merge_tx_faithful [OF assms, of Tx_Assert_Commit_1] merge_tx_faithful [OF assms, of Tx_Assert_Commit_2]
    merge_tx_faithful [OF assms, of Tx_Challenge]
  by (simp_all add: merge_tx_def assert_commit_1_changes assert_commit_2_changes challenge_changes)

lemma peg_out_merge_induct:
  assumes "P s" and p: "\<And>p a. P a \<Longrightarrow> P (merge_presigned p src a)"
    and "\<And>a. P a \<Longrightarrow> P (a\<lparr>assert_commit_1_tx := merge_tx (assert_commit_1_tx a) (assert_commit_1_tx src)\<rparr>)"
    and "\<And>a. P a \<Longrightarrow> P (a\<lparr>assert_commit_2_tx := merge_tx (assert_commit_2_tx a) (assert_commit_2_tx src)\<rparr>)"
    and "\<And>a. P a \<Longrightarrow> P (a\<lparr>challenge_transaction := merge_tx (challenge_transaction a) (challenge_transaction src)\<rparr>)"
  shows "P (peg_out_merge s src)"
proof -
  define s1 where "s1 = merge_presigned P_Assert_Initial src s"
  define s2 where "s2 = s1\<lparr>assert_commit_1_tx := merge_tx (assert_commit_1_tx s1) (assert_commit_1_tx src)\<rparr>"
  define s3 where "s3 = s2\<lparr>assert_commit_2_tx := merge_tx (assert_commit_2_tx s2) (assert_commit_2_tx src)\<rparr>"
  define s4 where "s4 = merge_presigned P_Assert_Final src s3"
  define s5 where "s5 = s4\<lparr>challenge_transaction := merge_tx (challenge_transaction s4) (challenge_transaction src)\<rparr>"
  have "P s1" unfolding s1_def by (rule p [OF assms(1)])
  then have "P s2" unfolding s2_def by (rule assms(3))
  then have "P s3" unfolding s3_def by (rule assms(4))
  then have "P s4" unfolding s4_def by (rule p)
  then have "P s5" unfolding s5_def by (rule assms(5))
  then have "P (foldl (\<lambda>s p. merge_presigned p src s) s5 ps)" for ps
    by (rule foldl_induct [of P, OF p, rotated])
  then show ?thesis by (simp only: peg_out_merge_def Let_def s1_def s2_def s3_def s4_def s5_def)
qed

lemma peg_out_merge_faithful:
  "faithful s0 s \<Longrightarrow> faithful s0 src \<Longrightarrow> faithful s0 (peg_out_merge s src)"
  by (rule peg_out_merge_induct [of "faithful s0"]) (auto intro: merge_presigned_faithful merge_tx_faithfuls)

text \<open>
  Operations: whatever the result, the copy satisfies \<open>P\<close>, and the transactions that are returned
  satisfy \<open>Q\<close>.
\<close>

definition outcome_all :: "('s \<Rightarrow> bool) \<Rightarrow> ('a \<Rightarrow> bool) \<Rightarrow> ('s, 'a) outcome \<Rightarrow> bool" where
  "outcome_all P Q r \<longleftrightarrow> (\<forall>s' e. r = Some (s', Inl e) \<longrightarrow> P s') \<and> (\<forall>s' tx. r = Some (s', Inr tx) \<longrightarrow> P s' \<and> Q tx)"

named_theorems outcome_rules

lemma outcome_result [outcome_rules]:
  "P s \<Longrightarrow> outcome_all P Q (Some (s, Inl e))" "P s \<Longrightarrow> Q tx \<Longrightarrow> outcome_all P Q (Some (s, Inr tx))"
  by (simp_all add: outcome_all_def)

lemma outcome_bind [outcome_rules]:
  "(\<And>x. m = Some x \<Longrightarrow> outcome_all P Q (f x)) \<Longrightarrow> outcome_all P Q (m \<bind> f)"
  by (cases m) (simp_all add: outcome_all_def)

lemma outcome_attempt [outcome_rules]:
  "P s \<Longrightarrow> (\<And>x. r = Inr x \<Longrightarrow> outcome_all P Q (k x)) \<Longrightarrow> outcome_all P Q (attempt r s k)"
  by (cases r) (simp_all add: outcome_all_def)

lemma outcome_guards [outcome_rules]:
  "P s \<Longrightarrow> outcome_all P Q r \<Longrightarrow> outcome_all P Q (unless_mined env t s r)"
  "P s \<Longrightarrow> (\<And>st. outcome_all P Q (k st)) \<Longrightarrow> outcome_all P Q (with_status cl txid s k)"
  "P s \<Longrightarrow> (\<And>st. outcome_all P Q (k st)) \<Longrightarrow> outcome_all P Q (if_confirmed cl txid name s k)"
  "P s \<Longrightarrow> outcome_all P Q r \<Longrightarrow> outcome_all P Q (if_timelock_met cl st n named s r)"
  by (auto simp: unless_mined_def with_status_def if_confirmed_def if_timelock_met_def split: sum.split
      intro!: outcome_rules)

lemma outcome_cases [outcome_rules]:
  "(c \<Longrightarrow> outcome_all P Q a) \<Longrightarrow> (\<not> c \<Longrightarrow> outcome_all P Q b) \<Longrightarrow> outcome_all P Q (if c then a else b)"
  "outcome_all P Q (f (fst p) (snd p)) \<Longrightarrow> outcome_all P Q (case p of (x, y) \<Rightarrow> f x y)"
  "(m = None \<Longrightarrow> outcome_all P Q a) \<Longrightarrow> (\<And>x. m = Some x \<Longrightarrow> outcome_all P Q (g x)) \<Longrightarrow>
     outcome_all P Q (case m of None \<Rightarrow> a | Some x \<Rightarrow> g x)"
  by (auto split: prod.split option.split)

text \<open>The updates of the operations.\<close>

lemma faithful_updates:
  "changes_only s Tx_Kick_Off_1 (ps_tx k1) (s\<lparr>kick_off_1_tx := k1\<rparr>)"
  "changes_only s Tx_Challenge (ps_tx ch) (s\<lparr>challenge_transaction := ch\<rparr>)"
  "changes_only s Tx_Start_Time (ps_tx st) (s\<lparr>start_time_tx := st, start_time_witness := w\<rparr>)"
  "changes_only s Tx_Start_Time_Timeout (ps_tx stt) (s\<lparr>start_time_timeout_tx := stt\<rparr>)"
  "changes_only s Tx_Kick_Off_2 (ps_tx k2) (s\<lparr>kick_off_2_tx := k2, superblock_hash_witness := w\<rparr>)"
  "changes_only s Tx_Kick_Off_Timeout (ps_tx kt) (s\<lparr>kick_off_timeout_tx := kt\<rparr>)"
  "changes_only s Tx_Assert_Commit_1 (ps_tx ac) (s\<lparr>assert_commit_1_tx := ac\<rparr>)"
  "changes_only s Tx_Assert_Commit_2 (ps_tx ac) (s\<lparr>assert_commit_2_tx := ac\<rparr>)"
  "changes_only s Tx_Disprove (ps_tx dp) (s\<lparr>disprove_tx := dp\<rparr>)"
  "changes_only s Tx_Disprove_Chain (ps_tx dc) (s\<lparr>disprove_chain_tx := dc\<rparr>)"
  "changes_only s Tx_Take_2 (ps_tx t2) (s\<lparr>take_2_tx := t2\<rparr>)"
  by (simp_all add: changes_only_def all_po_tx)

lemma faithful_D:
  "faithful s0 s \<Longrightarrow> extends_tx (tx_of s0 x) (tx_of s x)"
  "faithful s0 s \<Longrightarrow> is_parent x \<Longrightarrow> unsigned (tx_of s x) = unsigned (tx_of s0 x)"
  "faithful s0 s \<Longrightarrow> form_of x (tx_of s0 x) (tx_of s x)"
  unfolding faithful_def by (blast intro: form_of_extends form_of_parent)+

text \<open>The transaction \<open>x\<close> of the graph, ready for broadcast.\<close>

definition prepared :: "peg_out_state \<Rightarrow> po_tx \<Rightarrow> btc_tx \<Rightarrow> bool" where
  "prepared s0 x tx \<longleftrightarrow> tx_output (tx_of s0 x) \<noteq> [] \<and> form_of x (tx_of s0 x) tx"

lemma prepared_extends: "prepared s0 x tx \<Longrightarrow> extends_tx (tx_of s0 x) tx"
  unfolding prepared_def by (blast intro: form_of_extends)

lemma prepared_parent: "prepared s0 x tx \<Longrightarrow> is_parent x \<Longrightarrow> unsigned tx = unsigned (tx_of s0 x)"
  unfolding prepared_def by (blast intro: form_of_parent)

lemma faithful_formed:
  assumes "faithful s0 s" "changes_only s x tx s'" "form_of x (tx_of s0 x) tx"
  shows "faithful s0 s' \<and> prepared s0 x tx"
  using faithful_changes [OF assms] assms(1,3) by (simp add: prepared_def faithful_def)

lemma faithful_witness:
  assumes "faithful s0 s" "changes_only s x tx s'" "unsigned tx = unsigned (tx_of s x)"
  shows "faithful s0 s' \<and> prepared s0 x tx"
  by (rule faithful_formed [OF assms(1,2) form_of_unsigned [OF faithful_D(3) [OF assms(1)] assms(3)]])

lemma finalize_same:
  "challenge_finalize ch = Some tx \<Longrightarrow> tx = ps_tx ch" "reward_finalize rw = Some tx \<Longrightarrow> tx = ps_tx rw"
  "disprove_finalize dp = Some tx \<Longrightarrow> tx = ps_tx dp"
  by (simp_all add: challenge_finalize_def reward_finalize_def disprove_finalize_def split: if_splits)

text \<open>Operations that only add witnesses, and those that add inputs and outputs.\<close>

lemma witness_results:
  assumes f: "faithful s0 s"
  shows "kick_off_1_sign cr kp c6 a b (kick_off_1_tx s) = Some k1 \<Longrightarrow>
      faithful s0 (s\<lparr>kick_off_1_tx := k1\<rparr>) \<and> prepared s0 Tx_Kick_Off_1 (ps_tx k1)"
    and "kick_off_2_sign cr kp c1 a b (kick_off_2_tx s) = Some (k2, w) \<Longrightarrow>
      faithful s0 (s\<lparr>kick_off_2_tx := k2, superblock_hash_witness := v\<rparr>) \<and>
      prepared s0 Tx_Kick_Off_2 (ps_tx k2)"
    and "assert_commit_sign cr succeeds ces ws (assert_commit_1_tx s) = Some ac \<Longrightarrow>
      faithful s0 (s\<lparr>assert_commit_1_tx := ac\<rparr>) \<and> prepared s0 Tx_Assert_Commit_1 (ps_tx ac)"
    and "assert_commit_sign cr succeeds ces ws (assert_commit_2_tx s) = Some ac \<Longrightarrow>
      faithful s0 (s\<lparr>assert_commit_2_tx := ac\<rparr>) \<and> prepared s0 Tx_Assert_Commit_2 (ps_tx ac)"
    and "take_2_sign cr api kp cc (take_2_tx s) = Some t2 \<Longrightarrow>
      faithful s0 (s\<lparr>take_2_tx := t2\<rparr>) \<and> prepared s0 Tx_Take_2 (ps_tx t2)"
  by (rule faithful_witness [OF f], rule faithful_updates,
      simp add: kick_off_1_sign_keeps kick_off_2_sign_keeps assert_commit_sign_keeps take_2_sign_keeps)+

lemma extended_results:
  assumes f: "faithful s0 s"
  shows "add_inputs_and_output pol sign (challenge_transaction s) inputs out = Some ch \<Longrightarrow>
      faithful s0 (s\<lparr>challenge_transaction := ch\<rparr>) \<and> prepared s0 Tx_Challenge (ps_tx ch)"
    and "start_time_sign cr kp c2 n secret (start_time_tx s) = Some (st, w) \<Longrightarrow>
      faithful s0 (s\<lparr>start_time_tx := st, start_time_witness := v\<rparr>) \<and> prepared s0 Tx_Start_Time (ps_tx st)"
    and "add_output out (start_time_timeout_tx s) = Some stt \<Longrightarrow>
      faithful s0 (s\<lparr>start_time_timeout_tx := stt\<rparr>) \<and> prepared s0 Tx_Start_Time_Timeout (ps_tx stt)"
    and "add_output out (kick_off_timeout_tx s) = Some kt \<Longrightarrow>
      faithful s0 (s\<lparr>kick_off_timeout_tx := kt\<rparr>) \<and> prepared s0 Tx_Kick_Off_Timeout (ps_tx kt)"
    and "add_input_output cr api cc i wit out (disprove_tx s) = Some dp \<Longrightarrow>
      faithful s0 (s\<lparr>disprove_tx := dp\<rparr>) \<and> prepared s0 Tx_Disprove (ps_tx dp)"
    and "add_output out (disprove_chain_tx s) = Some dc \<Longrightarrow>
      faithful s0 (s\<lparr>disprove_chain_tx := dc\<rparr>) \<and> prepared s0 Tx_Disprove_Chain (ps_tx dc)"
  using faithful_D(3) [OF f, of Tx_Challenge] faithful_D(3) [OF f, of Tx_Start_Time]
    faithful_D(3) [OF f, of Tx_Start_Time_Timeout] faithful_D(3) [OF f, of Tx_Kick_Off_Timeout]
    faithful_D(3) [OF f, of Tx_Disprove] faithful_D(3) [OF f, of Tx_Disprove_Chain]
  by (intro faithful_formed [OF f] faithful_updates; auto intro: form_of_challenge form_of_output form_of_input_output
      form_of_start_time dest: start_time_sign_keeps)+

lemma disprove_chain_results:
  assumes f: "faithful s0 s" and dc: "add_output out (disprove_chain_tx s) = Some dc"
    and sign: "disprove_chain_sign m a b dc = Some dc'"
  shows "faithful s0 (s\<lparr>disprove_chain_tx := dc'\<rparr>) \<and> prepared s0 Tx_Disprove_Chain (ps_tx dc')"
  using extended_results(6) [OF f dc] disprove_chain_sign_keeps [OF sign]
  by (intro faithful_formed [OF f] faithful_updates) (auto simp: prepared_def intro: form_of_unsigned)

lemma peg_out_faithful: "faithful s0 s \<Longrightarrow> faithful s0 (s\<lparr>peg_out_transaction := t\<rparr>)"
  by (simp add: faithful_def all_po_tx)

lemma event_faithful: "faithful s0 s \<Longrightarrow> faithful s0 (s\<lparr>peg_out_chain_event := e\<rparr>)"
  by (simp add: faithful_def all_po_tx)

lemma faithful_prepared:
  assumes "faithful s0 s"
  shows "prepared s0 Tx_Peg_Out_Confirm (ps_tx (peg_out_confirm_tx s))"
    and "prepared s0 Tx_Assert_Initial (ps_tx (assert_initial_tx s))"
    and "prepared s0 Tx_Assert_Final (ps_tx (assert_final_tx s))"
    and "prepared s0 Tx_Take_1 (ps_tx (take_1_tx s))"
  using faithful_D(3) [OF assms, of Tx_Peg_Out_Confirm] faithful_D(3) [OF assms, of Tx_Assert_Initial]
    faithful_D(3) [OF assms, of Tx_Assert_Final] faithful_D(3) [OF assms, of Tx_Take_1]
  assms
  by (simp_all add: prepared_def faithful_def all_po_tx)

lemmas action_defs = peg_out_action_def peg_out_confirm_action_def kick_off_1_action_def challenge_action_def
  start_time_action_def start_time_timeout_action_def kick_off_2_action_def kick_off_timeout_action_def
  assert_initial_action_def assert_commit_1_action_def assert_commit_2_action_def assert_final_action_def
  disprove_action_def disprove_chain_action_def take_1_action_def take_2_action_def Let_def

lemma run_action_outcome:
  assumes f: "faithful s0 s"
  shows "outcome_all (faithful s0) (\<lambda>tx. \<forall>x. action_tx a = Some x \<longrightarrow> prepared s0 x tx) (run_action env a s)"
proof (cases a)
  case (A_Disprove_Chain out)
  then show ?thesis using f
    by (auto simp: action_defs intro!: outcome_rules dest!: finalize_same dest: disprove_chain_results [OF f]
        extended_results(6) [OF f])
qed (use f in \<open>auto simp: action_defs intro!: outcome_rules peg_out_faithful dest!: finalize_same
       witness_results [OF f] extended_results [OF f] dest: faithful_prepared\<close>)

lemma outcome_allD:
  assumes "outcome_all P Q r"
  shows "r = Some (s', e) \<Longrightarrow> P s'" and "r = Some (s', Inr tx) \<Longrightarrow> Q tx"
  using assms by (cases e; auto simp: outcome_all_def)+

lemma assert_commits_outcome:
  assumes f: "faithful s0 s"
  shows "outcome_all (faithful s0) (\<lambda>(c1, c2). prepared s0 Tx_Assert_Commit_1 c1 \<and> prepared s0 Tx_Assert_Commit_2 c2)
    (assert_commits_action env w s)"
proof -
  have two: "faithful s0 (s\<lparr>assert_commit_1_tx := c1, assert_commit_2_tx := c2\<rparr>) \<and>
      prepared s0 Tx_Assert_Commit_1 (ps_tx c1) \<and> prepared s0 Tx_Assert_Commit_2 (ps_tx c2)"
    if c1: "assert_commit_sign cr succeeds ce1 w1 (assert_commit_1_tx s) = Some c1"
      and c2: "assert_commit_sign cr succeeds ce2 w2 (assert_commit_2_tx s) = Some c2"
    for cr :: "('k, 's) crypto" and succeeds ce1 ce2 w1 w2 c1 c2
  proof -
    note one = witness_results(3) [OF f c1]
    from witness_results(4) [OF conjunct1 [OF one], of cr succeeds ce2 w2 c2] show ?thesis using c2 one by simp
  qed
  show ?thesis
    using f by (auto simp: assert_commits_action_def intro!: outcome_rules dest: two)
qed

lemma assert_commits_unsigned:
  assumes "faithful s0 s" "assert_commits_action env w s = Some (s', Inr (c1, c2))"
  shows "unsigned c1 = unsigned (tx_of s0 Tx_Assert_Commit_1)" "unsigned c2 = unsigned (tx_of s0 Tx_Assert_Commit_2)"
  using outcome_allD(2) [OF assert_commits_outcome [OF assms(1)] assms(2)]
    prepared_parent [of s0 Tx_Assert_Commit_1 c1] prepared_parent [of s0 Tx_Assert_Commit_2 c2] by simp_all

lemma assert_commits_faithful:
  assumes "faithful s0 s" "assert_commits_action env w s = Some (s', r)"
  shows "faithful s0 s'"
  by (rule outcome_allD(1) [OF assert_commits_outcome [OF assms(1)] assms(2)])

lemma match_and_set_cases:
  assumes "match_and_set_peg_out_event s events = Some (s', rest, r)"
  shows "s' = s \<or> (\<exists>event. s' = s\<lparr>peg_out_chain_event := Some event\<rparr>)"
proof -
  have "s' = s \<or> (\<exists>event. s' = s\<lparr>peg_out_chain_event := Some event\<rparr>)"
    if "(case matching of [] \<Rightarrow> Some (s, left, Inr None)
         | [event] \<Rightarrow> Some (s\<lparr>peg_out_chain_event := Some event\<rparr>, left, Inr (Some event))
         | _ \<Rightarrow> Some (s, left, Inl ''Event from L2 chain is not unique'')) = Some (s', rest, r)" for matching left
    using that by (auto split: list.splits)
  note cases = this
  let ?ids = "filter (\<lambda>i. op_txid (source_outpoint (events ! i)) = peg_in_confirm_txid s \<and>
    operator_public_key (events ! i) = po_operator_key s) [0..<length events]"
  have m: "match_and_set_peg_out_event s events = fold_option swap_remove events ?ids \<bind> (\<lambda>left.
      case map ((!) events) ?ids of [] \<Rightarrow> Some (s, left, Inr None)
      | [event] \<Rightarrow> Some (s\<lparr>peg_out_chain_event := Some event\<rparr>, left, Inr (Some event))
      | _ \<Rightarrow> Some (s, left, Inl ''Event from L2 chain is not unique''))"
    by (simp only: match_and_set_peg_out_event_def Let_def)
  obtain left where "fold_option swap_remove events ?ids = Some left"
    using assms unfolding m by (cases "fold_option swap_remove events ?ids") (simp_all only: bind.simps option.distinct)
  then show ?thesis
    using assms unfolding m by (simp only: bind.simps) (rule cases)
qed

lemma match_and_set_faithful:
  assumes "faithful s0 s" "match_and_set_peg_out_event s events = Some (s', rest, r)"
  shows "faithful s0 s'"
  using match_and_set_cases [OF assms(2)] assms(1) event_faithful by blast

lemma reachable_faithful:
  assumes "reachable envs s0 s" "\<forall>x. tx_output (tx_of s0 x) \<noteq> []"
  shows "faithful s0 s"
  using assms(1)
proof induction
  case created then show ?case by (rule faithful_refl [OF assms(2)])
next
  case (nonces s env ctx fresh s' pushed) 
  show ?case by (rule push_verifier_nonces_induct [where P = "faithful s0", OF nonces.hyps(3) nonces.IH]) (rule set_musig_faithful)
next
  case (signed s env ctx secret_nonces s') then show ?case by (blast intro: verifier_sign_faithful)
next
  case (merged s src) then show ?case by (blast intro: peg_out_merge_faithful)
next
  case (event s events s' rest r) then show ?case by (blast intro: match_and_set_faithful)
next
  case (acted s env a s' r) 
  show ?case by (rule outcome_allD(1) [OF run_action_outcome [OF acted.IH] acted.hyps(3)])
next
  case (asserted s env w s' r) then show ?case by (blast intro: assert_commits_faithful)
qed

section \<open>What a copy returns\<close>

text \<open>The copy that \<open>PegOutGraph::new\<close> makes, without its participant's data.\<close>

abbreviation graph_of :: "peg_out_state \<Rightarrow> peg_out_graph" where
  "graph_of s \<equiv> peg_out_graph.truncate s"

lemma tx_of_graph_of [simp]: "tx_of (graph_of s) x = tx_of s x"
  by (cases x) (simp_all add: peg_out_graph.truncate_def)

text \<open>A copy of a graph with other witnesses.\<close>

definition signed_copy :: "peg_out_graph \<Rightarrow> peg_out_state \<Rightarrow> bool" where
  "signed_copy g s \<longleftrightarrow> (\<forall>x. unsigned (tx_of s x) = unsigned (tx_of g x)) \<and>
     po_connectors s = po_connectors g \<and> peg_in_confirm_txid s = peg_in_confirm_txid g"

lemma sign_new_keeps:
  assumes "sign_new cr keypair g = Some g'"
  shows "\<forall>x. unsigned (tx_of g' x) = unsigned (tx_of g x)" "po_connectors g' = po_connectors g"
    "peg_in_confirm_txid g' = peg_in_confirm_txid g" "start_time_tx g' = start_time_tx g"
  using assms
  by (auto simp: sign_new_def Let_def bind_eq_Some_conv all_po_tx peg_out_confirm_signed_def challenge_signed_def
      take_1_signed_def assert_final_signed_def take_2_signed_def dest!: signing_rules)

lemma peg_out_state_new_graph:
  assumes "peg_out_state_new pol txid_of api public_of generate_id cr keypair ctx pin confirm_input secrets = Some s"
  obtains g where "peg_out_graph_new pol txid_of api public_of ctx pin confirm_input secrets = Some g"
    "signed_copy g s" "start_time_tx s = start_time_tx g" "start_time_witness s = None"
    "superblock_hash_witness s = None"
proof -
  obtain g g' more where g: "peg_out_graph_new pol txid_of api public_of ctx pin confirm_input secrets = Some g"
    and g': "sign_new cr keypair g = Some g'" and s: "s = peg_out_graph.extend g' more"
    and m: "start_time_witness s = None" "superblock_hash_witness s = None"
    using assms by (auto simp: peg_out_state_new_def bind_eq_Some_conv peg_out_graph.extend_def)
  have tx: "tx_of s x = tx_of g' x" for x
    by (cases x) (simp_all add: s peg_out_graph.extend_def)
  have "signed_copy g s"
    unfolding signed_copy_def using sign_new_keeps [OF g'] by (simp only: tx) (simp add: s peg_out_graph.extend_def)
  moreover have "start_time_tx s = start_time_tx g"
    using sign_new_keeps(4) [OF g'] by (simp add: s peg_out_graph.extend_def)
  ultimately show ?thesis using that g m by blast
qed

lemma signed_copy_outputs: "signed_copy g s \<Longrightarrow> tx_output (tx_of s x) = tx_output (tx_of g x)"
  by (metis signed_copy_def unsigned_eqD(2))

lemma signed_copy_id:
  "signed_copy g s \<Longrightarrow> txid_binding txid_of \<Longrightarrow> txid_of (tx_of s x) = txid_of (tx_of g x)"
  by (simp add: signed_copy_def txid_binding_def)

lemma new_reachable_faithful:
  assumes "peg_out_state_new pol txid_of api public_of generate_id cr keypair ctx pin confirm_input secrets = Some s0"
    and "reachable envs s0 s"
  shows "faithful s0 s"
proof -
  obtain g where g: "peg_out_graph_new pol txid_of api public_of ctx pin confirm_input secrets = Some g" "signed_copy g s0"
    by (rule peg_out_state_new_graph [OF assms(1)])
  show ?thesis
  proof (rule reachable_faithful [OF assms(2)], rule allI)
    fix x show "tx_output (tx_of s0 x) \<noteq> []"
      using graph_time_locks [OF g(1), of x] by (simp add: signed_copy_outputs [OF g(2)])
  qed
qed

lemma returned_prepared:
  assumes "faithful s0 s" "run_action env a s = Some (s', Inr tx)" "action_tx a = Some x"
  shows "prepared s0 x tx"
  using outcome_allD(2) [OF run_action_outcome [OF assms(1)] assms(2)] assms(3) by blast

lemma extends_instance:
  assumes "extends_tx (ps_tx p) t"
  shows "instance_of t p"
proof -
  obtain extra where e: "unsigned_ins t = unsigned_ins (ps_tx p) @ extra"
    and o1: "take 1 (tx_output t) = take 1 (tx_output (ps_tx p))"
    using assms by (auto simp: extends_tx_def)
  have out: "outpoints_of u = map previous_output (unsigned_ins u)" for u
    by (simp add: outpoints_of_def unsigned_in_def comp_def)
  have "outpoints_of t = outpoints_of (ps_tx p) @ map previous_output extra"
    unfolding out e by simp
  then show ?thesis using o1 by (simp add: instance_of_def outpoints_of_def)
qed

text \<open>The operations that end in a reimbursement.\<close>

fun reimbursing :: "po_tx \<Rightarrow> bool" where
  "reimbursing Tx_Take_1 = True"
| "reimbursing Tx_Take_2 = True"
| "reimbursing _ = False"

lemma confirmed_instances:
  fixes g :: peg_out_graph
  assumes "extends_tx (tx_of g x) t" "t \<in> set txs"
  shows "slashing x \<Longrightarrow> slashed txs g" "reimbursing x \<Longrightarrow> reimbursed txs g"
  using assms
  by (cases x; auto simp: slashed_def reimbursed_def confirmed_as_def intro: extends_instance)+

lemma extends_tx_base: "unsigned b = unsigned a \<Longrightarrow> extends_tx a t \<Longrightarrow> extends_tx b t"
  using unsigned_parts [of b a] by (simp add: extends_tx_def)

lemma prepared_graph: "signed_copy g s \<Longrightarrow> prepared s x t \<Longrightarrow> extends_tx (tx_of g x) t"
  using prepared_extends extends_tx_base unfolding signed_copy_def by metis

lemma signed_copy_locks:
  assumes "signed_copy g s" "txid_binding txid_of"
  shows "graph_locks txid_of s x = graph_locks txid_of g x" "locks_within ls (tx_of g x) \<Longrightarrow> locks_within ls (tx_of s x)"
proof -
  note ids = signed_copy_id [OF assms]
  show "graph_locks txid_of s x = graph_locks txid_of g x"
    using ids [of Tx_Kick_Off_1] ids [of Tx_Kick_Off_2] ids [of Tx_Assert_Final] assms(1)
    by (cases x) (simp_all add: signed_copy_def)
  have "locks t = map (\<lambda>i. (previous_output i, tx_sequence i)) (filter (\<lambda>i. \<not> unlocked i) (unsigned_ins t))" for t
    by (simp add: locks_def filter_map comp_def unlocked_def unsigned_in_def)
  moreover have "unsigned_ins (tx_of s x) = unsigned_ins (tx_of g x)"
    using assms(1) unsigned_parts by (metis signed_copy_def)
  ultimately show "locks_within ls (tx_of g x) \<Longrightarrow> locks_within ls (tx_of s x)"
    unfolding locks_within_def by metis
qed

section \<open>Time locks\<close>

text \<open>
  By what the node says, so many blocks have been mined on top of the block of the transaction
  whose output is spent.
\<close>

definition matured :: "esplora \<Rightarrow> outpoint \<Rightarrow> nat \<Rightarrow> bool" where
  "matured cl op n \<longleftrightarrow>
     (\<exists>st b h. get_tx_status cl (op_txid op) = Inr st \<and> confirmed st \<and> block_height st = Some b \<and>
        get_height cl = Inr h \<and> b + n \<le> h)"

lemma parent_ids:
  assumes "faithful s0 s" "txid_binding txid_of"
  shows "txid_of (ps_tx (kick_off_1_tx s)) = txid_of (ps_tx (kick_off_1_tx s0))"
    and "txid_of (ps_tx (kick_off_2_tx s)) = txid_of (ps_tx (kick_off_2_tx s0))"
    and "txid_of (ps_tx (assert_final_tx s)) = txid_of (ps_tx (assert_final_tx s0))"
  using faithful_D(2) [OF assms(1), of Tx_Kick_Off_1] faithful_D(2) [OF assms(1), of Tx_Kick_Off_2]
    faithful_D(2) [OF assms(1), of Tx_Assert_Final] assms(2)
  by (simp_all add: txid_binding_def)

lemma with_status_ok:
  "with_status cl txid s k = Some (s', Inr y) \<longleftrightarrow> (\<exists>st. get_tx_status cl txid = Inr st \<and> k st = Some (s', Inr y))"
  by (auto simp: with_status_def split: sum.splits)

lemmas ok_simps = unless_mined_ok if_confirmed_ok if_timelock_met_ok timelock_met_True with_status_ok attempt_ok
  bind_eq_Some_conv

lemma run_action_matured:
  assumes f: "faithful s0 s" and b: "txid_binding (env_txid env)"
    and run: "run_action env a s = Some (s', Inr tx)" and x: "action_tx a = Some x"
    and l: "(op, n) \<in> set (graph_locks (env_txid env) s0 x)"
  shows "matured (env_client env) op n"
proof -
  note ids = parent_ids [OF f b]
  have cs: "po_connectors s = po_connectors s0" using f by (simp add: faithful_def)
  have txs: "action_tx a = Some Tx_Start_Time_Timeout \<or> action_tx a = Some Tx_Kick_Off_2 \<or>
      action_tx a = Some Tx_Kick_Off_Timeout \<or> action_tx a = Some Tx_Take_1 \<or>
      action_tx a = Some Tx_Assert_Initial \<or> action_tx a = Some Tx_Take_2"
    using l x by (cases x) simp_all
  show ?thesis
  proof (cases a)
    case A_Start_Time_Timeout
    then show ?thesis using run x l by (auto simp: start_time_timeout_action_def ok_simps matured_def ids cs)
  next
    case A_Kick_Off_2
    then show ?thesis using run x l by (auto simp: kick_off_2_action_def ok_simps matured_def ids cs)
  next
    case A_Kick_Off_Timeout
    then show ?thesis using run x l by (auto simp: kick_off_timeout_action_def ok_simps matured_def ids cs)
  next
    case A_Take_1
    then show ?thesis using run x l
      by (auto simp: take_1_action_def Let_def ok_simps matured_def ids cs split: if_splits)
  next
    case A_Assert_Initial
    then show ?thesis using run x l by (auto simp: assert_initial_action_def ok_simps matured_def ids cs)
  next
    case A_Take_2
    then show ?thesis using run x l
      by (auto simp: take_2_action_def Let_def ok_simps matured_def ids cs split: if_splits)
  qed (use txs in simp_all)
qed

lemma extends_locks:
  assumes "extends_tx a b" "locks_within ls a" "i \<in> set (tx_input b)" "\<not> unlocked i"
  shows "(previous_output i, tx_sequence i) \<in> set ls"
proof -
  obtain extra where e: "unsigned_ins b = unsigned_ins a @ extra" "\<forall>i \<in> set extra. tx_sequence i = 0xFFFFFFFF"
    using assms(1) by (auto simp: extends_tx_def)
  have "unsigned_in i \<in> set (unsigned_ins b)" using assms(3) by simp
  moreover have "unsigned_in i \<notin> set extra"
  proof
    assume "unsigned_in i \<in> set extra"
    with e(2) have "tx_sequence (unsigned_in i) = 0xFFFFFFFF" by (rule bspec)
    then show False using assms(4) by (simp add: unlocked_def unsigned_in_def)
  qed
  ultimately obtain j where j: "j \<in> set (tx_input a)" "unsigned_in j = unsigned_in i"
    unfolding e(1) by fastforce
  have same: "previous_output j = previous_output i" "tx_sequence j = tx_sequence i"
    using arg_cong [OF j(2), of previous_output] arg_cong [OF j(2), of tx_sequence] by (simp_all add: unsigned_in_def)
  then have "\<not> unlocked j" using assms(4) by (simp add: unlocked_def)
  then have "(previous_output j, tx_sequence j) \<in> set (locks a)" using j(1) by (auto simp: locks_def)
  then show ?thesis using assms(2) same by (auto simp: locks_within_def)
qed

end
