(* ===== verification/Peg_Out_Rules.thy ===== *)
theory Peg_Out_Rules
  imports Peg_Out_Run
begin

text \<open>
  What the operations of a participant guarantee over any run: the transactions that they return are
  those of the graph, ready for broadcast only once their time locks have run out, and those that
  participants with different copies broadcast settle the peg-out at most one way.
\<close>

section \<open>Sample surroundings\<close>

text \<open>
  A node at height 10000 on which the given transactions were mined in block 100, and signature
  schemes with constant results.
\<close>

definition sample_client :: "tx_hash list \<Rightarrow> esplora" where
  "sample_client mined =
     \<lparr>get_tx_status = (\<lambda>t. Inr (if t \<in> set mined then \<lparr>confirmed = True, block_height = Some 100\<rparr>
        else \<lparr>confirmed = False, block_height = None\<rparr>)),
      get_height = Inr 10000, get_tx = (\<lambda>_. Inr None), broadcast = (\<lambda>_. Inr ())\<rparr>"

definition sample_crypto :: "(nat, nat) crypto" where
  "sample_crypto =
     \<lparr>ecdsa_sig = (\<lambda>_ _ _ _ _ _. Some [1]), leaf_sig = (\<lambda>_ _ _ _ _ _. Some [2]), key_spend_sig = (\<lambda>_ _ _ _ _ _. Some [3]),
      script_bytes = (\<lambda>s. [length s]), control_block = (\<lambda>_ s. [length s]), winternitz_witness = (\<lambda>s m. [[s], m]),
      partial_sig = (\<lambda>_ _ _ _ _ _ _ _ _. Some [4]), aggregated_sig = (\<lambda>_ _ _ _ _ _ _ _. Some [5]),
      public_nonce = (\<lambda>n. n), sign_nonce = (\<lambda>_ n. n)\<rparr>"

definition sample_env :: "tx_hash list \<Rightarrow> (nat, nat) env" where
  "sample_env mined =
     \<lparr>env_txid = binding_txid, env_client = sample_client mined, env_policy = core_policy,
      env_crypto = sample_crypto, env_api = sample_chunk_api, env_txid_bytes = (\<lambda>t. [t]), env_show_txid = (\<lambda>_. []),
      env_inscription = (\<lambda>m. m), env_challenge_witness = (\<lambda>_ _ _ _. []), env_superblock_message = [],
      env_superblock_hash_message = [], env_succeeds = (\<lambda>_ _. True), env_disprove_witness = (\<lambda>_ _ _. Inr (0, []))\<rparr>"

lemma sample_env_simps [simp]:
  "env_txid (sample_env mined) = binding_txid" "env_client (sample_env mined) = sample_client mined"
  by (simp_all add: sample_env_def)

lemma sample_client_simps [simp]:
  "is_confirmed (sample_client mined) t = Inr (t \<in> set mined)"
  "t \<in> set mined \<Longrightarrow> get_tx_status (sample_client mined) t = Inr \<lparr>confirmed = True, block_height = Some 100\<rparr>"
  "t \<notin> set mined \<Longrightarrow> get_tx_status (sample_client mined) t = Inr \<lparr>confirmed = False, block_height = None\<rparr>"
  "get_height (sample_client mined) = Inr 10000"
  by (simp_all add: sample_client_def is_confirmed_def)

text \<open>Transactions with different inputs have different ids.\<close>

lemma different_ids:
  "outpoints_of a \<noteq> outpoints_of b \<Longrightarrow> binding_txid a \<noteq> binding_txid b"
  "length (tx_output a) \<noteq> length (tx_output b) \<Longrightarrow> binding_txid a \<noteq> binding_txid b"
proof -
  have out: "outpoints_of u = map previous_output (tx_input (unsigned u))" for u
    by (simp add: outpoints_of_def unsigned_def unsigned_in_def comp_def)
  have "binding_txid a = binding_txid b \<longleftrightarrow> unsigned a = unsigned b"
    using binding_txid by (simp add: txid_binding_def)
  then show "outpoints_of a \<noteq> outpoints_of b \<Longrightarrow> binding_txid a \<noteq> binding_txid b"
    "length (tx_output a) \<noteq> length (tx_output b) \<Longrightarrow> binding_txid a \<noteq> binding_txid b"
    using out by (metis, metis unsigned_parts)
qed

text \<open>Of the last transaction of a ledger, only the outputs that it spends matter.\<close>

lemma last_transaction:
  "ledger txid_of base (txs @ [t]) \<Longrightarrow> outpoints_of u = outpoints_of t \<Longrightarrow> ledger txid_of base (txs @ [u])"
  by (erule ledger_snocE) (auto intro!: ledger.confirm simp: confirms_def)

text \<open>The copies of a peg-out of the sample participants.\<close>

abbreviation sample_new :: "peg_in_graph \<Rightarrow> peg_out_state option" where
  "sample_new pin \<equiv> peg_out_state_new core_policy binding_txid sample_chunk_api sample_public_key (\<lambda>_ _. ''peg-out'')
     sample_crypto 5 sample_operator pin sample_funding (generate_commitment_secrets sample_secret)"

abbreviation sample_graph :: "peg_in_graph \<Rightarrow> peg_out_graph option" where
  "sample_graph pin \<equiv> peg_out_graph_new core_policy binding_txid sample_chunk_api sample_public_key
     sample_operator pin sample_funding (generate_commitment_secrets sample_secret)"

lemma sample_p2wsh_signed:
  "i < length (ps_prev_scripts t) \<Longrightarrow> i < length (ps_prev_outs t) \<Longrightarrow> i < length (tx_input (ps_tx t)) \<Longrightarrow>
     \<exists>t'. pre_sign_p2wsh_input sample_crypto t i Sig_All [k] = Some t'"
  by (simp add: pre_sign_p2wsh_input_def populate_p2wsh_witness_def push_p2wsh_signature_to_witness_def
      generate_p2wsh_schnorr_signature_def push_witness_def index_of_def sample_crypto_def)

lemma sample_taproot_signed:
  "i < length (ps_prev_scripts t) \<Longrightarrow> i < length (ps_prev_outs t) \<Longrightarrow> i < length (tx_input (ps_tx t)) \<Longrightarrow>
     ps_prev_scripts t ! i \<in> snd ` set (tap_leaves si) \<Longrightarrow>
     \<exists>t'. pre_sign_taproot_input_default sample_crypto t i ty si [k] = Some t'"
  by (cases ty; simp add: pre_sign_taproot_input_default_def populate_taproot_input_witness_default_def
      push_taproot_leaf_unlock_data_to_witness_def push_taproot_leaf_script_and_control_block_to_witness_def
      generate_taproot_leaf_schnorr_signature_def sighash_prevouts_def push_witness_def index_of_def sample_crypto_def
      rust_assert_bind_Some_iff)

lemma peg_out_confirm_prevs:
  "peg_out_confirm_new_for_validation pol net operator c6 i0 = Some t \<Longrightarrow>
     length (ps_prev_scripts t) = 1 \<and> length (ps_prev_outs t) = 1 \<and> length (tx_input (ps_tx t)) = 1"
  by (auto simp: peg_out_confirm_new_for_validation_def bind_eq_Some_conv Let_def)

lemma challenge_prevs:
  "challenge_new_for_validation pol net operator ca i0 n = Some t \<Longrightarrow>
     length (ps_prev_scripts t) = 1 \<and> length (ps_prev_outs t) = 1 \<and> length (tx_input (ps_tx t)) = 1 \<and>
     ps_prev_scripts t ! 0 \<in> snd ` set (tap_leaves (connector_a_spend_info ca))"
  by (auto simp: challenge_new_for_validation_def bind_eq_Some_conv Let_def connector_a_defs)

lemma take_1_prevs:
  "take_1_new_for_validation pol net operator c0 c3 ca cb i0 i1 i2 i3 = Some t \<Longrightarrow>
     length (ps_prev_scripts t) = 4 \<and> length (ps_prev_outs t) = 4 \<and> length (tx_input (ps_tx t)) = 4 \<and>
     ps_prev_scripts t ! 1 \<in> snd ` set (tap_leaves (connector_a_spend_info ca))"
  by (auto simp: take_1_new_for_validation_def bind_eq_Some_conv Let_def connector_a_defs)

lemma take_2_prevs:
  "take_2_new_for_validation pol api net operator c0 c4 c5 cc i0 i1 i2 i3 = Some t \<Longrightarrow>
     length (ps_prev_scripts t) = 3 \<and> length (ps_prev_outs t) = 4 \<and> length (tx_input (ps_tx t)) = 4"
  by (auto simp: take_2_new_for_validation_def bind_eq_Some_conv Let_def)

lemma assert_final_prevs:
  "assert_final_new_for_validation pol api c4 c5 cc cd cf1 cf2 i0 i1 i2 = Some t \<Longrightarrow>
     length (ps_prev_scripts t) = 3 \<and> length (ps_prev_outs t) = 3 \<and> length (tx_input (ps_tx t)) = 3"
  by (auto simp: assert_final_new_for_validation_def bind_eq_Some_conv Let_def)

lemma pre_sign_p2wsh_lengths:
  "pre_sign_p2wsh_input cr t i ty ks = Some t' \<Longrightarrow> length (tx_input (ps_tx t')) = length (tx_input (ps_tx t))"
  using pre_sign_p2wsh_keeps unsigned_eqD(1) by metis

lemma pre_sign_taproot_lengths:
  "pre_sign_taproot_input_default cr t i ty si ks = Some t' \<Longrightarrow> length (tx_input (ps_tx t')) = length (tx_input (ps_tx t))"
  using pre_sign_taproot_keeps unsigned_eqD(1) by metis

lemma sample_sign_new:
  assumes "peg_out_graph_new pol txid_of api public_of ctx pin confirm_input secrets = Some g"
  shows "\<exists>g'. sign_new sample_crypto k g = Some g'"
proof -
  note parts = peg_out_graph_new_cases [OF assms]
  have "\<exists>t. peg_out_confirm_signed sample_crypto k (peg_out_confirm_tx g) = Some t"
    unfolding peg_out_confirm_signed_def using parts(2)
    by (intro sample_p2wsh_signed) (auto simp: new_kick_off_1_def bind_eq_Some_conv dest!: peg_out_confirm_prevs)
  moreover have "\<exists>t. challenge_signed sample_crypto k (pc_a (po_connectors g)) (challenge_transaction g) = Some t"
    unfolding challenge_signed_def using parts(5)
    by (intro sample_taproot_signed) (auto simp: new_challenge_def bind_eq_Some_conv dest!: challenge_prevs)
  moreover have "\<exists>t. take_1_signed sample_crypto k (pc_a (po_connectors g)) (take_1_tx g) = Some t"
  proof -
    have p: "length (ps_prev_scripts (take_1_tx g)) = 4 \<and> length (ps_prev_outs (take_1_tx g)) = 4 \<and>
        length (tx_input (ps_tx (take_1_tx g))) = 4 \<and>
        ps_prev_scripts (take_1_tx g) ! 1 \<in> snd ` set (tap_leaves (connector_a_spend_info (pc_a (po_connectors g))))"
      using parts(6) by (auto simp: new_take_1_def bind_eq_Some_conv dest!: take_1_prevs intro: rev_image_eqI)
    obtain t1 where t1: "pre_sign_taproot_input_default sample_crypto (take_1_tx g) 1 Sig_All
        (connector_a_spend_info (pc_a (po_connectors g))) [k] = Some t1"
      using sample_taproot_signed [of 1 "take_1_tx g" "connector_a_spend_info (pc_a (po_connectors g))" Sig_All k] p
      by (elim conjE) (simp del: One_nat_def, blast)
    then show ?thesis
      using sample_p2wsh_signed [of 2 t1 k] pre_sign_taproot_keeps [OF t1] pre_sign_taproot_lengths [OF t1] p
      by (auto simp: take_1_signed_def)
  qed
  moreover have "\<exists>t. assert_final_signed sample_crypto k (assert_final_tx g) = Some t"
  proof -
    have p: "length (ps_prev_scripts (assert_final_tx g)) = 3 \<and> length (ps_prev_outs (assert_final_tx g)) = 3 \<and>
        length (tx_input (ps_tx (assert_final_tx g))) = 3"
      using parts(8) by (auto simp: new_assert_final_def bind_eq_Some_conv dest!: assert_final_prevs)
    obtain t1 where t1: "pre_sign_p2wsh_input sample_crypto (assert_final_tx g) 1 Sig_All [k] = Some t1"
      using sample_p2wsh_signed [of 1 "assert_final_tx g" k] p by auto
    then show ?thesis
      using sample_p2wsh_signed [of 2 t1 k] pre_sign_p2wsh_keeps [OF t1] pre_sign_p2wsh_lengths [OF t1] p
      by (auto simp: assert_final_signed_def)
  qed
  moreover have "\<exists>t. take_2_signed sample_crypto k (take_2_tx g) = Some t"
    unfolding take_2_signed_def using parts(9)
    by (intro sample_p2wsh_signed) (auto simp: new_take_2_def bind_eq_Some_conv dest!: take_2_prevs)
  ultimately show ?thesis by (auto simp: sign_new_def Let_def)
qed

lemma sample_states:
  obtains pin g s where
    "peg_in_graph_new core_policy binding_txid sample_depositor sample_deposit ''0xab'' = Some pin"
    "sample_graph pin = Some g" "peg_out_links binding_txid (peg_in_confirm_tx pin) g"
    "sample_new pin = Some s" "signed_copy g s"
proof (rule sample_graphs)
  fix pin :: peg_in_graph and g :: peg_out_graph
  assume pin: "peg_in_graph_new core_policy binding_txid sample_depositor sample_deposit ''0xab'' = Some pin"
    and g: "sample_graph pin = Some g" and l: "peg_out_links binding_txid (peg_in_confirm_tx pin) g"
  obtain g' where "sign_new sample_crypto 5 g = Some g'" using sample_sign_new [OF g] by blast
  then obtain s where s: "sample_new pin = Some s" using g by (simp add: peg_out_state_new_def)
  obtain g2 where "sample_graph pin = Some g2" "signed_copy g2 s" by (rule peg_out_state_new_graph [OF s])
  then show ?thesis using pin g l s that by simp
qed

lemma spends_outpoints:
  "spends_output txid_of c i p v \<Longrightarrow> i < length (outpoints_of (ps_tx c)) \<and> outpoints_of (ps_tx c) ! i = Outpoint (txid_of p) v"
  by (simp add: spends_output_def outpoints_of_def)

lemma differ_at:
  "spends_output txid_of a i p v \<Longrightarrow> spends_output txid_of b i q w \<Longrightarrow> Outpoint (txid_of p) v \<noteq> Outpoint (txid_of q) w \<Longrightarrow>
     binding_txid (ps_tx a) \<noteq> binding_txid (ps_tx b)"
  using spends_outpoints [of txid_of a i p v] spends_outpoints [of txid_of b i q w]
    different_ids(1) [of "ps_tx a" "ps_tx b"] by (metis)

lemma graph_output_counts:
  fixes g :: peg_out_graph
  assumes "peg_out_graph_new pol txid_of api public_of ctx pin confirm_input secrets = Some g"
  shows "length (tx_output (ps_tx (peg_out_confirm_tx g))) = 1" "length (tx_output (ps_tx (kick_off_1_tx g))) = 3"
    "length (tx_output (ps_tx (kick_off_2_tx g))) = 2" "length (tx_output (ps_tx (take_1_tx g))) = 1"
    "length (tx_output (ps_tx (challenge_transaction g))) = 1" "length (tx_output (ps_tx (kick_off_timeout_tx g))) = 2"
proof -
  note parts = peg_out_graph_new_cases [OF assms]
  have p: "length (tx_output t) = length (pays t)" for t by (simp add: pays_def)
  show "length (tx_output (ps_tx (peg_out_confirm_tx g))) = 1" "length (tx_output (ps_tx (kick_off_1_tx g))) = 3"
    using parts(2) by (auto simp: p new_kick_off_1_def bind_eq_Some_conv dest!: shape_rules)
  show "length (tx_output (ps_tx (kick_off_2_tx g))) = 2" "length (tx_output (ps_tx (kick_off_timeout_tx g))) = 2"
    using parts(4) by (auto simp: p new_kick_off_2_def bind_eq_Some_conv dest!: shape_rules)
  show "length (tx_output (ps_tx (take_1_tx g))) = 1"
    using parts(6) by (auto simp: p new_take_1_def bind_eq_Some_conv dest!: shape_rules)
  show "length (tx_output (ps_tx (challenge_transaction g))) = 1"
    using parts(5) by (auto simp: p new_challenge_def bind_eq_Some_conv dest!: shape_rules)
qed

lemma sample_connectors:
  assumes "peg_out_connectors_new public_of sample_operator secrets = Some cs"
  shows "c1_timelock_1 (pc_1 cs) = num_blocks_per_2_weeks + num_blocks_per_day"
    "c3_timelock (pc_3 cs) = num_blocks_per_3_days"
  using assms
  by (auto simp: peg_out_connectors_new_def create_new_connectors_def bind_eq_Some_conv connector_1_new_def
      connector_3_new_def sample_operator_def split: prod.splits)

lemma sample_confirm_id:
  "peg_out_graph_new pol txid_of api public_of ctx pin confirm_input secrets = Some g \<Longrightarrow>
     peg_in_confirm_txid g = txid_of (ps_tx (peg_in_confirm_tx pin))"
  by (auto simp: peg_out_graph_new_def Let_def bind_eq_Some_conv)

text \<open>The ids and numbers of outputs of a copy are those of the graph.\<close>

lemma copy_ids:
  assumes "signed_copy g s"
  shows "binding_txid (ps_tx (peg_out_confirm_tx s)) = binding_txid (ps_tx (peg_out_confirm_tx g))"
    "binding_txid (ps_tx (kick_off_1_tx s)) = binding_txid (ps_tx (kick_off_1_tx g))"
    "binding_txid (ps_tx (start_time_tx s)) = binding_txid (ps_tx (start_time_tx g))"
    "binding_txid (ps_tx (kick_off_2_tx s)) = binding_txid (ps_tx (kick_off_2_tx g))"
    "binding_txid (ps_tx (kick_off_timeout_tx s)) = binding_txid (ps_tx (kick_off_timeout_tx g))"
    "binding_txid (ps_tx (challenge_transaction s)) = binding_txid (ps_tx (challenge_transaction g))"
    "binding_txid (ps_tx (assert_initial_tx s)) = binding_txid (ps_tx (assert_initial_tx g))"
    "binding_txid (ps_tx (disprove_chain_tx s)) = binding_txid (ps_tx (disprove_chain_tx g))"
    "binding_txid (ps_tx (take_1_tx s)) = binding_txid (ps_tx (take_1_tx g))"
proof -
  have "\<forall>x. binding_txid (tx_of s x) = binding_txid (tx_of g x)" by (simp add: signed_copy_id [OF assms binding_txid])
  note ids = this [unfolded all_po_tx, simplified]
  show "binding_txid (ps_tx (peg_out_confirm_tx s)) = binding_txid (ps_tx (peg_out_confirm_tx g))"
    "binding_txid (ps_tx (kick_off_1_tx s)) = binding_txid (ps_tx (kick_off_1_tx g))"
    "binding_txid (ps_tx (start_time_tx s)) = binding_txid (ps_tx (start_time_tx g))"
    "binding_txid (ps_tx (kick_off_2_tx s)) = binding_txid (ps_tx (kick_off_2_tx g))"
    "binding_txid (ps_tx (kick_off_timeout_tx s)) = binding_txid (ps_tx (kick_off_timeout_tx g))"
    "binding_txid (ps_tx (challenge_transaction s)) = binding_txid (ps_tx (challenge_transaction g))"
    "binding_txid (ps_tx (assert_initial_tx s)) = binding_txid (ps_tx (assert_initial_tx g))"
    "binding_txid (ps_tx (disprove_chain_tx s)) = binding_txid (ps_tx (disprove_chain_tx g))"
    "binding_txid (ps_tx (take_1_tx s)) = binding_txid (ps_tx (take_1_tx g))"
    by (simp_all add: ids)
qed

lemma copy_outputs:
  assumes "signed_copy g s"
  shows "tx_output (ps_tx (kick_off_timeout_tx s)) = tx_output (ps_tx (kick_off_timeout_tx g))"
    "tx_output (ps_tx (disprove_chain_tx s)) = tx_output (ps_tx (disprove_chain_tx g))"
  using signed_copy_outputs [OF assms, of Tx_Kick_Off_Timeout] signed_copy_outputs [OF assms, of Tx_Disprove_Chain]
  by simp_all

lemma unsigned_outpoints: "unsigned a = unsigned b \<Longrightarrow> outpoints_of a = outpoints_of b"
proof -
  have "outpoints_of u = map previous_output (tx_input (unsigned u))" for u
    by (simp add: outpoints_of_def unsigned_def unsigned_in_def comp_def)
  then show "unsigned a = unsigned b \<Longrightarrow> outpoints_of a = outpoints_of b" by simp
qed

lemma copy_outpoints: "signed_copy g s \<Longrightarrow> outpoints_of (tx_of s x) = outpoints_of (tx_of g x)"
  by (rule unsigned_outpoints) (simp add: signed_copy_def)

lemma copy_connectors: "signed_copy g s \<Longrightarrow> po_connectors s = po_connectors g"
  by (simp add: signed_copy_def)

text \<open>A kick-off timeout is prepared, and on another copy the first take transaction.\<close>

lemma sample_timeout_run:
  assumes "sample_graph pin = Some g" "signed_copy g s"
  obtains s' tx where
    "run_action (sample_env [binding_txid (ps_tx (kick_off_1_tx s))]) (A_Kick_Off_Timeout out) s = Some (s', Inr tx)"
    "outpoints_of tx = outpoints_of (ps_tx (kick_off_timeout_tx g))"
proof -
  note counts = graph_output_counts [OF assms(1)]
  note cs = sample_connectors [OF peg_out_graph_new_cases(1) [OF assms(1)]]
  have ne: "binding_txid (ps_tx (kick_off_timeout_tx s)) \<noteq> binding_txid (ps_tx (kick_off_1_tx s))"
    unfolding copy_ids [OF assms(2)] by (rule different_ids(2)) (simp add: counts)
  obtain kt where kt: "add_output out (kick_off_timeout_tx s) = Some kt"
    by (simp add: add_output_def index_of_def counts copy_outputs [OF assms(2)])
  then have k: "length (tx_output (ps_tx kt)) = 2" "outpoints_of (ps_tx kt) = outpoints_of (ps_tx (kick_off_timeout_tx g))"
    using counts copy_outpoints [OF assms(2), of Tx_Kick_Off_Timeout]
    by (auto simp: add_output_def index_of_def outpoints_of_def copy_outputs [OF assms(2)] split: if_splits)
  have "run_action (sample_env [binding_txid (ps_tx (kick_off_1_tx s))]) (A_Kick_Off_Timeout out) s =
      Some (s\<lparr>kick_off_timeout_tx := kt\<rparr>, Inr (ps_tx kt))"
    by (simp add: kick_off_timeout_action_def ok_simps ne kt k reward_finalize_def cs num_blocks_defs
        copy_connectors [OF assms(2)])
  then show ?thesis using that k(2) by blast
qed

lemma sample_take_1_run:
  assumes "peg_in_graph_new core_policy binding_txid sample_depositor sample_deposit ''0xab'' = Some pin"
    and "sample_graph pin = Some g" "peg_out_links binding_txid (peg_in_confirm_tx pin) g" "signed_copy g s"
  shows "run_action (sample_env [peg_in_confirm_txid s, binding_txid (ps_tx (kick_off_1_tx s)),
      binding_txid (ps_tx (kick_off_2_tx s))]) A_Take_1 s = Some (s, Inr (ps_tx (take_1_tx s)))"
proof -
  note counts = graph_output_counts [OF assms(2)]
  note cs = sample_connectors [OF peg_out_graph_new_cases(1) [OF assms(2)]]
  note links = assms(3) [unfolded peg_out_links_def Let_def]
  have pic: "peg_in_confirm_txid s = binding_txid (ps_tx (peg_in_confirm_tx pin))"
    using sample_confirm_id [OF assms(2)] assms(4) by (simp add: signed_copy_def)
  note pin = peg_in_settles(2) [OF assms(1)]
  obtain ci where
    d: "peg_in_deposit_new_for_validation core_policy (dc_network sample_depositor) (dc_depositor_key sample_depositor)
         (pi_connector_z pin) sample_deposit = Some (peg_in_deposit_tx pin)"
    and c: "peg_in_confirm_new_for_validation core_policy (pi_connector_0 pin) (pi_connector_z pin) ci =
         Some (peg_in_confirm_tx pin)"
    by (rule peg_in_graph_new_cases [OF assms(1)])
  have one: "length (outpoints_of (ps_tx (peg_in_confirm_tx pin))) = 1" "length (tx_output (ps_tx (peg_in_deposit_tx pin))) = 1"
    using peg_in_confirm_sound [OF c] arg_cong [OF conjunct1 [OF peg_in_deposit_shape [OF d]], of length]
    by (simp_all add: sound_tx_def outpoints_of_def pays_def)
  have parents: "binding_txid (ps_tx (kick_off_1_tx g)) \<noteq> binding_txid (ps_tx (kick_off_2_tx g))"
    "binding_txid (ps_tx (kick_off_1_tx g)) \<noteq> binding_txid (ps_tx (peg_in_deposit_tx pin))"
    by (rule different_ids(2); simp add: counts one)+
  have take_1: "binding_txid (ps_tx (take_1_tx g)) \<noteq> binding_txid (ps_tx (peg_in_confirm_tx pin))"
    using spends_outpoints [of binding_txid "take_1_tx g" 3] links one by (intro different_ids(1)) auto
  have challenge: "binding_txid (ps_tx (challenge_transaction g)) \<noteq> binding_txid (ps_tx (peg_in_confirm_tx pin))"
    by (rule differ_at [OF _ pin]) (use links parents in auto)
  have second: "binding_txid (ps_tx t) \<noteq> binding_txid (ps_tx (peg_in_confirm_tx pin)) \<and>
      binding_txid (ps_tx t) \<noteq> binding_txid (ps_tx (kick_off_1_tx g)) \<and>
      binding_txid (ps_tx t) \<noteq> binding_txid (ps_tx (kick_off_2_tx g))"
    if t: "spends_output binding_txid t 0 (ps_tx (kick_off_2_tx g)) 1" for t :: "'a pre_signed_scheme"
    using differ_at [OF t pin] differ_at [OF t, of "kick_off_1_tx g" "ps_tx (peg_out_confirm_tx g)" 0]
      differ_at [OF t, of "kick_off_2_tx g" "ps_tx (kick_off_1_tx g)" 1] links parents by auto
  have ids: "binding_txid (ps_tx (take_1_tx g)) \<noteq> binding_txid (ps_tx (kick_off_1_tx g))"
    "binding_txid (ps_tx (take_1_tx g)) \<noteq> binding_txid (ps_tx (kick_off_2_tx g))"
    "binding_txid (ps_tx (challenge_transaction g)) \<noteq> binding_txid (ps_tx (kick_off_1_tx g))"
    "binding_txid (ps_tx (challenge_transaction g)) \<noteq> binding_txid (ps_tx (kick_off_2_tx g))"
    by (rule different_ids(2); simp add: counts)+
  show ?thesis
    using second [of "assert_initial_tx g"] second [of "disprove_chain_tx g"] links
    by (simp add: take_1_action_def Let_def ok_simps pic take_1 challenge ids cs num_blocks_defs copy_ids [OF assms(4)]
        copy_connectors [OF assms(4)])
qed

text \<open>A ledger speaks of a graph and of its copies alike.\<close>

lemma foreign_cong: "map txid_of ts = map txid_of us \<Longrightarrow> foreign txid_of base ts = foreign txid_of base us"
proof -
  assume "map txid_of ts = map txid_of us"
  then have "txid_of ` set ts = txid_of ` set us" by (metis set_map)
  moreover have "foreign txid_of base vs \<longleftrightarrow> (\<forall>op \<in> set base. op_txid op \<notin> txid_of ` set vs)" for vs
    by (auto simp: foreign_def)
  ultimately show ?thesis by simp
qed

lemma graph_parents_ids:
  assumes "signed_copy g s" "txid_binding txid_of"
  shows "map txid_of (graph_parents pin (graph_of s)) = map txid_of (graph_parents pin g)"
proof -
  have "\<forall>x. txid_of (tx_of s x) = txid_of (tx_of g x)" by (simp add: signed_copy_id [OF assms])
  from this [unfolded all_po_tx] show ?thesis by (simp add: graph_parents_def peg_out_graph.truncate_def)
qed

lemma settles_on_copy:
  "settles_on txid_of base txs pin (graph_of s) \<Longrightarrow> signed_copy g s \<Longrightarrow> settles_on txid_of base txs pin g"
  using foreign_cong [OF graph_parents_ids] by (auto simp: settles_on_def)

lemma creates_cong:
  "unsigned a = unsigned b \<Longrightarrow> txid_binding txid_of \<Longrightarrow> creates txid_of a op = creates txid_of b op"
  using unsigned_parts [of a b] by (metis creates_def txid_binding_def)

lemma ledger_cong:
  assumes "ledger txid_of base ts" "txid_binding txid_of" "map unsigned ts = map unsigned us"
  shows "ledger txid_of base us"
  using assms(1,3)
proof (induction arbitrary: us)
  case start
  then show ?case by (simp add: ledger.start)
next
  case (confirm txs t)
  obtain vs v where us: "us = vs @ [v]" "map unsigned txs = map unsigned vs" "unsigned t = unsigned v"
    using confirm.prems by (cases us rule: rev_cases) auto
  have same: "(\<exists>p \<in> set txs. creates txid_of p op) \<longleftrightarrow> (\<exists>p \<in> set vs. creates txid_of p op)"
    "(\<forall>u \<in> set txs. op \<notin> set (outpoints_of u)) \<longleftrightarrow> (\<forall>u \<in> set vs. op \<notin> set (outpoints_of u))" for op
  proof -
    have "list_all2 (\<lambda>a b. unsigned a = unsigned b) txs vs"
      using us(2) by (simp add: list_all2_conv_all_nth list_eq_iff_nth_eq)
    then have "list_all2 (\<lambda>a b. creates txid_of a op = creates txid_of b op \<and> outpoints_of a = outpoints_of b) txs vs"
      by (rule list_all2_mono) (intro conjI, erule creates_cong [OF _ assms(2)], erule unsigned_outpoints)
    then show "(\<exists>p \<in> set txs. creates txid_of p op) \<longleftrightarrow> (\<exists>p \<in> set vs. creates txid_of p op)"
      "(\<forall>u \<in> set txs. op \<notin> set (outpoints_of u)) \<longleftrightarrow> (\<forall>u \<in> set vs. op \<notin> set (outpoints_of u))"
      by (induction rule: list_all2_induct) auto
  qed
  have "confirms txid_of base vs v"
    using confirm.hyps(2) unsigned_outpoints [OF us(3)] by (simp add: confirms_def same)
  then show ?case using confirm.IH [OF us(2)] by (auto simp: us(1) intro: ledger.confirm)
qed

lemma sample_copy_ledger:
  assumes "settles_on binding_txid base [ps_tx (peg_out_confirm_tx g), ps_tx (kick_off_1_tx g), t] pin g"
    and "signed_copy g s" "outpoints_of u = outpoints_of t"
  shows "settles_on binding_txid base [ps_tx (peg_out_confirm_tx s), ps_tx (kick_off_1_tx s), u] pin (graph_of s)"
proof -
  have "ledger binding_txid base ([ps_tx (peg_out_confirm_tx g), ps_tx (kick_off_1_tx g)] @ [u])"
    by (rule last_transaction [OF _ assms(3)]) (use assms(1) in \<open>simp add: settles_on_def\<close>)
  moreover have "unsigned (tx_of s x) = unsigned (tx_of g x)" for x using assms(2) by (simp add: signed_copy_def)
  from this [of Tx_Peg_Out_Confirm] this [of Tx_Kick_Off_1]
  have "map unsigned ([ps_tx (peg_out_confirm_tx g), ps_tx (kick_off_1_tx g)] @ [u]) =
      map unsigned [ps_tx (peg_out_confirm_tx s), ps_tx (kick_off_1_tx s), u]" by simp
  ultimately have "ledger binding_txid base [ps_tx (peg_out_confirm_tx s), ps_tx (kick_off_1_tx s), u]"
    using ledger_cong [OF _ binding_txid] by blast
  then show ?thesis
    using assms(1) foreign_cong [OF graph_parents_ids [OF assms(2) binding_txid]] by (simp add: settles_on_def)
qed

section \<open>The rules\<close>

text \<open>
  C3. However a participant's copy came about, by signing rounds, merges with other copies and operations on whatever
  chain, each of its transactions, each transaction of the graph that an operation returns, and both that committing to
  the assertion returns, have the form of the one the graph was built with: but for witnesses the same version, lock
  time, inputs and outputs, except for the lock time of a start time, further inputs and outputs at the end of a
  challenge, and the script of a slashing's reward. Those that other transactions of the graph spend are not among the
  exceptions, so their ids do not change. The peg-out itself, which is no transaction of the graph, is left out.
\<close>

theorem operations_return_graph_transactions:
  assumes "peg_out_state_new pol txid_of api public_of generate_id cr keypair ctx pin confirm_input secrets = Some s0"
    and "reachable envs s0 s"
  shows "(\<forall>x. form_of x (tx_of s0 x) (tx_of s x) \<and> (is_parent x \<longrightarrow> unsigned (tx_of s x) = unsigned (tx_of s0 x))) \<and>
    (\<forall>env a s' tx x. run_action env a s = Some (s', Inr tx) \<longrightarrow> action_tx a = Some x \<longrightarrow>
       form_of x (tx_of s0 x) tx \<and> (is_parent x \<longrightarrow> unsigned tx = unsigned (tx_of s0 x))) \<and>
    (\<forall>env w s' c1 c2. assert_commits_action env w s = Some (s', Inr (c1, c2)) \<longrightarrow>
       unsigned c1 = unsigned (tx_of s0 Tx_Assert_Commit_1) \<and> unsigned c2 = unsigned (tx_of s0 Tx_Assert_Commit_2))"
proof -
  have f: "faithful s0 s" by (rule new_reachable_faithful [OF assms])
  show ?thesis
    using faithful_D(2,3) [OF f] returned_prepared [OF f] prepared_parent assert_commits_unsigned [OF f]
    unfolding prepared_def by blast
qed

theorem operations_return_graph_transactions_witness:
  "\<exists>pin s0 s' tx.
     sample_new pin = Some s0 \<and>
     run_action (sample_env [binding_txid (ps_tx (kick_off_1_tx s0))]) (A_Kick_Off_Timeout Empty_Script) s0 =
       Some (s', Inr tx) \<and>
     form_of Tx_Kick_Off_Timeout (tx_of s0 Tx_Kick_Off_Timeout) tx"
proof (rule sample_states)
  fix pin g s0
  assume g: "sample_graph pin = Some g" "signed_copy g s0" and s0: "sample_new pin = Some s0"
  obtain s' tx where run: "run_action (sample_env [binding_txid (ps_tx (kick_off_1_tx s0))])
      (A_Kick_Off_Timeout Empty_Script) s0 = Some (s', Inr tx)"
    by (rule sample_timeout_run [OF g])
  have "reachable (\<lambda>_ :: (nat, nat) env. True) s0 s0" by (rule reachable.created)
  from operations_return_graph_transactions [OF s0 this] s0 run
  show ?thesis by (metis action_tx.simps(8))
qed

text \<open>
  C4. No operation returns a transaction before its time: each input with a relative time lock spends an output
  whose transaction is confirmed, by what the node says, at least so many blocks below the tip.
\<close>

theorem operations_respect_time_locks:
  assumes "peg_out_state_new pol (env_txid env) api public_of generate_id cr keypair ctx pin confirm_input secrets = Some s0"
    and "reachable envs s0 s" "txid_binding (env_txid env)"
    and "run_action env a s = Some (s', Inr tx)" "action_tx a = Some x"
    and "i \<in> set (tx_input tx)" "\<not> unlocked i"
  shows "matured (env_client env) (previous_output i) (tx_sequence i)"
proof -
  have f: "faithful s0 s" by (rule new_reachable_faithful [OF assms(1,2)])
  obtain g where g: "peg_out_graph_new pol (env_txid env) api public_of ctx pin confirm_input secrets = Some g"
    "signed_copy g s0"
    by (rule peg_out_state_new_graph [OF assms(1)])
  have "locks_within (graph_locks (env_txid env) s0 x) (tx_of s0 x)"
    using signed_copy_locks [OF g(2) assms(3)] graph_time_locks [OF g(1), of x] by simp
  then have "(previous_output i, tx_sequence i) \<in> set (graph_locks (env_txid env) s0 x)"
    by (rule extends_locks [OF _ _ assms(6,7), rotated])
      (rule prepared_extends [OF returned_prepared [OF f assms(4,5)]])
  then show ?thesis by (rule run_action_matured [OF f assms(3,4,5)])
qed

theorem operations_respect_time_locks_witness:
  "\<exists>pin s0 s' tx.
     sample_new pin = Some s0 \<and>
     run_action (sample_env [binding_txid (ps_tx (kick_off_1_tx s0))]) (A_Kick_Off_Timeout Empty_Script) s0 =
       Some (s', Inr tx) \<and>
     (\<forall>i \<in> set (tx_input tx). unlocked i \<or>
        matured (sample_client [binding_txid (ps_tx (kick_off_1_tx s0))]) (previous_output i) (tx_sequence i))"
proof (rule sample_states)
  fix pin g s0
  assume g: "sample_graph pin = Some g" "signed_copy g s0" and s0: "sample_new pin = Some s0"
  let ?env = "sample_env [binding_txid (ps_tx (kick_off_1_tx s0))]"
  obtain s' tx where run: "run_action ?env (A_Kick_Off_Timeout Empty_Script) s0 = Some (s', Inr tx)"
    by (rule sample_timeout_run [OF g])
  have r: "reachable (\<lambda>_. True) s0 s0" by (rule reachable.created)
  have "matured (env_client ?env) (previous_output i) (tx_sequence i)" if "i \<in> set (tx_input tx)" "\<not> unlocked i" for i
    by (rule operations_respect_time_locks [OF _ r _ run _ that], simp, rule s0) (simp_all add: binding_txid)
  then show ?thesis
    using s0 run by (intro exI [of _ pin] exI [of _ s0] exI [of _ s'] exI [of _ tx]) auto
qed

text \<open>
  C2. Two participants, each with a copy of the same peg-out and its own node: of a transaction that one of them was
  given to slash the operator and one that another was given to reimburse him, at most one is ever
  confirmed.
\<close>

theorem copies_settle_one_way:
  assumes "peg_in_graph_new pol txid_of dctx deposit_input evm_address = Some pin"
    and "peg_out_state_new pol txid_of api public_of generate_id cr keypair ctx pin confirm_input secrets = Some s0"
    and "dc_network dctx = oc_network ctx" "dc_n_of_n_taproot_key dctx = oc_n_of_n_taproot_key ctx"
    and "0 < min_relay_fee_rate pol"
    and "settles_on txid_of base txs pin (peg_out_graph.truncate s0)"
    and "reachable envs s0 s1" "run_action env1 a1 s1 = Some (s1', Inr tx1)"
    and "action_tx a1 = Some x1" "slashing x1"
    and "reachable envs s0 s2" "run_action env2 a2 s2 = Some (s2', Inr tx2)"
    and "action_tx a2 = Some x2" "reimbursing x2"
  shows "\<not> (tx1 \<in> set txs \<and> tx2 \<in> set txs)"
proof
  assume txs: "tx1 \<in> set txs \<and> tx2 \<in> set txs"
  obtain g where g: "peg_out_graph_new pol txid_of api public_of ctx pin confirm_input secrets = Some g"
    and c: "signed_copy g s0"
    by (rule peg_out_state_new_graph [OF assms(2)])
  have links: "peg_out_links txid_of (peg_in_confirm_tx pin) g"
    by (rule peg_out_graph_links_and_fees(1) [OF g _ assms(5)])
      (simp add: peg_in_confirm_pays [OF assms(1)] assms(3,4))
  have settled: "settles_on txid_of base txs pin g"
    by (rule settles_on_copy [OF assms(6) c])
  have "extends_tx (tx_of g x1) tx1" "extends_tx (tx_of g x2) tx2"
    using returned_prepared [OF new_reachable_faithful [OF assms(2,7)] assms(8,9)]
      returned_prepared [OF new_reachable_faithful [OF assms(2,11)] assms(12,13)] prepared_graph [OF c] prepared_extends by blast+
  then have "slashed txs g" "reimbursed txs g"
    using confirmed_instances txs assms(10,14) by blast+
  then show False using slashed_excludes_reimbursed [OF settled links g] by blast
qed

theorem copies_settle_one_way_witness:
  "\<exists>pin s0 s1 tx1.
     let ids = [binding_txid (ps_tx (kick_off_1_tx s0))];
         txs = [ps_tx (peg_out_confirm_tx s0), ps_tx (kick_off_1_tx s0), tx1] in
     peg_in_graph_new core_policy binding_txid sample_depositor sample_deposit ''0xab'' = Some pin \<and>
     sample_new pin = Some s0 \<and>
     run_action (sample_env ids) (A_Kick_Off_Timeout Empty_Script) s0 = Some (s1, Inr tx1) \<and>
     run_action (sample_env (peg_in_confirm_txid s0 # ids @ [binding_txid (ps_tx (kick_off_2_tx s0))])) A_Take_1 s0 =
       Some (s0, Inr (ps_tx (take_1_tx s0))) \<and>
     ledger binding_txid [Outpoint 2 0] txs \<and> tx1 \<in> set txs \<and> ps_tx (take_1_tx s0) \<notin> set txs"
proof (rule sample_states)
  fix pin g s0
  assume pin: "peg_in_graph_new core_policy binding_txid sample_depositor sample_deposit ''0xab'' = Some pin"
    and g: "sample_graph pin = Some g" "signed_copy g s0" and s0: "sample_new pin = Some s0"
    and l: "peg_out_links binding_txid (peg_in_confirm_tx pin) g"
  obtain s1 tx1 where run1: "run_action (sample_env [binding_txid (ps_tx (kick_off_1_tx s0))])
      (A_Kick_Off_Timeout Empty_Script) s0 = Some (s1, Inr tx1)"
    and tx1: "outpoints_of tx1 = outpoints_of (ps_tx (kick_off_timeout_tx g))"
    by (rule sample_timeout_run [OF g])
  note run2 = sample_take_1_run [OF pin g(1) l g(2)]
  let ?txs = "[ps_tx (peg_out_confirm_tx s0), ps_tx (kick_off_1_tx s0), tx1]"
  have settled: "settles_on binding_txid [Outpoint 2 0] ?txs pin (graph_of s0)"
    using sample_copy_ledger [OF sample_ledger(1) [OF g(1) l] g(2) tx1] .
  have r: "reachable (\<lambda>_. True) s0 s0" by (rule reachable.created)
  have "\<not> (tx1 \<in> set ?txs \<and> ps_tx (take_1_tx s0) \<in> set ?txs)"
    by (rule copies_settle_one_way [OF pin s0 _ _ _ settled r run1 _ _ r run2, of Tx_Kick_Off_Timeout Tx_Take_1])
      (simp_all add: sample_depositor_def sample_operator_def)
  then show ?thesis
    using pin s0 run1 run2 settled
    by (intro exI [of _ pin] exI [of _ s0] exI [of _ s1] exI [of _ tx1]) (simp add: Let_def settles_on_def)
qed

end
