(* ===== verification/Peg_Out_Guidance.thy ===== *)
theory Peg_Out_Guidance
  imports Peg_Out_Rules
begin

text \<open>
  Whether the participants can do what their status tells them. As long as the node answers, the operator's next operation
  is refused in the cases named by \<open>obstructed\<close> only, and panics only when its signature cannot be made; a verifier's
  copy lacks two witnesses and does not recognise the
  start time transaction, because merging copies does not carry them over.
\<close>

section \<open>The operator\<close>

text \<open>The status that asks for an operation.\<close>

fun asked_by :: "('k, 's) action \<Rightarrow> operator_status option" where
  "asked_by (A_Peg_Out ctx k input) = Some Start_Peg_Out"
| "asked_by A_Peg_Out_Confirm = Some Peg_Out_Confirm_Available"
| "asked_by (A_Kick_Off_1 k a b) = Some Kick_Off_1_Available"
| "asked_by (A_Start_Time ctx k a) = Some Start_Time_Available"
| "asked_by (A_Kick_Off_2 k a b) = Some Kick_Off_2_Available"
| "asked_by A_Assert_Initial = Some Assert_Initial_Available"
| "asked_by (A_Assert_Commit_1 w) = Some Assert_Commit_1_Available"
| "asked_by (A_Assert_Commit_2 w) = Some Assert_Commit_2_Available"
| "asked_by A_Assert_Final = Some Assert_Final_Available"
| "asked_by A_Take_1 = Some Take_1_Available"
| "asked_by (A_Take_2 k) = Some Take_2_Available"
| "asked_by _ = None"

definition answers :: "esplora \<Rightarrow> bool" where
  "answers cl \<longleftrightarrow> (\<forall>t. \<exists>st. get_tx_status cl t = Inr st)"

definition node_confirmed :: "esplora \<Rightarrow> tx_hash \<Rightarrow> bool" where
  "node_confirmed cl t \<longleftrightarrow> (\<exists>st. get_tx_status cl t = Inr st \<and> confirmed st)"

text \<open>
  What stands in the way of a take although the status asks for it: the status does not look at the peg-in confirmation, nor,
  for the first take, at kick-off 1 and the initial assertion, all of which the operation looks at.
\<close>

fun obstructed :: "('k, 's) env \<Rightarrow> ('k, 's) action \<Rightarrow> peg_out_state \<Rightarrow> bool" where
  "obstructed env A_Take_1 s \<longleftrightarrow>
     \<not> node_confirmed (env_client env) (peg_in_confirm_txid s) \<or>
     \<not> node_confirmed (env_client env) (txid_in env (kick_off_1_tx s)) \<or>
     node_confirmed (env_client env) (txid_in env (assert_initial_tx s))"
| "obstructed env (A_Take_2 k) s \<longleftrightarrow> \<not> node_confirmed (env_client env) (peg_in_confirm_txid s)"
| "obstructed env _ s \<longleftrightarrow> False"

text \<open>The signature or witness that an operation adds can be made; operations that add none are always able to.\<close>

fun can_sign :: "('k, 's) env \<Rightarrow> ('k, 's) action \<Rightarrow> peg_out_state \<Rightarrow> bool" where
  "can_sign env (A_Peg_Out ctx k input) s =
     (case (peg_out_transaction s, peg_out_chain_event s) of
        (None, Some event) \<Rightarrow> peg_out_new env ctx k event input \<noteq> None | _ \<Rightarrow> True)"
| "can_sign env (A_Kick_Off_1 k a b) s =
     (do {
        t \<leftarrow> peg_out_transaction s;
        event \<leftarrow> peg_out_chain_event s;
        kick_off_1_sign (env_crypto env) k (pc_6 (po_connectors s)) (env_txid_bytes env (txid_in env t), a)
          (event_tx_hash event, b) (kick_off_1_tx s)
      } \<noteq> None)"
| "can_sign env (A_Start_Time ctx k a) s =
     (start_time_sign (env_crypto env) k (pc_2 (po_connectors s)) (get_start_time_block_number (oc_network ctx)) a
        (start_time_tx s) \<noteq> None)"
| "can_sign env (A_Kick_Off_2 k a b) s =
     (kick_off_2_sign (env_crypto env) k (pc_1 (po_connectors s)) (env_superblock_message env, a)
        (env_superblock_hash_message env, b) (kick_off_2_tx s) \<noteq> None)"
| "can_sign env (A_Assert_Commit_1 w) s =
     (do {
        (w1, _) \<leftarrow> split_raw_witnesses w;
        assert_commit_sign (env_crypto env) (env_succeeds env) (pc_e_1 (po_connectors s)) w1 (assert_commit_1_tx s)
      } \<noteq> None)"
| "can_sign env (A_Assert_Commit_2 w) s =
     (do {
        (_, w2) \<leftarrow> split_raw_witnesses w;
        assert_commit_sign (env_crypto env) (env_succeeds env) (pc_e_2 (po_connectors s)) w2 (assert_commit_2_tx s)
      } \<noteq> None)"
| "can_sign env (A_Take_2 k) s =
     (take_2_sign (env_crypto env) (env_api env) k (pc_c (po_connectors s)) (take_2_tx s) \<noteq> None)"
| "can_sign env _ s = True"

text \<open>The guards of an operation on a node that answers.\<close>

lemma guard_steps:
  assumes "\<forall>t. get_tx_status (env_client env) t = Inr (f t)"
  shows "unless_mined env t s k =
      (if confirmed (f (txid_in env t)) then Some (s, Inl (Already_Mined (txid_in env t))) else k)"
    and "if_confirmed (env_client env) txid name s g =
      (if confirmed (f txid) then g (f txid)
       else Some (s, Inl (Preceding_Tx_Not_Confirmed [Named_Tx txid name (confirmed (f txid))])))"
    and "with_status (env_client env) txid s g = g (f txid)"
    and "node_confirmed (env_client env) txid \<longleftrightarrow> confirmed (f txid)"
  using assms
  by (simp_all add: unless_mined_def verify_if_not_mined_def is_confirmed_def if_confirmed_def with_status_def node_confirmed_def
      split: bool.split)

lemma known_status [simp]:
  "is_ok_and (Inr st) P = P st"
  "if_met cl (Inr st) n a b = Some x \<longleftrightarrow>
     timelock_met cl st n = Some True \<and> a = Some x \<or> timelock_met cl st n = Some False \<and> b = Some x"
  by (auto simp: is_ok_and_def if_met_def bind_eq_Some_conv split: if_splits)

lemmas status_defs = operator_status_def operator_dispute_status_def get_peg_out_statuses_def Let_def

text \<open>An operation ends in an error of its own, returns its transaction, or panics.\<close>

definition outcome_as :: "bool \<Rightarrow> bool \<Rightarrow> 's \<Rightarrow> ('s, 'a) outcome \<Rightarrow> bool" where
  "outcome_as refused returns s r \<longleftrightarrow>
     (if refused then \<exists>e. r = Some (s, Inl e) else if returns then \<exists>s' x. r = Some (s', Inr x) else r = None)"

lemma outcome_as_simps [simp]:
  "outcome_as True b s (Some (s, Inl e))" "outcome_as False True s (Some (s', Inr x))"
  "outcome_as False b s None \<longleftrightarrow> \<not> b"
  by (simp_all add: outcome_as_def)

lemma outcome_as_bind:
  "\<lbrakk>\<And>x. m = Some x \<Longrightarrow> b \<Longrightarrow> \<exists>s' y. f x = Some (s', Inr y); b \<longleftrightarrow> m \<noteq> None\<rbrakk> \<Longrightarrow> outcome_as False b s (m \<bind> f)"
  by (cases m) (auto simp: outcome_as_def)

text \<open>The decisions of the operator's status, for each operation.\<close>

lemma guided_outcome:
  assumes f: "\<forall>t. get_tx_status (env_client env) t = Inr (f t)"
    and st: "operator_status (env_txid env) (env_client env) s = Some st" and a: "asked_by a = Some st"
  shows "outcome_as (obstructed env a s) (can_sign env a s) s (run_action env a s)"
proof -
  note steps = guard_steps [OF f] if_timelock_met_def
  show ?thesis
  proof (cases a)
    case (A_Peg_Out ctx k i)
    then show ?thesis using st a f
      by (auto simp: status_defs peg_out_action_def steps split: if_splits option.splits intro!: outcome_as_bind)
  next
    case A_Peg_Out_Confirm
    then show ?thesis using st a f
      by (auto simp: status_defs peg_out_confirm_action_def steps split: if_splits option.splits)
  next
    case (A_Kick_Off_1 k a b)
    then show ?thesis using st \<open>asked_by _ = _\<close> f
      by (auto simp: status_defs kick_off_1_action_def steps outcome_as_def bind_eq_Some_conv bind_eq_None_conv
          split: if_splits option.splits)
  next
    case (A_Start_Time ctx k b)
    then show ?thesis using st a f
      by (auto simp: status_defs start_time_action_def steps split: if_splits option.splits intro!: outcome_as_bind)
  next
    case (A_Kick_Off_2 k b c)
    then show ?thesis using st a f
      by (auto simp: status_defs kick_off_2_action_def steps split: if_splits option.splits intro!: outcome_as_bind)
  next
    case A_Assert_Initial
    then show ?thesis using st a f
      by (auto simp: status_defs assert_initial_action_def steps split: if_splits option.splits)
  next
    case (A_Assert_Commit_1 w)
    then show ?thesis using st a f
      by (cases "split_raw_witnesses w")
        (auto simp: status_defs assert_commit_1_action_def steps split: if_splits option.splits intro!: outcome_as_bind)
  next
    case (A_Assert_Commit_2 w)
    then show ?thesis using st a f
      by (cases "split_raw_witnesses w")
        (auto simp: status_defs assert_commit_2_action_def steps split: if_splits option.splits intro!: outcome_as_bind)
  next
    case A_Assert_Final
    then show ?thesis using st a f
      by (auto simp: status_defs assert_final_action_def steps split: if_splits option.splits)
  next
    case A_Take_1
    then show ?thesis using st a f
      by (auto simp: status_defs take_1_action_def steps split: if_splits option.splits)
  next
    case (A_Take_2 k)
    then show ?thesis using st a f
      by (auto simp: status_defs take_2_action_def steps split: if_splits option.splits intro!: outcome_as_bind)
  qed (use a in simp_all)
qed

lemma answers_iff: "answers cl \<longleftrightarrow> (\<exists>f. \<forall>t. get_tx_status cl t = Inr (f t))"
  unfolding answers_def by metis

text \<open>
  C10. What becomes of the operation that the operator's status asks for, on a node that answers every question about a
  transaction. It ends in an error exactly when it is a take and something stands in its way that the status does not look
  at: the peg-in confirmation is not confirmed, or, for the first take, kick-off 1 is not or the initial assertion is.
  Otherwise it returns its transaction when the signature or witness it adds can be made, and panics when that cannot; the
  operations that add none always return.
\<close>

theorem guided_operations_succeed:
  assumes "answers (env_client env)" "operator_status (env_txid env) (env_client env) s = Some st" "asked_by a = Some st"
  shows "if obstructed env a s then \<exists>e. run_action env a s = Some (s, Inl e)
    else if can_sign env a s then \<exists>s' tx. run_action env a s = Some (s', Inr tx)
    else run_action env a s = None"
  using guided_outcome [OF _ assms(2,3)] assms(1) unfolding answers_iff outcome_as_def by blast

definition sample_peg_out_tx :: pre_signed where
  "sample_peg_out_tx =
     \<lparr>ps_tx = \<lparr>tx_version = 2, tx_lock_time = 0, tx_input = [], tx_output = replicate 7 (pay_to 1 (Address Btc_Mainnet Empty_Script))\<rparr>,
      ps_prev_outs = [], ps_prev_scripts = []\<rparr>"

definition sample_event :: peg_out_event where
  "sample_event =
     \<lparr>withdrawer_chain_address = [], withdrawer_destination_address = [], withdrawer_public_key_hash = [],
      source_outpoint = Outpoint 0 0, peg_out_amount = 0, operator_public_key = Public_Key True 13, peg_out_timestamp = 0,
      event_tx_hash = []\<rparr>"

text \<open>A copy whose peg-out was paid and mined, ready for the confirmation.\<close>

abbreviation sample_paid :: "peg_out_state \<Rightarrow> peg_out_state" where
  "sample_paid s \<equiv> s\<lparr>n_of_n_presigned := True, peg_out_chain_event := Some sample_event,
     peg_out_transaction := Some sample_peg_out_tx\<rparr>"

abbreviation sample_paid_env :: "peg_out_state \<Rightarrow> (nat, nat) env" where
  "sample_paid_env s \<equiv> sample_env [peg_in_confirm_txid s, binding_txid (ps_tx sample_peg_out_tx)]"

lemma sample_paid_status:
  assumes "peg_in_graph_new core_policy binding_txid sample_depositor sample_deposit ''0xab'' = Some pin"
    and "sample_graph pin = Some g" "signed_copy g s"
  shows "operator_status binding_txid (env_client (sample_paid_env s)) (sample_paid s) = Some Peg_Out_Confirm_Available"
proof -
  note g = assms(2)
  note counts = graph_output_counts [OF g]
  have pic: "peg_in_confirm_txid s = binding_txid (ps_tx (peg_in_confirm_tx pin))"
    using sample_confirm_id [OF g] assms(3) by (simp add: signed_copy_def)
  have one: "length (tx_output (ps_tx (peg_in_confirm_tx pin))) = 1"
    using peg_in_confirm_pays [OF assms(1)] by (auto simp: pays_def)
  have seven: "length (tx_output (ps_tx sample_peg_out_tx)) = 7" by (simp add: sample_peg_out_tx_def)
  have funding: "outpoints_of (ps_tx (peg_out_confirm_tx g)) = [Outpoint 2 0]"
    using new_kick_off_1_links [OF peg_out_graph_new_cases(2) [OF g]]
      peg_out_connectors_shape [OF peg_out_graph_new_cases(1) [OF g]]
    by (auto simp: sound_tx_def outpoints_of_def sample_funding_def)
  have "binding_txid (ps_tx (peg_out_confirm_tx g)) \<noteq> binding_txid (ps_tx (peg_in_confirm_tx pin))"
  proof (rule different_ids(1))
    have "outpoints_of (ps_tx (peg_in_confirm_tx pin)) ! 0 = Outpoint (binding_txid (ps_tx (peg_in_deposit_tx pin))) 0"
      using spends_outpoints [OF peg_in_settles(2) [OF assms(1)]] by simp
    moreover have "binding_txid (ps_tx (peg_in_deposit_tx pin)) \<noteq> 2" by (simp add: binding_txid_def)
    ultimately show "outpoints_of (ps_tx (peg_out_confirm_tx g)) \<noteq> outpoints_of (ps_tx (peg_in_confirm_tx pin))"
      using funding by (metis nth_Cons_0 outpoint.inject)
  qed
  moreover have "binding_txid (ps_tx (kick_off_1_tx g)) \<noteq> binding_txid (ps_tx (peg_in_confirm_tx pin))"
    "binding_txid (ps_tx (kick_off_2_tx g)) \<noteq> binding_txid (ps_tx (peg_in_confirm_tx pin))"
    "binding_txid (ps_tx (peg_out_confirm_tx g)) \<noteq> binding_txid (ps_tx sample_peg_out_tx)"
    "binding_txid (ps_tx (kick_off_1_tx g)) \<noteq> binding_txid (ps_tx sample_peg_out_tx)"
    "binding_txid (ps_tx (kick_off_2_tx g)) \<noteq> binding_txid (ps_tx sample_peg_out_tx)"
    by (rule different_ids(2); simp add: counts one seven)+
  ultimately show ?thesis by (simp add: status_defs pic copy_ids [OF assms(3)])
qed

theorem guided_operations_succeed_witness:
  "\<exists>pin s tx.
     sample_new pin = Some s \<and>
     operator_status binding_txid (env_client (sample_paid_env s)) (sample_paid s) = Some Peg_Out_Confirm_Available \<and>
     (\<exists>s'. run_action (sample_paid_env s) A_Peg_Out_Confirm (sample_paid s) = Some (s', Inr tx))"
proof (rule sample_states)
  fix pin g s
  assume pin: "peg_in_graph_new core_policy binding_txid sample_depositor sample_deposit ''0xab'' = Some pin"
    and g: "sample_graph pin = Some g" "signed_copy g s" and s: "sample_new pin = Some s"
  note st = sample_paid_status [OF pin g]
  have "answers (env_client (sample_paid_env s))" by (simp add: answers_def sample_client_def)
  then have "\<exists>s' tx. run_action (sample_paid_env s) A_Peg_Out_Confirm (sample_paid s) = Some (s', Inr tx)"
    using guided_operations_succeed [of "sample_paid_env s" "sample_paid s" Peg_Out_Confirm_Available A_Peg_Out_Confirm] st
    by simp
  then show ?thesis using s st by blast
qed

section \<open>The verifiers\<close>

text \<open>
  The copy of a verifier takes part in signing rounds, is merged with the copies of anybody and carries out
  the operations that are open to everyone.
\<close>

fun open_to_all :: "('k, 's) action \<Rightarrow> bool" where
  "open_to_all (A_Challenge inputs out) = True"
| "open_to_all (A_Start_Time_Timeout out) = True"
| "open_to_all (A_Kick_Off_Timeout out) = True"
| "open_to_all (A_Disprove out) = True"
| "open_to_all (A_Disprove_Chain out) = True"
| "open_to_all _ = False"

inductive verifier_copy :: "(('k, 's) env \<Rightarrow> bool) \<Rightarrow> peg_out_state \<Rightarrow> peg_out_state \<Rightarrow> bool"
  for envs s0 where
  created: "verifier_copy envs s0 s0"
| nonces: "verifier_copy envs s0 s \<Longrightarrow> envs env \<Longrightarrow>
    push_verifier_nonces (env_txid env) (env_crypto env) ctx fresh s = (s', pushed) \<Longrightarrow> verifier_copy envs s0 s'"
| signed: "verifier_copy envs s0 s \<Longrightarrow> envs env \<Longrightarrow>
    verifier_sign (env_txid env) (env_crypto env) ctx secret_nonces s = Some s' \<Longrightarrow> verifier_copy envs s0 s'"
| merged: "verifier_copy envs s0 s \<Longrightarrow> reachable envs s0 src \<Longrightarrow> verifier_copy envs s0 (peg_out_merge s src)"
| event: "verifier_copy envs s0 s \<Longrightarrow> match_and_set_peg_out_event s events = Some (s', rest, r) \<Longrightarrow>
    verifier_copy envs s0 s'"
| acted: "verifier_copy envs s0 s \<Longrightarrow> envs env \<Longrightarrow> open_to_all a \<Longrightarrow> run_action env a s = Some (s', r) \<Longrightarrow>
    verifier_copy envs s0 s'"

text \<open>What never reaches such a copy.\<close>

definition unaware :: "peg_out_state \<Rightarrow> bool" where
  "unaware s \<longleftrightarrow> start_time_witness s = None \<and> superblock_hash_witness s = None \<and>
     tx_lock_time (ps_tx (start_time_tx s)) = 0"

lemma unaware_set_musig [simp]: "unaware (set_musig p ms s) = unaware s"
  using tx_of_set_musig [of p ms s Tx_Start_Time] by (simp add: unaware_def)

lemma unaware_set_presigned:
  assumes "unaware s" "tx_lock_time tx = tx_lock_time (ps_tx (get_presigned s p))"
  shows "unaware (set_presigned p tx s)"
  using assms set_presigned_changes [of s p tx]
  by (cases p) (auto simp: unaware_def changes_only_def all_po_tx)

lemma unsigned_lock_time: "unsigned a = unsigned b \<Longrightarrow> tx_lock_time a = tx_lock_time b"
  by (metis unsigned_eqD)

lemma presign_tx_unaware:
  "unaware s \<Longrightarrow> presign_tx txid_of ns p sign s = Some s' \<Longrightarrow> keeps_tx sign \<Longrightarrow> unaware s'"
  by (fastforce simp: presign_tx_def bind_eq_Some_conv keeps_tx_def intro!: unaware_set_presigned unsigned_lock_time)

lemma merge_presigned_unaware: "unaware s \<Longrightarrow> unaware (merge_presigned p src s)"
  by (simp add: merge_presigned_def merge_musig_def unaware_set_presigned)

lemma unaware_updates [simp]:
  "unaware (s\<lparr>assert_commit_1_tx := c1\<rparr>) = unaware s" "unaware (s\<lparr>assert_commit_2_tx := c2\<rparr>) = unaware s"
  "unaware (s\<lparr>challenge_transaction := ch\<rparr>) = unaware s" "unaware (s\<lparr>start_time_timeout_tx := stt\<rparr>) = unaware s"
  "unaware (s\<lparr>kick_off_timeout_tx := kt\<rparr>) = unaware s" "unaware (s\<lparr>disprove_tx := dp\<rparr>) = unaware s"
  "unaware (s\<lparr>disprove_chain_tx := dc\<rparr>) = unaware s" "unaware (s\<lparr>n_of_n_presigned := b\<rparr>) = unaware s"
  "unaware (s\<lparr>peg_out_chain_event := e\<rparr>) = unaware s"
  by (simp_all add: unaware_def)

lemma disprove_chain_unaware:
  "unaware s \<Longrightarrow> disprove_chain_action env out s = Some (s', r) \<Longrightarrow> unaware s' \<and> (\<forall>tx. r \<noteq> Inr tx)"
proof -
  assume u: "unaware s" and run: "disprove_chain_action env out s = Some (s', r)"
  have "outcome_all unaware (\<lambda>_. False) (disprove_chain_action env out s)"
    using u by (auto simp: disprove_chain_action_def or_not_generated_def unaware_def intro!: outcome_rules)
  then show ?thesis using run by (cases r) (auto simp: outcome_all_def)
qed

lemma open_to_all_unaware:
  assumes "unaware s" "open_to_all a" "run_action env a s = Some (s', r)"
  shows "unaware s'"
proof (cases a)
  case (A_Disprove_Chain out)
  then show ?thesis using assms by (auto dest: disprove_chain_unaware)
next
  case (A_Challenge inputs out)
  have "outcome_all unaware (\<lambda>_. True) (challenge_action env inputs out s)"
    using assms(1) by (auto simp: challenge_action_def intro!: outcome_rules)
  then show ?thesis using assms(3) A_Challenge by (auto dest: outcome_allD(1))
next
  case (A_Start_Time_Timeout out)
  have "outcome_all unaware (\<lambda>_. True) (start_time_timeout_action env out s)"
    using assms(1) by (auto simp: start_time_timeout_action_def intro!: outcome_rules)
  then show ?thesis using assms(3) A_Start_Time_Timeout by (auto dest: outcome_allD(1))
next
  case (A_Kick_Off_Timeout out)
  have "outcome_all unaware (\<lambda>_. True) (kick_off_timeout_action env out s)"
    using assms(1) by (auto simp: kick_off_timeout_action_def intro!: outcome_rules)
  then show ?thesis using assms(3) A_Kick_Off_Timeout by (auto dest: outcome_allD(1))
next
  case (A_Disprove out)
  have "outcome_all unaware (\<lambda>_. True) (disprove_action env out s)"
    using assms(1) by (auto simp: disprove_action_def intro!: outcome_rules)
  then show ?thesis using assms(3) A_Disprove by (auto dest: outcome_allD(1))
qed (use assms(2) in simp_all)

lemma verifier_copy_unaware:
  assumes "verifier_copy envs s0 s" "unaware s0"
  shows "unaware s"
  using assms(1)
proof induction
  case created then show ?case by (rule assms(2))
next
  case (nonces s env ctx fresh s' pushed)
  show ?case by (rule push_verifier_nonces_induct [where P = unaware, OF nonces.hyps(3) nonces.IH]) simp
next
  case (signed s env ctx secret_nonces s')
  show ?case by (rule verifier_sign_induct [where P = unaware, OF signed.hyps(3) signed.IH]) (auto intro: presign_tx_unaware)
next
  case (merged s src)
  show ?case by (rule peg_out_merge_induct [of unaware, OF merged.IH]) (auto intro: merge_presigned_unaware)
next
  case (event s events s' rest r)
  then show ?case using match_and_set_cases by fastforce
next
  case (acted s env a s' r)
  show ?case by (rule open_to_all_unaware [OF acted.IH acted.hyps(3,4)])
qed

lemma start_time_lock_times:
  "start_time_new_for_validation pol net operator c2 inp = Some t \<Longrightarrow> tx_lock_time (ps_tx t) = 0"
  "start_time_sign cr kp c2 n secret t = Some (t', w) \<Longrightarrow> tx_lock_time (ps_tx t') = n"
proof -
  show "start_time_new_for_validation pol net operator c2 inp = Some t \<Longrightarrow> tx_lock_time (ps_tx t) = 0"
    by (auto simp: start_time_new_for_validation_def bind_eq_Some_conv)
  assume "start_time_sign cr kp c2 n secret t = Some (t', w)"
  then have "tx_lock_time (unsigned (ps_tx t')) = n" by (simp add: start_time_sign_keeps)
  then show "tx_lock_time (ps_tx t') = n" by (simp add: unsigned_def)
qed

lemma new_unaware:
  assumes "peg_out_state_new pol txid_of api public_of generate_id cr keypair ctx pin confirm_input secrets = Some s"
  shows "unaware s"
proof -
  obtain g where g: "peg_out_graph_new pol txid_of api public_of ctx pin confirm_input secrets = Some g"
    and st: "start_time_tx s = start_time_tx g" and w: "start_time_witness s = None" "superblock_hash_witness s = None"
    by (rule peg_out_state_new_graph [OF assms])
  have "tx_lock_time (ps_tx (start_time_tx g)) = 0"
    using peg_out_graph_new_cases(3) [OF g] by (auto simp: new_start_time_def bind_eq_Some_conv start_time_lock_times)
  then show ?thesis by (simp add: unaware_def st w)
qed

text \<open>
  C35. A verifier never gets a disprove chain transaction: its copy lacks the committed start time, which signing
  rounds and merges do not bring along, so that the operation ends with an error even when kick-off 2 is
  confirmed and nothing else stands in the way.
\<close>

theorem verifiers_cannot_disprove_chain:
  assumes "peg_out_state_new pol txid_of api public_of generate_id cr keypair ctx pin confirm_input secrets = Some s0"
    and "verifier_copy envs s0 s" "run_action env (A_Disprove_Chain out) s = Some (s', r)"
  shows "(\<exists>e. r = Inl e) \<and>
    (is_confirmed (env_client env) (txid_in env (disprove_chain_tx s)) = Inr False \<and>
     is_confirmed (env_client env) (txid_in env (kick_off_2_tx s)) = Inr True \<longrightarrow> r = Inl (Witness_Not_Generated StartTime))"
proof -
  have u: "unaware s" by (rule verifier_copy_unaware [OF assms(2) new_unaware [OF assms(1)]])
  have run: "disprove_chain_action env out s = Some (s', r)" using assms(3) by simp
  have "\<exists>e. r = Inl e" using disprove_chain_unaware [OF u run] by (cases r) auto
  moreover have "r = Inl (Witness_Not_Generated StartTime)"
    if "is_confirmed (env_client env) (txid_in env (disprove_chain_tx s)) = Inr False"
      "is_confirmed (env_client env) (txid_in env (kick_off_2_tx s)) = Inr True"
    using that u run
    by (auto simp: disprove_chain_action_def unless_mined_def verify_if_not_mined_def if_confirmed_def with_status_def
        is_confirmed_def bind_eq_Some_conv or_not_generated_def unaware_def split: sum.splits)
  ultimately show ?thesis by blast
qed

text \<open>
  Nor does a verifier's copy recognise the start time transaction: signing it sets its lock time, which changes its
  id, and the copy keeps looking for the id of the transaction as it was first built.
\<close>

theorem verifiers_miss_start_time:
  assumes "peg_out_state_new pol txid_of api public_of generate_id cr keypair ctx pin confirm_input secrets = Some s0"
    and "verifier_copy envs s0 s" "txid_binding (env_txid env)"
    and "run_action env (A_Start_Time octx k secret) operator_copy = Some (operator_copy', Inr tx)"
  shows "env_txid env tx \<noteq> env_txid env (ps_tx (start_time_tx s))"
proof
  assume "env_txid env tx = env_txid env (ps_tx (start_time_tx s))"
  then have "tx_lock_time tx = tx_lock_time (ps_tx (start_time_tx s))"
    using assms(3) by (auto simp: txid_binding_def dest: unsigned_lock_time)
  also have "\<dots> = 0" using verifier_copy_unaware [OF assms(2) new_unaware [OF assms(1)]] by (simp add: unaware_def)
  finally have "tx_lock_time tx = 0" .
  moreover have "tx_lock_time tx = get_start_time_block_number (oc_network octx)"
    using assms(4) by (auto simp: start_time_action_def ok_simps dest!: start_time_lock_times(2))
  ultimately show False by (cases "oc_network octx") (simp_all add: get_start_time_block_number_def)
qed

text \<open>The sample operator commits to the start time.\<close>

lemma sample_start_time_signed:
  assumes "start_time_new_for_validation pol net operator c2 inp = Some t" "n < lock_time_threshold"
  shows "\<exists>t' w. start_time_sign sample_crypto k c2 n secret t = Some (t', w)"
  using assms
  by (auto simp: start_time_new_for_validation_def bind_eq_Some_conv start_time_sign_def sign_committed_leaf_def
      connector_2_defs index_of_def generate_taproot_leaf_schnorr_signature_def sighash_prevouts_def
      populate_taproot_input_witness_def push_taproot_leaf_unlock_data_to_witness_def
      push_taproot_leaf_script_and_control_block_to_witness_def push_witness_def connector_2_address_def
      rust_assert_bind_Some_iff sample_crypto_def Let_def)

lemma sample_start_time_run:
  assumes "sample_graph pin = Some g" "signed_copy g s" "start_time_tx s = start_time_tx g"
  obtains s' tx where
    "run_action (sample_env [binding_txid (ps_tx (kick_off_1_tx s))]) (A_Start_Time sample_operator 5 7) s =
       Some (s', Inr tx)"
proof -
  note counts = graph_output_counts [OF assms(1)]
  obtain inp where st: "start_time_new_for_validation core_policy (oc_network sample_operator)
      (oc_operator_key sample_operator) (pc_2 (po_connectors g)) inp = Some (start_time_tx g)"
    using peg_out_graph_new_cases(3) [OF assms(1)] by (auto simp: new_start_time_def bind_eq_Some_conv)
  have one: "length (tx_output (ps_tx (start_time_tx g))) = 1"
    using arg_cong [OF conjunct1 [OF start_time_shape [OF st]], of length] by (simp add: pays_def)
  have ne: "binding_txid (ps_tx (start_time_tx s)) \<noteq> binding_txid (ps_tx (kick_off_1_tx s))"
    unfolding copy_ids [OF assms(2)] by (rule different_ids(2)) (simp add: counts one)
  have "get_start_time_block_number (oc_network sample_operator) < lock_time_threshold"
    by (simp add: get_start_time_block_number_def sample_operator_def lock_time_threshold_def)
  from sample_start_time_signed [OF st this] obtain t' w where
    "start_time_sign sample_crypto 5 (pc_2 (po_connectors g)) (get_start_time_block_number (oc_network sample_operator)) 7
       (start_time_tx g) = Some (t', w)" by blast
  then have "run_action (sample_env [binding_txid (ps_tx (kick_off_1_tx s))]) (A_Start_Time sample_operator 5 7) s =
      Some (s\<lparr>start_time_tx := t', start_time_witness := Some w\<rparr>, Inr (ps_tx t'))"
    using ne by (simp add: start_time_action_def ok_simps sample_env_def copy_connectors [OF assms(2)] assms(3))
  then show ?thesis by (rule that)
qed

theorem verifiers_miss_start_time_witness:
  "\<exists>pin s s' tx.
     sample_new pin = Some s \<and>
     run_action (sample_env [binding_txid (ps_tx (kick_off_1_tx s))]) (A_Start_Time sample_operator 5 7) s =
       Some (s', Inr tx) \<and>
     binding_txid tx \<noteq> binding_txid (ps_tx (start_time_tx (peg_out_merge s s')))"
proof (rule sample_states)
  fix pin g s
  assume g: "sample_graph pin = Some g" "signed_copy g s" and s: "sample_new pin = Some s"
  let ?env = "sample_env [binding_txid (ps_tx (kick_off_1_tx s))]"
  obtain s' tx where run: "run_action ?env (A_Start_Time sample_operator 5 7) s = Some (s', Inr tx)"
    by (rule sample_start_time_run [OF g]) (use g s in \<open>auto elim: peg_out_state_new_graph\<close>)
  have r: "reachable (\<lambda>_ :: (nat, nat) env. True) s s'" by (rule reachable.acted [OF reachable.created _ run]) simp
  have "verifier_copy (\<lambda>_ :: (nat, nat) env. True) s (peg_out_merge s s')"
    by (rule verifier_copy.merged [OF verifier_copy.created r])
  from verifiers_miss_start_time [OF s this _ run]
  have "binding_txid tx \<noteq> binding_txid (ps_tx (start_time_tx (peg_out_merge s s')))" by (simp add: binding_txid)
  then show ?thesis using s run by blast
qed

theorem verifiers_cannot_disprove_chain_witness:
  "\<exists>pin s s' r.
     sample_new pin = Some s \<and>
     run_action (sample_env [binding_txid (ps_tx (kick_off_2_tx s))]) (A_Disprove_Chain Empty_Script) s = Some (s', Inl r)"
proof (rule sample_states)
  fix pin g s
  assume g: "sample_graph pin = Some g" "signed_copy g s" and s: "sample_new pin = Some s"
  let ?env = "sample_env [binding_txid (ps_tx (kick_off_2_tx s))]"
  have "pays (ps_tx (disprove_chain_tx s)) = [addr_script_pubkey (generate_burn_script_address Btc_Mainnet), Empty_Script]"
    using peg_out_graph_new_cases(10) [OF g(1)]
    by (auto simp: new_disprove_def bind_eq_Some_conv pays_def copy_outputs [OF g(2)] sample_operator_def
        dest!: disprove_chain_shape)
  then have "length (tx_output (ps_tx (disprove_chain_tx s))) = 2" by (auto simp: pays_def map_eq_Cons_conv)
  then obtain s' r where run: "run_action ?env (A_Disprove_Chain Empty_Script) s = Some (s', r)"
    using new_unaware [OF s]
    by (cases "binding_txid (ps_tx (disprove_chain_tx s)) = binding_txid (ps_tx (kick_off_2_tx s))")
      (auto simp: disprove_chain_action_def unless_mined_def verify_if_not_mined_def if_confirmed_def with_status_def
        add_output_def index_of_def or_not_generated_def unaware_def)
  from verifiers_cannot_disprove_chain [OF s verifier_copy.created run] s run show ?thesis by blast
qed

end
