(* ===== verification/Peg_Out_Validation.thy ===== *)
theory Peg_Out_Validation
  imports Peg_Out_Rules
begin

text \<open>
  How a participant checks a copy of a peg-out graph that it has received
  (\<open>new_for_validation\<close> and \<open>validate\<close> of \<open>graphs/peg_out.rs\<close>): the graph is built again from the
  keys of the copy, with the outpoints and amounts that it cannot derive taken from the copy, and
  the transactions, witnesses and nonces of the copy are held against it.
\<close>

section \<open>Building the graph again\<close>

definition validation_context :: "peg_out_state \<Rightarrow> operator_context" where
  "validation_context s =
     \<lparr>oc_network = po_network s, oc_operator_key = po_operator_key s,
      oc_operator_taproot_key = po_operator_taproot_key s, oc_n_of_n_taproot_key = po_n_of_n_taproot_key s\<rparr>"

definition rebuild_connectors :: "peg_out_state \<Rightarrow> peg_out_connectors option" where
  "rebuild_connectors s =
     (let cs = po_connectors s in
      create_new_connectors (po_network s) (po_n_of_n_taproot_key s) (po_operator_taproot_key s) (po_operator_key s)
        (c1_keys (pc_1 cs)) (c2_keys (pc_2 cs)) (c6_keys (pc_6 cs)) (cb_keys (pc_b cs))
        (map ce_keys (pc_e_1 cs)) (map ce_keys (pc_e_2 cs)))"

text \<open>What the copy says of its own input.\<close>

definition self_input :: "pre_signed \<Rightarrow> nat \<Rightarrow> tx_input_ref option" where
  "self_input t i =
     do {
       inp \<leftarrow> index_of (tx_input (ps_tx t)) i;
       out \<leftarrow> index_of (ps_prev_outs t) i;
       Some \<lparr>in_outpoint = previous_output inp, in_amount = tx_value out\<rparr>
     }"

definition rebuild_kick_off_1 ::
  "fee_policy \<Rightarrow> operator_context \<Rightarrow> peg_out_connectors \<Rightarrow> peg_out_state \<Rightarrow> (pre_signed \<times> pre_signed) option" where
  "rebuild_kick_off_1 pol ctx cs s =
     do {
       confirm_input \<leftarrow> self_input (peg_out_confirm_tx s) 0;
       confirm \<leftarrow> peg_out_confirm_new_for_validation pol (oc_network ctx) (oc_operator_key ctx) (pc_6 cs) confirm_input;
       i0 \<leftarrow> self_input (kick_off_1_tx s) 0;
       k1 \<leftarrow> kick_off_1_new_for_validation pol (oc_network ctx) (oc_operator_taproot_key ctx)
         (oc_n_of_n_taproot_key ctx) (pc_1 cs) (pc_2 cs) (pc_6 cs) i0;
       Some (confirm, k1)
     }"

text \<open>The deposit is the first input of both takes; each names the amount itself.\<close>

definition self_deposit :: "tx_hash \<Rightarrow> pre_signed \<Rightarrow> tx_input_ref option" where
  "self_deposit confirm_txid t =
     do {
       out \<leftarrow> index_of (ps_prev_outs t) 0;
       Some \<lparr>in_outpoint = Outpoint confirm_txid 0, in_amount = tx_value out\<rparr>
     }"

definition rebuild_take_1 ::
  "fee_policy \<Rightarrow> (btc_tx \<Rightarrow> tx_hash) \<Rightarrow> operator_context \<Rightarrow> peg_out_connectors \<Rightarrow> tx_input_ref \<Rightarrow> pre_signed \<Rightarrow>
     pre_signed \<Rightarrow> pre_signed option" where
  "rebuild_take_1 pol txid_of ctx cs i0 k1 k2 =
     do {
       i1 \<leftarrow> generate_input txid_of (ps_tx k1) 0;
       i2 \<leftarrow> generate_input txid_of (ps_tx k2) 0;
       i3 \<leftarrow> generate_input txid_of (ps_tx k2) 1;
       take_1_new_for_validation pol (oc_network ctx) (oc_operator_key ctx) (pc_0 cs) (pc_3 cs) (pc_a cs)
         (pc_b cs) i0 i1 i2 i3
     }"

definition rebuild_take_2 ::
  "fee_policy \<Rightarrow> (btc_tx \<Rightarrow> tx_hash) \<Rightarrow> chunk_api \<Rightarrow> operator_context \<Rightarrow> peg_out_connectors \<Rightarrow> tx_input_ref \<Rightarrow>
     pre_signed \<Rightarrow> pre_signed option" where
  "rebuild_take_2 pol txid_of api ctx cs i0 af =
     do {
       i1 \<leftarrow> generate_input txid_of (ps_tx af) 0;
       i2 \<leftarrow> generate_input txid_of (ps_tx af) 1;
       i3 \<leftarrow> generate_input txid_of (ps_tx af) 2;
       take_2_new_for_validation pol api (oc_network ctx) (oc_operator_key ctx) (pc_0 cs) (pc_4 cs) (pc_5 cs)
         (pc_c cs) i0 i1 i2 i3
     }"

text \<open>The commitments are not counted against their inputs here, as \<open>new\<close> does.\<close>

definition rebuild_assert ::
  "fee_policy \<Rightarrow> (btc_tx \<Rightarrow> tx_hash) \<Rightarrow> peg_out_connectors \<Rightarrow> pre_signed \<Rightarrow>
     (pre_signed \<times> pre_signed \<times> pre_signed) option" where
  "rebuild_assert pol txid_of cs k2 =
     do {
       i0 \<leftarrow> generate_input txid_of (ps_tx k2) 1;
       ai \<leftarrow> assert_initial_new_for_validation pol (pc_b cs) (pc_d cs) (pc_e_1 cs) (pc_e_2 cs) i0;
       let vout_base = 1;
       is1 \<leftarrow> generate_inputs txid_of (ps_tx ai) (map (\<lambda>idx. idx + vout_base) [0..<length (pc_e_1 cs)]);
       ac1 \<leftarrow> assert_commit_1_new_for_validation pol (pc_e_1 cs) (pc_f_1 cs) is1;
       let vout_base = vout_base + length (pc_e_1 cs);
       is2 \<leftarrow> generate_inputs txid_of (ps_tx ai) (map (\<lambda>idx. idx + vout_base) [0..<length (pc_e_2 cs)]);
       ac2 \<leftarrow> assert_commit_2_new_for_validation pol (pc_e_2 cs) (pc_f_2 cs) is2;
       Some (ai, ac1, ac2)
     }"

text \<open>
  The challenge, the disprove and the disprove chain transaction are built over the connectors of
  the copy itself, the others over the new ones.
\<close>

definition new_for_validation ::
  "fee_policy \<Rightarrow> (btc_tx \<Rightarrow> tx_hash) \<Rightarrow> chunk_api \<Rightarrow> peg_out_state \<Rightarrow> peg_out_state option" where
  "new_for_validation pol txid_of api s =
     do {
       let ctx = validation_context s;
       first \<leftarrow> index_of (tx_input (ps_tx (take_1_tx s))) 0;
       let confirm_txid = op_txid (previous_output first);
       cs \<leftarrow> rebuild_connectors s;
       (confirm, k1) \<leftarrow> rebuild_kick_off_1 pol ctx cs s;
       (st, stt) \<leftarrow> new_start_time pol txid_of ctx cs k1;
       (k2, kt) \<leftarrow> new_kick_off_2 pol txid_of ctx cs k1;
       ch \<leftarrow> new_challenge pol txid_of ctx (po_connectors s) k1;
       d1 \<leftarrow> self_deposit confirm_txid (take_1_tx s);
       t1 \<leftarrow> rebuild_take_1 pol txid_of ctx cs d1 k1 k2;
       (ai, ac1, ac2) \<leftarrow> rebuild_assert pol txid_of cs k2;
       af \<leftarrow> new_assert_final pol txid_of api cs ai ac1 ac2;
       d2 \<leftarrow> self_deposit confirm_txid (take_2_tx s);
       t2 \<leftarrow> rebuild_take_2 pol txid_of api ctx cs d2 af;
       (dp, dc) \<leftarrow> new_disprove pol txid_of api ctx (po_connectors s) af k2;
       Some \<lparr>po_connectors = cs, peg_in_confirm_txid = confirm_txid,
         peg_out_confirm_tx = confirm, kick_off_1_tx = k1, start_time_tx = st, start_time_timeout_tx = stt,
         kick_off_2_tx = k2, kick_off_timeout_tx = kt, challenge_transaction = ch, take_1_tx = t1,
         assert_initial_tx = ai, assert_commit_1_tx = ac1, assert_commit_2_tx = ac2, assert_final_tx = af,
         take_2_tx = t2, disprove_tx = dp, disprove_chain_tx = dc,
         po_network = po_network s, po_id = po_id s, n_of_n_presigned = False,
         po_n_of_n_taproot_key = po_n_of_n_taproot_key s, po_operator_key = po_operator_key s,
         po_operator_taproot_key = po_operator_taproot_key s, po_musig = (\<lambda>_. empty_musig),
         start_time_witness = None, superblock_hash_witness = None, peg_out_chain_event = None,
         peg_out_transaction = None\<rparr>
     }"

section \<open>Validation\<close>

fun tx_name :: "po_tx \<Rightarrow> string" where
  "tx_name Tx_Peg_Out_Confirm = ''PegOutConfirm''"
| "tx_name Tx_Kick_Off_1 = ''KickOff1''"
| "tx_name Tx_Start_Time = ''StartTime''"
| "tx_name Tx_Start_Time_Timeout = ''StartTimeTimeout''"
| "tx_name Tx_Kick_Off_2 = ''KickOff2''"
| "tx_name Tx_Kick_Off_Timeout = ''KickOffTimeout''"
| "tx_name Tx_Challenge = ''Challenge''"
| "tx_name Tx_Take_1 = ''Take1''"
| "tx_name Tx_Assert_Initial = ''AssertInitial''"
| "tx_name Tx_Assert_Commit_1 = ''AssertCommit1''"
| "tx_name Tx_Assert_Commit_2 = ''AssertCommit2''"
| "tx_name Tx_Assert_Final = ''AssertFinal''"
| "tx_name Tx_Take_2 = ''Take2''"
| "tx_name Tx_Disprove = ''Disprove''"
| "tx_name Tx_Disprove_Chain = ''DisproveChain''"

definition validate_txs :: "(btc_tx \<Rightarrow> tx_hash) \<Rightarrow> peg_out_state \<Rightarrow> peg_out_state \<Rightarrow> (bridge_error + unit) option" where
  "validate_txs txid_of s g =
     first_error (\<lambda>x. validate_transaction txid_of (tx_of s x) (tx_of g x) (tx_name x))
       [Tx_Assert_Initial, Tx_Assert_Commit_1, Tx_Assert_Commit_2, Tx_Assert_Final, Tx_Challenge, Tx_Disprove_Chain,
        Tx_Disprove, Tx_Peg_Out_Confirm, Tx_Kick_Off_1, Tx_Kick_Off_2, Tx_Kick_Off_Timeout, Tx_Start_Time,
        Tx_Start_Time_Timeout, Tx_Take_1, Tx_Take_2]"

text \<open>The first assert commitment is listed twice, the second one not at all.\<close>

definition txs_with_commits :: "po_tx list" where
  "txs_with_commits = [Tx_Assert_Commit_1, Tx_Assert_Commit_1, Tx_Start_Time, Tx_Kick_Off_2, Tx_Peg_Out_Confirm]"

definition validate_commits ::
  "(btc_tx \<Rightarrow> tx_hash) \<Rightarrow> esplora \<Rightarrow> peg_out_state \<Rightarrow> (bridge_error + unit) option" where
  "validate_commits txid_of cl s =
     (let txids = map (\<lambda>x. txid_of (tx_of s x)) txs_with_commits;
          statuses = get_tx_statuses cl txids; onchain = get_onchain_txs cl txids in
      first_error (\<lambda>(x, status, tx). validate_witness txid_of (tx_of s x) (tx_name x) (map_sum id confirmed status) tx)
        (zip txs_with_commits (zip statuses onchain)))"

text \<open>The order in which the maps of nonces are iterated is an argument.\<close>

definition verify_presigned_nonces ::
  "(btc_tx \<Rightarrow> tx_hash) \<Rightarrow> (nat list \<Rightarrow> nat list \<Rightarrow> xonly_key \<Rightarrow> bool) \<Rightarrow>
     (musig_maps \<Rightarrow> (nat \<times> (public_key \<times> nat list) list) list) \<Rightarrow> peg_out_state \<Rightarrow> (bridge_error + unit) option" where
  "verify_presigned_nonces txid_of verify_public_nonce entries s =
     first_error
       (\<lambda>p. verify_public_nonces verify_public_nonce (entries (musig2_nonces (po_musig s p)))
          (musig2_nonce_signatures (po_musig s p)) (txid_of (ps_tx (get_presigned s p))) (tx_name (presigned_name p)))
       [P_Assert_Initial, P_Assert_Final, P_Disprove_Chain, P_Disprove, P_Kick_Off_Timeout, P_Start_Time,
        P_Start_Time_Timeout, P_Take_1, P_Take_2]"

definition peg_out_validate ::
  "fee_policy \<Rightarrow> (btc_tx \<Rightarrow> tx_hash) \<Rightarrow> chunk_api \<Rightarrow> (nat list \<Rightarrow> nat list \<Rightarrow> xonly_key \<Rightarrow> bool) \<Rightarrow>
     (musig_maps \<Rightarrow> (nat \<times> (public_key \<times> nat list) list) list) \<Rightarrow> esplora \<Rightarrow> peg_out_state \<Rightarrow>
     (bridge_error + unit) option" where
  "peg_out_validate pol txid_of api verify_public_nonce entries cl s =
     do {
       g \<leftarrow> new_for_validation pol txid_of api s;
       first_error (\<lambda>check. check)
         [validate_txs txid_of s g, validate_commits txid_of cl s,
          verify_presigned_nonces txid_of verify_public_nonce entries s]
     }"

section \<open>What a copy keeps\<close>

text \<open>The parts of a copy from which the graph is built again.\<close>

definition settings :: "peg_out_state \<Rightarrow> operator_context \<times> tx_out list list" where
  "settings s =
     (validation_context s,
      [ps_prev_outs (peg_out_confirm_tx s), ps_prev_outs (kick_off_1_tx s), ps_prev_outs (take_1_tx s),
       ps_prev_outs (take_2_tx s)])"

lemmas settings_defs = settings_def validation_context_def

lemma set_tx_prev_outs [simp]: "ps_prev_outs (set_tx tx t) = ps_prev_outs t"
  by (simp add: set_tx_def)

lemma set_presigned_settings [simp]: "settings (set_presigned p tx s) = settings s"
  by (cases p) (simp_all add: settings_defs)

lemma settings_updates [simp]:
  "settings (set_musig p ms s) = settings s"
  "settings (s\<lparr>n_of_n_presigned := b\<rparr>) = settings s"
  "settings (s\<lparr>peg_out_transaction := t\<rparr>) = settings s"
  "settings (s\<lparr>peg_out_chain_event := e\<rparr>) = settings s"
  "settings (s\<lparr>challenge_transaction := ch\<rparr>) = settings s"
  "settings (s\<lparr>start_time_tx := st, start_time_witness := w\<rparr>) = settings s"
  "settings (s\<lparr>start_time_timeout_tx := stt\<rparr>) = settings s"
  "settings (s\<lparr>kick_off_2_tx := k2, superblock_hash_witness := w\<rparr>) = settings s"
  "settings (s\<lparr>kick_off_timeout_tx := kt\<rparr>) = settings s"
  "settings (s\<lparr>assert_commit_1_tx := ac\<rparr>) = settings s"
  "settings (s\<lparr>assert_commit_2_tx := ac\<rparr>) = settings s"
  "settings (s\<lparr>assert_commit_1_tx := ac, assert_commit_2_tx := ac'\<rparr>) = settings s"
  "settings (s\<lparr>disprove_tx := dp\<rparr>) = settings s"
  "settings (s\<lparr>disprove_chain_tx := dc\<rparr>) = settings s"
  "ps_prev_outs k1 = ps_prev_outs (kick_off_1_tx s) \<Longrightarrow> settings (s\<lparr>kick_off_1_tx := k1\<rparr>) = settings s"
  "ps_prev_outs t2 = ps_prev_outs (take_2_tx s) \<Longrightarrow> settings (s\<lparr>take_2_tx := t2\<rparr>) = settings s"
  by (simp_all add: settings_defs set_musig_def)

lemma sign_prev_outs:
  "kick_off_1_sign cr keypair c6 a b t = Some t' \<Longrightarrow> ps_prev_outs t' = ps_prev_outs t"
  "take_2_sign cr api keypair cc t = Some t' \<Longrightarrow> ps_prev_outs t' = ps_prev_outs t"
  by (auto simp: kick_off_1_sign_def sign_committed_leaf_def take_2_sign_def bind_eq_Some_conv)

lemma presign_settings: "presign_tx txid_of ns p sign a = Some b \<Longrightarrow> settings b = settings a"
  by (auto simp: presign_tx_def bind_eq_Some_conv)

definition keeps_settings :: "peg_out_state \<Rightarrow> peg_out_state \<Rightarrow> bool" where
  "keeps_settings s0 s \<longleftrightarrow> settings s = settings s0"

lemma keeps_settings_simps [simp]:
  "keeps_settings s s"
  "settings s' = settings s \<Longrightarrow> keeps_settings s s'"
  by (simp_all add: keeps_settings_def)

lemma run_action_settings:
  "outcome_all (keeps_settings s) (\<lambda>_. True) (run_action env a s)"
  by (cases a; simp add: action_defs del: bind_eq_Some_conv; (rule outcome_rules | simp add: sign_prev_outs)+)

lemma reachable_settings:
  assumes "reachable envs s0 s" shows "settings s = settings s0"
  using assms
proof induction
  case (nonces s env ctx fresh s' pushed)
  show ?case
    by (rule push_verifier_nonces_induct [where P = "\<lambda>a. settings a = settings s0", OF nonces.hyps(3) nonces.IH]) simp
next
  case (signed s env ctx secret_nonces s')
  show ?case
    by (rule verifier_sign_induct [where P = "\<lambda>a. settings a = settings s0", OF signed.hyps(3) signed.IH])
      (simp_all add: presign_settings)
next
  case (merged s src)
  show ?case
    by (rule peg_out_merge_induct [where P = "\<lambda>a. settings a = settings s0"])
      (simp_all add: merged.IH merge_presigned_def merge_musig_def)
next
  case (event s events s' rest r)
  then show ?case using match_and_set_cases by (metis settings_updates(4))
next
  case (acted s env a s' r)
  then show ?case using outcome_allD(1) [OF run_action_settings acted.hyps(3)] by (simp add: keeps_settings_def)
next
  case (asserted s env w s' r)
  have "outcome_all (keeps_settings s) (\<lambda>_. True) (assert_commits_action env w s)"
    unfolding assert_commits_action_def by (rule outcome_rules | simp)+
  from outcome_allD(1) [OF this asserted.hyps(3)] show ?case using asserted.IH by (simp add: keeps_settings_def)
qed simp

section \<open>An honest copy is rebuilt\<close>

lemma connector_keys:
  "c1_keys (connector_1_new net op n keys) = keys" "c2_keys (connector_2_new net op n keys) = keys"
  "c6_keys (connector_6_new net op keys) = keys" "cb_keys (connector_b_new net n keys) = keys"
  "ce_keys (connector_e_new net operator ks) = ks"
  by (simp_all add: connector_1_new_def connector_2_new_def connector_6_new_def connector_b_new_def connector_e_new_def)

lemma create_new_connectors_keys:
  "create_new_connectors net n_of_n op_taproot op k1 k2 k6 kb e1 e2 = Some cs \<Longrightarrow>
     c1_keys (pc_1 cs) = k1 \<and> c2_keys (pc_2 cs) = k2 \<and> c6_keys (pc_6 cs) = k6 \<and> cb_keys (pc_b cs) = kb \<and>
     map ce_keys (pc_e_1 cs) = e1 \<and> map ce_keys (pc_e_2 cs) = e2"
  by (auto simp: create_new_connectors_def bind_eq_Some_conv connector_keys comp_def)

lemma rebuild_connectors_same:
  assumes "peg_out_connectors_new public_of ctx secrets = Some (po_connectors s)" "validation_context s = ctx"
  shows "rebuild_connectors s = Some (po_connectors s)"
proof -
  obtain k1 k2 k6 kb e1 e2 where cs: "create_new_connectors (oc_network ctx) (oc_n_of_n_taproot_key ctx)
      (oc_operator_taproot_key ctx) (oc_operator_key ctx) k1 k2 k6 kb e1 e2 = Some (po_connectors s)"
    using assms(1) by (auto simp: peg_out_connectors_new_def bind_eq_Some_conv split: prod.splits)
  show ?thesis using create_new_connectors_keys [OF cs] cs assms(2)
    by (auto simp: rebuild_connectors_def Let_def validation_context_def)
qed

text \<open>The input that a transaction was built for can be read off any extension of it.\<close>

lemma self_input_sound:
  assumes "sound_tx t inps fee" "unsigned_ins (ps_tx t') = unsigned_ins (ps_tx t) @ extra"
    and "ps_prev_outs t' = ps_prev_outs t" "i < length inps"
  shows "self_input t' i = Some (inps ! i)"
proof -
  have out: "map previous_output (tx_input u) = map previous_output (unsigned_ins u)" for u
    by (simp add: unsigned_in_def comp_def)
  have "map previous_output (tx_input (ps_tx t')) = map in_outpoint inps @ map previous_output extra"
    and v: "map tx_value (ps_prev_outs t') = map in_amount inps"
    using assms(1-3) by (simp_all add: sound_tx_def out)
  then have p: "map previous_output (tx_input (ps_tx t')) ! i = map in_outpoint inps ! i"
    and l: "length (tx_input (ps_tx t')) = length inps + length extra"
    using assms(4) by (simp add: nth_append, metis length_append length_map)
  have "length (ps_prev_outs t') = length inps" "map tx_value (ps_prev_outs t') ! i = in_amount (inps ! i)"
    using v assms(4) by (metis length_map, simp)
  then show ?thesis using p l assms(4) by (simp add: self_input_def index_of_def)
qed

lemma new_take_1_rebuild:
  "new_take_1 pol txid_of ctx cs pic k1 k2 =
     generate_input txid_of (ps_tx pic) 0 \<bind> (\<lambda>i0. rebuild_take_1 pol txid_of ctx cs i0 k1 k2)"
  by (simp add: new_take_1_def rebuild_take_1_def)

lemma new_take_2_rebuild:
  "new_take_2 pol txid_of api ctx cs pic af =
     generate_input txid_of (ps_tx pic) 0 \<bind> (\<lambda>i0. rebuild_take_2 pol txid_of api ctx cs i0 af)"
  by (simp add: new_take_2_def rebuild_take_2_def)

text \<open>There are as many commitments as inputs either way.\<close>

lemma new_assert_counted:
  "new_assert pol txid_of ctx cs k2 = rebuild_assert pol txid_of cs k2"
proof -
  have count: "generate_inputs txid_of tx (map f [0..<n]) \<bind> (\<lambda>inps. rust_assert (length inps = n) \<bind> (\<lambda>_. k inps)) =
      generate_inputs txid_of tx (map f [0..<n]) \<bind> k" for tx f n and k :: "tx_input_ref list \<Rightarrow> 'x option"
  proof (cases "generate_inputs txid_of tx (map f [0..<n])")
    case (Some inps)
    then show ?thesis using generate_inputs_nth [OF Some] by (simp add: rust_assert_def)
  qed simp
  show ?thesis
    by (simp add: new_assert_def rebuild_assert_def assert_commit_1_new_def assert_commit_2_new_def Let_def count
        del: bind_eq_Some_conv)
qed

text \<open>The two parts that read the copy.\<close>

lemma rebuild_kick_off_1_same:
  assumes "new_kick_off_1 pol txid_of ctx cs confirm_input = Some (confirm, k1)"
    and "unsigned (ps_tx (peg_out_confirm_tx s)) = unsigned (ps_tx confirm)"
    and "unsigned (ps_tx (kick_off_1_tx s)) = unsigned (ps_tx k1)"
    and "ps_prev_outs (peg_out_confirm_tx s) = ps_prev_outs confirm"
    and "ps_prev_outs (kick_off_1_tx s) = ps_prev_outs k1"
  shows "rebuild_kick_off_1 pol ctx cs s = Some (confirm, k1)"
proof -
  obtain i0 where c: "peg_out_confirm_new_for_validation pol (oc_network ctx) (oc_operator_key ctx) (pc_6 cs) confirm_input = Some confirm"
    and k: "kick_off_1_new_for_validation pol (oc_network ctx) (oc_operator_taproot_key ctx)
         (oc_n_of_n_taproot_key ctx) (pc_1 cs) (pc_2 cs) (pc_6 cs) i0 = Some k1"
    using assms(1) by (auto simp: new_kick_off_1_def bind_eq_Some_conv)
  have "self_input (peg_out_confirm_tx s) 0 = Some ([confirm_input] ! 0)"
    by (rule self_input_sound [OF peg_out_confirm_sound [OF c], where extra = "[]"])
      (use unsigned_parts [OF assms(2)] assms(4) in simp_all)
  moreover have "self_input (kick_off_1_tx s) 0 = Some ([i0] ! 0)"
    by (rule self_input_sound [OF kick_off_1_sound [OF k], where extra = "[]"])
      (use unsigned_parts [OF assms(3)] assms(5) in simp_all)
  ultimately show ?thesis using c k by (simp add: rebuild_kick_off_1_def)
qed

lemma self_inputD:
  assumes "self_input t 0 = Some i0" "in_outpoint i0 = Outpoint txid 0"
  shows "(\<exists>first. index_of (tx_input (ps_tx t)) 0 = Some first \<and> op_txid (previous_output first) = txid) \<and>
    self_deposit txid t = Some i0"
  using assms by (auto simp: self_input_def self_deposit_def bind_eq_Some_conv)

text \<open>A copy that still says of itself what the graph was built from.\<close>

definition settings_of :: "operator_context \<Rightarrow> peg_out_graph \<Rightarrow> operator_context \<times> tx_out list list" where
  "settings_of ctx g =
     (ctx, [ps_prev_outs (peg_out_confirm_tx g), ps_prev_outs (kick_off_1_tx g), ps_prev_outs (take_1_tx g),
       ps_prev_outs (take_2_tx g)])"

lemma new_settings:
  assumes "peg_out_state_new pol txid_of api public_of generate_id cr keypair ctx pin confirm_input secrets = Some s"
    and "peg_out_graph_new pol txid_of api public_of ctx pin confirm_input secrets = Some g"
  shows "settings s = settings_of ctx g"
proof -
  obtain g' where g': "sign_new cr keypair g = Some g'"
    and s: "settings s = settings_of ctx g'"
    using assms by (auto simp: peg_out_state_new_def bind_eq_Some_conv peg_out_graph.extend_def settings_defs
        settings_of_def)
  have "settings_of ctx g' = settings_of ctx g"
    using g' by (auto simp: sign_new_def Let_def bind_eq_Some_conv peg_out_confirm_signed_def take_1_signed_def
        take_2_signed_def settings_of_def dest!: pre_sign_p2wsh_keeps pre_sign_taproot_keeps)
  then show ?thesis using s by simp
qed

lemma rebuilt:
  assumes g: "peg_out_graph_new pol txid_of api public_of ctx pin confirm_input secrets = Some g"
    and s: "settings s = settings_of ctx g" "po_connectors s = po_connectors g"
    and parents: "\<And>x. is_parent x \<Longrightarrow> unsigned (tx_of s x) = unsigned (tx_of g x)"
    and extends: "\<And>x. extends_tx (tx_of g x) (tx_of s x)"
  shows "\<exists>s'. new_for_validation pol txid_of api s = Some s' \<and> graph_of s' = g"
proof -
  note parts = peg_out_graph_new_cases [OF g]
  have ctx: "validation_context s = ctx" using s(1) by (simp add: settings_def settings_of_def)
  have prevs: "ps_prev_outs (peg_out_confirm_tx s) = ps_prev_outs (peg_out_confirm_tx g)"
      "ps_prev_outs (kick_off_1_tx s) = ps_prev_outs (kick_off_1_tx g)"
      "ps_prev_outs (take_1_tx s) = ps_prev_outs (take_1_tx g)"
      "ps_prev_outs (take_2_tx s) = ps_prev_outs (take_2_tx g)"
    using s(1) by (simp_all add: settings_def settings_of_def)
  have cs: "rebuild_connectors s = Some (po_connectors g)"
    using rebuild_connectors_same [of public_of ctx secrets s] parts(1) s(2) ctx by simp
  have k1: "rebuild_kick_off_1 pol ctx (po_connectors g) s = Some (peg_out_confirm_tx g, kick_off_1_tx g)"
    by (rule rebuild_kick_off_1_same [OF parts(2)])
      (use parents [of Tx_Peg_Out_Confirm] parents [of Tx_Kick_Off_1] prevs in simp_all)
  obtain e1 e2 where e: "unsigned_ins (ps_tx (take_1_tx s)) = unsigned_ins (ps_tx (take_1_tx g)) @ e1"
      "unsigned_ins (ps_tx (take_2_tx s)) = unsigned_ins (ps_tx (take_2_tx g)) @ e2"
    using extends [of Tx_Take_1] extends [of Tx_Take_2] by (auto simp: extends_tx_def)
  obtain i0 where i0: "generate_input txid_of (ps_tx (peg_in_confirm_tx pin)) 0 = Some i0"
    and t1: "rebuild_take_1 pol txid_of ctx (po_connectors g) i0 (kick_off_1_tx g) (kick_off_2_tx g) = Some (take_1_tx g)"
    and t2: "rebuild_take_2 pol txid_of api ctx (po_connectors g) i0 (assert_final_tx g) = Some (take_2_tx g)"
    using parts(6,9) by (auto simp: new_take_1_rebuild new_take_2_rebuild bind_eq_Some_conv)
  obtain i1 i2 i3 where t1': "take_1_new_for_validation pol (oc_network ctx) (oc_operator_key ctx) (pc_0 (po_connectors g))
      (pc_3 (po_connectors g)) (pc_a (po_connectors g)) (pc_b (po_connectors g)) i0 i1 i2 i3 = Some (take_1_tx g)"
    using t1 by (auto simp: rebuild_take_1_def bind_eq_Some_conv)
  obtain j1 j2 j3 where t2': "take_2_new_for_validation pol api (oc_network ctx) (oc_operator_key ctx)
      (pc_0 (po_connectors g)) (pc_4 (po_connectors g)) (pc_5 (po_connectors g)) (pc_c (po_connectors g)) i0 j1 j2 j3 =
      Some (take_2_tx g)"
    using t2 by (auto simp: rebuild_take_2_def bind_eq_Some_conv)
  have txid: "peg_in_confirm_txid g = txid_of (ps_tx (peg_in_confirm_tx pin))"
    using g by (auto simp: peg_out_graph_new_def Let_def bind_eq_Some_conv)
  have out: "in_outpoint i0 = Outpoint (peg_in_confirm_txid g) 0"
    using generate_inputD [OF i0] by (simp only: txid)
  have "self_input (take_1_tx s) 0 = Some ([i0, i1, i2, i3] ! 0)"
    by (rule self_input_sound [OF take_1_sound [OF t1'] e(1) prevs(3)]) simp
  then obtain first where first: "index_of (tx_input (ps_tx (take_1_tx s))) 0 = Some first"
      "op_txid (previous_output first) = peg_in_confirm_txid g"
    and d1: "self_deposit (peg_in_confirm_txid g) (take_1_tx s) = Some i0"
    using self_inputD [OF _ out] by auto
  have "self_input (take_2_tx s) 0 = Some ([i0, j1, j2, j3] ! 0)"
    by (rule self_input_sound [OF take_2_sound [OF t2'] e(2) prevs(4)]) simp
  then have d2: "self_deposit (peg_in_confirm_txid g) (take_2_tx s) = Some i0"
    using self_inputD [OF _ out] by auto
  obtain s' where "new_for_validation pol txid_of api s = Some s'" "po_connectors s' = po_connectors g"
      "peg_in_confirm_txid s' = peg_in_confirm_txid g" "peg_out_confirm_tx s' = peg_out_confirm_tx g"
      "kick_off_1_tx s' = kick_off_1_tx g" "start_time_tx s' = start_time_tx g"
      "start_time_timeout_tx s' = start_time_timeout_tx g" "kick_off_2_tx s' = kick_off_2_tx g"
      "kick_off_timeout_tx s' = kick_off_timeout_tx g" "challenge_transaction s' = challenge_transaction g"
      "take_1_tx s' = take_1_tx g" "assert_initial_tx s' = assert_initial_tx g"
      "assert_commit_1_tx s' = assert_commit_1_tx g" "assert_commit_2_tx s' = assert_commit_2_tx g"
      "assert_final_tx s' = assert_final_tx g" "take_2_tx s' = take_2_tx g" "disprove_tx s' = disprove_tx g"
      "disprove_chain_tx s' = disprove_chain_tx g"
    by (rule that, unfold new_for_validation_def)
      (simp add: Let_def ctx cs k1 first d1 d2 t1 t2 s(2) parts(3-5,8,10) parts(7) [unfolded new_assert_counted], simp_all)
  then show ?thesis by (intro exI [of _ s'] conjI peg_out_graph.equality) (simp_all add: peg_out_graph.truncate_def)
qed

section \<open>What validation accepts\<close>

text \<open>A copy in which no reward has been claimed: the outputs are those the graph was built with.\<close>

definition unclaimed :: "peg_out_state \<Rightarrow> peg_out_state \<Rightarrow> bool" where
  "unclaimed s0 s \<longleftrightarrow> (\<forall>x. slashing x \<longrightarrow> take 2 (tx_output (tx_of s x)) = tx_output (tx_of s0 x))"

lemma validate_txs_ok:
  "validate_txs txid_of s g = Some (Inr ()) \<longleftrightarrow>
     (\<forall>x. (\<exists>extra. unsigned_ins (tx_of s x) = unsigned_ins (tx_of g x) @ extra) \<and>
          (\<exists>extra. tx_output (tx_of s x) = tx_output (tx_of g x) @ extra))"
  by (simp only: validate_txs_def first_error_ok validate_transaction_ok all_po_tx list.set ball_simps) blast

lemma reward_output: "tx_script_pubkey out = Empty_Script \<Longrightarrow> \<exists>v. out = reward_to_any v"
  by (cases out) (simp add: reward_to_any_def)

lemma pays_reward: "pays tx = [a, Empty_Script] \<Longrightarrow> \<exists>out0 v. tx_output tx = [out0, reward_to_any v]"
  by (auto simp: pays_def map_eq_Cons_conv dest!: reward_output)

lemma outputs_shape:
  assumes "peg_out_graph_new pol txid_of api public_of ctx pin confirm_input secrets = Some g"
  shows "slashing x \<Longrightarrow> \<exists>out0 v. tx_output (tx_of g x) = [out0, reward_to_any v]"
    and "\<not> is_parent x \<Longrightarrow> \<not> slashing x \<Longrightarrow> length (tx_output (tx_of g x)) = 1"
proof -
  note parts = peg_out_graph_new_cases [OF assms]
  have "slashing x \<Longrightarrow> \<exists>a. pays (tx_of g x) = [a, Empty_Script]"
    using parts(3,4,10)
    by (cases x) (auto simp: new_start_time_def new_kick_off_2_def new_disprove_def bind_eq_Some_conv
        dest!: start_time_timeout_shape kick_off_timeout_shape disprove_shape disprove_chain_shape)
  then show "slashing x \<Longrightarrow> \<exists>out0 v. tx_output (tx_of g x) = [out0, reward_to_any v]" by (blast dest: pays_reward)
  have "\<not> is_parent x \<Longrightarrow> \<not> slashing x \<Longrightarrow> length (pays (tx_of g x)) = 1"
    using parts(3,5,6,9)
    by (cases x) (auto simp: new_start_time_def new_challenge_def new_take_1_def new_take_2_def bind_eq_Some_conv
        dest!: start_time_shape challenge_shape take_1_shape take_2_shape)
  then show "\<not> is_parent x \<Longrightarrow> \<not> slashing x \<Longrightarrow> length (tx_output (tx_of g x)) = 1" by (simp add: pays_def)
qed

text \<open>Of a copy that operations and signatures have made from the graph, only a claimed reward differs.\<close>

lemma validate_txs_reachable:
  assumes g: "peg_out_graph_new pol txid_of api public_of ctx pin confirm_input secrets = Some g"
    and g': "graph_of g' = g" and s0: "signed_copy g s0" and f: "faithful s0 s"
  shows "validate_txs txid_of s g' = Some (Inr ()) \<longleftrightarrow> unclaimed s0 s"
proof -
  have tx: "tx_of g' x = tx_of g x" for x using tx_of_graph_of [of g' x] g' by simp
  have out: "tx_output (tx_of s0 x) = tx_output (tx_of g x)" for x by (rule signed_copy_outputs [OF s0])
  have ext: "extends_tx (tx_of g x) (tx_of s x)" for x
    using faithful_D(1) [OF f] s0 extends_tx_base unfolding signed_copy_def by metis
  have ins: "\<exists>extra. unsigned_ins (tx_of s x) = unsigned_ins (tx_of g x) @ extra" for x
    using ext [of x] by (auto simp: extends_tx_def)
  have "(\<exists>extra. tx_output (tx_of s x) = tx_output (tx_of g x) @ extra) \<longleftrightarrow>
      (slashing x \<longrightarrow> take 2 (tx_output (tx_of s x)) = tx_output (tx_of g x))" for x
  proof (cases "slashing x")
    case True
    then have "length (tx_output (tx_of g x)) = 2" using outputs_shape(1) [OF g] by fastforce
    then show ?thesis using True by (metis append_eq_conv_conj append_take_drop_id)
  next
    case False
    have "\<exists>extra. tx_output (tx_of s x) = tx_output (tx_of g x) @ extra"
    proof (cases "is_parent x")
      case True
      then have "tx_output (tx_of s x) = tx_output (tx_of g x)"
        using faithful_D(2) [OF f] out [of x] unsigned_parts by metis
      then show ?thesis by simp
    next
      case False
      then have "length (tx_output (tx_of g x)) = 1" using outputs_shape(2) [OF g] \<open>\<not> slashing x\<close> by simp
      moreover have "take 1 (tx_output (tx_of s x)) = take 1 (tx_output (tx_of g x))"
        using ext [of x] by (simp add: extends_tx_def)
      ultimately have "tx_output (tx_of s x) = tx_output (tx_of g x) @ drop 1 (tx_output (tx_of s x))"
        by (metis append_take_drop_id order_refl take_all)
      then show ?thesis by blast
    qed
    then show ?thesis using False by simp
  qed
  then show ?thesis using ins by (simp add: validate_txs_ok unclaimed_def tx out)
qed

text \<open>What the node says of a transaction agrees with the witnesses that the copy has.\<close>

definition witnesses_match :: "(btc_tx \<Rightarrow> tx_hash) \<Rightarrow> esplora \<Rightarrow> btc_tx \<Rightarrow> bool" where
  "witnesses_match txid_of cl tx \<longleftrightarrow>
     (\<exists>st. get_tx_status cl (txid_of tx) = Inr st \<and>
        (confirmed st \<longrightarrow> (\<exists>onchain. get_tx cl (txid_of tx) = Inr (Some onchain) \<and>
          (\<forall>i < length (tx_input tx). witness (tx_input tx ! i) \<noteq> [] \<longrightarrow>
            i < length (tx_input onchain) \<and> witness (tx_input onchain ! i) = witness (tx_input tx ! i)))))"

definition nonces_signed :: "(nat list \<Rightarrow> nat list \<Rightarrow> xonly_key \<Rightarrow> bool) \<Rightarrow> nat list musig2_state \<Rightarrow> bool" where
  "nonces_signed verify_public_nonce ms \<longleftrightarrow>
     (\<forall>i k n. entry (musig2_nonces ms) i k = Some n \<longrightarrow>
        (\<exists>sig. entry (musig2_nonce_signatures ms) i k = Some sig \<and> verify_public_nonce sig n (xonly_of k)))"

text \<open>An iteration over nested hash maps meets exactly their entries.\<close>

definition lists_entries :: "(nat \<times> (public_key \<times> nat list) list) list \<Rightarrow> musig_maps \<Rightarrow> bool" where
  "lists_entries es m \<longleftrightarrow> (\<forall>i k n. (\<exists>ns. (i, ns) \<in> set es \<and> (k, n) \<in> set ns) \<longleftrightarrow> entry m i k = Some n)"

lemma map_sum_Inr: "map_sum id f r = Inr y \<longleftrightarrow> (\<exists>x. r = Inr x \<and> y = f x)"
  by (cases r) auto

lemma validate_commits_ok:
  "validate_commits txid_of cl s = Some (Inr ()) \<longleftrightarrow> (\<forall>x \<in> set txs_with_commits. witnesses_match txid_of cl (tx_of s x))"
proof -
  have z: "zip xs (zip (map f xs) (map h xs)) = map (\<lambda>x. (x, f x, h x)) xs"
    for xs :: "po_tx list" and f :: "po_tx \<Rightarrow> string + tx_status" and h :: "po_tx \<Rightarrow> string + btc_tx option"
    by (induction xs) simp_all
  show ?thesis
    by (simp add: validate_commits_def Let_def get_tx_statuses_def get_onchain_txs_def comp_def z first_error_ok
        validate_witness_ok witnesses_match_def map_sum_Inr del: first_error.simps) blast
qed

lemma verify_presigned_nonces_ok:
  assumes "\<forall>p. lists_entries (entries (musig2_nonces (po_musig s p))) (musig2_nonces (po_musig s p))"
  shows "verify_presigned_nonces txid_of verify_public_nonce entries s = Some (Inr ()) \<longleftrightarrow>
    (\<forall>p. nonces_signed verify_public_nonce (po_musig s p))"
proof -
  have all: "(\<forall>p \<in> set [P_Assert_Initial, P_Assert_Final, P_Disprove_Chain, P_Disprove, P_Kick_Off_Timeout, P_Start_Time,
        P_Start_Time_Timeout, P_Take_1, P_Take_2]. P p) \<longleftrightarrow> (\<forall>p. P p)" for P
    by (rule iffI, rule allI, case_tac p) simp_all
  have "(\<forall>(i, ns) \<in> set (entries (musig2_nonces (po_musig s p))). \<forall>(k, n) \<in> set ns. Q i k n) \<longleftrightarrow>
      (\<forall>i k n. entry (musig2_nonces (po_musig s p)) i k = Some n \<longrightarrow> Q i k n)" for p Q
    using assms by (fastforce simp: lists_entries_def)
  then show ?thesis
    unfolding verify_presigned_nonces_def first_error_ok all verify_public_nonces_ok_iff nonces_signed_def by presburger
qed

lemma peg_out_validate_ok:
  "peg_out_validate pol txid_of api verify_public_nonce entries cl s = Some (Inr ()) \<longleftrightarrow>
     (\<exists>g. new_for_validation pol txid_of api s = Some g \<and> validate_txs txid_of s g = Some (Inr ()) \<and>
        validate_commits txid_of cl s = Some (Inr ()) \<and>
        verify_presigned_nonces txid_of verify_public_nonce entries s = Some (Inr ()))"
  by (simp only: peg_out_validate_def bind_eq_Some_conv first_error_ok list.set ball_simps) simp

lemma reachable_rebuilt:
  assumes "peg_out_state_new pol txid_of api public_of generate_id cr keypair ctx pin confirm_input secrets = Some s0"
    and "reachable envs s0 s"
  shows "\<exists>g'. new_for_validation pol txid_of api s = Some g' \<and>
    (validate_txs txid_of s g' = Some (Inr ()) \<longleftrightarrow> unclaimed s0 s)"
proof -
  obtain g where g: "peg_out_graph_new pol txid_of api public_of ctx pin confirm_input secrets = Some g" "signed_copy g s0"
    by (rule peg_out_state_new_graph [OF assms(1)])
  have f: "faithful s0 s" by (rule new_reachable_faithful [OF assms])
  have "\<exists>g'. new_for_validation pol txid_of api s = Some g' \<and> graph_of g' = g"
  proof (rule rebuilt [OF g(1)])
    show "settings s = settings_of ctx g" using reachable_settings [OF assms(2)] new_settings [OF assms(1) g(1)] by simp
    show "po_connectors s = po_connectors g" using f g(2) by (simp add: faithful_def signed_copy_def)
    show "unsigned (tx_of s x) = unsigned (tx_of g x)" if "is_parent x" for x
      using faithful_D(2) [OF f that] g(2) by (simp add: signed_copy_def)
    show "extends_tx (tx_of g x) (tx_of s x)" for x
      using faithful_D(1) [OF f] g(2) extends_tx_base unfolding signed_copy_def by metis
  qed
  then show ?thesis using validate_txs_reachable [OF g(1) _ g(2) f] by blast
qed

text \<open>The script that a reward is claimed for.\<close>

fun claimed_script :: "('k, 's) action \<Rightarrow> script_pubkey option" where
  "claimed_script (A_Start_Time_Timeout out) = Some out"
| "claimed_script (A_Kick_Off_Timeout out) = Some out"
| "claimed_script (A_Disprove out) = Some out"
| "claimed_script (A_Disprove_Chain out) = Some out"
| "claimed_script _ = None"

lemma add_output_at_1:
  "add_output out t = Some t' \<Longrightarrow> 1 < length (tx_output (ps_tx t')) \<and> tx_script_pubkey (tx_output (ps_tx t') ! 1) = out"
  by (auto simp: add_output_def bind_eq_Some_conv index_of_def split: if_splits)

lemma add_input_output_at_1:
  assumes "add_input_output cr api cc i wit out t = Some t'"
  shows "1 < length (tx_output (ps_tx t')) \<and> tx_script_pubkey (tx_output (ps_tx t') ! 1) = out"
proof -
  obtain t1 tx1 script cached tx2 where
    t1: "add_output out t = Some t1" "fold_option (push_witness 1) (ps_tx t1) wit = Some tx1"
    and tx2: "push_taproot_leaf_script_and_cached_control_block_to_witness cr tx1 1 cached script = Some tx2"
      "t' = t1\<lparr>ps_tx := tx2\<rparr>"
    using assms by (auto simp: add_input_output_def bind_eq_Some_conv)
  have "unsigned tx2 = unsigned (ps_tx t1)"
    using fold_push_witness_unsigned [OF t1(2)] appends_unsigned [OF push_cached_leaf_appends [OF tx2(1)]] by simp
  then show ?thesis using add_output_at_1 [OF t1(1)] unsigned_parts [of tx2 "ps_tx t1"] tx2(2) by simp
qed

lemma disprove_chain_at_1:
  assumes "add_output out t = Some t1" "disprove_chain_sign m a b t1 = Some t'"
  shows "1 < length (tx_output (ps_tx t')) \<and> tx_script_pubkey (tx_output (ps_tx t') ! 1) = out"
  using add_output_at_1 [OF assms(1)] unsigned_parts [OF disprove_chain_sign_keeps [OF assms(2)]] by simp

lemma claimed_output:
  assumes "run_action env a s = Some (s', Inr tx)" "claimed_script a = Some out"
  shows "\<exists>x. slashing x \<and> 1 < length (tx_output (tx_of s' x)) \<and> tx_script_pubkey (tx_output (tx_of s' x) ! 1) = out"
proof -
  define claimed where "claimed \<equiv> \<lambda>s' :: peg_out_state. \<exists>x. slashing x \<and> 1 < length (tx_output (tx_of s' x)) \<and>
    tx_script_pubkey (tx_output (tx_of s' x) ! 1) = out"
  have all: "claimed r" if "slashing x" "1 < length (tx_output (tx_of r x)) \<and> tx_script_pubkey (tx_output (tx_of r x) ! 1) = out"
    for r x using that by (auto simp: claimed_def)
  have "claimed s'" using assms
  proof (cases a)
    case (A_Start_Time_Timeout out')
    then show ?thesis using assms
      by (auto simp: start_time_timeout_action_def ok_simps bind_eq_Some_conv intro!: all [of Tx_Start_Time_Timeout]
          dest: add_output_at_1)
  next
    case (A_Kick_Off_Timeout out')
    then show ?thesis using assms
      by (auto simp: kick_off_timeout_action_def ok_simps bind_eq_Some_conv intro!: all [of Tx_Kick_Off_Timeout]
          dest: add_output_at_1)
  next
    case (A_Disprove out')
    then show ?thesis using assms
      by (auto simp: disprove_action_def ok_simps bind_eq_Some_conv attempt_ok intro!: all [of Tx_Disprove]
          dest: add_input_output_at_1 split: prod.splits)
  next
    case (A_Disprove_Chain out')
    then show ?thesis using assms
      by (auto simp: disprove_chain_action_def Let_def ok_simps attempt_ok bind_eq_Some_conv
          intro!: all [of Tx_Disprove_Chain] dest: disprove_chain_at_1 split: option.splits)
  qed simp_all
  then show ?thesis by (simp add: claimed_def)
qed

lemma claimed_not_unclaimed:
  assumes g: "peg_out_graph_new pol txid_of api public_of ctx pin confirm_input secrets = Some g" "signed_copy g s0"
    and x: "slashing x" "1 < length (tx_output (tx_of s x))" "tx_script_pubkey (tx_output (tx_of s x) ! 1) \<noteq> Empty_Script"
  shows "\<not> unclaimed s0 s"
proof
  assume "unclaimed s0 s"
  then have "take 2 (tx_output (tx_of s x)) = tx_output (tx_of g x)"
    using x(1) signed_copy_outputs [OF g(2)] by (simp add: unclaimed_def)
  moreover obtain out0 v where "tx_output (tx_of g x) = [out0, reward_to_any v]" using outputs_shape(1) [OF g(1) x(1)] by blast
  ultimately have "take 2 (tx_output (tx_of s x)) ! 1 = reward_to_any v" by simp
  then show False using x(2,3) by (simp add: reward_to_any_def)
qed

lemma sample_reachable_signed:
  assumes "sample_new pin = Some s"
  shows "lists_entries [] (musig2_nonces (po_musig s p))"
  using assms
  by (auto simp: peg_out_state_new_def bind_eq_Some_conv peg_out_graph.extend_def lists_entries_def empty_musig_def
      entry_def)

lemma sample_new_passes:
  assumes "sample_new pin = Some s"
  shows "unclaimed s s" "witnesses_match binding_txid (sample_client []) tx" "lists_entries [] (musig2_nonces (po_musig s p))"
    "nonces_signed (\<lambda>_ _ _. False) (po_musig s p)"
proof -
  obtain g where g: "sample_graph pin = Some g" "signed_copy g s" by (rule peg_out_state_new_graph [OF assms])
  show "unclaimed s s" unfolding unclaimed_def
  proof (intro allI impI)
    fix x assume "slashing x"
    then obtain out0 v where "tx_output (tx_of g x) = [out0, reward_to_any v]" using outputs_shape(1) [OF g(1)] by blast
    then show "take 2 (tx_output (tx_of s x)) = tx_output (tx_of s x)" by (simp add: signed_copy_outputs [OF g(2)])
  qed
  show "witnesses_match binding_txid (sample_client []) tx" by (simp add: witnesses_match_def)
  show l: "lists_entries [] (musig2_nonces (po_musig s p))" by (rule sample_reachable_signed [OF assms])
  then show "nonces_signed (\<lambda>_ _ _. False) (po_musig s p)" by (auto simp: nonces_signed_def lists_entries_def)
qed

lemma sample_new_validates:
  assumes "sample_new pin = Some s"
  shows "peg_out_validate core_policy binding_txid sample_chunk_api (\<lambda>_ _ _. False) (\<lambda>_. []) (sample_client []) s =
    Some (Inr ())"
  using reachable_rebuilt [OF assms reachable.created [of "\<lambda>_ :: (nat, nat) env. True" s]] sample_new_passes [OF assms]
    verify_presigned_nonces_ok [of "\<lambda>_. []" s binding_txid "\<lambda>_ _ _. False"]
  by (auto simp: peg_out_validate_ok validate_commits_ok)

text \<open>
  C7. A copy that came about from a new graph by signing rounds, merges and operations passes the
  validation of any participant exactly when no reward has been claimed in it, the node knows its first assert
  commitment, start time, kick-off 2 and peg-out confirmation to be unconfirmed or confirmed with the same
  witnesses, and every nonce has a signature of its key.
\<close>

theorem reachable_copy_validates_iff:
  assumes "peg_out_state_new pol txid_of api public_of generate_id cr keypair ctx pin confirm_input secrets = Some s0"
    and "reachable envs s0 s"
    and "\<forall>p. lists_entries (entries (musig2_nonces (po_musig s p))) (musig2_nonces (po_musig s p))"
  shows "peg_out_validate pol txid_of api verify_public_nonce entries cl s = Some (Inr ()) \<longleftrightarrow>
    unclaimed s0 s \<and>
    (\<forall>x \<in> {Tx_Assert_Commit_1, Tx_Start_Time, Tx_Kick_Off_2, Tx_Peg_Out_Confirm}. witnesses_match txid_of cl (tx_of s x)) \<and>
    (\<forall>p. nonces_signed verify_public_nonce (po_musig s p))"
proof -
  obtain g where g: "new_for_validation pol txid_of api s = Some g"
    and v: "validate_txs txid_of s g = Some (Inr ()) \<longleftrightarrow> unclaimed s0 s"
    using reachable_rebuilt [OF assms(1,2)] by blast
  show ?thesis
    by (simp only: peg_out_validate_ok g v validate_commits_ok verify_presigned_nonces_ok [OF assms(3)]
        option.inject ex_simps simp_thms txs_with_commits_def list.set ball_simps)
qed

text \<open>A new copy passes on a node that has seen none of it.\<close>

theorem reachable_copy_validates_iff_witness:
  "\<exists>pin s. sample_new pin = Some s \<and>
     peg_out_validate core_policy binding_txid sample_chunk_api (\<lambda>_ _ _. False) (\<lambda>_. []) (sample_client []) s = Some (Inr ())"
proof (rule sample_states)
  fix pin s assume s: "sample_new pin = Some s"
  have "peg_out_validate core_policy binding_txid sample_chunk_api (\<lambda>_ _ _. False) (\<lambda>_. [])
      (sample_client []) s = Some (Inr ())"
    using reachable_copy_validates_iff [OF s reachable.created [of "\<lambda>_ :: (nat, nat) env. True" s],
        of "\<lambda>_. []" "\<lambda>_ _ _. False" "sample_client []"] sample_new_passes [OF s] by simp
  then show ?thesis using s by blast
qed

text \<open>
  Claiming a reward in a copy makes it unfit for sharing: whichever of the four transactions with a
  reward has been prepared for broadcast with the claimant's script, no participant accepts the copy any more.
\<close>

theorem claimed_reward_is_rejected:
  assumes "peg_out_state_new pol txid_of api public_of generate_id cr keypair ctx pin confirm_input secrets = Some s0"
    and "reachable envs s0 s" "envs env" "run_action env a s = Some (s', Inr tx)"
    and "claimed_script a = Some out" "out \<noteq> Empty_Script"
  shows "peg_out_validate pol txid_of api verify_public_nonce entries cl s' \<noteq> Some (Inr ())"
proof -
  have r: "reachable envs s0 s'" by (rule reachable.acted [OF assms(2-4)])
  obtain g where "peg_out_graph_new pol txid_of api public_of ctx pin confirm_input secrets = Some g" "signed_copy g s0"
    by (rule peg_out_state_new_graph [OF assms(1)])
  then have "\<not> unclaimed s0 s'"
    using claimed_output [OF assms(4,5)] claimed_not_unclaimed assms(6) by metis
  then show ?thesis using reachable_rebuilt [OF assms(1) r] by (auto simp: peg_out_validate_ok)
qed

theorem claimed_reward_is_rejected_witness:
  "\<exists>pin s (env :: (nat, nat) env) s' tx. sample_new pin = Some s \<and> run_action env (A_Kick_Off_Timeout (P2wsh [])) s = Some (s', Inr tx) \<and>
     peg_out_validate core_policy binding_txid sample_chunk_api (\<lambda>_ _ _. True) (\<lambda>_. []) (sample_client []) s' \<noteq> Some (Inr ())"
proof (rule sample_states)
  fix pin g s
  assume s: "sample_new pin = Some s" and copy: "signed_copy g s" and g: "sample_graph pin = Some g"
  obtain s' tx where run: "run_action (sample_env [binding_txid (ps_tx (kick_off_1_tx s))])
      (A_Kick_Off_Timeout (P2wsh [])) s = Some (s', Inr tx)"
    by (rule sample_timeout_run [OF g copy])
  have "peg_out_validate core_policy binding_txid sample_chunk_api (\<lambda>_ _ _. True) (\<lambda>_. []) (sample_client []) s' \<noteq>
      Some (Inr ())"
    by (rule claimed_reward_is_rejected [where out = "P2wsh []", OF s reachable.created [of "\<lambda>_ :: (nat, nat) env. True" s] _ run]) simp_all
  then show ?thesis using s run by blast
qed

section \<open>Copies of others\<close>

text \<open>
  The links inside a graph that is built again from a copy, each with amount and script: those of the transactions that
  are built from connectors made anew, and those of the challenge and the disproofs, which are built from the copy's own.
  Kick-off 1 spends what the copy says it spends, and both takes the same output, which the copy names.
\<close>

definition sure_links :: "(btc_tx \<Rightarrow> tx_hash) \<Rightarrow> 'a peg_out_graph_scheme \<Rightarrow> bool" where
  "sure_links txid_of g \<longleftrightarrow>
     (let k1 = ps_tx (kick_off_1_tx g); k2 = ps_tx (kick_off_2_tx g); ai = ps_tx (assert_initial_tx g);
          af = ps_tx (assert_final_tx g); n = length (pc_e_1 (po_connectors g)) in
      spends_output txid_of (start_time_tx g) 0 k1 2 \<and>
      spends_output txid_of (start_time_timeout_tx g) 0 k1 2 \<and>
      spends_output txid_of (start_time_timeout_tx g) 1 k1 1 \<and>
      spends_output txid_of (kick_off_2_tx g) 0 k1 1 \<and>
      spends_output txid_of (kick_off_timeout_tx g) 0 k1 1 \<and>
      spends_output txid_of (take_1_tx g) 1 k1 0 \<and>
      spends_output txid_of (take_1_tx g) 2 k2 0 \<and>
      spends_output txid_of (take_1_tx g) 3 k2 1 \<and>
      spends_output txid_of (assert_initial_tx g) 0 k2 1 \<and>
      (\<forall>j < n. spends_output txid_of (assert_commit_1_tx g) j ai (j + 1)) \<and>
      (\<forall>j < length (pc_e_2 (po_connectors g)). spends_output txid_of (assert_commit_2_tx g) j ai (j + (1 + n))) \<and>
      spends_output txid_of (assert_final_tx g) 0 ai 0 \<and>
      spends_output txid_of (assert_final_tx g) 1 (ps_tx (assert_commit_1_tx g)) 0 \<and>
      spends_output txid_of (assert_final_tx g) 2 (ps_tx (assert_commit_2_tx g)) 0 \<and>
      spends_output txid_of (take_2_tx g) 1 af 0 \<and>
      spends_output txid_of (take_2_tx g) 2 af 1 \<and>
      spends_output txid_of (take_2_tx g) 3 af 2 \<and>
      (\<exists>first1 first2. index_of (tx_input (ps_tx (take_1_tx g))) 0 = Some first1 \<and>
         index_of (tx_input (ps_tx (take_2_tx g))) 0 = Some first2 \<and>
         previous_output first1 = Outpoint (peg_in_confirm_txid g) 0 \<and>
         previous_output first2 = Outpoint (peg_in_confirm_txid g) 0))"

definition rebuilt_links :: "(btc_tx \<Rightarrow> tx_hash) \<Rightarrow> 'a peg_out_graph_scheme \<Rightarrow> bool" where
  "rebuilt_links txid_of g \<longleftrightarrow> sure_links txid_of g \<and>
     spends_output txid_of (challenge_transaction g) 0 (ps_tx (kick_off_1_tx g)) 0 \<and>
     spends_output txid_of (disprove_tx g) 0 (ps_tx (assert_final_tx g)) 1 \<and>
     spends_output txid_of (disprove_tx g) 1 (ps_tx (assert_final_tx g)) 2 \<and>
     spends_output txid_of (disprove_chain_tx g) 0 (ps_tx (kick_off_2_tx g)) 1"

text \<open>
  Which input of which transaction spends which output of which other, and that of a transaction alone: its input names the
  output.
\<close>

definition graph_spends :: "peg_out_connectors \<Rightarrow> (po_tx \<times> nat \<times> po_tx \<times> nat) list" where
  "graph_spends cs =
     [(Tx_Start_Time, 0, Tx_Kick_Off_1, 2), (Tx_Start_Time_Timeout, 0, Tx_Kick_Off_1, 2),
      (Tx_Start_Time_Timeout, 1, Tx_Kick_Off_1, 1), (Tx_Kick_Off_2, 0, Tx_Kick_Off_1, 1),
      (Tx_Kick_Off_Timeout, 0, Tx_Kick_Off_1, 1), (Tx_Challenge, 0, Tx_Kick_Off_1, 0), (Tx_Take_1, 1, Tx_Kick_Off_1, 0),
      (Tx_Take_1, 2, Tx_Kick_Off_2, 0), (Tx_Take_1, 3, Tx_Kick_Off_2, 1), (Tx_Assert_Initial, 0, Tx_Kick_Off_2, 1),
      (Tx_Assert_Final, 0, Tx_Assert_Initial, 0), (Tx_Assert_Final, 1, Tx_Assert_Commit_1, 0),
      (Tx_Assert_Final, 2, Tx_Assert_Commit_2, 0), (Tx_Take_2, 1, Tx_Assert_Final, 0), (Tx_Take_2, 2, Tx_Assert_Final, 1),
      (Tx_Take_2, 3, Tx_Assert_Final, 2), (Tx_Disprove, 0, Tx_Assert_Final, 1), (Tx_Disprove, 1, Tx_Assert_Final, 2),
      (Tx_Disprove_Chain, 0, Tx_Kick_Off_2, 1)] @
     map (\<lambda>j. (Tx_Assert_Commit_1, j, Tx_Assert_Initial, j + 1)) [0..<length (pc_e_1 cs)] @
     map (\<lambda>j. (Tx_Assert_Commit_2, j, Tx_Assert_Initial, j + (1 + length (pc_e_1 cs)))) [0..<length (pc_e_2 cs)]"

definition spends_outpoint :: "(btc_tx \<Rightarrow> tx_hash) \<Rightarrow> btc_tx \<Rightarrow> nat \<Rightarrow> btc_tx \<Rightarrow> nat \<Rightarrow> bool" where
  "spends_outpoint txid_of tx i parent v \<longleftrightarrow>
     i < length (tx_input tx) \<and> v < length (tx_output parent) \<and>
     previous_output (tx_input tx ! i) = Outpoint (txid_of parent) v"

lemma spends_output_outpoint: "spends_output txid_of t i parent v \<Longrightarrow> spends_outpoint txid_of (ps_tx t) i parent v"
  by (simp add: spends_output_def spends_outpoint_def)

text \<open>The connectors of the copy from which the challenge and the disproofs are built again.\<close>

definition own_connectors :: "peg_out_state \<Rightarrow> peg_out_connectors \<Rightarrow> bool" where
  "own_connectors s cs \<longleftrightarrow>
     pc_a (po_connectors s) = pc_a cs \<and> pc_b (po_connectors s) = pc_b cs \<and>
     pc_5 (po_connectors s) = pc_5 cs \<and> pc_c (po_connectors s) = pc_c cs"

lemma new_challenge_cong: "pc_a cs = pc_a cs' \<Longrightarrow> new_challenge pol txid_of ctx cs k1 = new_challenge pol txid_of ctx cs' k1"
  by (simp add: new_challenge_def)

lemma new_disprove_cong:
  "\<lbrakk>pc_b cs = pc_b cs'; pc_5 cs = pc_5 cs'; pc_c cs = pc_c cs'\<rbrakk> \<Longrightarrow>
     new_disprove pol txid_of api ctx cs af k2 = new_disprove pol txid_of api ctx cs' af k2"
  by (simp add: new_disprove_def)

lemma new_for_validation_cases:
  assumes "new_for_validation pol txid_of api s = Some g"
  defines "ctx \<equiv> validation_context s"
  obtains cs d1 d2 where
    "rebuild_connectors s = Some cs" "po_connectors g = cs"
    "rebuild_kick_off_1 pol ctx cs s = Some (peg_out_confirm_tx g, kick_off_1_tx g)"
    "new_start_time pol txid_of ctx cs (kick_off_1_tx g) = Some (start_time_tx g, start_time_timeout_tx g)"
    "new_kick_off_2 pol txid_of ctx cs (kick_off_1_tx g) = Some (kick_off_2_tx g, kick_off_timeout_tx g)"
    "new_challenge pol txid_of ctx (po_connectors s) (kick_off_1_tx g) = Some (challenge_transaction g)"
    "self_deposit (peg_in_confirm_txid g) (take_1_tx s) = Some d1"
    "rebuild_take_1 pol txid_of ctx cs d1 (kick_off_1_tx g) (kick_off_2_tx g) = Some (take_1_tx g)"
    "rebuild_assert pol txid_of cs (kick_off_2_tx g) = Some (assert_initial_tx g, assert_commit_1_tx g, assert_commit_2_tx g)"
    "new_assert_final pol txid_of api cs (assert_initial_tx g) (assert_commit_1_tx g) (assert_commit_2_tx g) =
       Some (assert_final_tx g)"
    "self_deposit (peg_in_confirm_txid g) (take_2_tx s) = Some d2"
    "rebuild_take_2 pol txid_of api ctx cs d2 (assert_final_tx g) = Some (take_2_tx g)"
    "new_disprove pol txid_of api ctx (po_connectors s) (assert_final_tx g) (kick_off_2_tx g) =
       Some (disprove_tx g, disprove_chain_tx g)"
  using assms by (auto simp: new_for_validation_def Let_def bind_eq_Some_conv)

lemma rebuild_connectors_shape:
  "rebuild_connectors s = Some cs \<Longrightarrow>
     pc_a cs = connector_a_new (oc_network (validation_context s)) (oc_operator_taproot_key (validation_context s))
       (oc_n_of_n_taproot_key (validation_context s)) \<and>
     pc_3 cs = connector_3_new (oc_network (validation_context s)) (oc_operator_key (validation_context s))"
  by (auto simp: rebuild_connectors_def Let_def create_new_connectors_def bind_eq_Some_conv validation_context_def)

lemma rebuild_take_1_links:
  assumes "rebuild_take_1 pol txid_of ctx cs d1 k1 k2 = Some t1"
    and "pays (ps_tx k1) = addr_script_pubkey (connector_a_address (pc_a cs)) # r"
    and "pays (ps_tx k2) = [addr_script_pubkey (connector_3_address (pc_3 cs)), spk (connector_b_address (pc_b cs))]"
  shows "spends_output txid_of t1 1 (ps_tx k1) 0 \<and> spends_output txid_of t1 2 (ps_tx k2) 0 \<and>
    spends_output txid_of t1 3 (ps_tx k2) 1 \<and> (\<exists>rest. sound_tx t1 (d1 # rest) (min_relay_fee_take_1 pol))"
proof -
  obtain i1 i2 i3 where i: "generate_input txid_of (ps_tx k1) 0 = Some i1" "generate_input txid_of (ps_tx k2) 0 = Some i2"
      "generate_input txid_of (ps_tx k2) 1 = Some i3"
    and t: "take_1_new_for_validation pol (oc_network ctx) (oc_operator_key ctx) (pc_0 cs) (pc_3 cs) (pc_a cs)
         (pc_b cs) d1 i1 i2 i3 = Some t1"
    using assms(1) by (auto simp: rebuild_take_1_def bind_eq_Some_conv)
  note shape = take_1_shape [OF t] and sound = take_1_sound [OF t]
  have "spends_output txid_of t1 1 (ps_tx k1) 0"
    by (rule plain_spends(2) [OF sound refl _ i(1)]) (simp_all add: shape assms)
  moreover have "spends_output txid_of t1 2 (ps_tx k2) 0"
    by (rule plain_spends(3) [OF sound refl _ i(2)]) (simp_all add: shape assms)
  moreover have "spends_output txid_of t1 3 (ps_tx k2) 1"
    by (rule plain_spends(4) [OF sound refl _ i(3)]) (simp_all add: shape assms)
  ultimately show ?thesis using sound by blast
qed

lemma rebuild_take_2_links:
  assumes "rebuild_take_2 pol txid_of api ctx cs d2 af = Some t2"
    and "pays (ps_tx af) = [addr_script_pubkey (connector_4_address (pc_4 cs)),
      addr_script_pubkey (connector_5_address (pc_5 cs)), spk (connector_c_address api (pc_c cs))]"
  shows "spends_output txid_of t2 1 (ps_tx af) 0 \<and> spends_output txid_of t2 2 (ps_tx af) 1 \<and>
    spends_output txid_of t2 3 (ps_tx af) 2 \<and> (\<exists>rest. sound_tx t2 (d2 # rest) (min_relay_fee_take_2 pol))"
proof -
  obtain i1 i2 i3 where i: "generate_input txid_of (ps_tx af) 0 = Some i1" "generate_input txid_of (ps_tx af) 1 = Some i2"
      "generate_input txid_of (ps_tx af) 2 = Some i3"
    and t: "take_2_new_for_validation pol api (oc_network ctx) (oc_operator_key ctx) (pc_0 cs) (pc_4 cs) (pc_5 cs)
         (pc_c cs) d2 i1 i2 i3 = Some t2"
    using assms(1) by (auto simp: rebuild_take_2_def bind_eq_Some_conv)
  note shape = take_2_shape [OF t] and sound = take_2_sound [OF t]
  have "spends_output txid_of t2 1 (ps_tx af) 0"
    by (rule plain_spends(2) [OF sound refl _ i(1)]) (simp_all add: shape assms)
  moreover have "spends_output txid_of t2 2 (ps_tx af) 1"
    by (rule plain_spends(3) [OF sound refl _ i(2)]) (simp_all add: shape assms)
  moreover have "spends_output txid_of t2 3 (ps_tx af) 2"
    by (rule plain_spends(4) [OF sound refl _ i(3)]) (simp_all add: shape assms)
  ultimately show ?thesis using sound by blast
qed

lemma sound_tx_first:
  assumes "sound_tx t (inp # rest) fee"
  shows "\<exists>first. index_of (tx_input (ps_tx t)) 0 = Some first \<and> previous_output first = in_outpoint inp"
  using assms by (cases "tx_input (ps_tx t)") (auto simp: sound_tx_def index_of_def)

lemma self_deposit_outpoint: "self_deposit txid t = Some d \<Longrightarrow> in_outpoint d = Outpoint txid 0"
  by (auto simp: self_deposit_def bind_eq_Some_conv)

lemma new_challenge_outpoint:
  assumes "new_challenge pol txid_of ctx cs k1 = Some ch"
  shows "spends_outpoint txid_of (ps_tx ch) 0 (ps_tx k1) 0"
proof -
  obtain i0 where i0: "generate_input txid_of (ps_tx k1) 0 = Some i0"
    and ch: "challenge_new_for_validation pol (oc_network ctx) (oc_operator_key ctx) (pc_a cs) i0 crowdfunding_amount = Some ch"
    using assms by (auto simp: new_challenge_def bind_eq_Some_conv)
  show ?thesis using generate_inputD [OF i0] challenge_inputs [OF ch] by (auto simp: spends_outpoint_def map_eq_Cons_conv)
qed

lemma new_disprove_outpoints:
  assumes "new_disprove pol txid_of api ctx cs af k2 = Some (dp, dc)"
  shows "spends_outpoint txid_of (ps_tx dp) 0 (ps_tx af) 1" "spends_outpoint txid_of (ps_tx dp) 1 (ps_tx af) 2"
    "spends_outpoint txid_of (ps_tx dc) 0 (ps_tx k2) 1"
proof -
  obtain i0 i1 j0 where i: "generate_input txid_of (ps_tx af) 1 = Some i0"
      "generate_input txid_of (ps_tx af) 2 = Some i1" "generate_input txid_of (ps_tx k2) 1 = Some j0"
    and dp: "disprove_new_for_validation pol api (oc_network ctx) (pc_5 cs) (pc_c cs) i0 i1 = Some dp"
    and dc: "disprove_chain_new_for_validation pol (oc_network ctx) (pc_b cs) j0 = Some dc"
    using assms by (auto simp: new_disprove_def bind_eq_Some_conv)
  note ins = disprove_sound [OF dp] disprove_chain_sound [OF dc] i [THEN generate_inputD]
  show "spends_outpoint txid_of (ps_tx dp) 0 (ps_tx af) 1" "spends_outpoint txid_of (ps_tx dp) 1 (ps_tx af) 2"
    "spends_outpoint txid_of (ps_tx dc) 0 (ps_tx k2) 1"
    using ins by (auto simp: spends_outpoint_def sound_tx_def map_eq_Cons_conv pre_signed.truncate_def)
qed

lemma rebuilt_is_linked:
  assumes v: "new_for_validation pol txid_of api s = Some g" and rate: "0 < min_relay_fee_rate pol"
  shows "sure_links txid_of g" "own_connectors s (po_connectors g) \<Longrightarrow> rebuilt_links txid_of g"
    "\<forall>(x, i, p, v) \<in> set (graph_spends (po_connectors g)). spends_outpoint txid_of (tx_of g x) i (tx_of g p) v"
proof -
  obtain d1 d2 where cs: "rebuild_connectors s = Some (po_connectors g)"
    and k: "rebuild_kick_off_1 pol (validation_context s) (po_connectors g) s = Some (peg_out_confirm_tx g, kick_off_1_tx g)"
    and parts: "new_start_time pol txid_of (validation_context s) (po_connectors g) (kick_off_1_tx g) =
        Some (start_time_tx g, start_time_timeout_tx g)"
      "new_kick_off_2 pol txid_of (validation_context s) (po_connectors g) (kick_off_1_tx g) =
        Some (kick_off_2_tx g, kick_off_timeout_tx g)"
      "new_challenge pol txid_of (validation_context s) (po_connectors s) (kick_off_1_tx g) = Some (challenge_transaction g)"
      "rebuild_take_1 pol txid_of (validation_context s) (po_connectors g) d1 (kick_off_1_tx g) (kick_off_2_tx g) =
        Some (take_1_tx g)"
      "rebuild_assert pol txid_of (po_connectors g) (kick_off_2_tx g) =
        Some (assert_initial_tx g, assert_commit_1_tx g, assert_commit_2_tx g)"
      "new_assert_final pol txid_of api (po_connectors g) (assert_initial_tx g) (assert_commit_1_tx g)
        (assert_commit_2_tx g) = Some (assert_final_tx g)"
      "rebuild_take_2 pol txid_of api (validation_context s) (po_connectors g) d2 (assert_final_tx g) = Some (take_2_tx g)"
      "new_disprove pol txid_of api (validation_context s) (po_connectors s) (assert_final_tx g) (kick_off_2_tx g) =
        Some (disprove_tx g, disprove_chain_tx g)"
    and d: "self_deposit (peg_in_confirm_txid g) (take_1_tx s) = Some d1"
      "self_deposit (peg_in_confirm_txid g) (take_2_tx s) = Some d2"
    by (rule new_for_validation_cases [OF v]) blast
  let ?cs = "po_connectors g" and ?ctx = "validation_context s"
  have a: "pc_a ?cs = connector_a_new (oc_network ?ctx) (oc_operator_taproot_key ?ctx) (oc_n_of_n_taproot_key ?ctx)"
    and c3: "pc_3 ?cs = connector_3_new (oc_network ?ctx) (oc_operator_key ?ctx)"
    using rebuild_connectors_shape [OF cs] by simp_all
  have k1: "pays (ps_tx (kick_off_1_tx g)) = [addr_script_pubkey (connector_a_address (pc_a ?cs)),
      spk (connector_1_address (pc_1 ?cs)), spk (connector_2_address (pc_2 ?cs))]"
    using k by (auto simp: rebuild_kick_off_1_def bind_eq_Some_conv a dest!: kick_off_1_shape)
  note st = new_start_time_links [OF parts(1) k1]
  note k2 = new_kick_off_2_links [OF parts(2) k1 c3]
  note t1 = rebuild_take_1_links [OF parts(4) k1 conjunct1 [OF conjunct2 [OF conjunct2 [OF k2]]]]
  note assert_new = parts(5) [folded new_assert_counted [where ctx = ?ctx]]
  note ai = new_assert_links [OF assert_new conjunct1 [OF conjunct2 [OF conjunct2 [OF k2]]]
      conjunct1 [OF new_assert_connectors [OF assert_new rate]] conjunct2 [OF new_assert_connectors [OF assert_new rate]]]
  have af: "spends_output txid_of (assert_final_tx g) 0 (ps_tx (assert_initial_tx g)) 0 \<and>
      spends_output txid_of (assert_final_tx g) 1 (ps_tx (assert_commit_1_tx g)) 0 \<and>
      spends_output txid_of (assert_final_tx g) 2 (ps_tx (assert_commit_2_tx g)) 0"
    and paf: "pays (ps_tx (assert_final_tx g)) = [addr_script_pubkey (connector_4_address (pc_4 ?cs)),
      addr_script_pubkey (connector_5_address (pc_5 ?cs)), spk (connector_c_address api (pc_c ?cs))]"
    using new_assert_final_links [OF parts(6)] ai by blast+
  note t2 = rebuild_take_2_links [OF parts(7) paf]
  have "\<exists>first1 first2. index_of (tx_input (ps_tx (take_1_tx g))) 0 = Some first1 \<and>
      index_of (tx_input (ps_tx (take_2_tx g))) 0 = Some first2 \<and>
      previous_output first1 = Outpoint (peg_in_confirm_txid g) 0 \<and>
      previous_output first2 = Outpoint (peg_in_confirm_txid g) 0"
    using t1 t2 d [THEN self_deposit_outpoint] by (metis sound_tx_first)
  then show sure: "sure_links txid_of g" unfolding sure_links_def Let_def using st k2 t1 ai af t2 by blast
  show "rebuilt_links txid_of g" if own: "own_connectors s ?cs"
  proof -
    have ch: "new_challenge pol txid_of ?ctx ?cs (kick_off_1_tx g) = Some (challenge_transaction g)"
      and dp: "new_disprove pol txid_of api ?ctx ?cs (assert_final_tx g) (kick_off_2_tx g) =
        Some (disprove_tx g, disprove_chain_tx g)"
      using parts(3,8) own new_challenge_cong [of "po_connectors s" ?cs] new_disprove_cong [of "po_connectors s" ?cs]
      by (simp_all add: own_connectors_def)
    show ?thesis
      using sure new_challenge_links [OF ch k1] new_disprove_links [OF dp paf conjunct1 [OF conjunct2 [OF conjunct2 [OF k2]]]]
      by (simp add: rebuilt_links_def)
  qed
  have commits: "\<forall>j < length (pc_e_1 ?cs). spends_outpoint txid_of (ps_tx (assert_commit_1_tx g)) j (ps_tx (assert_initial_tx g)) (j + 1)"
    "\<forall>j < length (pc_e_2 ?cs). spends_outpoint txid_of (ps_tx (assert_commit_2_tx g)) j (ps_tx (assert_initial_tx g))
       (j + (1 + length (pc_e_1 ?cs)))"
    using ai spends_output_outpoint by blast+
  show "\<forall>(x, i, p, v) \<in> set (graph_spends ?cs). spends_outpoint txid_of (tx_of g x) i (tx_of g p) v"
    using sure new_challenge_outpoint [OF parts(3)] new_disprove_outpoints [OF parts(8)] commits
    by (auto simp: graph_spends_def sure_links_def Let_def intro: spends_output_outpoint)
qed

lemma sample_rebuilt_connectors:
  assumes "sample_new pin = Some s" "new_for_validation core_policy binding_txid sample_chunk_api s = Some g"
  shows "po_connectors g = po_connectors s"
proof -
  obtain g0 where g0: "sample_graph pin = Some g0" "signed_copy g0 s" by (rule peg_out_state_new_graph [OF assms(1)])
  have "rebuild_connectors s = Some (po_connectors s)"
    using peg_out_graph_new_cases(1) [OF g0(1)] new_settings [OF assms(1) g0(1)] g0(2)
    by (intro rebuild_connectors_same) (simp_all add: signed_copy_def settings_def settings_of_def)
  then show ?thesis by (rule_tac new_for_validation_cases [OF assms(2)]) simp
qed

text \<open>A transaction that begins with the inputs and outputs of another, whatever the witnesses.\<close>

definition begins_as :: "btc_tx \<Rightarrow> btc_tx \<Rightarrow> bool" where
  "begins_as t u \<longleftrightarrow>
     (\<exists>extra. unsigned_ins t = unsigned_ins u @ extra) \<and> (\<exists>extra. tx_output t = tx_output u @ extra)"

lemma begins_as_spends:
  assumes "begins_as t u" "spends_outpoint txid_of u i parent v"
  shows "spends_outpoint txid_of t i parent v"
proof -
  obtain extra where e: "unsigned_ins t = unsigned_ins u @ extra" using assms(1) by (auto simp: begins_as_def)
  have i: "i < length (tx_input u)" using assms(2) by (simp add: spends_outpoint_def)
  have len: "length (tx_input t) = length (tx_input u) + length extra" using arg_cong [OF e, of length] by simp
  have "unsigned_ins t ! i = unsigned_ins u ! i" using i by (simp add: e nth_append)
  then have "previous_output (tx_input t ! i) = previous_output (tx_input u ! i)"
    using i len by (simp add: unsigned_in_def) (metis tx_in.select_convs(1) tx_in.surjective tx_in.update_convs(4))
  then show ?thesis using assms(2) len by (simp add: spends_outpoint_def)
qed

text \<open>
  C8. Whoever sent it, a copy that passes validation begins, transaction by transaction, like the graph that the receiver
  builds again from it; each of its inputs below kick-off 1 names the output of its parent in that graph, and both takes
  name the same deposit. The inputs of the rebuilt graph are made for the amount and script of those outputs, except
  perhaps the inputs of the challenge and of both disproofs, of which this holds when the copy's connectors A, B, C and 5
  are those that the receiver builds.
\<close>

theorem accepted_copy_is_linked:
  assumes "peg_out_validate pol txid_of api verify_public_nonce entries cl s = Some (Inr ())"
    and "0 < min_relay_fee_rate pol"
  shows "\<exists>g. new_for_validation pol txid_of api s = Some g \<and> (\<forall>x. begins_as (tx_of s x) (tx_of g x)) \<and>
    (\<forall>(x, i, p, v) \<in> set (graph_spends (po_connectors g)). spends_outpoint txid_of (tx_of s x) i (tx_of g p) v) \<and>
    sure_links txid_of g \<and> (own_connectors s (po_connectors g) \<longrightarrow> rebuilt_links txid_of g)"
proof -
  obtain g where g: "new_for_validation pol txid_of api s = Some g" and b: "\<forall>x. begins_as (tx_of s x) (tx_of g x)"
    using assms(1) by (auto simp: peg_out_validate_ok validate_txs_ok begins_as_def)
  show ?thesis
    using g b rebuilt_is_linked [OF g assms(2)] begins_as_spends by (intro exI [of _ g] conjI) blast+
qed

theorem accepted_copy_is_linked_witness:
  "\<exists>pin s g. sample_new pin = Some s \<and> new_for_validation core_policy binding_txid sample_chunk_api s = Some g \<and>
     rebuilt_links binding_txid g \<and>
     spends_outpoint binding_txid (tx_of s Tx_Disprove) 1 (tx_of g Tx_Assert_Final) 2"
proof -
  obtain pin s where s: "sample_new pin = Some s" by (rule sample_states)
  note v = sample_new_validates [OF s]
  obtain g where g: "new_for_validation core_policy binding_txid sample_chunk_api s = Some g"
    and spends: "\<forall>(x, i, p, v) \<in> set (graph_spends (po_connectors g)).
      spends_outpoint binding_txid (tx_of s x) i (tx_of g p) v"
    and l: "own_connectors s (po_connectors g) \<longrightarrow> rebuilt_links binding_txid g"
    using accepted_copy_is_linked [OF v] by auto
  have "po_connectors g = po_connectors s" using sample_rebuilt_connectors [OF s g] .
  then have "own_connectors s (po_connectors g)" by (simp add: own_connectors_def)
  moreover have "(Tx_Disprove, 1, Tx_Assert_Final, 2) \<in> set (graph_spends (po_connectors g))" by (simp add: graph_spends_def)
  ultimately show ?thesis using s g l spends by blast
qed

text \<open>
  The previous outputs and scripts that the verifiers sign for are not looked at: a copy whose timeouts and
  disproofs carry any others passes or fails exactly as the copy itself. The
  sender can so have the verifiers sign slashing transactions for amounts and scripts that the outputs they spend
  do not have.
\<close>

theorem prev_outs_not_validated:
  "peg_out_validate pol txid_of api verify_public_nonce entries cl
     (s\<lparr>start_time_timeout_tx := (start_time_timeout_tx s)\<lparr>ps_prev_outs := o1, ps_prev_scripts := s1\<rparr>,
        kick_off_timeout_tx := (kick_off_timeout_tx s)\<lparr>ps_prev_outs := o2, ps_prev_scripts := s2\<rparr>,
        disprove_tx := (disprove_tx s)\<lparr>ps_prev_outs := o3, ps_prev_scripts := s3\<rparr>,
        disprove_chain_tx := (disprove_chain_tx s)\<lparr>ps_prev_outs := o4, ps_prev_scripts := s4\<rparr>\<rparr>) =
   peg_out_validate pol txid_of api verify_public_nonce entries cl s"
  (is "peg_out_validate _ _ _ _ _ _ ?s = _")
proof -
  have tx: "tx_of ?s x = tx_of s x" for x by (cases x) simp_all
  have p: "ps_tx (get_presigned ?s p) = ps_tx (get_presigned s p)" for p
    by (cases p) (simp_all add: pre_signed.truncate_def)
  have n: "new_for_validation pol txid_of api ?s = new_for_validation pol txid_of api s"
    by (simp add: new_for_validation_def validation_context_def rebuild_connectors_def rebuild_kick_off_1_def)
  show ?thesis
    by (simp add: peg_out_validate_def n validate_txs_def validate_commits_def verify_presigned_nonces_def tx p
        del: tx_of.simps get_presigned.simps first_error.simps)
qed

end
