(* ===== verification/Peg_In_Flow.thy ===== *)
theory Peg_In_Flow
  imports Peg_Out_Validation "HOL-Library.Char_ord" "HOL-Library.List_Lexorder"
begin

text \<open>
  The peg-in graph as a participant keeps it (\<open>graphs/peg_in.rs\<close>): its construction and signatures,
  the rounds of the verifiers over the confirmation, what each role is told to do, the operations
  that return a transaction for broadcast, validation and merging.
\<close>

section \<open>State\<close>

record peg_in_state = peg_in_graph +
  pi_network :: btc_network
  pi_id :: string
  pi_n_of_n_key :: public_key
  pi_n_of_n_keys :: "public_key list"
  pi_n_of_n_taproot_key :: xonly_key
  pi_depositor_key :: public_key
  pi_depositor_taproot_key :: xonly_key
  pi_evm_address :: string
  pi_musig :: "nat list musig2_state"
  pi_peg_out_graphs :: "string list"

text \<open>The public data that a graph is built from.\<close>

record peg_in_settings =
  st_network :: btc_network
  st_depositor_key :: public_key
  st_depositor_taproot_key :: xonly_key
  st_n_of_n_key :: public_key
  st_n_of_n_keys :: "public_key list"
  st_n_of_n_taproot_key :: xonly_key
  st_evm_address :: string

definition depositor_context_of :: "peg_in_settings \<Rightarrow> depositor_context" where
  "depositor_context_of st =
     \<lparr>dc_network = st_network st, dc_depositor_key = st_depositor_key st,
      dc_depositor_taproot_key = st_depositor_taproot_key st, dc_n_of_n_taproot_key = st_n_of_n_taproot_key st\<rparr>"

definition generate_peg_in_id :: "(btc_tx \<Rightarrow> tx_hash) \<Rightarrow> (tx_hash \<Rightarrow> string) \<Rightarrow> pre_signed \<Rightarrow> string" where
  "generate_peg_in_id txid_of hash_id deposit = hash_id (txid_of (ps_tx deposit))"

definition peg_in_state_of ::
  "(btc_tx \<Rightarrow> tx_hash) \<Rightarrow> (tx_hash \<Rightarrow> string) \<Rightarrow> peg_in_settings \<Rightarrow> peg_in_graph \<Rightarrow> peg_in_state" where
  "peg_in_state_of txid_of hash_id st g =
     peg_in_graph.extend g
       \<lparr>pi_network = st_network st, pi_id = generate_peg_in_id txid_of hash_id (peg_in_deposit_tx g),
        pi_n_of_n_key = st_n_of_n_key st, pi_n_of_n_keys = st_n_of_n_keys st,
        pi_n_of_n_taproot_key = st_n_of_n_taproot_key st, pi_depositor_key = st_depositor_key st,
        pi_depositor_taproot_key = st_depositor_taproot_key st, pi_evm_address = st_evm_address st,
        pi_musig = empty_musig, pi_peg_out_graphs = []\<rparr>"

definition create_graph_without_signing ::
  "fee_policy \<Rightarrow> (btc_tx \<Rightarrow> tx_hash) \<Rightarrow> (tx_hash \<Rightarrow> string) \<Rightarrow> peg_in_settings \<Rightarrow> tx_input_ref \<Rightarrow> peg_in_state option" where
  "create_graph_without_signing pol txid_of hash_id st deposit_input =
     do {
       g \<leftarrow> peg_in_graph_new pol txid_of (depositor_context_of st) deposit_input (st_evm_address st);
       Some (peg_in_state_of txid_of hash_id st g)
     }"

section \<open>The signatures of the depositor\<close>

definition peg_in_deposit_signed :: "('k, 's) crypto \<Rightarrow> 'k \<Rightarrow> pre_signed \<Rightarrow> pre_signed option" where
  "peg_in_deposit_signed cr keypair t = pre_sign_p2wsh_input cr t 0 Sig_All [keypair]"

definition peg_in_refund_signed :: "('k, 's) crypto \<Rightarrow> 'k \<Rightarrow> connector_z \<Rightarrow> pre_signed \<Rightarrow> pre_signed option" where
  "peg_in_refund_signed cr keypair cz t =
     pre_sign_taproot_input_default cr t 0 Sig_All (connector_z_spend_info cz) [keypair]"

definition push_depositor_signature_input :: "nat \<Rightarrow> nat list \<Rightarrow> pre_signed \<Rightarrow> pre_signed option" where
  "push_depositor_signature_input i signature t =
     do {
       tx \<leftarrow> push_taproot_leaf_unlock_data_to_witness (ps_tx t) i [signature];
       Some (t\<lparr>ps_tx := tx\<rparr>)
     }"

definition peg_in_confirm_signed :: "('k, 's) crypto \<Rightarrow> 'k \<Rightarrow> pre_signed \<Rightarrow> pre_signed option" where
  "peg_in_confirm_signed cr keypair t =
     do {
       script \<leftarrow> index_of (ps_prev_scripts t) 0;
       signature \<leftarrow> generate_taproot_leaf_schnorr_signature cr (ps_tx t) (ps_prev_outs t) 0 Sig_All script keypair;
       push_depositor_signature_input 0 signature t
     }"

definition sign_peg_in :: "('k, 's) crypto \<Rightarrow> 'k \<Rightarrow> peg_in_graph \<Rightarrow> peg_in_graph option" where
  "sign_peg_in cr keypair g =
     do {
       deposit \<leftarrow> peg_in_deposit_signed cr keypair (peg_in_deposit_tx g);
       refund \<leftarrow> peg_in_refund_signed cr keypair (pi_connector_z g) (peg_in_refund_tx g);
       confirm \<leftarrow> peg_in_confirm_signed cr keypair (peg_in_confirm_tx g);
       Some (g\<lparr>peg_in_deposit_tx := deposit, peg_in_refund_tx := refund, peg_in_confirm_tx := confirm\<rparr>)
     }"

definition peg_in_state_new ::
  "fee_policy \<Rightarrow> (btc_tx \<Rightarrow> tx_hash) \<Rightarrow> (tx_hash \<Rightarrow> string) \<Rightarrow> ('k, 's) crypto \<Rightarrow> 'k \<Rightarrow> peg_in_settings \<Rightarrow>
     tx_input_ref \<Rightarrow> peg_in_state option" where
  "peg_in_state_new pol txid_of hash_id cr keypair st deposit_input =
     do {
       g \<leftarrow> peg_in_graph_new pol txid_of (depositor_context_of st) deposit_input (st_evm_address st);
       g' \<leftarrow> sign_peg_in cr keypair g;
       Some (peg_in_state_of txid_of hash_id st g')
     }"

text \<open>The signatures may also come from elsewhere, made over a graph for query.\<close>

record depositor_signatures =
  sig_deposit :: "nat list"
  sig_refund :: "nat list"
  sig_confirm :: "nat list"

definition populate_p2wsh_witness_with_signatures ::
  "('k, 's) crypto \<Rightarrow> btc_tx \<Rightarrow> nat \<Rightarrow> bridge_script \<Rightarrow> nat list list \<Rightarrow> btc_tx option" where
  "populate_p2wsh_witness_with_signatures cr tx i script signatures =
     do {
       tx' \<leftarrow> fold_option (push_witness i) tx signatures;
       push_witness i tx' (script_bytes cr script)
     }"

definition new_with_depositor_signatures ::
  "fee_policy \<Rightarrow> (btc_tx \<Rightarrow> tx_hash) \<Rightarrow> (tx_hash \<Rightarrow> string) \<Rightarrow> ('k, 's) crypto \<Rightarrow> peg_in_settings \<Rightarrow> tx_input_ref \<Rightarrow>
     depositor_signatures \<Rightarrow> peg_in_state option" where
  "new_with_depositor_signatures pol txid_of hash_id cr st deposit_input signatures =
     do {
       g \<leftarrow> peg_in_graph_new pol txid_of (depositor_context_of st) deposit_input (st_evm_address st);
       s0 \<leftarrow> index_of (ps_prev_scripts (peg_in_deposit_tx g)) 0;
       deposit \<leftarrow> populate_p2wsh_witness_with_signatures cr (ps_tx (peg_in_deposit_tx g)) 0 s0 [sig_deposit signatures];
       s1 \<leftarrow> index_of (ps_prev_scripts (peg_in_refund_tx g)) 0;
       refund \<leftarrow> populate_taproot_input_witness_with_signature cr (ps_tx (peg_in_refund_tx g)) 0
         (connector_z_spend_info (pi_connector_z g)) s1 [sig_refund signatures];
       confirm \<leftarrow> push_depositor_signature_input 0 (sig_confirm signatures) (peg_in_confirm_tx g);
       Some (peg_in_state_of txid_of hash_id st
         (g\<lparr>peg_in_deposit_tx := (peg_in_deposit_tx g)\<lparr>ps_tx := deposit\<rparr>,
            peg_in_refund_tx := (peg_in_refund_tx g)\<lparr>ps_tx := refund\<rparr>, peg_in_confirm_tx := confirm\<rparr>))
     }"

section \<open>The rounds of the verifiers\<close>

definition peg_in_confirm_pre_sign ::
  "('k, 's) crypto \<Rightarrow> 'k verifier_context \<Rightarrow> connector_z \<Rightarrow> secret_nonces \<Rightarrow> signed \<Rightarrow> signed option" where
  "peg_in_confirm_pre_sign cr ctx cz ns tm =
     musig2_sign_input cr ctx 0 Sig_All (Some (connector_z_spend_info cz)) ns tm"

definition peg_in_verifier_sign ::
  "(btc_tx \<Rightarrow> tx_hash) \<Rightarrow> ('k, 's) crypto \<Rightarrow> 'k verifier_context \<Rightarrow> (tx_hash \<Rightarrow> secret_nonces option) \<Rightarrow>
     peg_in_state \<Rightarrow> peg_in_state option" where
  "peg_in_verifier_sign txid_of cr ctx secret_nonces s =
     do {
       ns \<leftarrow> secret_nonces (txid_of (ps_tx (peg_in_confirm_tx s)));
       (t, ms) \<leftarrow> peg_in_confirm_pre_sign cr ctx (pi_connector_z s) ns (peg_in_confirm_tx s, pi_musig s);
       Some (s\<lparr>peg_in_confirm_tx := t, pi_musig := ms\<rparr>)
     }"

definition peg_in_push_verifier_nonces ::
  "(btc_tx \<Rightarrow> tx_hash) \<Rightarrow> ('k, 's) crypto \<Rightarrow> 'k verifier_context \<Rightarrow> (nat \<Rightarrow> nat list) \<Rightarrow> peg_in_state \<Rightarrow>
     peg_in_state \<times> (tx_hash \<times> (nat \<times> nat list) list) list" where
  "peg_in_push_verifier_nonces txid_of cr ctx fresh s =
     (let (ms, secrets) = push_nonces cr ctx [0] fresh (pi_musig s) in
      (s\<lparr>pi_musig := ms\<rparr>, [(txid_of (ps_tx (peg_in_confirm_tx s)), secrets)]))"

definition confirm_has_nonce_of :: "peg_in_state \<Rightarrow> 'k verifier_context \<Rightarrow> bool" where
  "confirm_has_nonce_of s ctx = contains_at (musig2_nonces (pi_musig s)) 0 (vc_public_key ctx)"

definition confirm_has_all_nonces :: "peg_in_state \<Rightarrow> bool" where
  "confirm_has_all_nonces s = list_all (contains_at (musig2_nonces (pi_musig s)) 0) (pi_n_of_n_keys s)"

definition confirm_has_signature_of :: "peg_in_state \<Rightarrow> 'k verifier_context \<Rightarrow> bool" where
  "confirm_has_signature_of s ctx = contains_at (musig2_signatures (pi_musig s)) 0 (vc_public_key ctx)"

definition confirm_has_all_signatures :: "peg_in_state \<Rightarrow> bool" where
  "confirm_has_all_signatures s = list_all (contains_at (musig2_signatures (pi_musig s)) 0) (pi_n_of_n_keys s)"

section \<open>Statuses\<close>

datatype peg_in_depositor_status =
    Peg_In_Deposit_Wait | Peg_In_Confirm_Wait | Peg_In_Confirm_Complete | Peg_In_Refund_Available
  | Peg_In_Refund_Complete

datatype peg_in_verifier_status =
    Awaiting_Deposit | Awaiting_Peg_Out_Creation | Pending_Our_Nonces "string list" | Awaiting_Nonces
  | Pending_Our_Signature "string list" | Awaiting_Signatures | Ready_To_Submit | Peg_In_Verifier_Complete

datatype peg_in_operator_status = Peg_In_Wait | Peg_In_Confirm_Available | Peg_In_Complete

definition get_peg_in_statuses ::
  "(btc_tx \<Rightarrow> tx_hash) \<Rightarrow> esplora \<Rightarrow> 'a peg_in_graph_scheme \<Rightarrow>
     (string + tx_status) \<times> (string + tx_status) \<times> (string + tx_status)" where
  "get_peg_in_statuses txid_of cl s =
     (get_tx_status cl (txid_of (ps_tx (peg_in_deposit_tx s))),
      get_tx_status cl (txid_of (ps_tx (peg_in_confirm_tx s))),
      get_tx_status cl (txid_of (ps_tx (peg_in_refund_tx s))))"

text \<open>The ids of the peg-outs are compared as sorted lists; a difference panics.\<close>

definition num_required_operators :: nat where
  "num_required_operators = 1"

definition status_for_verifier ::
  "(btc_tx \<Rightarrow> tx_hash) \<Rightarrow> esplora \<Rightarrow> 'k verifier_context \<Rightarrow> string list \<Rightarrow> peg_in_state \<Rightarrow> peg_in_verifier_status option" where
  "status_for_verifier txid_of cl ctx peg_outs s =
     (if sort peg_outs \<noteq> sort (pi_peg_out_graphs s) then None
      else Some (case get_peg_in_statuses txid_of cl s of (deposit, confirm, _) \<Rightarrow>
        if \<not> is_ok_and deposit confirmed then Awaiting_Deposit
        else if length peg_outs < num_required_operators then Awaiting_Peg_Out_Creation
        else if is_ok_and confirm confirmed then Peg_In_Verifier_Complete
        else if \<not> confirm_has_nonce_of s ctx then Pending_Our_Nonces [pi_id s]
        else if \<not> confirm_has_all_nonces s then Awaiting_Nonces
        else if \<not> has_signatures_for [0] (pi_musig s) (vc_public_key ctx) then Pending_Our_Signature [pi_id s]
        else if \<not> confirm_has_all_signatures s then Awaiting_Signatures
        else Ready_To_Submit))"

definition status_for_operator :: "(btc_tx \<Rightarrow> tx_hash) \<Rightarrow> esplora \<Rightarrow> peg_in_state \<Rightarrow> peg_in_operator_status" where
  "status_for_operator txid_of cl s =
     (case get_peg_in_statuses txid_of cl s of (deposit, confirm, _) \<Rightarrow>
        if is_ok_and deposit confirmed
        then if is_ok_and confirm confirmed then Peg_In_Complete
             else if confirm_has_all_signatures s then Peg_In_Confirm_Available
             else Peg_In_Wait
        else Peg_In_Wait)"

text \<open>The sum of two block numbers may leave \<open>u32\<close>, which panics.\<close>

definition interpret_depositor_status ::
  "'a peg_in_graph_scheme \<Rightarrow> string + tx_status \<Rightarrow> string + tx_status \<Rightarrow> string + tx_status \<Rightarrow> string + nat \<Rightarrow>
     peg_in_depositor_status option" where
  "interpret_depositor_status s deposit confirm refund blockchain_height =
     (case deposit of
        Inl _ \<Rightarrow> Some Peg_In_Deposit_Wait
      | Inr st \<Rightarrow>
          if \<not> confirmed st then Some Peg_In_Deposit_Wait
          else if is_ok_and confirm confirmed then Some Peg_In_Confirm_Complete
          else do {
            matured \<leftarrow> (case (block_height st, blockchain_height) of
                (Some b, Inr h) \<Rightarrow>
                  if b + cz_timelock_0 (pi_connector_z s) < 2 ^ 32
                  then Some (b + cz_timelock_0 (pi_connector_z s) \<le> h) else None
              | _ \<Rightarrow> Some False);
            Some (if matured
                  then if is_ok_and refund confirmed then Peg_In_Refund_Complete else Peg_In_Refund_Available
                  else Peg_In_Confirm_Wait)
          })"

definition status_for_depositor ::
  "(btc_tx \<Rightarrow> tx_hash) \<Rightarrow> esplora \<Rightarrow> 'a peg_in_graph_scheme \<Rightarrow> peg_in_depositor_status option" where
  "status_for_depositor txid_of cl s =
     (case get_peg_in_statuses txid_of cl s of (deposit, confirm, refund) \<Rightarrow>
        interpret_depositor_status s deposit confirm refund (get_height cl))"

section \<open>Operations\<close>

definition peg_in_deposit_action :: "(btc_tx \<Rightarrow> tx_hash) \<Rightarrow> esplora \<Rightarrow> peg_in_state \<Rightarrow> (peg_in_state, btc_tx) outcome" where
  "peg_in_deposit_action txid_of cl s =
     attempt (verify_if_not_mined cl (txid_of (ps_tx (peg_in_deposit_tx s)))) s (\<lambda>_.
       Some (s, Inr (ps_tx (peg_in_deposit_tx s))))"

definition peg_in_confirm_action :: "(btc_tx \<Rightarrow> tx_hash) \<Rightarrow> esplora \<Rightarrow> peg_in_state \<Rightarrow> (peg_in_state, btc_tx) outcome" where
  "peg_in_confirm_action txid_of cl s =
     attempt (verify_if_not_mined cl (txid_of (ps_tx (peg_in_confirm_tx s)))) s (\<lambda>_.
       if_confirmed cl (txid_of (ps_tx (peg_in_deposit_tx s))) ''PegInDeposit'' s (\<lambda>_.
         Some (s, Inr (ps_tx (peg_in_confirm_tx s)))))"

definition peg_in_refund_action :: "(btc_tx \<Rightarrow> tx_hash) \<Rightarrow> esplora \<Rightarrow> peg_in_state \<Rightarrow> (peg_in_state, btc_tx) outcome" where
  "peg_in_refund_action txid_of cl s =
     attempt (verify_if_not_mined cl (txid_of (ps_tx (peg_in_refund_tx s)))) s (\<lambda>_.
       if_confirmed cl (txid_of (ps_tx (peg_in_deposit_tx s))) ''PegInDeposit'' s (\<lambda>_.
         Some (s, Inr (ps_tx (peg_in_refund_tx s)))))"

text \<open>The deposit as a query broadcasts it.\<close>

definition broadcast_deposit :: "(btc_tx \<Rightarrow> tx_hash) \<Rightarrow> esplora \<Rightarrow> 'a peg_in_graph_scheme \<Rightarrow> string + unit" where
  "broadcast_deposit txid_of cl s =
     (case get_tx_status cl (txid_of (ps_tx (peg_in_deposit_tx s))) of
        Inl e \<Rightarrow> Inl e
      | Inr st \<Rightarrow>
          if confirmed st then Inl ''Transaction already mined!''
          else (case broadcast cl (ps_tx (peg_in_deposit_tx s)) of Inl e \<Rightarrow> Inl e | Inr _ \<Rightarrow> Inr ()))"

section \<open>Validation and merging\<close>

definition peg_in_settings_of :: "peg_in_state \<Rightarrow> peg_in_settings" where
  "peg_in_settings_of s =
     \<lparr>st_network = pi_network s, st_depositor_key = pi_depositor_key s,
      st_depositor_taproot_key = pi_depositor_taproot_key s, st_n_of_n_key = pi_n_of_n_key s,
      st_n_of_n_keys = pi_n_of_n_keys s, st_n_of_n_taproot_key = pi_n_of_n_taproot_key s,
      st_evm_address = pi_evm_address s\<rparr>"

definition peg_in_new_for_validation ::
  "fee_policy \<Rightarrow> (btc_tx \<Rightarrow> tx_hash) \<Rightarrow> (tx_hash \<Rightarrow> string) \<Rightarrow> peg_in_state \<Rightarrow> peg_in_state option" where
  "peg_in_new_for_validation pol txid_of hash_id s =
     do {
       deposit_input \<leftarrow> self_input (peg_in_deposit_tx s) 0;
       create_graph_without_signing pol txid_of hash_id (peg_in_settings_of s) deposit_input
     }"

definition peg_in_validate ::
  "fee_policy \<Rightarrow> (btc_tx \<Rightarrow> tx_hash) \<Rightarrow> (tx_hash \<Rightarrow> string) \<Rightarrow> (nat list \<Rightarrow> nat list \<Rightarrow> xonly_key \<Rightarrow> bool) \<Rightarrow>
     (musig_maps \<Rightarrow> (nat \<times> (public_key \<times> nat list) list) list) \<Rightarrow> peg_in_state \<Rightarrow> (bridge_error + unit) option" where
  "peg_in_validate pol txid_of hash_id verify_public_nonce entries s =
     do {
       g \<leftarrow> peg_in_new_for_validation pol txid_of hash_id s;
       first_error (\<lambda>check. check)
         [validate_transaction txid_of (ps_tx (peg_in_deposit_tx s)) (ps_tx (peg_in_deposit_tx g)) ''PegInDeposit'',
          validate_transaction txid_of (ps_tx (peg_in_refund_tx s)) (ps_tx (peg_in_refund_tx g)) ''PegInRefund'',
          validate_transaction txid_of (ps_tx (peg_in_confirm_tx s)) (ps_tx (peg_in_confirm_tx g)) ''PegInConfirm'',
          verify_public_nonces verify_public_nonce (entries (musig2_nonces (pi_musig s)))
            (musig2_nonce_signatures (pi_musig s)) (txid_of (ps_tx (peg_in_confirm_tx s))) ''PegInConfirm'']
     }"

text \<open>Equal neighbours of the sorted ids are removed.\<close>

definition peg_in_merge :: "peg_in_state \<Rightarrow> peg_in_state \<Rightarrow> peg_in_state" where
  "peg_in_merge s src =
     s\<lparr>peg_in_confirm_tx := merge_tx (peg_in_confirm_tx s) (peg_in_confirm_tx src),
       pi_musig := merge_musig2_nonces_and_signatures (pi_musig s) (pi_musig src),
       pi_peg_out_graphs := remdups_adj (sort (pi_peg_out_graphs s @ pi_peg_out_graphs src))\<rparr>"

end
