(* ===== verification/Peg_In_Rules.thy ===== *)
theory Peg_In_Rules
  imports Peg_In_Flow
begin

text \<open>
  What the rounds of the verifiers make of a peg-in: signing one after the other on the same copy
  completes the witness of the confirmation exactly once, signing on separate copies that are merged
  afterwards never completes it; what validation accepts of a peg-in; and what the depositor is told.
\<close>

section \<open>Who has signed an input\<close>

definition signers :: "nat list musig2_state \<Rightarrow> nat \<Rightarrow> public_key set" where
  "signers ms i = {k. contains_at (musig2_signatures ms) i k}"

lemma signers_dom: "musig2_signatures ms i = Some sigs \<Longrightarrow> dom sigs = signers ms i"
  by (auto simp: signers_def contains_at_def)

text \<open>The last partial signature is followed by the aggregate of all of them.\<close>

lemma finalize_result:
  assumes "finalize_musig2_taproot_input cr keys t ms i ty si = Some tx"
  obtains nonces sigs final where "musig2_nonces ms i = Some nonces" "musig2_signatures ms i = Some sigs"
    "aggregated_sig cr keys (ps_tx t) nonces i (ps_prev_outs t) (ps_prev_scripts t ! i) ty sigs = Some final"
    "appends (ps_tx t) i [final, script_bytes cr (ps_prev_scripts t ! i), control_block cr si (ps_prev_scripts t ! i)] tx"
proof -
  obtain nonces sigs final tx1 where p: "musig2_nonces ms i = Some nonces" "musig2_signatures ms i = Some sigs"
      "aggregated_sig cr keys (ps_tx t) nonces i (ps_prev_outs t) (ps_prev_scripts t ! i) ty sigs = Some final"
      "push_witness i (ps_tx t) final = Some tx1"
      "push_taproot_leaf_script_and_control_block_to_witness cr tx1 i si (ps_prev_scripts t ! i) = Some tx"
    using assms by (auto simp: finalize_musig2_taproot_input_def bind_eq_Some_conv index_of_def split: if_splits)
  show ?thesis using that [OF p(1-3)] appends_trans [OF push_witness_appends [OF p(4)] push_leaf_appends [OF p(5)]] by simp
qed

lemma musig2_sign_input_result:
  assumes "musig2_sign_input cr ctx i ty spend ns (t, ms) = Some (t', ms')"
  shows "signers ms' i = insert (vc_public_key ctx) (signers ms i)"
    and "card (signers ms' i) \<noteq> length (vc_n_of_n_keys ctx) \<Longrightarrow> t' = t"
    and "card (signers ms' i) = length (vc_n_of_n_keys ctx) \<Longrightarrow>
      \<exists>si tx. spend = Some si \<and>
        finalize_musig2_taproot_input cr (vc_n_of_n_keys ctx) t ms' i ty si = Some tx \<and> t' = t\<lparr>ps_tx := tx\<rparr>"
proof -
  show "signers ms' i = insert (vc_public_key ctx) (signers ms i)"
    using musig2_sign_input_signs [OF assms] by (auto simp: signers_def)
  obtain sigs where sigs: "musig2_signatures ms' i = Some sigs"
    and r: "if card (dom sigs) = length (vc_n_of_n_keys ctx)
      then \<exists>si tx. spend = Some si \<and>
        finalize_musig2_taproot_input cr (vc_n_of_n_keys ctx) t ms' i ty si = Some tx \<and> t' = t\<lparr>ps_tx := tx\<rparr>
      else t' = t"
    using assms by (auto simp: musig2_sign_input_def bind_eq_Some_conv split: if_splits)
  note d = signers_dom [OF sigs]
  show "card (signers ms' i) \<noteq> length (vc_n_of_n_keys ctx) \<Longrightarrow> t' = t" using r d by simp
  show "card (signers ms' i) = length (vc_n_of_n_keys ctx) \<Longrightarrow>
      \<exists>si tx. spend = Some si \<and>
        finalize_musig2_taproot_input cr (vc_n_of_n_keys ctx) t ms' i ty si = Some tx \<and> t' = t\<lparr>ps_tx := tx\<rparr>"
    using r d by simp
qed

section \<open>Signing the confirmation\<close>

text \<open>Verifiers, each with his secret nonces, sign one after the other on the same copy.\<close>

type_synonym 'k signer = "'k verifier_context \<times> (tx_hash \<Rightarrow> secret_nonces option)"

definition sign_in_turn ::
  "(btc_tx \<Rightarrow> tx_hash) \<Rightarrow> ('k, 's) crypto \<Rightarrow> peg_in_state \<Rightarrow> 'k signer list \<Rightarrow> peg_in_state option" where
  "sign_in_turn txid_of cr s vs = fold_option (\<lambda>s (ctx, ns). peg_in_verifier_sign txid_of cr ctx ns s) s vs"

definition keys_of :: "'k signer list \<Rightarrow> public_key set" where
  "keys_of vs = (\<lambda>v. vc_public_key (fst v)) ` set vs"

definition signers_of :: "peg_in_state \<Rightarrow> public_key set" where
  "signers_of s = signers (pi_musig s) 0"

text \<open>
  From the copy \<open>s\<close> to the copy \<open>s'\<close> the confirmation has got the aggregate of the partial signatures of \<open>s'\<close>, the script and
  its control block.
\<close>

definition completed :: "('k, 's) crypto \<Rightarrow> public_key list \<Rightarrow> peg_in_state \<Rightarrow> peg_in_state \<Rightarrow> bool" where
  "completed cr keys s s' \<longleftrightarrow>
     (let t = peg_in_confirm_tx s; leaf = ps_prev_scripts t ! 0 in
      \<exists>nonces sigs final. musig2_nonces (pi_musig s) 0 = Some nonces \<and> musig2_signatures (pi_musig s') 0 = Some sigs \<and>
        aggregated_sig cr keys (ps_tx t) nonces 0 (ps_prev_outs t) leaf Sig_All sigs = Some final \<and>
        appends (ps_tx t) 0 [final, script_bytes cr leaf, control_block cr (connector_z_spend_info (pi_connector_z s)) leaf]
          (ps_tx (peg_in_confirm_tx s')))"

text \<open>Only the confirmation and its MuSig2 maps differ.\<close>

definition confirm_only :: "peg_in_state \<Rightarrow> peg_in_state \<Rightarrow> bool" where
  "confirm_only s s' \<longleftrightarrow> (\<exists>t ms. s' = s\<lparr>peg_in_confirm_tx := t, pi_musig := ms\<rparr>)"

lemma confirm_only_refl: "confirm_only s s"
proof -
  have "s = s\<lparr>peg_in_confirm_tx := peg_in_confirm_tx s, pi_musig := pi_musig s\<rparr>" by simp
  then show ?thesis unfolding confirm_only_def by blast
qed

lemma confirm_only_trans: "confirm_only a b \<Longrightarrow> confirm_only b c \<Longrightarrow> confirm_only a c"
  unfolding confirm_only_def by auto blast

lemma confirm_only_same:
  "confirm_only s s' \<Longrightarrow> peg_in_deposit_tx s' = peg_in_deposit_tx s \<and> peg_in_refund_tx s' = peg_in_refund_tx s \<and>
     pi_connector_z s' = pi_connector_z s \<and> pi_n_of_n_keys s' = pi_n_of_n_keys s \<and>
     pi_peg_out_graphs s' = pi_peg_out_graphs s \<and> pi_id s' = pi_id s \<and> peg_in_settings_of s' = peg_in_settings_of s"
  by (auto simp: confirm_only_def peg_in_settings_of_def)

lemma peg_in_verifier_sign_result:
  assumes "peg_in_verifier_sign txid_of cr ctx ns s = Some s'"
  shows "signers_of s' = insert (vc_public_key ctx) (signers_of s)"
    and "musig2_nonces (pi_musig s') = musig2_nonces (pi_musig s)"
    and "confirm_only s s'"
    and "card (signers_of s') \<noteq> length (vc_n_of_n_keys ctx) \<Longrightarrow> peg_in_confirm_tx s' = peg_in_confirm_tx s"
    and "card (signers_of s') = length (vc_n_of_n_keys ctx) \<Longrightarrow> completed cr (vc_n_of_n_keys ctx) s s'"
    and "unsigned (ps_tx (peg_in_confirm_tx s')) = unsigned (ps_tx (peg_in_confirm_tx s)) \<and>
      ps_prev_outs (peg_in_confirm_tx s') = ps_prev_outs (peg_in_confirm_tx s) \<and>
      ps_prev_scripts (peg_in_confirm_tx s') = ps_prev_scripts (peg_in_confirm_tx s)"
proof -
  obtain n t ms where r: "musig2_sign_input cr ctx 0 Sig_All (Some (connector_z_spend_info (pi_connector_z s))) n
      (peg_in_confirm_tx s, pi_musig s) = Some (t, ms)"
    and s': "s' = s\<lparr>peg_in_confirm_tx := t, pi_musig := ms\<rparr>"
    using assms by (auto simp: peg_in_verifier_sign_def peg_in_confirm_pre_sign_def bind_eq_Some_conv)
  note res = musig2_sign_input_result [OF r]
  show "signers_of s' = insert (vc_public_key ctx) (signers_of s)" using res(1) by (simp add: s' signers_of_def)
  show "musig2_nonces (pi_musig s') = musig2_nonces (pi_musig s)" using musig2_sign_input_signs [OF r] by (simp add: s')
  show "confirm_only s s'" by (auto simp: s' confirm_only_def)
  show "card (signers_of s') \<noteq> length (vc_n_of_n_keys ctx) \<Longrightarrow> peg_in_confirm_tx s' = peg_in_confirm_tx s"
    using res(2) by (simp add: s' signers_of_def)
  show "completed cr (vc_n_of_n_keys ctx) s s'" if "card (signers_of s') = length (vc_n_of_n_keys ctx)"
  proof -
    have "card (signers ms 0) = length (vc_n_of_n_keys ctx)" using that by (simp add: s' signers_of_def)
    from res(3) [OF this] obtain tx where
      "finalize_musig2_taproot_input cr (vc_n_of_n_keys ctx) (peg_in_confirm_tx s) ms 0 Sig_All
        (connector_z_spend_info (pi_connector_z s)) = Some tx" "t = (peg_in_confirm_tx s)\<lparr>ps_tx := tx\<rparr>"
      by auto
    moreover have "musig2_nonces ms = musig2_nonces (pi_musig s)" using musig2_sign_input_signs [OF r] by simp
    ultimately show ?thesis by (auto simp: completed_def Let_def s' elim!: finalize_result)
  qed
  show "unsigned (ps_tx (peg_in_confirm_tx s')) = unsigned (ps_tx (peg_in_confirm_tx s)) \<and>
      ps_prev_outs (peg_in_confirm_tx s') = ps_prev_outs (peg_in_confirm_tx s) \<and>
      ps_prev_scripts (peg_in_confirm_tx s') = ps_prev_scripts (peg_in_confirm_tx s)"
    using musig2_sign_input_keeps [OF r] by (simp add: s')
qed

text \<open>Verifiers who agree on the list of all keys and have one of them each.\<close>

definition verifiers :: "public_key list \<Rightarrow> 'k signer list \<Rightarrow> bool" where
  "verifiers keys vs \<longleftrightarrow>
     distinct keys \<and> distinct (map (\<lambda>v. vc_public_key (fst v)) vs) \<and>
     (\<forall>v \<in> set vs. vc_public_key (fst v) \<in> set keys \<and> vc_n_of_n_keys (fst v) = keys)"

lemma sign_in_turn_frame:
  assumes "sign_in_turn txid_of cr s vs = Some s'"
  shows "signers_of s' = signers_of s \<union> keys_of vs"
    and "musig2_nonces (pi_musig s') = musig2_nonces (pi_musig s)"
    and "confirm_only s s'"
proof -
  have "signers_of s' = signers_of s \<union> keys_of vs \<and> musig2_nonces (pi_musig s') = musig2_nonces (pi_musig s) \<and>
      confirm_only s s'"
    using assms unfolding sign_in_turn_def
  proof (induction vs arbitrary: s)
    case (Cons v vs)
    obtain s1 where s1: "peg_in_verifier_sign txid_of cr (fst v) (snd v) s = Some s1"
      and r: "fold_option (\<lambda>s (ctx, ns). peg_in_verifier_sign txid_of cr ctx ns s) s1 vs = Some s'"
      using Cons.prems by (auto simp: bind_eq_Some_conv split: prod.splits)
    note one = peg_in_verifier_sign_result(1-3) [OF s1] and rest = Cons.IH [OF r]
    show ?case using one rest confirm_only_trans [of s s1 s'] by (auto simp: keys_of_def)
  qed (simp add: keys_of_def confirm_only_refl)
  then show "signers_of s' = signers_of s \<union> keys_of vs" "musig2_nonces (pi_musig s') = musig2_nonces (pi_musig s)"
    "confirm_only s s'" by simp_all
qed

lemma sign_in_turn_Cons:
  assumes "sign_in_turn txid_of cr s (v # vs) = Some s'"
  obtains s1 where "peg_in_verifier_sign txid_of cr (fst v) (snd v) s = Some s1" "sign_in_turn txid_of cr s1 vs = Some s'"
  using assms by (auto simp: sign_in_turn_def bind_eq_Some_conv split: prod.splits)

lemma verifiers_Cons:
  "verifiers keys (v # vs) \<longleftrightarrow> verifiers keys vs \<and> vc_public_key (fst v) \<notin> keys_of vs \<and>
     vc_public_key (fst v) \<in> set keys \<and> vc_n_of_n_keys (fst v) = keys"
  by (auto simp: verifiers_def keys_of_def)

lemma keys_of_Cons [simp]: "keys_of (v # vs) = insert (vc_public_key (fst v)) (keys_of vs)"
  by (simp add: keys_of_def)

text \<open>As long as somebody is missing, the transaction does not change.\<close>

lemma sign_in_turn_partial:
  assumes "sign_in_turn txid_of cr s vs = Some s'" "verifiers keys vs" "signers_of s \<union> keys_of vs \<subset> set keys"
  shows "peg_in_confirm_tx s' = peg_in_confirm_tx s"
  using assms
proof (induction vs arbitrary: s)
  case (Cons v vs)
  obtain s1 where s1: "peg_in_verifier_sign txid_of cr (fst v) (snd v) s = Some s1" "sign_in_turn txid_of cr s1 vs = Some s'"
    by (rule sign_in_turn_Cons [OF Cons.prems(1)])
  note res = peg_in_verifier_sign_result [OF s1(1)]
  have v: "verifiers keys vs" "vc_n_of_n_keys (fst v) = keys" using Cons.prems(2) by (simp_all add: verifiers_Cons)
  have sub: "signers_of s1 \<union> keys_of vs \<subset> set keys" using Cons.prems(3) res(1) by auto
  then have "signers_of s1 \<subset> set keys" by auto
  then have "card (signers_of s1) < card (set keys)" by (rule psubset_card_mono [OF finite_set])
  then have "card (signers_of s1) \<noteq> length keys" using Cons.prems(2) by (simp add: verifiers_def distinct_card)
  then show ?case using Cons.IH [OF s1(2) v(1) sub] res(4) v(2) by simp
qed (simp add: sign_in_turn_def)

text \<open>The last of them completes it.\<close>

lemma sign_in_turn_complete:
  assumes "sign_in_turn txid_of cr s vs = Some s'" "verifiers keys vs" "vs \<noteq> []"
    and "signers_of s \<inter> keys_of vs = {}" "signers_of s \<union> keys_of vs = set keys"
  shows "completed cr keys s s'"
  using assms
proof (induction vs arbitrary: s)
  case (Cons v vs)
  obtain s1 where s1: "peg_in_verifier_sign txid_of cr (fst v) (snd v) s = Some s1" "sign_in_turn txid_of cr s1 vs = Some s'"
    by (rule sign_in_turn_Cons [OF Cons.prems(1)])
  note res = peg_in_verifier_sign_result [OF s1(1)]
  have v: "verifiers keys vs" "vc_n_of_n_keys (fst v) = keys" "vc_public_key (fst v) \<notin> keys_of vs"
    using Cons.prems(2) by (simp_all add: verifiers_Cons)
  have keys: "signers_of s1 \<union> keys_of vs = set keys" "signers_of s1 \<inter> keys_of vs = {}"
    using Cons.prems(4,5) res(1) v(3) by auto
  have len: "card (set keys) = length keys" using Cons.prems(2) by (simp add: verifiers_def distinct_card)
  show ?case
  proof (cases "vs = []")
    case True
    then have "card (signers_of s1) = length keys" using keys len by (simp add: keys_of_def)
    then show ?thesis using res(5) v(2) s1(2) True by (simp add: sign_in_turn_def)
  next
    case False
    then have "keys_of vs \<noteq> {}" by (simp add: keys_of_def)
    then have "signers_of s1 \<subset> set keys" using keys by blast
    then have "card (signers_of s1) < card (set keys)" by (rule psubset_card_mono [OF finite_set])
    then have "card (signers_of s1) \<noteq> length keys" using len by simp
    then have "peg_in_confirm_tx s1 = peg_in_confirm_tx s" using res(4) v(2) by simp
    then show ?thesis using Cons.IH [OF s1(2) v(1) False keys(2,1)] confirm_only_same [OF res(3)] res(2)
      by (simp add: completed_def)
  qed
qed simp

section \<open>Merging\<close>

lemma merge_transactions_self [simp]: "merge_transactions t t = t"
proof (rule btc_tx_eqI)
  show "tx_input (merge_transactions t t) = tx_input t"
    by (rule nth_equalityI) (simp_all add: merge_transactions_nth)
qed (simp_all add: push_missing_eq)

lemma contains_at_merge:
  "contains_at (merge_hash_maps a b) i k \<longleftrightarrow> contains_at a i k \<or> contains_at b i k"
proof -
  have "contains_at m i k \<longleftrightarrow> entry m i k \<noteq> None" for m by (simp add: contains_at_def entry_def split: option.splits)
  then show ?thesis by (simp add: entry_merge_hash_maps split: option.splits)
qed

lemma signers_of_merge: "signers_of (peg_in_merge a b) = signers_of a \<union> signers_of b"
  by (auto simp: signers_of_def signers_def peg_in_merge_def merge_musig2_nonces_and_signatures_def contains_at_merge)

lemma all_signatures_iff: "confirm_has_all_signatures s \<longleftrightarrow> set (pi_n_of_n_keys s) \<subseteq> signers_of s"
  by (auto simp: confirm_has_all_signatures_def signers_of_def signers_def list_all_iff)

section \<open>Copies of a peg-in\<close>

text \<open>What can happen to a copy: nonces, signatures, merges, and the peg-outs that operators offer.\<close>

inductive peg_in_reachable ::
  "(btc_tx \<Rightarrow> tx_hash) \<Rightarrow> ('k, 's) crypto \<Rightarrow> peg_in_state \<Rightarrow> peg_in_state \<Rightarrow> bool" for txid_of cr s0 where
  created: "peg_in_reachable txid_of cr s0 s0"
| nonces: "peg_in_reachable txid_of cr s0 s \<Longrightarrow> peg_in_push_verifier_nonces txid_of cr ctx fresh s = (s', pushed) \<Longrightarrow>
    peg_in_reachable txid_of cr s0 s'"
| signed: "peg_in_reachable txid_of cr s0 s \<Longrightarrow> peg_in_verifier_sign txid_of cr ctx ns s = Some s' \<Longrightarrow>
    peg_in_reachable txid_of cr s0 s'"
| merged: "peg_in_reachable txid_of cr s0 s \<Longrightarrow> peg_in_reachable txid_of cr s0 src \<Longrightarrow>
    peg_in_reachable txid_of cr s0 (peg_in_merge s src)"
| offered: "peg_in_reachable txid_of cr s0 s \<Longrightarrow>
    peg_in_reachable txid_of cr s0 (s\<lparr>pi_peg_out_graphs := pi_peg_out_graphs s @ [peg_out_id]\<rparr>)"

definition same_peg_in :: "peg_in_state \<Rightarrow> peg_in_state \<Rightarrow> bool" where
  "same_peg_in s0 s \<longleftrightarrow>
     peg_in_deposit_tx s = peg_in_deposit_tx s0 \<and> peg_in_refund_tx s = peg_in_refund_tx s0 \<and>
     unsigned (ps_tx (peg_in_confirm_tx s)) = unsigned (ps_tx (peg_in_confirm_tx s0)) \<and>
     ps_prev_outs (peg_in_confirm_tx s) = ps_prev_outs (peg_in_confirm_tx s0) \<and>
     ps_prev_scripts (peg_in_confirm_tx s) = ps_prev_scripts (peg_in_confirm_tx s0) \<and>
     pi_connector_z s = pi_connector_z s0 \<and> peg_in_settings_of s = peg_in_settings_of s0 \<and> pi_id s = pi_id s0"

lemma peg_in_reachable_same:
  "peg_in_reachable txid_of cr s0 s \<Longrightarrow> same_peg_in s0 s"
proof (induction rule: peg_in_reachable.induct)
  case created then show ?case by (simp add: same_peg_in_def)
next
  case (nonces s ctx fresh s' pushed)
  then show ?case
    by (auto simp: same_peg_in_def peg_in_push_verifier_nonces_def peg_in_settings_of_def split: prod.splits)
next
  case (signed s ctx ns s')
  then show ?case
    using peg_in_verifier_sign_result(6) [OF signed.hyps(2)] confirm_only_same [OF peg_in_verifier_sign_result(3) [OF signed.hyps(2)]]
    by (simp add: same_peg_in_def)
next
  case (merged s src)
  then show ?case
    using merge_transactions_same [of "ps_tx (peg_in_confirm_tx s)" "ps_tx (peg_in_confirm_tx s0)" "ps_tx (peg_in_confirm_tx src)"]
    by (simp add: same_peg_in_def peg_in_merge_def merge_tx_def set_tx_def peg_in_settings_of_def)
next
  case (offered s peg_out_id)
  then show ?case by (simp add: same_peg_in_def peg_in_settings_of_def)
qed

lemma sign_peg_in_keeps:
  assumes "sign_peg_in cr keypair g = Some g'"
  shows "unsigned (ps_tx (peg_in_deposit_tx g')) = unsigned (ps_tx (peg_in_deposit_tx g))"
    "unsigned (ps_tx (peg_in_refund_tx g')) = unsigned (ps_tx (peg_in_refund_tx g))"
    "unsigned (ps_tx (peg_in_confirm_tx g')) = unsigned (ps_tx (peg_in_confirm_tx g))"
    "ps_prev_outs (peg_in_deposit_tx g') = ps_prev_outs (peg_in_deposit_tx g)"
    "ps_prev_scripts (peg_in_confirm_tx g') = ps_prev_scripts (peg_in_confirm_tx g)"
    "pi_connector_z g' = pi_connector_z g"
    "\<exists>sig. appends (ps_tx (peg_in_confirm_tx g)) 0 [minimal_element sig] (ps_tx (peg_in_confirm_tx g'))"
proof -
  obtain d r c where d: "peg_in_deposit_signed cr keypair (peg_in_deposit_tx g) = Some d"
    and r: "peg_in_refund_signed cr keypair (pi_connector_z g) (peg_in_refund_tx g) = Some r"
    and c: "peg_in_confirm_signed cr keypair (peg_in_confirm_tx g) = Some c"
    and g': "g' = g\<lparr>peg_in_deposit_tx := d, peg_in_refund_tx := r, peg_in_confirm_tx := c\<rparr>"
    using assms by (auto simp: sign_peg_in_def bind_eq_Some_conv)
  obtain sig tx where sig: "push_witness 0 (ps_tx (peg_in_confirm_tx g)) (minimal_element sig) = Some tx"
    and c': "c = (peg_in_confirm_tx g)\<lparr>ps_tx := tx\<rparr>"
    using c by (auto simp: peg_in_confirm_signed_def push_depositor_signature_input_def
        push_taproot_leaf_unlock_data_to_witness_def bind_eq_Some_conv)
  note a = push_witness_appends [OF sig]
  show "unsigned (ps_tx (peg_in_deposit_tx g')) = unsigned (ps_tx (peg_in_deposit_tx g))"
    "ps_prev_outs (peg_in_deposit_tx g') = ps_prev_outs (peg_in_deposit_tx g)"
    using pre_sign_p2wsh_keeps [OF d [unfolded peg_in_deposit_signed_def]] by (simp_all add: g')
  show "unsigned (ps_tx (peg_in_refund_tx g')) = unsigned (ps_tx (peg_in_refund_tx g))"
    using pre_sign_taproot_keeps [OF r [unfolded peg_in_refund_signed_def]] by (simp add: g')
  show "unsigned (ps_tx (peg_in_confirm_tx g')) = unsigned (ps_tx (peg_in_confirm_tx g))"
    "ps_prev_scripts (peg_in_confirm_tx g') = ps_prev_scripts (peg_in_confirm_tx g)"
    "pi_connector_z g' = pi_connector_z g"
    "\<exists>sig. appends (ps_tx (peg_in_confirm_tx g)) 0 [minimal_element sig] (ps_tx (peg_in_confirm_tx g'))"
    using appends_unsigned [OF a] a by (auto simp: g' c')
qed

lemma peg_in_state_new_cases:
  assumes "peg_in_state_new pol txid_of hash_id cr keypair st deposit_input = Some s"
  obtains g g' where "peg_in_graph_new pol txid_of (depositor_context_of st) deposit_input (st_evm_address st) = Some g"
    "sign_peg_in cr keypair g = Some g'" "s = peg_in_state_of txid_of hash_id st g'"
  using assms by (auto simp: peg_in_state_new_def bind_eq_Some_conv)

lemma peg_in_state_of_parts [simp]:
  "peg_in_deposit_tx (peg_in_state_of txid_of hash_id st g) = peg_in_deposit_tx g"
  "peg_in_refund_tx (peg_in_state_of txid_of hash_id st g) = peg_in_refund_tx g"
  "peg_in_confirm_tx (peg_in_state_of txid_of hash_id st g) = peg_in_confirm_tx g"
  "pi_connector_z (peg_in_state_of txid_of hash_id st g) = pi_connector_z g"
  "pi_musig (peg_in_state_of txid_of hash_id st g) = empty_musig"
  "pi_n_of_n_keys (peg_in_state_of txid_of hash_id st g) = st_n_of_n_keys st"
  "pi_peg_out_graphs (peg_in_state_of txid_of hash_id st g) = []"
  "peg_in_settings_of (peg_in_state_of txid_of hash_id st g) = st"
  by (simp_all add: peg_in_state_of_def peg_in_graph.extend_def peg_in_settings_of_def)

lemma peg_in_rebuilt:
  assumes new: "peg_in_state_new pol txid_of hash_id cr keypair st deposit_input = Some s0"
    and same: "same_peg_in s0 s"
  shows "\<exists>g. peg_in_new_for_validation pol txid_of hash_id s = Some g \<and>
    unsigned (ps_tx (peg_in_deposit_tx s)) = unsigned (ps_tx (peg_in_deposit_tx g)) \<and>
    unsigned (ps_tx (peg_in_refund_tx s)) = unsigned (ps_tx (peg_in_refund_tx g)) \<and>
    unsigned (ps_tx (peg_in_confirm_tx s)) = unsigned (ps_tx (peg_in_confirm_tx g))"
proof -
  obtain g g' where g: "peg_in_graph_new pol txid_of (depositor_context_of st) deposit_input (st_evm_address st) = Some g"
    and g': "sign_peg_in cr keypair g = Some g'" and s0: "s0 = peg_in_state_of txid_of hash_id st g'"
    by (rule peg_in_state_new_cases [OF new])
  note keeps = sign_peg_in_keeps [OF g']
  have d: "peg_in_deposit_new_for_validation pol (st_network st) (st_depositor_key st) (pi_connector_z g) deposit_input =
      Some (peg_in_deposit_tx g)"
    by (rule peg_in_graph_new_cases [OF g]) (simp add: depositor_context_of_def)
  have "self_input (peg_in_deposit_tx s) 0 = Some ([deposit_input] ! 0)"
    by (rule self_input_sound [OF peg_in_deposit_sound [OF d], where extra = "[]"])
      (use same s0 keeps(4) unsigned_parts [OF keeps(1)] in \<open>simp_all add: same_peg_in_def\<close>)
  moreover have "peg_in_settings_of s = st" using same by (simp add: same_peg_in_def s0)
  ultimately have "peg_in_new_for_validation pol txid_of hash_id s = Some (peg_in_state_of txid_of hash_id st g)"
    using g by (simp add: peg_in_new_for_validation_def create_graph_without_signing_def)
  then show ?thesis using same keeps by (simp add: same_peg_in_def s0)
qed

section \<open>The rules\<close>

text \<open>What the confirmation carries before the verifiers sign.\<close>

lemma peg_in_confirm_input:
  "peg_in_confirm_new_for_validation pol c0 cz i = Some t \<Longrightarrow>
     length (tx_input (ps_tx t)) = 1 \<and> witness (tx_input (ps_tx t) ! 0) = [] \<and>
     ps_prev_scripts t = [connector_z_leaf_1_script cz]"
  by (auto simp: peg_in_confirm_new_for_validation_def bind_eq_Some_conv connector_z_leaf_tx_in_def
      connector_z_leaf_1_tx_in_def connector_z_leaf_script_def generate_default_tx_in_def)

lemma unsigned_unsigned [simp]: "unsigned (unsigned t) = unsigned t"
  by (simp add: unsigned_def unsigned_in_def comp_def)

lemma unsigned_witness_free: "length (tx_input t) = 1 \<Longrightarrow> witness (tx_input t ! 0) = [] \<Longrightarrow> unsigned t = t"
  by (cases "tx_input t") (simp_all add: unsigned_def unsigned_in_def)

lemma depositor_signature:
  assumes new: "peg_in_state_new pol txid_of hash_id cr keypair st deposit_input = Some s0"
  defines "leaf \<equiv> connector_z_leaf_1_script (pi_connector_z s0)"
  obtains sig where "length (tx_input (ps_tx (peg_in_confirm_tx s0))) = 1"
    "witness (tx_input (ps_tx (peg_in_confirm_tx s0)) ! 0) = [minimal_element sig]"
    "leaf_sig cr keypair (unsigned (ps_tx (peg_in_confirm_tx s0))) 0 (ps_prev_outs (peg_in_confirm_tx s0)) Sig_All leaf = Some sig"
    "ps_prev_scripts (peg_in_confirm_tx s0) = [leaf]"
proof -
  obtain g g' where g: "peg_in_graph_new pol txid_of (depositor_context_of st) deposit_input (st_evm_address st) = Some g"
    and g': "sign_peg_in cr keypair g = Some g'" and s0: "s0 = peg_in_state_of txid_of hash_id st g'"
    by (rule peg_in_state_new_cases [OF new])
  obtain i where "peg_in_confirm_new_for_validation pol (pi_connector_0 g) (pi_connector_z g) i = Some (peg_in_confirm_tx g)"
    by (rule peg_in_graph_new_cases [OF g])
  note c = peg_in_confirm_input [OF this] and keeps = sign_peg_in_keeps [OF g']
  have leaf: "ps_prev_scripts (peg_in_confirm_tx g) = [leaf]" using c keeps(6) by (simp add: s0 leaf_def)
  obtain sig tx where sig: "leaf_sig cr keypair (ps_tx (peg_in_confirm_tx g)) 0 (ps_prev_outs (peg_in_confirm_tx g)) Sig_All leaf = Some sig"
    and tx: "push_witness 0 (ps_tx (peg_in_confirm_tx g)) (minimal_element sig) = Some tx"
    and c': "peg_in_confirm_tx g' = (peg_in_confirm_tx g)\<lparr>ps_tx := tx\<rparr>"
    using g' leaf
    by (auto simp: sign_peg_in_def peg_in_confirm_signed_def push_depositor_signature_input_def index_of_def
        push_taproot_leaf_unlock_data_to_witness_def generate_taproot_leaf_schnorr_signature_def sighash_prevouts_def
        bind_eq_Some_conv)
  have "unsigned (ps_tx (peg_in_confirm_tx g')) = ps_tx (peg_in_confirm_tx g)"
    using keeps(3) unsigned_witness_free c by simp
  then show ?thesis
    using that [of sig] sig appends_witness [OF push_witness_appends [OF tx]] c leaf by (simp add: s0 c')
qed

lemma depositor_witness:
  assumes new: "peg_in_state_new pol txid_of hash_id cr keypair st deposit_input = Some s0"
  shows "\<exists>sig. length (tx_input (ps_tx (peg_in_confirm_tx s0))) = 1 \<and>
    witness (tx_input (ps_tx (peg_in_confirm_tx s0)) ! 0) = [minimal_element sig]"
    and "ps_prev_scripts (peg_in_confirm_tx s0) = [connector_z_leaf_1_script (pi_connector_z s0)]"
  by (rule depositor_signature [OF new], blast)+

text \<open>A copy before any verifier has signed it.\<close>

definition unsigned_copy :: "peg_in_state \<Rightarrow> peg_in_state \<Rightarrow> bool" where
  "unsigned_copy s0 s \<longleftrightarrow>
     peg_in_confirm_tx s = peg_in_confirm_tx s0 \<and> pi_connector_z s = pi_connector_z s0 \<and>
     pi_n_of_n_keys s = pi_n_of_n_keys s0 \<and> signers_of s = {}"

text \<open>A sample peg-in with two verifiers.\<close>

definition sample_settings :: peg_in_settings where
  "sample_settings =
     \<lparr>st_network = Btc_Mainnet, st_depositor_key = Public_Key False 11, st_depositor_taproot_key = 11,
      st_n_of_n_key = Public_Key True 12, st_n_of_n_keys = [Public_Key True 1, Public_Key True 2],
      st_n_of_n_taproot_key = 12, st_evm_address = ''0xab''\<rparr>"

definition sample_verifier :: "nat \<Rightarrow> nat signer" where
  "sample_verifier n =
     (\<lparr>vc_keypair = n, vc_public_key = Public_Key True n, vc_n_of_n_keys = st_n_of_n_keys sample_settings\<rparr>,
      \<lambda>_. Some (\<lambda>_. Some [n]))"

abbreviation sample_peg_in_new :: "peg_in_state option" where
  "sample_peg_in_new \<equiv> peg_in_state_new core_policy binding_txid (\<lambda>_. ''peg-in'') sample_crypto 5 sample_settings sample_deposit"

definition sample_peg_in_copy :: "peg_in_state \<Rightarrow> peg_in_state" where
  "sample_peg_in_copy s0 =
     s0\<lparr>pi_musig := empty_musig\<lparr>musig2_nonces := Map.empty(0 \<mapsto> (\<lambda>_. Some [7]))\<rparr>, pi_peg_out_graphs := [''peg-out'']\<rparr>"

lemma sample_peg_in_state:
  obtains s0 where "sample_peg_in_new = Some s0"
    "binding_txid (ps_tx (peg_in_confirm_tx s0)) \<noteq> binding_txid (ps_tx (peg_in_deposit_tx s0))"
    "binding_txid (ps_tx (peg_in_refund_tx s0)) \<noteq> binding_txid (ps_tx (peg_in_deposit_tx s0))"
proof -
  obtain g where g: "peg_in_graph_new core_policy binding_txid (depositor_context_of sample_settings) sample_deposit
      (st_evm_address sample_settings) = Some g"
    using sample_peg_in [of binding_txid]
    by (auto simp: sample_settings_def depositor_context_of_def sample_depositor_def)
  obtain i j where d: "peg_in_deposit_new_for_validation core_policy Btc_Mainnet (Public_Key False 11) (pi_connector_z g)
        sample_deposit = Some (peg_in_deposit_tx g)"
    and i: "generate_input binding_txid (ps_tx (peg_in_deposit_tx g)) 0 = Some i"
      "peg_in_refund_new_for_validation core_policy Btc_Mainnet (Public_Key False 11) (pi_connector_z g) i = Some (peg_in_refund_tx g)"
    and j: "generate_input binding_txid (ps_tx (peg_in_deposit_tx g)) 0 = Some j"
      "peg_in_confirm_new_for_validation core_policy (pi_connector_0 g) (pi_connector_z g) j = Some (peg_in_confirm_tx g)"
    by (rule peg_in_graph_new_cases [OF g]) (auto simp: sample_settings_def depositor_context_of_def)
  have "length (ps_prev_scripts (peg_in_deposit_tx g)) = 1 \<and> length (ps_prev_outs (peg_in_deposit_tx g)) = 1 \<and>
      length (tx_input (ps_tx (peg_in_deposit_tx g))) = 1"
    using d by (auto simp: peg_in_deposit_new_for_validation_def bind_eq_Some_conv dest!: sym [of _ "peg_in_deposit_tx g"])
  then obtain d' where d': "peg_in_deposit_signed sample_crypto 5 (peg_in_deposit_tx g) = Some d'"
    using sample_p2wsh_signed [of 0 "peg_in_deposit_tx g" 5] by (auto simp: peg_in_deposit_signed_def)
  have "length (ps_prev_scripts (peg_in_refund_tx g)) = 1 \<and> length (ps_prev_outs (peg_in_refund_tx g)) = 1 \<and>
      length (tx_input (ps_tx (peg_in_refund_tx g))) = 1 \<and>
      ps_prev_scripts (peg_in_refund_tx g) ! 0 \<in> snd ` set (tap_leaves (connector_z_spend_info (pi_connector_z g)))"
    using i(2) by (auto simp: peg_in_refund_new_for_validation_def bind_eq_Some_conv connector_z_defs
        dest!: sym [of _ "peg_in_refund_tx g"])
  then obtain r' where r': "peg_in_refund_signed sample_crypto 5 (pi_connector_z g) (peg_in_refund_tx g) = Some r'"
    using sample_taproot_signed [of 0 "peg_in_refund_tx g" "connector_z_spend_info (pi_connector_z g)" Sig_All 5]
    by (auto simp: peg_in_refund_signed_def)
  obtain c' where c': "peg_in_confirm_signed sample_crypto 5 (peg_in_confirm_tx g) = Some c'"
    using peg_in_confirm_input [OF j(2)]
    by (auto simp: peg_in_confirm_signed_def index_of_def generate_taproot_leaf_schnorr_signature_def sighash_prevouts_def
        sample_crypto_def push_depositor_signature_input_def push_taproot_leaf_unlock_data_to_witness_def push_witness_def)
  have s: "sign_peg_in sample_crypto 5 g =
      Some (g\<lparr>peg_in_deposit_tx := d', peg_in_refund_tx := r', peg_in_confirm_tx := c'\<rparr>)"
    by (simp add: sign_peg_in_def d' r' c')
  note keeps = sign_peg_in_keeps [OF s]
  have out: "outpoints_of (ps_tx (peg_in_deposit_tx g)) = [Outpoint 1 0]"
      "outpoints_of (ps_tx (peg_in_refund_tx g)) = [Outpoint (binding_txid (ps_tx (peg_in_deposit_tx g))) 0]"
      "outpoints_of (ps_tx (peg_in_confirm_tx g)) = [Outpoint (binding_txid (ps_tx (peg_in_deposit_tx g))) 0]"
    using peg_in_deposit_sound [OF d] peg_in_refund_sound [OF i(2)] peg_in_confirm_sound [OF j(2)]
      generate_inputD [OF i(1)] generate_inputD [OF j(1)]
    by (simp_all add: outpoints_of_def sound_tx_def sample_deposit_def)
  have "binding_txid t \<noteq> 1" for t by (simp add: binding_txid_def)
  then have ne: "binding_txid (ps_tx (peg_in_confirm_tx g)) \<noteq> binding_txid (ps_tx (peg_in_deposit_tx g))"
      "binding_txid (ps_tx (peg_in_refund_tx g)) \<noteq> binding_txid (ps_tx (peg_in_deposit_tx g))"
    by (intro different_ids(1); simp add: out)+
  have ids: "unsigned a = unsigned b \<Longrightarrow> binding_txid a = binding_txid b" for a b
    using binding_txid by (simp add: txid_binding_def)
  show ?thesis
    by (rule that, simp add: peg_in_state_new_def g s)
      (use ne ids [OF keeps(1)] ids [OF keeps(2)] ids [OF keeps(3)] in simp_all)
qed

text \<open>Its verifiers can always sign.\<close>

definition signable :: "peg_in_state \<Rightarrow> bool" where
  "signable s \<longleftrightarrow>
     musig2_nonces (pi_musig s) 0 \<noteq> None \<and> ps_prev_scripts (peg_in_confirm_tx s) = [connector_z_leaf_1_script (pi_connector_z s)] \<and>
     tx_input (ps_tx (peg_in_confirm_tx s)) \<noteq> []"

lemma sample_signs:
  assumes "signable s"
  shows "\<exists>s'. peg_in_verifier_sign binding_txid sample_crypto (fst (sample_verifier n)) (snd (sample_verifier n)) s = Some s' \<and>
    signable s'"
proof -
  have leaf: "connector_z_leaf_1_script cz \<in> snd ` set (tap_leaves (connector_z_spend_info cz))" for cz
    by (simp add: connector_z_spend_info_def)
  have "\<exists>s'. peg_in_verifier_sign binding_txid sample_crypto (fst (sample_verifier n)) (snd (sample_verifier n)) s = Some s'"
    using assms leaf [of "pi_connector_z s"]
    by (auto simp: signable_def sample_verifier_def peg_in_verifier_sign_def peg_in_confirm_pre_sign_def
        musig2_sign_input_def pre_sign_musig2_taproot_input_def index_of_def sample_crypto_def insert_at_def
        finalize_musig2_taproot_input_def push_witness_def push_taproot_leaf_script_and_control_block_to_witness_def
        rust_assert_bind_Some_iff)
  then obtain s' where s': "peg_in_verifier_sign binding_txid sample_crypto (fst (sample_verifier n))
      (snd (sample_verifier n)) s = Some s'" by blast
  note res = peg_in_verifier_sign_result [OF s']
  have "tx_input (ps_tx (peg_in_confirm_tx s')) \<noteq> []"
    using assms unsigned_eqD(1) [OF conjunct1 [OF res(6)]] by (auto simp: signable_def)
  then have "signable s'" using assms res(2,6) confirm_only_same [OF res(3)] by (simp add: signable_def)
  then show ?thesis using s' by blast
qed

lemma sample_signs_in_turn:
  "signable s \<Longrightarrow> \<exists>s'. sign_in_turn binding_txid sample_crypto s (map sample_verifier ns) = Some s'"
proof (induction ns arbitrary: s)
  case (Cons n ns)
  obtain s1 where s1: "peg_in_verifier_sign binding_txid sample_crypto (fst (sample_verifier n))
      (snd (sample_verifier n)) s = Some s1" "signable s1" using sample_signs [OF Cons.prems] by blast
  then show ?case using Cons.IH [OF s1(2)] by (simp add: sign_in_turn_def sample_verifier_def)
qed (simp add: sign_in_turn_def)

lemma sample_copy:
  assumes "sample_peg_in_new = Some s0"
  shows "unsigned_copy s0 (sample_peg_in_copy s0)" "signable (sample_peg_in_copy s0)"
    "confirm_has_all_nonces (sample_peg_in_copy s0)" "pi_peg_out_graphs (sample_peg_in_copy s0) = [''peg-out'']"
  using depositor_witness [OF assms]
  by (auto simp: unsigned_copy_def sample_peg_in_copy_def signers_of_def signers_def contains_at_def empty_musig_def
      signable_def confirm_has_all_nonces_def list_all_iff)

section \<open>What a node makes of the confirmation\<close>

text \<open>
  The opcodes of the leaf as a node executes them (BIP 342): the state says whether a branch is skipped, and holds the stack,
  where keys are kept apart from other elements. \<open>ok\<close> is the check of a signature.
\<close>

fun check_item ::
  "(xonly_key \<Rightarrow> nat list \<Rightarrow> bool) \<Rightarrow> script_item \<Rightarrow> bool \<times> (nat list + xonly_key) list \<Rightarrow>
     (bool \<times> (nat list + xonly_key) list) option" where
  "check_item ok i (skipping, stack) =
     (if i = Op ''OP_ENDIF'' then Some (False, stack)
      else if skipping then Some (True, stack)
      else if i = Op ''OP_FALSE'' then Some (False, Inl [] # stack)
      else case (i, stack) of
        (Bytes b, _) \<Rightarrow> Some (False, Inl b # stack)
      | (Xonly k, _) \<Rightarrow> Some (False, Inr k # stack)
      | (Op name, Inl a # rest) \<Rightarrow>
          if name = ''OP_IF'' \<and> a \<in> {[], [1]} then Some (a = [], rest) else None
      | (Op name, Inr k # Inl sig # rest) \<Rightarrow>
          if name = ''OP_CHECKSIGVERIFY'' then if ok k sig then Some (False, rest) else None
          else if name = ''OP_CHECKSIG''
          then if ok k sig then Some (False, Inl [1] # rest) else if sig = [] then Some (False, Inl [] # rest) else None
          else None
      | _ \<Rightarrow> None)"

definition leaf_accepts :: "(xonly_key \<Rightarrow> nat list \<Rightarrow> bool) \<Rightarrow> bridge_script \<Rightarrow> nat list list \<Rightarrow> bool" where
  "leaf_accepts ok leaf unlock_data \<longleftrightarrow>
     fold_option (\<lambda>state i. check_item ok i state) (False, rev (map Inl unlock_data)) leaf = Some (False, [Inl [1]])"

lemma connector_z_leaf_accepts:
  "leaf_accepts ok (connector_z_leaf_1_script cz) [sig, final] \<longleftrightarrow> ok (cz_n_of_n_key cz) final \<and> ok (cz_depositor_key cz) sig"
  by (auto simp: leaf_accepts_def connector_z_leaf_1_script_def)

text \<open>
  What the crates document: a signature made with the depositor's key pair verifies for his key, and the aggregation of
  partial signatures fails unless the result verifies for the joint key of all. A signature is no single zero byte.
\<close>

definition signatures_verify ::
  "(xonly_key \<Rightarrow> btc_tx \<Rightarrow> nat \<Rightarrow> tx_out list \<Rightarrow> bridge_script \<Rightarrow> nat list \<Rightarrow> bool) \<Rightarrow> ('k, 's) crypto \<Rightarrow> 'k \<Rightarrow>
     peg_in_settings \<Rightarrow> bool" where
  "signatures_verify verifies cr keypair st \<longleftrightarrow>
     (\<forall>t i prevs script sig. leaf_sig cr keypair t i prevs Sig_All script = Some sig \<longrightarrow>
        sig \<noteq> [0] \<and> verifies (st_depositor_taproot_key st) (unsigned t) i prevs script sig) \<and>
     (\<forall>t nonces i prevs script sigs final.
        aggregated_sig cr (st_n_of_n_keys st) t nonces i prevs script Sig_All sigs = Some final \<longrightarrow>
        verifies (st_n_of_n_taproot_key st) (unsigned t) i prevs script final)"

text \<open>The partial signature of a verifier over the confirmation \<open>t\<close>.\<close>

definition partial_of ::
  "(btc_tx \<Rightarrow> tx_hash) \<Rightarrow> ('k, 's) crypto \<Rightarrow> pre_signed \<Rightarrow> (public_key \<Rightarrow> nat list option) option \<Rightarrow> 'k signer \<Rightarrow>
     nat list option" where
  "partial_of txid_of cr t all_nonces v =
     do {
       ns \<leftarrow> snd v (txid_of (ps_tx t));
       secret_nonce \<leftarrow> ns 0;
       script \<leftarrow> index_of (ps_prev_scripts t) 0;
       nonces \<leftarrow> all_nonces;
       partial_sig cr (vc_keypair (fst v)) (vc_n_of_n_keys (fst v)) (ps_tx t) secret_nonce nonces 0 (ps_prev_outs t) script Sig_All
     }"

definition signature_of :: "peg_in_state \<Rightarrow> public_key \<Rightarrow> nat list option" where
  "signature_of s k = (case musig2_signatures (pi_musig s) 0 of None \<Rightarrow> None | Some sigs \<Rightarrow> sigs k)"

lemma verifier_signature:
  assumes "peg_in_verifier_sign txid_of cr (fst v) (snd v) s = Some s'"
  shows "partial_of txid_of cr (peg_in_confirm_tx s) (musig2_nonces (pi_musig s) 0) v \<noteq> None"
    and "signature_of s' k = (if k = vc_public_key (fst v)
      then partial_of txid_of cr (peg_in_confirm_tx s) (musig2_nonces (pi_musig s) 0) v else signature_of s k)"
  using assms
  by (auto simp: peg_in_verifier_sign_def peg_in_confirm_pre_sign_def musig2_sign_input_def pre_sign_musig2_taproot_input_def
      partial_of_def signature_of_def insert_at_def bind_eq_Some_conv split: if_splits option.splits)

lemma others_signature:
  "sign_in_turn txid_of cr s vs = Some s' \<Longrightarrow> k \<notin> keys_of vs \<Longrightarrow> signature_of s' k = signature_of s k"
proof (induction vs arbitrary: s)
  case (Cons v vs)
  obtain s1 where s1: "peg_in_verifier_sign txid_of cr (fst v) (snd v) s = Some s1" "sign_in_turn txid_of cr s1 vs = Some s'"
    by (rule sign_in_turn_Cons [OF Cons.prems(1)])
  then show ?case using Cons.IH [OF s1(2)] Cons.prems(2) verifier_signature(2) [OF s1(1), of k] by simp
qed (simp add: sign_in_turn_def)

text \<open>In the end every verifier's partial signature is there, made over the transaction as it was before any of them signed.\<close>

lemma turn_signatures:
  assumes "sign_in_turn txid_of cr s vs = Some s'" "verifiers keys vs" "signers_of s \<union> keys_of vs \<subseteq> set keys"
    and "signers_of s \<inter> keys_of vs = {}" "v \<in> set vs"
  shows "signature_of s' (vc_public_key (fst v)) =
      partial_of txid_of cr (peg_in_confirm_tx s) (musig2_nonces (pi_musig s) 0) v \<and>
    partial_of txid_of cr (peg_in_confirm_tx s) (musig2_nonces (pi_musig s) 0) v \<noteq> None"
  using assms
proof (induction vs arbitrary: s)
  case (Cons u vs)
  obtain s1 where s1: "peg_in_verifier_sign txid_of cr (fst u) (snd u) s = Some s1" "sign_in_turn txid_of cr s1 vs = Some s'"
    by (rule sign_in_turn_Cons [OF Cons.prems(1)])
  note res = peg_in_verifier_sign_result [OF s1(1)]
  have u: "verifiers keys vs" "vc_n_of_n_keys (fst u) = keys" "vc_public_key (fst u) \<notin> keys_of vs"
    using Cons.prems(2) by (simp_all add: verifiers_Cons)
  have rest: "signers_of s1 \<union> keys_of vs \<subseteq> set keys" "signers_of s1 \<inter> keys_of vs = {}"
    using Cons.prems(3,4) res(1) u(3) by auto
  show ?case
  proof (cases "v = u")
    case True
    then show ?thesis using others_signature [OF s1(2) u(3)] verifier_signature [OF s1(1)] by simp
  next
    case False
    then have v: "v \<in> set vs" using Cons.prems(5) by simp
    then have "vc_public_key (fst v) \<in> set keys - signers_of s1" using rest by (auto simp: keys_of_def)
    then have "signers_of s1 \<subset> set keys" using rest(1) by auto
    then have "card (signers_of s1) < card (set keys)" by (rule psubset_card_mono [OF finite_set])
    then have "card (signers_of s1) \<noteq> length keys" using u(1) by (simp add: verifiers_def distinct_card)
    then have "peg_in_confirm_tx s1 = peg_in_confirm_tx s" using res(4) u(2) by simp
    then show ?thesis using Cons.IH [OF s1(2) u(1) rest v] res(2) by simp
  qed
qed simp

lemma connector_z_keys:
  assumes "peg_in_state_new pol txid_of hash_id cr keypair st deposit_input = Some s0"
  shows "cz_depositor_key (pi_connector_z s0) = st_depositor_taproot_key st"
    "cz_n_of_n_key (pi_connector_z s0) = st_n_of_n_taproot_key st"
proof -
  obtain g g' where g: "peg_in_graph_new pol txid_of (depositor_context_of st) deposit_input (st_evm_address st) = Some g"
    and g': "sign_peg_in cr keypair g = Some g'" and s0: "s0 = peg_in_state_of txid_of hash_id st g'"
    by (rule peg_in_state_new_cases [OF assms])
  have "cz_depositor_key (pi_connector_z g) = st_depositor_taproot_key st \<and> cz_n_of_n_key (pi_connector_z g) = st_n_of_n_taproot_key st"
    using g by (auto simp: peg_in_graph_new_def peg_in_connectors_def connector_z_new_def depositor_context_of_def
        bind_eq_Some_conv Let_def)
  then show "cz_depositor_key (pi_connector_z s0) = st_depositor_taproot_key st"
    "cz_n_of_n_key (pi_connector_z s0) = st_n_of_n_taproot_key st"
    using sign_peg_in_keeps(6) [OF g'] by (simp_all add: s0)
qed

text \<open>
  C19. When the verifiers sign one after the other, each on the copy that those before him have signed, the last signature
  completes the confirmation. What is then returned for broadcast has the witness of connector Z's second leaf: the signature of
  the depositor, the aggregate of exactly the partial signatures of all verifiers, the script and its control block, in this
  order and once; and a node that executes the script over the two signatures accepts them, as long as signatures verify
  for those who made them.
\<close>

theorem confirm_signed_in_turn:
  assumes "signatures_verify verifies cr keypair st"
    and "peg_in_state_new pol txid_of hash_id cr keypair st deposit_input = Some s0" "unsigned_copy s0 s"
    and "verifiers (st_n_of_n_keys st) vs" "keys_of vs = set (st_n_of_n_keys st)" "vs \<noteq> []"
    and "sign_in_turn txid_of cr s vs = Some s'" "peg_in_confirm_action txid_of cl s' = Some (s'', Inr tx)"
  shows "confirm_has_all_signatures s' \<and>
    (let t = peg_in_confirm_tx s; leaf = connector_z_leaf_1_script (pi_connector_z s0) in
     \<exists>sig final nonces sigs.
       witness (tx_input tx ! 0) =
         [sig, final, script_bytes cr leaf, control_block cr (connector_z_spend_info (pi_connector_z s0)) leaf] \<and>
       leaf_sig cr keypair (unsigned tx) 0 (ps_prev_outs t) Sig_All leaf = Some sig \<and>
       musig2_nonces (pi_musig s) 0 = Some nonces \<and>
       aggregated_sig cr (st_n_of_n_keys st) (ps_tx t) nonces 0 (ps_prev_outs t) leaf Sig_All sigs = Some final \<and>
       dom sigs = set (st_n_of_n_keys st) \<and>
       (\<forall>v \<in> set vs. sigs (vc_public_key (fst v)) = partial_of txid_of cr t (Some nonces) v) \<and>
       leaf_accepts (\<lambda>key. verifies key (unsigned tx) 0 (ps_prev_outs t) leaf) leaf [sig, final])"
proof -
  let ?leaf = "connector_z_leaf_1_script (pi_connector_z s0)" and ?t = "peg_in_confirm_tx s" and ?keys = "st_n_of_n_keys st"
  have copy: "?t = peg_in_confirm_tx s0" "pi_connector_z s = pi_connector_z s0" "signers_of s = {}"
    using assms(3) by (simp_all add: unsigned_copy_def)
  obtain sig where sig: "length (tx_input (ps_tx ?t)) = 1" "witness (tx_input (ps_tx ?t) ! 0) = [minimal_element sig]"
      "leaf_sig cr keypair (unsigned (ps_tx ?t)) 0 (ps_prev_outs ?t) Sig_All ?leaf = Some sig" "ps_prev_scripts ?t = [?leaf]"
    by (rule depositor_signature [OF assms(2)]) (simp only: copy)
  have "completed cr ?keys s s'"
    by (rule sign_in_turn_complete [OF assms(7,4,6)]) (use assms(5) copy(3) in simp_all)
  then obtain nonces sigs final where f: "musig2_nonces (pi_musig s) 0 = Some nonces"
      "musig2_signatures (pi_musig s') 0 = Some sigs"
      "aggregated_sig cr ?keys (ps_tx ?t) nonces 0 (ps_prev_outs ?t) ?leaf Sig_All sigs = Some final"
      "appends (ps_tx ?t) 0 [final, script_bytes cr ?leaf, control_block cr (connector_z_spend_info (pi_connector_z s0)) ?leaf]
        (ps_tx (peg_in_confirm_tx s'))"
    by (auto simp: completed_def Let_def sig(4) copy(2))
  have tx: "tx = ps_tx (peg_in_confirm_tx s')"
    using assms(8) by (auto simp: peg_in_confirm_action_def attempt_ok if_confirmed_ok)
  have u: "unsigned tx = unsigned (ps_tx ?t)" unfolding tx by (rule appends_unsigned [OF f(4)])
  have ok: "sig \<noteq> [0]" "verifies (st_depositor_taproot_key st) (unsigned tx) 0 (ps_prev_outs ?t) ?leaf sig"
    "verifies (st_n_of_n_taproot_key st) (unsigned tx) 0 (ps_prev_outs ?t) ?leaf final"
    using assms(1) sig(3) f(3) u unsigned_unsigned unfolding signatures_verify_def by metis+
  have w: "witness (tx_input tx ! 0) =
      [sig, final, script_bytes cr ?leaf, control_block cr (connector_z_spend_info (pi_connector_z s0)) ?leaf]"
    using appends_witness [OF f(4)] sig(2) ok(1) by (simp add: tx minimal_element_def)
  have signed: "signers_of s' = set ?keys" using sign_in_turn_frame(1) [OF assms(7)] assms(5) copy(3) by simp
  then have d: "dom sigs = set ?keys" using signers_dom [OF f(2)] by (simp add: signers_of_def)
  have keys: "pi_n_of_n_keys s' = ?keys"
    using confirm_only_same [OF sign_in_turn_frame(3) [OF assms(7)]] assms(3)
    by (rule_tac peg_in_state_new_cases [OF assms(2)]) (simp add: unsigned_copy_def)
  have "sigs (vc_public_key (fst v)) = partial_of txid_of cr ?t (Some nonces) v" if "v \<in> set vs" for v
    using turn_signatures [OF assms(7,4) _ _ that] assms(5) copy(3) by (simp add: signature_of_def f(1,2))
  moreover have "leaf_accepts (\<lambda>key. verifies key (unsigned tx) 0 (ps_prev_outs ?t) ?leaf) ?leaf [sig, final]"
    using ok(2,3) connector_z_keys [OF assms(2)] by (simp add: connector_z_leaf_accepts)
  moreover have "confirm_has_all_signatures s'" using signed keys by (simp add: all_signatures_iff)
  ultimately show ?thesis using w sig(3) f(1,3) d unfolding Let_def
    by (intro conjI exI [of _ sig] exI [of _ final] exI [of _ nonces] exI [of _ sigs] ballI) (simp_all only: u)
qed

definition sample_verifies :: "xonly_key \<Rightarrow> btc_tx \<Rightarrow> nat \<Rightarrow> tx_out list \<Rightarrow> bridge_script \<Rightarrow> nat list \<Rightarrow> bool" where
  "sample_verifies key t i prevs script sig \<longleftrightarrow> (key, sig) \<in> {(11, [2]), (12, [5])}"

theorem confirm_signed_in_turn_witness:
  "\<exists>s0 s' tx. sample_peg_in_new = Some s0 \<and>
     sign_in_turn binding_txid sample_crypto (sample_peg_in_copy s0) [sample_verifier 1, sample_verifier 2] = Some s' \<and>
     peg_in_confirm_action binding_txid (sample_client [binding_txid (ps_tx (peg_in_deposit_tx s0))]) s' = Some (s', Inr tx) \<and>
     length (witness (tx_input tx ! 0)) = 4"
proof (rule sample_peg_in_state)
  fix s0
  assume s0: "sample_peg_in_new = Some s0"
    and ne: "binding_txid (ps_tx (peg_in_confirm_tx s0)) \<noteq> binding_txid (ps_tx (peg_in_deposit_tx s0))"
  let ?vs = "[sample_verifier 1, sample_verifier 2]"
  let ?cl = "sample_client [binding_txid (ps_tx (peg_in_deposit_tx s0))]"
  note copy = sample_copy [OF s0]
  obtain s' where s': "sign_in_turn binding_txid sample_crypto (sample_peg_in_copy s0) ?vs = Some s'"
    using sample_signs_in_turn [OF copy(2), of "[1, 2]"] by auto
  have v: "verifiers (st_n_of_n_keys sample_settings) ?vs" "keys_of ?vs = set (st_n_of_n_keys sample_settings)"
    by (auto simp: verifiers_def keys_of_def sample_verifier_def sample_settings_def)
  have "completed sample_crypto (st_n_of_n_keys sample_settings) (sample_peg_in_copy s0) s'"
    by (rule sign_in_turn_complete [OF s' v(1)]) (use v(2) copy(1) in \<open>simp_all add: unsigned_copy_def\<close>)
  then have "unsigned (ps_tx (peg_in_confirm_tx s')) = unsigned (ps_tx (peg_in_confirm_tx s0))"
    using copy(1) by (auto simp: completed_def Let_def unsigned_copy_def dest!: appends_unsigned)
  then have "binding_txid (ps_tx (peg_in_confirm_tx s')) = binding_txid (ps_tx (peg_in_confirm_tx s0))"
    using binding_txid by (simp add: txid_binding_def)
  then have r: "peg_in_confirm_action binding_txid ?cl s' = Some (s', Inr (ps_tx (peg_in_confirm_tx s')))"
    using ne confirm_only_same [OF sign_in_turn_frame(3) [OF s']]
    by (simp add: peg_in_confirm_action_def verify_if_not_mined_def if_confirmed_def with_status_def sample_peg_in_copy_def)
  have sigs: "signatures_verify sample_verifies sample_crypto 5 sample_settings"
    by (simp add: signatures_verify_def sample_verifies_def sample_crypto_def sample_settings_def)
  from confirm_signed_in_turn [OF sigs s0 copy(1) v _ s' r] show ?thesis using s0 s' r by (auto simp: Let_def)
qed

text \<open>
  C18. When two groups of verifiers sign on separate copies that are merged afterwards, nobody completes the
  confirmation: everybody has signed, every verifier is told to submit it and the operator to broadcast it, but what is
  returned carries the signature of the depositor alone.
\<close>

theorem confirm_signed_apart:
  assumes "peg_in_state_new pol txid_of hash_id cr keypair st deposit_input = Some s0" "unsigned_copy s0 s"
    and "confirm_has_all_nonces s" "verifiers (st_n_of_n_keys st) vs" "verifiers (st_n_of_n_keys st) ws"
    and "keys_of vs \<subset> set (st_n_of_n_keys st)" "keys_of ws \<subset> set (st_n_of_n_keys st)"
    and "keys_of vs \<union> keys_of ws = set (st_n_of_n_keys st)"
    and "sign_in_turn txid_of cr s vs = Some a" "sign_in_turn txid_of cr s ws = Some b"
    and "is_confirmed cl (txid_of (ps_tx (peg_in_deposit_tx s))) = Inr True"
    and "is_confirmed cl (txid_of (ps_tx (peg_in_confirm_tx s))) = Inr False"
    and "v \<in> set (vs @ ws)" "pi_peg_out_graphs s \<noteq> []"
  shows "confirm_has_all_signatures (peg_in_merge a b) \<and>
    status_for_verifier txid_of cl (fst v) (pi_peg_out_graphs (peg_in_merge a b)) (peg_in_merge a b) = Some Ready_To_Submit \<and>
    status_for_operator txid_of cl (peg_in_merge a b) = Peg_In_Confirm_Available \<and>
    (\<exists>tx sig. peg_in_confirm_action txid_of cl (peg_in_merge a b) = Some (peg_in_merge a b, Inr tx) \<and>
       witness (tx_input tx ! 0) = [minimal_element sig])"
proof -
  have keys: "pi_n_of_n_keys s0 = st_n_of_n_keys st"
    by (rule peg_in_state_new_cases [OF assms(1)]) simp
  let ?m = "peg_in_merge a b"
  note fa = sign_in_turn_frame [OF assms(9)] and fb = sign_in_turn_frame [OF assms(10)]
  have same: "peg_in_confirm_tx a = peg_in_confirm_tx s" "peg_in_confirm_tx b = peg_in_confirm_tx s"
    using sign_in_turn_partial [OF assms(9,4)] sign_in_turn_partial [OF assms(10,5)] assms(2,6,7)
    by (simp_all add: unsigned_copy_def)
  have m: "peg_in_confirm_tx ?m = peg_in_confirm_tx s" "peg_in_deposit_tx ?m = peg_in_deposit_tx s"
      "pi_n_of_n_keys ?m = st_n_of_n_keys st"
    using same confirm_only_same [OF fa(3)] assms(2) keys
    by (simp_all add: peg_in_merge_def merge_tx_def set_tx_def unsigned_copy_def)
  have signers: "signers_of ?m = set (st_n_of_n_keys st)"
    using fa(1) fb(1) assms(2,8) by (auto simp: signers_of_merge unsigned_copy_def)
  have all: "confirm_has_all_signatures ?m" using signers m(3) by (simp add: all_signatures_iff)
  have nonces: "contains_at (musig2_nonces (pi_musig ?m)) 0 k" if "k \<in> set (st_n_of_n_keys st)" for k
    using assms(2,3) that keys fa(2)
    by (simp add: confirm_has_all_nonces_def list_all_iff unsigned_copy_def peg_in_merge_def
        merge_musig2_nonces_and_signatures_def contains_at_merge)
  have vk: "vc_public_key (fst v) \<in> set (st_n_of_n_keys st)"
    using assms(13,4,5) by (auto simp: verifiers_def)
  have nonempty: "pi_peg_out_graphs ?m \<noteq> []"
    using confirm_only_same [OF fa(3)] assms(14) by (simp add: peg_in_merge_def) (metis set_empty2 remdups_adj_set set_sort
        append_is_Nil_conv)
  have st: "is_ok_and (get_tx_status cl (txid_of (ps_tx (peg_in_deposit_tx s)))) confirmed"
      "\<not> is_ok_and (get_tx_status cl (txid_of (ps_tx (peg_in_confirm_tx s)))) confirmed"
    using assms(11,12) by (auto simp: is_confirmed_def is_ok_and_def split: sum.splits)
  have "contains_at (musig2_signatures (pi_musig ?m)) 0 (vc_public_key (fst v))"
    using signers vk by (auto simp: signers_of_def signers_def)
  then have "status_for_verifier txid_of cl (fst v) (pi_peg_out_graphs ?m) ?m = Some Ready_To_Submit"
    using st m nonces vk nonempty all
    by (simp add: status_for_verifier_def get_peg_in_statuses_def num_required_operators_def Suc_le_eq
        confirm_has_nonce_of_def confirm_has_all_nonces_def list_all_iff has_signatures_for_def has_all_signatures_def
        not_less_eq)
  moreover have "status_for_operator txid_of cl ?m = Peg_In_Confirm_Available"
    using st m all by (simp add: status_for_operator_def get_peg_in_statuses_def)
  moreover have "peg_in_confirm_action txid_of cl ?m = Some (?m, Inr (ps_tx (peg_in_confirm_tx s)))"
    using assms(11,12) m
    by (auto simp: peg_in_confirm_action_def verify_if_not_mined_def if_confirmed_def with_status_def is_confirmed_def
        split: sum.splits)
  moreover obtain sig where "witness (tx_input (ps_tx (peg_in_confirm_tx s)) ! 0) = [minimal_element sig]"
    using depositor_witness(1) [OF assms(1)] assms(2) by (auto simp: unsigned_copy_def)
  ultimately show ?thesis using all by blast
qed

theorem confirm_signed_apart_witness:
  "\<exists>s0 a b tx. sample_peg_in_new = Some s0 \<and>
     sign_in_turn binding_txid sample_crypto (sample_peg_in_copy s0) [sample_verifier 1] = Some a \<and>
     sign_in_turn binding_txid sample_crypto (sample_peg_in_copy s0) [sample_verifier 2] = Some b \<and>
     confirm_has_all_signatures (peg_in_merge a b) \<and>
     peg_in_confirm_action binding_txid (sample_client [binding_txid (ps_tx (peg_in_deposit_tx s0))]) (peg_in_merge a b) =
       Some (peg_in_merge a b, Inr tx) \<and> length (witness (tx_input tx ! 0)) = 1"
proof (rule sample_peg_in_state)
  fix s0
  assume s0: "sample_peg_in_new = Some s0"
    and ne: "binding_txid (ps_tx (peg_in_confirm_tx s0)) \<noteq> binding_txid (ps_tx (peg_in_deposit_tx s0))"
  let ?cl = "sample_client [binding_txid (ps_tx (peg_in_deposit_tx s0))]"
  note copy = sample_copy [OF s0]
  obtain a b where a: "sign_in_turn binding_txid sample_crypto (sample_peg_in_copy s0) [sample_verifier 1] = Some a"
    and b: "sign_in_turn binding_txid sample_crypto (sample_peg_in_copy s0) [sample_verifier 2] = Some b"
    using sample_signs_in_turn [OF copy(2), of "[1]"] sample_signs_in_turn [OF copy(2), of "[2]"] by auto
  have v: "verifiers (st_n_of_n_keys sample_settings) [sample_verifier 1]"
      "verifiers (st_n_of_n_keys sample_settings) [sample_verifier 2]"
      "keys_of [sample_verifier 1] \<subset> set (st_n_of_n_keys sample_settings)"
      "keys_of [sample_verifier 2] \<subset> set (st_n_of_n_keys sample_settings)"
      "keys_of [sample_verifier 1] \<union> keys_of [sample_verifier 2] = set (st_n_of_n_keys sample_settings)"
    unfolding keys_of_def psubset_eq
    by (simp_all add: verifiers_def sample_verifier_def sample_settings_def insert_commute)
  have cl: "is_confirmed ?cl (binding_txid (ps_tx (peg_in_deposit_tx (sample_peg_in_copy s0)))) = Inr True"
      "is_confirmed ?cl (binding_txid (ps_tx (peg_in_confirm_tx (sample_peg_in_copy s0)))) = Inr False"
    using ne by (simp_all add: sample_peg_in_copy_def)
  have ne1: "pi_peg_out_graphs (sample_peg_in_copy s0) \<noteq> []" by (simp add: copy(4))
  obtain tx sig where "confirm_has_all_signatures (peg_in_merge a b)"
    "peg_in_confirm_action binding_txid ?cl (peg_in_merge a b) = Some (peg_in_merge a b, Inr tx)"
    "witness (tx_input tx ! 0) = [minimal_element sig]"
    using confirm_signed_apart [OF s0 copy(1,3) v a b cl, of "sample_verifier 1"] ne1 by (metis list.set_intros(1) append_Cons)
  then show ?thesis using s0 a b by force
qed

lemma copies_validate:
  assumes "peg_in_state_new pol txid_of hash_id cr keypair st deposit_input = Some s0"
    and "peg_in_reachable txid_of cr' s0 s"
    and "lists_entries (entries (musig2_nonces (pi_musig s))) (musig2_nonces (pi_musig s))"
  shows "peg_in_validate pol txid_of hash_id verify_public_nonce entries s = Some (Inr ()) \<longleftrightarrow>
    nonces_signed verify_public_nonce (pi_musig s)"
proof -
  obtain g where g: "peg_in_new_for_validation pol txid_of hash_id s = Some g"
    and u: "unsigned (ps_tx (peg_in_deposit_tx s)) = unsigned (ps_tx (peg_in_deposit_tx g))"
      "unsigned (ps_tx (peg_in_refund_tx s)) = unsigned (ps_tx (peg_in_refund_tx g))"
      "unsigned (ps_tx (peg_in_confirm_tx s)) = unsigned (ps_tx (peg_in_confirm_tx g))"
    using peg_in_rebuilt [OF assms(1) peg_in_reachable_same [OF assms(2)]] by blast
  have ok: "validate_transaction txid_of a b name = Some (Inr ())" if "unsigned a = unsigned b" for a b name
    using unsigned_parts [OF that] by (simp add: validate_transaction_ok)
  have "(\<forall>(i, ns) \<in> set (entries (musig2_nonces (pi_musig s))). \<forall>(k, n) \<in> set ns. Q i k n) \<longleftrightarrow>
      (\<forall>i k n. entry (musig2_nonces (pi_musig s)) i k = Some n \<longrightarrow> Q i k n)" for Q
    using assms(3) by (fastforce simp: lists_entries_def)
  then have "verify_public_nonces verify_public_nonce (entries (musig2_nonces (pi_musig s)))
      (musig2_nonce_signatures (pi_musig s)) (txid_of (ps_tx (peg_in_confirm_tx s))) ''PegInConfirm'' = Some (Inr ()) \<longleftrightarrow>
      nonces_signed verify_public_nonce (pi_musig s)"
    unfolding verify_public_nonces_ok_iff nonces_signed_def by presburger
  then show ?thesis
    by (simp add: peg_in_validate_def g first_error_ok ok [OF u(1)] ok [OF u(2)] ok [OF u(3)] del: first_error.simps)
qed

text \<open>
  C24. A copy of a peg-in that came about from a new one by nonces, signatures, merges and the offers of operators
  passes the validation of any participant exactly when every nonce has a signature of its key.
\<close>

theorem peg_in_copies_validate:
  assumes "peg_in_state_new pol txid_of hash_id cr keypair st deposit_input = Some s0"
    and "peg_in_reachable txid_of cr' s0 s"
    and "lists_entries (entries (musig2_nonces (pi_musig s))) (musig2_nonces (pi_musig s))"
  shows "peg_in_validate pol txid_of hash_id verify_public_nonce entries s = Some (Inr ()) \<longleftrightarrow>
    nonces_signed verify_public_nonce (pi_musig s)"
  by (rule copies_validate) (rule assms)+

theorem peg_in_copies_validate_witness:
  "\<exists>s0. sample_peg_in_new = Some s0 \<and>
     peg_in_validate core_policy binding_txid (\<lambda>_. ''peg-in'') (\<lambda>_ _ _. False) (\<lambda>_. []) s0 = Some (Inr ())"
proof (rule sample_peg_in_state)
  fix s0 assume s0: "sample_peg_in_new = Some s0"
  have m: "pi_musig s0 = empty_musig" by (rule peg_in_state_new_cases [OF s0]) simp
  have "peg_in_validate core_policy binding_txid (\<lambda>_. ''peg-in'') (\<lambda>_ _ _. False) (\<lambda>_. []) s0 = Some (Inr ())"
    using peg_in_copies_validate [OF s0 peg_in_reachable.created [of binding_txid sample_crypto s0],
        of "\<lambda>_. []" "\<lambda>_ _ _. False"]
    by (simp add: m lists_entries_def nonces_signed_def empty_musig_def entry_def)
  then show ?thesis using s0 by blast
qed

lemma sample_lock:
  assumes "sample_peg_in_new = Some s0"
  shows "cz_timelock_0 (pi_connector_z s0) = num_blocks_per_2_weeks"
proof -
  obtain g g' where g: "peg_in_graph_new core_policy binding_txid (depositor_context_of sample_settings) sample_deposit
      (st_evm_address sample_settings) = Some g" "sign_peg_in sample_crypto 5 g = Some g'"
      "s0 = peg_in_state_of binding_txid (\<lambda>_. ''peg-in'') sample_settings g'"
    by (rule peg_in_state_new_cases [OF assms])
  have "pi_connector_z g = connector_z_new Btc_Mainnet ''0xab'' 11 12"
    using g(1) by (auto simp: peg_in_graph_new_def peg_in_connectors_def bind_eq_Some_conv Let_def sample_settings_def
        depositor_context_of_def)
  then show ?thesis using sign_peg_in_keeps(6) [OF g(2)] by (simp add: g(3) connector_z_new_def)
qed

text \<open>
  C37. When the depositor is told that the refund is available and the node knows it to be unconfirmed, the refund is returned and
  the relative time lock of its input has run out; the refund itself does not ask: it is returned as soon as the
  deposit is confirmed, however recent.
\<close>

theorem refund_when_available:
  assumes "is_confirmed cl (txid_of (ps_tx (peg_in_refund_tx s))) = Inr False"
    and "status_for_depositor txid_of cl s = Some Peg_In_Refund_Available"
  shows "peg_in_refund_action txid_of cl s = Some (s, Inr (ps_tx (peg_in_refund_tx s))) \<and>
    (\<exists>st h b. get_tx_status cl (txid_of (ps_tx (peg_in_deposit_tx s))) = Inr st \<and> confirmed st \<and>
      block_height st = Some b \<and> get_height cl = Inr h \<and> b + cz_timelock_0 (pi_connector_z s) \<le> h) \<and>
    (\<forall>cl' st. get_tx_status cl' (txid_of (ps_tx (peg_in_deposit_tx s))) = Inr st \<and> confirmed st \<and>
      is_confirmed cl' (txid_of (ps_tx (peg_in_refund_tx s))) = Inr False \<longrightarrow>
      peg_in_refund_action txid_of cl' s = Some (s, Inr (ps_tx (peg_in_refund_tx s))))"
proof -
  have refund: "peg_in_refund_action txid_of cl' s = Some (s, Inr (ps_tx (peg_in_refund_tx s)))"
    if "get_tx_status cl' (txid_of (ps_tx (peg_in_deposit_tx s))) = Inr st \<and> confirmed st \<and>
      is_confirmed cl' (txid_of (ps_tx (peg_in_refund_tx s))) = Inr False" for cl' st
    using that by (simp add: peg_in_refund_action_def verify_if_not_mined_def if_confirmed_def with_status_def)
  have due: "\<exists>st h b. get_tx_status cl (txid_of (ps_tx (peg_in_deposit_tx s))) = Inr st \<and> confirmed st \<and>
      block_height st = Some b \<and> get_height cl = Inr h \<and> b + cz_timelock_0 (pi_connector_z s) \<le> h"
    using assms(2)
    by (auto simp: status_for_depositor_def get_peg_in_statuses_def interpret_depositor_status_def bind_eq_Some_conv
        split: sum.splits if_splits option.splits)
  show ?thesis using refund due assms(1) by blast
qed

theorem refund_when_available_witness:
  "\<exists>s0. sample_peg_in_new = Some s0 \<and>
     peg_in_refund_action binding_txid (sample_client [binding_txid (ps_tx (peg_in_deposit_tx s0))]) s0 =
       Some (s0, Inr (ps_tx (peg_in_refund_tx s0)))"
proof (rule sample_peg_in_state)
  fix s0
  assume s0: "sample_peg_in_new = Some s0"
    and ne: "binding_txid (ps_tx (peg_in_confirm_tx s0)) \<noteq> binding_txid (ps_tx (peg_in_deposit_tx s0))"
      "binding_txid (ps_tx (peg_in_refund_tx s0)) \<noteq> binding_txid (ps_tx (peg_in_deposit_tx s0))"
  let ?cl = "sample_client [binding_txid (ps_tx (peg_in_deposit_tx s0))]"
  have lock: "cz_timelock_0 (pi_connector_z s0) = num_blocks_per_2_weeks" using sample_lock [OF s0] .
  have "is_confirmed ?cl (binding_txid (ps_tx (peg_in_refund_tx s0))) = Inr False" using ne by simp
  moreover have "status_for_depositor binding_txid ?cl s0 = Some Peg_In_Refund_Available"
    using ne by (simp add: status_for_depositor_def get_peg_in_statuses_def interpret_depositor_status_def
        is_ok_and_def lock num_blocks_defs)
  ultimately have "peg_in_refund_action binding_txid ?cl s0 = Some (s0, Inr (ps_tx (peg_in_refund_tx s0)))"
    using refund_when_available by blast
  then show ?thesis using s0 by blast
qed

end
