(* ===== verification/Data_Store.thy ===== *)
theory Data_Store
  imports Commitments "HOL-Library.Char_ord" "HOL-Library.List_Lexorder" "HOL-Library.AList" "HOL-Library.Monad_Syntax"
begin

text \<open>
  The shared store of the clients (\<open>client/data_store/data_store.rs\<close>): files named by the time of writing,
  behind a driver that lists, fetches and uploads. A driver is a record of its operations on a state of
  its own, where \<open>None\<close> is a panic; \<open>local_file.rs\<close> is modelled as one, with the answers of the operating system
  as part of its state, and the laws a client relies on are a locale. The regular expression of file names, the
  compressor and the clock are parameters.
\<close>

section \<open>Drivers\<close>

record 'd driver =
  list_objects :: "'d \<Rightarrow> string option \<Rightarrow> (string + string list) option"
  fetch_object :: "'d \<Rightarrow> string \<Rightarrow> string option \<Rightarrow> string + nat list"
  upload_object :: "'d \<Rightarrow> string \<Rightarrow> nat list \<Rightarrow> string option \<Rightarrow> 'd \<times> (string + nat)"
  fetch_compressed_object :: "'d \<Rightarrow> string \<Rightarrow> string option \<Rightarrow> string + nat list \<times> nat"
  upload_compressed_object :: "'d \<Rightarrow> string \<Rightarrow> nat list \<Rightarrow> string option \<Rightarrow> 'd \<times> (string + nat)"

record 'd data_store =
  client_data_suffix :: string
  client_data_regex :: "string \<Rightarrow> bool"
  ds_aws_s3 :: "'d driver option"
  ds_ftp :: "'d driver option"
  ds_ftps :: "'d driver option"
  ds_sftp :: "'d driver option"
  ds_local_file :: "'d driver option"

definition get_driver :: "'d data_store \<Rightarrow> string + 'd driver" where
  "get_driver ds =
     (case ds_local_file ds of Some d \<Rightarrow> Inr d | None \<Rightarrow>
      (case ds_aws_s3 ds of Some d \<Rightarrow> Inr d | None \<Rightarrow>
      (case ds_ftp ds of Some d \<Rightarrow> Inr d | None \<Rightarrow>
      (case ds_ftps ds of Some d \<Rightarrow> Inr d | None \<Rightarrow>
      (case ds_sftp ds of Some d \<Rightarrow> Inr d | None \<Rightarrow>
        Inl ''Bridge client is missing AWS S3, FTP, FTPS, or SFTP credentials'')))))"

section \<open>File names\<close>

definition create_file_name :: "'d data_store \<Rightarrow> nat \<Rightarrow> string" where
  "create_file_name ds timestamp = show_nat timestamp @ client_data_suffix ds"

definition get_file_timestamp :: "'d data_store \<Rightarrow> string \<Rightarrow> string + nat" where
  "get_file_timestamp ds file_name =
     (if client_data_regex ds file_name
      then case parse_unsigned 64 (take 13 file_name) of
             Some t \<Rightarrow> Inr t | None \<Rightarrow> Inl ''Failed to parse file timestamp''
      else Inl ''Incorrect file name'')"

text \<open>Milliseconds less a period in seconds; a negative duration panics.\<close>

definition get_past_max_file_name_by_timestamp :: "'d data_store \<Rightarrow> nat \<Rightarrow> nat \<Rightarrow> string option" where
  "get_past_max_file_name_by_timestamp ds latest_timestamp period =
     map_option (create_file_name ds) (checked_sub latest_timestamp (1000 * period))"

text \<open>What \<open>rsplit\<close> at the slashes yields first.\<close>

definition last_segment :: "string \<Rightarrow> string" where
  "last_segment key = rev (takeWhile (\<lambda>c. c \<noteq> CHR ''/'') (rev key))"

definition get_file_names :: "'d data_store \<Rightarrow> 'd \<Rightarrow> string option \<Rightarrow> (string + string list) option" where
  "get_file_names ds d file_path =
     (case get_driver ds of
        Inl e \<Rightarrow> Some (Inl e)
      | Inr driver \<Rightarrow>
          do {
            r \<leftarrow> list_objects driver d file_path;
            Some (and_then r (\<lambda>keys. Inr (sort (filter (client_data_regex ds) (map last_segment keys)))))
          })"

section \<open>Reading and writing\<close>

text \<open>A file that cannot be fetched is no error but no data.\<close>

definition fetch_data_by_key :: "'d data_store \<Rightarrow> 'd \<Rightarrow> string \<Rightarrow> string option \<Rightarrow> string + nat list option" where
  "fetch_data_by_key ds d key file_path =
     and_then (get_driver ds) (\<lambda>driver.
       case fetch_object driver d key file_path of Inr data \<Rightarrow> Inr (Some data) | Inl _ \<Rightarrow> Inr None)"

definition fetch_compressed_data_by_key ::
  "'d data_store \<Rightarrow> 'd \<Rightarrow> string \<Rightarrow> string option \<Rightarrow> string + nat list option \<times> nat" where
  "fetch_compressed_data_by_key ds d key file_path =
     and_then (get_driver ds) (\<lambda>driver.
       case fetch_compressed_object driver d key file_path of
         Inr (data, len) \<Rightarrow> Inr (Some data, len) | Inl _ \<Rightarrow> Inr (None, 0))"

definition write_data :: "'d data_store \<Rightarrow> nat \<Rightarrow> 'd \<Rightarrow> nat list \<Rightarrow> string option \<Rightarrow> 'd \<times> (string + string)" where
  "write_data ds time d contents file_path =
     (case get_driver ds of
        Inl e \<Rightarrow> (d, Inl e)
      | Inr driver \<Rightarrow>
          (case upload_object driver d (create_file_name ds time) contents file_path of
             (d', Inr _) \<Rightarrow> (d', Inr (create_file_name ds time))
           | (d', Inl _) \<Rightarrow> (d', Inl ''Failed to save data file'')))"

definition write_compressed_data ::
  "'d data_store \<Rightarrow> nat \<Rightarrow> 'd \<Rightarrow> nat list \<Rightarrow> string option \<Rightarrow> 'd \<times> (string + string \<times> nat)" where
  "write_compressed_data ds time d contents file_path =
     (case get_driver ds of
        Inl e \<Rightarrow> (d, Inl e)
      | Inr driver \<Rightarrow>
          (case upload_compressed_object driver d (create_file_name ds time) contents file_path of
             (d', Inr len) \<Rightarrow> (d', Inr (create_file_name ds time, len))
           | (d', Inl _) \<Rightarrow> (d', Inl ''Failed to save data file'')))"

section \<open>The order of file names is the order of times\<close>

lemma show_nat_nonempty [simp]: "show_nat n \<noteq> []"
  by (subst show_nat.simps) simp

lemma digit_char_less: "a < 10 \<Longrightarrow> b < 10 \<Longrightarrow> digit_char a < digit_char b \<longleftrightarrow> a < b"
  by (simp add: less_char_def of_char_digit_char)

lemma append_less_same_length:
  fixes xs ys :: "'a :: linorder list"
  assumes "length xs = length ys"
  shows "xs @ s < ys @ t \<longleftrightarrow> xs < ys \<or> xs = ys \<and> s < t"
  using assms by (induction xs ys rule: list_induct2) auto

lemma show_nat_inj: "show_nat m = show_nat n \<longleftrightarrow> m = n"
proof
  assume eq: "show_nat m = show_nat n"
  have less: "k < 2 ^ w" if "k \<le> w" for k w :: nat
    by (rule le_less_trans [OF that less_exp])
  have "Some m = parse_digits (m + n) 0 (show_nat m)"
    by (rule parse_digits_show_nat [symmetric]) (rule less, rule le_add1)
  also have "\<dots> = Some n"
    unfolding eq by (rule parse_digits_show_nat) (rule less, rule le_add2)
  finally show "m = n" by (rule option.inject [THEN iffD1])
qed simp

lemma show_nat_step: "10 \<le> n \<Longrightarrow> show_nat n = show_nat (n div 10) @ [digit_char (n mod 10)]"
  by (subst show_nat.simps) simp

lemma show_nat_digit: "n < 10 \<Longrightarrow> show_nat n = [digit_char n]"
  by (subst show_nat.simps) simp

lemma show_nat_one_digit: "length (show_nat n) = 1 \<longleftrightarrow> n < 10"
  by (cases "n < 10") (simp_all add: show_nat_digit show_nat_step not_less)

lemma div_mod_less: "m < n \<longleftrightarrow> m div 10 < n div 10 \<or> m div 10 = n div 10 \<and> m mod 10 < (n mod 10 :: nat)"
  using div_mult_mod_eq [of m 10] div_mult_mod_eq [of n 10] mod_less_divisor [of 10 m] mod_less_divisor [of 10 n]
  by linarith

lemma show_nat_less:
  assumes "length (show_nat m) = length (show_nat n)"
  shows "show_nat m < show_nat n \<longleftrightarrow> m < n"
  using assms
proof (induction m arbitrary: n rule: show_nat.induct)
  case (1 m)
  consider "m < 10" "n < 10" | "\<not> m < 10" "\<not> n < 10"
    using 1(2) show_nat_one_digit [of m] show_nat_one_digit [of n] by argo
  then show ?case
  proof cases
    case 1
    then show ?thesis by (simp add: show_nat_digit digit_char_less)
  next
    case 2
    have l: "length (show_nat (m div 10)) = length (show_nat (n div 10))"
      using 1(2) 2 by (simp add: show_nat_step)
    have "show_nat m < show_nat n \<longleftrightarrow>
        show_nat (m div 10) < show_nat (n div 10) \<or>
        show_nat (m div 10) = show_nat (n div 10) \<and> [digit_char (m mod 10)] < [digit_char (n mod 10)]"
      using 2 by (simp only: show_nat_step not_less append_less_same_length [OF l])
    also have "\<dots> \<longleftrightarrow> m div 10 < n div 10 \<or> m div 10 = n div 10 \<and> m mod 10 < n mod 10"
      by (simp add: 1(1) [OF 2(1) l] show_nat_inj digit_char_less)
    also have "\<dots> \<longleftrightarrow> m < n" using div_mod_less [of m n] by blast
    finally show ?thesis .
  qed
qed

lemma create_file_name_less:
  assumes "length (show_nat m) = length (show_nat n)"
  shows "create_file_name ds m \<le> create_file_name ds n \<longleftrightarrow> m \<le> n"
  using append_less_same_length [OF assms, of "client_data_suffix ds" "client_data_suffix ds"] show_nat_less [OF assms]
  by (auto simp: create_file_name_def show_nat_inj le_less)

text \<open>Between the years 2001 and 2286 a time in milliseconds has thirteen digits.\<close>

definition in_epoch :: "nat \<Rightarrow> bool" where
  "in_epoch t \<longleftrightarrow> 10 ^ 12 \<le> t \<and> t < 10 ^ 13"

lemma length_show_nat: "10 ^ k \<le> n \<Longrightarrow> n < 10 ^ Suc k \<Longrightarrow> length (show_nat n) = Suc k"
proof (induction k arbitrary: n)
  case 0
  then show ?case by (simp add: show_nat_digit)
next
  case (Suc k)
  have "10 ^ Suc k \<le> n div 10 * 10 + n mod 10" using Suc.prems(1) by simp
  then have lo: "10 ^ k \<le> n div 10" using Suc.prems(1) by (simp add: less_eq_div_iff_mult_less_eq mult.commute)
  have hi: "n div 10 < 10 ^ Suc k" using Suc.prems(2) by (simp add: less_mult_imp_div_less mult.commute)
  have "10 \<le> n" using Suc.prems(1) by (metis le_trans power_increasing_iff one_le_numeral power_one_right le_add1 plus_1_eq_Suc
        self_le_power zero_less_Suc)
  then show ?case using Suc.IH [OF lo hi] by (subst show_nat.simps) simp
qed

lemma in_epoch_length: "in_epoch t \<Longrightarrow> length (show_nat t) = 13"
  using length_show_nat [of 12 t] by (simp add: in_epoch_def)

lemma create_file_name_le:
  "in_epoch m \<Longrightarrow> in_epoch n \<Longrightarrow> create_file_name ds m \<le> create_file_name ds n \<longleftrightarrow> m \<le> n"
  by (rule create_file_name_less) (simp add: in_epoch_length)

lemma show_nat_plus: "hd (show_nat n) \<noteq> CHR ''+''"
proof (induction n rule: show_nat.induct)
  case (1 n)
  show ?case
  proof (cases "n < 10")
    case True
    then show ?thesis using digit_char_neq [of n "CHR ''+''"] by (simp add: show_nat_digit)
  next
    case False
    then show ?thesis using 1 by (simp add: show_nat_step not_less)
  qed
qed

lemma parse_unsigned_show_two:
  assumes "n < 2 ^ w" "2 \<le> length (show_nat n)"
  shows "parse_unsigned w (show_nat n) = Some n"
proof -
  obtain c d s where s: "show_nat n = c # d # s"
    using assms(2) by (cases "show_nat n"; cases "tl (show_nat n)") auto
  then have "c \<noteq> CHR ''+''" using show_nat_plus [of n] by simp
  then show ?thesis using parse_digits_show_nat [OF assms(1)] by (simp add: parse_unsigned_def s)
qed

text \<open>The time of a name is read back when the expression accepts names of this form.\<close>

lemma file_timestamp_roundtrip:
  assumes "in_epoch t" "client_data_regex ds (create_file_name ds t)"
  shows "get_file_timestamp ds (create_file_name ds t) = Inr t"
proof -
  have "t < 2 ^ 64" using assms(1) by (simp add: in_epoch_def)
  then have "parse_unsigned 64 (show_nat t) = Some t"
    using in_epoch_length [OF assms(1)] by (simp add: parse_unsigned_show_two)
  then show ?thesis
    using assms(2) in_epoch_length [OF assms(1)] by (simp add: get_file_timestamp_def create_file_name_def)
qed

section \<open>What a client relies on\<close>

text \<open>
  After a successful upload the file is fetched as it was written, every other file as before, and the
  names listed are the old ones and the new one. \<open>inv\<close> are the states of the driver that this is
  promised for.
\<close>

locale object_store =
  fixes driver :: "'d driver"
    and inv :: "'d \<Rightarrow> bool"
  assumes fetch_uploaded:
      "inv d \<Longrightarrow> upload_compressed_object driver d f c p = (d', Inr n) \<Longrightarrow>
        \<exists>m. fetch_compressed_object driver d' f p = Inr (c, m)"
    and fetch_others:
      "inv d \<Longrightarrow> upload_compressed_object driver d f c p = (d', Inr n) \<Longrightarrow> g \<noteq> f \<Longrightarrow>
        fetch_compressed_object driver d' g p = fetch_compressed_object driver d g p"
    and list_uploaded:
      "inv d \<Longrightarrow> upload_compressed_object driver d f c p = (d', Inr n) \<Longrightarrow> list_objects driver d p = Some (Inr ks) \<Longrightarrow>
        \<exists>ks'. list_objects driver d' p = Some (Inr ks') \<and>
          last_segment ` set ks' = insert (last_segment f) (last_segment ` set ks)"
    and inv_uploaded: "inv d \<Longrightarrow> upload_compressed_object driver d f c p = (d', Inr n) \<Longrightarrow> inv d'"
begin

lemma write_cases:
  assumes "get_driver ds = Inr driver" "write_compressed_data ds time d c p = (d', Inr (f, n))"
  shows "f = create_file_name ds time" "upload_compressed_object driver d f c p = (d', Inr n)"
  using assms by (auto simp: write_compressed_data_def split: prod.splits sum.splits)

lemma written_is_fetched:
  assumes "get_driver ds = Inr driver" "inv d" "write_compressed_data ds time d c p = (d', Inr (f, n))"
  shows "\<exists>m. fetch_compressed_data_by_key ds d' f p = Inr (Some c, m)"
  using fetch_uploaded [OF assms(2) write_cases(2) [OF assms(1,3)]] assms(1)
  by (auto simp: fetch_compressed_data_by_key_def)

lemma others_are_kept:
  assumes "get_driver ds = Inr driver" "inv d" "write_compressed_data ds time d c p = (d', Inr (f, n))" "g \<noteq> f"
  shows "fetch_compressed_data_by_key ds d' g p = fetch_compressed_data_by_key ds d g p"
  using fetch_others [OF assms(2) write_cases(2) [OF assms(1,3)] assms(4)] assms(1)
  by (simp add: fetch_compressed_data_by_key_def)

text \<open>A name later than all others is listed last.\<close>

lemma written_is_last:
  assumes "get_driver ds = Inr driver" "inv d" "write_compressed_data ds time d c p = (d', Inr (f, n))"
    and "get_file_names ds d p = Some (Inr names)" "\<forall>g \<in> set names. g < f"
    and "client_data_regex ds f" "last_segment f = f"
  shows "\<exists>names'. get_file_names ds d' p = Some (Inr names') \<and> set names' = insert f (set names) \<and> names' \<noteq> [] \<and> last names' = f"
proof -
  obtain ks where ks: "list_objects driver d p = Some (Inr ks)"
      "names = sort (filter (client_data_regex ds) (map last_segment ks))"
    using assms(1,4) by (auto simp: get_file_names_def and_then_Inr_iff bind_eq_Some_conv)
  obtain ks' where ks': "list_objects driver d' p = Some (Inr ks')"
      "last_segment ` set ks' = insert f (last_segment ` set ks)"
    using list_uploaded [OF assms(2) write_cases(2) [OF assms(1,3)] ks(1)] assms(7) by auto
  let ?names = "sort (filter (client_data_regex ds) (map last_segment ks'))"
  have s: "set ?names = insert f (set names)"
  proof -
    have "set ?names = {x \<in> last_segment ` set ks'. client_data_regex ds x}" by auto
    also have "\<dots> = insert f {x \<in> last_segment ` set ks. client_data_regex ds x}" using ks'(2) assms(6) by auto
    finally show ?thesis by (auto simp: ks(2))
  qed
  then have ne: "?names \<noteq> []" by (metis empty_set insert_not_empty)
  have "f \<le> last ?names" using s sorted_sort [of "filter (client_data_regex ds) (map last_segment ks')"]
    by (metis insertI1 in_set_conv_decomp_first sorted_append last_in_set last_appendR list.distinct(1) last_ConsL
        append_is_Nil_conv order_refl last.simps sorted_wrt.simps(2) set_ConsD)
  moreover have "last ?names \<in> insert f (set names)" using s ne last_in_set by blast
  ultimately have "last ?names = f" using assms(5) by auto
  then show ?thesis using s ne ks'(1) assms(1) by (simp add: get_file_names_def)
qed

lemma write_keeps_inv:
  "get_driver ds = Inr driver \<Longrightarrow> inv d \<Longrightarrow> write_compressed_data ds time d c p = (d', Inr (f, n)) \<Longrightarrow> inv d'"
  using inv_uploaded write_cases(2) by blast

end

section \<open>Files of this machine\<close>

text \<open>
  The driver over a directory of the machine: its files by directory and name, in the order of the directory, and
  what the operating system answers: whether a directory exists or can be made, whether it can be read, which of its
  entries are reported as regular files, which files can be read, and how a write ends. A write that fails either leaves
  the file alone or stops after some of the bytes. The texts of the errors of the operating system are left out.
\<close>

type_synonym local_files = "((string option \<times> string) \<times> nat list) list"

datatype write_answer = Written | Not_Opened | Stopped_After nat

record os_answers =
  os_dir :: "string option \<Rightarrow> bool"
  os_read_dir :: "string option \<Rightarrow> bool"
  os_entry :: "string option \<times> string \<Rightarrow> bool"
  os_read :: "string option \<times> string \<Rightarrow> bool"
  os_write :: "string option \<times> string \<Rightarrow> nat list \<Rightarrow> write_answer"

record local_disk =
  disk_files :: local_files
  disk_os :: os_answers

record compressor =
  compress :: "nat list \<Rightarrow> string + nat list"
  decompress :: "nat list \<Rightarrow> string + nat list"

definition path_of :: "string \<Rightarrow> string option \<Rightarrow> string \<Rightarrow> string" where
  "path_of base_path file_path file_name =
     (case file_path of
        None \<Rightarrow> base_path @ ''/'' @ file_name
      | Some dir \<Rightarrow> base_path @ ''/'' @ dir @ ''/'' @ file_name)"

text \<open>A directory that exists and cannot be read is a panic.\<close>

definition local_list :: "string \<Rightarrow> local_disk \<Rightarrow> string option \<Rightarrow> (string + string list) option" where
  "local_list base_path d file_path =
     (if \<not> os_dir (disk_os d) file_path then Some (Inl [])
      else if \<not> os_read_dir (disk_os d) file_path then None
      else Some (Inr (map (\<lambda>((dir, name), _). path_of base_path dir name)
        (filter (\<lambda>(key, _). fst key = file_path \<and> os_entry (disk_os d) key) (disk_files d)))))"

definition local_get :: "local_disk \<Rightarrow> string \<Rightarrow> string option \<Rightarrow> string + nat list" where
  "local_get d file_name file_path =
     (if os_read (disk_os d) (file_path, file_name)
      then case map_of (disk_files d) (file_path, file_name) of
             None \<Rightarrow> Inl ''Failed to get json file: '' | Some data \<Rightarrow> Inr data
      else Inl ''Failed to get json file: '')"

definition local_write :: "local_disk \<Rightarrow> string \<Rightarrow> nat list \<Rightarrow> string option \<Rightarrow> local_disk \<times> bool" where
  "local_write d file_name data file_path =
     (if \<not> os_dir (disk_os d) file_path then (d, False)
      else case os_write (disk_os d) (file_path, file_name) data of
             Written \<Rightarrow> (d\<lparr>disk_files := AList.update (file_path, file_name) data (disk_files d)\<rparr>, True)
           | Not_Opened \<Rightarrow> (d, False)
           | Stopped_After n \<Rightarrow>
               (d\<lparr>disk_files := AList.update (file_path, file_name) (take n (butlast data)) (disk_files d)\<rparr>, False))"

definition local_fetch :: "(nat list \<Rightarrow> bool) \<Rightarrow> local_disk \<Rightarrow> string \<Rightarrow> string option \<Rightarrow> string + nat list" where
  "local_fetch is_utf8 d file_name file_path =
     and_then (local_get d file_name file_path) (\<lambda>buffer.
       if is_utf8 buffer then Inr buffer else Inl ''Failed to parse json: '')"

definition local_upload :: "local_disk \<Rightarrow> string \<Rightarrow> nat list \<Rightarrow> string option \<Rightarrow> local_disk \<times> (string + nat)" where
  "local_upload d file_name contents file_path =
     (case local_write d file_name contents file_path of
        (d', ok) \<Rightarrow> (d', if ok then Inr (length contents) else Inl ''Failed to save json file: ''))"

definition local_fetch_compressed ::
  "compressor \<Rightarrow> local_disk \<Rightarrow> string \<Rightarrow> string option \<Rightarrow> string + nat list \<times> nat" where
  "local_fetch_compressed cz d file_name file_path =
     and_then (local_get d file_name file_path) (\<lambda>buffer.
       and_then (decompress cz buffer) (\<lambda>data. Inr (data, length buffer)))"

definition local_upload_compressed ::
  "compressor \<Rightarrow> local_disk \<Rightarrow> string \<Rightarrow> nat list \<Rightarrow> string option \<Rightarrow> local_disk \<times> (string + nat)" where
  "local_upload_compressed cz d file_name contents file_path =
     (case compress cz contents of
        Inl e \<Rightarrow> (d, Inl e)
      | Inr data \<Rightarrow>
          (case local_write d file_name data file_path of
             (d', ok) \<Rightarrow> (d', if ok then Inr (length data) else Inl ''Failed to save json file: '')))"

definition local_driver :: "string \<Rightarrow> compressor \<Rightarrow> (nat list \<Rightarrow> bool) \<Rightarrow> local_disk driver" where
  "local_driver base_path cz is_utf8 =
     \<lparr>list_objects = local_list base_path, fetch_object = local_fetch is_utf8, upload_object = local_upload,
      fetch_compressed_object = local_fetch_compressed cz, upload_compressed_object = local_upload_compressed cz\<rparr>"

text \<open>
  What was compressed is restored, and of a part of it that lacks the end nothing is: the frame of \<open>zstd\<close> marks its
  last block, and the decoder fails on a frame without one and yields no bytes for no input.
\<close>

definition lossless :: "compressor \<Rightarrow> bool" where
  "lossless cz \<longleftrightarrow> (\<forall>x y. compress cz x = Inr y \<longrightarrow>
     decompress cz y = Inr x \<and> (\<forall>n z. n < length y \<longrightarrow> decompress cz (take n y) = Inr z \<longrightarrow> z = []))"

text \<open>A machine that reports and reads all of its files.\<close>

definition readable :: "local_disk \<Rightarrow> bool" where
  "readable d \<longleftrightarrow> (\<forall>key. os_entry (disk_os d) key \<and> os_read (disk_os d) key)"

lemma local_write_cases:
  assumes "local_write d f data p = (d', ok)"
  obtains "ok" "d' = d\<lparr>disk_files := AList.update (p, f) data (disk_files d)\<rparr>"
  | "\<not> ok" "d' = d"
  | n where "\<not> ok" "d' = d\<lparr>disk_files := AList.update (p, f) (take n (butlast data)) (disk_files d)\<rparr>"
  using assms by (auto simp: local_write_def split: if_splits write_answer.splits)

lemma uploaded:
  assumes "local_upload_compressed cz d f c p = (d', Inr n)"
  obtains data where "compress cz c = Inr data" "d' = d\<lparr>disk_files := AList.update (p, f) data (disk_files d)\<rparr>"
  using assms by (auto simp: local_upload_compressed_def split: sum.splits prod.splits if_splits elim!: local_write_cases)

lemma takeWhile_separator: "takeWhile (\<lambda>x. x \<noteq> c) (xs @ c # ys) = takeWhile (\<lambda>x. x \<noteq> c) xs"
  by (induction xs) simp_all

lemma last_segment_append: "last_segment (s @ CHR ''/'' # t) = last_segment t"
  by (simp add: last_segment_def takeWhile_separator)

lemma last_segment_plain: "CHR ''/'' \<notin> set name \<Longrightarrow> last_segment name = name"
  unfolding last_segment_def by (subst takeWhile_eq_all_conv [THEN iffD2]) auto

lemma show_nat_no_slash: "CHR ''/'' \<notin> set (show_nat n)"
proof (induction n rule: show_nat.induct)
  case (1 n)
  have d: "digit_char k \<noteq> CHR ''/''" if "k < 10" for k by (rule digit_char_neq [OF that]) simp
  show ?case
  proof (cases "n < 10")
    case True
    then show ?thesis using d [of n] by (auto simp: show_nat_digit)
  next
    case False
    then show ?thesis using 1 d [of "n mod 10"] by (auto simp: show_nat_step not_less)
  qed
qed

lemma last_segment_path: "last_segment (path_of base_path file_path name) = last_segment name"
proof (cases file_path)
  case None
  then show ?thesis by (simp add: path_of_def last_segment_append)
next
  case (Some dir)
  have "path_of base_path (Some dir) name = (base_path @ ''/'' @ dir) @ CHR ''/'' # name" by (simp add: path_of_def)
  then show ?thesis by (simp only: Some last_segment_append)
qed

lemma local_listed:
  "local_list base_path d p = Some (Inr ks) \<Longrightarrow> readable d \<Longrightarrow>
     last_segment ` set ks = last_segment ` {name. (p, name) \<in> fst ` set (disk_files d)}"
proof -
  assume l: "local_list base_path d p = Some (Inr ks)" "readable d"
  have "os_entry (disk_os d) = (\<lambda>_. True)" using l(2) by (auto simp: readable_def)
  then have "ks = map (\<lambda>((dir, name), _). path_of base_path dir name) (filter (\<lambda>(key, _). fst key = p) (disk_files d))"
    using l(1) by (simp add: local_list_def split: if_splits)
  then show ?thesis by (force simp: image_iff last_segment_path)
qed

interpretation local: object_store "local_driver base_path cz is_utf8" "\<lambda>d. lossless cz \<and> readable d"
proof unfold_locales
  fix d f c p d' n
  assume inv: "lossless cz \<and> readable d"
    and up: "upload_compressed_object (local_driver base_path cz is_utf8) d f c p = (d', Inr n)"
  have "local_upload_compressed cz d f c p = (d', Inr n)" using up by (simp add: local_driver_def)
  then obtain data where data: "compress cz c = Inr data" "d' = d\<lparr>disk_files := AList.update (p, f) data (disk_files d)\<rparr>"
    by (rule uploaded)
  have m: "map_of (disk_files d') = (map_of (disk_files d))((p, f) \<mapsto> data)" by (simp add: data(2) update_conv')
  have r: "readable d" "readable d'" using inv by (simp_all add: data(2) readable_def)
  show "\<exists>m. fetch_compressed_object (local_driver base_path cz is_utf8) d' f p = Inr (c, m)"
    using inv data(1) r(2) by (auto simp: local_driver_def local_fetch_compressed_def local_get_def m lossless_def readable_def)
  show "fetch_compressed_object (local_driver base_path cz is_utf8) d' g p =
      fetch_compressed_object (local_driver base_path cz is_utf8) d g p" if "g \<noteq> f" for g
    using that r by (simp add: local_driver_def local_fetch_compressed_def local_get_def m readable_def)
  show "\<exists>ks'. list_objects (local_driver base_path cz is_utf8) d' p = Some (Inr ks') \<and>
      last_segment ` set ks' = insert (last_segment f) (last_segment ` set ks)"
    if "list_objects (local_driver base_path cz is_utf8) d p = Some (Inr ks)" for ks
  proof -
    have l: "local_list base_path d p = Some (Inr ks)" using that by (simp add: local_driver_def)
    note a = local_listed [OF l r(1)]
    obtain ks' where ks': "local_list base_path d' p = Some (Inr ks')"
      using l by (auto simp: local_list_def data(2) split: if_splits)
    have "fst ` set (disk_files d') = insert (p, f) (fst ` set (disk_files d))" by (simp add: data(2) dom_update)
    then show ?thesis using a local_listed [OF ks' r(2)] ks' by (auto simp: local_driver_def)
  qed
  show "lossless cz \<and> readable d'" using inv r(2) by simp
qed

end
