(* ===== verification/Client_State.thy ===== *)
theory Client_State
  imports Peg_In_Rules Data_Store
begin

text \<open>
  The state of a bridge client (\<open>client/client.rs\<close>): the identities it was given, the graphs it shares with
  the others, its private nonces and Winternitz secrets, and its place in the shared store; then the
  operations on the shared data alone: finding a graph, validating what another client wrote and merging it.
\<close>

section \<open>Data\<close>

record public_data =
  pd_version :: nat
  pd_peg_ins :: "peg_in_state list"
  pd_peg_outs :: "peg_out_state list"

text \<open>
  Secret nonces by verifier, graph, transaction and input; Winternitz secrets by operator and graph, as the
  list of messages and secrets that the graph is built from.
\<close>

record 's private_data =
  pv_secret_nonces :: "public_key \<Rightarrow> (string \<Rightarrow> (tx_hash \<Rightarrow> secret_nonces option) option) option"
  pv_commitment_secrets :: "public_key \<Rightarrow> (string \<Rightarrow> (commitment_message_id \<times> 's) list option) option"

definition empty_private_data :: "'s private_data" where
  "empty_private_data = \<lparr>pv_secret_nonces = Map.empty, pv_commitment_secrets = Map.empty\<rparr>"

record 'k depositor_identity =
  di_network :: btc_network
  di_keypair :: 'k
  di_key :: public_key
  di_taproot_key :: xonly_key
  di_n_of_n_keys :: "public_key list"
  di_n_of_n_key :: public_key
  di_n_of_n_taproot_key :: xonly_key

record 'k operator_identity =
  oi_keypair :: 'k
  oi_context :: operator_context
  oi_n_of_n_keys :: "public_key list"

text \<open>
  The verifying key of the proofs is the search for a disproved step that uses it. The private data are also in
  a file of the client, as of the last time they were saved.
\<close>

record ('k, 's, 'd) client =
  cl_depositor :: "'k depositor_identity option"
  cl_operator :: "'k operator_identity option"
  cl_verifier :: "'k verifier_context option"
  cl_withdrawer :: "'k option"
  cl_store :: "'d data_store"
  cl_data :: public_data
  cl_latest :: "string option"
  cl_remote_path :: string
  cl_private :: "'s private_data"
  cl_saved_private :: "'s private_data option"
  cl_verifying_key :: "(connector_c \<Rightarrow> nat list list list \<Rightarrow> nat list list list \<Rightarrow> bridge_error + nat \<times> nat list list) option"

text \<open>Keys from secrets and their aggregate; a malformed secret or no key at all panics.\<close>

record 'k key_ring =
  kr_from_secret :: "string \<Rightarrow> ('k \<times> public_key) option"
  kr_aggregate :: "public_key list \<Rightarrow> public_key option"

definition depositor_context_new ::
  "'k key_ring \<Rightarrow> btc_network \<Rightarrow> public_key list \<Rightarrow> string \<Rightarrow> 'k depositor_identity option" where
  "depositor_context_new kr net n_of_n_keys secret =
     do {
       (keypair, key) \<leftarrow> kr_from_secret kr secret;
       n_of_n \<leftarrow> kr_aggregate kr n_of_n_keys;
       Some \<lparr>di_network = net, di_keypair = keypair, di_key = key, di_taproot_key = key_x key,
         di_n_of_n_keys = n_of_n_keys, di_n_of_n_key = n_of_n, di_n_of_n_taproot_key = key_x n_of_n\<rparr>
     }"

definition operator_context_new ::
  "'k key_ring \<Rightarrow> btc_network \<Rightarrow> public_key list \<Rightarrow> string \<Rightarrow> 'k operator_identity option" where
  "operator_context_new kr net n_of_n_keys secret =
     do {
       (keypair, key) \<leftarrow> kr_from_secret kr secret;
       n_of_n \<leftarrow> kr_aggregate kr n_of_n_keys;
       Some \<lparr>oi_keypair = keypair,
         oi_context = \<lparr>oc_network = net, oc_operator_key = key, oc_operator_taproot_key = key_x key,
           oc_n_of_n_taproot_key = key_x n_of_n\<rparr>,
         oi_n_of_n_keys = n_of_n_keys\<rparr>
     }"

definition verifier_context_new ::
  "'k key_ring \<Rightarrow> public_key list \<Rightarrow> string \<Rightarrow> 'k verifier_context option" where
  "verifier_context_new kr n_of_n_keys secret =
     do {
       (keypair, key) \<leftarrow> kr_from_secret kr secret;
       _ \<leftarrow> kr_aggregate kr n_of_n_keys;
       Some \<lparr>vc_keypair = keypair, vc_public_key = key, vc_n_of_n_keys = n_of_n_keys\<rparr>
     }"

text \<open>A role without a secret is not taken.\<close>

definition for_secret :: "(string \<Rightarrow> 'c option) \<Rightarrow> string option \<Rightarrow> 'c option option" where
  "for_secret new secret = (case secret of None \<Rightarrow> Some None | Some s \<Rightarrow> map_option Some (new s))"

definition client_new ::
  "'k key_ring \<Rightarrow> btc_network \<Rightarrow> string \<Rightarrow> (public_key \<Rightarrow> string) \<Rightarrow> public_key list \<Rightarrow> string option \<Rightarrow> string option \<Rightarrow>
     string option \<Rightarrow> string option \<Rightarrow> 'd data_store \<Rightarrow> 's private_data option \<Rightarrow>
     (connector_c \<Rightarrow> nat list list list \<Rightarrow> nat list list list \<Rightarrow> bridge_error + nat \<times> nat list list) option \<Rightarrow>
     ('k, 's, 'd) client option" where
  "client_new kr net network_dirs show_key n_of_n_keys depositor_secret operator_secret verifier_secret withdrawer_secret
       store saved verifying_key =
     do {
       depositor \<leftarrow> for_secret (depositor_context_new kr net n_of_n_keys) depositor_secret;
       operator \<leftarrow> for_secret (operator_context_new kr net n_of_n_keys) operator_secret;
       verifier \<leftarrow> for_secret (verifier_context_new kr n_of_n_keys) verifier_secret;
       withdrawer \<leftarrow> for_secret (\<lambda>s. map_option fst (kr_from_secret kr s)) withdrawer_secret;
       n_of_n \<leftarrow> kr_aggregate kr n_of_n_keys;
       Some \<lparr>cl_depositor = depositor, cl_operator = operator, cl_verifier = verifier, cl_withdrawer = withdrawer,
         cl_store = store, cl_data = \<lparr>pd_version = 1, pd_peg_ins = [], pd_peg_outs = []\<rparr>, cl_latest = None,
         cl_remote_path = ''bridge_data/'' @ network_dirs @ ''/'' @ show_key n_of_n,
         cl_private = (case saved of None \<Rightarrow> empty_private_data | Some p \<Rightarrow> p), cl_saved_private = saved,
         cl_verifying_key = verifying_key\<rparr>
     }"

section \<open>Surroundings\<close>

record utxo =
  utxo_txid :: tx_hash
  utxo_vout :: nat
  utxo_value :: nat

text \<open>
  Beside the surroundings of the peg-out operations: the texts of hashes, the Winternitz public keys, the check
  of nonce signatures, the order of hash maps, the unspent outputs of an address, the JSON format and the proof of
  the operator with the witnesses the chunker makes of it.
\<close>

record ('k, 's) client_env = "('k, 's) env" +
  ce_hash_id :: "tx_hash \<Rightarrow> string"
  ce_peg_out_id :: "string \<Rightarrow> public_key \<Rightarrow> string"
  ce_public_of :: "'s \<Rightarrow> winternitz_key"
  ce_verify_nonce :: "nat list \<Rightarrow> nat list \<Rightarrow> xonly_key \<Rightarrow> bool"
  ce_entries :: "musig_maps \<Rightarrow> (nat \<times> (public_key \<times> nat list) list) list"
  ce_utxos :: "address \<Rightarrow> string + utxo list"
  ce_serialize :: "public_data \<Rightarrow> nat list"
  ce_deserialize :: "nat list \<Rightarrow> string + public_data"
  ce_proof :: "(commitment_message_id \<times> 's) list \<Rightarrow> nat list list list"

abbreviation graph_env :: "('k, 's) client_env \<Rightarrow> ('k, 's) env" where
  "graph_env env \<equiv> env.truncate env"

section \<open>Finding a graph\<close>

fun position :: "('a \<Rightarrow> bool) \<Rightarrow> 'a list \<Rightarrow> nat option" where
  "position P [] = None"
| "position P (x # xs) = (if P x then Some 0 else map_option Suc (position P xs))"

lemma position_Some: "position P xs = Some i \<longleftrightarrow> i < length xs \<and> P (xs ! i) \<and> (\<forall>j < i. \<not> P (xs ! j))"
proof (induction xs arbitrary: i)
  case (Cons x xs)
  then show ?case by (cases i) (auto simp: less_Suc_eq_0_disj)
qed simp

lemma position_None: "position P xs = None \<longleftrightarrow> (\<forall>x \<in> set xs. \<not> P x)"
  by (induction xs) auto

lemma find_position: "find P xs = map_option ((!) xs) (position P xs)"
  by (induction xs) (auto simp: option.map_comp o_def)

definition get_peg_in_graph :: "('k, 's, 'd) client \<Rightarrow> string \<Rightarrow> bridge_error + peg_in_state" where
  "get_peg_in_graph c graph_id =
     (case find (\<lambda>g. pi_id g = graph_id) (pd_peg_ins (cl_data c)) of
        None \<Rightarrow> Inl (Client_Error (Peg_In_Graph_Not_Found graph_id)) | Some g \<Rightarrow> Inr g)"

text \<open>Running an operation on the graph that is found, in place.\<close>

definition set_peg_in :: "nat \<Rightarrow> peg_in_state \<Rightarrow> ('k, 's, 'd) client \<Rightarrow> ('k, 's, 'd) client" where
  "set_peg_in i g c = c\<lparr>cl_data := (cl_data c)\<lparr>pd_peg_ins := (pd_peg_ins (cl_data c))[i := g]\<rparr>\<rparr>"

definition set_peg_out :: "nat \<Rightarrow> peg_out_state \<Rightarrow> ('k, 's, 'd) client \<Rightarrow> ('k, 's, 'd) client" where
  "set_peg_out i g c = c\<lparr>cl_data := (cl_data c)\<lparr>pd_peg_outs := (pd_peg_outs (cl_data c))[i := g]\<rparr>\<rparr>"

definition find_peg_in_or_fail ::
  "string \<Rightarrow> ('k, 's, 'd) client \<Rightarrow> (peg_in_state \<Rightarrow> (peg_in_state, 'a) outcome) \<Rightarrow> (('k, 's, 'd) client, 'a) outcome" where
  "find_peg_in_or_fail graph_id c f =
     (case position (\<lambda>g. pi_id g = graph_id) (pd_peg_ins (cl_data c)) of
        None \<Rightarrow> Some (c, Inl (Client_Error (Peg_In_Graph_Not_Found graph_id)))
      | Some i \<Rightarrow> map_option (\<lambda>(g, r). (set_peg_in i g c, r)) (f (pd_peg_ins (cl_data c) ! i)))"

definition find_peg_out_or_fail ::
  "string \<Rightarrow> ('k, 's, 'd) client \<Rightarrow> (peg_out_state \<Rightarrow> (peg_out_state, 'a) outcome) \<Rightarrow> (('k, 's, 'd) client, 'a) outcome" where
  "find_peg_out_or_fail graph_id c f =
     (case position (\<lambda>g. po_id g = graph_id) (pd_peg_outs (cl_data c)) of
        None \<Rightarrow> Some (c, Inl (Client_Error (Peg_Out_Graph_Not_Found graph_id)))
      | Some i \<Rightarrow> map_option (\<lambda>(g, r). (set_peg_out i g c, r)) (f (pd_peg_outs (cl_data c) ! i)))"

section \<open>Merging\<close>

text \<open>
  The graphs of a client by id: of equal ids the last one stays in the hash map. A graph that is not there
  is added after all merges, so two new graphs of one id are both added.
\<close>

definition graphs_by_id :: "('g \<Rightarrow> string) \<Rightarrow> 'g list \<Rightarrow> string \<Rightarrow> nat option" where
  "graphs_by_id id_of gs = map_of (rev (zip (map id_of gs) [0..<length gs]))"

definition merge_graph ::
  "('g \<Rightarrow> string) \<Rightarrow> ('g \<Rightarrow> 'g \<Rightarrow> 'g) \<Rightarrow> (string \<Rightarrow> nat option) \<Rightarrow> 'g list \<times> 'g list \<Rightarrow> 'g \<Rightarrow> 'g list \<times> 'g list" where
  "merge_graph id_of merge by_id acc g =
     (case acc of (gs, to_add) \<Rightarrow>
        case by_id (id_of g) of Some i \<Rightarrow> (gs[i := merge (gs ! i) g], to_add) | None \<Rightarrow> (gs, to_add @ [g]))"

definition merge_graphs :: "('g \<Rightarrow> string) \<Rightarrow> ('g \<Rightarrow> 'g \<Rightarrow> 'g) \<Rightarrow> 'g list \<Rightarrow> 'g list \<Rightarrow> 'g list" where
  "merge_graphs id_of merge gs new_graphs =
     (case foldl (merge_graph id_of merge (graphs_by_id id_of gs)) (gs, []) new_graphs of
        (gs', to_add) \<Rightarrow> gs' @ to_add)"

definition merge_public_data :: "public_data \<Rightarrow> public_data \<Rightarrow> public_data" where
  "merge_public_data own data =
     own\<lparr>pd_peg_ins := merge_graphs pi_id peg_in_merge (pd_peg_ins own) (pd_peg_ins data),
         pd_peg_outs := merge_graphs po_id peg_out_merge (pd_peg_outs own) (pd_peg_outs data)\<rparr>"

definition merge_data :: "public_data \<Rightarrow> ('k, 's, 'd) client \<Rightarrow> ('k, 's, 'd) client" where
  "merge_data data c = c\<lparr>cl_data := merge_public_data (cl_data c) data\<rparr>"

section \<open>Validation\<close>

text \<open>The first invalid graph decides; a panic of a validation is a panic.\<close>

fun all_graphs_valid :: "('g \<Rightarrow> (bridge_error + unit) option) \<Rightarrow> 'g list \<Rightarrow> bool option" where
  "all_graphs_valid validate [] = Some True"
| "all_graphs_valid validate (g # gs) =
     (case validate g of None \<Rightarrow> None | Some (Inl _) \<Rightarrow> Some False | Some (Inr _) \<Rightarrow> all_graphs_valid validate gs)"

definition validate_data :: "('k, 's) client_env \<Rightarrow> public_data \<Rightarrow> bool option" where
  "validate_data env data =
     do {
       peg_ins_valid \<leftarrow> all_graphs_valid
         (peg_in_validate (env_policy env) (env_txid env) (ce_hash_id env) (ce_verify_nonce env) (ce_entries env))
         (pd_peg_ins data);
       if peg_ins_valid
       then all_graphs_valid
         (peg_out_validate (env_policy env) (env_txid env) (env_api env) (ce_verify_nonce env) (ce_entries env)
           (env_client env)) (pd_peg_outs data)
       else Some False
     }"

lemma all_graphs_valid_True: "all_graphs_valid validate gs = Some True \<longleftrightarrow> (\<forall>g \<in> set gs. validate g = Some (Inr ()))"
  by (induction gs) (auto split: option.splits sum.splits)

end
