(* ===== verification/Client_Sync.thy ===== *)
theory Client_Sync
  imports Client_State
begin

text \<open>
  How a client follows the shared store (\<open>sync\<close>, \<open>flush\<close>) and the other chain (\<open>sync_l2\<close>) in \<open>client/client.rs\<close>.
  A synchronisation reads one snapshot \<open>d\<close> of the store. \<open>None\<close> is a panic; messages and the copies of public files
  that the client writes to its own disk and never reads are left out.
\<close>

section \<open>Files to read\<close>

definition get_latest_file_names ::
  "'d data_store \<Rightarrow> 'd \<Rightarrow> string option \<Rightarrow> string option \<Rightarrow> (string + string list) option" where
  "get_latest_file_names ds d file_path fetched_file_name =
     do {
       r \<leftarrow> get_file_names ds d file_path;
       Some (and_then r (\<lambda>all_file_names.
         Inr (case fetched_file_name of
                None \<Rightarrow> all_file_names
              | Some f \<Rightarrow>
                  (case position (\<lambda>file_name. file_name = f) all_file_names of
                     None \<Rightarrow> all_file_names | Some i \<Rightarrow> drop (i + 1) all_file_names))))
     }"

definition filter_files_names_by_timestamp ::
  "('k, 's, 'd) client \<Rightarrow> string list \<Rightarrow> nat \<Rightarrow> (string + string list) option" where
  "filter_files_names_by_timestamp c latest_file_names period =
     (case cl_latest c of
        None \<Rightarrow> Some (Inl ''No latest file data. Must fetch the latest file first.'')
      | Some f \<Rightarrow>
          (case get_file_timestamp (cl_store c) f of
             Inl e \<Rightarrow> Some (Inl e)
           | Inr latest_timestamp \<Rightarrow>
               do {
                 past_max \<leftarrow> get_past_max_file_name_by_timestamp (cl_store c) latest_timestamp period;
                 Some (Inr (case position (\<lambda>file_name. past_max \<le> file_name) latest_file_names of
                              None \<Rightarrow> [] | Some i \<Rightarrow> drop i latest_file_names))
               }))"

definition validate_data_by_key ::
  "('k, 's) client_env \<Rightarrow> 'd \<Rightarrow> ('k, 's, 'd) client \<Rightarrow> string \<Rightarrow> public_data option option" where
  "validate_data_by_key env d c file_name =
     (case fetch_compressed_data_by_key (cl_store c) d file_name (Some (cl_remote_path c)) of
        Inr (Some content, _) \<Rightarrow>
          (case ce_deserialize env content of
             Inr data \<Rightarrow> do { valid \<leftarrow> validate_data env data; Some (if valid then Some data else None) }
           | Inl _ \<Rightarrow> Some None)
      | _ \<Rightarrow> Some None)"

section \<open>Reading\<close>

text \<open>The names are popped from the end until a file is valid; the names before it are left.\<close>

fun pop_valid :: "(string \<Rightarrow> public_data option option) \<Rightarrow> string list \<Rightarrow> ((public_data \<times> string) option \<times> string list) option" where
  "pop_valid check [] = Some (None, [])"
| "pop_valid check (f # rest) =
     do {
       r \<leftarrow> check f;
       case r of Some data \<Rightarrow> Some (Some (data, f), rest) | None \<Rightarrow> pop_valid check rest
     }"

definition fetch_latest_valid_file ::
  "('k, 's) client_env \<Rightarrow> 'd \<Rightarrow> ('k, 's, 'd) client \<Rightarrow> string list \<Rightarrow> ((public_data \<times> string) option \<times> string list) option" where
  "fetch_latest_valid_file env d c file_names =
     map_option (\<lambda>(r, rest). (r, rev rest)) (pop_valid (validate_data_by_key env d c) (rev file_names))"

text \<open>The valid files are merged in the order of the list; the first of them is reported.\<close>

fun process_files ::
  "('k, 's) client_env \<Rightarrow> 'd \<Rightarrow> string list \<Rightarrow> ('k, 's, 'd) client \<Rightarrow> (('k, 's, 'd) client \<times> string option) option" where
  "process_files env d [] c = Some (c, None)"
| "process_files env d (f # fs) c =
     do {
       r \<leftarrow> validate_data_by_key env d c f;
       case r of
         Some data \<Rightarrow> map_option (\<lambda>(c', _). (c', Some f)) (process_files env d fs (merge_data data c))
       | None \<Rightarrow> process_files env d fs c
     }"

definition process_files_by_timestamp ::
  "('k, 's) client_env \<Rightarrow> 'd \<Rightarrow> string list \<Rightarrow> nat \<Rightarrow> ('k, 's, 'd) client \<Rightarrow> ('k, 's, 'd) client option" where
  "process_files_by_timestamp env d latest_file_names period c =
     do {
       r \<leftarrow> filter_files_names_by_timestamp c latest_file_names period;
       case r of Inl _ \<Rightarrow> Some c | Inr names \<Rightarrow> map_option fst (process_files env d names c)
     }"

definition ten_minutes :: nat where
  "ten_minutes = 10 * 60"

definition read_from_data_store ::
  "('k, 's) client_env \<Rightarrow> 'd \<Rightarrow> ('k, 's, 'd) client \<Rightarrow> ('k, 's, 'd) client option" where
  "read_from_data_store env d c =
     do {
       latest \<leftarrow> get_latest_file_names (cl_store c) d (Some (cl_remote_path c)) (cl_latest c);
       case latest of
         Inl _ \<Rightarrow> Some c
       | Inr names \<Rightarrow>
           if names = [] then Some c
           else do {
             (r, rest) \<leftarrow> fetch_latest_valid_file env d c names;
             case r of
               None \<Rightarrow> Some c
             | Some (data, f) \<Rightarrow>
                 do {
                   c' \<leftarrow> process_files_by_timestamp env d rest ten_minutes (c\<lparr>cl_latest := Some f\<rparr>);
                   Some (merge_data data c')
                 }
           }
     }"

section \<open>Writing\<close>

text \<open>
  The files since the last one are merged, the newest first, before the data are written under a new
  version. The version is a \<open>u32\<close>.
\<close>

definition merge_unread :: "('k, 's) client_env \<Rightarrow> 'd \<Rightarrow> ('k, 's, 'd) client \<Rightarrow> ('k, 's, 'd) client option" where
  "merge_unread env d c =
     do {
       latest \<leftarrow> get_latest_file_names (cl_store c) d (Some (cl_remote_path c)) (cl_latest c);
       case latest of
         Inl _ \<Rightarrow> Some c
       | Inr names \<Rightarrow>
           map_option (\<lambda>(c', latest). c'\<lparr>cl_latest := latest\<rparr>) (process_files env d (rev names) c)
     }"

definition next_version :: "('k, 's, 'd) client \<Rightarrow> ('k, 's, 'd) client option" where
  "next_version c =
     (if pd_version (cl_data c) + 1 < 2 ^ 32
      then Some (c\<lparr>cl_data := (cl_data c)\<lparr>pd_version := pd_version (cl_data c) + 1\<rparr>\<rparr>) else None)"

definition save_to_data_store ::
  "('k, 's) client_env \<Rightarrow> nat \<Rightarrow> 'd \<Rightarrow> ('k, 's, 'd) client \<Rightarrow> ('d \<times> ('k, 's, 'd) client) option" where
  "save_to_data_store env time d c =
     do {
       c1 \<leftarrow> merge_unread env d c;
       c2 \<leftarrow> next_version c1;
       case write_compressed_data (cl_store c2) time d (ce_serialize env (cl_data c2)) (Some (cl_remote_path c2)) of
         (d', Inr (file_name, _)) \<Rightarrow> Some (d', c2\<lparr>cl_latest := Some file_name\<rparr>)
       | (d', Inl _) \<Rightarrow> Some (d', c2)
     }"

section \<open>The other chain\<close>

definition is_peg_out_initiated :: "peg_out_state \<Rightarrow> bool" where
  "is_peg_out_initiated s \<longleftrightarrow> peg_out_chain_event s \<noteq> None"

text \<open>The events that one graph takes are gone for the next.\<close>

fun match_events :: "peg_out_state list \<Rightarrow> peg_out_event list \<Rightarrow> peg_out_state list option" where
  "match_events [] events = Some []"
| "match_events (g # gs) events =
     (if is_peg_out_initiated g then map_option (Cons g) (match_events gs events)
      else do {
        (g', rest, _) \<leftarrow> match_and_set_peg_out_event g events;
        map_option (Cons g') (match_events gs rest)
      })"

definition read_from_l2 :: "string + peg_out_event list \<Rightarrow> ('k, 's, 'd) client \<Rightarrow> ('k, 's, 'd) client option" where
  "read_from_l2 peg_out_init c =
     (case peg_out_init of
        Inl _ \<Rightarrow> None
      | Inr events \<Rightarrow>
          map_option (\<lambda>gs. c\<lparr>cl_data := (cl_data c)\<lparr>pd_peg_outs := gs\<rparr>\<rparr>) (match_events (pd_peg_outs (cl_data c)) events))"

end
