(* ===== verification/Client_Operations.thy ===== *)
theory Client_Operations
  imports Client_Sync
begin

text \<open>
  What a user or the automatic mode does with a client (\<open>client/client.rs\<close>): graphs are created, their transactions
  prepared and broadcast, nonces and signatures pushed, and every graph is processed by its status. \<open>None\<close>
  is a panic.
\<close>

section \<open>Broadcasting\<close>

definition broadcast_tx :: "('k, 's) client_env \<Rightarrow> btc_tx \<Rightarrow> bridge_error + tx_hash" where
  "broadcast_tx env tx =
     and_then (broadcast_and_verify (env_txid env) (env_client env) tx) (\<lambda>_. Inr (env_txid env tx))"

text \<open>An operation that returns a transaction, and its broadcast.\<close>

definition then_broadcast :: "('k, 's) client_env \<Rightarrow> ('c, btc_tx) outcome \<Rightarrow> ('c, tx_hash) outcome" where
  "then_broadcast env out = map_option (\<lambda>(c, r). (c, and_then r (broadcast_tx env))) out"

subsection \<open>Peg-in\<close>

definition broadcast_peg_in_deposit ::
  "('k, 's) client_env \<Rightarrow> string \<Rightarrow> ('k, 's, 'd) client \<Rightarrow> (('k, 's, 'd) client, tx_hash) outcome" where
  "broadcast_peg_in_deposit env graph_id c =
     then_broadcast env (find_peg_in_or_fail graph_id c (peg_in_deposit_action (env_txid env) (env_client env)))"

definition broadcast_peg_in_refund ::
  "('k, 's) client_env \<Rightarrow> string \<Rightarrow> ('k, 's, 'd) client \<Rightarrow> (('k, 's, 'd) client, tx_hash) outcome" where
  "broadcast_peg_in_refund env graph_id c =
     then_broadcast env (find_peg_in_or_fail graph_id c (peg_in_refund_action (env_txid env) (env_client env)))"

definition broadcast_peg_in_confirm ::
  "('k, 's) client_env \<Rightarrow> string \<Rightarrow> ('k, 's, 'd) client \<Rightarrow> (('k, 's, 'd) client, tx_hash) outcome" where
  "broadcast_peg_in_confirm env graph_id c =
     then_broadcast env (find_peg_in_or_fail graph_id c (peg_in_confirm_action (env_txid env) (env_client env)))"

subsection \<open>Peg-out\<close>

text \<open>Without an operator the graph is left alone and an error returned.\<close>

definition as_operator ::
  "('k, 's, 'd) client \<Rightarrow> ('k operator_identity \<Rightarrow> 'g \<Rightarrow> ('g, 'a) outcome) \<Rightarrow> 'g \<Rightarrow> ('g, 'a) outcome" where
  "as_operator c f g =
     (case cl_operator c of
        None \<Rightarrow> Some (g, Inl (Client_Error Operator_Context_Not_Defined)) | Some operator \<Rightarrow> f operator g)"

text \<open>Indexing the hash maps of secrets panics where there is none.\<close>

definition commitment_secrets :: "('k, 's, 'd) client \<Rightarrow> string \<Rightarrow> (commitment_message_id \<times> 's) list option" where
  "commitment_secrets c graph_id =
     do {
       operator \<leftarrow> cl_operator c;
       graphs \<leftarrow> pv_commitment_secrets (cl_private c) (oc_operator_key (oi_context operator));
       graphs graph_id
     }"

definition commitment_secret :: "('k, 's, 'd) client \<Rightarrow> string \<Rightarrow> commitment_message_id \<Rightarrow> 's option" where
  "commitment_secret c graph_id message = do { secrets \<leftarrow> commitment_secrets c graph_id; map_of secrets message }"

abbreviation run_on ::
  "('k, 's) client_env \<Rightarrow> string \<Rightarrow> ('k, 's, 'd) client \<Rightarrow> ('k, 's) action \<Rightarrow> (('k, 's, 'd) client, tx_hash) outcome" where
  "run_on env graph_id c a \<equiv> then_broadcast env (find_peg_out_or_fail graph_id c (run_action (graph_env env) a))"

definition broadcast_peg_out ::
  "('k, 's) client_env \<Rightarrow> string \<Rightarrow> tx_input_ref \<Rightarrow> ('k, 's, 'd) client \<Rightarrow> (('k, 's, 'd) client, tx_hash) outcome" where
  "broadcast_peg_out env graph_id input c =
     then_broadcast env (find_peg_out_or_fail graph_id c
       (as_operator c (\<lambda>operator.
          run_action (graph_env env) (A_Peg_Out (oi_context operator) (oi_keypair operator) input))))"

definition broadcast_peg_out_confirm ::
  "('k, 's) client_env \<Rightarrow> string \<Rightarrow> ('k, 's, 'd) client \<Rightarrow> (('k, 's, 'd) client, tx_hash) outcome" where
  "broadcast_peg_out_confirm env graph_id c = run_on env graph_id c A_Peg_Out_Confirm"

definition broadcast_kick_off_1 ::
  "('k, 's) client_env \<Rightarrow> string \<Rightarrow> ('k, 's, 'd) client \<Rightarrow> (('k, 's, 'd) client, tx_hash) outcome" where
  "broadcast_kick_off_1 env graph_id c =
     then_broadcast env (find_peg_out_or_fail graph_id c
       (as_operator c (\<lambda>operator g.
          do {
            source_secret \<leftarrow> commitment_secret c graph_id PegOutTxIdSourceNetwork;
            destination_secret \<leftarrow> commitment_secret c graph_id PegOutTxIdDestinationNetwork;
            run_action (graph_env env) (A_Kick_Off_1 (oi_keypair operator) source_secret destination_secret) g
          })))"

definition broadcast_start_time ::
  "('k, 's) client_env \<Rightarrow> string \<Rightarrow> ('k, 's, 'd) client \<Rightarrow> (('k, 's, 'd) client, tx_hash) outcome" where
  "broadcast_start_time env graph_id c =
     then_broadcast env (find_peg_out_or_fail graph_id c
       (as_operator c (\<lambda>operator g.
          do {
            secret \<leftarrow> commitment_secret c graph_id StartTime;
            run_action (graph_env env) (A_Start_Time (oi_context operator) (oi_keypair operator) secret) g
          })))"

definition broadcast_start_time_timeout ::
  "('k, 's) client_env \<Rightarrow> string \<Rightarrow> script_pubkey \<Rightarrow> ('k, 's, 'd) client \<Rightarrow> (('k, 's, 'd) client, tx_hash) outcome" where
  "broadcast_start_time_timeout env graph_id out_script c = run_on env graph_id c (A_Start_Time_Timeout out_script)"

text \<open>From here on a missing operator panics.\<close>

definition broadcast_kick_off_2 ::
  "('k, 's) client_env \<Rightarrow> string \<Rightarrow> ('k, 's, 'd) client \<Rightarrow> (('k, 's, 'd) client, tx_hash) outcome" where
  "broadcast_kick_off_2 env graph_id c =
     then_broadcast env (find_peg_out_or_fail graph_id c (\<lambda>g.
       do {
         operator \<leftarrow> cl_operator c;
         superblock_secret \<leftarrow> commitment_secret c graph_id Superblock;
         superblock_hash_secret \<leftarrow> commitment_secret c graph_id SuperblockHash;
         run_action (graph_env env) (A_Kick_Off_2 (oi_keypair operator) superblock_secret superblock_hash_secret) g
       }))"

definition broadcast_kick_off_timeout ::
  "('k, 's) client_env \<Rightarrow> string \<Rightarrow> script_pubkey \<Rightarrow> ('k, 's, 'd) client \<Rightarrow> (('k, 's, 'd) client, tx_hash) outcome" where
  "broadcast_kick_off_timeout env graph_id out_script c = run_on env graph_id c (A_Kick_Off_Timeout out_script)"

text \<open>
  The crowdfunding inputs of a challenge are signed with the key of the first role the client has;
  \<open>witness_by\<close> is what the key makes of an input.
\<close>

definition challenge_keypair :: "('k, 's, 'd) client \<Rightarrow> bridge_error + 'k" where
  "challenge_keypair c =
     (case (cl_depositor c, cl_operator c, cl_verifier c, cl_withdrawer c) of
        (Some d, _, _, _) \<Rightarrow> Inr (di_keypair d)
      | (_, Some operator, _, _) \<Rightarrow> Inr (oi_keypair operator)
      | (_, _, Some v, _) \<Rightarrow> Inr (vc_keypair v)
      | (_, _, _, Some keypair) \<Rightarrow> Inr keypair
      | _ \<Rightarrow> Inl (Client_Error No_User_Context_Defined))"

definition broadcast_challenge ::
  "('k, 's) client_env \<Rightarrow> ('k \<Rightarrow> witness_of) \<Rightarrow> string \<Rightarrow> input_with_script list \<Rightarrow> script_pubkey \<Rightarrow>
     ('k, 's, 'd) client \<Rightarrow> (('k, 's, 'd) client, tx_hash) outcome" where
  "broadcast_challenge env witness_by graph_id inputs out_script c =
     then_broadcast env (find_peg_out_or_fail graph_id c (\<lambda>g.
       attempt (challenge_keypair c) g (\<lambda>keypair.
         run_action ((graph_env env)\<lparr>env_challenge_witness := witness_by keypair\<rparr>) (A_Challenge inputs out_script) g)))"

definition broadcast_assert_initial ::
  "('k, 's) client_env \<Rightarrow> string \<Rightarrow> ('k, 's, 'd) client \<Rightarrow> (('k, 's, 'd) client, tx_hash) outcome" where
  "broadcast_assert_initial env graph_id c = run_on env graph_id c A_Assert_Initial"

text \<open>A proof is what the chunker makes of it and the secrets: the witnesses of all intermediate values.\<close>

definition broadcast_assert_commit_1 ::
  "('k, 's) client_env \<Rightarrow> string \<Rightarrow> ((commitment_message_id \<times> 's) list \<Rightarrow> nat list list list) \<Rightarrow>
     ('k, 's, 'd) client \<Rightarrow> (('k, 's, 'd) client, tx_hash) outcome" where
  "broadcast_assert_commit_1 env graph_id proof_witnesses c =
     then_broadcast env (find_peg_out_or_fail graph_id c (\<lambda>g.
       do {
         secrets \<leftarrow> commitment_secrets c graph_id;
         run_action (graph_env env) (A_Assert_Commit_1 (proof_witnesses secrets)) g
       }))"

definition broadcast_assert_commit_2 ::
  "('k, 's) client_env \<Rightarrow> string \<Rightarrow> ((commitment_message_id \<times> 's) list \<Rightarrow> nat list list list) \<Rightarrow>
     ('k, 's, 'd) client \<Rightarrow> (('k, 's, 'd) client, tx_hash) outcome" where
  "broadcast_assert_commit_2 env graph_id proof_witnesses c =
     then_broadcast env (find_peg_out_or_fail graph_id c (\<lambda>g.
       do {
         secrets \<leftarrow> commitment_secrets c graph_id;
         run_action (graph_env env) (A_Assert_Commit_2 (proof_witnesses secrets)) g
       }))"

definition broadcast_assert_commits ::
  "('k, 's) client_env \<Rightarrow> string \<Rightarrow> ((commitment_message_id \<times> 's) list \<Rightarrow> nat list list list) \<Rightarrow>
     ('k, 's, 'd) client \<Rightarrow> (('k, 's, 'd) client, tx_hash \<times> tx_hash) outcome" where
  "broadcast_assert_commits env graph_id proof_witnesses c =
     map_option (\<lambda>(c', r). (c', and_then r (\<lambda>(tx1, tx2).
         and_then (broadcast_tx env tx1) (\<lambda>txid1. and_then (broadcast_tx env tx2) (\<lambda>txid2. Inr (txid1, txid2))))))
       (find_peg_out_or_fail graph_id c (\<lambda>g.
          do {
            secrets \<leftarrow> commitment_secrets c graph_id;
            assert_commits_action (graph_env env) (proof_witnesses secrets) g
          }))"

definition broadcast_assert_final ::
  "('k, 's) client_env \<Rightarrow> string \<Rightarrow> ('k, 's, 'd) client \<Rightarrow> (('k, 's, 'd) client, tx_hash) outcome" where
  "broadcast_assert_final env graph_id c = run_on env graph_id c A_Assert_Final"

definition broadcast_disprove ::
  "('k, 's) client_env \<Rightarrow> string \<Rightarrow> script_pubkey \<Rightarrow> ('k, 's, 'd) client \<Rightarrow> (('k, 's, 'd) client, tx_hash) outcome" where
  "broadcast_disprove env graph_id out_script c =
     then_broadcast env (find_peg_out_or_fail graph_id c (\<lambda>g.
       case cl_verifying_key c of
         None \<Rightarrow> Some (g, Inl (Client_Error Zk_Proof_Verifying_Key_Not_Defined))
       | Some disproved \<Rightarrow>
           run_action ((graph_env env)\<lparr>env_disprove_witness := disproved\<rparr>) (A_Disprove out_script) g))"

definition broadcast_disprove_chain ::
  "('k, 's) client_env \<Rightarrow> string \<Rightarrow> script_pubkey \<Rightarrow> ('k, 's, 'd) client \<Rightarrow> (('k, 's, 'd) client, tx_hash) outcome" where
  "broadcast_disprove_chain env graph_id out_script c = run_on env graph_id c (A_Disprove_Chain out_script)"

definition broadcast_take_1 ::
  "('k, 's) client_env \<Rightarrow> string \<Rightarrow> ('k, 's, 'd) client \<Rightarrow> (('k, 's, 'd) client, tx_hash) outcome" where
  "broadcast_take_1 env graph_id c = run_on env graph_id c A_Take_1"

definition broadcast_take_2 ::
  "('k, 's) client_env \<Rightarrow> string \<Rightarrow> ('k, 's, 'd) client \<Rightarrow> (('k, 's, 'd) client, tx_hash) outcome" where
  "broadcast_take_2 env graph_id c =
     then_broadcast env (find_peg_out_or_fail graph_id c (\<lambda>g.
       do {
         operator \<leftarrow> cl_operator c;
         run_action (graph_env env) (A_Take_2 (oi_keypair operator)) g
       }))"

section \<open>Creating graphs\<close>

definition settings_for :: "'k depositor_identity \<Rightarrow> string \<Rightarrow> peg_in_settings" where
  "settings_for d evm_address =
     \<lparr>st_network = di_network d, st_depositor_key = di_key d, st_depositor_taproot_key = di_taproot_key d,
      st_n_of_n_key = di_n_of_n_key d, st_n_of_n_keys = di_n_of_n_keys d,
      st_n_of_n_taproot_key = di_n_of_n_taproot_key d, st_evm_address = evm_address\<rparr>"

definition add_peg_in :: "peg_in_state \<Rightarrow> ('k, 's, 'd) client \<Rightarrow> ('k, 's, 'd) client" where
  "add_peg_in g c = c\<lparr>cl_data := (cl_data c)\<lparr>pd_peg_ins := pd_peg_ins (cl_data c) @ [g]\<rparr>\<rparr>"

text \<open>A graph that exists panics.\<close>

definition create_peg_in_graph ::
  "('k, 's) client_env \<Rightarrow> tx_input_ref \<Rightarrow> string \<Rightarrow> ('k, 's, 'd) client \<Rightarrow> (('k, 's, 'd) client \<times> string) option" where
  "create_peg_in_graph env input evm_address c =
     do {
       d \<leftarrow> cl_depositor c;
       g \<leftarrow> peg_in_state_new (env_policy env) (env_txid env) (ce_hash_id env) (env_crypto env) (di_keypair d)
         (settings_for d evm_address) input;
       let graph_id = generate_peg_in_id (env_txid env) (ce_hash_id env) (peg_in_deposit_tx g);
       if find (\<lambda>h. pi_id h = graph_id) (pd_peg_ins (cl_data c)) \<noteq> None then None
       else Some (add_peg_in g c, graph_id)
     }"

definition save_private_data :: "('k, 's, 'd) client \<Rightarrow> ('k, 's, 'd) client" where
  "save_private_data c = c\<lparr>cl_saved_private := Some (cl_private c)\<rparr>"

text \<open>The secrets of the new graph take the place of all others.\<close>

definition create_peg_out_graph ::
  "('k, 's) client_env \<Rightarrow> string \<Rightarrow> tx_input_ref \<Rightarrow> (commitment_message_id \<times> 's) list \<Rightarrow> ('k, 's, 'd) client \<Rightarrow>
     (('k, 's, 'd) client \<times> string) option" where
  "create_peg_out_graph env peg_in_id confirm_input secrets c =
     do {
       operator \<leftarrow> cl_operator c;
       let key = oc_operator_key (oi_context operator);
       i \<leftarrow> position (\<lambda>g. pi_id g = peg_in_id) (pd_peg_ins (cl_data c));
       let peg_in = pd_peg_ins (cl_data c) ! i;
       let graph_id = ce_peg_out_id env (pi_id peg_in) key;
       if find (\<lambda>g. po_id g = graph_id) (pd_peg_outs (cl_data c)) \<noteq> None then None
       else do {
         g \<leftarrow> peg_out_state_new (env_policy env) (env_txid env) (env_api env) (ce_public_of env)
           (\<lambda>_. ce_peg_out_id env (pi_id peg_in)) (env_crypto env) (oi_keypair operator) (oi_context operator)
           (peg_in_graph.truncate peg_in) confirm_input secrets;
         let data = (cl_data c)\<lparr>
           pd_peg_ins := (pd_peg_ins (cl_data c))
             [i := peg_in\<lparr>pi_peg_out_graphs := pi_peg_out_graphs peg_in @ [graph_id]\<rparr>],
           pd_peg_outs := pd_peg_outs (cl_data c) @ [g]\<rparr>;
         Some (save_private_data (c\<lparr>cl_data := data,
             cl_private := (cl_private c)\<lparr>pv_commitment_secrets := [key \<mapsto> [graph_id \<mapsto> secrets]]\<rparr>\<rparr>), graph_id)
       }
     }"

section \<open>The verifier\<close>

text \<open>A graph is looked for among the peg-ins first; an unknown id panics.\<close>

definition graph_mut ::
  "string \<Rightarrow> ('k, 's, 'd) client \<Rightarrow> (peg_in_state \<Rightarrow> (peg_in_state \<times> 'a) option) \<Rightarrow>
     (peg_out_state \<Rightarrow> (peg_out_state \<times> 'a) option) \<Rightarrow> (('k, 's, 'd) client \<times> 'a) option" where
  "graph_mut graph_id c on_peg_in on_peg_out =
     (case position (\<lambda>g. pi_id g = graph_id) (pd_peg_ins (cl_data c)) of
        Some i \<Rightarrow> map_option (\<lambda>(g, r). (set_peg_in i g c, r)) (on_peg_in (pd_peg_ins (cl_data c) ! i))
      | None \<Rightarrow>
          (case position (\<lambda>g. po_id g = graph_id) (pd_peg_outs (cl_data c)) of
             Some i \<Rightarrow> map_option (\<lambda>(g, r). (set_peg_out i g c, r)) (on_peg_out (pd_peg_outs (cl_data c) ! i))
           | None \<Rightarrow> None))"

definition merge_secret_nonces ::
  "public_key \<Rightarrow> string \<Rightarrow> (tx_hash \<times> (nat \<times> nat list) list) list \<Rightarrow> 's private_data \<Rightarrow> 's private_data" where
  "merge_secret_nonces key graph_id pushed p =
     (let graphs = (case pv_secret_nonces p key of None \<Rightarrow> Map.empty | Some m \<Rightarrow> m);
          txs = (case graphs graph_id of None \<Rightarrow> Map.empty | Some m \<Rightarrow> m)
      in p\<lparr>pv_secret_nonces := (pv_secret_nonces p)
             (key \<mapsto> graphs(graph_id \<mapsto> txs ++ map_of (map (\<lambda>(txid, ns). (txid, map_of ns)) pushed)))\<rparr>)"

definition client_push_verifier_nonces ::
  "('k, 's) client_env \<Rightarrow> (presigned option \<Rightarrow> nat \<Rightarrow> nat list) \<Rightarrow> string \<Rightarrow> ('k, 's, 'd) client \<Rightarrow>
     ('k, 's, 'd) client option" where
  "client_push_verifier_nonces env fresh graph_id c =
     do {
       ctx \<leftarrow> cl_verifier c;
       (c', pushed) \<leftarrow> graph_mut graph_id c
         (\<lambda>g. Some (peg_in_push_verifier_nonces (env_txid env) (env_crypto env) ctx (fresh None) g))
         (\<lambda>g. Some (push_verifier_nonces (env_txid env) (env_crypto env) ctx (\<lambda>p. fresh (Some p)) g));
       Some (save_private_data
         (c'\<lparr>cl_private := merge_secret_nonces (vc_public_key ctx) graph_id pushed (cl_private c')\<rparr>))
     }"

definition push_verifier_signature ::
  "('k, 's) client_env \<Rightarrow> string \<Rightarrow> ('k, 's, 'd) client \<Rightarrow> ('k, 's, 'd) client option" where
  "push_verifier_signature env graph_id c =
     do {
       ctx \<leftarrow> cl_verifier c;
       let secret_nonces = do { graphs \<leftarrow> pv_secret_nonces (cl_private c) (vc_public_key ctx); graphs graph_id };
       (c', _) \<leftarrow> graph_mut graph_id c
         (\<lambda>g. do { ns \<leftarrow> secret_nonces; map_option (\<lambda>g'. (g', ())) (peg_in_verifier_sign (env_txid env) (env_crypto env) ctx ns g) })
         (\<lambda>g. do { ns \<leftarrow> secret_nonces; map_option (\<lambda>g'. (g', ())) (verifier_sign (env_txid env) (env_crypto env) ctx ns g) });
       Some c'
     }"

section \<open>Automatic mode\<close>

definition process_peg_in_as_depositor ::
  "('k, 's) client_env \<Rightarrow> string \<Rightarrow> ('k, 's, 'd) client \<Rightarrow> ('k, 's, 'd) client option" where
  "process_peg_in_as_depositor env graph_id c =
     (if cl_depositor c = None then Some c
      else case get_peg_in_graph c graph_id of
        Inl _ \<Rightarrow> Some c
      | Inr g \<Rightarrow>
          do {
            status \<leftarrow> status_for_depositor (env_txid env) (env_client env) g;
            case status of
              Peg_In_Deposit_Wait \<Rightarrow> map_option fst (broadcast_peg_in_deposit env graph_id c)
            | Peg_In_Confirm_Wait \<Rightarrow> map_option fst (broadcast_peg_in_confirm env graph_id c)
            | _ \<Rightarrow> Some c
          })"

definition peg_outs_of :: "public_data \<Rightarrow> peg_in_state \<Rightarrow> peg_out_state list" where
  "peg_outs_of data g = filter (\<lambda>p. po_id p \<in> set (pi_peg_out_graphs g)) (pd_peg_outs data)"

definition process_peg_in_as_verifier ::
  "('k, 's) client_env \<Rightarrow> (presigned option \<Rightarrow> nat \<Rightarrow> nat list) \<Rightarrow> string \<Rightarrow> ('k, 's, 'd) client \<Rightarrow>
     ('k, 's, 'd) client option" where
  "process_peg_in_as_verifier env fresh graph_id c =
     (case cl_verifier c of
        None \<Rightarrow> Some c
      | Some ctx \<Rightarrow>
          (case get_peg_in_graph c graph_id of
             Inl _ \<Rightarrow> Some c
           | Inr g \<Rightarrow>
               do {
                 status \<leftarrow> status_for_verifier (env_txid env) (env_client env) ctx (map po_id (peg_outs_of (cl_data c) g)) g;
                 case status of
                   Pending_Our_Nonces graph_ids \<Rightarrow>
                     fold_option (\<lambda>c i. client_push_verifier_nonces env fresh i c) c graph_ids
                 | Pending_Our_Signature graph_ids \<Rightarrow> fold_option (\<lambda>c i. push_verifier_signature env i c) c graph_ids
                 | Ready_To_Submit \<Rightarrow> map_option fst (broadcast_peg_in_confirm env graph_id c)
                 | _ \<Rightarrow> Some c
               }))"

definition reward_precision :: nat where
  "reward_precision = 1000"

definition reward_multiplier :: nat where
  "reward_multiplier = 20"

text \<open>The operator pays a reward of two percent and the fees in advance, from one output that is large enough.\<close>

definition expected_peg_out_confirm_amount :: "fee_policy \<Rightarrow> peg_in_state \<Rightarrow> nat option" where
  "expected_peg_out_confirm_amount pol g =
     do {
       deposit \<leftarrow> index_of (tx_output (ps_tx (peg_in_deposit_tx g))) 0;
       product \<leftarrow> amt_mul (tx_value deposit) reward_multiplier;
       amt_add (product div reward_precision) (peg_out_fee pol)
     }"

definition process_peg_in_as_operator ::
  "('k, 's) client_env \<Rightarrow> (commitment_message_id \<times> 's) list \<Rightarrow> string \<Rightarrow> ('k, 's, 'd) client \<Rightarrow>
     ('k, 's, 'd) client option" where
  "process_peg_in_as_operator env new_secrets graph_id c =
     (case cl_operator c of
        None \<Rightarrow> Some c
      | Some operator \<Rightarrow>
          (case get_peg_in_graph c graph_id of
             Inl _ \<Rightarrow> Some c
           | Inr g \<Rightarrow>
               let key = oc_operator_key (oi_context operator) in
               if ce_peg_out_id env (pi_id g) key \<in> set (pi_peg_out_graphs g) then Some c
               else do {
                 amount \<leftarrow> expected_peg_out_confirm_amount (env_policy env) g;
                 utxos \<leftarrow> (case ce_utxos env (generate_pay_to_pubkey_script_address (oc_network (oi_context operator)) key) of
                     Inl _ \<Rightarrow> None | Inr us \<Rightarrow> Some us);
                 u \<leftarrow> find (\<lambda>u. amount \<le> utxo_value u) utxos;
                 map_option fst (create_peg_out_graph env graph_id
                   \<lparr>in_outpoint = Outpoint (utxo_txid u) (utxo_vout u), in_amount = utxo_value u\<rparr> new_secrets c)
               }))"

text \<open>
  The random choices of a round: the nonces and the Winternitz secrets for a graph. The graphs to process are those
  at the start.
\<close>

definition process_peg_in ::
  "('k, 's) client_env \<Rightarrow> (string \<Rightarrow> presigned option \<Rightarrow> nat \<Rightarrow> nat list) \<Rightarrow>
     (string \<Rightarrow> (commitment_message_id \<times> 's) list) \<Rightarrow> ('k, 's, 'd) client \<Rightarrow> string \<Rightarrow> ('k, 's, 'd) client option" where
  "process_peg_in env fresh new_secrets c graph_id =
     do {
       c1 \<leftarrow> process_peg_in_as_depositor env graph_id c;
       c2 \<leftarrow> process_peg_in_as_verifier env (fresh graph_id) graph_id c1;
       process_peg_in_as_operator env (new_secrets graph_id) graph_id c2
     }"

definition process_peg_ins ::
  "('k, 's) client_env \<Rightarrow> (string \<Rightarrow> presigned option \<Rightarrow> nat \<Rightarrow> nat list) \<Rightarrow>
     (string \<Rightarrow> (commitment_message_id \<times> 's) list) \<Rightarrow> ('k, 's, 'd) client \<Rightarrow> ('k, 's, 'd) client option" where
  "process_peg_ins env fresh new_secrets c =
     fold_option (process_peg_in env fresh new_secrets) c (map pi_id (pd_peg_ins (cl_data c)))"

text \<open>The status is that of the graph as it was before the round.\<close>

definition process_peg_out ::
  "('k, 's) client_env \<Rightarrow> ('k, 's, 'd) client \<Rightarrow> peg_out_state \<Rightarrow> ('k, 's, 'd) client option" where
  "process_peg_out env c g =
     do {
       status \<leftarrow> operator_status (env_txid env) (env_client env) g;
       case status of
         Start_Time_Available \<Rightarrow> map_option fst (broadcast_start_time env (po_id g) c)
       | Peg_Out_Confirm_Available \<Rightarrow> map_option fst (broadcast_peg_out_confirm env (po_id g) c)
       | Kick_Off_1_Available \<Rightarrow> map_option fst (broadcast_kick_off_1 env (po_id g) c)
       | Kick_Off_2_Available \<Rightarrow> map_option fst (broadcast_kick_off_2 env (po_id g) c)
       | Assert_Initial_Available \<Rightarrow> map_option fst (broadcast_assert_initial env (po_id g) c)
       | Assert_Commit_1_Available \<Rightarrow> map_option fst (broadcast_assert_commit_1 env (po_id g) (ce_proof env) c)
       | Assert_Commit_2_Available \<Rightarrow> map_option fst (broadcast_assert_commit_2 env (po_id g) (ce_proof env) c)
       | Assert_Final_Available \<Rightarrow> map_option fst (broadcast_assert_final env (po_id g) c)
       | Take_1_Available \<Rightarrow> map_option fst (broadcast_take_1 env (po_id g) c)
       | Take_2_Available \<Rightarrow> map_option fst (broadcast_take_2 env (po_id g) c)
       | _ \<Rightarrow> Some c
     }"

definition process_peg_outs :: "('k, 's) client_env \<Rightarrow> ('k, 's, 'd) client \<Rightarrow> ('k, 's, 'd) client option" where
  "process_peg_outs env c = fold_option (process_peg_out env) c (pd_peg_outs (cl_data c))"

text \<open>One round of the loop; only changed data are written.\<close>

definition automatic_round ::
  "('k, 's) client_env \<Rightarrow> (string \<Rightarrow> presigned option \<Rightarrow> nat \<Rightarrow> nat list) \<Rightarrow>
     (string \<Rightarrow> (commitment_message_id \<times> 's) list) \<Rightarrow> nat \<Rightarrow> 'd \<Rightarrow> ('k, 's, 'd) client \<Rightarrow>
     ('d \<times> ('k, 's, 'd) client) option" where
  "automatic_round env fresh new_secrets time d c =
     do {
       c1 \<leftarrow> read_from_data_store env d c;
       c2 \<leftarrow> process_peg_ins env fresh new_secrets c1;
       c3 \<leftarrow> process_peg_outs env c2;
       if cl_data c3 \<noteq> cl_data c1 then save_to_data_store env time d c3 else Some (d, c3)
     }"

end
