(* ===== verification/Client_Queries.thy ===== *)
theory Client_Queries
  imports Client_Operations
begin

text \<open>
  What a client reports and prepares for others without holding their keys (the queries of \<open>client/client.rs\<close> and
  the trait \<open>ClientCliQuery\<close>). The JSON values are records of what is put into them.
\<close>

section \<open>Addresses and unspent outputs\<close>

definition get_initial_utxos :: "('k, 's) client_env \<Rightarrow> address \<Rightarrow> nat \<Rightarrow> utxo list option option" where
  "get_initial_utxos env addr amount =
     (case ce_utxos env addr of
        Inl _ \<Rightarrow> None
      | Inr utxos \<Rightarrow>
          (let possible_utxos = filter (\<lambda>u. utxo_value u = amount) utxos in
           Some (if possible_utxos \<noteq> [] then Some possible_utxos else None)))"

definition get_initial_utxo :: "('k, 's) client_env \<Rightarrow> address \<Rightarrow> nat \<Rightarrow> utxo option option" where
  "get_initial_utxo env addr amount =
     (case ce_utxos env addr of
        Inl _ \<Rightarrow> None
      | Inr utxos \<Rightarrow>
          (let possible_utxos = filter (\<lambda>u. utxo_value u = amount) utxos in
           Some (if possible_utxos \<noteq> [] then Some (hd possible_utxos) else None)))"

definition get_operator_address :: "('k, 's, 'd) client \<Rightarrow> address option" where
  "get_operator_address c =
     map_option (\<lambda>operator. generate_pay_to_pubkey_script_address (oc_network (oi_context operator))
         (oc_operator_key (oi_context operator))) (cl_operator c)"

definition get_depositor_address :: "('k, 's, 'd) client \<Rightarrow> address option" where
  "get_depositor_address c =
     map_option (\<lambda>d. generate_pay_to_pubkey_script_address (di_network d) (di_key d)) (cl_depositor c)"

definition utxos_at :: "('k, 's) client_env \<Rightarrow> address option \<Rightarrow> utxo list option" where
  "utxos_at env addr = do { a \<leftarrow> addr; case ce_utxos env a of Inl _ \<Rightarrow> None | Inr utxos \<Rightarrow> Some utxos }"

definition get_operator_utxos :: "('k, 's) client_env \<Rightarrow> ('k, 's, 'd) client \<Rightarrow> utxo list option" where
  "get_operator_utxos env c = utxos_at env (get_operator_address c)"

definition get_depositor_utxos :: "('k, 's) client_env \<Rightarrow> ('k, 's, 'd) client \<Rightarrow> utxo list option" where
  "get_depositor_utxos env c = utxos_at env (get_depositor_address c)"

section \<open>Statuses\<close>

definition client_depositor_status ::
  "('k, 's) client_env \<Rightarrow> ('k, 's, 'd) client \<Rightarrow> (string \<times> peg_in_depositor_status) list option" where
  "client_depositor_status env c =
     do {
       d \<leftarrow> cl_depositor c;
       fold_option (\<lambda>acc g. map_option (\<lambda>st. acc @ [(pi_id g, st)])
           (status_for_depositor (env_txid env) (env_client env) g)) []
         (filter (\<lambda>g. pi_depositor_key g = di_key d) (pd_peg_ins (cl_data c)))
     }"

text \<open>A peg-in without a peg-out of this operator has no status. Of peg-outs with one id the last is taken.\<close>

definition client_operator_status ::
  "('k, 's) client_env \<Rightarrow> ('k, 's, 'd) client \<Rightarrow> (string \<times> operator_status option) list option" where
  "client_operator_status env c =
     do {
       operator \<leftarrow> cl_operator c;
       let outs = pd_peg_outs (cl_data c);
       fold_option (\<lambda>acc g.
           case graphs_by_id po_id outs (ce_peg_out_id env (pi_id g) (oc_operator_key (oi_context operator))) of
             None \<Rightarrow> Some (acc @ [(pi_id g, None)])
           | Some i \<Rightarrow> map_option (\<lambda>st. acc @ [(pi_id g, Some st)])
               (operator_status (env_txid env) (env_client env) (outs ! i))) []
         (pd_peg_ins (cl_data c))
     }"

text \<open>Here a peg-out that a peg-in lists and the client does not have panics.\<close>

definition client_verifier_status ::
  "('k, 's) client_env \<Rightarrow> ('k, 's, 'd) client \<Rightarrow>
     (string \<times> peg_in_verifier_status \<times> (string \<times> verifier_status) list) list option" where
  "client_verifier_status env c =
     do {
       ctx \<leftarrow> cl_verifier c;
       fold_option (\<lambda>acc g.
         do {
           outs \<leftarrow> fold_option (\<lambda>ps i. map_option (\<lambda>p. ps @ [p]) (find (\<lambda>p. po_id p = i) (pd_peg_outs (cl_data c)))) []
             (pi_peg_out_graphs g);
           st \<leftarrow> status_for_verifier (env_txid env) (env_client env) ctx (map po_id outs) g;
           sts \<leftarrow> (if st = Peg_In_Verifier_Complete
             then fold_option (\<lambda>sts p. map_option (\<lambda>s. sts @ [(po_id p, s)])
               (verifier_status (env_txid env) (env_client env) ctx p)) [] outs
             else Some []);
           Some (acc @ [(pi_id g, st, sts)])
         }) [] (pd_peg_ins (cl_data c))
     }"

section \<open>Queries\<close>

text \<open>A status that cannot be had is reported as not confirmed.\<close>

record tx_report =
  tr_type :: string
  tr_txid :: tx_hash
  tr_confirmed :: bool
  tr_block_height :: nat

definition report_tx :: "string \<Rightarrow> tx_hash \<Rightarrow> string + tx_status \<Rightarrow> tx_report" where
  "report_tx ty txid r =
     (let st = (case r of Inl _ \<Rightarrow> \<lparr>confirmed = False, block_height = None\<rparr> | Inr st \<Rightarrow> st)
      in \<lparr>tr_type = ty, tr_txid = txid, tr_confirmed = confirmed st,
          tr_block_height = (case block_height st of None \<Rightarrow> 0 | Some h \<Rightarrow> h)\<rparr>)"

record 'st graph_report =
  gr_graph_id :: string
  gr_status :: 'st
  gr_amount :: nat
  gr_destination_address :: string
  gr_txs :: "tx_report list"

definition report_peg_in :: "('k, 's) client_env \<Rightarrow> peg_in_state \<Rightarrow> peg_in_depositor_status graph_report option" where
  "report_peg_in env g =
     (let txids = map (env_txid env)
            [ps_tx (peg_in_deposit_tx g), ps_tx (peg_in_confirm_tx g), ps_tx (peg_in_refund_tx g)];
          results = get_tx_statuses (env_client env) txids
      in do {
        status \<leftarrow> interpret_depositor_status g (results ! 0) (results ! 1) (results ! 2) (get_height (env_client env));
        out \<leftarrow> index_of (ps_prev_outs (peg_in_deposit_tx g)) 0;
        Some \<lparr>gr_graph_id = pi_id g, gr_status = status, gr_amount = tx_value out,
          gr_destination_address = pi_evm_address g,
          gr_txs = map (\<lambda>(ty, txid, r). report_tx ty txid r)
            (zip [''peg_in_deposit'', ''peg_in_confirm'', ''peg_in_refund''] (zip txids results))\<rparr>
      })"

definition get_depositor_status ::
  "('k, 's) client_env \<Rightarrow> public_key \<Rightarrow> ('k, 's, 'd) client \<Rightarrow> peg_in_depositor_status graph_report list option" where
  "get_depositor_status env key c =
     fold_option (\<lambda>acc g. map_option (\<lambda>r. acc @ [r]) (report_peg_in env g)) []
       (filter (\<lambda>g. pi_depositor_key g = key) (pd_peg_ins (cl_data c)))"

definition report_peg_out :: "('k, 's) client_env \<Rightarrow> peg_out_state \<Rightarrow> peg_out_event \<Rightarrow> withdrawer_status graph_report" where
  "report_peg_out env g event =
     (let tx = map_option (\<lambda>t. env_txid env (ps_tx t)) (peg_out_transaction g);
          result = map_option (get_tx_status (env_client env)) tx
      in \<lparr>gr_graph_id = po_id g, gr_status = interpret_withdrawer_status result, gr_amount = peg_out_amount event,
          gr_destination_address = withdrawer_destination_address event,
          gr_txs = (case tx of None \<Rightarrow> [] | Some txid \<Rightarrow> [report_tx ''peg_out'' txid (get_tx_status (env_client env) txid)])\<rparr>)"

definition get_withdrawer_statuses ::
  "('k, 's) client_env \<Rightarrow> string \<Rightarrow> ('k, 's, 'd) client \<Rightarrow> withdrawer_status graph_report list" where
  "get_withdrawer_statuses env withdrawer_address c =
     List.map_filter (\<lambda>g.
       case peg_out_chain_event g of
         Some event \<Rightarrow>
           if withdrawer_chain_address event = withdrawer_address then Some (report_peg_out env g event) else None
       | None \<Rightarrow> None) (pd_peg_outs (cl_data c))"

text \<open>Graphs for a depositor who keeps the key; the n-of-n keys are those of the client's own context.\<close>

definition settings_for_query :: "'k depositor_identity \<Rightarrow> public_key \<Rightarrow> xonly_key \<Rightarrow> string \<Rightarrow> peg_in_settings" where
  "settings_for_query d key taproot_key evm_address =
     (settings_for d evm_address)\<lparr>st_depositor_key := key, st_depositor_taproot_key := taproot_key\<rparr>"

definition get_depositor_transactions ::
  "('k, 's) client_env \<Rightarrow> public_key \<Rightarrow> xonly_key \<Rightarrow> tx_input_ref \<Rightarrow> string \<Rightarrow> ('k, 's, 'd) client \<Rightarrow>
     (string + btc_tx \<times> btc_tx \<times> btc_tx) option" where
  "get_depositor_transactions env key taproot_key input evm_address c =
     (case cl_depositor c of
        None \<Rightarrow> Some (Inl ''Depositor context must be initialized'')
      | Some d \<Rightarrow>
          map_option (\<lambda>g. Inr (ps_tx (peg_in_deposit_tx g), ps_tx (peg_in_confirm_tx g), ps_tx (peg_in_refund_tx g)))
            (create_graph_without_signing (env_policy env) (env_txid env) (ce_hash_id env)
              (settings_for_query d key taproot_key evm_address) input))"

definition create_peg_in_graph_with_depositor_signatures ::
  "('k, 's) client_env \<Rightarrow> public_key \<Rightarrow> xonly_key \<Rightarrow> tx_input_ref \<Rightarrow> string \<Rightarrow> depositor_signatures \<Rightarrow>
     ('k, 's, 'd) client \<Rightarrow> (('k, 's, 'd) client \<times> (string + string)) option" where
  "create_peg_in_graph_with_depositor_signatures env key taproot_key input evm_address signatures c =
     (case cl_depositor c of
        None \<Rightarrow> Some (c, Inl ''Depositor context must be initialized'')
      | Some d \<Rightarrow>
          do {
            g \<leftarrow> new_with_depositor_signatures (env_policy env) (env_txid env) (ce_hash_id env) (env_crypto env)
              (settings_for_query d key taproot_key evm_address) input signatures;
            let graph_id = generate_peg_in_id (env_txid env) (ce_hash_id env) (peg_in_deposit_tx g);
            if find (\<lambda>h. pi_id h = graph_id) (pd_peg_ins (cl_data c)) \<noteq> None
            then Some (c, Inl ''Peg in graph already exists'')
            else Some (add_peg_in g c,
              and_then (broadcast_deposit (env_txid env) (env_client env) g) (\<lambda>_. Inr graph_id))
          })"

definition retry_broadcast_peg_in_deposit ::
  "('k, 's) client_env \<Rightarrow> string \<Rightarrow> ('k, 's, 'd) client \<Rightarrow> string + string" where
  "retry_broadcast_peg_in_deposit env graph_id c =
     (case find (\<lambda>g. pi_id g = graph_id) (pd_peg_ins (cl_data c)) of
        None \<Rightarrow> Inl ''Peg in graph not found''
      | Some g \<Rightarrow> and_then (broadcast_deposit (env_txid env) (env_client env) g) (\<lambda>_. Inr graph_id))"

section \<open>Transactions of a peg-in before there is a graph\<close>

definition operator_connector_z ::
  "('k, 's, 'd) client \<Rightarrow> btc_network \<Rightarrow> string \<Rightarrow> xonly_key \<Rightarrow> connector_z option" where
  "operator_connector_z c net recipient depositor_taproot_key =
     map_option (\<lambda>operator. connector_z_new net recipient depositor_taproot_key (oc_n_of_n_taproot_key (oi_context operator)))
       (cl_operator c)"

definition generate_connector_z_taproot_address ::
  "('k, 's, 'd) client \<Rightarrow> btc_network \<Rightarrow> string \<Rightarrow> xonly_key \<Rightarrow> address option" where
  "generate_connector_z_taproot_address c net recipient depositor_taproot_key =
     map_option connector_z_address (operator_connector_z c net recipient depositor_taproot_key)"

definition generate_presign_pegin_deposit_tx ::
  "('k, 's) client_env \<Rightarrow> btc_network \<Rightarrow> nat \<Rightarrow> string \<Rightarrow> public_key \<Rightarrow> outpoint \<Rightarrow> ('k, 's, 'd) client \<Rightarrow> btc_tx option" where
  "generate_presign_pegin_deposit_tx env net amount recipient key op c =
     do {
       cz \<leftarrow> operator_connector_z c net recipient (key_x key);
       map_option ps_tx (peg_in_deposit_new_for_validation (env_policy env) net key cz \<lparr>in_outpoint = op, in_amount = amount\<rparr>)
     }"

definition generate_presign_pegin_refund_tx ::
  "('k, 's) client_env \<Rightarrow> btc_network \<Rightarrow> nat \<Rightarrow> string \<Rightarrow> public_key \<Rightarrow> outpoint \<Rightarrow> ('k, 's, 'd) client \<Rightarrow> btc_tx option" where
  "generate_presign_pegin_refund_tx env net amount recipient key op c =
     do {
       cz \<leftarrow> operator_connector_z c net recipient (key_x key);
       map_option ps_tx (peg_in_refund_new_for_validation (env_policy env) net key cz \<lparr>in_outpoint = op, in_amount = amount\<rparr>)
     }"

text \<open>The confirmation also gets a nonce and a partial signature of the client.\<close>

definition generate_presign_pegin_confirm_tx ::
  "('k, 's) client_env \<Rightarrow> (nat \<Rightarrow> nat list) \<Rightarrow> btc_network \<Rightarrow> string \<Rightarrow> nat \<Rightarrow> xonly_key \<Rightarrow> outpoint \<Rightarrow>
     ('k, 's, 'd) client \<Rightarrow> btc_tx option" where
  "generate_presign_pegin_confirm_tx env fresh net recipient amount depositor_taproot_key op c =
     do {
       operator \<leftarrow> cl_operator c;
       cz \<leftarrow> operator_connector_z c net recipient depositor_taproot_key;
       t \<leftarrow> peg_in_confirm_new_for_validation (env_policy env)
         (connector_0_new net (oc_n_of_n_taproot_key (oi_context operator))) cz \<lparr>in_outpoint = op, in_amount = amount\<rparr>;
       ctx \<leftarrow> cl_verifier c;
       let (ms, secrets) = push_nonces (env_crypto env) ctx [0] fresh empty_musig;
       (t', _) \<leftarrow> peg_in_confirm_pre_sign (env_crypto env) ctx cz (map_of secrets) (t, ms);
       Some (ps_tx t')
     }"

end
