(* ===== verification/Client_Rules.thy ===== *)
theory Client_Rules
  imports Client_Queries
begin

text \<open>
  What the synchronisation of clients through the shared store achieves: merging what another client wrote carries
  over all of its nonces and signatures, the files of the last minutes are found by their names, and what one client
  writes the others know after their next reading.
\<close>

section \<open>Merging lists of graphs\<close>

lemma graphs_by_id_None: "graphs_by_id id_of gs i = None \<longleftrightarrow> i \<notin> id_of ` set gs"
proof -
  have "fst ` set (zip (map id_of gs) [0..<length gs]) = id_of ` set gs"
    by (metis length_map length_upt diff_zero list.set_map map_fst_zip)
  then show ?thesis by (simp add: graphs_by_id_def map_of_eq_None_iff)
qed

lemma graphs_by_id_distinct:
  assumes "distinct (map id_of gs)"
  shows "graphs_by_id id_of gs i = Some k \<longleftrightarrow> k < length gs \<and> id_of (gs ! k) = i"
proof -
  have d: "distinct (map fst (rev (zip (map id_of gs) [0..<length gs])))"
    using assms by (simp add: rev_map [symmetric] map_fst_zip)
  show ?thesis
    unfolding graphs_by_id_def map_of_eq_Some_iff [OF d]
    by (auto simp: in_set_zip intro: exI [of _ k])
qed

lemma graphs_by_id_bound: "graphs_by_id id_of gs i = Some k \<Longrightarrow> k < length gs"
  by (auto simp: graphs_by_id_def in_set_zip dest!: map_of_SomeD)

lemma merge_graph_foldl:
  assumes "foldl (merge_graph id_of merge by_id) (gs, to_add) new_graphs = (gs', to_add')"
  shows "to_add' = to_add @ filter (\<lambda>g. by_id (id_of g) = None) new_graphs \<and> length gs' = length gs \<and>
    (\<forall>k < length gs. gs' ! k = foldl merge (gs ! k) (filter (\<lambda>g. by_id (id_of g) = Some k) new_graphs))"
  using assms
proof (induction new_graphs arbitrary: gs to_add)
  case (Cons g new_graphs)
  show ?case
  proof (cases "by_id (id_of g)")
    case None
    then show ?thesis using Cons.IH [of gs "to_add @ [g]"] Cons.prems by (simp add: merge_graph_def)
  next
    case (Some i)
    then show ?thesis using Cons.IH [of "gs[i := merge (gs ! i) g]" to_add] Cons.prems
      by (auto simp: merge_graph_def nth_list_update)
  qed
qed simp

text \<open>Graphs that are there stay in their places, the others follow in the order of the source.\<close>

lemma merge_graphs_eq:
  "merge_graphs id_of merge gs new_graphs =
     map (\<lambda>k. foldl merge (gs ! k) (filter (\<lambda>g. graphs_by_id id_of gs (id_of g) = Some k) new_graphs)) [0..<length gs] @
     filter (\<lambda>g. id_of g \<notin> id_of ` set gs) new_graphs"
proof -
  obtain gs' to_add where f: "foldl (merge_graph id_of merge (graphs_by_id id_of gs)) (gs, []) new_graphs = (gs', to_add)"
    by (cases "foldl (merge_graph id_of merge (graphs_by_id id_of gs)) (gs, []) new_graphs") simp
  have "gs' = map (\<lambda>k. foldl merge (gs ! k) (filter (\<lambda>g. graphs_by_id id_of gs (id_of g) = Some k) new_graphs)) [0..<length gs]"
    by (rule nth_equalityI) (use merge_graph_foldl [OF f] in simp_all)
  then show ?thesis using merge_graph_foldl [OF f] by (simp add: merge_graphs_def f graphs_by_id_None)
qed

lemma foldl_merge_id: "(\<And>a b. id_of (merge a b) = id_of a) \<Longrightarrow> id_of (foldl merge a bs) = id_of a"
  by (induction bs arbitrary: a) simp_all

lemma merge_graphs_ids:
  assumes "\<And>a b. id_of (merge a b) = id_of a"
  shows "map id_of (merge_graphs id_of merge gs new_graphs) =
    map id_of gs @ filter (\<lambda>i. i \<notin> id_of ` set gs) (map id_of new_graphs)"
proof -
  have "map (\<lambda>k. id_of (foldl merge (gs ! k) (xs k))) [0..<length gs] = map id_of gs" for xs
    by (rule nth_equalityI) (simp_all add: foldl_merge_id [of id_of merge, OF assms])
  then show ?thesis by (simp add: merge_graphs_eq filter_map o_def)
qed

lemma merge_graphs_distinct:
  assumes "\<And>a b. id_of (merge a b) = id_of a" "distinct (map id_of gs)" "distinct (map id_of new_graphs)"
  shows "distinct (map id_of (merge_graphs id_of merge gs new_graphs))"
  unfolding merge_graphs_ids [of id_of merge, OF assms(1)] using assms(2,3) by auto

lemma find_distinct:
  "distinct (map id_of gs) \<Longrightarrow> g \<in> set gs \<Longrightarrow> id_of g = i \<Longrightarrow> find (\<lambda>h. id_of h = i) gs = Some g"
  by (induction gs) auto

lemma filter_distinct_id:
  "distinct (map id_of gs) \<Longrightarrow> g \<in> set gs \<Longrightarrow> filter (\<lambda>h. id_of h = id_of g) gs = [g]"
proof (induction gs)
  case (Cons a gs)
  have "filter (\<lambda>h. id_of h = id_of a) gs = []" using Cons.prems(1) by (auto simp: filter_empty_conv image_iff)
  then show ?case using Cons by (auto simp: image_iff)
qed simp

text \<open>After a merge a graph of the source is found: as it is, or merged into the client's own.\<close>

lemma merge_graphs_finds:
  assumes "\<And>a b. id_of (merge a b) = id_of a" "distinct (map id_of gs)" "distinct (map id_of new_graphs)" "g \<in> set new_graphs"
  shows "\<exists>h. find (\<lambda>h. id_of h = id_of g) (merge_graphs id_of merge gs new_graphs) = Some h \<and>
    (h = g \<or> (\<exists>own \<in> set gs. h = merge own g))"
proof (cases "id_of g \<in> id_of ` set gs")
  case False
  then have "g \<in> set (merge_graphs id_of merge gs new_graphs)" using assms(4) by (simp add: merge_graphs_eq)
  from find_distinct [OF merge_graphs_distinct [of id_of merge, OF assms(1-3)] this, of "id_of g"]
  show ?thesis by blast
next
  case True
  then obtain k where k: "k < length gs" "id_of (gs ! k) = id_of g" by (auto simp: in_set_conv_nth image_iff)
  have "graphs_by_id id_of gs (id_of h) = Some k \<longleftrightarrow> id_of h = id_of g" for h
    using graphs_by_id_distinct [OF assms(2), of "id_of h" k] k by auto
  then have "merge_graphs id_of merge gs new_graphs ! k = merge (gs ! k) g"
    using k(1) filter_distinct_id [OF assms(3,4)] by (simp add: merge_graphs_eq nth_append)
  moreover have "k < length (merge_graphs id_of merge gs new_graphs)" using k(1) by (simp add: merge_graphs_eq)
  then have "merge_graphs id_of merge gs new_graphs ! k \<in> set (merge_graphs id_of merge gs new_graphs)" by (rule nth_mem)
  ultimately have "merge (gs ! k) g \<in> set (merge_graphs id_of merge gs new_graphs)" by simp
  from find_distinct [OF merge_graphs_distinct [of id_of merge, OF assms(1-3)] this, of "id_of g"]
  show ?thesis using k assms(1) by (metis nth_mem)
qed

section \<open>What a merge carries over\<close>

text \<open>All nonces and partial signatures of one copy are in another.\<close>

definition carries :: "nat list musig2_state \<Rightarrow> nat list musig2_state \<Rightarrow> bool" where
  "carries src destination \<longleftrightarrow>
     (\<forall>i k v. entry (musig2_nonces src) i k = Some v \<longrightarrow> entry (musig2_nonces destination) i k = Some v) \<and>
     (\<forall>i k v. entry (musig2_nonce_signatures src) i k = Some v \<longrightarrow> entry (musig2_nonce_signatures destination) i k = Some v) \<and>
     (\<forall>i k v. entry (musig2_signatures src) i k = Some v \<longrightarrow> entry (musig2_signatures destination) i k = Some v)"

lemma carries_refl [simp]: "carries m m"
  by (simp add: carries_def)

lemma carries_merge [simp]: "carries b (merge_musig2_nonces_and_signatures a b)"
  by (simp add: carries_def merge_musig2_nonces_and_signatures_def entry_merge_hash_maps)

lemma po_musig_merge [simp]: "po_musig (peg_out_merge s src) p = merge_musig2_nonces_and_signatures (po_musig s p) (po_musig src p)"
  by (cases p) (simp_all add: peg_out_merge_def merge_presigned_def merge_musig_def Let_def)

lemma set_presigned_id [simp]: "po_id (set_presigned p tx s) = po_id s"
  by (cases p) simp_all

lemma po_id_merge [simp]: "po_id (peg_out_merge s src) = po_id s"
  by (simp add: peg_out_merge_def merge_presigned_def merge_musig_def set_musig_def Let_def)

lemma pi_id_merge [simp]: "pi_id (peg_in_merge s src) = pi_id s"
  by (simp add: peg_in_merge_def)

definition knows :: "public_data \<Rightarrow> public_data \<Rightarrow> bool" where
  "knows data other \<longleftrightarrow>
     (\<forall>g \<in> set (pd_peg_ins other). \<exists>h. find (\<lambda>h. pi_id h = pi_id g) (pd_peg_ins data) = Some h \<and>
        carries (pi_musig g) (pi_musig h) \<and> set (pi_peg_out_graphs g) \<subseteq> set (pi_peg_out_graphs h)) \<and>
     (\<forall>g \<in> set (pd_peg_outs other). \<exists>h. find (\<lambda>h. po_id h = po_id g) (pd_peg_outs data) = Some h \<and>
        (\<forall>p. carries (po_musig g p) (po_musig h p)))"

definition distinct_ids :: "public_data \<Rightarrow> bool" where
  "distinct_ids data \<longleftrightarrow> distinct (map pi_id (pd_peg_ins data)) \<and> distinct (map po_id (pd_peg_outs data))"

lemma merge_public_data_distinct:
  "distinct_ids own \<Longrightarrow> distinct_ids data \<Longrightarrow> distinct_ids (merge_public_data own data)"
  by (simp add: distinct_ids_def merge_public_data_def merge_graphs_distinct)

lemma merge_public_data_knows:
  assumes "distinct_ids own" "distinct_ids data"
  shows "knows (merge_public_data own data) data"
proof -
  have "\<exists>h. find (\<lambda>h. pi_id h = pi_id g) (pd_peg_ins (merge_public_data own data)) = Some h \<and>
      carries (pi_musig g) (pi_musig h) \<and> set (pi_peg_out_graphs g) \<subseteq> set (pi_peg_out_graphs h)"
    if "g \<in> set (pd_peg_ins data)" for g
    using merge_graphs_finds [of pi_id peg_in_merge "pd_peg_ins own" "pd_peg_ins data" g] assms that
    by (auto simp: merge_public_data_def distinct_ids_def peg_in_merge_def)
  moreover have "\<exists>h. find (\<lambda>h. po_id h = po_id g) (pd_peg_outs (merge_public_data own data)) = Some h \<and>
      (\<forall>p. carries (po_musig g p) (po_musig h p))"
    if "g \<in> set (pd_peg_outs data)" for g
    using merge_graphs_finds [of po_id peg_out_merge "pd_peg_outs own" "pd_peg_outs data" g] assms that
    by (auto simp: merge_public_data_def distinct_ids_def)
  ultimately show ?thesis by (simp add: knows_def)
qed

section \<open>Samples\<close>

definition sample_compressor :: compressor where
  "sample_compressor =
     \<lparr>compress = (\<lambda>data. Inr (map Suc data @ [0])),
      decompress = (\<lambda>bytes. if bytes \<noteq> [] \<and> last bytes = 0 then Inr (map (\<lambda>b. b - 1) (butlast bytes)) else Inl ''incomplete frame'')\<rparr>"

definition sample_disk :: "local_files \<Rightarrow> local_disk" where
  "sample_disk files =
     \<lparr>disk_files = files,
      disk_os = \<lparr>os_dir = (\<lambda>_. True), os_read_dir = (\<lambda>_. True), os_entry = (\<lambda>_. True), os_read = (\<lambda>_. True),
        os_write = (\<lambda>_ _. Written)\<rparr>\<rparr>"

lemma sample_disk_simps [simp]:
  "disk_files (sample_disk files) = files" "os_dir (disk_os (sample_disk files)) p" "os_read_dir (disk_os (sample_disk files)) p"
  "os_entry (disk_os (sample_disk files)) key" "os_read (disk_os (sample_disk files)) key"
  "os_write (disk_os (sample_disk files)) key data = Written" "readable (sample_disk files)"
  "sample_disk files\<lparr>disk_files := files'\<rparr> = sample_disk files'"
  by (simp_all add: sample_disk_def readable_def)

lemma sample_compressor_lossless: "lossless sample_compressor"
  unfolding lossless_def
proof (intro allI impI conjI)
  fix x y n z
  assume y: "compress sample_compressor x = Inr y"
  then show "decompress sample_compressor y = Inr x" by (auto simp: sample_compressor_def map_idI)
  assume n: "n < length y" and z: "decompress sample_compressor (take n y) = Inr z"
  have "take n y = map Suc (take n x)" using y n by (auto simp: sample_compressor_def take_map)
  then show "z = []" using z by (cases "take n x" rule: rev_cases) (simp_all add: sample_compressor_def)
qed

text \<open>The sample's file of a text.\<close>

lemma sample_written:
  "compress sample_compressor [7] = Inr [8, 0]" "decompress sample_compressor [8, 0] = Inr [7]"
  by (simp_all add: sample_compressor_def)

definition sample_store :: "local_disk data_store" where
  "sample_store =
     \<lparr>client_data_suffix = ''-bridge-client-data.json'', client_data_regex = (\<lambda>_. True), ds_aws_s3 = None, ds_ftp = None,
      ds_ftps = None, ds_sftp = None,
      ds_local_file = Some (local_driver ''shared_file_store'' sample_compressor (\<lambda>_. True))\<rparr>"

definition sample_user :: "public_data \<Rightarrow> string option \<Rightarrow> (nat, nat, local_disk) client" where
  "sample_user data latest =
     \<lparr>cl_depositor = None, cl_operator = None, cl_verifier = None, cl_withdrawer = None, cl_store = sample_store,
      cl_data = data, cl_latest = latest, cl_remote_path = ''bridge_data'', cl_private = empty_private_data,
      cl_saved_private = None, cl_verifying_key = None\<rparr>"

definition sample_client_env :: "tx_hash list \<Rightarrow> public_data \<Rightarrow> (nat, nat) client_env" where
  "sample_client_env mined data = env.extend (sample_env mined)
     \<lparr>ce_hash_id = (\<lambda>_. ''peg-in''), ce_peg_out_id = (\<lambda>i _. i @ ''-out''), ce_public_of = sample_public_key,
      ce_verify_nonce = (\<lambda>_ _ _. False), ce_entries = (\<lambda>_. []), ce_utxos = (\<lambda>_. Inr []), ce_serialize = (\<lambda>_. [7]),
      ce_deserialize = (\<lambda>_. Inr data), ce_proof = (\<lambda>_. [])\<rparr>"

lemma sample_client_env_simps [simp]:
  "env_txid (sample_client_env mined data) = binding_txid" "env_client (sample_client_env mined data) = sample_client mined"
  "env_policy (sample_client_env mined data) = core_policy" "env_crypto (sample_client_env mined data) = sample_crypto"
  "env_api (sample_client_env mined data) = sample_chunk_api" "ce_public_of (sample_client_env mined data) = sample_public_key"
  "ce_hash_id (sample_client_env mined data) = (\<lambda>_. ''peg-in'')"
  "ce_peg_out_id (sample_client_env mined data) = (\<lambda>i _. i @ ''-out'')"
  "ce_verify_nonce (sample_client_env mined data) = (\<lambda>_ _ _. False)" "ce_entries (sample_client_env mined data) = (\<lambda>_. [])"
  "ce_serialize (sample_client_env mined data) = (\<lambda>_. [7])" "ce_deserialize (sample_client_env mined data) = (\<lambda>_. Inr data)"
  by (simp_all add: sample_client_env_def sample_env_def env.extend_def)

lemma sample_driver: "get_driver sample_store = Inr (local_driver ''shared_file_store'' sample_compressor (\<lambda>_. True))"
  by (simp add: get_driver_def sample_store_def)

text \<open>The new peg-in of the samples passes the validation of anyone.\<close>

lemma sample_peg_in_valid:
  assumes "sample_peg_in_new = Some s0"
  shows "peg_in_validate core_policy binding_txid (\<lambda>_. ''peg-in'') (\<lambda>_ _ _. False) (\<lambda>_. []) s0 = Some (Inr ())"
proof -
  have m: "pi_musig s0 = empty_musig" by (rule peg_in_state_new_cases [OF assms]) simp
  show ?thesis
    using copies_validate [OF assms peg_in_reachable.created [of binding_txid sample_crypto s0],
        of "\<lambda>_. []" "\<lambda>_ _ _. False"]
    by (simp add: m lists_entries_def nonces_signed_def empty_musig_def entry_def)
qed

lemma sample_data_valid:
  "sample_peg_in_new = Some s0 \<Longrightarrow>
     validate_data (sample_client_env mined data) \<lparr>pd_version = v, pd_peg_ins = [s0], pd_peg_outs = []\<rparr> = Some True"
  by (simp add: validate_data_def sample_peg_in_valid)

section \<open>Files by their names\<close>

definition named_at :: "'d data_store \<Rightarrow> string list \<Rightarrow> nat list \<Rightarrow> bool" where
  "named_at ds names ts \<longleftrightarrow> names = map (create_file_name ds) ts \<and> (\<forall>t \<in> set ts. in_epoch t)"

lemma drop_position_sorted:
  assumes "sorted ts" "\<And>t. t \<in> set ts \<Longrightarrow> P (f t) \<longleftrightarrow> lo \<le> t"
  shows "(case position P (map f ts) of None \<Rightarrow> [] | Some i \<Rightarrow> drop i (map f ts)) = map f (filter (\<lambda>t. lo \<le> t) ts)"
  using assms
proof (induction ts)
  case (Cons t ts)
  show ?case
  proof (cases "lo \<le> t")
    case True
    then have "\<forall>u \<in> set ts. lo \<le> u" using Cons.prems(1) by auto
    then show ?thesis using True Cons.prems(2) [of t] by simp
  next
    case False
    then show ?thesis using Cons by (auto split: option.splits)
  qed
qed simp

lemma sorted_names: "named_at ds names ts \<Longrightarrow> sorted names \<Longrightarrow> sorted ts"
proof (induction ts arbitrary: names)
  case (Cons t ts)
  have "sorted ts"
    by (rule Cons.IH [of "map (create_file_name ds) ts"]) (use Cons.prems in \<open>auto simp: named_at_def\<close>)
  moreover have "\<forall>u \<in> set ts. t \<le> u"
    using Cons.prems create_file_name_le [of t _ ds] by (auto simp: named_at_def)
  ultimately show ?case by simp
qed simp

text \<open>
  Comparing file names as texts compares the times they were written: among the unread files a client takes
  exactly those of the given period before the latest valid file, in order, as long as all times have thirteen digits.
\<close>

theorem files_of_the_period:
  assumes "cl_latest c = Some (create_file_name (cl_store c) t)" "client_data_regex (cl_store c) (create_file_name (cl_store c) t)"
    and "in_epoch t" "in_epoch (t - 1000 * period)" "named_at (cl_store c) names ts" "sorted names"
  shows "filter_files_names_by_timestamp c names period =
    Some (Inr (map (create_file_name (cl_store c)) (filter (\<lambda>u. t - 1000 * period \<le> u) ts)))"
proof -
  let ?f = "create_file_name (cl_store c)"
  have le: "1000 * period \<le> t" using assms(4) by (cases "1000 * period \<le> t") (simp_all add: in_epoch_def)
  have ts: "names = map ?f ts" "\<forall>u \<in> set ts. in_epoch u" using assms(5) by (simp_all add: named_at_def)
  have "(case position (\<lambda>file_name. ?f (t - 1000 * period) \<le> file_name) (map ?f ts) of
      None \<Rightarrow> [] | Some i \<Rightarrow> drop i (map ?f ts)) = map ?f (filter (\<lambda>u. t - 1000 * period \<le> u) ts)"
    by (rule drop_position_sorted [OF sorted_names [OF assms(5,6)]])
      (use ts(2) assms(4) in \<open>simp add: create_file_name_le\<close>)
  then show ?thesis
    using le file_timestamp_roundtrip [OF assms(3,2)]
    by (simp add: filter_files_names_by_timestamp_def assms(1) get_past_max_file_name_by_timestamp_def ts(1))
qed

theorem files_of_the_period_witness:
  "filter_files_names_by_timestamp (sample_user \<lparr>pd_version = 1, pd_peg_ins = [], pd_peg_outs = []\<rparr> (Some (create_file_name sample_store 1700000000000)))
     (map (create_file_name sample_store) [1699999000000, 1699999900000]) ten_minutes =
     Some (Inr [create_file_name sample_store 1699999900000])"
proof -
  let ?c = "sample_user \<lparr>pd_version = 1, pd_peg_ins = [], pd_peg_outs = []\<rparr> (Some (create_file_name sample_store 1700000000000))"
  have e: "in_epoch 1699999000000" "in_epoch 1699999900000" "in_epoch 1700000000000" "in_epoch 1699999400000"
    by (simp_all add: in_epoch_def)
  have "sorted (map (create_file_name sample_store) [1699999000000, 1699999900000])"
    using create_file_name_le [OF e(1,2), of sample_store] by simp
  then show ?thesis
    using files_of_the_period [of ?c 1700000000000 ten_minutes _ "[1699999000000, 1699999900000]"] e
    by (simp add: sample_user_def sample_store_def ten_minutes_def named_at_def)
qed

section \<open>From one client to another\<close>

lemma validate_by_key_cong:
  "cl_store c' = cl_store c \<Longrightarrow> cl_remote_path c' = cl_remote_path c \<Longrightarrow>
     validate_data_by_key env d c' = validate_data_by_key env d c"
  by (rule ext) (simp add: validate_data_by_key_def)

lemma merge_data_keeps [simp]:
  "cl_store (merge_data data c) = cl_store c" "cl_remote_path (merge_data data c) = cl_remote_path c"
  "cl_latest (merge_data data c) = cl_latest c" "cl_data (merge_data data c) = merge_public_data (cl_data c) data"
  by (simp_all add: merge_data_def)

text \<open>Files only change the public data; without panics they are all processed.\<close>

lemma process_files_frame:
  "process_files env d fs c = Some (c', latest) \<Longrightarrow> c' = c\<lparr>cl_data := cl_data c'\<rparr>"
proof (induction fs arbitrary: c latest)
  case (Cons f fs)
  then show ?case
    by (fastforce simp: bind_eq_Some_conv merge_data_def split: option.splits)
qed simp

text \<open>What holds of the valid files, and is kept by merging them, is kept by reading.\<close>

lemma process_files_closed:
  assumes "\<And>f data. validate_data_by_key env d c f = Some (Some data) \<Longrightarrow> R data"
    and "\<And>own data. Q own \<Longrightarrow> R data \<Longrightarrow> Q (merge_public_data own data)"
    and "Q (cl_data c)" "process_files env d fs c = Some (c', latest)"
  shows "Q (cl_data c')"
  using assms(1,3,4)
proof (induction fs arbitrary: c latest)
  case (Cons f fs)
  have v: "validate_data_by_key env d (merge_data data c) = validate_data_by_key env d c" for data
    by (rule validate_by_key_cong) simp_all
  from Cons.prems(3) consider
      data where "validate_data_by_key env d c f = Some (Some data)" "\<exists>l. process_files env d fs (merge_data data c) = Some (c', l)"
    | "process_files env d fs c = Some (c', latest)"
    by (auto simp: bind_eq_Some_conv split: option.splits)
  then show ?case
  proof cases
    case 1
    obtain l where l: "process_files env d fs (merge_data data c) = Some (c', l)" using 1(2) ..
    have "Q (cl_data (merge_data data c))" using Cons.prems(1) [OF 1(1)] Cons.prems(2) assms(2) by simp
    then show ?thesis using Cons.IH [OF _ _ l] Cons.prems(1) v by auto
  next
    case 2
    then show ?thesis using Cons.IH [OF _ _ 2] Cons.prems(1,2) by auto
  qed
qed simp

lemma process_files_frame_user:
  assumes "process_files env d fs c = Some (c', l)"
  shows "cl_store c' = cl_store c" "cl_remote_path c' = cl_remote_path c" "cl_latest c' = cl_latest c"
  using process_files_frame [OF assms] by (metis client.select_convs(5,7,8) client.surjective client.update_convs(6))+

lemma read_cases:
  assumes "read_from_data_store env d c = Some c'"
  obtains "c' = c"
  | ns data l rest c1 where "fetch_latest_valid_file env d c ns = Some (Some (data, l), rest)"
      "process_files_by_timestamp env d rest ten_minutes (c\<lparr>cl_latest := Some l\<rparr>) = Some c1" "c' = merge_data data c1"
proof (cases "get_latest_file_names (cl_store c) d (Some (cl_remote_path c)) (cl_latest c)")
  case None
  then show thesis using assms by (simp add: read_from_data_store_def)
next
  case (Some r)
  then show thesis using assms that
    by (cases r) (auto simp: read_from_data_store_def bind_eq_Some_conv split: if_splits option.splits)
qed

lemma read_closed:
  assumes "read_from_data_store env d c = Some c'"
    and "\<And>f data. validate_data_by_key env d c f = Some (Some data) \<Longrightarrow> R data"
    and "\<And>own data. Q own \<Longrightarrow> R data \<Longrightarrow> Q (merge_public_data own data)" "Q (cl_data c)"
  shows "Q (cl_data c') \<and> cl_store c' = cl_store c \<and> cl_remote_path c' = cl_remote_path c"
proof -
  have pop: "\<exists>f. check f = Some (Some data)" if "pop_valid check fs = Some (Some (data, l), rest)" for check fs data l rest
    using that by (induction fs) (auto simp: bind_eq_Some_conv split: option.splits)
  consider "c' = c"
    | f data names c1 where "validate_data_by_key env d c f = Some (Some data)"
        "c1 = c\<lparr>cl_latest := cl_latest c1\<rparr> \<or> (\<exists>l. process_files env d names (c\<lparr>cl_latest := cl_latest c1\<rparr>) = Some (c1, l))"
        "c' = merge_data data c1"
  proof -
    assume a: "c' = c \<Longrightarrow> thesis"
      and b: "\<And>f data c1 names. validate_data_by_key env d c f = Some (Some data) \<Longrightarrow>
        c1 = c\<lparr>cl_latest := cl_latest c1\<rparr> \<or> (\<exists>l. process_files env d names (c\<lparr>cl_latest := cl_latest c1\<rparr>) = Some (c1, l)) \<Longrightarrow>
        c' = merge_data data c1 \<Longrightarrow> thesis"
    show thesis
    proof (cases "c' = c")
      case False
      then obtain ns data l rest c1 where r: "fetch_latest_valid_file env d c ns = Some (Some (data, l), rest)"
          "process_files_by_timestamp env d rest ten_minutes (c\<lparr>cl_latest := Some l\<rparr>) = Some c1" "c' = merge_data data c1"
        by (cases rule: read_cases [OF assms(1)]) simp_all
      obtain f where f: "validate_data_by_key env d c f = Some (Some data)"
        using r(1) by (auto simp: fetch_latest_valid_file_def dest!: pop)
      obtain y :: "string + string list" where "(case y of Inl _ \<Rightarrow> Some (c\<lparr>cl_latest := Some l\<rparr>)
          | Inr names \<Rightarrow> map_option fst (process_files env d names (c\<lparr>cl_latest := Some l\<rparr>))) = Some c1"
        using r(2) unfolding process_files_by_timestamp_def bind_eq_Some_conv by blast
      then consider "c1 = c\<lparr>cl_latest := Some l\<rparr>"
        | names k where "process_files env d names (c\<lparr>cl_latest := Some l\<rparr>) = Some (c1, k)"
        by (cases y) auto
      then show thesis
      proof cases
        case 1
        then show thesis using b [OF f _ r(3), of "[]"] by simp
      next
        case 2
        then show thesis using b [OF f _ r(3), of names] process_files_frame_user(3) [OF 2] by auto
      qed
    qed (rule a)
  qed
  then show ?thesis
  proof cases
    case 1
    then show ?thesis using assms(4) by simp
  next
    case (2 f data names c1)
    let ?c = "c\<lparr>cl_latest := cl_latest c1\<rparr>"
    have v: "validate_data_by_key env d ?c = validate_data_by_key env d c" by (rule validate_by_key_cong) simp_all
    from 2(2) have c1: "Q (cl_data c1) \<and> cl_store c1 = cl_store c \<and> cl_remote_path c1 = cl_remote_path c"
    proof
      assume "c1 = ?c"
      then show ?thesis using assms(4) by (metis client.select_convs(5,6,8) client.surjective client.update_convs(7))
    next
      assume "\<exists>l. process_files env d names ?c = Some (c1, l)"
      then obtain l where l: "process_files env d names ?c = Some (c1, l)" ..
      have "Q (cl_data c1)" by (rule process_files_closed [where R = R, OF _ _ _ l]) (use assms(2-4) v in auto)
      then show ?thesis using process_files_frame_user [OF l] by simp
    qed
    then show ?thesis using 2(3) assms(3) assms(2) [OF 2(1)] by simp
  qed
qed

lemma process_files_distinct:
  assumes "\<And>f data. validate_data_by_key env d c f = Some (Some data) \<Longrightarrow> distinct_ids data"
    and "distinct_ids (cl_data c)" "process_files env d fs c = Some (c', latest)"
  shows "distinct_ids (cl_data c')"
  by (rule process_files_closed [where R = distinct_ids, OF assms(1) merge_public_data_distinct assms(2,3)])

lemma process_files_total:
  assumes "\<And>f. f \<in> set fs \<Longrightarrow> validate_data_by_key env d c f \<noteq> None"
  shows "\<exists>r. process_files env d fs c = Some r"
  using assms
proof (induction fs arbitrary: c)
  case (Cons f fs)
  have v: "validate_data_by_key env d (merge_data data c) = validate_data_by_key env d c" for data
    by (rule validate_by_key_cong) simp_all
  have "\<exists>r. process_files env d fs (merge_data data c) = Some r" for data using Cons v by simp
  moreover have "\<exists>r. process_files env d fs c = Some r" using Cons by simp
  moreover obtain r where "validate_data_by_key env d c f = Some r" using Cons.prems [of f] by auto
  ultimately show ?case by (cases r) (auto simp: bind_eq_Some_conv split_beta)
qed simp

lemma latest_names:
  assumes "get_file_names ds d p = Some (Inr names)" "names \<noteq> []" "last names = f" "fetched \<noteq> Some f"
  shows "\<exists>ns. get_latest_file_names ds d p fetched = Some (Inr ns) \<and> ns \<noteq> [] \<and> last ns = f"
proof -
  have "drop (i + 1) names \<noteq> [] \<and> last (drop (i + 1) names) = f"
    if "position (\<lambda>file_name. file_name = g) names = Some i" "g \<noteq> f" for g i
  proof -
    have i: "i < length names" "names ! i = g" using that(1) by (simp_all add: position_Some)
    then have "i \<noteq> length names - 1" using that(2) assms(2,3) by (auto simp: last_conv_nth)
    then show ?thesis using i(1) assms(3) by (simp add: last_drop)
  qed
  then show ?thesis using assms by (auto simp: get_latest_file_names_def split: option.splits)
qed

text \<open>What a reading of the store does when its last file is valid.\<close>

lemma read_latest:
  assumes "get_latest_file_names (cl_store c) d (Some (cl_remote_path c)) (cl_latest c) = Some (Inr ns)" "ns \<noteq> []"
    and "last ns = create_file_name (cl_store c) t" "in_epoch t"
    and "client_data_regex (cl_store c) (create_file_name (cl_store c) t)"
    and "validate_data_by_key env d c (last ns) = Some (Some data)"
    and "\<And>f. validate_data_by_key env d c f \<noteq> None"
    and "\<And>f data. validate_data_by_key env d c f = Some (Some data) \<Longrightarrow> distinct_ids data" "distinct_ids (cl_data c)"
  shows "\<exists>c'. read_from_data_store env d c = Some c' \<and> cl_latest c' = Some (last ns) \<and> distinct_ids (cl_data c') \<and>
    knows (cl_data c') data"
proof -
  let ?c = "c\<lparr>cl_latest := Some (last ns)\<rparr>"
  have v: "validate_data_by_key env d ?c = validate_data_by_key env d c" by (rule validate_by_key_cong) simp_all
  have split: "rev ns = last ns # rev (butlast ns)" using assms(2) by (metis append_butlast_last_id rev_eq_Cons_iff rev_rev_ident)
  have fetch: "fetch_latest_valid_file env d c ns = Some (Some (data, last ns), butlast ns)"
    unfolding fetch_latest_valid_file_def split by (simp add: assms(6))
  obtain names where names: "filter_files_names_by_timestamp ?c (butlast ns) ten_minutes = Some (Inr names)"
  proof -
    have "1000 * ten_minutes \<le> t" using assms(4) by (simp add: in_epoch_def ten_minutes_def)
    then show ?thesis
      using that file_timestamp_roundtrip [OF assms(4,5)]
      by (auto simp: filter_files_names_by_timestamp_def assms(3) get_past_max_file_name_by_timestamp_def)
  qed
  obtain c1 l where c1: "process_files env d names ?c = Some (c1, l)"
    using process_files_total [of names env d ?c] assms(7) v by force
  have d1: "distinct_ids (cl_data c1)"
    by (rule process_files_distinct [OF _ _ c1]) (use assms(8,9) v in auto)
  have "cl_latest c1 = Some (last ns)" using process_files_frame [OF c1] by (metis client.select_convs(7) client.surjective client.update_convs(6,7))
  moreover have "read_from_data_store env d c = Some (merge_data data c1)"
    by (simp add: read_from_data_store_def assms(1,2) fetch process_files_by_timestamp_def names c1)
  ultimately show ?thesis
    using merge_public_data_knows [OF d1 assms(8) [OF assms(6)]] merge_public_data_distinct [OF d1 assms(8) [OF assms(6)]]
    by simp
qed

lemma merge_unread_cases:
  assumes "merge_unread env d c = Some c'"
  obtains "c' = c"
  | ns c1 latest where "get_latest_file_names (cl_store c) d (Some (cl_remote_path c)) (cl_latest c) = Some (Inr ns)"
      "process_files env d (rev ns) c = Some (c1, latest)" "c' = c1\<lparr>cl_latest := latest\<rparr>"
proof (cases "get_latest_file_names (cl_store c) d (Some (cl_remote_path c)) (cl_latest c)")
  case None
  then show thesis using assms by (simp add: merge_unread_def)
next
  case (Some r)
  then show thesis using assms that by (cases r) (auto simp: merge_unread_def)
qed

lemma merge_unread_keeps:
  assumes "merge_unread env d a = Some a1"
  shows "cl_store a1 = cl_store a" "cl_remote_path a1 = cl_remote_path a"
proof -
  have "cl_store c' = cl_store a \<and> cl_remote_path c' = cl_remote_path a"
    if "process_files env d fs a = Some (c', l)" for fs c' l
    using process_files_frame [OF that] by (metis client.select_convs(5,8) client.surjective client.update_convs(6))
  then show "cl_store a1 = cl_store a" "cl_remote_path a1 = cl_remote_path a"
    by (cases rule: merge_unread_cases [OF assms], simp, simp)+
qed

text \<open>What a flush that names its file leaves in the store: the data of the client in that file.\<close>

lemma flush_writes:
  assumes "save_to_data_store env time d a = Some (d', a')" "cl_latest a' = Some (create_file_name (cl_store a) time)"
    and "\<And>a1. merge_unread env d a = Some a1 \<Longrightarrow> cl_latest a1 \<noteq> cl_latest a'"
  obtains n where "write_compressed_data (cl_store a) time d (ce_serialize env (cl_data a')) (Some (cl_remote_path a)) =
      (d', Inr (create_file_name (cl_store a) time, n))"
proof -
  obtain a1 a2 where a: "merge_unread env d a = Some a1" "next_version a1 = Some a2"
    and w: "(case write_compressed_data (cl_store a2) time d (ce_serialize env (cl_data a2)) (Some (cl_remote_path a2)) of
         (d', Inr (file_name, _)) \<Rightarrow> Some (d', a2\<lparr>cl_latest := Some file_name\<rparr>)
       | (d', Inl _) \<Rightarrow> Some (d', a2)) = Some (d', a')"
    using assms(1) by (auto simp: save_to_data_store_def bind_eq_Some_conv)
  have same: "cl_store a2 = cl_store a" "cl_remote_path a2 = cl_remote_path a" "cl_latest a2 = cl_latest a1"
    using merge_unread_keeps [OF a(1)] a(2) by (auto simp: next_version_def split: if_splits)
  have "cl_latest a2 \<noteq> cl_latest a'" using assms(3) [OF a(1)] same(3) by simp
  then show ?thesis
    using w same assms(2) that by (auto split: prod.splits sum.splits)
qed

text \<open>The latest file that a reading of the unread files names is one of those listed.\<close>

lemma process_files_latest:
  "process_files env d fs c = Some (c', latest) \<Longrightarrow> latest \<in> insert None (Some ` set fs)"
proof (induction fs arbitrary: c c' latest)
  case (Cons f fs)
  then show ?case by (fastforce simp: bind_eq_Some_conv split: option.splits)
qed simp
lemma unread_names:
  assumes "get_file_names ds d p = Some (Inr names)" "get_latest_file_names ds d p fetched = Some (Inr ns)"
  shows "set ns \<subseteq> set names"
  using assms by (auto simp: get_latest_file_names_def split: option.splits dest: in_set_dropD)

lemma merge_unread_latest:
  assumes "merge_unread env d a = Some a1" "get_file_names (cl_store a) d (Some (cl_remote_path a)) = Some (Inr names)"
  shows "cl_latest a1 \<in> insert None (Some ` set names)"
proof -
  obtain ns where ns: "get_latest_file_names (cl_store a) d (Some (cl_remote_path a)) (cl_latest a) = Some (Inr ns)"
    using assms(2) by (simp add: get_latest_file_names_def)
  obtain c l where c: "process_files env d (rev ns) a = Some (c, l)" "a1 = c\<lparr>cl_latest := l\<rparr>"
    using assms(1) ns by (auto simp: merge_unread_def)
  have "l \<in> insert None (Some ` set names)"
    using process_files_latest [OF c(1)] unread_names [OF assms(2) ns] by auto
  then show ?thesis by (simp add: c(2))
qed

text \<open>
  C14. What one client flushes another knows after its next synchronisation, under these conditions: the driver of the
  store keeps its laws and its files can be read; the upload succeeded; the new name comes after all names that were
  listed; the data are parsed and validated by the reader as they were written; no file makes the reader panic and none
  that is valid for it names a graph twice, nor do the reader's own data; and the reader has not read the file before.
  Then the reader takes it as its latest file, keeps its ids distinct, and finds every graph of the writer with all its
  nonces, partial signatures and, for a peg-in, all its peg-outs.
\<close>

theorem flush_reaches_sync:
  assumes "object_store driver good" "get_driver ds = Inr driver" "good d"
    and "cl_store a = ds" "cl_store b = ds" "cl_remote_path b = cl_remote_path a"
    and "get_file_names ds d (Some (cl_remote_path a)) = Some (Inr names)" "\<forall>g \<in> set names. g < create_file_name ds time"
    and "in_epoch time" "client_data_regex ds (create_file_name ds time)"
      "last_segment (create_file_name ds time) = create_file_name ds time"
    and "save_to_data_store enva time d a = Some (d', a')" "cl_latest a' = Some (create_file_name ds time)"
    and "ce_deserialize envb (ce_serialize enva (cl_data a')) = Inr (cl_data a')" "validate_data envb (cl_data a') = Some True"
    and "\<And>f. validate_data_by_key envb d' b f \<noteq> None"
    and "\<And>f data. validate_data_by_key envb d' b f = Some (Some data) \<Longrightarrow> distinct_ids data"
    and "cl_latest b \<noteq> Some (create_file_name ds time)" "distinct_ids (cl_data b)"
  shows "\<exists>b'. read_from_data_store envb d' b = Some b' \<and> cl_latest b' = Some (create_file_name ds time) \<and>
    distinct_ids (cl_data b') \<and> knows (cl_data b') (cl_data a')"
proof -
  let ?f = "create_file_name ds time" and ?p = "Some (cl_remote_path a)"
  have "cl_latest a1 \<noteq> cl_latest a'" if "merge_unread enva d a = Some a1" for a1
    using merge_unread_latest [OF that] assms(4,7,8,13) by fastforce
  then obtain n where w: "write_compressed_data ds time d (ce_serialize enva (cl_data a')) ?p = (d', Inr (?f, n))"
    using flush_writes [OF assms(12)] assms(4,13) by metis
  obtain names' where names': "get_file_names ds d' ?p = Some (Inr names')" "names' \<noteq> []" "last names' = ?f"
    using object_store.written_is_last [OF assms(1-3) w assms(7,8,10,11)] by blast
  obtain ns where ns: "get_latest_file_names ds d' ?p (cl_latest b) = Some (Inr ns)" "ns \<noteq> []" "last ns = ?f"
    using latest_names [OF names' assms(18)] by blast
  obtain m where "fetch_compressed_data_by_key ds d' ?f ?p = Inr (Some (ce_serialize enva (cl_data a')), m)"
    using object_store.written_is_fetched [OF assms(1-3) w] by blast
  then have valid: "validate_data_by_key envb d' b (last ns) = Some (Some (cl_data a'))"
    by (simp add: validate_data_by_key_def assms(5,6,14,15) ns(3))
  show ?thesis
    using read_latest [OF _ ns(2) _ assms(9) _ valid assms(16,17,19)] assms(5,6,10) ns by simp
qed

theorem flush_reaches_sync_witness:
  "\<exists>s0 d' a' b'. sample_peg_in_new = Some s0 \<and>
     save_to_data_store (sample_client_env [] \<lparr>pd_version = 2, pd_peg_ins = [s0], pd_peg_outs = []\<rparr>) 1700000000000 (sample_disk [])
       (sample_user \<lparr>pd_version = 1, pd_peg_ins = [s0], pd_peg_outs = []\<rparr> None) = Some (d', a') \<and>
     read_from_data_store (sample_client_env [] \<lparr>pd_version = 2, pd_peg_ins = [s0], pd_peg_outs = []\<rparr>) d'
       (sample_user \<lparr>pd_version = 1, pd_peg_ins = [], pd_peg_outs = []\<rparr> None) = Some b' \<and>
     pd_peg_ins (cl_data a') = [s0] \<and> knows (cl_data b') (cl_data a')"
proof (rule sample_peg_in_state)
  fix s0
  assume s0: "sample_peg_in_new = Some s0"
  let ?data = "\<lparr>pd_version = 2, pd_peg_ins = [s0], pd_peg_outs = []\<rparr>"
  let ?env = "sample_client_env [] ?data"
  let ?a = "sample_user \<lparr>pd_version = 1, pd_peg_ins = [s0], pd_peg_outs = []\<rparr> None"
  let ?b = "sample_user \<lparr>pd_version = 1, pd_peg_ins = [], pd_peg_outs = []\<rparr> None"
  let ?f = "create_file_name sample_store 1700000000000"
  have store: "cl_store ?a = sample_store" "cl_store ?b = sample_store" "cl_remote_path ?b = cl_remote_path ?a"
    by (simp_all add: sample_user_def)
  have inv: "lossless sample_compressor \<and> readable (sample_disk [])" by (simp add: sample_compressor_lossless)
  have names: "get_file_names sample_store (sample_disk []) p = Some (Inr [])" for p
    by (simp add: get_file_names_def sample_driver local_driver_def local_list_def)
  obtain d' a' where flush: "save_to_data_store ?env 1700000000000 (sample_disk []) ?a = Some (d', a')" "cl_data a' = ?data"
      "cl_latest a' = Some ?f"
    by (simp add: sample_user_def save_to_data_store_def merge_unread_def get_latest_file_names_def names next_version_def
        write_compressed_data_def sample_driver local_driver_def local_upload_compressed_def local_write_def sample_written)
  have valid: "validate_data ?env ?data = Some True" by (rule sample_data_valid [OF s0])
  have checked: "validate_data_by_key ?env d' ?b f \<in> {Some None, Some (Some ?data)}" for f
    by (simp add: validate_data_by_key_def valid split: sum.splits option.splits prod.splits)
  have no_panic: "validate_data_by_key ?env d' ?b f \<noteq> None" for f using checked [of f] by auto
  have distinct: "distinct_ids data" if "validate_data_by_key ?env d' ?b f = Some (Some data)" for f data
    using checked [of f] that by (auto simp: distinct_ids_def)
  have epoch: "in_epoch 1700000000000" by (simp add: in_epoch_def)
  have regex: "client_data_regex sample_store ?f" by (simp add: sample_store_def)
  have "CHR ''/'' \<notin> set ?f"
    using show_nat_no_slash [of 1700000000000] by (simp add: create_file_name_def sample_store_def)
  then have plain: "last_segment ?f = ?f" by (rule last_segment_plain)
  have "\<exists>b'. read_from_data_store ?env d' ?b = Some b' \<and> cl_latest b' = Some ?f \<and>
      distinct_ids (cl_data b') \<and> knows (cl_data b') (cl_data a')"
    by (rule flush_reaches_sync [OF local.object_store_axioms sample_driver inv store names _ epoch regex plain flush(1,3) _ _
          no_panic distinct])
      (simp_all add: flush(2) valid, simp_all add: sample_user_def distinct_ids_def)
  then show ?thesis using s0 flush by auto
qed

end
