(* ===== verification/Client_Automation.thy ===== *)
theory Client_Automation
  imports Client_Rules Peg_Out_Guidance
begin

text \<open>
  What the automatic mode of a client does to its graphs, round by round, and what stops it.
\<close>

section \<open>Frames\<close>

text \<open>Operations on a graph leave its id, its MuSig2 maps and the mark of the verifiers alone.\<close>

definition keeps_rounds :: "peg_out_state \<Rightarrow> peg_out_state \<Rightarrow> bool" where
  "keeps_rounds g g' \<longleftrightarrow> po_id g' = po_id g \<and> po_musig g' = po_musig g \<and> n_of_n_presigned g' = n_of_n_presigned g"

lemma keeps_rounds_simps [simp]:
  "keeps_rounds g g"
  "po_id g' = po_id g \<Longrightarrow> po_musig g' = po_musig g \<Longrightarrow> n_of_n_presigned g' = n_of_n_presigned g \<Longrightarrow> keeps_rounds g g'"
  by (simp_all add: keeps_rounds_def)

lemma run_action_rounds: "outcome_all (keeps_rounds g) (\<lambda>_. True) (run_action env a g)"
  by (cases a; simp add: action_defs del: bind_eq_Some_conv; (rule outcome_rules | simp)+)

lemma run_action_keeps: "run_action env a g = Some (g', r) \<Longrightarrow> keeps_rounds g g'"
  using outcome_allD(1) [OF run_action_rounds] .

text \<open>Only peg-outs change, each keeping its id and rounds.\<close>

definition peg_outs_operated :: "('k, 's, 'd) client \<Rightarrow> ('k, 's, 'd) client \<Rightarrow> bool" where
  "peg_outs_operated c c' \<longleftrightarrow>
     (\<exists>gs. c' = c\<lparr>cl_data := (cl_data c)\<lparr>pd_peg_outs := gs\<rparr>\<rparr> \<and> list_all2 keeps_rounds (pd_peg_outs (cl_data c)) gs)"

lemma keeps_rounds_trans: "keeps_rounds a b \<Longrightarrow> keeps_rounds b c \<Longrightarrow> keeps_rounds a c"
  by (simp add: keeps_rounds_def)

lemma peg_outs_operated_refl [simp]: "peg_outs_operated c c"
  by (auto simp: peg_outs_operated_def intro!: exI [of _ "pd_peg_outs (cl_data c)"] list_all2_refl)

lemma peg_outs_operatedI:
  "c' = c\<lparr>cl_data := (cl_data c)\<lparr>pd_peg_outs := gs\<rparr>\<rparr> \<Longrightarrow> list_all2 keeps_rounds (pd_peg_outs (cl_data c)) gs \<Longrightarrow>
     peg_outs_operated c c'"
  unfolding peg_outs_operated_def by (rule exI, rule conjI)

lemma peg_outs_operated_trans:
  assumes "peg_outs_operated a b" "peg_outs_operated b c"
  shows "peg_outs_operated a c"
proof -
  obtain gs where b: "b = a\<lparr>cl_data := (cl_data a)\<lparr>pd_peg_outs := gs\<rparr>\<rparr>" and gs: "list_all2 keeps_rounds (pd_peg_outs (cl_data a)) gs"
    using assms(1) unfolding peg_outs_operated_def by blast
  obtain hs where "c = b\<lparr>cl_data := (cl_data b)\<lparr>pd_peg_outs := hs\<rparr>\<rparr>" "list_all2 keeps_rounds (pd_peg_outs (cl_data b)) hs"
    using assms(2) unfolding peg_outs_operated_def by blast
  then have c: "c = a\<lparr>cl_data := (cl_data a)\<lparr>pd_peg_outs := hs\<rparr>\<rparr>" and hs: "list_all2 keeps_rounds gs hs"
    by (simp_all add: b)
  show ?thesis by (rule peg_outs_operatedI [OF c list_all2_trans [OF keeps_rounds_trans gs hs]])
qed

lemma peg_outs_operated_set:
  "i < length (pd_peg_outs (cl_data c)) \<Longrightarrow> keeps_rounds (pd_peg_outs (cl_data c) ! i) g \<Longrightarrow>
     peg_outs_operated c (set_peg_out i g c)"
  by (auto simp: peg_outs_operated_def set_peg_out_def list_all2_conv_all_nth nth_list_update)

lemma peg_outs_operatedD:
  assumes "peg_outs_operated c c'"
  shows "cl_private c' = cl_private c" "cl_operator c' = cl_operator c" "cl_verifier c' = cl_verifier c"
    "pd_peg_ins (cl_data c') = pd_peg_ins (cl_data c)" "map po_id (pd_peg_outs (cl_data c')) = map po_id (pd_peg_outs (cl_data c))"
proof -
  have "map po_id gs = map po_id hs" if "list_all2 keeps_rounds hs gs" for gs hs
    using that by induction (auto simp: keeps_rounds_def)
  then show "cl_private c' = cl_private c" "cl_operator c' = cl_operator c" "cl_verifier c' = cl_verifier c"
    "pd_peg_ins (cl_data c') = pd_peg_ins (cl_data c)" "map po_id (pd_peg_outs (cl_data c')) = map po_id (pd_peg_outs (cl_data c))"
    using assms by (auto simp: peg_outs_operated_def)
qed

lemma find_peg_out_operated:
  assumes "find_peg_out_or_fail graph_id c f = Some (c', r)" "\<And>g g' r. f g = Some (g', r) \<Longrightarrow> keeps_rounds g g'"
  shows "peg_outs_operated c c'"
  using assms by (auto simp: find_peg_out_or_fail_def position_Some intro!: peg_outs_operated_set split: option.splits)

lemma then_broadcast_Some:
  "then_broadcast env out = Some (c', r) \<longleftrightarrow> (\<exists>r'. out = Some (c', r') \<and> r = and_then r' (broadcast_tx env))"
  by (auto simp: then_broadcast_def)

lemma broadcast_operated:
  assumes "then_broadcast env (find_peg_out_or_fail graph_id c f) = Some (c', r)"
    and "\<And>g g' r. f g = Some (g', r) \<Longrightarrow> keeps_rounds g g'"
  shows "peg_outs_operated c c'"
  using assms(1) find_peg_out_operated [of graph_id c f c'] assms(2) by (auto simp: then_broadcast_Some)

lemma with_secrets_keeps:
  "(secrets \<bind> (\<lambda>x. run_action env (a x) g)) = Some (g', r) \<Longrightarrow> keeps_rounds g g'"
  "(x1 \<bind> (\<lambda>x. x2 x \<bind> (\<lambda>y. run_action env (b x y) g))) = Some (g', r) \<Longrightarrow> keeps_rounds g g'"
  "(x1 \<bind> (\<lambda>x. x2 x \<bind> (\<lambda>y. x3 x y \<bind> (\<lambda>z. run_action env (d x y z) g)))) = Some (g', r) \<Longrightarrow> keeps_rounds g g'"
  by (auto simp: bind_eq_Some_conv dest: run_action_keeps)

lemma as_operator_keeps:
  assumes "as_operator c f g = Some (g', r)" "\<And>operator. f operator g = Some (g', r) \<Longrightarrow> keeps_rounds g g'"
  shows "keeps_rounds g g'"
  using assms by (auto simp: as_operator_def split: option.splits)

lemmas broadcast_peg_out_defs =
  broadcast_peg_out_confirm_def broadcast_kick_off_1_def broadcast_start_time_def broadcast_kick_off_2_def
  broadcast_assert_initial_def broadcast_assert_commit_1_def broadcast_assert_commit_2_def broadcast_assert_final_def
  broadcast_take_1_def broadcast_take_2_def

lemma broadcasts_operated:
  "broadcast_peg_out_confirm env i c = Some (c', r) \<Longrightarrow> peg_outs_operated c c'"
  "broadcast_kick_off_1 env i c = Some (c', r) \<Longrightarrow> peg_outs_operated c c'"
  "broadcast_start_time env i c = Some (c', r) \<Longrightarrow> peg_outs_operated c c'"
  "broadcast_kick_off_2 env i c = Some (c', r) \<Longrightarrow> peg_outs_operated c c'"
  "broadcast_assert_initial env i c = Some (c', r) \<Longrightarrow> peg_outs_operated c c'"
  "broadcast_assert_commit_1 env i w c = Some (c', r) \<Longrightarrow> peg_outs_operated c c'"
  "broadcast_assert_commit_2 env i w c = Some (c', r) \<Longrightarrow> peg_outs_operated c c'"
  "broadcast_assert_final env i c = Some (c', r) \<Longrightarrow> peg_outs_operated c c'"
  "broadcast_take_1 env i c = Some (c', r) \<Longrightarrow> peg_outs_operated c c'"
  "broadcast_take_2 env i c = Some (c', r) \<Longrightarrow> peg_outs_operated c c'"
  by (unfold broadcast_peg_out_defs)
    (erule broadcast_operated, (erule as_operator_keeps)?, erule run_action_keeps with_secrets_keeps)+

lemma process_peg_out_operated:
  assumes "process_peg_out env c g = Some c'"
  shows "peg_outs_operated c c'"
proof -
  obtain st where "operator_status (env_txid env) (env_client env) g = Some st"
    using assms by (auto simp: process_peg_out_def bind_eq_Some_conv)
  then show ?thesis
    using assms unfolding process_peg_out_def by (cases st; simp) (erule exE, erule broadcasts_operated)+
qed

lemma fold_operated:
  "fold_option (process_peg_out env) c gs = Some c' \<Longrightarrow> peg_outs_operated c c'"
proof (induction gs arbitrary: c)
  case (Cons g gs)
  then show ?case using process_peg_out_operated peg_outs_operated_trans by (fastforce simp: bind_eq_Some_conv)
qed simp

lemma process_peg_outs_operated: "process_peg_outs env c = Some c' \<Longrightarrow> peg_outs_operated c c'"
  unfolding process_peg_outs_def by (rule fold_operated)

lemma fold_operated_split:
  assumes "g \<in> set gs"
    and "\<And>c1. peg_outs_operated c c1 \<Longrightarrow> process_peg_out env c1 g = None"
  shows "fold_option (process_peg_out env) c gs = None"
proof (rule ccontr)
  assume "\<not> ?thesis"
  then obtain c' where c': "fold_option (process_peg_out env) c gs = Some c'" by blast
  obtain xs ys where "gs = xs @ g # ys" using assms(1) by (meson split_list)
  then obtain c1 where c1: "fold_option (process_peg_out env) c xs = Some c1" "process_peg_out env c1 g \<noteq> None"
    using c' by (auto simp: fold_option_append bind_eq_Some_conv)
  show False using assms(2) [OF fold_operated [OF c1(1)]] c1(2) by simp
qed

section \<open>Peg-outs without secrets\<close>

text \<open>The operations of a peg-out that take Winternitz secrets.\<close>

fun needs_secrets :: "operator_status \<Rightarrow> bool" where
  "needs_secrets Kick_Off_1_Available = True"
| "needs_secrets Start_Time_Available = True"
| "needs_secrets Kick_Off_2_Available = True"
| "needs_secrets Assert_Commit_1_Available = True"
| "needs_secrets Assert_Commit_2_Available = True"
| "needs_secrets _ = False"

lemma position_found:
  assumes "map po_id gs = map po_id hs" "g \<in> set hs"
  shows "position (\<lambda>h. po_id h = po_id g) gs \<noteq> None"
proof -
  have "po_id g \<in> set (map po_id gs)" unfolding assms(1) using assms(2) by simp
  then show ?thesis by (auto simp: position_None)
qed

lemma process_without_secrets:
  assumes "g \<in> set (pd_peg_outs (cl_data c))" "operator_status (env_txid env) (env_client env) g = Some st" "needs_secrets st"
    and "commitment_secrets c (po_id g) = None" "cl_operator c \<noteq> None"
  shows "process_peg_outs env c = None"
  unfolding process_peg_outs_def
proof (rule fold_operated_split [OF assms(1)])
  fix c1
  assume c1: "peg_outs_operated c c1"
  note same = peg_outs_operatedD [OF c1]
  have none: "commitment_secrets c1 (po_id g) = None" using assms(4) by (simp add: commitment_secrets_def same(1,2))
  obtain operator where operator: "cl_operator c1 = Some operator" using assms(5) same(2) by auto
  obtain i where "position (\<lambda>h. po_id h = po_id g) (pd_peg_outs (cl_data c1)) = Some i"
    using position_found [OF same(5) assms(1)] by blast
  then show "process_peg_out env c1 g = None"
    using assms(2,3) none operator
    by (cases st) (simp_all add: process_peg_out_def broadcast_peg_out_defs then_broadcast_def find_peg_out_or_fail_def
        commitment_secret_def as_operator_def)
qed

lemma create_peg_out_graph_cases:
  assumes "create_peg_out_graph env peg_in_id input secrets c = Some (c', graph_id)"
  obtains operator g where "cl_operator c = Some operator" "cl_operator c' = Some operator"
    "pv_commitment_secrets (cl_private c') = [oc_operator_key (oi_context operator) \<mapsto> [graph_id \<mapsto> secrets]]"
    "pd_peg_outs (cl_data c') = pd_peg_outs (cl_data c) @ [g]" "graph_id \<notin> po_id ` set (pd_peg_outs (cl_data c))"
proof -
  have "graph_id \<notin> po_id ` set gs" if "find (\<lambda>g. po_id g = graph_id) gs = None" for gs
    using that by (auto simp: find_None_iff)
  then show ?thesis
    using assms by (auto simp: create_peg_out_graph_def bind_eq_Some_conv Let_def save_private_data_def split: if_splits
        intro!: that)
qed

text \<open>
  C12. Making a peg-out graph forgets the Winternitz secrets of every other: as soon as any earlier peg-out of the client's
  data, the operator's own or another's, comes to a step that commits to a message, the automatic mode panics.
\<close>

theorem earlier_peg_outs_lost:
  assumes "create_peg_out_graph env peg_in_id input secrets c = Some (c', graph_id)"
    and "g \<in> set (pd_peg_outs (cl_data c))"
    and "operator_status (env_txid env') (env_client env') g = Some st" "needs_secrets st"
  shows "commitment_secrets c' (po_id g) = None \<and> process_peg_outs env' c' = None"
proof (rule create_peg_out_graph_cases [OF assms(1)])
  fix operator new
  assume c: "cl_operator c' = Some operator"
    "pv_commitment_secrets (cl_private c') = [oc_operator_key (oi_context operator) \<mapsto> [graph_id \<mapsto> secrets]]"
    "pd_peg_outs (cl_data c') = pd_peg_outs (cl_data c) @ [new]" "graph_id \<notin> po_id ` set (pd_peg_outs (cl_data c))"
  have none: "commitment_secrets c' (po_id g) = None"
    using c assms(2) by (auto simp: commitment_secrets_def)
  then show ?thesis
    using process_without_secrets [OF _ assms(3,4) none] c(1,3) assms(2) by simp
qed

text \<open>An operator who has a peg-in and an earlier peg-out that was confirmed, with the kick-off to come.\<close>

definition sample_operator_user :: "peg_in_graph \<Rightarrow> peg_out_state \<Rightarrow> (nat, nat, local_disk) client" where
  "sample_operator_user pin earlier =
     (sample_user \<lparr>pd_version = 1, pd_peg_ins = [peg_in_state_of binding_txid (\<lambda>_. ''peg-in'') sample_settings pin],
        pd_peg_outs = [earlier]\<rparr> None)
     \<lparr>cl_operator := Some \<lparr>oi_keypair = 5, oi_context = sample_operator, oi_n_of_n_keys = []\<rparr>\<rparr>"

abbreviation sample_earlier :: "peg_out_state \<Rightarrow> peg_out_state" where
  "sample_earlier s \<equiv> (sample_paid s)\<lparr>po_id := ''earlier''\<rparr>"

abbreviation sample_confirmed_env :: "peg_out_state \<Rightarrow> (nat, nat) client_env" where
  "sample_confirmed_env s \<equiv> sample_client_env [binding_txid (ps_tx sample_peg_out_tx), binding_txid (ps_tx (peg_out_confirm_tx s))]
     \<lparr>pd_version = 1, pd_peg_ins = [], pd_peg_outs = []\<rparr>"

lemma sample_earlier_status:
  assumes "sample_graph pin = Some g" "signed_copy g s"
  shows "operator_status binding_txid (env_client (sample_confirmed_env s)) (sample_earlier s) = Some Kick_Off_1_Available"
proof -
  note counts = graph_output_counts [OF assms(1)]
  have seven: "length (tx_output (ps_tx sample_peg_out_tx)) = 7" by (simp add: sample_peg_out_tx_def)
  have "binding_txid (ps_tx (kick_off_1_tx g)) \<noteq> binding_txid (ps_tx (peg_out_confirm_tx g))"
    "binding_txid (ps_tx (kick_off_2_tx g)) \<noteq> binding_txid (ps_tx (peg_out_confirm_tx g))"
    "binding_txid (ps_tx (kick_off_1_tx g)) \<noteq> binding_txid (ps_tx sample_peg_out_tx)"
    "binding_txid (ps_tx (kick_off_2_tx g)) \<noteq> binding_txid (ps_tx sample_peg_out_tx)"
    by (rule different_ids(2); simp add: counts seven)+
  then show ?thesis by (simp add: status_defs copy_ids [OF assms(2)])
qed

theorem earlier_peg_outs_lost_witness:
  "\<exists>pin s c'. create_peg_out_graph (sample_client_env [] \<lparr>pd_version = 1, pd_peg_ins = [], pd_peg_outs = []\<rparr>) ''peg-in'' sample_funding
       (generate_commitment_secrets sample_secret) (sample_operator_user pin (sample_earlier s)) = Some (c', ''peg-in-out'') \<and>
     sample_earlier s \<in> set (pd_peg_outs (cl_data c')) \<and> process_peg_outs (sample_confirmed_env s) c' = None"
proof (rule sample_states)
  fix pin g s
  assume g: "sample_graph pin = Some g" "signed_copy g s"
  let ?env = "sample_client_env [] \<lparr>pd_version = 1, pd_peg_ins = [], pd_peg_outs = []\<rparr>"
  let ?c = "sample_operator_user pin (sample_earlier s)"
  obtain g' where g': "sign_new sample_crypto 5 g = Some g'" using sample_sign_new [OF g(1)] by blast
  have "peg_in_graph.truncate (peg_in_state_of binding_txid (\<lambda>_. ''peg-in'') sample_settings pin) = pin"
    by (simp add: peg_in_state_of_def peg_in_graph.defs)
  then obtain new where new: "peg_out_state_new core_policy binding_txid sample_chunk_api sample_public_key
      (\<lambda>_ _. ''peg-in-out'') sample_crypto 5 sample_operator
      (peg_in_graph.truncate (peg_in_state_of binding_txid (\<lambda>_. ''peg-in'') sample_settings pin)) sample_funding
      (generate_commitment_secrets sample_secret) = Some new"
    using g(1) g' by (simp add: peg_out_state_new_def)
  have id: "pi_id (peg_in_state_of binding_txid (\<lambda>_. ''peg-in'') sample_settings pin) = ''peg-in''"
    by (simp add: peg_in_state_of_def generate_peg_in_id_def peg_in_graph.defs)
  obtain c' where c': "create_peg_out_graph ?env ''peg-in'' sample_funding (generate_commitment_secrets sample_secret) ?c =
      Some (c', ''peg-in-out'')" "pd_peg_outs (cl_data c') = [sample_earlier s, new]"
    using new by (simp add: create_peg_out_graph_def sample_operator_user_def sample_user_def Let_def id save_private_data_def)
  have "process_peg_outs (sample_confirmed_env s) c' = None"
    using earlier_peg_outs_lost [OF c'(1), of "sample_earlier s" "sample_confirmed_env s" Kick_Off_1_Available]
      sample_earlier_status [OF g] by (simp add: sample_operator_user_def sample_user_def)
  moreover have "sample_earlier s \<in> set (pd_peg_outs (cl_data c'))" by (simp add: c'(2))
  ultimately show ?thesis using c'(1) by blast
qed

section \<open>Peg-outs that a verifier does not have\<close>

text \<open>
  A peg-in that lists a peg-out the client does not have stops its automatic mode: the verifier panics. The listed ids are
  not validated, so a file with such a peg-in is accepted from anybody.
\<close>

theorem unknown_peg_out_stops_verifiers:
  assumes "cl_verifier c = Some ctx" "find (\<lambda>h. pi_id h = pi_id g) (pd_peg_ins (cl_data c)) = Some g"
    and "i \<in> set (pi_peg_out_graphs g)" "i \<notin> po_id ` set (pd_peg_outs (cl_data c))"
  shows "process_peg_in_as_verifier env fresh (pi_id g) c = None \<and>
    (\<forall>pol txid_of hash_id verify entries ids.
       peg_in_validate pol txid_of hash_id verify entries (g\<lparr>pi_peg_out_graphs := ids\<rparr>) =
       peg_in_validate pol txid_of hash_id verify entries g)"
proof -
  have "set (sort (map po_id (peg_outs_of (cl_data c) g))) \<subseteq> po_id ` set (pd_peg_outs (cl_data c))"
    by (auto simp: peg_outs_of_def)
  then have "sort (map po_id (peg_outs_of (cl_data c) g)) \<noteq> sort (pi_peg_out_graphs g)"
    using assms(3,4) by (metis set_sort subsetD)
  then have "status_for_verifier (env_txid env) (env_client env) ctx (map po_id (peg_outs_of (cl_data c) g)) g = None"
    by (simp add: status_for_verifier_def)
  then have "process_peg_in_as_verifier env fresh (pi_id g) c = None"
    by (simp add: process_peg_in_as_verifier_def assms(1,2) get_peg_in_graph_def)
  moreover have "peg_in_settings_of (g\<lparr>pi_peg_out_graphs := ids\<rparr>) = peg_in_settings_of g" for ids
    by (simp add: peg_in_settings_of_def)
  ultimately show ?thesis by (simp add: peg_in_validate_def peg_in_new_for_validation_def)
qed

theorem unknown_peg_out_stops_verifiers_witness:
  "\<exists>s0. sample_peg_in_new = Some s0 \<and>
     process_peg_in_as_verifier (sample_client_env [] \<lparr>pd_version = 1, pd_peg_ins = [], pd_peg_outs = []\<rparr>) (\<lambda>_ _. []) (pi_id s0)
       ((sample_user \<lparr>pd_version = 1, pd_peg_ins = [s0\<lparr>pi_peg_out_graphs := [''nowhere'']\<rparr>], pd_peg_outs = []\<rparr> None)
        \<lparr>cl_verifier := Some (fst (sample_verifier 1))\<rparr>) = None"
proof (rule sample_peg_in_state)
  fix s0
  assume "sample_peg_in_new = Some s0"
  then show ?thesis
    using unknown_peg_out_stops_verifiers [of "(sample_user \<lparr>pd_version = 1, pd_peg_ins = [s0\<lparr>pi_peg_out_graphs := [''nowhere'']\<rparr>],
          pd_peg_outs = []\<rparr> None)\<lparr>cl_verifier := Some (fst (sample_verifier 1))\<rparr>" "fst (sample_verifier 1)"
        "s0\<lparr>pi_peg_out_graphs := [''nowhere'']\<rparr>" "''nowhere''"]
    by (simp add: sample_user_def)
qed

end
