(* ===== verification/Client_Network.thy ===== *)
theory Client_Network
  imports Client_Automation
begin

text \<open>
  Many clients over one shared store: what holds of the bridge as long as everybody leaves it to the automatic
  mode, and what a single participant can put into the copies of all others.
\<close>

section \<open>Peg-outs that nobody presigns\<close>

definition quiet_graph :: "peg_out_state \<Rightarrow> bool" where
  "quiet_graph g \<longleftrightarrow> po_musig g = (\<lambda>_. empty_musig) \<and> \<not> n_of_n_presigned g"

definition quiet_data :: "public_data \<Rightarrow> bool" where
  "quiet_data data \<longleftrightarrow> (\<forall>g \<in> set (pd_peg_outs data). quiet_graph g)"

lemma merge_empty_musig [simp]: "merge_musig2_nonces_and_signatures empty_musig empty_musig = empty_musig"
  by (simp add: merge_musig2_nonces_and_signatures_def empty_musig_def merge_hash_maps_def)

lemma quiet_graph_merge: "quiet_graph g \<Longrightarrow> quiet_graph h \<Longrightarrow> quiet_graph (peg_out_merge g h)"
  by (simp add: quiet_graph_def fun_eq_iff)

lemma quiet_graph_foldl: "quiet_graph g \<Longrightarrow> \<forall>h \<in> set hs. quiet_graph h \<Longrightarrow> quiet_graph (foldl peg_out_merge g hs)"
  by (induction hs arbitrary: g) (simp_all add: quiet_graph_merge)

lemma quiet_merge:
  assumes "quiet_data own" "quiet_data data"
  shows "quiet_data (merge_public_data own data)"
  using assms by (auto simp: quiet_data_def merge_public_data_def merge_graphs_eq intro!: quiet_graph_foldl)

definition settled :: "'d data_store \<Rightarrow> string \<Rightarrow> ('k, 's, 'd) client \<Rightarrow> bool" where
  "settled ds path c \<longleftrightarrow> cl_store c = ds \<and> cl_remote_path c = path \<and> quiet_data (cl_data c)"

lemma peg_in_found_settled:
  "find_peg_in_or_fail graph_id c f = Some (c', r) \<Longrightarrow> settled ds path c \<Longrightarrow> settled ds path c'"
  by (auto simp: find_peg_in_or_fail_def set_peg_in_def settled_def quiet_data_def split: option.splits)

lemma broadcast_peg_in_settled:
  "broadcast_peg_in_deposit env graph_id c = Some (c', r) \<Longrightarrow> settled ds path c \<Longrightarrow> settled ds path c'"
  "broadcast_peg_in_confirm env graph_id c = Some (c', r) \<Longrightarrow> settled ds path c \<Longrightarrow> settled ds path c'"
  by (auto simp: broadcast_peg_in_deposit_def broadcast_peg_in_confirm_def then_broadcast_Some dest: peg_in_found_settled)

lemma broadcast_peg_in_settled_fst:
  "map_option fst (broadcast_peg_in_deposit env graph_id c) = Some c' \<Longrightarrow> settled ds path c \<Longrightarrow> settled ds path c'"
  "map_option fst (broadcast_peg_in_confirm env graph_id c) = Some c' \<Longrightarrow> settled ds path c \<Longrightarrow> settled ds path c'"
  by (auto dest: broadcast_peg_in_settled)

lemma depositor_settled:
  assumes "process_peg_in_as_depositor env graph_id c = Some c'" "settled ds path c"
  shows "settled ds path c'"
proof (cases "cl_depositor c = None \<or> (\<exists>e. get_peg_in_graph c graph_id = Inl e)")
  case True
  then show ?thesis using assms by (auto simp: process_peg_in_as_depositor_def split: if_splits)
next
  case False
  then obtain g where g: "cl_depositor c \<noteq> None" "get_peg_in_graph c graph_id = Inr g"
    by (metis sum.exhaust)
  obtain st where st: "status_for_depositor (env_txid env) (env_client env) g = Some st"
    using assms(1) g by (auto simp: process_peg_in_as_depositor_def bind_eq_Some_conv)
  have "(case st of Peg_In_Deposit_Wait \<Rightarrow> map_option fst (broadcast_peg_in_deposit env graph_id c)
      | Peg_In_Confirm_Wait \<Rightarrow> map_option fst (broadcast_peg_in_confirm env graph_id c) | _ \<Rightarrow> Some c) = Some c'"
    using assms(1) g st by (simp add: process_peg_in_as_depositor_def del: map_option_eq_Some)
  then show ?thesis
    using assms(2) broadcast_peg_in_settled_fst [OF _ assms(2)] by (cases st) (simp_all del: map_option_eq_Some)
qed

text \<open>The verifier only ever turns to the peg-in itself.\<close>

lemma found_peg_in: "get_peg_in_graph c graph_id = Inr g \<Longrightarrow> pi_id g = graph_id \<and>
    (\<exists>i. position (\<lambda>h. pi_id h = graph_id) (pd_peg_ins (cl_data c)) = Some i)"
  by (auto simp: get_peg_in_graph_def find_position position_Some split: option.splits)

lemma graph_mut_peg_in_settled:
  assumes "graph_mut graph_id c f h = Some (c', r)" "position (\<lambda>h. pi_id h = graph_id) (pd_peg_ins (cl_data c)) = Some i"
    and "settled ds path c"
  shows "settled ds path c'"
  using assms by (auto simp: graph_mut_def set_peg_in_def settled_def quiet_data_def)

lemma verifier_settled:
  assumes "process_peg_in_as_verifier env fresh graph_id c = Some c'" "settled ds path c"
  shows "settled ds path c'"
proof (cases "cl_verifier c")
  case None
  then show ?thesis using assms by (simp add: process_peg_in_as_verifier_def)
next
  case (Some ctx)
  show ?thesis
  proof (cases "get_peg_in_graph c graph_id")
    case (Inl e)
    then show ?thesis using assms by (simp add: process_peg_in_as_verifier_def Some)
  next
    case (Inr g)
    obtain i where i: "pi_id g = graph_id" "position (\<lambda>h. pi_id h = graph_id) (pd_peg_ins (cl_data c)) = Some i"
      using found_peg_in [OF Inr] by blast
    obtain st where st: "status_for_verifier (env_txid env) (env_client env) ctx (map po_id (peg_outs_of (cl_data c) g)) g = Some st"
      using assms(1) by (auto simp: process_peg_in_as_verifier_def Some Inr bind_eq_Some_conv)
    have ids: "st = Pending_Our_Nonces ids \<Longrightarrow> ids = [graph_id]" "st = Pending_Our_Signature ids \<Longrightarrow> ids = [graph_id]" for ids
      using st i(1) by (auto simp: status_for_verifier_def split: if_splits prod.splits)
    have nonces: "settled ds path c'" if run: "client_push_verifier_nonces env fresh graph_id c = Some c'"
    proof -
      obtain vctx p where
          mut: "graph_mut graph_id c (\<lambda>g. Some (peg_in_push_verifier_nonces (env_txid env) (env_crypto env) vctx (fresh None) g))
            (\<lambda>g. Some (push_verifier_nonces (env_txid env) (env_crypto env) vctx (\<lambda>p. fresh (Some p)) g)) = Some p"
          and c': "c' = save_private_data ((fst p)\<lparr>cl_private := merge_secret_nonces (vc_public_key vctx) graph_id (snd p) (cl_private (fst p))\<rparr>)"
        using run unfolding client_push_verifier_nonces_def by (auto simp only: bind_eq_Some_conv case_prod_beta option.inject)
      have "settled ds path (fst p)" using mut by (cases p) (simp add: graph_mut_peg_in_settled [OF _ i(2) assms(2)])
      then show ?thesis by (simp add: c' settled_def save_private_data_def)
    qed
    have sig: "settled ds path c'" if run: "push_verifier_signature env graph_id c = Some c'"
    proof -
      obtain f h and p :: "('a, 'b, 'c) client \<times> unit" where "graph_mut graph_id c f h = Some p" "c' = fst p"
        using run unfolding push_verifier_signature_def Let_def
        by (auto simp only: bind_eq_Some_conv case_prod_beta option.inject)
      then show ?thesis by (cases p) (simp add: graph_mut_peg_in_settled [OF _ i(2) assms(2)])
    qed
    have "(case st of Pending_Our_Nonces graph_ids \<Rightarrow> fold_option (\<lambda>c i. client_push_verifier_nonces env fresh i c) c graph_ids
        | Pending_Our_Signature graph_ids \<Rightarrow> fold_option (\<lambda>c i. push_verifier_signature env i c) c graph_ids
        | Ready_To_Submit \<Rightarrow> map_option fst (broadcast_peg_in_confirm env graph_id c) | _ \<Rightarrow> Some c) = Some c'"
      using assms(1) st by (simp add: process_peg_in_as_verifier_def Some Inr del: map_option_eq_Some)
    then show ?thesis
      using assms(2) ids nonces sig broadcast_peg_in_settled_fst(2) [OF _ assms(2)]
      by (cases st) (simp_all del: map_option_eq_Some)
  qed
qed

text \<open>The operator adds new graphs only.\<close>

lemma peg_out_state_new_quiet:
  "peg_out_state_new pol txid_of api public_of generate_id cr keypair ctx pin input secrets = Some g \<Longrightarrow> quiet_graph g"
  by (auto simp: peg_out_state_new_def bind_eq_Some_conv quiet_graph_def peg_out_graph.defs)

lemma create_peg_out_settled:
  assumes "create_peg_out_graph env peg_in_id input secrets c = Some (c', graph_id)" "settled ds path c"
  shows "settled ds path c'"
  using assms peg_out_state_new_quiet
  by (fastforce simp: create_peg_out_graph_def bind_eq_Some_conv Let_def save_private_data_def settled_def quiet_data_def split: if_splits)

lemma create_peg_in_settled:
  assumes "create_peg_in_graph env input evm_address c = Some (c', graph_id)" "settled ds path c"
  shows "settled ds path c'"
  using assms by (auto simp: create_peg_in_graph_def bind_eq_Some_conv Let_def add_peg_in_def settled_def quiet_data_def split: if_splits)

lemma operator_settled:
  assumes "process_peg_in_as_operator env new_secrets graph_id c = Some c'" "settled ds path c"
  shows "settled ds path c'"
  using assms create_peg_out_settled [OF _ assms(2)]
  by (fastforce simp: process_peg_in_as_operator_def bind_eq_Some_conv Let_def split: option.splits sum.splits if_splits)

lemma process_peg_ins_settled:
  assumes "process_peg_ins env fresh new_secrets c = Some c'" "settled ds path c"
  shows "settled ds path c'"
proof -
  have step: "settled ds path c1" if "process_peg_in env fresh new_secrets c0 i = Some c1" "settled ds path c0" for c0 c1 i
    using that depositor_settled verifier_settled operator_settled by (fastforce simp: process_peg_in_def bind_eq_Some_conv)
  have "fold_option (process_peg_in env fresh new_secrets) c0 is = Some c1 \<Longrightarrow> settled ds path c0 \<Longrightarrow> settled ds path c1" for c0 c1 "is"
    by (induction "is" arbitrary: c0) (auto simp: bind_eq_Some_conv dest: step)
  then show ?thesis using assms unfolding process_peg_ins_def by blast
qed

lemma quiet_graph_kept: "keeps_rounds g h \<Longrightarrow> quiet_graph g \<Longrightarrow> quiet_graph h"
  by (simp add: keeps_rounds_def quiet_graph_def)

lemma quiet_graphs_kept: "list_all2 keeps_rounds gs hs \<Longrightarrow> \<forall>g \<in> set gs. quiet_graph g \<Longrightarrow> \<forall>h \<in> set hs. quiet_graph h"
  by (induction rule: list_all2_induct) (simp_all add: quiet_graph_kept)

lemma process_peg_outs_settled:
  assumes "process_peg_outs env c = Some c'" "settled ds path c"
  shows "settled ds path c'"
proof -
  obtain gs where c': "c' = c\<lparr>cl_data := (cl_data c)\<lparr>pd_peg_outs := gs\<rparr>\<rparr>" and gs: "list_all2 keeps_rounds (pd_peg_outs (cl_data c)) gs"
    using process_peg_outs_operated [OF assms(1)] unfolding peg_outs_operated_def by blast
  from quiet_graphs_kept [OF gs] show ?thesis using assms(2) by (simp add: c' settled_def quiet_data_def)
qed

section \<open>What the files hold\<close>

text \<open>Every file that can be read as data holds data of the given kind.\<close>

definition files_hold ::
  "(public_data \<Rightarrow> bool) \<Rightarrow> (nat list \<Rightarrow> string + public_data) \<Rightarrow> 'd data_store \<Rightarrow> string \<Rightarrow> 'd \<Rightarrow> bool" where
  "files_hold Q parse ds path d \<longleftrightarrow>
     (\<forall>f content n data. fetch_compressed_data_by_key ds d f (Some path) = Inr (Some content, n) \<longrightarrow>
        parse content = Inr data \<longrightarrow> Q data)"

lemma files_holdD:
  "files_hold Q parse ds path d \<Longrightarrow> fetch_compressed_data_by_key ds d f (Some path) = Inr (Some content, n) \<Longrightarrow>
     parse content = Inr data \<Longrightarrow> Q data"
  unfolding files_hold_def by blast

lemma files_hold_validated:
  assumes "files_hold Q (ce_deserialize env) ds path d" "cl_store c = ds" "cl_remote_path c = path"
    and "validate_data_by_key env d c f = Some (Some data)"
  shows "Q data"
proof -
  obtain content n where f: "fetch_compressed_data_by_key ds d f (Some path) = Inr (Some content, n)"
    using assms(2-4) by (auto simp: validate_data_by_key_def split: sum.splits option.splits)
  have "ce_deserialize env content = Inr data"
    using assms(2-4) f by (auto simp: validate_data_by_key_def bind_eq_Some_conv split: sum.splits if_splits)
  then show ?thesis by (rule files_holdD [OF assms(1) f])
qed

text \<open>The same of the contents of a disk, whatever the operating system answers.\<close>

definition disk_holds ::
  "(public_data \<Rightarrow> bool) \<Rightarrow> (nat list \<Rightarrow> string + public_data) \<Rightarrow> compressor \<Rightarrow> local_disk \<Rightarrow> bool" where
  "disk_holds Q parse cz d \<longleftrightarrow>
     (\<forall>key buffer content data. map_of (disk_files d) key = Some buffer \<longrightarrow> decompress cz buffer = Inr content \<longrightarrow>
        parse content = Inr data \<longrightarrow> Q data)"

lemma disk_files_hold:
  "get_driver ds = Inr (local_driver base cz is_utf8) \<Longrightarrow> disk_holds Q parse cz d \<Longrightarrow> files_hold Q parse ds path d"
  unfolding files_hold_def disk_holds_def
  by (auto simp: fetch_compressed_data_by_key_def local_driver_def local_fetch_compressed_def local_get_def and_then_Inr_iff
      split: sum.splits if_splits option.splits)

text \<open>
  A write, whether it succeeds, fails or stops half way, adds at most one file: what was to be written, or a part of it
  that no reader takes for data.
\<close>

lemma disk_holds_update:
  assumes "disk_holds Q parse cz d" "\<And>content data. decompress cz buffer = Inr content \<Longrightarrow> parse content = Inr data \<Longrightarrow> Q data"
  shows "disk_holds Q parse cz (d\<lparr>disk_files := AList.update key buffer (disk_files d)\<rparr>)"
  using assms by (auto simp: disk_holds_def update_conv' split: if_splits)

lemma disk_holds_written:
  assumes "local_upload_compressed cz d f c p = (d', r)" "lossless cz" "disk_holds Q parse cz d"
    and new: "\<And>data. parse c = Inr data \<Longrightarrow> Q data" and empty: "\<And>data. parse [] \<noteq> Inr data"
  shows "disk_holds Q parse cz d'"
proof (cases "compress cz c")
  case (Inl e)
  then show ?thesis using assms(1,3) by (simp add: local_upload_compressed_def)
next
  case (Inr buffer)
  have whole: "decompress cz buffer = Inr c" using assms(2) Inr by (simp add: lossless_def)
  obtain ok where "local_write d f buffer p = (d', ok)"
    using assms(1) Inr by (auto simp: local_upload_compressed_def split: prod.splits)
  then show ?thesis
  proof (cases rule: local_write_cases)
    case 1
    show ?thesis unfolding 1(2) by (rule disk_holds_update [OF assms(3)]) (use whole new in auto)
  next
    case 2
    then show ?thesis using assms(3) by simp
  next
    case (3 n)
    have part: "take n (butlast buffer) = take (min n (length buffer - 1)) buffer" by (simp add: butlast_conv_take min.commute)
    have "Q data" if "decompress cz (take n (butlast buffer)) = Inr content" "parse content = Inr data" for content data
    proof (cases "buffer = []")
      case True
      then show ?thesis using that whole new by simp
    next
      case False
      then have "min n (length buffer - 1) < length buffer" by (cases buffer) auto
      then have "content = []" using assms(2) Inr that(1) unfolding part lossless_def by blast
      then show ?thesis using that(2) empty by simp
    qed
    then show ?thesis using disk_holds_update [OF assms(3)] 3(2) by simp
  qed
qed

section \<open>Clients over one directory\<close>

text \<open>
  The clients share the files; in each step one of them does one thing. The steps are those of the automatic mode, its
  parts alone, and the creation of graphs. Between them the answers of the operating system may change in any way.
\<close>

inductive bridge_step ::
  "(public_data \<Rightarrow> nat list) \<Rightarrow> (nat list \<Rightarrow> string + public_data) \<Rightarrow>
     local_disk \<times> ('k, 's, local_disk) client list \<Rightarrow> local_disk \<times> ('k, 's, local_disk) client list \<Rightarrow> bool"
  for print parse where
  disk: "bridge_step print parse (d, cs) (d\<lparr>disk_os := replies\<rparr>, cs)"
| round: "bridge_step print parse (d, cs) (d', cs[i := c'])"
    if "i < length cs" "ce_serialize env = print" "ce_deserialize env = parse"
       "automatic_round env fresh new_secrets time d (cs ! i) = Some (d', c')"
| sync: "bridge_step print parse (d, cs) (d, cs[i := c'])"
    if "i < length cs" "ce_deserialize env = parse" "read_from_data_store env d (cs ! i) = Some c'"
| sync_l2: "bridge_step print parse (d, cs) (d, cs[i := c'])"
    if "i < length cs" "read_from_l2 events (cs ! i) = Some c'"
| flush: "bridge_step print parse (d, cs) (d', cs[i := c'])"
    if "i < length cs" "ce_serialize env = print" "ce_deserialize env = parse"
       "save_to_data_store env time d (cs ! i) = Some (d', c')"
| new_peg_in: "bridge_step print parse (d, cs) (d, cs[i := c'])"
    if "i < length cs" "create_peg_in_graph env input evm_address (cs ! i) = Some (c', graph_id)"
| new_peg_out: "bridge_step print parse (d, cs) (d, cs[i := c'])"
    if "i < length cs" "create_peg_out_graph env peg_in_id input secrets (cs ! i) = Some (c', graph_id)"

text \<open>What is written is read back as it was or not at all, and no text at all is not data.\<close>

definition reads_back :: "(public_data \<Rightarrow> nat list) \<Rightarrow> (nat list \<Rightarrow> string + public_data) \<Rightarrow> bool" where
  "reads_back print parse \<longleftrightarrow> (\<forall>x y. parse (print x) = Inr y \<longrightarrow> y = x) \<and> (\<forall>y. parse [] \<noteq> Inr y)"

definition all_settled ::
  "(nat list \<Rightarrow> string + public_data) \<Rightarrow> compressor \<Rightarrow> local_disk data_store \<Rightarrow> string \<Rightarrow>
     local_disk \<times> ('k, 's, local_disk) client list \<Rightarrow> bool" where
  "all_settled parse cz ds path sys \<longleftrightarrow> disk_holds quiet_data parse cz (fst sys) \<and> (\<forall>c \<in> set (snd sys). settled ds path c)"

lemma all_settledI:
  "all_settled parse cz ds path (d, cs) \<Longrightarrow> disk_holds quiet_data parse cz d' \<Longrightarrow> settled ds path c' \<Longrightarrow>
     all_settled parse cz ds path (d', cs[i := c'])"
  using set_update_subset_insert [of cs i c'] by (auto simp: all_settled_def)

lemma all_settledD: "all_settled parse cz ds path (d, cs) \<Longrightarrow> disk_holds quiet_data parse cz d"
  "all_settled parse cz ds path (d, cs) \<Longrightarrow> i < length cs \<Longrightarrow> settled ds path (cs ! i)"
  by (simp_all add: all_settled_def)

lemma read_settled:
  assumes "read_from_data_store env d c = Some c'" "files_hold quiet_data (ce_deserialize env) ds path d" "settled ds path c"
  shows "settled ds path c'"
proof -
  have c: "cl_store c = ds" "cl_remote_path c = path" "quiet_data (cl_data c)" using assms(3) by (simp_all add: settled_def)
  have "quiet_data (cl_data c') \<and> cl_store c' = cl_store c \<and> cl_remote_path c' = cl_remote_path c"
    by (rule read_closed [where R = quiet_data and Q = quiet_data, OF assms(1)])
      (rule files_hold_validated [OF assms(2) c(1,2)], assumption, rule quiet_merge, assumption+, rule c(3))
  then show ?thesis using c by (simp add: settled_def)
qed

lemma merge_unread_settled:
  assumes "merge_unread env d c = Some c'" "files_hold quiet_data (ce_deserialize env) ds path d" "settled ds path c"
  shows "settled ds path c'"
proof -
  have "quiet_data (cl_data c1)" if "process_files env d fs c = Some (c1, l)" for fs c1 l
    by (rule process_files_closed [where R = quiet_data and Q = quiet_data and c = c])
      (use files_hold_validated [OF assms(2)] assms(3) that in \<open>auto simp: settled_def intro: quiet_merge\<close>)
  then have "quiet_data (cl_data c')" using assms(3) by (cases rule: merge_unread_cases [OF assms(1)]) (simp_all add: settled_def)
  then show ?thesis using merge_unread_keeps [OF assms(1)] assms(3) by (simp add: settled_def)
qed

lemma save_settled:
  assumes "save_to_data_store env time d c = Some (d', c')" "disk_holds quiet_data (ce_deserialize env) cz d" "settled ds path c"
    and "get_driver ds = Inr (local_driver base cz is_utf8)" "lossless cz" "reads_back (ce_serialize env) (ce_deserialize env)"
  shows "settled ds path c' \<and> disk_holds quiet_data (ce_deserialize env) cz d'"
proof -
  obtain c1 c2 where c: "merge_unread env d c = Some c1" "next_version c1 = Some c2"
    and w: "(case write_compressed_data (cl_store c2) time d (ce_serialize env (cl_data c2)) (Some (cl_remote_path c2)) of
         (d', Inr (file_name, _)) \<Rightarrow> Some (d', c2\<lparr>cl_latest := Some file_name\<rparr>)
       | (d', Inl _) \<Rightarrow> Some (d', c2)) = Some (d', c')"
    using assms(1) by (auto simp: save_to_data_store_def bind_eq_Some_conv)
  have c2: "settled ds path c2"
    using merge_unread_settled [OF c(1) disk_files_hold [OF assms(4,2)] assms(3)] c(2)
    by (auto simp: next_version_def settled_def quiet_data_def split: if_splits)
  have new: "quiet_data data" if "ce_deserialize env (ce_serialize env (cl_data c2)) = Inr data" for data
    using that assms(6) c2 by (auto simp: reads_back_def settled_def)
  have empty: "ce_deserialize env [] \<noteq> Inr data" for data using assms(6) by (simp add: reads_back_def)
  obtain d2 r where r: "local_upload_compressed cz d (create_file_name ds time) (ce_serialize env (cl_data c2)) (Some path) = (d2, r)"
    by fastforce
  have "d' = d2 \<and> settled ds path c'"
    using w r c2 assms(4) by (auto simp: write_compressed_data_def local_driver_def settled_def split: sum.splits)
  then show ?thesis using disk_holds_written [OF r assms(5,2) new empty] by blast
qed

lemma match_event_quiet:
  assumes "match_and_set_peg_out_event g events = Some (g', rest, r)" "quiet_graph g"
  shows "quiet_graph g'"
proof -
  obtain rest' and matched :: "peg_out_event list" where "(case matched of [] \<Rightarrow> Some (g, rest', Inr None)
      | [event] \<Rightarrow> Some (g\<lparr>peg_out_chain_event := Some event\<rparr>, rest', Inr (Some event))
      | _ \<Rightarrow> Some (g, rest', Inl ''Event from L2 chain is not unique'')) = Some (g', rest, r)"
    using assms(1) unfolding match_and_set_peg_out_event_def Let_def bind_eq_Some_conv by blast
  moreover have "quiet_graph (g\<lparr>peg_out_chain_event := Some event\<rparr>)" for event
    using assms(2) by (simp add: quiet_graph_def)
  ultimately show ?thesis using assms(2) by (cases matched rule: remdups_adj.cases) auto
qed

lemma match_events_quiet:
  "match_events gs events = Some gs' \<Longrightarrow> \<forall>g \<in> set gs. quiet_graph g \<Longrightarrow> \<forall>g \<in> set gs'. quiet_graph g"
proof (induction gs events arbitrary: gs' rule: match_events.induct)
  case (2 g gs events)
  show ?case
  proof (cases "is_peg_out_initiated g")
    case True
    then show ?thesis using 2 by auto
  next
    case False
    then obtain g' rest r hs where m: "match_and_set_peg_out_event g events = Some (g', rest, r)"
        "match_events gs rest = Some hs" "gs' = g' # hs"
      using 2(3) by (auto simp: bind_eq_Some_conv)
    have "quiet_graph g'" using match_event_quiet [OF m(1)] 2(4) by simp
    then show ?thesis using 2(2) [OF False m(1) refl refl m(2)] 2(4) m(3) by simp
  qed
qed simp

lemma read_from_l2_settled:
  assumes "read_from_l2 events c = Some c'" "settled ds path c"
  shows "settled ds path c'"
proof (cases events)
  case (Inr es)
  obtain gs where gs: "match_events (pd_peg_outs (cl_data c)) es = Some gs" "c' = c\<lparr>cl_data := (cl_data c)\<lparr>pd_peg_outs := gs\<rparr>\<rparr>"
    using assms(1) by (auto simp: read_from_l2_def Inr)
  then show ?thesis using match_events_quiet [OF gs(1)] assms(2) by (simp add: settled_def quiet_data_def)
qed (use assms(1) in \<open>simp add: read_from_l2_def\<close>)

lemma automatic_round_settled:
  assumes "automatic_round env fresh new_secrets time d c = Some (d', c')" "disk_holds quiet_data (ce_deserialize env) cz d"
    and "settled ds path c" "get_driver ds = Inr (local_driver base cz is_utf8)" "lossless cz"
    and "reads_back (ce_serialize env) (ce_deserialize env)"
  shows "settled ds path c' \<and> disk_holds quiet_data (ce_deserialize env) cz d'"
proof -
  obtain c1 c2 c3 where c: "read_from_data_store env d c = Some c1" "process_peg_ins env fresh new_secrets c1 = Some c2"
      "process_peg_outs env c2 = Some c3"
    and out: "(if cl_data c3 \<noteq> cl_data c1 then save_to_data_store env time d c3 else Some (d, c3)) = Some (d', c')"
    using assms(1) unfolding automatic_round_def by (auto simp only: bind_eq_Some_conv)
  have c3: "settled ds path c3"
    by (rule process_peg_outs_settled [OF c(3) process_peg_ins_settled [OF c(2) read_settled [OF c(1) disk_files_hold [OF assms(4,2)] assms(3)]]])
  show ?thesis
  proof (cases "cl_data c3 = cl_data c1")
    case True
    then show ?thesis using out c3 assms(2) by simp
  next
    case False
    then have "save_to_data_store env time d c3 = Some (d', c')" using out by simp
    then show ?thesis by (rule save_settled [OF _ assms(2) c3 assms(4-6)])
  qed
qed

lemma bridge_step_settled:
  assumes "bridge_step print parse sys sys'" "all_settled parse cz ds path sys" "reads_back print parse"
    and "get_driver ds = Inr (local_driver base cz is_utf8)" "lossless cz"
  shows "all_settled parse cz ds path sys'"
  using assms(1,2)
proof cases
  case (disk d replies cs)
  then show ?thesis using assms(2) by (simp add: all_settled_def disk_holds_def)
next
  case (round i cs env fresh new_secrets time d d' c')
  have s: "all_settled parse cz ds path (d, cs)" using assms(2) round(1) by simp
  have "settled ds path c' \<and> disk_holds quiet_data (ce_deserialize env) cz d'"
    by (rule automatic_round_settled [OF round(6) _ all_settledD(2) [OF s round(3)] assms(4,5)])
      (use all_settledD(1) [OF s] assms(3) round in simp_all)
  then show ?thesis using all_settledI [OF s] round by simp
next
  case (sync i cs env d c')
  have s: "all_settled parse cz ds path (d, cs)" using assms(2) sync(1) by simp
  show ?thesis
    using all_settledI [OF s all_settledD(1) [OF s] read_settled [OF sync(5) _ all_settledD(2) [OF s sync(3)]]]
      disk_files_hold [OF assms(4) all_settledD(1) [OF s]] sync(2,4) by simp
next
  case (sync_l2 i cs events c' d)
  have s: "all_settled parse cz ds path (d, cs)" using assms(2) sync_l2(1) by simp
  show ?thesis
    using all_settledI [OF s all_settledD(1) [OF s] read_from_l2_settled [OF sync_l2(4) all_settledD(2) [OF s sync_l2(3)]]]
      sync_l2(2) by simp
next
  case (flush i cs env time d d' c')
  have s: "all_settled parse cz ds path (d, cs)" using assms(2) flush(1) by simp
  have "settled ds path c' \<and> disk_holds quiet_data (ce_deserialize env) cz d'"
    by (rule save_settled [OF flush(6) _ all_settledD(2) [OF s flush(3)] assms(4,5)])
      (use all_settledD(1) [OF s] assms(3) flush in simp_all)
  then show ?thesis using all_settledI [OF s] flush by simp
next
  case (new_peg_in i cs env input evm_address c' graph_id d)
  have s: "all_settled parse cz ds path (d, cs)" using assms(2) new_peg_in(1) by simp
  show ?thesis
    using all_settledI [OF s all_settledD(1) [OF s] create_peg_in_settled [OF new_peg_in(4) all_settledD(2) [OF s new_peg_in(3)]]]
      new_peg_in(2) by simp
next
  case (new_peg_out i cs env peg_in_id input secrets c' graph_id d)
  have s: "all_settled parse cz ds path (d, cs)" using assms(2) new_peg_out(1) by simp
  show ?thesis
    using all_settledI [OF s all_settledD(1) [OF s] create_peg_out_settled [OF new_peg_out(4) all_settledD(2) [OF s new_peg_out(3)]]]
      new_peg_out(2) by simp
qed

lemma bridge_steps_settled:
  assumes "(bridge_step print parse)\<^sup>*\<^sup>* sys sys'" "all_settled parse cz ds path sys" "reads_back print parse"
    and "get_driver ds = Inr (local_driver base cz is_utf8)" "lossless cz"
  shows "all_settled parse cz ds path sys'"
  using assms(1,2) by induction (auto intro: bridge_step_settled [OF _ _ assms(3-5)])

text \<open>
  C11. A bridge left to the automatic mode never presigns a peg-out: however many clients share the store, which is empty at
  first, in whatever order they synchronise, create graphs and run rounds, and whatever reads and writes fail, every peg-out
  of every client stays without nonces and without the presignature, and its operator waits. The verifiers' status names only the id of the peg-in, whose own rounds they run.
\<close>

theorem automatic_clients_never_presign:
  assumes "(bridge_step print parse)\<^sup>*\<^sup>* (d0, cs) (d, cs')" "disk_files d0 = []" "reads_back print parse"
    and "get_driver ds = Inr (local_driver base cz is_utf8)" "lossless cz"
    and "\<forall>c \<in> set cs. cl_store c = ds \<and> cl_remote_path c = path \<and> pd_peg_outs (cl_data c) = []"
    and "c \<in> set cs'" "g \<in> set (pd_peg_outs (cl_data c))"
  shows "(\<forall>p. po_musig g p = empty_musig) \<and> \<not> n_of_n_presigned g \<and> operator_status txid_of cl g = Some Operator_Wait"
proof -
  have "all_settled parse cz ds path (d0, cs)"
    using assms(2,6) by (simp add: all_settled_def disk_holds_def settled_def quiet_data_def)
  from bridge_steps_settled [OF assms(1) this assms(3-5)] have "quiet_graph g"
    using assms(7,8) by (auto simp: all_settled_def settled_def quiet_data_def)
  then show ?thesis by (simp add: quiet_graph_def operator_status_def)
qed

text \<open>An operator who has a peg-in and no peg-out, and a text for the data of the sample.\<close>

definition sample_founder :: "peg_in_graph \<Rightarrow> (nat, nat, local_disk) client" where
  "sample_founder pin =
     (sample_user \<lparr>pd_version = 1, pd_peg_ins = [peg_in_state_of binding_txid (\<lambda>_. ''peg-in'') sample_settings pin],
        pd_peg_outs = []\<rparr> None)
     \<lparr>cl_operator := Some \<lparr>oi_keypair = 5, oi_context = sample_operator, oi_n_of_n_keys = []\<rparr>\<rparr>"

definition sample_print :: "public_data \<Rightarrow> public_data \<Rightarrow> nat list" where
  "sample_print data x = (if x = data then [7] else [])"

definition sample_parse :: "public_data \<Rightarrow> nat list \<Rightarrow> string + public_data" where
  "sample_parse data bytes = (if bytes = [7] then Inr data else Inl ''EOF'')"

lemma sample_reads_back: "reads_back (sample_print data) (sample_parse data)"
  by (simp add: reads_back_def sample_print_def sample_parse_def)

lemma sample_founds:
  obtains pin c' new where
    "create_peg_out_graph (sample_client_env [] \<lparr>pd_version = 1, pd_peg_ins = [], pd_peg_outs = []\<rparr>) ''peg-in'' sample_funding
       (generate_commitment_secrets sample_secret) (sample_founder pin) = Some (c', ''peg-in-out'')"
    "pd_peg_outs (cl_data c') = [new]" "pd_version (cl_data c') = 1" "cl_store c' = sample_store"
    "cl_remote_path c' = ''bridge_data''" "cl_latest c' = None"
proof (rule sample_states)
  fix pin g s
  assume g: "sample_graph pin = Some g" "signed_copy g s"
  obtain g' where g': "sign_new sample_crypto 5 g = Some g'" using sample_sign_new [OF g(1)] by blast
  have "peg_in_graph.truncate (peg_in_state_of binding_txid (\<lambda>_. ''peg-in'') sample_settings pin) = pin"
    by (simp add: peg_in_state_of_def peg_in_graph.defs)
  then obtain new where new: "peg_out_state_new core_policy binding_txid sample_chunk_api sample_public_key
      (\<lambda>_ _. ''peg-in-out'') sample_crypto 5 sample_operator
      (peg_in_graph.truncate (peg_in_state_of binding_txid (\<lambda>_. ''peg-in'') sample_settings pin)) sample_funding
      (generate_commitment_secrets sample_secret) = Some new"
    using g(1) g' by (simp add: peg_out_state_new_def)
  have id: "pi_id (peg_in_state_of binding_txid (\<lambda>_. ''peg-in'') sample_settings pin) = ''peg-in''"
    by (simp add: peg_in_state_of_def generate_peg_in_id_def peg_in_graph.defs)
  show thesis
    by (rule that [of pin _ new])
      (use new in \<open>simp_all add: create_peg_out_graph_def sample_founder_def sample_user_def Let_def id save_private_data_def\<close>,
       simp_all)
qed

theorem automatic_clients_never_presign_witness:
  "\<exists>pin data d c g. (bridge_step (sample_print data) (sample_parse data))\<^sup>*\<^sup>* (sample_disk [], [sample_founder pin]) (d, [c]) \<and> disk_files d \<noteq> [] \<and>
     g \<in> set (pd_peg_outs (cl_data c)) \<and> operator_status binding_txid (sample_client []) g = Some Operator_Wait"
proof (rule sample_founds)
  fix pin c' new
  let ?env = "sample_client_env [] \<lparr>pd_version = 1, pd_peg_ins = [], pd_peg_outs = []\<rparr> :: (nat, nat) client_env"
  assume c': "create_peg_out_graph ?env ''peg-in'' sample_funding (generate_commitment_secrets sample_secret)
        (sample_founder pin) = Some (c', ''peg-in-out'')"
    "pd_peg_outs (cl_data c') = [new]" "pd_version (cl_data c') = 1" "cl_store c' = sample_store"
    "cl_remote_path c' = ''bridge_data''" "cl_latest c' = None"
  let ?data = "(cl_data c')\<lparr>pd_version := 2\<rparr>"
  let ?step = "bridge_step (sample_print ?data) (sample_parse ?data) ::
    local_disk \<times> (nat, nat, local_disk) client list \<Rightarrow> local_disk \<times> (nat, nat, local_disk) client list \<Rightarrow> bool"
  let ?flush_env = "?env\<lparr>ce_serialize := sample_print ?data, ce_deserialize := sample_parse ?data\<rparr>"
  have "?step (sample_disk [], [sample_founder pin]) (sample_disk [], [sample_founder pin][0 := c'])"
    by (rule bridge_step.new_peg_out) (simp, subst nth_Cons_0, rule c'(1))
  then have first: "?step (sample_disk [], [sample_founder pin]) (sample_disk [], [c'])" by simp
  have names: "get_file_names sample_store (sample_disk []) p = Some (Inr [])" for p
    by (simp add: get_file_names_def sample_driver local_driver_def local_list_def)
  obtain d c where flush: "save_to_data_store ?flush_env 1700000000000 (sample_disk []) c' = Some (d, c)" "disk_files d \<noteq> []" "cl_data c = ?data"
  proof -
    have unread: "merge_unread e (sample_disk []) c' = Some c'" for e :: "(nat, nat) client_env"
    proof -
      have "c'\<lparr>cl_latest := None\<rparr> = c'" using c'(6) by (metis client.surjective client.update_convs(7) client.select_convs(7))
      then show ?thesis by (simp add: merge_unread_def get_latest_file_names_def names c'(4,5,6))
    qed
    have bump: "next_version c' = Some (c'\<lparr>cl_data := ?data\<rparr>)" by (simp add: next_version_def c'(3))
    have stored: "write_compressed_data sample_store time (sample_disk []) [7] p =
        (sample_disk [((p, create_file_name sample_store time), [8, 0])], Inr (create_file_name sample_store time, 2))" for time p
      by (simp add: write_compressed_data_def sample_driver local_driver_def local_upload_compressed_def local_write_def sample_written)
    have "sample_print ?data ?data = [7]" by (simp add: sample_print_def)
    then have "save_to_data_store ?flush_env 1700000000000 (sample_disk []) c' =
        Some (sample_disk [((Some ''bridge_data'', create_file_name sample_store 1700000000000), [8, 0])],
          c'\<lparr>cl_data := ?data, cl_latest := Some (create_file_name sample_store 1700000000000)\<rparr>)"
      by (simp add: save_to_data_store_def unread bump stored c'(4,5))
    then show thesis by (rule that) simp_all
  qed
  have "?step (sample_disk [], [c']) (d, [c'][0 := c])"
    by (rule bridge_step.flush [where env = ?flush_env and time = 1700000000000]) (simp, simp, simp, subst nth_Cons_0, rule flush(1))
  then have run: "?step\<^sup>*\<^sup>* (sample_disk [], [sample_founder pin]) (d, [c])" using first by simp
  have "operator_status binding_txid (sample_client []) new = Some Operator_Wait"
    using automatic_clients_never_presign [OF run sample_disk_simps(1) sample_reads_back sample_driver
        sample_compressor_lossless, of "''bridge_data''" c new]
    by (simp add: sample_founder_def sample_user_def flush(3) c'(2))
  then show ?thesis using run flush(2,3) c'(2) by fastforce
qed

end
