(* ===== verification/Client_Forgery.thy ===== *)
theory Client_Forgery
  imports Client_Rules
begin

text \<open>
  What the validation of a file lets through: the nonces of a graph are checked by their signatures, its partial
  signatures are not, and a merge takes those of the file.
\<close>

definition with_signatures :: "musig_maps \<Rightarrow> peg_in_state \<Rightarrow> peg_in_state" where
  "with_signatures m g = g\<lparr>pi_musig := (pi_musig g)\<lparr>musig2_signatures := m\<rparr>\<rparr>"

lemma with_signatures_fields [simp]:
  "pi_id (with_signatures m g) = pi_id g" "pi_musig (with_signatures m g) = (pi_musig g)\<lparr>musig2_signatures := m\<rparr>"
  by (simp_all add: with_signatures_def)

lemma with_signatures_valid:
  "peg_in_validate pol txid_of hash_id verify entries (with_signatures m g) =
     peg_in_validate pol txid_of hash_id verify entries g"
proof -
  have "peg_in_settings_of (with_signatures m g) = peg_in_settings_of g"
    by (simp add: peg_in_settings_of_def with_signatures_def)
  then show ?thesis by (simp add: peg_in_validate_def peg_in_new_for_validation_def with_signatures_def)
qed

definition forge :: "nat \<Rightarrow> musig_maps \<Rightarrow> public_data \<Rightarrow> public_data" where
  "forge k m data = data\<lparr>pd_peg_ins := (pd_peg_ins data)[k := with_signatures m (pd_peg_ins data ! k)]\<rparr>"

lemma forge_valid:
  assumes "validate_data env data = Some True" "k < length (pd_peg_ins data)"
  shows "validate_data env (forge k m data) = Some True"
proof -
  let ?valid = "\<lambda>g. peg_in_validate (env_policy env) (env_txid env) (ce_hash_id env) (ce_verify_nonce env) (ce_entries env) g
    = Some (Inr ())"
  have ins: "\<forall>g \<in> set (pd_peg_ins data). ?valid g"
    and outs: "all_graphs_valid (peg_out_validate (env_policy env) (env_txid env) (env_api env) (ce_verify_nonce env)
      (ce_entries env) (env_client env)) (pd_peg_outs data) = Some True"
    using assms(1) unfolding validate_data_def
    by (auto simp: bind_eq_Some_conv all_graphs_valid_True split: if_splits)
  have "?valid (with_signatures m (pd_peg_ins data ! k))" using ins assms(2) by (simp add: with_signatures_valid)
  then have "\<forall>g \<in> set (pd_peg_ins (forge k m data)). ?valid g"
    using ins set_update_subset_insert [of "pd_peg_ins data" k] by (auto simp: forge_def)
  then have "all_graphs_valid (peg_in_validate (env_policy env) (env_txid env) (ce_hash_id env) (ce_verify_nonce env)
      (ce_entries env)) (pd_peg_ins (forge k m data)) = Some True"
    by (simp add: all_graphs_valid_True)
  then show ?thesis using outs by (simp add: validate_data_def forge_def)
qed

lemma forge_distinct: "distinct_ids data \<Longrightarrow> k < length (pd_peg_ins data) \<Longrightarrow> distinct_ids (forge k m data)"
proof -
  assume "k < length (pd_peg_ins data)"
  then have "map pi_id (pd_peg_ins (forge k m data)) = map pi_id (pd_peg_ins data)"
    by (simp add: forge_def map_update list_update_same_conv)
  then show "distinct_ids data \<Longrightarrow> distinct_ids (forge k m data)" by (simp add: distinct_ids_def forge_def)
qed

text \<open>
  C13. Partial signatures are not validated: a file that differs from valid data only in the partial signatures of one peg-in,
  whatever these are, is accepted, and a client that reads it holds them in place of its own for every verifier they name.
\<close>

theorem forged_signatures_spread:
  assumes "validate_data env data = Some True" "k < length (pd_peg_ins data)" "distinct_ids data" "distinct_ids (cl_data c)"
    and "fetch_compressed_data_by_key (cl_store c) d f (Some (cl_remote_path c)) = Inr (Some content, n)"
    and "ce_deserialize env content = Inr (forge k m data)"
  shows "\<exists>c' h. process_files env d [f] c = Some (c', Some f) \<and>
    find (\<lambda>h. pi_id h = pi_id (pd_peg_ins data ! k)) (pd_peg_ins (cl_data c')) = Some h \<and>
    (\<forall>i key v. entry m i key = Some v \<longrightarrow> entry (musig2_signatures (pi_musig h)) i key = Some v)"
proof -
  let ?c = "merge_data (forge k m data) c"
  have "validate_data_by_key env d c f = Some (Some (forge k m data))"
    using forge_valid [OF assms(1,2)] by (simp add: validate_data_by_key_def assms(5,6))
  then have "process_files env d [f] c = Some (?c, Some f)" by simp
  moreover have "knows (cl_data ?c) (forge k m data)"
    using merge_public_data_knows [OF assms(4) forge_distinct [OF assms(3,2)]] by simp
  moreover have g: "with_signatures m (pd_peg_ins data ! k) \<in> set (pd_peg_ins (forge k m data))"
    using assms(2) by (simp add: forge_def set_update_memI)
  ultimately obtain h where "find (\<lambda>h. pi_id h = pi_id (pd_peg_ins data ! k)) (pd_peg_ins (cl_data ?c)) = Some h"
      "carries ((pi_musig (pd_peg_ins data ! k))\<lparr>musig2_signatures := m\<rparr>) (pi_musig h)"
    unfolding knows_def by (auto dest!: bspec)
  then show ?thesis using \<open>process_files env d [f] c = Some (?c, Some f)\<close> by (auto simp: carries_def)
qed

text \<open>The client's own peg-in carries the signature [1] of its verifier; the file has [0] in its place.\<close>

definition sample_signature :: "nat list \<Rightarrow> musig_maps" where
  "sample_signature sig = [0 \<mapsto> [Public_Key False 11 \<mapsto> sig]]"

theorem forged_signatures_spread_witness:
  "\<exists>s0 c' h. sample_peg_in_new = Some s0 \<and>
     process_files (sample_client_env [] (forge 0 (sample_signature [0]) \<lparr>pd_version = 1, pd_peg_ins = [s0], pd_peg_outs = []\<rparr>))
       (sample_disk [((Some ''bridge_data'', ''f''), [8, 0])]) [''f'']
       (sample_user \<lparr>pd_version = 1, pd_peg_ins = [with_signatures (sample_signature [1]) s0], pd_peg_outs = []\<rparr> None) =
       Some (c', Some ''f'') \<and>
     find (\<lambda>h. pi_id h = pi_id s0) (pd_peg_ins (cl_data c')) = Some h \<and>
     entry (musig2_signatures (pi_musig h)) 0 (Public_Key False 11) = Some [0]"
proof (rule sample_peg_in_state)
  fix s0
  assume s0: "sample_peg_in_new = Some s0"
  let ?data = "\<lparr>pd_version = 1, pd_peg_ins = [s0], pd_peg_outs = []\<rparr>"
  let ?env = "sample_client_env [] (forge 0 (sample_signature [0]) ?data)"
  let ?c = "sample_user \<lparr>pd_version = 1, pd_peg_ins = [with_signatures (sample_signature [1]) s0], pd_peg_outs = []\<rparr> None"
  let ?d = "sample_disk [((Some ''bridge_data'', ''f''), [8, 0])]"
  have valid: "validate_data ?env ?data = Some True" by (rule sample_data_valid [OF s0])
  have fetch: "fetch_compressed_data_by_key (cl_store ?c) ?d ''f'' (Some (cl_remote_path ?c)) = Inr (Some [7], 2)"
    by (simp add: fetch_compressed_data_by_key_def sample_user_def sample_driver local_driver_def local_fetch_compressed_def
        local_get_def sample_written)
  have "\<exists>c' h. process_files ?env ?d [''f''] ?c = Some (c', Some ''f'') \<and>
      find (\<lambda>h. pi_id h = pi_id (pd_peg_ins ?data ! 0)) (pd_peg_ins (cl_data c')) = Some h \<and>
      (\<forall>i key v. entry (sample_signature [0]) i key = Some v \<longrightarrow> entry (musig2_signatures (pi_musig h)) i key = Some v)"
    by (rule forged_signatures_spread [OF valid _ _ _ fetch]) (simp_all add: distinct_ids_def, simp_all add: sample_user_def)
  moreover have "entry (sample_signature [0]) 0 (Public_Key False 11) = Some [0]"
    by (simp add: sample_signature_def entry_def)
  ultimately show ?thesis using s0 by fastforce
qed

end
