(* ===== verification/Bigint_Std.thy ===== *)
theory Bigint_Std
  imports Pseudo
begin

text \<open>
  \<open>bitvm/src/bigint/mod.rs\<close> and \<open>std.rs\<close>: unsigned integers of any number of bits as limbs on the stack, the
  least significant limb on top, and the generators that move them. \<open>b\<close> stands for the constants \<open>N_BITS\<close> and
  \<open>LIMB_SIZE\<close> of the type.
\<close>

section \<open>The constants of a type\<close>

record bigint_type =
  n_bits :: nat
  limb_size :: nat

definition n_limbs :: "bigint_type \<Rightarrow> nat" where
  "n_limbs b = (n_bits b + limb_size b - 1) div limb_size b"

definition head :: "bigint_type \<Rightarrow> nat" where
  "head b = n_bits b - (n_limbs b - 1) * limb_size b"

definition head_offset :: "bigint_type \<Rightarrow> int" where
  "head_offset b = 2 ^ head b"

text \<open>The two assertions on the type.\<close>

definition bigint_ok :: "bigint_type \<Rightarrow> bool" where
  "bigint_ok b \<longleftrightarrow> 1 < n_limbs b \<and> limb_size b < 31"

definition u254 :: bigint_type where "u254 = \<lparr>n_bits = 254, limb_size = 29\<rparr>"
definition u64_limbs :: bigint_type where "u64_limbs = \<lparr>n_bits = 64, limb_size = 16\<rparr>"
definition u256_limbs :: bigint_type where "u256_limbs = \<lparr>n_bits = 256, limb_size = 29\<rparr>"

section \<open>Moving integers\<close>

text \<open>The deepest limb of the integer at position \<open>a\<close>.\<close>

definition top_index :: "bigint_type \<Rightarrow> nat \<Rightarrow> nat" where
  "top_index b a = (a + 1) * n_limbs b - 1"

definition zip_bigints :: "bigint_type \<Rightarrow> nat \<Rightarrow> nat \<Rightarrow> script option" where
  "zip_bigints b x y =
     (let x' = top_index b x; y' = top_index b y in do {
       rust_assert (x' \<noteq> y');
       Some (if x' < y'
         then for_range 0 (n_limbs b) (\<lambda>i. [pushn (x' + i), OP_ROLL, pushn y', OP_ROLL])
         else for_range 0 (n_limbs b) (\<lambda>i. [pushn x', OP_ROLL, pushn (y' + i + 1), OP_ROLL]))
     })"

definition copy_zip_bigints :: "bigint_type \<Rightarrow> nat \<Rightarrow> nat \<Rightarrow> script" where
  "copy_zip_bigints b x y =
     for_range 0 (n_limbs b) (\<lambda>i. [pushn (top_index b x + i), OP_PICK, pushn (top_index b y + 1 + i), OP_PICK])"

definition dup_zip_bigint :: "bigint_type \<Rightarrow> nat \<Rightarrow> script" where
  "dup_zip_bigint b x = for_range 0 (n_limbs b) (\<lambda>i. [pushn (top_index b x + i), OP_ROLL, OP_DUP])"

definition copy_bigint :: "bigint_type \<Rightarrow> nat \<Rightarrow> script" where
  "copy_bigint b x =
     (if top_index b x < 128 then for_range 0 (n_limbs b) (\<lambda>_. [pushn (top_index b x), OP_PICK])
      else [pushn (top_index b x + 1)] @ for_range 0 (n_limbs b - 1) (\<lambda>_. [OP_DUP, OP_PICK, OP_SWAP]) @
        [OP_1SUB, OP_PICK])"

definition roll_bigint :: "bigint_type \<Rightarrow> nat \<Rightarrow> script" where
  "roll_bigint b x = (if x = 0 then [] else for_range 0 (n_limbs b) (\<lambda>_. [pushn (top_index b x), OP_ROLL]))"

definition drop_bigint :: "bigint_type \<Rightarrow> script" where
  "drop_bigint b = for_range 0 (n_limbs b div 2) (\<lambda>_. [OP_2DROP]) @ (if n_limbs b mod 2 = 1 then [OP_DROP] else [])"

definition bigint_toaltstack :: "bigint_type \<Rightarrow> script" where
  "bigint_toaltstack b = for_range 0 (n_limbs b) (\<lambda>_. [OP_TOALTSTACK])"

definition bigint_fromaltstack :: "bigint_type \<Rightarrow> script" where
  "bigint_fromaltstack b = for_range 0 (n_limbs b) (\<lambda>_. [OP_FROMALTSTACK])"

section \<open>Constants and tests\<close>

definition push_zero :: "bigint_type \<Rightarrow> script" where
  "push_zero b = push_to_stack 0 (n_limbs b)"

definition push_one :: "bigint_type \<Rightarrow> script" where
  "push_one b = push_to_stack 0 (n_limbs b - 1) @ [push 1]"

definition is_zero_keep_element :: "bigint_type \<Rightarrow> nat \<Rightarrow> script" where
  "is_zero_keep_element b x =
     [push 1] @ for_range 0 (n_limbs b) (\<lambda>i. [pushn (n_limbs b * x + i + 1), OP_PICK, OP_NOT, OP_BOOLAND])"

definition is_zero :: "bigint_type \<Rightarrow> nat \<Rightarrow> script" where
  "is_zero b x = [push 1] @ for_range 0 (n_limbs b) (\<lambda>_. [pushn (n_limbs b * x + 1), OP_ROLL, OP_NOT, OP_BOOLAND])"

definition is_one_keep_element :: "bigint_type \<Rightarrow> nat \<Rightarrow> script" where
  "is_one_keep_element b x =
     [push 1, pushn (n_limbs b * x + 1), OP_PICK, push 1, OP_EQUAL, OP_BOOLAND] @
     for_range 1 (n_limbs b) (\<lambda>i. [pushn (n_limbs b * x + i + 1), OP_PICK, OP_NOT, OP_BOOLAND])"

definition is_one :: "bigint_type \<Rightarrow> nat \<Rightarrow> script" where
  "is_one b x =
     [push 1, pushn (n_limbs b * x + 1), OP_ROLL, push 1, OP_EQUAL, OP_BOOLAND] @
     for_range 1 (n_limbs b) (\<lambda>_. [pushn (n_limbs b * x + 1), OP_ROLL, OP_NOT, OP_BOOLAND])"

definition is_negative :: "bigint_type \<Rightarrow> nat \<Rightarrow> script" where
  "is_negative b depth =
     [pushn ((1 + depth) * n_limbs b - 1), OP_PICK, push (head_offset b div 2), OP_GREATERTHANOREQUAL]"

definition is_positive :: "bigint_type \<Rightarrow> nat \<Rightarrow> script" where
  "is_positive b depth =
     is_zero_keep_element b depth @
     [OP_NOT, pushn ((1 + depth) * n_limbs b), OP_PICK, push (head_offset b div 2), OP_LESSTHAN, OP_BOOLAND]"

definition check_validity :: "bigint_type \<Rightarrow> script" where
  "check_validity b =
     [push (2 ^ limb_size b)] @
     for_range 0 (n_limbs b - 2) (\<lambda>_. [OP_TUCK, push 0, OP_SWAP, OP_WITHIN, OP_VERIFY]) @
     [push 0, OP_SWAP, OP_WITHIN, OP_VERIFY, push 0, push (head_offset b), OP_WITHIN, OP_VERIFY]"

definition limb_check :: "nat \<Rightarrow> nat \<Rightarrow> script" where
  "limb_check i w =
     [pushn i, OP_PICK, OP_DUP, push 0, OP_GREATERTHANOREQUAL, OP_SWAP, push (2 ^ w), OP_LESSTHAN, OP_BOOLAND, OP_BOOLAND]"

definition is_valid_bigint_with_limb_size :: "bigint_type \<Rightarrow> nat \<Rightarrow> script" where
  "is_valid_bigint_with_limb_size b w =
     (let t = b\<lparr>limb_size := w\<rparr> in
      [push 1] @ for_range 0 (n_limbs t - 1) (\<lambda>i. limb_check (i + 1) w) @ limb_check (n_limbs t) (head t))"

definition verify_bigint_on_stack_with_limb_size :: "bigint_type \<Rightarrow> nat \<Rightarrow> script" where
  "verify_bigint_on_stack_with_limb_size b w = is_valid_bigint_with_limb_size b w @ [OP_VERIFY]"

definition verify_bigint_on_stack :: "bigint_type \<Rightarrow> script" where
  "verify_bigint_on_stack b = verify_bigint_on_stack_with_limb_size b (limb_size b)"

definition is_valid_bigint :: "bigint_type \<Rightarrow> script" where
  "is_valid_bigint b = is_valid_bigint_with_limb_size b (limb_size b)"

section \<open>Numbers as limbs\<close>

text \<open>A number in digits of given widths, the least significant one first.\<close>

fun mixed :: "nat list \<Rightarrow> int \<Rightarrow> int list" where
  "mixed [] x = []"
| "mixed (w # ws) x = x mod 2 ^ w # mixed ws (x div 2 ^ w)"

fun mixed_value :: "nat list \<Rightarrow> int list \<Rightarrow> int" where
  "mixed_value (w # ws) (d # ds) = d + 2 ^ w * mixed_value ws ds"
| "mixed_value _ _ = 0"

definition sizes :: "bigint_type \<Rightarrow> nat list" where
  "sizes b = replicate (n_limbs b - 1) (limb_size b) @ [head b]"

definition limbs :: "bigint_type \<Rightarrow> int \<Rightarrow> int list" where
  "limbs b x = mixed (sizes b) x"

definition big_items :: "bigint_type \<Rightarrow> int \<Rightarrow> item list" where
  "big_items b x = map scriptnum (limbs b x)"

definition bigs :: "bigint_type \<Rightarrow> int list \<Rightarrow> item list" where
  "bigs b xs = concat (map (big_items b) xs)"

definition in_range :: "bigint_type \<Rightarrow> int \<Rightarrow> bool" where
  "in_range b x \<longleftrightarrow> 0 \<le> x \<and> x < 2 ^ n_bits b"

lemma length_mixed [simp]: "length (mixed ws x) = length ws"
  by (induction ws arbitrary: x) simp_all

lemma mixed_append: "mixed (us @ ws) x = mixed us x @ mixed ws (x div 2 ^ sum_list us)"
  by (induction us arbitrary: x) (simp_all add: power_add zdiv_zmult2_eq)

lemma mixed_value_mixed: "mixed_value ws (mixed ws x) = x mod 2 ^ sum_list ws"
proof (induction ws arbitrary: x)
  case (Cons w ws)
  have "x mod 2 ^ (w + sum_list ws) = 2 ^ w * (x div 2 ^ w mod 2 ^ sum_list ws) + x mod 2 ^ w"
    by (simp add: power_add zmod_zmult2_eq)
  then show ?case by (simp add: Cons.IH)
qed simp

lemma mixed_zeros: "mixed ws 0 = replicate (length ws) 0"
  by (induction ws) simp_all

text \<open>Lists of digits in range are the numbers below the product.\<close>

lemma mixed_of_value:
  assumes "list_all2 (\<lambda>w d. 0 \<le> d \<and> d < 2 ^ w) ws ds"
  shows "mixed ws (mixed_value ws ds) = ds \<and> 0 \<le> mixed_value ws ds \<and> mixed_value ws ds < 2 ^ sum_list ws"
  using assms
proof (induction rule: list_all2_induct)
  case (Cons w ws d ds)
  let ?v = "mixed_value ws ds"
  have d: "(d + 2 ^ w * ?v) mod 2 ^ w = d" "(d + 2 ^ w * ?v) div 2 ^ w = ?v" using Cons.hyps by simp_all
  have "d + 2 ^ w * ?v < 2 ^ w * (?v + 1)" using Cons.hyps by (simp add: algebra_simps)
  also have "\<dots> \<le> 2 ^ w * 2 ^ sum_list ws" using Cons.IH by (intro mult_left_mono) simp_all
  finally show ?case using d Cons.IH Cons.hyps by (simp add: power_add)
qed simp

lemma mixed_digits: "list_all2 (\<lambda>w d. 0 \<le> d \<and> d < 2 ^ w) ws (mixed ws x)"
  by (induction ws arbitrary: x) simp_all

lemma mixed_mod: "mixed ws (x mod 2 ^ sum_list ws) = mixed ws x"
proof (induction ws arbitrary: x)
  case (Cons w ws)
  have "x mod 2 ^ (w + sum_list ws) mod 2 ^ w = x mod 2 ^ w"
    by (rule mod_mod_cancel) (simp add: power_add)
  moreover have "x mod 2 ^ (w + sum_list ws) div 2 ^ w = x div 2 ^ w mod 2 ^ sum_list ws"
    by (simp add: power_add zmod_zmult2_eq)
  ultimately show ?case using Cons.IH [of "x div 2 ^ w"] by simp
qed simp

section \<open>Facts on the constants\<close>

lemma scriptnum_of_bool: "scriptnum (of_bool b) = bool_item b"
  by (simp add: bool_item_def)

lemma scriptnum_bits: "scriptnum 1 = bool_item True" "scriptnum 0 = bool_item False"
  by (simp_all add: bool_item_def)

lemma one_carry:
  assumes "0 \<le> t" "t < 2 * (m :: int)"
  shows "t div m = of_bool (m \<le> t)" "t mod m = t - m * of_bool (m \<le> t)"
proof -
  show q: "t div m = of_bool (m \<le> t)"
  proof (cases "m \<le> t")
    case True
    then have "(t - m) div m = 0" using assms by (intro div_pos_pos_trivial) simp_all
    then show ?thesis using True assms by (simp add: div_pos_geq)
  qed (use assms in simp)
  show "t mod m = t - m * of_bool (m \<le> t)"
    using minus_mult_div_eq_mod [of t m] unfolding q by simp
qed

lemma power_le_30: "w \<le> 30 \<Longrightarrow> (2 :: int) ^ w \<le> 1073741824"
  using power_increasing [of w 30 "2 :: int"] by simp

lemma num_ok_power: "k \<le> 30 \<Longrightarrow> num_ok (2 ^ k)"
  using power_le_30 [of k] by (simp add: num_ok_def) (smt (verit) zero_less_power)

lemma bigint_okD:
  assumes "bigint_ok b"
  shows "0 < limb_size b" "limb_size b \<le> 30" "2 \<le> n_limbs b" "0 < head b" "head b \<le> limb_size b"
    "(n_limbs b - 1) * limb_size b + head b = n_bits b"
proof -
  let ?n = "n_limbs b" and ?l = "limb_size b"
  show l: "0 < ?l" using assms by (cases "?l = 0") (simp_all add: bigint_ok_def n_limbs_def)
  show "?l \<le> 30" "2 \<le> ?n" using assms by (simp_all add: bigint_ok_def)
  have m: "?n * ?l + (n_bits b + ?l - 1) mod ?l = n_bits b + ?l - 1"
    unfolding n_limbs_def by (rule div_mult_mod_eq)
  have r: "(n_bits b + ?l - 1) mod ?l < ?l" using l by simp
  have n: "(?n - 1) * ?l = ?n * ?l - ?l" by (simp add: diff_mult_distrib)
  have "2 * ?l \<le> ?n * ?l" using assms by (intro mult_right_mono) (simp_all add: bigint_ok_def)
  then show "0 < head b" "head b \<le> ?l" "(?n - 1) * ?l + head b = n_bits b"
    using m r l unfolding head_def n by linarith+
qed

lemma sum_sizes [simp]: "bigint_ok b \<Longrightarrow> sum_list (sizes b) = n_bits b"
  using bigint_okD(6) [of b] by (simp add: sizes_def sum_list_replicate)

lemma length_sizes [simp]: "bigint_ok b \<Longrightarrow> length (sizes b) = n_limbs b"
  using bigint_okD(3) [of b] by (simp add: sizes_def)

lemma length_limbs [simp]: "bigint_ok b \<Longrightarrow> length (limbs b x) = n_limbs b"
  by (simp add: limbs_def)

lemma length_big_items [simp]: "bigint_ok b \<Longrightarrow> length (big_items b x) = n_limbs b"
  by (simp add: big_items_def)

lemma bigs_simps [simp]:
  "bigs b [] = []" "bigs b (x # xs) = big_items b x @ bigs b xs" "bigs b (xs @ ys) = bigs b xs @ bigs b ys"
  by (simp_all add: bigs_def)

lemma length_bigs [simp]: "bigint_ok b \<Longrightarrow> length (bigs b xs) = n_limbs b * length xs"
  by (induction xs) simp_all

lemma limbs_mod: "bigint_ok b \<Longrightarrow> limbs b (x mod 2 ^ n_bits b) = limbs b x"
  using mixed_mod [of "sizes b" x] by (simp add: limbs_def)

lemma big_items_mod: "bigint_ok b \<Longrightarrow> big_items b (x mod 2 ^ n_bits b) = big_items b x"
  by (simp add: big_items_def limbs_mod)

lemma limbs_value: "bigint_ok b \<Longrightarrow> in_range b x \<Longrightarrow> mixed_value (sizes b) (limbs b x) = x"
  by (simp add: limbs_def mixed_value_mixed in_range_def)

lemma limbs_inject: "bigint_ok b \<Longrightarrow> in_range b x \<Longrightarrow> in_range b y \<Longrightarrow> limbs b x = limbs b y \<longleftrightarrow> x = y"
  by (metis limbs_value)

lemma num_ok_mod: "w \<le> 30 \<Longrightarrow> num_ok (x mod 2 ^ w)"
  using power_le_30 [of w] pos_mod_bound [of "2 ^ w" x] pos_mod_sign [of "2 ^ w" x]
  unfolding num_ok_def by (smt (verit) zero_less_power)

lemma mixed_num_ok: "\<forall>w\<in>set ws. w \<le> 30 \<Longrightarrow> \<forall>d\<in>set (mixed ws x). num_ok d"
  by (induction ws arbitrary: x) (simp_all add: num_ok_mod)

lemma limbs_num_ok: "bigint_ok b \<Longrightarrow> \<forall>d\<in>set (limbs b x). num_ok d"
  unfolding limbs_def using bigint_okD(2,5) [of b] by (intro mixed_num_ok) (auto simp: sizes_def)

section \<open>Running the moves\<close>

text \<open>Room on the stack: positions stay below the numbers a script can read.\<close>

definition small_bigs :: "bigint_type \<Rightarrow> int list \<Rightarrow> bool" where
  "small_bigs b ws \<longleftrightarrow> n_limbs b * (length ws + 3) < 2147483648"

lemma exec_roll_at:
  "n = length us \<Longrightarrow> n < 2147483648 \<Longrightarrow>
   exec vm (pushn n # OP_ROLL # p) (State (us @ x # t) al) = exec vm p (State (x # us @ t) al)"
  by (simp add: exec_simps remove_nth_append_length)

lemma exec_pick_at:
  "n = length us \<Longrightarrow> n < 2147483648 \<Longrightarrow>
   exec vm (pushn n # OP_PICK # p) (State (us @ x # t) al) = exec vm p (State (x # us @ x # t) al)"
  by (simp add: exec_simps)

fun interleave :: "'a list \<Rightarrow> 'a list \<Rightarrow> 'a list" where
  "interleave (y # ys) (x # xs) = y # x # interleave ys xs"
| "interleave _ _ = []"

lemma interleave_snoc: "length ys = length xs \<Longrightarrow> interleave (ys @ [y]) (xs @ [x]) = interleave ys xs @ [y, x]"
  by (induction ys xs rule: list_induct2) simp_all

lemma length_interleave [simp]: "length ys = length xs \<Longrightarrow> length (interleave ys xs) = 2 * length xs"
  by (induction ys xs rule: list_induct2) simp_all

lemma map_interleave: "length ys = length xs \<Longrightarrow> map f (interleave ys xs) = interleave (map f ys) (map f xs)"
  by (induction ys xs rule: list_induct2) simp_all

lemma exec_zip_deep_first:
  assumes "length ys = k" "length xs = k" "i + k = n" "length zs = 2 * i"
    and "x' + 1 = length us + length vs + 2 * n" "y' + 1 = length us + n" "x' + 2 * n + 2 < 2147483648"
  shows "exec vm (for_range i n (\<lambda>i. [pushn x', OP_ROLL, pushn (y' + i + 1), OP_ROLL]) @ p)
      (State (zs @ us @ ys @ vs @ xs @ s) al) = exec vm p (State (interleave ys xs @ zs @ us @ vs @ s) al)"
  using assms
proof (induction k arbitrary: ys xs i zs)
  case 0
  then show ?case by simp
next
  case (Suc k)
  obtain ys' y where ys: "ys = ys' @ [y]" using Suc.prems(1) by (metis length_Suc_conv_rev)
  obtain xs' x where xs: "xs = xs' @ [x]" using Suc.prems(2) by (metis length_Suc_conv_rev)
  have len: "length ys' = k" "length xs' = k" using Suc.prems(1,2) ys xs by simp_all
  have "exec vm (for_range i n (\<lambda>i. [pushn x', OP_ROLL, pushn (y' + i + 1), OP_ROLL]) @ p) (State (zs @ us @ ys @ vs @ xs @ s) al)
      = exec vm (pushn x' # OP_ROLL # pushn (y' + i + 1) # OP_ROLL #
          for_range (Suc i) n (\<lambda>i. [pushn x', OP_ROLL, pushn (y' + i + 1), OP_ROLL]) @ p)
          (State ((zs @ us @ ys @ vs @ xs') @ x # s) al)"
    using Suc.prems(3) by (simp add: for_range_first xs)
  also have "\<dots> = exec vm (pushn (y' + i + 1) # OP_ROLL #
          for_range (Suc i) n (\<lambda>i. [pushn x', OP_ROLL, pushn (y' + i + 1), OP_ROLL]) @ p)
          (State ((x # zs @ us @ ys') @ y # vs @ xs' @ s) al)"
    by (subst exec_roll_at) (use Suc.prems len ys in simp_all)
  also have "\<dots> = exec vm (for_range (Suc i) n (\<lambda>i. [pushn x', OP_ROLL, pushn (y' + i + 1), OP_ROLL]) @ p)
          (State ((y # x # zs) @ us @ ys' @ vs @ xs' @ s) al)"
    by (subst exec_roll_at) (use Suc.prems len in simp_all)
  also have "\<dots> = exec vm p (State (interleave ys' xs' @ (y # x # zs) @ us @ vs @ s) al)"
    by (rule Suc.IH) (use Suc.prems len in simp_all)
  finally show ?case using len by (simp add: ys xs interleave_snoc)
qed

lemma exec_zip_shallow_first:
  assumes "length ys = k" "length xs = k" "i + k = n" "length zs = 2 * i"
    and "y' + 1 = length us + length vs + 2 * n" "x' + 1 = length us + n" "y' + 2 * n + 2 < 2147483648"
  shows "exec vm (for_range i n (\<lambda>i. [pushn (x' + i), OP_ROLL, pushn y', OP_ROLL]) @ p)
      (State (zs @ us @ xs @ vs @ ys @ s) al) = exec vm p (State (interleave ys xs @ zs @ us @ vs @ s) al)"
  using assms
proof (induction k arbitrary: ys xs i zs)
  case 0
  then show ?case by simp
next
  case (Suc k)
  obtain ys' y where ys: "ys = ys' @ [y]" using Suc.prems(1) by (metis length_Suc_conv_rev)
  obtain xs' x where xs: "xs = xs' @ [x]" using Suc.prems(2) by (metis length_Suc_conv_rev)
  have len: "length ys' = k" "length xs' = k" using Suc.prems(1,2) ys xs by simp_all
  have "exec vm (for_range i n (\<lambda>i. [pushn (x' + i), OP_ROLL, pushn y', OP_ROLL]) @ p) (State (zs @ us @ xs @ vs @ ys @ s) al)
      = exec vm (pushn (x' + i) # OP_ROLL # pushn y' # OP_ROLL #
          for_range (Suc i) n (\<lambda>i. [pushn (x' + i), OP_ROLL, pushn y', OP_ROLL]) @ p)
          (State ((zs @ us @ xs') @ x # vs @ ys @ s) al)"
    using Suc.prems(3) by (simp add: for_range_first xs)
  also have "\<dots> = exec vm (pushn y' # OP_ROLL #
          for_range (Suc i) n (\<lambda>i. [pushn (x' + i), OP_ROLL, pushn y', OP_ROLL]) @ p)
          (State ((x # zs @ us @ xs' @ vs @ ys') @ y # s) al)"
    by (subst exec_roll_at) (use Suc.prems len ys in simp_all)
  also have "\<dots> = exec vm (for_range (Suc i) n (\<lambda>i. [pushn (x' + i), OP_ROLL, pushn y', OP_ROLL]) @ p)
          (State ((y # x # zs) @ us @ xs' @ vs @ ys' @ s) al)"
    by (subst exec_roll_at) (use Suc.prems len in simp_all)
  also have "\<dots> = exec vm p (State (interleave ys' xs' @ (y # x # zs) @ us @ vs @ s) al)"
    by (rule Suc.IH) (use Suc.prems len in simp_all)
  finally show ?case using len by (simp add: ys xs interleave_snoc)
qed

lemma top_index_Suc: "bigint_ok b \<Longrightarrow> top_index b x + 1 = n_limbs b * x + n_limbs b"
  using bigint_okD(3) [of b] by (simp add: top_index_def algebra_simps)

lemma top_index_less:
  assumes "bigint_ok b"
  shows "top_index b x < top_index b y \<longleftrightarrow> x < y"
proof -
  have "top_index b x < top_index b y \<longleftrightarrow> n_limbs b * x < n_limbs b * y"
    using top_index_Suc [OF assms, of x] top_index_Suc [OF assms, of y] by linarith
  then show ?thesis using bigint_okD(3) [OF assms] by simp
qed

lemma top_index_inject: "bigint_ok b \<Longrightarrow> top_index b x = top_index b y \<longleftrightarrow> x = y"
  using top_index_less [of b x y] top_index_less [of b y x] by (metis less_irrefl nat_neq_iff)

definition zipped :: "bigint_type \<Rightarrow> int \<Rightarrow> int \<Rightarrow> item list" where
  "zipped b y x = interleave (big_items b y) (big_items b x)"

text \<open>The limbs of the second operand end up above those of the first.\<close>

lemma exec_zip_bigints:
  assumes "bigint_ok b" "x \<noteq> y" "x < length ws" "y < length ws" "small_bigs b ws" "zip_bigints b x y = Some z"
  shows "exec vm (z @ p) (State (bigs b ws @ s) al) =
    exec vm p (State (zipped b (ws ! y) (ws ! x) @ bigs b (remove_nth (min x y) (remove_nth (max x y) ws)) @ s) al)"
proof -
  let ?n = "n_limbs b"
  have small: "?n * length ws + 3 * ?n < 2147483648" using assms(5) by (simp add: small_bigs_def algebra_simps)
  have le: "?n * i + ?n \<le> ?n * length ws" if "i < length ws" for i
    using mult_le_mono2 [OF Suc_leI [OF that], of ?n] by simp
  show ?thesis
  proof (cases "x < y")
    case True
    obtain us vs ts where ws: "ws = us @ ws ! x # vs @ ws ! y # ts" and len: "length us = x" "length vs = y - x - 1"
      using split_at2 [OF True assms(4)] .
    have rm: "remove_nth (min x y) (remove_nth (max x y) ws) = us @ vs @ ts"
      using len True by (subst ws) (simp add: pos_simps)
    have z: "z = for_range 0 ?n (\<lambda>i. [pushn (top_index b x + i), OP_ROLL, pushn (top_index b y), OP_ROLL])"
      using assms(6) True top_index_less [OF assms(1)] by (simp add: zip_bigints_def Let_def rust_assert_bind_Some_iff)
    have y: "top_index b y + 1 = length (bigs b us) + length (bigs b vs) + 2 * ?n"
    proof -
      obtain d where "y = x + d + 1" using True by (metis add.assoc less_imp_add_positive add.commute Suc_pred plus_1_eq_Suc)
      then show ?thesis using top_index_Suc [OF assms(1), of y] len assms(1) by (simp add: algebra_simps)
    qed
    have "exec vm (z @ p) (State ([] @ bigs b us @ big_items b (ws ! x) @ bigs b vs @ big_items b (ws ! y) @ bigs b ts @ s) al) =
        exec vm p (State (interleave (big_items b (ws ! y)) (big_items b (ws ! x)) @ [] @ bigs b us @ bigs b vs @ bigs b ts @ s) al)"
      unfolding z
      by (rule exec_zip_shallow_first [where k = ?n])
        (use y top_index_Suc [OF assms(1), of x] top_index_Suc [OF assms(1), of y] len assms(1) small le [OF assms(4)] bigint_okD(3) [OF assms(1)] in simp_all)
    then show ?thesis unfolding rm by (subst (1) ws) (simp add: zipped_def)
  next
    case False
    then have lt: "y < x" using assms(2) by simp
    obtain us vs ts where ws: "ws = us @ ws ! y # vs @ ws ! x # ts" and len: "length us = y" "length vs = x - y - 1"
      using split_at2 [OF lt assms(3)] .
    have rm: "remove_nth (min x y) (remove_nth (max x y) ws) = us @ vs @ ts"
      using len lt by (subst ws) (simp add: pos_simps)
    have z: "z = for_range 0 ?n (\<lambda>i. [pushn (top_index b x), OP_ROLL, pushn (top_index b y + i + 1), OP_ROLL])"
      using assms(6) False top_index_less [OF assms(1)] by (simp add: zip_bigints_def Let_def rust_assert_bind_Some_iff)
    have x: "top_index b x + 1 = length (bigs b us) + length (bigs b vs) + 2 * ?n"
    proof -
      obtain d where "x = y + d + 1" using lt by (metis add.assoc less_imp_add_positive add.commute Suc_pred plus_1_eq_Suc)
      then show ?thesis using top_index_Suc [OF assms(1), of x] len assms(1) by (simp add: algebra_simps)
    qed
    have "exec vm (z @ p) (State ([] @ bigs b us @ big_items b (ws ! y) @ bigs b vs @ big_items b (ws ! x) @ bigs b ts @ s) al) =
        exec vm p (State (interleave (big_items b (ws ! y)) (big_items b (ws ! x)) @ [] @ bigs b us @ bigs b vs @ bigs b ts @ s) al)"
      unfolding z
      by (rule exec_zip_deep_first [where k = ?n])
        (use x top_index_Suc [OF assms(1), of x] top_index_Suc [OF assms(1), of y] len assms(1) small le [OF assms(3)] bigint_okD(3) [OF assms(1)] in simp_all)
    then show ?thesis unfolding rm by (subst (1) ws) (simp add: zipped_def)
  qed
qed

lemma zip_bigints_defined: "bigint_ok b \<Longrightarrow> x \<noteq> y \<Longrightarrow> \<exists>z. zip_bigints b x y = Some z"
  by (simp add: zip_bigints_def Let_def top_index_inject)

lemma room:
  assumes "small_bigs b ws" "i < length ws"
  shows "n_limbs b * i + 4 * n_limbs b < 2147483648"
  using assms(1) mult_le_mono2 [OF Suc_leI [OF assms(2)], of "n_limbs b"]
  by (simp add: small_bigs_def algebra_simps)

text \<open>Doubling the limbs of one integer.\<close>

lemma exec_dup_zip_loop:
  assumes "length xs = k" "i + k = n" "length zs = 2 * i" "x' + 1 = length us + n" "x' + 2 * n < 2147483648"
  shows "exec vm (for_range i n (\<lambda>i. [pushn (x' + i), OP_ROLL, OP_DUP]) @ p) (State (zs @ us @ xs @ s) al) =
    exec vm p (State (interleave xs xs @ zs @ us @ s) al)"
  using assms
proof (induction k arbitrary: xs i zs)
  case 0
  then show ?case by simp
next
  case (Suc k)
  obtain xs' x where xs: "xs = xs' @ [x]" using Suc.prems(1) by (metis length_Suc_conv_rev)
  have len: "length xs' = k" using Suc.prems(1) xs by simp
  have "exec vm (for_range i n (\<lambda>i. [pushn (x' + i), OP_ROLL, OP_DUP]) @ p) (State (zs @ us @ xs @ s) al)
      = exec vm (pushn (x' + i) # OP_ROLL # OP_DUP # for_range (Suc i) n (\<lambda>i. [pushn (x' + i), OP_ROLL, OP_DUP]) @ p)
          (State ((zs @ us @ xs') @ x # s) al)"
    using Suc.prems(2) by (simp add: for_range_first xs)
  also have "\<dots> = exec vm (for_range (Suc i) n (\<lambda>i. [pushn (x' + i), OP_ROLL, OP_DUP]) @ p)
          (State ((x # x # zs) @ us @ xs' @ s) al)"
    by (subst exec_roll_at) (use Suc.prems len in \<open>simp_all add: exec_simps\<close>)
  also have "\<dots> = exec vm p (State (interleave xs' xs' @ (x # x # zs) @ us @ s) al)"
    by (rule Suc.IH) (use Suc.prems len in simp_all)
  finally show ?case by (simp add: xs interleave_snoc)
qed

lemma bigs_split:
  assumes "bigint_ok b" "x < length ws"
  obtains us ts where "bigs b ws = us @ big_items b (ws ! x) @ ts" "bigs b (remove_nth x ws) = us @ ts"
    "length us = n_limbs b * x"
proof -
  obtain us ts where ws: "ws = us @ ws ! x # ts" "length us = x" using split_at [OF assms(2)] .
  have "bigs b ws = bigs b us @ big_items b (ws ! x) @ bigs b ts" by (subst ws(1)) simp
  moreover have "remove_nth x ws = us @ ts" by (subst ws(1)) (simp add: ws(2) pos_simps)
  ultimately show ?thesis using that [of "bigs b us" "bigs b ts"] ws(2) assms(1) by simp
qed

lemma exec_dup_zip:
  assumes "bigint_ok b" "x < length ws" "small_bigs b ws"
  shows "exec vm (dup_zip_bigint b x @ p) (State (bigs b ws @ s) al) =
    exec vm p (State (zipped b (ws ! x) (ws ! x) @ bigs b (remove_nth x ws) @ s) al)"
proof -
  obtain us ts where w: "bigs b ws = us @ big_items b (ws ! x) @ ts" "bigs b (remove_nth x ws) = us @ ts"
      "length us = n_limbs b * x" using bigs_split [OF assms(1,2)] .
  have "exec vm (dup_zip_bigint b x @ p) (State ([] @ us @ big_items b (ws ! x) @ ts @ s) al) =
      exec vm p (State (interleave (big_items b (ws ! x)) (big_items b (ws ! x)) @ [] @ us @ ts @ s) al)"
    unfolding dup_zip_bigint_def
    by (rule exec_dup_zip_loop [where k = "n_limbs b"])
      (use top_index_Suc [OF assms(1), of x] w(3) assms(1) room [OF assms(3,2)] in simp_all)
  then show ?thesis by (simp add: w(1,2) zipped_def)
qed

text \<open>Moving and copying one integer to the top.\<close>

lemma exec_roll_loop:
  assumes "length xs = k" "x' + 1 = length zs + length us + k" "x' < 2147483648"
  shows "exec vm (for_range i (i + k) (\<lambda>_. [pushn x', OP_ROLL]) @ p) (State (zs @ us @ xs @ s) al) =
    exec vm p (State (xs @ zs @ us @ s) al)"
  using assms
proof (induction k arbitrary: xs zs i)
  case 0
  then show ?case by simp
next
  case (Suc k)
  obtain xs' x where xs: "xs = xs' @ [x]" using Suc.prems(1) by (metis length_Suc_conv_rev)
  have len: "length xs' = k" using Suc.prems(1) xs by simp
  have "exec vm (for_range i (i + Suc k) (\<lambda>_. [pushn x', OP_ROLL]) @ p) (State (zs @ us @ xs @ s) al)
      = exec vm (pushn x' # OP_ROLL # for_range (Suc i) (Suc i + k) (\<lambda>_. [pushn x', OP_ROLL]) @ p)
          (State ((zs @ us @ xs') @ x # s) al)"
    by (simp add: for_range_first xs)
  also have "\<dots> = exec vm (for_range (Suc i) (Suc i + k) (\<lambda>_. [pushn x', OP_ROLL]) @ p) (State ((x # zs) @ us @ xs' @ s) al)"
    by (subst exec_roll_at) (use Suc.prems len in simp_all)
  also have "\<dots> = exec vm p (State (xs' @ (x # zs) @ us @ s) al)"
    by (rule Suc.IH) (use Suc.prems len in simp_all)
  finally show ?case by (simp add: xs)
qed

lemma exec_roll_bigint:
  assumes "bigint_ok b" "x < length ws" "small_bigs b ws"
  shows "exec vm (roll_bigint b x @ p) (State (bigs b ws @ s) al) =
    exec vm p (State (big_items b (ws ! x) @ bigs b (remove_nth x ws) @ s) al)"
proof (cases "x = 0")
  case True
  then obtain w ws' where "ws = w # ws'" using assms(2) by (cases ws) auto
  then show ?thesis using True by (simp add: roll_bigint_def)
next
  case False
  obtain us ts where w: "bigs b ws = us @ big_items b (ws ! x) @ ts" "bigs b (remove_nth x ws) = us @ ts"
      "length us = n_limbs b * x" using bigs_split [OF assms(1,2)] .
  have "exec vm (for_range 0 (0 + n_limbs b) (\<lambda>_. [pushn (top_index b x), OP_ROLL]) @ p)
        (State ([] @ us @ big_items b (ws ! x) @ ts @ s) al) =
      exec vm p (State (big_items b (ws ! x) @ [] @ us @ ts @ s) al)"
    by (rule exec_roll_loop)
      (use top_index_Suc [OF assms(1), of x] w(3) assms(1) room [OF assms(3,2)] in simp_all)
  then show ?thesis using False by (simp add: roll_bigint_def w(1,2))
qed

lemma exec_pick_loop:
  assumes "length xs = k" "x' + 1 = length zs + length us + k" "x' < 2147483648"
  shows "exec vm (for_range i (i + k) (\<lambda>_. [pushn x', OP_PICK]) @ p) (State (zs @ us @ xs @ s) al) =
    exec vm p (State (xs @ zs @ us @ xs @ s) al)"
  using assms
proof (induction k arbitrary: xs zs i s)
  case 0
  then show ?case by simp
next
  case (Suc k)
  obtain xs' x where xs: "xs = xs' @ [x]" using Suc.prems(1) by (metis length_Suc_conv_rev)
  have len: "length xs' = k" using Suc.prems(1) xs by simp
  have "exec vm (for_range i (i + Suc k) (\<lambda>_. [pushn x', OP_PICK]) @ p) (State (zs @ us @ xs @ s) al)
      = exec vm (pushn x' # OP_PICK # for_range (Suc i) (Suc i + k) (\<lambda>_. [pushn x', OP_PICK]) @ p)
          (State ((zs @ us @ xs') @ x # s) al)"
    by (simp add: for_range_first xs)
  also have "\<dots> = exec vm (for_range (Suc i) (Suc i + k) (\<lambda>_. [pushn x', OP_PICK]) @ p)
          (State ((x # zs) @ us @ xs' @ x # s) al)"
    by (subst exec_pick_at) (use Suc.prems len in simp_all)
  also have "\<dots> = exec vm p (State (xs' @ (x # zs) @ us @ xs' @ x # s) al)"
    by (rule Suc.IH) (use Suc.prems len in simp_all)
  finally show ?case by (simp add: xs)
qed

lemma exec_dup_pick_loop:
  assumes "length xs = Suc k" "x' = length zs + length us + Suc k" "x' < 2147483647"
  shows "exec vm (for_range i (i + k) (\<lambda>_. [OP_DUP, OP_PICK, OP_SWAP]) @ [OP_1SUB, OP_PICK] @ p)
      (State (scriptnum (int x') # zs @ us @ xs @ s) al) = exec vm p (State (xs @ zs @ us @ xs @ s) al)"
  using assms
proof (induction k arbitrary: xs zs i s)
  case 0
  then obtain x where xs: "xs = [x]" by (metis length_0_conv length_Suc_conv)
  have ok: "num_ok (int x')" using "0.prems" by (simp add: num_ok_def)
  have x': "int x' - 1 = int (length (zs @ us))" using "0.prems" by simp
  have "exec vm (OP_PICK # p) (State (scriptnum (int (length (zs @ us))) # (zs @ us) @ x # s) al) =
      exec vm p (State (x # (zs @ us) @ x # s) al)"
    by (subst exec_pick) (use "0.prems" in simp_all)
  then show ?case using ok x' by (simp add: xs exec_simps del: length_append)
next
  case (Suc k)
  obtain xs' x where xs: "xs = xs' @ [x]" using Suc.prems(1) by (metis length_Suc_conv_rev)
  have len: "length xs' = Suc k" using Suc.prems(1) xs by simp
  have "exec vm (for_range i (i + Suc k) (\<lambda>_. [OP_DUP, OP_PICK, OP_SWAP]) @ [OP_1SUB, OP_PICK] @ p)
        (State (scriptnum (int x') # zs @ us @ xs @ s) al)
      = exec vm (OP_PICK # OP_SWAP # for_range (Suc i) (Suc i + k) (\<lambda>_. [OP_DUP, OP_PICK, OP_SWAP]) @ [OP_1SUB, OP_PICK] @ p)
        (State (scriptnum (int x') # scriptnum (int x') # zs @ us @ xs' @ x # s) al)"
    by (simp add: for_range_first xs exec_simps)
  also have "\<dots> = exec vm (for_range (Suc i) (Suc i + k) (\<lambda>_. [OP_DUP, OP_PICK, OP_SWAP]) @ [OP_1SUB, OP_PICK] @ p)
        (State (scriptnum (int x') # (x # zs) @ us @ xs' @ x # s) al)"
    by (subst exec_pick) (use Suc.prems len in \<open>simp_all add: exec_simps nth_append nth_Cons'\<close>)
  also have "\<dots> = exec vm p (State (xs' @ (x # zs) @ us @ xs' @ x # s) al)"
    by (rule Suc.IH) (use Suc.prems len in simp_all)
  finally show ?case by (simp add: xs)
qed

lemma exec_copy_bigint:
  assumes "bigint_ok b" "x < length ws" "small_bigs b ws"
  shows "exec vm (copy_bigint b x @ p) (State (bigs b ws @ s) al) =
    exec vm p (State (big_items b (ws ! x) @ bigs b ws @ s) al)"
proof -
  obtain us ts where w: "bigs b ws = us @ big_items b (ws ! x) @ ts" "length us = n_limbs b * x"
    using bigs_split [OF assms(1,2)] .
  note t = top_index_Suc [OF assms(1), of x] and r = room [OF assms(3,2)] and n = bigint_okD(3) [OF assms(1)]
  show ?thesis
  proof (cases "top_index b x < 128")
    case True
    have "exec vm (for_range 0 (0 + n_limbs b) (\<lambda>_. [pushn (top_index b x), OP_PICK]) @ p)
          (State ([] @ us @ big_items b (ws ! x) @ ts @ s) al) =
        exec vm p (State (big_items b (ws ! x) @ [] @ us @ big_items b (ws ! x) @ ts @ s) al)"
      by (rule exec_pick_loop) (use t w(2) r assms(1) in simp_all)
    then show ?thesis using True by (simp add: copy_bigint_def w(1))
  next
    case False
    have "exec vm (for_range 0 (0 + (n_limbs b - 1)) (\<lambda>_. [OP_DUP, OP_PICK, OP_SWAP]) @ [OP_1SUB, OP_PICK] @ p)
          (State (scriptnum (int (top_index b x + 1)) # [] @ us @ big_items b (ws ! x) @ ts @ s) al) =
        exec vm p (State (big_items b (ws ! x) @ [] @ us @ big_items b (ws ! x) @ ts @ s) al)"
      by (rule exec_dup_pick_loop) (use t w(2) r n assms(1) in simp_all)
    then show ?thesis using False by (simp add: copy_bigint_def w(1) exec_pushn del: of_nat_add)
  qed
qed

text \<open>Moving the whole integer to the other stack turns it around.\<close>

lemma exec_to_alt: "exec vm (repeat_script (length xs) [OP_TOALTSTACK] @ p) (State (xs @ s) al) = exec vm p (State s (rev xs @ al))"
  by (induction xs arbitrary: al) (simp_all add: repeat_script_Suc exec_simps)

lemma exec_from_alt: "exec vm (repeat_script (length xs) [OP_FROMALTSTACK] @ p) (State s (xs @ al)) = exec vm p (State (rev xs @ s) al)"
  by (induction xs arbitrary: s) (simp_all add: repeat_script_Suc exec_simps)

lemma exec_bigint_alt:
  assumes "bigint_ok b"
  shows "exec vm (bigint_toaltstack b @ p) (State (big_items b x @ s) al) = exec vm p (State s (rev (big_items b x) @ al))"
    "exec vm (bigint_fromaltstack b @ p) (State s (rev (big_items b x) @ al)) = exec vm p (State (big_items b x @ s) al)"
  using exec_to_alt [of vm "big_items b x" p s al] exec_from_alt [of vm "rev (big_items b x)" p s al] assms
  by (simp_all add: bigint_toaltstack_def bigint_fromaltstack_def for_range_const)

lemma exec_2drops: "length xs = 2 * k \<Longrightarrow> exec vm (repeat_script k [OP_2DROP] @ p) (State (xs @ s) al) = exec vm p (State s al)"
proof (induction k arbitrary: xs)
  case (Suc k)
  then obtain x y ys where "xs = x # y # ys" by (cases xs; cases "tl xs") auto
  then show ?case using Suc by (simp add: repeat_script_Suc exec_simps)
qed simp

lemma exec_drop_bigint:
  assumes "bigint_ok b"
  shows "exec vm (drop_bigint b @ p) (State (big_items b x @ s) al) = exec vm p (State s al)"
proof -
  let ?n = "n_limbs b"
  define es ys where "es = take (2 * (?n div 2)) (big_items b x)" and "ys = drop (2 * (?n div 2)) (big_items b x)"
  have parts: "big_items b x = es @ ys" "length es = 2 * (?n div 2)" "length ys = ?n mod 2"
    using assms by (simp_all add: es_def ys_def minus_mult_div_eq_mod)
  have "exec vm (drop_bigint b @ p) (State (es @ ys @ s) al) =
      exec vm ((if ?n mod 2 = 1 then [OP_DROP] else []) @ p) (State (ys @ s) al)"
    using exec_2drops [OF parts(2), of vm _ "ys @ s" al] by (simp add: drop_bigint_def for_range_const)
  moreover have "\<dots> = exec vm p (State s al)"
  proof (cases "?n mod 2 = 1")
    case True
    then obtain y where "ys = [y]" using parts(3) by (cases ys; cases "tl ys") (auto simp: One_nat_def)
    then show ?thesis using True by (simp add: exec_simps)
  qed (use parts(3) in simp)
  ultimately show ?thesis by (simp add: parts(1))
qed

end
