(* ===== verification/Bigint_Add.thy ===== *)
theory Bigint_Add
  imports Bigint_Std
begin

text \<open>
  \<open>bitvm/src/bigint/add.rs\<close> and \<open>sub.rs\<close>: sums and differences of integers, limb by limb with a carry or a borrow.
\<close>

section \<open>Generators\<close>

definition limb_add_carry :: script where
  "limb_add_carry = [OP_ROT, OP_ROT, OP_ADD, OP_2DUP, OP_LESSTHANOREQUAL, OP_TUCK, OP_IF [pushn 2, OP_PICK, OP_SUB]]"

definition limb_add_nocarry :: "int \<Rightarrow> script" where
  "limb_add_nocarry offset =
     [OP_ADD, push offset, OP_2DUP, OP_GREATERTHANOREQUAL, OP_IF_ELSE [OP_SUB] [OP_DROP]]"

definition limb_sub_borrow :: script where
  "limb_sub_borrow = [OP_ROT, OP_ROT, OP_SUB, OP_DUP, push 0, OP_LESSTHAN, OP_TUCK, OP_IF [pushn 2, OP_PICK, OP_ADD]]"

definition limb_sub_noborrow :: "int \<Rightarrow> script" where
  "limb_sub_noborrow offset = [OP_SUB, OP_DUP, push 0, OP_LESSTHAN, OP_IF [push offset, OP_ADD]]"

text \<open>The limbs but the last in a loop, their results on the other stack; then the last limb.\<close>

definition limb_loop :: "bigint_type \<Rightarrow> script \<Rightarrow> script \<Rightarrow> script" where
  "limb_loop b step_limb last_limb =
     [push (2 ^ limb_size b)] @ step_limb @ [OP_TOALTSTACK] @
     for_range 0 (n_limbs b - 2) (\<lambda>_. [OP_ROT, OP_ADD, OP_SWAP] @ step_limb @ [OP_TOALTSTACK]) @
     [OP_NIP, OP_ADD] @ last_limb @ for_range 0 (n_limbs b - 1) (\<lambda>_. [OP_FROMALTSTACK])"

definition double_bigint :: "bigint_type \<Rightarrow> nat \<Rightarrow> script" where
  "double_bigint b x = dup_zip_bigint b x @ limb_loop b limb_add_carry (limb_add_nocarry (head_offset b))"

definition add_bigints :: "bigint_type \<Rightarrow> nat \<Rightarrow> nat \<Rightarrow> script option" where
  "add_bigints b x y =
     map_option (\<lambda>zip. zip @ limb_loop b limb_add_carry (limb_add_nocarry (head_offset b))) (zip_bigints b x y)"

definition sub_bigints :: "bigint_type \<Rightarrow> nat \<Rightarrow> nat \<Rightarrow> script option" where
  "sub_bigints b x y =
     map_option (\<lambda>zip. zip @ limb_loop b limb_sub_borrow (limb_sub_noborrow (head_offset b))) (zip_bigints b x y)"

lemma mod_combination: "(a mod m + s * (d mod m + e)) mod m = (a + s * (d + e)) mod (m :: int)"
proof -
  have "a mod m + s * (d mod m + e) = a + s * (d + e) + m * (- (a div m) - s * (d div m))"
    by (simp add: minus_mult_div_eq_mod [symmetric] algebra_simps)
  then show ?thesis by simp
qed

section \<open>What a step of the loop promises\<close>

text \<open>
  One limb of the result and what goes over to the next, for a sum (\<open>sign = 1\<close>) or a difference (\<open>sign = -1\<close>).
\<close>

locale limb_steps =
  fixes sign :: int
    and step_limb :: script
    and last_limb :: "int \<Rightarrow> script"
  assumes sign: "sign = 1 \<or> sign = - 1"
    and exec_step: "w \<le> 30 \<Longrightarrow> 0 \<le> x \<Longrightarrow> x < 2 ^ w \<Longrightarrow> 0 \<le> y \<Longrightarrow> y \<le> 2 ^ w \<Longrightarrow>
      exec vm (step_limb @ p) (State (scriptnum (2 ^ w) # scriptnum y # scriptnum x # s) al) =
      exec vm p (State (scriptnum ((x + sign * y) mod 2 ^ w) # scriptnum (sign * ((x + sign * y) div 2 ^ w)) #
        scriptnum (2 ^ w) # s) al)"
    and exec_last: "w \<le> 30 \<Longrightarrow> 0 \<le> x \<Longrightarrow> x < 2 ^ w \<Longrightarrow> 0 \<le> y \<Longrightarrow> y \<le> 2 ^ w \<Longrightarrow>
      exec vm (last_limb (2 ^ w) @ p) (State (scriptnum y # scriptnum x # s) al) =
      exec vm p (State (scriptnum ((x + sign * y) mod 2 ^ w) # s) al)"
begin

lemma carry:
  assumes "0 \<le> x" "x < 2 ^ w" "0 \<le> y" "y \<le> 2 ^ w"
  shows "0 \<le> sign * ((x + sign * y) div 2 ^ w)" "sign * ((x + sign * y) div 2 ^ w) \<le> 1"
proof -
  define m :: int where "m = 2 ^ w"
  have m: "0 < m" by (simp add: m_def)
  have b: "0 \<le> x" "x < m" "0 \<le> y" "y \<le> m" using assms by (simp_all add: m_def)
  from sign have "0 \<le> sign * ((x + sign * y) div m) \<and> sign * ((x + sign * y) div m) \<le> 1"
  proof
    assume s: "sign = 1"
    have "(x + y) div m < 2" by (rule int_div_less [OF m]) (use b in linarith)
    then show ?thesis using b m by (simp add: s pos_imp_zdiv_nonneg_iff)
  next
    assume s: "sign = - 1"
    have "(x - y) div m < 1" by (rule int_div_less [OF m]) (use b in linarith)
    moreover have "- 1 \<le> (x - y) div m"
      using zdiv_mono1 [of "- 1 * m" "x - y" m] nonzero_mult_div_cancel_right [of m "- 1"] b m by simp
    ultimately show ?thesis by (simp add: s)
  qed
  then show "0 \<le> sign * ((x + sign * y) div 2 ^ w)" "sign * ((x + sign * y) div 2 ^ w) \<le> 1" by (simp_all add: m_def)
qed

lemma sign_sign: "sign * (sign * q) = q"
  using sign by auto

text \<open>The limbs in the middle.\<close>

definition total :: "nat \<Rightarrow> int \<Rightarrow> int \<Rightarrow> int \<Rightarrow> int" where
  "total m x y c = x mod 2 ^ m + sign * (y mod 2 ^ m + c)"

lemma total_step:
  assumes "t = x mod 2 ^ w + sign * (y mod 2 ^ w + c)"
  shows "total (w + m) x y c = t mod 2 ^ w + 2 ^ w * total m (x div 2 ^ w) (y div 2 ^ w) (sign * (t div 2 ^ w))"
proof -
  have split: "z mod 2 ^ (w + m) = 2 ^ w * (z div 2 ^ w mod 2 ^ m) + z mod 2 ^ w" for z :: int
    by (simp add: power_add zmod_zmult2_eq)
  have "t = t mod 2 ^ w + 2 ^ w * (t div 2 ^ w)" by simp
  then have "t mod 2 ^ w = x mod 2 ^ w + sign * (y mod 2 ^ w + c) - 2 ^ w * (t div 2 ^ w)" using assms by linarith
  then show ?thesis by (simp add: total_def split distrib_left sign_sign mult.left_commute mult.assoc)
qed

lemma exec_middle:
  assumes "w \<le> 30" "0 \<le> c" "c \<le> 1"
  shows "exec vm (for_range i (i + k) (\<lambda>_. [OP_ROT, OP_ADD, OP_SWAP] @ step_limb @ [OP_TOALTSTACK]) @ p)
      (State (scriptnum c # scriptnum (2 ^ w) #
        interleave (map scriptnum (mixed (replicate k w @ ws) y)) (map scriptnum (mixed (replicate k w @ ws) x)) @ s) al) =
    exec vm p (State (scriptnum (sign * (total (k * w) x y c div 2 ^ (k * w))) # scriptnum (2 ^ w) #
        interleave (map scriptnum (mixed ws (y div 2 ^ (k * w)))) (map scriptnum (mixed ws (x div 2 ^ (k * w)))) @ s)
      (rev (map scriptnum (mixed (replicate k w) (total (k * w) x y c))) @ al))"
  using assms(2,3)
proof (induction k arbitrary: i x y c al)
  case 0
  then show ?case by (simp add: total_def sign_sign del: mult_eq_0_iff)
next
  case (Suc k)
  define t where "t = x mod 2 ^ w + sign * (y mod 2 ^ w + c)"
  define c' where "c' = sign * (t div 2 ^ w)"
  have y: "0 \<le> y mod 2 ^ w" "y mod 2 ^ w < 2 ^ w" and x: "0 \<le> x mod 2 ^ w" "x mod 2 ^ w < 2 ^ w" by simp_all
  have c': "0 \<le> c'" "c' \<le> 1" using carry [of "x mod 2 ^ w" w "y mod 2 ^ w + c"] Suc.prems x y
    by (simp_all add: c'_def t_def)
  have ok: "num_ok c" "num_ok (y mod 2 ^ w)"
    using Suc.prems y power_le_30 [OF assms(1)] unfolding num_ok_def by linarith+
  have le: "c + y mod 2 ^ w \<le> 2 ^ w" using Suc.prems(2) y by linarith
  let ?p = "for_range (Suc i) (Suc i + k) (\<lambda>_. [OP_ROT, OP_ADD, OP_SWAP] @ step_limb @ [OP_TOALTSTACK]) @ p"
  have tot: "total (Suc k * w) x y c = t mod 2 ^ w + 2 ^ w * total (k * w) (x div 2 ^ w) (y div 2 ^ w) c'"
    using total_step [OF t_def, of "k * w"] by (simp add: c'_def add.commute)
  have tm: "total (Suc k * w) x y c mod 2 ^ w = t mod 2 ^ w"
    and td: "total (Suc k * w) x y c div 2 ^ w = total (k * w) (x div 2 ^ w) (y div 2 ^ w) c'"
    unfolding tot by simp_all
  have dd: "z div 2 ^ w div 2 ^ (k * w) = z div 2 ^ (Suc k * w)" for z :: int
    by (simp add: power_add zdiv_zmult2_eq)
  have "exec vm (for_range i (i + Suc k) (\<lambda>_. [OP_ROT, OP_ADD, OP_SWAP] @ step_limb @ [OP_TOALTSTACK]) @ p)
      (State (scriptnum c # scriptnum (2 ^ w) #
        interleave (map scriptnum (mixed (replicate (Suc k) w @ ws) y)) (map scriptnum (mixed (replicate (Suc k) w @ ws) x)) @ s) al)
    = exec vm (step_limb @ OP_TOALTSTACK # ?p)
      (State (scriptnum (2 ^ w) # scriptnum (c + y mod 2 ^ w) # scriptnum (x mod 2 ^ w) #
        interleave (map scriptnum (mixed (replicate k w @ ws) (y div 2 ^ w))) (map scriptnum (mixed (replicate k w @ ws) (x div 2 ^ w))) @ s) al)"
    using ok by (simp add: for_range_first exec_simps)
  also have "\<dots> = exec vm ?p (State (scriptnum c' # scriptnum (2 ^ w) #
        interleave (map scriptnum (mixed (replicate k w @ ws) (y div 2 ^ w))) (map scriptnum (mixed (replicate k w @ ws) (x div 2 ^ w))) @ s)
      (scriptnum (t mod 2 ^ w) # al))"
    by (subst exec_step) (use assms(1) Suc.prems x y le in \<open>simp_all add: exec_simps t_def c'_def add.commute\<close>)
  also have "\<dots> = exec vm p (State (scriptnum (sign * (total (k * w) (x div 2 ^ w) (y div 2 ^ w) c' div 2 ^ (k * w))) # scriptnum (2 ^ w) #
        interleave (map scriptnum (mixed ws (y div 2 ^ w div 2 ^ (k * w)))) (map scriptnum (mixed ws (x div 2 ^ w div 2 ^ (k * w)))) @ s)
      (rev (map scriptnum (mixed (replicate k w) (total (k * w) (x div 2 ^ w) (y div 2 ^ w) c'))) @ scriptnum (t mod 2 ^ w) # al))"
    by (rule Suc.IH [OF c'])
  finally show ?case
    unfolding dd td [symmetric] tm [symmetric]
    by (simp del: mult_Suc power_Suc)
qed

lemma total_cong: "x + sign * y = total m x y 0 + 2 ^ m * (x div 2 ^ m + sign * (y div 2 ^ m))"
proof -
  define a r d u :: int where "a = x div 2 ^ m" and "r = x mod 2 ^ m" and "d = y div 2 ^ m" and "u = y mod 2 ^ m"
  have "x = 2 ^ m * a + r" "y = 2 ^ m * d + u" by (simp_all add: a_def r_def d_def u_def)
  then show ?thesis unfolding total_def r_def [symmetric] u_def [symmetric] a_def [symmetric] d_def [symmetric]
    by (simp add: algebra_simps)
qed

lemma limbs_total:
  assumes "bigint_ok b" "m = (n_limbs b - 1) * limb_size b" "t = total m x y 0"
  shows "limbs b (x + sign * y) = mixed (replicate (n_limbs b - 1) (limb_size b)) t @
    [(x div 2 ^ m mod 2 ^ head b + sign * (y div 2 ^ m mod 2 ^ head b + sign * (t div 2 ^ m))) mod 2 ^ head b]"
proof -
  let ?rs = "replicate (n_limbs b - 1) (limb_size b)" and ?v = "x + sign * y"
  have m: "sum_list ?rs = m" by (simp add: assms(2) sum_list_replicate)
  have v: "?v = t + 2 ^ m * (x div 2 ^ m + sign * (y div 2 ^ m))" unfolding assms(3) by (rule total_cong)
  have "?v mod 2 ^ m = t mod 2 ^ m" unfolding v by simp
  then have low: "mixed ?rs ?v = mixed ?rs t" using mixed_mod [of ?rs ?v] mixed_mod [of ?rs t] by (simp add: m)
  have "?v div 2 ^ m = x div 2 ^ m + sign * (y div 2 ^ m) + t div 2 ^ m"
    unfolding v by simp
  moreover have "(x div 2 ^ m mod 2 ^ head b + sign * (y div 2 ^ m mod 2 ^ head b + sign * (t div 2 ^ m))) mod 2 ^ head b =
      (x div 2 ^ m + sign * (y div 2 ^ m) + t div 2 ^ m) mod 2 ^ head b"
    unfolding mod_combination by (simp add: distrib_left sign_sign add.assoc)
  ultimately show ?thesis by (simp add: limbs_def sizes_def mixed_append m low)
qed

theorem exec_limb_loop:
  assumes "bigint_ok b"
  shows "exec vm (limb_loop b step_limb (last_limb (head_offset b)) @ p) (State (zipped b y x @ s) al) =
    exec vm p (State (big_items b (x + sign * y) @ s) al)"
proof -
  note b = bigint_okD [OF assms]
  define w h k where "w = limb_size b" and "h = head b" and "k = n_limbs b - 2"
  have n: "n_limbs b = k + 2" "n_limbs b - 1 = Suc k" using b(3) by (simp_all add: k_def)
  have sz: "sizes b = w # replicate k w @ [h]" by (simp add: sizes_def n(2) w_def h_def)
  define m where "m = Suc k * w"
  define t where "t = x mod 2 ^ w + sign * (y mod 2 ^ w)"
  define c where "c = sign * (t div 2 ^ w)"
  define u where "u = total (k * w) (x div 2 ^ w) (y div 2 ^ w) c"
  have y: "0 \<le> y mod 2 ^ w" "y mod 2 ^ w < 2 ^ w" and x: "0 \<le> x mod 2 ^ w" "x mod 2 ^ w < 2 ^ w" by simp_all
  have c: "0 \<le> c" "c \<le> 1" using carry [of "x mod 2 ^ w" w "y mod 2 ^ w"] x y by (simp_all add: c_def t_def)
  have tot: "total m x y 0 = t mod 2 ^ w + 2 ^ w * u"
    using total_step [of t x w y 0 "k * w"] by (simp add: m_def t_def c_def u_def)
  have tm: "total m x y 0 mod 2 ^ w = t mod 2 ^ w" and td: "total m x y 0 div 2 ^ w = u" unfolding tot by simp_all
  have dd: "z div 2 ^ w div 2 ^ (k * w) = z div 2 ^ m" for z :: int
    by (simp add: m_def power_add zdiv_zmult2_eq)
  define C where "C = sign * (u div 2 ^ (k * w))"
  have C: "C = sign * (total m x y 0 div 2 ^ m)" using dd [of "total m x y 0"] by (simp add: C_def td)
  define xh yh where "xh = x div 2 ^ m mod 2 ^ h" and "yh = y div 2 ^ m mod 2 ^ h"
  have h: "h \<le> 30" "w \<le> 30" using b by (simp_all add: h_def w_def)
  have xh: "0 \<le> xh" "xh < 2 ^ h" and yh: "0 \<le> yh" "yh < 2 ^ h" by (simp_all add: xh_def yh_def)
  have Cb: "0 \<le> C" "C \<le> 1"
    using carry [of "x mod 2 ^ m" m "y mod 2 ^ m"] by (simp_all add: C total_def less_imp_le)
  have ok: "num_ok C" "num_ok yh" using Cb yh power_le_30 [OF h(1)] unfolding num_ok_def by linarith+
  define ds where "ds = map scriptnum (mixed (replicate (Suc k) w) (total m x y 0))"
  have ds: "ds = scriptnum (t mod 2 ^ w) # map scriptnum (mixed (replicate k w) u)"
    by (simp add: ds_def tm td)
  have len: "length (rev ds) = Suc k" by (simp add: ds_def)
  have "exec vm (limb_loop b step_limb (last_limb (head_offset b)) @ p) (State (zipped b y x @ s) al) =
      exec vm (step_limb @ OP_TOALTSTACK # for_range 0 (0 + k) (\<lambda>_. [OP_ROT, OP_ADD, OP_SWAP] @ step_limb @ [OP_TOALTSTACK]) @
        [OP_NIP, OP_ADD] @ last_limb (2 ^ h) @ for_range 0 (Suc k) (\<lambda>_. [OP_FROMALTSTACK]) @ p)
      (State (scriptnum (2 ^ w) # scriptnum (y mod 2 ^ w) # scriptnum (x mod 2 ^ w) #
        interleave (map scriptnum (mixed (replicate k w @ [h]) (y div 2 ^ w)))
          (map scriptnum (mixed (replicate k w @ [h]) (x div 2 ^ w))) @ s) al)"
    by (simp add: limb_loop_def zipped_def big_items_def limbs_def sz exec_push n head_offset_def h_def [symmetric] w_def [symmetric])
  also have "\<dots> = exec vm (for_range 0 (0 + k) (\<lambda>_. [OP_ROT, OP_ADD, OP_SWAP] @ step_limb @ [OP_TOALTSTACK]) @
        [OP_NIP, OP_ADD] @ last_limb (2 ^ h) @ for_range 0 (Suc k) (\<lambda>_. [OP_FROMALTSTACK]) @ p)
      (State (scriptnum c # scriptnum (2 ^ w) #
        interleave (map scriptnum (mixed (replicate k w @ [h]) (y div 2 ^ w)))
          (map scriptnum (mixed (replicate k w @ [h]) (x div 2 ^ w))) @ s) (scriptnum (t mod 2 ^ w) # al))"
    by (subst exec_step) (use h x y in \<open>simp_all add: exec_simps t_def c_def less_imp_le\<close>)
  also have "\<dots> = exec vm ([OP_NIP, OP_ADD] @ last_limb (2 ^ h) @ for_range 0 (Suc k) (\<lambda>_. [OP_FROMALTSTACK]) @ p)
      (State (scriptnum C # scriptnum (2 ^ w) # scriptnum yh # scriptnum xh # s) (rev ds @ al))"
    by (subst exec_middle [OF h(2) c]) (simp add: u_def [symmetric] C_def [symmetric] dd xh_def yh_def ds)
  also have "\<dots> = exec vm (for_range 0 (Suc k) (\<lambda>_. [OP_FROMALTSTACK]) @ p)
      (State (scriptnum ((xh + sign * (yh + C)) mod 2 ^ h) # s) (rev ds @ al))"
    using ok Cb xh yh h(1) by (simp add: exec_simps exec_last)
  also have "\<dots> = exec vm p (State (ds @ scriptnum ((xh + sign * (yh + C)) mod 2 ^ h) # s) al)"
    using exec_from_alt [of vm "rev ds" p _ al] by (simp add: for_range_const len del: length_rev)
  also have "\<dots> = exec vm p (State (big_items b (x + sign * y) @ s) al)"
    using limbs_total [OF assms, of m "total m x y 0" x y]
    by (simp add: big_items_def ds_def n m_def w_def h_def xh_def yh_def C)
  finally show ?thesis .
qed

end

lemma one_borrow:
  assumes "- m \<le> t" "t < (m :: int)"
  shows "t div m = - of_bool (t < 0)" "t mod m = t + m * of_bool (t < 0)"
proof -
  show q: "t div m = - of_bool (t < 0)"
  proof (cases "t < 0")
    case True
    then have m: "0 < m" using assms by simp
    have "(t + m) div m = 0" using assms True by (intro div_pos_pos_trivial) simp_all
    then have "t div m + 1 = 0" using div_add_self2 [of m t] m by simp
    then show ?thesis using True by simp
  qed (use assms in simp)
  show "t mod m = t + m * of_bool (t < 0)"
    using minus_mult_div_eq_mod [of t m] unfolding q by simp
qed

interpretation sum: limb_steps 1 limb_add_carry limb_add_nocarry
proof
  fix w vm p s al and x y :: int
  assume b: "w \<le> 30" "0 \<le> x" "x < (2 :: int) ^ w" "0 \<le> y" "y \<le> (2 :: int) ^ w"
  define m :: int where "m = 2 ^ w"
  have m: "m \<le> 1073741824" "0 < m" using power_le_30 [OF b(1)] by (simp_all add: m_def)
  have r: "0 \<le> x" "x < m" "0 \<le> y" "y \<le> m" using b by (simp_all add: m_def)
  have ok: "num_ok x" "num_ok y" "num_ok (x + y)" "num_ok m" using r m unfolding num_ok_def by linarith+
  have t: "(x + y) div m = of_bool (m \<le> x + y)" "(x + y) mod m = x + y - m * of_bool (m \<le> x + y)"
    using one_carry [of "x + y" m] r by simp_all
  have "exec vm (limb_add_carry @ p) (State (scriptnum m # scriptnum y # scriptnum x # s) al) =
      exec vm p (State (scriptnum ((x + 1 * y) mod m) # scriptnum (1 * ((x + 1 * y) div m)) # scriptnum m # s) al)"
    using ok by (cases "m \<le> x + y") (simp_all add: limb_add_carry_def exec_simps t scriptnum_bits)
  then show "exec vm (limb_add_carry @ p) (State (scriptnum (2 ^ w) # scriptnum y # scriptnum x # s) al) =
      exec vm p (State (scriptnum ((x + 1 * y) mod 2 ^ w) # scriptnum (1 * ((x + 1 * y) div 2 ^ w)) # scriptnum (2 ^ w) # s) al)"
    by (simp only: m_def)
  have "exec vm (limb_add_nocarry m @ p) (State (scriptnum y # scriptnum x # s) al) =
      exec vm p (State (scriptnum ((x + 1 * y) mod m) # s) al)"
    using ok by (cases "m \<le> x + y") (simp_all add: limb_add_nocarry_def exec_simps t)
  then show "exec vm (limb_add_nocarry (2 ^ w) @ p) (State (scriptnum y # scriptnum x # s) al) =
      exec vm p (State (scriptnum ((x + 1 * y) mod 2 ^ w) # s) al)" by (simp only: m_def)
qed simp

interpretation difference: limb_steps "- 1" limb_sub_borrow limb_sub_noborrow
proof
  fix w vm p s al and x y :: int
  assume b: "w \<le> 30" "0 \<le> x" "x < (2 :: int) ^ w" "0 \<le> y" "y \<le> (2 :: int) ^ w"
  define m :: int where "m = 2 ^ w"
  have m: "m \<le> 1073741824" "0 < m" using power_le_30 [OF b(1)] by (simp_all add: m_def)
  have r: "0 \<le> x" "x < m" "0 \<le> y" "y \<le> m" using b by (simp_all add: m_def)
  have ok: "num_ok x" "num_ok y" "num_ok (x - y)" "num_ok m" "num_ok 0" using r m unfolding num_ok_def by linarith+
  have t: "(x - y) div m = - of_bool (x - y < 0)" "(x - y) mod m = x - y + m * of_bool (x - y < 0)"
    using one_borrow [of m "x - y"] r by simp_all
  have "exec vm (limb_sub_borrow @ p) (State (scriptnum m # scriptnum y # scriptnum x # s) al) =
      exec vm p (State (scriptnum ((x - y) mod m) # scriptnum (- ((x - y) div m)) # scriptnum m # s) al)"
    using ok by (cases "x - y < 0") (simp_all add: limb_sub_borrow_def exec_simps t scriptnum_bits(1), simp_all add: scriptnum_bits)
  then show "exec vm (limb_sub_borrow @ p) (State (scriptnum (2 ^ w) # scriptnum y # scriptnum x # s) al) =
      exec vm p (State (scriptnum ((x + - 1 * y) mod 2 ^ w) # scriptnum (- 1 * ((x + - 1 * y) div 2 ^ w)) # scriptnum (2 ^ w) # s) al)"
    by (simp add: m_def)
  have "exec vm (limb_sub_noborrow m @ p) (State (scriptnum y # scriptnum x # s) al) =
      exec vm p (State (scriptnum ((x - y) mod m) # s) al)"
    using ok by (cases "x - y < 0") (simp_all add: limb_sub_noborrow_def exec_simps t)
  then show "exec vm (limb_sub_noborrow (2 ^ w) @ p) (State (scriptnum y # scriptnum x # s) al) =
      exec vm p (State (scriptnum ((x + - 1 * y) mod 2 ^ w) # s) al)" by (simp add: m_def)
qed simp

section \<open>Sums and differences at positions of the stack\<close>

text \<open>A generator that turns integers on the stack into a result above those it leaves.\<close>

definition computes :: "bigint_type \<Rightarrow> int list \<Rightarrow> script option \<Rightarrow> int \<Rightarrow> int list \<Rightarrow> bool" where
  "computes b ws gen v rest \<longleftrightarrow> (\<exists>z. gen = Some z \<and>
     (\<forall>vm p s al. exec vm (z @ p) (State (bigs b ws @ s) al) = exec vm p (State (big_items b v @ bigs b rest @ s) al)))"

lemma exec_add_bigints:
  assumes "bigint_ok b" "x \<noteq> y" "x < length ws" "y < length ws" "small_bigs b ws" "add_bigints b x y = Some z"
  shows "exec vm (z @ p) (State (bigs b ws @ s) al) =
    exec vm p (State (big_items b (ws ! x + ws ! y) @ bigs b (remove_nth (min x y) (remove_nth (max x y) ws)) @ s) al)"
proof -
  obtain zip where zip: "zip_bigints b x y = Some zip" "z = zip @ limb_loop b limb_add_carry (limb_add_nocarry (head_offset b))"
    using assms(6) by (auto simp: add_bigints_def)
  show ?thesis
    using exec_zip_bigints [OF assms(1-5) zip(1)] sum.exec_limb_loop [OF assms(1)] by (simp add: zip(2))
qed

lemma exec_sub_bigints:
  assumes "bigint_ok b" "x \<noteq> y" "x < length ws" "y < length ws" "small_bigs b ws" "sub_bigints b x y = Some z"
  shows "exec vm (z @ p) (State (bigs b ws @ s) al) =
    exec vm p (State (big_items b (ws ! x - ws ! y) @ bigs b (remove_nth (min x y) (remove_nth (max x y) ws)) @ s) al)"
proof -
  obtain zip where zip: "zip_bigints b x y = Some zip" "z = zip @ limb_loop b limb_sub_borrow (limb_sub_noborrow (head_offset b))"
    using assms(6) by (auto simp: sub_bigints_def)
  show ?thesis
    using exec_zip_bigints [OF assms(1-5) zip(1)] difference.exec_limb_loop [OF assms(1)] by (simp add: zip(2))
qed

lemma exec_double_bigint:
  assumes "bigint_ok b" "x < length ws" "small_bigs b ws"
  shows "exec vm (double_bigint b x @ p) (State (bigs b ws @ s) al) =
    exec vm p (State (big_items b (2 * ws ! x) @ bigs b (remove_nth x ws) @ s) al)"
  using exec_dup_zip [OF assms] sum.exec_limb_loop [OF assms(1), of vm p "ws ! x" "ws ! x"]
  by (simp add: double_bigint_def)

text \<open>C40. Sum and difference of two integers at different positions are generated without a panic, remove both
  operands, and leave the limbs of the sum and of the difference modulo two to the number of bits.\<close>

theorem bigints_added_and_subtracted:
  assumes "bigint_ok b" "x \<noteq> y" "x < length ws" "y < length ws" "small_bigs b ws"
  shows "computes b ws (add_bigints b x y) ((ws ! x + ws ! y) mod 2 ^ n_bits b) (remove_nth (min x y) (remove_nth (max x y) ws)) \<and>
    computes b ws (sub_bigints b x y) ((ws ! x - ws ! y) mod 2 ^ n_bits b) (remove_nth (min x y) (remove_nth (max x y) ws))"
proof -
  obtain zip where "zip_bigints b x y = Some zip" using zip_bigints_defined [OF assms(1,2)] by blast
  then obtain za zs where "add_bigints b x y = Some za" "sub_bigints b x y = Some zs"
    by (simp add: add_bigints_def sub_bigints_def)
  then show ?thesis using exec_add_bigints [OF assms] exec_sub_bigints [OF assms]
    by (simp add: computes_def big_items_mod [OF assms(1)])
qed

lemma bigints_added_and_subtracted_witness:
  "computes u64_limbs [18446744073709551615, 2] (add_bigints u64_limbs 1 0) 1 [] \<and>
   computes u64_limbs [18446744073709551615, 2] (sub_bigints u64_limbs 1 0) 3 []"
  using bigints_added_and_subtracted [of u64_limbs 1 0 "[18446744073709551615, 2]"]
  by (simp add: bigint_ok_def n_limbs_def u64_limbs_def small_bigs_def)

end
