(* ===== verification/Bigint_Mul.thy ===== *)
theory Bigint_Mul
  imports Bigint_Add
begin

text \<open>
  \<open>bitvm/src/bigint/bits.rs\<close> and \<open>mul.rs\<close>: the bits of a limb and of a whole integer, in both orders and on both
  stacks, and the product by shifting and adding along the bits of one factor.
\<close>

section \<open>Bits of one limb\<close>

definition split_bit :: script where
  "split_bit = [OP_2DUP, OP_LESSTHANOREQUAL, OP_IF_ELSE [OP_SWAP, OP_SUB, push 1] [OP_NIP, push 0]]"

definition limb_to_be_bits_common :: "nat \<Rightarrow> script" where
  "limb_to_be_bits_common n =
     (let min_i = min 22 (n - 1) in
      [OP_TOALTSTACK] @ for_range 0 min_i (\<lambda>i. [push (2 * 2 ^ i)]) @
      for_range min_i (n - 1) (\<lambda>_. [OP_DUP, OP_DUP, OP_ADD]) @ [OP_FROMALTSTACK] @
      for_range 0 (n - 2) (\<lambda>_. split_bit @ [OP_TOALTSTACK]) @ split_bit)"

definition split_bit_le :: script where
  "split_bit_le = [OP_FROMALTSTACK, OP_2DUP, OP_GREATERTHANOREQUAL, OP_IF_ELSE [OP_SUB, push 1] [OP_DROP, push 0], OP_SWAP]"

definition powers_toaltstack :: "nat \<Rightarrow> script" where
  "powers_toaltstack n =
     (let min_i = min 22 (n - 1) in
      for_range 0 (min_i - 1) (\<lambda>i. [push (2 * 2 ^ i), OP_TOALTSTACK]) @
      (if n - 1 > min_i
       then [push (2 * 2 ^ (min_i - 1)), OP_DUP, OP_TOALTSTACK] @
         for_range min_i (n - 2) (\<lambda>_. [OP_DUP, OP_ADD, OP_DUP, OP_TOALTSTACK]) @ [OP_DUP, OP_ADD, OP_TOALTSTACK]
       else [push (2 * 2 ^ (min_i - 1)), OP_TOALTSTACK]))"

definition limb_to_le_bits_common :: "nat \<Rightarrow> script" where
  "limb_to_le_bits_common n = powers_toaltstack n @ for_range 0 (n - 2) (\<lambda>_. split_bit_le) @ split_bit_le"

definition limb_to_le_bits :: "nat \<Rightarrow> script option" where
  "limb_to_le_bits n = do {
     rust_assert (n > 0);
     Some (if n \<ge> 2 then limb_to_le_bits_common n else []) }"

definition limb_to_le_bits_toaltstack :: "nat \<Rightarrow> script option" where
  "limb_to_le_bits_toaltstack n = do {
     rust_assert (n > 0);
     Some (if n \<ge> 2 then limb_to_le_bits_common n @ for_range 0 n (\<lambda>_. [OP_TOALTSTACK]) else [OP_TOALTSTACK]) }"

definition limb_to_be_bits :: "nat \<Rightarrow> script option" where
  "limb_to_be_bits n = do {
     rust_assert (n > 0);
     Some (if n \<ge> 2 then limb_to_be_bits_common n @ for_range 0 (n - 2) (\<lambda>_. [OP_FROMALTSTACK]) else []) }"

definition limb_to_be_bits_toaltstack :: "nat \<Rightarrow> script option" where
  "limb_to_be_bits_toaltstack n = do {
     rust_assert (n > 0);
     Some (if n \<ge> 2 then limb_to_be_bits_common n @ [OP_TOALTSTACK, OP_TOALTSTACK] else [OP_TOALTSTACK]) }"

section \<open>Bits of an integer\<close>

definition convert_to_be_bits :: "bigint_type \<Rightarrow> script option" where
  "convert_to_be_bits b = do {
     limb \<leftarrow> limb_to_be_bits (limb_size b);
     last_limb \<leftarrow> limb_to_be_bits (n_bits b - limb_size b * (n_limbs b - 1));
     Some (for_range 0 (n_limbs b - 1) (\<lambda>i. limb @ [pushn (limb_size b * (i + 1)), OP_ROLL]) @ last_limb) }"

definition convert_to_le_bits :: "bigint_type \<Rightarrow> script option" where
  "convert_to_le_bits b = do {
     last_limb \<leftarrow> limb_to_le_bits (n_bits b - limb_size b * (n_limbs b - 1));
     limb \<leftarrow> limb_to_le_bits (limb_size b);
     Some (for_range 0 (n_limbs b - 1) (\<lambda>_. [OP_TOALTSTACK]) @ last_limb @
       for_range 0 (n_limbs b - 1) (\<lambda>_. [OP_FROMALTSTACK] @ limb)) }"

definition convert_to_be_bits_toaltstack :: "bigint_type \<Rightarrow> script option" where
  "convert_to_be_bits_toaltstack b = do {
     last_limb \<leftarrow> limb_to_be_bits_toaltstack (n_bits b - limb_size b * (n_limbs b - 1));
     limb \<leftarrow> limb_to_be_bits_toaltstack (limb_size b);
     Some ([pushn (n_limbs b - 1), OP_ROLL] @ last_limb @
       for_range 0 (n_limbs b - 1) (\<lambda>i. [pushn (n_limbs b - 2 - i), OP_ROLL] @ limb)) }"

definition convert_to_le_bits_toaltstack :: "bigint_type \<Rightarrow> script option" where
  "convert_to_le_bits_toaltstack b = do {
     limb \<leftarrow> limb_to_le_bits_toaltstack (limb_size b);
     last_limb \<leftarrow> limb_to_le_bits_toaltstack (n_bits b - limb_size b * (n_limbs b - 1));
     Some (for_range 0 (n_limbs b - 1) (\<lambda>_. limb) @ last_limb) }"

section \<open>Product\<close>

definition mul_bigints :: "bigint_type \<Rightarrow> script option" where
  "mul_bigints b = do {
     bits \<leftarrow> convert_to_be_bits_toaltstack b;
     adder \<leftarrow> add_bigints b 1 0;
     Some (bits @ [OP_FROMALTSTACK, OP_IF_ELSE (copy_bigint b 0) (push_to_stack 0 (n_limbs b))] @
       for_range 1 (n_bits b - 1) (\<lambda>_. double_bigint b 1 @ roll_bigint b 1 @
         [OP_FROMALTSTACK, OP_IF (copy_bigint b 1 @ adder)]) @
       double_bigint b 1 @ [OP_FROMALTSTACK, OP_IF_ELSE adder (drop_bigint b)]) }"

section \<open>The bits of a number\<close>

definition bit_items :: "nat \<Rightarrow> int \<Rightarrow> item list" where
  "bit_items n x = map scriptnum (mixed (replicate n 1) x)"

lemma length_bit_items [simp]: "length (bit_items n x) = n"
  by (simp add: bit_items_def)

lemma bit_items_0 [simp]: "bit_items 0 x = []"
  by (simp add: bit_items_def)

lemma bit_items_Suc: "bit_items (Suc n) x = scriptnum (x mod 2) # bit_items n (x div 2)"
  by (simp add: bit_items_def)

lemma bit_items_add: "bit_items (m + n) x = bit_items m x @ bit_items n (x div 2 ^ m)"
  by (simp add: bit_items_def replicate_add mixed_append sum_list_replicate)

lemma bit_items_mod: "bit_items n (x mod 2 ^ n) = bit_items n x"
  using mixed_mod [of "replicate n 1" x] by (simp add: bit_items_def sum_list_replicate)

lemma bit_items_snoc: "bit_items (Suc n) x = bit_items n x @ [scriptnum (x div 2 ^ n mod 2)]"
  using bit_items_add [of n "Suc 0" x] by (simp add: bit_items_Suc [of 0])

text \<open>The bits of the limbs, one limb after the other, are the bits of the number.\<close>

lemma bit_items_limbs: "concat (map2 bit_items ws (mixed ws x)) = bit_items (sum_list ws) x"
  by (induction ws arbitrary: x) (simp_all add: bit_items_add bit_items_mod)

section \<open>Running the splits\<close>

text \<open>The powers of two from \<open>2^k\<close> down to two.\<close>

fun powers :: "nat \<Rightarrow> item list" where
  "powers 0 = []"
| "powers (Suc k) = scriptnum (2 * 2 ^ k) # powers k"

lemma length_powers [simp]: "length (powers k) = k"
  by (induction k) simp_all

lemma exec_push_powers:
  "exec vm (for_range 0 m (\<lambda>i. [push (2 * 2 ^ i)]) @ p) (State s al) = exec vm p (State (powers m @ s) al)"
  by (induction m arbitrary: p) (simp_all add: for_range_Suc exec_push)

lemma exec_double_powers:
  "Suc m + d \<le> 30 \<Longrightarrow> exec vm (repeat_script d [OP_DUP, OP_DUP, OP_ADD] @ p) (State (powers (Suc m) @ s) al) =
   exec vm p (State (powers (Suc m + d) @ s) al)"
proof (induction d arbitrary: m)
  case (Suc d)
  have ok: "num_ok (2 * 2 ^ m)" using num_ok_power [of "Suc m"] Suc.prems by simp
  have "exec vm (repeat_script (Suc d) [OP_DUP, OP_DUP, OP_ADD] @ p) (State (powers (Suc m) @ s) al) =
      exec vm (repeat_script d [OP_DUP, OP_DUP, OP_ADD] @ p) (State (powers (Suc (Suc m)) @ s) al)"
    using ok by (simp add: repeat_script_Suc exec_simps)
  also have "\<dots> = exec vm p (State (powers (Suc (Suc m) + d) @ s) al)" using Suc.prems by (intro Suc.IH) simp
  finally show ?case by simp
qed simp

lemma two_digits:
  assumes "0 \<le> x" "x < 2 * (m :: int)"
  shows "x div m mod 2 = of_bool (m \<le> x)" "x mod m = x - m * of_bool (m \<le> x)"
  using one_carry [OF assms] by simp_all

lemma exec_split_bit:
  assumes "k \<le> 29" "0 \<le> x" "x < 2 * (2 * 2 ^ k)"
  shows "exec vm (split_bit @ p) (State (scriptnum x # scriptnum (2 * 2 ^ k) # s) al) =
    exec vm p (State (scriptnum (x div (2 * 2 ^ k) mod 2) # scriptnum (x mod (2 * 2 ^ k)) # s) al)"
proof -
  define m :: int where "m = 2 * 2 ^ k"
  have "m \<le> 1073741824" using power_le_30 [of "Suc k"] assms(1) by (simp add: m_def)
  then have ok: "num_ok m" "num_ok x" using assms unfolding num_ok_def m_def [symmetric] by linarith+
  show ?thesis
    unfolding m_def [symmetric] two_digits [OF assms(2) assms(3) [folded m_def]]
    using ok by (cases "m \<le> x") (simp_all add: split_bit_def exec_simps)
qed

lemma exec_split_bit_le:
  assumes "k \<le> 29" "0 \<le> x" "x < 2 * (2 * 2 ^ k)"
  shows "exec vm (split_bit_le @ p) (State (scriptnum x # s) (scriptnum (2 * 2 ^ k) # al)) =
    exec vm p (State (scriptnum (x mod (2 * 2 ^ k)) # scriptnum (x div (2 * 2 ^ k) mod 2) # s) al)"
proof -
  define m :: int where "m = 2 * 2 ^ k"
  have "m \<le> 1073741824" using power_le_30 [of "Suc k"] assms(1) by (simp add: m_def)
  then have ok: "num_ok m" "num_ok x" using assms unfolding num_ok_def m_def [symmetric] by linarith+
  show ?thesis
    unfolding m_def [symmetric] two_digits [OF assms(2) assms(3) [folded m_def]]
    using ok by (cases "m \<le> x") (simp_all add: split_bit_le_def exec_simps)
qed

lemma bits_above:
  "bit_items k (x mod 2 ^ (m + k) div 2 ^ m) = bit_items k (x div 2 ^ m)"
proof -
  have "x mod 2 ^ (m + k) div 2 ^ m = x div 2 ^ m mod 2 ^ k"
    by (simp add: power_add zmod_zmult2_eq)
  then show ?thesis by (simp only: bit_items_mod)
qed

lemma mod_power_mod: "(x :: int) mod 2 ^ (m + k) mod 2 ^ m = x mod 2 ^ m"
  by (rule mod_mod_cancel) (simp add: power_add)

lemma exec_split_bits:
  assumes "k + j \<le> 29" "0 \<le> x" "x < 2 ^ Suc (k + j)"
  shows "exec vm (repeat_script k (split_bit @ [OP_TOALTSTACK]) @ p) (State (scriptnum x # powers (k + j) @ s) al) =
    exec vm p (State (scriptnum (x mod 2 ^ Suc j) # powers j @ s) (bit_items k (x div 2 ^ Suc j) @ al))"
  using assms
proof (induction k arbitrary: x al)
  case 0
  then show ?case by simp
next
  case (Suc k)
  define x' where "x' = x mod 2 ^ Suc (k + j)"
  have e: "(2 :: int) ^ Suc (k + j) = 2 * 2 ^ (k + j)" by simp
  have x': "0 \<le> x'" "x' < 2 ^ Suc (k + j)" by (simp_all add: x'_def)
  have "exec vm (repeat_script (Suc k) (split_bit @ [OP_TOALTSTACK]) @ p) (State (scriptnum x # powers (Suc k + j) @ s) al) =
      exec vm (repeat_script k (split_bit @ [OP_TOALTSTACK]) @ p) (State (scriptnum x' # powers (k + j) @ s)
        (scriptnum (x div 2 ^ Suc (k + j) mod 2) # al))"
    using exec_split_bit [of "k + j" x] Suc.prems by (simp add: repeat_script_Suc exec_simps x'_def e)
  also have "\<dots> = exec vm p (State (scriptnum (x' mod 2 ^ Suc j) # powers j @ s)
      (bit_items k (x' div 2 ^ Suc j) @ scriptnum (x div 2 ^ Suc (k + j) mod 2) # al))"
    by (rule Suc.IH) (use Suc.prems x' in simp_all)
  also have "x' mod 2 ^ Suc j = x mod 2 ^ Suc j" using mod_power_mod [of x "Suc j" k] by (simp add: x'_def add.commute)
  also have "bit_items k (x' div 2 ^ Suc j) = bit_items k (x div 2 ^ Suc j)"
    using bits_above [of k x "Suc j"] by (simp add: x'_def add.commute)
  finally show ?case
    by (simp add: bit_items_snoc zdiv_zmult2_eq [symmetric] power_add [symmetric] add.commute
        flip: power_Suc)
qed

lemma exec_split_bits_le:
  assumes "k \<le> 29" "0 \<le> x" "x < 2 ^ Suc k"
  shows "exec vm (repeat_script k split_bit_le @ p) (State (scriptnum x # s) (powers k @ al)) =
    exec vm p (State (bit_items (Suc k) x @ s) al)"
  using assms
proof (induction k arbitrary: x s)
  case 0
  then show ?case by (simp add: bit_items_Suc)
next
  case (Suc k)
  define x' where "x' = x mod 2 ^ Suc k"
  have e: "(2 :: int) ^ Suc k = 2 * 2 ^ k" by simp
  have x': "0 \<le> x'" "x' < 2 ^ Suc k" by (simp_all add: x'_def)
  have "exec vm (repeat_script (Suc k) split_bit_le @ p) (State (scriptnum x # s) (powers (Suc k) @ al)) =
      exec vm (repeat_script k split_bit_le @ p) (State (scriptnum x' # scriptnum (x div 2 ^ Suc k mod 2) # s) (powers k @ al))"
    using exec_split_bit_le [of k x] Suc.prems by (simp add: repeat_script_Suc x'_def e)
  also have "\<dots> = exec vm p (State (bit_items (Suc k) x' @ scriptnum (x div 2 ^ Suc k mod 2) # s) al)"
    by (rule Suc.IH) (use Suc.prems x' in simp_all)
  also have "bit_items (Suc k) x' = bit_items (Suc k) x" unfolding x'_def by (rule bit_items_mod)
  finally show ?case using bit_items_snoc [of "Suc k" x] by (simp flip: power_Suc)
qed

lemma exec_be_bits_common:
  assumes "2 \<le> n" "n \<le> 30" "0 \<le> x" "x < 2 ^ n"
  shows "exec vm (limb_to_be_bits_common n @ p) (State (scriptnum x # s) al) =
    exec vm p (State (scriptnum (x div 2 mod 2) # scriptnum (x mod 2) # s) (bit_items (n - 2) (x div 4) @ al))"
proof -
  define k where "k = n - 2"
  have n: "n = Suc (Suc k)" using assms(1) by (simp add: k_def)
  define m where "m = min 21 k"
  have m: "min 22 (n - 1) = Suc m" "m \<le> k" by (simp_all add: n m_def min_def)
  have pow: "exec vm (for_range 0 (Suc m) (\<lambda>i. [push (2 * 2 ^ i)]) @ repeat_script (k - m) [OP_DUP, OP_DUP, OP_ADD] @ q) (State s al') =
      exec vm q (State (powers (Suc k) @ s) al')" for q al'
    using exec_double_powers [of m "k - m" vm q s al'] assms(2) m(2) n by (simp only: exec_push_powers) simp
  have "exec vm (limb_to_be_bits_common n @ p) (State (scriptnum x # s) al) =
      exec vm (repeat_script k (split_bit @ [OP_TOALTSTACK]) @ split_bit @ p) (State (scriptnum x # powers (Suc k) @ s) al)"
    unfolding limb_to_be_bits_common_def Let_def m(1)
    by (simp add: exec_simps for_range_const n pow [simplified])
  also have "\<dots> = exec vm (split_bit @ p) (State (scriptnum (x mod 4) # powers 1 @ s) (bit_items k (x div 4) @ al))"
    using exec_split_bits [of k 1 x vm "split_bit @ p" s al] assms n by (simp add: One_nat_def)
  also have "\<dots> = exec vm p (State (scriptnum (x mod 4 div 2 mod 2) # scriptnum (x mod 4 mod 2) # s) (bit_items k (x div 4) @ al))"
    using exec_split_bit [of 0 "x mod 4" vm p s] by (simp add: One_nat_def)
  also have "x mod 4 div 2 mod 2 = x div 2 mod 2" by presburger
  also have "x mod 4 mod 2 = x mod 2" by presburger
  finally show ?thesis by (simp add: k_def)
qed

lemma exec_le_powers:
  assumes "2 \<le> n" "n \<le> 30"
  shows "exec vm (powers_toaltstack n @ p) (State s al) = exec vm p (State s (powers (n - 1) @ al))"
proof -
  define k where "k = n - 2"
  have n: "n = Suc (Suc k)" using assms(1) by (simp add: k_def)
  define m where "m = min 21 k"
  have m: "min 22 (n - 1) = Suc m" "m \<le> k" by (simp_all add: n m_def min_def)
  have pushes: "exec vm (for_range 0 j (\<lambda>i. [push (2 * 2 ^ i), OP_TOALTSTACK]) @ q) (State s al') =
      exec vm q (State s (powers j @ al'))" for j q al'
    by (induction j arbitrary: q) (simp_all add: for_range_Suc exec_simps)
  have doubles: "j + d \<le> 29 \<Longrightarrow> exec vm (repeat_script d [OP_DUP, OP_ADD, OP_DUP, OP_TOALTSTACK] @ q)
        (State (scriptnum (2 * 2 ^ j) # s) (powers (Suc j) @ al')) =
      exec vm q (State (scriptnum (2 * 2 ^ (j + d)) # s) (powers (Suc (j + d)) @ al'))" for j d q al'
  proof (induction d arbitrary: j)
    case (Suc d)
    have ok: "num_ok (2 * 2 ^ j)" using num_ok_power [of "Suc j"] Suc.prems by simp
    then show ?case using Suc.IH [of "Suc j"] Suc.prems by (simp add: repeat_script_Suc exec_simps)
  qed simp
  show ?thesis
  proof (cases "m < k")
    case True
    have k: "Suc (k - Suc 0) = k" "2 * 2 ^ (k - Suc 0) = (2 :: int) ^ k" using True by (simp_all flip: power_Suc)
    have ok: "num_ok (2 ^ k)" using num_ok_power [of k] assms(2) n by simp
    show ?thesis unfolding powers_toaltstack_def Let_def m(1)
      using True n assms(2) ok doubles [of m "k - Suc m"] k
      by (simp add: pushes exec_simps for_range_const One_nat_def)
  next
    case False
    then have "m = k" using m(2) by simp
    then show ?thesis unfolding powers_toaltstack_def Let_def m(1) by (simp add: n pushes exec_simps)
  qed
qed

lemma exec_le_bits_common:
  assumes "2 \<le> n" "n \<le> 30" "0 \<le> x" "x < 2 ^ n"
  shows "exec vm (limb_to_le_bits_common n @ p) (State (scriptnum x # s) al) = exec vm p (State (bit_items n x @ s) al)"
proof -
  obtain k where n: "n = Suc (Suc k)" using assms(1) by (metis One_nat_def Suc_1 Suc_le_D Suc_le_mono)
  have rep: "repeat_script (Suc k) split_bit_le = for_range 0 (n - 2) (\<lambda>_. split_bit_le) @ split_bit_le"
    by (simp add: for_range_const n repeat_script_rev_Suc)
  show ?thesis
    using exec_le_powers [OF assms(1,2), of vm "repeat_script (Suc k) split_bit_le @ p" "scriptnum x # s" al]
      exec_split_bits_le [of "Suc k" x vm p s al] assms n
    by (simp add: limb_to_le_bits_common_def rep)
qed

section \<open>What the limb generators leave\<close>

lemma one_bit: "0 \<le> x \<Longrightarrow> x < 2 \<Longrightarrow> bit_items 1 x = [scriptnum x]"
  by (simp add: bit_items_Suc [of 0, folded One_nat_def])

lemma bit_items_2: "bit_items (Suc (Suc n)) x = scriptnum (x mod 2) # scriptnum (x div 2 mod 2) # bit_items n (x div 4)"
  by (simp add: bit_items_Suc zdiv_zmult2_eq [symmetric])

lemma exec_limb_to_le_bits:
  assumes "limb_to_le_bits n = Some z" "n \<le> 30" "0 \<le> x" "x < 2 ^ n"
  shows "exec vm (z @ p) (State (scriptnum x # s) al) = exec vm p (State (bit_items n x @ s) al)"
proof (cases "2 \<le> n")
  case True
  then show ?thesis using assms exec_le_bits_common [OF True assms(2-4)] by (simp add: limb_to_le_bits_def rust_assert_bind_Some_iff)
next
  case False
  then have "n = 1" using assms(1) by (simp add: limb_to_le_bits_def rust_assert_bind_Some_iff)
  then show ?thesis using assms one_bit [of x] by (simp add: limb_to_le_bits_def)
qed

lemma exec_limb_to_le_bits_toaltstack:
  assumes "limb_to_le_bits_toaltstack n = Some z" "n \<le> 30" "0 \<le> x" "x < 2 ^ n"
  shows "exec vm (z @ p) (State (scriptnum x # s) al) = exec vm p (State s (rev (bit_items n x) @ al))"
proof (cases "2 \<le> n")
  case True
  then show ?thesis using assms exec_le_bits_common [OF True assms(2-4)] exec_to_alt [of vm "bit_items n x" p s al]
    by (auto simp: limb_to_le_bits_toaltstack_def rust_assert_bind_Some_iff for_range_const)
next
  case False
  then have "n = 1" using assms(1) by (simp add: limb_to_le_bits_toaltstack_def rust_assert_bind_Some_iff)
  then show ?thesis using assms one_bit [of x] by (auto simp: limb_to_le_bits_toaltstack_def exec_simps)
qed

lemma exec_limb_to_be_bits:
  assumes "limb_to_be_bits n = Some z" "n \<le> 30" "0 \<le> x" "x < 2 ^ n"
  shows "exec vm (z @ p) (State (scriptnum x # s) al) = exec vm p (State (rev (bit_items n x) @ s) al)"
proof (cases "2 \<le> n")
  case True
  obtain k where n: "n = Suc (Suc k)" using True by (metis One_nat_def Suc_1 Suc_le_D Suc_le_mono)
  show ?thesis using assms exec_be_bits_common [OF True assms(2-4)]
      exec_from_alt [of vm "bit_items k (x div 4)" p "scriptnum (x div 2 mod 2) # scriptnum (x mod 2) # s" al] True
    by (auto simp: limb_to_be_bits_def rust_assert_bind_Some_iff for_range_const n bit_items_2)
next
  case False
  then have "n = 1" using assms(1) by (simp add: limb_to_be_bits_def rust_assert_bind_Some_iff)
  then show ?thesis using assms one_bit [of x] by (simp add: limb_to_be_bits_def)
qed

lemma exec_limb_to_be_bits_toaltstack:
  assumes "limb_to_be_bits_toaltstack n = Some z" "n \<le> 30" "0 \<le> x" "x < 2 ^ n"
  shows "exec vm (z @ p) (State (scriptnum x # s) al) = exec vm p (State s (bit_items n x @ al))"
proof (cases "2 \<le> n")
  case True
  obtain k where n: "n = Suc (Suc k)" using True by (metis One_nat_def Suc_1 Suc_le_D Suc_le_mono)
  show ?thesis using assms exec_be_bits_common [OF True assms(2-4)] True
    by (auto simp: limb_to_be_bits_toaltstack_def rust_assert_bind_Some_iff n bit_items_2 exec_simps)
next
  case False
  then have "n = 1" using assms(1) by (simp add: limb_to_be_bits_toaltstack_def rust_assert_bind_Some_iff)
  then show ?thesis using assms one_bit [of x] by (auto simp: limb_to_be_bits_toaltstack_def exec_simps)
qed

section \<open>All the limbs\<close>

lemma mixed_replicate_snoc: "mixed (replicate (Suc k) w) x = mixed (replicate k w) x @ [x div 2 ^ (k * w) mod 2 ^ w]"
proof -
  have "replicate (Suc k) w = replicate k w @ [w]" by (simp add: replicate_append_same)
  then show ?thesis by (simp add: mixed_append sum_list_replicate del: replicate_Suc)
qed

text \<open>Limb by limb from the lowest one, the bits piling up on the main or on the other stack.\<close>

lemma exec_be_loop:
  assumes "limb_to_be_bits w = Some l" "limb_to_be_bits h = Some g" "w \<le> 30" "h \<le> 30"
    and "length zs = w * i" "w * (i + k) < 2147483648"
  shows "exec vm (for_range i (i + k) (\<lambda>i. l @ [pushn (w * (i + 1)), OP_ROLL]) @ g @ p)
      (State (scriptnum (hd (mixed (replicate k w @ [h]) x)) # zs @ map scriptnum (tl (mixed (replicate k w @ [h]) x)) @ s) al) =
    exec vm p (State (rev (bit_items (k * w + h) x) @ zs @ s) al)"
  using assms(5,6)
proof (induction k arbitrary: x i zs)
  case 0
  then show ?case using exec_limb_to_be_bits [OF assms(2,4), of "x mod 2 ^ h"] by (simp add: bit_items_mod)
next
  case (Suc k)
  obtain d ds where rest: "mixed (replicate k w @ [h]) (x div 2 ^ w) = d # ds"
    by (cases "mixed (replicate k w @ [h]) (x div 2 ^ w)") (simp_all add: mixed_append)
  have "exec vm (for_range i (i + Suc k) (\<lambda>i. l @ [pushn (w * (i + 1)), OP_ROLL]) @ g @ p)
      (State (scriptnum (hd (mixed (replicate (Suc k) w @ [h]) x)) # zs @ map scriptnum (tl (mixed (replicate (Suc k) w @ [h]) x)) @ s) al) =
      exec vm (l @ pushn (w * (i + 1)) # OP_ROLL # for_range (Suc i) (Suc i + k) (\<lambda>i. l @ [pushn (w * (i + 1)), OP_ROLL]) @ g @ p)
      (State (scriptnum (x mod 2 ^ w) # zs @ scriptnum d # map scriptnum ds @ s) al)"
    using rest by (simp add: for_range_first)
  also have "\<dots> = exec vm (pushn (w * (i + 1)) # OP_ROLL # for_range (Suc i) (Suc i + k) (\<lambda>i. l @ [pushn (w * (i + 1)), OP_ROLL]) @ g @ p)
      (State ((rev (bit_items w x) @ zs) @ scriptnum d # map scriptnum ds @ s) al)"
    using exec_limb_to_be_bits [OF assms(1,3), of "x mod 2 ^ w"] by (simp add: bit_items_mod)
  also have "\<dots> = exec vm (for_range (Suc i) (Suc i + k) (\<lambda>i. l @ [pushn (w * (i + 1)), OP_ROLL]) @ g @ p)
      (State (scriptnum d # (rev (bit_items w x) @ zs) @ map scriptnum ds @ s) al)"
    by (rule exec_roll_at) (use Suc.prems in \<open>simp_all add: algebra_simps\<close>)
  also have "\<dots> = exec vm p (State (rev (bit_items (k * w + h) (x div 2 ^ w)) @ (rev (bit_items w x) @ zs) @ s) al)"
    using Suc.IH [of "rev (bit_items w x) @ zs" "Suc i" "x div 2 ^ w"] Suc.prems by (simp add: rest algebra_simps)
  finally show ?case using bit_items_add [of w "k * w + h" x] by (simp add: add.assoc)
qed

lemma exec_le_loop:
  assumes "limb_to_le_bits w = Some l" "w \<le> 30"
  shows "exec vm (repeat_script k ([OP_FROMALTSTACK] @ l) @ p) (State (bit_items n (x div 2 ^ (k * w)) @ s)
      (rev (map scriptnum (mixed (replicate k w) x)) @ al)) = exec vm p (State (bit_items (k * w + n) x @ s) al)"
proof (induction k arbitrary: n)
  case (Suc k)
  have "exec vm (repeat_script (Suc k) ([OP_FROMALTSTACK] @ l) @ p) (State (bit_items n (x div 2 ^ (Suc k * w)) @ s)
      (rev (map scriptnum (mixed (replicate (Suc k) w) x)) @ al)) =
    exec vm (l @ repeat_script k ([OP_FROMALTSTACK] @ l) @ p)
      (State (scriptnum (x div 2 ^ (k * w) mod 2 ^ w) # bit_items n (x div 2 ^ (Suc k * w)) @ s)
      (rev (map scriptnum (mixed (replicate k w) x)) @ al))"
    by (simp add: repeat_script_Suc exec_simps mixed_replicate_snoc del: replicate_Suc)
  also have "\<dots> = exec vm (repeat_script k ([OP_FROMALTSTACK] @ l) @ p)
      (State (bit_items w (x div 2 ^ (k * w)) @ bit_items n (x div 2 ^ (k * w) div 2 ^ w) @ s)
      (rev (map scriptnum (mixed (replicate k w) x)) @ al))"
    using exec_limb_to_le_bits [OF assms, of "x div 2 ^ (k * w) mod 2 ^ w"]
    by (simp add: bit_items_mod zdiv_zmult2_eq [symmetric] power_add [symmetric] add.commute)
  also have "\<dots> = exec vm p (State (bit_items (k * w + (w + n)) x @ s) al)"
    using Suc.IH [of "w + n"] by (simp add: bit_items_add [of w n])
  finally show ?case by (simp add: add_ac)
qed simp

text \<open>From the highest limb, the bits going to the other stack; and from the lowest one.\<close>

lemma exec_be_alt_loop:
  assumes "limb_to_be_bits_toaltstack w = Some l" "w \<le> 30" "k + i = n" "n < 2147483648"
  shows "exec vm (for_range i n (\<lambda>i. [pushn (n - 1 - i), OP_ROLL] @ l) @ p) (State (map scriptnum (mixed (replicate k w) x) @ s) al) =
    exec vm p (State s (bit_items (k * w) x @ al))"
  using assms(3)
proof (induction k arbitrary: i al)
  case (Suc k)
  have pos: "n - (1 + i) = k" using Suc.prems by simp
  have "exec vm (for_range i n (\<lambda>i. [pushn (n - 1 - i), OP_ROLL] @ l) @ p) (State (map scriptnum (mixed (replicate (Suc k) w) x) @ s) al) =
      exec vm (pushn k # OP_ROLL # l @ for_range (Suc i) n (\<lambda>i. [pushn (n - 1 - i), OP_ROLL] @ l) @ p)
        (State (map scriptnum (mixed (replicate k w) x) @ scriptnum (x div 2 ^ (k * w) mod 2 ^ w) # s) al)"
    using Suc.prems by (simp add: for_range_first pos mixed_replicate_snoc del: replicate_Suc)
  also have "\<dots> = exec vm (l @ for_range (Suc i) n (\<lambda>i. [pushn (n - 1 - i), OP_ROLL] @ l) @ p)
        (State (scriptnum (x div 2 ^ (k * w) mod 2 ^ w) # map scriptnum (mixed (replicate k w) x) @ s) al)"
    by (rule exec_roll_at) (use Suc.prems assms(4) in simp_all)
  also have "\<dots> = exec vm p (State s (bit_items (k * w) x @ bit_items w (x div 2 ^ (k * w)) @ al))"
    using exec_limb_to_be_bits_toaltstack [OF assms(1,2), of "x div 2 ^ (k * w) mod 2 ^ w"] Suc.IH [of "Suc i"] Suc.prems
    by (simp add: bit_items_mod)
  finally show ?case using bit_items_add [of "k * w" w x] by (simp add: add.commute)
qed simp

lemma exec_le_alt_loop:
  assumes "limb_to_le_bits_toaltstack w = Some l" "w \<le> 30"
  shows "exec vm (repeat_script k l @ p) (State (map scriptnum (mixed (replicate k w) x) @ s) al) =
    exec vm p (State s (rev (bit_items (k * w) x) @ al))"
proof (induction k arbitrary: x al)
  case (Suc k)
  then show ?case using exec_limb_to_le_bits_toaltstack [OF assms, of "x mod 2 ^ w"]
    by (simp add: repeat_script_Suc bit_items_mod bit_items_add)
qed simp

section \<open>The bits of an integer on the stack\<close>

lemma head_bits: "bigint_ok b \<Longrightarrow> n_bits b - limb_size b * (n_limbs b - 1) = head b"
  by (simp add: head_def mult.commute)

lemma bits_of_integer:
  assumes "bigint_ok b"
  shows "(n_limbs b - 1) * limb_size b + head b = n_bits b" "limb_size b \<le> 30" "head b \<le> 30"
    "big_items b x = map scriptnum (mixed (replicate (n_limbs b - 1) (limb_size b)) x) @
       [scriptnum (x div 2 ^ ((n_limbs b - 1) * limb_size b) mod 2 ^ head b)]"
  using bigint_okD [OF assms] by (simp_all add: big_items_def limbs_def sizes_def mixed_append sum_list_replicate)

lemma exec_convert_to_be_bits_toaltstack:
  assumes "bigint_ok b" "n_limbs b < 2147483648" "convert_to_be_bits_toaltstack b = Some z"
  shows "exec vm (z @ p) (State (big_items b x @ s) al) = exec vm p (State s (bit_items (n_bits b) x @ al))"
proof -
  note b = bits_of_integer [OF assms(1)]
  define k where "k = n_limbs b - 1"
  have k: "n_limbs b - 1 = k" "n_limbs b - 2 = k - 1" by (simp_all add: k_def)
  obtain g l where g: "limb_to_be_bits_toaltstack (head b) = Some g" and l: "limb_to_be_bits_toaltstack (limb_size b) = Some l"
    and z: "z = [pushn k, OP_ROLL] @ g @ for_range 0 k (\<lambda>i. [pushn (k - 1 - i), OP_ROLL] @ l)"
    using assms(3) head_bits [OF assms(1)] by (auto simp: convert_to_be_bits_toaltstack_def bind_eq_Some_conv k)
  let ?ls = "map scriptnum (mixed (replicate k (limb_size b)) x)" and ?q = "for_range 0 k (\<lambda>i. [pushn (k - 1 - i), OP_ROLL] @ l)"
  have "exec vm (z @ p) (State (big_items b x @ s) al) =
      exec vm (pushn k # OP_ROLL # g @ ?q @ p)
        (State (?ls @ scriptnum (x div 2 ^ (k * limb_size b) mod 2 ^ head b) # s) al)"
    by (simp add: z b(4) k)
  also have "\<dots> = exec vm (g @ ?q @ p) (State (scriptnum (x div 2 ^ (k * limb_size b) mod 2 ^ head b) # ?ls @ s) al)"
    by (rule exec_roll_at) (use assms(2) k_def in simp_all)
  also have "\<dots> = exec vm (?q @ p) (State (?ls @ s) (bit_items (head b) (x div 2 ^ (k * limb_size b)) @ al))"
    using exec_limb_to_be_bits_toaltstack [OF g b(3), of "x div 2 ^ (k * limb_size b) mod 2 ^ head b"] by (simp add: bit_items_mod)
  also have "\<dots> = exec vm p (State s (bit_items (k * limb_size b) x @ bit_items (head b) (x div 2 ^ (k * limb_size b)) @ al))"
    by (rule exec_be_alt_loop [OF l b(2)]) (use assms(2) k_def in simp_all)
  finally show ?thesis using b(1) bit_items_add [of "k * limb_size b" "head b" x] by (simp add: k)
qed

lemma exec_convert_to_le_bits_toaltstack:
  assumes "bigint_ok b" "convert_to_le_bits_toaltstack b = Some z"
  shows "exec vm (z @ p) (State (big_items b x @ s) al) = exec vm p (State s (rev (bit_items (n_bits b) x) @ al))"
proof -
  note b = bits_of_integer [OF assms(1)]
  let ?k = "n_limbs b - 1"
  obtain g l where g: "limb_to_le_bits_toaltstack (head b) = Some g" and l: "limb_to_le_bits_toaltstack (limb_size b) = Some l"
    and z: "z = for_range 0 ?k (\<lambda>_. l) @ g"
    using assms(2) head_bits [OF assms(1)] by (auto simp: convert_to_le_bits_toaltstack_def bind_eq_Some_conv)
  show ?thesis
    using exec_le_alt_loop [OF l b(2)] exec_limb_to_le_bits_toaltstack [OF g b(3), of "x div 2 ^ (?k * limb_size b) mod 2 ^ head b"]
      bit_items_add [of "?k * limb_size b" "head b" x] b(1)
    by (simp add: z b(4) for_range_const bit_items_mod)
qed

lemma exec_convert_to_le_bits:
  assumes "bigint_ok b" "convert_to_le_bits b = Some z"
  shows "exec vm (z @ p) (State (big_items b x @ s) al) = exec vm p (State (bit_items (n_bits b) x @ s) al)"
proof -
  note b = bits_of_integer [OF assms(1)]
  define k where "k = n_limbs b - 1"
  obtain g l where g: "limb_to_le_bits (head b) = Some g" and l: "limb_to_le_bits (limb_size b) = Some l"
    and z: "z = for_range 0 k (\<lambda>_. [OP_TOALTSTACK]) @ g @ for_range 0 k (\<lambda>_. [OP_FROMALTSTACK] @ l)"
    using assms(2) head_bits [OF assms(1)] by (auto simp: convert_to_le_bits_def bind_eq_Some_conv k_def)
  show ?thesis
    using exec_to_alt [of vm "map scriptnum (mixed (replicate k (limb_size b)) x)"]
      exec_limb_to_le_bits [OF g b(3), of "x div 2 ^ (k * limb_size b) mod 2 ^ head b"] exec_le_loop [OF l b(2), of vm k _ "head b" x] b(1)
    by (simp add: z b(4) k_def [symmetric] for_range_const bit_items_mod)
qed

lemma exec_convert_to_be_bits:
  assumes "bigint_ok b" "n_bits b < 2147483648" "convert_to_be_bits b = Some z"
  shows "exec vm (z @ p) (State (big_items b x @ s) al) = exec vm p (State (rev (bit_items (n_bits b) x) @ s) al)"
proof -
  note b = bits_of_integer [OF assms(1)]
  define k where "k = n_limbs b - 1"
  obtain g l where g: "limb_to_be_bits (head b) = Some g" and l: "limb_to_be_bits (limb_size b) = Some l"
    and z: "z = for_range 0 (0 + k) (\<lambda>i. l @ [pushn (limb_size b * (i + 1)), OP_ROLL]) @ g"
    using assms(3) head_bits [OF assms(1)] by (auto simp: convert_to_be_bits_def bind_eq_Some_conv k_def)
  have ne: "mixed (sizes b) x \<noteq> []" by (cases "mixed (sizes b) x") (simp_all add: sizes_def mixed_append)
  have big: "big_items b x = scriptnum (hd (mixed (sizes b) x)) # [] @ map scriptnum (tl (mixed (sizes b) x))"
    using ne by (cases "mixed (sizes b) x") (simp_all add: big_items_def limbs_def)
  have small: "limb_size b * (0 + k) < 2147483648" using b(1) assms(2) by (simp add: k_def mult.commute)
  show ?thesis
    using exec_be_loop [OF l g b(2,3), of "[]" 0 k vm p x s al] small b(1) big
    by (simp add: z sizes_def k_def [symmetric])
qed

section \<open>The product\<close>

lemma exec_op_ndup: "exec vm (op_ndup n @ p) (State (x # s) al) = exec vm p (State (replicate (Suc n) x @ s) al)"
proof (cases "n \<le> 3")
  case True
  then consider "n = 0" | "n = 1" | "n = 2" | "n = 3" by linarith
  then show ?thesis by cases (simp_all add: op_ndup_def exec_simps numeral_eq_Suc One_nat_def)
next
  case False
  define t r where "t = (n - 3) div 3" and "r = (n - 3) mod 3"
  have r: "r < 3" and n: "n = 3 * t + (r + 3)" using False by (simp_all add: t_def r_def)
  have triples: "exec vm (repeat_script k [OP_3DUP] @ q) (State (x # x # x # u) al) =
      exec vm q (State (replicate (3 * k + 3) x @ u) al)" for k q u
  proof (induction k arbitrary: u)
    case 0
    then show ?case by (simp add: numeral_eq_Suc)
  next
    case (Suc k)
    have "replicate (6 + 3 * k) x = replicate (3 * k + 3) x @ replicate 3 x"
      by (simp add: add.commute flip: replicate_add)
    moreover have "replicate 3 x = [x, x, x]" by (simp add: numeral_eq_Suc)
    ultimately show ?case using Suc [of "x # x # x # u"] by (simp add: repeat_script_Suc exec_simps)
  qed
  from r consider "r = 0" | "r = 1" | "r = 2" by linarith
  then have rest: "exec vm ((if r = 2 then [OP_2DUP] else if r = 1 then [OP_DUP] else []) @ p) (State (replicate (3 * t + 3) x @ x # s) al) =
      exec vm p (State (replicate r x @ replicate (3 * t + 3) x @ x # s) al)"
    by cases (simp_all add: exec_simps numeral_eq_Suc One_nat_def)
  have "replicate r x @ replicate (3 * t + 3) x @ [x] = replicate (Suc n) x"
    unfolding n using replicate_append_same [of "r + (3 * t + 3)" x]
    by (simp add: replicate_add [symmetric] add_ac replicate_Suc [symmetric] del: replicate_Suc flip: append_assoc)
  then have all: "replicate r x @ replicate (3 * t + 3) x @ x # s = replicate (Suc n) x @ s"
    by (metis append.assoc append_Cons append_Nil)
  show ?thesis
    using False triples [of t _ "x # s"] rest
    by (simp add: op_ndup_def Let_def t_def [symmetric] r_def [symmetric] exec_simps for_range_const all)
qed

lemma exec_push_zero: "bigint_ok b \<Longrightarrow> exec vm (push_to_stack 0 (n_limbs b) @ p) (State s al) = exec vm p (State (big_items b 0 @ s) al)"
  using exec_op_ndup [of vm "n_limbs b - 1" p "scriptnum 0" s al] bigint_okD(3) [of b] replicate_Suc [of "n_limbs b - 1" "scriptnum 0"]
  by (simp add: push_to_stack_def exec_pushn big_items_def limbs_def mixed_zeros del: replicate_Suc)

lemma exec_mul_loop:
  assumes "bigint_ok b" "n_limbs b * 6 < 2147483648" "add_bigints b 1 0 = Some adder"
  shows "exec vm (repeat_script k (double_bigint b 1 @ roll_bigint b 1 @ [OP_FROMALTSTACK, OP_IF (copy_bigint b 1 @ adder)]) @ p)
      (State (bigs b [acc, a] @ s) (bit_items k y @ al)) =
    exec vm p (State (bigs b [acc + 2 * a * (y mod 2 ^ k), a * 2 ^ k] @ s) al)"
proof (induction k arbitrary: acc a y)
  case (Suc k)
  have small: "small_bigs b [u, v]" "small_bigs b [u, v, w]" for u v w
    using assms(2) by (simp_all add: small_bigs_def)
  have "exec vm (repeat_script (Suc k) (double_bigint b 1 @ roll_bigint b 1 @ [OP_FROMALTSTACK, OP_IF (copy_bigint b 1 @ adder)]) @ p)
      (State (bigs b [acc, a] @ s) (bit_items (Suc k) y @ al)) =
      exec vm (repeat_script k (double_bigint b 1 @ roll_bigint b 1 @ [OP_FROMALTSTACK, OP_IF (copy_bigint b 1 @ adder)]) @ p)
      (State (bigs b [acc + 2 * a * (y mod 2), 2 * a] @ s) (bit_items k (y div 2) @ al))"
    using exec_double_bigint [OF assms(1), of 1 "[acc, a]"] exec_roll_bigint [OF assms(1), of 1 "[2 * a, acc]"]
      exec_copy_bigint [OF assms(1), of 1 "[acc, 2 * a]"] exec_add_bigints [OF assms(1), of 1 0 "[2 * a, acc, 2 * a]"] assms(3) small
    by (cases "even y") (simp_all add: repeat_script_Suc bit_items_Suc exec_simps mod2_eq_if scriptnum_bits)
  also have "\<dots> = exec vm p (State (bigs b [acc + 2 * a * (y mod 2) + 2 * (2 * a) * (y div 2 mod 2 ^ k), 2 * a * 2 ^ k] @ s) al)"
    by (rule Suc.IH)
  also have "acc + 2 * a * (y mod 2) + 2 * (2 * a) * (y div 2 mod 2 ^ k) = acc + 2 * a * (y mod 2 ^ Suc k)"
    by (simp add: zmod_zmult2_eq algebra_simps)
  finally show ?case by (simp add: mult.assoc mult.left_commute [of 2 a])
qed simp

lemma exec_mul_bigints:
  assumes "bigint_ok b" "n_limbs b * 6 < 2147483648" "mul_bigints b = Some z"
  shows "exec vm (z @ p) (State (bigs b [y, x] @ s) al) = exec vm p (State (big_items b (x * y) @ s) al)"
proof -
  note b = bigint_okD [OF assms(1)]
  obtain bits adder where bits: "convert_to_be_bits_toaltstack b = Some bits" and adder: "add_bigints b 1 0 = Some adder"
    and z: "z = bits @ [OP_FROMALTSTACK, OP_IF_ELSE (copy_bigint b 0) (push_to_stack 0 (n_limbs b))] @
       for_range 1 (n_bits b - 1) (\<lambda>_. double_bigint b 1 @ roll_bigint b 1 @ [OP_FROMALTSTACK, OP_IF (copy_bigint b 1 @ adder)]) @
       double_bigint b 1 @ [OP_FROMALTSTACK, OP_IF_ELSE adder (drop_bigint b)]"
    using assms(3) by (auto simp: mul_bigints_def bind_eq_Some_conv)
  define k where "k = n_bits b - 2"
  have "limb_size b \<le> (n_limbs b - 1) * limb_size b" using mult_le_mono1 [of 1 "n_limbs b - 1" "limb_size b"] b(3) by linarith
  then have "2 \<le> n_bits b" using b by linarith
  then have n: "n_bits b = Suc (Suc k)" "n_bits b - 1 - 1 = k" by (simp_all add: k_def)
  have small: "small_bigs b [u]" "small_bigs b [u, v]" "n_limbs b < 2147483648" for u v
    using assms(2) by (simp_all add: small_bigs_def)
  define y' where "y' = y div 2"
  have ys: "bit_items (n_bits b) y = scriptnum (y mod 2) # bit_items k y' @ [scriptnum (y' div 2 ^ k mod 2)]"
    unfolding n(1) bit_items_Suc [of "Suc k"] y'_def [symmetric] by (simp only: bit_items_snoc)
  have y01: "even y \<Longrightarrow> y mod 2 = 0" "odd y \<Longrightarrow> y mod 2 = 1" by (simp_all add: mod2_eq_if)
  let ?loop = "repeat_script k (double_bigint b 1 @ roll_bigint b 1 @ [OP_FROMALTSTACK, OP_IF (copy_bigint b 1 @ adder)])"
  let ?tail = "double_bigint b 1 @ OP_FROMALTSTACK # OP_IF_ELSE adder (drop_bigint b) # p"
  have "exec vm (z @ p) (State (bigs b [y, x] @ s) al) =
      exec vm (OP_FROMALTSTACK # OP_IF_ELSE (copy_bigint b 0) (push_to_stack 0 (n_limbs b)) # ?loop @ ?tail)
        (State (bigs b [x] @ s) (bit_items (n_bits b) y @ al))"
    using exec_convert_to_be_bits_toaltstack [OF assms(1) small(3) bits, of vm _ y "bigs b [x] @ s" al]
    by (simp add: z for_range_const k_def)
  also have "\<dots> = exec vm (?loop @ ?tail) (State (bigs b [x * (y mod 2), x] @ s) (bit_items k y' @ scriptnum (y' div 2 ^ k mod 2) # al))"
    using exec_copy_bigint [OF assms(1), of 0 "[x]"] small exec_push_zero [OF assms(1)]
    unfolding ys by (cases "even y") (simp_all add: exec_simps y01 scriptnum_bits)
  also have "\<dots> = exec vm ?tail
      (State (bigs b [x * (y mod 2) + 2 * x * (y' mod 2 ^ k), x * 2 ^ k] @ s) (scriptnum (y' div 2 ^ k mod 2) # al))"
    by (rule exec_mul_loop [OF assms(1,2) adder])
  also have "\<dots> = exec vm p (State (big_items b (x * (y mod 2) + 2 * x * (y' mod 2 ^ k) + 2 * (x * 2 ^ k) * (y' div 2 ^ k mod 2)) @ s) al)"
    using exec_double_bigint [OF assms(1), of 1 "[x * (y mod 2) + 2 * x * (y' mod 2 ^ k), x * 2 ^ k]"] small
      exec_add_bigints [OF assms(1), of 1 0 "[2 * (x * 2 ^ k), x * (y mod 2) + 2 * x * (y' mod 2 ^ k)]"] adder
      exec_drop_bigint [OF assms(1)]
    by (cases "even (y' div 2 ^ k)") (simp_all add: exec_simps mod2_eq_if scriptnum_bits)
  also have "x * (y mod 2) + 2 * x * (y' mod 2 ^ k) + 2 * (x * 2 ^ k) * (y' div 2 ^ k mod 2) = x * (y mod 2 ^ n_bits b)"
  proof -
    have "y mod (2 * 2 ^ Suc k) = 2 * (y' mod 2 ^ Suc k) + y mod 2" unfolding y'_def by (rule zmod_zmult2_eq) simp
    then have "y mod 2 ^ n_bits b = y mod 2 + 2 * (y' mod 2 ^ Suc k)" by (simp add: n(1))
    moreover have "y' mod 2 ^ Suc k = y' mod 2 ^ k + 2 ^ k * (y' div 2 ^ k mod 2)"
      using zmod_zmult2_eq [of 2 y' "2 ^ k"] by (simp add: mult.commute)
    ultimately show ?thesis by (simp add: algebra_simps)
  qed
  also have "big_items b (x * (y mod 2 ^ n_bits b)) = big_items b (x * y)"
    using big_items_mod [OF assms(1), of "x * (y mod 2 ^ n_bits b)"] big_items_mod [OF assms(1), of "x * y"]
    by (simp add: mod_mult_right_eq)
  finally show ?thesis .
qed

lemma limb_bits_defined:
  "0 < n \<Longrightarrow> \<exists>z. limb_to_be_bits n = Some z" "0 < n \<Longrightarrow> \<exists>z. limb_to_be_bits_toaltstack n = Some z"
  "0 < n \<Longrightarrow> \<exists>z. limb_to_le_bits n = Some z" "0 < n \<Longrightarrow> \<exists>z. limb_to_le_bits_toaltstack n = Some z"
  by (simp_all add: limb_to_be_bits_def limb_to_be_bits_toaltstack_def limb_to_le_bits_def limb_to_le_bits_toaltstack_def)

text \<open>C20. The script for a product is generated without a panic, removes both factors, and leaves the limbs of their
  product modulo two to the number of bits.\<close>

theorem bigints_multiplied:
  assumes "bigint_ok b" "n_limbs b * 6 < 2147483648"
  shows "computes b [y, x] (mul_bigints b) ((x * y) mod 2 ^ n_bits b) []"
proof -
  note b = bigint_okD [OF assms(1)]
  obtain zip where "zip_bigints b 1 0 = Some zip" using zip_bigints_defined [OF assms(1), of 1 0] by auto
  then obtain z where z: "mul_bigints b = Some z"
    using limb_bits_defined(2) [OF b(1)] limb_bits_defined(2) [OF b(4)] head_bits [OF assms(1)]
    by (auto simp: mul_bigints_def convert_to_be_bits_toaltstack_def add_bigints_def)
  show ?thesis using exec_mul_bigints [OF assms z] by (simp add: computes_def z big_items_mod [OF assms(1)])
qed

lemma bigints_multiplied_witness:
  "computes u64_limbs [4294967296, 4294967297] (mul_bigints u64_limbs) 4294967296 []"
  using bigints_multiplied [of u64_limbs 4294967296 4294967297]
  by (simp add: bigint_ok_def n_limbs_def u64_limbs_def)

end
