(* ===== verification/Bigint_Transform.thy ===== *)
theory Bigint_Transform
  imports Bigint_Std
begin

text \<open>
  The change of the size of limbs in \<open>bitvm/src/bigint/std.rs\<close>: the plan of windows that \<open>get_transform_steps\<close> computes
  with two nested loops, and the script of \<open>transform_limbsize\<close> that follows it. The loops are modelled as they are,
  \<open>None\<close> standing for a panic and for a loop that does not end; \<open>windows\<close> is the plan by recursion on the two lists
  of sizes, the most significant first, and \<open>transform_plan\<close> shows that the loops end with it.
\<close>

section \<open>The plan\<close>

record transform_step =
  current_limb_remaining_bits :: nat
  extract_window :: nat
  drop_currentlimb :: bool
  initiate_targetlimb :: bool

text \<open>The inner loop, until the target limb is full. The sizes of the limbs left grow towards the end of the list.\<close>

function fill_target :: "nat list \<Rightarrow> nat \<Rightarrow> bool \<Rightarrow> transform_step list \<Rightarrow> (nat list \<times> transform_step list) option" where
  "fill_target limb_sizes target first steps =
     (if target = 0 then Some (limb_sizes, steps)
      else if limb_sizes = [] then None
      else let remaining = last limb_sizes in
        if remaining < target then
          fill_target (butlast limb_sizes) (target - remaining) False
            (steps @ [\<lparr>current_limb_remaining_bits = remaining, extract_window = remaining, drop_currentlimb = True, initiate_targetlimb = first\<rparr>])
        else if remaining = target then
          fill_target (butlast limb_sizes) 0 False
            (steps @ [\<lparr>current_limb_remaining_bits = remaining, extract_window = target, drop_currentlimb = True, initiate_targetlimb = first\<rparr>])
        else
          fill_target (butlast limb_sizes @ [remaining - target]) 0 False
            (steps @ [\<lparr>current_limb_remaining_bits = remaining, extract_window = target, drop_currentlimb = False, initiate_targetlimb = first\<rparr>]))"
  by pat_completeness auto
termination by (relation "measure (\<lambda>(limb_sizes, target, _). length limb_sizes + (if target = 0 then 0 else 2))") auto

declare fill_target.simps [simp del]

partial_function (option) transform_loop :: "nat list \<Rightarrow> nat \<Rightarrow> nat \<Rightarrow> transform_step list \<Rightarrow> transform_step list option" where
  "transform_loop limb_sizes target t steps =
     (if limb_sizes = [] then Some steps
      else fill_target limb_sizes target True steps \<bind> (\<lambda>(limb_sizes', steps'). transform_loop limb_sizes' t t steps'))"

definition div_ceil :: "nat \<Rightarrow> nat \<Rightarrow> nat option" where
  "div_ceil a c = (if c = 0 then None else Some ((a + c - 1) div c))"

definition get_transform_steps :: "bigint_type \<Rightarrow> nat \<Rightarrow> nat \<Rightarrow> transform_step list option" where
  "get_transform_steps b source target = do {
     target_n_limbs \<leftarrow> div_ceil (n_bits b) target;
     target_above \<leftarrow> checked_sub target_n_limbs 1;
     target_bits \<leftarrow> checked_sub (n_bits b) (target_above * target);
     source_n_limbs \<leftarrow> div_ceil (n_bits b) source;
     source_above \<leftarrow> checked_sub source_n_limbs 1;
     source_head \<leftarrow> checked_sub (n_bits b) (source_above * source);
     transform_loop (replicate source_above source @ [source_head]) target_bits target [] }"

section \<open>The script\<close>

definition extract_digits :: "nat \<Rightarrow> nat \<Rightarrow> script option" where
  "extract_digits start window = do {
     rust_assert (start < 32 \<and> start > 0);
     rust_assert (start \<ge> window);
     Some ([push 0, OP_SWAP] @ for_range 0 window (\<lambda>i.
       [OP_TUCK, push (2 ^ (start - i - 1)), OP_GREATERTHANOREQUAL, OP_TUCK, OP_ADD] @
       (if i < window - 1 then nmul 2 else []) @ [OP_ROT, OP_ROT, OP_IF [push (2 ^ (start - i - 1)), OP_SUB]])) }"

text \<open>The script of one step; the next limb is fetched after all but the last.\<close>

definition transform_step_script :: "transform_step \<Rightarrow> bool \<Rightarrow> script option" where
  "transform_step_script st is_last = do {
     digits \<leftarrow> extract_digits (current_limb_remaining_bits st) (extract_window st);
     Some (digits @
       (if \<not> initiate_targetlimb st
        then [OP_ROT] @ for_range 0 (extract_window st) (\<lambda>_. [OP_DUP, OP_ADD]) @ [OP_ROT, OP_ADD, OP_SWAP] else []) @
       (if drop_currentlimb st then [OP_DROP] @ (if \<not> is_last then [OP_FROMALTSTACK] else []) else [])) }"

fun transform_script :: "transform_step list \<Rightarrow> script option" where
  "transform_script [] = Some []"
| "transform_script (st # sts) = do {
     p \<leftarrow> transform_step_script st (sts = []);
     q \<leftarrow> transform_script sts;
     Some (p @ q) }"

definition transform_limbsize :: "bigint_type \<Rightarrow> nat \<Rightarrow> nat \<Rightarrow> script option" where
  "transform_limbsize b source target = do {
     rust_assert (source < 32 \<and> source > 0);
     rust_assert (target < 32 \<and> target > 0);
     rust_assert (source \<le> n_bits b);
     rust_assert (target \<le> n_bits b);
     rust_assert (n_bits b \<ge> 32);
     if source = target then Some []
     else do {
       steps \<leftarrow> get_transform_steps b source target;
       source_n_limbs \<leftarrow> div_ceil (n_bits b) source;
       above \<leftarrow> checked_sub source_n_limbs 1;
       body \<leftarrow> transform_script steps;
       Some (for_range 0 above (\<lambda>_. [OP_TOALTSTACK]) @ body) } }"

section \<open>The plan by recursion\<close>

fun windows :: "nat list \<Rightarrow> nat list \<Rightarrow> bool \<Rightarrow> transform_step list" where
  "windows (r # rs) (w # ws) first =
     (if r < w then
        \<lparr>current_limb_remaining_bits = r, extract_window = r, drop_currentlimb = True, initiate_targetlimb = first\<rparr> #
        windows rs ((w - r) # ws) False
      else if r = w then
        \<lparr>current_limb_remaining_bits = r, extract_window = w, drop_currentlimb = True, initiate_targetlimb = first\<rparr> #
        windows rs ws True
      else
        \<lparr>current_limb_remaining_bits = r, extract_window = w, drop_currentlimb = False, initiate_targetlimb = first\<rparr> #
        windows ((r - w) # rs) ws True)"
| "windows _ _ _ = []"

text \<open>The sizes of source and target cover the same bits, and none is zero.\<close>

definition covers :: "nat list \<Rightarrow> nat list \<Rightarrow> bool" where
  "covers rs ws \<longleftrightarrow> sum_list rs = sum_list ws \<and> 0 \<notin> set rs \<and> 0 \<notin> set ws"

lemma covers_Nil [simp]: "covers [] ws \<longleftrightarrow> ws = []" "covers rs [] \<longleftrightarrow> rs = []"
  by (cases ws; force simp: covers_def) (cases rs; force simp: covers_def)

lemma covers_Cons:
  assumes "covers (r # rs) (w # ws)"
  shows "r < w \<Longrightarrow> covers rs ((w - r) # ws) \<and> rs \<noteq> []"
    "r = w \<Longrightarrow> covers rs ws"
    "w < r \<Longrightarrow> covers ((r - w) # rs) ws \<and> ws \<noteq> []"
  using assms by (auto simp: covers_def)

text \<open>The inner loop runs to the end of the first target limb.\<close>

lemma fill_target_windows:
  assumes "covers rs (w # ws)"
  shows "\<exists>rs' st. fill_target (rev rs) w first steps = Some (rev rs', steps @ st) \<and> covers rs' ws \<and>
    windows rs (w # ws) first = st @ windows rs' ws True"
  using assms
proof (induction rs arbitrary: w first steps)
  case Nil
  then show ?case by simp
next
  case (Cons r rs)
  note c = covers_Cons [OF Cons.prems]
  have w: "0 < w" using Cons.prems by (auto simp: covers_def)
  have full: "fill_target limb_sizes 0 f s = Some (limb_sizes, s)" for limb_sizes f s by (simp add: fill_target.simps)
  consider "r < w" | "r = w" | "w < r" by linarith
  then show ?case
  proof cases
    case 1
    obtain rs' st where ih: "fill_target (rev rs) (w - r) False (steps @ [\<lparr>current_limb_remaining_bits = r, extract_window = r,
        drop_currentlimb = True, initiate_targetlimb = first\<rparr>]) = Some (rev rs', (steps @ [\<lparr>current_limb_remaining_bits = r,
        extract_window = r, drop_currentlimb = True, initiate_targetlimb = first\<rparr>]) @ st)"
      "covers rs' ws" "windows rs ((w - r) # ws) False = st @ windows rs' ws True"
      using Cons.IH [of "w - r"] c(1) [OF 1] by blast
    show ?thesis using 1 w ih
      by (intro exI [of _ rs'] exI [of _ "_ # st"]) (subst fill_target.simps, simp)
  next
    case 2
    show ?thesis using 2 w c(2)
      by (intro exI [of _ rs] exI [of _ "[_]"]) (subst fill_target.simps, simp add: full)
  next
    case 3
    show ?thesis using 3 w c(3)
      by (intro exI [of _ "(r - w) # rs"] exI [of _ "[_]"]) (subst fill_target.simps, simp add: full)
  qed
qed

lemma transform_loop_windows:
  assumes "covers rs (w # replicate n t)"
  shows "transform_loop (rev rs) w t steps = Some (steps @ windows rs (w # replicate n t) True)"
  using assms
proof (induction n arbitrary: rs w steps)
  case 0
  obtain rs' st where f: "fill_target (rev rs) w True steps = Some (rev rs', steps @ st)" "covers rs' []"
      "windows rs [w] True = st @ windows rs' [] True"
    using fill_target_windows [of rs w "[]"] 0 by (metis replicate_0)
  have ne: "rs \<noteq> []" using 0 by auto
  have "rs' = []" using f(2) by simp
  then show ?case using f ne by (subst transform_loop.simps) (simp add: transform_loop.simps [of "[]"])
next
  case (Suc n)
  obtain rs' st where f: "fill_target (rev rs) w True steps = Some (rev rs', steps @ st)" "covers rs' (replicate (Suc n) t)"
      "windows rs (w # replicate (Suc n) t) True = st @ windows rs' (replicate (Suc n) t) True"
    using fill_target_windows [OF Suc.prems] by blast
  have ne: "rs \<noteq> []" using Suc.prems by auto
  show ?case using f ne Suc.IH [of rs' t] by (subst transform_loop.simps) simp
qed

section \<open>Extracting a window\<close>

lemma exec_extract_step:
  assumes "num_ok m" "0 \<le> u" "u < 2 * m" "num_ok u" "0 \<le> c" "num_ok (c + 1)" "twice \<Longrightarrow> num_ok (2 * (c + 1))"
  shows "exec vm ([OP_TUCK, push m, OP_GREATERTHANOREQUAL, OP_TUCK, OP_ADD] @ (if twice then nmul 2 else []) @
      [OP_ROT, OP_ROT, OP_IF [push m, OP_SUB]] @ p) (State (scriptnum u # scriptnum c # s) al) =
    exec vm p (State (scriptnum (u mod m) # scriptnum ((if twice then 2 else 1) * (c + u div m)) # s) al)"
proof -
  define d where "d = c + of_bool (m \<le> u)"
  have ok: "num_ok c" "num_ok (of_bool (m \<le> u))" "twice \<Longrightarrow> num_ok (2 * d)" "0 \<le> d"
    using assms(5-7) by (auto simp: num_ok_def d_def)
  have nm: "exec vm ((if twice then nmul 2 else []) @ q) (State (scriptnum d # t) al) =
      exec vm q (State (scriptnum ((if twice then 2 else 1) * d) # t) al)" for q t
    using exec_nmul [of d 2] ok by simp
  have "exec vm ([OP_TUCK, push m, OP_GREATERTHANOREQUAL, OP_TUCK, OP_ADD] @ (if twice then nmul 2 else []) @
      [OP_ROT, OP_ROT, OP_IF [push m, OP_SUB]] @ p) (State (scriptnum u # scriptnum c # s) al) =
    exec vm ((if twice then nmul 2 else []) @ [OP_ROT, OP_ROT, OP_IF [push m, OP_SUB]] @ p)
      (State (scriptnum d # bool_item (m \<le> u) # scriptnum u # s) al)"
    using exec_num_ops(5) [OF ok(1,2)] assms(1,4) by (simp add: exec_simps d_def scriptnum_of_bool)
  also have "\<dots> = exec vm p (State (scriptnum (u mod m) # scriptnum ((if twice then 2 else 1) * (c + u div m)) # s) al)"
    unfolding nm one_carry [OF assms(2,3)] d_def [symmetric]
    using assms(1,4) by (cases "m \<le> u") (simp_all add: exec_simps)
  finally show ?thesis .
qed

lemma div_split: "(u :: int) div 2 ^ j = u div 2 ^ (j + k) * 2 ^ k + u mod 2 ^ (j + k) div 2 ^ j"
proof -
  have "u mod 2 ^ (j + k) div 2 ^ j = u div 2 ^ j mod 2 ^ k" by (simp add: power_add zmod_zmult2_eq)
  moreover have "u div 2 ^ (j + k) = u div 2 ^ j div 2 ^ k" by (simp add: power_add zdiv_zmult2_eq)
  ultimately show ?thesis by (simp only: div_mult_mod_eq)
qed

lemma exec_window_loop:
  assumes "i + Suc k = window" "j + Suc k = start - i" "j + Suc k \<le> 31" "0 \<le> u" "u < 2 ^ (j + Suc k)"
    and "0 \<le> c" "(c + 2) * 2 ^ k \<le> 2147483648"
  shows "exec vm (for_range i window (\<lambda>i. [OP_TUCK, push (2 ^ (start - i - 1)), OP_GREATERTHANOREQUAL, OP_TUCK, OP_ADD] @
       (if i < window - 1 then nmul 2 else []) @ [OP_ROT, OP_ROT, OP_IF [push (2 ^ (start - i - 1)), OP_SUB]]) @ p)
      (State (scriptnum u # scriptnum c # s) al) =
    exec vm p (State (scriptnum (u mod 2 ^ j) # scriptnum (c * 2 ^ k + u div 2 ^ j) # s) al)"
    (is "exec vm (for_range i window ?body @ p) _ = _")
  using assms
proof (induction k arbitrary: i u c)
  case 0
  have pos: "start - i - 1 = j" "for_range i window ?body = ?body i" "i < window - 1 \<longleftrightarrow> False"
    using 0 by (simp_all add: for_range_first)
  have "u < 2 * 2 ^ j" using 0(2,5) by (metis power_Suc add_Suc_right add_0_right)
  moreover have m: "(2 :: int) ^ j \<le> 1073741824" using power_le_30 [of j] 0 by simp
  ultimately have u: "u < 2 * 2 ^ j" "u < 2147483648" by linarith+
  have ok: "num_ok (2 ^ j)" "num_ok u" "num_ok (c + 1)"
    using 0 m u num_ok_power [of j] by (simp_all add: num_ok_def)
  show ?case using exec_extract_step [of "2 ^ j" u c False vm p s al] 0 ok u
    unfolding pos by simp
next
  case (Suc k)
  have pos: "start - i - 1 = j + Suc k" "for_range i window ?body = ?body i @ for_range (Suc i) window ?body" "i < window - 1"
    using Suc.prems(1,2) by (simp_all add: for_range_first)
  define m :: int where "m = 2 ^ (j + Suc k)"
  have m: "m \<le> 1073741824" "u < 2 * m" using power_le_30 [of "j + Suc k"] Suc.prems(3,5) by (simp_all add: m_def)
  have "(c + 2) * 2 \<le> (c + 2) * 2 ^ Suc k"
    using Suc.prems(6) one_le_power [of "2 :: int" k] by (intro mult_left_mono) simp_all
  then have c: "(c + 2) * 2 \<le> 2147483648" using Suc.prems(7) by linarith
  have ok: "num_ok m" "num_ok u" "num_ok (c + 1)" "num_ok (2 * (c + 1))"
    using Suc.prems(3,4,6) m c num_ok_power [of "j + Suc k"] by (simp_all add: num_ok_def m_def)
  have q: "0 \<le> u div m" "u div m \<le> 1" using one_carry(1) [OF Suc.prems(4) m(2)] by simp_all
  have u': "0 \<le> u mod m" "u mod m < 2 ^ (j + Suc k)" by (simp_all add: m_def)
  have "(2 * (c + u div m) + 2) * 2 ^ k \<le> (2 * (c + 1) + 2) * 2 ^ k"
    using q by (intro mult_right_mono) simp_all
  also have "\<dots> = (c + 2) * 2 ^ Suc k" by simp
  finally have c': "(2 * (c + u div m) + 2) * 2 ^ k \<le> 2147483648" using Suc.prems(7) by linarith
  have "exec vm (for_range i window ?body @ p) (State (scriptnum u # scriptnum c # s) al) =
      exec vm (for_range (Suc i) window ?body @ p) (State (scriptnum (u mod m) # scriptnum (2 * (c + u div m)) # s) al)"
    unfolding pos(2) append_assoc unfolding pos(1) m_def [symmetric] eqTrueI [OF pos(3)]
    using exec_extract_step [of m u c True vm "for_range (Suc i) window ?body @ p" s al] Suc.prems(4,6) ok m
    by (simp only: if_True append_assoc simp_thms)
  also have "\<dots> = exec vm p (State (scriptnum (u mod m mod 2 ^ j) # scriptnum (2 * (c + u div m) * 2 ^ k + u mod m div 2 ^ j) # s) al)"
    by (rule Suc.IH) (use Suc.prems u' q c' in simp_all)
  also have "u mod m mod 2 ^ j = u mod 2 ^ j" unfolding m_def by (rule mod_mod_cancel) (simp add: power_add)
  also have "2 * (c + u div m) * 2 ^ k + u mod m div 2 ^ j = c * 2 ^ Suc k + u div 2 ^ j"
    unfolding m_def using div_split [of u j "Suc k"] by (simp add: algebra_simps)
  finally show ?case .
qed

lemma exec_extract_digits:
  assumes "extract_digits start window = Some z" "0 < window" "0 \<le> u" "u < 2 ^ start"
  shows "exec vm (z @ p) (State (scriptnum u # s) al) =
    exec vm p (State (scriptnum (u mod 2 ^ (start - window)) # scriptnum (u div 2 ^ (start - window)) # s) al)"
proof -
  obtain k where k: "window = Suc k" using assms(2) by (metis gr0_implies_Suc)
  have b: "start < 32" "window \<le> start" using assms(1) by (simp_all add: extract_digits_def rust_assert_bind_Some_iff)
  define j where "j = start - window"
  have "(0 + 2) * (2 :: int) ^ k \<le> 2 * 1073741824" using power_le_30 [of k] b k by simp
  then show ?thesis
    using exec_window_loop [of 0 k window j start u 0 vm p s al] assms b k
    by (auto simp: extract_digits_def rust_assert_bind_Some_iff exec_simps j_def)
qed

section \<open>Running the script\<close>

text \<open>The digits of a number for sizes given from the most significant one.\<close>

fun digits :: "nat list \<Rightarrow> int \<Rightarrow> int list" where
  "digits [] x = []"
| "digits (w # ws) x = x div 2 ^ sum_list ws mod 2 ^ w # digits ws x"

lemma digits_mixed: "digits ws x = rev (mixed (rev ws) x)"
  by (induction ws) (simp_all add: mixed_append)

text \<open>A window of \<open>r\<close> bits taken off a digit of \<open>w\<close> bits.\<close>

lemma digit_split:
  assumes "r \<le> w"
  shows "x div 2 ^ n mod 2 ^ w = (x div 2 ^ (n + (w - r)) mod 2 ^ r) * 2 ^ (w - r) + x div 2 ^ n mod 2 ^ (w - r)"
    "x div 2 ^ n mod 2 ^ w div 2 ^ (w - r) = x div 2 ^ (n + (w - r)) mod (2 :: int) ^ r"
    "x div 2 ^ n mod 2 ^ w mod 2 ^ (w - r) = x div 2 ^ n mod (2 :: int) ^ (w - r)"
proof -
  define y where "y = x div 2 ^ n"
  have w: "(2 :: int) ^ w = 2 ^ (w - r) * 2 ^ r" using assms by (simp flip: power_add)
  have d: "x div 2 ^ (n + (w - r)) = y div 2 ^ (w - r)" by (simp add: y_def power_add zdiv_zmult2_eq)
  show "x div 2 ^ n mod 2 ^ w = (x div 2 ^ (n + (w - r)) mod 2 ^ r) * 2 ^ (w - r) + x div 2 ^ n mod 2 ^ (w - r)"
    unfolding d unfolding w y_def [symmetric] by (simp add: zmod_zmult2_eq)
  show "x div 2 ^ n mod 2 ^ w div 2 ^ (w - r) = x div 2 ^ (n + (w - r)) mod 2 ^ r"
    unfolding d unfolding w y_def [symmetric] by (simp add: zmod_zmult2_eq)
  show "x div 2 ^ n mod 2 ^ w mod 2 ^ (w - r) = x div 2 ^ n mod 2 ^ (w - r)"
    unfolding w by (rule mod_mod_cancel) simp
qed

text \<open>
  What a step leaves: the bits not taken, and the target limb begun or lengthened.
\<close>

lemma exec_step_script:
  assumes "transform_step_script st is_last = Some z" "extract_window st = e" "current_limb_remaining_bits st = r"
    and "0 < e" "0 \<le> u" "u < 2 ^ r" "0 \<le> acc" "(acc + 1) * 2 ^ e \<le> 2147483648"
    and "initiate_targetlimb st \<Longrightarrow> acc = 0"
  shows "exec vm (z @ p) (State (scriptnum u # (if initiate_targetlimb st then s else scriptnum acc # s)) al) =
    exec vm ((if drop_currentlimb st then [OP_DROP] @ (if \<not> is_last then [OP_FROMALTSTACK] else []) else []) @ p)
      (State (scriptnum (u mod 2 ^ (r - e)) # scriptnum (acc * 2 ^ e + u div 2 ^ (r - e)) # s) al)"
proof -
  define q where "q = (if drop_currentlimb st then [OP_DROP] @ (if \<not> is_last then [OP_FROMALTSTACK] else []) else []) @ p"
  obtain d where d: "extract_digits r e = Some d"
    and z: "z @ p = d @ (if \<not> initiate_targetlimb st
        then [OP_ROT] @ for_range 0 e (\<lambda>_. [OP_DUP, OP_ADD]) @ [OP_ROT, OP_ADD, OP_SWAP] else []) @ q"
    using assms(1-3) by (auto simp: transform_step_script_def bind_eq_Some_conv q_def)
  have le: "e \<le> r" "r < 32" using d by (simp_all add: extract_digits_def rust_assert_bind_Some_iff)
  define w where "w = u div 2 ^ (r - e)"
  have "u < 2 ^ (r - e) * 2 ^ e" using assms(6) le by (simp flip: power_add)
  then have w: "0 \<le> w" "w < 2 ^ e" using assms(5) int_div_less [of "2 ^ (r - e)" u "2 ^ e"]
    by (simp_all add: w_def pos_imp_zdiv_nonneg_iff mult.commute)
  note ex = exec_extract_digits [OF d assms(4-6), folded w_def]
  show ?thesis
  proof (cases "initiate_targetlimb st")
    case True
    then show ?thesis unfolding z q_def [symmetric] using ex assms(9) by (simp add: w_def)
  next
    case False
    have "0 \<le> acc * 2 ^ e" using assms(7) by simp
    moreover have "acc * 2 ^ e + 2 ^ e \<le> 2147483648" using assms(8) by (simp add: algebra_simps)
    ultimately have ok: "num_ok (2 ^ e * acc)" "num_ok w" using w unfolding num_ok_def mult.commute [of "2 ^ e"] by linarith+
    have "exec vm (for_range 0 e (\<lambda>_. [OP_DUP, OP_ADD]) @ p') (State (scriptnum acc # t) al) =
        exec vm p' (State (scriptnum (2 ^ e * acc) # t) al)" for p' t
      using exec_2k_mul [OF ok(1), of vm p' t al] by (simp add: op_2k_mul_def op_2mul_def)
    then show ?thesis unfolding z q_def [symmetric] using False ok by (simp add: ex exec_simps w_def [symmetric] mult.commute)
  qed
qed

lemma windows_Nil_iff: "covers rs ws \<Longrightarrow> windows rs ws first = [] \<longleftrightarrow> rs = []"
  by (cases rs; cases ws) simp_all

text \<open>The target limb at hand, for what of it is already on the stack, and the limbs after it.\<close>

definition target_limbs :: "nat list \<Rightarrow> int \<Rightarrow> int \<Rightarrow> int list" where
  "target_limbs ws acc x = (case ws of [] \<Rightarrow> [] | w # ws' \<Rightarrow> (acc * 2 ^ w + x div 2 ^ sum_list ws' mod 2 ^ w) # digits ws' x)"

lemma target_limbs_0: "target_limbs ws 0 x = digits ws x"
  by (simp add: target_limbs_def split: list.split)

lemma room_for_limb: "w \<le> 31 \<Longrightarrow> (0 + 1) * (2 :: int) ^ w \<le> 2147483648"
  using power_increasing [of w 31 "2 :: int"] by simp

lemma exec_windows:
  assumes "transform_script (windows (r # rs) (w # ws) first) = Some z" "covers (r # rs) (w # ws)" "\<forall>w\<in>set ws. w \<le> 31"
    and "0 \<le> acc" "(acc + 1) * 2 ^ w \<le> 2147483648" "first \<Longrightarrow> acc = 0"
  shows "exec vm (z @ p) (State (scriptnum (x div 2 ^ sum_list rs mod 2 ^ r) # (if first then s else scriptnum acc # s))
      (map scriptnum (digits rs x) @ al)) =
    exec vm p (State (rev (map scriptnum (target_limbs (w # ws) acc x)) @ s) al)"
  using assms
proof (induction "length rs + length ws" arbitrary: r rs w ws first z acc s rule: less_induct)
  case less
  note c = covers_Cons [OF less.prems(2)]
  have pos: "0 < r" "0 < w" using less.prems(2) by (auto simp: covers_def)
  have sums: "r + sum_list rs = w + sum_list ws" using less.prems(2) by (simp add: covers_def)
  define d where "d = x div 2 ^ sum_list rs mod 2 ^ r"
  have d: "0 \<le> d" "d < 2 ^ r" by (simp_all add: d_def)
  consider "r < w" | "r = w" | "w < r" by linarith
  then show ?case
  proof cases
    case 1
    define st where "st = \<lparr>current_limb_remaining_bits = r, extract_window = r, drop_currentlimb = True, initiate_targetlimb = first\<rparr>"
    obtain r' rs' where rs: "rs = r' # rs'" using c(1) [OF 1] by (cases rs) auto
    have cov: "covers (r' # rs') ((w - r) # ws)" using c(1) [OF 1] rs by simp
    obtain p1 q where z: "transform_step_script st False = Some p1" "transform_script (windows (r' # rs') ((w - r) # ws) False) = Some q" "z = p1 @ q"
      using less.prems(1) 1 windows_Nil_iff [OF cov] by (auto simp: bind_eq_Some_conv rs st_def simp del: transform_script.simps(1))
    have le: "(2 :: int) ^ w = 2 ^ r * 2 ^ (w - r)" using 1 by (simp flip: power_add)
    have "(acc + 1) * 2 ^ r \<le> (acc + 1) * 2 ^ w" using less.prems(4) 1 by (intro mult_left_mono power_increasing) simp_all
    then have small: "(acc + 1) * 2 ^ r \<le> 2147483648" using less.prems(5) by linarith
    have "(acc * 2 ^ r + d + 1) * 2 ^ (w - r) \<le> ((acc + 1) * 2 ^ r) * 2 ^ (w - r)"
      using d by (intro mult_right_mono) (simp_all add: algebra_simps)
    also have "\<dots> = (acc + 1) * 2 ^ w" by (simp add: le)
    finally have acc': "(acc * 2 ^ r + d + 1) * 2 ^ (w - r) \<le> 2147483648" using less.prems(5) by (rule order_trans)
    have "exec vm (z @ p) (State (scriptnum d # (if first then s else scriptnum acc # s)) (map scriptnum (digits rs x) @ al)) =
        exec vm ([OP_DROP, OP_FROMALTSTACK] @ q @ p) (State (scriptnum 0 # scriptnum (acc * 2 ^ r + d) # s) (map scriptnum (digits rs x) @ al))"
      using exec_step_script [OF z(1), of r r d acc vm "q @ p" s] pos d less.prems(4,6) small by (simp add: z(3) st_def)
    also have "\<dots> = exec vm (q @ p) (State (scriptnum (x div 2 ^ sum_list rs' mod 2 ^ r') # scriptnum (acc * 2 ^ r + d) # s)
        (map scriptnum (digits rs' x) @ al))"
      by (simp add: rs exec_simps)
    also have "\<dots> = exec vm p (State (rev (map scriptnum (target_limbs ((w - r) # ws) (acc * 2 ^ r + d) x)) @ s) al)"
      using less.hyps [of rs' ws r' "w - r" False q "acc * 2 ^ r + d" s] z(2) cov less.prems(3,4) d acc' by (simp add: rs)
    also have "target_limbs ((w - r) # ws) (acc * 2 ^ r + d) x = target_limbs (w # ws) acc x"
    proof -
      have "sum_list rs = sum_list ws + (w - r)" using sums 1 by simp
      then show ?thesis using digit_split(1) [of r w x "sum_list ws"] 1 by (simp add: target_limbs_def d_def le algebra_simps)
    qed
    finally show ?thesis unfolding d_def .
  next
    case 2
    define st where "st = \<lparr>current_limb_remaining_bits = r, extract_window = w, drop_currentlimb = True, initiate_targetlimb = first\<rparr>"
    have cov: "covers rs ws" using c(2) [OF 2] .
    obtain p1 q where z: "transform_step_script st (rs = []) = Some p1" "transform_script (windows rs ws True) = Some q" "z = p1 @ q"
      using less.prems(1) 2 windows_Nil_iff [OF cov] by (auto simp: bind_eq_Some_conv st_def)
    have td: "target_limbs (w # ws) acc x = (acc * 2 ^ w + d) # digits ws x"
      using sums 2 by (simp add: target_limbs_def d_def)
    have step: "exec vm (z @ p) (State (scriptnum d # (if first then s else scriptnum acc # s)) (map scriptnum (digits rs x) @ al)) =
        exec vm ([OP_DROP] @ (if rs \<noteq> [] then [OP_FROMALTSTACK] else []) @ q @ p)
          (State (scriptnum 0 # scriptnum (acc * 2 ^ w + d) # s) (map scriptnum (digits rs x) @ al))"
      using exec_step_script [OF z(1), of w r d acc vm "q @ p" s] pos d less.prems(4-6) 2 by (simp add: z(3) st_def)
    show ?thesis
    proof (cases rs)
      case Nil
      then have "ws = []" "q = []" using cov z(2) by simp_all
      then show ?thesis unfolding d_def [symmetric] td using step Nil by (simp add: exec_simps)
    next
      case (Cons r' rs')
      then obtain w' ws' where ws: "ws = w' # ws'" using cov by (cases ws) simp_all
      have "exec vm (q @ p) (State (scriptnum (x div 2 ^ sum_list rs' mod 2 ^ r') # scriptnum (acc * 2 ^ w + d) # s)
          (map scriptnum (digits rs' x) @ al)) =
        exec vm p (State (rev (map scriptnum (target_limbs (w' # ws') 0 x)) @ scriptnum (acc * 2 ^ w + d) # s) al)"
        using less.hyps [of rs' ws' r' w' True q 0 "scriptnum (acc * 2 ^ w + d) # s"] z(2) cov less.prems(3) room_for_limb [of w']
        by (simp add: Cons ws)
      then show ?thesis unfolding d_def [symmetric] td using step by (simp add: Cons exec_simps ws target_limbs_0)
    qed
  next
    case 3
    define st where "st = \<lparr>current_limb_remaining_bits = r, extract_window = w, drop_currentlimb = False, initiate_targetlimb = first\<rparr>"
    have cov: "covers ((r - w) # rs) ws" using c(3) [OF 3] by simp
    obtain w' ws' where ws: "ws = w' # ws'" using c(3) [OF 3] by (cases ws) auto
    obtain l p1 q where z: "transform_step_script st l = Some p1" "transform_script (windows ((r - w) # rs) ws True) = Some q" "z = p1 @ q"
      using less.prems(1) 3 by (auto simp: bind_eq_Some_conv st_def)
    have sum: "sum_list rs + (r - w) = sum_list ws" using sums 3 by simp
    have split: "d div 2 ^ (r - w) = x div 2 ^ sum_list ws mod 2 ^ w" "d mod 2 ^ (r - w) = x div 2 ^ sum_list rs mod 2 ^ (r - w)"
      using digit_split(2,3) [of w r x "sum_list rs"] 3 by (simp_all add: d_def sum)
    have "exec vm (z @ p) (State (scriptnum d # (if first then s else scriptnum acc # s)) (map scriptnum (digits rs x) @ al)) =
        exec vm (q @ p) (State (scriptnum (x div 2 ^ sum_list rs mod 2 ^ (r - w)) #
          scriptnum (acc * 2 ^ w + x div 2 ^ sum_list ws mod 2 ^ w) # s) (map scriptnum (digits rs x) @ al))"
      using exec_step_script [OF z(1), of w r d acc vm "q @ p" s] pos d less.prems(4-6) by (simp add: z(3) st_def split)
    also have "\<dots> = exec vm p (State (rev (map scriptnum (target_limbs ws 0 x)) @
        scriptnum (acc * 2 ^ w + x div 2 ^ sum_list ws mod 2 ^ w) # s) al)"
      using less.hyps [of rs ws' "r - w" w' True q 0 "scriptnum (acc * 2 ^ w + x div 2 ^ sum_list ws mod 2 ^ w) # s"]
        z(2) cov less.prems(3) room_for_limb [of w']
      by (simp add: ws)
    finally show ?thesis unfolding d_def [symmetric] target_limbs_0 by (simp add: target_limbs_def)
  qed
qed

lemma transform_script_defined:
  assumes "covers rs ws" "\<forall>r\<in>set rs. r \<le> 31"
  shows "\<exists>z. transform_script (windows rs ws first) = Some z"
  using assms
proof (induction rs ws first rule: windows.induct)
  case (1 r rs w ws first)
  note c = covers_Cons [OF "1.prems"(1)]
  have pos: "0 < r" "0 < w" using "1.prems"(1) by (auto simp: covers_def)
  have join: "\<exists>z. transform_script (\<lparr>current_limb_remaining_bits = r, extract_window = e, drop_currentlimb = d,
      initiate_targetlimb = first\<rparr> # sts) = Some z"
    if "e \<le> r" "\<exists>z. transform_script sts = Some z" for e d sts
    using that pos "1.prems"(2) by (auto simp: transform_step_script_def extract_digits_def)
  consider "r < w" | "r = w" | "w < r" by linarith
  then show ?case
  proof cases
    case 1
    then show ?thesis using "1.IH"(1) c(1) "1.prems"(2) join [of r "windows rs ((w - r) # ws) False" True] by simp
  next
    case 2
    then show ?thesis using "1.IH"(2) c(2) "1.prems"(2) join [of w "windows rs ws True" True] by simp
  next
    case 3
    have "r \<le> 31" using "1.prems"(2) by simp
    then have "r - w \<le> 31" by linarith
    then show ?thesis using 3 "1.IH"(3) c(3) "1.prems"(2) join [of w "windows ((r - w) # rs) ws True" False] by simp
  qed
qed simp_all

section \<open>The whole change of size\<close>

text \<open>The sizes of the limbs of a number, the most significant first.\<close>

definition sizes_down :: "bigint_type \<Rightarrow> nat \<Rightarrow> nat list" where
  "sizes_down b w = rev (sizes (b\<lparr>limb_size := w\<rparr>))"

lemma limbs_of_size:
  assumes "0 < w" "0 < n_bits b"
  obtains k h where "n_limbs (b\<lparr>limb_size := w\<rparr>) = Suc k" "div_ceil (n_bits b) w = Some (Suc k)" "n_bits b = k * w + h" "0 < h" "h \<le> w"
    "sizes (b\<lparr>limb_size := w\<rparr>) = replicate k w @ [h]"
proof -
  define k where "k = (n_bits b - 1) div w"
  have n: "(n_bits b + w - 1) div w = Suc k"
    using assms div_add_self1 [of w "n_bits b - 1"] by (simp add: k_def add.commute)
  have m: "k * w + (n_bits b - 1) mod w = n_bits b - 1" unfolding k_def by (rule div_mult_mod_eq)
  define h where "h = Suc ((n_bits b - 1) mod w)"
  have h: "0 < h" "h \<le> w" using assms(1) by (simp_all add: h_def Suc_leI)
  have eq: "n_bits b = k * w + h" using m assms(2) by (simp add: h_def)
  show ?thesis
    by (rule that [of k h]) (use n eq h assms in \<open>simp_all add: n_limbs_def div_ceil_def sizes_def head_def\<close>)
qed

lemma sum_replicate_head: "sum_list (h # replicate k w) = k * w + (h :: nat)"
  by (simp add: sum_list_replicate)

lemma transform_plan:
  assumes "0 < source" "0 < target" "0 < n_bits b"
  shows "get_transform_steps b source target = Some (windows (sizes_down b source) (sizes_down b target) True)"
    "covers (sizes_down b source) (sizes_down b target)"
proof -
  obtain k h where s: "n_limbs (b\<lparr>limb_size := source\<rparr>) = Suc k" "div_ceil (n_bits b) source = Some (Suc k)" "n_bits b = k * source + h"
      "0 < h" "sizes (b\<lparr>limb_size := source\<rparr>) = replicate k source @ [h]"
    using limbs_of_size [OF assms(1,3)] by metis
  obtain l g where t: "n_limbs (b\<lparr>limb_size := target\<rparr>) = Suc l" "div_ceil (n_bits b) target = Some (Suc l)" "n_bits b = l * target + g"
      "0 < g" "sizes (b\<lparr>limb_size := target\<rparr>) = replicate l target @ [g]"
    using limbs_of_size [OF assms(2,3)] by metis
  have d: "sizes_down b source = h # replicate k source" "sizes_down b target = g # replicate l target"
    by (simp_all add: sizes_down_def s t)
  show cov: "covers (sizes_down b source) (sizes_down b target)"
    using s(3,4) t(3,4) assms(1,2) by (auto simp: covers_def d sum_replicate_head simp del: sum_list.Cons)
  have cs: "checked_sub (n_bits b) (k * source) = Some h" "checked_sub (n_bits b) (l * target) = Some g"
    using s(3) t(3) by (simp_all add: checked_sub_Some_iff)
  show "get_transform_steps b source target = Some (windows (sizes_down b source) (sizes_down b target) True)"
    using transform_loop_windows [of "sizes_down b source" g l target "[]"] cov
    by (simp add: get_transform_steps_def s(2) t(2) cs d One_nat_def)
qed

lemma windows_fill:
  "covers rs ws \<Longrightarrow> sum_list (map extract_window (windows rs ws first)) = sum_list rs"
proof (induction rs ws first rule: windows.induct)
  case (1 r rs w ws first)
  note c = covers_Cons [OF "1.prems"]
  consider "r < w" | "r = w" | "w < r" by linarith
  then show ?case by cases (use "1.IH" c in simp_all)
qed simp_all

lemma windows_in_limbs:
  "covers rs ws \<Longrightarrow> st \<in> set (windows rs ws first) \<Longrightarrow> \<forall>r\<in>set rs. r \<le> m \<Longrightarrow>
   0 < extract_window st \<and> extract_window st \<le> current_limb_remaining_bits st \<and> current_limb_remaining_bits st \<le> m"
proof (induction rs ws first rule: windows.induct)
  case (1 r rs w ws first)
  note c = covers_Cons [OF "1.prems"(1)]
  have pos: "0 < r" "0 < w" "r \<le> m" "r - w \<le> m" using "1.prems"(1,3) by (auto simp: covers_def)
  consider "r < w" | "r = w" | "w < r" by linarith
  then show ?case by cases (use "1.IH" "1.prems"(2,3) c pos in auto)
qed simp_all

lemma windows_length:
  "covers rs ws \<Longrightarrow> rs \<noteq> [] \<Longrightarrow> length (windows rs ws first) < length rs + length ws"
proof (induction rs ws first rule: windows.induct)
  case (1 r rs w ws first)
  note c = covers_Cons [OF "1.prems"(1)]
  consider "r < w" | "r = w" | "w < r" by linarith
  then show ?case
  proof cases
    case 2
    then show ?thesis using "1.IH"(2) c(2) by (cases "rs = []") simp_all
  qed (use "1.IH" c in simp_all)
qed simp_all

lemma sizes_down_facts:
  assumes "0 < w" "0 < n_bits b"
  shows "sum_list (sizes_down b w) = n_bits b" "length (sizes_down b w) = n_limbs (b\<lparr>limb_size := w\<rparr>)"
    "\<forall>r\<in>set (sizes_down b w). r \<le> w" "sizes_down b w \<noteq> []"
proof -
  obtain k h where s: "n_limbs (b\<lparr>limb_size := w\<rparr>) = Suc k" "n_bits b = k * w + h" "h \<le> w" "sizes (b\<lparr>limb_size := w\<rparr>) = replicate k w @ [h]"
    using limbs_of_size [OF assms] by metis
  show "sum_list (sizes_down b w) = n_bits b" "length (sizes_down b w) = n_limbs (b\<lparr>limb_size := w\<rparr>)"
    "\<forall>r\<in>set (sizes_down b w). r \<le> w" "sizes_down b w \<noteq> []"
    using s by (auto simp: sizes_down_def sum_list_replicate)
qed

text \<open>C22. The two loops that plan a change of limb size end without a panic, for any positive sizes; every window lies in
  the bits left of its limb, the windows add up to all the bits, and there are fewer steps than limbs of both sizes.\<close>

theorem transform_plan_ends:
  assumes "0 < source" "0 < target" "0 < n_bits b"
  shows "\<exists>steps. get_transform_steps b source target = Some steps \<and>
    sum_list (map extract_window steps) = n_bits b \<and>
    (\<forall>st\<in>set steps. 0 < extract_window st \<and> extract_window st \<le> current_limb_remaining_bits st \<and>
       current_limb_remaining_bits st \<le> source) \<and>
    length steps < n_limbs (b\<lparr>limb_size := source\<rparr>) + n_limbs (b\<lparr>limb_size := target\<rparr>)"
  using transform_plan [OF assms] windows_fill windows_in_limbs windows_length
    sizes_down_facts [OF assms(1,3)] sizes_down_facts [OF assms(2,3)]
  by (metis (no_types, lifting))

lemma transform_plan_ends_witness:
  "\<exists>steps. get_transform_steps u254 29 4 = Some steps \<and> sum_list (map extract_window steps) = 254 \<and> length steps < 73"
  using transform_plan_ends [of 29 4 u254] by (auto simp: u254_def n_limbs_def)

text \<open>C21. The script for a change of limb size is generated without a panic and turns the limbs of a number into its limbs
  of the new size.\<close>

theorem limbs_resized:
  assumes "0 < source" "source < 32" "0 < target" "target < 32" "source \<le> n_bits b" "target \<le> n_bits b" "32 \<le> n_bits b"
  shows "\<exists>z. transform_limbsize b source target = Some z \<and>
    (\<forall>vm p s al. exec vm (z @ p) (State (big_items (b\<lparr>limb_size := source\<rparr>) x @ s) al) =
       exec vm p (State (big_items (b\<lparr>limb_size := target\<rparr>) x @ s) al))"
proof (cases "source = target")
  case True
  then show ?thesis using assms by (simp add: transform_limbsize_def)
next
  case False
  have n: "0 < n_bits b" using assms(7) by simp
  obtain k h where s: "div_ceil (n_bits b) source = Some (Suc k)" "sizes (b\<lparr>limb_size := source\<rparr>) = replicate k source @ [h]"
    using limbs_of_size [OF assms(1) n] by metis
  obtain l g where t: "sizes (b\<lparr>limb_size := target\<rparr>) = replicate l target @ [g]" "g \<le> target"
    using limbs_of_size [OF assms(3) n] by metis
  have d: "sizes_down b source = h # replicate k source" "sizes_down b target = g # replicate l target"
    by (simp_all add: sizes_down_def s t)
  note plan = transform_plan [OF assms(1,3) n]
  have bound: "\<forall>r\<in>set (sizes_down b source). r \<le> 31"
    using sizes_down_facts(3) [OF assms(1) n] assms(2) by fastforce
  obtain body where body: "transform_script (windows (sizes_down b source) (sizes_down b target) True) = Some body"
    using transform_script_defined [OF plan(2) bound] by blast
  have z: "transform_limbsize b source target = Some (for_range 0 k (\<lambda>_. [OP_TOALTSTACK]) @ body)"
    using assms False by (simp add: transform_limbsize_def plan(1) s(1) body One_nat_def)
  have "exec vm ((for_range 0 k (\<lambda>_. [OP_TOALTSTACK]) @ body) @ p) (State (big_items (b\<lparr>limb_size := source\<rparr>) x @ s') al) =
      exec vm p (State (big_items (b\<lparr>limb_size := target\<rparr>) x @ s') al)" for vm p s' al
  proof -
    have "exec vm (body @ p) (State (scriptnum (x div 2 ^ sum_list (replicate k source) mod 2 ^ h) # s')
          (map scriptnum (digits (replicate k source) x) @ al)) =
        exec vm p (State (rev (map scriptnum (digits (sizes_down b target) x)) @ s') al)"
      using exec_windows [of h "replicate k source" g "replicate l target" True body 0 vm p x s' al]
        body plan(2) d assms(4) t(2) room_for_limb [of g] by (simp add: target_limbs_0)
    then show ?thesis
      using exec_to_alt [of vm "map scriptnum (mixed (replicate k source) x)" "body @ p"]
      by (simp add: big_items_def limbs_def s(2) t(1) d for_range_const mixed_append digits_mixed rev_map sizes_down_def)
  qed
  with z show ?thesis by blast
qed

lemma limbs_resized_witness:
  "\<exists>z. transform_limbsize u64_limbs 16 5 = Some z \<and>
    (\<forall>vm p s al. exec vm (z @ p) (State (big_items u64_limbs 123456789 @ s) al) =
       exec vm p (State (big_items (u64_limbs\<lparr>limb_size := 5\<rparr>) 123456789 @ s) al))"
  using limbs_resized [of 16 5 u64_limbs 123456789] by (simp add: u64_limbs_def)

end
