(* ===== verification/Bigint_Valid.thy ===== *)
theory Bigint_Valid
  imports Bigint_Std
begin

text \<open>
  The checks of \<open>bitvm/src/bigint/std.rs\<close> that items on the stack are the limbs of an integer: what
  \<open>is_valid_bigint\<close>, \<open>verify_bigint_on_stack\<close> and \<open>check_validity\<close> accept, and the tests for zero and one.
\<close>

section \<open>Well-formed limbs\<close>

definition limbs_ok :: "bigint_type \<Rightarrow> int list \<Rightarrow> bool" where
  "limbs_ok b ds \<longleftrightarrow> list_all2 (\<lambda>w d. 0 \<le> d \<and> d < 2 ^ w) (sizes b) ds"

text \<open>The well-formed lists of limbs are the limbs of the numbers in range.\<close>

lemma limbs_ok_iff: "bigint_ok b \<Longrightarrow> limbs_ok b ds \<longleftrightarrow> (\<exists>x. in_range b x \<and> ds = limbs b x)"
proof
  assume b: "bigint_ok b"
  {
    assume "limbs_ok b ds"
    then show "\<exists>x. in_range b x \<and> ds = limbs b x"
      using mixed_of_value [of "sizes b" ds] b
      by (intro exI [of _ "mixed_value (sizes b) ds"]) (simp add: limbs_ok_def in_range_def limbs_def)
  }
  {
    assume "\<exists>x. in_range b x \<and> ds = limbs b x"
    then show "limbs_ok b ds" using mixed_digits by (auto simp: limbs_ok_def limbs_def)
  }
qed

lemma exec_limb_check:
  assumes "w \<le> 30" "num_ok d" "n = Suc (length us)" "n < 2147483648"
  shows "exec vm (limb_check n w @ p) (State (bool_item c # us @ scriptnum d # s) al) =
    exec vm p (State (bool_item (c \<and> 0 \<le> d \<and> d < 2 ^ w) # us @ scriptnum d # s) al)"
proof -
  have zero: "num_ok 0" by (simp add: num_ok_def)
  have "exec vm (limb_check n w @ p) (State ((bool_item c # us) @ scriptnum d # s) al) =
      exec vm ([OP_DUP, push 0, OP_GREATERTHANOREQUAL, OP_SWAP, push (2 ^ w), OP_LESSTHAN, OP_BOOLAND, OP_BOOLAND] @ p)
        (State (scriptnum d # (bool_item c # us) @ scriptnum d # s) al)"
    using exec_pick_at [of n "bool_item c # us"] assms by (simp add: limb_check_def)
  then show ?thesis using assms(2) num_ok_power [OF assms(1)] zero by (simp add: exec_simps)
qed

lemma exec_limb_checks:
  assumes "w \<le> 30" "length us = i" "\<forall>d\<in>set ds. num_ok d" "i + length ds < 2147483647"
  shows "exec vm (for_range i (i + length ds) (\<lambda>i. limb_check (i + 1) w) @ p)
      (State (bool_item c # us @ map scriptnum ds @ s) al) =
    exec vm p (State (bool_item (c \<and> (\<forall>d\<in>set ds. 0 \<le> d \<and> d < 2 ^ w)) # us @ map scriptnum ds @ s) al)"
  using assms(2-4)
proof (induction ds arbitrary: i us c)
  case (Cons d ds)
  have "exec vm (for_range i (i + length (d # ds)) (\<lambda>i. limb_check (i + 1) w) @ p)
      (State (bool_item c # us @ map scriptnum (d # ds) @ s) al) =
    exec vm (for_range (Suc i) (Suc i + length ds) (\<lambda>i. limb_check (i + 1) w) @ p)
      (State (bool_item (c \<and> 0 \<le> d \<and> d < 2 ^ w) # (us @ [scriptnum d]) @ map scriptnum ds @ s) al)"
    using exec_limb_check [OF assms(1), of d "i + 1" us] Cons.prems by (simp add: for_range_first)
  also have "\<dots> = exec vm p (State (bool_item ((c \<and> 0 \<le> d \<and> d < 2 ^ w) \<and> (\<forall>d\<in>set ds. 0 \<le> d \<and> d < 2 ^ w)) #
      (us @ [scriptnum d]) @ map scriptnum ds @ s) al)"
    by (rule Cons.IH) (use Cons.prems in simp_all)
  finally show ?case by (simp add: conj_assoc)
qed simp

lemma list_all2_replicate: "list_all2 P (replicate (length ds) w) ds \<longleftrightarrow> (\<forall>d\<in>set ds. P w d)"
  by (induction ds) simp_all

lemma limbs_ok_append:
  "bigint_ok b \<Longrightarrow> length ds = n_limbs b - 1 \<Longrightarrow>
   limbs_ok b (ds @ [d]) \<longleftrightarrow> (\<forall>e\<in>set ds. 0 \<le> e \<and> e < 2 ^ limb_size b) \<and> 0 \<le> d \<and> d < 2 ^ head b"
  using list_all2_append [of "replicate (length ds) (limb_size b)" ds _ "[head b]" "[d]"] list_all2_replicate [of _ ds "limb_size b"]
  by (simp add: limbs_ok_def sizes_def)

lemma exec_is_valid_bigint:
  assumes "bigint_ok b" "length ds = n_limbs b" "\<forall>d\<in>set ds. num_ok d" "n_limbs b < 2147483646"
  shows "exec vm (is_valid_bigint b @ p) (State (map scriptnum ds @ s) al) =
    exec vm p (State (bool_item (limbs_ok b ds) # map scriptnum ds @ s) al)"
proof -
  note b = bigint_okD [OF assms(1)]
  obtain es e where ds: "ds = es @ [e]" using assms(2) b(3) by (cases ds rule: rev_cases) simp_all
  have len: "length es = n_limbs b - 1" "n_limbs b = Suc (length es)" using assms(2) ds by simp_all
  have t: "b\<lparr>limb_size := limb_size b\<rparr> = b" by simp
  have one: "scriptnum 1 = bool_item True" by (simp add: bool_item_def)
  define c where "c \<longleftrightarrow> (\<forall>d\<in>set es. 0 \<le> d \<and> d < 2 ^ limb_size b)"
  have "exec vm (is_valid_bigint b @ p) (State (map scriptnum ds @ s) al) =
      exec vm (for_range 0 (0 + length es) (\<lambda>i. limb_check (i + 1) (limb_size b)) @ limb_check (n_limbs b) (head b) @ p)
        (State (bool_item True # [] @ map scriptnum es @ scriptnum e # s) al)"
    by (simp add: is_valid_bigint_def is_valid_bigint_with_limb_size_def Let_def t exec_push one ds len(1) [symmetric])
  also have "\<dots> = exec vm (limb_check (n_limbs b) (head b) @ p)
        (State (bool_item (True \<and> c) # [] @ map scriptnum es @ scriptnum e # s) al)"
    unfolding c_def by (rule exec_limb_checks) (use b(2) assms(3,4) len(2) ds in simp_all)
  also have "\<dots> = exec vm p (State (bool_item (c \<and> 0 \<le> e \<and> e < 2 ^ head b) # map scriptnum es @ scriptnum e # s) al)"
    using exec_limb_check [of "head b" e "n_limbs b" "map scriptnum es" vm p c s al] b(2,5) assms(3,4) len(2) ds by simp
  finally show ?thesis using limbs_ok_append [OF assms(1) len(1), of e] by (simp add: ds c_def)
qed

section \<open>The check that consumes the integer\<close>

lemma exec_check_loop:
  assumes "w \<le> 30" "\<forall>d\<in>set ds. num_ok d"
  shows "exec vm (repeat_script (length ds) [OP_TUCK, push 0, OP_SWAP, OP_WITHIN, OP_VERIFY] @ p)
      (State (scriptnum (2 ^ w) # map scriptnum ds @ s) al) =
    (if \<forall>d\<in>set ds. 0 \<le> d \<and> d < 2 ^ w then exec vm p (State (scriptnum (2 ^ w) # s) al) else Inl Verify)"
  using assms(2)
proof (induction ds)
  case (Cons d ds)
  have zero: "num_ok 0" by (simp add: num_ok_def)
  show ?case using Cons num_ok_power [OF assms(1)] zero by (simp add: repeat_script_Suc exec_simps)
qed simp

lemma exec_check_validity:
  assumes "bigint_ok b" "length ds = n_limbs b" "\<forall>d\<in>set ds. num_ok d"
  shows "exec vm (check_validity b @ p) (State (map scriptnum ds @ s) al) =
    (if limbs_ok b ds then exec vm p (State s al) else Inl Verify)"
proof -
  note b = bigint_okD [OF assms(1)]
  obtain es e where ds: "ds = es @ [e]" using assms(2) b(3) by (cases ds rule: rev_cases) simp_all
  have len: "length es = n_limbs b - 1" using assms(2) ds by simp
  obtain fs f where es: "es = fs @ [f]" using len b(3) by (cases es rule: rev_cases) simp_all
  have k: "n_limbs b - 2 = length fs" using len es by simp
  have zero: "num_ok 0" by (simp add: num_ok_def)
  note powers = num_ok_power [OF b(2)] num_ok_power [of "head b"]
  have small: "\<forall>d\<in>set fs. num_ok d" "num_ok e" "num_ok f" using assms(3) ds es by simp_all
  have "exec vm (check_validity b @ p) (State (map scriptnum ds @ s) al) =
      (if (\<forall>d\<in>set fs. 0 \<le> d \<and> d < 2 ^ limb_size b) then
        exec vm ([push 0, OP_SWAP, OP_WITHIN, OP_VERIFY, push 0, push (2 ^ head b), OP_WITHIN, OP_VERIFY] @ p)
          (State (scriptnum (2 ^ limb_size b) # scriptnum f # scriptnum e # s) al) else Inl Verify)"
    using exec_check_loop [OF b(2) small(1), of vm _ "scriptnum f # scriptnum e # s"]
    by (simp add: check_validity_def head_offset_def exec_push for_range_const k ds es)
  then show ?thesis
    using limbs_ok_append [OF assms(1) len, of e] powers b small zero by (auto simp: ds es exec_simps)
qed

section \<open>Zero and one\<close>

lemma exec_zero_picks:
  assumes "\<forall>d\<in>set ds. num_ok d" "n0 + i = length us" "length us + length ds < 2147483647"
  shows "exec vm (for_range i (i + length ds) (\<lambda>i. [pushn (n0 + i + 1), OP_PICK, OP_NOT, OP_BOOLAND]) @ p)
      (State (bool_item c # us @ map scriptnum ds @ s) al) =
    exec vm p (State (bool_item (c \<and> (\<forall>d\<in>set ds. d = 0)) # us @ map scriptnum ds @ s) al)"
  using assms
proof (induction ds arbitrary: i us c)
  case (Cons d ds)
  have "exec vm (for_range i (i + length (d # ds)) (\<lambda>i. [pushn (n0 + i + 1), OP_PICK, OP_NOT, OP_BOOLAND]) @ p)
      (State (bool_item c # us @ map scriptnum (d # ds) @ s) al) =
    exec vm (pushn (n0 + i + 1) # OP_PICK # OP_NOT # OP_BOOLAND #
        for_range (Suc i) (Suc i + length ds) (\<lambda>i. [pushn (n0 + i + 1), OP_PICK, OP_NOT, OP_BOOLAND]) @ p)
      (State ((bool_item c # us) @ scriptnum d # map scriptnum ds @ s) al)"
    by (simp add: for_range_first)
  also have "\<dots> = exec vm (OP_NOT # OP_BOOLAND #
        for_range (Suc i) (Suc i + length ds) (\<lambda>i. [pushn (n0 + i + 1), OP_PICK, OP_NOT, OP_BOOLAND]) @ p)
      (State (scriptnum d # (bool_item c # us) @ scriptnum d # map scriptnum ds @ s) al)"
    by (rule exec_pick_at) (use Cons.prems in simp_all)
  also have "\<dots> = exec vm (for_range (Suc i) (Suc i + length ds) (\<lambda>i. [pushn (n0 + i + 1), OP_PICK, OP_NOT, OP_BOOLAND]) @ p)
      (State (bool_item (c \<and> d = 0) # (us @ [scriptnum d]) @ map scriptnum ds @ s) al)"
    using Cons.prems(1) by (simp add: exec_simps)
  also have "\<dots> = exec vm p (State (bool_item ((c \<and> d = 0) \<and> (\<forall>d\<in>set ds. d = 0)) # (us @ [scriptnum d]) @ map scriptnum ds @ s) al)"
    by (rule Cons.IH) (use Cons.prems in simp_all)
  finally show ?case by (simp add: conj_assoc)
qed simp

lemma limbs_zero:
  assumes "bigint_ok b" "in_range b x"
  shows "(\<forall>d\<in>set (limbs b x). d = 0) \<longleftrightarrow> x = 0"
proof -
  have zero: "limbs b 0 = replicate (n_limbs b) 0"
    using assms(1) by (metis length_limbs limbs_def mixed_zeros length_sizes)
  have "(\<forall>d\<in>set (limbs b x). d = 0) \<longleftrightarrow> limbs b x = replicate (n_limbs b) 0"
    using assms(1) replicate_length_same [of "limbs b x" 0] by (metis in_set_replicate length_limbs)
  also have "\<dots> \<longleftrightarrow> x = 0"
    using limbs_inject [OF assms, of 0] assms(2) by (simp add: zero in_range_def)
  finally show ?thesis .
qed

lemma exec_is_zero_keep_element:
  assumes "bigint_ok b" "x < length ws" "small_bigs b ws" "in_range b (ws ! x)"
  shows "exec vm (is_zero_keep_element b x @ p) (State (bigs b ws @ s) al) =
    exec vm p (State (bool_item (ws ! x = 0) # bigs b ws @ s) al)"
proof -
  obtain us ts where w: "bigs b ws = us @ big_items b (ws ! x) @ ts" "length us = n_limbs b * x"
    using bigs_split [OF assms(1,2)] .
  have "exec vm (is_zero_keep_element b x @ p) (State (bigs b ws @ s) al) =
      exec vm (for_range 0 (0 + length (limbs b (ws ! x))) (\<lambda>i. [pushn (n_limbs b * x + i + 1), OP_PICK, OP_NOT, OP_BOOLAND]) @ p)
        (State (bool_item True # us @ map scriptnum (limbs b (ws ! x)) @ ts @ s) al)"
    using assms(1) by (simp add: is_zero_keep_element_def w(1) exec_push scriptnum_bits big_items_def)
  also have "\<dots> = exec vm p (State (bool_item (True \<and> (\<forall>d\<in>set (limbs b (ws ! x)). d = 0)) # us @
      map scriptnum (limbs b (ws ! x)) @ ts @ s) al)"
    using exec_zero_picks [of "limbs b (ws ! x)" "n_limbs b * x" 0 us vm p True "ts @ s" al]
      limbs_num_ok [OF assms(1)] w(2) room [OF assms(3,2)] assms(1) bigint_okD(3) [OF assms(1)] by simp
  finally show ?thesis using limbs_zero [OF assms(1,4)] by (simp add: w(1) big_items_def)
qed

text \<open>The sign of a number read as a two's complement: negative from half of the range on.\<close>

lemma exec_is_negative:
  assumes "bigint_ok b" "x < length ws" "small_bigs b ws" "in_range b (ws ! x)"
  shows "exec vm (is_negative b x @ p) (State (bigs b ws @ s) al) =
    exec vm p (State (bool_item (2 ^ (n_bits b - 1) \<le> ws ! x) # bigs b ws @ s) al)"
proof -
  note b = bigint_okD [OF assms(1)]
  let ?m = "(n_limbs b - 1) * limb_size b"
  define t where "t = ws ! x div 2 ^ ?m"
  have h: "head_offset b div 2 = 2 ^ (head b - 1)" "2 ^ head b = 2 * (2 :: int) ^ (head b - 1)"
    using b(4) by (cases "head b"; simp add: head_offset_def One_nat_def)+
  have t: "0 \<le> t" "t < 2 ^ head b"
    using assms(4) int_div_less [of "2 ^ ?m" "ws ! x" "2 ^ head b"] b(6)
    by (simp_all add: t_def in_range_def pos_imp_zdiv_nonneg_iff add.commute flip: power_add)
  obtain us ts where w: "bigs b ws = us @ big_items b (ws ! x) @ ts" "length us = n_limbs b * x"
    using bigs_split [OF assms(1,2)] .
  have big: "big_items b (ws ! x) = map scriptnum (mixed (replicate (n_limbs b - 1) (limb_size b)) (ws ! x)) @ [scriptnum t]"
    using t by (simp add: big_items_def limbs_def sizes_def mixed_append sum_list_replicate t_def [symmetric])
  have pick: "exec vm (pushn ((1 + x) * n_limbs b - 1) # OP_PICK # q) (State (bigs b ws @ s) al) =
      exec vm q (State (scriptnum t # bigs b ws @ s) al)" for q
    using exec_pick_at [of "(1 + x) * n_limbs b - 1" "us @ map scriptnum (mixed (replicate (n_limbs b - 1) (limb_size b)) (ws ! x))"
        vm q "scriptnum t" "ts @ s" al] w(2) b(3) room [OF assms(3,2)]
    by (simp add: w(1) big algebra_simps)
  have ok: "num_ok t" "num_ok (2 ^ (head b - 1))"
    using num_ok_power [of "head b - 1"] power_le_30 [of "head b"] b(2,5) t unfolding num_ok_def by linarith+
  have "2 ^ (n_bits b - 1) \<le> ws ! x \<longleftrightarrow> 2 ^ (head b - 1) \<le> t"
  proof -
    have "n_bits b - 1 = ?m + (head b - 1)" using b(4,6) by linarith
    then have "(2 :: int) ^ (n_bits b - 1) = 2 ^ (head b - 1) * 2 ^ ?m" by (simp add: power_add)
    moreover have "2 ^ (head b - 1) * 2 ^ ?m \<le> ws ! x \<longleftrightarrow> 2 ^ (head b - 1) \<le> t"
    proof
      assume "2 ^ (head b - 1) * 2 ^ ?m \<le> ws ! x"
      then have "(2 ^ (head b - 1) * 2 ^ ?m) div 2 ^ ?m \<le> t" unfolding t_def by (rule zdiv_mono1) simp
      then show "2 ^ (head b - 1) \<le> t" by simp
    next
      assume "2 ^ (head b - 1) \<le> t"
      then show "2 ^ (head b - 1) * 2 ^ ?m \<le> ws ! x"
        using int_div_less [of "2 ^ ?m" "ws ! x" "2 ^ (head b - 1)"] unfolding t_def
        by (metis linorder_not_le zero_less_numeral zero_less_power)
    qed
    ultimately show ?thesis by simp
  qed
  then show ?thesis using ok by (simp add: is_negative_def pick h(1) exec_simps)
qed

text \<open>C23. For any numbers in the place of the limbs, \<open>is_valid_bigint\<close> keeps them and answers whether they are the limbs
  of a number of the type, and \<open>check_validity\<close> removes them and goes on in the same cases only.\<close>

theorem well_formed_limbs_accepted:
  assumes "bigint_ok b" "length ds = n_limbs b" "\<forall>d\<in>set ds. num_ok d" "n_limbs b < 2147483646"
  shows "exec vm (is_valid_bigint b @ p) (State (map scriptnum ds @ s) al) =
      exec vm p (State (bool_item (\<exists>x. in_range b x \<and> ds = limbs b x) # map scriptnum ds @ s) al) \<and>
    exec vm (check_validity b @ p) (State (map scriptnum ds @ s) al) =
      (if \<exists>x. in_range b x \<and> ds = limbs b x then exec vm p (State s al) else Inl Verify)"
  using exec_is_valid_bigint [OF assms] exec_check_validity [OF assms(1-3)] limbs_ok_iff [OF assms(1)] by simp

lemma well_formed_limbs_accepted_witness:
  "\<forall>vm. exec vm (check_validity u64_limbs @ []) (State (map scriptnum [0, 65536, 0, 0] @ []) []) =
    (if \<exists>x. in_range u64_limbs x \<and> [0, 65536, 0, 0] = limbs u64_limbs x then exec vm [] (State [] []) else Inl Verify)"
  using well_formed_limbs_accepted [of u64_limbs "[0, 65536, 0, 0]" _ "[]" "[]" "[]"]
  by (simp add: bigint_ok_def n_limbs_def u64_limbs_def num_ok_def)

end
