(* ===== verification/Bigint_Cmp.thy ===== *)
theory Bigint_Cmp
  imports Bigint_Std
begin

text \<open>
  \<open>bitvm/src/bigint/cmp.rs\<close>: comparisons of integers. The order is decided by the highest limbs that differ.
\<close>

section \<open>Generators\<close>

definition equalverify_bigints :: "bigint_type \<Rightarrow> nat \<Rightarrow> nat \<Rightarrow> script option" where
  "equalverify_bigints b x y =
     map_option (\<lambda>zip. zip @ for_range 0 (n_limbs b) (\<lambda>_. [OP_EQUALVERIFY])) (zip_bigints b x y)"

definition equal_limbs :: "bigint_type \<Rightarrow> script" where
  "equal_limbs b =
     for_range 0 (n_limbs b) (\<lambda>_. [OP_EQUAL, OP_TOALTSTACK]) @ for_range 0 (n_limbs b) (\<lambda>_. [OP_FROMALTSTACK]) @
     for_range 0 (n_limbs b - 1) (\<lambda>_. [OP_BOOLAND])"

definition equal_bigints :: "bigint_type \<Rightarrow> nat \<Rightarrow> nat \<Rightarrow> script option" where
  "equal_bigints b x y = map_option (\<lambda>zip. zip @ equal_limbs b) (zip_bigints b x y)"

definition equal_keep_elements :: "bigint_type \<Rightarrow> nat \<Rightarrow> nat \<Rightarrow> script" where
  "equal_keep_elements b x y = copy_zip_bigints b x y @ equal_limbs b"

definition notequal_bigints :: "bigint_type \<Rightarrow> nat \<Rightarrow> nat \<Rightarrow> script option" where
  "notequal_bigints b x y = map_option (\<lambda>eq. eq @ [OP_NOT]) (equal_bigints b x y)"

definition compare_limbs :: "bigint_type \<Rightarrow> script" where
  "compare_limbs b =
     [OP_2DUP, OP_GREATERTHAN, OP_TOALTSTACK, OP_LESSTHAN, OP_TOALTSTACK] @
     for_range 0 (n_limbs b - 1) (\<lambda>_. [OP_2DUP, OP_GREATERTHAN, OP_TOALTSTACK, OP_LESSTHAN, OP_TOALTSTACK]) @
     [OP_FROMALTSTACK, OP_FROMALTSTACK, OP_OVER, OP_BOOLOR] @
     for_range 0 (n_limbs b - 1) (\<lambda>_. [OP_FROMALTSTACK, OP_FROMALTSTACK, OP_ROT,
       OP_IF_ELSE [OP_2DROP, push 1] [OP_ROT, OP_DROP, OP_OVER, OP_BOOLOR]]) @
     [OP_BOOLAND]"

definition lessthan_bigints :: "bigint_type \<Rightarrow> nat \<Rightarrow> nat \<Rightarrow> script option" where
  "lessthan_bigints b x y = map_option (\<lambda>zip. zip @ compare_limbs b) (zip_bigints b x y)"

definition greaterthanorequal_bigints :: "bigint_type \<Rightarrow> nat \<Rightarrow> nat \<Rightarrow> script option" where
  "greaterthanorequal_bigints b x y = map_option (\<lambda>lt. lt @ [OP_NOT]) (lessthan_bigints b x y)"

definition lessthanorequal_bigints :: "bigint_type \<Rightarrow> nat \<Rightarrow> nat \<Rightarrow> script option" where
  "lessthanorequal_bigints b x y = greaterthanorequal_bigints b y x"

definition greaterthan_bigints :: "bigint_type \<Rightarrow> nat \<Rightarrow> nat \<Rightarrow> script option" where
  "greaterthan_bigints b x y = map_option (\<lambda>le. le @ [OP_NOT]) (lessthanorequal_bigints b x y)"

section \<open>Equality\<close>

lemma exec_equal_flags:
  "length ys = length xs \<Longrightarrow> exec vm (repeat_script (length xs) [OP_EQUAL, OP_TOALTSTACK] @ p) (State (interleave ys xs @ s) al) =
   exec vm p (State s (rev (map bool_item (map2 (=) ys xs)) @ al))"
  by (induction ys xs arbitrary: al rule: list_induct2) (simp_all add: repeat_script_Suc exec_simps)

lemma exec_booland_all:
  "exec vm (repeat_script (length bs) [OP_BOOLAND] @ p) (State (bool_item c # map bool_item bs @ s) al) =
   exec vm p (State (bool_item (c \<and> list_all id bs) # s) al)"
  by (induction bs arbitrary: c) (simp_all add: repeat_script_Suc exec_simps conj_ac)

lemma map2_equal: "length ys = length xs \<Longrightarrow> list_all id (map2 (=) ys xs) \<longleftrightarrow> ys = xs"
  by (induction ys xs rule: list_induct2) simp_all

lemma big_items_inject: "bigint_ok b \<Longrightarrow> in_range b x \<Longrightarrow> in_range b y \<Longrightarrow> big_items b x = big_items b y \<longleftrightarrow> x = y"
  using inj_map_eq_map [of scriptnum "limbs b x" "limbs b y"] limbs_inject [of b x y]
  by (simp add: big_items_def inj_def)

lemma exec_equal_limbs:
  assumes "bigint_ok b" "in_range b x" "in_range b y"
  shows "exec vm (equal_limbs b @ p) (State (zipped b y x @ s) al) = exec vm p (State (bool_item (x = y) # s) al)"
proof -
  let ?ys = "big_items b y" and ?xs = "big_items b x"
  define fs where "fs = map2 (=) ?ys ?xs"
  have n: "length fs = n_limbs b" using assms(1) by (simp add: fs_def)
  then obtain c cs where fs: "fs = c # cs" using bigint_okD(3) [OF assms(1)] by (cases fs) simp_all
  have "exec vm (repeat_script (length ?xs) [OP_EQUAL, OP_TOALTSTACK] @ repeat_script (length fs) [OP_FROMALTSTACK] @
        repeat_script (length cs) [OP_BOOLAND] @ p) (State (interleave ?ys ?xs @ s) al) =
      exec vm (repeat_script (length cs) [OP_BOOLAND] @ p) (State (map bool_item fs @ s) al)"
    using exec_equal_flags [of ?ys ?xs vm _ s al] exec_from_alt [of vm "rev (map bool_item fs)"] assms(1)
    by (simp add: fs_def [symmetric])
  also have "\<dots> = exec vm p (State (bool_item (list_all id fs) # s) al)"
    using exec_booland_all [of vm cs p c s al] by (simp add: fs)
  also have "list_all id fs \<longleftrightarrow> x = y"
    using map2_equal [of ?ys ?xs] big_items_inject [OF assms(1,3,2)] assms(1) by (auto simp: fs_def)
  moreover have "n_limbs b - 1 = length cs" using n fs by simp
  ultimately show ?thesis using n assms(1) by (simp add: equal_limbs_def for_range_const zipped_def)
qed

lemma exec_equalverify_limbs:
  "length ys = length xs \<Longrightarrow> exec vm (repeat_script (length xs) [OP_EQUALVERIFY] @ p) (State (interleave ys xs @ s) al) =
   (if ys = xs then exec vm p (State s al) else Inl EqualVerify)"
  by (induction ys xs rule: list_induct2) (auto simp: repeat_script_Suc exec_simps)

text \<open>Copies of the limbs of both operands, the operands kept.\<close>

lemma exec_copy_zip_loop:
  assumes "\<forall>j<n. S ! (xo + j) = X ! j" "\<forall>j<n. S ! (yo + j) = Y ! j" "length X = n" "length Y = n"
    and "xo + n \<le> length S" "yo + n \<le> length S" "length S + 2 * n < 2147483648"
    and "i + k = n" "length zs = 2 * i" "x' + 1 = xo + n" "y' + 1 = yo + n"
  shows "exec vm (for_range i n (\<lambda>i. [pushn (x' + i), OP_PICK, pushn (y' + 1 + i), OP_PICK]) @ p) (State (zs @ S) al) =
    exec vm p (State (interleave (take k Y) (take k X) @ zs @ S) al)"
  using assms(8,9)
proof (induction k arbitrary: i zs)
  case 0
  then show ?case by simp
next
  case (Suc k)
  have x: "(zs @ S) ! (x' + i) = X ! k" "x' + i < length (zs @ S)"
  proof -
    have "x' + i = 2 * i + (xo + k)" using Suc.prems assms(10) by linarith
    then show "(zs @ S) ! (x' + i) = X ! k" "x' + i < length (zs @ S)"
      using Suc.prems assms(1,5) by (simp_all add: nth_append)
  qed
  have y: "(X ! k # zs @ S) ! (y' + 1 + i) = Y ! k" "y' + 1 + i < length (X ! k # zs @ S)"
  proof -
    have "y' + 1 + i = Suc (2 * i + (yo + k))" using Suc.prems assms(11) by linarith
    then show "(X ! k # zs @ S) ! (y' + 1 + i) = Y ! k" "y' + 1 + i < length (X ! k # zs @ S)"
      using Suc.prems assms(2,6) by (simp_all add: nth_append)
  qed
  have "exec vm (for_range i n (\<lambda>i. [pushn (x' + i), OP_PICK, pushn (y' + 1 + i), OP_PICK]) @ p) (State (zs @ S) al) =
      exec vm (pushn (x' + i) # OP_PICK # pushn (y' + 1 + i) # OP_PICK #
        for_range (Suc i) n (\<lambda>i. [pushn (x' + i), OP_PICK, pushn (y' + 1 + i), OP_PICK]) @ p) (State (zs @ S) al)"
    using Suc.prems by (simp add: for_range_first)
  also have "\<dots> = exec vm (pushn (y' + 1 + i) # OP_PICK #
        for_range (Suc i) n (\<lambda>i. [pushn (x' + i), OP_PICK, pushn (y' + 1 + i), OP_PICK]) @ p) (State (X ! k # zs @ S) al)"
    using x Suc.prems assms(7,8) by (subst exec_pick_roll) simp_all
  also have "\<dots> = exec vm (for_range (Suc i) n (\<lambda>i. [pushn (x' + i), OP_PICK, pushn (y' + 1 + i), OP_PICK]) @ p)
      (State ((Y ! k # X ! k # zs) @ S) al)"
    using y Suc.prems assms(7,8) by (subst exec_pick_roll) simp_all
  also have "\<dots> = exec vm p (State (interleave (take k Y) (take k X) @ (Y ! k # X ! k # zs) @ S) al)"
    by (rule Suc.IH) (use Suc.prems in simp_all)
  finally show ?case using Suc.prems assms(3,4) by (simp add: take_Suc_conv_app_nth interleave_snoc)
qed

lemma bigs_nth:
  assumes "bigint_ok b" "x < length ws" "j < n_limbs b"
  shows "(bigs b ws @ s) ! (n_limbs b * x + j) = big_items b (ws ! x) ! j"
proof -
  obtain us ts where w: "bigs b ws = us @ big_items b (ws ! x) @ ts" "length us = n_limbs b * x"
    using bigs_split [OF assms(1,2)] .
  show ?thesis unfolding w(1) append_assoc w(2) [symmetric] nth_append_length_plus using assms by (simp add: nth_append)
qed

lemma exec_copy_zip:
  assumes "bigint_ok b" "x < length ws" "y < length ws" "small_bigs b ws"
  shows "exec vm (copy_zip_bigints b x y @ p) (State (bigs b ws) al) =
    exec vm p (State (zipped b (ws ! y) (ws ! x) @ bigs b ws) al)"
proof -
  let ?n = "n_limbs b"
  have le: "?n * i + ?n \<le> ?n * length ws" if "i < length ws" for i
    using mult_le_mono2 [OF Suc_leI [OF that], of ?n] by simp
  have "?n * length ws + 3 * ?n < 2147483648" using assms(4) by (simp add: small_bigs_def algebra_simps)
  then have "exec vm (copy_zip_bigints b x y @ p) (State ([] @ bigs b ws) al) =
      exec vm p (State (interleave (take ?n (big_items b (ws ! y))) (take ?n (big_items b (ws ! x))) @ [] @ bigs b ws) al)"
    unfolding copy_zip_bigints_def
    by (intro exec_copy_zip_loop [where xo = "?n * x" and yo = "?n * y"])
      (use bigs_nth [OF assms(1), where ws = ws and s = "[]"] le assms top_index_Suc [OF assms(1)] in simp_all)
  then show ?thesis using assms(1) by (simp add: zipped_def)
qed

section \<open>Order\<close>

definition limb_flags :: "int \<Rightarrow> int \<Rightarrow> item list" where
  "limb_flags y x = [bool_item (y < x), bool_item (x < y)]"

lemma exec_flags:
  assumes "\<forall>w\<in>set ws. w \<le> 30"
  shows "exec vm (repeat_script (length ws) [OP_2DUP, OP_GREATERTHAN, OP_TOALTSTACK, OP_LESSTHAN, OP_TOALTSTACK] @ p)
      (State (interleave (map scriptnum (mixed ws y)) (map scriptnum (mixed ws x)) @ s) al) =
    exec vm p (State s (rev (concat (map2 limb_flags (mixed ws y) (mixed ws x))) @ al))"
  using assms
proof (induction ws arbitrary: x y al)
  case (Cons w ws)
  have "num_ok (z mod 2 ^ w)" for z using Cons.prems by (simp add: num_ok_mod)
  then show ?case using Cons by (simp add: repeat_script_Suc exec_simps limb_flags_def)
qed simp

lemma digit_less:
  fixes x y m :: int
  assumes "0 < m"
  shows "x < y \<longleftrightarrow> x div m < y div m \<or> x div m = y div m \<and> x mod m < y mod m"
proof -
  have split: "x = m * (x div m) + x mod m" "y = m * (y div m) + y mod m" by simp_all
  have b: "0 \<le> x mod m" "x mod m < m" "0 \<le> y mod m" "y mod m < m" using assms by simp_all
  have far: "m * p + m \<le> m * q" if "p < q" for p q :: int
    using mult_left_mono [of "p + 1" q m] that assms by (simp add: algebra_simps)
  consider "x div m < y div m" | "x div m = y div m" | "y div m < x div m" by linarith
  then show ?thesis
  proof cases
    case 1
    then have "x < y" using far [OF 1] split b by linarith
    with 1 show ?thesis by simp
  next
    case 2
    then show ?thesis using split by (metis add_less_cancel_left less_irrefl)
  next
    case 3
    then have "y < x" using far [OF 3] split b by linarith
    with 3 show ?thesis by simp
  qed
qed

lemma digit_eq: "x = y \<longleftrightarrow> x div m = y div m \<and> x mod m = y mod (m :: int)"
  by (metis div_mult_mod_eq)

text \<open>The flags of the higher limbs decide; the next limb decides among equals.\<close>

lemma exec_decide:
  "exec vm (repeat_script (length ws) [OP_FROMALTSTACK, OP_FROMALTSTACK, OP_ROT,
        OP_IF_ELSE [OP_2DROP, push 1] [OP_ROT, OP_DROP, OP_OVER, OP_BOOLOR]] @ p)
      (State (bool_item (x div 2 ^ sum_list ws \<noteq> y div 2 ^ sum_list ws) #
         bool_item (x div 2 ^ sum_list ws < y div 2 ^ sum_list ws) # s)
       (rev (concat (map2 limb_flags (mixed ws y) (mixed ws x))) @ al)) =
   exec vm p (State (bool_item (x \<noteq> y) # bool_item (x < y) # s) al)"
proof (induction ws rule: rev_induct)
  case (snoc w ws)
  define X Y where "X = x div 2 ^ sum_list ws" and "Y = y div 2 ^ sum_list ws"
  have d: "x div 2 ^ (sum_list ws + w) = X div 2 ^ w" "y div 2 ^ (sum_list ws + w) = Y div 2 ^ w"
    by (simp_all add: X_def Y_def power_add zdiv_zmult2_eq)
  have one: "scriptnum 1 = bool_item True" by (simp add: bool_item_def)
  have lt: "X < Y \<longleftrightarrow> X div 2 ^ w < Y div 2 ^ w \<or> X div 2 ^ w = Y div 2 ^ w \<and> X mod 2 ^ w < Y mod 2 ^ w"
    by (rule digit_less) simp
  have ne: "X \<noteq> Y \<longleftrightarrow> X div 2 ^ w \<noteq> Y div 2 ^ w \<or> X mod 2 ^ w \<noteq> Y mod 2 ^ w"
    using digit_eq [of X Y "2 ^ w"] by blast
  let ?body = "[OP_FROMALTSTACK, OP_FROMALTSTACK, OP_ROT, OP_IF_ELSE [OP_2DROP, push 1] [OP_ROT, OP_DROP, OP_OVER, OP_BOOLOR]]"
  have step: "exec vm (?body @ q) (State (bool_item (X div 2 ^ w \<noteq> Y div 2 ^ w) # bool_item (X div 2 ^ w < Y div 2 ^ w) # s)
        (bool_item (X mod 2 ^ w < Y mod 2 ^ w) # bool_item (Y mod 2 ^ w < X mod 2 ^ w) # al')) =
      exec vm q (State (bool_item (X \<noteq> Y) # bool_item (X < Y) # s) al')" for q al'
  proof (cases "X div 2 ^ w = Y div 2 ^ w")
    case True
    have "X mod 2 ^ w \<noteq> Y mod 2 ^ w \<longleftrightarrow> Y mod 2 ^ w < X mod 2 ^ w \<or> X mod 2 ^ w < Y mod 2 ^ w" by linarith
    then show ?thesis unfolding ne lt using True by (simp add: exec_simps)
  next
    case False
    have "X < Y \<longleftrightarrow> X div 2 ^ w < Y div 2 ^ w" "X \<noteq> Y" using lt ne False by blast+
    then show ?thesis using False by (simp add: exec_simps one)
  qed
  have "rev (concat (map2 limb_flags (mixed (ws @ [w]) y) (mixed (ws @ [w]) x))) @ al =
      bool_item (X mod 2 ^ w < Y mod 2 ^ w) # bool_item (Y mod 2 ^ w < X mod 2 ^ w) #
      rev (concat (map2 limb_flags (mixed ws y) (mixed ws x))) @ al"
    by (simp add: mixed_append limb_flags_def X_def Y_def)
  then show ?case using step snoc.IH by (simp add: d repeat_script_Suc X_def Y_def)
qed simp

lemma exec_compare_limbs:
  assumes "bigint_ok b" "in_range b x" "in_range b y"
  shows "exec vm (compare_limbs b @ p) (State (zipped b y x @ s) al) = exec vm p (State (bool_item (x < y) # s) al)"
proof -
  note b = bigint_okD [OF assms(1)]
  define k where "k = n_limbs b - 1"
  have n: "n_limbs b = Suc k" using b(3) by (simp add: k_def)
  define vs where "vs = replicate k (limb_size b)"
  have sz: "sizes b = vs @ [head b]" by (simp add: sizes_def vs_def k_def)
  have small: "\<forall>w\<in>set (sizes b). w \<le> 30" using b by (auto simp: sz vs_def)
  have sum: "sum_list vs + head b = n_bits b" using b(6) by (simp add: vs_def sum_list_replicate k_def)
  define X Y where "X = x div 2 ^ sum_list vs" and "Y = y div 2 ^ sum_list vs"
  have top: "z div 2 ^ sum_list vs mod 2 ^ head b = z div 2 ^ sum_list vs" if "in_range b z" for z
  proof -
    have "z div 2 ^ sum_list vs < 2 ^ head b"
      by (rule int_div_less) (use that sum in \<open>simp_all add: in_range_def power_add [symmetric] add.commute\<close>)
    then show ?thesis using that by (simp add: in_range_def pos_imp_zdiv_nonneg_iff)
  qed
  have flags: "rev (concat (map2 limb_flags (mixed (sizes b) y) (mixed (sizes b) x))) @ al =
      bool_item (X < Y) # bool_item (Y < X) # rev (concat (map2 limb_flags (mixed vs y) (mixed vs x))) @ al"
    using top assms(2,3) by (simp add: sz mixed_append limb_flags_def X_def Y_def)
  have len: "length (sizes b) = Suc k" "length vs = k" using assms(1) n by (simp_all add: vs_def)
  let ?cmp = "[OP_2DUP, OP_GREATERTHAN, OP_TOALTSTACK, OP_LESSTHAN, OP_TOALTSTACK]"
  let ?body = "[OP_FROMALTSTACK, OP_FROMALTSTACK, OP_ROT, OP_IF_ELSE [OP_2DROP, push 1] [OP_ROT, OP_DROP, OP_OVER, OP_BOOLOR]]"
  have "exec vm (compare_limbs b @ p) (State (zipped b y x @ s) al) =
      exec vm (repeat_script (length (sizes b)) ?cmp @ [OP_FROMALTSTACK, OP_FROMALTSTACK, OP_OVER, OP_BOOLOR] @
        repeat_script (length vs) ?body @ OP_BOOLAND # p) (State (zipped b y x @ s) al)"
    by (simp add: compare_limbs_def for_range_const n len repeat_script_Suc)
  also have "\<dots> = exec vm ([OP_FROMALTSTACK, OP_FROMALTSTACK, OP_OVER, OP_BOOLOR] @ repeat_script (length vs) ?body @ OP_BOOLAND # p)
      (State s (rev (concat (map2 limb_flags (mixed (sizes b) y) (mixed (sizes b) x))) @ al))"
    unfolding zipped_def big_items_def limbs_def by (rule exec_flags [OF small])
  also have "\<dots> = exec vm (repeat_script (length vs) ?body @ OP_BOOLAND # p)
      (State (bool_item (Y < X \<or> X < Y) # bool_item (X < Y) # s) (rev (concat (map2 limb_flags (mixed vs y) (mixed vs x))) @ al))"
    unfolding flags by (simp add: exec_simps)
  also have "Y < X \<or> X < Y \<longleftrightarrow> X \<noteq> Y" by linarith
  also have "exec vm (repeat_script (length vs) ?body @ OP_BOOLAND # p)
      (State (bool_item (X \<noteq> Y) # bool_item (X < Y) # s) (rev (concat (map2 limb_flags (mixed vs y) (mixed vs x))) @ al)) =
      exec vm p (State (bool_item (x < y) # s) al)"
    unfolding X_def Y_def exec_decide by (auto simp: exec_simps intro: arg_cong)
  finally show ?thesis .
qed

section \<open>Comparisons at positions of the stack\<close>

text \<open>A generator that takes two integers off the stack and leaves a truth value.\<close>

definition decides :: "bigint_type \<Rightarrow> nat \<Rightarrow> nat \<Rightarrow> int list \<Rightarrow> script option \<Rightarrow> bool \<Rightarrow> bool" where
  "decides b x y ws gen c \<longleftrightarrow> (\<exists>z. gen = Some z \<and>
     (\<forall>vm p s al. exec vm (z @ p) (State (bigs b ws @ s) al) =
        exec vm p (State (bool_item c # bigs b (remove_nth (min x y) (remove_nth (max x y) ws)) @ s) al)))"

lemma decides_zip:
  assumes "bigint_ok b" "x \<noteq> y" "x < length ws" "y < length ws" "small_bigs b ws"
    and "\<And>vm p s al. exec vm (q @ p) (State (zipped b (ws ! y) (ws ! x) @ s) al) = exec vm p (State (bool_item c # s) al)"
  shows "decides b x y ws (map_option (\<lambda>zip. zip @ q) (zip_bigints b x y)) c"
  using zip_bigints_defined [OF assms(1,2)] exec_zip_bigints [OF assms(1-5)] assms(6) by (auto simp: decides_def)

lemma decides_not: "decides b x y ws gen c \<Longrightarrow> decides b x y ws (map_option (\<lambda>q. q @ [OP_NOT]) gen) (\<not> c)"
  by (auto simp: decides_def exec_simps)

lemma decides_sym: "decides b x y ws gen c \<Longrightarrow> decides b y x ws gen c"
  by (simp add: decides_def min.commute max.commute)

lemma decides_lessthan:
  assumes "bigint_ok b" "x \<noteq> y" "x < length ws" "y < length ws" "small_bigs b ws" "in_range b (ws ! x)" "in_range b (ws ! y)"
  shows "decides b x y ws (lessthan_bigints b x y) (ws ! x < ws ! y)"
  unfolding lessthan_bigints_def by (rule decides_zip [OF assms(1-5)]) (rule exec_compare_limbs [OF assms(1,6,7)])

lemma decides_equal:
  assumes "bigint_ok b" "x \<noteq> y" "x < length ws" "y < length ws" "small_bigs b ws" "in_range b (ws ! x)" "in_range b (ws ! y)"
  shows "decides b x y ws (equal_bigints b x y) (ws ! x = ws ! y)"
  unfolding equal_bigints_def by (rule decides_zip [OF assms(1-5)]) (rule exec_equal_limbs [OF assms(1,6,7)])

text \<open>C38. The six comparisons of two integers at different positions are generated without a panic, remove both
  integers, and leave the truth value of the comparison of their values.\<close>

theorem bigints_compared_by_value:
  assumes "bigint_ok b" "x \<noteq> y" "x < length ws" "y < length ws" "small_bigs b ws" "in_range b (ws ! x)" "in_range b (ws ! y)"
  shows "decides b x y ws (equal_bigints b x y) (ws ! x = ws ! y) \<and>
    decides b x y ws (notequal_bigints b x y) (ws ! x \<noteq> ws ! y) \<and>
    decides b x y ws (lessthan_bigints b x y) (ws ! x < ws ! y) \<and>
    decides b x y ws (lessthanorequal_bigints b x y) (ws ! x \<le> ws ! y) \<and>
    decides b x y ws (greaterthan_bigints b x y) (ws ! x > ws ! y) \<and>
    decides b x y ws (greaterthanorequal_bigints b x y) (ws ! x \<ge> ws ! y)"
proof -
  note eq = decides_equal [OF assms] and lt = decides_lessthan [OF assms]
    and gt = decides_sym [OF decides_lessthan [OF assms(1) assms(2) [symmetric] assms(4,3,5,7,6)]]
  show ?thesis
    using eq lt decides_not [OF eq] decides_not [OF lt] decides_not [OF gt] decides_not [OF decides_not [OF gt], unfolded not_not]
    by (simp add: notequal_bigints_def lessthanorequal_bigints_def greaterthan_bigints_def
        greaterthanorequal_bigints_def not_less)
qed

lemma bigints_compared_by_value_witness:
  "decides u64_limbs 1 0 [3, 9223372036854775808] (greaterthan_bigints u64_limbs 1 0) True \<and>
   decides u64_limbs 1 0 [3, 9223372036854775808] (lessthanorequal_bigints u64_limbs 1 0) False"
  using bigints_compared_by_value [of u64_limbs 1 0 "[3, 9223372036854775808]"]
  by (simp add: bigint_ok_def n_limbs_def u64_limbs_def small_bigs_def in_range_def)

end
