(* ===== verification/Bigint_Words.thy ===== *)
theory Bigint_Words
  imports Bigint_Std
begin

text \<open>
  Constants in \<open>bitvm/src/bigint/std.rs\<close>: little-endian words turned into pushes of limbs, the check that the highest bit
  fits the type, and the limbs of a witness read back into words.
\<close>

unbundle bit_operations_syntax

section \<open>Bits and chunks\<close>

text \<open>\<open>slice::chunks\<close>.\<close>

function chunks :: "nat \<Rightarrow> 'a list \<Rightarrow> 'a list list" where
  "chunks n xs = (if n = 0 \<or> xs = [] then [] else take n xs # chunks n (drop n xs))"
  by pat_completeness auto
termination by (relation "measure (\<lambda>(_, xs). length xs)") auto

declare chunks.simps [simp del]

text \<open>\<open>Vec::resize\<close>.\<close>

definition resize_bits :: "nat \<Rightarrow> bool list \<Rightarrow> bool list" where
  "resize_bits n bs = take n bs @ replicate (n - length bs) False"

text \<open>The sum of \<open>1 << i\<close> over the set bits, in 32-bit arithmetic.\<close>

definition bits_to_word :: "bool list \<Rightarrow> u32" where
  "bits_to_word bs = horner_sum of_bool 2 bs"

definition word_bits :: "u32 list \<Rightarrow> bool list" where
  "word_bits v = concat (map (\<lambda>elem. map (bit elem) [0..<32]) v)"

text \<open>The loop that looks for the most significant one, from the end of the bits.\<close>

primrec ms_one_from :: "bool list \<Rightarrow> nat \<Rightarrow> nat" where
  "ms_one_from bits 0 = 0"
| "ms_one_from bits (Suc i) = (if bits ! Suc i then Suc i else ms_one_from bits i)"

definition ms_one :: "bool list \<Rightarrow> nat" where
  "ms_one bits = (if length bits > 0 then ms_one_from bits (length bits - 1) else 0)"

section \<open>Generators\<close>

definition push_u32_le :: "bigint_type \<Rightarrow> u32 list \<Rightarrow> script option" where
  "push_u32_le b v = do {
     let bits = word_bits v;
     rust_assert (ms_one bits < n_bits b);
     let limbs = rev (map (\<lambda>chunk. bits_to_word (resize_bits (limb_size b) chunk))
       (chunks (limb_size b) (resize_bits (n_bits b) bits)));
     Some (map (\<lambda>limb. push (uint limb)) limbs @ push_to_stack 0 (n_limbs b - length limbs)) }"

definition push_u64_le :: "bigint_type \<Rightarrow> u64 list \<Rightarrow> script option" where
  "push_u64_le b v =
     push_u32_le b (concat (map (\<lambda>w. [ucast (w AND 0xffffffff), ucast (drop_bit 32 w AND 0xffffffff)]) v))"

text \<open>The bits of an arbitrary natural number, as \<open>BigUint\<close> gives them.\<close>

definition biguint_to_limbs :: "bigint_type \<Rightarrow> nat \<Rightarrow> u32 list" where
  "biguint_to_limbs b x = map bits_to_word (chunks (limb_size b) (map (bit x) [0..<n_bits b]))"

definition push_biguint :: "bigint_type \<Rightarrow> nat \<Rightarrow> script" where
  "push_biguint b x = map (\<lambda>limb. push (uint limb)) (rev (biguint_to_limbs b x))"

text \<open>\<open>read_scriptint\<close> of a witness element: at most four bytes, minimally encoded.\<close>

definition read_scriptint :: "item \<Rightarrow> int option" where
  "read_scriptint v = (if 4 < length v \<or> scriptnum (scriptnum_value v) \<noteq> v then None else Some (scriptnum_value v))"

fun read_limbs :: "nat \<Rightarrow> item list \<Rightarrow> bool list option" where
  "read_limbs w [] = Some []"
| "read_limbs w (element # es) = do {
     limb \<leftarrow> read_scriptint element;
     bits \<leftarrow> read_limbs w es;
     Some (map (bit limb) [0..<w] @ bits) }"

definition read_u32_le :: "bigint_type \<Rightarrow> item list \<Rightarrow> u32 list option" where
  "read_u32_le b witness = do {
     rust_assert (length witness = n_limbs b);
     bits \<leftarrow> read_limbs (limb_size b) (rev witness);
     Some (map (\<lambda>chunk. bits_to_word (resize_bits 32 chunk)) (chunks 32 (resize_bits (n_bits b) bits))) }"

section \<open>Numbers from bits\<close>

abbreviation bits_number :: "bool list \<Rightarrow> int" where
  "bits_number bs \<equiv> horner_sum of_bool 2 bs"

definition words_value :: "u32 list \<Rightarrow> int" where
  "words_value v = horner_sum uint (2 ^ 32) v"

lemma bits_number_range: "0 \<le> bits_number bs" "bits_number bs < 2 ^ length bs"
  by (induction bs) simp_all

lemma bits_number_append: "bits_number (xs @ ys) = bits_number xs + 2 ^ length xs * bits_number ys"
  by (simp add: horner_sum_append)

lemma bits_number_False [simp]: "bits_number (replicate n False) = 0"
  by (induction n) simp_all

lemma uint_bits_to_word:
  assumes "length bs \<le> 32"
  shows "uint (bits_to_word bs) = bits_number bs"
proof -
  have "bits_to_word bs = word_of_int (bits_number bs)"
    unfolding bits_to_word_def by (induction bs) simp_all
  moreover have "bits_number bs < 2 ^ 32"
    using bits_number_range(2) [of bs] power_increasing [OF assms, of "2 :: int"] by simp
  ultimately show ?thesis using bits_number_range(1) [of bs] by (simp add: take_bit_int_eq_self uint_word_of_int_eq)
qed

lemma bits_number_resize: "length bs \<le> n \<Longrightarrow> bits_number (resize_bits n bs) = bits_number bs"
  by (simp add: resize_bits_def bits_number_append)

lemma length_resize [simp]: "length (resize_bits n bs) = n"
  by (simp add: resize_bits_def)

lemma word_bits_value: "bits_number (word_bits v) = words_value v"
proof (induction v)
  case (Cons w v)
  have "map (bit w) [0..<32] = map (bit (uint w)) [0..<32]" by (rule map_cong) (simp_all add: bit_uint_iff)
  then have "bits_number (map (bit w) [0..<32]) = take_bit 32 (uint w)" by (simp only: horner_sum_bit_eq_take_bit)
  also have "\<dots> = uint w" by (rule take_bit_int_eq_self) (use uint_lt2p [of w] in simp_all)
  finally have "bits_number (map (bit w) [0..<32]) = uint w" .
  then show ?case using Cons by (simp add: word_bits_def words_value_def bits_number_append)
qed (simp add: word_bits_def words_value_def)

section \<open>Bits in chunks\<close>

lemma chunks_Nil [simp]: "chunks n [] = []"
  by (simp add: chunks.simps)

lemma chunks_step: "0 < n \<Longrightarrow> xs \<noteq> [] \<Longrightarrow> chunks n xs = take n xs # chunks n (drop n xs)"
  by (simp add: chunks.simps)

lemma value_split:
  "w \<le> length bs \<Longrightarrow> bits_number (take w bs) = bits_number bs mod 2 ^ w \<and> bits_number (drop w bs) = bits_number bs div 2 ^ w"
  using bits_number_append [of "take w bs" "drop w bs"] bits_number_range [of "take w bs"] by simp

text \<open>Chunks of the bits of a number are its limbs.\<close>

lemma chunks_limbs:
  assumes "0 < w" "0 < h" "h \<le> w" "length bs = k * w + h"
  shows "map bits_number (chunks w bs) = mixed (replicate k w @ [h]) (bits_number bs) \<and> (\<forall>c\<in>set (chunks w bs). length c \<le> w)"
  using assms(4)
proof (induction k arbitrary: bs)
  case 0
  then have "chunks w bs = [bs]" using assms by (cases "bs = []") (simp_all add: chunks_step)
  then show ?case using 0 bits_number_range [of bs] assms by simp
next
  case (Suc k)
  then have ne: "bs \<noteq> []" "w \<le> length bs" using assms by auto
  have "length (drop w bs) = k * w + h" using Suc.prems by simp
  from Suc.IH [OF this] show ?case using value_split [OF ne(2)] by (simp add: chunks_step [OF assms(1) ne(1)])
qed

lemma map_push_rev: "exec vm (map (\<lambda>limb. push (f limb)) (rev ls) @ p) (State s al) = exec vm p (State (map (\<lambda>l. scriptnum (f l)) ls @ s) al)"
  by (induction ls arbitrary: p) (simp_all add: exec_push)

text \<open>The highest set bit decides whether the number fits.\<close>

lemma ms_one_from_fits: "i < length bits \<Longrightarrow> ms_one_from bits i < n \<longleftrightarrow> 0 < n \<and> (\<forall>j\<le>i. n \<le> j \<longrightarrow> \<not> bits ! j)"
proof (induction i)
  case (Suc i)
  then show ?case by (auto simp: le_Suc_eq)
qed auto

lemma ms_one_fits:
  assumes "0 < n"
  shows "ms_one bits < n \<longleftrightarrow> bits_number bits < 2 ^ n"
proof (cases "bits = [] \<or> length bits \<le> n")
  case True
  have "ms_one bits < n" using True assms ms_one_from_fits [of "length bits - 1" bits n] by (cases "bits = []") (auto simp: ms_one_def)
  moreover have "bits_number bits < 2 ^ n"
    by (rule less_le_trans [OF bits_number_range(2)]) (use True in \<open>auto intro: power_increasing\<close>)
  ultimately show ?thesis by simp
next
  case False
  have "ms_one bits < n \<longleftrightarrow> (\<forall>j<length bits. n \<le> j \<longrightarrow> \<not> bits ! j)"
    using False assms ms_one_from_fits [of "length bits - 1" bits n] by (auto simp: ms_one_def less_Suc_eq_le Suc_diff_le)
  also have "\<dots> \<longleftrightarrow> (\<forall>c\<in>set (drop n bits). \<not> c)"
    using False by (simp add: all_set_conv_all_nth less_diff_conv)
      (metis add.commute le_add1 le_add_diff_inverse)
  also have "\<dots> \<longleftrightarrow> bits_number (drop n bits) = 0"
  proof -
    have zero: "bits_number cs = 0 \<longleftrightarrow> (\<forall>c\<in>set cs. \<not> c)" for cs
    proof (induction cs)
      case (Cons c cs)
      then show ?case using bits_number_range(1) [of cs] by (cases c) auto
    qed simp
    show ?thesis by (simp add: zero)
  qed
  also have "\<dots> \<longleftrightarrow> bits_number bits < 2 ^ n"
    using value_split [of n bits] False bits_number_range(1) [of bits] by (auto simp: zdiv_eq_0_iff)
  finally show ?thesis .
qed

section \<open>What is pushed and what is read\<close>

lemma limbs_of_bits:
  assumes "bigint_ok b" "length bs = n_bits b"
  shows "map (\<lambda>c. uint (bits_to_word (resize_bits (limb_size b) c))) (chunks (limb_size b) bs) = limbs b (bits_number bs)"
    "map (\<lambda>c. uint (bits_to_word c)) (chunks (limb_size b) bs) = limbs b (bits_number bs)"
proof -
  note b = bigint_okD [OF assms(1)]
  have c: "map bits_number (chunks (limb_size b) bs) = limbs b (bits_number bs)" "\<forall>c\<in>set (chunks (limb_size b) bs). length c \<le> limb_size b"
    using chunks_limbs [OF b(1,4,5), of bs "n_limbs b - 1"] assms(2) b(6) by (simp_all add: limbs_def sizes_def)
  have "map (\<lambda>c. uint (bits_to_word (resize_bits (limb_size b) c))) (chunks (limb_size b) bs) = map bits_number (chunks (limb_size b) bs)"
    "map (\<lambda>c. uint (bits_to_word c)) (chunks (limb_size b) bs) = map bits_number (chunks (limb_size b) bs)"
    using c(2) b(2) by (auto simp: uint_bits_to_word bits_number_resize)
  then show "map (\<lambda>c. uint (bits_to_word (resize_bits (limb_size b) c))) (chunks (limb_size b) bs) = limbs b (bits_number bs)"
    "map (\<lambda>c. uint (bits_to_word c)) (chunks (limb_size b) bs) = limbs b (bits_number bs)" using c(1) by simp_all
qed

lemma bits_number_resize_fit:
  assumes "bits_number bs < 2 ^ n"
  shows "bits_number (resize_bits n bs) = bits_number bs"
proof (cases "length bs \<le> n")
  case False
  then show ?thesis using value_split [of n bs] assms bits_number_range(1) [of bs] by (simp add: resize_bits_def)
qed (simp add: bits_number_resize)

lemma exec_push_u32_le:
  assumes "bigint_ok b" "push_u32_le b v = Some z"
  shows "exec vm (z @ p) (State s al) = exec vm p (State (big_items b (words_value v) @ s) al)"
proof -
  note b = bigint_okD [OF assms(1)]
  have pos: "0 < n_bits b" using b(4,6) by simp
  define cs where "cs = chunks (limb_size b) (resize_bits (n_bits b) (word_bits v))"
  have fit: "bits_number (word_bits v) < 2 ^ n_bits b"
    and z: "z = map (\<lambda>limb. push (uint limb)) (rev (map (\<lambda>chunk. bits_to_word (resize_bits (limb_size b) chunk)) cs)) @
      push_to_stack 0 (n_limbs b - length cs)"
    using assms(2) ms_one_fits [OF pos] by (auto simp: push_u32_le_def rust_assert_bind_Some_iff Let_def cs_def)
  have ls: "map (\<lambda>c. uint (bits_to_word (resize_bits (limb_size b) c))) cs = limbs b (words_value v)"
    using limbs_of_bits(1) [OF assms(1), of "resize_bits (n_bits b) (word_bits v)"] bits_number_resize_fit [OF fit]
    by (simp add: cs_def word_bits_value)
  have "length (map (\<lambda>c. uint (bits_to_word (resize_bits (limb_size b) c))) cs) = n_limbs b" unfolding ls using assms(1) by simp
  then have "push_to_stack 0 (n_limbs b - length cs) = []" by (simp add: push_to_stack_def)
  moreover have "map (\<lambda>l. scriptnum (uint l)) (map (\<lambda>chunk. bits_to_word (resize_bits (limb_size b) chunk)) cs) = big_items b (words_value v)"
    by (simp add: big_items_def flip: ls)
  ultimately show ?thesis unfolding z append_assoc map_push_rev by (simp only: append_Nil)
qed

lemma push_u32_le_defined:
  assumes "bigint_ok b"
  shows "(\<exists>z. push_u32_le b v = Some z) \<longleftrightarrow> words_value v < 2 ^ n_bits b"
proof -
  have "0 < n_bits b" using bigint_okD(4,6) [OF assms] by simp
  then show ?thesis using ms_one_fits [of "n_bits b" "word_bits v"]
    by (auto simp: push_u32_le_def word_bits_value rust_assert_def Let_def)
qed

lemma read_scriptint_scriptnum: "num_ok d \<Longrightarrow> read_scriptint (scriptnum d) = Some d"
  using length_scriptnum_le_4 [of d] by (simp add: read_scriptint_def)

lemma read_limbs_bits:
  "\<forall>d\<in>set ds. num_ok d \<Longrightarrow> read_limbs w (map scriptnum ds) = Some (concat (map (\<lambda>d. map (bit d) [0..<w]) ds))"
  by (induction ds) (simp_all add: read_scriptint_scriptnum)

lemma bits_of_limbs:
  "h \<le> w \<Longrightarrow> take (k * w + h) (concat (map (\<lambda>d. map (bit d) [0..<w]) (mixed (replicate k w @ [h]) x))) =
   map (bit x) [0..<k * w + h]"
proof (induction k arbitrary: x)
  case 0
  have "take h (map (bit (x mod 2 ^ h)) [0..<w]) = map (bit (x mod 2 ^ h)) [0..<h]" using 0 by (simp add: take_map)
  also have "\<dots> = map (bit x) [0..<h]" by (rule map_cong) (simp_all add: bit_take_bit_iff flip: take_bit_eq_mod)
  finally show ?case by simp
next
  case (Suc k)
  have low: "map (bit (x mod 2 ^ w)) [0..<w] = map (bit x) [0..<w]"
    by (rule map_cong) (simp_all add: bit_take_bit_iff flip: take_bit_eq_mod)
  have high: "map (bit (x div 2 ^ w)) [0..<k * w + h] = map (bit x) [w..<Suc k * w + h]"
  proof (rule nth_equalityI)
    fix i
    assume "i < length (map (bit (x div 2 ^ w)) [0..<k * w + h])"
    then show "map (bit (x div 2 ^ w)) [0..<k * w + h] ! i = map (bit x) [w..<Suc k * w + h] ! i"
      by (simp add: bit_drop_bit_eq add.commute flip: drop_bit_eq_div)
  qed simp
  have "[0..<Suc k * w + h] = [0..<w] @ [w..<Suc k * w + h]"
    using upt_add_eq_append [of 0 w "k * w + h"] by (simp add: add.assoc)
  then show ?case using Suc.IH [OF Suc.prems, of "x div 2 ^ w"] low high by (simp add: add.assoc)
qed

lemma words_of_chunks:
  "words_value (map (\<lambda>chunk. bits_to_word (resize_bits 32 chunk)) (chunks 32 bs)) = bits_number bs"
proof (induction "length bs" arbitrary: bs rule: less_induct)
  case less
  show ?case
  proof (cases "bs = []")
    case False
    have head: "uint (bits_to_word (resize_bits 32 (take 32 bs))) = bits_number (take 32 bs)"
      by (subst uint_bits_to_word) (simp_all add: bits_number_resize)
    have "words_value (map (\<lambda>chunk. bits_to_word (resize_bits 32 chunk)) (chunks 32 bs)) =
        bits_number (take 32 bs) + 2 ^ 32 * bits_number (drop 32 bs)"
      using less [of "drop 32 bs"] False head by (simp add: chunks_step words_value_def)
    also have "\<dots> = bits_number bs"
      using bits_number_append [of "take 32 bs" "drop 32 bs"] by (cases "length bs \<le> 32") simp_all
    finally show ?thesis .
  qed (simp add: words_value_def)
qed

lemma length_chunks: "0 < n \<Longrightarrow> length (chunks n bs) = (length bs + n - 1) div n"
proof (induction "length bs" arbitrary: bs rule: less_induct)
  case less
  show ?case
  proof (cases "bs = []")
    case False
    have "length (chunks n bs) = Suc ((length bs - n + n - 1) div n)"
      using less.hyps [of "drop n bs"] less.prems False by (simp add: chunks_step)
    also have "\<dots> = (length bs + n - 1) div n"
    proof -
      have e: "length bs + n - 1 = n + (length bs - 1)" using False by (cases bs) simp_all
      have "(length bs + n - 1) div n = Suc ((length bs - 1) div n)" unfolding e using less.prems div_add_self1 [of n "length bs - 1"] by (simp add: One_nat_def)
      then show ?thesis using less.prems by (cases "n \<le> length bs") simp_all
    qed
    finally show ?thesis .
  qed (use less.prems in simp)
qed

lemma read_u32_le_limbs:
  assumes "bigint_ok b" "in_range b x"
  shows "\<exists>v. read_u32_le b (rev (big_items b x)) = Some v \<and> words_value v = x \<and> length v = (n_bits b + 31) div 32"
proof -
  note b = bigint_okD [OF assms(1)]
  have ok: "\<forall>d\<in>set (limbs b x). num_ok d" using limbs_num_ok [OF assms(1)] by blast
  define bs where "bs = concat (map (\<lambda>d. map (bit d) [0..<limb_size b]) (limbs b x))"
  have bs: "read_limbs (limb_size b) (big_items b x) = Some bs"
    unfolding big_items_def bs_def by (rule read_limbs_bits [OF ok])
  have "length bs = n_limbs b * limb_size b" using assms(1) by (simp add: bs_def length_concat comp_def sum_list_replicate map_replicate_const)
  moreover have "n_bits b \<le> n_limbs b * limb_size b"
    using b(5,6) b(3) by (cases "n_limbs b") simp_all
  moreover have "take (n_bits b) bs = map (bit x) [0..<n_bits b]"
    using bits_of_limbs [OF b(5), of "n_limbs b - 1" x] b(6) by (simp add: bs_def limbs_def sizes_def)
  ultimately have r: "resize_bits (n_bits b) bs = map (bit x) [0..<n_bits b]" by (simp add: resize_bits_def)
  have "bits_number (map (bit x) [0..<n_bits b]) = x"
    using assms(2) by (simp add: horner_sum_bit_eq_take_bit take_bit_int_eq_self in_range_def)
  then show ?thesis using words_of_chunks [of "map (bit x) [0..<n_bits b]"] assms(1)
    by (simp add: read_u32_le_def bs r length_chunks)
qed

text \<open>C39. Words are pushed exactly when the number they stand for fits the type; the limbs on the stack are those of that
  number, and reading them back gives words for it, as many as its bits need.\<close>

theorem words_pushed_and_read:
  assumes "bigint_ok b"
  shows "((\<exists>z. push_u32_le b v = Some z) \<longleftrightarrow> in_range b (words_value v)) \<and>
    (\<forall>z. push_u32_le b v = Some z \<longrightarrow>
      (\<forall>vm p s al. exec vm (z @ p) (State s al) = exec vm p (State (big_items b (words_value v) @ s) al)) \<and>
      (\<exists>u. read_u32_le b (rev (big_items b (words_value v))) = Some u \<and> words_value u = words_value v \<and>
        length u = (n_bits b + 31) div 32))"
proof -
  have pos: "0 \<le> words_value v" using bits_number_range(1) [of "word_bits v"] by (simp add: word_bits_value)
  then have range: "in_range b (words_value v) \<longleftrightarrow> words_value v < 2 ^ n_bits b" by (simp add: in_range_def)
  show ?thesis
    using push_u32_le_defined [OF assms, of v] exec_push_u32_le [OF assms] read_u32_le_limbs [OF assms, of "words_value v"] range
    by blast
qed

lemma words_pushed_and_read_witness:
  "\<exists>z u. push_u32_le u64_limbs [5, 7] = Some z \<and> words_value u = 30064771077 \<and>
    read_u32_le u64_limbs (rev (big_items u64_limbs 30064771077)) = Some u"
  using words_pushed_and_read [of u64_limbs "[5, 7]"]
  by (auto simp: words_value_def bigint_ok_def n_limbs_def u64_limbs_def in_range_def)

end
