(* ===== verification/Winternitz.thy ===== *)
theory Winternitz
  imports Pseudo
begin

text \<open>
  One-time signatures over hash chains: \<open>bitvm/src/signatures/utils.rs\<close> and \<open>winternitz.rs\<close>. A message is a list of
  digits; a checksum in further digits makes it impossible to raise some digits without lowering others. The hash of
  the scheme is the one of the script machine. A failed assertion, those of a debug build included, is \<open>None\<close>.
\<close>

section \<open>Digits\<close>

text \<open>The loop of \<open>log_base_ceil\<close>; \<open>None\<close> if it does not end.\<close>

partial_function (option) log_base_ceil_loop :: "nat \<Rightarrow> nat \<Rightarrow> nat \<Rightarrow> nat \<Rightarrow> nat option" where
  "log_base_ceil_loop n base cur res = (if cur < n then log_base_ceil_loop n base (cur * base) (res + 1) else Some res)"

definition log_base_ceil :: "nat \<Rightarrow> nat \<Rightarrow> nat option" where
  "log_base_ceil n base = log_base_ceil_loop n base 1 0"

text \<open>From the last digit to the first.\<close>

fun checksum_loop :: "nat \<Rightarrow> nat \<Rightarrow> nat \<Rightarrow> nat list" where
  "checksum_loop base 0 checksum = []"
| "checksum_loop base (Suc n) checksum = checksum_loop base n ((checksum - checksum mod base) div base) @ [checksum mod base]"

definition checksum_to_digits :: "nat \<Rightarrow> nat \<Rightarrow> nat \<Rightarrow> nat list option" where
  "checksum_to_digits checksum base n_digits = do {
     rust_assert (16 \<le> base \<and> base \<le> 256);
     rust_assert (base ^ n_digits < 2 ^ 32 \<longrightarrow> checksum < base ^ n_digits);
     Some (checksum_loop base n_digits checksum) }"

text \<open>One bit after the other, from the lowest of the first byte.\<close>

fun place_bits :: "nat \<Rightarrow> bool list \<Rightarrow> nat \<Rightarrow> nat \<Rightarrow> nat list \<Rightarrow> nat list option" where
  "place_bits log2_base [] digit_idx bit_idx digits = Some digits"
| "place_bits log2_base (b # bs) digit_idx bit_idx digits =
     (let (digit_idx, bit_idx) = (if bit_idx = log2_base then (digit_idx + 1, 0) else (digit_idx, bit_idx)) in do {
        rust_assert (digit_idx < length digits);
        place_bits log2_base bs digit_idx (bit_idx + 1) (digits[digit_idx := Bit_Operations.or (digits ! digit_idx) (push_bit bit_idx (of_bool b))]) })"

definition message_to_digits :: "nat \<Rightarrow> nat \<Rightarrow> item \<Rightarrow> nat list option" where
  "message_to_digits n_digits log2_base message = do {
     rust_assert (4 \<le> log2_base \<and> log2_base \<le> 8);
     rust_assert (length message * 8 \<le> n_digits * log2_base);
     map_option rev (place_bits log2_base (concat (map (\<lambda>byte. map (bit byte) [0..<8]) message)) 0 0 (replicate n_digits 0)) }"

definition digits_to_number :: "nat \<Rightarrow> nat \<Rightarrow> script option" where
  "digits_to_number n_digits log2_base = do {
     k \<leftarrow> checked_sub n_digits 1;
     Some (for_range 0 k (\<lambda>_. [OP_TOALTSTACK]) @
       for_range 0 k (\<lambda>_. for_range 0 log2_base (\<lambda>_. [OP_DUP, OP_ADD]) @ [OP_FROMALTSTACK, OP_ADD])) }"

definition bitcoin_representation :: "int \<Rightarrow> item" where
  "bitcoin_representation x = scriptnum x"

section \<open>Parameters\<close>

record wots_parameters =
  message_digit_len :: nat
  log2_base :: nat
  checksum_digit_len :: nat

definition parameters_new :: "nat \<Rightarrow> nat \<Rightarrow> wots_parameters option" where
  "parameters_new n w = do {
     rust_assert (4 \<le> w \<and> w \<le> 8);
     rust_assert ((2 ^ w - 1) * n + 1 < 2 ^ 32);
     c \<leftarrow> log_base_ceil ((2 ^ w - 1) * n + 1) (2 ^ w);
     Some \<lparr>message_digit_len = n, log2_base = w, checksum_digit_len = c\<rparr> }"

definition new_by_bit_length :: "nat \<Rightarrow> nat \<Rightarrow> wots_parameters option" where
  "new_by_bit_length message_n_bits w = (if w = 0 then None else parameters_new ((message_n_bits + w - 1) div w) w)"

definition max_digit :: "wots_parameters \<Rightarrow> nat" where
  "max_digit ps = 2 ^ log2_base ps - 1"

definition message_byte_len :: "wots_parameters \<Rightarrow> nat" where
  "message_byte_len ps = (message_digit_len ps * log2_base ps + 7) div 8"

definition total_digit_len :: "wots_parameters \<Rightarrow> nat" where
  "total_digit_len ps = message_digit_len ps + checksum_digit_len ps"

section \<open>Keys and signatures\<close>

text \<open>\<open>HASH160\<close> repeated.\<close>

definition chain :: "vm \<Rightarrow> nat \<Rightarrow> item \<Rightarrow> item" where
  "chain vm k h = (hash160 vm ^^ k) h"

text \<open>The index of a digit in bytes, the lowest first, behind the secret.\<close>

definition secret_key_for_digit :: "vm \<Rightarrow> item \<Rightarrow> nat \<Rightarrow> item" where
  "secret_key_for_digit vm secret_key digit_index = hash160 vm (secret_key @ nat_to_le digit_index)"

definition digit_signature :: "vm \<Rightarrow> item \<Rightarrow> nat \<Rightarrow> nat \<Rightarrow> item" where
  "digit_signature vm secret_key digit_index message_digit = chain vm message_digit (secret_key_for_digit vm secret_key digit_index)"

definition public_key_for_digit :: "vm \<Rightarrow> wots_parameters \<Rightarrow> item \<Rightarrow> nat \<Rightarrow> item" where
  "public_key_for_digit vm ps secret_key digit_index = chain vm (max_digit ps) (secret_key_for_digit vm secret_key digit_index)"

definition generate_public_key :: "vm \<Rightarrow> wots_parameters \<Rightarrow> item \<Rightarrow> item list" where
  "generate_public_key vm ps secret_key = map (public_key_for_digit vm ps secret_key) [0..<total_digit_len ps]"

definition wots_checksum :: "wots_parameters \<Rightarrow> nat list \<Rightarrow> nat option" where
  "wots_checksum ps digits = do {
     rust_assert (length digits = message_digit_len ps);
     checked_sub (max_digit ps * message_digit_len ps) (sum_list digits) }"

definition add_message_checksum :: "wots_parameters \<Rightarrow> nat list \<Rightarrow> nat list option" where
  "add_message_checksum ps digits = do {
     rust_assert (length digits = message_digit_len ps);
     c \<leftarrow> wots_checksum ps digits;
     checksum_digits \<leftarrow> checksum_to_digits c (max_digit ps + 1) (checksum_digit_len ps);
     Some (digits @ checksum_digits) }"

text \<open>The witness of \<open>ListpickVerifier\<close> and \<open>BinarysearchVerifier\<close>, and the one of \<open>BruteforceVerifier\<close> without the digits.\<close>

definition sign_digits :: "vm \<Rightarrow> wots_parameters \<Rightarrow> item \<Rightarrow> nat list \<Rightarrow> item list option" where
  "sign_digits vm ps secret_key message_digits =
     map_option (\<lambda>digits. concat (map (\<lambda>i. [digit_signature vm secret_key i (digits ! i), bitcoin_representation (int (digits ! i))])
       [0..<total_digit_len ps])) (add_message_checksum ps message_digits)"

definition sign_digits_compact :: "vm \<Rightarrow> wots_parameters \<Rightarrow> item \<Rightarrow> nat list \<Rightarrow> item list option" where
  "sign_digits_compact vm ps secret_key message_digits =
     map_option (\<lambda>digits. map (\<lambda>i. digit_signature vm secret_key i (digits ! i)) [0..<total_digit_len ps])
       (add_message_checksum ps message_digits)"

definition wots_sign :: "(nat list \<Rightarrow> item list option) \<Rightarrow> wots_parameters \<Rightarrow> item \<Rightarrow> item list option" where
  "wots_sign sign ps message = message_to_digits (message_digit_len ps) (log2_base ps) message \<bind> sign"

section \<open>Scripts\<close>

text \<open>One digit of the public key at a time, the last one first; a key that is too short is an index out of range.\<close>

definition for_digits :: "wots_parameters \<Rightarrow> item list \<Rightarrow> (item \<Rightarrow> script) \<Rightarrow> script option" where
  "for_digits ps public_key one = do {
     rust_assert (total_digit_len ps \<le> length public_key);
     Some (for_range 0 (total_digit_len ps) (\<lambda>i. one (public_key ! (total_digit_len ps - 1 - i)))) }"

definition listpick_digit :: "wots_parameters \<Rightarrow> item \<Rightarrow> script" where
  "listpick_digit ps pk =
     [OP_SWAP, OP_SIZE, push 20, OP_EQUALVERIFY, OP_SWAP, pushn (max_digit ps), OP_MIN, OP_DUP, OP_TOALTSTACK,
      pushn ((max_digit ps + 1) div 2), OP_2DUP, OP_LESSTHAN,
      OP_IF_ELSE ([OP_DROP, OP_TOALTSTACK] @ for_range 0 ((max_digit ps + 1) div 2) (\<lambda>_. [OP_HASH160])) [OP_SUB, OP_TOALTSTACK]] @
     for_range 0 (max_digit ps div 2) (\<lambda>_. [OP_DUP, OP_HASH160]) @
     [OP_FROMALTSTACK, OP_PICK, Push pk, OP_EQUALVERIFY] @
     for_range 0 ((max_digit ps + 1) div 4) (\<lambda>_. [OP_2DROP])"

definition bruteforce_digit :: "wots_parameters \<Rightarrow> item \<Rightarrow> script" where
  "bruteforce_digit ps pk =
     [OP_SIZE, push 20, OP_EQUALVERIFY, Push pk, OP_SWAP, push (- 1), OP_TOALTSTACK, OP_2DUP, OP_EQUAL,
      OP_IF [pushn (max_digit ps), OP_TOALTSTACK]] @
     for_range 0 (max_digit ps) (\<lambda>i. [OP_HASH160, OP_2DUP, OP_EQUAL, OP_IF [pushn (max_digit ps - i - 1), OP_TOALTSTACK]]) @
     [OP_2DROP, OP_FROMALTSTACK, OP_DUP, push (- 1), OP_NUMNOTEQUAL, OP_VERIFY, OP_FROMALTSTACK, push (- 1), OP_EQUALVERIFY,
      OP_TOALTSTACK]"

definition binarysearch_digit :: "wots_parameters \<Rightarrow> item \<Rightarrow> script" where
  "binarysearch_digit ps pk =
     [OP_SWAP, OP_SIZE, push 20, OP_EQUALVERIFY, OP_SWAP, OP_DUP, OP_TOALTSTACK, pushn (max_digit ps), OP_SWAP, OP_SUB] @
     concat (map (\<lambda>bit. if bit \<noteq> 0
       then [push (2 ^ bit), OP_2DUP, OP_GREATERTHANOREQUAL,
         OP_IF ([OP_SUB, OP_SWAP] @ for_range 0 (2 ^ bit) (\<lambda>_. [OP_HASH160]) @ [OP_SWAP, OP_DUP]), OP_DROP]
       else [OP_IF [OP_HASH160]]) (rev [0..<log2_base ps])) @
     [Push pk, OP_EQUALVERIFY]"

definition verify_checksum :: "wots_parameters \<Rightarrow> script option" where
  "verify_checksum ps = do {
     k \<leftarrow> checked_sub (checksum_digit_len ps) 1;
     Some ([OP_FROMALTSTACK, OP_DUP, OP_NEGATE] @
       for_range 1 (message_digit_len ps) (\<lambda>_. [OP_FROMALTSTACK, OP_TUCK, OP_SUB]) @
       [pushn (max_digit ps * message_digit_len ps), OP_ADD, OP_FROMALTSTACK] @
       for_range 0 k (\<lambda>_. for_range 0 (log2_base ps) (\<lambda>_. [OP_DUP, OP_ADD]) @ [OP_FROMALTSTACK, OP_ADD]) @
       [OP_EQUALVERIFY]) }"

definition checksig_verify ::
  "(wots_parameters \<Rightarrow> item \<Rightarrow> script) \<Rightarrow> (wots_parameters \<Rightarrow> script) \<Rightarrow> wots_parameters \<Rightarrow> item list \<Rightarrow> script option" where
  "checksig_verify digit converter ps public_key = do {
     digits \<leftarrow> for_digits ps public_key (digit ps);
     sum \<leftarrow> verify_checksum ps;
     Some (digits @ sum @ converter ps) }"

definition checksig_verify_and_clear_stack :: "(wots_parameters \<Rightarrow> item \<Rightarrow> script) \<Rightarrow> wots_parameters \<Rightarrow> item list \<Rightarrow> script option" where
  "checksig_verify_and_clear_stack digit ps public_key = do {
     digits \<leftarrow> for_digits ps public_key (digit ps);
     sum \<leftarrow> verify_checksum ps;
     Some (digits @ sum @ for_range 0 (message_digit_len ps div 2) (\<lambda>_. [OP_2DROP]) @
       (if message_digit_len ps mod 2 = 1 then [OP_DROP] else [])) }"

definition void_converter :: "wots_parameters \<Rightarrow> script" where
  "void_converter ps = []"

section \<open>Parameters within bounds\<close>

text \<open>The checksum fits its digits, and these a number that a script can read.\<close>

definition wots_ok :: "wots_parameters \<Rightarrow> bool" where
  "wots_ok ps \<longleftrightarrow> 4 \<le> log2_base ps \<and> log2_base ps \<le> 8 \<and> 0 < message_digit_len ps \<and> 0 < checksum_digit_len ps \<and>
     max_digit ps * message_digit_len ps < 2 ^ (log2_base ps * checksum_digit_len ps) \<and>
     2 ^ (log2_base ps * checksum_digit_len ps) \<le> (2147483648 :: nat)"

lemma log_base_ceil_loop_ends:
  assumes "2 \<le> base" "0 < cur"
  shows "\<exists>k. log_base_ceil_loop n base cur res = Some (res + k) \<and> n \<le> cur * base ^ k \<and> (0 < k \<longrightarrow> cur * base ^ (k - 1) < n)"
  using assms(2)
proof (induction "n - cur" arbitrary: cur res rule: less_induct)
  case less
  show ?case
  proof (cases "cur < n")
    case True
    have "cur * 2 \<le> cur * base" using assms(1) by (rule mult_le_mono2)
    then have m: "n - cur * base < n - cur" "0 < cur * base" using True less.prems by linarith+
    obtain k where k: "log_base_ceil_loop n base (cur * base) (res + 1) = Some (res + 1 + k)" "n \<le> cur * base * base ^ k"
        "0 < k \<longrightarrow> cur * base * base ^ (k - 1) < n"
      using less.hyps [OF m, of "res + 1"] by blast
    have "cur * base ^ k < n" using True k(3) by (cases k) (simp_all add: mult.assoc)
    then show ?thesis using True k
      by (intro exI [of _ "Suc k"]) (simp add: log_base_ceil_loop.simps mult.assoc One_nat_def)
  next
    case False
    then show ?thesis by (intro exI [of _ 0]) (simp add: log_base_ceil_loop.simps)
  qed
qed

text \<open>\<open>log_base_ceil\<close> is the rounded logarithm, and what \<open>new\<close> makes of a message length is within the bounds.\<close>

lemma log_base_ceil_least:
  assumes "2 \<le> base"
  shows "\<exists>k. log_base_ceil n base = Some k \<and> n \<le> base ^ k \<and> (0 < k \<longrightarrow> base ^ (k - 1) < n)"
  using log_base_ceil_loop_ends [OF assms, of 1 n 0] by (simp add: log_base_ceil_def)

lemma parameters_new_ok:
  assumes "4 \<le> w" "w \<le> 8" "0 < n" "2 ^ w * 2 ^ w * n \<le> (2147483648 :: nat)"
  shows "\<exists>ps. parameters_new n w = Some ps \<and> wots_ok ps \<and> message_digit_len ps = n \<and> log2_base ps = w"
proof -
  have base: "(2 :: nat) \<le> 2 ^ w" using power_increasing [of 1 w "2 :: nat"] assms(1) by simp
  obtain k where k: "log_base_ceil ((2 ^ w - 1) * n + 1) (2 ^ w) = Some k" "(2 ^ w - 1) * n + 1 \<le> (2 ^ w) ^ k"
      "0 < k \<longrightarrow> (2 ^ w) ^ (k - 1) < (2 ^ w - 1) * n + 1"
    using log_base_ceil_least [OF base] by blast
  have pos: "0 < k" using k(2) base assms(3) by (cases k) auto
  have small: "(2 ^ w - 1) * n + 1 \<le> 2 ^ w * n" using assms(3) by (simp add: diff_mult_distrib)
  have "(2 ^ w) ^ (k - 1) \<le> 2 ^ w * n" using small k(3) pos by linarith
  then have "2 ^ w * (2 ^ w) ^ (k - 1) \<le> 2 ^ w * (2 ^ w * n)" by (rule mult_le_mono2)
  moreover have "2 ^ w * (2 ^ w) ^ (k - 1) = (2 ^ (w * k) :: nat)" using pos by (cases k) (simp_all add: power_mult power_add)
  ultimately have "2 ^ (w * k) \<le> (2147483648 :: nat)" using assms(4) by (simp add: mult.assoc)
  moreover have "(2 ^ w - 1) * n + 1 < 2 ^ 32"
  proof -
    have "2 ^ w * n \<le> 2 ^ w * (2 ^ w * n)" using base by simp
    then have "2 ^ w * n \<le> 2147483648" using assms(4) [unfolded mult.assoc] by (rule order_trans)
    then show ?thesis using small by simp
  qed
  ultimately show ?thesis using k(1,2) pos assms(1-3)
    by (simp add: parameters_new_def wots_ok_def max_digit_def power_mult)
qed

end
