(* ===== verification/Winternitz_Verify.thy ===== *)
theory Winternitz_Verify
  imports Winternitz
begin

text \<open>
  What the three verifiers of \<open>winternitz.rs\<close> accept. Each reads one digit from the stack and holds the end of its hash
  chain against the public key; with the checksum, an accepted stack shows for every digit of a message a point of its
  chain, and a signature of the secret key is accepted.
\<close>

section \<open>Chains on the stack\<close>

lemma chain_simps [simp]: "chain vm 0 h = h" "chain vm (Suc k) h = hash160 vm (chain vm k h)"
  by (simp_all add: chain_def)

lemma chain_add: "chain vm j (chain vm k h) = chain vm (j + k) h"
  by (simp add: chain_def funpow_add)

lemma exec_hashes: "exec vm (repeat_script k [OP_HASH160] @ p) (State (h # s) al) = exec vm p (State (chain vm k h # s) al)"
proof (induction k arbitrary: h)
  case (Suc k)
  have "chain vm k (hash160 vm h) = chain vm (Suc k) h" using chain_add [of vm k "Suc 0" h] by simp
  then show ?case using Suc by (simp add: repeat_script_Suc exec_simps del: chain_simps)
qed simp

text \<open>The list that is picked from, the end of the chain on top.\<close>

definition chain_list :: "vm \<Rightarrow> nat \<Rightarrow> item \<Rightarrow> item list" where
  "chain_list vm k h = map (\<lambda>j. chain vm j h) (rev [0..<Suc k])"

lemma exec_dup_hashes:
  "exec vm (repeat_script k [OP_DUP, OP_HASH160] @ p) (State (h # s) al) = exec vm p (State (chain_list vm k h @ s) al)"
proof (induction k arbitrary: p)
  case (Suc k)
  show ?case
    by (simp add: repeat_script_rev_Suc Suc) (simp add: chain_list_def exec_simps)
qed (simp add: chain_list_def)

lemma length_chain_list [simp]: "length (chain_list vm k h) = Suc k"
  by (simp add: chain_list_def)

lemma chain_list_nth: "i \<le> k \<Longrightarrow> chain_list vm k h ! i = chain vm (k - i) h"
  unfolding chain_list_def by (simp add: rev_nth nth_map del: upt_Suc)

lemma exec_drop_pairs: "length xs = 2 * k \<Longrightarrow> exec vm (repeat_script k [OP_2DROP] @ p) (State (xs @ s) al) = exec vm p (State s al)"
proof (induction k arbitrary: xs)
  case (Suc k)
  then obtain x y ys where "xs = x # y # ys" by (cases xs; cases "tl xs") auto
  then show ?case using Suc by (simp add: repeat_script_Suc exec_simps)
qed simp

section \<open>One digit\<close>

text \<open>
  What a verifier makes of the items of one digit: its number of items, the judgement on them, how a signature is laid
  out on the stack, and whether it needs the points of the chain to differ.
\<close>

locale wots_digit =
  fixes digit :: "wots_parameters \<Rightarrow> item \<Rightarrow> script"
    and arity :: nat
    and judge :: "vm \<Rightarrow> wots_parameters \<Rightarrow> item \<Rightarrow> item list \<Rightarrow> script_error + item"
    and present :: "item \<Rightarrow> nat \<Rightarrow> item list"
    and compact :: bool
  assumes exec_digit: "wots_ok ps \<Longrightarrow> length xs = arity \<Longrightarrow>
      exec vm (digit ps pk @ p) (State (xs @ s) al) = and_then (judge vm ps pk xs) (\<lambda>d. exec vm p (State s (d # al)))"
    and judge_sound: "wots_ok ps \<Longrightarrow> length xs = arity \<Longrightarrow> judge vm ps pk xs = Inr d \<Longrightarrow>
      \<exists>v h. read_num vm d = Inr (int v) \<and> v \<le> max_digit ps \<and> h \<in> set xs \<and> length h = 20 \<and> chain vm (max_digit ps - v) h = pk"
    and length_present: "length (present h v) = arity"
    and judge_complete: "wots_ok ps \<Longrightarrow> v \<le> max_digit ps \<Longrightarrow> length h = 20 \<Longrightarrow> chain vm (max_digit ps - v) h = pk \<Longrightarrow>
      (compact \<Longrightarrow> \<forall>k\<le>max_digit ps. chain vm k h = pk \<longrightarrow> k = max_digit ps - v) \<Longrightarrow>
      judge vm ps pk (present h v) = Inr (scriptnum (int v))"

section \<open>The verifier that picks from a list\<close>

definition judge_listpick :: "vm \<Rightarrow> wots_parameters \<Rightarrow> item \<Rightarrow> item list \<Rightarrow> script_error + item" where
  "judge_listpick vm ps pk xs = (let d = xs ! 0; h = xs ! 1 in
     if length h \<noteq> 20 then Inl EqualVerify
     else and_then (read_num vm d) (\<lambda>u. let v = min u (int (max_digit ps)) in
       if v < 0 then Inl InvalidStackOperation
       else if chain vm (max_digit ps - nat v) h = pk then Inr (scriptnum v) else Inl EqualVerify))"

lemma two_items: "length xs = 2 \<Longrightarrow> xs = [xs ! 0, xs ! 1]"
  by (cases xs; cases "tl xs") (auto simp: numeral_2_eq_2 One_nat_def)

lemma max_digit_bounds:
  assumes "wots_ok ps"
  obtains k where "max_digit ps = 2 * k + 1" "(max_digit ps + 1) div 2 = Suc k" "max_digit ps div 2 = k"
    "Suc k = 2 * ((max_digit ps + 1) div 4)" "max_digit ps \<le> 255" "max_digit ps + 1 = 2 ^ log2_base ps"
proof -
  let ?w = "log2_base ps"
  have w: "4 \<le> ?w" "?w \<le> 8" using assms by (simp_all add: wots_ok_def)
  define j where "j = ?w - 2"
  have j: "?w = Suc (Suc j)" using w(1) by (simp add: j_def)
  define q :: nat where "q = 2 ^ j"
  have q: "0 < q" "2 ^ ?w = 4 * q" by (simp_all add: q_def j)
  have "(2 :: nat) ^ ?w \<le> 2 ^ 8" using w by (intro power_increasing) simp_all
  then have "4 * q \<le> 256" using q by simp
  then show ?thesis using q by (intro that [of "2 * q - 1"]) (auto simp: max_digit_def)
qed

lemma digit_num_ok:
  assumes "wots_ok ps" "v \<le> max_digit ps"
  shows "num_ok (int v)"
proof -
  have "max_digit ps \<le> 255" using max_digit_bounds [OF assms(1)] .
  then show ?thesis using assms(2) by (simp add: num_ok_def)
qed

lemma exec_min_read:
  "num_ok m \<Longrightarrow> exec vm (OP_MIN # p) (State (scriptnum m # d # s) al) =
   and_then (read_num vm d) (\<lambda>u. exec vm p (State (scriptnum (min u m) # s) al))"
  by (simp add: exec.simps num2_def and_then_assoc)

lemma exec_pick_negative: "num_ok v \<Longrightarrow> v < 0 \<Longrightarrow> exec vm (OP_PICK # p) (State (scriptnum v # s) al) = Inl InvalidStackOperation"
  by (simp add: exec.simps)

lemma byte_less: "unat (b :: byte) < 256"
  by (rule less_le_trans [OF unsigned_less]) simp

lemma le_to_nat_less: "le_to_nat xs < 256 ^ length xs"
proof (induction xs)
  case (Cons b xs)
  show ?case using Cons byte_less [of b] by simp
qed simp

lemma le_to_nat_top:
  assumes "xs \<noteq> []" "length xs \<le> 4" "unat b < 128"
  shows "le_to_nat (butlast xs @ [b]) < 2147483648"
proof -
  let ?m = "256 ^ (length xs - 1) :: nat"
  have "le_to_nat (butlast xs) < ?m" using le_to_nat_less [of "butlast xs"] by simp
  moreover have "?m * unat b \<le> ?m * 127" using assms(3) by simp
  moreover have "?m \<le> 16777216" using power_increasing [of "length xs - 1" 3 "256 :: nat"] assms(2) by simp
  moreover have "le_to_nat (butlast xs @ [b]) = le_to_nat (butlast xs) + ?m * unat b" by (simp add: le_to_nat_append)
  ultimately show ?thesis by linarith
qed

lemma read_num_bound:
  assumes "read_num vm d = Inr u"
  shows "num_ok u"
proof -
  have u: "u = scriptnum_value d" "length d \<le> 4" using assms by (simp_all add: read_num_def split: if_splits)
  show ?thesis
  proof (cases "d = []")
    case False
    show ?thesis
    proof (cases "128 \<le> unat (last d)")
      case True
      have top: "unat (128 :: byte) = 128" using unat_of_nat [of 128, where 'a = 8] by simp
      have "unat (last d - 128) = unat (last d) - 128" using True unat_sub [of 128 "last d"] by (simp only: word_le_nat_alt top)
      then have "unat (last d - 128) < 128" using byte_less [of "last d"] by linarith
      then have "le_to_nat (butlast d @ [last d - 128]) < 2147483648" using le_to_nat_top [OF False u(2)] by simp
      then show ?thesis using True False by (simp add: u scriptnum_value_def num_ok_def)
    next
      case small: False
      have "le_to_nat d < 2147483648" using le_to_nat_top [OF False u(2), of "last d"] small False by simp
      then show ?thesis using small False by (simp add: u scriptnum_value_def num_ok_def)
    qed
  qed (simp add: u scriptnum_value_def num_ok_def)
qed

text \<open>Picking from the list, with the number of hashes made before.\<close>

lemma exec_pick_digit:
  assumes "Suc k = 2 * q" "k < 128" "0 \<le> j" "nat j \<le> k"
  shows "exec vm (repeat_script k [OP_DUP, OP_HASH160] @ [OP_FROMALTSTACK, OP_PICK, Push pk, OP_EQUALVERIFY] @
      repeat_script q [OP_2DROP] @ p) (State (h # s) (scriptnum j # al)) =
    (if chain vm (k - nat j) h = pk then exec vm p (State s al) else Inl EqualVerify)"
proof -
  obtain n where n: "j = int n" "n \<le> k" using assms(3,4) by (metis int_nat_eq)
  have "exec vm (repeat_script k [OP_DUP, OP_HASH160] @ [OP_FROMALTSTACK, OP_PICK, Push pk, OP_EQUALVERIFY] @
      repeat_script q [OP_2DROP] @ p) (State (h # s) (scriptnum j # al)) =
    exec vm ([Push pk, OP_EQUALVERIFY] @ repeat_script q [OP_2DROP] @ p)
      (State (chain vm (k - n) h # chain_list vm k h @ s) al)"
    using n assms(2) by (simp add: exec_dup_hashes exec_simps exec_pick nth_append chain_list_nth)
  then show ?thesis using exec_drop_pairs [of "chain_list vm k h" q vm p s al] assms(1) n by (auto simp: exec_simps)
qed

lemma exec_listpick:
  assumes "wots_ok ps" "length xs = 2"
  shows "exec vm (listpick_digit ps pk @ p) (State (xs @ s) al) = and_then (judge_listpick vm ps pk xs) (\<lambda>d. exec vm p (State s (d # al)))"
proof -
  obtain d h where xs: "xs = [d, h]" using two_items [OF assms(2)] by blast
  obtain k where k: "max_digit ps = 2 * k + 1" "(max_digit ps + 1) div 2 = Suc k" "max_digit ps div 2 = k"
      "Suc k = 2 * ((max_digit ps + 1) div 4)" "max_digit ps \<le> 255"
    using max_digit_bounds [OF assms(1)] by metis
  define q where "q = (max_digit ps + 1) div 4"
  have kq: "Suc k = 2 * q" "k < 128" using k(1,4,5) by (simp_all add: q_def)
  have ok: "num_ok (int (max_digit ps))" "num_ok (int (Suc k))" using k(1,5) by (simp_all add: num_ok_def)
  define rest where "rest = [OP_FROMALTSTACK, OP_PICK, Push pk, OP_EQUALVERIFY] @ repeat_script q [OP_2DROP] @ p"
  have step: "exec vm ([OP_DUP, OP_TOALTSTACK, pushn (Suc k), OP_2DUP, OP_LESSTHAN,
        OP_IF_ELSE ([OP_DROP, OP_TOALTSTACK] @ repeat_script (Suc k) [OP_HASH160]) [OP_SUB, OP_TOALTSTACK]] @
        repeat_script k [OP_DUP, OP_HASH160] @ rest) (State (scriptnum v # h # s) al) =
      (if v < 0 then Inl InvalidStackOperation
       else if chain vm (max_digit ps - nat v) h = pk then exec vm p (State s (scriptnum v # al)) else Inl EqualVerify)"
    if v: "num_ok v" "v \<le> int (max_digit ps)" for v
  proof (cases "v < int (Suc k)")
    case True
    have "exec vm ([OP_DUP, OP_TOALTSTACK, pushn (Suc k), OP_2DUP, OP_LESSTHAN,
        OP_IF_ELSE ([OP_DROP, OP_TOALTSTACK] @ repeat_script (Suc k) [OP_HASH160]) [OP_SUB, OP_TOALTSTACK]] @
        repeat_script k [OP_DUP, OP_HASH160] @ rest) (State (scriptnum v # h # s) al) =
      exec vm (repeat_script k [OP_DUP, OP_HASH160] @ rest) (State (chain vm (Suc k) h # s) (scriptnum v # scriptnum v # al))"
      using True v(1) ok(2) exec_hashes [of vm "Suc k" _ h s] by (simp add: exec_simps exec_pushn del: chain_simps)
    also have "\<dots> = (if v < 0 then Inl InvalidStackOperation
       else if chain vm (max_digit ps - nat v) h = pk then exec vm p (State s (scriptnum v # al)) else Inl EqualVerify)"
    proof (cases "v < 0")
      case neg: True
      then show ?thesis using v(1) by (simp add: exec_dup_hashes rest_def exec_simps exec_pick_negative del: chain_simps)
    next
      case False
      have "k - nat v + Suc k = max_digit ps - nat v" using True False k(1) by linarith
      then show ?thesis
        using exec_pick_digit [OF kq, of v vm pk p "chain vm (Suc k) h" s "scriptnum v # al"] True False
        by (simp add: rest_def chain_add del: chain_simps)
    qed
    finally show ?thesis .
  next
    case False
    have sub: "num_ok (v - int (Suc k))" using False v ok by (simp add: num_ok_def)
    have "exec vm ([OP_DUP, OP_TOALTSTACK, pushn (Suc k), OP_2DUP, OP_LESSTHAN,
        OP_IF_ELSE ([OP_DROP, OP_TOALTSTACK] @ repeat_script (Suc k) [OP_HASH160]) [OP_SUB, OP_TOALTSTACK]] @
        repeat_script k [OP_DUP, OP_HASH160] @ rest) (State (scriptnum v # h # s) al) =
      exec vm (repeat_script k [OP_DUP, OP_HASH160] @ rest) (State (h # s) (scriptnum (v - int (Suc k)) # scriptnum v # al))"
      using False v(1) ok(2) by (simp add: exec_simps exec_pushn)
    moreover have "k - nat (v - int (Suc k)) = max_digit ps - nat v" "nat (v - int (Suc k)) \<le> k"
      using False v(2) k(1) by linarith+
    ultimately show ?thesis
      using exec_pick_digit [OF kq, of "v - int (Suc k)" vm pk p h s "scriptnum v # al"] False
      by (simp add: rest_def)
  qed
  have lengths: "scriptnum (int (length h)) = scriptnum 20 \<longleftrightarrow> length h = 20" by simp
  have "exec vm (listpick_digit ps pk @ p) (State (xs @ s) al) =
      (if length h \<noteq> 20 then Inl EqualVerify
       else and_then (read_num vm d) (\<lambda>u. exec vm ([OP_DUP, OP_TOALTSTACK, pushn (Suc k), OP_2DUP, OP_LESSTHAN,
        OP_IF_ELSE ([OP_DROP, OP_TOALTSTACK] @ repeat_script (Suc k) [OP_HASH160]) [OP_SUB, OP_TOALTSTACK]] @
        repeat_script k [OP_DUP, OP_HASH160] @ rest) (State (scriptnum (min u (int (max_digit ps))) # h # s) al)))"
    using ok by (simp add: listpick_digit_def xs exec_simps exec_pushn exec_min_read k(2,3) for_range_const rest_def q_def)
  also have "\<dots> = and_then (judge_listpick vm ps pk xs) (\<lambda>d. exec vm p (State s (d # al)))"
  proof (cases "read_num vm d")
    case (Inl e)
    then show ?thesis by (simp add: judge_listpick_def xs)
  next
    case (Inr u)
    have "num_ok (min u (int (max_digit ps)))" using read_num_bound [OF Inr] ok(1) by (simp add: num_ok_def min_def)
    then show ?thesis unfolding Inr and_then_simps using step [of "min u (int (max_digit ps))"]
      by (auto simp: judge_listpick_def xs Inr Let_def)
  qed
  finally show ?thesis .
qed

definition present_pair :: "item \<Rightarrow> nat \<Rightarrow> item list" where
  "present_pair h v = [scriptnum (int v), h]"

interpretation listpick: wots_digit listpick_digit 2 judge_listpick present_pair False
proof
  fix ps :: wots_parameters and xs vm pk d
  assume a: "wots_ok ps" "length xs = 2" "judge_listpick vm ps pk xs = Inr d"
  obtain e h where xs: "xs = [e, h]" using two_items [OF a(2)] by blast
  obtain u where u: "read_num vm e = Inr u" "length h = 20" "\<not> min u (int (max_digit ps)) < 0"
      "chain vm (max_digit ps - nat (min u (int (max_digit ps)))) h = pk" "d = scriptnum (min u (int (max_digit ps)))"
    using a(3) by (auto simp: judge_listpick_def xs Let_def and_then_Inr_iff split: if_splits)
  define v where "v = nat (min u (int (max_digit ps)))"
  have "d = scriptnum (int v)" using u(3,5) by (simp add: v_def)
  moreover have v: "v \<le> max_digit ps" by (simp add: v_def)
  moreover note digit_num_ok [OF a(1) v]
  ultimately show "\<exists>v h. read_num vm d = Inr (int v) \<and> v \<le> max_digit ps \<and> h \<in> set xs \<and> length h = 20 \<and> chain vm (max_digit ps - v) h = pk"
    using u(2,4) by (intro exI [of _ v] exI [of _ h]) (simp add: v_def xs)
next
  fix ps :: wots_parameters and v vm h pk
  assume a: "wots_ok ps" "v \<le> max_digit ps" "length h = 20" "chain vm (max_digit ps - v) h = pk"
  show "judge_listpick vm ps pk (present_pair h v) = Inr (scriptnum (int v))"
    using a(2-4) digit_num_ok [OF a(1,2)] by (simp add: judge_listpick_def present_pair_def)
qed (simp_all add: exec_listpick present_pair_def)

section \<open>The verifier that tries every digit\<close>

text \<open>The digits whose chains meet the public key, the last one found first.\<close>

definition matches :: "vm \<Rightarrow> wots_parameters \<Rightarrow> item \<Rightarrow> item \<Rightarrow> nat \<Rightarrow> item list" where
  "matches vm ps pk h n = map (\<lambda>j. scriptnum (int (max_digit ps - j))) (filter (\<lambda>j. chain vm j h = pk) (rev [0..<Suc n]))"

definition judge_bruteforce :: "vm \<Rightarrow> wots_parameters \<Rightarrow> item \<Rightarrow> item list \<Rightarrow> script_error + item" where
  "judge_bruteforce vm ps pk xs = (let h = xs ! 0 in
     if length h \<noteq> 20 then Inl EqualVerify
     else case matches vm ps pk h (max_digit ps) of [] \<Rightarrow> Inl Verify | [d] \<Rightarrow> Inr d | _ \<Rightarrow> Inl EqualVerify)"

lemma matches_Suc: "matches vm ps pk h (Suc n) =
    (if chain vm (Suc n) h = pk then [scriptnum (int (max_digit ps - Suc n))] else []) @ matches vm ps pk h n"
  by (simp add: matches_def)

lemma exec_bruteforce_loop:
  "exec vm (for_range 0 n (\<lambda>i. [OP_HASH160, OP_2DUP, OP_EQUAL, OP_IF [pushn (max_digit ps - i - 1), OP_TOALTSTACK]]) @ p)
     (State (h # pk # s) (matches vm ps pk h 0 @ al)) =
   exec vm p (State (chain vm n h # pk # s) (matches vm ps pk h n @ al))"
proof (induction n arbitrary: p)
  case (Suc n)
  have d: "max_digit ps - (n + 1) = max_digit ps - Suc n" by (simp add: One_nat_def)
  show ?case unfolding for_range_Suc [OF le0] append_assoc Suc.IH
    by (cases "chain vm (Suc n) h = pk") (simp_all add: exec_simps exec_pushn matches_Suc d)
qed simp

lemma matches_not_sentinel: "d \<in> set (matches vm ps pk h n) \<Longrightarrow> \<exists>v. d = scriptnum (int v) \<and> v \<le> max_digit ps"
  by (auto simp: matches_def)

lemma exec_bruteforce:
  assumes "wots_ok ps" "length xs = 1"
  shows "exec vm (bruteforce_digit ps pk @ p) (State (xs @ s) al) = and_then (judge_bruteforce vm ps pk xs) (\<lambda>d. exec vm p (State s (d # al)))"
proof -
  obtain h where xs: "xs = [h]" using assms(2) by (cases xs) (auto simp: One_nat_def)
  define ms where "ms = matches vm ps pk h (max_digit ps)"
  define minus where "minus = scriptnum (- 1)"
  have sentinel: "d \<noteq> minus" if "d \<in> set ms" for d
    using matches_not_sentinel [of d] that by (auto simp: ms_def minus_def)
  have m1: "num_ok (- 1)" by (simp add: num_ok_def)
  have "exec vm (bruteforce_digit ps pk @ p) (State (xs @ s) al) =
      (if length h \<noteq> 20 then Inl EqualVerify
       else exec vm ([OP_FROMALTSTACK, OP_DUP, push (- 1), OP_NUMNOTEQUAL, OP_VERIFY, OP_FROMALTSTACK, push (- 1), OP_EQUALVERIFY,
         OP_TOALTSTACK] @ p) (State s (ms @ minus # al)))"
  proof -
    have m0: "matches vm ps pk h 0 = (if h = pk then [scriptnum (int (max_digit ps))] else [])" by (simp add: matches_def)
    have "exec vm (bruteforce_digit ps pk @ p) (State (xs @ s) al) =
        (if length h \<noteq> 20 then Inl EqualVerify
         else exec vm (for_range 0 (max_digit ps) (\<lambda>i. [OP_HASH160, OP_2DUP, OP_EQUAL, OP_IF [pushn (max_digit ps - i - 1), OP_TOALTSTACK]]) @
           [OP_2DROP, OP_FROMALTSTACK, OP_DUP, push (- 1), OP_NUMNOTEQUAL, OP_VERIFY, OP_FROMALTSTACK, push (- 1), OP_EQUALVERIFY,
            OP_TOALTSTACK] @ p) (State (h # pk # s) (matches vm ps pk h 0 @ minus # al)))"
      unfolding m0 by (simp add: bruteforce_digit_def xs exec_simps exec_pushn minus_def)
    then show ?thesis unfolding exec_bruteforce_loop ms_def by (simp add: exec_simps)
  qed
  also have "\<dots> = and_then (judge_bruteforce vm ps pk xs) (\<lambda>d. exec vm p (State s (d # al)))"
  proof (cases ms)
    case Nil
    then show ?thesis using m1 by (simp add: judge_bruteforce_def xs ms_def [symmetric] exec_simps minus_def)
  next
    case (Cons d ds)
    obtain v where v: "d = scriptnum (int v)" "v \<le> max_digit ps" using matches_not_sentinel [of d] Cons by (metis list.set_intros(1) ms_def)
    note ok = digit_num_ok [OF assms(1) v(2)]
    show ?thesis
    proof (cases ds)
      case Nil
      then show ?thesis using Cons ok m1 by (simp add: judge_bruteforce_def xs ms_def [symmetric] exec_simps v(1) minus_def)
    next
      case (Cons e es)
      have "e \<noteq> minus" using sentinel Cons \<open>ms = d # ds\<close> by simp
      then show ?thesis using Cons \<open>ms = d # ds\<close> ok m1
        by (simp add: judge_bruteforce_def xs ms_def [symmetric] exec_simps v(1) minus_def)
    qed
  qed
  finally show ?thesis .
qed

definition present_hash :: "item \<Rightarrow> nat \<Rightarrow> item list" where
  "present_hash h v = [h]"

lemma filter_upt_eq: "filter (\<lambda>j. j = k) [0..<n] = (if k < n then [k] else [])"
  by (induction n) auto

lemma matches_unique:
  assumes "v \<le> max_digit ps" "chain vm (max_digit ps - v) h = pk" "\<forall>k\<le>max_digit ps. chain vm k h = pk \<longrightarrow> k = max_digit ps - v"
  shows "matches vm ps pk h (max_digit ps) = [scriptnum (int v)]"
proof -
  let ?k = "max_digit ps - v"
  have "filter (\<lambda>j. chain vm j h = pk) [0..<Suc (max_digit ps)] = filter (\<lambda>j. j = ?k) [0..<Suc (max_digit ps)]"
    by (rule filter_cong) (use assms in \<open>auto simp: less_Suc_eq_le\<close>)
  also have "\<dots> = [?k]" using filter_upt_eq [of ?k "Suc (max_digit ps)"] by (simp only: less_Suc_eq_le diff_le_self if_True)
  finally show ?thesis using assms(1) by (simp add: matches_def rev_filter [symmetric] del: upt_Suc)
qed

interpretation bruteforce: wots_digit bruteforce_digit 1 judge_bruteforce present_hash True
proof
  fix ps :: wots_parameters and xs vm pk d
  assume a: "wots_ok ps" "length xs = 1" "judge_bruteforce vm ps pk xs = Inr d"
  obtain h where xs: "xs = [h]" using a(2) by (cases xs) (auto simp: One_nat_def)
  have m: "matches vm ps pk h (max_digit ps) = [d]" "length h = 20"
    using a(3) by (auto simp: judge_bruteforce_def xs Let_def split: if_splits list.splits)
  then have "d \<in> set (matches vm ps pk h (max_digit ps))" by simp
  then obtain j where j: "d = scriptnum (int (max_digit ps - j))" "chain vm j h = pk" "j \<le> max_digit ps"
    by (auto simp: matches_def less_Suc_eq_le simp del: upt_Suc)
  show "\<exists>v h. read_num vm d = Inr (int v) \<and> v \<le> max_digit ps \<and> h \<in> set xs \<and> length h = 20 \<and> chain vm (max_digit ps - v) h = pk"
    using j m(2) digit_num_ok [OF a(1), of "max_digit ps - j"] by (intro exI [of _ "max_digit ps - j"] exI [of _ h]) (simp add: xs)
next
  fix ps :: wots_parameters and v vm h pk
  assume a: "wots_ok ps" "v \<le> max_digit ps" "length h = 20" "chain vm (max_digit ps - v) h = pk"
    "True \<Longrightarrow> \<forall>k\<le>max_digit ps. chain vm k h = pk \<longrightarrow> k = max_digit ps - v"
  then show "judge_bruteforce vm ps pk (present_hash h v) = Inr (scriptnum (int v))"
    using matches_unique [of v ps vm h pk] by (simp add: judge_bruteforce_def present_hash_def)
qed (simp_all add: exec_bruteforce present_hash_def)

section \<open>The verifier that searches\<close>

text \<open>What is left of a number, and the hashes made, after the bits from \<open>k\<close> down to one.\<close>

fun reduce :: "nat \<Rightarrow> int \<Rightarrow> int \<times> nat" where
  "reduce 0 x = (x, 0)"
| "reduce (Suc k) x = (if 2 ^ Suc k \<le> x then let (y, j) = reduce k (x - 2 ^ Suc k) in (y, j + 2 ^ Suc k) else reduce k x)"

lemma reduce_in_range: "0 \<le> x \<Longrightarrow> x < 2 ^ Suc k \<Longrightarrow> reduce k x = (x mod 2, nat (x - x mod 2))"
proof (induction k arbitrary: x)
  case (Suc k)
  show ?case
  proof (cases "2 ^ Suc k \<le> x")
    case True
    define y where "y = x - 2 ^ Suc k"
    have y: "0 \<le> y" "y < 2 ^ Suc k" using True Suc.prems by (simp_all add: y_def)
    have x: "x = y + 2 * 2 ^ k" by (simp add: y_def)
    have m: "x mod 2 = y mod 2" unfolding x by (rule mod_mult_self2)
    have "0 \<le> y - y mod 2" using y(1) by (simp add: zmod_le_nonneg_dividend)
    moreover have "x - y mod 2 = (y - y mod 2) + 2 ^ Suc k" by (simp add: x)
    moreover have "nat (2 ^ Suc k) = 2 ^ Suc k" by (rule nat_power_eq [of 2 "Suc k", simplified nat_numeral]) simp
    ultimately have "nat (y - y mod 2) + 2 ^ Suc k = nat (x - y mod 2)" by (simp only: nat_add_distrib zero_le_power zero_le_numeral)
    then show ?thesis using True Suc.IH [OF y] x by (simp add: m)
  next
    case False
    then show ?thesis using Suc by simp
  qed
qed simp

lemma reduce_negative: "x < 0 \<Longrightarrow> reduce k x = (x, 0)"
proof (induction k)
  case (Suc k)
  have "\<not> 2 ^ Suc k \<le> x" using Suc.prems zero_le_power [of "2 :: int" "Suc k"] by linarith
  then show ?case using Suc by simp
qed simp

lemma reduce_large: "2 ^ Suc k \<le> x \<Longrightarrow> 2 \<le> fst (reduce k x)"
proof (induction k arbitrary: x)
  case (Suc k)
  have "(2 :: int) ^ Suc (Suc k) = 2 ^ Suc k + 2 ^ Suc k" "(0 :: int) \<le> 2 ^ Suc k" by simp_all
  then have le: "2 ^ Suc k \<le> x" "2 ^ Suc k \<le> x - 2 ^ Suc k" using Suc.prems by linarith+
  then show ?case using Suc.IH [OF le(2)] by (simp add: split_beta)
qed simp

lemma exec_sub_read:
  "num_ok m \<Longrightarrow> exec vm (OP_SUB # p) (State (d # scriptnum m # s) al) =
   and_then (read_num vm d) (\<lambda>u. exec vm p (State (scriptnum (m - u) # s) al))"
  by (simp add: exec.simps num2_def and_then_assoc)

definition search_bit :: "nat \<Rightarrow> script" where
  "search_bit b = [push (2 ^ b), OP_2DUP, OP_GREATERTHANOREQUAL,
     OP_IF ([OP_SUB, OP_SWAP] @ for_range 0 (2 ^ b) (\<lambda>_. [OP_HASH160]) @ [OP_SWAP, OP_DUP]), OP_DROP]"

lemma power_num_ok:
  assumes "b \<le> 30"
  shows "num_ok (2 ^ b)"
proof -
  have "(2 :: int) ^ b \<le> 1073741824" using power_increasing [OF assms, of "2 :: int"] by simp
  moreover have "(0 :: int) \<le> 2 ^ b" by simp
  ultimately show ?thesis unfolding num_ok_def by linarith
qed

lemma exec_search_bit:
  assumes "num_ok x" "b \<le> 30"
  shows "exec vm (search_bit b @ p) (State (scriptnum x # h # s) al) =
    exec vm p (if 2 ^ b \<le> x then State (scriptnum (x - 2 ^ b) # chain vm (2 ^ b) h # s) al else State (scriptnum x # h # s) al)"
proof -
  have ok: "num_ok (2 ^ b)" using assms(2) by (rule power_num_ok)
  show ?thesis using assms(1) ok
    by (cases "2 ^ b \<le> x") (simp_all add: search_bit_def exec_simps for_range_const exec_hashes)
qed

lemma exec_search_bits:
  assumes "num_ok x" "k \<le> 30"
  shows "exec vm (concat (map search_bit (rev [1..<Suc k])) @ p) (State (scriptnum x # h # s) al) =
    exec vm p (State (scriptnum (fst (reduce k x)) # chain vm (snd (reduce k x)) h # s) al)"
  using assms
proof (induction k arbitrary: x h)
  case 0
  then show ?case by (simp add: One_nat_def)
next
  case (Suc k)
  have split: "rev [1..<Suc (Suc k)] = Suc k # rev [1..<Suc k]" by (simp add: One_nat_def)
  have ok: "num_ok (x - 2 ^ Suc k)" if "2 ^ Suc k \<le> x"
    using that Suc.prems(1) zero_le_power [of "2 :: int" "Suc k"] unfolding num_ok_def by linarith
  show ?case
  proof (cases "2 ^ Suc k \<le> x")
    case True
    then show ?thesis unfolding split
      using exec_search_bit [OF Suc.prems(1), of "Suc k"] Suc.IH [OF ok [OF True]] Suc.prems(2)
      by (simp add: chain_add split_beta del: chain_simps upt_Suc)
  next
    case False
    then show ?thesis unfolding split
      using exec_search_bit [OF Suc.prems(1), of "Suc k"] Suc.IH [OF Suc.prems(1)] Suc.prems(2)
      by (simp del: upt_Suc)
  qed
qed

definition judge_binarysearch :: "vm \<Rightarrow> wots_parameters \<Rightarrow> item \<Rightarrow> item list \<Rightarrow> script_error + item" where
  "judge_binarysearch vm ps pk xs = (let d = xs ! 0; h = xs ! 1 in
     if length h \<noteq> 20 then Inl EqualVerify
     else and_then (read_num vm d) (\<lambda>u. let x = int (max_digit ps) - u in
       if \<not> num_ok x then Inl ScriptIntNumericOverflow
       else if x < 0 \<or> int (max_digit ps) < x then Inl MinimalIf
       else if chain vm (nat x) h = pk then Inr d else Inl EqualVerify))"

lemma exec_binarysearch:
  assumes "wots_ok ps" "length xs = 2"
  shows "exec vm (binarysearch_digit ps pk @ p) (State (xs @ s) al) = and_then (judge_binarysearch vm ps pk xs) (\<lambda>d. exec vm p (State s (d # al)))"
proof -
  obtain d h where xs: "xs = [d, h]" using two_items [OF assms(2)] by blast
  have w: "4 \<le> log2_base ps" "log2_base ps \<le> 8" using assms(1) by (simp_all add: wots_ok_def)
  define k where "k = log2_base ps - 1"
  have k: "log2_base ps = Suc k" "k \<le> 30" "1 < Suc k" using w by (simp_all add: k_def)
  obtain j where j: "k = Suc j" using k(3) by (cases k) auto
  have "(1 :: nat) \<le> 2 ^ Suc k" by (rule one_le_power) simp
  then have max: "int (max_digit ps) = 2 ^ Suc k - 1" unfolding max_digit_def k(1) by (simp only: of_nat_diff of_nat_power of_nat_1 of_nat_numeral)
  have kok: "num_ok (2 ^ k)" using k(2) by (rule power_num_ok)
  have mok: "num_ok (int (max_digit ps))" using digit_num_ok [OF assms(1)] by simp
  define bits where "bits = concat (map search_bit (rev [1..<Suc k]))"
  have body: "concat (map (\<lambda>bit. if bit \<noteq> 0
       then [push (2 ^ bit), OP_2DUP, OP_GREATERTHANOREQUAL,
         OP_IF ([OP_SUB, OP_SWAP] @ for_range 0 (2 ^ bit) (\<lambda>_. [OP_HASH160]) @ [OP_SWAP, OP_DUP]), OP_DROP]
       else [OP_IF [OP_HASH160]]) (rev [0..<log2_base ps])) = bits @ [OP_IF [OP_HASH160]]"
  proof -
    have "[0..<Suc k] = 0 # [1..<Suc k]" by (simp add: upt_conv_Cons One_nat_def del: upt_Suc)
    moreover have "map (\<lambda>bit. if bit \<noteq> 0
       then [push (2 ^ bit), OP_2DUP, OP_GREATERTHANOREQUAL,
         OP_IF ([OP_SUB, OP_SWAP] @ for_range 0 (2 ^ bit) (\<lambda>_. [OP_HASH160]) @ [OP_SWAP, OP_DUP]), OP_DROP]
       else [OP_IF [OP_HASH160]]) (rev [1..<Suc k]) = map search_bit (rev [1..<Suc k])"
      by (rule map_cong) (auto simp: search_bit_def simp del: upt_Suc)
    ultimately show ?thesis by (simp only: k(1) bits_def rev.simps map_append concat_append list.map concat.simps simp_thms if_False append_Nil2)
  qed
  define tail where "tail = [Push pk, OP_EQUALVERIFY] @ p"
  have step: "exec vm (bits @ [OP_IF [OP_HASH160]] @ tail) (State (scriptnum x # h # s) al') =
      (if \<not> num_ok x then Inl ScriptIntNumericOverflow
       else if x < 0 \<or> int (max_digit ps) < x then Inl MinimalIf
       else if chain vm (nat x) h = pk then exec vm p (State s al') else Inl EqualVerify)" for x al'
  proof (cases "num_ok x")
    case False
    have bits: "bits = search_bit k @ concat (map search_bit (rev [1..<k]))" by (simp add: bits_def j One_nat_def)
    have "read_num vm (scriptnum x) = Inl ScriptIntNumericOverflow"
      using False length_scriptnum_le_4 [of x] by (simp add: read_num_def)
    moreover have "read_num vm (scriptnum (2 ^ k)) = Inr (2 ^ k)" using kok by simp
    ultimately have "exec vm (push (2 ^ k) # OP_2DUP # OP_GREATERTHANOREQUAL # q) (State (scriptnum x # h # s) al') =
        Inl ScriptIntNumericOverflow" for q
      unfolding exec_push by (simp add: exec.simps num2_def stack_op_def)
    then show ?thesis using False by (simp add: bits search_bit_def)
  next
    case True
    note run = exec_search_bits [OF True k(2), of vm _ h s al', folded bits_def]
    consider "x < 0" | "0 \<le> x" "x < 2 ^ Suc k" | "2 ^ Suc k \<le> x" by linarith
    then show ?thesis
    proof cases
      case 1
      then show ?thesis using True by (simp add: run reduce_negative exec.simps pop_if_def if_arg_scriptnum)
    next
      case 2
      note r = reduce_in_range [OF 2]
      have le: "x \<le> int (max_digit ps)" using 2 max by simp
      have "exec vm (OP_IF [OP_HASH160] # tail) (State (scriptnum (x mod 2) # chain vm (nat (x - x mod 2)) h # s) al') =
          exec vm tail (State (chain vm (nat x) h # s) al')"
      proof (cases "even x")
        case True
        then show ?thesis by (simp add: exec.simps pop_if_def if_arg_scriptnum)
      next
        case False
        then have "nat x = Suc (nat (x - x mod 2))" using 2(1) by (cases "x = 0") (auto simp: mod2_eq_if)
        then show ?thesis using False by (simp add: exec.simps pop_if_def if_arg_scriptnum mod2_eq_if stack_op_def)
      qed
      then show ?thesis using True le 2(1) by (simp add: run r tail_def exec_simps)
    next
      case 3
      have "2 \<le> fst (reduce k x)" using 3 by (rule reduce_large)
      moreover have "int (max_digit ps) < x" using 3 max by simp
      ultimately show ?thesis using True by (simp add: run exec.simps pop_if_def if_arg_scriptnum)
    qed
  qed
  have "exec vm (binarysearch_digit ps pk @ p) (State (xs @ s) al) =
      (if length h \<noteq> 20 then Inl EqualVerify
       else and_then (read_num vm d) (\<lambda>u. exec vm (bits @ [OP_IF [OP_HASH160]] @ tail) (State (scriptnum (int (max_digit ps) - u) # h # s) (d # al))))"
    unfolding binarysearch_digit_def body using mok by (simp add: xs exec_simps exec_pushn exec_sub_read tail_def)
  then show ?thesis unfolding step
    by (cases "read_num vm d") (simp_all add: judge_binarysearch_def xs Let_def)
qed

interpretation binarysearch: wots_digit binarysearch_digit 2 judge_binarysearch present_pair False
proof
  fix ps :: wots_parameters and xs vm pk d
  assume a: "wots_ok ps" "length xs = 2" "judge_binarysearch vm ps pk xs = Inr d"
  obtain e h where xs: "xs = [e, h]" using two_items [OF a(2)] by blast
  obtain u where u: "read_num vm d = Inr u" "d = e" "length h = 20" "0 \<le> int (max_digit ps) - u" "int (max_digit ps) - u \<le> int (max_digit ps)"
      "chain vm (nat (int (max_digit ps) - u)) h = pk"
    using a(3) by (auto simp: judge_binarysearch_def xs Let_def and_then_Inr_iff split: if_splits)
  have "nat (int (max_digit ps) - u) = max_digit ps - nat u" using u(4,5) by linarith
  then show "\<exists>v h. read_num vm d = Inr (int v) \<and> v \<le> max_digit ps \<and> h \<in> set xs \<and> length h = 20 \<and> chain vm (max_digit ps - v) h = pk"
    using u by (intro exI [of _ "nat u"] exI [of _ h]) (auto simp: xs)
next
  fix ps :: wots_parameters and v vm h pk
  assume a: "wots_ok ps" "v \<le> max_digit ps" "length h = 20" "chain vm (max_digit ps - v) h = pk"
  have "int (max_digit ps) - int v = int (max_digit ps - v)" using a(2) by simp
  then show "judge_binarysearch vm ps pk (present_pair h v) = Inr (scriptnum (int v))"
    unfolding judge_binarysearch_def present_pair_def
    using a(2-4) digit_num_ok [OF a(1,2)] digit_num_ok [OF a(1), of "max_digit ps - v"] by (simp del: of_nat_diff)
qed (simp_all add: exec_binarysearch present_pair_def)

end
