(* ===== verification/Winternitz_Checksum.thy ===== *)
theory Winternitz_Checksum
  imports Winternitz
begin

text \<open>
  The checksum of \<open>winternitz.rs\<close>: as a number, as digits, and as the script that holds it against the digits of the
  message. Two messages cannot have digits of which each is at least the other's.
\<close>

section \<open>Digits and their number\<close>

definition digits_value :: "nat \<Rightarrow> nat list \<Rightarrow> nat" where
  "digits_value base cs = foldl (\<lambda>a d. a * base + d) 0 cs"

lemma digits_value_snoc [simp]: "digits_value base (cs @ [d]) = digits_value base cs * base + d"
  by (simp add: digits_value_def)

lemma digits_value_Nil [simp]: "digits_value base [] = 0"
  by (simp add: digits_value_def)

lemma length_checksum_loop [simp]: "length (checksum_loop base n x) = n"
  by (induction n arbitrary: x) simp_all

lemma checksum_loop_digits: "0 < base \<Longrightarrow> d \<in> set (checksum_loop base n x) \<Longrightarrow> d < base"
  by (induction n arbitrary: x) auto

lemma checksum_loop_value: "x < base ^ n \<Longrightarrow> digits_value base (checksum_loop base n x) = x"
proof (induction n arbitrary: x)
  case (Suc n)
  have base: "0 < base" using Suc.prems by (cases base) simp_all
  have q: "(x - x mod base) div base = x div base" by (metis div_mult_self_is_m base minus_mod_eq_div_mult)
  have "x div base < base ^ n" using Suc.prems base by (simp add: less_mult_imp_div_less mult.commute)
  then show ?case using Suc.IH by (simp add: q)
qed simp

lemma digits_value_less:
  assumes "\<forall>d\<in>set cs. d < base"
  shows "digits_value base cs < base ^ length cs"
  using assms
proof (induction cs rule: rev_induct)
  case (snoc d cs)
  then have "digits_value base cs + 1 \<le> base ^ length cs" by simp
  then have "(digits_value base cs + 1) * base \<le> base ^ length cs * base" by (rule mult_le_mono1)
  then show ?case using snoc.prems by (simp add: algebra_simps)
qed simp

lemma checksum_loop_unique:
  assumes "\<forall>d\<in>set cs. d < base"
  shows "checksum_loop base (length cs) (digits_value base cs) = cs"
  using assms
proof (induction cs rule: rev_induct)
  case (snoc d cs)
  then have "d < base" "(digits_value base cs * base + d) mod base = d" by simp_all
  then show ?case using snoc by simp
qed simp

text \<open>Digits of which each is at least the other's make a number that is at least the other.\<close>

lemma digits_value_mono:
  assumes "list_all2 (\<le>) cs ds"
  shows "digits_value base cs \<le> digits_value base ds"
  using assms
proof (induction cs arbitrary: ds rule: rev_induct)
  case (snoc c cs)
  have "length ds = Suc (length cs)" using list_all2_lengthD [OF snoc.prems] by simp
  then obtain d es where ds: "ds = es @ [d]" "length es = length cs" by (cases ds rule: rev_cases) auto
  then have "list_all2 (\<le>) cs es" "c \<le> d" using snoc.prems by (simp_all add: list_all2_append)
  then show ?case using snoc.IH by (simp add: ds(1) add_mono)
qed simp

section \<open>The checksum\<close>

lemma wots_ok_bounds:
  assumes "wots_ok ps"
  shows "max_digit ps + 1 = 2 ^ log2_base ps" "16 \<le> max_digit ps + 1" "max_digit ps + 1 \<le> 256"
    "max_digit ps * message_digit_len ps < (max_digit ps + 1) ^ checksum_digit_len ps"
    "(max_digit ps + 1) ^ checksum_digit_len ps \<le> 2147483648"
proof -
  show m: "max_digit ps + 1 = 2 ^ log2_base ps" by (simp add: max_digit_def)
  show "16 \<le> max_digit ps + 1" "max_digit ps + 1 \<le> 256" unfolding m
    using assms power_increasing [of 4 "log2_base ps" "2 :: nat"] power_increasing [of "log2_base ps" 8 "2 :: nat"]
    by (simp_all add: wots_ok_def)
  show "max_digit ps * message_digit_len ps < (max_digit ps + 1) ^ checksum_digit_len ps"
    "(max_digit ps + 1) ^ checksum_digit_len ps \<le> 2147483648"
    using assms unfolding m by (simp_all add: wots_ok_def power_mult)
qed

lemma sum_list_le: "\<forall>v\<in>set vs. v \<le> m \<Longrightarrow> sum_list vs \<le> m * length vs" for m :: nat
  by (induction vs) auto

text \<open>What the signer appends to digits within range.\<close>

lemma add_message_checksum_run:
  assumes "wots_ok ps" "length vs = message_digit_len ps" "\<forall>v\<in>set vs. v \<le> max_digit ps"
  shows "add_message_checksum ps vs = Some (vs @ checksum_loop (max_digit ps + 1) (checksum_digit_len ps)
    (max_digit ps * message_digit_len ps - sum_list vs))"
proof -
  note b = wots_ok_bounds [OF assms(1)]
  have "sum_list vs \<le> max_digit ps * message_digit_len ps" using sum_list_le [OF assms(3)] assms(2) by simp
  moreover have "max_digit ps * message_digit_len ps - sum_list vs < (max_digit ps + 1) ^ checksum_digit_len ps"
    using b(4) by linarith
  ultimately show ?thesis using b(2,3) assms(2)
    by (simp add: add_message_checksum_def wots_checksum_def checked_sub_def checksum_to_digits_def rust_assert_def)
qed

lemma sum_list_strict: "list_all2 (\<le>) xs ys \<Longrightarrow> xs \<noteq> ys \<Longrightarrow> sum_list xs < sum_list ys" for xs ys :: "nat list"
proof (induction rule: list_all2_induct)
  case (Cons x xs y ys)
  have "sum_list xs \<le> sum_list ys" using Cons.IH by (cases "xs = ys") auto
  then show ?case using Cons by (cases "xs = ys") auto
qed simp

text \<open>Of two messages each has a digit, of the message or of its checksum, that is smaller than the other's.\<close>

lemma checksum_no_domination:
  assumes "wots_ok ps" "length vs = message_digit_len ps" "\<forall>v\<in>set vs. v \<le> max_digit ps"
    "length us = message_digit_len ps" "\<forall>u\<in>set us. u \<le> max_digit ps" "vs \<noteq> us"
    "add_message_checksum ps vs = Some ws" "add_message_checksum ps us = Some zs"
  shows "\<exists>i<total_digit_len ps. ws ! i < zs ! i"
proof (rule ccontr)
  assume none: "\<not> (\<exists>i<total_digit_len ps. ws ! i < zs ! i)"
  define cv where "cv = max_digit ps * message_digit_len ps - sum_list vs"
  define cu where "cu = max_digit ps * message_digit_len ps - sum_list us"
  define loop where "loop = checksum_loop (max_digit ps + 1) (checksum_digit_len ps)"
  have ws: "ws = vs @ loop cv" and zs: "zs = us @ loop cu"
    using assms add_message_checksum_run [of ps] by (simp_all add: cv_def cu_def loop_def)
  have lens: "length ws = total_digit_len ps" "length zs = total_digit_len ps"
    using assms(2,4) by (simp_all add: ws zs loop_def total_digit_len_def)
  have "list_all2 (\<le>) zs ws" using none lens by (simp add: list_all2_conv_all_nth not_less [symmetric])
  then have le: "list_all2 (\<le>) us vs" "list_all2 (\<le>) (loop cu) (loop cv)"
    using assms(2,4) by (simp_all add: ws zs list_all2_append)
  have small: "cv < (max_digit ps + 1) ^ checksum_digit_len ps" "cu < (max_digit ps + 1) ^ checksum_digit_len ps"
    using wots_ok_bounds(4) [OF assms(1)] by (simp_all add: cv_def cu_def)
  have "cu \<le> cv" using digits_value_mono [OF le(2), of "max_digit ps + 1"] small by (simp add: loop_def checksum_loop_value)
  moreover have "sum_list us < sum_list vs" using sum_list_strict [OF le(1)] assms(6) by auto
  moreover have "sum_list vs \<le> max_digit ps * message_digit_len ps" using sum_list_le [OF assms(3)] assms(2) by simp
  ultimately show False by (simp add: cv_def cu_def)
qed

end
