(* ===== verification/Winternitz_Scheme.thy ===== *)
theory Winternitz_Scheme
  imports Winternitz_Verify Winternitz_Checksum
begin

text \<open>
  The whole of \<open>winternitz.rs\<close>: the loop over the digits, the check of the checksum, and what both say of a signature.
\<close>

section \<open>Numbers that are read\<close>

definition reads :: "vm \<Rightarrow> item list \<Rightarrow> nat list \<Rightarrow> bool" where
  "reads vm ds vs \<longleftrightarrow> list_all2 (\<lambda>d v. read_num vm d = Inr (int v)) ds vs"

lemma exec_negate_read:
  "read_num vm d = Inr u \<Longrightarrow> exec vm (OP_NEGATE # p) (State (d # s) al) = exec vm p (State (scriptnum (- u) # s) al)"
  by (simp add: exec.simps num1_def)

lemma exec_add_read:
  "read_num vm d = Inr u \<Longrightarrow> read_num vm e = Inr v \<Longrightarrow>
   exec vm (OP_ADD # p) (State (e # d # s) al) = exec vm p (State (scriptnum (u + v) # s) al)"
  by (simp add: exec.simps num2_def)

lemma exec_doublings:
  assumes "read_num vm d = Inr (int v)" "num_ok (int (v * 2 ^ j))"
  shows "exec vm (repeat_script (Suc j) [OP_DUP, OP_ADD] @ p) (State (d # s) al) = exec vm p (State (scriptnum (int (v * 2 ^ Suc j)) # s) al)"
  using assms
proof (induction j arbitrary: p)
  case 0
  then show ?case by (simp add: repeat_script_Suc exec_simps exec_add_read mult.commute)
next
  case (Suc j)
  have "num_ok (int (v * 2 ^ j))" using Suc.prems(2) by (simp add: num_ok_def)
  then have run: "exec vm (repeat_script (Suc j) [OP_DUP, OP_ADD] @ q) (State (d # s) al) =
      exec vm q (State (scriptnum (int (v * 2 ^ Suc j)) # s) al)" for q
    using Suc.IH Suc.prems(1) by blast
  have ok: "read_num vm (scriptnum (int (v * 2 ^ Suc j))) = Inr (int (v * 2 ^ Suc j))" using Suc.prems(2) by (rule read_num_scriptnum)
  have "int (v * 2 ^ Suc j) + int (v * 2 ^ Suc j) = int (v * 2 ^ Suc (Suc j))" by simp
  then show ?case unfolding repeat_script_rev_Suc [of "Suc j"] append_assoc run append_Cons append_Nil
    by (simp only: exec_simps exec_add_read [OF ok ok])
qed

section \<open>The script of the checksum\<close>

text \<open>The message moves over, and its sum is taken.\<close>

lemma exec_sum_digits:
  assumes "reads vm ds vs" "\<forall>v\<in>set vs. v \<le> m" "num_ok (int (a + m * length vs))"
  shows "exec vm (repeat_script (length ds) [OP_FROMALTSTACK, OP_TUCK, OP_SUB] @ p) (State (scriptnum (- int a) # s) (ds @ al)) =
    exec vm p (State (scriptnum (- int (a + sum_list vs)) # rev ds @ s) al)"
  using assms
proof (induction ds arbitrary: vs a s)
  case (Cons d ds)
  obtain v us where vs: "vs = v # us" "read_num vm d = Inr (int v)" "reads vm ds us"
    using Cons.prems(1) by (auto simp: reads_def list_all2_Cons1)
  have le: "\<forall>v\<in>set us. v \<le> m" "v \<le> m" using Cons.prems(2) by (simp_all add: vs(1))
  have "int (a + m * length vs) = int a + int m + int (m * length us)" by (simp add: vs(1) algebra_simps)
  then have ok: "num_ok (- int a)" "num_ok (int (a + v + m * length us))"
    using Cons.prems(3) le(2) unfolding num_ok_def by linarith+
  have "- int a - int v = - int (a + v)" by simp
  then show ?case
    using Cons.IH [OF vs(3) le(1) ok(2), of "d # s"] ok(1)
    by (simp add: repeat_script_Suc exec_simps exec_sub_read vs(1,2) add.assoc)
qed (simp add: reads_def)

text \<open>The digits of the checksum become a number, which is the item itself if there is only one.\<close>

lemma foldl_digits_ge: "0 < base \<Longrightarrow> a \<le> foldl (\<lambda>a d. a * base + d) a cs" for base :: nat
proof (induction cs arbitrary: a)
  case (Cons c cs)
  have "a \<le> a * base + c" using Cons.prems by (cases base) simp_all
  also have "\<dots> \<le> foldl (\<lambda>a d. a * base + d) (a * base + c) cs" using Cons by blast
  finally show ?case by simp
qed simp

lemma exec_checksum_number:
  assumes "reads vm cits cs" "read_num vm d = Inr (int a)" "foldl (\<lambda>a d. a * 2 ^ Suc w + d) a cs < 2147483648"
  shows "exec vm (repeat_script (length cits) (repeat_script (Suc w) [OP_DUP, OP_ADD] @ [OP_FROMALTSTACK, OP_ADD]) @ p) (State (d # s) (cits @ al)) =
    exec vm p (State ((if cits = [] then d else scriptnum (int (foldl (\<lambda>a d. a * 2 ^ Suc w + d) a cs))) # s) al)"
  using assms
proof (induction cits arbitrary: cs a d)
  case (Cons c cits)
  obtain v us where vs: "cs = v # us" "read_num vm c = Inr (int v)" "reads vm cits us"
    using Cons.prems(1) by (auto simp: reads_def list_all2_Cons1)
  define B :: nat where "B = 2 ^ Suc w"
  define x where "x = a * B + v"
  have fin: "foldl (\<lambda>a d. a * B + d) x us < 2147483648" using Cons.prems(3) by (simp only: vs(1) B_def x_def foldl.simps)
  have "0 < B" by (simp add: B_def)
  then have "x < 2147483648" using foldl_digits_ge [of B x us] fin by linarith
  moreover have "a * B \<le> x" by (simp add: x_def)
  ultimately have ok: "num_ok (int x)" "num_ok (int (a * B))" unfolding num_ok_def by linarith+
  have "int (a * 2 ^ w) \<le> int (a * B)" by (simp add: B_def)
  then have ok2: "num_ok (int (a * 2 ^ w))" using ok(2) unfolding num_ok_def by linarith
  have rd: "read_num vm (scriptnum (int (a * B))) = Inr (int (a * B))" "read_num vm (scriptnum (int x)) = Inr (int x)"
    using ok by simp_all
  have sum: "int (a * B) + int v = int x" by (simp add: x_def)
  define D where "D = repeat_script (Suc w) [OP_DUP, OP_ADD]"
  have doublings: "exec vm (D @ q) (State (d # s) al) = exec vm q (State (scriptnum (int (a * B)) # s) al)" for q al
    unfolding D_def B_def by (rule exec_doublings [OF Cons.prems(2) ok2])
  have "exec vm (repeat_script (length (c # cits)) (D @ [OP_FROMALTSTACK, OP_ADD]) @ p) (State (d # s) ((c # cits) @ al)) =
    exec vm (repeat_script (length cits) (D @ [OP_FROMALTSTACK, OP_ADD]) @ p) (State (scriptnum (int x) # s) (cits @ al))"
    by (simp add: repeat_script_Suc doublings exec_simps exec_add_read [OF rd(1) vs(2)] sum del: of_nat_mult)
  also have "\<dots> = exec vm p (State ((if cits = [] then scriptnum (int x) else scriptnum (int (foldl (\<lambda>a d. a * 2 ^ Suc w + d) x us))) # s) al)"
    unfolding D_def by (rule Cons.IH [OF vs(3) rd(2) fin [unfolded B_def]])
  also have "\<dots> = exec vm p (State (scriptnum (int (foldl (\<lambda>a d. a * 2 ^ Suc w + d) x us)) # s) al)"
    using vs(3) by (cases "cits = []") (simp_all add: reads_def)
  finally show ?case by (simp only: D_def vs(1) x_def B_def foldl.simps if_False list.simps)
qed simp

text \<open>The check passes if the number of the checksum digits is the checksum of the message.\<close>

lemma exec_verify_checksum:
  assumes "wots_ok ps" "reads vm ds vs" "length vs = message_digit_len ps" "\<forall>v\<in>set vs. v \<le> max_digit ps"
    "reads vm cits cs" "length cs = checksum_digit_len ps" "\<forall>c\<in>set cs. c \<le> max_digit ps" "verify_checksum ps = Some script"
  shows "\<exists>d. read_num vm d = Inr (int (digits_value (max_digit ps + 1) cs)) \<and>
    (d = hd cits \<or> d = scriptnum (int (digits_value (max_digit ps + 1) cs))) \<and>
    exec vm (script @ p) (State s (ds @ cits @ al)) =
      (if scriptnum (int (max_digit ps * message_digit_len ps - sum_list vs)) = d then exec vm p (State (rev ds @ s) al) else Inl EqualVerify)"
proof -
  note b = wots_ok_bounds [OF assms(1)]
  obtain v us where vs: "vs = v # us" using assms(1,3) by (cases vs) (auto simp: wots_ok_def)
  obtain dd ds' where ds: "ds = dd # ds'" "read_num vm dd = Inr (int v)" "reads vm ds' us"
    using assms(2) by (auto simp: reads_def vs list_all2_Cons2)
  obtain c cs' where cs: "cs = c # cs'" using assms(1,6) by (cases cs) (auto simp: wots_ok_def)
  obtain cc cits' where cits: "cits = cc # cits'" "read_num vm cc = Inr (int c)" "reads vm cits' cs'"
    using assms(5) by (auto simp: reads_def cs list_all2_Cons2)
  obtain w where w: "log2_base ps = Suc w" using assms(1) by (cases "log2_base ps") (auto simp: wots_ok_def)
  have base: "max_digit ps + 1 = 2 ^ Suc w" using b(1) by (simp only: w)
  let ?M = "max_digit ps * message_digit_len ps"
  have M: "?M < 2147483648" using b(4,5) by linarith
  have lens: "length ds' = message_digit_len ps - 1" "length cits' = checksum_digit_len ps - 1" "length us = message_digit_len ps - 1"
    "length cs' = checksum_digit_len ps - 1"
    using assms(3,6) ds(3) cits(3) by (auto simp: vs cs reads_def dest: list_all2_lengthD)
  have le: "\<forall>v\<in>set us. v \<le> max_digit ps" "v \<le> max_digit ps" using assms(4) by (simp_all add: vs)
  have sum_le: "sum_list vs \<le> ?M" using sum_list_le [OF assms(4)] assms(3) by simp
  have "v + max_digit ps * length us \<le> ?M" using le(2) assms(3) by (simp add: vs algebra_simps flip: assms(3))
  then have ok: "num_ok (int (v + max_digit ps * length us))" "num_ok (int ?M)" "num_ok (- int (sum_list vs))"
    using M sum_le unfolding num_ok_def by linarith+
  define num where "num = foldl (\<lambda>a d. a * 2 ^ Suc w + d) c cs'"
  define d where "d = (if cits' = [] then cc else scriptnum (int num))"
  have num: "digits_value (max_digit ps + 1) cs = num" unfolding base by (simp add: digits_value_def cs num_def)
  have "digits_value (max_digit ps + 1) cs < (max_digit ps + 1) ^ checksum_digit_len ps"
    using digits_value_less [of cs "max_digit ps + 1"] assms(6,7) by (simp add: less_Suc_eq_le One_nat_def)
  then have fin: "num < 2147483648" using b(5) unfolding num by linarith
  then have num_ok: "num_ok (int num)" by (simp add: num_ok_def)
  have script: "script = [OP_FROMALTSTACK, OP_DUP, OP_NEGATE] @ repeat_script (length ds') [OP_FROMALTSTACK, OP_TUCK, OP_SUB] @
      [pushn ?M, OP_ADD, OP_FROMALTSTACK] @
      repeat_script (length cits') (repeat_script (Suc w) [OP_DUP, OP_ADD] @ [OP_FROMALTSTACK, OP_ADD]) @ [OP_EQUALVERIFY]"
    using assms(1,8) by (simp add: verify_checksum_def checked_sub_def for_range_const w lens wots_ok_def split: if_splits)
  have diff: "int ?M - int (sum_list vs) = int (?M - sum_list vs)" using sum_le by (simp add: of_nat_diff)
  have "exec vm (script @ p) (State s (ds @ cits @ al)) =
      exec vm ([pushn ?M, OP_ADD, OP_FROMALTSTACK] @
        repeat_script (length cits') (repeat_script (Suc w) [OP_DUP, OP_ADD] @ [OP_FROMALTSTACK, OP_ADD]) @ [OP_EQUALVERIFY] @ p)
        (State (scriptnum (- int (sum_list vs)) # rev ds @ s) (cits @ al))"
    unfolding script using exec_sum_digits [OF ds(3) le(1) ok(1), of _ "dd # s" "cits @ al"]
    by (simp add: exec_simps exec_negate_read [OF ds(2)] ds(1) vs)
  also have "\<dots> = exec vm (OP_EQUALVERIFY # p) (State (d # scriptnum (int (?M - sum_list vs)) # rev ds @ s) al)"
    using ok(2,3) exec_checksum_number [OF cits(3,2) fin [unfolded num_def], of "[OP_EQUALVERIFY] @ p" _ al]
    by (simp add: exec_simps exec_pushn cits(1) diff d_def num_def del: of_nat_diff of_nat_mult)
  also have "\<dots> = (if scriptnum (int (?M - sum_list vs)) = d then exec vm p (State (rev ds @ s) al) else Inl EqualVerify)"
    by (auto simp: exec_simps)
  finally have "exec vm (script @ p) (State s (ds @ cits @ al)) =
      (if scriptnum (int (?M - sum_list vs)) = d then exec vm p (State (rev ds @ s) al) else Inl EqualVerify)" .
  moreover have "read_num vm d = Inr (int num)" using num_ok cits(2,3) by (auto simp: d_def num_def reads_def)
  ultimately show ?thesis unfolding num by (intro exI [of _ d]) (simp add: d_def cits(1))
qed

section \<open>The loop over the digits\<close>

lemma for_range_down: "for_range 0 n (\<lambda>i. f (n - 1 - i)) = concat (map f (rev [0..<n]))"
proof -
  have "map (\<lambda>i. f (n - 1 - i)) [0..<n] = map f (rev [0..<n])"
    by (rule nth_equalityI) (simp_all add: rev_nth One_nat_def)
  then show ?thesis by (simp add: for_range_def)
qed

lemma split_blocks:
  assumes "length xs = k * n"
  shows "\<exists>bs. length bs = n \<and> (\<forall>b\<in>set bs. length b = k) \<and> concat (rev bs) = xs"
  using assms
proof (induction n arbitrary: xs)
  case (Suc n)
  have "length (drop k xs) = k * n" using Suc.prems by simp
  then obtain bs where bs: "length bs = n" "\<forall>b\<in>set bs. length b = k" "concat (rev bs) = drop k xs"
    using Suc.IH by blast
  then show ?case using Suc.prems by (intro exI [of _ "bs @ [take k xs]"]) simp
qed simp

context wots_digit
begin

lemma exec_digits_accept:
  assumes "wots_ok ps" "length bs = n" "length ds = n" "\<forall>i<n. length (bs ! i) = arity \<and> judge vm ps (pk ! i) (bs ! i) = Inr (ds ! i)"
  shows "exec vm (concat (map (\<lambda>i. digit ps (pk ! i)) (rev [0..<n])) @ p) (State (concat (rev bs) @ s) al) = exec vm p (State s (ds @ al))"
  using assms(2-4)
proof (induction n arbitrary: bs ds al)
  case (Suc n)
  obtain b bs' d ds' where e: "bs = bs' @ [b]" "ds = ds' @ [d]" "length bs' = n" "length ds' = n"
    using Suc.prems(1,2) by (cases bs rule: rev_cases; cases ds rule: rev_cases) auto
  have "length b = arity" "judge vm ps (pk ! n) b = Inr d" using Suc.prems(3) e by (metis lessI nth_append_length)+
  moreover have "\<forall>i<n. length (bs' ! i) = arity \<and> judge vm ps (pk ! i) (bs' ! i) = Inr (ds' ! i)"
    using Suc.prems(3) e by (metis less_SucI nth_append)
  ultimately show ?case using Suc.IH [OF e(3,4)] exec_digit [OF assms(1)] by (simp add: e(1,2))
qed simp

lemma exec_digits_sound:
  assumes "wots_ok ps" "length bs = n" "\<forall>b\<in>set bs. length b = arity"
    "exec vm (concat (map (\<lambda>i. digit ps (pk ! i)) (rev [0..<n])) @ p) (State (concat (rev bs) @ s) al) = Inr r"
  shows "\<exists>ds. length ds = n \<and> (\<forall>i<n. judge vm ps (pk ! i) (bs ! i) = Inr (ds ! i)) \<and> exec vm p (State s (ds @ al)) = Inr r"
  using assms(2-4)
proof (induction n arbitrary: bs al)
  case (Suc n)
  obtain b bs' where e: "bs = bs' @ [b]" "length bs' = n" using Suc.prems(1) by (cases bs rule: rev_cases) auto
  have b: "length b = arity" using Suc.prems(2) by (simp add: e)
  obtain d where d: "judge vm ps (pk ! n) b = Inr d"
      "exec vm (concat (map (\<lambda>i. digit ps (pk ! i)) (rev [0..<n])) @ p) (State (concat (rev bs') @ s) (d # al)) = Inr r"
    using Suc.prems(3) exec_digit [OF assms(1) b] by (auto simp: e(1) and_then_Inr_iff)
  obtain ds where ds: "length ds = n" "\<forall>i<n. judge vm ps (pk ! i) (bs' ! i) = Inr (ds ! i)" "exec vm p (State s (ds @ d # al)) = Inr r"
    using Suc.IH [OF e(2) _ d(2)] Suc.prems(2) by (auto simp: e(1))
  have "\<forall>i<Suc n. judge vm ps (pk ! i) (bs ! i) = Inr ((ds @ [d]) ! i)"
    using ds(1,2) d(1) e by (auto simp: less_Suc_eq nth_append)
  then show ?case using ds by (intro exI [of _ "ds @ [d]"]) simp
qed simp

text \<open>Accepted items are read as a message with its checksum, and hold a point of the chain of every digit.\<close>

lemma signature_sound:
  assumes "wots_ok ps" "for_digits ps pk (digit ps) = Some digits" "verify_checksum ps = Some sum_script"
    "length xs = arity * total_digit_len ps" "exec vm (digits @ sum_script @ p) (State (xs @ s) al) = Inr r"
  shows "\<exists>vs ds ws. length vs = message_digit_len ps \<and> (\<forall>v\<in>set vs. v \<le> max_digit ps) \<and> reads vm ds vs \<and>
    add_message_checksum ps vs = Some ws \<and>
    (\<forall>i<total_digit_len ps. \<exists>h\<in>set xs. length h = 20 \<and> chain vm (max_digit ps - ws ! i) h = pk ! i) \<and>
    exec vm p (State (rev ds @ s) al) = Inr r"
proof -
  let ?n = "message_digit_len ps" and ?L = "total_digit_len ps"
  obtain bs where bs: "length bs = ?L" "\<forall>b\<in>set bs. length b = arity" "concat (rev bs) = xs" using split_blocks [OF assms(4)] by blast
  have digits: "digits = concat (map (\<lambda>i. digit ps (pk ! i)) (rev [0..<?L]))"
    using assms(2) for_range_down [of ?L "\<lambda>i. digit ps (pk ! i)"] by (auto simp: for_digits_def rust_assert_def split: if_splits)
  obtain ds where ds: "length ds = ?L" "\<forall>i<?L. judge vm ps (pk ! i) (bs ! i) = Inr (ds ! i)"
      "exec vm (sum_script @ p) (State s (ds @ al)) = Inr r"
    using exec_digits_sound [OF assms(1) bs(1,2) assms(5) [unfolded digits, folded bs(3)]] by blast
  have "\<forall>i<?L. \<exists>v. read_num vm (ds ! i) = Inr (int v) \<and> v \<le> max_digit ps \<and>
      (\<exists>h\<in>set xs. length h = 20 \<and> chain vm (max_digit ps - v) h = pk ! i)"
  proof (intro allI impI)
    fix i assume i: "i < ?L"
    have b: "bs ! i \<in> set bs" using i bs(1) by simp
    then have "set (bs ! i) \<subseteq> set xs" using bs(3) by auto
    then show "\<exists>v. read_num vm (ds ! i) = Inr (int v) \<and> v \<le> max_digit ps \<and>
        (\<exists>h\<in>set xs. length h = 20 \<and> chain vm (max_digit ps - v) h = pk ! i)"
      using judge_sound [OF assms(1), of "bs ! i" vm "pk ! i" "ds ! i"] ds(2) bs(2) b i by blast
  qed
  then obtain f where f: "\<forall>i<?L. read_num vm (ds ! i) = Inr (int (f i)) \<and> f i \<le> max_digit ps \<and>
      (\<exists>h\<in>set xs. length h = 20 \<and> chain vm (max_digit ps - f i) h = pk ! i)" by metis
  define ws where "ws = map f [0..<?L]"
  have ws: "length ws = ?L" "\<forall>v\<in>set ws. v \<le> max_digit ps" "reads vm ds ws"
    using f ds(1) by (auto simp: ws_def reads_def list_all2_conv_all_nth)
  define vs cs where "vs = take ?n ws" and "cs = drop ?n ws"
  have split: "ws = vs @ cs" "length vs = ?n" "length cs = checksum_digit_len ps"
    using ws(1) by (simp_all add: vs_def cs_def total_digit_len_def)
  have le: "\<forall>v\<in>set vs. v \<le> max_digit ps" "\<forall>c\<in>set cs. c \<le> max_digit ps" using ws(2) by (auto simp: split(1))
  have rd: "reads vm (take ?n ds) vs" "reads vm (drop ?n ds) cs"
    using ws(3) by (simp_all add: reads_def vs_def cs_def)
  let ?V = "digits_value (max_digit ps + 1) cs" and ?C = "max_digit ps * ?n - sum_list vs"
  obtain d where d: "read_num vm d = Inr (int ?V)"
      "exec vm (sum_script @ p) (State s (take ?n ds @ drop ?n ds @ al)) =
       (if scriptnum (int ?C) = d then exec vm p (State (rev (take ?n ds) @ s) al) else Inl EqualVerify)"
    using exec_verify_checksum [OF assms(1) rd(1) split(2) le(1) rd(2) split(3) le(2) assms(3)] by blast
  have "exec vm (sum_script @ p) (State s (take ?n ds @ drop ?n ds @ al)) = Inr r" using ds(3) by (simp flip: append_assoc)
  then have acc: "scriptnum (int ?C) = d" "exec vm p (State (rev (take ?n ds) @ s) al) = Inr r"
    using d(2) by (simp_all split: if_splits)
  have "num_ok (int ?C)" using wots_ok_bounds(4,5) [OF assms(1)] unfolding num_ok_def by linarith
  then have "int ?C = int ?V" using d(1) acc(1) read_num_scriptnum [of "int ?C" vm] by simp
  then have "?C = ?V" by (simp only: of_nat_eq_iff)
  then have "add_message_checksum ps vs = Some ws"
    using add_message_checksum_run [OF assms(1) split(2) le(1)] checksum_loop_unique [of cs "max_digit ps + 1"] le(2) split(3)
    by (simp add: split(1) less_Suc_eq_le One_nat_def)
  moreover have "\<forall>i<?L. \<exists>h\<in>set xs. length h = 20 \<and> chain vm (max_digit ps - ws ! i) h = pk ! i"
    using f by (simp add: ws_def)
  ultimately show ?thesis using split(2) le(1) rd(1) acc(2) by blast
qed

text \<open>What the signer lays out is accepted, and leaves the message.\<close>

lemma signature_complete:
  assumes "wots_ok ps" "\<forall>x. length (hash160 vm x) = 20"
    "for_digits ps (generate_public_key vm ps sk) (digit ps) = Some digits" "verify_checksum ps = Some sum_script"
    "length vs = message_digit_len ps" "\<forall>v\<in>set vs. v \<le> max_digit ps" "add_message_checksum ps vs = Some ws"
    "compact \<longrightarrow> (\<forall>i<total_digit_len ps. \<forall>j\<le>2 * max_digit ps.
       chain vm j (secret_key_for_digit vm sk i) = public_key_for_digit vm ps sk i \<longrightarrow> j = max_digit ps)"
  shows "exec vm (digits @ sum_script @ p)
      (State (concat (rev (map (\<lambda>i. present (digit_signature vm sk i (ws ! i)) (ws ! i)) [0..<total_digit_len ps])) @ s) al) =
    exec vm p (State (rev (map (\<lambda>v. scriptnum (int v)) vs) @ s) al)"
proof -
  let ?n = "message_digit_len ps" and ?L = "total_digit_len ps" and ?pk = "generate_public_key vm ps sk"
  define cs where "cs = checksum_loop (max_digit ps + 1) (checksum_digit_len ps) (max_digit ps * ?n - sum_list vs)"
  have ws: "ws = vs @ cs" using add_message_checksum_run [OF assms(1,5,6)] assms(7) by (simp add: cs_def)
  have lens: "length cs = checksum_digit_len ps" "length ws = ?L" using assms(5) by (simp_all add: cs_def ws total_digit_len_def)
  have le: "\<forall>c\<in>set cs. c \<le> max_digit ps" using checksum_loop_digits [of "max_digit ps + 1"] by (auto simp: cs_def less_Suc_eq_le One_nat_def)
  have small: "max_digit ps * ?n - sum_list vs < (max_digit ps + 1) ^ checksum_digit_len ps"
    using wots_ok_bounds(4) [OF assms(1)] by linarith
  have digits: "digits = concat (map (\<lambda>i. digit ps (?pk ! i)) (rev [0..<?L]))"
    using assms(3) for_range_down [of ?L "\<lambda>i. digit ps (?pk ! i)"] by (auto simp: for_digits_def rust_assert_def split: if_splits)
  define item where "item v = scriptnum (int v)" for v
  define bs where "bs = map (\<lambda>i. present (digit_signature vm sk i (ws ! i)) (ws ! i)) [0..<?L]"
  have judged: "length (bs ! i) = arity \<and> judge vm ps (?pk ! i) (bs ! i) = Inr (map item ws ! i)" if i: "i < ?L" for i
  proof -
    let ?h = "digit_signature vm sk i (ws ! i)"
    have "ws ! i \<in> set ws" using i lens(2) by simp
    then have v: "ws ! i \<le> max_digit ps" using assms(6) le by (auto simp: ws)
    have len: "length (chain vm k (secret_key_for_digit vm sk i)) = 20" for k
      by (cases k) (simp_all add: assms(2) secret_key_for_digit_def)
    have pk: "?pk ! i = public_key_for_digit vm ps sk i" using i by (simp add: generate_public_key_def)
    have "chain vm (max_digit ps - ws ! i) ?h = ?pk ! i"
      using v by (simp add: pk digit_signature_def public_key_for_digit_def chain_add)
    moreover have "\<forall>k\<le>max_digit ps. chain vm k ?h = ?pk ! i \<longrightarrow> k = max_digit ps - ws ! i" if compact
    proof (intro allI impI)
      fix k assume k: "k \<le> max_digit ps" "chain vm k ?h = ?pk ! i"
      then have "k + ws ! i = max_digit ps" using assms(8) that i v
        by (auto simp: pk digit_signature_def chain_add)
      then show "k = max_digit ps - ws ! i" by simp
    qed
    ultimately show ?thesis using judge_complete [OF assms(1) v] len lens(2) i
      by (simp add: bs_def length_present item_def digit_signature_def)
  qed
  have rd: "reads vm (map item us) us" if "\<forall>u\<in>set us. u \<le> max_digit ps" for us
    using that digit_num_ok [OF assms(1)] by (simp add: reads_def item_def list_all2_conv_all_nth)
  let ?C = "max_digit ps * ?n - sum_list vs"
  have num: "digits_value (max_digit ps + 1) cs = ?C" using small by (simp add: cs_def checksum_loop_value)
  have c0: "cs \<noteq> []" using lens(1) assms(1) by (auto simp: wots_ok_def)
  obtain d where d: "read_num vm d = Inr (int ?C)" "d = hd (map item cs) \<or> d = scriptnum (int ?C)"
      "exec vm (sum_script @ p) (State s (map item vs @ map item cs @ al)) =
       (if scriptnum (int ?C) = d then exec vm p (State (rev (map item vs) @ s) al) else Inl EqualVerify)"
    using exec_verify_checksum [OF assms(1) rd [OF assms(6)] assms(5,6) rd [OF le] lens(1) le assms(4)] unfolding num by blast
  have "hd cs \<le> max_digit ps" using le c0 by simp
  then have "d = scriptnum (int ?C)" using d(1,2) c0 digit_num_ok [OF assms(1), of "hd cs"] by (auto simp: hd_map item_def)
  then have last_step: "exec vm (sum_script @ p) (State s (map item ws @ al)) = exec vm p (State (rev (map item vs) @ s) al)"
    using d(3) by (simp add: ws)
  have "exec vm (digits @ sum_script @ p) (State (concat (rev bs) @ s) al) = exec vm (sum_script @ p) (State s (map item ws @ al))"
    unfolding digits by (rule exec_digits_accept [OF assms(1)]) (use judged lens(2) in \<open>simp_all add: bs_def\<close>)
  then show ?thesis unfolding last_step bs_def by (simp add: item_def [abs_def])
qed

end

section \<open>Forgeries and signatures\<close>

text \<open>A forged message needs a point of a chain before the published one.\<close>

lemma earlier_point:
  assumes "wots_ok ps" "length vs = message_digit_len ps" "\<forall>v\<in>set vs. v \<le> max_digit ps"
    "length us = message_digit_len ps" "\<forall>u\<in>set us. u \<le> max_digit ps" "vs \<noteq> us"
    "add_message_checksum ps vs = Some ws" "add_message_checksum ps us = Some zs"
    "\<forall>i<total_digit_len ps. \<exists>h\<in>set xs. length h = 20 \<and> chain vm (max_digit ps - ws ! i) h = generate_public_key vm ps sk ! i"
  shows "\<exists>i<total_digit_len ps. \<exists>h\<in>set xs. \<exists>j>0. length h = 20 \<and>
    chain vm (max_digit ps - zs ! i + j) h = chain vm (max_digit ps - zs ! i) (digit_signature vm sk i (zs ! i))"
proof -
  obtain i where i: "i < total_digit_len ps" "ws ! i < zs ! i" using checksum_no_domination [OF assms(1-8)] by blast
  obtain h where h: "h \<in> set xs" "length h = 20" "chain vm (max_digit ps - ws ! i) h = generate_public_key vm ps sk ! i"
    using assms(9) i(1) by blast
  have zs: "zs = us @ checksum_loop (max_digit ps + 1) (checksum_digit_len ps) (max_digit ps * message_digit_len ps - sum_list us)"
    using add_message_checksum_run [OF assms(1,4,5)] assms(8) by simp
  then have "zs ! i \<in> set zs" using i(1) assms(4) by (intro nth_mem) (simp add: total_digit_len_def)
  then have le: "zs ! i \<le> max_digit ps"
    using assms(5) checksum_loop_digits [of "max_digit ps + 1"] by (auto simp: zs less_Suc_eq_le One_nat_def)
  have "max_digit ps - zs ! i + (zs ! i - ws ! i) = max_digit ps - ws ! i" using i(2) le by simp
  moreover have "chain vm (max_digit ps - zs ! i) (digit_signature vm sk i (zs ! i)) = generate_public_key vm ps sk ! i"
    using le i(1) by (simp add: digit_signature_def chain_add generate_public_key_def public_key_for_digit_def)
  ultimately show ?thesis using i h by (intro exI [of _ i] conjI bexI [of _ h] exI [of _ "zs ! i - ws ! i"]) simp_all
qed

lemma checksig_parts:
  assumes "checksig_verify digit void_converter ps pk = Some script"
  obtains digits sum_script where "for_digits ps pk (digit ps) = Some digits" "verify_checksum ps = Some sum_script" "script = digits @ sum_script"
  using assms by (auto simp: checksig_verify_def void_converter_def bind_eq_Some_conv)

text \<open>The witness of a signature, the last item on top.\<close>

lemma rev_pairs: "rev (concat (map (\<lambda>i. [f i, g i]) xs)) = concat (rev (map (\<lambda>i. [g i, f i]) xs))"
  by (induction xs) simp_all

lemma sign_digits_stack:
  assumes "add_message_checksum ps vs = Some ws" "sign_digits vm ps sk vs = Some sig"
  shows "rev sig = concat (rev (map (\<lambda>i. present_pair (digit_signature vm sk i (ws ! i)) (ws ! i)) [0..<total_digit_len ps]))"
proof -
  have "sig = concat (map (\<lambda>i. [digit_signature vm sk i (ws ! i), bitcoin_representation (int (ws ! i))]) [0..<total_digit_len ps])"
    using assms by (simp add: sign_digits_def)
  then show ?thesis by (simp only: rev_pairs present_pair_def bitcoin_representation_def)
qed

lemma sign_digits_compact_stack:
  assumes "add_message_checksum ps vs = Some ws" "sign_digits_compact vm ps sk vs = Some sig"
  shows "rev sig = concat (rev (map (\<lambda>i. present_hash (digit_signature vm sk i (ws ! i)) (ws ! i)) [0..<total_digit_len ps]))"
proof -
  have "concat (rev (map (\<lambda>i. [f i]) xs)) = rev (map f xs)" for f :: "nat \<Rightarrow> item" and xs by (induction xs) simp_all
  then show ?thesis using assms by (simp add: sign_digits_compact_def present_hash_def)
qed

lemma drop_message: "length ds = n \<Longrightarrow>
  exec vm (for_range 0 (n div 2) (\<lambda>_. [OP_2DROP]) @ (if n mod 2 = 1 then [OP_DROP] else []) @ p) (State (ds @ s) al) = exec vm p (State s al)"
proof -
  assume n: "length ds = n"
  have "length (take (2 * (n div 2)) ds) = 2 * (n div 2)" using n by simp
  then have "exec vm (repeat_script (n div 2) [OP_2DROP] @ q) (State (ds @ s) al) = exec vm q (State (drop (2 * (n div 2)) ds @ s) al)" for q
    using exec_drop_pairs [of "take (2 * (n div 2)) ds" "n div 2" vm q "drop (2 * (n div 2)) ds @ s" al] by (simp flip: append_assoc)
  moreover have "length (drop (2 * (n div 2)) ds) = n mod 2" using n by (simp add: minus_mult_div_eq_mod)
  ultimately show ?thesis
    by (cases "drop (2 * (n div 2)) ds") (auto simp: for_range_const exec_simps One_nat_def mod2_eq_if split: if_splits)
qed

end
