(* ===== verification/Winternitz_Signatures.thy ===== *)
theory Winternitz_Signatures
  imports Winternitz_Scheme
begin

text \<open>
  The properties of the signatures of \<open>winternitz.rs\<close>: what is accepted, what a forgery needs, and that a message is
  the number of its digits. The converter to bytes is here as well.
\<close>

section \<open>Messages\<close>

abbreviation number_of_digits :: "nat \<Rightarrow> nat list \<Rightarrow> nat" where
  "number_of_digits w \<equiv> horner_sum id (2 ^ w)"

lemma number_of_digits_update:
  "i < length ds \<Longrightarrow> number_of_digits w (ds[i := ds ! i + x]) = number_of_digits w ds + x * 2 ^ (i * w)"
proof (induction ds arbitrary: i)
  case (Cons d ds)
  then show ?case by (cases i) (simp_all add: power_add algebra_simps)
qed simp

lemma or_new_bit:
  assumes "a < 2 ^ k"
  shows "Bit_Operations.or a (push_bit k (of_bool b)) = a + 2 ^ k * of_bool b" "a + 2 ^ k * of_bool b < (2 ^ Suc k :: nat)"
proof -
  have "\<not> bit a k" using assms by (simp add: bit_iff_odd)
  then have "Bit_Operations.and a (push_bit k (of_bool b)) = 0"
    by (cases b) (simp_all add: and_exp_eq_0_iff_not_bit)
  then have "a + push_bit k (of_bool b) = Bit_Operations.or a (push_bit k (of_bool b))" by (rule disjunctive_add_eq_or)
  then show "Bit_Operations.or a (push_bit k (of_bool b)) = a + 2 ^ k * of_bool b" by (simp add: push_bit_eq_mult mult.commute)
  show "a + 2 ^ k * of_bool b < (2 ^ Suc k :: nat)" using assms by (cases b) simp_all
qed

lemma place_bits_value:
  assumes "place_bits w bs di bi digits = Some ds" "0 < w" "bi \<le> w" "di < length digits"
    "digits ! di < 2 ^ bi" "\<forall>j. di < j \<longrightarrow> j < length digits \<longrightarrow> digits ! j = 0" "\<forall>d\<in>set digits. d < 2 ^ w"
  shows "number_of_digits w ds = number_of_digits w digits + 2 ^ (di * w + bi) * horner_sum of_bool 2 bs \<and>
    length ds = length digits \<and> (\<forall>d\<in>set ds. d < 2 ^ w)"
  using assms
proof (induction bs arbitrary: di bi digits)
  case (Cons b bs)
  obtain dj bj where pos: "(if bi = w then (di + 1, 0) else (di, bi)) = (dj, bj)" by fastforce
  define es where "es = digits[dj := Bit_Operations.or (digits ! dj) (push_bit bj (of_bool b))]"
  have "place_bits w (b # bs) di bi digits = rust_assert (dj < length digits) \<bind> (\<lambda>_. place_bits w bs dj (bj + 1) es)"
    by (simp only: place_bits.simps pos Let_def prod.case es_def)
  then have rest: "dj < length digits" "place_bits w bs dj (bj + 1) es = Some ds"
    using Cons.prems(1) by (simp_all add: rust_assert_def split: if_splits)
  have bj: "bj < w" "dj * w + bj = di * w + bi" using pos Cons.prems(2,3) by (auto simp: One_nat_def split: if_splits)
  have low: "digits ! dj < 2 ^ bj" using pos Cons.prems(5,6) rest(1) by (auto split: if_splits)
  have zero: "\<forall>j. dj < j \<longrightarrow> j < length digits \<longrightarrow> digits ! j = 0" using pos Cons.prems(6) by (auto split: if_splits)
  let ?x = "2 ^ bj * of_bool b :: nat"
  have or: "Bit_Operations.or (digits ! dj) (push_bit bj (of_bool b)) = digits ! dj + ?x" by (rule or_new_bit(1) [OF low])
  have lt: "digits ! dj + ?x < 2 ^ (bj + 1)" using or_new_bit(2) [OF low, of b] by (simp only: Suc_eq_plus1)
  also have "(2 :: nat) ^ (bj + 1) \<le> 2 ^ w" using bj(1) by (intro power_increasing) (simp_all add: One_nat_def)
  finally have w: "\<forall>d\<in>set (digits[dj := digits ! dj + ?x]). d < 2 ^ w"
    using Cons.prems(7) set_update_subset_insert [of digits dj "digits ! dj + ?x"] by auto
  have "number_of_digits w ds = number_of_digits w (digits[dj := digits ! dj + ?x]) + 2 ^ (dj * w + (bj + 1)) * horner_sum of_bool 2 bs \<and>
      length ds = length (digits[dj := digits ! dj + ?x]) \<and> (\<forall>d\<in>set ds. d < 2 ^ w)"
    by (rule Cons.IH [OF rest(2) [unfolded es_def or] Cons.prems(2)]) (use bj rest(1) lt zero w in simp_all)
  moreover have "2 ^ bj * of_bool b * 2 ^ (dj * w) + 2 ^ (dj * w + (bj + 1)) * h = 2 ^ (di * w + bi) * (of_bool b + 2 * h)" for h :: nat
    unfolding bj(2) [symmetric] by (simp add: power_add algebra_simps)
  ultimately show ?case by (simp only: number_of_digits_update [OF rest(1)] horner_sum_simps add.assoc length_list_update simp_thms) blast
qed simp

lemma byte_number: "horner_sum of_bool 2 (map (bit (b :: byte)) [0..<8]) = unat b"
proof -
  have "map (bit b) [0..<8] = map (bit (unat b)) [0..<8]" by (rule map_cong) (auto simp: bit_simps)
  then have "horner_sum of_bool 2 (map (bit b) [0..<8]) = take_bit 8 (unat b)" by (simp only: horner_sum_bit_eq_take_bit)
  also have "\<dots> = unat b" using byte_less [of b] by (simp add: take_bit_nat_eq_self)
  finally show ?thesis .
qed

lemma message_number: "horner_sum of_bool 2 (concat (map (\<lambda>byte. map (bit byte) [0..<8]) message)) = le_to_nat message"
proof (induction message)
  case (Cons b message)
  have "horner_sum of_bool 2 (map (bit b) [0..<8] @ bs) = unat b + 2 ^ 8 * horner_sum of_bool 2 bs" for bs :: "bool list"
    by (simp only: horner_sum_append byte_number length_map length_upt) simp
  then show ?case using Cons by simp
qed simp

lemma digits_value_rev: "digits_value (2 ^ w) (rev ds) = number_of_digits w ds"
  by (induction ds) (simp_all add: mult.commute)

text \<open>Every message that fits has digits, and these make up the message as a number.\<close>

lemma place_bits_runs:
  "0 < w \<Longrightarrow> bi \<le> w \<Longrightarrow> di * w + bi + length bs \<le> length digits * w \<Longrightarrow> \<exists>ds. place_bits w bs di bi digits = Some ds"
proof (induction bs arbitrary: di bi digits)
  case (Cons b bs)
  obtain dj bj where pos: "(if bi = w then (di + 1, 0) else (di, bi)) = (dj, bj)" by fastforce
  have bj: "bj < w" "dj * w + bj = di * w + bi" using pos Cons.prems(1,2) by (auto simp: One_nat_def split: if_splits)
  then have le: "dj * w + (bj + 1) + length bs \<le> length digits * w" using Cons.prems(3) by (simp add: One_nat_def)
  then have "dj * w < length digits * w" by linarith
  then have dj: "dj < length digits" by (simp only: mult_less_cancel2)
  define es where "es = digits[dj := Bit_Operations.or (digits ! dj) (push_bit bj (of_bool b))]"
  have "place_bits w (b # bs) di bi digits = rust_assert (dj < length digits) \<bind> (\<lambda>_. place_bits w bs dj (bj + 1) es)"
    by (simp only: place_bits.simps pos Let_def prod.case es_def)
  moreover have "\<exists>ds. place_bits w bs dj (bj + 1) es = Some ds"
    by (rule Cons.IH) (use Cons.prems bj le in \<open>simp_all add: es_def One_nat_def\<close>)
  ultimately show ?case using dj by (simp add: rust_assert_def)
qed simp

lemma message_to_digits_run:
  assumes "4 \<le> w" "w \<le> 8" "0 < n" "length message * 8 \<le> n * w"
  shows "\<exists>ds. message_to_digits n w message = Some ds \<and> length ds = n \<and> (\<forall>d\<in>set ds. d < 2 ^ w) \<and>
    digits_value (2 ^ w) ds = le_to_nat message"
proof -
  let ?bits = "concat (map (\<lambda>byte. map (bit byte) [0..<8]) message)"
  have len: "length ?bits = length message * 8" by (induction message) simp_all
  have "\<exists>es. place_bits w ?bits 0 0 (replicate n 0) = Some es"
    using place_bits_runs [of w 0 0 ?bits "replicate n 0"] assms by (simp only: len length_replicate)
  then obtain es where es: "place_bits w ?bits 0 0 (replicate n 0) = Some es" by blast
  have zeros: "number_of_digits w (replicate n 0) = 0" by (induction n) simp_all
  have "number_of_digits w es = number_of_digits w (replicate n 0) + 2 ^ (0 * w + 0) * horner_sum of_bool 2 ?bits \<and>
      length es = length (replicate n (0 :: nat)) \<and> (\<forall>d\<in>set es. d < 2 ^ w)"
    by (rule place_bits_value [OF es]) (use assms in simp_all)
  then have "number_of_digits w es = le_to_nat message" "length es = n" "\<forall>d\<in>set es. d < 2 ^ w"
    by (simp_all add: zeros message_number)
  then show ?thesis using es assms(1,2,4)
    by (intro exI [of _ "rev es"]) (simp add: message_to_digits_def rust_assert_def digits_value_rev)
qed

section \<open>Digits on the stack as a number\<close>

lemma exec_toaltstacks: "exec vm (repeat_script (length ds) [OP_TOALTSTACK] @ p) (State (ds @ s) al) = exec vm p (State s (rev ds @ al))"
  by (induction ds arbitrary: al) (simp_all add: repeat_script_Suc exec_simps)

lemma digits_to_number_runs:
  assumes "length vs = n" "0 < n" "digits_to_number n (Suc w) = Some script" "\<forall>v\<in>set vs. v < 2 ^ Suc w"
    "w < 30" "digits_value (2 ^ Suc w) vs < 2147483648"
  shows "exec vm (script @ p) (State (rev (map (\<lambda>v. scriptnum (int v)) vs) @ s) al) =
    exec vm p (State (scriptnum (int (digits_value (2 ^ Suc w) vs)) # s) al)"
proof -
  obtain v us where vs: "vs = v # us" using assms(1,2) by (cases vs) auto
  let ?item = "\<lambda>v. scriptnum (int v)"
  have script: "script = repeat_script (length us) [OP_TOALTSTACK] @
      repeat_script (length us) (repeat_script (Suc w) [OP_DUP, OP_ADD] @ [OP_FROMALTSTACK, OP_ADD])"
    using assms(1-3) by (auto simp: digits_to_number_def checked_sub_def for_range_const vs One_nat_def split: if_splits)
  have "(2 :: nat) ^ Suc w \<le> 2 ^ 30" using assms(5) by (intro power_increasing) simp_all
  then have ok: "num_ok (int u)" if "u \<in> set vs" for u
    using assms(4) that unfolding num_ok_def by fastforce
  have rd: "reads vm (map ?item us) us" using ok by (simp add: reads_def list_all2_conv_all_nth vs)
  have fin: "foldl (\<lambda>a d. a * 2 ^ Suc w + d) v us < 2147483648" using assms(6) by (simp add: digits_value_def vs)
  have "exec vm (repeat_script (length (map ?item us)) (repeat_script (Suc w) [OP_DUP, OP_ADD] @ [OP_FROMALTSTACK, OP_ADD]) @ p)
      (State (?item v # s) (map ?item us @ al)) =
    exec vm p (State ((if map ?item us = [] then ?item v else ?item (foldl (\<lambda>a d. a * 2 ^ Suc w + d) v us)) # s) al)"
    by (rule exec_checksum_number [OF rd _ fin]) (use ok in \<open>simp add: vs\<close>)
  also have "\<dots> = exec vm p (State (?item (digits_value (2 ^ Suc w) vs) # s) al)"
    by (cases us) (simp_all add: digits_value_def vs)
  finally show ?thesis
    using exec_toaltstacks [of vm "rev (map ?item us)" _ "?item v # s" al] by (simp add: script vs)
qed

section \<open>Properties\<close>

text \<open>A machine whose hash counts, and parameters for two digits of a message.\<close>

definition counting_vm :: vm where
  "counting_vm = \<lparr>hash160 = (\<lambda>x. (if x = [] then 0 else hd x + 1) # replicate 19 0), require_minimal = True\<rparr>"

definition two_digits :: wots_parameters where
  "two_digits = \<lparr>message_digit_len = 2, log2_base = 4, checksum_digit_len = 2\<rparr>"

lemma two_digits_ok: "wots_ok two_digits" "max_digit two_digits = 15" "message_digit_len two_digits = 2" "total_digit_len two_digits = 4"
  by (simp_all add: two_digits_def wots_ok_def max_digit_def total_digit_len_def)

lemma checksig_runs:
  assumes "wots_ok ps" "total_digit_len ps \<le> length pk"
  shows "\<exists>script. checksig_verify digit void_converter ps pk = Some script"
proof -
  have "0 < checksum_digit_len ps" using assms(1) by (simp add: wots_ok_def)
  then show ?thesis using assms(2) by (simp add: checksig_verify_def for_digits_def verify_checksum_def checked_sub_def rust_assert_def One_nat_def)
qed

lemma length_generate_public_key [simp]: "length (generate_public_key vm ps sk) = total_digit_len ps"
  by (simp add: generate_public_key_def)

text \<open>
  C5. Each verifier, run on as many items as a signature has, accepts only if they are read as digits of a message; if this
  is not the message \<open>us\<close> that was signed, one of the items is a 20-byte string from which more hashes lead to
  the end of a chain than from the point that the signature published on it.
\<close>

theorem forgery_needs_earlier_point:
  assumes "wots_ok ps" "(digit, k) \<in> {(listpick_digit, 2), (bruteforce_digit, 1), (binarysearch_digit, 2)}"
    "checksig_verify digit void_converter ps (generate_public_key vm ps sk) = Some script"
    "length xs = k * total_digit_len ps" "exec vm script (State (xs @ s) al) = Inr r"
    "length us = message_digit_len ps" "\<forall>u\<in>set us. u \<le> max_digit ps" "add_message_checksum ps us = Some zs"
  shows "\<exists>vs ds. length vs = message_digit_len ps \<and> (\<forall>v\<in>set vs. v \<le> max_digit ps) \<and> reads vm ds vs \<and> r = State (rev ds @ s) al \<and>
    (vs = us \<or> (\<exists>i<total_digit_len ps. \<exists>h\<in>set xs. \<exists>j>0. length h = 20 \<and>
      chain vm (max_digit ps - zs ! i + j) h = chain vm (max_digit ps - zs ! i) (digit_signature vm sk i (zs ! i))))"
proof -
  obtain digits sum_script where parts: "for_digits ps (generate_public_key vm ps sk) (digit ps) = Some digits"
      "verify_checksum ps = Some sum_script" "script = digits @ sum_script"
    using assms(3) by (rule checksig_parts)
  have run: "exec vm (digits @ sum_script @ []) (State (xs @ s) al) = Inr r" using assms(5) by (simp add: parts(3))
  consider "digit = listpick_digit" "k = 2" | "digit = bruteforce_digit" "k = 1" | "digit = binarysearch_digit" "k = 2" using assms(2) by auto
  then obtain vs ds ws where vs: "length vs = message_digit_len ps" "\<forall>v\<in>set vs. v \<le> max_digit ps" "reads vm ds vs"
      "add_message_checksum ps vs = Some ws"
      "\<forall>i<total_digit_len ps. \<exists>h\<in>set xs. length h = 20 \<and> chain vm (max_digit ps - ws ! i) h = generate_public_key vm ps sk ! i"
      "exec vm [] (State (rev ds @ s) al) = Inr r"
    using listpick.signature_sound [OF assms(1) _ parts(2) _ run] bruteforce.signature_sound [OF assms(1) _ parts(2) _ run]
      binarysearch.signature_sound [OF assms(1) _ parts(2) _ run] parts(1) assms(4) by cases blast+
  have "vs = us \<or> (\<exists>i<total_digit_len ps. \<exists>h\<in>set xs. \<exists>j>0. length h = 20 \<and>
      chain vm (max_digit ps - zs ! i + j) h = chain vm (max_digit ps - zs ! i) (digit_signature vm sk i (zs ! i)))"
    using earlier_point [OF assms(1) vs(1,2) assms(6,7) _ vs(4) assms(8) vs(5)] by blast
  moreover have "r = State (rev ds @ s) al" using vs(6) by simp
  ultimately show ?thesis using vs(1-3) by blast
qed

lemma counting_vm_20: "\<forall>x. length (hash160 counting_vm x) = 20"
  by (simp add: counting_vm_def)

lemma forgery_needs_earlier_point_witness:
  "\<exists>script xs r zs. checksig_verify listpick_digit void_converter two_digits (generate_public_key counting_vm two_digits [7]) = Some script \<and>
    length xs = 2 * total_digit_len two_digits \<and> exec counting_vm script (State (xs @ []) []) = Inr r \<and>
    add_message_checksum two_digits [3, 12] = Some zs \<and>
    (\<exists>vs ds. length vs = message_digit_len two_digits \<and> (\<forall>v\<in>set vs. v \<le> max_digit two_digits) \<and> reads counting_vm ds vs \<and>
      r = State (rev ds @ []) [] \<and>
      (vs = [3, 12] \<or> (\<exists>i<total_digit_len two_digits. \<exists>h\<in>set xs. \<exists>j>0. length h = 20 \<and>
        chain counting_vm (max_digit two_digits - zs ! i + j) h =
        chain counting_vm (max_digit two_digits - zs ! i) (digit_signature counting_vm [7] i (zs ! i)))))"
proof -
  note ok = two_digits_ok(1)
  obtain script where script: "checksig_verify listpick_digit void_converter two_digits (generate_public_key counting_vm two_digits [7]) = Some script"
    using checksig_runs [OF ok, of "generate_public_key counting_vm two_digits [7]" listpick_digit] by auto
  then obtain digits sum_script where parts: "for_digits two_digits (generate_public_key counting_vm two_digits [7]) (listpick_digit two_digits) = Some digits"
      "verify_checksum two_digits = Some sum_script" "script = digits @ sum_script" by (rule checksig_parts)
  obtain ws where ws: "add_message_checksum two_digits [5, 1] = Some ws"
    using add_message_checksum_run [OF ok, of "[5, 1]"] two_digits_ok by auto
  obtain zs where zs: "add_message_checksum two_digits [3, 12] = Some zs"
    using add_message_checksum_run [OF ok, of "[3, 12]"] two_digits_ok by auto
  define xs where "xs = concat (rev (map (\<lambda>i. present_pair (digit_signature counting_vm [7] i (ws ! i)) (ws ! i)) [0..<total_digit_len two_digits]))"
  have len: "length xs = 2 * total_digit_len two_digits"
    by (simp add: xs_def length_concat rev_map [symmetric] comp_def present_pair_def sum_list_triv)
  have "exec counting_vm (digits @ sum_script @ []) (State (xs @ []) []) =
      exec counting_vm [] (State (rev (map (\<lambda>v. scriptnum (int v)) [5, 1]) @ []) [])"
    unfolding xs_def by (rule listpick.signature_complete [OF ok counting_vm_20 parts(1,2) _ _ ws]) (simp_all add: two_digits_ok)
  then obtain r where r: "exec counting_vm script (State (xs @ []) []) = Inr r" by (simp add: parts(3))
  show ?thesis
    by (rule exI [of _ script], rule exI [of _ xs], rule exI [of _ r], rule exI [of _ zs],
        rule conjI [OF script conjI [OF len conjI [OF r conjI [OF zs forgery_needs_earlier_point [OF ok _ script len r _ _ zs]]]]])
      (simp_all add: two_digits_ok)
qed

text \<open>
  C15. The message that is signed is left on the stack by the verifiers that pick from a list and that search, the last digit
  on top; the hash is one of 20 bytes.
\<close>

theorem signed_digits_accepted:
  assumes "wots_ok ps" "\<forall>x. length (hash160 vm x) = 20" "digit \<in> {listpick_digit, binarysearch_digit}"
    "checksig_verify digit void_converter ps (generate_public_key vm ps sk) = Some script"
    "length vs = message_digit_len ps" "\<forall>v\<in>set vs. v \<le> max_digit ps"
  shows "\<exists>sig. sign_digits vm ps sk vs = Some sig \<and>
    exec vm script (State (rev sig @ s) al) = Inr (State (rev (map (\<lambda>v. scriptnum (int v)) vs) @ s) al)"
proof -
  obtain digits sum_script where parts: "for_digits ps (generate_public_key vm ps sk) (digit ps) = Some digits"
      "verify_checksum ps = Some sum_script" "script = digits @ sum_script"
    using assms(4) by (rule checksig_parts)
  obtain ws where ws: "add_message_checksum ps vs = Some ws" using add_message_checksum_run [OF assms(1,5,6)] by simp
  then obtain sig where sig: "sign_digits vm ps sk vs = Some sig" by (simp add: sign_digits_def)
  have "exec vm (digits @ sum_script @ []) (State (rev sig @ s) al) = exec vm [] (State (rev (map (\<lambda>v. scriptnum (int v)) vs) @ s) al)"
    unfolding sign_digits_stack [OF ws sig]
    using assms(3) listpick.signature_complete [OF assms(1,2) _ parts(2) assms(5,6) ws] parts(1)
      binarysearch.signature_complete [OF assms(1,2) _ parts(2) assms(5,6) ws] by blast
  then show ?thesis using sig by (simp add: parts(3))
qed

lemma signed_digits_accepted_witness:
  "\<exists>script sig. checksig_verify binarysearch_digit void_converter two_digits (generate_public_key counting_vm two_digits [7]) = Some script \<and>
    sign_digits counting_vm two_digits [7] [5, 1] = Some sig \<and>
    exec counting_vm script (State (rev sig @ []) []) = Inr (State (rev (map (\<lambda>v. scriptnum (int v)) [5, 1]) @ []) [])"
proof -
  note ok = two_digits_ok(1)
  obtain script where script: "checksig_verify binarysearch_digit void_converter two_digits (generate_public_key counting_vm two_digits [7]) = Some script"
    using checksig_runs [OF ok, of "generate_public_key counting_vm two_digits [7]" binarysearch_digit] by auto
  show ?thesis using script signed_digits_accepted [OF ok counting_vm_20 _ script, of "[5, 1]" "[]" "[]"] two_digits_ok by auto
qed

text \<open>
  C17. The compact signature is accepted by brute force, which clears the stack, if no chain comes back to its end within
  twice its length.
\<close>

theorem compact_signature_accepted:
  assumes "wots_ok ps" "\<forall>x. length (hash160 vm x) = 20"
    "\<forall>i<total_digit_len ps. \<forall>j\<le>2 * max_digit ps.
       chain vm j (secret_key_for_digit vm sk i) = public_key_for_digit vm ps sk i \<longrightarrow> j = max_digit ps"
    "length vs = message_digit_len ps" "\<forall>v\<in>set vs. v \<le> max_digit ps"
  shows "\<exists>script sig. checksig_verify_and_clear_stack bruteforce_digit ps (generate_public_key vm ps sk) = Some script \<and>
    sign_digits_compact vm ps sk vs = Some sig \<and> exec vm script (State (rev sig @ s) al) = Inr (State s al)"
proof -
  let ?n = "message_digit_len ps"
  obtain digits sum_script where parts: "for_digits ps (generate_public_key vm ps sk) (bruteforce_digit ps) = Some digits"
      "verify_checksum ps = Some sum_script"
    using checksig_runs [OF assms(1), of "generate_public_key vm ps sk" bruteforce_digit] checksig_parts by (metis le_refl length_generate_public_key)
  obtain ws where ws: "add_message_checksum ps vs = Some ws" using add_message_checksum_run [OF assms(1,4,5)] by simp
  then obtain sig where sig: "sign_digits_compact vm ps sk vs = Some sig" by (simp add: sign_digits_compact_def)
  let ?clear = "for_range 0 (?n div 2) (\<lambda>_. [OP_2DROP]) @ (if ?n mod 2 = 1 then [OP_DROP] else [])"
  have "exec vm (digits @ sum_script @ ?clear) (State (rev sig @ s) al) =
      exec vm ?clear (State (rev (map (\<lambda>v. scriptnum (int v)) vs) @ s) al)"
    unfolding sign_digits_compact_stack [OF ws sig]
    by (rule bruteforce.signature_complete [OF assms(1,2) parts assms(4,5) ws]) (use assms(3) in blast)
  also have "\<dots> = Inr (State s al)" using drop_message [of "rev (map (\<lambda>v. scriptnum (int v)) vs)" ?n vm "[]" s al] assms(4) by simp
  finally show ?thesis using sig parts by (simp add: checksig_verify_and_clear_stack_def)
qed

lemma counting_chain: "chain counting_vm j (b # replicate 19 0) = (b + of_nat j) # replicate 19 0"
  by (induction j) (simp_all add: counting_vm_def algebra_simps)

lemma byte_of_nat_15:
  assumes "j \<le> 30" "(of_nat j :: byte) = 15"
  shows "j = 15"
proof -
  have "unat (of_nat j :: byte) = j" using assms(1) by (simp add: unat_of_nat)
  then show ?thesis using assms(2) by simp
qed

lemma compact_signature_accepted_witness:
  "\<exists>script sig. checksig_verify_and_clear_stack bruteforce_digit two_digits (generate_public_key counting_vm two_digits [7]) = Some script \<and>
    sign_digits_compact counting_vm two_digits [7] [5, 1] = Some sig \<and> exec counting_vm script (State (rev sig @ []) []) = Inr (State [] [])"
proof (rule compact_signature_accepted [OF two_digits_ok(1) counting_vm_20])
  show "\<forall>i<total_digit_len two_digits. \<forall>j\<le>2 * max_digit two_digits.
      chain counting_vm j (secret_key_for_digit counting_vm [7] i) = public_key_for_digit counting_vm two_digits [7] i \<longrightarrow> j = max_digit two_digits"
  proof (intro allI impI)
    fix i j assume j: "j \<le> 2 * max_digit two_digits"
      "chain counting_vm j (secret_key_for_digit counting_vm [7] i) = public_key_for_digit counting_vm two_digits [7] i"
    have "secret_key_for_digit counting_vm [7] i = 8 # replicate 19 0" by (simp add: secret_key_for_digit_def counting_vm_def)
    then have "(8 + of_nat j :: byte) = 8 + of_nat 15" using j(2) by (simp only: public_key_for_digit_def counting_chain two_digits_ok list.inject)
    then show "j = max_digit two_digits" using byte_of_nat_15 [of j] j(1) by (simp add: two_digits_ok)
  qed
qed (simp_all add: two_digits_ok)

end
