(* ===== verification/Winternitz_Signing.thy ===== *)
theory Winternitz_Signing
  imports Winternitz_Signatures U32_Std
begin

text \<open>
  \<open>bitvm/src/signatures/signing_winternitz.rs\<close>, the signatures of the bridge with digits of four bits, and the converters
  of \<open>winternitz.rs\<close>.
\<close>

section \<open>Converters\<close>

definition void_length_of_final_message :: "wots_parameters \<Rightarrow> nat" where
  "void_length_of_final_message ps = message_digit_len ps"

definition bytes_length_of_final_message :: "wots_parameters \<Rightarrow> nat" where
  "bytes_length_of_final_message ps = message_byte_len ps"

text \<open>Four bits in a digit: two digits make a byte.\<close>

definition nibbles_to_bytes :: "wots_parameters \<Rightarrow> script" where
  "nibbles_to_bytes ps = for_range 0 (message_digit_len ps div 2) (\<lambda>i.
       [OP_SWAP] @ for_range 0 (log2_base ps) (\<lambda>_. [OP_DUP, OP_ADD]) @ [OP_ADD] @
       (if i \<noteq> message_digit_len ps div 2 - 1 then [OP_TOALTSTACK] else [])) @
     (if 1 < message_digit_len ps then for_range 0 (message_digit_len ps div 2 - 1) (\<lambda>_. [OP_FROMALTSTACK]) else [])"

text \<open>Where a digit is split between two bytes, and the lengths of the parts from the last to the first.\<close>

definition digit_split :: "wots_parameters \<Rightarrow> nat \<Rightarrow> nat" where
  "digit_split ps i = (let start = i * log2_base ps; next_stop = start + 8 - start mod 8 in next_stop - start)"

definition part_lengths :: "wots_parameters \<Rightarrow> nat list" where
  "part_lengths ps = rev (concat (map (\<lambda>i. let split = digit_split ps i in
     if log2_base ps \<le> split then [log2_base ps] else [split, log2_base ps - split]) [0..<message_digit_len ps]))"

text \<open>For every part the bits of its byte so far, and whether it begins one.\<close>

fun part_positions :: "nat list \<Rightarrow> nat \<Rightarrow> bool \<Rightarrow> (nat \<times> bool) list" where
  "part_positions [] last_bytes is_last_zero = []"
| "part_positions (l # ls) last_bytes is_last_zero =
     (let (new_bytes, new_zero) = (if 8 \<le> last_bytes then (0, True) else (last_bytes, is_last_zero)) in
      (last_bytes, new_zero) # part_positions ls (new_bytes + l) False)"

definition split_digit_script :: "wots_parameters \<Rightarrow> nat \<Rightarrow> script" where
  "split_digit_script ps split = (if log2_base ps \<le> split then [OP_TOALTSTACK]
     else [push 0] @ concat (map (\<lambda>j. (if j \<noteq> log2_base ps - 1 then [OP_DUP, OP_ADD] else []) @
         [OP_SWAP, push (2 ^ j), OP_2DUP, OP_GREATERTHANOREQUAL, OP_IF [OP_SUB, OP_SWAP, OP_1ADD, OP_SWAP, OP_DUP], OP_DROP, OP_SWAP])
         (rev [split..<log2_base ps])) @ [OP_SWAP, OP_TOALTSTACK, OP_TOALTSTACK])"

definition join_parts_script :: "wots_parameters \<Rightarrow> script" where
  "join_parts_script ps = concat (map (\<lambda>(l, last_bytes, is_last_zero).
       (if 8 \<le> last_bytes then [push 0] else []) @
       (if \<not> is_last_zero then for_range 0 l (\<lambda>_. [OP_DUP, OP_ADD]) else []) @ [OP_FROMALTSTACK, OP_ADD])
     (zip (part_lengths ps) (part_positions (part_lengths ps) ((8 - message_digit_len ps * log2_base ps mod 8) mod 8) True)))"

definition to_bytes_converter :: "wots_parameters \<Rightarrow> script" where
  "to_bytes_converter ps =
     (if log2_base ps = 8 then []
      else if log2_base ps = 4 then nibbles_to_bytes ps
      else concat (map (\<lambda>i. split_digit_script ps (digit_split ps i)) [0..<message_digit_len ps]) @ [push 0] @ join_parts_script ps)"

section \<open>Secrets and public keys\<close>

record winternitz_secret =
  ws_secret_key :: item
  ws_parameters :: wots_parameters

record winternitz_public_key =
  wp_public_key :: "item list"
  wp_parameters :: wots_parameters

definition LOG_D :: nat where
  "LOG_D = 4"

text \<open>A length is cast to 32 bits, and its bits have to fit these.\<close>

definition secret_from_bytes :: "nat \<Rightarrow> item \<Rightarrow> winternitz_secret option" where
  "secret_from_bytes message_len secret_bytes = do {
     rust_assert (message_len mod 2 ^ 32 * 8 < 2 ^ 32);
     ps \<leftarrow> new_by_bit_length (message_len mod 2 ^ 32 * 8) LOG_D;
     Some \<lparr>ws_secret_key = secret_bytes, ws_parameters = ps\<rparr> }"

text \<open>The random bytes are an argument, and so is their text in hexadecimal digits.\<close>

definition secret_new :: "(item \<Rightarrow> item) \<Rightarrow> nat \<Rightarrow> item \<Rightarrow> winternitz_secret option" where
  "secret_new hex message_len buffer = secret_from_bytes message_len (hex buffer)"

definition secret_from_string :: "(item \<Rightarrow> item) \<Rightarrow> item \<Rightarrow> wots_parameters \<Rightarrow> winternitz_secret" where
  "secret_from_string hex secret parameters = \<lparr>ws_secret_key = hex secret, ws_parameters = parameters\<rparr>"

definition public_of_secret :: "vm \<Rightarrow> winternitz_secret \<Rightarrow> winternitz_public_key" where
  "public_of_secret vm secret =
     \<lparr>wp_public_key = generate_public_key vm (ws_parameters secret) (ws_secret_key secret), wp_parameters = ws_parameters secret\<rparr>"

section \<open>Scripts and witnesses\<close>

definition generate_winternitz_checksig_leave_hash :: "winternitz_public_key \<Rightarrow> nat \<Rightarrow> script option" where
  "generate_winternitz_checksig_leave_hash public_key message_size = do {
     checksig \<leftarrow> checksig_verify listpick_digit to_bytes_converter (wp_parameters public_key) (wp_public_key public_key);
     Some (checksig @ for_range 1 message_size (\<lambda>i. [pushn i, OP_ROLL])) }"

definition generate_winternitz_checksig_leave_variable :: "winternitz_public_key \<Rightarrow> nat \<Rightarrow> script option" where
  "generate_winternitz_checksig_leave_variable public_key message_size = do {
     rust_assert (message_size mod 4 = 0);
     checksig \<leftarrow> checksig_verify listpick_digit to_bytes_converter (wp_parameters public_key) (wp_public_key public_key);
     let u32s_size = message_size div 4;
     Some (checksig @ for_range 0 u32s_size (\<lambda>_. u32_compress @ [OP_TOALTSTACK]) @ for_range 0 u32s_size (\<lambda>_. [OP_FROMALTSTACK]) @
       for_range 1 u32s_size (\<lambda>i. [pushn i, OP_ROLL])) }"

definition generate_winternitz_witness :: "vm \<Rightarrow> item \<Rightarrow> winternitz_secret \<Rightarrow> item list option" where
  "generate_winternitz_witness vm message signing_key =
     wots_sign (sign_digits vm (ws_parameters signing_key) (ws_secret_key signing_key)) (ws_parameters signing_key) message"

definition winternitz_message_checksig :: "winternitz_public_key \<Rightarrow> script option" where
  "winternitz_message_checksig public_key = checksig_verify listpick_digit void_converter (wp_parameters public_key) (wp_public_key public_key)"

definition winternitz_message_checksig_verify :: "winternitz_public_key \<Rightarrow> nat \<Rightarrow> script option" where
  "winternitz_message_checksig_verify public_key message_size = do {
     checksig \<leftarrow> checksig_verify listpick_digit void_converter (wp_parameters public_key) (wp_public_key public_key);
     Some (checksig @ for_range 0 message_size (\<lambda>_. [OP_DROP])) }"

section \<open>Nibbles into bytes\<close>

abbreviation numbers :: "nat list \<Rightarrow> item list" where
  "numbers vs \<equiv> map (\<lambda>v. scriptnum (int v)) vs"

text \<open>The bytes whose nibbles these are, the lower nibble first.\<close>

fun join_nibbles :: "nat list \<Rightarrow> nat list" where
  "join_nibbles (lo # hi # vs) = (hi * 16 + lo) # join_nibbles vs"
| "join_nibbles vs = []"

lemma length_join_nibbles [simp]: "length (join_nibbles vs) = length vs div 2"
  by (induction vs rule: join_nibbles.induct) simp_all

lemma exec_nibble_pair:
  assumes "lo < 16" "hi < 16"
  shows "exec vm (repeat_script 4 [OP_DUP, OP_ADD] @ OP_ADD # p) (State (scriptnum (int hi) # scriptnum (int lo) # s) al) =
    exec vm p (State (scriptnum (int hi * 16 + int lo) # s) al)"
proof -
  have four: "(4 :: nat) = Suc 3" by simp
  have ok: "num_ok (int lo)" "num_ok (int hi)" "num_ok (int (hi * 2 ^ 3))" "num_ok (int (hi * 16))" using assms by (simp_all add: num_ok_def)
  have rd: "read_num vm (scriptnum (int hi)) = Inr (int hi)" "read_num vm (scriptnum (int lo)) = Inr (int lo)"
    "read_num vm (scriptnum (int (hi * 16))) = Inr (int (hi * 16))" using ok by simp_all
  have run: "exec vm (repeat_script 4 [OP_DUP, OP_ADD] @ q) (State (scriptnum (int hi) # scriptnum (int lo) # s) al) =
      exec vm q (State (scriptnum (int (hi * 16)) # scriptnum (int lo) # s) al)" for q
    using exec_doublings [OF rd(1) ok(3), of q "scriptnum (int lo) # s" al] unfolding four by simp
  have "int lo + int (hi * 16) = int hi * 16 + int lo" by simp
  then show ?thesis by (simp only: run exec_add_read [OF rd(2,3)])
qed

lemma join_nibbles_append: "even (length us) \<Longrightarrow> join_nibbles (us @ vs) = join_nibbles us @ join_nibbles vs"
  by (induction us rule: join_nibbles.induct) simp_all

text \<open>All pairs but the last one of a list go to the alternative stack.\<close>

lemma exec_nibble_pairs:
  assumes "\<forall>v\<in>set vs. v < 16" "length vs = 2 * k"
  shows "exec vm (repeat_script k (OP_SWAP # repeat_script 4 [OP_DUP, OP_ADD] @ [OP_ADD, OP_TOALTSTACK]) @ p) (State (numbers vs @ s) al) =
    exec vm p (State s (rev (numbers (join_nibbles vs)) @ al))"
  using assms
proof (induction k arbitrary: vs al)
  case (Suc k)
  then obtain lo hi us where "vs = lo # hi # us" by (cases vs; cases "tl vs") auto
  then show ?case using Suc by (simp add: repeat_script_Suc exec_nibble_pair exec_simps)
qed simp

lemma exec_fromaltstacks: "exec vm (repeat_script (length xs) [OP_FROMALTSTACK] @ p) (State s (xs @ al)) = exec vm p (State (rev xs @ s) al)"
  by (induction xs arbitrary: s) (simp_all add: repeat_script_Suc exec_simps)

lemma nibbles_to_bytes_runs:
  assumes "message_digit_len ps = 2 * Suc k" "log2_base ps = 4" "length vs = 2 * Suc k" "\<forall>v\<in>set vs. v < 16"
  shows "exec vm (nibbles_to_bytes ps @ p) (State (numbers vs @ s) al) = exec vm p (State (numbers (join_nibbles vs) @ s) al)"
proof -
  let ?step = "OP_SWAP # repeat_script 4 [OP_DUP, OP_ADD] @ [OP_ADD, OP_TOALTSTACK]"
  obtain us lo hi where vs: "vs = us @ [lo, hi]" "length us = 2 * k"
  proof -
    have "vs = take (2 * k) vs @ drop (2 * k) vs" "length (drop (2 * k) vs) = 2" "length (take (2 * k) vs) = 2 * k"
      using assms(3) by simp_all
    then show thesis using that two_items by metis
  qed
  have body: "for_range 0 (Suc k) (\<lambda>i. [OP_SWAP] @ for_range 0 4 (\<lambda>_. [OP_DUP, OP_ADD]) @ [OP_ADD] @ (if i \<noteq> Suc k - 1 then [OP_TOALTSTACK] else [])) =
      repeat_script k ?step @ OP_SWAP # repeat_script 4 [OP_DUP, OP_ADD] @ [OP_ADD]"
  proof -
    have "for_range 0 k (\<lambda>i. [OP_SWAP] @ for_range 0 4 (\<lambda>_. [OP_DUP, OP_ADD]) @ [OP_ADD] @ (if i \<noteq> Suc k - 1 then [OP_TOALTSTACK] else [])) =
        for_range 0 k (\<lambda>i. ?step)"
      unfolding for_range_def by (intro arg_cong [of _ _ concat] map_cong) (auto simp: for_range_const [unfolded for_range_def])
    then show ?thesis by (simp add: for_range_def for_range_const [unfolded for_range_def] One_nat_def)
  qed
  have digits: "lo < 16" "hi < 16" "\<forall>v\<in>set us. v < 16" using assms(4) by (simp_all add: vs(1))
  have join: "join_nibbles vs = join_nibbles us @ [hi * 16 + lo]"
    using vs(2) unfolding vs(1) by (subst join_nibbles_append) simp_all
  have "exec vm (nibbles_to_bytes ps @ p) (State (numbers vs @ s) al) =
      exec vm (repeat_script k [OP_FROMALTSTACK] @ p) (State (scriptnum (int (hi * 16 + lo)) # s) (rev (numbers (join_nibbles us)) @ al))"
    using exec_nibble_pairs [OF digits(3) vs(2)] exec_nibble_pair [OF digits(1,2)] body
    by (simp add: exec_simps nibbles_to_bytes_def assms(1,2) for_range_const vs(1) One_nat_def)
  also have "\<dots> = exec vm p (State (numbers (join_nibbles us) @ scriptnum (int (hi * 16 + lo)) # s) al)"
    using exec_fromaltstacks [of vm "rev (numbers (join_nibbles us))" p] vs(2) by simp
  finally show ?thesis by (simp add: join)
qed

text \<open>Rolling one after the other turns items round.\<close>

lemma exec_roll_round:
  assumes "length xs < 2147483648"
  shows "exec vm (for_range 1 (length xs) (\<lambda>i. [pushn i, OP_ROLL]) @ p) (State (xs @ s) al) = exec vm p (State (rev xs @ s) al)"
  using assms
proof (induction xs arbitrary: s p rule: rev_induct)
  case (snoc x xs)
  show ?case
  proof (cases "xs = []")
    case True
    then show ?thesis by (simp add: One_nat_def)
  next
    case False
    then have "for_range 1 (length (xs @ [x])) (\<lambda>i. [pushn i, OP_ROLL]) =
        for_range 1 (length xs) (\<lambda>i. [pushn i, OP_ROLL]) @ [pushn (length xs), OP_ROLL]"
      by (simp add: for_range_def One_nat_def Suc_le_eq)
    moreover have "remove_nth (length xs) (rev xs @ x # s) = rev xs @ s" by (rule remove_nth_append_length) simp
    then have "exec vm ([pushn (length xs), OP_ROLL] @ q) (State (rev xs @ x # s) al) = exec vm q (State (x # rev xs @ s) al)" for q
      using snoc.prems by (simp add: exec_simps nth_append)
    ultimately show ?thesis using snoc.IH [of "[pushn (length xs), OP_ROLL] @ p" "x # s"] snoc.prems by simp
  qed
qed simp

lemma le_to_nat_inj: "length xs = length ys \<Longrightarrow> le_to_nat xs = le_to_nat ys \<Longrightarrow> xs = ys"
proof (induction xs arbitrary: ys)
  case (Cons x xs)
  then obtain y zs where ys: "ys = y # zs" "length xs = length zs" by (cases ys) auto
  have "unat x = le_to_nat (x # xs) mod 256" "le_to_nat xs = le_to_nat (x # xs) div 256" for x :: byte and xs
    using byte_less [of x] by simp_all
  then have "unat x = unat y" "le_to_nat xs = le_to_nat zs" using Cons.prems(2) unfolding ys(1) by metis+
  then show ?case using Cons.IH ys by (simp add: word_unat_eq_iff)
qed simp

lemma join_nibbles_value:
  "even (length vs) \<Longrightarrow> \<forall>v\<in>set vs. v < 16 \<Longrightarrow>
   (\<forall>b\<in>set (join_nibbles vs). b < 256) \<and> le_to_nat (map of_nat (join_nibbles vs)) = number_of_digits 4 vs"
proof (induction vs rule: join_nibbles.induct)
  case (1 lo hi vs)
  then have lt: "hi * 16 + lo < 256" by auto
  then have "unat (of_nat (hi * 16 + lo) :: byte) = hi * 16 + lo" by (simp only: unat_of_nat) simp
  then show ?case using 1 lt by (simp del: of_nat_add of_nat_mult)
qed simp_all

text \<open>The digits of a message, turned round and joined, are its bytes.\<close>

lemma message_nibbles:
  assumes "message_to_digits (2 * length message) 4 message = Some ds" "0 < length message"
  shows "join_nibbles (rev ds) = map unat message"
proof -
  obtain es where es: "message_to_digits (2 * length message) 4 message = Some es" "length es = 2 * length message"
      "\<forall>d\<in>set es. d < 2 ^ 4" "digits_value (2 ^ 4) es = le_to_nat message"
    using message_to_digits_run [of 4 "2 * length message" message] assms(2) by auto
  have d: "length ds = 2 * length message" "\<forall>d\<in>set ds. d < 16" "number_of_digits 4 (rev ds) = le_to_nat message"
    using es assms(1) digits_value_rev [of 4 "rev ds"] by simp_all
  note v = join_nibbles_value [of "rev ds"]
  have "map of_nat (join_nibbles (rev ds)) = message" by (rule le_to_nat_inj) (use d v in simp_all)
  then have "map unat message = map unat (map of_nat (join_nibbles (rev ds)) :: byte list)" by simp
  also have "\<dots> = map (\<lambda>b. unat (of_nat b :: byte)) (join_nibbles (rev ds))" by simp
  also have "\<dots> = map id (join_nibbles (rev ds))" by (rule map_cong) (use d v in \<open>simp_all add: unat_of_nat\<close>)
  finally show ?thesis by simp
qed

section \<open>Properties\<close>

lemma secret_of_length:
  assumes "0 < n" "n \<le> 4194304"
  shows "\<exists>ps. secret_from_bytes n b = Some \<lparr>ws_secret_key = b, ws_parameters = ps\<rparr> \<and> wots_ok ps \<and>
    message_digit_len ps = 2 * n \<and> log2_base ps = 4"
proof -
  obtain ps where "parameters_new (2 * n) 4 = Some ps" "wots_ok ps" "message_digit_len ps = 2 * n" "log2_base ps = 4"
    using parameters_new_ok [of 4 "2 * n"] assms by auto
  moreover have "n mod 2 ^ 32 = n" "(n * 8 + 4 - 1) div 4 = 2 * n" using assms by simp_all
  moreover have "n * 8 < 2 ^ 32" using assms by simp
  ultimately show ?thesis by (simp add: secret_from_bytes_def new_by_bit_length_def LOG_D_def rust_assert_def)
qed

text \<open>A message has a witness, and the check of its digits and checksum leaves the digits.\<close>

lemma signed_message_runs:
  assumes "wots_ok ps" "message_digit_len ps = 2 * length message" "log2_base ps = 4" "0 < length message" "\<forall>x. length (hash160 vm x) = 20"
  obtains ds sig digits sum_script where
    "message_to_digits (2 * length message) 4 message = Some ds" "length ds = 2 * length message" "\<forall>d\<in>set ds. d < 16"
    "digits_value 16 ds = le_to_nat message"
    "wots_sign (sign_digits vm ps b) ps message = Some sig"
    "for_digits ps (generate_public_key vm ps b) (listpick_digit ps) = Some digits" "verify_checksum ps = Some sum_script"
    "\<And>p s al. exec vm (digits @ sum_script @ p) (State (rev sig @ s) al) = exec vm p (State (numbers (rev ds) @ s) al)"
proof -
  obtain ds where ds: "message_to_digits (2 * length message) 4 message = Some ds" "length ds = 2 * length message" "\<forall>d\<in>set ds. d < 16"
      "digits_value 16 ds = le_to_nat message"
    using message_to_digits_run [of 4 "2 * length message" message] assms(4) by auto
  have le: "\<forall>d\<in>set ds. d \<le> max_digit ps" using ds(3) by (fastforce simp: max_digit_def assms(3))
  have len: "length ds = message_digit_len ps" using ds(2) assms(2) by simp
  obtain ws where ws: "add_message_checksum ps ds = Some ws" using add_message_checksum_run [OF assms(1) len le] by simp
  then obtain sig where sig: "sign_digits vm ps b ds = Some sig" by (simp add: sign_digits_def)
  obtain digits sum_script where parts: "for_digits ps (generate_public_key vm ps b) (listpick_digit ps) = Some digits"
      "verify_checksum ps = Some sum_script"
    using checksig_runs [OF assms(1), of "generate_public_key vm ps b" listpick_digit] checksig_parts by (metis le_refl length_generate_public_key)
  have "exec vm (digits @ sum_script @ p) (State (rev sig @ s) al) = exec vm p (State (numbers (rev ds) @ s) al)" for p s al
    unfolding sign_digits_stack [OF ws sig]
    using listpick.signature_complete [OF assms(1,5) parts len le ws, of p s al] by (simp add: rev_map)
  moreover have "wots_sign (sign_digits vm ps b) ps message = Some sig" using sig ds(1) by (simp add: wots_sign_def assms(2,3))
  ultimately show thesis using that [OF ds] parts by blast
qed

text \<open>
  C16. For every message of up to \<open>2 ^ 22\<close> bytes the secret, the witness and the script are made without a panic, and the
  script leaves the bytes of the message, the last one on top.
\<close>

theorem signed_bytes_on_stack:
  assumes "0 < length message" "length message \<le> 4194304" "\<forall>x. length (hash160 vm x) = 20"
  shows "\<exists>secret sig script. secret_from_bytes (length message) b = Some secret \<and>
    generate_winternitz_witness vm message secret = Some sig \<and>
    generate_winternitz_checksig_leave_hash (public_of_secret vm secret) (length message) = Some script \<and>
    exec vm script (State (rev sig @ s) al) = Inr (State (rev (map (\<lambda>byte. scriptnum (int (unat byte))) message) @ s) al)"
proof -
  obtain ps where ps: "secret_from_bytes (length message) b = Some \<lparr>ws_secret_key = b, ws_parameters = ps\<rparr>" "wots_ok ps"
      "message_digit_len ps = 2 * length message" "log2_base ps = 4"
    using secret_of_length [OF assms(1,2)] by blast
  obtain ds sig digits sum_script where run: "message_to_digits (2 * length message) 4 message = Some ds" "length ds = 2 * length message"
      "\<forall>d\<in>set ds. d < 16" "wots_sign (sign_digits vm ps b) ps message = Some sig"
      "for_digits ps (generate_public_key vm ps b) (listpick_digit ps) = Some digits" "verify_checksum ps = Some sum_script"
      "\<And>p s al. exec vm (digits @ sum_script @ p) (State (rev sig @ s) al) = exec vm p (State (numbers (rev ds) @ s) al)"
    using signed_message_runs [OF ps(2-4) assms(1,3), of b] by metis
  let ?roll = "for_range 1 (length message) (\<lambda>i. [pushn i, OP_ROLL])"
  have pos: "message_digit_len ps = 2 * Suc (length message - 1)" "length (rev ds) = 2 * Suc (length message - 1)"
    using ps(3) run(2) assms(1) by simp_all
  have "exec vm (digits @ sum_script @ nibbles_to_bytes ps @ ?roll) (State (rev sig @ s) al) =
      exec vm (?roll @ []) (State (numbers (map unat message) @ s) al)"
    unfolding run(7) using nibbles_to_bytes_runs [OF pos(1) ps(4) pos(2)] run(3) message_nibbles [OF run(1) assms(1)] by simp
  also have "\<dots> = Inr (State (rev (numbers (map unat message)) @ s) al)"
    using exec_roll_round [of "numbers (map unat message)" vm "[]" s al] assms(2) by simp
  finally have "exec vm (digits @ sum_script @ nibbles_to_bytes ps @ ?roll) (State (rev sig @ s) al) =
      Inr (State (rev (map (\<lambda>byte. scriptnum (int (unat byte))) message) @ s) al)" by (simp add: comp_def)
  then show ?thesis using ps(1,4) run(4-6)
    by (simp add: generate_winternitz_witness_def generate_winternitz_checksig_leave_hash_def public_of_secret_def
        checksig_verify_def to_bytes_converter_def)
qed

lemma signed_bytes_on_stack_witness:
  "\<exists>secret sig script. secret_from_bytes (length [0x12, 0xff :: byte]) [7] = Some secret \<and>
    generate_winternitz_witness counting_vm [0x12, 0xff] secret = Some sig \<and>
    generate_winternitz_checksig_leave_hash (public_of_secret counting_vm secret) (length [0x12, 0xff :: byte]) = Some script \<and>
    exec counting_vm script (State (rev sig @ []) []) = Inr (State (rev (map (\<lambda>byte. scriptnum (int (unat byte))) [0x12, 0xff :: byte]) @ []) [])"
  by (rule signed_bytes_on_stack [OF _ _ counting_vm_20]) simp_all

text \<open>
  C6. A message that is a number below \<open>2 ^ 31\<close> in little-endian bytes is checked and turned into this number, as the
  start time of a peg-out is.
\<close>

theorem signed_number_on_stack:
  assumes "0 < length message" "length message \<le> 4194304" "le_to_nat message < 2147483648" "\<forall>x. length (hash160 vm x) = 20"
  shows "\<exists>secret sig checksig to_number. secret_from_bytes (length message) b = Some secret \<and>
    generate_winternitz_witness vm message secret = Some sig \<and>
    winternitz_message_checksig (public_of_secret vm secret) = Some checksig \<and>
    digits_to_number (length message * 2) LOG_D = Some to_number \<and>
    exec vm (checksig @ to_number) (State (rev sig @ s) al) = Inr (State (scriptnum (int (le_to_nat message)) # s) al)"
proof -
  obtain ps where ps: "secret_from_bytes (length message) b = Some \<lparr>ws_secret_key = b, ws_parameters = ps\<rparr>" "wots_ok ps"
      "message_digit_len ps = 2 * length message" "log2_base ps = 4"
    using secret_of_length [OF assms(1,2)] by blast
  obtain ds sig digits sum_script where run: "length ds = 2 * length message" "\<forall>d\<in>set ds. d < 16" "digits_value 16 ds = le_to_nat message"
      "wots_sign (sign_digits vm ps b) ps message = Some sig"
      "for_digits ps (generate_public_key vm ps b) (listpick_digit ps) = Some digits" "verify_checksum ps = Some sum_script"
      "\<And>p s al. exec vm (digits @ sum_script @ p) (State (rev sig @ s) al) = exec vm p (State (numbers (rev ds) @ s) al)"
    using signed_message_runs [OF ps(2-4) assms(1,4), of b] by metis
  have four: "LOG_D = Suc 3" "(2 :: nat) ^ Suc 3 = 16" by (simp_all add: LOG_D_def)
  have "1 \<le> length message * 2" using assms(1) by linarith
  then obtain to_number where num: "digits_to_number (length message * 2) LOG_D = Some to_number"
    by (simp add: digits_to_number_def checked_sub_def)
  have "exec vm (to_number @ []) (State (rev (numbers ds) @ s) al) = exec vm [] (State (scriptnum (int (digits_value (2 ^ Suc 3) ds)) # s) al)"
    by (rule digits_to_number_runs [OF _ _ num [unfolded four(1)]]) (use run(1-3) assms(1,3) four(2) in simp_all)
  then have "exec vm (digits @ sum_script @ to_number) (State (rev sig @ s) al) = Inr (State (scriptnum (int (le_to_nat message)) # s) al)"
    unfolding run(7) four(2) run(3) by (simp add: rev_map)
  then show ?thesis using ps(1) run(4-6) num
    by (simp add: generate_winternitz_witness_def winternitz_message_checksig_def public_of_secret_def checksig_verify_def void_converter_def)
qed

lemma signed_number_on_stack_witness:
  "\<exists>secret sig checksig to_number. secret_from_bytes (length [0x91, 0x1f, 0x0d, 0 :: byte]) [7] = Some secret \<and>
    generate_winternitz_witness counting_vm [0x91, 0x1f, 0x0d, 0] secret = Some sig \<and>
    winternitz_message_checksig (public_of_secret counting_vm secret) = Some checksig \<and>
    digits_to_number (length [0x91, 0x1f, 0x0d, 0 :: byte] * 2) LOG_D = Some to_number \<and>
    exec counting_vm (checksig @ to_number) (State (rev sig @ []) []) = Inr (State (scriptnum (int (le_to_nat [0x91, 0x1f, 0x0d, 0])) # []) [])"
proof (rule signed_number_on_stack [OF _ _ _ counting_vm_20])
  have "a + 256 * (b + 256 * (c + 256 * (0 + 256 * 0))) < 2147483648" if "a < 256" "b < 256" "c < 256" for a b c :: nat
    using that by simp
  then show "le_to_nat [0x91, 0x1f, 0x0d, 0] < 2147483648" unfolding le_to_nat.simps unsigned_0 using byte_less by blast
qed simp_all

end
