(* ===== verification/Spec2Isabelle.thy ===== *)
theory Spec2Isabelle
  imports U32_Rot Final_Spv Peg_Out_Guidance Peg_In_Rules Client_Queries Client_Network Client_Forgery
    Bigint_Mul Bigint_Transform Bigint_Valid Bigint_Cmp Bigint_Words Winternitz_Signing
begin

text \<open>
  A verification library for the BitVM bridge, the Rust workspace of this repository. Paths are relative to its root.

  THE PROGRAM

  A bridge between Bitcoin and another chain. A peg-in locks a deposit under the joint key of a committee of verifiers; an
  operator pays withdrawals out of his own funds and is reimbursed from a peg-in by a graph of transactions that the
  verifiers sign in advance. If he claims a reimbursement wrongly, anybody can publish a slashing transaction, by which
  he loses his stake. What he claims he commits to with one-time signatures, which Bitcoin scripts check. The crates:

  \<^item> bitvm: generators of Bitcoin Script for arithmetic, Winternitz signatures, hashes and a Groth16 verifier;
  \<^item> header-chain and final-spv: circuits of a zero knowledge machine, which follow the Bitcoin headers and show that a
    transaction is in one of the blocks;
  \<^item> bridge: connectors (outputs with their leaf scripts), transactions, the peg-in and the peg-out graph with their
    signing rounds, statuses, operations and validation, and a client that shares graphs with the clients of the other
    participants through a store of files;
  \<^item> prover: builds and runs the circuits (not modelled).

  How they meet: bridge puts scripts of bitvm into the leaves of its connectors; the graphs are built of transactions, the
  transactions of connectors; a client keeps graphs, applies their operations to them and exchanges them through the
  data store; the superblock and the proof of the circuits are what an operator commits to.

  CONVENTIONS

  A panic (a failed assertion, an \<open>unwrap\<close>, an index out of range, an overflow where the build checks for it) is
  \<open>None\<close>, an \<open>Err\<close> of the code is \<open>Inl\<close>; an operation that can do both returns an option of a sum. A method with
  \<open>&mut self\<close> takes the record of the state and returns the changed one, also next to an error where the code has
  changed the state by then. Integers of fixed width are words where their bits matter (\<open>U32_Std\<close>, \<open>Header_Chain\<close>), and
  naturals with the check or the wrap-around written out elsewhere. A script is the list of its opcodes.

  THE THEORIES

  Foundations.
  \<^item> \<open>Prelude\<close>: results, checked arithmetic, stack positions, and the collections \<open>exec_simps\<close> and \<open>pos_simps\<close>.
  \<^item> \<open>Script_Machine\<close>: the interpreter of Bitcoin Script, \<open>exec vm script state\<close>; it is the language of the generators, as
    the code under \<open>bitvm/src\<close> writes it. Its lemmas say how each opcode steps, so that scripts are run by rewriting.

  Script generators (\<open>bitvm/src\<close>). Every generator is a definition with its Rust name that returns a script; its lemma
  runs the script on an arbitrary stack.
  \<^item> \<open>Pseudo\<close> (\<open>pseudo.rs\<close>); \<open>U32_Std\<close>, \<open>U32_Add\<close>, \<open>U32_Logic\<close>, \<open>U32_Rot\<close> (\<open>u32/\<close>): words as four bytes on the stack, with
    the results of addition, xor, and and rotations.
  \<^item> \<open>Bigint_Std\<close>, \<open>Bigint_Cmp\<close>, \<open>Bigint_Add\<close>, \<open>Bigint_Mul\<close>, \<open>Bigint_Transform\<close>, \<open>Bigint_Valid\<close>, \<open>Bigint_Words\<close>
    (\<open>bigint/\<close>): integers as lists of limbs, for any number of bits and size of limbs. The scripts are related to the numbers by
    the limbs of a number. The locale \<open>limb_steps\<close> is the contract of a step with a carry or a borrow; addition and
    subtraction are its interpretations.
  \<^item> \<open>Winternitz\<close>, \<open>Winternitz_Checksum\<close>, \<open>Winternitz_Verify\<close>, \<open>Winternitz_Scheme\<close>, \<open>Winternitz_Signatures\<close>,
    \<open>Winternitz_Signing\<close> (\<open>signatures/winternitz.rs\<close>, \<open>utils.rs\<close>, \<open>signing_winternitz.rs\<close>): keys, signatures and the three
    verifiers. The locale \<open>wots_digit\<close> says what a verifier of one digit accepts and leaves; all three verifiers are
    interpretations. Above it: completeness, and that a forgery shows a point of a hash chain before a published one.

  Circuits.
  \<^item> \<open>Hash_Utils\<close>, \<open>Mmr\<close> (\<open>header-chain/src/mmr_guest.rs\<close>, \<open>mmr_native.rs\<close>): both mountain ranges are interpretations of the
    locale \<open>mountain_range\<close>, whose abstract state is the list of leaves; proofs of the one are accepted by the other.
  \<^item> \<open>Header_Chain\<close> (\<open>header_chain.rs\<close>, \<open>lib.rs\<close>): targets, retargeting, the median of timestamps and the loop over blocks, with
    the chain that an accepted run describes and the proof of work in it.
  \<^item> \<open>Final_Spv\<close> (\<open>final-spv/src\<close>): Merkle trees with and without mid states, inclusion proofs, the circuit.

  Construction of the bridge (\<open>bridge/src\<close>).
  \<^item> \<open>Bridge_Base\<close> (constants, fees, scripts, inputs), \<open>Commitments\<close> (\<open>commitments.rs\<close>, \<open>assert_transactions/utils.rs\<close>),
    \<open>Bridge_Connectors\<close> (\<open>connectors/\<close>): the locales \<open>taproot_connector\<close> and \<open>p2wsh_connector\<close> state what the two traits
    promise, that the input for a leaf waits as long as its script demands and that the output commits to the script; the
    connectors of the code are their interpretations.
  \<^item> \<open>Bridge_Transactions\<close>, \<open>Bridge_Assert\<close> (\<open>transactions/\<close>): the constructors, each with the lemma that it is spendable and
    pays its fee.
  \<^item> \<open>Peg_Out_Graph\<close>, \<open>Peg_Out_Funds\<close> (\<open>PegInGraph::new\<close>, \<open>PegOutGraph::new\<close>): the graphs, the links between their
    transactions, their fees and when they can be built.
  \<^item> \<open>Bridge_Ledger\<close>: confirmed transactions as an inductive predicate \<open>ledger\<close>, an interpretation of the locale
    \<open>utxo_chain\<close>; the settlement rules of the bridge over it.

  A copy of a graph (\<open>graphs/peg_in.rs\<close>, \<open>graphs/peg_out.rs\<close>).
  \<^item> \<open>Tx_Base\<close> (\<open>transactions/base.rs\<close>), \<open>Signing\<close> (\<open>signing.rs\<close>, \<open>pre_signed.rs\<close>, \<open>pre_signed_musig2.rs\<close>), \<open>Chain_Client\<close>
    (\<open>graphs/base.rs\<close>), \<open>Tx_Signing\<close> (the \<open>sign\<close>, \<open>add_output\<close> and \<open>finalize\<close> methods).
  \<^item> \<open>Peg_Out_State\<close> (state, rounds, merge), \<open>Peg_Out_Status\<close>, \<open>Peg_Out_Actions\<close> (operations); \<open>Peg_Out_Locks\<close> names the
    transactions and their time locks.
  \<^item> \<open>Peg_Out_Run\<close>, \<open>Peg_Out_Rules\<close>: the inductive predicate \<open>reachable\<close> (rounds, merges with reachable copies, operations on
    any chain), its invariant \<open>prepared\<close> by rule induction, and what follows of the transactions, the time locks and the
    settlement. \<open>form_of\<close> says what may change in a transaction.
  \<^item> \<open>Peg_Out_Guidance\<close>: the operation that the status asks for, with the exact cases in which it fails.
  \<^item> \<open>Peg_Out_Validation\<close>: the graph rebuilt from a copy, and what a copy that passes validation satisfies.
  \<^item> \<open>Peg_In_Flow\<close>, \<open>Peg_In_Rules\<close>: the same for the peg-in (\<open>peg_in_reachable\<close>), with its signing rounds up to the witness
    that the script of connector Z accepts.

  The client (\<open>bridge/src/client\<close>).
  \<^item> \<open>Data_Store\<close> (\<open>data_store/\<close>): drivers as records of operations. The locale \<open>object_store\<close> states what a client relies on:
    what an upload that succeeded wrote is fetched and listed afterwards, and every other file stays. The driver over a
    directory (\<open>local_file.rs\<close>) is its interpretation; the answers of the operating system are a part of the directory's
    state, so each access can fail and a write can stop half way.
  \<^item> \<open>Client_State\<close>, \<open>Client_Sync\<close>, \<open>Client_Operations\<close>, \<open>Client_Queries\<close> (\<open>client.rs\<close>, \<open>client_command.rs\<close>): the data,
    merging and validation, synchronisation, the operations with the automatic mode, and the reports.
  \<^item> \<open>Client_Rules\<close>, \<open>Client_Automation\<close>, \<open>Client_Network\<close>, \<open>Client_Forgery\<close>: what synchronisation carries over, what the automatic
    mode achieves, many clients over one directory (\<open>bridge_step\<close>), and what validation lets through.

  BOUNDS AND LOOPS

  Script numbers have at most four bytes. \<open>num_ok\<close> is that range (below \<open>2 ^ 31\<close> in absolute value), and the lemmas on
  generators demand it of the stack positions that a script pushes; \<open>small_bigs\<close> is the same for integers of several limbs.
  \<open>wots_ok\<close> holds of parameters with digits of four to eight bits whose checksum fits its digits and a script number;
  the parameters of the bridge satisfy it for messages of at most 4194304 bytes. Most loops are structural recursions or
  functions with a measure. The two that might not end, the search for a logarithm in \<open>Winternitz\<close> and the planning loop
  in \<open>Bigint_Transform\<close>, are \<open>partial_function (option)\<close>, and are proved to return. No definition uses fuel. Where a graph is shown to be built
  without an overflow, the amounts it starts from are bounded by all bitcoins, \<open>max_money\<close>.

  PARAMETERS

  Code that is not in the repository is an argument: SHA-256 and the other hashes, ids of transactions (\<open>txid_of\<close>), Schnorr, ECDSA
  and MuSig2 (\<open>crypto\<close>), the answers of the Esplora client (one snapshot for each operation), the dust and relay policy (with
  \<open>core_policy\<close> as the instance of Bitcoin Core), serde, compression, regular expressions, the clock and random values. The
  chunked Groth16 verifier (\<open>api\<close>) is one, too. Theorems that need a law of such code state it as a named hypothesis
  (\<open>lossless\<close>, \<open>reads_back\<close>, \<open>signatures_verify\<close>, \<open>huffman_builds\<close>), and their witnesses give a concrete function with it.

  NOT MODELLED

  The scripts for SHA-256 and BLAKE3, BN254 with its pairing and the Groth16 verifiers, which stand on crates outside of the
  repository, with \<open>bigint/inv.rs\<close>, which serves them only; \<open>signatures/public.rs\<close>, a second interface to the signatures; the
  remote stores and the adaptors of the other chain, which are network access behind modelled interfaces; command lines
  other than the automatic mode, caches, serde and the prover. Within modelled files: signatures of P2WPKH inputs, the borsh
  encoding of transactions, \<open>generate_disprove_witness\<close>, the shifts and doublings of \<open>add.rs\<close> that check or allow an
  overflow, the parsing of numbers in \<open>std.rs\<close>, and \<open>get_unused_peg_in_graphs\<close>. Iteration over hash maps, whose order the code
  leaves open, is over a list in an arbitrary order.

  This theory only collects the others; every property stands, with its witness, in the theory of its component, after a
  comment that states it and its conditions.
\<close>

end
